(* ===== verification/Prelude.thy ===== *)
theory Prelude imports Main "HOL-Library.Multiset" begin

text \<open>
  Shared vocabulary of the development.

  \<^item> Every C++ operation that may raise \<^verbatim>\<open>cRuntimeError\<close> / \<^verbatim>\<open>opp_error\<close>, or whose
    behaviour is undefined (an iterator out of range, a NULL dereference, an uninitialised
    pointer that is returned), is a function into \<open>'a res\<close>; \<open>Thrown\<close> carries the name of
    the operation that raises.
  \<^item> \<^verbatim>\<open>std::vector\<close> and \<^verbatim>\<open>std::list\<close> are HOL lists.  The searching loops
    \<^verbatim>\<open>for (it = v.begin(); (it < v.end()) && (!found); it++)\<close> of the code are the
    recursive functions \<open>index_of\<close>, \<open>find_first\<close>, \<open>remove_first\<close>, \<open>update_first\<close> below.
  \<^item> C++ \<^verbatim>\<open>int\<close> identifiers, indices and counters are HOL \<open>int\<close> or \<open>nat\<close>; the
    unsigned block arithmetic, where wrap-around matters, is on \<open>32 word\<close> in its theories.
\<close>

named_theorems model_defs "definitions of the operations of a component"
named_theorems inv_intros "preservation of the component invariants"

subsection \<open>Results of fallible operations\<close>

datatype fault = Thrown string | Undefined

datatype 'a res = Ok 'a | Fail fault

fun bind_res :: "'a res \<Rightarrow> ('a \<Rightarrow> 'b res) \<Rightarrow> 'b res" where
  "bind_res (Ok x) f = f x"
| "bind_res (Fail e) f = Fail e"

lemma bind_res_Ok_iff: "bind_res m f = Ok y \<longleftrightarrow> (\<exists>x. m = Ok x \<and> f x = Ok y)"
  by (cases m) auto

lemma bind_res_OkE:
  assumes "bind_res m f = Ok y"
  obtains x where "m = Ok x" and "f x = Ok y"
  using assms by (auto simp: bind_res_Ok_iff)

lemma bind_res_Ok_right [simp]: "bind_res m Ok = m"
  by (cases m) auto

lemma bind_res_assoc: "bind_res (bind_res m f) g = bind_res m (\<lambda>x. bind_res (f x) g)"
  by (cases m) auto

lemma bind_res_cong [fundef_cong]:
  "m = m' \<Longrightarrow> (\<And>x. m' = Ok x \<Longrightarrow> f x = f' x) \<Longrightarrow> bind_res m f = bind_res m' f'"
  by (cases m') auto

fun res_ok :: "'a res \<Rightarrow> bool" where
  "res_ok (Ok _) = True"
| "res_ok (Fail _) = False"

lemma res_okE:
  assumes "res_ok r"
  obtains x where "r = Ok x"
  using assms by (cases r) auto

fun fold_res :: "('b \<Rightarrow> 'a \<Rightarrow> 'a res) \<Rightarrow> 'b list \<Rightarrow> 'a \<Rightarrow> 'a res" where
  "fold_res f [] s = Ok s"
| "fold_res f (x # xs) s = bind_res (f x s) (fold_res f xs)"

text \<open>An invariant that every fault-free step keeps is kept by a whole fault-free run.\<close>

lemma fold_res_invariant:
  assumes "\<And>x s s'. P s \<Longrightarrow> f x s = Ok s' \<Longrightarrow> P s'"
    and "P s" and "fold_res f xs s = Ok s'"
  shows "P s'"
  using assms(2,3) by (induction xs arbitrary: s) (auto elim!: bind_res_OkE dest: assms(1))

lemma fold_res_append:
  "fold_res f (xs @ ys) s = bind_res (fold_res f xs s) (fold_res f ys)"
  by (induction xs arbitrary: s) (auto simp: bind_res_assoc intro: bind_res_cong)

subsection \<open>C++ integers\<close>

text \<open>
  A signed operation that leaves the range of \<^verbatim>\<open>int\<close> is undefined; a conversion to
  \<^verbatim>\<open>unsigned int\<close> wraps, and so does the conversion back.
\<close>

definition checked_int :: "int \<Rightarrow> int res" where
  "checked_int i = (if - (2 ^ 31) \<le> i \<and> i < 2 ^ 31 then Ok i else Fail Undefined)"

definition to_unsigned :: "int \<Rightarrow> int" where
  "to_unsigned i = i mod 2 ^ 32"

definition to_signed :: "int \<Rightarrow> int" where
  "to_signed u = (if u < 2 ^ 31 then u else u - 2 ^ 32)"

lemma checked_int_Ok: "checked_int i = Ok j \<longleftrightarrow> j = i \<and> - (2 ^ 31) \<le> i \<and> i < 2 ^ 31"
  by (auto simp: checked_int_def)

lemma to_unsigned_id [simp]: "0 \<le> i \<Longrightarrow> i < 2 ^ 32 \<Longrightarrow> to_unsigned i = i"
  by (simp add: to_unsigned_def)

lemma to_signed_id [simp]: "u < 2 ^ 31 \<Longrightarrow> to_signed u = u"
  by (simp add: to_signed_def)

subsection \<open>Searching loops over vectors\<close>

fun index_of :: "('a \<Rightarrow> bool) \<Rightarrow> 'a list \<Rightarrow> nat option" where
  "index_of P [] = None"
| "index_of P (x # xs) = (if P x then Some 0 else map_option Suc (index_of P xs))"

fun find_first :: "('a \<Rightarrow> bool) \<Rightarrow> 'a list \<Rightarrow> 'a option" where
  "find_first P [] = None"
| "find_first P (x # xs) = (if P x then Some x else find_first P xs)"

fun remove_first :: "('a \<Rightarrow> bool) \<Rightarrow> 'a list \<Rightarrow> 'a list" where
  "remove_first P [] = []"
| "remove_first P (x # xs) = (if P x then xs else x # remove_first P xs)"

fun update_first :: "('a \<Rightarrow> bool) \<Rightarrow> ('a \<Rightarrow> 'a) \<Rightarrow> 'a list \<Rightarrow> 'a list" where
  "update_first P f [] = []"
| "update_first P f (x # xs) = (if P x then f x # xs else x # update_first P f xs)"

definition remove_at :: "nat \<Rightarrow> 'a list \<Rightarrow> 'a list" where
  "remove_at i xs = take i xs @ drop (Suc i) xs"

definition insert_at :: "nat \<Rightarrow> 'a \<Rightarrow> 'a list \<Rightarrow> 'a list" where
  "insert_at i x xs = take i xs @ x # drop i xs"

lemma index_of_None: "index_of P xs = None \<longleftrightarrow> (\<forall>x\<in>set xs. \<not> P x)"
  by (induction xs) auto

lemma index_of_Some:
  "index_of P xs = Some i \<longleftrightarrow> i < length xs \<and> P (xs ! i) \<and> (\<forall>j<i. \<not> P (xs ! j))"
proof (induction xs arbitrary: i)
  case Nil
  then show ?case by simp
next
  case (Cons x xs)
  show ?case
  proof (cases i)
    case 0
    then show ?thesis by auto
  next
    case (Suc k)
    then show ?thesis using Cons.IH[of k] by (auto simp: All_less_Suc2)
  qed
qed

lemma index_of_bound: "index_of P xs = Some i \<Longrightarrow> i < length xs"
  by (simp add: index_of_Some)

lemma index_of_append:
  "index_of P (xs @ ys) = (case index_of P xs of Some i \<Rightarrow> Some i
     | None \<Rightarrow> map_option (\<lambda>j. length xs + j) (index_of P ys))"
proof (induction xs)
  case Nil
  show ?case by (cases "index_of P ys") simp_all
next
  case (Cons x xs)
  then show ?case by (cases "index_of P xs"; cases "index_of P ys") simp_all
qed

lemma find_first_None: "find_first P xs = None \<longleftrightarrow> (\<forall>x\<in>set xs. \<not> P x)"
  by (induction xs) auto

lemma find_first_Some: "find_first P xs = Some x \<Longrightarrow> x \<in> set xs \<and> P x"
  by (induction xs) (auto split: if_splits)

lemma find_first_index: "find_first P xs = map_option (\<lambda>i. xs ! i) (index_of P xs)"
  by (induction xs) (auto simp: option.map_comp comp_def)

lemma remove_first_index:
  "remove_first P xs = (case index_of P xs of None \<Rightarrow> xs | Some i \<Rightarrow> remove_at i xs)"
  by (induction xs) (auto simp: remove_at_def split: option.splits)

lemma remove_first_id [simp]: "(\<forall>x\<in>set xs. \<not> P x) \<Longrightarrow> remove_first P xs = xs"
  by (induction xs) auto

lemma set_remove_first: "set (remove_first P xs) \<subseteq> set xs"
  by (induction xs) auto

lemma remove_first_keeps: "y \<in> set xs \<Longrightarrow> \<not> P y \<Longrightarrow> y \<in> set (remove_first P xs)"
  by (induction xs) auto

lemma length_remove_first:
  "length (remove_first P xs) = (if \<exists>x\<in>set xs. P x then length xs - 1 else length xs)"
  by (induction xs) (auto simp: Suc_diff_1 dest: length_pos_if_in_set)

lemma mset_remove_first:
  "find_first P xs = Some x \<Longrightarrow> mset xs = add_mset x (mset (remove_first P xs))"
  by (induction xs) (auto split: if_splits)

lemma distinct_map_remove_first [intro]:
  "distinct (map f xs) \<Longrightarrow> distinct (map f (remove_first P xs))"
  using set_remove_first by (induction xs) fastforce+

lemma remove_first_distinct:
  "distinct (map key xs) \<Longrightarrow> remove_first (\<lambda>x. key x = k) xs = filter (\<lambda>x. key x \<noteq> k) xs"
proof (induction xs)
  case (Cons x xs)
  have "filter (\<lambda>y. key y \<noteq> key x) xs = xs"
    using Cons.prems by (intro filter_True) (auto simp: image_iff)
  then show ?case using Cons by auto
qed simp

lemma length_update_first [simp]: "length (update_first P f xs) = length xs"
  by (induction xs) auto

lemma update_first_id [simp]: "(\<forall>x\<in>set xs. \<not> P x) \<Longrightarrow> update_first P f xs = xs"
  by (induction xs) auto

lemma map_update_first: "(\<And>x. g (f x) = g x) \<Longrightarrow> map g (update_first P f xs) = map g xs"
  by (induction xs) auto

lemma find_first_update_first:
  "(\<And>x. Q (f x) = Q x) \<Longrightarrow> (\<And>x. Q x = P x) \<Longrightarrow>
   find_first Q (update_first P f xs) = map_option f (find_first Q xs)"
  by (induction xs) auto

lemma find_first_append:
  "find_first P (xs @ ys) = (case find_first P xs of None \<Rightarrow> find_first P ys | Some x \<Rightarrow> Some x)"
  by (induction xs) auto

lemma in_set_update: "x \<in> set (xs[i := y]) \<Longrightarrow> x = y \<or> x \<in> set xs"
  using set_update_subset_insert by fastforce

lemma length_remove_at: "i < length xs \<Longrightarrow> length (remove_at i xs) = length xs - 1"
  by (auto simp: remove_at_def)

lemma remove_at_map: "map f (remove_at i xs) = remove_at i (map f xs)"
  by (simp add: remove_at_def take_map drop_map)

lemma remove_at_Suc [simp]: "remove_at (Suc i) (x # xs) = x # remove_at i xs"
  by (simp add: remove_at_def)

lemma set_remove_at: "set (remove_at i xs) \<subseteq> set xs"
  by (auto simp: remove_at_def dest: in_set_takeD in_set_dropD)

lemma zip_remove_at:
  "length xs = length ys \<Longrightarrow> zip (remove_at i xs) (remove_at i ys) = remove_at i (zip xs ys)"
  by (simp add: remove_at_def zip_append take_zip drop_zip)

lemma sum_list_remove_at:
  fixes xs :: "int list"
  assumes "i < length xs"
  shows "sum_list (remove_at i xs) = sum_list xs - xs ! i"
proof -
  have "sum_list xs = sum_list (take i xs @ xs ! i # drop (Suc i) xs)" using id_take_nth_drop[OF assms] by simp
  then show ?thesis by (simp add: remove_at_def)
qed

lemma mset_remove_at: "i < length xs \<Longrightarrow> mset xs = add_mset (xs ! i) (mset (remove_at i xs))"
  by (subst id_take_nth_drop[of i xs]) (auto simp: remove_at_def)

lemma distinct_submset:
  assumes "mset xs \<subseteq># mset ys" "distinct ys"
  shows "distinct xs"
proof -
  obtain M where "mset ys = mset xs + M" using assms(1) by (auto simp: subset_mset.le_iff_add)
  moreover obtain zs where "mset zs = M" using ex_mset by blast
  ultimately have "mset (xs @ zs) = mset ys" by simp
  from mset_eq_imp_distinct_iff[OF this] assms(2) show ?thesis by simp
qed

lemma remove_at_distinct: "distinct xs \<Longrightarrow> distinct (remove_at i xs)"
  using set_take_disj_set_drop_if_distinct[of xs i "Suc i"] by (simp add: remove_at_def)

lemma length_insert_at [simp]: "length (insert_at i x xs) = Suc (length xs)"
  by (simp add: insert_at_def)

lemma mset_insert_at [simp]: "mset (insert_at i x xs) = add_mset x (mset xs)"
proof -
  have "mset (take i xs) + mset (drop i xs) = mset xs"
    by (metis append_take_drop_id mset_append)
  then show ?thesis by (simp add: insert_at_def)
qed

lemma insert_at_length [simp]: "insert_at (length xs) x xs = xs @ [x]"
  by (simp add: insert_at_def)

lemma nth_insert_at [simp]: "i \<le> length xs \<Longrightarrow> insert_at i x xs ! i = x"
  by (simp add: insert_at_def nth_append)

lemma filter_remove_at:
  assumes "n < length xs"
  shows "\<not> P (xs ! n) \<Longrightarrow> filter P (remove_at n xs) = filter P xs"
    and "P (xs ! n) \<Longrightarrow> filter P xs = [x] \<Longrightarrow> xs ! n = x \<and> filter P (remove_at n xs) = []"
proof -
  have xs: "xs = take n xs @ xs ! n # drop (Suc n) xs" using assms by (rule id_take_nth_drop)
  have "filter P xs = filter P (take n xs @ xs ! n # drop (Suc n) xs)" using xs by (rule arg_cong)
  also have "\<dots> = filter P (take n xs) @ (if P (xs ! n) then [xs ! n] else []) @ filter P (drop (Suc n) xs)" by simp
  finally have f: "filter P xs = filter P (take n xs) @ (if P (xs ! n) then [xs ! n] else []) @ filter P (drop (Suc n) xs)" .
  from f show "\<not> P (xs ! n) \<Longrightarrow> filter P (remove_at n xs) = filter P xs"
    and "P (xs ! n) \<Longrightarrow> filter P xs = [x] \<Longrightarrow> xs ! n = x \<and> filter P (remove_at n xs) = []"
    by (auto simp: remove_at_def append_eq_Cons_conv Cons_eq_append_conv)
qed

lemma remove_at_0 [simp]: "remove_at 0 (x # xs) = xs"
  by (simp add: remove_at_def)

lemma remove_at_length [simp]: "remove_at (length xs) (xs @ [x]) = xs"
  by (simp add: remove_at_def)

lemma remove_at_insert_at: "i \<le> length xs \<Longrightarrow> remove_at i (insert_at i x xs) = xs"
  by (simp add: remove_at_def insert_at_def)

end
