(* ===== verification/Messages.thy ===== *)
theory Messages imports Prelude Complex_Main "HOL-Library.Word" begin

text \<open>
  Messages of the simulator (\<^verbatim>\<open>src/src/Base/Messages\<close>).

  The record \<open>message\<close> has the fields of \<^verbatim>\<open>icancloud_Message.msg\<close> that the modelled modules
  read or write; the dynamic class of a message (CPU, IO, MEM, NET, migration) is its
  \<open>payload\<close>, so that a \<^verbatim>\<open>dynamic_cast\<close> is a case distinction.  A pointer to a message is
  its \<open>msg_id\<close> (\<^verbatim>\<open>cMessage::getId\<close>).  The trace of a message is the list of nodes and modules
  it has visited; its operations are those of \<^verbatim>\<open>icancloud_Message.cc\<close>, with
  \<^verbatim>\<open>opp_error\<close> as \<open>Thrown\<close> and \<^verbatim>\<open>back()\<close> of an empty vector as \<open>Undefined\<close>.
\<close>

record trace_component =
  moduleID :: int
  gateID :: int
  reqSequence :: "nat list"

type_synonym trace = "(string \<times> trace_component list) list"

record cpu_fields =
  cpuTime :: rat
  totalMIs :: nat
  remainingMIs :: nat
  quantum :: int

record nfs_fields =
  nfs_destAddress :: string
  nfs_destPort :: int
  nfs_type :: string
  nfs_requestSize_KB :: int
  nfs_connectionID :: int

text \<open>
  The branches of a file, in sectors.  A block list message is a subclass of the I/O message: an I/O
  payload with \<open>io_blocks\<close>.
\<close>

record file_branch =
  br_offset :: "64 word"
  br_numBlocks :: "64 word"

record icancloud_file =
  fi_name :: string
  fi_size :: "32 word"
  fi_branches :: "file_branch list"

record io_fields =
  io_fileName :: string
  io_offset :: nat
  io_size :: nat
  io_nfs :: nfs_fields
  io_nfs_id :: int
  io_blocks :: "icancloud_file option"

text \<open>
  \<^verbatim>\<open>icancloud_Migration_Message\<close> is a subclass of the network message: a network payload with
  \<open>migration_part\<close>.
\<close>

record migration_fields =
  memorySizeKB :: int
  diskSizeKB :: int

record net_fields =
  destinationIP :: string
  localIP :: string
  destinationPort :: int
  localPort :: int
  virtual_destinationIP :: string
  virtual_localIP :: string
  virtual_user :: int
  virtual_destinationPort :: int
  virtual_localPort :: int
  migration_part :: "migration_fields option"

datatype payload =
    NoPayload
  | CpuPayload cpu_fields
  | IoPayload io_fields
  | MemPayload nat
  | NetPayload net_fields

record message =
  msg_id :: int
  payload :: payload
  operation :: int
  isResponse :: bool
  remoteOperation :: bool
  connectionId :: int
  commId :: int
  nextModuleIndex :: int
  result_code :: int
  uid :: int
  pid :: int
  arrival :: "string \<times> nat"
  msg_trace :: trace
  parentRequest :: "int option"
  changing_state :: string
  change_states_index :: "int list"

subsection \<open>Dynamic casts\<close>

definition cast_cpu :: "message \<Rightarrow> cpu_fields option" where
  "cast_cpu m = (case payload m of CpuPayload c \<Rightarrow> Some c | _ \<Rightarrow> None)"

definition cast_io :: "message \<Rightarrow> io_fields option" where
  "cast_io m = (case payload m of IoPayload i \<Rightarrow> Some i | _ \<Rightarrow> None)"

definition cast_mem :: "message \<Rightarrow> nat option" where
  "cast_mem m = (case payload m of MemPayload n \<Rightarrow> Some n | _ \<Rightarrow> None)"

definition cast_net :: "message \<Rightarrow> net_fields option" where
  "cast_net m = (case payload m of NetPayload n \<Rightarrow> Some n | _ \<Rightarrow> None)"

definition cast_migration :: "message \<Rightarrow> migration_fields option" where
  "cast_migration m = (case payload m of NetPayload n \<Rightarrow> migration_part n | _ \<Rightarrow> None)"

definition arrivedOn :: "message \<Rightarrow> string \<Rightarrow> bool" where
  "arrivedOn m g \<longleftrightarrow> fst (arrival m) = g"

text \<open>Operations of the components of a node.\<close>

definition icancloud_OK :: int where "icancloud_OK = 0"
definition NOT_FOUND :: int where "NOT_FOUND = -4"
definition SM_CHANGE_CPU_STATE :: int where "SM_CHANGE_CPU_STATE = 71"
definition SM_CHANGE_DISK_STATE :: int where "SM_CHANGE_DISK_STATE = 16"
definition SM_CHANGE_MEMORY_STATE :: int where "SM_CHANGE_MEMORY_STATE = 53"
definition SM_MEM_ALLOCATE :: int where "SM_MEM_ALLOCATE = 50"
definition SM_MEM_RELEASE :: int where "SM_MEM_RELEASE = 51"
definition SM_MEM_SEARCH :: int where "SM_MEM_SEARCH = 52"

subsection \<open>The trace of a message\<close>

definition vec_back :: "'a list \<Rightarrow> 'a res" where
  "vec_back xs = (if xs = [] then Fail Undefined else Ok (last xs))"

definition set_vec_back :: "'a list \<Rightarrow> 'a \<Rightarrow> 'a list" where
  "set_vec_back xs x = butlast xs @ [x]"

definition isTraceEmpty :: "trace \<Rightarrow> bool" where
  "isTraceEmpty t = (t = [])"

definition addModuleToTrace :: "int \<Rightarrow> int \<Rightarrow> nat \<Rightarrow> trace \<Rightarrow> trace res" where
  "addModuleToTrace modl gate currentReq t =
     (if t = [] then Fail (Thrown ''addModuleToTrace'')
      else Ok (set_vec_back t (fst (last t), snd (last t) @
             [\<lparr>moduleID = modl, gateID = gate, reqSequence = [currentReq]\<rparr>])))"

definition removeLastModuleFromTrace :: "trace \<Rightarrow> trace res" where
  "removeLastModuleFromTrace t =
     (if t = [] then Fail (Thrown ''removeLastModuleFromTrace'')
      else if snd (last t) = [] then Fail Undefined
      else Ok (set_vec_back t (fst (last t), butlast (snd (last t)))))"

definition addNodeToTrace :: "string \<Rightarrow> trace \<Rightarrow> trace" where
  "addNodeToTrace node t = t @ [(node, [])]"

definition removeLastNodeFromTrace :: "trace \<Rightarrow> trace res" where
  "removeLastNodeFromTrace t =
     (if t = [] then Fail (Thrown ''removeLastNodeFromTrace'') else Ok (butlast t))"

definition lastModule :: "string \<Rightarrow> trace \<Rightarrow> trace_component res" where
  "lastModule op t = (if t = [] then Fail (Thrown op) else vec_back (snd (last t)))"

definition addRequestToTrace :: "nat \<Rightarrow> trace \<Rightarrow> trace res" where
  "addRequestToTrace request t = bind_res (lastModule ''addRequestToTrace'' t) (\<lambda>c.
     Ok (set_vec_back t (fst (last t),
           set_vec_back (snd (last t)) (c\<lparr>reqSequence := reqSequence c @ [request]\<rparr>))))"

definition removeLastRequestFromTrace :: "trace \<Rightarrow> trace res" where
  "removeLastRequestFromTrace t = bind_res (lastModule ''removeLastRequestFromTrace'' t) (\<lambda>c.
     if reqSequence c = [] then Fail Undefined
     else Ok (set_vec_back t (fst (last t),
           set_vec_back (snd (last t)) (c\<lparr>reqSequence := butlast (reqSequence c)\<rparr>))))"

definition getLastGateId :: "trace \<Rightarrow> int res" where
  "getLastGateId t = bind_res (lastModule ''getLastGateId'' t) (\<lambda>c. Ok (gateID c))"

definition getLastModuleId :: "trace \<Rightarrow> int res" where
  "getLastModuleId t = bind_res (lastModule ''getLastModuleId'' t) (\<lambda>c. Ok (moduleID c))"

definition getCurrentRequest :: "trace \<Rightarrow> nat res" where
  "getCurrentRequest t =
     bind_res (lastModule ''getCurrentRequest'' t) (\<lambda>c. vec_back (reqSequence c))"

definition get_component_to_change :: "message \<Rightarrow> int \<Rightarrow> int res" where
  "get_component_to_change m componentsPosition =
     (if change_states_index m = [] then Fail Undefined
      else Ok (hd (change_states_index m) + componentsPosition))"

lemmas trace_defs = addModuleToTrace_def removeLastModuleFromTrace_def addNodeToTrace_def
  removeLastNodeFromTrace_def addRequestToTrace_def removeLastRequestFromTrace_def
  getLastGateId_def getLastModuleId_def getCurrentRequest_def lastModule_def vec_back_def set_vec_back_def

lemma butlast_last_update [simp]: "xs \<noteq> [] \<Longrightarrow> butlast xs @ [(fst (last xs), snd (last xs))] = xs"
  by simp

lemma addModule_removeModule:
  "addModuleToTrace i g r t = Ok t' \<Longrightarrow> removeLastModuleFromTrace t' = Ok t"
  by (auto simp: trace_defs split: if_splits)

lemma addModule_lastGate: "addModuleToTrace i g r t = Ok t' \<Longrightarrow> getLastGateId t' = Ok g"
  by (auto simp: trace_defs split: if_splits)

lemma addModule_lastModule: "addModuleToTrace i g r t = Ok t' \<Longrightarrow> getLastModuleId t' = Ok i"
  by (auto simp: trace_defs split: if_splits)

lemma addRequest_current: "addRequestToTrace r t = Ok t' \<Longrightarrow> getCurrentRequest t' = Ok r"
  by (auto simp: trace_defs split: if_splits)

lemma addRequest_removeRequest:
  "addRequestToTrace r t = Ok t' \<Longrightarrow> removeLastRequestFromTrace t' = Ok t"
  by (auto simp: trace_defs split: if_splits)

lemma addNode_removeNode: "removeLastNodeFromTrace (addNodeToTrace n t) = Ok t"
  by (simp add: trace_defs)

end
