(* ===== verification/ModuleBase.thy ===== *)
theory ModuleBase imports Messages begin

text \<open>
  \<^verbatim>\<open>icancloud_Base\<close> (\<^verbatim>\<open>src/src/Base/icancloud_Base.cc\<close>): the base class of every simulated
  module.  An arriving request is traced, queued, and the queue is served; serving a request
  may send messages, and \<^verbatim>\<open>sendRequestMessage\<close> and \<^verbatim>\<open>sendResponseMessage\<close> serve the queue again
  before they return.  That recursion is the \<open>pump\<close> argument of the handlers: a handler is
  given the function that serves the queue and calls it wherever the code sends.

  OMNeT++ is not part of the repository.  What a module hands to it, messages sent and messages
  deleted, is recorded in order in \<open>outbox\<close>; the id of the gate that leads back to the sender of
  a message (the virtual \<^verbatim>\<open>getOutGate\<close>) is the parameter \<open>og\<close>.

  The locale \<open>message_module\<close> states what the base class needs of a module; under it the queue
  is empty between two events, so every event is served completely before the next one.
\<close>

type_synonym gate = "string \<times> nat"

datatype destination = ViaGate "gate option" | ViaGateId int

datatype event = Sent message destination | Deleted message

record module_state =
  queue :: "message list"
  outbox :: "event list"
  currentRequest :: nat
  latencyScheduled :: bool
  module_id :: int
  host_name :: string

datatype input = SelfMsg string | Incoming message

definition base_initialize :: "int \<Rightarrow> string \<Rightarrow> module_state" where
  "base_initialize i host = \<lparr>queue = [], outbox = [], currentRequest = 0, latencyScheduled = False,
     module_id = i, host_name = host\<rparr>"

definition NO_GATE_ID :: int where "NO_GATE_ID = -5"

definition emit :: "event \<Rightarrow> 'a module_state_scheme \<Rightarrow> 'a module_state_scheme" where
  "emit e s = s\<lparr>outbox := outbox s @ [e]\<rparr>"

definition isPendingRequest :: "'a module_state_scheme \<Rightarrow> bool" where
  "isPendingRequest s = latencyScheduled s"

definition updateMessageTrace ::
  "(message \<Rightarrow> int option) \<Rightarrow> message \<Rightarrow> 'a module_state_scheme
     \<Rightarrow> (message \<times> 'a module_state_scheme) res" where
  "updateMessageTrace og sm s =
     bind_res (addModuleToTrace (module_id s)
                 (case og sm of None \<Rightarrow> NO_GATE_ID | Some g \<Rightarrow> g) (currentRequest s) (msg_trace sm))
       (\<lambda>t. Ok (sm\<lparr>msg_trace := t\<rparr>, s\<lparr>currentRequest := Suc (currentRequest s)\<rparr>))"

definition sendRequestMessage ::
  "(message \<Rightarrow> int option) \<Rightarrow> ('a module_state_scheme \<Rightarrow> 'a module_state_scheme res)
     \<Rightarrow> message \<Rightarrow> gate option \<Rightarrow> 'a module_state_scheme \<Rightarrow> 'a module_state_scheme res" where
  "sendRequestMessage og pump sm g s =
     bind_res (if isTraceEmpty (msg_trace sm)
               then updateMessageTrace og
                      (sm\<lparr>msg_trace := addNodeToTrace (host_name s) (msg_trace sm)\<rparr>) s
               else Ok (sm, s))
       (\<lambda>(sm, s). pump (emit (Sent sm (ViaGate g)) s))"

definition sendResponseMessage ::
  "('a module_state_scheme \<Rightarrow> 'a module_state_scheme res) \<Rightarrow> message
     \<Rightarrow> 'a module_state_scheme \<Rightarrow> 'a module_state_scheme res" where
  "sendResponseMessage pump sm s =
     bind_res (getLastGateId (msg_trace sm)) (\<lambda>gateId.
     bind_res (removeLastModuleFromTrace (msg_trace sm)) (\<lambda>t.
       pump (emit (Sent (sm\<lparr>msg_trace := t\<rparr>) (ViaGateId gateId)) s)))"

text \<open>
  The recursion of \<^verbatim>\<open>processCurrentRequestMessage\<close> is bounded by the length of the queue: each
  call pops one message, and only the arrival of an event pushes one.
\<close>

fun serve :: "nat \<Rightarrow> (('a module_state_scheme \<Rightarrow> 'a module_state_scheme res) \<Rightarrow> message
     \<Rightarrow> 'a module_state_scheme \<Rightarrow> 'a module_state_scheme res)
     \<Rightarrow> 'a module_state_scheme \<Rightarrow> 'a module_state_scheme res" where
  "serve 0 h s = Ok s"
| "serve (Suc n) h s =
     (if \<not> isPendingRequest s
      then (case queue s of
              [] \<Rightarrow> Ok s
            | sm # rest \<Rightarrow> h (serve n h) sm (s\<lparr>queue := rest\<rparr>))
      else Ok s)"

definition processCurrentRequestMessage ::
  "(('a module_state_scheme \<Rightarrow> 'a module_state_scheme res) \<Rightarrow> message
     \<Rightarrow> 'a module_state_scheme \<Rightarrow> 'a module_state_scheme res)
     \<Rightarrow> 'a module_state_scheme \<Rightarrow> 'a module_state_scheme res" where
  "processCurrentRequestMessage h s = serve (length (queue s)) h s"

definition handleMessage ::
  "(message \<Rightarrow> int option) \<Rightarrow> (string \<Rightarrow> 'a module_state_scheme \<Rightarrow> 'a module_state_scheme res)
     \<Rightarrow> (('a module_state_scheme \<Rightarrow> 'a module_state_scheme res) \<Rightarrow> message
          \<Rightarrow> 'a module_state_scheme \<Rightarrow> 'a module_state_scheme res)
     \<Rightarrow> (('a module_state_scheme \<Rightarrow> 'a module_state_scheme res) \<Rightarrow> message
          \<Rightarrow> 'a module_state_scheme \<Rightarrow> 'a module_state_scheme res)
     \<Rightarrow> input \<Rightarrow> 'a module_state_scheme \<Rightarrow> 'a module_state_scheme res" where
  "handleMessage og self_h req_h resp_h inp s = (case inp of
     SelfMsg name \<Rightarrow> self_h name s
   | Incoming sm \<Rightarrow>
       (if \<not> isResponse sm
        then bind_res (updateMessageTrace og sm s) (\<lambda>(sm, s).
               processCurrentRequestMessage req_h (s\<lparr>queue := queue s @ [sm]\<rparr>))
        else resp_h (processCurrentRequestMessage req_h) sm s))"

lemma emit_simps [simp]:
  "queue (emit e s) = queue s" "outbox (emit e s) = outbox s @ [e]"
  "currentRequest (emit e s) = currentRequest s"
  "latencyScheduled (emit e s) = latencyScheduled s"
  "module_id (emit e s) = module_id s" "host_name (emit e s) = host_name s"
  "module_state.more (emit e s) = module_state.more s"
  by (simp_all add: emit_def)

lemma serve_empty [simp]: "queue s = [] \<Longrightarrow> serve n h s = Ok s"
  by (cases n) auto

lemma process_empty [simp]: "queue s = [] \<Longrightarrow> processCurrentRequestMessage h s = Ok s"
  by (simp add: processCurrentRequestMessage_def)

lemma updateMessageTrace_frame:
  "updateMessageTrace og sm s = Ok (sm', s') \<Longrightarrow>
   queue s' = queue s \<and> latencyScheduled s' = latencyScheduled s \<and> outbox s' = outbox s \<and>
   module_state.more s' = module_state.more s \<and> (\<exists>t. sm' = sm\<lparr>msg_trace := t\<rparr>)"
  by (auto simp: updateMessageTrace_def elim!: bind_res_OkE)

text \<open>Sending with a pump that has nothing to do only writes the outbox.\<close>

lemma sendRequestMessage_idle:
  "queue s = [] \<Longrightarrow> (\<And>t. queue t = [] \<Longrightarrow> p t = Ok t) \<Longrightarrow>
   sendRequestMessage og p sm g s = sendRequestMessage og Ok sm g s"
  unfolding sendRequestMessage_def
  by (rule bind_res_cong) (auto dest!: updateMessageTrace_frame split: if_splits)

lemma sendResponseMessage_idle:
  "queue s = [] \<Longrightarrow> (\<And>t. queue t = [] \<Longrightarrow> p t = Ok t) \<Longrightarrow>
   sendResponseMessage p sm s = sendResponseMessage Ok sm s"
  unfolding sendResponseMessage_def by (intro bind_res_cong) auto

lemma msg_trace_same: "\<exists>t. m = m\<lparr>msg_trace := t\<rparr>"
  by (rule exI[of _ "msg_trace m"]) simp

lemma sendRequestMessage_frame:
  assumes "sendRequestMessage og Ok sm g s = Ok s'"
  shows "queue s' = queue s \<and> latencyScheduled s' = latencyScheduled s \<and>
   module_state.more s' = module_state.more s \<and>
   (\<exists>t. outbox s' = outbox s @ [Sent (sm\<lparr>msg_trace := t\<rparr>) (ViaGate g)])"
proof (cases "isTraceEmpty (msg_trace sm)")
  case True
  with assms show ?thesis
    by (auto simp: sendRequestMessage_def bind_res_Ok_iff dest!: updateMessageTrace_frame)
next
  case False
  with assms msg_trace_same[of sm] show ?thesis
    by (auto simp: sendRequestMessage_def)
qed

lemma sendResponseMessage_frame:
  "sendResponseMessage Ok sm s = Ok s' \<Longrightarrow>
   queue s' = queue s \<and> latencyScheduled s' = latencyScheduled s \<and>
   module_state.more s' = module_state.more s \<and>
   (\<exists>t g. outbox s' = outbox s @ [Sent (sm\<lparr>msg_trace := t\<rparr>) (ViaGateId g)])"
  by (auto simp: sendResponseMessage_def elim!: bind_res_OkE)

text \<open>\<open>sent_events es s s'\<close>: the module has handed the events \<open>es\<close> to OMNeT++ and kept its own state.\<close>

definition sent_events :: "event list \<Rightarrow> 'a module_state_scheme \<Rightarrow> 'a module_state_scheme \<Rightarrow> bool" where
  "sent_events es s s' \<longleftrightarrow> queue s' = queue s \<and> latencyScheduled s' = latencyScheduled s \<and>
     module_state.more s' = module_state.more s \<and> outbox s' = outbox s @ es"

lemma sendRequestMessage_sent:
  assumes "sendRequestMessage og Ok sm g s = Ok s'"
  obtains t where "sent_events [Sent (sm\<lparr>msg_trace := t\<rparr>) (ViaGate g)] s s'"
  using sendRequestMessage_frame[OF assms] that by (auto simp: sent_events_def)

lemma sendResponseMessage_sent:
  assumes "sendResponseMessage Ok sm s = Ok s'"
  obtains t g where "sent_events [Sent (sm\<lparr>msg_trace := t\<rparr>) (ViaGateId g)] s s'"
  using sendResponseMessage_frame[OF assms] that by (auto simp: sent_events_def)

subsection \<open>The contract of a module and what the base class gives for it\<close>

locale message_module =
  fixes og :: "message \<Rightarrow> int option"
    and self_h :: "string \<Rightarrow> 'a module_state_scheme \<Rightarrow> 'a module_state_scheme res"
    and req_h resp_h :: "('a module_state_scheme \<Rightarrow> 'a module_state_scheme res) \<Rightarrow> message
          \<Rightarrow> 'a module_state_scheme \<Rightarrow> 'a module_state_scheme res"
  assumes req_idle: "queue s = [] \<Longrightarrow> (\<And>t. queue t = [] \<Longrightarrow> p t = Ok t) \<Longrightarrow>
      req_h p m s = req_h Ok m s"
    and resp_idle: "queue s = [] \<Longrightarrow> (\<And>t. queue t = [] \<Longrightarrow> p t = Ok t) \<Longrightarrow>
      resp_h p m s = resp_h Ok m s"
    and req_queue: "queue s = [] \<Longrightarrow> req_h Ok m s = Ok s' \<Longrightarrow>
      queue s' = [] \<and> latencyScheduled s' = latencyScheduled s"
    and resp_queue: "queue s = [] \<Longrightarrow> resp_h Ok m s = Ok s' \<Longrightarrow>
      queue s' = [] \<and> latencyScheduled s' = latencyScheduled s"
    and self_queue: "queue s = [] \<Longrightarrow> self_h n s = Ok s' \<Longrightarrow>
      queue s' = [] \<and> latencyScheduled s' = latencyScheduled s"
begin

lemma handle_request:
  assumes "queue s = []" "\<not> latencyScheduled s" "\<not> isResponse m"
  shows "handleMessage og self_h req_h resp_h (Incoming m) s =
         bind_res (updateMessageTrace og m s) (\<lambda>(m', s'). req_h Ok m' s')"
proof -
  have "processCurrentRequestMessage req_h (s'\<lparr>queue := queue s' @ [m']\<rparr>) = req_h Ok m' s'"
    if "updateMessageTrace og m s = Ok (m', s')" for m' s'
  proof -
    have q: "queue s' = []" "\<not> latencyScheduled s'"
      using updateMessageTrace_frame[OF that] assms by auto
    have same: "s'\<lparr>queue := []\<rparr> = s'" using q(1) by (cases s') simp
    have "processCurrentRequestMessage req_h (s'\<lparr>queue := queue s' @ [m']\<rparr>)
            = req_h (serve 0 req_h) m' (s'\<lparr>queue := []\<rparr>)"
      using q by (simp add: processCurrentRequestMessage_def isPendingRequest_def)
    also have "\<dots> = req_h (serve 0 req_h) m' s'" by (simp only: same)
    also have "\<dots> = req_h Ok m' s'" using q(1) by (rule req_idle) simp
    finally show ?thesis .
  qed
  then show ?thesis using assms(3)
    by (auto simp: handleMessage_def intro!: bind_res_cong)
qed

lemma handle_response:
  assumes "queue s = []" "isResponse m"
  shows "handleMessage og self_h req_h resp_h (Incoming m) s = resp_h Ok m s"
  using assms resp_idle[of s "processCurrentRequestMessage req_h" m]
  by (simp add: handleMessage_def)

lemma handle_quiescent:
  assumes "queue s = []" "\<not> latencyScheduled s"
    and "handleMessage og self_h req_h resp_h inp s = Ok s'"
  shows "queue s' = [] \<and> \<not> latencyScheduled s'"
proof (cases inp)
  case (SelfMsg n)
  then show ?thesis using assms self_queue by (auto simp: handleMessage_def)
next
  case (Incoming m)
  show ?thesis
  proof (cases "isResponse m")
    case True
    with assms Incoming have "resp_h Ok m s = Ok s'" by (simp add: handle_response)
    then show ?thesis using resp_queue[OF assms(1)] assms(2) by simp
  next
    case False
    with assms Incoming obtain m1 s1
      where u: "updateMessageTrace og m s = Ok (m1, s1)" and r: "req_h Ok m1 s1 = Ok s'"
      by (auto simp: handle_request bind_res_Ok_iff)
    from updateMessageTrace_frame[OF u] assms(1,2)
    have "queue s1 = []" "\<not> latencyScheduled s1" by simp_all
    then show ?thesis using req_queue[OF _ r] by simp
  qed
qed

lemma run_quiescent:
  assumes "queue s = []" "\<not> latencyScheduled s"
    and "fold_res (handleMessage og self_h req_h resp_h) inps s = Ok s'"
  shows "queue s' = [] \<and> \<not> latencyScheduled s'"
proof (rule fold_res_invariant[where P = "\<lambda>s. queue s = [] \<and> \<not> latencyScheduled s",
        OF _ _ assms(3)])
  show "queue s = [] \<and> \<not> latencyScheduled s" using assms(1,2) by simp
next
  fix x t t'
  assume "queue t = [] \<and> \<not> latencyScheduled t"
    and "handleMessage og self_h req_h resp_h x t = Ok t'"
  then show "queue t' = [] \<and> \<not> latencyScheduled t'" using handle_quiescent by blast
qed

end

end
