(* ===== verification/Pools.thy ===== *)
theory Pools imports Prelude begin

text \<open>
  The contract of an allocator: what it gives out was not in use, and only a release makes it
  available again.  \<open>pool\<close> may run out; \<open>slot_pool\<close> extends it by an allocation that never fails.
  The gate manager is a \<open>slot_pool\<close> and the port translation of a node a \<open>pool\<close>.
\<close>

locale pool =
  fixes inv :: "'s \<Rightarrow> bool"
    and used :: "'s \<Rightarrow> 'i set"
    and alloc :: "'s \<Rightarrow> ('i \<times> 's) res"
    and release :: "'i \<Rightarrow> 's \<Rightarrow> 's res"
  assumes alloc_law: "inv s \<Longrightarrow> alloc s = Ok (i, s') \<Longrightarrow>
            i \<notin> used s \<and> used s' = insert i (used s) \<and> inv s'"
    and release_law: "inv s \<Longrightarrow> i \<in> used s \<Longrightarrow>
            \<exists>s'. release i s = Ok s' \<and> used s' = used s - {i} \<and> inv s'"
begin

lemma release_step:
  assumes "inv s" "i \<in> used s" "release i s = Ok s'"
  shows "used s' = used s - {i} \<and> inv s'"
  using release_law[OF assms(1,2)] assms(3) by auto

text \<open>What is allocated can be released, and then the pool has the same things in use.\<close>

lemma alloc_release:
  assumes "inv s" "alloc s = Ok (i, s1)"
  shows "\<exists>s2. release i s1 = Ok s2 \<and> used s2 = used s \<and> inv s2"
proof -
  have a: "i \<notin> used s" "used s1 = insert i (used s)" "inv s1" using alloc_law[OF assms] by simp_all
  with release_law[of s1 i] show ?thesis by auto
qed

text \<open>A sequence of allocations.\<close>

fun alloc_many :: "nat \<Rightarrow> 's \<Rightarrow> ('i list \<times> 's) res" where
  "alloc_many 0 s = Ok ([], s)"
| "alloc_many (Suc n) s = bind_res (alloc s) (\<lambda>(i, s). bind_res (alloc_many n s) (\<lambda>(is, s). Ok (i # is, s)))"

lemma alloc_many_distinct:
  assumes "inv s" "alloc_many n s = Ok (is, s')"
  shows "distinct is \<and> set is \<inter> used s = {} \<and> used s' = used s \<union> set is \<and> inv s'"
  using assms
proof (induction n arbitrary: s "is")
  case (Suc n)
  then obtain i s1 js where a: "alloc s = Ok (i, s1)" "alloc_many n s1 = Ok (js, s')" "is = i # js"
    by (auto simp: bind_res_Ok_iff)
  have "i \<notin> used s" "used s1 = insert i (used s)" "inv s1" using alloc_law[OF Suc.prems(1) a(1)] by simp_all
  with Suc.IH[OF _ a(2)] a(3) show ?case by auto
qed auto

end

locale slot_pool = pool +
  assumes alloc_total: "inv s \<Longrightarrow> \<exists>i s'. alloc s = Ok (i, s')"
begin

lemma alloc_many_total: "inv s \<Longrightarrow> \<exists>is s'. alloc_many n s = Ok (is, s')"
proof (induction n arbitrary: s)
  case (Suc n)
  obtain i s1 where a: "alloc s = Ok (i, s1)" using alloc_total[OF Suc.prems] by blast
  with Suc.IH[of s1] alloc_law[OF Suc.prems a] show ?case by fastforce
qed simp

end

end
