(* ===== verification/GateManager.thy ===== *)
theory GateManager imports ModuleBase Pools begin

text \<open>
  \<^verbatim>\<open>cGateManager\<close> (\<^verbatim>\<open>src/src/Base/cGateManager.cc\<close>): a growable vector of module gates whose
  freed positions (\<open>holes\<close>) are handed out again, oldest first.  The gate object
  \<^verbatim>\<open>mod->gate(name, index)\<close> is the pair \<open>(name, index)\<close>; the calls into OMNeT++
  (\<^verbatim>\<open>setGateSize\<close>, \<^verbatim>\<open>connectTo\<close>, \<^verbatim>\<open>disconnect\<close>) are recorded in \<open>commands\<close>.

  \<^verbatim>\<open>cGateManager\<close> satisfies the contract \<open>slot_pool\<close> of an allocator of positions, and the controllers that hold four managers in lockstep use it.
\<close>

datatype gate_command =
    SetGateSize string nat
  | ConnectTo gate gate
  | Disconnect gate

record gate_slot =
  slot_gate :: gate
  gateHit :: bool

record gate_manager =
  holes :: "nat list"
  gates :: "gate_slot list"
  commands :: "gate_command list"

definition new_gate_manager :: gate_manager where
  "new_gate_manager = \<lparr>holes = [], gates = [], commands = []\<rparr>"

definition command :: "gate_command \<Rightarrow> gate_manager \<Rightarrow> gate_manager" where
  "command c gm = gm\<lparr>commands := commands gm @ [c]\<rparr>"

definition slot_at :: "nat \<Rightarrow> gate_manager \<Rightarrow> gate_slot res" where
  "slot_at i gm = (if i < length (gates gm) then Ok (gates gm ! i) else Fail Undefined)"

definition isGateEmpty :: "nat \<Rightarrow> gate_manager \<Rightarrow> bool res" where
  "isGateEmpty index gm = bind_res (slot_at index gm) (\<lambda>sl. Ok (\<not> gateHit sl))"

definition linkGate :: "string \<Rightarrow> nat \<Rightarrow> gate_manager \<Rightarrow> gate_manager res" where
  "linkGate gateName index gm =
     (if length (gates gm) < index then Fail (Thrown ''linkGate'')
      else if length (gates gm) = index
      then Ok (gm\<lparr>gates := gates gm @ [\<lparr>slot_gate = (gateName, index), gateHit = True\<rparr>]\<rparr>)
      else if gateHit (gates gm ! index) then Fail (Thrown ''linkGate'')
      else Ok (gm\<lparr>gates := (gates gm)[index := \<lparr>slot_gate = (gateName, index), gateHit = True\<rparr>]\<rparr>))"

definition newGate :: "string \<Rightarrow> gate_manager \<Rightarrow> (nat \<times> gate_manager) res" where
  "newGate gateName gm =
     (let (gatePosition, gm') =
        (if gates gm = [] then (0, command (SetGateSize gateName 1) gm)
         else case holes gm of
             h # hs \<Rightarrow> (h, gm\<lparr>holes := hs\<rparr>)
           | [] \<Rightarrow> (length (gates gm), command (SetGateSize gateName (length (gates gm) + 1)) gm))
      in bind_res (linkGate gateName gatePosition gm') (\<lambda>gm''. Ok (gatePosition, gm'')))"

text \<open>
  \<^verbatim>\<open>getGate\<close> builds the \<^verbatim>\<open>cRuntimeError\<close> for a free position but does not throw it, so a free
  position gives NULL.
\<close>

definition getGate :: "nat \<Rightarrow> gate_manager \<Rightarrow> gate option res" where
  "getGate index gm = bind_res (slot_at index gm)
     (\<lambda>sl. Ok (if \<not> gateHit sl then None else Some (slot_gate sl)))"

definition freeGate :: "nat \<Rightarrow> gate_manager \<Rightarrow> (gate \<times> gate_manager) res" where
  "freeGate index gm = bind_res (slot_at index gm) (\<lambda>sl.
     if \<not> gateHit sl then Fail (Thrown ''freeGate'')
     else Ok (slot_gate sl,
        (command (Disconnect (slot_gate sl))
           (gm\<lparr>gates := (gates gm)[index := sl\<lparr>gateHit := False\<rparr>]\<rparr>))\<lparr>holes := holes gm @ [index]\<rparr>))"

definition connectIn :: "gate \<Rightarrow> nat \<Rightarrow> gate_manager \<Rightarrow> gate_manager res" where
  "connectIn g index gm = bind_res (slot_at index gm)
     (\<lambda>sl. Ok (command (ConnectTo g (slot_gate sl)) gm))"

definition connectOut :: "gate \<Rightarrow> nat \<Rightarrow> gate_manager \<Rightarrow> gate_manager res" where
  "connectOut g index gm = bind_res (slot_at index gm)
     (\<lambda>sl. Ok (command (ConnectTo (slot_gate sl) g) gm))"

definition searchGate :: "(gate \<Rightarrow> int) \<Rightarrow> int \<Rightarrow> gate_manager \<Rightarrow> nat res" where
  "searchGate gate_id gateId gm =
     (case index_of (\<lambda>sl. gate_id (slot_gate sl) = gateId) (gates gm) of
        None \<Rightarrow> Fail (Thrown ''searchGate'') | Some i \<Rightarrow> Ok i)"

lemmas gate_defs = slot_at_def isGateEmpty_def linkGate_def newGate_def getGate_def freeGate_def
  connectIn_def connectOut_def searchGate_def command_def

subsection \<open>Invariant: the holes are exactly the free positions, each once\<close>

definition live :: "gate_manager \<Rightarrow> nat set" where
  "live gm = {i. i < length (gates gm) \<and> gateHit (gates gm ! i)}"

definition gm_inv :: "gate_manager \<Rightarrow> bool" where
  "gm_inv gm \<longleftrightarrow> distinct (holes gm)
     \<and> (\<forall>i. i \<in> set (holes gm) \<longleftrightarrow> i < length (gates gm) \<and> \<not> gateHit (gates gm ! i))"

lemma gm_inv_new [inv_intros]: "gm_inv new_gate_manager"
  by (simp add: gm_inv_def new_gate_manager_def)

lemma finite_live: "finite (live gm)"
  by (simp add: live_def)

lemma newGate_cases:
  assumes "gm_inv gm"
  obtains (grow) gm' where "holes gm = []" "newGate n gm = Ok (length (gates gm), gm')"
      "gates gm' = gates gm @ [\<lparr>slot_gate = (n, length (gates gm)), gateHit = True\<rparr>]" "holes gm' = []"
  | (reuse) h hs gm' where "holes gm = h # hs" "h < length (gates gm)" "\<not> gateHit (gates gm ! h)"
      "newGate n gm = Ok (h, gm')"
      "gates gm' = (gates gm)[h := \<lparr>slot_gate = (n, h), gateHit = True\<rparr>]" "holes gm' = hs"
proof (cases "holes gm")
  case Nil
  then show ?thesis using grow by (cases "gates gm = []") (auto simp: gate_defs)
next
  case (Cons h hs)
  then have "h < length (gates gm)" "\<not> gateHit (gates gm ! h)"
    using assms by (auto simp: gm_inv_def)
  moreover from this have "gates gm \<noteq> []" by auto
  ultimately show ?thesis using reuse Cons by (simp add: gate_defs)
qed

lemma newGate_ok:
  assumes "gm_inv gm"
  shows "\<exists>i gm'. newGate n gm = Ok (i, gm') \<and> i \<notin> live gm \<and> live gm' = insert i (live gm) \<and> gm_inv gm'"
  using assms
proof (cases rule: newGate_cases[where n = n])
  case (grow gm')
  then show ?thesis using assms by (auto simp: live_def gm_inv_def nth_append less_Suc_eq)
next
  case (reuse h hs gm')
  have "live gm' = insert h (live gm)"
    using reuse by (auto simp: live_def nth_list_update)
  moreover have "gm_inv gm'"
    unfolding gm_inv_def
  proof (intro conjI allI)
    show "distinct (holes gm')" using assms reuse by (simp add: gm_inv_def)
    fix i
    have "i \<in> set (h # hs) \<longleftrightarrow> i < length (gates gm) \<and> \<not> gateHit (gates gm ! i)"
      using assms reuse(1) by (simp add: gm_inv_def)
    moreover have "h \<notin> set hs" using assms reuse(1) by (simp add: gm_inv_def)
    ultimately show "i \<in> set (holes gm') \<longleftrightarrow> i < length (gates gm') \<and> \<not> gateHit (gates gm' ! i)"
      using reuse by (cases "i = h") simp_all
  qed
  moreover have "h \<notin> live gm" using reuse by (simp add: live_def)
  ultimately show ?thesis using reuse by blast
qed

lemma freeGate_ok:
  assumes "gm_inv gm" "i \<in> live gm"
  shows "\<exists>gm'. freeGate i gm = Ok (slot_gate (gates gm ! i), gm') \<and> live gm' = live gm - {i} \<and> gm_inv gm'"
  using assms by (auto simp: gate_defs live_def gm_inv_def nth_list_update)

lemma freeGate_dead: "i < length (gates gm) \<Longrightarrow> i \<notin> live gm \<Longrightarrow> freeGate i gm = Fail (Thrown ''freeGate'')"
  by (simp add: gate_defs live_def)

lemma getGate_live: "i \<in> live gm \<Longrightarrow> getGate i gm = Ok (Some (slot_gate (gates gm ! i)))"
  by (simp add: gate_defs live_def)

lemma getGate_dead: "i < length (gates gm) \<Longrightarrow> i \<notin> live gm \<Longrightarrow> getGate i gm = Ok None"
  by (simp add: gate_defs live_def)

lemma newGate_gate:
  assumes "gm_inv gm" "newGate n gm = Ok (i, gm')"
  shows "getGate i gm' = Ok (Some (n, i))"
  using assms(1)
  by (cases rule: newGate_cases[where n = n]) (use assms(2) in \<open>auto simp: slot_at_def getGate_def nth_append\<close>)

subsection \<open>The manager is a pool of positions\<close>

interpretation gm: slot_pool gm_inv live "newGate n" "\<lambda>i gm. bind_res (freeGate i gm) (\<lambda>r. Ok (snd r))"
  for n
proof (unfold_locales, goal_cases)
  case (1 s i s')
  then show ?case using newGate_ok[of s n] by auto
next
  case (2 s i)
  then show ?case using freeGate_ok[of s i] by auto
next
  case (3 s)
  then show ?case using newGate_ok[of s n] by blast
qed

subsection \<open>Managers in lockstep\<close>

text \<open>
  Which position \<^verbatim>\<open>newGate\<close> returns depends only on the holes and on which positions are in
  use; the controllers rely on it when they free one position number in all their managers.
\<close>

definition gm_shape :: "gate_manager \<Rightarrow> nat list \<times> bool list" where
  "gm_shape gm = (holes gm, map gateHit (gates gm))"

fun shape_alloc :: "nat list \<times> bool list \<Rightarrow> nat \<times> nat list \<times> bool list" where
  "shape_alloc ([], hits) = (length hits, [], hits @ [True])"
| "shape_alloc (h # hs, hits) = (h, hs, hits[h := True])"

lemma newGate_shape:
  assumes "gm_inv gm" "newGate n gm = Ok (i, gm')"
  shows "(i, gm_shape gm') = shape_alloc (gm_shape gm)"
  using assms(1)
  by (cases rule: newGate_cases[where n = n]) (use assms(2) in \<open>auto simp: gm_shape_def map_update\<close>)

lemma freeGate_shape:
  "freeGate i gm = Ok (g, gm') \<Longrightarrow>
   gm_shape gm' = (fst (gm_shape gm) @ [i], (snd (gm_shape gm))[i := False])"
  by (auto simp: gate_defs gm_shape_def map_update split: if_splits)

lemma live_shape: "gm_shape a = gm_shape b \<Longrightarrow> live a = live b"
proof -
  assume "gm_shape a = gm_shape b"
  then have m: "map gateHit (gates a) = map gateHit (gates b)" by (simp add: gm_shape_def)
  then have "length (gates a) = length (gates b)" by (rule map_eq_imp_length_eq)
  with m show ?thesis
    by (auto simp: live_def) (metis nth_map)+
qed

lemma connect_frame:
  "connectOut g i gm = Ok gm' \<Longrightarrow> gm_shape gm' = gm_shape gm \<and> gates gm' = gates gm \<and> holes gm' = holes gm"
  "connectIn g i gm = Ok gm' \<Longrightarrow> gm_shape gm' = gm_shape gm \<and> gates gm' = gates gm \<and> holes gm' = holes gm"
  by (auto simp: gate_defs gm_shape_def split: if_splits)

lemma connect_ok:
  "i \<in> live gm \<Longrightarrow> \<exists>gm'. connectOut g i gm = Ok gm'"
  "i \<in> live gm \<Longrightarrow> \<exists>gm'. connectIn g i gm = Ok gm'"
  by (auto simp: gate_defs live_def)

lemma gm_inv_cong: "gates a = gates b \<Longrightarrow> holes a = holes b \<Longrightarrow> gm_inv a = gm_inv b"
  by (simp add: gm_inv_def)

end
