(* ===== verification/VmMsgController.thy ===== *)
theory VmMsgController imports GateManager begin

text \<open>
  \<^verbatim>\<open>VmMsgController\<close> (\<^verbatim>\<open>src/src/Virtualization/VirtualMachines/VMManagement/VmMsgController\<close>):
  every message between the applications of a virtual machine and its operating system passes
  through it.  It counts the requests that are out, replaces the communication id of a message
  by the gate index of its application, and during a migration it holds messages back in
  \<open>pendingMessages\<close> until the machine is activated again.

  The record \<open>msg_controller\<close> extends the module state of \<open>ModuleBase\<close> by the private members
  of the class; \<open>migration_msg\<close> is \<open>None\<close> while the pointer is uninitialised.
\<close>

definition SM_STOP_AND_DOWN_VM :: int where "SM_STOP_AND_DOWN_VM = 418"
definition SM_VM_ACTIVATION :: int where "SM_VM_ACTIVATION = 416"

record comm_internal =
  ci_commId :: int
  ci_msgId :: int

record comm_entry =
  internals :: "comm_internal list"
  ce_uId :: int
  ce_pId :: int

record msg_controller = module_state +
  migrateActive :: bool
  pendingMessages :: "message list"
  pendingCPUMsg :: int
  pendingNetMsg :: int
  pendingMemoryMsg :: int
  pendingIOMsg :: int
  migration_msg :: "message option"
  fromOSApps :: gate_manager
  toOSApps :: gate_manager
  fromApps :: gate_manager
  toApps :: gate_manager
  uId :: int
  pId :: int
  commVector :: "comm_entry list"

definition vm_initialize :: "int \<Rightarrow> string \<Rightarrow> msg_controller" where
  "vm_initialize i host = module_state.extend (base_initialize i host)
     \<lparr>migrateActive = False, pendingMessages = [], pendingCPUMsg = 0, pendingNetMsg = 0,
      pendingMemoryMsg = 0, pendingIOMsg = 0, migration_msg = None,
      fromOSApps = new_gate_manager, toOSApps = new_gate_manager,
      fromApps = new_gate_manager, toApps = new_gate_manager,
      uId = -1, pId = -1, commVector = []\<rparr>"

subsection \<open>Counters and the migration flag\<close>

definition blockMessages :: "'a msg_controller_scheme \<Rightarrow> 'a msg_controller_scheme" where
  "blockMessages s = s\<lparr>migrateActive := True\<rparr>"

definition migrationPrepared :: "'a msg_controller_scheme \<Rightarrow> bool" where
  "migrationPrepared s \<longleftrightarrow> pendingCPUMsg s = 0 \<and> pendingIOMsg s = 0 \<and>
     pendingNetMsg s = 0 \<and> pendingMemoryMsg s = 0"

definition updateCounters ::
  "message \<Rightarrow> int \<Rightarrow> 'a msg_controller_scheme \<Rightarrow> 'a msg_controller_scheme" where
  "updateCounters m quantity s =
     (if cast_cpu m \<noteq> None then s\<lparr>pendingCPUMsg := pendingCPUMsg s + quantity\<rparr>
      else if cast_io m \<noteq> None then s\<lparr>pendingIOMsg := pendingIOMsg s + quantity\<rparr>
      else if cast_mem m \<noteq> None then s\<lparr>pendingMemoryMsg := pendingMemoryMsg s + quantity\<rparr>
      else if cast_net m \<noteq> None then s\<lparr>pendingNetMsg := pendingNetMsg s + quantity\<rparr>
      else s)"

definition pushMessage :: "message \<Rightarrow> 'a msg_controller_scheme \<Rightarrow> 'a msg_controller_scheme" where
  "pushMessage m s = s\<lparr>pendingMessages := pendingMessages s @ [m]\<rparr>"

definition pendingMessagesSize :: "'a msg_controller_scheme \<Rightarrow> nat" where
  "pendingMessagesSize s = length (pendingMessages s)"

definition setId :: "int \<Rightarrow> int \<Rightarrow> 'a msg_controller_scheme \<Rightarrow> 'a msg_controller_scheme" where
  "setId userId vmId s = s\<lparr>uId := userId, pId := vmId\<rparr>"

subsection \<open>The table of communication ids\<close>

definition insertCommId :: "int \<Rightarrow> int \<Rightarrow> int \<Rightarrow> int \<Rightarrow> comm_entry list \<Rightarrow> comm_entry list" where
  "insertCommId u p comm msg cv =
     (let new = \<lparr>ci_commId = comm, ci_msgId = msg\<rparr>;
          here = (\<lambda>c. ce_uId c = u \<and> ce_pId c = p)
      in if index_of here cv \<noteq> None
         then update_first here (\<lambda>c. c\<lparr>internals := internals c @ [new]\<rparr>) cv
         else cv @ [\<lparr>internals = [new], ce_uId = u, ce_pId = p\<rparr>])"

fun updateCommId :: "message \<Rightarrow> comm_entry list \<Rightarrow> message \<times> comm_entry list" where
  "updateCommId sm [] = (sm, [])"
| "updateCommId sm (comm # cs) =
     (case (if uid sm = ce_uId comm \<and> pid sm = ce_pId comm
            then find_first (\<lambda>i. ci_msgId i = msg_id sm) (internals comm) else None) of
        Some i \<Rightarrow>
          (sm\<lparr>commId := ci_commId i\<rparr>,
           let rest = remove_first (\<lambda>i. ci_msgId i = msg_id sm) (internals comm)
           in if rest = [] then cs else comm\<lparr>internals := rest\<rparr> # cs)
      | None \<Rightarrow> (let (sm', cs') = updateCommId sm cs in (sm', comm # cs')))"

subsection \<open>Sending, holding back and flushing\<close>

definition notifyVMPreparedToMigrate ::
  "('a msg_controller_scheme \<Rightarrow> 'a msg_controller_scheme res)
     \<Rightarrow> 'a msg_controller_scheme \<Rightarrow> 'a msg_controller_scheme res" where
  "notifyVMPreparedToMigrate pump s = (case migration_msg s of
     None \<Rightarrow> Fail Undefined | Some m \<Rightarrow> sendResponseMessage pump m s)"

definition sendPendingMessage ::
  "(message \<Rightarrow> int option) \<Rightarrow> ('a msg_controller_scheme \<Rightarrow> 'a msg_controller_scheme res)
     \<Rightarrow> message \<Rightarrow> 'a msg_controller_scheme \<Rightarrow> 'a msg_controller_scheme res" where
  "sendPendingMessage og pump m s =
     (if isResponse m then sendResponseMessage pump m s
      else if arrivedOn m ''fromOSApps''
      then bind_res (getGate (snd (arrival m)) (toApps s)) (\<lambda>g. sendRequestMessage og pump m g s)
      else if arrivedOn m ''fromApps''
      then bind_res (getGate (snd (arrival m)) (toOSApps s)) (\<lambda>g.
             sendRequestMessage og pump m g (updateCounters m 1 s))
      else Ok s)"

text \<open>
  The loop of \<^verbatim>\<open>flushPendingMessages\<close> sends the first pending message and erases it.  Between
  two events the queue of the base class is empty, so no message is pushed meanwhile and the
  number of pending messages bounds the iterations (\<open>flush_all\<close> below).
\<close>

fun flush_loop :: "nat \<Rightarrow> (message \<Rightarrow> int option)
     \<Rightarrow> ('a msg_controller_scheme \<Rightarrow> 'a msg_controller_scheme res)
     \<Rightarrow> 'a msg_controller_scheme \<Rightarrow> 'a msg_controller_scheme res" where
  "flush_loop 0 og pump s = Ok s"
| "flush_loop (Suc n) og pump s = (case pendingMessages s of
     [] \<Rightarrow> Ok s
   | m # _ \<Rightarrow> bind_res (sendPendingMessage og pump m s) (\<lambda>s'.
        flush_loop n og pump (s'\<lparr>pendingMessages := tl (pendingMessages s')\<rparr>)))"

definition flushPendingMessages ::
  "(message \<Rightarrow> int option) \<Rightarrow> ('a msg_controller_scheme \<Rightarrow> 'a msg_controller_scheme res)
     \<Rightarrow> 'a msg_controller_scheme \<Rightarrow> 'a msg_controller_scheme res" where
  "flushPendingMessages og pump s =
     flush_loop (length (pendingMessages s) + length (queue s)) og pump s"

definition finishMigration ::
  "(message \<Rightarrow> int option) \<Rightarrow> ('a msg_controller_scheme \<Rightarrow> 'a msg_controller_scheme res)
     \<Rightarrow> 'a msg_controller_scheme \<Rightarrow> 'a msg_controller_scheme res" where
  "finishMigration og pump s = flushPendingMessages og pump (s\<lparr>migrateActive := False\<rparr>)"

subsection \<open>The handlers\<close>

text \<open>The addresses a network request carries out of the machine.\<close>

definition virtualise :: "message \<Rightarrow> message" where
  "virtualise m = (case payload m of
     NetPayload n \<Rightarrow> m\<lparr>payload := NetPayload (n\<lparr>
        virtual_user := (if virtual_user n = -1 then uid m else virtual_user n),
        virtual_destinationIP := destinationIP n,
        virtual_destinationPort := destinationPort n,
        virtual_localIP := localIP n,
        virtual_localPort := localPort n\<rparr>)\<rparr>
   | _ \<Rightarrow> m)"

text \<open>The part of the request handler for messages that are not migration commands.\<close>

definition forwardRequest ::
  "(message \<Rightarrow> int option) \<Rightarrow> ('a msg_controller_scheme \<Rightarrow> 'a msg_controller_scheme res)
     \<Rightarrow> message \<Rightarrow> 'a msg_controller_scheme \<Rightarrow> 'a msg_controller_scheme res" where
  "forwardRequest og pump msg s =
     (let m = msg\<lparr>pid := pId s, uid := uId s\<rparr>;
          s = (if cast_net m \<noteq> None \<and> commId m \<noteq> -1
               then s\<lparr>commVector := insertCommId (uId s) (pId s) (commId m) (msg_id m) (commVector s)\<rparr>
               else s)
      in if migrateActive s then Ok (pushMessage m s)
         else if arrivedOn m ''fromOSApps''
         then bind_res (getGate (snd (arrival m)) (toApps s)) (\<lambda>g. sendRequestMessage og pump m g s)
         else if arrivedOn m ''fromApps''
         then (let s = updateCounters m 1 s;
                   m = virtualise (m\<lparr>commId := int (snd (arrival m))\<rparr>)
               in bind_res (getGate (nat (commId m)) (toOSApps s)) (\<lambda>g.
                    sendRequestMessage og pump m g s))
         else Ok s)"

definition vm_processRequestMessage ::
  "(message \<Rightarrow> int option) \<Rightarrow> ('a msg_controller_scheme \<Rightarrow> 'a msg_controller_scheme res)
     \<Rightarrow> message \<Rightarrow> 'a msg_controller_scheme \<Rightarrow> 'a msg_controller_scheme res" where
  "vm_processRequestMessage og pump msg s =
     (if operation msg = SM_STOP_AND_DOWN_VM then
        (if \<not> migrateActive s then
           (if cast_net msg = None then Fail Undefined
            else let s = (blockMessages s)\<lparr>migration_msg := Some (msg\<lparr>isResponse := True\<rparr>)\<rparr>
                 in if migrationPrepared s then notifyVMPreparedToMigrate pump s else Ok s)
         else Ok (emit (Deleted msg) s))
      else if operation msg = SM_VM_ACTIVATION then
        bind_res (finishMigration og pump s) (\<lambda>s. Ok (emit (Deleted msg) s))
      else forwardRequest og pump msg s)"

definition vm_processResponseMessage ::
  "('a msg_controller_scheme \<Rightarrow> 'a msg_controller_scheme res)
     \<Rightarrow> message \<Rightarrow> 'a msg_controller_scheme \<Rightarrow> 'a msg_controller_scheme res" where
  "vm_processResponseMessage pump sm s =
     (let s = updateCounters sm (-1) s
      in if migrateActive s then
           (let s = pushMessage sm s
            in if migrationPrepared s then notifyVMPreparedToMigrate pump s else Ok s)
         else if cast_net sm \<noteq> None then
           (let (sm', cv) = updateCommId sm (commVector s)
            in sendResponseMessage pump sm' (s\<lparr>commVector := cv\<rparr>))
         else sendResponseMessage pump sm s)"

definition processSelfMessage :: "string \<Rightarrow> 'a msg_controller_scheme \<Rightarrow> 'a msg_controller_scheme res" where
  "processSelfMessage name s = Fail (Thrown ''processSelfMessage'')"

definition vm_handleMessage ::
  "(message \<Rightarrow> int option) \<Rightarrow> input \<Rightarrow> 'a msg_controller_scheme \<Rightarrow> 'a msg_controller_scheme res" where
  "vm_handleMessage og = handleMessage og processSelfMessage (vm_processRequestMessage og)
     vm_processResponseMessage"

definition activateMessages ::
  "(message \<Rightarrow> int option) \<Rightarrow> ('a msg_controller_scheme \<Rightarrow> 'a msg_controller_scheme res)
     \<Rightarrow> 'a msg_controller_scheme \<Rightarrow> 'a msg_controller_scheme res" where
  "activateMessages og pump s = flushPendingMessages og pump (s\<lparr>migrateActive := False\<rparr>)"

subsection \<open>Frames: what sending leaves alone\<close>

lemma controller_more:
  assumes "module_state.more s' = module_state.more (s :: 'a msg_controller_scheme)"
  shows "migrateActive s' = migrateActive s" "pendingMessages s' = pendingMessages s"
    "pendingCPUMsg s' = pendingCPUMsg s" "pendingNetMsg s' = pendingNetMsg s"
    "pendingMemoryMsg s' = pendingMemoryMsg s" "pendingIOMsg s' = pendingIOMsg s"
    "migration_msg s' = migration_msg s" "toApps s' = toApps s" "toOSApps s' = toOSApps s"
    "fromApps s' = fromApps s" "fromOSApps s' = fromOSApps s"
    "uId s' = uId s" "pId s' = pId s" "commVector s' = commVector s"
    "msg_controller.more s' = msg_controller.more s"
  using assms by (cases s; cases s'; simp)+

lemma updateCounters_frame [simp]:
  "queue (updateCounters m q s) = queue s" "outbox (updateCounters m q s) = outbox s"
  "latencyScheduled (updateCounters m q s) = latencyScheduled s"
  "migrateActive (updateCounters m q s) = migrateActive s"
  "pendingMessages (updateCounters m q s) = pendingMessages s"
  "migration_msg (updateCounters m q s) = migration_msg s"
  "toApps (updateCounters m q s) = toApps s" "toOSApps (updateCounters m q s) = toOSApps s"
  "uId (updateCounters m q s) = uId s" "pId (updateCounters m q s) = pId s"
  "commVector (updateCounters m q s) = commVector s"
  by (simp_all add: updateCounters_def)

lemma pushMessage_frame [simp]:
  "queue (pushMessage m s) = queue s" "outbox (pushMessage m s) = outbox s"
  "latencyScheduled (pushMessage m s) = latencyScheduled s"
  "migrateActive (pushMessage m s) = migrateActive s"
  "pendingMessages (pushMessage m s) = pendingMessages s @ [m]"
  "migration_msg (pushMessage m s) = migration_msg s"
  by (simp_all add: pushMessage_def)

lemma emit_controller [simp]:
  "migrateActive (emit e s) = migrateActive s" "pendingMessages (emit e s) = pendingMessages s"
  "pendingCPUMsg (emit e s) = pendingCPUMsg s" "pendingNetMsg (emit e s) = pendingNetMsg s"
  "pendingMemoryMsg (emit e s) = pendingMemoryMsg s" "pendingIOMsg (emit e s) = pendingIOMsg s"
  "migration_msg (emit e s) = migration_msg s"
  by (simp_all add: emit_def)

lemma blockMessages_frame [simp]:
  "queue (blockMessages s) = queue s" "outbox (blockMessages s) = outbox s"
  "latencyScheduled (blockMessages s) = latencyScheduled s" "migrateActive (blockMessages s)"
  "pendingMessages (blockMessages s) = pendingMessages s"
  by (simp_all add: blockMessages_def)

subsection \<open>Message classes and the number of requests that are out\<close>

datatype msg_class = CpuClass | IoClass | MemClass | NetClass

definition class_of :: "message \<Rightarrow> msg_class option" where
  "class_of m = (case payload m of
     NoPayload \<Rightarrow> None | CpuPayload _ \<Rightarrow> Some CpuClass | IoPayload _ \<Rightarrow> Some IoClass
   | MemPayload _ \<Rightarrow> Some MemClass | NetPayload _ \<Rightarrow> Some NetClass)"

fun pending_of :: "msg_class \<Rightarrow> 'a msg_controller_scheme \<Rightarrow> int" where
  "pending_of CpuClass s = pendingCPUMsg s"
| "pending_of IoClass s = pendingIOMsg s"
| "pending_of MemClass s = pendingMemoryMsg s"
| "pending_of NetClass s = pendingNetMsg s"

fun leaves_app :: "msg_class \<Rightarrow> event \<Rightarrow> bool" where
  "leaves_app k (Sent m (ViaGate _)) \<longleftrightarrow> class_of m = Some k \<and> arrivedOn m ''fromApps''"
| "leaves_app k _ \<longleftrightarrow> False"

definition forwarded :: "msg_class \<Rightarrow> event list \<Rightarrow> int" where
  "forwarded k es = int (length (filter (leaves_app k) es))"

fun answers :: "msg_class \<Rightarrow> input \<Rightarrow> bool" where
  "answers k (Incoming m) \<longleftrightarrow> isResponse m \<and> class_of m = Some k"
| "answers k (SelfMsg _) \<longleftrightarrow> False"

definition answered :: "msg_class \<Rightarrow> input list \<Rightarrow> int" where
  "answered k inps = int (length (filter (answers k) inps))"

lemma forwarded_simps [simp]:
  "forwarded k [] = 0" "forwarded k (xs @ ys) = forwarded k xs + forwarded k ys"
  "forwarded k [e] = (if leaves_app k e then 1 else 0)"
  by (simp_all add: forwarded_def)

lemma pending_updateCounters [simp]:
  "pending_of k (updateCounters m q s) = pending_of k s + (if class_of m = Some k then q else 0)"
  by (cases k; cases "payload m")
     (simp_all add: updateCounters_def class_of_def cast_cpu_def cast_io_def cast_mem_def cast_net_def)

lemma pending_of_more:
  "module_state.more s' = module_state.more s \<Longrightarrow> pending_of k s' = pending_of k s"
  by (cases k) (auto dest: controller_more)

lemma pending_of_frame [simp]:
  "pending_of k (pushMessage m s) = pending_of k s" "pending_of k (emit e s) = pending_of k s"
  "pending_of k (blockMessages s) = pending_of k s"
  "pending_of k (s\<lparr>migration_msg := x\<rparr>) = pending_of k s"
  "pending_of k (s\<lparr>migrateActive := b\<rparr>) = pending_of k s"
  "pending_of k (s\<lparr>pendingMessages := ms\<rparr>) = pending_of k s"
  "pending_of k (s\<lparr>commVector := cv\<rparr>) = pending_of k s"
  by (cases k; simp add: pushMessage_def blockMessages_def)+

lemma prepared_iff: "migrationPrepared s \<longleftrightarrow> (\<forall>k. pending_of k s = 0)"
  unfolding migrationPrepared_def by (metis msg_class.exhaust pending_of.simps)

lemma class_of_trace [simp]: "class_of (m\<lparr>msg_trace := t\<rparr>) = class_of m"
  by (simp add: class_of_def)

lemma arrivedOn_upd [simp]:
  "arrivedOn (m\<lparr>msg_trace := t\<rparr>) g = arrivedOn m g"
  by (simp add: arrivedOn_def)

lemma virtualise_same [simp]:
  "class_of (virtualise m) = class_of m" "arrivedOn (virtualise m) g = arrivedOn m g"
  "msg_id (virtualise m) = msg_id m" "isResponse (virtualise m) = isResponse m"
  by (auto simp: virtualise_def class_of_def arrivedOn_def split: payload.splits)

lemma class_of_ids [simp]:
  "class_of (m\<lparr>pid := a, uid := b\<rparr>) = class_of m" "class_of (m\<lparr>commId := c\<rparr>) = class_of m"
  "arrivedOn (m\<lparr>pid := a, uid := b\<rparr>) g = arrivedOn m g"
  "arrivedOn (m\<lparr>commId := c\<rparr>) g = arrivedOn m g"
  by (simp_all add: class_of_def arrivedOn_def)

end
