(* ===== verification/VmMigration.thy ===== *)
theory VmMigration imports VmMsgController begin

text \<open>
  The migration protocol of \<^verbatim>\<open>VmMsgController\<close>: the handlers satisfy the contract of the base
  class, the pending counters are the requests out minus the responses back, the stop command is
  answered only when nothing is out, and activation releases the held messages in their order.
\<close>

subsection \<open>Effect of the sending primitives on a controller\<close>

lemma sendRequest_effect:
  assumes "sendRequestMessage og Ok m g (s :: 'a msg_controller_scheme) = Ok s'"
  shows "queue s' = queue s" "latencyScheduled s' = latencyScheduled s"
    "module_state.more s' = module_state.more s"
    "\<exists>t. outbox s' = outbox s @ [Sent (m\<lparr>msg_trace := t\<rparr>) (ViaGate g)]"
  using sendRequestMessage_frame[OF assms] by auto

lemma sendResponse_effect:
  assumes "sendResponseMessage Ok m (s :: 'a msg_controller_scheme) = Ok s'"
  shows "queue s' = queue s" "latencyScheduled s' = latencyScheduled s"
    "module_state.more s' = module_state.more s"
    "\<exists>t g. outbox s' = outbox s @ [Sent (m\<lparr>msg_trace := t\<rparr>) (ViaGateId g)]"
  using sendResponseMessage_frame[OF assms] by auto

definition accounts ::
  "'a msg_controller_scheme \<Rightarrow> event list \<Rightarrow> (msg_class \<Rightarrow> int) \<Rightarrow> 'a msg_controller_scheme \<Rightarrow> bool" where
  "accounts s es d s' \<longleftrightarrow> outbox s' = outbox s @ es \<and>
     (\<forall>k. pending_of k s' = pending_of k s + forwarded k es + d k)"

lemma accounts_refl: "\<exists>es. accounts s es (\<lambda>k. 0) s"
proof -
  have "accounts s [] (\<lambda>k. 0) s" by (simp add: accounts_def)
  then show ?thesis by blast
qed

lemma accounts_trans:
  "accounts s es d s1 \<Longrightarrow> accounts s1 es' d' s2 \<Longrightarrow> accounts s (es @ es') (\<lambda>k. d k + d' k) s2"
  by (auto simp: accounts_def)

lemma sendRequest_accounts:
  assumes "sendRequestMessage og Ok m g s = Ok s'"
  shows "\<exists>es. accounts s es
      (\<lambda>k. if class_of m = Some k \<and> arrivedOn m ''fromApps'' then - 1 else 0) s'"
proof -
  from sendRequest_effect[OF assms] obtain t
    where o: "outbox s' = outbox s @ [Sent (m\<lparr>msg_trace := t\<rparr>) (ViaGate g)]"
      and m: "module_state.more s' = module_state.more s" by auto
  show ?thesis
    by (rule exI[of _ "[Sent (m\<lparr>msg_trace := t\<rparr>) (ViaGate g)]"])
       (simp add: accounts_def o pending_of_more[OF m])
qed

lemma sendResponse_accounts:
  assumes "sendResponseMessage Ok m s = Ok s'"
  shows "\<exists>es. accounts s es (\<lambda>k. 0) s'"
proof -
  from sendResponse_effect[OF assms] obtain t g
    where o: "outbox s' = outbox s @ [Sent (m\<lparr>msg_trace := t\<rparr>) (ViaGateId g)]"
      and m: "module_state.more s' = module_state.more s" by auto
  show ?thesis
    by (rule exI[of _ "[Sent (m\<lparr>msg_trace := t\<rparr>) (ViaGateId g)]"])
       (simp add: accounts_def o pending_of_more[OF m])
qed

text \<open>A counted send: the counter goes up by one and one request leaves.\<close>

lemma counted_send_accounts:
  assumes "sendRequestMessage og Ok m g (updateCounters m0 1 s) = Ok s'"
    and "class_of m0 = class_of m" "arrivedOn m ''fromApps''"
  shows "\<exists>es. accounts s es (\<lambda>k. 0) s'"
proof -
  from sendRequest_accounts[OF assms(1)] obtain es where
    "accounts (updateCounters m0 1 s) es
       (\<lambda>k. if class_of m = Some k \<and> arrivedOn m ''fromApps'' then - 1 else 0) s'" by blast
  then have "accounts s es (\<lambda>k. 0) s'" using assms(2,3) by (simp add: accounts_def)
  then show ?thesis by blast
qed

subsection \<open>Flushing\<close>

lemma sendPending_idle:
  assumes "queue s = []" "\<And>t. queue t = [] \<Longrightarrow> p t = Ok t"
  shows "sendPendingMessage og p m s = sendPendingMessage og Ok m s"
proof -
  have "sendRequestMessage og p m g t = sendRequestMessage og Ok m g t" if "queue t = []" for g t
    using that assms(2) by (rule sendRequestMessage_idle)
  moreover have "sendResponseMessage p m s = sendResponseMessage Ok m s"
    using assms by (rule sendResponseMessage_idle)
  ultimately show ?thesis using assms(1) by (simp add: sendPendingMessage_def)
qed

lemma sendPending_effect:
  assumes "sendPendingMessage og Ok m s = Ok s'"
  shows "queue s' = queue s \<and> latencyScheduled s' = latencyScheduled s \<and>
    migrateActive s' = migrateActive s \<and> pendingMessages s' = pendingMessages s \<and>
    (\<exists>es. accounts s es (\<lambda>k. 0) s')"
proof -
  consider (resp) "sendResponseMessage Ok m s = Ok s'"
    | (os) g where "\<not> arrivedOn m ''fromApps''" "sendRequestMessage og Ok m g s = Ok s'"
    | (app) g where "arrivedOn m ''fromApps''"
        "sendRequestMessage og Ok m g (updateCounters m 1 s) = Ok s'"
    | (none) "s' = s"
  proof (cases "isResponse m")
    case True
    then show ?thesis using assms that(1) by (simp add: sendPendingMessage_def)
  next
    case no_resp: False
    show ?thesis
    proof (cases "arrivedOn m ''fromOSApps''")
      case True
      then have "\<not> arrivedOn m ''fromApps''" by (auto simp: arrivedOn_def)
      with True show ?thesis using assms no_resp that(2)
        by (auto simp: sendPendingMessage_def bind_res_Ok_iff)
    next
      case False
      with no_resp show ?thesis using assms that(3,4)
        by (auto simp: sendPendingMessage_def bind_res_Ok_iff split: if_splits)
    qed
  qed
  then show ?thesis
  proof cases
    case resp
    note e = sendResponse_effect[OF resp]
    show ?thesis using e(1,2) controller_more[OF e(3)] sendResponse_accounts[OF resp] by simp
  next
    case os
    note e = sendRequest_effect[OF os(2)]
    have "\<exists>es. accounts s es (\<lambda>k. 0) s'" using sendRequest_accounts[OF os(2)] os(1) by simp
    then show ?thesis using e(1,2) controller_more[OF e(3)] by simp
  next
    case app
    note e = sendRequest_effect[OF app(2)]
    show ?thesis using e(1,2) controller_more[OF e(3)] counted_send_accounts[OF app(2) refl app(1)]
      by simp
  next
    case none
    then show ?thesis using accounts_refl by simp
  qed
qed

lemma tl_pending_accounts:
  "accounts s es d (s'\<lparr>pendingMessages := ms\<rparr>) = accounts s es d s'"
  "accounts (s\<lparr>pendingMessages := ms\<rparr>) es d s' = accounts s es d s'"
  by (simp_all add: accounts_def)

lemma flush_idle:
  assumes "queue s = []" "\<And>t. queue t = [] \<Longrightarrow> p t = Ok t"
  shows "flush_loop n og p s = flush_loop n og Ok s"
  using assms(1)
proof (induction n arbitrary: s)
  case (Suc n)
  show ?case
  proof (cases "pendingMessages s")
    case (Cons m ms)
    have "bind_res (sendPendingMessage og Ok m s)
            (\<lambda>s'. flush_loop n og p (s'\<lparr>pendingMessages := tl (pendingMessages s')\<rparr>)) =
          bind_res (sendPendingMessage og Ok m s)
            (\<lambda>s'. flush_loop n og Ok (s'\<lparr>pendingMessages := tl (pendingMessages s')\<rparr>))"
    proof (rule bind_res_cong[OF refl])
      fix s1
      assume "sendPendingMessage og Ok m s = Ok s1"
      then have "queue s1 = []" using sendPending_effect Suc.prems by fastforce
      then show "flush_loop n og p (s1\<lparr>pendingMessages := tl (pendingMessages s1)\<rparr>) =
        flush_loop n og Ok (s1\<lparr>pendingMessages := tl (pendingMessages s1)\<rparr>)"
        by (intro Suc.IH) simp
    qed
    then show ?thesis using Cons sendPending_idle[OF Suc.prems assms(2)] by simp
  qed simp
qed simp

lemma flush_effect:
  assumes "flush_loop n og Ok s = Ok s'" "length (pendingMessages s) \<le> n"
  shows "queue s' = queue s \<and> latencyScheduled s' = latencyScheduled s \<and>
    migrateActive s' = migrateActive s \<and> pendingMessages s' = [] \<and>
    (\<exists>es. accounts s es (\<lambda>k. 0) s')"
  using assms
proof (induction n arbitrary: s)
  case 0
  then show ?case using accounts_refl by auto
next
  case (Suc n)
  show ?case
  proof (cases "pendingMessages s")
    case Nil
    with Suc.prems show ?thesis using accounts_refl by auto
  next
    case (Cons m ms)
    with Suc.prems obtain s1 where s1: "sendPendingMessage og Ok m s = Ok s1"
      and fl: "flush_loop n og Ok (s1\<lparr>pendingMessages := tl (pendingMessages s1)\<rparr>) = Ok s'"
      by (auto simp: bind_res_Ok_iff)
    note e1 = sendPending_effect[OF s1]
    have "length (tl (pendingMessages s1)) \<le> n" using e1 Cons Suc.prems(2) by simp
    with Suc.IH[OF fl] e1 obtain es es' where
      "accounts s es (\<lambda>k. 0) s1" "accounts s1 es' (\<lambda>k. 0) s'"
      "queue s' = queue s" "latencyScheduled s' = latencyScheduled s"
      "migrateActive s' = migrateActive s" "pendingMessages s' = []"
      by (auto simp: tl_pending_accounts)
    moreover have "accounts s (es @ es') (\<lambda>k. 0) s'"
      using accounts_trans[OF calculation(1,2)] by simp
    ultimately show ?thesis by blast
  qed
qed

lemma finishMigration_effect:
  assumes "finishMigration og Ok s = Ok s'"
  shows "queue s' = queue s \<and> latencyScheduled s' = latencyScheduled s \<and>
    \<not> migrateActive s' \<and> pendingMessages s' = [] \<and> (\<exists>es. accounts s es (\<lambda>k. 0) s')"
  using flush_effect[of _ og "s\<lparr>migrateActive := False\<rparr>" s'] assms
  by (simp add: finishMigration_def flushPendingMessages_def accounts_def)

lemma finishMigration_idle:
  assumes "queue s = []" "\<And>t. queue t = [] \<Longrightarrow> p t = Ok t"
  shows "finishMigration og p s = finishMigration og Ok s"
  using assms flush_idle[of "s\<lparr>migrateActive := False\<rparr>" p]
  by (simp add: finishMigration_def flushPendingMessages_def)

subsection \<open>The request handler\<close>

definition steady :: "'a msg_controller_scheme \<Rightarrow> (msg_class \<Rightarrow> int) \<Rightarrow> 'a msg_controller_scheme \<Rightarrow> bool" where
  "steady s d s' \<longleftrightarrow> queue s' = queue s \<and> latencyScheduled s' = latencyScheduled s \<and>
     (\<exists>es. accounts s es d s')"

lemma steadyI:
  "queue s' = queue s \<Longrightarrow> latencyScheduled s' = latencyScheduled s \<Longrightarrow> accounts s es d s' \<Longrightarrow>
   steady s d s'"
  by (auto simp: steady_def)

lemma steady_emit_deleted: "steady s d s' \<Longrightarrow> steady s d (emit (Deleted m) s')"
proof -
  assume st: "steady s d s'"
  then obtain es where "accounts s es d s'" by (auto simp: steady_def)
  then have "accounts s (es @ [Deleted m]) d (emit (Deleted m) s')" by (simp add: accounts_def)
  with st show ?thesis by (auto simp: steady_def)
qed

lemma steady_start:
  assumes "steady t d s'" "queue t = queue s" "latencyScheduled t = latencyScheduled s"
    "outbox t = outbox s" "\<And>k. pending_of k t = pending_of k s"
  shows "steady s d s'"
  using assms by (simp add: steady_def accounts_def)

lemma steady_refl: "steady s (\<lambda>k. 0) s"
  by (rule steadyI[where es = "[]"]) (simp_all add: accounts_def)

lemma steady_response: "sendResponseMessage Ok m s = Ok s' \<Longrightarrow> steady s (\<lambda>k. 0) s'"
  using sendResponse_accounts[of m s s'] sendResponse_effect(1,2)[of m s s'] by (simp add: steady_def)

lemma notify_idle:
  assumes "queue s = []" "\<And>t. queue t = [] \<Longrightarrow> p t = Ok t"
  shows "notifyVMPreparedToMigrate p s = notifyVMPreparedToMigrate Ok s"
proof (cases "migration_msg s")
  case (Some m)
  have "sendResponseMessage p m s = sendResponseMessage Ok m s"
    using assms by (rule sendResponseMessage_idle)
  with Some show ?thesis by (simp add: notifyVMPreparedToMigrate_def)
qed (simp add: notifyVMPreparedToMigrate_def)

lemma notify_steady: "notifyVMPreparedToMigrate Ok s = Ok s' \<Longrightarrow> steady s (\<lambda>k. 0) s'"
  by (auto simp: notifyVMPreparedToMigrate_def steady_response split: option.splits)

lemma forward_idle:
  assumes "queue s = []" "\<And>t. queue t = [] \<Longrightarrow> p t = Ok t"
  shows "forwardRequest og p m s = forwardRequest og Ok m s"
proof -
  have "sendRequestMessage og p m g t = sendRequestMessage og Ok m g t" if "queue t = []" for m g t
    using that assms(2) by (rule sendRequestMessage_idle)
  then show ?thesis using assms(1) by (simp add: forwardRequest_def Let_def)
qed

lemma forward_steady:
  assumes "forwardRequest og Ok msg s = Ok s'"
  shows "steady s (\<lambda>k. 0) s'"
proof -
  define m where "m = msg\<lparr>pid := pId s, uid := uId s\<rparr>"
  define t where "t = (if cast_net m \<noteq> None \<and> commId m \<noteq> -1
    then s\<lparr>commVector := insertCommId (uId s) (pId s) (commId m) (msg_id m) (commVector s)\<rparr> else s)"
  define v where "v = virtualise (m\<lparr>commId := int (snd (arrival m))\<rparr>)"
  have t: "queue t = queue s" "latencyScheduled t = latencyScheduled s" "outbox t = outbox s"
    "\<And>k. pending_of k t = pending_of k s" by (simp_all add: t_def)
  have fw: "forwardRequest og Ok msg s =
    (if migrateActive t then Ok (pushMessage m t)
     else if arrivedOn m ''fromOSApps''
     then bind_res (getGate (snd (arrival m)) (toApps t)) (\<lambda>g. sendRequestMessage og Ok m g t)
     else if arrivedOn m ''fromApps''
     then bind_res (getGate (nat (commId v)) (toOSApps (updateCounters m 1 t)))
            (\<lambda>g. sendRequestMessage og Ok v g (updateCounters m 1 t))
     else Ok t)"
    unfolding forwardRequest_def Let_def m_def[symmetric] t_def[symmetric] v_def[symmetric] by simp
  have "steady t (\<lambda>k. 0) s'"
  proof (cases "migrateActive t")
    case True
    with assms fw have s': "s' = pushMessage m t" by simp
    show ?thesis unfolding s' by (rule steadyI[where es = "[]"]) (simp_all add: accounts_def)
  next
    case act: False
    show ?thesis
    proof (cases "arrivedOn m ''fromOSApps''")
      case True
      then have na: "\<not> arrivedOn m ''fromApps''" by (auto simp: arrivedOn_def)
      from True act assms fw obtain g where g: "sendRequestMessage og Ok m g t = Ok s'"
        by (auto simp: bind_res_Ok_iff)
      show ?thesis using sendRequest_effect[OF g] sendRequest_accounts[OF g] na
        by (simp add: steady_def)
    next
      case os: False
      show ?thesis
      proof (cases "arrivedOn m ''fromApps''")
        case True
        with os act assms fw obtain g where
          g: "sendRequestMessage og Ok v g (updateCounters m 1 t) = Ok s'"
          by (auto simp: bind_res_Ok_iff)
        have "class_of m = class_of v" "arrivedOn v ''fromApps''" using True by (simp_all add: v_def)
        from counted_send_accounts[OF g this] show ?thesis
          using sendRequest_effect[OF g] by (simp add: steady_def)
      next
        case False
        with os act assms fw have "s' = t" by simp
        then show ?thesis by (simp add: steady_refl)
      qed
    qed
  qed
  then show ?thesis by (rule steady_start) (simp_all add: t)
qed

lemma request_idle:
  assumes "queue s = []" "\<And>t. queue t = [] \<Longrightarrow> p t = Ok t"
  shows "vm_processRequestMessage og p m s = vm_processRequestMessage og Ok m s"
proof -
  have "finishMigration og p s = finishMigration og Ok s"
    using assms by (rule finishMigration_idle)
  moreover have "forwardRequest og p m s = forwardRequest og Ok m s"
    using assms by (rule forward_idle)
  moreover have "notifyVMPreparedToMigrate p ((blockMessages s)\<lparr>migration_msg := x\<rparr>) =
      notifyVMPreparedToMigrate Ok ((blockMessages s)\<lparr>migration_msg := x\<rparr>)" for x
    by (rule notify_idle) (simp_all add: assms)
  ultimately show ?thesis by (simp add: vm_processRequestMessage_def Let_def)
qed

lemma stop_steady:
  assumes "t = (blockMessages s)\<lparr>migration_msg := x\<rparr>"
    and "(if \<not> migrateActive s then (if cast_net m = None then Fail Undefined
         else if migrationPrepared t then notifyVMPreparedToMigrate Ok t else Ok t)
       else Ok (emit (Deleted m) s)) = Ok s'"
  shows "steady s (\<lambda>k. 0) s'"
proof -
  have t: "queue t = queue s" "latencyScheduled t = latencyScheduled s" "outbox t = outbox s"
    "\<And>k. pending_of k t = pending_of k s" by (simp_all add: assms(1))
  consider "s' = emit (Deleted m) s" | "notifyVMPreparedToMigrate Ok t = Ok s'" | "s' = t"
    using assms(2) by (metis res.inject(1) res.distinct(1))
  then show ?thesis
  proof cases
    case 1
    then show ?thesis using steady_emit_deleted[OF steady_refl] by simp
  next
    case 2
    show ?thesis using notify_steady[OF 2] by (rule steady_start) (simp_all add: t)
  next
    case 3
    then show ?thesis using steady_start[OF steady_refl t] by simp
  qed
qed

lemma activate_steady:
  assumes "bind_res (finishMigration og Ok s) (\<lambda>s. Ok (emit (Deleted m) s)) = Ok s'"
  shows "steady s (\<lambda>k. 0) s'"
proof -
  from assms obtain s1 where f: "finishMigration og Ok s = Ok s1" and s': "s' = emit (Deleted m) s1"
    by (auto simp: bind_res_Ok_iff)
  have "steady s (\<lambda>k. 0) s1" using finishMigration_effect[OF f] by (simp add: steady_def)
  then show ?thesis unfolding s' by (rule steady_emit_deleted)
qed

lemma request_steady:
  assumes "vm_processRequestMessage og Ok m s = Ok s'"
  shows "steady s (\<lambda>k. 0) s'"
proof (cases "operation m = SM_STOP_AND_DOWN_VM")
  case True
  then show ?thesis using assms unfolding vm_processRequestMessage_def Let_def
    by (intro stop_steady[where x = "Some (m\<lparr>isResponse := True\<rparr>)" and m = m, OF refl]) simp
next
  case False
  then show ?thesis using assms activate_steady forward_steady
    unfolding vm_processRequestMessage_def by (metis (full_types))
qed

subsection \<open>The response handler\<close>

lemma response_idle:
  assumes "queue s = []" "\<And>t. queue t = [] \<Longrightarrow> p t = Ok t"
  shows "vm_processResponseMessage p m s = vm_processResponseMessage Ok m s"
proof -
  have "sendResponseMessage p x t = sendResponseMessage Ok x t" if "queue t = []" for x t
    using that assms(2) by (rule sendResponseMessage_idle)
  moreover have "notifyVMPreparedToMigrate p (pushMessage m (updateCounters m (- 1) s)) =
      notifyVMPreparedToMigrate Ok (pushMessage m (updateCounters m (- 1) s))"
    by (rule notify_idle) (simp_all add: assms)
  ultimately show ?thesis using assms(1)
    by (simp add: vm_processResponseMessage_def Let_def split: prod.split)
qed

lemma response_steady:
  assumes "vm_processResponseMessage Ok m s = Ok s'"
  shows "steady s (\<lambda>k. if class_of m = Some k then - 1 else 0) s'"
proof -
  define t where "t = updateCounters m (- 1) s"
  have t: "queue t = queue s" "latencyScheduled t = latencyScheduled s" "outbox t = outbox s"
    "\<And>k. pending_of k t = pending_of k s + (if class_of m = Some k then - 1 else 0)"
    by (simp_all add: t_def)
  have "steady t (\<lambda>k. 0) s'"
  proof (cases "migrateActive s")
    case True
    have eq: "vm_processResponseMessage Ok m s =
      (if migrationPrepared (pushMessage m t) then notifyVMPreparedToMigrate Ok (pushMessage m t)
       else Ok (pushMessage m t))"
      using True unfolding vm_processResponseMessage_def Let_def t_def by simp
    consider "s' = pushMessage m t" | "notifyVMPreparedToMigrate Ok (pushMessage m t) = Ok s'"
      using assms unfolding eq by (metis res.inject(1) res.distinct(1))
    then show ?thesis
    proof cases
      case 1
      show ?thesis unfolding 1 by (rule steady_start[OF steady_refl]) simp_all
    next
      case 2
      show ?thesis using notify_steady[OF 2] by (rule steady_start) simp_all
    qed
  next
    case False
    have eq: "vm_processResponseMessage Ok m s = (if cast_net m \<noteq> None
        then sendResponseMessage Ok (fst (updateCommId m (commVector t)))
               (t\<lparr>commVector := snd (updateCommId m (commVector t))\<rparr>)
        else sendResponseMessage Ok m t)"
      using False unfolding vm_processResponseMessage_def Let_def t_def
      by (simp add: case_prod_unfold)
    obtain m' cv where "sendResponseMessage Ok m' (t\<lparr>commVector := cv\<rparr>) = Ok s'
        \<or> sendResponseMessage Ok m' t = Ok s'"
      using assms unfolding eq by metis
    then show ?thesis
    proof
      assume r: "sendResponseMessage Ok m' (t\<lparr>commVector := cv\<rparr>) = Ok s'"
      show ?thesis using steady_response[OF r] by (rule steady_start) simp_all
    next
      assume r: "sendResponseMessage Ok m' t = Ok s'"
      then show ?thesis by (rule steady_response)
    qed
  qed
  then show ?thesis using t by (auto simp: steady_def accounts_def)
qed

interpretation vm: message_module og processSelfMessage "vm_processRequestMessage og"
    vm_processResponseMessage for og
proof (unfold_locales, goal_cases)
  case (1 s p m) then show ?case by (rule request_idle)
next
  case (2 s p m) then show ?case by (rule response_idle)
next
  case (3 s m s') then show ?case using request_steady by (fastforce simp: steady_def)
next
  case (4 s m s') then show ?case using response_steady by (fastforce simp: steady_def)
next
  case (5 s n s') then show ?case by (simp add: processSelfMessage_def)
qed

subsection \<open>The accounting over a run\<close>

lemma handle_accounts:
  assumes "queue s = []" "\<not> latencyScheduled s" "vm_handleMessage og i s = Ok s'"
  shows "\<exists>es. accounts s es (\<lambda>k. - answered k [i]) s'"
proof (cases i)
  case (SelfMsg n)
  then show ?thesis using assms(3)
    by (simp add: vm_handleMessage_def handleMessage_def processSelfMessage_def)
next
  case (Incoming m)
  show ?thesis
  proof (cases "isResponse m")
    case True
    then have "vm_processResponseMessage Ok m s = Ok s'"
      using assms vm.handle_response[OF assms(1)] Incoming by (simp add: vm_handleMessage_def)
    from response_steady[OF this] obtain es where
      "accounts s es (\<lambda>k. if class_of m = Some k then - 1 else 0) s'" by (auto simp: steady_def)
    moreover have "(\<lambda>k. if class_of m = Some k then - 1 else 0) = (\<lambda>k. - answered k [i])"
      using True Incoming by (auto simp: answered_def)
    ultimately show ?thesis by auto
  next
    case False
    with assms Incoming vm.handle_request[OF assms(1,2), of m og] obtain m1 s1
      where u: "updateMessageTrace og m s = Ok (m1, s1)"
        and r: "vm_processRequestMessage og Ok m1 s1 = Ok s'"
      by (auto simp: vm_handleMessage_def bind_res_Ok_iff)
    note u' = updateMessageTrace_frame[OF u]
    have more: "module_state.more s1 = module_state.more s" using u' by simp
    from request_steady[OF r] obtain es where "accounts s1 es (\<lambda>k. 0) s'" by (auto simp: steady_def)
    then have "accounts s es (\<lambda>k. 0) s'"
      using u' pending_of_more[OF more] by (simp add: accounts_def)
    moreover have "(\<lambda>k. - answered k [i]) = (\<lambda>k. 0)" using False Incoming by (auto simp: answered_def)
    ultimately show ?thesis by auto
  qed
qed

lemma answered_Cons: "answered k (i # is) = answered k [i] + answered k is"
  by (simp add: answered_def)

lemma run_accounts:
  assumes "queue s = []" "\<not> latencyScheduled s" "fold_res (vm_handleMessage og) is s = Ok s'"
  shows "\<exists>es. accounts s es (\<lambda>k. - answered k is) s'"
  using assms
proof (induction "is" arbitrary: s)
  case Nil
  then show ?case using accounts_refl by (simp add: answered_def)
next
  case (Cons i inps)
  then obtain s1 where h: "vm_handleMessage og i s = Ok s1"
    and f: "fold_res (vm_handleMessage og) inps s1 = Ok s'" by (auto simp: bind_res_Ok_iff)
  have q: "queue s1 = []" "\<not> latencyScheduled s1"
    using vm.handle_quiescent[OF Cons.prems(1,2)] h by (auto simp: vm_handleMessage_def)
  from handle_accounts[OF Cons.prems(1,2) h] Cons.IH[OF q f] obtain es es' where
    "accounts s es (\<lambda>k. - answered k [i]) s1" "accounts s1 es' (\<lambda>k. - answered k inps) s'" by blast
  from accounts_trans[OF this] show ?case
    by (auto simp: answered_Cons[of _ i inps] intro!: exI[of _ "es @ es'"])
qed

subsection \<open>Holding back and releasing\<close>

fun event_msg :: "event \<Rightarrow> message" where
  "event_msg (Sent m d) = m"
| "event_msg (Deleted m) = m"

fun is_command :: "input \<Rightarrow> bool" where
  "is_command (Incoming m) \<longleftrightarrow> \<not> isResponse m \<and>
     (operation m = SM_STOP_AND_DOWN_VM \<or> operation m = SM_VM_ACTIVATION)"
| "is_command (SelfMsg n) \<longleftrightarrow> False"

fun input_id :: "input \<Rightarrow> int" where
  "input_id (Incoming m) = msg_id m"
| "input_id (SelfMsg n) = 0"

definition routable :: "message \<Rightarrow> bool" where
  "routable m \<longleftrightarrow> isResponse m \<or> arrivedOn m ''fromOSApps'' \<or> arrivedOn m ''fromApps''"

lemma sendPending_sends:
  assumes "sendPendingMessage og Ok m s = Ok s'" "routable m"
  shows "\<exists>e. outbox s' = outbox s @ [e] \<and> msg_id (event_msg e) = msg_id m"
proof -
  consider (resp) "sendResponseMessage Ok m s = Ok s'"
    | (req) g t where "outbox t = outbox s" "sendRequestMessage og Ok m g t = Ok s'"
  proof (cases "isResponse m")
    case True
    then show ?thesis using assms(1) that(1) by (simp add: sendPendingMessage_def)
  next
    case False
    then have "(\<exists>g. sendRequestMessage og Ok m g s = Ok s')
        \<or> (\<exists>g. sendRequestMessage og Ok m g (updateCounters m 1 s) = Ok s')"
      using assms by (auto simp: sendPendingMessage_def routable_def bind_res_Ok_iff split: if_split_asm)
    then show ?thesis using that(2)[of s] that(2)[of "updateCounters m 1 s"] by auto
  qed
  then show ?thesis
  proof cases
    case resp
    then show ?thesis using sendResponse_effect(4) by fastforce
  next
    case req
    then show ?thesis using sendRequest_effect(4)[OF req(2)] by auto
  qed
qed

lemma flush_order:
  assumes "flush_loop n og Ok s = Ok s'" "length (pendingMessages s) \<le> n"
    "\<forall>m\<in>set (pendingMessages s). routable m"
  shows "\<exists>es. outbox s' = outbox s @ es \<and>
    map (msg_id \<circ> event_msg) es = map msg_id (pendingMessages s)"
  using assms
proof (induction n arbitrary: s)
  case (Suc n)
  show ?case
  proof (cases "pendingMessages s")
    case Nil
    with Suc.prems show ?thesis by simp
  next
    case (Cons m ms)
    with Suc.prems obtain s1 where s1: "sendPendingMessage og Ok m s = Ok s1"
      and fl: "flush_loop n og Ok (s1\<lparr>pendingMessages := tl (pendingMessages s1)\<rparr>) = Ok s'"
      by (auto simp: bind_res_Ok_iff)
    have pm: "pendingMessages s1 = pendingMessages s" using sendPending_effect[OF s1] by simp
    have "routable m" using Suc.prems(3) Cons by simp
    from sendPending_sends[OF s1 this] obtain e
      where e: "outbox s1 = outbox s @ [e]" "msg_id (event_msg e) = msg_id m" by blast
    have "\<exists>es. outbox s' = outbox s1 @ es \<and> map (msg_id \<circ> event_msg) es = map msg_id ms"
      using Suc.IH[OF fl] Suc.prems(2,3) Cons pm by (simp add: comp_def)
    then obtain es where "outbox s' = outbox s1 @ es" "map (msg_id \<circ> event_msg) es = map msg_id ms"
      by blast
    with e Cons show ?thesis by (intro exI[of _ "e # es"]) (simp add: comp_def)
  qed
qed simp

lemma activation_releases:
  assumes "queue s = []" "\<not> latencyScheduled s"
    and "\<not> isResponse m" "operation m = SM_VM_ACTIVATION"
    and "vm_handleMessage og (Incoming m) s = Ok s'"
    and "\<forall>x\<in>set (pendingMessages s). routable x"
  shows "\<not> migrateActive s' \<and> pendingMessages s' = [] \<and>
    (\<exists>es t. outbox s' = outbox s @ es @ [Deleted (m\<lparr>msg_trace := t\<rparr>)] \<and>
       map (msg_id \<circ> event_msg) es = map msg_id (pendingMessages s))"
proof -
  from assms vm.handle_request[OF assms(1,2,3), of og] obtain m1 s1
    where u: "updateMessageTrace og m s = Ok (m1, s1)"
      and r: "vm_processRequestMessage og Ok m1 s1 = Ok s'"
    by (auto simp: vm_handleMessage_def bind_res_Ok_iff)
  note u' = updateMessageTrace_frame[OF u]
  obtain t where m1: "m1 = m\<lparr>msg_trace := t\<rparr>" using u' by blast
  have "module_state.more s1 = module_state.more s" using u' by simp
  note pm = controller_more(2)[OF this]
  have "operation m1 = SM_VM_ACTIVATION" "operation m1 \<noteq> SM_STOP_AND_DOWN_VM"
    using m1 assms(4) by (simp_all add: SM_VM_ACTIVATION_def SM_STOP_AND_DOWN_VM_def)
  with r obtain s2 where f: "finishMigration og Ok s1 = Ok s2" and s': "s' = emit (Deleted m1) s2"
    by (auto simp: vm_processRequestMessage_def bind_res_Ok_iff)
  have "\<exists>es. outbox s2 = outbox s1 @ es \<and> map (msg_id \<circ> event_msg) es = map msg_id (pendingMessages s1)"
    using flush_order[of _ og "s1\<lparr>migrateActive := False\<rparr>" s2] f assms(6) pm
    by (simp add: finishMigration_def flushPendingMessages_def)
  then show ?thesis using finishMigration_effect[OF f] s' m1 pm u' by auto
qed

text \<open>The copies of the stop notice that the machine sends while it is blocked.\<close>

definition notices :: "message option \<Rightarrow> event list \<Rightarrow> bool" where
  "notices mm es \<longleftrightarrow> (\<forall>e\<in>set es. \<exists>m t g. mm = Some m \<and> e = Sent (m\<lparr>msg_trace := t\<rparr>) (ViaGateId g))"

lemma notify_notice:
  assumes "notifyVMPreparedToMigrate Ok s = Ok s'"
  shows "\<exists>m t g. migration_msg s = Some m \<and> outbox s' = outbox s @ [Sent (m\<lparr>msg_trace := t\<rparr>) (ViaGateId g)]
    \<and> module_state.more s' = module_state.more s"
  using assms sendResponse_effect(3,4)
  by (fastforce simp: notifyVMPreparedToMigrate_def split: option.splits)

definition held :: "'a msg_controller_scheme \<Rightarrow> input list \<Rightarrow> 'a msg_controller_scheme \<Rightarrow> bool" where
  "held s inps s' \<longleftrightarrow> migrateActive s' \<and> migration_msg s' = migration_msg s \<and>
     map msg_id (pendingMessages s') = map msg_id (pendingMessages s) @ map input_id inps \<and>
     (\<exists>es. outbox s' = outbox s @ es \<and> notices (migration_msg s) es)"

lemma held_step:
  assumes "queue s = []" "\<not> latencyScheduled s" "migrateActive s" "\<not> is_command i"
    and "vm_handleMessage og i s = Ok s'"
  shows "held s [i] s'"
proof (cases i)
  case (SelfMsg n)
  then show ?thesis using assms(5)
    by (simp add: vm_handleMessage_def handleMessage_def processSelfMessage_def)
next
  case (Incoming m)
  show ?thesis
  proof (cases "isResponse m")
    case True
    define t where "t = pushMessage m (updateCounters m (- 1) s)"
    have "vm_processResponseMessage Ok m s = Ok s'"
      using True assms vm.handle_response[OF assms(1)] Incoming by (simp add: vm_handleMessage_def)
    then have "s' = t \<or> notifyVMPreparedToMigrate Ok t = Ok s'"
      using assms(3) unfolding vm_processResponseMessage_def Let_def t_def updateCounters_frame
      by (metis res.inject(1))
    moreover have t: "migrateActive t" "migration_msg t = migration_msg s" "outbox t = outbox s"
      "pendingMessages t = pendingMessages s @ [m]" using assms(3) by (simp_all add: t_def)
    ultimately show ?thesis
    proof (elim disjE)
      assume "s' = t"
      then show ?thesis using t Incoming by (auto simp: held_def notices_def)
    next
      assume n: "notifyVMPreparedToMigrate Ok t = Ok s'"
      from notify_notice[OF n] obtain mm tr g where mm: "migration_msg t = Some mm"
        "outbox s' = outbox t @ [Sent (mm\<lparr>msg_trace := tr\<rparr>) (ViaGateId g)]"
        and more: "module_state.more s' = module_state.more t" by blast
      have "notices (Some mm) [Sent (mm\<lparr>msg_trace := tr\<rparr>) (ViaGateId g)]"
        by (auto simp: notices_def)
      then have "notices (migration_msg s) [Sent (mm\<lparr>msg_trace := tr\<rparr>) (ViaGateId g)]"
        using t(2) mm(1) by simp
      then show ?thesis using t mm Incoming controller_more(1,2,7)[OF more]
        by (simp add: held_def)
    qed
  next
    case False
    with assms Incoming vm.handle_request[OF assms(1,2), of m og] obtain m1 s1
      where u: "updateMessageTrace og m s = Ok (m1, s1)"
        and r: "vm_processRequestMessage og Ok m1 s1 = Ok s'"
      by (auto simp: vm_handleMessage_def bind_res_Ok_iff)
    note u' = updateMessageTrace_frame[OF u]
    have more: "module_state.more s1 = module_state.more s" using u' by simp
    note c = controller_more[OF this]
    have "operation m1 \<noteq> SM_STOP_AND_DOWN_VM" "operation m1 \<noteq> SM_VM_ACTIVATION" "msg_id m1 = msg_id m"
      using u' assms(4) Incoming False by auto
    with r have "forwardRequest og Ok m1 s1 = Ok s'" by (simp add: vm_processRequestMessage_def)
    then have "s' = pushMessage (m1\<lparr>pid := pId s1, uid := uId s1\<rparr>) s1 \<or>
       (\<exists>cv. s' = pushMessage (m1\<lparr>pid := pId s1, uid := uId s1\<rparr>) (s1\<lparr>commVector := cv\<rparr>))"
      using c(1) assms(3) by (auto simp: forwardRequest_def Let_def split: if_split_asm)
    then show ?thesis using u' c(1,2,7) assms(3) Incoming \<open>msg_id m1 = msg_id m\<close>
      by (auto simp: held_def notices_def)
  qed
qed

lemma held_trans: "held s a s1 \<Longrightarrow> held s1 b s2 \<Longrightarrow> held s (a @ b) s2"
  unfolding held_def notices_def by (elim conjE exE) (simp, metis Un_iff append.assoc set_append)

lemma held_run:
  assumes "queue s = []" "\<not> latencyScheduled s" "migrateActive s" "\<forall>i\<in>set is. \<not> is_command i"
    and "fold_res (vm_handleMessage og) is s = Ok s'"
  shows "held s is s'"
  using assms
proof (induction "is" arbitrary: s)
  case Nil
  then show ?case by (auto simp: held_def notices_def)
next
  case (Cons i inps)
  then obtain s1 where h: "vm_handleMessage og i s = Ok s1"
    and f: "fold_res (vm_handleMessage og) inps s1 = Ok s'" by (auto simp: bind_res_Ok_iff)
  have q: "queue s1 = []" "\<not> latencyScheduled s1"
    using vm.handle_quiescent[OF Cons.prems(1,2)] h by (auto simp: vm_handleMessage_def)
  have st: "held s [i] s1" using held_step[OF Cons.prems(1,2,3) _ h] Cons.prems(4) by simp
  then have "migrateActive s1" by (simp add: held_def)
  from Cons.IH[OF q this _ f] Cons.prems(4) have "held s1 inps s'" by simp
  with held_trans[OF st] show ?case by simp
qed

subsection \<open>A blocked machine speaks only when nothing is out\<close>

lemma forward_flag:
  assumes "forwardRequest og Ok m s = Ok s'"
  shows "migrateActive s' = migrateActive s" "migrateActive s \<Longrightarrow> outbox s' = outbox s"
proof -
  have sent: "migrateActive t' = migrateActive t" if "sendRequestMessage og Ok x g t = Ok t'"
    for x g t and t' :: "'a msg_controller_scheme"
    using controller_more(1)[OF sendRequest_effect(3)[OF that]] .
  show "migrateActive s' = migrateActive s"
    using assms by (auto simp: forwardRequest_def Let_def bind_res_Ok_iff dest!: sent split: if_split_asm)
  show "migrateActive s \<Longrightarrow> outbox s' = outbox s"
    using assms by (auto simp: forwardRequest_def Let_def split: if_split_asm)
qed

lemma notify_prepared:
  assumes "notifyVMPreparedToMigrate Ok t = Ok s'" "migrationPrepared t"
  shows "\<forall>k. pending_of k s' = 0"
  using notify_notice[OF assms(1)] pending_of_more[of s' t] assms(2) by (auto simp: prepared_iff)

lemma speaks_only_prepared:
  assumes "queue s = []" "\<not> latencyScheduled s" "vm_handleMessage og i s = Ok s'"
    and "migrateActive s'" "outbox s' = outbox s @ es" "Sent x d \<in> set es"
  shows "\<forall>k. pending_of k s' = 0"
proof (cases i)
  case (SelfMsg n)
  then show ?thesis using assms(3)
    by (simp add: vm_handleMessage_def handleMessage_def processSelfMessage_def)
next
  case (Incoming m)
  show ?thesis
  proof (cases "isResponse m")
    case True
    define t where "t = pushMessage m (updateCounters m (- 1) s)"
    have r: "vm_processResponseMessage Ok m s = Ok s'"
      using True assms vm.handle_response[OF assms(1)] Incoming by (simp add: vm_handleMessage_def)
    have act: "migrateActive s"
    proof (rule ccontr)
      assume na: "\<not> migrateActive s"
      obtain m' u where "sendResponseMessage Ok m' u = Ok s'" "migrateActive u = migrateActive s"
      proof (cases "cast_net m = None")
        case True
        with r na show ?thesis by (intro that[of m "updateCounters m (- 1) s"])
            (simp_all add: vm_processResponseMessage_def)
      next
        case False
        let ?p = "updateCommId m (commVector s)"
        from False r na show ?thesis
          by (intro that[of "fst ?p" "(updateCounters m (- 1) s)\<lparr>commVector := snd ?p\<rparr>"])
             (simp_all add: vm_processResponseMessage_def case_prod_unfold Let_def)
      qed
      then show False using controller_more(1)[OF sendResponse_effect(3)] na assms(4) by metis
    qed
    have "outbox s' \<noteq> outbox t" using assms(5,6) by (auto simp: t_def)
    with r act have "migrationPrepared t \<and> notifyVMPreparedToMigrate Ok t = Ok s'"
      by (auto simp: vm_processResponseMessage_def Let_def t_def split: if_split_asm)
    then show ?thesis using notify_prepared by blast
  next
    case False
    with assms Incoming vm.handle_request[OF assms(1,2), of m og] obtain m1 s1
      where u: "updateMessageTrace og m s = Ok (m1, s1)"
        and r: "vm_processRequestMessage og Ok m1 s1 = Ok s'"
      by (auto simp: vm_handleMessage_def bind_res_Ok_iff)
    have ob: "outbox s1 = outbox s" using updateMessageTrace_frame[OF u] by simp
    show ?thesis
    proof (cases "operation m1 = SM_STOP_AND_DOWN_VM")
      case True
      define t where "t = (blockMessages s1)\<lparr>migration_msg := Some (m1\<lparr>isResponse := True\<rparr>)\<rparr>"
      have "s' \<noteq> t" "s' \<noteq> emit (Deleted m1) s1" using ob assms(5,6) by (auto simp: t_def)
      with r True have "migrationPrepared t \<and> notifyVMPreparedToMigrate Ok t = Ok s'"
        by (simp add: vm_processRequestMessage_def Let_def t_def[symmetric] split: if_split_asm)
      then show ?thesis using notify_prepared by blast
    next
      case stop: False
      show ?thesis
      proof (cases "operation m1 = SM_VM_ACTIVATION")
        case True
        with r stop assms(4) finishMigration_effect show ?thesis
          by (fastforce simp: vm_processRequestMessage_def bind_res_Ok_iff)
      next
        case False
        with r stop have f: "forwardRequest og Ok m1 s1 = Ok s'" by (simp add: vm_processRequestMessage_def)
        then show ?thesis using forward_flag[OF f] ob assms(4-6) by simp
      qed
    qed
  qed
qed

end
