(* ===== verification/DockerDaemon.thy ===== *)
theory DockerDaemon imports VmMigration begin

text \<open>
  \<^verbatim>\<open>DockerDaemon\<close> (\<^verbatim>\<open>src/src/Virtualization/DockerEngine/DockerDaemon.cc\<close>): the message
  controller of the containers of a virtual machine.  The class is a copy of
  \<^verbatim>\<open>VmMsgController\<close> with the member \<^verbatim>\<open>conId\<close> added, other command codes, and a response handler
  in which the branch for the blocked state is commented out: responses always leave, and the
  pending stop command is not looked at again.
\<close>

definition SM_STOP_AND_DOWN_CONTAINER :: int where "SM_STOP_AND_DOWN_CONTAINER = 428"
definition SM_CONTAINER_ACTIVATION :: int where "SM_CONTAINER_ACTIVATION = 429"

record docker_daemon = msg_controller +
  conId :: int

definition dd_initialize :: "int \<Rightarrow> string \<Rightarrow> docker_daemon" where
  "dd_initialize i host = msg_controller.extend (vm_initialize i host) \<lparr>conId = -1\<rparr>"

type_synonym dd_pump = "docker_daemon \<Rightarrow> docker_daemon res"

definition dd_updateCounters :: "message \<Rightarrow> int \<Rightarrow> docker_daemon \<Rightarrow> docker_daemon" where
  "dd_updateCounters = updateCounters"

definition notifyContainerPreparedToMigrate :: "dd_pump \<Rightarrow> docker_daemon \<Rightarrow> docker_daemon res" where
  "notifyContainerPreparedToMigrate pump s = (case migration_msg s of
     None \<Rightarrow> Fail Undefined | Some m \<Rightarrow> sendResponseMessage pump m s)"

definition dd_sendPendingMessage ::
  "(message \<Rightarrow> int option) \<Rightarrow> dd_pump \<Rightarrow> message \<Rightarrow> docker_daemon \<Rightarrow> docker_daemon res" where
  "dd_sendPendingMessage og pump m s =
     (if isResponse m then sendResponseMessage pump m s
      else if arrivedOn m ''fromOSApps''
      then bind_res (getGate (snd (arrival m)) (toApps s)) (\<lambda>g. sendRequestMessage og pump m g s)
      else if arrivedOn m ''fromApps''
      then bind_res (getGate (snd (arrival m)) (toOSApps s)) (\<lambda>g.
             sendRequestMessage og pump m g (dd_updateCounters m 1 s))
      else Ok s)"

fun dd_flush_loop :: "nat \<Rightarrow> (message \<Rightarrow> int option) \<Rightarrow> dd_pump \<Rightarrow> docker_daemon \<Rightarrow> docker_daemon res" where
  "dd_flush_loop 0 og pump s = Ok s"
| "dd_flush_loop (Suc n) og pump s = (case pendingMessages s of
     [] \<Rightarrow> Ok s
   | m # _ \<Rightarrow> bind_res (dd_sendPendingMessage og pump m s) (\<lambda>s'.
        dd_flush_loop n og pump (s'\<lparr>pendingMessages := tl (pendingMessages s')\<rparr>)))"

definition dd_flushPendingMessages ::
  "(message \<Rightarrow> int option) \<Rightarrow> dd_pump \<Rightarrow> docker_daemon \<Rightarrow> docker_daemon res" where
  "dd_flushPendingMessages og pump s =
     dd_flush_loop (length (pendingMessages s) + length (queue s)) og pump s"

definition dd_finishMigration ::
  "(message \<Rightarrow> int option) \<Rightarrow> dd_pump \<Rightarrow> docker_daemon \<Rightarrow> docker_daemon res" where
  "dd_finishMigration og pump s = dd_flushPendingMessages og pump (s\<lparr>migrateActive := False\<rparr>)"

definition dd_insertCommId :: "int \<Rightarrow> int \<Rightarrow> int \<Rightarrow> int \<Rightarrow> comm_entry list \<Rightarrow> comm_entry list" where
  "dd_insertCommId u p comm msg cv =
     (case index_of (\<lambda>c. ce_uId c = u \<and> ce_pId c = p) cv of
        Some i \<Rightarrow> cv[i := (cv ! i)\<lparr>internals := internals (cv ! i) @ [\<lparr>ci_commId = comm, ci_msgId = msg\<rparr>]\<rparr>]
      | None \<Rightarrow> cv @ [\<lparr>internals = [\<lparr>ci_commId = comm, ci_msgId = msg\<rparr>], ce_uId = u, ce_pId = p\<rparr>])"

definition dd_updateCommId :: "message \<Rightarrow> comm_entry list \<Rightarrow> message \<times> comm_entry list" where
  "dd_updateCommId = updateCommId"

definition dd_processRequestMessage ::
  "(message \<Rightarrow> int option) \<Rightarrow> dd_pump \<Rightarrow> message \<Rightarrow> docker_daemon \<Rightarrow> docker_daemon res" where
  "dd_processRequestMessage og pump msg s =
     (if operation msg = SM_STOP_AND_DOWN_CONTAINER then
        (if \<not> migrateActive s then
           (if cast_net msg = None then Fail Undefined
            else let s = (blockMessages s)\<lparr>migration_msg := Some (msg\<lparr>isResponse := True\<rparr>)\<rparr>
                 in if migrationPrepared s then notifyContainerPreparedToMigrate pump s else Ok s)
         else Ok (emit (Deleted msg) s))
      else if operation msg = SM_CONTAINER_ACTIVATION then
        bind_res (dd_finishMigration og pump s) (\<lambda>s. Ok (emit (Deleted msg) s))
      else
        (let m = msg\<lparr>pid := pId s, uid := uId s\<rparr>;
             s = (if cast_net m \<noteq> None \<and> commId m \<noteq> -1
                  then s\<lparr>commVector := dd_insertCommId (uId s) (pId s) (commId m) (msg_id m) (commVector s)\<rparr>
                  else s)
         in if migrateActive s then Ok (pushMessage m s)
            else if arrivedOn m ''fromOSApps''
            then bind_res (getGate (snd (arrival m)) (toApps s)) (\<lambda>g. sendRequestMessage og pump m g s)
            else if arrivedOn m ''fromApps''
            then (let s = dd_updateCounters m 1 s;
                      m = virtualise (m\<lparr>commId := int (snd (arrival m))\<rparr>)
                  in bind_res (getGate (nat (commId m)) (toOSApps s)) (\<lambda>g.
                       sendRequestMessage og pump m g s))
            else Ok s))"

definition dd_processResponseMessage :: "dd_pump \<Rightarrow> message \<Rightarrow> docker_daemon \<Rightarrow> docker_daemon res" where
  "dd_processResponseMessage pump sm s =
     (let s = dd_updateCounters sm (-1) s
      in if cast_net sm \<noteq> None then
           (let (sm', cv) = dd_updateCommId sm (commVector s)
            in sendResponseMessage pump sm' (s\<lparr>commVector := cv\<rparr>))
         else sendResponseMessage pump sm s)"

definition dd_processSelfMessage :: "string \<Rightarrow> docker_daemon \<Rightarrow> docker_daemon res" where
  "dd_processSelfMessage name s = Fail (Thrown ''processSelfMessage'')"

definition dd_handleMessage :: "(message \<Rightarrow> int option) \<Rightarrow> input \<Rightarrow> docker_daemon \<Rightarrow> docker_daemon res" where
  "dd_handleMessage og = handleMessage og dd_processSelfMessage (dd_processRequestMessage og)
     dd_processResponseMessage"

definition dd_activateMessages ::
  "(message \<Rightarrow> int option) \<Rightarrow> dd_pump \<Rightarrow> docker_daemon \<Rightarrow> docker_daemon res" where
  "dd_activateMessages og pump s = dd_flushPendingMessages og pump (s\<lparr>migrateActive := False\<rparr>)"

text \<open>
  \<^verbatim>\<open>popMessage\<close> erases the first message and then reads through the iterator that pointed to
  it: in a \<^verbatim>\<open>std::vector\<close> the place now holds the next message, if there is one.
\<close>

definition popMessage :: "docker_daemon \<Rightarrow> (message \<times> docker_daemon) res" where
  "popMessage s = (case pendingMessages s of
     m # m' # ms \<Rightarrow> Ok (m', s\<lparr>pendingMessages := m' # ms\<rparr>)
   | _ \<Rightarrow> Fail Undefined)"

subsection \<open>The copied operations agree with those of the virtual machine\<close>

lemma list_update_index_of:
  "index_of P xs = Some i \<Longrightarrow> xs[i := f (xs ! i)] = update_first P f xs"
  by (induction xs arbitrary: i) (auto split: if_splits)

lemma dd_insertCommId_eq: "dd_insertCommId u p c m cv = insertCommId u p c m cv"
  using list_update_index_of[of "\<lambda>c. ce_uId c = u \<and> ce_pId c = p" cv _
      "\<lambda>e. e\<lparr>internals := internals e @ [\<lparr>ci_commId = c, ci_msgId = m\<rparr>]\<rparr>"]
  by (simp add: dd_insertCommId_def insertCommId_def Let_def split: option.split)

lemma dd_sendPending_eq: "dd_sendPendingMessage og p m s = sendPendingMessage og p m s"
  by (simp add: dd_sendPendingMessage_def sendPendingMessage_def dd_updateCounters_def)

lemma dd_flush_eq: "dd_flush_loop n og p s = flush_loop n og p s"
  by (induction n arbitrary: s)
     (auto simp: dd_sendPending_eq split: list.split intro!: bind_res_cong)

lemma dd_finish_eq: "dd_finishMigration og p s = finishMigration og p s"
  by (simp add: dd_finishMigration_def finishMigration_def dd_flushPendingMessages_def
      flushPendingMessages_def dd_flush_eq)

lemma dd_notify_eq: "notifyContainerPreparedToMigrate p s = notifyVMPreparedToMigrate p s"
  by (simp add: notifyContainerPreparedToMigrate_def notifyVMPreparedToMigrate_def)

lemma dd_request_other:
  assumes "operation m \<noteq> SM_STOP_AND_DOWN_CONTAINER" "operation m \<noteq> SM_CONTAINER_ACTIVATION"
  shows "dd_processRequestMessage og p m s = forwardRequest og p m s"
  using assms unfolding dd_processRequestMessage_def forwardRequest_def dd_insertCommId_eq
    dd_updateCounters_def by simp

subsection \<open>The contract of the base class\<close>

lemma dd_request_idle:
  assumes "queue s = []" "\<And>t. queue t = [] \<Longrightarrow> p t = Ok t"
  shows "dd_processRequestMessage og p m s = dd_processRequestMessage og Ok m s"
proof -
  have "finishMigration og p s = finishMigration og Ok s"
    using assms by (rule finishMigration_idle)
  moreover have "forwardRequest og p m s = forwardRequest og Ok m s"
    using assms by (rule forward_idle)
  moreover have "notifyVMPreparedToMigrate p ((blockMessages s)\<lparr>migration_msg := x\<rparr>) =
      notifyVMPreparedToMigrate Ok ((blockMessages s)\<lparr>migration_msg := x\<rparr>)" for x
    by (rule notify_idle) (simp_all add: assms)
  ultimately show ?thesis using dd_request_other[of m og p s] dd_request_other[of m og Ok s]
    by (cases "operation m = SM_STOP_AND_DOWN_CONTAINER"; cases "operation m = SM_CONTAINER_ACTIVATION")
       (simp_all add: dd_processRequestMessage_def Let_def dd_finish_eq dd_notify_eq)
qed

lemma dd_request_steady:
  assumes "dd_processRequestMessage og Ok m s = Ok s'"
  shows "steady s (\<lambda>k. 0) s'"
proof (cases "operation m = SM_STOP_AND_DOWN_CONTAINER")
  case True
  then show ?thesis using assms unfolding dd_processRequestMessage_def Let_def dd_notify_eq
    by (intro stop_steady[where x = "Some (m\<lparr>isResponse := True\<rparr>)" and m = m, OF refl]) simp
next
  case stop: False
  show ?thesis
  proof (cases "operation m = SM_CONTAINER_ACTIVATION")
    case True
    with stop assms show ?thesis
      by (intro activate_steady[of og s m]) (simp add: dd_processRequestMessage_def dd_finish_eq)
  next
    case False
    with stop assms have "forwardRequest og Ok m s = Ok s'" by (simp add: dd_request_other)
    then show ?thesis by (rule forward_steady)
  qed
qed

lemma dd_response_cases:
  obtains m' t where "dd_processResponseMessage p m s = sendResponseMessage p m' t"
    "queue t = queue s" "latencyScheduled t = latencyScheduled s" "outbox t = outbox s"
    "\<And>k. pending_of k t = pending_of k s + (if class_of m = Some k then - 1 else 0)"
    "migrateActive t = migrateActive s" "msg_id m' = msg_id m"
proof (cases "cast_net m = None")
  case True
  then show ?thesis
    by (intro that[of m "updateCounters m (- 1) s"])
       (simp_all add: dd_processResponseMessage_def dd_updateCounters_def)
next
  case False
  have id: "msg_id (fst (updateCommId m cv)) = msg_id m" for cv
    by (induction m cv rule: updateCommId.induct)
       (auto simp: Let_def split: option.splits prod.splits)
  let ?r = "updateCommId m (commVector (updateCounters m (- 1) s))"
  from False show ?thesis
    by (intro that[of "fst ?r" "(updateCounters m (- 1) s)\<lparr>commVector := snd ?r\<rparr>"])
       (simp_all add: dd_processResponseMessage_def dd_updateCounters_def dd_updateCommId_def
         case_prod_unfold Let_def id)
qed

lemma dd_response_idle:
  assumes "queue s = []" "\<And>t. queue t = [] \<Longrightarrow> p t = Ok t"
  shows "dd_processResponseMessage p m s = dd_processResponseMessage Ok m s"
proof -
  have "sendResponseMessage p x t = sendResponseMessage Ok x t" if "queue t = []" for x t
    using that assms(2) by (rule sendResponseMessage_idle)
  then show ?thesis using assms(1)
    by (simp add: dd_processResponseMessage_def Let_def dd_updateCounters_def split: prod.split)
qed

lemma dd_response_steady:
  assumes "dd_processResponseMessage Ok m s = Ok s'"
  shows "steady s (\<lambda>k. if class_of m = Some k then - 1 else 0) s'"
proof -
  obtain m' t where t: "dd_processResponseMessage Ok m s = sendResponseMessage Ok m' t"
    "queue t = queue s" "latencyScheduled t = latencyScheduled s" "outbox t = outbox s"
    "\<And>k. pending_of k t = pending_of k s + (if class_of m = Some k then - 1 else 0)"
    using dd_response_cases[of Ok m s] by metis
  with assms have "steady t (\<lambda>k. 0) s'" by (simp add: steady_response)
  with t show ?thesis by (auto simp: steady_def accounts_def)
qed

interpretation dd: message_module og dd_processSelfMessage "dd_processRequestMessage og"
    dd_processResponseMessage for og
proof (unfold_locales, goal_cases)
  case (1 s p m) then show ?case by (rule dd_request_idle)
next
  case (2 s p m) then show ?case by (rule dd_response_idle)
next
  case (3 s m s') then show ?case using dd_request_steady by (fastforce simp: steady_def)
next
  case (4 s m s') then show ?case using dd_response_steady by (fastforce simp: steady_def)
next
  case (5 s n s') then show ?case by (simp add: dd_processSelfMessage_def)
qed

subsection \<open>A blocked daemon\<close>

fun dd_is_activation :: "input \<Rightarrow> bool" where
  "dd_is_activation (Incoming m) \<longleftrightarrow> \<not> isResponse m \<and> operation m = SM_CONTAINER_ACTIVATION"
| "dd_is_activation (SelfMsg n) \<longleftrightarrow> False"

fun is_incoming_id :: "input list \<Rightarrow> event \<Rightarrow> bool" where
  "is_incoming_id inps e \<longleftrightarrow> (\<exists>m. Incoming m \<in> set inps \<and> msg_id (event_msg e) = msg_id m)"

definition only_echo :: "docker_daemon \<Rightarrow> input list \<Rightarrow> docker_daemon \<Rightarrow> bool" where
  "only_echo s inps s' \<longleftrightarrow> migrateActive s' \<and>
     (\<exists>es. outbox s' = outbox s @ es \<and> (\<forall>e\<in>set es. is_incoming_id inps e))"

lemma only_echo_trans: "only_echo s a s1 \<Longrightarrow> only_echo s1 b s2 \<Longrightarrow> only_echo s (a @ b) s2"
  by (fastforce simp: only_echo_def)

lemma dd_blocked_step:
  assumes "queue s = []" "\<not> latencyScheduled s" "migrateActive s" "\<not> dd_is_activation i"
    and "dd_handleMessage og i s = Ok s'"
  shows "only_echo s [i] s'"
proof (cases i)
  case (SelfMsg n)
  then show ?thesis using assms(5)
    by (simp add: dd_handleMessage_def handleMessage_def dd_processSelfMessage_def)
next
  case (Incoming m)
  show ?thesis
  proof (cases "isResponse m")
    case True
    then have r: "dd_processResponseMessage Ok m s = Ok s'"
      using assms dd.handle_response[OF assms(1)] Incoming by (simp add: dd_handleMessage_def)
    obtain m' t where t: "dd_processResponseMessage Ok m s = sendResponseMessage Ok m' t"
      "outbox t = outbox s" "migrateActive t = migrateActive s" "msg_id m' = msg_id m"
      using dd_response_cases[of Ok m s] by metis
    with r have sr: "sendResponseMessage Ok m' t = Ok s'" by simp
    from sendResponse_effect(4)[OF sr] obtain tr g where
      "outbox s' = outbox t @ [Sent (m'\<lparr>msg_trace := tr\<rparr>) (ViaGateId g)]" by blast
    then show ?thesis using t assms(3) Incoming controller_more(1)[OF sendResponse_effect(3)[OF sr]]
      by (simp add: only_echo_def)
  next
    case False
    with assms Incoming dd.handle_request[OF assms(1,2), of m og] obtain m1 s1
      where u: "updateMessageTrace og m s = Ok (m1, s1)"
        and r: "dd_processRequestMessage og Ok m1 s1 = Ok s'"
      by (auto simp: dd_handleMessage_def bind_res_Ok_iff)
    note u' = updateMessageTrace_frame[OF u]
    have act: "migrateActive s1" using controller_more(1)[of s1 s] u' assms(3) by simp
    have m1: "operation m1 = operation m" "msg_id m1 = msg_id m" using u' by auto
    have na: "operation m1 \<noteq> SM_CONTAINER_ACTIVATION" using m1 assms(4) Incoming False by simp
    show ?thesis
    proof (cases "operation m1 = SM_STOP_AND_DOWN_CONTAINER")
      case True
      with r act have "s' = emit (Deleted m1) s1" by (simp add: dd_processRequestMessage_def)
      then show ?thesis using u' m1 act Incoming by (simp add: only_echo_def)
    next
      case no_stop: False
      with r na have "forwardRequest og Ok m1 s1 = Ok s'" by (simp add: dd_request_other)
      with act have "outbox s' = outbox s1 \<and> migrateActive s'"
        by (auto simp: forwardRequest_def Let_def split: if_split_asm)
      then show ?thesis using u' by (simp add: only_echo_def)
    qed
  qed
qed

lemma dd_blocked_run:
  assumes "queue s = []" "\<not> latencyScheduled s" "migrateActive s" "\<forall>i\<in>set is. \<not> dd_is_activation i"
    and "fold_res (dd_handleMessage og) is s = Ok s'"
  shows "only_echo s is s'"
  using assms
proof (induction "is" arbitrary: s)
  case Nil
  then show ?case by (simp add: only_echo_def)
next
  case (Cons i inps)
  then obtain s1 where h: "dd_handleMessage og i s = Ok s1"
    and f: "fold_res (dd_handleMessage og) inps s1 = Ok s'" by (auto simp: bind_res_Ok_iff)
  have q: "queue s1 = []" "\<not> latencyScheduled s1"
    using dd.handle_quiescent[OF Cons.prems(1,2)] h by (auto simp: dd_handleMessage_def)
  have st: "only_echo s [i] s1" using dd_blocked_step[OF Cons.prems(1,2,3) _ h] Cons.prems(4) by simp
  then have "migrateActive s1" by (simp add: only_echo_def)
  from Cons.IH[OF q this _ f] Cons.prems(4) have "only_echo s1 inps s'" by simp
  with only_echo_trans[OF st] show ?case by simp
qed

end
