(* ===== verification/GateLinks.thy ===== *)
theory GateLinks imports GateManager begin

text \<open>
  Modules that keep several gate managers (\<^verbatim>\<open>VmMsgController\<close>, \<^verbatim>\<open>DockerDaemon\<close>, the managers of
  the hypervisor) address a peer by one number in all of them.  Two managers of the same shape
  allocate the same position; \<open>in_step sh n gm\<close> says that the manager \<open>gm\<close> of the gate vector \<open>n\<close>
  is well formed and has the shape \<open>sh\<close>, and the lemmas follow the shape through the operations.
\<close>

definition newGateOut :: "string \<Rightarrow> gate \<Rightarrow> gate_manager \<Rightarrow> (nat \<times> gate_manager) res" where
  "newGateOut name g gm = bind_res (newGate name gm) (\<lambda>(i, gm). bind_res (connectOut g i gm) (\<lambda>gm. Ok (i, gm)))"

definition newGateIn :: "string \<Rightarrow> gate \<Rightarrow> gate_manager \<Rightarrow> (nat \<times> gate_manager) res" where
  "newGateIn name g gm = bind_res (newGate name gm) (\<lambda>(i, gm). bind_res (connectIn g i gm) (\<lambda>gm. Ok (i, gm)))"

definition named :: "string \<Rightarrow> gate_manager \<Rightarrow> bool" where
  "named n gm \<longleftrightarrow> (\<forall>j < length (gates gm). slot_gate (gates gm ! j) = (n, j))"

definition manager_ok :: "string \<Rightarrow> gate_manager \<Rightarrow> bool" where
  "manager_ok n gm \<longleftrightarrow> gm_inv gm \<and> named n gm"

lemma named_cong: "gates a = gates b \<Longrightarrow> named n a = named n b"
  by (simp add: named_def)

lemma newGate_manager:
  assumes "manager_ok n gm"
  shows "\<exists>i gm'. newGate n gm = Ok (i, gm') \<and> manager_ok n gm'
     \<and> (i, gm_shape gm') = shape_alloc (gm_shape gm) \<and> i \<in> live gm' \<and> live gm' = insert i (live gm)
     \<and> i \<notin> live gm"
proof -
  have inv: "gm_inv gm" "named n gm" using assms by (simp_all add: manager_ok_def)
  from newGate_ok[OF inv(1)] obtain i gm' where
    n: "newGate n gm = Ok (i, gm')" "i \<notin> live gm" "live gm' = insert i (live gm)" "gm_inv gm'" by blast
  have "named n gm'"
    using inv(1) by (cases rule: newGate_cases[where n = n])
      (use inv(2) n(1) in \<open>auto simp: named_def nth_append nth_list_update less_Suc_eq\<close>)
  with n newGate_shape[OF inv(1) n(1)] show ?thesis by (auto simp: manager_ok_def)
qed

lemma connect_manager:
  assumes "manager_ok n gm" "i \<in> live gm"
  shows "\<exists>gm'. connectOut g i gm = Ok gm' \<and> manager_ok n gm' \<and> gm_shape gm' = gm_shape gm"
    "\<exists>gm'. connectIn g i gm = Ok gm' \<and> manager_ok n gm' \<and> gm_shape gm' = gm_shape gm"
  using connect_ok[OF assms(2), of g] connect_frame gm_inv_cong named_cong assms(1)
  by (metis manager_ok_def)+

lemma newGateOut_manager:
  assumes "manager_ok n gm"
  shows "\<exists>gm'. newGateOut n g gm = Ok (fst (shape_alloc (gm_shape gm)), gm') \<and> manager_ok n gm'
     \<and> gm_shape gm' = snd (shape_alloc (gm_shape gm))"
proof -
  from newGate_manager[OF assms] obtain i gm1 where n: "newGate n gm = Ok (i, gm1)" "manager_ok n gm1"
    "(i, gm_shape gm1) = shape_alloc (gm_shape gm)" "i \<in> live gm1" by blast
  from n(3) have "i = fst (shape_alloc (gm_shape gm))" "gm_shape gm1 = snd (shape_alloc (gm_shape gm))"
    by (metis fst_conv, metis snd_conv)
  with connect_manager(1)[OF n(2,4), of g] n(1) show ?thesis by (auto simp: newGateOut_def)
qed

lemma newGateIn_manager:
  assumes "manager_ok n gm"
  shows "\<exists>gm'. newGateIn n g gm = Ok (fst (shape_alloc (gm_shape gm)), gm') \<and> manager_ok n gm'
     \<and> gm_shape gm' = snd (shape_alloc (gm_shape gm))"
proof -
  from newGate_manager[OF assms] obtain i gm1 where n: "newGate n gm = Ok (i, gm1)" "manager_ok n gm1"
    "(i, gm_shape gm1) = shape_alloc (gm_shape gm)" "i \<in> live gm1" by blast
  from n(3) have "i = fst (shape_alloc (gm_shape gm))" "gm_shape gm1 = snd (shape_alloc (gm_shape gm))"
    by (metis fst_conv, metis snd_conv)
  with connect_manager(2)[OF n(2,4), of g] n(1) show ?thesis by (auto simp: newGateIn_def)
qed

lemma freeGate_manager:
  assumes "manager_ok n gm" "i \<in> live gm"
  shows "\<exists>g gm'. freeGate i gm = Ok (g, gm') \<and> manager_ok n gm' \<and> live gm' = live gm - {i}
     \<and> gm_shape gm' = (fst (gm_shape gm) @ [i], (snd (gm_shape gm))[i := False])"
proof -
  from freeGate_ok[of gm i] assms obtain gm' where
    f: "freeGate i gm = Ok (slot_gate (gates gm ! i), gm')" "live gm' = live gm - {i}" "gm_inv gm'"
    by (auto simp: manager_ok_def)
  have "named n gm'"
    using f(1) assms by (auto simp: gate_defs named_def manager_ok_def nth_list_update split: if_splits)
  with f freeGate_shape[OF f(1)] show ?thesis by (auto simp: manager_ok_def)
qed

lemma searchGate_named:
  assumes "named n gm" "inj (\<lambda>j. gate_id (n, j))" "i \<in> live gm"
  shows "searchGate gate_id (gate_id (n, i)) gm = Ok i"
proof -
  have "index_of (\<lambda>sl. gate_id (slot_gate sl) = gate_id (n, i)) (gates gm) = Some i"
    using assms by (auto simp: index_of_Some live_def named_def inj_def)
  then show ?thesis by (simp add: searchGate_def)
qed

lemma command_frame:
  "gm_shape (command c gm) = gm_shape gm" "manager_ok n (command c gm) = manager_ok n gm"
  "live (command c gm) = live gm"
  by (simp_all add: command_def gm_shape_def manager_ok_def gm_inv_def named_def live_def)

subsection \<open>Managers of one shape\<close>

definition in_step :: "nat list \<times> bool list \<Rightarrow> string \<Rightarrow> gate_manager \<Rightarrow> bool" where
  "in_step sh n gm \<longleftrightarrow> manager_ok n gm \<and> gm_shape gm = sh"

definition shape_live :: "nat list \<times> bool list \<Rightarrow> nat set" where
  "shape_live sh = {i. i < length (snd sh) \<and> snd sh ! i}"

definition shape_free :: "nat \<Rightarrow> nat list \<times> bool list \<Rightarrow> nat list \<times> bool list" where
  "shape_free i sh = (fst sh @ [i], (snd sh)[i := False])"

lemma in_step_live: "in_step sh n gm \<Longrightarrow> live gm = shape_live sh"
  by (auto simp: in_step_def shape_live_def live_def gm_shape_def)

lemma shape_free_live: "shape_live (shape_free i sh) = shape_live sh - {i}"
  by (cases "i < length (snd sh)")
    (auto simp: shape_live_def shape_free_def nth_list_update list_update_beyond split: if_splits)

lemma in_step_out:
  assumes "in_step sh n gm"
  shows "\<exists>gm'. newGateOut n g gm = Ok (fst (shape_alloc sh), gm') \<and> in_step (snd (shape_alloc sh)) n gm'"
  using newGateOut_manager[of n gm g] assms by (auto simp: in_step_def)

lemma in_step_in:
  assumes "in_step sh n gm"
  shows "\<exists>gm'. newGateIn n g gm = Ok (fst (shape_alloc sh), gm') \<and> in_step (snd (shape_alloc sh)) n gm'"
  using newGateIn_manager[of n gm g] assms by (auto simp: in_step_def)

lemma in_step_alloc_live:
  assumes "in_step sh n gm"
  shows "fst (shape_alloc sh) \<notin> shape_live sh"
    "shape_live (snd (shape_alloc sh)) = insert (fst (shape_alloc sh)) (shape_live sh)"
proof -
  have ok: "manager_ok n gm" and sh: "gm_shape gm = sh" using assms by (simp_all add: in_step_def)
  from newGate_manager[OF ok] obtain i gm' where n: "manager_ok n gm'"
    "(i, gm_shape gm') = shape_alloc (gm_shape gm)" "live gm' = insert i (live gm)" "i \<notin> live gm" by blast
  from n(2) have i: "fst (shape_alloc sh) = i" "snd (shape_alloc sh) = gm_shape gm'"
    unfolding sh by (metis fst_conv, metis snd_conv)
  have "live gm' = shape_live (gm_shape gm')" using n(1) by (intro in_step_live[of _ n]) (simp add: in_step_def)
  then show "fst (shape_alloc sh) \<notin> shape_live sh"
    "shape_live (snd (shape_alloc sh)) = insert (fst (shape_alloc sh)) (shape_live sh)"
    using n(3,4) in_step_live[OF assms] unfolding i by simp_all
qed

lemma in_step_free:
  assumes "in_step sh n gm" "i \<in> shape_live sh"
  shows "\<exists>g gm'. freeGate i gm = Ok (g, gm') \<and> in_step (shape_free i sh) n gm'"
proof -
  have "i \<in> live gm" using assms(2) by (simp add: in_step_live[OF assms(1)])
  with freeGate_manager[of n gm i] assms(1) show ?thesis
    by (auto simp: in_step_def shape_free_def)
qed

end
