(* ===== verification/AppLinks.thy ===== *)
theory AppLinks imports DockerDaemon GateLinks begin

text \<open>
  Linking applications and containers to the controllers
  (\<^verbatim>\<open>linkNewApplication\<close> / \<^verbatim>\<open>unlinkApplication\<close> of \<^verbatim>\<open>VmMsgController\<close> and
  \<^verbatim>\<open>linkNewContainer\<close> / \<^verbatim>\<open>unlinkContainer\<close> of \<^verbatim>\<open>DockerDaemon\<close>).  A controller addresses an
  application by one gate number in all of its four gate vectors; the lemmas below show that the
  four managers stay in lockstep, so that the number is the same in all of them.

  The gate id OMNeT++ gives to a gate is the parameter \<open>gate_id\<close>, and the id of the gate in front
  of the \<^verbatim>\<open>fromOS\<close> gate of the application is the argument \<open>prev\<close>.
\<close>

definition link_managers ::
  "gate \<Rightarrow> gate \<Rightarrow> gate \<Rightarrow> gate \<Rightarrow> 'a msg_controller_scheme \<Rightarrow> 'a msg_controller_scheme res" where
  "link_managers appFromOS appToOS scToApp scFromApp s =
     bind_res (newGateOut ''toApps'' appFromOS (toApps s)) (\<lambda>(_, gm). let s = s\<lparr>toApps := gm\<rparr> in
     bind_res (newGateIn ''fromApps'' appToOS (fromApps s)) (\<lambda>(_, gm). let s = s\<lparr>fromApps := gm\<rparr> in
     bind_res (newGateOut ''toOSApps'' scFromApp (toOSApps s)) (\<lambda>(_, gm). let s = s\<lparr>toOSApps := gm\<rparr> in
     bind_res (newGateIn ''fromOSApps'' scToApp (fromOSApps s)) (\<lambda>(_, gm).
       Ok (s\<lparr>fromOSApps := gm\<rparr>)))))"

definition linkNewContainer :: "gate \<Rightarrow> gate \<Rightarrow> gate \<Rightarrow> gate \<Rightarrow> docker_daemon \<Rightarrow> docker_daemon res" where
  "linkNewContainer conFromOS conToOS scToApp scFromApp d =
     link_managers conFromOS conToOS scToApp scFromApp d"

definition free_managers :: "nat \<Rightarrow> 'a msg_controller_scheme \<Rightarrow> 'a msg_controller_scheme res" where
  "free_managers position s =
     bind_res (freeGate position (toOSApps s)) (\<lambda>(_, gm). let s = s\<lparr>toOSApps := gm\<rparr> in
     bind_res (freeGate position (toApps s)) (\<lambda>(_, gm). let s = s\<lparr>toApps := gm\<rparr> in
     bind_res (freeGate position (fromApps s)) (\<lambda>(_, gm). let s = s\<lparr>fromApps := gm\<rparr> in
     bind_res (freeGate position (fromOSApps s)) (\<lambda>(_, gm).
       Ok (s\<lparr>fromOSApps := gm\<rparr>)))))"

text \<open>The two gates of the container that are disconnected at the end are logged with \<open>toApps\<close>.\<close>

definition unlinkContainer ::
  "(gate \<Rightarrow> int) \<Rightarrow> int \<Rightarrow> gate \<Rightarrow> gate \<Rightarrow> docker_daemon \<Rightarrow> (nat \<times> docker_daemon) res" where
  "unlinkContainer gate_id prev conFromOS conToOS d =
     bind_res (searchGate gate_id prev (toApps d)) (\<lambda>position.
     bind_res (free_managers position d) (\<lambda>d.
       Ok (position, d\<lparr>toApps := command (Disconnect conToOS)
                          (command (Disconnect conFromOS) (toApps d))\<rparr>)))"

text \<open>An application in a container is linked to the daemon, and the daemon to the controller.\<close>

definition linkNewApplication ::
  "gate \<Rightarrow> gate \<Rightarrow> gate \<Rightarrow> gate \<Rightarrow> bool \<Rightarrow> 'a msg_controller_scheme \<Rightarrow> docker_daemon
     \<Rightarrow> ('a msg_controller_scheme \<times> docker_daemon) res" where
  "linkNewApplication appFromOS appToOS scToApp scFromApp isDockerized s d =
     (if \<not> isDockerized then
        bind_res (link_managers appFromOS appToOS scToApp scFromApp s) (\<lambda>s. Ok (s, d))
      else
        bind_res (newGateOut ''toOSApps'' scFromApp (toOSApps s)) (\<lambda>(_, gm). let s = s\<lparr>toOSApps := gm\<rparr> in
        bind_res (newGateIn ''fromOSApps'' scToApp (fromOSApps s)) (\<lambda>(_, gm). let s = s\<lparr>fromOSApps := gm\<rparr> in
        bind_res (newGate ''toApps'' (toApps s)) (\<lambda>(idxToApps, gm). let s = s\<lparr>toApps := gm\<rparr> in
        bind_res (newGate ''fromApps'' (fromApps s)) (\<lambda>(idxFromApps, gm). let s = s\<lparr>fromApps := gm\<rparr> in
        bind_res (getGate idxToApps (toApps s)) (\<lambda>t.
        bind_res (getGate idxFromApps (fromApps s)) (\<lambda>f.
          case (t, f) of
            (Some t, Some f) \<Rightarrow> bind_res (linkNewContainer appFromOS appToOS t f d) (\<lambda>d. Ok (s, d))
          | _ \<Rightarrow> Fail Undefined)))))))"

definition unlinkApplication ::
  "(gate \<Rightarrow> int) \<Rightarrow> (gate \<Rightarrow> int) \<Rightarrow> int \<Rightarrow> gate \<Rightarrow> gate \<Rightarrow> bool \<Rightarrow> 'a msg_controller_scheme
     \<Rightarrow> docker_daemon \<Rightarrow> (nat \<times> 'a msg_controller_scheme \<times> docker_daemon) res" where
  "unlinkApplication gate_id daemon_gate_id prev appFromOS appToOS isDockerized s d =
     bind_res (searchGate gate_id prev (toApps s)) (\<lambda>position.
     bind_res (free_managers position s) (\<lambda>s.
       if \<not> isDockerized then Ok (position, s, d)
       else bind_res (unlinkContainer daemon_gate_id prev appFromOS appToOS d) (\<lambda>(_, d). Ok (position, s, d))))"

definition getmyGate :: "string \<Rightarrow> docker_daemon \<Rightarrow> gate_manager" where
  "getmyGate gateName d =
     (if gateName = ''fromOSApps'' then fromOSApps d
      else if gateName = ''fromApps'' then fromApps d
      else if gateName = ''toOSApps'' then toOSApps d
      else if gateName = ''toApps'' then toApps d
      else fromOSApps d)"

definition myNewGate :: "string \<Rightarrow> docker_daemon \<Rightarrow> (gate option \<times> docker_daemon) res" where
  "myNewGate gateName d =
     (let create = (\<lambda>gm put. bind_res (newGate gateName gm) (\<lambda>(idx, gm).
             bind_res (getGate idx gm) (\<lambda>g. Ok (g, put gm))))
      in if gateName = ''fromOSApps'' then create (fromOSApps d) (\<lambda>gm. d\<lparr>fromOSApps := gm\<rparr>)
         else if gateName = ''fromApps'' then create (fromApps d) (\<lambda>gm. d\<lparr>fromApps := gm\<rparr>)
         else if gateName = ''toOSApps'' then create (toOSApps d) (\<lambda>gm. d\<lparr>toOSApps := gm\<rparr>)
         else if gateName = ''toApps'' then create (toApps d) (\<lambda>gm. d\<lparr>toApps := gm\<rparr>)
         else Fail (Thrown ''myNewGate''))"

subsection \<open>Four managers in lockstep\<close>

definition lockstep :: "'a msg_controller_scheme \<Rightarrow> bool" where
  "lockstep s \<longleftrightarrow> manager_ok ''toApps'' (toApps s) \<and> manager_ok ''fromApps'' (fromApps s)
     \<and> manager_ok ''toOSApps'' (toOSApps s) \<and> manager_ok ''fromOSApps'' (fromOSApps s)
     \<and> gm_shape (fromApps s) = gm_shape (toApps s) \<and> gm_shape (toOSApps s) = gm_shape (toApps s)
     \<and> gm_shape (fromOSApps s) = gm_shape (toApps s)"

lemma lockstep_in_step:
  "lockstep s \<longleftrightarrow> in_step (gm_shape (toApps s)) ''toApps'' (toApps s) \<and>
     in_step (gm_shape (toApps s)) ''fromApps'' (fromApps s) \<and>
     in_step (gm_shape (toApps s)) ''toOSApps'' (toOSApps s) \<and>
     in_step (gm_shape (toApps s)) ''fromOSApps'' (fromOSApps s)"
  by (auto simp: lockstep_def in_step_def)

lemma lockstepI:
  "in_step sh ''toApps'' (toApps s) \<Longrightarrow> in_step sh ''fromApps'' (fromApps s) \<Longrightarrow>
   in_step sh ''toOSApps'' (toOSApps s) \<Longrightarrow> in_step sh ''fromOSApps'' (fromOSApps s) \<Longrightarrow> lockstep s"
  by (simp add: lockstep_def in_step_def)

lemma lockstep_link:
  assumes "lockstep s"
  shows "\<exists>s'. link_managers a b c e s = Ok s' \<and> lockstep s' \<and>
     (\<exists>i. i \<notin> live (toApps s) \<and> live (toApps s') = insert i (live (toApps s)))"
proof -
  let ?sh = "gm_shape (toApps s)"
  let ?r = "shape_alloc ?sh"
  have st: "in_step ?sh ''toApps'' (toApps s)" "in_step ?sh ''fromApps'' (fromApps s)"
     "in_step ?sh ''toOSApps'' (toOSApps s)" "in_step ?sh ''fromOSApps'' (fromOSApps s)"
    using assms by (simp_all add: lockstep_in_step)
  from in_step_out[OF st(1), of a] obtain g1 where 1:
    "newGateOut ''toApps'' a (toApps s) = Ok (fst ?r, g1)" "in_step (snd ?r) ''toApps'' g1" by blast
  from in_step_in[OF st(2), of b] obtain g2 where 2:
    "newGateIn ''fromApps'' b (fromApps s) = Ok (fst ?r, g2)" "in_step (snd ?r) ''fromApps'' g2" by blast
  from in_step_out[OF st(3), of e] obtain g3 where 3:
    "newGateOut ''toOSApps'' e (toOSApps s) = Ok (fst ?r, g3)" "in_step (snd ?r) ''toOSApps'' g3" by blast
  from in_step_in[OF st(4), of c] obtain g4 where 4:
    "newGateIn ''fromOSApps'' c (fromOSApps s) = Ok (fst ?r, g4)" "in_step (snd ?r) ''fromOSApps'' g4" by blast
  from 1 2 3 4 in_step_alloc_live[OF st(1)] in_step_live[OF 1(2)] in_step_live[OF st(1)] show ?thesis
    by (auto simp: link_managers_def intro: lockstepI)
qed

lemma lockstep_free:
  assumes "lockstep s" "i \<in> live (toApps s)"
  shows "\<exists>s'. free_managers i s = Ok s' \<and> lockstep s' \<and> live (toApps s') = live (toApps s) - {i}"
proof -
  let ?sh = "gm_shape (toApps s)"
  have st: "in_step ?sh ''toApps'' (toApps s)" "in_step ?sh ''fromApps'' (fromApps s)"
     "in_step ?sh ''toOSApps'' (toOSApps s)" "in_step ?sh ''fromOSApps'' (fromOSApps s)"
    using assms(1) by (simp_all add: lockstep_in_step)
  have lv: "i \<in> shape_live ?sh" using assms(2) by (simp add: in_step_live[OF st(1)])
  from in_step_free[OF st(1) lv] in_step_free[OF st(2) lv] in_step_free[OF st(3) lv] in_step_free[OF st(4) lv]
  obtain a b c d g1 g2 g3 g4 where
    "freeGate i (toApps s) = Ok (a, g1)" "in_step (shape_free i ?sh) ''toApps'' g1"
    "freeGate i (fromApps s) = Ok (b, g2)" "in_step (shape_free i ?sh) ''fromApps'' g2"
    "freeGate i (toOSApps s) = Ok (c, g3)" "in_step (shape_free i ?sh) ''toOSApps'' g3"
    "freeGate i (fromOSApps s) = Ok (d, g4)" "in_step (shape_free i ?sh) ''fromOSApps'' g4" by metis
  then show ?thesis using in_step_live[OF st(1)] in_step_live[of "shape_free i ?sh" "''toApps''" g1]
    by (auto simp: free_managers_def shape_free_live intro: lockstepI)
qed

lemma unlink_position:
  assumes "lockstep d" "inj (\<lambda>j. gate_id (''toApps'', j))" "i \<in> live (toApps d)"
  shows "\<exists>d'. unlinkContainer gate_id (gate_id (''toApps'', i)) a b d = Ok (i, d') \<and> lockstep d'
     \<and> live (toApps d') = live (toApps d) - {i}"
proof -
  have "named ''toApps'' (toApps d)" using assms(1) by (simp add: lockstep_def manager_ok_def)
  from searchGate_named[OF this assms(2,3)] lockstep_free[OF assms(1,3)] show ?thesis
    by (auto simp: unlinkContainer_def lockstep_def command_frame)
qed

end
