(* ===== verification/CpuSchedulers.thy ===== *)
theory CpuSchedulers imports ModuleBase "HOL-Library.Word" begin

text \<open>
  The CPU schedulers of the operating system
  (\<^verbatim>\<open>src/src/Architecture/NodeComponents/OperatingSystems/CPU_Schedulers\<close>): FIFO and round robin.
  A computing block goes to the first idle CPU or waits in \<open>requestsQueue\<close>; when a CPU answers, it
  gets the block at the head of the queue.  Round robin puts a block whose quantum has ended, but
  not its work, back at the end of the queue.

  \<open>newId\<close> is the id OMNeT++ gives to the state-change message that is created while a response
  is handled.  The locale \<open>dispatcher\<close> is what the two schedulers share.
\<close>

definition INFINITE_QUANTUM :: int where "INFINITE_QUANTUM = -1"
definition INCREMENT_SPEED :: string where "INCREMENT_SPEED = ''increment_speed''"
definition DECREMENT_SPEED :: string where "DECREMENT_SPEED = ''decrement_speed''"
definition MACHINE_STATE_IDLE :: string where "MACHINE_STATE_IDLE = ''idle''"
definition MACHINE_STATE_RUNNING :: string where "MACHINE_STATE_RUNNING = ''running''"
definition MACHINE_STATE_OFF :: string where "MACHINE_STATE_OFF = ''off_state''"

record cpu_scheduler = module_state +
  numCPUs :: nat
  isCPU_Idle :: "bool list"
  requestsQueue :: "message list"
  queueSize :: "32 word"
  sched_quantum :: int

type_synonym sched_pump = "cpu_scheduler \<Rightarrow> cpu_scheduler res"

definition sched_init :: "module_state \<Rightarrow> nat \<Rightarrow> int \<Rightarrow> cpu_scheduler" where
  "sched_init b n q = \<lparr>queue = queue b, outbox = outbox b, currentRequest = currentRequest b,
     latencyScheduled = latencyScheduled b, module_id = module_id b, host_name = host_name b,
     numCPUs = n, isCPU_Idle = replicate n True, requestsQueue = [], queueSize = 0,
     sched_quantum = q\<rparr>"

definition searchIdleCPU :: "cpu_scheduler \<Rightarrow> int" where
  "searchIdleCPU s = (case index_of (\<lambda>b. b) (take (numCPUs s) (isCPU_Idle s)) of
     Some i \<Rightarrow> int i | None \<Rightarrow> NOT_FOUND)"

definition toCPUGate :: "nat \<Rightarrow> cpu_scheduler \<Rightarrow> gate option res" where
  "toCPUGate i s = (if i < numCPUs s then Ok (Some (''toCPU'', i)) else Fail Undefined)"

definition set_idle :: "nat \<Rightarrow> bool \<Rightarrow> cpu_scheduler \<Rightarrow> cpu_scheduler" where
  "set_idle i b s = s\<lparr>isCPU_Idle := (isCPU_Idle s)[i := b]\<rparr>"

definition set_quantum :: "int \<Rightarrow> message \<Rightarrow> message res" where
  "set_quantum q m = (case payload m of
     CpuPayload c \<Rightarrow> Ok (m\<lparr>payload := CpuPayload (c\<lparr>quantum := q\<rparr>)\<rparr>)
   | _ \<Rightarrow> Fail (Thrown ''check_and_cast''))"

text \<open>\<^verbatim>\<open>new icancloud_App_CPU_Message ()\<close>, with the defaults of the message file.\<close>

definition new_cpu_message :: "int \<Rightarrow> message" where
  "new_cpu_message i = \<lparr>msg_id = i,
     payload = CpuPayload \<lparr>cpuTime = 0, totalMIs = 0, remainingMIs = 0, quantum = 0\<rparr>, operation = 2 ^ 32 - 1,
     isResponse = False, remoteOperation = False, connectionId = -1, commId = -1,
     nextModuleIndex = 2 ^ 32 - 1, result_code = 0, uid = -1, pid = -1, arrival = ('''', 0),
     msg_trace = [], parentRequest = None, changing_state = '''', change_states_index = []\<rparr>"

definition sched_processSelfMessage :: "string \<Rightarrow> cpu_scheduler \<Rightarrow> cpu_scheduler res" where
  "sched_processSelfMessage name s = Fail (Thrown ''showErrorMessage'')"

subsection \<open>FIFO\<close>

definition fifo_processRequestMessage ::
  "(message \<Rightarrow> int option) \<Rightarrow> sched_pump \<Rightarrow> message \<Rightarrow> cpu_scheduler \<Rightarrow> cpu_scheduler res" where
  "fifo_processRequestMessage og pump sm s =
     (if operation sm \<noteq> SM_CHANGE_CPU_STATE then
        bind_res (set_quantum INFINITE_QUANTUM sm) (\<lambda>sm_cpu.
          let cpuIndex = searchIdleCPU s in
          if cpuIndex = NOT_FOUND then
            Ok (s\<lparr>requestsQueue := requestsQueue s @ [sm_cpu], queueSize := queueSize s + 1\<rparr>)
          else
            bind_res (toCPUGate (nat cpuIndex) s) (\<lambda>g.
              sendRequestMessage og pump (sm_cpu\<lparr>nextModuleIndex := cpuIndex\<rparr>) g
                (set_idle (nat cpuIndex) False s)))
      else bind_res (toCPUGate 0 s) (\<lambda>g. sendRequestMessage og pump sm g s))"

text \<open>The part of the response handler that starts the next waiting block.\<close>

definition fifo_sendNext ::
  "(message \<Rightarrow> int option) \<Rightarrow> sched_pump \<Rightarrow> nat \<Rightarrow> gate option \<Rightarrow> cpu_scheduler \<Rightarrow> cpu_scheduler res" where
  "fifo_sendNext og pump cpuIndex g s = (case requestsQueue s of
     [] \<Rightarrow> Fail Undefined
   | next_request # rest \<Rightarrow>
       let s = s\<lparr>requestsQueue := rest, queueSize := queueSize s - 1\<rparr>;
           next_request = next_request\<lparr>nextModuleIndex := int cpuIndex\<rparr>;
           s = set_idle cpuIndex False s
       in if cast_cpu next_request = None then Fail (Thrown ''check_and_cast'')
          else sendRequestMessage og pump next_request g s)"

definition fifo_processResponseMessage ::
  "(message \<Rightarrow> int) \<Rightarrow> (message \<Rightarrow> int option) \<Rightarrow> sched_pump \<Rightarrow> message \<Rightarrow> cpu_scheduler \<Rightarrow> cpu_scheduler res" where
  "fifo_processResponseMessage newId og pump sm s =
     (if cast_cpu sm = None then Fail (Thrown ''check_and_cast'')
      else let cpuIndex = nat (nextModuleIndex sm) in
      if numCPUs s \<le> cpuIndex then Fail (Thrown ''showErrorMessage'')
      else let s = set_idle cpuIndex True s;
               new_msg = (new_cpu_message (newId sm))\<lparr>operation := SM_CHANGE_CPU_STATE\<rparr>
      in bind_res (toCPUGate cpuIndex s) (\<lambda>g.
         bind_res
          (if requestsQueue s \<noteq> [] then
             (let size = (of_nat (length (requestsQueue s)) :: 32 word);
                  new_msg = (if size \<le> queueSize s then new_msg\<lparr>changing_state := INCREMENT_SPEED\<rparr>
                             else if queueSize s < size then new_msg\<lparr>changing_state := DECREMENT_SPEED\<rparr>
                             else new_msg)
              in bind_res (sendRequestMessage og pump new_msg g s) (fifo_sendNext og pump cpuIndex g))
           else sendRequestMessage og pump
                  (new_msg\<lparr>changing_state := MACHINE_STATE_IDLE,
                           change_states_index := change_states_index new_msg @ [int cpuIndex]\<rparr>) g s)
          (sendResponseMessage pump sm)))"

definition fifo_handleMessage ::
  "(message \<Rightarrow> int) \<Rightarrow> (message \<Rightarrow> int option) \<Rightarrow> input \<Rightarrow> cpu_scheduler \<Rightarrow> cpu_scheduler res" where
  "fifo_handleMessage newId og = handleMessage og sched_processSelfMessage
     (fifo_processRequestMessage og) (fifo_processResponseMessage newId og)"

subsection \<open>Round robin\<close>

definition rr_processRequestMessage ::
  "(message \<Rightarrow> int option) \<Rightarrow> sched_pump \<Rightarrow> message \<Rightarrow> cpu_scheduler \<Rightarrow> cpu_scheduler res" where
  "rr_processRequestMessage og pump sm s =
     bind_res (set_quantum (sched_quantum s) sm) (\<lambda>sm_cpu.
       let cpuIndex = searchIdleCPU s in
       if cpuIndex = NOT_FOUND then Ok (s\<lparr>requestsQueue := requestsQueue s @ [sm_cpu]\<rparr>)
       else
         bind_res (toCPUGate (nat cpuIndex) s) (\<lambda>g.
           sendRequestMessage og pump (sm_cpu\<lparr>nextModuleIndex := cpuIndex\<rparr>) g
             (set_idle (nat cpuIndex) False s)))"

definition unfinished :: "cpu_fields \<Rightarrow> bool" where
  "unfinished c \<longleftrightarrow> 0 < remainingMIs c \<or> 1 / 10000000 < cpuTime c"

definition rr_sendNext ::
  "(message \<Rightarrow> int option) \<Rightarrow> sched_pump \<Rightarrow> nat \<Rightarrow> cpu_scheduler \<Rightarrow> cpu_scheduler res" where
  "rr_sendNext og pump cpuIndex s = (case requestsQueue s of
     [] \<Rightarrow> Ok s
   | next_request # rest \<Rightarrow>
       let s = s\<lparr>requestsQueue := rest\<rparr>;
           next_request = next_request\<lparr>nextModuleIndex := int cpuIndex\<rparr>;
           s = set_idle cpuIndex False s
       in if cast_cpu next_request = None then Fail (Thrown ''check_and_cast'')
          else bind_res (toCPUGate cpuIndex s) (\<lambda>g. sendRequestMessage og pump next_request g s))"

definition rr_processResponseMessage ::
  "(message \<Rightarrow> int option) \<Rightarrow> sched_pump \<Rightarrow> message \<Rightarrow> cpu_scheduler \<Rightarrow> cpu_scheduler res" where
  "rr_processResponseMessage og pump sm s =
     (case cast_cpu sm of
        None \<Rightarrow> Fail (Thrown ''check_and_cast'')
      | Some c \<Rightarrow>
        let cpuIndex = nat (nextModuleIndex sm) in
        if numCPUs s \<le> cpuIndex then Fail (Thrown ''showErrorMessage'')
        else let s = set_idle cpuIndex True s in
          bind_res
           (if unfinished c
            then Ok (s\<lparr>requestsQueue := requestsQueue s @ [sm\<lparr>isResponse := False\<rparr>]\<rparr>)
            else sendResponseMessage pump (sm\<lparr>isResponse := True\<rparr>) s)
           (rr_sendNext og pump cpuIndex))"

definition rr_handleMessage ::
  "(message \<Rightarrow> int option) \<Rightarrow> input \<Rightarrow> cpu_scheduler \<Rightarrow> cpu_scheduler res" where
  "rr_handleMessage og = handleMessage og sched_processSelfMessage
     (rr_processRequestMessage og) (rr_processResponseMessage og)"

subsection \<open>Frames\<close>

lemma scheduler_more:
  assumes "module_state.more s' = module_state.more (s :: cpu_scheduler)"
  shows "numCPUs s' = numCPUs s" "isCPU_Idle s' = isCPU_Idle s" "requestsQueue s' = requestsQueue s"
    "queueSize s' = queueSize s" "sched_quantum s' = sched_quantum s"
  using assms by (cases s; cases s'; simp)+

lemma set_idle_frame [simp]:
  "queue (set_idle i b s) = queue s" "latencyScheduled (set_idle i b s) = latencyScheduled s"
  "outbox (set_idle i b s) = outbox s" "numCPUs (set_idle i b s) = numCPUs s"
  "requestsQueue (set_idle i b s) = requestsQueue s" "queueSize (set_idle i b s) = queueSize s"
  "sched_quantum (set_idle i b s) = sched_quantum s"
  "isCPU_Idle (set_idle i b s) = (isCPU_Idle s)[i := b]"
  by (simp_all add: set_idle_def)

lemma sched_send:
  assumes "sendRequestMessage og Ok m g (s :: cpu_scheduler) = Ok s'"
  obtains t where "outbox s' = outbox s @ [Sent (m\<lparr>msg_trace := t\<rparr>) (ViaGate g)]"
    "queue s' = queue s" "latencyScheduled s' = latencyScheduled s" "numCPUs s' = numCPUs s"
    "isCPU_Idle s' = isCPU_Idle s" "requestsQueue s' = requestsQueue s" "queueSize s' = queueSize s"
proof -
  note f = sendRequestMessage_frame[OF assms]
  have m: "module_state.more s' = module_state.more s" using f by blast
  from f obtain t where o: "outbox s' = outbox s @ [Sent (m\<lparr>msg_trace := t\<rparr>) (ViaGate g)]" by blast
  show ?thesis by (rule that[OF o]) (use f scheduler_more[OF m] in simp_all)
qed

lemma sched_respond:
  assumes "sendResponseMessage Ok m (s :: cpu_scheduler) = Ok s'"
  obtains t g where "outbox s' = outbox s @ [Sent (m\<lparr>msg_trace := t\<rparr>) (ViaGateId g)]"
    "queue s' = queue s" "latencyScheduled s' = latencyScheduled s" "numCPUs s' = numCPUs s"
    "isCPU_Idle s' = isCPU_Idle s" "requestsQueue s' = requestsQueue s" "queueSize s' = queueSize s"
proof -
  note f = sendResponseMessage_frame[OF assms]
  have m: "module_state.more s' = module_state.more s" using f by blast
  from f obtain t g where o: "outbox s' = outbox s @ [Sent (m\<lparr>msg_trace := t\<rparr>) (ViaGateId g)]" by blast
  show ?thesis by (rule that[OF o]) (use f scheduler_more[OF m] in simp_all)
qed

lemma set_quantum_Ok:
  "set_quantum q m = Ok m' \<Longrightarrow> msg_id m' = msg_id m \<and> operation m' = operation m
     \<and> cast_cpu m \<noteq> None \<and> cast_cpu m' \<noteq> None"
  by (auto simp: set_quantum_def cast_cpu_def split: payload.splits)

lemma searchIdle_cases:
  assumes "length (isCPU_Idle s) = numCPUs s"
  obtains (none) "searchIdleCPU s = NOT_FOUND" "True \<notin> set (isCPU_Idle s)"
  | (some) i where "searchIdleCPU s = int i" "i < numCPUs s" "isCPU_Idle s ! i"
      "\<forall>j<i. \<not> isCPU_Idle s ! j" "searchIdleCPU s \<noteq> NOT_FOUND"
proof (cases "index_of (\<lambda>b. b) (isCPU_Idle s)")
  case None
  show ?thesis
  proof (rule none)
    show "searchIdleCPU s = NOT_FOUND" using None assms by (simp add: searchIdleCPU_def)
    show "True \<notin> set (isCPU_Idle s)" using None by (auto simp: index_of_None)
  qed
next
  case (Some i)
  then have "searchIdleCPU s = int i" using assms by (simp add: searchIdleCPU_def)
  then show ?thesis using index_of_Some[THEN iffD1, OF Some] assms
    by (intro some[of i]) (simp_all add: NOT_FOUND_def)
qed

subsection \<open>The invariant of a scheduler\<close>

text \<open>
  A block waits only while every CPU is busy; the counter agrees with the queue; only computing
  blocks wait.
\<close>

definition sched_inv :: "cpu_scheduler \<Rightarrow> bool" where
  "sched_inv s \<longleftrightarrow> length (isCPU_Idle s) = numCPUs s
     \<and> (requestsQueue s \<noteq> [] \<longrightarrow> True \<notin> set (isCPU_Idle s))
     \<and> (\<forall>m\<in>set (requestsQueue s). cast_cpu m \<noteq> None)"

definition fifo_inv :: "cpu_scheduler \<Rightarrow> bool" where
  "fifo_inv s \<longleftrightarrow> sched_inv s \<and> queueSize s = of_nat (length (requestsQueue s))
     \<and> (\<forall>m\<in>set (requestsQueue s). operation m \<noteq> SM_CHANGE_CPU_STATE)"

lemma sched_inv_init: "sched_inv (sched_init b n q)"
  by (simp add: sched_inv_def sched_init_def)

lemma fifo_inv_init: "fifo_inv (sched_init b n q)"
  by (simp add: fifo_inv_def sched_inv_init) (simp add: sched_init_def)

lemma sched_inv_cong:
  "numCPUs s' = numCPUs s \<Longrightarrow> isCPU_Idle s' = isCPU_Idle s \<Longrightarrow> requestsQueue s' = requestsQueue s \<Longrightarrow>
   sched_inv s' = sched_inv s"
  by (simp add: sched_inv_def)

lemma sched_inv_busy:
  "sched_inv s \<Longrightarrow> sched_inv (set_idle i False s)"
  by (auto simp: sched_inv_def dest: in_set_update)

lemma sched_inv_enqueue:
  "sched_inv s \<Longrightarrow> True \<notin> set (isCPU_Idle s) \<Longrightarrow> cast_cpu m \<noteq> None \<Longrightarrow>
   sched_inv (s\<lparr>requestsQueue := requestsQueue s @ [m]\<rparr>)"
  by (auto simp: sched_inv_def)

subsection \<open>The contract of a dispatcher\<close>

locale dispatcher =
  fixes inv :: "'s \<Rightarrow> bool"
    and step :: "'i \<Rightarrow> 's \<Rightarrow> 's res"
    and waiting :: "'s \<Rightarrow> int list"
    and log :: "'s \<Rightarrow> event list"
    and accepted :: "'i \<Rightarrow> int list"
    and started :: "event \<Rightarrow> int list"
  assumes step_law: "inv s \<Longrightarrow> step i s = Ok s' \<Longrightarrow>
      inv s' \<and> (\<exists>es. log s' = log s @ es \<and> waiting s @ accepted i = concat (map started es) @ waiting s')"
begin

lemma run_inv:
  assumes "inv s" "fold_res step is s = Ok s'"
  shows "inv s'"
  using fold_res_invariant[of inv step, OF _ assms] step_law by blast

text \<open>Whatever is accepted is started in the order of acceptance, or still waits in that order.\<close>

lemma run_order:
  assumes "inv s" "fold_res step is s = Ok s'"
  shows "\<exists>es. log s' = log s @ es \<and>
    waiting s @ concat (map accepted is) = concat (map started es) @ waiting s'"
  using assms
proof (induction "is" arbitrary: s)
  case Nil
  then show ?case by simp
next
  case (Cons i inps)
  then obtain s1 where st: "step i s = Ok s1" and f: "fold_res step inps s1 = Ok s'"
    by (auto simp: bind_res_Ok_iff)
  from step_law[OF Cons.prems(1) st] obtain es where
    1: "inv s1" "log s1 = log s @ es" "waiting s @ accepted i = concat (map started es) @ waiting s1"
    by blast
  from Cons.IH[OF 1(1) f] obtain es' where
    2: "log s' = log s1 @ es'" "waiting s1 @ concat (map accepted inps) = concat (map started es') @ waiting s'"
    by blast
  have "waiting s @ concat (map accepted (i # inps)) =
    (waiting s @ accepted i) @ concat (map accepted inps)" by simp
  also have "\<dots> = concat (map started es) @ concat (map started es') @ waiting s'"
    unfolding 1(3) append_assoc 2(2) ..
  finally have "waiting s @ concat (map accepted (i # inps)) =
    concat (map started (es @ es')) @ waiting s'" by simp
  with 1(2) 2(1) show ?case by (intro exI[of _ "es @ es'"]) simp
qed

end

subsection \<open>FIFO steps\<close>

definition wait_ids :: "cpu_scheduler \<Rightarrow> int list" where
  "wait_ids s = map msg_id (requestsQueue s)"

fun fifo_started :: "event \<Rightarrow> int list" where
  "fifo_started (Sent m (ViaGate g)) = (if operation m \<noteq> SM_CHANGE_CPU_STATE then [msg_id m] else [])"
| "fifo_started e = []"

fun fifo_accepted :: "input \<Rightarrow> int list" where
  "fifo_accepted (Incoming m) =
     (if \<not> isResponse m \<and> operation m \<noteq> SM_CHANGE_CPU_STATE then [msg_id m] else [])"
| "fifo_accepted (SelfMsg n) = []"

definition sched_step ::
  "(cpu_scheduler \<Rightarrow> bool) \<Rightarrow> (event \<Rightarrow> int list) \<Rightarrow> int list \<Rightarrow> cpu_scheduler \<Rightarrow> cpu_scheduler \<Rightarrow> bool" where
  "sched_step J st acc s s' \<longleftrightarrow> J s' \<and> queue s' = queue s \<and> latencyScheduled s' = latencyScheduled s
     \<and> (\<exists>es. outbox s' = outbox s @ es \<and> wait_ids s @ acc = concat (map st es) @ wait_ids s')"

lemma sched_stepI:
  "J s' \<Longrightarrow> queue s' = queue s \<Longrightarrow> latencyScheduled s' = latencyScheduled s \<Longrightarrow>
   outbox s' = outbox s @ es \<Longrightarrow> wait_ids s @ acc = concat (map st es) @ wait_ids s' \<Longrightarrow>
   sched_step J st acc s s'"
  by (auto simp: sched_step_def)

lemma empty_if_idle: "sched_inv s \<Longrightarrow> i < numCPUs s \<Longrightarrow> isCPU_Idle s ! i \<Longrightarrow> requestsQueue s = []"
  by (metis (full_types) nth_mem sched_inv_def)

lemma fifo_request_step:
  assumes "fifo_inv s" "fifo_processRequestMessage og Ok m s = Ok s'"
  shows "sched_step fifo_inv fifo_started (if operation m \<noteq> SM_CHANGE_CPU_STATE then [msg_id m] else []) s s'"
proof (cases "operation m = SM_CHANGE_CPU_STATE")
  case True
  with assms(2) obtain g where "sendRequestMessage og Ok m g s = Ok s'"
    by (auto simp: fifo_processRequestMessage_def bind_res_Ok_iff)
  then obtain t where e: "outbox s' = outbox s @ [Sent (m\<lparr>msg_trace := t\<rparr>) (ViaGate g)]"
    "queue s' = queue s" "latencyScheduled s' = latencyScheduled s" "numCPUs s' = numCPUs s"
    "isCPU_Idle s' = isCPU_Idle s" "requestsQueue s' = requestsQueue s" "queueSize s' = queueSize s"
    by (rule sched_send)
  have "fifo_inv s'" using assms(1) e sched_inv_cong[of s' s] by (simp add: fifo_inv_def)
  then show ?thesis by (rule sched_stepI[OF _ e(2,3,1)]) (simp add: True wait_ids_def e)
next
  case op: False
  have inv: "sched_inv s" using assms(1) by (simp add: fifo_inv_def)
  from op assms(2) obtain c where c: "set_quantum INFINITE_QUANTUM m = Ok c"
    by (auto simp: fifo_processRequestMessage_def bind_res_Ok_iff)
  note c' = set_quantum_Ok[OF c]
  have "length (isCPU_Idle s) = numCPUs s" using inv by (simp add: sched_inv_def)
  then show ?thesis
  proof (cases rule: searchIdle_cases)
    case none
    with op assms(2) c have s': "s' = s\<lparr>requestsQueue := requestsQueue s @ [c], queueSize := queueSize s + 1\<rparr>"
      by (simp add: fifo_processRequestMessage_def)
    have "fifo_inv s'" using assms(1) none c' op unfolding s' fifo_inv_def sched_inv_def by auto
    then show ?thesis
      by (rule sched_stepI[where es = "[]"]) (simp_all add: s' wait_ids_def c' op)
  next
    case (some i)
    with op assms(2) c obtain g where
      "sendRequestMessage og Ok (c\<lparr>nextModuleIndex := int i\<rparr>) g (set_idle i False s) = Ok s'"
      by (auto simp: fifo_processRequestMessage_def bind_res_Ok_iff)
    then obtain t where e: "outbox s' = outbox (set_idle i False s) @
        [Sent (c\<lparr>nextModuleIndex := int i, msg_trace := t\<rparr>) (ViaGate g)]"
      "queue s' = queue (set_idle i False s)" "latencyScheduled s' = latencyScheduled (set_idle i False s)"
      "numCPUs s' = numCPUs (set_idle i False s)" "isCPU_Idle s' = isCPU_Idle (set_idle i False s)"
      "requestsQueue s' = requestsQueue (set_idle i False s)" "queueSize s' = queueSize (set_idle i False s)"
      by (rule sched_send)
    have "sched_inv s'" using sched_inv_busy[OF inv, of i] sched_inv_cong[OF e(4,5,6)] by simp
    then have "fifo_inv s'" using assms(1) e by (simp add: fifo_inv_def)
    moreover have "requestsQueue s = []" using inv some(2,3) by (rule empty_if_idle)
    ultimately show ?thesis using e op c'
      by (intro sched_stepI[OF _ _ _ e(1)[simplified]]) (simp_all add: wait_ids_def)
  qed
qed

lemma fifo_response_step:
  assumes "fifo_inv s" "fifo_processResponseMessage newId og Ok m s = Ok s'"
  shows "sched_step fifo_inv fifo_started [] s s' \<and> nat (nextModuleIndex m) < numCPUs s"
proof -
  define i where "i = nat (nextModuleIndex m)"
  define t where "t = set_idle i True s"
  from assms(2) have i: "i < numCPUs s"
    by (auto simp: fifo_processResponseMessage_def i_def Let_def split: if_split_asm)
  have ti: "requestsQueue t = requestsQueue s" "queueSize t = queueSize s" "numCPUs t = numCPUs s"
    "queue t = queue s" "latencyScheduled t = latencyScheduled s" "outbox t = outbox s"
    "isCPU_Idle t = (isCPU_Idle s)[i := True]" by (simp_all add: t_def)
  have inv: "sched_inv s" using assms(1) by (simp add: fifo_inv_def)
  have gate: "toCPUGate i t = Ok (Some (''toCPU'', i))" using i by (simp add: toCPUGate_def t_def)
  let ?g = "Some (''toCPU'', i)"
  show ?thesis
  proof (cases "requestsQueue s")
    case Nil
    define n where "n = (new_cpu_message (newId m))\<lparr>operation := SM_CHANGE_CPU_STATE,
      changing_state := MACHINE_STATE_IDLE,
      change_states_index := change_states_index (new_cpu_message (newId m)) @ [int i]\<rparr>"
    have op: "operation n = SM_CHANGE_CPU_STATE" by (simp add: n_def)
    from Nil assms(2) i gate obtain s1 where n: "sendRequestMessage og Ok n ?g t = Ok s1"
      and r: "sendResponseMessage Ok m s1 = Ok s'"
      by (auto simp: fifo_processResponseMessage_def Let_def bind_res_Ok_iff t_def i_def n_def
          split: if_split_asm)
    from n obtain tr where e1: "outbox s1 = outbox t @ [Sent (n\<lparr>msg_trace := tr\<rparr>) (ViaGate ?g)]"
      "queue s1 = queue t" "latencyScheduled s1 = latencyScheduled t" "numCPUs s1 = numCPUs t"
      "isCPU_Idle s1 = isCPU_Idle t" "requestsQueue s1 = requestsQueue t" "queueSize s1 = queueSize t"
      by (rule sched_send)
    from r obtain tr' g' where e2: "outbox s' = outbox s1 @ [Sent (m\<lparr>msg_trace := tr'\<rparr>) (ViaGateId g')]"
      "queue s' = queue s1" "latencyScheduled s' = latencyScheduled s1" "numCPUs s' = numCPUs s1"
      "isCPU_Idle s' = isCPU_Idle s1" "requestsQueue s' = requestsQueue s1" "queueSize s' = queueSize s1"
      by (rule sched_respond)
    have "fifo_inv s'" using assms(1) Nil e1 e2 ti by (simp add: fifo_inv_def sched_inv_def)
    then show ?thesis using e1 e2 ti op Nil i
      by (auto intro!: sched_stepI simp: wait_ids_def i_def)
  next
    case (Cons x rest)
    have xs: "cast_cpu x \<noteq> None" "operation x \<noteq> SM_CHANGE_CPU_STATE"
      using assms(1) Cons by (auto simp: fifo_inv_def sched_inv_def)
    define n where "n = (new_cpu_message (newId m))\<lparr>operation := SM_CHANGE_CPU_STATE,
      changing_state := INCREMENT_SPEED\<rparr>"
    have op: "operation n = SM_CHANGE_CPU_STATE" by (simp add: n_def)
    have size: "queueSize s = of_nat (length (requestsQueue s))" using assms(1) by (simp add: fifo_inv_def)
    from assms(2) i gate Cons size obtain s1 where n: "sendRequestMessage og Ok n ?g t = Ok s1"
      and pop: "bind_res (fifo_sendNext og Ok i ?g s1) (sendResponseMessage Ok m) = Ok s'"
      by (auto simp: fifo_processResponseMessage_def Let_def bind_res_Ok_iff t_def i_def n_def
          split: if_split_asm)
    from n obtain tr where e1: "outbox s1 = outbox t @ [Sent (n\<lparr>msg_trace := tr\<rparr>) (ViaGate ?g)]"
      "queue s1 = queue t" "latencyScheduled s1 = latencyScheduled t" "numCPUs s1 = numCPUs t"
      "isCPU_Idle s1 = isCPU_Idle t" "requestsQueue s1 = requestsQueue t" "queueSize s1 = queueSize t"
      by (rule sched_send)
    define u where "u = set_idle i False (s1\<lparr>requestsQueue := rest, queueSize := queueSize s1 - 1\<rparr>)"
    have u: "outbox u = outbox s1" "queue u = queue s1" "latencyScheduled u = latencyScheduled s1"
      "numCPUs u = numCPUs s1" "isCPU_Idle u = (isCPU_Idle s1)[i := False]" "requestsQueue u = rest"
      "queueSize u = queueSize s1 - 1" by (simp_all add: u_def)
    from pop e1 ti Cons obtain s2 where
      p2: "sendRequestMessage og Ok (x\<lparr>nextModuleIndex := int i\<rparr>) ?g u = Ok s2"
      and r: "sendResponseMessage Ok m s2 = Ok s'"
      by (auto simp: fifo_sendNext_def Let_def bind_res_Ok_iff u_def split: if_split_asm)
    from p2 obtain tr2 where e2: "outbox s2 = outbox u @
        [Sent (x\<lparr>nextModuleIndex := int i, msg_trace := tr2\<rparr>) (ViaGate ?g)]"
      "queue s2 = queue u" "latencyScheduled s2 = latencyScheduled u" "numCPUs s2 = numCPUs u"
      "isCPU_Idle s2 = isCPU_Idle u" "requestsQueue s2 = requestsQueue u" "queueSize s2 = queueSize u"
      by (rule sched_send)
    from r obtain tr' g' where e3: "outbox s' = outbox s2 @ [Sent (m\<lparr>msg_trace := tr'\<rparr>) (ViaGateId g')]"
      "queue s' = queue s2" "latencyScheduled s' = latencyScheduled s2" "numCPUs s' = numCPUs s2"
      "isCPU_Idle s' = isCPU_Idle s2" "requestsQueue s' = requestsQueue s2" "queueSize s' = queueSize s2"
      by (rule sched_respond)
    have "fifo_inv s'" using assms(1) Cons e1 e2 e3 u ti
      by (auto simp: fifo_inv_def sched_inv_def dest: in_set_update)
    then show ?thesis using e1 e2 e3 u ti op Cons i xs
      by (auto intro!: sched_stepI simp: wait_ids_def i_def)
  qed
qed

subsection \<open>Round-robin steps\<close>

fun rr_started :: "event \<Rightarrow> int list" where
  "rr_started (Sent m (ViaGate g)) = [msg_id m]"
| "rr_started e = []"

definition requeued :: "message \<Rightarrow> bool" where
  "requeued m \<longleftrightarrow> (case cast_cpu m of None \<Rightarrow> False | Some c \<Rightarrow> unfinished c)"

fun rr_accepted :: "input \<Rightarrow> int list" where
  "rr_accepted (Incoming m) = (if isResponse m \<longrightarrow> requeued m then [msg_id m] else [])"
| "rr_accepted (SelfMsg n) = []"

lemma rr_request_step:
  assumes "sched_inv s" "rr_processRequestMessage og Ok m s = Ok s'"
  shows "sched_step sched_inv rr_started [msg_id m] s s'"
proof -
  from assms(2) obtain c where c: "set_quantum (sched_quantum s) m = Ok c"
    by (auto simp: rr_processRequestMessage_def bind_res_Ok_iff)
  note c' = set_quantum_Ok[OF c]
  have "length (isCPU_Idle s) = numCPUs s" using assms(1) by (simp add: sched_inv_def)
  then show ?thesis
  proof (cases rule: searchIdle_cases)
    case none
    with assms(2) c have s': "s' = s\<lparr>requestsQueue := requestsQueue s @ [c]\<rparr>"
      by (simp add: rr_processRequestMessage_def)
    have "sched_inv s'" using sched_inv_enqueue[OF assms(1) none(2)] c' s' by simp
    then show ?thesis by (rule sched_stepI[where es = "[]"]) (simp_all add: s' wait_ids_def c')
  next
    case (some i)
    with assms(2) c obtain g where
      "sendRequestMessage og Ok (c\<lparr>nextModuleIndex := int i\<rparr>) g (set_idle i False s) = Ok s'"
      by (auto simp: rr_processRequestMessage_def bind_res_Ok_iff)
    then obtain t where e: "outbox s' = outbox (set_idle i False s) @
        [Sent (c\<lparr>nextModuleIndex := int i, msg_trace := t\<rparr>) (ViaGate g)]"
      "queue s' = queue (set_idle i False s)" "latencyScheduled s' = latencyScheduled (set_idle i False s)"
      "numCPUs s' = numCPUs (set_idle i False s)" "isCPU_Idle s' = isCPU_Idle (set_idle i False s)"
      "requestsQueue s' = requestsQueue (set_idle i False s)"
      by (rule sched_send)
    have "sched_inv s'" using sched_inv_busy[OF assms(1), of i] sched_inv_cong[OF e(4,5,6)] by simp
    moreover have "requestsQueue s = []" using assms(1) some(2,3) by (rule empty_if_idle)
    ultimately show ?thesis using e c'
      by (intro sched_stepI[OF _ _ _ e(1)[simplified]]) (simp_all add: wait_ids_def)
  qed
qed

lemma rr_sendNext_step:
  assumes "length (isCPU_Idle s) = numCPUs s" "\<forall>m\<in>set (requestsQueue s). cast_cpu m \<noteq> None"
    and "tl (requestsQueue s) \<noteq> [] \<longrightarrow> True \<notin> set ((isCPU_Idle s)[i := False])"
    and "i < numCPUs s" "rr_sendNext og Ok i s = Ok s'"
  shows "sched_step sched_inv rr_started [] s s'"
proof (cases "requestsQueue s")
  case Nil
  with assms show ?thesis
    by (intro sched_stepI[where es = "[]"]) (simp_all add: rr_sendNext_def sched_inv_def)
next
  case (Cons x rest)
  define u where "u = set_idle i False (s\<lparr>requestsQueue := rest\<rparr>)"
  have u: "outbox u = outbox s" "queue u = queue s" "latencyScheduled u = latencyScheduled s"
    "numCPUs u = numCPUs s" "isCPU_Idle u = (isCPU_Idle s)[i := False]" "requestsQueue u = rest"
    by (simp_all add: u_def)
  from assms(5) Cons obtain g where "sendRequestMessage og Ok (x\<lparr>nextModuleIndex := int i\<rparr>) g u = Ok s'"
    by (auto simp: rr_sendNext_def Let_def bind_res_Ok_iff u_def split: if_split_asm)
  then obtain t where e: "outbox s' = outbox u @ [Sent (x\<lparr>nextModuleIndex := int i, msg_trace := t\<rparr>) (ViaGate g)]"
    "queue s' = queue u" "latencyScheduled s' = latencyScheduled u" "numCPUs s' = numCPUs u"
    "isCPU_Idle s' = isCPU_Idle u" "requestsQueue s' = requestsQueue u"
    by (rule sched_send)
  have "sched_inv s'" using assms Cons e u by (simp add: sched_inv_def)
  then show ?thesis using e u Cons
    by (intro sched_stepI[OF _ _ _ e(1)[unfolded u]]) (simp_all add: wait_ids_def)
qed

lemma sched_step_via:
  assumes "sched_step J st b t s'" "outbox t = outbox s @ es" "queue t = queue s"
    "latencyScheduled t = latencyScheduled s" "wait_ids s @ acc = concat (map st es) @ wait_ids t @ b"
  shows "sched_step J st acc s s'"
proof -
  from assms(1) obtain es' where e: "outbox s' = outbox t @ es'" "wait_ids t @ b = concat (map st es') @ wait_ids s'"
    and r: "J s'" "queue s' = queue t" "latencyScheduled s' = latencyScheduled t"
    by (auto simp: sched_step_def)
  have "wait_ids s @ acc = concat (map st (es @ es')) @ wait_ids s'" using assms(5) e(2) by simp
  then show ?thesis using e(1) r assms(2,3,4) by (intro sched_stepI[where es = "es @ es'"]) simp_all
qed

lemma rr_response_step:
  assumes "sched_inv s" "rr_processResponseMessage og Ok m s = Ok s'"
  shows "sched_step sched_inv rr_started (if requeued m then [msg_id m] else []) s s'
     \<and> nat (nextModuleIndex m) < numCPUs s"
proof -
  define i where "i = nat (nextModuleIndex m)"
  define t where "t = set_idle i True s"
  from assms(2) obtain c where c: "cast_cpu m = Some c" and i: "i < numCPUs s"
    by (auto simp: rr_processResponseMessage_def i_def Let_def split: option.splits if_split_asm)
  have ti: "requestsQueue t = requestsQueue s" "numCPUs t = numCPUs s" "queue t = queue s"
    "latencyScheduled t = latencyScheduled s" "outbox t = outbox s"
    "isCPU_Idle t = (isCPU_Idle s)[i := True]" by (simp_all add: t_def)
  have rq: "requeued m = unfinished c" using c by (simp add: requeued_def)
  have len: "length (isCPU_Idle t) = numCPUs t" using assms(1) ti by (simp add: sched_inv_def)
  show ?thesis
  proof (cases "unfinished c")
    case True
    define u where "u = t\<lparr>requestsQueue := requestsQueue t @ [m\<lparr>isResponse := False\<rparr>]\<rparr>"
    have n: "rr_sendNext og Ok i u = Ok s'"
      using assms(2) c i True by (simp add: rr_processResponseMessage_def i_def t_def u_def Let_def)
    have cc: "cast_cpu (m\<lparr>isResponse := False\<rparr>) \<noteq> None" using c by (simp add: cast_cpu_def)
    have "sched_step sched_inv rr_started [] u s'"
      by (rule rr_sendNext_step[OF _ _ _ _ n])
         (use len i ti assms(1) cc in \<open>auto simp: u_def sched_inv_def dest: in_set_update\<close>)
    then have "sched_step sched_inv rr_started [msg_id m] s s'"
      by (rule sched_step_via[where es = "[]"]) (simp_all add: u_def ti wait_ids_def)
    with True i rq show ?thesis by (simp add: i_def)
  next
    case False
    with assms(2) c i obtain u where r: "sendResponseMessage Ok (m\<lparr>isResponse := True\<rparr>) t = Ok u"
      and n: "rr_sendNext og Ok i u = Ok s'"
      by (auto simp: rr_processResponseMessage_def i_def t_def Let_def bind_res_Ok_iff)
    from r obtain tr g where e: "outbox u = outbox t @
        [Sent (m\<lparr>isResponse := True, msg_trace := tr\<rparr>) (ViaGateId g)]"
      "queue u = queue t" "latencyScheduled u = latencyScheduled t" "numCPUs u = numCPUs t"
      "isCPU_Idle u = isCPU_Idle t" "requestsQueue u = requestsQueue t"
      by (rule sched_respond)
    have "sched_step sched_inv rr_started [] u s'"
      by (rule rr_sendNext_step[OF _ _ _ _ n])
         (use len i ti e assms(1) in \<open>auto simp: sched_inv_def dest: in_set_update list.set_sel(2)\<close>)
    then have "sched_step sched_inv rr_started [] s s'"
      by (rule sched_step_via[OF _ e(1)[unfolded ti]]) (simp_all add: ti e wait_ids_def)
    with False i rq show ?thesis by (simp add: i_def)
  qed
qed

subsection \<open>The base class and the dispatchers\<close>

lemma sched_idle_sends:
  fixes s :: cpu_scheduler
  assumes "\<And>t. queue t = [] \<Longrightarrow> p t = Ok t" "queue s = []"
  shows "sendRequestMessage og p m g s = sendRequestMessage og Ok m g s"
    "sendResponseMessage p m s = sendResponseMessage Ok m s"
  using sendRequestMessage_idle[OF assms(2,1)] sendResponseMessage_idle[OF assms(2,1)] by auto

lemma sched_sent_quiet:
  fixes s :: cpu_scheduler
  shows "sendRequestMessage og Ok m g s = Ok s' \<Longrightarrow>
      queue s' = queue s \<and> latencyScheduled s' = latencyScheduled s"
    "sendResponseMessage Ok m s = Ok s' \<Longrightarrow>
      queue s' = queue s \<and> latencyScheduled s' = latencyScheduled s"
  using sendRequestMessage_frame[of og m g s s'] sendResponseMessage_frame[of m s s'] by blast+

lemma sched_sent_queue:
  fixes s :: cpu_scheduler
  shows "sendRequestMessage og Ok m g s = Ok s' \<Longrightarrow> queue s' = queue s"
    "sendResponseMessage Ok m s = Ok s' \<Longrightarrow> queue s' = queue s"
  using sendRequestMessage_frame sendResponseMessage_frame by blast+

lemma fifo_request_idle:
  assumes "queue s = []" "\<And>t. queue t = [] \<Longrightarrow> p t = Ok t"
  shows "fifo_processRequestMessage og p m s = fifo_processRequestMessage og Ok m s"
  using sched_idle_sends(1)[of p, OF assms(2)] assms(1)
  by (auto simp: fifo_processRequestMessage_def Let_def intro!: bind_res_cong)

lemma fifo_sendNext_idle:
  assumes "queue s = []" "\<And>t. queue t = [] \<Longrightarrow> p t = Ok t"
  shows "fifo_sendNext og p i g s = fifo_sendNext og Ok i g s"
  using sched_idle_sends(1)[of p, OF assms(2)] assms(1)
  by (auto simp: fifo_sendNext_def Let_def split: list.split)

lemma fifo_sendNext_queue:
  "fifo_sendNext og Ok i g s = Ok s' \<Longrightarrow> queue s' = queue s"
  by (auto simp: fifo_sendNext_def Let_def split: list.splits if_split_asm dest: sched_sent_queue)

lemma fifo_response_idle:
  assumes "queue s = []" "\<And>t. queue t = [] \<Longrightarrow> p t = Ok t"
  shows "fifo_processResponseMessage newId og p m s = fifo_processResponseMessage newId og Ok m s"
proof -
  have snd: "sendRequestMessage og p n g u = sendRequestMessage og Ok n g u"
    "sendResponseMessage p n u = sendResponseMessage Ok n u"
    if "queue u = []" for n g and u :: cpu_scheduler
    using sched_idle_sends[OF assms(2) that] by simp_all
  define t where "t = set_idle (nat (nextModuleIndex m)) True s"
  have t: "queue t = []" using assms(1) by (simp add: t_def)
  have nxt: "bind_res (sendRequestMessage og p n g t) (fifo_sendNext og p i g) =
      bind_res (sendRequestMessage og Ok n g t) (fifo_sendNext og Ok i g)" for n g i
    using snd(1)[OF t] fifo_sendNext_idle[OF _ assms(2)] sched_sent_queue(1)[of og _ _ t] t
    by (intro bind_res_cong) auto
  have last: "bind_res (if b then bind_res (sendRequestMessage og p n g t) (fifo_sendNext og p i g)
            else sendRequestMessage og p n' g t) (sendResponseMessage p m) =
      bind_res (if b then bind_res (sendRequestMessage og Ok n g t) (fifo_sendNext og Ok i g)
            else sendRequestMessage og Ok n' g t) (sendResponseMessage Ok m)" for b n n' g i
  proof (rule bind_res_cong)
    fix x
    assume "(if b then bind_res (sendRequestMessage og Ok n g t) (fifo_sendNext og Ok i g)
            else sendRequestMessage og Ok n' g t) = Ok x"
    then have "queue x = []"
      using t fifo_sendNext_queue sched_sent_queue(1) by (auto simp: bind_res_Ok_iff split: if_split_asm)
    then show "sendResponseMessage p m x = sendResponseMessage Ok m x" by (rule snd(2))
  qed (cases b; use nxt snd(1)[OF t] in \<open>simp only: if_True if_False\<close>)
  show ?thesis unfolding fifo_processResponseMessage_def Let_def t_def[symmetric] last ..
qed

lemma fifo_response_quiet:
  assumes "queue s = []" "fifo_processResponseMessage newId og Ok m s = Ok s'"
  shows "queue s' = [] \<and> latencyScheduled s' = latencyScheduled s"
proof -
  have nxt: "latencyScheduled y = latencyScheduled x \<and> queue y = queue x"
    if "fifo_sendNext og Ok i g x = Ok y" for i g x y
    using that by (auto simp: fifo_sendNext_def Let_def dest!: sched_sent_quiet(1)
        split: list.splits if_split_asm)
  show ?thesis using assms
    by (auto simp: fifo_processResponseMessage_def Let_def bind_res_Ok_iff
        dest!: sched_sent_quiet nxt split: if_split_asm)
qed

interpretation fifo: message_module og sched_processSelfMessage "fifo_processRequestMessage og"
    "fifo_processResponseMessage newId og" for og newId
proof (unfold_locales, goal_cases)
  case (1 s p m) then show ?case by (rule fifo_request_idle)
next
  case (2 s p m) then show ?case by (rule fifo_response_idle)
next
  case (3 s m s')
  then show ?case
    by (auto simp: fifo_processRequestMessage_def Let_def bind_res_Ok_iff
        dest!: sched_sent_quiet(1) split: if_split_asm)
next
  case (4 s m s')
  then show ?case by (rule fifo_response_quiet)
next
  case (5 s n s') then show ?case by (simp add: sched_processSelfMessage_def)
qed

subsection \<open>Round robin under the base class\<close>

lemma rr_request_idle:
  assumes "queue s = []" "\<And>t. queue t = [] \<Longrightarrow> p t = Ok t"
  shows "rr_processRequestMessage og p m s = rr_processRequestMessage og Ok m s"
  using sched_idle_sends(1)[of p, OF assms(2)] assms(1)
  by (auto simp: rr_processRequestMessage_def Let_def intro!: bind_res_cong)

lemma rr_sendNext_idle:
  assumes "queue s = []" "\<And>t. queue t = [] \<Longrightarrow> p t = Ok t"
  shows "rr_sendNext og p i s = rr_sendNext og Ok i s"
  using sched_idle_sends(1)[of p, OF assms(2)] assms(1)
  by (auto simp: rr_sendNext_def Let_def split: list.split intro!: bind_res_cong)

lemma rr_sendNext_quiet:
  "rr_sendNext og Ok i s = Ok s' \<Longrightarrow> queue s' = queue s \<and> latencyScheduled s' = latencyScheduled s"
  by (auto simp: rr_sendNext_def Let_def bind_res_Ok_iff dest!: sched_sent_quiet(1)
      split: list.splits if_split_asm)

lemma rr_response_idle:
  assumes "queue s = []" "\<And>t. queue t = [] \<Longrightarrow> p t = Ok t"
  shows "rr_processResponseMessage og p m s = rr_processResponseMessage og Ok m s"
proof -
  have snd: "sendRequestMessage og p n g u = sendRequestMessage og Ok n g u"
    "sendResponseMessage p n u = sendResponseMessage Ok n u"
    if "queue u = []" for n g and u :: cpu_scheduler
    using sched_idle_sends[OF assms(2) that] by simp_all
  define t where "t = set_idle (nat (nextModuleIndex m)) True s"
  have t: "queue t = []" using assms(1) by (simp add: t_def)
  have last: "bind_res (if b then Ok u else sendResponseMessage p m' t) (rr_sendNext og p i) =
      bind_res (if b then Ok u else sendResponseMessage Ok m' t) (rr_sendNext og Ok i)"
    if "queue u = []" for b u m' i
  proof (rule bind_res_cong)
    fix x
    assume "(if b then Ok u else sendResponseMessage Ok m' t) = Ok x"
    then have "queue x = []" using that t sched_sent_queue(2) by (auto split: if_split_asm)
    then show "rr_sendNext og p i x = rr_sendNext og Ok i x" using assms(2) by (rule rr_sendNext_idle)
  qed (simp add: snd(2)[OF t])
  have "queue (t\<lparr>requestsQueue := requestsQueue t @ [m\<lparr>isResponse := False\<rparr>]\<rparr>) = []" using t by simp
  from last[OF this] show ?thesis
    unfolding rr_processResponseMessage_def Let_def t_def[symmetric] by (simp split: option.split)
qed

lemma rr_response_quiet:
  assumes "queue s = []" "rr_processResponseMessage og Ok m s = Ok s'"
  shows "queue s' = [] \<and> latencyScheduled s' = latencyScheduled s"
  using assms
  by (auto simp: rr_processResponseMessage_def Let_def bind_res_Ok_iff
      dest!: sched_sent_quiet(2) rr_sendNext_quiet split: option.splits if_split_asm)

interpretation rr: message_module og sched_processSelfMessage "rr_processRequestMessage og"
    "rr_processResponseMessage og" for og
proof (unfold_locales, goal_cases)
  case (1 s p m) then show ?case by (rule rr_request_idle)
next
  case (2 s p m) then show ?case by (rule rr_response_idle)
next
  case (3 s m s')
  then show ?case
    by (auto simp: rr_processRequestMessage_def Let_def bind_res_Ok_iff
        dest!: sched_sent_quiet(1) split: if_split_asm)
next
  case (4 s m s')
  then show ?case by (rule rr_response_quiet)
next
  case (5 s n s') then show ?case by (simp add: sched_processSelfMessage_def)
qed

subsection \<open>Both schedulers are dispatchers\<close>

definition quiet :: "cpu_scheduler \<Rightarrow> bool" where
  "quiet s \<longleftrightarrow> queue s = [] \<and> \<not> latencyScheduled s"

lemma sched_step_start:
  assumes "sched_step J st acc t s'" "outbox t = outbox s" "queue t = queue s"
    "latencyScheduled t = latencyScheduled s" "wait_ids t = wait_ids s"
  shows "sched_step J st acc s s'"
  using assms by (simp add: sched_step_def)

lemma sched_traced:
  assumes "updateMessageTrace og m (s :: cpu_scheduler) = Ok (m1, s1)"
  obtains t where "m1 = m\<lparr>msg_trace := t\<rparr>" "outbox s1 = outbox s" "queue s1 = queue s"
    "latencyScheduled s1 = latencyScheduled s" "numCPUs s1 = numCPUs s"
    "isCPU_Idle s1 = isCPU_Idle s" "requestsQueue s1 = requestsQueue s" "queueSize s1 = queueSize s"
proof -
  note f = updateMessageTrace_frame[OF assms]
  have m: "module_state.more s1 = module_state.more s" using f by blast
  from f obtain t where o: "m1 = m\<lparr>msg_trace := t\<rparr>" by blast
  show ?thesis by (rule that[OF o]) (use f scheduler_more[OF m] in simp_all)
qed

lemma cast_cpu_trace [simp]: "cast_cpu (m\<lparr>msg_trace := t\<rparr>) = cast_cpu m"
  by (simp add: cast_cpu_def)

lemma fifo_handle_step:
  assumes "quiet s" "fifo_inv s" "fifo_handleMessage newId og i s = Ok s'"
  shows "sched_step fifo_inv fifo_started (fifo_accepted i) s s'"
proof (cases i)
  case (SelfMsg n)
  then show ?thesis using assms(3)
    by (simp add: fifo_handleMessage_def handleMessage_def sched_processSelfMessage_def)
next
  case (Incoming m)
  have q: "queue s = []" "\<not> latencyScheduled s" using assms(1) by (simp_all add: quiet_def)
  show ?thesis
  proof (cases "isResponse m")
    case True
    have "fifo_processResponseMessage newId og Ok m s = Ok s'"
      using fifo.handle_response[OF q(1) True] assms(3) Incoming by (simp add: fifo_handleMessage_def)
    from fifo_response_step[OF assms(2) this] show ?thesis using True Incoming by simp
  next
    case False
    with assms(3) Incoming fifo.handle_request[OF q False, of og] obtain m1 s1
      where u: "updateMessageTrace og m s = Ok (m1, s1)"
        and r: "fifo_processRequestMessage og Ok m1 s1 = Ok s'"
      by (auto simp: fifo_handleMessage_def bind_res_Ok_iff)
    from u obtain t where t: "m1 = m\<lparr>msg_trace := t\<rparr>" "outbox s1 = outbox s" "queue s1 = queue s"
      "latencyScheduled s1 = latencyScheduled s" "numCPUs s1 = numCPUs s"
      "isCPU_Idle s1 = isCPU_Idle s" "requestsQueue s1 = requestsQueue s" "queueSize s1 = queueSize s"
      by (rule sched_traced)
    have "fifo_inv s1" using assms(2) t sched_inv_cong[of s1 s] by (simp add: fifo_inv_def)
    from fifo_request_step[OF this r] have "sched_step fifo_inv fifo_started (fifo_accepted i) s1 s'"
      using t(1) False Incoming by (simp split: if_split_asm)
    then show ?thesis by (rule sched_step_start) (simp_all add: wait_ids_def t)
  qed
qed

lemma rr_handle_step:
  assumes "quiet s" "sched_inv s" "rr_handleMessage og i s = Ok s'"
  shows "sched_step sched_inv rr_started (rr_accepted i) s s'"
proof (cases i)
  case (SelfMsg n)
  then show ?thesis using assms(3)
    by (simp add: rr_handleMessage_def handleMessage_def sched_processSelfMessage_def)
next
  case (Incoming m)
  have q: "queue s = []" "\<not> latencyScheduled s" using assms(1) by (simp_all add: quiet_def)
  show ?thesis
  proof (cases "isResponse m")
    case True
    have "rr_processResponseMessage og Ok m s = Ok s'"
      using rr.handle_response[OF q(1) True] assms(3) Incoming by (simp add: rr_handleMessage_def)
    from rr_response_step[OF assms(2) this] show ?thesis using True Incoming by simp
  next
    case False
    with assms(3) Incoming rr.handle_request[OF q False, of og] obtain m1 s1
      where u: "updateMessageTrace og m s = Ok (m1, s1)"
        and r: "rr_processRequestMessage og Ok m1 s1 = Ok s'"
      by (auto simp: rr_handleMessage_def bind_res_Ok_iff)
    from u obtain t where t: "m1 = m\<lparr>msg_trace := t\<rparr>" "outbox s1 = outbox s" "queue s1 = queue s"
      "latencyScheduled s1 = latencyScheduled s" "numCPUs s1 = numCPUs s"
      "isCPU_Idle s1 = isCPU_Idle s" "requestsQueue s1 = requestsQueue s"
      by (rule sched_traced)
    have "sched_inv s1" using assms(2) sched_inv_cong[OF t(5,6,7)] by simp
    from rr_request_step[OF this r] have "sched_step sched_inv rr_started (rr_accepted i) s1 s'"
      using t(1) False Incoming by simp
    then show ?thesis by (rule sched_step_start) (simp_all add: wait_ids_def t)
  qed
qed

interpretation fifo_d: dispatcher "\<lambda>s. quiet s \<and> fifo_inv s" "fifo_handleMessage newId og"
    wait_ids outbox fifo_accepted fifo_started for newId og
proof (unfold_locales, goal_cases)
  case (1 s i s')
  then have "sched_step fifo_inv fifo_started (fifo_accepted i) s s'" using fifo_handle_step by blast
  with 1 show ?case by (auto simp: sched_step_def quiet_def)
qed

interpretation rr_d: dispatcher "\<lambda>s. quiet s \<and> sched_inv s" "rr_handleMessage og"
    wait_ids outbox rr_accepted rr_started for og
proof (unfold_locales, goal_cases)
  case (1 s i s')
  then have "sched_step sched_inv rr_started (rr_accepted i) s s'" using rr_handle_step by blast
  with 1 show ?case by (auto simp: sched_step_def quiet_def)
qed

end
