(* ===== verification/VirtualIP.thy ===== *)
theory VirtualIP imports Prelude begin

text \<open>
  Virtual IP addresses (\<^verbatim>\<open>src/src/Management/NetworkManager/VirtualIPs.cc\<close> and
  \<^verbatim>\<open>VirtualIPCell.cc\<close>).  An address is printed with \<^verbatim>\<open>operator<<\<close> and read back with
  \<^verbatim>\<open>sscanf (s, "%i.%i.%i.%i", ...)\<close> from a buffer of 16 bytes.  \<open>scan_int\<close> is the conversion
  \<^verbatim>\<open>%i\<close> of the C library: white space, a sign, and digits whose base is given by the prefix
  \<^verbatim>\<open>0x\<close> or \<^verbatim>\<open>0\<close>.  A conversion that fails leaves a variable uninitialised, which is
  \<open>Undefined\<close>, as are a string that does not fit the buffer and a number that is not an
  \<^verbatim>\<open>int\<close>.
\<close>

subsection \<open>Printing and scanning numbers\<close>

definition digits :: string where "digits = ''0123456789abcdef''"
definition upper_digits :: string where "upper_digits = ''0123456789ABCDEF''"

definition digit_char :: "int \<Rightarrow> char" where
  "digit_char d = digits ! nat d"

definition digit_value :: "char \<Rightarrow> nat option" where
  "digit_value c = (case index_of (\<lambda>d. d = c) digits of
     Some i \<Rightarrow> Some i | None \<Rightarrow> index_of (\<lambda>d. d = c) upper_digits)"

definition is_digit :: "nat \<Rightarrow> char \<Rightarrow> bool" where
  "is_digit b c = (case digit_value c of None \<Rightarrow> False | Some v \<Rightarrow> v < b)"

definition digits_value :: "nat \<Rightarrow> string \<Rightarrow> int" where
  "digits_value b ds = foldl (\<lambda>a c. a * int b + (case digit_value c of None \<Rightarrow> 0 | Some v \<Rightarrow> int v)) 0 ds"

function print_nat :: "int \<Rightarrow> string" where
  "print_nat i = (if i < 10 then [digit_char i] else print_nat (i div 10) @ [digit_char (i mod 10)])"
  by pat_completeness auto
termination by (relation "measure nat") auto

declare print_nat.simps [simp del]

definition print_int :: "int \<Rightarrow> string" where
  "print_int i = (if i < 0 then ''-'' @ print_nat (- i) else print_nat i)"

definition is_space :: "char \<Rightarrow> bool" where
  "is_space c \<longleftrightarrow> c \<in> set [CHR '' '', CHR 0x09, CHR 0x0A, CHR 0x0B, CHR 0x0C, CHR 0x0D]"

definition scan_sign :: "string \<Rightarrow> int \<times> string" where
  "scan_sign xs = (case xs of [] \<Rightarrow> (1, [])
     | c # r \<Rightarrow> if c = CHR ''-'' then (-1, r) else if c = CHR ''+'' then (1, r) else (1, xs))"

definition scan_base :: "string \<Rightarrow> nat \<times> string" where
  "scan_base xs = (case xs of
     c # r \<Rightarrow> if c = CHR ''0''
              then (case r of x # r' \<Rightarrow> if x = CHR ''x'' \<or> x = CHR ''X'' then (16, r') else (8, xs)
                            | [] \<Rightarrow> (8, xs))
              else (10, xs)
   | [] \<Rightarrow> (10, xs))"

definition scan_int :: "string \<Rightarrow> (int \<times> string) option" where
  "scan_int xs =
     (let (sg, ys) = scan_sign (dropWhile is_space xs);
          (b, zs) = scan_base ys;
          ds = takeWhile (is_digit b) zs
      in if ds = [] then None else Some (sg * digits_value b ds, dropWhile (is_digit b) zs))"

definition scan_dot :: "string \<Rightarrow> string option" where
  "scan_dot xs = (case xs of [] \<Rightarrow> None | c # r \<Rightarrow> if c = CHR ''.'' then Some r else None)"

subsection \<open>Addresses\<close>

datatype octets = Octets int int int int

definition is_int32 :: "int \<Rightarrow> bool" where
  "is_int32 i \<longleftrightarrow> - (2 ^ 31) \<le> i \<and> i < 2 ^ 31"

definition scan_octets :: "string \<Rightarrow> octets res" where
  "scan_octets s =
     (let r = Option.bind (scan_int s) (\<lambda>(a, s). Option.bind (scan_dot s) (\<lambda>s.
              Option.bind (scan_int s) (\<lambda>(b, s). Option.bind (scan_dot s) (\<lambda>s.
              Option.bind (scan_int s) (\<lambda>(c, s). Option.bind (scan_dot s) (\<lambda>s.
              Option.bind (scan_int s) (\<lambda>(d, s). Some (a, b, c, d))))))))
      in case r of None \<Rightarrow> Fail Undefined
         | Some (a, b, c, d) \<Rightarrow>
             if is_int32 a \<and> is_int32 b \<and> is_int32 c \<and> is_int32 d then Ok (Octets a b c d)
             else Fail Undefined)"

definition virtualIPToString :: "int \<Rightarrow> int \<Rightarrow> int \<Rightarrow> int \<Rightarrow> string" where
  "virtualIPToString ip1 ip2 ip3 ip4 =
     print_int ip1 @ ''.'' @ print_int ip2 @ ''.'' @ print_int ip3 @ ''.'' @ print_int ip4"

definition stringTovirtualIP :: "string \<Rightarrow> octets res" where
  "stringTovirtualIP vIP = (if 16 \<le> length vIP then Fail Undefined else scan_octets vIP)"

record virtual_ip =
  first :: int
  second :: int
  third :: int
  fourth :: int

definition new_virtual_ip :: virtual_ip where
  "new_virtual_ip = \<lparr>first = -1, second = -1, third = -1, fourth = -1\<rparr>"

definition setVirtualIP :: "string \<Rightarrow> virtual_ip \<Rightarrow> virtual_ip res" where
  "setVirtualIP newVIP v = bind_res (stringTovirtualIP newVIP) (\<lambda>ip. case ip of
     Octets a b c d \<Rightarrow> Ok (v\<lparr>first := a, second := b, third := c, fourth := d\<rparr>))"

definition getVirtualIP :: "virtual_ip \<Rightarrow> string" where
  "getVirtualIP v = virtualIPToString (first v) (second v) (third v) (fourth v)"

definition incVirtualIP :: "virtual_ip \<Rightarrow> string \<times> virtual_ip" where
  "incVirtualIP v =
     (if fourth v < 256 then let v = v\<lparr>fourth := fourth v + 1\<rparr> in (getVirtualIP v, v)
      else if third v < 256 then let v = v\<lparr>third := third v + 1, fourth := 0\<rparr> in (getVirtualIP v, v)
      else if second v < 256 then
        let v = v\<lparr>second := second v + 1, third := 0, fourth := 0\<rparr> in (getVirtualIP v, v)
      else if first v < 256 then
        let v = v\<lparr>first := first v + 1, second := 0, third := 0, fourth := 0\<rparr> in (getVirtualIP v, v)
      else ('''', v))"

definition generateHole :: "string \<Rightarrow> virtual_ip \<Rightarrow> string res" where
  "generateHole ipBasis v = bind_res (stringTovirtualIP ipBasis) (\<lambda>ip. case ip of
     Octets a b c d \<Rightarrow>
       Ok (virtualIPToString (first v - a) (second v - b) (third v - c) (fourth v - d)))"

definition getNetwork :: "virtual_ip \<Rightarrow> string" where
  "getNetwork v = virtualIPToString (first v) (second v) 0 0"

subsection \<open>Scanning what was printed\<close>

lemma digit_range:
  fixes d :: int
  assumes "0 \<le> d" "d < 10"
  shows "d \<in> {0, 1, 2, 3, 4, 5, 6, 7, 8, 9}"
  using assms by simp arith

lemma digit_char_value: "0 \<le> d \<Longrightarrow> d < 10 \<Longrightarrow> digit_value (digit_char d) = Some (nat d)"
proof -
  assume "0 \<le> d" "d < 10"
  then have "d \<in> {0, 1, 2, 3, 4, 5, 6, 7, 8, 9}" by (rule digit_range)
  then show ?thesis by (auto simp: digit_value_def digit_char_def digits_def)
qed

lemma digit_char_ne: "0 \<le> d \<Longrightarrow> d < 10 \<Longrightarrow>
  digit_char d \<noteq> CHR ''.'' \<and> digit_char d \<noteq> CHR ''-'' \<and> digit_char d \<noteq> CHR ''+''
  \<and> \<not> is_space (digit_char d) \<and> digit_char d \<noteq> CHR ''x'' \<and> digit_char d \<noteq> CHR ''X''"
proof -
  assume "0 \<le> d" "d < 10"
  then have "d \<in> {0, 1, 2, 3, 4, 5, 6, 7, 8, 9}" by (rule digit_range)
  then show ?thesis by (auto simp: digit_char_def digits_def is_space_def)
qed

lemma digit_char_0: "0 \<le> d \<Longrightarrow> d < 10 \<Longrightarrow> digit_char d = CHR ''0'' \<longleftrightarrow> d = 0"
proof -
  assume "0 \<le> d" "d < 10"
  then have "d \<in> {0, 1, 2, 3, 4, 5, 6, 7, 8, 9}" by (rule digit_range)
  then show ?thesis by (auto simp: digit_char_def digits_def)
qed

lemma print_nat_digits:
  "0 \<le> i \<Longrightarrow> \<forall>c\<in>set (print_nat i). \<exists>d. 0 \<le> d \<and> d < 10 \<and> c = digit_char d"
proof (induction i rule: print_nat.induct)
  case (1 i)
  show ?case
  proof (cases "i < 10")
    case True
    then show ?thesis using 1 by (subst print_nat.simps) auto
  next
    case False
    then have "set (print_nat i) = insert (digit_char (i mod 10)) (set (print_nat (i div 10)))"
      by (subst print_nat.simps) auto
    moreover have "0 \<le> i mod 10" "i mod 10 < 10" by simp_all
    then have "\<exists>d. 0 \<le> d \<and> d < 10 \<and> digit_char (i mod 10) = digit_char d" by blast
    ultimately show ?thesis using 1 False by simp
  qed
qed

lemma print_nat_ne [simp]: "print_nat i \<noteq> []"
  by (subst print_nat.simps) simp

lemma print_nat_hd: "0 \<le> i \<Longrightarrow> hd (print_nat i) = CHR ''0'' \<longleftrightarrow> i = 0"
proof (induction i rule: print_nat.induct)
  case (1 i)
  show ?case
  proof (cases "i < 10")
    case True
    then show ?thesis using 1 by (subst print_nat.simps) (simp add: digit_char_0)
  next
    case False
    then have "hd (print_nat i) = hd (print_nat (i div 10))" by (subst print_nat.simps) simp
    with 1 False show ?thesis by auto
  qed
qed

lemma digits_value_append:
  "digits_value b (ds @ [c]) = digits_value b ds * int b + (case digit_value c of None \<Rightarrow> 0 | Some v \<Rightarrow> int v)"
  by (simp add: digits_value_def)

lemma print_nat_value: "0 \<le> i \<Longrightarrow> digits_value 10 (print_nat i) = i"
proof (induction i rule: print_nat.induct)
  case (1 i)
  show ?case
  proof (cases "i < 10")
    case True
    then show ?thesis using 1 by (subst print_nat.simps) (simp add: digits_value_def digit_char_value)
  next
    case False
    then have "print_nat i = print_nat (i div 10) @ [digit_char (i mod 10)]"
      by (subst print_nat.simps) simp
    then show ?thesis using 1 False by (simp add: digits_value_append digit_char_value)
  qed
qed

definition stops :: "string \<Rightarrow> bool" where
  "stops r \<longleftrightarrow> (case r of [] \<Rightarrow> True | c # _ \<Rightarrow> c = CHR ''.'')"

lemma dot_no_digit: "\<not> is_digit b (CHR ''.'')"
  by (simp add: is_digit_def digit_value_def digits_def upper_digits_def)

lemma span_digits:
  assumes "\<forall>c\<in>set ds. is_digit b c" "stops r"
  shows "takeWhile (is_digit b) (ds @ r) = ds" "dropWhile (is_digit b) (ds @ r) = r"
  using assms dot_no_digit by (induction ds) (auto simp: stops_def split: list.splits)

lemma scan_print_nat:
  assumes "0 \<le> i" "stops r"
  shows "(let (b, zs) = scan_base (print_nat i @ r); ds = takeWhile (is_digit b) zs
    in ds \<noteq> [] \<and> digits_value b ds = i \<and> dropWhile (is_digit b) zs = r)"
proof (cases "i = 0")
  case True
  have p: "print_nat 0 = [CHR ''0'']" by (subst print_nat.simps) (simp add: digit_char_def digits_def)
  have "scan_base (print_nat i @ r) = (8, ''0'' @ r)"
    using assms(2) by (auto simp: True p scan_base_def stops_def split: list.splits)
  moreover have "\<forall>c\<in>set ''0''. is_digit 8 c" by (simp add: is_digit_def digit_value_def digits_def)
  ultimately show ?thesis using span_digits[of "''0''" 8 r] assms(2) True
    by (simp add: digits_value_def digit_value_def digits_def)
next
  case False
  obtain c cs where p: "print_nat i = c # cs" by (cases "print_nat i") auto
  then have "c \<noteq> CHR ''0''" using print_nat_hd[OF assms(1)] False by simp
  then have b: "scan_base (print_nat i @ r) = (10, print_nat i @ r)" by (simp add: p scan_base_def)
  have "\<forall>c\<in>set (print_nat i). is_digit 10 c"
    using print_nat_digits[OF assms(1)] by (auto simp: is_digit_def digit_char_value)
  from span_digits[OF this assms(2)] show ?thesis
    by (simp add: b print_nat_value[OF assms(1)])
qed

lemma scan_print_int:
  assumes "stops r"
  shows "scan_int (print_int i @ r) = Some (i, r)"
proof (cases "i < 0")
  case True
  have "dropWhile is_space (print_int i @ r) = ''-'' @ print_nat (- i) @ r"
    using True by (simp add: print_int_def is_space_def)
  then have "scan_sign (dropWhile is_space (print_int i @ r)) = (- 1, print_nat (- i) @ r)"
    by (simp add: scan_sign_def)
  with scan_print_nat[of "- i" r] assms True show ?thesis by (auto simp: scan_int_def Let_def split: prod.splits)
next
  case False
  obtain c cs where p: "print_nat i = c # cs" by (cases "print_nat i") auto
  then obtain d where "0 \<le> d" "d < 10" "c = digit_char d" using print_nat_digits[of i] False by auto
  then have c: "c \<noteq> CHR ''-''" "c \<noteq> CHR ''+''" "\<not> is_space c" using digit_char_ne by auto
  have "scan_sign (dropWhile is_space (print_int i @ r)) = (1, print_nat i @ r)"
    using c p False by (simp add: print_int_def scan_sign_def)
  with scan_print_nat[of i r] assms False show ?thesis by (auto simp: scan_int_def Let_def split: prod.splits)
qed

lemma scan_octets_print:
  assumes "is_int32 a" "is_int32 b" "is_int32 c" "is_int32 d"
  shows "scan_octets (virtualIPToString a b c d) = Ok (Octets a b c d)"
  using assms scan_print_int[of "[]" d]
  by (simp add: scan_octets_def virtualIPToString_def scan_print_int scan_dot_def stops_def)

lemma string_print:
  assumes "is_int32 a" "is_int32 b" "is_int32 c" "is_int32 d"
    and "length (virtualIPToString a b c d) < 16"
  shows "stringTovirtualIP (virtualIPToString a b c d) = Ok (Octets a b c d)"
  using assms by (simp add: stringTovirtualIP_def scan_octets_print)

lemma virtualIPToString_inj:
  assumes "is_int32 a" "is_int32 b" "is_int32 c" "is_int32 d"
    "is_int32 a'" "is_int32 b'" "is_int32 c'" "is_int32 d'"
    and "virtualIPToString a b c d = virtualIPToString a' b' c' d'"
  shows "a = a' \<and> b = b' \<and> c = c' \<and> d = d'"
proof -
  have "Ok (Octets a b c d) = Ok (Octets a' b' c' d')"
    using scan_octets_print[OF assms(1-4)] scan_octets_print[OF assms(5-8)]
    unfolding assms(9) by (rule trans[OF sym])
  then show ?thesis by simp
qed

subsection \<open>Counting addresses\<close>

text \<open>The code lets every octet reach 256, so its addresses are the numbers in base 257.\<close>

definition vip_octet :: "int \<Rightarrow> bool" where
  "vip_octet i \<longleftrightarrow> 0 \<le> i \<and> i \<le> 256"

definition vip_ok :: "virtual_ip \<Rightarrow> bool" where
  "vip_ok v \<longleftrightarrow> vip_octet (first v) \<and> vip_octet (second v) \<and> vip_octet (third v) \<and> vip_octet (fourth v)"

definition vip_value :: "virtual_ip \<Rightarrow> int" where
  "vip_value v = ((first v * 257 + second v) * 257 + third v) * 257 + fourth v"

definition vip_last :: "virtual_ip \<Rightarrow> bool" where
  "vip_last v \<longleftrightarrow> first v = 256 \<and> second v = 256 \<and> third v = 256 \<and> fourth v = 256"

lemma vip_octet_int32: "vip_octet i \<Longrightarrow> is_int32 i"
  by (simp add: vip_octet_def is_int32_def)

lemma inc_counts:
  assumes "vip_ok v" "\<not> vip_last v"
  shows "vip_ok (snd (incVirtualIP v)) \<and> vip_value (snd (incVirtualIP v)) = vip_value v + 1
     \<and> fst (incVirtualIP v) = getVirtualIP (snd (incVirtualIP v))"
  using assms by (auto simp: incVirtualIP_def vip_ok_def vip_octet_def vip_last_def vip_value_def Let_def)

lemma inc_last: "vip_last v \<Longrightarrow> incVirtualIP v = ([], v)"
  by (simp add: incVirtualIP_def vip_last_def)

lemma print_octet_length: "vip_octet i \<Longrightarrow> length (print_int i) \<le> 3"
proof -
  assume "vip_octet i"
  then have i: "0 \<le> i" "i \<le> 256" by (simp_all add: vip_octet_def)
  have s: "length (print_nat j) = (if j < 10 then 1 else Suc (length (print_nat (j div 10))))" for j
    by (subst print_nat.simps) simp
  have "i div 10 < 100" "i div 10 div 10 < 10" using i by linarith+
  then show ?thesis using i s[of i] s[of "i div 10"] s[of "i div 10 div 10"]
    by (auto simp: print_int_def split: if_splits)
qed

lemma vip_string_fits: "vip_ok v \<Longrightarrow> length (getVirtualIP v) < 16"
  using print_octet_length[of "first v"] print_octet_length[of "second v"]
    print_octet_length[of "third v"] print_octet_length[of "fourth v"]
  by (simp add: getVirtualIP_def virtualIPToString_def vip_ok_def)

lemma set_get_roundtrip:
  assumes "vip_ok v"
  shows "setVirtualIP (getVirtualIP v) w = Ok (w\<lparr>first := first v, second := second v,
    third := third v, fourth := fourth v\<rparr>)"
proof -
  have "is_int32 (first v)" "is_int32 (second v)" "is_int32 (third v)" "is_int32 (fourth v)"
    using assms by (simp_all add: vip_ok_def vip_octet_int32)
  from string_print[OF this] vip_string_fits[OF assms] show ?thesis
    by (simp add: setVirtualIP_def getVirtualIP_def)
qed

lemma getVirtualIP_inj:
  assumes "vip_ok v" "vip_ok w" "getVirtualIP v = getVirtualIP w"
  shows "vip_value v = vip_value w"
  using virtualIPToString_inj[of "first v" "second v" "third v" "fourth v"
      "first w" "second w" "third w" "fourth w"] assms
  by (simp add: vip_ok_def vip_octet_int32 getVirtualIP_def vip_value_def)

text \<open>Addresses handed out one after the other, each the increment of the last, are distinct.\<close>

fun count_up :: "nat \<Rightarrow> virtual_ip \<Rightarrow> virtual_ip list" where
  "count_up 0 v = []"
| "count_up (Suc n) v = (let w = snd (incVirtualIP v) in w # count_up n w)"

lemma count_up_values:
  assumes "vip_ok v" "\<forall>w\<in>set (butlast (v # count_up n v)). \<not> vip_last w"
  shows "(\<forall>w\<in>set (count_up n v). vip_ok w \<and> vip_value v < vip_value w)
    \<and> distinct (map getVirtualIP (count_up n v))"
  using assms
proof (induction n arbitrary: v)
  case (Suc n)
  let ?w = "snd (incVirtualIP v)"
  have nl: "\<not> vip_last v" using Suc.prems(2) by (auto simp: Let_def)
  note inc = inc_counts[OF Suc.prems(1) nl]
  have "\<forall>x\<in>set (butlast (?w # count_up n ?w)). \<not> vip_last x"
    using Suc.prems(2) by (auto simp: Let_def)
  then have IH: "\<forall>x\<in>set (count_up n ?w). vip_ok x \<and> vip_value ?w < vip_value x"
    "distinct (map getVirtualIP (count_up n ?w))" using Suc.IH[of ?w] inc by simp_all
  have "getVirtualIP ?w \<notin> set (map getVirtualIP (count_up n ?w))"
  proof
    assume "getVirtualIP ?w \<in> set (map getVirtualIP (count_up n ?w))"
    then obtain x where "x \<in> set (count_up n ?w)" "getVirtualIP ?w = getVirtualIP x" by auto
    with IH(1) inc getVirtualIP_inj[of ?w x] show False by auto
  qed
  then show ?case using IH inc by (auto simp: Let_def)
qed simp

subsection \<open>A virtual IP and the node it lives on\<close>

record vip_cell =
  cell_vip :: virtual_ip
  cell_ipNode :: string
  cell_vmID :: int

definition new_vip_cell :: vip_cell where
  "new_vip_cell = \<lparr>cell_vip = new_virtual_ip, cell_ipNode = [], cell_vmID = -1\<rparr>"

definition cell_setVirtualIP :: "string \<Rightarrow> vip_cell \<Rightarrow> vip_cell res" where
  "cell_setVirtualIP newVirtualIP c =
     bind_res (setVirtualIP newVirtualIP (cell_vip c)) (\<lambda>v. Ok (c\<lparr>cell_vip := v\<rparr>))"

definition cell_getVirtualIP :: "vip_cell \<Rightarrow> string" where
  "cell_getVirtualIP c = getVirtualIP (cell_vip c)"

definition getHole :: "string \<Rightarrow> vip_cell \<Rightarrow> string res" where
  "getHole ipBasis c = generateHole ipBasis (cell_vip c)"

end
