(* ===== verification/PortTables.thy ===== *)
theory PortTables imports Prelude begin

text \<open>
  \<^verbatim>\<open>PortTable\<close> (\<^verbatim>\<open>src/src/Management/NetworkManager/PortTable.cc\<close>): for one node, the real
  ports behind each virtual port, one per user and virtual machine.  The loop of \<^verbatim>\<open>freePort\<close>
  does not advance past an entry for the port it looks for; it is a \<open>partial_function\<close>, whose
  value is \<open>None\<close> where the code does not return.
\<close>

definition PORT_OPEN :: int where "PORT_OPEN = 0"
definition PORT_NOT_FOUND :: int where "PORT_NOT_FOUND = -1"

record real_port =
  rp_vmID :: int
  rp_user :: int
  rPort :: int
  rp_operation :: int

record port_entry =
  vPort :: int
  rPorts :: "real_port list"

record port_table =
  ipNode :: string
  virtualPorts :: "port_entry list"

definition new_port_table :: "string \<Rightarrow> port_table" where
  "new_port_table ip_node = \<lparr>ipNode = ip_node, virtualPorts = []\<rparr>"

definition owned_by :: "int \<Rightarrow> int \<Rightarrow> real_port \<Rightarrow> bool" where
  "owned_by vm u r \<longleftrightarrow> rp_user r = u \<and> rp_vmID r = vm"

definition registerPort :: "int \<Rightarrow> int \<Rightarrow> int \<Rightarrow> int \<Rightarrow> int \<Rightarrow> port_table \<Rightarrow> port_table" where
  "registerPort rport vport user vm operation t =
     (let r = \<lparr>rp_vmID = vm, rp_user = user, rPort = rport, rp_operation = operation\<rparr>
      in if index_of (\<lambda>e. vPort e = vport) (virtualPorts t) \<noteq> None
         then t\<lparr>virtualPorts := update_first (\<lambda>e. vPort e = vport)
                  (\<lambda>e. e\<lparr>rPorts := rPorts e @ [r]\<rparr>) (virtualPorts t)\<rparr>
         else t\<lparr>virtualPorts := virtualPorts t @ [\<lparr>vPort = vport, rPorts = [r]\<rparr>]\<rparr>)"

fun real_port_loop :: "int \<Rightarrow> int \<Rightarrow> int \<Rightarrow> port_entry list \<Rightarrow> int option" where
  "real_port_loop vport vm u [] = None"
| "real_port_loop vport vm u (e # es) =
     (if vPort e = vport
      then (case find_first (owned_by vm u) (rPorts e) of
              Some r \<Rightarrow> Some (rPort r) | None \<Rightarrow> real_port_loop vport vm u es)
      else real_port_loop vport vm u es)"

definition getRealPort :: "int \<Rightarrow> int \<Rightarrow> int \<Rightarrow> port_table \<Rightarrow> int" where
  "getRealPort vport vm u t = (case real_port_loop vport vm u (virtualPorts t) of
     Some p \<Rightarrow> p | None \<Rightarrow> PORT_NOT_FOUND)"

definition getOpenRealPort :: "int \<Rightarrow> int \<Rightarrow> int \<Rightarrow> port_table \<Rightarrow> int" where
  "getOpenRealPort vport u vm t = (case find_first (\<lambda>e. vPort e = vport) (virtualPorts t) of
     None \<Rightarrow> PORT_NOT_FOUND
   | Some e \<Rightarrow> (case find_first (owned_by vm u) (rPorts e) of
       None \<Rightarrow> PORT_NOT_FOUND
     | Some r \<Rightarrow> if rp_operation r = PORT_OPEN then rPort r else PORT_NOT_FOUND))"

definition freeVMPorts :: "int \<Rightarrow> int \<Rightarrow> port_table \<Rightarrow> port_table" where
  "freeVMPorts vm u t = t\<lparr>virtualPorts :=
     map (\<lambda>e. e\<lparr>rPorts := filter (\<lambda>r. \<not> owned_by vm u r) (rPorts e)\<rparr>) (virtualPorts t)\<rparr>"

text \<open>The inner loop of \<^verbatim>\<open>freePort\<close>: the first port of the machine is noted and erased.\<close>

definition free_in_entry :: "int \<Rightarrow> int \<Rightarrow> bool \<times> int \<Rightarrow> port_entry \<Rightarrow> (bool \<times> int) \<times> port_entry" where
  "free_in_entry vm u acc e =
     (if fst acc then (acc, e)
      else case find_first (owned_by vm u) (rPorts e) of
        None \<Rightarrow> (acc, e)
      | Some r \<Rightarrow> ((True, rPort r), e\<lparr>rPorts := remove_first (owned_by vm u) (rPorts e)\<rparr>))"

partial_function (option) free_loop ::
  "nat \<Rightarrow> int \<Rightarrow> int \<Rightarrow> int \<Rightarrow> bool \<times> int \<Rightarrow> port_table \<Rightarrow> (int \<times> port_table) option" where
  "free_loop i vm u vport acc t =
     (if i < length (virtualPorts t)
      then (let e = virtualPorts t ! i in
            if vPort e = vport
            then (let (acc', e') = free_in_entry vm u acc e
                  in free_loop i vm u vport acc' (t\<lparr>virtualPorts := (virtualPorts t)[i := e']\<rparr>))
            else free_loop (Suc i) vm u vport acc t)
      else Some (if fst acc then snd acc else -1, t))"

definition freePort :: "int \<Rightarrow> int \<Rightarrow> int \<Rightarrow> port_table \<Rightarrow> (int \<times> port_table) option" where
  "freePort vm u virtualPort t = free_loop 0 vm u virtualPort (False, -1) t"

subsection \<open>Registration and lookup\<close>

definition vports :: "port_table \<Rightarrow> int list" where
  "vports t = map vPort (virtualPorts t)"

lemma vports_register:
  "vports (registerPort r v u m op t) = (if v \<in> set (vports t) then vports t else vports t @ [v])"
proof -
  have "map vPort (update_first P (\<lambda>e. e\<lparr>rPorts := f e\<rparr>) es) = map vPort es" for P f and es :: "port_entry list"
    by (rule map_update_first) simp
  moreover have "index_of (\<lambda>e. vPort e = v) (virtualPorts t) = None \<longleftrightarrow> v \<notin> set (vports t)"
    by (auto simp: index_of_None vports_def)
  ultimately show ?thesis by (auto simp: registerPort_def Let_def vports_def)
qed

lemma real_port_append_entry:
  "real_port_loop v m u (es @ [\<lparr>vPort = w, rPorts = [r]\<rparr>]) =
   (case real_port_loop v m u es of Some p \<Rightarrow> Some p
    | None \<Rightarrow> if w = v \<and> owned_by m u r then Some (rPort r) else None)"
  by (induction es) (auto split: option.split)

lemma real_port_other:
  "v \<noteq> w \<Longrightarrow> real_port_loop v m u (update_first (\<lambda>e. vPort e = w) (\<lambda>e. e\<lparr>rPorts := f e\<rparr>) es) =
   real_port_loop v m u es"
  by (induction es) (auto split: option.split)

lemma real_port_update:
  assumes "distinct (map vPort es)" "v \<in> vPort ` set es"
  shows "real_port_loop v m u (update_first (\<lambda>e. vPort e = v) (\<lambda>e. e\<lparr>rPorts := rPorts e @ [r]\<rparr>) es) =
   (case real_port_loop v m u es of Some p \<Rightarrow> Some p
    | None \<Rightarrow> if owned_by m u r then Some (rPort r) else None)"
  using assms
proof (induction es)
  case (Cons e es)
  show ?case
  proof (cases "vPort e = v")
    case True
    then have "real_port_loop v m u es = None"
      using Cons.prems(1) by (induction es) auto
    with True show ?thesis by (auto simp: find_first_append split: option.split)
  next
    case False
    with Cons show ?thesis by auto
  qed
qed simp

lemma register_lookup:
  assumes "distinct (vports t)"
  shows "real_port_loop v' m' u' (virtualPorts (registerPort r v u m op t)) =
    (case real_port_loop v' m' u' (virtualPorts t) of Some p \<Rightarrow> Some p
     | None \<Rightarrow> if v' = v \<and> m' = m \<and> u' = u then Some r else None)"
proof (cases "index_of (\<lambda>e. vPort e = v) (virtualPorts t) = None")
  case True
  then show ?thesis
    by (simp add: registerPort_def real_port_append_entry owned_by_def split: option.split) blast
next
  case False
  then have "v \<in> vPort ` set (virtualPorts t)" by (auto simp: index_of_None)
  then show ?thesis
  proof (cases "v' = v")
    case True
    with False \<open>v \<in> _\<close> assms show ?thesis
      using real_port_update[of "virtualPorts t" v m' u' "\<lparr>rp_vmID = m, rp_user = u, rPort = r, rp_operation = op\<rparr>"]
      by (auto simp: registerPort_def vports_def owned_by_def split: option.split)
  next
    case neq: False
    with False show ?thesis by (simp add: registerPort_def real_port_other split: option.split)
  qed
qed

lemma find_first_filter_not: "find_first P (filter (\<lambda>x. \<not> P x) xs) = None"
  by (induction xs) auto

lemma find_first_filter_other:
  "(\<And>x. P x \<Longrightarrow> Q x) \<Longrightarrow> find_first P (filter Q xs) = find_first P xs"
  by (induction xs) auto

lemma freeVM_lookup:
  "real_port_loop v m' u' (virtualPorts (freeVMPorts m u t)) =
   (if m' = m \<and> u' = u then None else real_port_loop v m' u' (virtualPorts t))"
proof -
  have same: "find_first (owned_by m u) (filter (\<lambda>r. \<not> owned_by m u r) rs) = None" for rs
    by (rule find_first_filter_not)
  have other: "find_first (owned_by m' u') (filter (\<lambda>r. \<not> owned_by m u r) rs) = find_first (owned_by m' u') rs"
    if "\<not> (m' = m \<and> u' = u)" for rs
    using that by (intro find_first_filter_other) (auto simp: owned_by_def)
  have "real_port_loop v m' u' (map (\<lambda>e. e\<lparr>rPorts := filter (\<lambda>r. \<not> owned_by m u r) (rPorts e)\<rparr>) es) =
     (if m' = m \<and> u' = u then None else real_port_loop v m' u' es)" for es
    by (induction es) (auto simp: same other split: option.split)
  then show ?thesis by (simp add: freeVMPorts_def)
qed

subsection \<open>When freePort returns\<close>

lemma free_entry_vPort: "vPort (snd (free_in_entry m u acc e)) = vPort e"
  by (auto simp: free_in_entry_def split: option.split)

lemma free_loop_returns:
  assumes "free_loop i m u v acc t = Some y"
  shows "\<forall>j\<ge>i. j < length (virtualPorts t) \<longrightarrow> vPort (virtualPorts t ! j) \<noteq> v"
  using assms
proof (induction rule: free_loop.raw_induct[rotated, consumes 1, case_names step])
  case (step loop i m u v acc t y)
  show ?case
  proof (cases "i < length (virtualPorts t)")
    case in_range: True
    let ?e = "virtualPorts t ! i"
    show ?thesis
    proof (cases "vPort ?e = v")
      case True
      let ?r = "free_in_entry m u acc ?e"
      let ?t = "t\<lparr>virtualPorts := (virtualPorts t)[i := snd ?r]\<rparr>"
      have "loop i m u v (fst ?r) ?t = Some y"
        using step(2) in_range True by (simp add: Let_def case_prod_unfold)
      from step(1)[OF this, rule_format, of i] have "vPort (virtualPorts ?t ! i) \<noteq> v"
        using in_range by simp
      then show ?thesis using in_range True by (simp add: free_entry_vPort)
    next
      case False
      then have "loop (Suc i) m u v acc t = Some y" using step(2) in_range by (simp add: Let_def)
      from step(1)[OF this] False show ?thesis using Suc_le_eq le_neq_implies_less by blast
    qed
  qed simp
qed

lemma free_loop_absent:
  assumes "\<forall>j\<ge>i. j < length (virtualPorts t) \<longrightarrow> vPort (virtualPorts t ! j) \<noteq> v" "i \<le> length (virtualPorts t)"
  shows "free_loop i m u v acc t = Some (if fst acc then snd acc else -1, t)"
  using assms
proof (induction "length (virtualPorts t) - i" arbitrary: i)
  case 0
  then show ?case by (subst free_loop.simps) simp
next
  case (Suc n)
  then have "free_loop (Suc i) m u v acc t = Some (if fst acc then snd acc else -1, t)"
    by (intro Suc.hyps) auto
  with Suc show ?case by (subst free_loop.simps) (simp add: Let_def)
qed

lemma freePort_result:
  "freePort m u v t = (if v \<in> set (vports t) then None else Some (-1, t))"
proof (cases "v \<in> set (vports t)")
  case True
  then obtain j where "j < length (virtualPorts t)" "vPort (virtualPorts t ! j) = v"
    by (auto simp: vports_def in_set_conv_nth)
  then have "free_loop 0 m u v (False, - 1) t \<noteq> Some y" for y
    using free_loop_returns[of 0 m u v "(False, - 1)" t y] by auto
  with True show ?thesis by (cases "freePort m u v t") (auto simp: freePort_def)
next
  case False
  then have "\<forall>j<length (virtualPorts t). vPort (virtualPorts t ! j) \<noteq> v"
    by (auto simp: vports_def)
  then have "free_loop 0 m u v (False, - 1) t = Some (- 1, t)"
    using free_loop_absent[of 0 t v m u "(False, - 1)"] by simp
  with False show ?thesis by (simp add: freePort_def)
qed

end
