(* ===== verification/NetworkManager.thy ===== *)
theory NetworkManager imports VirtualIP PortTables begin

text \<open>
  \<^verbatim>\<open>NetworkManager\<close> (\<^verbatim>\<open>src/src/Management/NetworkManager/NetworkManager.cc\<close>): the virtual
  addresses of the machines of every user (\<open>ipsCloud\<close>) and, per node, its table of ports
  (\<open>ports_per_node\<close>).  A pointer into \<open>ports_per_node\<close> is its position.  Addresses are compared
  component by component, which is a partial order on \<open>octets\<close>.
\<close>

instantiation octets :: order
begin

fun less_eq_octets :: "octets \<Rightarrow> octets \<Rightarrow> bool" where
  "less_eq_octets (Octets a b c d) (Octets a' b' c' d') \<longleftrightarrow> a \<le> a' \<and> b \<le> b' \<and> c \<le> c' \<and> d \<le> d'"

definition less_octets :: "octets \<Rightarrow> octets \<Rightarrow> bool" where
  "less_octets x y \<longleftrightarrow> x \<le> y \<and> \<not> y \<le> x"

instance
proof
  fix x y z :: octets
  show "x < y \<longleftrightarrow> x \<le> y \<and> \<not> y \<le> x" by (simp add: less_octets_def)
  show "x \<le> x" by (cases x) simp
  show "x \<le> y \<Longrightarrow> y \<le> z \<Longrightarrow> x \<le> z" by (cases x; cases y; cases z) auto
  show "x \<le> y \<Longrightarrow> y \<le> x \<Longrightarrow> x = y" by (cases x; cases y) auto
qed

end

record user_ips =
  userID :: int
  vipCells :: "vip_cell list"
  holesIP :: "string list"
  lastIP :: string

record network_manager =
  ipsCloud :: "user_ips list"
  ipBasis :: string
  ports_per_node :: "port_table list"

definition nm_initialize :: network_manager where
  "nm_initialize = \<lparr>ipsCloud = [], ipBasis = [], ports_per_node = []\<rparr>"

subsection \<open>Users and their addresses\<close>

definition createNewUser :: "int \<Rightarrow> network_manager \<Rightarrow> network_manager" where
  "createNewUser newUserID nm = nm\<lparr>ipsCloud := ipsCloud nm @
     [\<lparr>userID = newUserID, vipCells = [], holesIP = [], lastIP = ipBasis nm\<rparr>]\<rparr>"

definition deleteUser :: "int \<Rightarrow> network_manager \<Rightarrow> network_manager" where
  "deleteUser u nm = nm\<lparr>ipsCloud := remove_first (\<lambda>x. userID x = u) (ipsCloud nm)\<rparr>"

definition setIPBasis :: "string \<Rightarrow> network_manager \<Rightarrow> network_manager" where
  "setIPBasis ip nm = nm\<lparr>ipBasis := ip\<rparr>"

definition newVIP :: "string \<Rightarrow> user_ips \<Rightarrow> (string \<times> user_ips) res" where
  "newVIP basis user =
     (if holesIP user \<noteq> [] then Ok (hd (holesIP user), user\<lparr>holesIP := tl (holesIP user)\<rparr>)
      else if basis = lastIP user then
        bind_res (setVirtualIP basis new_virtual_ip) (\<lambda>vip.
          let ip = fst (incVirtualIP vip) in Ok (ip, user\<lparr>lastIP := ip\<rparr>))
      else
        bind_res (setVirtualIP (lastIP user) new_virtual_ip) (\<lambda>vip.
          let ip = fst (incVirtualIP vip) in Ok (ip, user\<lparr>lastIP := ip\<rparr>)))"

fun allocate_loop :: "string \<Rightarrow> string \<Rightarrow> int \<Rightarrow> int \<Rightarrow> user_ips list \<Rightarrow> (string \<times> user_ips list) res" where
  "allocate_loop basis node u vm [] = Ok ([], [])"
| "allocate_loop basis node u vm (x # xs) =
     (if userID x = u then
        bind_res (newVIP basis x) (\<lambda>(virtualIP, x).
        bind_res (cell_setVirtualIP virtualIP (new_vip_cell\<lparr>cell_ipNode := node\<rparr>)) (\<lambda>c.
          Ok (virtualIP, x\<lparr>vipCells := vipCells x @ [c\<lparr>cell_vmID := vm\<rparr>]\<rparr> # xs)))
      else bind_res (allocate_loop basis node u vm xs) (\<lambda>(v, ys). Ok (v, x # ys)))"

definition allocateVirtualIP ::
  "string \<Rightarrow> int \<Rightarrow> int \<Rightarrow> network_manager \<Rightarrow> (string \<times> network_manager) res" where
  "allocateVirtualIP node u vm nm =
     bind_res (allocate_loop (ipBasis nm) node u vm (ipsCloud nm)) (\<lambda>(v, us).
       Ok (v, nm\<lparr>ipsCloud := us\<rparr>))"

text \<open>Erase the first cell that satisfies \<open>P\<close> and keep its hole.\<close>

definition erase_cell :: "string \<Rightarrow> (vip_cell \<Rightarrow> bool) \<Rightarrow> vip_cell list \<Rightarrow> user_ips \<Rightarrow> (bool \<times> user_ips) res" where
  "erase_cell basis P cells x = (case find_first P cells of
     None \<Rightarrow> Ok (False, x)
   | Some c \<Rightarrow> bind_res (getHole basis c) (\<lambda>hole.
       Ok (True, x\<lparr>vipCells := remove_first P (vipCells x), holesIP := holesIP x @ [hole]\<rparr>)))"

fun erase_loop :: "(user_ips \<Rightarrow> (bool \<times> user_ips) res) \<Rightarrow> int \<Rightarrow> user_ips list \<Rightarrow> user_ips list res" where
  "erase_loop er u [] = Ok []"
| "erase_loop er u (x # xs) =
     (if userID x = u then
        bind_res (er x) (\<lambda>(found, x).
          if found then Ok (x # xs) else bind_res (erase_loop er u xs) (\<lambda>ys. Ok (x # ys)))
      else bind_res (erase_loop er u xs) (\<lambda>ys. Ok (x # ys)))"

text \<open>
  The inner loop of \<^verbatim>\<open>deleteVirtualIP_by_VIP\<close> runs from \<^verbatim>\<open>begin()\<close> to \<^verbatim>\<open>begin()\<close>: it looks at
  the first zero cells.
\<close>

definition deleteVirtualIP_by_VIP :: "string \<Rightarrow> int \<Rightarrow> network_manager \<Rightarrow> network_manager res" where
  "deleteVirtualIP_by_VIP virtualIP u nm =
     bind_res (erase_loop (\<lambda>x. erase_cell (ipBasis nm) (\<lambda>c. cell_getVirtualIP c = virtualIP)
                                 (take 0 (vipCells x)) x) u (ipsCloud nm))
       (\<lambda>us. Ok (nm\<lparr>ipsCloud := us\<rparr>))"

definition deleteVirtualIP_by_VMID :: "int \<Rightarrow> int \<Rightarrow> network_manager \<Rightarrow> network_manager res" where
  "deleteVirtualIP_by_VMID vm u nm =
     bind_res (erase_loop (\<lambda>x. erase_cell (ipBasis nm) (\<lambda>c. cell_vmID c = vm) (vipCells x) x)
                 u (ipsCloud nm))
       (\<lambda>us. Ok (nm\<lparr>ipsCloud := us\<rparr>))"

definition user_cells :: "int \<Rightarrow> network_manager \<Rightarrow> vip_cell list" where
  "user_cells u nm = (case find_first (\<lambda>x. userID x = u) (ipsCloud nm) of
     None \<Rightarrow> [] | Some x \<Rightarrow> vipCells x)"

definition searchNodeIP :: "string \<Rightarrow> int \<Rightarrow> network_manager \<Rightarrow> string" where
  "searchNodeIP virtualIP u nm =
     (case find_first (\<lambda>c. cell_getVirtualIP c = virtualIP) (user_cells u nm) of
        None \<Rightarrow> [] | Some c \<Rightarrow> cell_ipNode c)"

text \<open>
  \<^verbatim>\<open>changeNodeIP\<close> returns the last virtual address it compared with: the given one when it is
  there, otherwise that of the last cell of the user.
\<close>

definition changeNodeIP :: "string \<Rightarrow> int \<Rightarrow> string \<Rightarrow> network_manager \<Rightarrow> string \<times> network_manager" where
  "changeNodeIP virtualIP u node nm =
     (let P = (\<lambda>c. cell_getVirtualIP c = virtualIP) in
      case find_first (\<lambda>x. userID x = u) (ipsCloud nm) of
        None \<Rightarrow> ([], nm)
      | Some x \<Rightarrow>
         (if find_first P (vipCells x) \<noteq> None then virtualIP
          else if vipCells x = [] then [] else cell_getVirtualIP (last (vipCells x)),
          nm\<lparr>ipsCloud := update_first (\<lambda>x. userID x = u)
               (\<lambda>x. x\<lparr>vipCells := update_first P (\<lambda>c. c\<lparr>cell_ipNode := node\<rparr>) (vipCells x)\<rparr>)
               (ipsCloud nm)\<rparr>))"

definition checkVMIP :: "string \<Rightarrow> string \<Rightarrow> int \<Rightarrow> network_manager \<Rightarrow> bool" where
  "checkVMIP virtualIP node u nm \<longleftrightarrow>
     list_ex (\<lambda>x. userID x = u \<and>
       list_ex (\<lambda>c. cell_getVirtualIP c = virtualIP \<and> cell_ipNode c = node) (vipCells x)) (ipsCloud nm)"

definition getUserIPSize :: "network_manager \<Rightarrow> nat" where
  "getUserIPSize nm = length (ipsCloud nm)"

definition searchVMIP :: "int \<Rightarrow> int \<Rightarrow> network_manager \<Rightarrow> string" where
  "searchVMIP u vm nm = (case find_first (\<lambda>c. cell_vmID c = vm) (user_cells u nm) of
     None \<Rightarrow> [] | Some c \<Rightarrow> cell_getVirtualIP c)"

definition getVMid :: "string \<Rightarrow> int \<Rightarrow> network_manager \<Rightarrow> int" where
  "getVMid virtualIP u nm =
     (case find_first (\<lambda>c. cell_getVirtualIP c = virtualIP) (user_cells u nm) of
        None \<Rightarrow> -1 | Some c \<Rightarrow> cell_vmID c)"

subsection \<open>The nodes and their ports\<close>

definition isMajorIP :: "string \<Rightarrow> string \<Rightarrow> bool res" where
  "isMajorIP a b = bind_res (scan_octets a) (\<lambda>x. bind_res (scan_octets b) (\<lambda>y. Ok (y \<le> x)))"

fun insert_node :: "port_table \<Rightarrow> port_table list \<Rightarrow> port_table list res" where
  "insert_node t [] = Ok [t]"
| "insert_node t (x # xs) =
     bind_res (isMajorIP (ipNode t) (ipNode x)) (\<lambda>major.
       if \<not> major then Ok (t # x # xs)
       else bind_res (insert_node t xs) (\<lambda>ys. Ok (x # ys)))"

definition registerNode :: "string \<Rightarrow> network_manager \<Rightarrow> network_manager res" where
  "registerNode nodeIP nm =
     bind_res (insert_node (new_port_table nodeIP) (ports_per_node nm)) (\<lambda>ps.
       Ok (nm\<lparr>ports_per_node := ps\<rparr>))"

text \<open>
  The search loop of \<^verbatim>\<open>getNodeFromPortsTable\<close>; its counter stops it after as many rounds as there
  are nodes, which is the fuel.  \<open>None\<close> is the end of the loop with nothing found.
\<close>

fun node_loop :: "nat \<Rightarrow> nat \<Rightarrow> nat \<Rightarrow> string \<Rightarrow> port_table list \<Rightarrow> nat option res" where
  "node_loop 0 lower higher nodeIP ps = Ok None"
| "node_loop (Suc n) lower higher nodeIP ps =
     (if higher = 0 then Ok None
      else if higher = lower then Fail Undefined
      else let medium = (higher - lower) div 2; i = medium + lower in
        if length ps \<le> i then Fail Undefined
        else let testing = ipNode (ps ! i) in
          if testing = nodeIP then Ok (Some i)
          else bind_res (isMajorIP testing nodeIP) (\<lambda>major.
            if major then node_loop n lower (higher - medium) nodeIP ps
            else node_loop n (lower + medium) higher nodeIP ps))"

fun last_index_of :: "('a \<Rightarrow> bool) \<Rightarrow> 'a list \<Rightarrow> nat option" where
  "last_index_of P [] = None"
| "last_index_of P (x # xs) = (case last_index_of P xs of
     Some i \<Rightarrow> Some (Suc i) | None \<Rightarrow> if P x then Some 0 else None)"

definition getNodeFromPortsTable :: "string \<Rightarrow> network_manager \<Rightarrow> nat res" where
  "getNodeFromPortsTable nodeIP nm =
     (let ps = ports_per_node nm in
      if length ps = 1 then Ok 0
      else bind_res (node_loop (length ps) 0 (length ps) nodeIP ps) (\<lambda>r. case r of
        Some i \<Rightarrow> Ok i
      | None \<Rightarrow> (case last_index_of (\<lambda>t. ipNode t = nodeIP) ps of
            Some i \<Rightarrow> Ok i | None \<Rightarrow> Fail (Thrown ''getNodeFromPortsTable''))))"

definition change_node :: "nat \<Rightarrow> port_table \<Rightarrow> network_manager \<Rightarrow> network_manager" where
  "change_node i t nm = nm\<lparr>ports_per_node := (ports_per_node nm)[i := t]\<rparr>"

definition nm_registerPort ::
  "int \<Rightarrow> string \<Rightarrow> int \<Rightarrow> int \<Rightarrow> int \<Rightarrow> int \<Rightarrow> network_manager \<Rightarrow> network_manager res" where
  "nm_registerPort user node vm realPort virtualPort operation nm =
     bind_res (getNodeFromPortsTable node nm) (\<lambda>i.
       Ok (change_node i (registerPort realPort virtualPort user vm operation (ports_per_node nm ! i)) nm))"

definition nm_getRealPort :: "string \<Rightarrow> int \<Rightarrow> int \<Rightarrow> int \<Rightarrow> network_manager \<Rightarrow> int res" where
  "nm_getRealPort destinationIP virtualPort destinationUser vm nm =
     bind_res (getNodeFromPortsTable destinationIP nm) (\<lambda>i.
       Ok (getRealPort virtualPort vm destinationUser (ports_per_node nm ! i)))"

definition freeAllPortsOfVM :: "string \<Rightarrow> int \<Rightarrow> int \<Rightarrow> network_manager \<Rightarrow> network_manager res" where
  "freeAllPortsOfVM node vm user nm =
     bind_res (getNodeFromPortsTable node nm) (\<lambda>i.
       Ok (change_node i (freeVMPorts vm user (ports_per_node nm ! i)) nm))"

text \<open>\<open>None\<close>: \<^verbatim>\<open>PortTable::freePort\<close> does not return.\<close>

definition freePortOfVM :: "string \<Rightarrow> int \<Rightarrow> int \<Rightarrow> int \<Rightarrow> network_manager \<Rightarrow> network_manager res option" where
  "freePortOfVM node vm user virtualPort nm = (case getNodeFromPortsTable node nm of
     Fail e \<Rightarrow> Some (Fail e)
   | Ok i \<Rightarrow> map_option (\<lambda>r. Ok (change_node i (snd r) nm))
       (freePort vm user virtualPort (ports_per_node nm ! i)))"

subsection \<open>Finding a node\<close>

definition scannable :: "string \<Rightarrow> bool" where
  "scannable s \<longleftrightarrow> res_ok (scan_octets s)"

lemma isMajorIP_ok: "scannable a \<Longrightarrow> scannable b \<Longrightarrow> \<exists>m. isMajorIP a b = Ok m"
  by (auto simp: scannable_def isMajorIP_def elim!: res_okE)

lemma node_loop_result:
  assumes "lower < higher" "higher \<le> length ps" "scannable nodeIP"
    "\<forall>t\<in>set ps. scannable (ipNode t)"
  shows "\<exists>r. node_loop n lower higher nodeIP ps = Ok r \<and>
    (\<forall>i. r = Some i \<longrightarrow> i < length ps \<and> ipNode (ps ! i) = nodeIP)"
  using assms(1,2)
proof (induction n arbitrary: lower higher)
  case (Suc n)
  define medium where "medium = (higher - lower) div 2"
  have b: "medium + lower < higher" "lower < higher - medium" using Suc.prems by (auto simp: medium_def)
  then have i: "medium + lower < length ps" using Suc.prems by simp
  obtain m where m: "isMajorIP (ipNode (ps ! (medium + lower))) nodeIP = Ok m"
    using isMajorIP_ok assms(3,4) i nth_mem by metis
  have "\<exists>r. (if m then node_loop n lower (higher - medium) nodeIP ps
             else node_loop n (lower + medium) higher nodeIP ps) = Ok r \<and>
    (\<forall>i. r = Some i \<longrightarrow> i < length ps \<and> ipNode (ps ! i) = nodeIP)"
    using Suc.IH[of lower "higher - medium"] Suc.IH[of "lower + medium" higher] Suc.prems b by auto
  then show ?case using Suc.prems i m by (simp add: Let_def medium_def[symmetric])
qed simp

lemma last_index_of_None: "last_index_of P xs = None \<longleftrightarrow> (\<forall>x\<in>set xs. \<not> P x)"
  by (induction xs) (auto split: option.splits if_splits)

lemma last_index_of_Some: "last_index_of P xs = Some i \<Longrightarrow> i < length xs \<and> P (xs ! i)"
  by (induction xs arbitrary: i) (auto split: option.splits if_splits)

lemma getNode_found:
  assumes "length (ports_per_node nm) \<noteq> 1" "scannable nodeIP"
    "\<forall>t\<in>set (ports_per_node nm). scannable (ipNode t)"
  shows "(nodeIP \<in> ipNode ` set (ports_per_node nm) \<longrightarrow>
      (\<exists>i. getNodeFromPortsTable nodeIP nm = Ok i \<and> i < length (ports_per_node nm)
         \<and> ipNode (ports_per_node nm ! i) = nodeIP))
    \<and> (nodeIP \<notin> ipNode ` set (ports_per_node nm) \<longrightarrow>
      getNodeFromPortsTable nodeIP nm = Fail (Thrown ''getNodeFromPortsTable''))"
proof -
  let ?ps = "ports_per_node nm"
  obtain r where r: "node_loop (length ?ps) 0 (length ?ps) nodeIP ?ps = Ok r"
    "\<forall>i. r = Some i \<longrightarrow> i < length ?ps \<and> ipNode (?ps ! i) = nodeIP"
  proof (cases "?ps = []")
    case True
    then show ?thesis using that[of None] by simp
  next
    case False
    then show ?thesis using node_loop_result[of 0 "length ?ps" ?ps nodeIP "length ?ps"] assms that by auto
  qed
  show ?thesis
  proof (cases r)
    case (Some i)
    then have "i < length ?ps" "ipNode (?ps ! i) = nodeIP" using r(2) by simp_all
    with Some r(1) assms(1) show ?thesis by (auto simp: getNodeFromPortsTable_def image_iff)
  next
    case None
    then show ?thesis
    proof (cases "last_index_of (\<lambda>t. ipNode t = nodeIP) ?ps")
      case (Some i)
      from last_index_of_Some[OF this] Some None r(1) assms(1) show ?thesis
        by (auto simp: getNodeFromPortsTable_def image_iff)
    next
      case no: None
      then have "nodeIP \<notin> ipNode ` set ?ps" by (auto simp: last_index_of_None)
      with no None r(1) assms(1) show ?thesis by (simp add: getNodeFromPortsTable_def)
    qed
  qed
qed

lemma getNode_single: "length (ports_per_node nm) = 1 \<Longrightarrow> getNodeFromPortsTable nodeIP nm = Ok 0"
  by (simp add: getNodeFromPortsTable_def)

text \<open>The position of a node depends on the addresses of the nodes only.\<close>

lemma node_loop_cong:
  "map ipNode ps = map ipNode qs \<Longrightarrow> node_loop n l h ip ps = node_loop n l h ip qs"
proof (induction n arbitrary: l h)
  case (Suc n)
  have len: "length ps = length qs" using Suc.prems by (rule map_eq_imp_length_eq)
  have "ipNode (ps ! i) = ipNode (qs ! i)" if "i < length qs" for i
    using that len Suc.prems by (metis nth_map)
  with Suc len show ?case by (auto simp: Let_def intro!: bind_res_cong)
qed simp

lemma last_index_cong:
  "map ipNode ps = map ipNode qs \<Longrightarrow>
   last_index_of (\<lambda>t. ipNode t = ip) ps = last_index_of (\<lambda>t. ipNode t = ip) qs"
proof (induction ps arbitrary: qs)
  case (Cons p ps)
  then show ?case by (cases qs) auto
qed simp

lemma getNode_cong:
  assumes "map ipNode (ports_per_node a) = map ipNode (ports_per_node b)"
  shows "getNodeFromPortsTable ip a = getNodeFromPortsTable ip b"
  using node_loop_cong[OF assms] last_index_cong[OF assms] map_eq_imp_length_eq[OF assms]
  by (simp add: getNodeFromPortsTable_def Let_def)

lemma ipNode_register [simp]: "ipNode (registerPort r v u m op t) = ipNode t"
  by (simp add: registerPort_def Let_def)

lemma change_node_ips:
  "ipNode t = ipNode (ports_per_node nm ! i) \<Longrightarrow> i < length (ports_per_node nm) \<Longrightarrow>
   map ipNode (ports_per_node (change_node i t nm)) = map ipNode (ports_per_node nm)"
  by (simp add: change_node_def map_update list_update_same_conv)

lemma node_loop_range:
  "node_loop n l h ip ps = Ok (Some i) \<Longrightarrow> i < length ps"
proof (induction n arbitrary: l h)
  case (Suc n)
  then show ?case by (auto simp: Let_def bind_res_Ok_iff split: if_split_asm)
qed simp

lemma getNode_range:
  "getNodeFromPortsTable ip nm = Ok i \<Longrightarrow> i < length (ports_per_node nm)"
  by (auto simp: getNodeFromPortsTable_def Let_def bind_res_Ok_iff dest: node_loop_range last_index_of_Some
      split: if_split_asm option.splits)

definition ports_ok :: "network_manager \<Rightarrow> bool" where
  "ports_ok nm \<longleftrightarrow> (\<forall>t\<in>set (ports_per_node nm). distinct (vports t))"

lemma register_keeps_ports_ok:
  "ports_ok nm \<Longrightarrow> nm_registerPort u node vm r v op nm = Ok nm' \<Longrightarrow> ports_ok nm'"
  by (auto simp: ports_ok_def nm_registerPort_def bind_res_Ok_iff change_node_def vports_register
      dest!: getNode_range set_update_subset_insert[THEN subsetD])

text \<open>
  The first registration for a user, a machine and a virtual port is the one that is looked up,
  until the ports of the machine are freed.
\<close>

definition registered :: "string \<Rightarrow> int \<Rightarrow> int \<Rightarrow> int \<Rightarrow> network_manager \<Rightarrow> int option res" where
  "registered node v u vm nm = bind_res (getNodeFromPortsTable node nm) (\<lambda>i.
     Ok (real_port_loop v vm u (virtualPorts (ports_per_node nm ! i))))"

lemma nm_getRealPort_registered:
  "nm_getRealPort node v u vm nm =
     bind_res (registered node v u vm nm) (\<lambda>r. Ok (case r of None \<Rightarrow> PORT_NOT_FOUND | Some p \<Rightarrow> p))"
  by (cases "getNodeFromPortsTable node nm") (simp_all add: nm_getRealPort_def registered_def getRealPort_def)

lemma register_registered:
  assumes "ports_ok nm" "nm_registerPort u node vm r v op nm = Ok nm'"
    "registered node v' u' vm' nm = Ok old"
  shows "registered node v' u' vm' nm' = Ok (case old of Some p \<Rightarrow> Some p
    | None \<Rightarrow> if v' = v \<and> vm' = vm \<and> u' = u then Some r else None)"
proof -
  from assms(2) obtain i where i: "getNodeFromPortsTable node nm = Ok i"
    "nm' = change_node i (registerPort r v u vm op (ports_per_node nm ! i)) nm"
    by (auto simp: nm_registerPort_def bind_res_Ok_iff)
  have len: "i < length (ports_per_node nm)" using getNode_range[OF i(1)] .
  have "getNodeFromPortsTable node nm' = getNodeFromPortsTable node nm"
    using change_node_ips[of "registerPort r v u vm op (ports_per_node nm ! i)" nm i] len i(2)
    by (intro getNode_cong) simp
  moreover have "distinct (vports (ports_per_node nm ! i))" using assms(1) len by (simp add: ports_ok_def)
  ultimately show ?thesis using i len assms(3)
    by (auto simp: registered_def change_node_def register_lookup)
qed

lemma free_registered:
  assumes "freeAllPortsOfVM node vm u nm = Ok nm'" "registered node v' u' vm' nm = Ok old"
  shows "registered node v' u' vm' nm' = Ok (if vm' = vm \<and> u' = u then None else old)"
proof -
  from assms(1) obtain i where i: "getNodeFromPortsTable node nm = Ok i"
    "nm' = change_node i (freeVMPorts vm u (ports_per_node nm ! i)) nm"
    by (auto simp: freeAllPortsOfVM_def bind_res_Ok_iff)
  have len: "i < length (ports_per_node nm)" using getNode_range[OF i(1)] .
  have "getNodeFromPortsTable node nm' = getNodeFromPortsTable node nm"
    using change_node_ips[of "freeVMPorts vm u (ports_per_node nm ! i)" nm i] len i(2)
    by (intro getNode_cong) (simp add: freeVMPorts_def)
  with i len assms(2) show ?thesis by (auto simp: registered_def change_node_def freeVM_lookup)
qed

lemma free_one_result:
  assumes "getNodeFromPortsTable node nm = Ok i"
  shows "freePortOfVM node vm u v nm =
    (if v \<in> set (vports (ports_per_node nm ! i)) then None else Some (Ok nm))"
  using assms getNode_range[OF assms] by (simp add: freePortOfVM_def freePort_result change_node_def)

subsection \<open>Handing out addresses\<close>

text \<open>A user whose last address is the printed \<open>v\<close> gets the next one.\<close>

lemma newVIP_next:
  assumes "holesIP x = []" "lastIP x = getVirtualIP v" "vip_ok v" "\<not> vip_last v"
  shows "newVIP basis x = Ok (getVirtualIP (snd (incVirtualIP v)),
     x\<lparr>lastIP := getVirtualIP (snd (incVirtualIP v))\<rparr>)"
proof -
  have "setVirtualIP (lastIP x) new_virtual_ip = Ok v"
    using set_get_roundtrip[OF assms(3), of new_virtual_ip] assms(2) by simp
  then show ?thesis using assms(1) inc_counts[OF assms(3,4)] by (simp add: newVIP_def Let_def)
qed

lemma cell_set_get:
  assumes "vip_ok w"
  shows "cell_setVirtualIP (getVirtualIP w) c = Ok (c\<lparr>cell_vip := w\<rparr>)"
  using set_get_roundtrip[OF assms, of "cell_vip c"] by (simp add: cell_setVirtualIP_def)

definition next_cell :: "virtual_ip \<Rightarrow> string \<Rightarrow> int \<Rightarrow> vip_cell" where
  "next_cell v node vm = \<lparr>cell_vip = snd (incVirtualIP v), cell_ipNode = node, cell_vmID = vm\<rparr>"

lemma allocate_next:
  assumes "find_first (\<lambda>x. userID x = u) us = Some x"
    "holesIP x = []" "lastIP x = getVirtualIP v" "vip_ok v" "\<not> vip_last v"
  shows "allocate_loop basis node u vm us = Ok (getVirtualIP (snd (incVirtualIP v)),
    update_first (\<lambda>x. userID x = u) (\<lambda>x. x\<lparr>lastIP := getVirtualIP (snd (incVirtualIP v)),
      vipCells := vipCells x @ [next_cell v node vm]\<rparr>) us)"
  using assms(1)
proof (induction us)
  case (Cons y ys)
  show ?case
  proof (cases "userID y = u")
    case True
    then have "y = x" using Cons.prems by simp
    with True newVIP_next[OF assms(2-5)] cell_set_get inc_counts[OF assms(4,5)] show ?thesis
      by (simp add: new_vip_cell_def next_cell_def)
  next
    case False
    with Cons show ?thesis by simp
  qed
qed simp

text \<open>A sequence of allocations for one user, with no deletion in between.\<close>

fun allocate_all :: "int \<Rightarrow> (string \<times> int) list \<Rightarrow> network_manager \<Rightarrow> (string list \<times> network_manager) res" where
  "allocate_all u [] nm = Ok ([], nm)"
| "allocate_all u ((node, vm) # rs) nm = bind_res (allocateVirtualIP node u vm nm) (\<lambda>(ip, nm).
     bind_res (allocate_all u rs nm) (\<lambda>(ips, nm). Ok (ip # ips, nm)))"

lemma allocate_all_counts:
  assumes "find_first (\<lambda>x. userID x = u) (ipsCloud nm) = Some x"
    "holesIP x = []" "lastIP x = getVirtualIP v" "vip_ok v"
    "\<forall>w\<in>set (butlast (v # count_up (length rs) v)). \<not> vip_last w"
  shows "\<exists>nm'. allocate_all u rs nm = Ok (map getVirtualIP (count_up (length rs) v), nm')"
  using assms
proof (induction rs arbitrary: nm x v)
  case (Cons r rs)
  obtain node vm where r: "r = (node, vm)" by (cases r) auto
  let ?w = "snd (incVirtualIP v)"
  let ?f = "\<lambda>x. x\<lparr>lastIP := getVirtualIP ?w, vipCells := vipCells x @ [next_cell v node vm]\<rparr>"
  have nl: "\<not> vip_last v" using Cons.prems(5) by (auto simp: Let_def)
  have a: "allocateVirtualIP node u vm nm =
    Ok (getVirtualIP ?w, nm\<lparr>ipsCloud := update_first (\<lambda>x. userID x = u) ?f (ipsCloud nm)\<rparr>)"
    using allocate_next[OF Cons.prems(1-4) nl] by (simp add: allocateVirtualIP_def)
  have "find_first (\<lambda>x. userID x = u) (update_first (\<lambda>x. userID x = u) ?f (ipsCloud nm)) = Some (?f x)"
    using Cons.prems(1) by (simp add: find_first_update_first)
  then have "\<exists>nm'. allocate_all u rs (nm\<lparr>ipsCloud := update_first (\<lambda>x. userID x = u) ?f (ipsCloud nm)\<rparr>) =
      Ok (map getVirtualIP (count_up (length rs) ?w), nm')"
    using Cons.prems inc_counts[OF Cons.prems(4) nl]
    by (intro Cons.IH[of _ "?f x"]) (auto simp: Let_def)
  then show ?case using a by (auto simp: r Let_def)
qed simp

subsection \<open>Holes\<close>

lemma delete_by_vip_nothing: "deleteVirtualIP_by_VIP ip u nm = Ok nm"
proof -
  have "erase_loop (\<lambda>x. erase_cell b P (take 0 (vipCells x)) x) u us = Ok us" for b P us
    by (induction us) (auto simp: erase_cell_def)
  then show ?thesis by (simp add: deleteVirtualIP_by_VIP_def)
qed

text \<open>
  Deleting the first machine of a user and allocating again hands out the difference of the freed
  address to the basis, not the freed address.
\<close>

lemma hole_is_difference:
  assumes "ipsCloud nm = x # us" "userID x = u" "vipCells x = c # cs" "cell_vmID c = vm"
    "holesIP x = []" "stringTovirtualIP (ipBasis nm) = Ok (Octets a b d e)"
    and "vip_ok w" "cell_vip c = w"
    and "vip_octet (first w - a)" "vip_octet (second w - b)" "vip_octet (third w - d)" "vip_octet (fourth w - e)"
  shows "\<exists>nm1 nm2. deleteVirtualIP_by_VMID vm u nm = Ok nm1 \<and>
    allocateVirtualIP node u vm' nm1 =
      Ok (virtualIPToString (first w - a) (second w - b) (third w - d) (fourth w - e), nm2)"
proof -
  let ?h = "virtualIPToString (first w - a) (second w - b) (third w - d) (fourth w - e)"
  define y where "y = x\<lparr>vipCells := cs, holesIP := [?h]\<rparr>"
  have d: "deleteVirtualIP_by_VMID vm u nm = Ok (nm\<lparr>ipsCloud := y # us\<rparr>)"
    using assms(1-6,8) by (simp add: deleteVirtualIP_by_VMID_def erase_cell_def getHole_def generateHole_def y_def)
  define g where "g = \<lparr>first = first w - a, second = second w - b, third = third w - d, fourth = fourth w - e\<rparr>"
  have g: "vip_ok g" "getVirtualIP g = ?h" using assms(9-12) by (simp_all add: g_def vip_ok_def getVirtualIP_def)
  have "newVIP (ipBasis nm) y = Ok (?h, y\<lparr>holesIP := []\<rparr>)" by (simp add: newVIP_def y_def)
  moreover have "\<exists>c'. cell_setVirtualIP ?h c0 = Ok c'" for c0
    using cell_set_get[OF g(1)] g(2) by auto
  ultimately have "\<exists>us'. allocate_loop (ipBasis nm) node u vm' (y # us) = Ok (?h, us')"
    using assms(2) by (auto simp: y_def) (metis bind_res.simps(1))
  then show ?thesis using d by (auto simp: allocateVirtualIP_def)
qed

end
