(* ===== verification/PortTranslation.thy ===== *)
theory PortTranslation imports Messages Pools begin

text \<open>
  Port address translation of a node (\<^verbatim>\<open>PAT/PortAddressTranslation.cc\<close>,
  \<^verbatim>\<open>Vm_VirtualPort_Cell.cc\<close>, \<^verbatim>\<open>User_VirtualPort_Cell.cc\<close> below
  \<^verbatim>\<open>src/src/Virtualization/Hypervisor/HypervisorManagers/H_NetworkManager/LocalNetManager\<close>): each
  virtual port of a machine of a user is mapped to a real port of the node.  The array
  \<^verbatim>\<open>freePorts\<close> has \<open>LAST_PORT\<close> cells, true for a port in use; a write or read outside of it is
  \<open>Undefined\<close>.  A NULL pointer to a user or machine is \<open>None\<close>.
\<close>

definition LAST_PORT :: int where "LAST_PORT = 65535"
definition REGISTERED_INITIAL_PORT :: int where "REGISTERED_INITIAL_PORT = 1024"

record port_structure =
  ps_rPort :: int
  ps_vPort :: int
  connectionID :: int

record vm_cell =
  vmIP :: string
  vmID :: int
  ports :: "port_structure list"

record user_cell =
  user :: int
  vm_ports :: "vm_cell list"

record pat =
  freePorts :: "int \<Rightarrow> bool"
  portHoles :: "int list"
  portPtr :: int
  user_vm_ports :: "user_cell list"

subsection \<open>The ports of a machine\<close>

definition new_vm_cell :: vm_cell where
  "new_vm_cell = \<lparr>vmIP = [], vmID = -1, ports = []\<rparr>"

definition vm_setPort :: "int \<Rightarrow> int \<Rightarrow> vm_cell \<Rightarrow> vm_cell" where
  "vm_setPort realPort virtualPort vm = vm\<lparr>ports := ports vm @
     [\<lparr>ps_rPort = realPort, ps_vPort = virtualPort, connectionID = -1\<rparr>]\<rparr>"

definition vm_setConnectionID :: "int \<Rightarrow> int \<Rightarrow> vm_cell \<Rightarrow> vm_cell" where
  "vm_setConnectionID realPort connID vm = vm\<lparr>ports :=
     update_first (\<lambda>p. ps_rPort p = realPort) (\<lambda>p. p\<lparr>connectionID := connID\<rparr>) (ports vm)\<rparr>"

definition vm_getVirtualPort :: "int \<Rightarrow> vm_cell \<Rightarrow> int" where
  "vm_getVirtualPort realPort vm = (case find_first (\<lambda>p. ps_rPort p = realPort) (ports vm) of
     None \<Rightarrow> -1 | Some p \<Rightarrow> ps_vPort p)"

definition vm_getRealPort :: "int \<Rightarrow> vm_cell \<Rightarrow> int" where
  "vm_getRealPort virtualPort vm = (case find_first (\<lambda>p. ps_vPort p = virtualPort) (ports vm) of
     None \<Rightarrow> -1 | Some p \<Rightarrow> ps_rPort p)"

text \<open>The result of \<^verbatim>\<open>getConnectionID\<close> is uninitialised when there is no such port.\<close>

definition vm_getConnectionID :: "int \<Rightarrow> vm_cell \<Rightarrow> int res" where
  "vm_getConnectionID virtualPort vm = (case find_first (\<lambda>p. ps_vPort p = virtualPort) (ports vm) of
     None \<Rightarrow> Fail Undefined | Some p \<Rightarrow> Ok (connectionID p))"

definition getAllRPorts :: "vm_cell \<Rightarrow> int list" where
  "getAllRPorts vm = map ps_rPort (filter (\<lambda>p. connectionID p > -1) (ports vm))"

definition getAllConnectionIDs :: "vm_cell \<Rightarrow> int list" where
  "getAllConnectionIDs vm = filter (\<lambda>c. c > -1) (map connectionID (ports vm))"

definition deletePort_byConnectionID :: "int \<Rightarrow> vm_cell \<Rightarrow> vm_cell" where
  "deletePort_byConnectionID connID vm =
     vm\<lparr>ports := remove_first (\<lambda>p. connectionID p = connID) (ports vm)\<rparr>"

definition deletePort_byRPort :: "int \<Rightarrow> vm_cell \<Rightarrow> vm_cell" where
  "deletePort_byRPort realPort vm = vm\<lparr>ports := remove_first (\<lambda>p. ps_rPort p = realPort) (ports vm)\<rparr>"

definition deletePort_byVPort :: "int \<Rightarrow> vm_cell \<Rightarrow> vm_cell" where
  "deletePort_byVPort virtualPort vm = vm\<lparr>ports := remove_first (\<lambda>p. ps_vPort p = virtualPort) (ports vm)\<rparr>"

subsection \<open>The machines of a user\<close>

definition searchVM :: "int \<Rightarrow> user_cell \<Rightarrow> vm_cell option" where
  "searchVM vm u = find_first (\<lambda>c. vmID c = vm) (vm_ports u)"

definition newVM :: "int \<Rightarrow> user_cell \<Rightarrow> user_cell" where
  "newVM vm u = u\<lparr>vm_ports := vm_ports u @ [new_vm_cell\<lparr>vmID := vm\<rparr>]\<rparr>"

definition eraseVM :: "int \<Rightarrow> user_cell \<Rightarrow> user_cell" where
  "eraseVM vm u = u\<lparr>vm_ports := remove_first (\<lambda>c. vmID c = vm) (vm_ports u)\<rparr>"

definition getVM_Size :: "user_cell \<Rightarrow> nat" where
  "getVM_Size u = length (vm_ports u)"

subsection \<open>The table\<close>

definition pat_new :: pat where
  "pat_new = \<lparr>freePorts = (\<lambda>i. False), portHoles = [], portPtr = REGISTERED_INITIAL_PORT, user_vm_ports = []\<rparr>"

definition pat_searchUser :: "int \<Rightarrow> pat \<Rightarrow> user_cell option" where
  "pat_searchUser uId s = find_first (\<lambda>c. user c = uId) (user_vm_ports s)"

definition pat_newUser :: "int \<Rightarrow> pat \<Rightarrow> pat" where
  "pat_newUser uId s = s\<lparr>user_vm_ports := user_vm_ports s @ [\<lparr>user = uId, vm_ports = []\<rparr>]\<rparr>"

definition pat_deleteUser :: "int \<Rightarrow> pat \<Rightarrow> pat" where
  "pat_deleteUser uId s = s\<lparr>user_vm_ports := remove_first (\<lambda>c. user c = uId) (user_vm_ports s)\<rparr>"

definition change_user :: "int \<Rightarrow> (user_cell \<Rightarrow> user_cell) \<Rightarrow> pat \<Rightarrow> pat" where
  "change_user uId f s = s\<lparr>user_vm_ports := update_first (\<lambda>c. user c = uId) f (user_vm_ports s)\<rparr>"

definition change_vm :: "int \<Rightarrow> int \<Rightarrow> (vm_cell \<Rightarrow> vm_cell) \<Rightarrow> pat \<Rightarrow> pat" where
  "change_vm uId pId f = change_user uId (\<lambda>u. u\<lparr>vm_ports := update_first (\<lambda>c. vmID c = pId) f (vm_ports u)\<rparr>)"

definition in_array :: "int \<Rightarrow> bool" where
  "in_array i \<longleftrightarrow> 0 \<le> i \<and> i < LAST_PORT"

function next_free :: "(int \<Rightarrow> bool) \<Rightarrow> int \<Rightarrow> int res" where
  "next_free busy p = (if \<not> in_array p then Fail Undefined
     else if busy p then next_free busy (p + 1) else Ok p)"
  by pat_completeness auto
termination by (relation "measure (\<lambda>(b, p). nat (LAST_PORT - p))") (auto simp: in_array_def)

declare next_free.simps [simp del]

definition getNewPort :: "pat \<Rightarrow> (int \<times> pat) res" where
  "getNewPort s =
     bind_res
       (case portHoles s of
          p # hs \<Rightarrow> Ok (p, s\<lparr>portHoles := hs\<rparr>)
        | [] \<Rightarrow> if portPtr s = LAST_PORT then Fail (Thrown ''getNewPort'')
                else bind_res (next_free (freePorts s) (portPtr s)) (\<lambda>p.
                       Ok (p, s\<lparr>portPtr := p + 1\<rparr>)))
       (\<lambda>(port, s). if in_array port then Ok (port, s\<lparr>freePorts := (freePorts s)(port := True)\<rparr>)
                    else Fail Undefined)"

definition pat_freePort :: "int \<Rightarrow> pat \<Rightarrow> pat res" where
  "pat_freePort port s =
     (if in_array port
      then Ok (s\<lparr>freePorts := (freePorts s)(port := False), portHoles := portHoles s @ [port]\<rparr>)
      else Fail Undefined)"

definition pat_initialize :: "string \<Rightarrow> pat \<Rightarrow> pat" where
  "pat_initialize nodeIP s =
     (let s = (if pat_searchUser 0 s \<noteq> None then pat_deleteUser 0 s else s);
          s = change_user 0 (newVM 0) (pat_newUser 0 s)
      in change_vm 0 0 (\<lambda>vm. vm\<lparr>vmIP := nodeIP\<rparr>) s)"

definition ensure_user :: "int \<Rightarrow> pat \<Rightarrow> pat" where
  "ensure_user uId s = (if pat_searchUser uId s = None then pat_newUser uId s else s)"

definition find_vm :: "int \<Rightarrow> int \<Rightarrow> pat \<Rightarrow> vm_cell option" where
  "find_vm uId pId s = Option.bind (pat_searchUser uId s) (searchVM pId)"

definition ensure_vm :: "int \<Rightarrow> int \<Rightarrow> pat \<Rightarrow> pat" where
  "ensure_vm uId pId s = (if find_vm uId pId s = None then change_user uId (newVM pId) s else s)"

definition pat_createVM :: "int \<Rightarrow> int \<Rightarrow> string \<Rightarrow> pat \<Rightarrow> pat res" where
  "pat_createVM uId pId ip s =
     (let s = ensure_user uId s in
      case find_vm uId pId s of
        None \<Rightarrow> Ok (change_vm uId pId (\<lambda>vm. vm\<lparr>vmIP := ip\<rparr>) (change_user uId (newVM pId) s))
      | Some vm \<Rightarrow> if vmIP vm \<noteq> ip then Fail (Thrown ''pat_createVM'') else Ok s)"

definition pat_createListen :: "int \<Rightarrow> int \<Rightarrow> int \<Rightarrow> pat \<Rightarrow> (int \<times> pat) res" where
  "pat_createListen uId pId virtualPort s =
     (let s = ensure_vm uId pId (ensure_user uId s) in
      bind_res (getNewPort s) (\<lambda>(realPort, s).
        Ok (realPort, change_vm uId pId (vm_setPort realPort virtualPort) s)))"

text \<open>The user and machine a message belongs to, with the errors the handlers share.\<close>

definition message_vm :: "message \<Rightarrow> pat \<Rightarrow> vm_cell res" where
  "message_vm sm s = (case pat_searchUser (uid sm) s of
     None \<Rightarrow> Fail (Thrown ''no user'')
   | Some u \<Rightarrow> (case searchVM (pid sm) u of None \<Rightarrow> Fail (Thrown ''no vm'') | Some vm \<Rightarrow> Ok vm))"

definition net_of :: "message \<Rightarrow> net_fields res" where
  "net_of sm = (case cast_net sm of None \<Rightarrow> Fail (Thrown ''check_and_cast'') | Some n \<Rightarrow> Ok n)"

definition set_net :: "net_fields \<Rightarrow> message \<Rightarrow> message" where
  "set_net n sm = sm\<lparr>payload := NetPayload n\<rparr>"

definition pat_arrivesIncomingConnection :: "message \<Rightarrow> pat \<Rightarrow> (message \<times> pat) res" where
  "pat_arrivesIncomingConnection sm s =
     bind_res (net_of sm) (\<lambda>n.
     bind_res (message_vm sm s) (\<lambda>_.
       let s = change_vm (uid sm) (pid sm) (vm_setConnectionID (localPort n) (connectionId sm)) s in
     bind_res (message_vm sm s) (\<lambda>vm.
       let virtualPort = localPort n; realPort = vm_getRealPort virtualPort vm
       in Ok (set_net (n\<lparr>localPort := realPort, virtual_localPort := virtualPort\<rparr>) sm, s))))"

definition pat_connectionStablished :: "message \<Rightarrow> pat \<Rightarrow> (int \<times> pat) res" where
  "pat_connectionStablished sm s =
     bind_res (net_of sm) (\<lambda>n.
       let s = ensure_vm (uid sm) (pid sm) (ensure_user (uid sm) s); realPort = localPort n in
       if \<not> in_array realPort then Fail Undefined
       else Ok (realPort,
         change_vm (uid sm) (pid sm)
           (\<lambda>vm. vm_setConnectionID realPort (connectionId sm) (vm_setPort realPort realPort vm))
           (s\<lparr>freePorts := (freePorts s)(realPort := True)\<rparr>)))"

definition pat_receiveMessage :: "message \<Rightarrow> pat \<Rightarrow> message res" where
  "pat_receiveMessage sm s =
     bind_res (net_of sm) (\<lambda>n. bind_res (message_vm sm s) (\<lambda>vm.
       let realPort = destinationPort n; virtualPort = vm_getVirtualPort realPort vm
       in Ok (set_net (n\<lparr>destinationPort := virtualPort, virtual_destinationPort := realPort\<rparr>) sm)))"

definition pat_sendMessage :: "message \<Rightarrow> pat \<Rightarrow> message res" where
  "pat_sendMessage sm s =
     bind_res (net_of sm) (\<lambda>n. bind_res (message_vm sm s) (\<lambda>vm.
       let virtualPort = localPort n; realPort = vm_getRealPort virtualPort vm
       in Ok (set_net (n\<lparr>localPort := realPort, virtual_localPort := virtualPort\<rparr>) sm)))"

definition pat_closeConnection :: "message \<Rightarrow> pat \<Rightarrow> (int \<times> message \<times> pat) res" where
  "pat_closeConnection sm s =
     bind_res (net_of sm) (\<lambda>n. bind_res (message_vm sm s) (\<lambda>vm.
       let virtualPort = localPort n in
     bind_res (vm_getConnectionID virtualPort vm) (\<lambda>connID.
       if connID \<noteq> connectionId sm then Fail (Thrown ''pat_closeConnection'')
       else let s = change_vm (uid sm) (pid sm) (deletePort_byConnectionID connID) s;
                realPort = vm_getRealPort virtualPort (deletePort_byConnectionID connID vm)
     in bind_res (pat_freePort realPort s) (\<lambda>s.
       let s = s\<lparr>portHoles := portHoles s @ [realPort]\<rparr> in
         Ok (realPort, set_net (n\<lparr>localPort := realPort, virtual_localPort := virtualPort\<rparr>) sm, s)))))"

definition pat_closeVM :: "int \<Rightarrow> int \<Rightarrow> pat \<Rightarrow> (int list \<times> pat) res" where
  "pat_closeVM uId pId s = (case pat_searchUser uId s of
     None \<Rightarrow> Fail (Thrown ''pat_closeVM'')
   | Some u \<Rightarrow> (case searchVM pId u of
       None \<Rightarrow> Ok ([], s)
     | Some vm \<Rightarrow>
        let rPorts = getAllRPorts vm; connectedPorts = (rPorts \<noteq> []) in
        bind_res (fold_res pat_freePort rPorts s) (\<lambda>s.
          let connIds = (if connectedPorts then getAllConnectionIDs vm else []);
              s = change_user uId (eraseVM pId) s;
              s = (if getVM_Size (eraseVM pId u) = 0 then pat_deleteUser uId s else s)
          in Ok (connIds, s))))"

definition data_operations :: "int list" where
  "data_operations = [10, 11, 12, 13, 14, 15, 202, 417, 418, 416, 100, 200, 301, 302, 400, 500, 600]"

definition portForwarding :: "string \<Rightarrow> message \<Rightarrow> pat \<Rightarrow> (message \<times> pat) res" where
  "portForwarding name sm s =
     (if name = ''ESTABLISHED'' then bind_res (pat_connectionStablished sm s) (\<lambda>(_, s). Ok (sm, s))
      else if name = ''PEER_CLOSED'' then Ok (sm, s)
      else if name = ''CLOSED'' then Ok (sm, s)
      else if \<not> isResponse sm then
        (if operation sm \<in> {201, 412} then Ok (sm, s)
         else if operation sm \<in> set data_operations then bind_res (pat_sendMessage sm s) (\<lambda>sm. Ok (sm, s))
         else if operation sm = 205 then bind_res (pat_closeConnection sm s) (\<lambda>(_, sm, s). Ok (sm, s))
         else Ok (sm, s))
      else bind_res (pat_receiveMessage sm s) (\<lambda>sm. Ok (sm, s)))"

subsection \<open>Real ports are a pool\<close>

definition pat_used :: "pat \<Rightarrow> int set" where
  "pat_used s = {p. freePorts s p}"

definition pat_inv :: "pat \<Rightarrow> bool" where
  "pat_inv s \<longleftrightarrow> distinct (portHoles s) \<and> (\<forall>p\<in>set (portHoles s). in_array p \<and> \<not> freePorts s p)
     \<and> (\<forall>p. freePorts s p \<longrightarrow> in_array p)"

lemma pat_inv_new: "pat_inv pat_new"
  by (simp add: pat_inv_def pat_new_def)

lemma next_free_ok: "next_free busy p = Ok q \<Longrightarrow> in_array q \<and> \<not> busy q"
proof (induction busy p rule: next_free.induct)
  case (1 busy p)
  then show ?case by (subst (asm) next_free.simps) (auto split: if_splits)
qed

lemma getNewPort_fresh:
  assumes "pat_inv s" "getNewPort s = Ok (p, s')"
  shows "p \<notin> pat_used s \<and> pat_used s' = insert p (pat_used s) \<and> pat_inv s' \<and> user_vm_ports s' = user_vm_ports s"
proof (cases "portHoles s")
  case (Cons q hs)
  with assms have p: "p = q" "s' = s\<lparr>portHoles := hs, freePorts := (freePorts s)(q := True)\<rparr>"
    by (auto simp: getNewPort_def split: if_splits)
  have "in_array q" "\<not> freePorts s q" "q \<notin> set hs" "distinct hs"
    using assms(1) Cons by (auto simp: pat_inv_def)
  then show ?thesis using assms(1) Cons unfolding p by (auto simp: pat_inv_def pat_used_def)
next
  case Nil
  with assms(2) have p: "next_free (freePorts s) (portPtr s) = Ok p"
    "s' = s\<lparr>portPtr := p + 1, freePorts := (freePorts s)(p := True)\<rparr>"
    by (auto simp: getNewPort_def bind_res_Ok_iff split: if_splits)
  from next_free_ok[OF p(1)] Nil assms(1) show ?thesis unfolding p(2)
    by (auto simp: pat_inv_def pat_used_def)
qed

lemma pat_freePort_ok:
  assumes "pat_inv s" "p \<in> pat_used s"
  shows "\<exists>s'. pat_freePort p s = Ok s' \<and> pat_used s' = pat_used s - {p} \<and> pat_inv s'"
  using assms by (auto simp: pat_freePort_def pat_inv_def pat_used_def split: if_splits)

interpretation pat: pool pat_inv pat_used getNewPort pat_freePort
proof (unfold_locales, goal_cases)
  case (1 s i s') then show ?case using getNewPort_fresh by blast
next
  case (2 s i) then show ?case by (rule pat_freePort_ok)
qed

subsection \<open>Listening\<close>

definition all_rports :: "pat \<Rightarrow> int list" where
  "all_rports s = concat (map (\<lambda>u. concat (map (\<lambda>c. map ps_rPort (ports c)) (vm_ports u))) (user_vm_ports s))"

text \<open>Every real port of a machine is in use, and no two entries share one.\<close>

definition pat_ok :: "pat \<Rightarrow> bool" where
  "pat_ok s \<longleftrightarrow> pat_inv s \<and> distinct (all_rports s) \<and> set (all_rports s) \<subseteq> pat_used s"

lemma mset_concat_update:
  assumes "find_first P xs = Some x" "mset (g (f x)) = M + mset (g x)"
  shows "mset (concat (map g (update_first P f xs))) = M + mset (concat (map g xs))"
  using assms(1)
proof (induction xs)
  case (Cons y ys)
  then show ?case using assms(2) by (cases "P y") (auto simp: ac_simps)
qed simp

lemma all_rports_setPort:
  assumes "find_vm u p s = Some vm"
  shows "mset (all_rports (change_vm u p (vm_setPort r v) s)) = add_mset r (mset (all_rports s))"
proof -
  obtain x where x: "find_first (\<lambda>c. user c = u) (user_vm_ports s) = Some x"
    "find_first (\<lambda>c. vmID c = p) (vm_ports x) = Some vm"
    using assms by (auto simp: find_vm_def pat_searchUser_def searchVM_def bind_eq_Some_conv)
  have "mset (concat (map (\<lambda>c. map ps_rPort (ports c)) (update_first (\<lambda>c. vmID c = p) (vm_setPort r v) (vm_ports x))))
    = {#r#} + mset (concat (map (\<lambda>c. map ps_rPort (ports c)) (vm_ports x)))"
    by (rule mset_concat_update[OF x(2)]) (simp add: vm_setPort_def)
  then have "mset (concat (map (\<lambda>u. concat (map (\<lambda>c. map ps_rPort (ports c)) (vm_ports u)))
      (update_first (\<lambda>c. user c = u) (\<lambda>u. u\<lparr>vm_ports := update_first (\<lambda>c. vmID c = p) (vm_setPort r v) (vm_ports u)\<rparr>)
        (user_vm_ports s))))
    = {#r#} + mset (all_rports s)"
    unfolding all_rports_def by (intro mset_concat_update[OF x(1)]) simp
  then show ?thesis by (simp add: all_rports_def change_vm_def change_user_def)
qed

lemma all_rports_ensure_user: "all_rports (ensure_user u s) = all_rports s"
  by (simp add: ensure_user_def pat_newUser_def all_rports_def)

lemma all_rports_ensure_vm:
  assumes "pat_searchUser u s \<noteq> None"
  shows "mset (all_rports (ensure_vm u p s)) = mset (all_rports s)"
proof -
  obtain x where x: "find_first (\<lambda>c. user c = u) (user_vm_ports s) = Some x"
    using assms by (auto simp: pat_searchUser_def)
  have "mset (concat (map (\<lambda>u. concat (map (\<lambda>c. map ps_rPort (ports c)) (vm_ports u)))
      (update_first (\<lambda>c. user c = u) (newVM p) (user_vm_ports s)))) = {#} + mset (all_rports s)"
    unfolding all_rports_def by (rule mset_concat_update[OF x]) (simp add: newVM_def new_vm_cell_def)
  then show ?thesis by (simp add: ensure_vm_def change_user_def all_rports_def)
qed

lemma ensure_frame:
  "freePorts (ensure_user u s) = freePorts s" "portHoles (ensure_user u s) = portHoles s"
  "freePorts (ensure_vm u p s) = freePorts s" "portHoles (ensure_vm u p s) = portHoles s"
  "freePorts (change_vm u p f s) = freePorts s" "portHoles (change_vm u p f s) = portHoles s"
  by (simp_all add: ensure_user_def ensure_vm_def pat_newUser_def change_user_def change_vm_def)

lemma ensure_user_found: "pat_searchUser u (ensure_user u s) \<noteq> None"
  by (auto simp: ensure_user_def pat_searchUser_def pat_newUser_def find_first_append split: option.split)

lemma ensure_vm_found:
  assumes "pat_searchUser u s \<noteq> None"
  shows "find_vm u p (ensure_vm u p s) \<noteq> None"
proof (cases "find_vm u p s")
  case None
  have nu: "user (newVM p x) = user x" for x by (simp add: newVM_def)
  obtain x where x: "find_first (\<lambda>c. user c = u) (user_vm_ports s) = Some x"
    using assms by (auto simp: pat_searchUser_def)
  then have "find_first (\<lambda>c. user c = u) (update_first (\<lambda>c. user c = u) (newVM p) (user_vm_ports s)) = Some (newVM p x)"
    by (simp add: find_first_update_first nu)
  moreover have "searchVM p (newVM p x) \<noteq> None"
    by (auto simp: searchVM_def newVM_def find_first_append split: option.split)
  ultimately show ?thesis using None
    by (simp add: ensure_vm_def find_vm_def pat_searchUser_def change_user_def)
qed (simp add: ensure_vm_def)

lemma find_vm_cong: "user_vm_ports s = user_vm_ports t \<Longrightarrow> find_vm u p s = find_vm u p t"
  by (simp add: find_vm_def pat_searchUser_def)

lemma listen_ok:
  assumes "pat_ok s" "pat_createListen u p v s = Ok (r, s')"
  shows "pat_ok s' \<and> r \<notin> pat_used s \<and> pat_used s' = insert r (pat_used s)
     \<and> mset (all_rports s') = add_mset r (mset (all_rports s))"
proof -
  define t where "t = ensure_vm u p (ensure_user u s)"
  have t: "pat_inv t" "pat_used t = pat_used s" "mset (all_rports t) = mset (all_rports s)"
    "find_vm u p t \<noteq> None"
    using assms(1) ensure_vm_found[OF ensure_user_found] all_rports_ensure_vm[OF ensure_user_found]
    by (simp_all add: t_def pat_ok_def pat_inv_def pat_used_def ensure_frame all_rports_ensure_user)
  from assms(2) obtain w where w: "getNewPort t = Ok (r, w)" "s' = change_vm u p (vm_setPort r v) w"
    by (auto simp: pat_createListen_def t_def bind_res_Ok_iff)
  from getNewPort_fresh[OF t(1) w(1)] have g: "r \<notin> pat_used t" "pat_used w = insert r (pat_used t)"
    "pat_inv w" "user_vm_ports w = user_vm_ports t" by auto
  obtain vm where "find_vm u p w = Some vm" using t(4) find_vm_cong[OF g(4)] by auto
  from all_rports_setPort[OF this, of r v] have m: "mset (all_rports s') = add_mset r (mset (all_rports t))"
    using w(2) g(4) by (simp add: all_rports_def)
  have used: "pat_used s' = insert r (pat_used s)" using g(2) t(2) w(2) by (simp add: pat_used_def ensure_frame)
  have set: "set (all_rports t) = set (all_rports s)" using t(3) by (metis set_mset_mset)
  have "distinct (all_rports t)" using t(3) assms(1) by (metis mset_eq_imp_distinct_iff pat_ok_def)
  then have "distinct (r # all_rports t)"
    using g(1) t(2) set assms(1) by (auto simp: pat_ok_def)
  moreover have "mset (all_rports s') = mset (r # all_rports t)" using m by simp
  ultimately have "distinct (all_rports s')" by (metis mset_eq_imp_distinct_iff)
  moreover have "set (all_rports s') \<subseteq> pat_used s'"
    using m set used assms(1) by (metis insert_mono pat_ok_def set_mset_add_mset_insert set_mset_mset)
  moreover have "pat_inv s'" using g(3) w(2) by (simp add: pat_inv_def ensure_frame)
  ultimately show ?thesis using g(1) t used m by (simp add: pat_ok_def)
qed

fun listen_many :: "(int \<times> int \<times> int) list \<Rightarrow> pat \<Rightarrow> (int list \<times> pat) res" where
  "listen_many [] s = Ok ([], s)"
| "listen_many ((u, p, v) # rs) s = bind_res (pat_createListen u p v s) (\<lambda>(r, s).
     bind_res (listen_many rs s) (\<lambda>(qs, s). Ok (r # qs, s)))"

lemma listen_many_ok:
  assumes "pat_ok s" "listen_many rs s = Ok (qs, s')"
  shows "pat_ok s' \<and> distinct qs \<and> set qs \<inter> pat_used s = {} \<and> pat_used s' = pat_used s \<union> set qs"
  using assms
proof (induction rs arbitrary: s qs)
  case (Cons r rs)
  obtain u p v where r: "r = (u, p, v)" by (cases r)
  with Cons.prems obtain q s1 qs' where l: "pat_createListen u p v s = Ok (q, s1)"
    "listen_many rs s1 = Ok (qs', s')" "qs = q # qs'" by (auto simp: bind_res_Ok_iff)
  from listen_ok[OF Cons.prems(1) l(1)] Cons.IH[OF _ l(2)] l(3) show ?case by auto
qed auto

text \<open>Within one machine the translation of a sent virtual port is undone on reception.\<close>

lemma translate_back:
  assumes "distinct (map ps_rPort (ports vm))" "find_first (\<lambda>p. ps_vPort p = v) (ports vm) \<noteq> None"
  shows "vm_getVirtualPort (vm_getRealPort v vm) vm = v"
proof -
  obtain p where p: "find_first (\<lambda>p. ps_vPort p = v) (ports vm) = Some p" using assms(2) by auto
  have "find_first (\<lambda>q. ps_rPort q = ps_rPort x) xs = Some x"
    if "x \<in> set xs" "distinct (map ps_rPort xs)" for x and xs :: "port_structure list"
    using that by (induction xs) (auto simp: image_iff)
  then show ?thesis using p find_first_Some[OF p] assms(1)
    by (simp add: vm_getRealPort_def vm_getVirtualPort_def)
qed

lemma distinct_vm_ports:
  assumes "distinct (all_rports s)" "find_vm u p s = Some vm"
  shows "distinct (map ps_rPort (ports vm))"
proof -
  have inner: "distinct (g x)" if "distinct (concat (map g xs))" "x \<in> set xs"
    for g :: "'x \<Rightarrow> int list" and x xs
    using that by (auto simp: distinct_concat_iff)
  obtain x where x: "find_first (\<lambda>c. user c = u) (user_vm_ports s) = Some x"
    "find_first (\<lambda>c. vmID c = p) (vm_ports x) = Some vm"
    using assms(2) by (auto simp: find_vm_def pat_searchUser_def searchVM_def bind_eq_Some_conv)
  have "distinct (concat (map (\<lambda>c. map ps_rPort (ports c)) (vm_ports x)))"
    using inner[OF assms(1)[unfolded all_rports_def], of x] find_first_Some[OF x(1)] by simp
  from inner[OF this, of vm] find_first_Some[OF x(2)] show ?thesis by simp
qed

lemma message_vm_find: "message_vm sm s = Ok vm \<longleftrightarrow> find_vm (uid sm) (pid sm) s = Some vm"
  by (auto simp: message_vm_def find_vm_def split: option.splits)

subsection \<open>Closing a connection\<close>

lemma close_undefined:
  assumes "net_of sm = Ok n" "message_vm sm s = Ok vm"
    "find_first (\<lambda>p. ps_vPort p = localPort n) (ports vm) = Some p" "connectionID p = connectionId sm"
    "\<forall>q\<in>set (remove_first (\<lambda>p. connectionID p = connectionId sm) (ports vm)). ps_vPort q \<noteq> localPort n"
  shows "pat_closeConnection sm s = Fail Undefined"
proof -
  have "vm_getRealPort (localPort n) (deletePort_byConnectionID (connectionId sm) vm) = -1"
    using assms(5) by (auto simp: vm_getRealPort_def deletePort_byConnectionID_def find_first_None[THEN iffD2])
  then show ?thesis using assms(1-4)
    by (simp add: pat_closeConnection_def vm_getConnectionID_def Let_def pat_freePort_def in_array_def)
qed

lemma close_pushes_twice:
  assumes "pat_closeConnection sm s = Ok (r, sm', s')"
  shows "portHoles s' = portHoles s @ [r, r] \<and> in_array r"
  using assms by (auto simp: pat_closeConnection_def Let_def bind_res_Ok_iff pat_freePort_def
      change_vm_def change_user_def split: if_split_asm)

lemma hole_given: "portHoles s = p # hs \<Longrightarrow> in_array p \<Longrightarrow>
  getNewPort s = Ok (p, s\<lparr>portHoles := hs, freePorts := (freePorts s)(p := True)\<rparr>)"
  by (simp add: getNewPort_def)

lemma close_then_same_port:
  assumes "pat_closeConnection sm s = Ok (r, sm', s')" "portHoles s = []"
  shows "\<exists>s1 s2. getNewPort s' = Ok (r, s1) \<and> getNewPort s1 = Ok (r, s2)"
proof -
  note c = close_pushes_twice[OF assms(1)]
  have h: "portHoles s' = r # [r]" using c assms(2) by simp
  let ?s1 = "s'\<lparr>portHoles := [r], freePorts := (freePorts s')(r := True)\<rparr>"
  have "getNewPort s' = Ok (r, ?s1)" using hole_given[OF h] c by simp
  moreover have "getNewPort ?s1 = Ok (r, ?s1\<lparr>portHoles := [], freePorts := (freePorts ?s1)(r := True)\<rparr>)"
    using hole_given[of ?s1 r "[]"] c by simp
  ultimately show ?thesis by blast
qed

end
