(* ===== verification/Registries.thy ===== *)
theory Registries imports Prelude begin

text \<open>
  The contract of a registry: a component that keeps elements under distinct keys in a vector, and
  is seen from outside as a map from keys to elements.  The sets of machines and the queues of
  jobs are registries; what a sequence of insertions and deletions does to the map is shown once.
\<close>

definition keyed :: "('v \<Rightarrow> 'k) \<Rightarrow> 'v list \<Rightarrow> 'k \<Rightarrow> 'v option" where
  "keyed key xs k = find_first (\<lambda>v. key v = k) xs"

lemma keyed_Nil [simp]: "keyed key [] k = None"
  by (simp add: keyed_def)

lemma keyed_Cons [simp]: "keyed key (v # xs) k = (if key v = k then Some v else keyed key xs k)"
  by (simp add: keyed_def)

lemma keyed_None: "keyed key xs k = None \<longleftrightarrow> k \<notin> key ` set xs"
  by (induction xs) auto

lemma keyed_append_apply:
  "keyed key (xs @ ys) k = (case keyed key xs k of None \<Rightarrow> keyed key ys k | Some v \<Rightarrow> Some v)"
  by (induction xs) auto

lemma keyed_append:
  assumes "keyed key xs (key v) = None"
  shows "keyed key (xs @ [v]) = (keyed key xs)(key v \<mapsto> v)"
  using assms by (intro ext) (auto simp: keyed_append_apply split: option.split)

lemma keyed_remove_apply:
  "distinct (map key xs) \<Longrightarrow> keyed key (remove_first (\<lambda>v. key v = k) xs) j
     = (if j = k then None else keyed key xs j)"
proof (induction xs)
  case (Cons x xs)
  then have "k = key x \<Longrightarrow> keyed key xs k = None" by (simp add: keyed_None)
  with Cons show ?case by (cases "key x = k") auto
qed simp

lemma keyed_remove:
  "distinct (map key xs) \<Longrightarrow> keyed key (remove_first (\<lambda>v. key v = k) xs) = (keyed key xs)(k := None)"
  by (rule ext) (simp add: keyed_remove_apply)

lemma keyed_in_set: "keyed key xs k = Some v \<Longrightarrow> v \<in> set xs \<and> key v = k"
  by (induction xs) (auto split: if_splits)

lemma keyed_distinct:
  "distinct (map key xs) \<Longrightarrow> v \<in> set xs \<Longrightarrow> keyed key xs (key v) = Some v"
  by (induction xs) auto

datatype ('k, 'v) reg_op = Enter 'v | Drop 'k

fun reg_allowed :: "('v \<Rightarrow> 'k) \<Rightarrow> ('k, 'v) reg_op list \<Rightarrow> ('k \<Rightarrow> 'v option) \<Rightarrow> bool" where
  "reg_allowed key [] m \<longleftrightarrow> True"
| "reg_allowed key (Enter v # ops) m \<longleftrightarrow> m (key v) = None \<and> reg_allowed key ops (m(key v \<mapsto> v))"
| "reg_allowed key (Drop k # ops) m \<longleftrightarrow> m k \<noteq> None \<and> reg_allowed key ops (m(k := None))"

fun reg_effect :: "('v \<Rightarrow> 'k) \<Rightarrow> ('k, 'v) reg_op \<Rightarrow> ('k \<Rightarrow> 'v option) \<Rightarrow> ('k \<Rightarrow> 'v option)" where
  "reg_effect key (Enter v) m = m(key v \<mapsto> v)"
| "reg_effect key (Drop k) m = m(k := None)"

locale registry =
  fixes inv :: "'s \<Rightarrow> bool"
    and content :: "'s \<Rightarrow> 'k \<Rightarrow> 'v option"
    and key :: "'v \<Rightarrow> 'k"
    and enter :: "'v \<Rightarrow> 's \<Rightarrow> 's res"
    and drop_key :: "'k \<Rightarrow> 's \<Rightarrow> 's res"
  assumes enter_law: "inv s \<Longrightarrow> content s (key v) = None \<Longrightarrow>
      \<exists>s'. enter v s = Ok s' \<and> inv s' \<and> content s' = (content s)(key v \<mapsto> v)"
    and drop_law: "inv s \<Longrightarrow> content s k \<noteq> None \<Longrightarrow>
      \<exists>s'. drop_key k s = Ok s' \<and> inv s' \<and> content s' = (content s)(k := None)"
begin

fun reg_step :: "('k, 'v) reg_op \<Rightarrow> 's \<Rightarrow> 's res" where
  "reg_step (Enter v) s = enter v s"
| "reg_step (Drop k) s = drop_key k s"

lemma step_refines:
  assumes "inv s" "reg_allowed key [x] (content s)"
  shows "\<exists>s'. reg_step x s = Ok s' \<and> inv s' \<and> content s' = reg_effect key x (content s)"
  using assms enter_law drop_law by (cases x) auto

text \<open>Any allowed sequence of operations succeeds and does what it does to the map.\<close>

lemma run_refines:
  assumes "inv s" "reg_allowed key ops (content s)"
  shows "\<exists>s'. fold_res reg_step ops s = Ok s' \<and> inv s' \<and>
    content s' = fold (reg_effect key) ops (content s)"
  using assms
proof (induction ops arbitrary: s)
  case (Cons x ops)
  have "reg_allowed key [x] (content s)" using Cons.prems(2) by (cases x) auto
  from step_refines[OF Cons.prems(1) this] obtain s1
    where s1: "reg_step x s = Ok s1" "inv s1" "content s1 = reg_effect key x (content s)" by blast
  have "reg_allowed key ops (content s1)" using Cons.prems(2) s1(3) by (cases x) auto
  from Cons.IH[OF s1(2) this] s1(1,3) show ?case by auto
qed simp

text \<open>An element that is entered and dropped again leaves no trace.\<close>

lemma enter_drop:
  assumes "inv s" "content s (key v) = None" "enter v s = Ok s1"
  shows "\<exists>s2. drop_key (key v) s1 = Ok s2 \<and> inv s2 \<and> content s2 = content s"
proof -
  from enter_law[OF assms(1,2)] assms(3)
  have s1: "inv s1" "content s1 = (content s)(key v \<mapsto> v)" by auto
  then have "content s1 (key v) \<noteq> None" by simp
  from drop_law[OF s1(1) this] s1(2) assms(2) show ?thesis by (auto simp: fun_upd_idem)
qed

end

end
