(* ===== verification/MachinesMap.thy ===== *)
theory MachinesMap imports Registries begin

text \<open>
  The machines of a data centre or of a user, grouped in sets of one type
  (\<^verbatim>\<open>src/src/Management/MachinesStructure\<close>: \<^verbatim>\<open>ElementType\<close>, \<^verbatim>\<open>HeterogeneousSet\<close>,
  \<^verbatim>\<open>MachinesMap\<close>).  A \<^verbatim>\<open>Machine*\<close> is the record of what these classes read of a machine;
  its OMNeT++ module id identifies it.  The type pointer of a set is \<open>None\<close> while it is NULL.
  The sizes of a type are C++ \<^verbatim>\<open>int\<close>: an overflow of the unit conversions is \<open>Undefined\<close>.
\<close>

subsection \<open>Element types\<close>

record element_type =
  et_name :: string
  memoryTotal :: int
  storageTotal :: int
  et_numCores :: int
  numStorageDevices :: int
  numNetIF :: int

definition setTypeParameters ::
  "int \<Rightarrow> int \<Rightarrow> int \<Rightarrow> int \<Rightarrow> string \<Rightarrow> int \<Rightarrow> element_type res" where
  "setTypeParameters numTotalCores memorySize storageSize numIfEth newNodeType numStorageDev =
     bind_res (checked_int (memorySize * 1024)) (\<lambda>mem.
     bind_res (checked_int (storageSize * 1024 * 1024)) (\<lambda>sto.
       Ok \<lparr>et_name = newNodeType, memoryTotal = mem, storageTotal = sto,
           et_numCores = numTotalCores, numStorageDevices = numStorageDev, numNetIF = numIfEth\<rparr>))"

subsection \<open>Machines and sets of one type\<close>

record machine =
  m_id :: int
  m_ip :: string
  m_on :: bool
  m_type :: element_type

definition getMemoryCapacity :: "machine \<Rightarrow> int" where
  "getMemoryCapacity m = memoryTotal (m_type m)"

definition getStorageCapacity :: "machine \<Rightarrow> int" where
  "getStorageCapacity m = storageTotal (m_type m)"

definition getNumOfStorageDevices :: "machine \<Rightarrow> int" where
  "getNumOfStorageDevices m = 1"

record hset =
  machinesSet :: "machine list"
  hs_type :: "element_type option"

definition new_hset :: hset where
  "new_hset = \<lparr>machinesSet = [], hs_type = None\<rparr>"

definition initMachine :: "machine \<Rightarrow> hset \<Rightarrow> hset" where
  "initMachine m h = h\<lparr>machinesSet := machinesSet h @ [m]\<rparr>"

definition hs_type_of :: "hset \<Rightarrow> element_type res" where
  "hs_type_of h = (case hs_type h of None \<Rightarrow> Fail Undefined | Some t \<Rightarrow> Ok t)"

definition hs_getNumberOfCPUs :: "hset \<Rightarrow> int res" where
  "hs_getNumberOfCPUs h = bind_res (hs_type_of h) (\<lambda>t. Ok (et_numCores t))"

definition hs_getTotalMemory :: "hset \<Rightarrow> int res" where
  "hs_getTotalMemory h = bind_res (hs_type_of h) (\<lambda>t. Ok (memoryTotal t))"

definition hs_getStorageSize :: "hset \<Rightarrow> int res" where
  "hs_getStorageSize h = bind_res (hs_type_of h) (\<lambda>t. Ok (storageTotal t))"

definition hs_getSetIdentifier :: "hset \<Rightarrow> string res" where
  "hs_getSetIdentifier h = bind_res (hs_type_of h) (\<lambda>t. Ok (et_name t))"

definition hs_getMachineByIndex :: "int \<Rightarrow> hset \<Rightarrow> machine res" where
  "hs_getMachineByIndex i h = (if 0 \<le> i \<and> i < int (length (machinesSet h))
     then Ok (machinesSet h ! nat i) else Fail Undefined)"

definition hs_isON :: "int \<Rightarrow> hset \<Rightarrow> bool res" where
  "hs_isON i h = bind_res (hs_getMachineByIndex i h) (\<lambda>m. Ok (m_on m))"

definition hs_getOFFMachines :: "hset \<Rightarrow> machine list" where
  "hs_getOFFMachines h = filter (\<lambda>m. \<not> m_on m) (machinesSet h)"

definition hs_getONMachines :: "hset \<Rightarrow> machine list" where
  "hs_getONMachines h = filter m_on (machinesSet h)"

definition hs_countOFF :: "hset \<Rightarrow> nat" where
  "hs_countOFF h = length (filter (\<lambda>m. \<not> m_on m) (machinesSet h))"

definition hs_countON :: "hset \<Rightarrow> nat" where
  "hs_countON h = length (filter m_on (machinesSet h))"

definition hs_size :: "hset \<Rightarrow> nat" where
  "hs_size h = length (machinesSet h)"

definition deleteMachine :: "int \<Rightarrow> hset \<Rightarrow> hset res" where
  "deleteMachine pId h = (case index_of (\<lambda>m. m_id m = pId) (machinesSet h) of
     None \<Rightarrow> Fail (Thrown ''deleteMachine'')
   | Some i \<Rightarrow> Ok (h\<lparr>machinesSet := remove_at i (machinesSet h)\<rparr>))"

subsection \<open>The map of sets: access by position and by name\<close>

type_synonym machine_map = "hset list"

definition setInstances :: "hset \<Rightarrow> machine_map \<Rightarrow> machine_map" where
  "setInstances h ms = ms @ [h]"

text \<open>The operations that take a position check it and throw.\<close>

definition set_at :: "string \<Rightarrow> int \<Rightarrow> machine_map \<Rightarrow> hset res" where
  "set_at opname i ms = (if i < int (length ms) \<and> 0 \<le> i then Ok (ms ! nat i) else Fail (Thrown opname))"

text \<open>The operations that take a name go through the sets until one has that name.\<close>

fun set_named :: "string \<Rightarrow> string \<Rightarrow> machine_map \<Rightarrow> hset res" where
  "set_named opname n [] = Fail (Thrown opname)"
| "set_named opname n (h # ms) = bind_res (hs_getSetIdentifier h) (\<lambda>i.
     if i = n then Ok h else set_named opname n ms)"

definition getSetId :: "int \<Rightarrow> machine_map \<Rightarrow> string res" where
  "getSetId i ms = bind_res (set_at ''getSetId'' i ms) hs_getSetIdentifier"

definition getSetIdentifier :: "int \<Rightarrow> machine_map \<Rightarrow> string res" where
  "getSetIdentifier i ms = bind_res (set_at ''getSetIdentifier'' i ms) hs_getSetIdentifier"

fun isSet_loop :: "string \<Rightarrow> nat \<Rightarrow> machine_map \<Rightarrow> int res" where
  "isSet_loop n i [] = Ok (- 1)"
| "isSet_loop n i (h # ms) = bind_res (hs_getSetIdentifier h) (\<lambda>k.
     if k = n then Ok (int i) else isSet_loop n (Suc i) ms)"

definition isSet :: "string \<Rightarrow> machine_map \<Rightarrow> int res" where
  "isSet n ms = isSet_loop n 0 ms"

text \<open>\<^verbatim>\<open>index\<close> starts at -1 and is incremented for every set that is passed.\<close>

fun getSetIndex_loop :: "string \<Rightarrow> int \<Rightarrow> machine_map \<Rightarrow> int res" where
  "getSetIndex_loop n index [] = Fail (Thrown ''getSetIndex'')"
| "getSetIndex_loop n index (h # ms) = bind_res (hs_getSetIdentifier h) (\<lambda>k.
     if k = n then Ok index else getSetIndex_loop n (index + 1) ms)"

definition getSetIndex :: "string \<Rightarrow> machine_map \<Rightarrow> int res" where
  "getSetIndex n ms = getSetIndex_loop n (- 1) ms"

definition getMapQuantity :: "machine_map \<Rightarrow> nat" where
  "getMapQuantity ms = length ms"

definition getSetQuantity_named :: "string \<Rightarrow> machine_map \<Rightarrow> nat res" where
  "getSetQuantity_named n ms = bind_res (set_named ''getSetQuantity'' n ms) (\<lambda>h. Ok (hs_size h))"

definition getSetQuantity_at :: "int \<Rightarrow> machine_map \<Rightarrow> nat res" where
  "getSetQuantity_at i ms = bind_res (set_at ''getSetQuantity'' i ms) (\<lambda>h. Ok (hs_size h))"

definition getSetNumberOfCPUs_named :: "string \<Rightarrow> machine_map \<Rightarrow> int res" where
  "getSetNumberOfCPUs_named n ms = bind_res (set_named ''getSetNumberOfCPUs'' n ms) hs_getNumberOfCPUs"

definition getSetNumberOfCPUs_at :: "int \<Rightarrow> machine_map \<Rightarrow> int res" where
  "getSetNumberOfCPUs_at i ms = bind_res (set_at ''getSetNumberOfCPUs'' i ms) hs_getNumberOfCPUs"

definition getSetTotalMemory_named :: "string \<Rightarrow> machine_map \<Rightarrow> int res" where
  "getSetTotalMemory_named n ms = bind_res (set_named ''getSetTotalMemory'' n ms) hs_getTotalMemory"

definition getSetTotalMemory_at :: "int \<Rightarrow> machine_map \<Rightarrow> int res" where
  "getSetTotalMemory_at i ms = bind_res (set_at ''getSetTotalMemory'' i ms) hs_getTotalMemory"

definition getSetTotalStorage :: "string \<Rightarrow> machine_map \<Rightarrow> int res" where
  "getSetTotalStorage n ms = bind_res (set_named ''getSetTotalStorage'' n ms) hs_getStorageSize"

definition isMachineON_named :: "string \<Rightarrow> int \<Rightarrow> machine_map \<Rightarrow> bool res" where
  "isMachineON_named n i ms = bind_res (set_named ''isMachineON'' n ms) (hs_isON i)"

definition isMachineON_at :: "int \<Rightarrow> int \<Rightarrow> machine_map \<Rightarrow> bool res" where
  "isMachineON_at k i ms = bind_res (set_at ''isMachineON'' k ms) (hs_isON i)"

definition countONMachines_named :: "string \<Rightarrow> machine_map \<Rightarrow> nat res" where
  "countONMachines_named n ms = bind_res (set_named ''countONMachines'' n ms) (\<lambda>h. Ok (hs_countON h))"

definition countONMachines_at :: "int \<Rightarrow> machine_map \<Rightarrow> nat res" where
  "countONMachines_at i ms = bind_res (set_at ''countONMachines'' i ms) (\<lambda>h. Ok (hs_countON h))"

definition countOFFMachines_named :: "string \<Rightarrow> machine_map \<Rightarrow> nat res" where
  "countOFFMachines_named n ms = bind_res (set_named ''countOFFMachines'' n ms) (\<lambda>h. Ok (hs_countOFF h))"

definition countOFFMachines_at :: "int \<Rightarrow> machine_map \<Rightarrow> nat res" where
  "countOFFMachines_at i ms = bind_res (set_at ''countOFFMachines'' i ms) (\<lambda>h. Ok (hs_countOFF h))"

definition getMachineByIndex_named :: "string \<Rightarrow> int \<Rightarrow> machine_map \<Rightarrow> machine res" where
  "getMachineByIndex_named n i ms = bind_res (set_named ''getMachineByIndex'' n ms) (hs_getMachineByIndex i)"

definition getMachineByIndex_at :: "int \<Rightarrow> int \<Rightarrow> machine_map \<Rightarrow> machine res" where
  "getMachineByIndex_at k i ms = bind_res (set_at ''getMachineByIndex'' k ms) (hs_getMachineByIndex i)"

definition getOFFMachines_named :: "string \<Rightarrow> machine_map \<Rightarrow> machine list res" where
  "getOFFMachines_named n ms = bind_res (set_named ''getOFFMachines'' n ms) (\<lambda>h. Ok (hs_getOFFMachines h))"

definition getOFFMachines_at :: "int \<Rightarrow> machine_map \<Rightarrow> machine list res" where
  "getOFFMachines_at i ms = bind_res (set_at ''getOFFMachines'' i ms) (\<lambda>h. Ok (hs_getOFFMachines h))"

definition getONMachines_named :: "string \<Rightarrow> machine_map \<Rightarrow> machine list res" where
  "getONMachines_named n ms = bind_res (set_named ''getONMachines'' n ms) (\<lambda>h. Ok (hs_getONMachines h))"

definition getONMachines_at :: "int \<Rightarrow> machine_map \<Rightarrow> machine list res" where
  "getONMachines_at i ms = bind_res (set_at ''getONMachines'' i ms) (\<lambda>h. Ok (hs_getONMachines h))"

definition setElementType :: "nat \<Rightarrow> element_type \<Rightarrow> machine_map \<Rightarrow> machine_map res" where
  "setElementType i t ms = (if i < length ms then Ok (ms[i := (ms ! i)\<lparr>hs_type := Some t\<rparr>])
     else Fail Undefined)"

subsection \<open>Searching a machine\<close>

fun id_inner :: "int \<Rightarrow> machine list \<Rightarrow> machine option" where
  "id_inner k [] = None"
| "id_inner k (m # xs) = (if m_id m = k then Some m else id_inner k xs)"

fun id_outer :: "int \<Rightarrow> machine_map \<Rightarrow> machine option" where
  "id_outer k [] = None"
| "id_outer k (h # ms) = (case id_inner k (machinesSet h) of Some m \<Rightarrow> Some m | None \<Rightarrow> id_outer k ms)"

definition getMachineById :: "int \<Rightarrow> machine_map \<Rightarrow> machine res" where
  "getMachineById k ms = (case id_outer k ms of None \<Rightarrow> Fail (Thrown ''getMachineById'') | Some m \<Rightarrow> Ok m)"

text \<open>
  In \<^verbatim>\<open>getMachineByIP\<close> the variable \<^verbatim>\<open>machineMapSize\<close>, the bound of the outer loop over the sets,
  is overwritten with the size of the set that is searched.
\<close>

definition ip_inner :: "string \<Rightarrow> machine list \<Rightarrow> machine option" where
  "ip_inner ip xs = find_first (\<lambda>m. m_ip m = ip) xs"

function ip_outer :: "string \<Rightarrow> machine_map \<Rightarrow> nat \<Rightarrow> nat \<Rightarrow> machine option res" where
  "ip_outer ip ms machineMapSize i =
     (if i < machineMapSize then
        bind_res (getSetQuantity_at (int i) ms) (\<lambda>machineMapSize.
          case ip_inner ip (machinesSet (ms ! i)) of
            Some m \<Rightarrow> Ok (Some m)
          | None \<Rightarrow> ip_outer ip ms machineMapSize (Suc i))
      else Ok None)"
  by pat_completeness auto

termination
  by (relation "measure (\<lambda>(ip, ms, n, i). length ms - i)")
    (auto simp: getSetQuantity_at_def set_at_def bind_res_Ok_iff split: if_splits)

declare ip_outer.simps [simp del]

definition getMachineByIP :: "string \<Rightarrow> machine_map \<Rightarrow> machine option res" where
  "getMachineByIP ip ms = ip_outer ip ms (getMapQuantity ms) 0"

subsection \<open>Insertion and deletion\<close>

definition add_machines :: "machine list \<Rightarrow> nat \<Rightarrow> machine_map \<Rightarrow> machine_map" where
  "add_machines xs position ms = ms[position := fold initMachine xs (ms ! position)]"

definition increaseInstances :: "machine list \<Rightarrow> string \<Rightarrow> machine_map \<Rightarrow> machine_map res" where
  "increaseInstances machines typeName ms = bind_res (isSet typeName ms) (\<lambda>position.
     if position = - 1 then
       (case machines of
          [] \<Rightarrow> Fail Undefined
        | m # _ \<Rightarrow>
          bind_res (setTypeParameters (et_numCores (m_type m)) (getMemoryCapacity m)
              (getStorageCapacity m) (numNetIF (m_type m)) typeName (getNumOfStorageDevices m)) (\<lambda>elt.
            let ms = ms @ [new_hset\<lparr>hs_type := Some elt\<rparr>]
            in Ok (add_machines machines (length ms - 1) ms)))
     else Ok (add_machines machines (nat position) ms))"

fun destroyInstance :: "string \<Rightarrow> int \<Rightarrow> machine_map \<Rightarrow> machine_map res" where
  "destroyInstance t k [] = Ok []"
| "destroyInstance t k (h # ms) = bind_res (hs_getSetIdentifier h) (\<lambda>n.
     if n = t then bind_res (deleteMachine k h) (\<lambda>h. Ok (h # ms))
     else bind_res (destroyInstance t k ms) (\<lambda>ms. Ok (h # ms)))"

subsection \<open>Sets by name\<close>

definition typed :: "machine_map \<Rightarrow> bool" where
  "typed ms \<longleftrightarrow> (\<forall>h\<in>set ms. hs_type h \<noteq> None)"

definition hs_name :: "hset \<Rightarrow> string" where
  "hs_name h = et_name (the (hs_type h))"

definition position_of :: "string \<Rightarrow> machine_map \<Rightarrow> nat option" where
  "position_of n ms = index_of (\<lambda>h. hs_name h = n) ms"

lemma typed_simps [simp]:
  "typed []" "typed (h # ms) \<longleftrightarrow> hs_type h \<noteq> None \<and> typed ms"
  by (auto simp: typed_def)

lemma identifier_typed: "hs_type h \<noteq> None \<Longrightarrow> hs_getSetIdentifier h = Ok (hs_name h)"
  by (auto simp: hs_getSetIdentifier_def hs_type_of_def hs_name_def)

lemma set_named_position:
  "typed ms \<Longrightarrow> set_named op n ms = (case position_of n ms of
     None \<Rightarrow> Fail (Thrown op) | Some i \<Rightarrow> Ok (ms ! i))"
  by (induction ms) (auto simp: position_of_def identifier_typed split: option.splits)

lemma isSet_loop_position:
  "typed ms \<Longrightarrow> isSet_loop n k ms = Ok (case position_of n ms of
     None \<Rightarrow> - 1 | Some i \<Rightarrow> int (k + i))"
  by (induction ms arbitrary: k) (auto simp: position_of_def identifier_typed split: option.splits)

lemma isSet_position:
  "typed ms \<Longrightarrow> isSet n ms = Ok (case position_of n ms of None \<Rightarrow> - 1 | Some i \<Rightarrow> int i)"
  by (simp add: isSet_def isSet_loop_position split: option.split)

lemma getSetIndex_loop_position:
  "typed ms \<Longrightarrow> getSetIndex_loop n k ms = (case position_of n ms of
     None \<Rightarrow> Fail (Thrown ''getSetIndex'') | Some i \<Rightarrow> Ok (k + int i))"
  by (induction ms arbitrary: k) (auto simp: position_of_def identifier_typed split: option.splits)

lemma getSetIndex_position:
  "typed ms \<Longrightarrow> getSetIndex n ms = (case position_of n ms of
     None \<Rightarrow> Fail (Thrown ''getSetIndex'') | Some i \<Rightarrow> Ok (int i - 1))"
  by (simp add: getSetIndex_def getSetIndex_loop_position split: option.split)

lemma getSetId_at:
  "typed ms \<Longrightarrow> 0 \<le> i \<Longrightarrow> i < int (length ms) \<Longrightarrow> getSetId i ms = Ok (hs_name (ms ! nat i))"
  by (simp add: getSetId_def set_at_def identifier_typed typed_def)

lemma getSetId_out: "i < 0 \<Longrightarrow> getSetId i ms = Fail (Thrown ''getSetId'')"
  by (simp add: getSetId_def set_at_def)

lemma position_ofD:
  "position_of n ms = Some i \<Longrightarrow> i < length ms \<and> hs_name (ms ! i) = n \<and> (\<forall>j<i. hs_name (ms ! j) \<noteq> n)"
  by (simp add: position_of_def index_of_Some)

subsection \<open>The search by address\<close>

lemma quantity_at: "getSetQuantity_at (int i) ms =
    (if i < length ms then Ok (hs_size (ms ! i)) else Fail (Thrown ''getSetQuantity''))"
  by (simp add: getSetQuantity_at_def set_at_def)

lemma ip_outer_step:
  "ip_outer ip ms n i = (if n \<le> i then Ok None
     else if length ms \<le> i then Fail (Thrown ''getSetQuantity'')
     else case ip_inner ip (machinesSet (ms ! i)) of
        Some m \<Rightarrow> Ok (Some m)
      | None \<Rightarrow> ip_outer ip ms (hs_size (ms ! i)) (Suc i))"
  by (subst ip_outer.simps) (simp add: quantity_at)

text \<open>The sets before position \<open>k\<close> do not have the address, and none of them stops the loop.\<close>

definition passes :: "string \<Rightarrow> machine_map \<Rightarrow> nat \<Rightarrow> nat \<Rightarrow> bool" where
  "passes ip ms i k \<longleftrightarrow> (\<forall>j. i \<le> j \<longrightarrow> j < k \<longrightarrow>
     ip_inner ip (machinesSet (ms ! j)) = None \<and> Suc j < hs_size (ms ! j))"

lemma passes_Suc: "passes ip ms i k \<Longrightarrow> passes ip ms (Suc i) k"
  by (simp add: passes_def)

lemma ip_outer_passes:
  assumes "passes ip ms i k" "i \<le> k" "k \<le> length ms" "i < n"
  shows "\<exists>n'>k. ip_outer ip ms n i = ip_outer ip ms n' k"
  using assms
proof (induction "k - i" arbitrary: i n)
  case (Suc d)
  then have "i < k" by simp
  with Suc.prems have s: "ip_inner ip (machinesSet (ms ! i)) = None" "Suc i < hs_size (ms ! i)"
    by (simp_all add: passes_def)
  have "ip_outer ip ms n i = ip_outer ip ms (hs_size (ms ! i)) (Suc i)"
    using s Suc.prems \<open>i < k\<close> by (subst ip_outer_step) simp
  with Suc.hyps(1)[of "Suc i" "hs_size (ms ! i)"] Suc.hyps(2) Suc.prems s \<open>i < k\<close> passes_Suc
  show ?case by auto
qed auto

lemma ip_outer_found:
  "ip_outer ip ms n i = Ok (Some m) \<Longrightarrow>
   \<exists>k\<ge>i. k < length ms \<and> passes ip ms i k \<and> ip_inner ip (machinesSet (ms ! k)) = Some m"
proof (induction ip ms n i rule: ip_outer.induct)
  case (1 ip ms n i)
  have i: "i < n" "i < length ms"
    using "1.prems" by (subst (asm) ip_outer_step, simp split: if_split_asm)+
  have q: "getSetQuantity_at (int i) ms = Ok (hs_size (ms ! i))" by (simp add: quantity_at i)
  show ?case
  proof (cases "ip_inner ip (machinesSet (ms ! i))")
    case None
    have r: "ip_outer ip ms (hs_size (ms ! i)) (Suc i) = Ok (Some m)"
      using "1.prems" None i by (subst (asm) ip_outer_step) simp
    from "1.IH"[OF i(1) q None r] obtain k where k: "Suc i \<le> k" "k < length ms"
      "passes ip ms (Suc i) k" "ip_inner ip (machinesSet (ms ! k)) = Some m" by blast
    have "Suc i < hs_size (ms ! i)" using r by (subst (asm) ip_outer_step) (simp split: if_split_asm)
    with k None have "passes ip ms i k"
      unfolding passes_def by (metis Suc_leI le_neq_implies_less)
    with k show ?thesis by (metis Suc_leD)
  next
    case (Some x)
    with "1.prems" i have "x = m" by (subst (asm) ip_outer_step) simp
    with Some i show ?thesis by (auto simp: passes_def intro!: exI[of _ i])
  qed
qed

lemma machine_by_ip_iff:
  "getMachineByIP ip ms = Ok (Some m) \<longleftrightarrow>
   (\<exists>k<length ms. passes ip ms 0 k \<and> ip_inner ip (machinesSet (ms ! k)) = Some m)"
proof
  assume "getMachineByIP ip ms = Ok (Some m)"
  then show "\<exists>k<length ms. passes ip ms 0 k \<and> ip_inner ip (machinesSet (ms ! k)) = Some m"
    using ip_outer_found by (fastforce simp: getMachineByIP_def)
next
  assume "\<exists>k<length ms. passes ip ms 0 k \<and> ip_inner ip (machinesSet (ms ! k)) = Some m"
  then obtain k where k: "k < length ms" "passes ip ms 0 k" "ip_inner ip (machinesSet (ms ! k)) = Some m"
    by blast
  with ip_outer_passes[of ip ms 0 k "length ms"] obtain n where
    "k < n" "ip_outer ip ms (length ms) 0 = ip_outer ip ms n k" by (cases ms) auto
  with k show "getMachineByIP ip ms = Ok (Some m)"
    by (simp add: getMachineByIP_def getMapQuantity_def) (subst ip_outer_step, simp)
qed

lemma machine_by_ip_overrun:
  assumes "ms \<noteq> []" "passes ip ms 0 (length ms)"
  shows "getMachineByIP ip ms = Fail (Thrown ''getSetQuantity'')"
proof -
  from ip_outer_passes[OF assms(2), of "length ms"] assms(1) obtain n where
    "length ms < n" "ip_outer ip ms (length ms) 0 = ip_outer ip ms n (length ms)" by auto
  then show ?thesis
    by (simp add: getMachineByIP_def getMapQuantity_def) (subst ip_outer_step, simp)
qed

lemma machine_by_id_first:
  "id_outer k ms = find_first (\<lambda>m. m_id m = k) (concat (map machinesSet ms))"
proof -
  have "id_inner k xs = find_first (\<lambda>m. m_id m = k) xs" for xs by (induction xs) auto
  then show ?thesis by (induction ms) (auto simp: find_first_append split: option.split)
qed

subsection \<open>The machines of one type are a registry\<close>

definition machines_of :: "string \<Rightarrow> machine_map \<Rightarrow> machine list" where
  "machines_of t ms = (case position_of t ms of None \<Rightarrow> [] | Some i \<Rightarrow> machinesSet (ms ! i))"

definition mm_inv :: "string \<Rightarrow> machine_map \<Rightarrow> bool" where
  "mm_inv t ms \<longleftrightarrow> typed ms \<and> position_of t ms \<noteq> None \<and> distinct (map m_id (machines_of t ms))"

lemma set_replaced:
  assumes "typed ms" "position_of t ms = Some i" "hs_type h = hs_type (ms ! i)"
  shows "typed (ms[i := h])" "position_of t (ms[i := h]) = Some i"
    "machines_of t (ms[i := h]) = machinesSet h"
proof -
  note p = position_ofD[OF assms(2)]
  have n: "hs_name h = t" using assms(3) p by (simp add: hs_name_def)
  have "hs_type h \<noteq> None" using assms(1,3) p by (auto simp: typed_def)
  then show "typed (ms[i := h])" using assms(1) by (auto simp: typed_def dest: in_set_update)
  show q: "position_of t (ms[i := h]) = Some i"
    using p n by (auto simp: position_of_def index_of_Some nth_list_update)
  show "machines_of t (ms[i := h]) = machinesSet h" using p by (simp add: machines_of_def q)
qed

lemma fold_initMachine [simp]: "fold initMachine xs h = h\<lparr>machinesSet := machinesSet h @ xs\<rparr>"
  by (induction xs arbitrary: h) (simp_all add: initMachine_def)

lemma increase_known:
  assumes "typed ms" "position_of t ms = Some i"
  shows "increaseInstances xs t ms = Ok (ms[i := (ms ! i)\<lparr>machinesSet := machines_of t ms @ xs\<rparr>])"
proof -
  show ?thesis
    using assms by (simp add: increaseInstances_def isSet_position add_machines_def machines_of_def)
qed

lemma destroy_known:
  assumes "typed ms" "position_of t ms = Some i"
  shows "destroyInstance t k ms = bind_res (deleteMachine k (ms ! i)) (\<lambda>h. Ok (ms[i := h]))"
  using assms
proof (induction ms arbitrary: i)
  case (Cons h ms)
  then show ?case
    by (cases i) (auto simp: position_of_def identifier_typed bind_res_assoc split: if_split_asm)
qed (simp add: position_of_def)

lemma deleteMachine_first:
  assumes "m \<in> set (machinesSet h)" "m_id m = k"
  shows "deleteMachine k h = Ok (h\<lparr>machinesSet := remove_first (\<lambda>m. m_id m = k) (machinesSet h)\<rparr>)"
  using assms by (auto simp: deleteMachine_def remove_first_index index_of_None split: option.split)

lemma deleteMachine_unknown:
  "k \<notin> m_id ` set (machinesSet h) \<Longrightarrow> deleteMachine k h = Fail (Thrown ''deleteMachine'')"
proof -
  assume "k \<notin> m_id ` set (machinesSet h)"
  then have "index_of (\<lambda>m. m_id m = k) (machinesSet h) = None" by (auto simp: index_of_None)
  then show ?thesis by (simp add: deleteMachine_def)
qed

lemma increase_one:
  assumes "mm_inv t ms" "keyed m_id (machines_of t ms) (m_id m) = None"
  shows "\<exists>ms'. increaseInstances [m] t ms = Ok ms' \<and> mm_inv t ms' \<and>
    machines_of t ms' = machines_of t ms @ [m]"
proof -
  from assms(1) obtain i where i: "typed ms" "position_of t ms = Some i"
    by (auto simp: mm_inv_def)
  let ?h = "(ms ! i)\<lparr>machinesSet := machines_of t ms @ [m]\<rparr>"
  note r = set_replaced[OF i, of ?h, simplified]
  show ?thesis
    using assms r increase_known[OF i] by (auto simp: mm_inv_def keyed_None)
qed

lemma destroy_one:
  assumes "mm_inv t ms" "keyed m_id (machines_of t ms) k \<noteq> None"
  shows "\<exists>ms'. destroyInstance t k ms = Ok ms' \<and> mm_inv t ms' \<and>
    machines_of t ms' = remove_first (\<lambda>m. m_id m = k) (machines_of t ms)"
proof -
  from assms(1) obtain i where i: "typed ms" "position_of t ms = Some i"
    by (auto simp: mm_inv_def)
  have e: "machinesSet (ms ! i) = machines_of t ms" by (simp add: machines_of_def i)
  from assms(2) obtain m where "m \<in> set (machines_of t ms)" "m_id m = k"
    by (auto simp: keyed_None)
  then have d: "deleteMachine k (ms ! i) =
      Ok ((ms ! i)\<lparr>machinesSet := remove_first (\<lambda>m. m_id m = k) (machines_of t ms)\<rparr>)"
    using deleteMachine_first[of m "ms ! i" k] e by simp
  note r = set_replaced[OF i, of "(ms ! i)\<lparr>machinesSet := remove_first (\<lambda>m. m_id m = k) (machines_of t ms)\<rparr>",
      simplified]
  show ?thesis using assms(1) r destroy_known[OF i] d by (auto simp: mm_inv_def)
qed

interpretation machines: registry "mm_inv t" "\<lambda>ms. keyed m_id (machines_of t ms)" m_id
    "\<lambda>m. increaseInstances [m] t" "destroyInstance t" for t
proof (unfold_locales, goal_cases)
  case (1 ms m)
  with increase_one[OF this] show ?case by (auto simp: keyed_append)
next
  case (2 ms k)
  with destroy_one[OF this] show ?case by (auto simp: keyed_remove mm_inv_def)
qed

text \<open>A set that is created takes the sizes of its first machine, in KB, for MB and GB.\<close>

lemma increase_unknown:
  assumes "typed ms" "position_of t ms = None"
  shows "increaseInstances (m # xs) t ms =
    bind_res (checked_int (getMemoryCapacity m * 1024)) (\<lambda>mem.
    bind_res (checked_int (getStorageCapacity m * 1024 * 1024)) (\<lambda>sto.
      Ok (ms @ [\<lparr>machinesSet = m # xs, hs_type = Some \<lparr>et_name = t, memoryTotal = mem,
        storageTotal = sto, et_numCores = et_numCores (m_type m), numStorageDevices = 1,
        numNetIF = numNetIF (m_type m)\<rparr>\<rparr>])))"
proof -
  show ?thesis
    using assms by (auto simp: increaseInstances_def isSet_position add_machines_def new_hset_def
      setTypeParameters_def bind_res_assoc initMachine_def getNumOfStorageDevices_def Let_def intro!: bind_res_cong)
qed

lemma position_of_append:
  "position_of t ms = None \<Longrightarrow> position_of t (ms @ [h]) = (if hs_name h = t then Some (length ms) else None)"
  by (induction ms) (auto simp: position_of_def split: if_splits)

fun machine_op :: "string \<Rightarrow> (int, machine) reg_op \<Rightarrow> machine_map \<Rightarrow> machine_map res" where
  "machine_op t (Enter m) ms = increaseInstances [m] t ms"
| "machine_op t (Drop k) ms = destroyInstance t k ms"

lemma machine_op_step: "machine_op t = machines.reg_step t"
proof (intro ext)
  fix x ms
  show "machine_op t x ms = machines.reg_step t x ms" by (cases x) simp_all
qed

subsection \<open>Properties\<close>

definition sc_type :: "string \<Rightarrow> int \<Rightarrow> element_type" where
  "sc_type n mem = \<lparr>et_name = n, memoryTotal = mem, storageTotal = 1024, et_numCores = 4,
     numStorageDevices = 1, numNetIF = 1\<rparr>"

definition sc_machine :: "int \<Rightarrow> string \<Rightarrow> machine" where
  "sc_machine i ip = \<lparr>m_id = i, m_ip = ip, m_on = True, m_type = sc_type ''node'' 2048\<rparr>"

definition sc_set :: "string \<Rightarrow> machine list \<Rightarrow> hset" where
  "sc_set n xs = \<lparr>machinesSet = xs, hs_type = Some (sc_type n 2048)\<rparr>"

definition sc_machines :: machine_map where
  "sc_machines = [sc_set ''A'' [sc_machine 1 ''x''], sc_set ''B'' [sc_machine 2 ''y'', sc_machine 3 ''z'']]"

text \<open>
  C21: the machines of one type are a registry.  A sequence of insertions of machines with new ids
  and of deletions of known ids never fails, and what the set of that type holds afterwards is what
  the same sequence does to the map from ids to machines.
\<close>

theorem machine_registry:
  assumes "mm_inv t ms" "reg_allowed m_id ops (keyed m_id (machines_of t ms))"
  shows "\<exists>ms'. fold_res (machine_op t) ops ms = Ok ms' \<and> mm_inv t ms' \<and>
    keyed m_id (machines_of t ms') = fold (reg_effect m_id) ops (keyed m_id (machines_of t ms))"
  using machines.run_refines[OF assms] by (simp add: machine_op_step)

theorem machine_registry_witness:
  "\<exists>ms'. fold_res (machine_op ''B'') [Enter (sc_machine 9 ''q''), Drop 2] sc_machines = Ok ms' \<and>
     keyed m_id (machines_of ''B'' ms') 9 = Some (sc_machine 9 ''q'') \<and>
     keyed m_id (machines_of ''B'' ms') 2 = None"
proof -
  have "mm_inv ''B'' sc_machines"
    by (simp add: mm_inv_def sc_machines_def sc_set_def position_of_def machines_of_def hs_name_def
        sc_type_def sc_machine_def)
  moreover have "reg_allowed m_id [Enter (sc_machine 9 ''q''), Drop 2]
      (keyed m_id (machines_of ''B'' sc_machines))"
    by (simp add: sc_machines_def sc_set_def position_of_def machines_of_def hs_name_def
        sc_type_def sc_machine_def)
  ultimately show ?thesis using machine_registry[of "''B''" sc_machines] by (fastforce simp: sc_machine_def)
qed

text \<open>
  \<^verbatim>\<open>getSetIndex\<close> returns the position of the set minus one.  The result is never the position
  at which the set of that name is found, and for the first set it is not a position at all.
\<close>

lemma set_index_off_by_one:
  assumes "typed ms" "distinct (map hs_name ms)" "getSetIndex n ms = Ok i"
  shows "isSet n ms = Ok (i + 1) \<and> getSetId (i + 1) ms = Ok n \<and> getSetId i ms \<noteq> Ok n \<and>
    (hs_name (hd ms) = n \<longrightarrow> getSetId i ms = Fail (Thrown ''getSetId''))"
proof -
  from assms(3) obtain k where k: "position_of n ms = Some k" "i = int k - 1"
    by (auto simp: getSetIndex_position[OF assms(1)] split: option.splits)
  note p = position_ofD[OF k(1)]
  have "hs_name (hd ms) = n \<Longrightarrow> k = 0" using p by (cases ms) (auto simp: gr0_conv_Suc)
  moreover have "getSetId (int k) ms = Ok n" using getSetId_at[OF assms(1), of "int k"] p by simp
  moreover have "getSetId i ms \<noteq> Ok n"
  proof (cases k)
    case 0
    then show ?thesis using k by (simp add: getSetId_out)
  next
    case (Suc j)
    then show ?thesis using k p getSetId_at[OF assms(1), of "int j"] by simp
  qed
  ultimately show ?thesis using k by (auto simp: isSet_position[OF assms(1)] getSetId_out)
qed

text \<open>
  \<^verbatim>\<open>getMachineByIP\<close> finds a machine exactly when no set before it has the address and each of
  these sets has more machines than its position tells: the bound of the loop over the sets is
  overwritten with the size of the set that was searched last.
\<close>

theorem machine_by_ip_reached:
  "getMachineByIP ip ms = Ok (Some m) \<longleftrightarrow>
   (\<exists>k<length ms. find_first (\<lambda>m. m_ip m = ip) (machinesSet (ms ! k)) = Some m \<and>
     (\<forall>j<k. find_first (\<lambda>m. m_ip m = ip) (machinesSet (ms ! j)) = None \<and>
       Suc j < length (machinesSet (ms ! j))))"
  by (auto simp: machine_by_ip_iff passes_def ip_inner_def hs_size_def)


text \<open>
  When no machine has the address and every set has more machines than there are sets, the
  search does not answer NULL but throws.
\<close>

lemma machine_by_ip_throws:
  assumes "ms \<noteq> []" "\<forall>h\<in>set ms. length ms < length (machinesSet h)"
    and "\<forall>h\<in>set ms. \<forall>m\<in>set (machinesSet h). m_ip m \<noteq> ip"
  shows "getMachineByIP ip ms = Fail (Thrown ''getSetQuantity'')"
proof (rule machine_by_ip_overrun[OF assms(1)])
  show "passes ip ms 0 (length ms)"
    unfolding passes_def
  proof (intro allI impI)
    fix j
    assume "j < length ms"
    then have "ms ! j \<in> set ms" by (rule nth_mem)
    then have "length ms < length (machinesSet (ms ! j))" "\<forall>m\<in>set (machinesSet (ms ! j)). m_ip m \<noteq> ip"
      using assms(2,3) by blast+
    with \<open>j < length ms\<close>
    show "ip_inner ip (machinesSet (ms ! j)) = None \<and> Suc j < hs_size (ms ! j)"
      by (auto simp: ip_inner_def hs_size_def find_first_None)
  qed
qed

text \<open>
  When the instances of an unknown type arrive, the sizes of the first machine, which are in
  KB, are multiplied again as if they were in MB and GB.  The set has 1024 times the memory of its
  machines; if these have 2 MB of storage or 2 GB of memory or more, the computation overflows.
\<close>

theorem new_type_sizes:
  assumes "typed ms" "position_of t ms = None" "0 \<le> getMemoryCapacity m" "0 \<le> getStorageCapacity m"
  shows "if getMemoryCapacity m < 2 ^ 21 \<and> getStorageCapacity m < 2 ^ 11
    then \<exists>ms'. increaseInstances (m # xs) t ms = Ok ms' \<and>
      getSetTotalMemory_named t ms' = Ok (1024 * getMemoryCapacity m) \<and>
      getSetTotalStorage t ms' = Ok (2 ^ 20 * getStorageCapacity m) \<and>
      getSetQuantity_named t ms' = Ok (Suc (length xs))
    else increaseInstances (m # xs) t ms = Fail Undefined"
proof (cases "getMemoryCapacity m < 2 ^ 21 \<and> getStorageCapacity m < 2 ^ 11")
  case True
  define h where "h = \<lparr>machinesSet = m # xs, hs_type = Some \<lparr>et_name = t, memoryTotal = getMemoryCapacity m * 1024,
        storageTotal = getStorageCapacity m * 1024 * 1024, et_numCores = et_numCores (m_type m), numStorageDevices = 1,
        numNetIF = numNetIF (m_type m)\<rparr>\<rparr>"
  have inc: "increaseInstances (m # xs) t ms = Ok (ms @ [h])"
    using True assms(3,4) by (simp add: increase_unknown[OF assms(1,2)] checked_int_def h_def)
  have ty: "typed (ms @ [h])" using assms(1) by (auto simp: typed_def h_def)
  have pos: "position_of t (ms @ [h]) = Some (length ms)"
    using position_of_append[OF assms(2), of h] by (simp add: h_def hs_name_def)
  have named: "set_named op t (ms @ [h]) = Ok h" for op
    by (simp add: set_named_position[OF ty] pos)
  show ?thesis using True inc
    by (simp add: getSetTotalMemory_named_def getSetTotalStorage_def getSetQuantity_named_def named
        hs_getTotalMemory_def hs_getStorageSize_def hs_type_of_def hs_size_def)
      (simp add: h_def)
next
  case False
  then show ?thesis using assms(3,4)
    by (auto simp: increase_unknown[OF assms(1,2)] checked_int_def bind_res_Ok_iff)
qed


end
