(* ===== verification/JobQueues.thy ===== *)
theory JobQueues imports Registries begin

text \<open>
  The jobs of a user (\<^verbatim>\<open>src/src/Applications/Base/Management/JobQueue.cc\<close> and
  \<^verbatim>\<open>src/src/Users/Base/queuesManager.cc\<close>): a waiting, a running and a finish queue.  A
  \<^verbatim>\<open>jobBase*\<close> is a \<open>job option\<close>, with \<open>None\<close> for NULL; the jobs are identified by the module id
  \<^verbatim>\<open>getId()\<close>, which is also \<^verbatim>\<open>getJobId()\<close>.  \<^verbatim>\<open>vector::erase\<close> outside of the vector, the
  dereference of NULL and the use of an uninitialised pointer are \<open>Undefined\<close>.  The loop of
  \<^verbatim>\<open>moveFromWQ_toRQ\<close> may not end; its value is then \<open>None\<close>.
\<close>

record job =
  job_id :: int
  originalName :: string
  numCopies :: int
  isDockerized :: bool

type_synonym job_queue = "job option list"

subsection \<open>One queue\<close>

definition job_getId :: "job option \<Rightarrow> int res" where
  "job_getId j = (case j of None \<Rightarrow> Fail Undefined | Some j \<Rightarrow> Ok (job_id j))"

definition get_queue_size :: "job_queue \<Rightarrow> int" where
  "get_queue_size q = int (length q)"

definition insert_job :: "job option \<Rightarrow> int \<Rightarrow> job_queue \<Rightarrow> job_queue" where
  "insert_job j position q =
     (if position = - 1 then q @ [j]
      else if position \<le> int (length q) \<and> 0 \<le> position then insert_at (nat position) j q
      else q)"

definition getJob :: "int \<Rightarrow> job_queue \<Rightarrow> job option res" where
  "getJob index q =
     (if index < int (length q) then (if 0 \<le> index then Ok (q ! nat index) else Fail Undefined)
      else Ok None)"

definition removeJob :: "int \<Rightarrow> job_queue \<Rightarrow> job_queue res" where
  "removeJob index q =
     (if index \<le> int (length q)
      then (if 0 \<le> index \<and> index < int (length q) then Ok (remove_at (nat index) q) else Fail Undefined)
      else Ok q)"

definition move_job_from_to :: "int \<Rightarrow> int \<Rightarrow> job_queue \<Rightarrow> job_queue res" where
  "move_job_from_to initPos dstPos q = (if initPos \<noteq> dstPos then Fail Undefined else Ok q)"

definition move_to_qDst :: "int \<Rightarrow> int \<Rightarrow> job_queue \<times> job_queue \<Rightarrow> (job_queue \<times> job_queue) res" where
  "move_to_qDst position_qSrc position_qDst qs = (case qs of (q, qDst) \<Rightarrow>
     bind_res (getJob position_qSrc q) (\<lambda>j.
       if (- 1 < position_qSrc \<and> position_qSrc < int (length q)) \<or> position_qDst = - 1
       then let qDst = insert_job j position_qDst qDst in
            bind_res (removeJob position_qSrc q) (\<lambda>q. Ok (q, qDst))
       else Ok (q, qDst)))"

definition move_from_qSrc :: "int \<Rightarrow> int \<Rightarrow> job_queue \<times> job_queue \<Rightarrow> (job_queue \<times> job_queue) res" where
  "move_from_qSrc position_qSrc position_qDst qs = (case qs of (q, qSrc) \<Rightarrow>
     bind_res (getJob position_qSrc q) (\<lambda>j.
       if - 1 < position_qSrc \<and> position_qSrc < int (length q)
       then let q = insert_job j position_qDst q in
            bind_res (removeJob position_qSrc qSrc) (\<lambda>qSrc. Ok (q, qSrc))
       else Ok (q, qSrc)))"

text \<open>\<^verbatim>\<open>while ((i < size) && (!found))\<close>, as it is in \<^verbatim>\<open>get_index_of_job\<close>.\<close>

function index_loop :: "int \<Rightarrow> nat \<Rightarrow> job_queue \<Rightarrow> nat option res" where
  "index_loop k i q =
     (if i < length q then
        bind_res (getJob (int i) q) (\<lambda>j. bind_res (job_getId j) (\<lambda>n.
          if n = k then Ok (Some i) else index_loop k (Suc i) q))
      else Ok None)"
  by pat_completeness auto

termination by (relation "measure (\<lambda>(k, i, q). length q - i)") auto

definition get_index_of_job :: "int \<Rightarrow> job_queue \<Rightarrow> int res" where
  "get_index_of_job jobID q = bind_res (index_loop jobID 0 q)
     (\<lambda>r. Ok (case r of None \<Rightarrow> - 1 | Some i \<Rightarrow> int i))"

text \<open>
  \<^verbatim>\<open>for (i = 0; (size) && (!found); i++)\<close>: the condition of the loops of the queue manager does not
  compare \<open>i\<close> with the size, so that the loop ends with a job that is found or with NULL.
\<close>

function search_loop :: "int \<Rightarrow> nat \<Rightarrow> job_queue \<Rightarrow> nat option res" where
  "search_loop k i q =
     (if q = [] then Ok None
      else bind_res (getJob (int i) q) (\<lambda>j. bind_res (job_getId j) (\<lambda>n.
        if n = k then Ok (Some i) else search_loop k (Suc i) q)))"
  by pat_completeness auto

termination
  by (relation "measure (\<lambda>(k, i, q). length q - i)")
    (auto simp: getJob_def job_getId_def split: if_splits option.splits)

declare index_loop.simps [simp del] search_loop.simps [simp del]

subsection \<open>The three queues of a user\<close>

record queues =
  waitingQueue :: job_queue
  runningQueue :: job_queue
  finishQueue :: job_queue

definition queues_initialize :: queues where
  "queues_initialize = \<lparr>waitingQueue = [], runningQueue = [], finishQueue = []\<rparr>"

definition addParsedJob :: "job option \<Rightarrow> queues \<Rightarrow> queues" where
  "addParsedJob j s = s\<lparr>waitingQueue := insert_job j (- 1) (waitingQueue s)\<rparr>"

definition insert_WQ :: "job option \<Rightarrow> int \<Rightarrow> queues \<Rightarrow> queues" where
  "insert_WQ j position s = s\<lparr>waitingQueue := insert_job j position (waitingQueue s)\<rparr>"

definition insert_RQ :: "job option \<Rightarrow> int \<Rightarrow> queues \<Rightarrow> queues" where
  "insert_RQ j position s = s\<lparr>runningQueue := insert_job j position (runningQueue s)\<rparr>"

definition insert_FQ :: "job option \<Rightarrow> int \<Rightarrow> queues \<Rightarrow> queues" where
  "insert_FQ j position s = s\<lparr>finishQueue := insert_job j position (finishQueue s)\<rparr>"

definition pushBack_WQ :: "job option \<Rightarrow> queues \<Rightarrow> queues" where
  "pushBack_WQ j s = s\<lparr>waitingQueue := insert_job j (- 1) (waitingQueue s)\<rparr>"

definition pushBack_RQ :: "job option \<Rightarrow> queues \<Rightarrow> queues" where
  "pushBack_RQ j s = s\<lparr>runningQueue := insert_job j (- 1) (runningQueue s)\<rparr>"

definition pushBack_FQ :: "job option \<Rightarrow> queues \<Rightarrow> queues" where
  "pushBack_FQ j s = s\<lparr>finishQueue := insert_job j (- 1) (finishQueue s)\<rparr>"

definition erase_job :: "int \<Rightarrow> job_queue \<Rightarrow> (bool \<times> job_queue) res" where
  "erase_job jobID q = bind_res (search_loop jobID 0 q) (\<lambda>r. case r of
     None \<Rightarrow> Ok (False, q)
   | Some i \<Rightarrow> bind_res (removeJob (int i) q) (\<lambda>q. Ok (True, q)))"

definition eraseJob_FromWQ :: "int \<Rightarrow> queues \<Rightarrow> (bool \<times> queues) res" where
  "eraseJob_FromWQ jobID s = bind_res (erase_job jobID (waitingQueue s))
     (\<lambda>(found, q). Ok (found, s\<lparr>waitingQueue := q\<rparr>))"

definition eraseJob_FromRQ :: "int \<Rightarrow> queues \<Rightarrow> (bool \<times> queues) res" where
  "eraseJob_FromRQ jobID s = bind_res (erase_job jobID (runningQueue s))
     (\<lambda>(found, q). Ok (found, s\<lparr>runningQueue := q\<rparr>))"

text \<open>In \<^verbatim>\<open>eraseJob_FromFQ\<close> the loop is left before \<^verbatim>\<open>found\<close> is set.\<close>

definition eraseJob_FromFQ :: "int \<Rightarrow> queues \<Rightarrow> (bool \<times> queues) res" where
  "eraseJob_FromFQ jobID s = bind_res (erase_job jobID (finishQueue s))
     (\<lambda>(_, q). Ok (False, s\<lparr>finishQueue := q\<rparr>))"

definition get_job_by_ID :: "int \<Rightarrow> job_queue \<Rightarrow> job option res" where
  "get_job_by_ID jobID q = bind_res (search_loop jobID 0 q) (\<lambda>r. case r of
     None \<Rightarrow> Fail Undefined
   | Some i \<Rightarrow> getJob (int i) q)"

definition get_job_by_index :: "int \<Rightarrow> job_queue \<Rightarrow> job option res" where
  "get_job_by_index index q = (if index \<le> get_queue_size q - 1 then getJob index q else Ok None)"

text \<open>\<^verbatim>\<open>get_job_by_ModID\<close> returns the job it looked at last.\<close>

function mod_loop :: "int \<Rightarrow> nat \<Rightarrow> job option \<Rightarrow> job_queue \<Rightarrow> job option res" where
  "mod_loop k i j q =
     (if i < length q then
        bind_res (getJob (int i) q) (\<lambda>j. bind_res (job_getId j) (\<lambda>n.
          if n = k then Ok j else mod_loop k (Suc i) j q))
      else Ok j)"
  by pat_completeness auto

termination by (relation "measure (\<lambda>(k, i, j, q). length q - i)") auto

declare mod_loop.simps [simp del]

definition get_job_by_ModID :: "int \<Rightarrow> job_queue \<Rightarrow> job option res" where
  "get_job_by_ModID modID q = mod_loop modID 0 None q"

definition getIndexOfJob :: "int \<Rightarrow> job_queue \<Rightarrow> int res" where
  "getIndexOfJob jobID q = bind_res (search_loop jobID 0 q)
     (\<lambda>r. Ok (case r of None \<Rightarrow> - 1 | Some i \<Rightarrow> int i))"

definition getIndex_WQ :: "int \<Rightarrow> queues \<Rightarrow> int res" where
  "getIndex_WQ jobID s = getIndexOfJob jobID (waitingQueue s)"

definition getIndex_RQ :: "int \<Rightarrow> queues \<Rightarrow> int res" where
  "getIndex_RQ jobID s = getIndexOfJob jobID (runningQueue s)"

definition getIndex_FQ :: "int \<Rightarrow> queues \<Rightarrow> int res" where
  "getIndex_FQ jobID s = getIndexOfJob jobID (runningQueue s)"

text \<open>
  \<^verbatim>\<open>moveFromRQ_toFQ\<close> and \<^verbatim>\<open>moveFromWQ_toFQ\<close> look for the job and move it; \<open>index\<close> is the size of
  the queue when there is no such job.
\<close>

definition moveFromRQ_toFQ :: "int \<Rightarrow> queues \<Rightarrow> queues res" where
  "moveFromRQ_toFQ jobID s = bind_res (index_loop jobID 0 (runningQueue s)) (\<lambda>r.
     let index = (case r of None \<Rightarrow> get_queue_size (runningQueue s) | Some i \<Rightarrow> int i)
     in bind_res (move_to_qDst index (get_queue_size (finishQueue s)) (runningQueue s, finishQueue s))
          (\<lambda>(rq, fq). Ok (s\<lparr>runningQueue := rq, finishQueue := fq\<rparr>)))"

definition moveFromWQ_toFQ :: "int \<Rightarrow> queues \<Rightarrow> queues res" where
  "moveFromWQ_toFQ jobID s = bind_res (index_loop jobID 0 (waitingQueue s)) (\<lambda>r.
     let index = (case r of None \<Rightarrow> get_queue_size (waitingQueue s) | Some i \<Rightarrow> int i)
     in bind_res (move_to_qDst index (get_queue_size (finishQueue s)) (waitingQueue s, finishQueue s))
          (\<lambda>(wq, fq). Ok (s\<lparr>waitingQueue := wq, finishQueue := fq\<rparr>)))"

text \<open>In \<^verbatim>\<open>moveFromWQ_toRQ\<close> the index is incremented where the job is found, and only there.\<close>

partial_function (option) start_loop :: "int \<Rightarrow> nat \<Rightarrow> job_queue \<Rightarrow> nat res option" where
  "start_loop k i q =
     (if i < length q then
        (case bind_res (getJob (int i) q) job_getId of
           Fail e \<Rightarrow> Some (Fail e)
         | Ok n \<Rightarrow> if n = k then Some (Ok (Suc i)) else start_loop k i q)
      else Some (Ok i))"

definition moveFromWQ_toRQ :: "int \<Rightarrow> queues \<Rightarrow> queues res option" where
  "moveFromWQ_toRQ jobID s = (case start_loop jobID 0 (waitingQueue s) of
     None \<Rightarrow> None
   | Some r \<Rightarrow> Some (bind_res r (\<lambda>index.
       bind_res (move_to_qDst (int index) (get_queue_size (runningQueue s)) (waitingQueue s, runningQueue s))
         (\<lambda>(wq, rq). Ok (s\<lparr>waitingQueue := wq, runningQueue := rq\<rparr>)))))"

subsection \<open>The searching loops\<close>

definition no_null :: "job_queue \<Rightarrow> bool" where
  "no_null q \<longleftrightarrow> None \<notin> set q"

definition has_id :: "int \<Rightarrow> job option \<Rightarrow> bool" where
  "has_id k j \<longleftrightarrow> job_id (the j) = k"

lemma getJob_at: "i < length q \<Longrightarrow> getJob (int i) q = Ok (q ! i)"
  by (simp add: getJob_def)

lemma getJob_end: "length q \<le> i \<Longrightarrow> getJob (int i) q = Ok None"
  by (simp add: getJob_def)

lemma job_getId_at: "no_null q \<Longrightarrow> i < length q \<Longrightarrow> job_getId (q ! i) = Ok (job_id (the (q ! i)))"
  using nth_mem[of i q] by (metis job_getId_def no_null_def option.case_eq_if)

lemma index_loop_from:
  "no_null q \<Longrightarrow> index_loop k i q = Ok (map_option (\<lambda>j. i + j) (index_of (has_id k) (drop i q)))"
proof (induction k i q rule: index_loop.induct)
  case (1 k i q)
  show ?case
  proof (cases "i < length q")
    case True
    then have d: "drop i q = q ! i # drop (Suc i) q" by (simp add: Cons_nth_drop_Suc)
    note IH = "1.IH"[OF True getJob_at[OF True] job_getId_at[OF "1.prems" True] _ "1.prems"]
    show ?thesis
      using True IH by (subst index_loop.simps)
        (auto simp: getJob_at job_getId_at[OF "1.prems"] d has_id_def[symmetric] option.map_comp comp_def)
  qed (simp add: index_loop.simps)
qed

lemma index_loop_first: "no_null q \<Longrightarrow> index_loop k 0 q = Ok (index_of (has_id k) q)"
  by (simp add: index_loop_from option.map_ident)

lemma search_loop_from:
  "no_null q \<Longrightarrow> q \<noteq> [] \<Longrightarrow> search_loop k i q = (case index_of (has_id k) (drop i q) of
     None \<Rightarrow> Fail Undefined | Some j \<Rightarrow> Ok (Some (i + j)))"
proof (induction k i q rule: search_loop.induct)
  case (1 k i q)
  show ?case
  proof (cases "i < length q")
    case True
    then have d: "drop i q = q ! i # drop (Suc i) q" by (simp add: Cons_nth_drop_Suc)
    note IH = "1.IH"[OF "1.prems"(2) getJob_at[OF True] job_getId_at[OF "1.prems"(1) True] _ "1.prems"]
    show ?thesis
      using True "1.prems"(2) IH by (subst search_loop.simps)
        (auto simp: getJob_at job_getId_at[OF "1.prems"(1)] d has_id_def[symmetric] split: option.split)
  next
    case False
    then show ?thesis using "1.prems"(2)
      by (subst search_loop.simps) (simp add: getJob_end job_getId_def)
  qed
qed

lemma search_loop_first:
  "no_null q \<Longrightarrow> search_loop k 0 q = (if q = [] then Ok None
     else case index_of (has_id k) q of None \<Rightarrow> Fail Undefined | Some i \<Rightarrow> Ok (Some i))"
  by (cases "q = []") (simp add: search_loop.simps, simp add: search_loop_from split: option.split)

lemma mod_loop_from:
  "no_null q \<Longrightarrow> mod_loop k i j q = Ok (case index_of (has_id k) (drop i q) of
     Some n \<Rightarrow> q ! (i + n) | None \<Rightarrow> if i < length q then last q else j)"
proof (induction k i j q rule: mod_loop.induct)
  case (1 k i j q)
  show ?case
  proof (cases "i < length q")
    case True
    then have d: "drop i q = q ! i # drop (Suc i) q" by (simp add: Cons_nth_drop_Suc)
    have l: "\<not> Suc i < length q \<Longrightarrow> q ! i = last q"
      using True by (cases q rule: rev_cases) (auto simp: nth_append less_Suc_eq)
    note IH = "1.IH"[OF True getJob_at[OF True] job_getId_at[OF "1.prems" True] _ "1.prems"]
    show ?thesis
      using True IH l by (subst mod_loop.simps)
        (auto simp: getJob_at job_getId_at[OF "1.prems"] d has_id_def[symmetric] split: option.split)
  qed (simp add: mod_loop.simps)
qed

lemma removeJob_at: "i < length q \<Longrightarrow> removeJob (int i) q = Ok (remove_at i q)"
  by (simp add: removeJob_def)

lemma erase_job_known:
  assumes "no_null q" "index_of (has_id k) q = Some i"
  shows "erase_job k q = Ok (True, remove_at i q)"
  using assms index_of_bound[OF assms(2)]
  by (cases q) (auto simp: erase_job_def search_loop_first removeJob_at simp del: index_of.simps)

lemma erase_job_unknown:
  assumes "no_null q" "index_of (has_id k) q = None"
  shows "erase_job k q = (if q = [] then Ok (False, []) else Fail Undefined)"
  using assms by (simp add: erase_job_def search_loop_first)

subsection \<open>Moving jobs\<close>

lemma insert_job_end: "insert_job j (get_queue_size q) q = q @ [j]"
  by (simp add: insert_job_def get_queue_size_def)

lemma move_to_end:
  "move_to_qDst (int i) (get_queue_size d) (q, d) =
     Ok (if i < length q then (remove_at i q, d @ [q ! i]) else (q, d))"
  using insert_job_end[of _ d]
  by (simp add: move_to_qDst_def getJob_def removeJob_at Let_def get_queue_size_def)

lemma moveFromRQ_toFQ_eq:
  "no_null (runningQueue s) \<Longrightarrow> moveFromRQ_toFQ k s =
     Ok (case index_of (has_id k) (runningQueue s) of
       None \<Rightarrow> s
     | Some i \<Rightarrow> s\<lparr>runningQueue := remove_at i (runningQueue s),
                   finishQueue := finishQueue s @ [runningQueue s ! i]\<rparr>)"
  using index_of_bound[of "has_id k" "runningQueue s"] move_to_end[of "length (runningQueue s)" "finishQueue s" "runningQueue s"]
  by (auto simp: moveFromRQ_toFQ_def index_loop_first move_to_end get_queue_size_def[of "runningQueue s"]
      split: option.split)

lemma moveFromWQ_toFQ_eq:
  "no_null (waitingQueue s) \<Longrightarrow> moveFromWQ_toFQ k s =
     Ok (case index_of (has_id k) (waitingQueue s) of
       None \<Rightarrow> s
     | Some i \<Rightarrow> s\<lparr>waitingQueue := remove_at i (waitingQueue s),
                   finishQueue := finishQueue s @ [waitingQueue s ! i]\<rparr>)"
  using index_of_bound[of "has_id k" "waitingQueue s"] move_to_end[of "length (waitingQueue s)" "finishQueue s" "waitingQueue s"]
  by (auto simp: moveFromWQ_toFQ_def index_loop_first move_to_end get_queue_size_def[of "waitingQueue s"]
      split: option.split)

text \<open>A search for a job that is not at the position where the loop stands does not return.\<close>

lemma start_loop_returns:
  "start_loop k i q = Some r \<Longrightarrow> i < length q \<Longrightarrow> no_null q \<Longrightarrow> has_id k (q ! i)"
proof (induction arbitrary: r rule: start_loop.raw_induct[rotated, consumes 1, case_names step])
  case (step f k i q r)
  then show ?case
    by (auto simp: getJob_at job_getId_at has_id_def split: res.splits if_splits)
qed

lemma start_loop_0:
  assumes "no_null q"
  shows "start_loop k 0 q = (if q = [] then Some (Ok 0)
    else if has_id k (hd q) then Some (Ok 1) else None)"
proof (cases q)
  case Nil
  then show ?thesis by (subst start_loop.simps) simp
next
  case (Cons j xs)
  show ?thesis
  proof (cases "has_id k j")
    case True
    with Cons assms getJob_at[of 0 q] job_getId_at[of q 0] show ?thesis
      by (subst start_loop.simps) (simp add: has_id_def)
  next
    case False
    with Cons assms start_loop_returns[of k 0 q] show ?thesis by (cases "start_loop k 0 q") auto
  qed
qed

lemma moveFromWQ_toRQ_eq:
  assumes "no_null (waitingQueue s)"
  shows "moveFromWQ_toRQ k s = (case waitingQueue s of
     [] \<Rightarrow> Some (Ok s)
   | [j] \<Rightarrow> if has_id k j then Some (Ok s) else None
   | j # j' # js \<Rightarrow> if has_id k j
       then Some (Ok (s\<lparr>waitingQueue := j # js, runningQueue := runningQueue s @ [j']\<rparr>)) else None)"
  using assms move_to_end[of 0 "runningQueue s" "waitingQueue s"] move_to_end[of 1 "runningQueue s" "waitingQueue s"]
  by (auto simp: moveFromWQ_toRQ_def start_loop_0 remove_at_def split: list.split)

subsection \<open>The waiting queue is a registry\<close>

definition ids :: "job_queue \<Rightarrow> int list" where
  "ids q = map (\<lambda>j. job_id (the j)) q"

lemma ids_simps [simp]: "ids [] = []" "ids (j # q) = job_id (the j) # ids q" "ids (q @ q') = ids q @ ids q'"
  by (simp_all add: ids_def)

lemma no_null_simps [simp]:
  "no_null []" "no_null (j # q) \<longleftrightarrow> j \<noteq> None \<and> no_null q" "no_null (q @ q') \<longleftrightarrow> no_null q \<and> no_null q'"
  by (cases j; auto simp: no_null_def)+

definition wq_inv :: "queues \<Rightarrow> bool" where
  "wq_inv s \<longleftrightarrow> no_null (waitingQueue s) \<and> distinct (ids (waitingQueue s))"

definition waiting_jobs :: "queues \<Rightarrow> job list" where
  "waiting_jobs s = map the (waitingQueue s)"

lemma ids_waiting: "ids (waitingQueue s) = map job_id (waiting_jobs s)"
  by (simp add: ids_def waiting_jobs_def)

lemma index_of_waiting: "index_of (has_id k) q = index_of (\<lambda>j. job_id j = k) (map the q)"
  by (induction q) (auto simp: has_id_def)

lemma no_null_remove: "no_null q \<Longrightarrow> no_null (remove_at i q)"
  by (auto simp: no_null_def remove_at_def dest: in_set_takeD in_set_dropD)

lemma erase_waiting:
  assumes "wq_inv s" "keyed job_id (waiting_jobs s) k \<noteq> None"
  shows "\<exists>s'. eraseJob_FromWQ k s = Ok (True, s') \<and> wq_inv s' \<and>
    waiting_jobs s' = remove_first (\<lambda>j. job_id j = k) (waiting_jobs s)"
proof -
  from assms(2) obtain i where i: "index_of (\<lambda>j. job_id j = k) (waiting_jobs s) = Some i"
    by (cases "index_of (\<lambda>j. job_id j = k) (waiting_jobs s)") (auto simp: keyed_def find_first_index)
  then have h: "index_of (has_id k) (waitingQueue s) = Some i"
    by (simp add: index_of_waiting waiting_jobs_def)
  let ?s = "s\<lparr>waitingQueue := remove_at i (waitingQueue s)\<rparr>"
  have w: "waiting_jobs ?s = remove_first (\<lambda>j. job_id j = k) (waiting_jobs s)"
    using i by (simp add: waiting_jobs_def remove_at_map remove_first_index)
  have "distinct (map job_id (waiting_jobs ?s))"
    using assms(1) unfolding w wq_inv_def ids_waiting by (intro distinct_map_remove_first) simp
  then have "wq_inv ?s" using assms(1) ids_waiting[of ?s] by (simp add: wq_inv_def no_null_remove)
  with w erase_job_known[OF _ h] assms(1) show ?thesis
    by (simp add: eraseJob_FromWQ_def wq_inv_def)
qed

interpretation waiting: registry wq_inv "\<lambda>s. keyed job_id (waiting_jobs s)" job_id
    "\<lambda>j s. Ok (pushBack_WQ (Some j) s)" "\<lambda>k s. bind_res (eraseJob_FromWQ k s) (\<lambda>r. Ok (snd r))"
proof (unfold_locales, goal_cases)
  case (1 s j)
  then have "wq_inv (pushBack_WQ (Some j) s)"
    by (auto simp: wq_inv_def pushBack_WQ_def insert_job_def keyed_None ids_waiting waiting_jobs_def)
  moreover have "waiting_jobs (pushBack_WQ (Some j) s) = waiting_jobs s @ [j]"
    by (simp add: waiting_jobs_def pushBack_WQ_def insert_job_def)
  ultimately show ?case using 1 by (simp add: keyed_append)
next
  case (2 s k)
  with erase_waiting[OF this] show ?case by (auto simp: keyed_remove wq_inv_def ids_waiting)
qed

subsection \<open>The life of the jobs of a user\<close>

text \<open>
  What a user does with its queues: jobs are submitted, started, finished, cancelled (from the
  waiting to the finish queue) and withdrawn.
\<close>

inductive job_step :: "queues \<Rightarrow> queues \<Rightarrow> bool" where
  submit: "job_id j \<notin> set (ids (waitingQueue s @ runningQueue s @ finishQueue s)) \<Longrightarrow>
    job_step s (pushBack_WQ (Some j) s)"
| start: "moveFromWQ_toRQ k s = Some (Ok s') \<Longrightarrow> job_step s s'"
| finish: "moveFromRQ_toFQ k s = Ok s' \<Longrightarrow> job_step s s'"
| cancel: "moveFromWQ_toFQ k s = Ok s' \<Longrightarrow> job_step s s'"
| withdraw: "eraseJob_FromWQ k s = Ok (b, s') \<Longrightarrow> job_step s s'"

inductive job_reachable :: "queues \<Rightarrow> bool" where
  init: "job_reachable queues_initialize"
| step: "job_reachable s \<Longrightarrow> job_step s s' \<Longrightarrow> job_reachable s'"

definition jobs_of :: "queues \<Rightarrow> job_queue" where
  "jobs_of s = waitingQueue s @ runningQueue s @ finishQueue s"

definition queues_inv :: "queues \<Rightarrow> bool" where
  "queues_inv s \<longleftrightarrow> no_null (jobs_of s) \<and> distinct (ids (jobs_of s))"

lemma queues_inv_mset:
  assumes "queues_inv s" "mset (jobs_of s') \<subseteq># mset (jobs_of s)"
  shows "queues_inv s'"
proof -
  have "set (jobs_of s') \<subseteq> set (jobs_of s)" using set_mset_mono[OF assms(2)] by simp
  moreover have "mset (ids (jobs_of s')) \<subseteq># mset (ids (jobs_of s))"
    using image_mset_subseteq_mono[OF assms(2), of "\<lambda>j. job_id (the j)"] by (simp add: ids_def)
  then have "distinct (ids (jobs_of s'))"
    using assms(1) distinct_submset unfolding queues_inv_def by blast
  ultimately show ?thesis using assms(1) by (auto simp: queues_inv_def no_null_def)
qed

lemma mset_moved:
  "i < length q \<Longrightarrow> mset (remove_at i q) + mset (d @ [q ! i]) = mset q + mset d"
  by (simp add: mset_remove_at[of i q])

lemma moves_keep_jobs:
  assumes "no_null (jobs_of s)"
  shows "moveFromRQ_toFQ k s = Ok s' \<Longrightarrow> mset (jobs_of s') = mset (jobs_of s)"
    "moveFromWQ_toFQ k s = Ok s' \<Longrightarrow> mset (jobs_of s') = mset (jobs_of s)"
    "moveFromWQ_toRQ k s = Some (Ok s') \<Longrightarrow> mset (jobs_of s') = mset (jobs_of s)"
proof -
  have n: "no_null (waitingQueue s)" "no_null (runningQueue s)" using assms by (simp_all add: jobs_of_def)
  show "moveFromRQ_toFQ k s = Ok s' \<Longrightarrow> mset (jobs_of s') = mset (jobs_of s)"
    by (auto simp: moveFromRQ_toFQ_eq[OF n(2)] jobs_of_def mset_remove_at
        dest!: index_of_bound split: option.splits)
  show "moveFromWQ_toFQ k s = Ok s' \<Longrightarrow> mset (jobs_of s') = mset (jobs_of s)"
    by (auto simp: moveFromWQ_toFQ_eq[OF n(1)] jobs_of_def mset_remove_at
        dest!: index_of_bound split: option.splits)
  show "moveFromWQ_toRQ k s = Some (Ok s') \<Longrightarrow> mset (jobs_of s') = mset (jobs_of s)"
    by (auto simp: moveFromWQ_toRQ_eq[OF n(1)] jobs_of_def split: list.splits if_splits)
qed

lemma withdraw_keeps:
  assumes "no_null (waitingQueue s)" "eraseJob_FromWQ k s = Ok (b, s')"
  shows "mset (jobs_of s') \<subseteq># mset (jobs_of s)"
proof (cases "index_of (has_id k) (waitingQueue s)")
  case None
  then show ?thesis using assms
    by (auto simp: eraseJob_FromWQ_def erase_job_unknown jobs_of_def split: if_splits)
next
  case (Some i)
  then show ?thesis using assms erase_job_known[OF assms(1) Some] index_of_bound[OF Some]
    by (auto simp: eraseJob_FromWQ_def jobs_of_def mset_remove_at)
qed

lemma moves_keep_inv:
  assumes "queues_inv s"
    and "moveFromRQ_toFQ k s = Ok s' \<or> moveFromWQ_toFQ k s = Ok s' \<or> moveFromWQ_toRQ k s = Some (Ok s')"
  shows "queues_inv s'"
proof (rule queues_inv_mset[OF assms(1)])
  have "no_null (jobs_of s)" using assms(1) by (simp add: queues_inv_def)
  from moves_keep_jobs[OF this] assms(2) show "mset (jobs_of s') \<subseteq># mset (jobs_of s)" by auto
qed

lemma job_step_inv:
  assumes "job_step s s'" "queues_inv s"
  shows "queues_inv s'"
  using assms
proof (induction rule: job_step.induct)
  case (submit j s)
  then show ?case
    by (auto simp: queues_inv_def jobs_of_def pushBack_WQ_def insert_job_def)
next
  case (withdraw k s b s')
  then have "no_null (waitingQueue s)" by (simp add: queues_inv_def jobs_of_def)
  from queues_inv_mset[OF withdraw(2) withdraw_keeps[OF this withdraw(1)]] show ?case .
qed (use moves_keep_inv in blast)+

lemma job_reachable_inv: "job_reachable s \<Longrightarrow> queues_inv s"
proof (induction rule: job_reachable.induct)
  case init
  then show ?case by (simp add: queues_inv_def jobs_of_def queues_initialize_def)
next
  case (step s s')
  then show ?case using job_step_inv by blast
qed

fun waiting_op :: "(int, job) reg_op \<Rightarrow> queues \<Rightarrow> queues res" where
  "waiting_op (Enter j) s = Ok (pushBack_WQ (Some j) s)"
| "waiting_op (Drop k) s = bind_res (eraseJob_FromWQ k s) (\<lambda>r. Ok (snd r))"

lemma waiting_op_step: "waiting_op = waiting.reg_step"
proof (intro ext)
  fix x s
  show "waiting_op x s = waiting.reg_step x s" by (cases x) simp_all
qed

subsection \<open>Properties\<close>

definition sc_job :: "int \<Rightarrow> job" where
  "sc_job i = \<lparr>job_id = i, originalName = ''app'', numCopies = 1, isDockerized = False\<rparr>"

definition sc_queues :: queues where
  "sc_queues = \<lparr>waitingQueue = [Some (sc_job 1), Some (sc_job 2)],
     runningQueue = [Some (sc_job 3), Some (sc_job 4)], finishQueue = []\<rparr>"

text \<open>
  C26: in every state that a user can reach from empty queues by submitting, starting, finishing,
  cancelling and withdrawing jobs, no queue holds NULL and no job is in two queues or twice in one.
\<close>

theorem job_in_one_queue:
  assumes "job_reachable s"
  shows "None \<notin> set (waitingQueue s @ runningQueue s @ finishQueue s) \<and>
    distinct (map (\<lambda>j. job_id (the j)) (waitingQueue s @ runningQueue s @ finishQueue s))"
  using job_reachable_inv[OF assms] unfolding queues_inv_def jobs_of_def no_null_def ids_def .

theorem job_in_one_queue_witness:
  "distinct (map (\<lambda>j. job_id (the j)) (waitingQueue (pushBack_WQ (Some (sc_job 1)) queues_initialize)))"
proof -
  have "job_step queues_initialize (pushBack_WQ (Some (sc_job 1)) queues_initialize)"
    by (rule submit) (simp add: queues_initialize_def)
  from job_in_one_queue[OF job_reachable.step[OF job_reachable.init this]] show ?thesis by simp
qed

text \<open>
  \<^verbatim>\<open>moveFromRQ_toFQ\<close> takes the job with the given id out of the running queue, keeps the order
  of the others, and puts it at the end of the finish queue; an unknown id changes nothing.
\<close>

theorem finish_moves_job:
  assumes "None \<notin> set (runningQueue s)"
  shows "moveFromRQ_toFQ k s = Ok (case find_first (\<lambda>j. job_id (the j) = k) (runningQueue s) of
     None \<Rightarrow> s
   | Some j \<Rightarrow> s\<lparr>runningQueue := remove_first (\<lambda>j. job_id (the j) = k) (runningQueue s),
                 finishQueue := finishQueue s @ [j]\<rparr>)"
proof -
  have h: "has_id k = (\<lambda>j. job_id (the j) = k)" by (rule ext) (simp add: has_id_def)
  have "no_null (runningQueue s)" using assms by (simp add: no_null_def)
  from moveFromRQ_toFQ_eq[OF this, of k] show ?thesis
    by (simp add: h find_first_index remove_first_index split: option.split)
qed


text \<open>
  \<^verbatim>\<open>moveFromWQ_toRQ\<close> never moves the job it is asked for.  It does not return when the job is
  not the first of a non-empty queue; when it is the first, the job behind it is moved instead, and
  nothing is moved if there is none.
\<close>

theorem start_moves_the_next_job:
  assumes "None \<notin> set (waitingQueue s)"
  shows "moveFromWQ_toRQ k s = (case waitingQueue s of
     [] \<Rightarrow> Some (Ok s)
   | j # js \<Rightarrow> if job_id (the j) \<noteq> k then None
       else Some (Ok (case js of [] \<Rightarrow> s
         | j' # js' \<Rightarrow> s\<lparr>waitingQueue := j # js', runningQueue := runningQueue s @ [j']\<rparr>)))"
proof -
  have "no_null (waitingQueue s)" using assms by (simp add: no_null_def)
  from moveFromWQ_toRQ_eq[OF this, of k] show ?thesis
    by (simp add: has_id_def split: list.split)
qed

text \<open>
  the waiting queue is a registry: any sequence of submissions of new jobs and of erasures of
  waiting jobs succeeds and does to the queue what it does to the map from ids to jobs.
\<close>

theorem waiting_registry:
  assumes "None \<notin> set (waitingQueue s)" "distinct (map (\<lambda>j. job_id (the j)) (waitingQueue s))"
    and "reg_allowed job_id ops (keyed job_id (map the (waitingQueue s)))"
  shows "\<exists>s'. fold_res waiting_op ops s = Ok s' \<and> None \<notin> set (waitingQueue s') \<and>
    keyed job_id (map the (waitingQueue s')) = fold (reg_effect job_id) ops (keyed job_id (map the (waitingQueue s)))"
proof -
  have "wq_inv s" using assms(1,2) by (simp add: wq_inv_def no_null_def ids_def)
  from waiting.run_refines[OF this] assms(3) show ?thesis
    by (auto simp: waiting_op_step waiting_jobs_def wq_inv_def no_null_def)
qed

end
