(* ===== verification/HypervisorMemory.thy ===== *)
theory HypervisorMemory imports GateLinks begin

text \<open>
  The memory manager of the hypervisor (\<^verbatim>\<open>H_MemoryManager_Base\<close> and \<^verbatim>\<open>H_MEM_SCHED_FIFO\<close> below
  \<^verbatim>\<open>src/src/Virtualization/Hypervisor/HypervisorManagers/H_MemoryManager\<close>).  Every virtual machine
  has a cell with the blocks it may use and those that remain; the requests of a machine are passed
  to the memory of the node after its cell has been charged.  Four gate managers connect the
  machines.

  The parameter \<^verbatim>\<open>blockSize_KB\<close> is an integer that is kept in a \<^verbatim>\<open>double\<close>; for integers of 32 bits
  \<^verbatim>\<open>ceil (size / blockSize_KB)\<close> is the integer quotient rounded up.  \<open>newId\<close> is the id of the
  message that is created while a message is handled, \<open>og\<close> the gate that leads back.  The TCP
  control information of a message and its source id, which no modelled module reads, are left out.
\<close>

definition SM_NOT_ENOUGH_MEMORY :: int where "SM_NOT_ENOUGH_MEMORY = 65"
definition ALLOCATE_MIGRATION_DATA :: int where "ALLOCATE_MIGRATION_DATA = 420"
definition GET_MIGRATION_DATA :: int where "GET_MIGRATION_DATA = 422"
definition GET_MIGRATION_CONNECTIONS :: int where "GET_MIGRATION_CONNECTIONS = 423"
definition MEMORY_DATA :: int where "MEMORY_DATA = 426"
definition RETURN_MESSAGE :: int where "RETURN_MESSAGE = 2"
definition MEM_KB :: int where "MEM_KB = 1024"

text \<open>\<^verbatim>\<open>SM_SET_IOR\<close> and the file operations, which are routed to the virtual machine.\<close>

definition file_operations :: "int list" where
  "file_operations = [411, 14, 15, 10, 11, 9]"

record mem_cell =
  c_uId :: int
  c_pId :: int
  vmGate :: nat
  vmTotalBlocks_KB :: int
  remainingBlocks_KB :: int

record mem_control =
  mc_gate :: nat
  mc_uId :: int
  mc_pId :: int

record mem_manager = module_state +
  mm_nodeGate :: nat
  blockSize_KB :: int
  memorySize_MB :: int
  fromVMMemoryI :: gate_manager
  fromVMMemoryO :: gate_manager
  toVMMemoryI :: gate_manager
  toVMMemoryO :: gate_manager
  mem_vms :: "mem_control list"
  memory_overhead_MB :: int
  nodeOn :: bool
  memoryCells :: "mem_cell list"
  totalMemory_Blocks :: int
  memoryAvailable_Blocks :: int

type_synonym mem_pump = "mem_manager \<Rightarrow> mem_manager res"

definition toNodeMemoryI :: "gate option" where "toNodeMemoryI = Some (''toNodeMemoryI'', 0)"
definition toNodeMemoryO :: "gate option" where "toNodeMemoryO = Some (''toNodeMemoryO'', 0)"

definition requestedSizeToBlocks :: "int \<Rightarrow> int \<Rightarrow> int res" where
  "requestedSizeToBlocks bs kb =
     (if bs = 0 then Fail Undefined
      else let blocks = - ((- to_unsigned kb) div bs)
           in if blocks < 0 then Fail Undefined else Ok blocks)"

definition same_vm :: "int \<Rightarrow> int \<Rightarrow> mem_cell \<Rightarrow> bool" where
  "same_vm u p c \<longleftrightarrow> c_uId c = u \<and> c_pId c = p"

subsection \<open>Initialisation, linking and freeing of machines\<close>

definition mem_initialize :: "module_state \<Rightarrow> int \<Rightarrow> int \<Rightarrow> int \<Rightarrow> mem_manager res" where
  "mem_initialize b block_KB size_MB overhead_MB =
     bind_res (linkGate ''fromVMMemoryI'' 0 new_gate_manager) (\<lambda>fi.
     bind_res (linkGate ''fromVMMemoryO'' 0 new_gate_manager) (\<lambda>fo.
     bind_res (linkGate ''toVMMemoryI'' 0 new_gate_manager) (\<lambda>ti.
     bind_res (linkGate ''toVMMemoryO'' 0 new_gate_manager) (\<lambda>to.
     bind_res (checked_int (size_MB * 1024)) (\<lambda>kb.
     bind_res (requestedSizeToBlocks block_KB kb) (\<lambda>blocks.
     let total = to_signed blocks in
       Ok \<lparr>queue = queue b, outbox = outbox b, currentRequest = currentRequest b,
          latencyScheduled = latencyScheduled b, module_id = module_id b, host_name = host_name b,
          mm_nodeGate = 0, blockSize_KB = block_KB, memorySize_MB = size_MB, fromVMMemoryI = fi,
          fromVMMemoryO = fo, toVMMemoryI = ti, toVMMemoryO = to, mem_vms = [],
          memory_overhead_MB = overhead_MB, nodeOn = False,
          memoryCells = [\<lparr>c_uId = 0, c_pId = 0, vmGate = 0, vmTotalBlocks_KB = total,
             remainingBlocks_KB = total\<rparr>],
          totalMemory_Blocks = total, memoryAvailable_Blocks = total\<rparr>))))))"

definition base_setVM ::
  "gate \<Rightarrow> gate \<Rightarrow> gate \<Rightarrow> gate \<Rightarrow> int \<Rightarrow> int \<Rightarrow> mem_manager \<Rightarrow> (nat \<times> mem_manager) res" where
  "base_setVM oGateI oGateO iGateI iGateO u p s =
     bind_res (newGateOut ''toVMMemoryI'' iGateI (toVMMemoryI s)) (\<lambda>(idxToVMi, gm). let s = s\<lparr>toVMMemoryI := gm\<rparr> in
     bind_res (newGateOut ''toVMMemoryO'' iGateO (toVMMemoryO s)) (\<lambda>(idxToVMo, gm). let s = s\<lparr>toVMMemoryO := gm\<rparr> in
     bind_res (newGateIn ''fromVMMemoryO'' oGateO (fromVMMemoryO s)) (\<lambda>(idxFromVMo, gm). let s = s\<lparr>fromVMMemoryO := gm\<rparr> in
     bind_res (newGateIn ''fromVMMemoryI'' oGateI (fromVMMemoryI s)) (\<lambda>(idxFromVMi, gm). let s = s\<lparr>fromVMMemoryI := gm\<rparr> in
       Ok (idxToVMo, s\<lparr>mem_vms := mem_vms s @ [\<lparr>mc_gate = idxFromVMo, mc_uId = u, mc_pId = p\<rparr>]\<rparr>)))))"

definition mem_setVM ::
  "gate \<Rightarrow> gate \<Rightarrow> gate \<Rightarrow> gate \<Rightarrow> int \<Rightarrow> int \<Rightarrow> int \<Rightarrow> mem_manager \<Rightarrow> mem_manager res" where
  "mem_setVM oGateI oGateO iGateI iGateO u p requestedMemory_KB s =
     bind_res (base_setVM oGateI oGateO iGateI iGateO u p s) (\<lambda>(gateidx, s).
     bind_res (requestedSizeToBlocks (blockSize_KB s) requestedMemory_KB) (\<lambda>blocks.
     let total = to_signed blocks;
         s = s\<lparr>memoryCells := memoryCells s @ [\<lparr>c_uId = u, c_pId = p, vmGate = gateidx,
                vmTotalBlocks_KB = total, remainingBlocks_KB = total\<rparr>]\<rparr>
     in bind_res (checked_int (memoryAvailable_Blocks s - total)) (\<lambda>a.
          Ok (s\<lparr>memoryAvailable_Blocks := a\<rparr>))))"

definition base_freeVM :: "int \<Rightarrow> int \<Rightarrow> mem_manager \<Rightarrow> mem_manager res" where
  "base_freeVM u p s = (case index_of (\<lambda>c. mc_uId c = u \<and> mc_pId c = p) (mem_vms s) of
     None \<Rightarrow> Fail (Thrown ''freeVM'')
   | Some i \<Rightarrow>
       let g = mc_gate (mem_vms s ! i) in
       bind_res (freeGate g (toVMMemoryI s)) (\<lambda>(_, gm). let s = s\<lparr>toVMMemoryI := gm\<rparr> in
       bind_res (freeGate g (toVMMemoryO s)) (\<lambda>(_, gm). let s = s\<lparr>toVMMemoryO := gm\<rparr> in
       bind_res (freeGate g (fromVMMemoryI s)) (\<lambda>(_, gm). let s = s\<lparr>fromVMMemoryI := gm\<rparr> in
       bind_res (freeGate g (fromVMMemoryO s)) (\<lambda>(_, gm). let s = s\<lparr>fromVMMemoryO := gm\<rparr> in
         Ok (s\<lparr>mem_vms := remove_at i (mem_vms s)\<rparr>))))))"

definition mem_freeVM :: "int \<Rightarrow> int \<Rightarrow> mem_manager \<Rightarrow> mem_manager res" where
  "mem_freeVM u p s =
     bind_res (case index_of (same_vm u p) (memoryCells s) of
         None \<Rightarrow> Ok s
       | Some i \<Rightarrow> bind_res (checked_int (memoryAvailable_Blocks s + vmTotalBlocks_KB (memoryCells s ! i)))
           (\<lambda>a. Ok (s\<lparr>memoryAvailable_Blocks := a, memoryCells := remove_at i (memoryCells s)\<rparr>)))
       (base_freeVM u p)"

definition getVMGateIdx :: "int \<Rightarrow> int \<Rightarrow> mem_manager \<Rightarrow> nat option" where
  "getVMGateIdx u p s = map_option vmGate (find_first (same_vm u p) (memoryCells s))"

definition getVMMemoryOccupation_MB :: "int \<Rightarrow> int \<Rightarrow> mem_manager \<Rightarrow> int" where
  "getVMMemoryOccupation_MB u p s = (case find_first (same_vm u p) (memoryCells s) of
     None \<Rightarrow> - 1
   | Some c \<Rightarrow> (let used = (vmTotalBlocks_KB c - remainingBlocks_KB c) * blockSize_KB s
               in if 0 \<le> used then used div 1024 else - ((- used) div 1024)))"

definition blocks_to_KB :: "int \<Rightarrow> mem_manager \<Rightarrow> int res" where
  "blocks_to_KB blocks s = (let kb = blocks * blockSize_KB s
     in if kb < 0 \<or> 2 ^ 32 \<le> kb then Fail Undefined else Ok (to_signed kb))"

definition getTotalMemory :: "mem_manager \<Rightarrow> int res" where
  "getTotalMemory s = blocks_to_KB (totalMemory_Blocks s) s"

definition getRemainingMemory :: "mem_manager \<Rightarrow> int res" where
  "getRemainingMemory s = blocks_to_KB (memoryAvailable_Blocks s) s"

subsection \<open>Scheduling of memory messages\<close>

definition sendMemoryMessage ::
  "(message \<Rightarrow> int option) \<Rightarrow> mem_pump \<Rightarrow> message \<Rightarrow> mem_manager \<Rightarrow> mem_manager res" where
  "sendMemoryMessage og pump msg s =
     (if arrivedOn msg ''fromVMMemoryI'' then sendRequestMessage og pump msg toNodeMemoryI s
      else if arrivedOn msg ''fromVMMemoryO'' then sendRequestMessage og pump msg toNodeMemoryO s
      else if arrivedOn msg ''fromNodeMemoryI'' then
        (case getVMGateIdx (uid msg) (pid msg) s of
           None \<Rightarrow> Ok (emit (Deleted msg) s)
         | Some i \<Rightarrow> bind_res (getGate i (toVMMemoryI s)) (\<lambda>g. sendRequestMessage og pump msg g s))
      else if arrivedOn msg ''fromNodeMemoryO'' then
        (case getVMGateIdx (uid msg) (pid msg) s of
           None \<Rightarrow> bind_res (getGate (mm_nodeGate s) (toVMMemoryO s)) (\<lambda>g. sendRequestMessage og pump msg g s)
         | Some i \<Rightarrow> bind_res (getGate i (toVMMemoryO s)) (\<lambda>g. sendRequestMessage og pump msg g s))
      else Fail (Thrown ''sendMemoryMessage''))"

definition set_remaining :: "nat \<Rightarrow> int \<Rightarrow> mem_manager \<Rightarrow> mem_manager" where
  "set_remaining i r s = s\<lparr>memoryCells := (memoryCells s)[i := (memoryCells s ! i)\<lparr>remainingBlocks_KB := r\<rparr>]\<rparr>"

definition allocate_memory ::
  "(message \<Rightarrow> int option) \<Rightarrow> mem_pump \<Rightarrow> message \<Rightarrow> mem_manager \<Rightarrow> mem_manager res" where
  "allocate_memory og pump msg s = (case cast_mem msg of
     None \<Rightarrow> Fail Undefined
   | Some memSize \<Rightarrow>
       bind_res (requestedSizeToBlocks (blockSize_KB s) (int memSize)) (\<lambda>blocks.
       let requiredBlocks = to_signed blocks in
       case index_of (same_vm (uid msg) (pid msg)) (memoryCells s) of
         None \<Rightarrow> Fail (Thrown ''schedulingMemory'')
       | Some i \<Rightarrow>
           let remaining = remainingBlocks_KB (memoryCells s ! i) in
           bind_res (checked_int (remaining - requiredBlocks)) (\<lambda>temporalBlocksQuantity.
           let s = (if remaining < 0 then set_remaining i 0 s else s) in
           if temporalBlocksQuantity \<le> 0 then
             sendResponseMessage pump (msg\<lparr>result_code := SM_NOT_ENOUGH_MEMORY, isResponse := True\<rparr>) s
           else sendMemoryMessage og pump msg (set_remaining i temporalBlocksQuantity s))))"

text \<open>
  The cell that is credited is the first one with the user id: the process id of the cell is
  compared with itself.
\<close>

definition release_memory ::
  "(message \<Rightarrow> int option) \<Rightarrow> mem_pump \<Rightarrow> message \<Rightarrow> mem_manager \<Rightarrow> mem_manager res" where
  "release_memory og pump msg s = (case cast_mem msg of
     None \<Rightarrow> Fail Undefined
   | Some memSize \<Rightarrow>
       bind_res (requestedSizeToBlocks (blockSize_KB s) (int memSize)) (\<lambda>blocks.
       let requiredBlocks = to_signed blocks in
       case index_of (\<lambda>c. c_uId c = uid msg \<and> c_pId c = c_pId c) (memoryCells s) of
         None \<Rightarrow> Fail (Thrown ''schedulingMemory'')
       | Some i \<Rightarrow>
           let c = memoryCells s ! i in
           bind_res (checked_int (remainingBlocks_KB c + requiredBlocks)) (\<lambda>r.
             sendMemoryMessage og pump msg
               (set_remaining i (if vmTotalBlocks_KB c < r then vmTotalBlocks_KB c else r) s))))"

definition schedulingMemory ::
  "(message \<Rightarrow> int option) \<Rightarrow> mem_pump \<Rightarrow> message \<Rightarrow> mem_manager \<Rightarrow> mem_manager res" where
  "schedulingMemory og pump msg s =
     (if arrivedOn msg ''fromNodeMemoryO'' \<or> arrivedOn msg ''fromNodeMemoryI'' then
        sendMemoryMessage og pump msg s
      else if remoteOperation msg then
        bind_res (getGate (mm_nodeGate s) (toVMMemoryI s)) (\<lambda>g. sendRequestMessage og pump msg g s)
      else if operation msg = SM_MEM_ALLOCATE then allocate_memory og pump msg s
      else if operation msg = SM_MEM_RELEASE then release_memory og pump msg s
      else sendMemoryMessage og pump msg s)"

subsection \<open>The message handlers\<close>

definition mem_processSelfMessage :: "string \<Rightarrow> mem_manager \<Rightarrow> mem_manager res" where
  "mem_processSelfMessage name s = Fail (Thrown ''processSelfMessage'')"

text \<open>\<^verbatim>\<open>new icancloud_App_MEM_Message ()\<close>.\<close>

definition new_mem_message :: "int \<Rightarrow> message" where
  "new_mem_message i = \<lparr>msg_id = i, payload = MemPayload 0, operation = 2 ^ 32 - 1,
     isResponse = False, remoteOperation = False, connectionId = -1, commId = -1,
     nextModuleIndex = 2 ^ 32 - 1, result_code = 0, uid = -1, pid = -1, arrival = ('''', 0),
     msg_trace = [], parentRequest = None, changing_state = '''', change_states_index = []\<rparr>"

definition migrationToMemoryContents :: "int \<Rightarrow> migration_fields \<Rightarrow> message \<Rightarrow> message" where
  "migrationToMemoryContents i mig sm =
     (let newMessage = (new_mem_message i)\<lparr>isResponse := isResponse sm,
            remoteOperation := remoteOperation sm, connectionId := connectionId sm,
            commId := commId sm, nextModuleIndex := nextModuleIndex sm, result_code := result_code sm,
            uid := uid sm, pid := pid sm, parentRequest := parentRequest sm, msg_trace := msg_trace sm\<rparr>
      in if 0 < memorySizeKB mig then newMessage\<lparr>operation := SM_MEM_ALLOCATE,
           payload := MemPayload (nat (memorySizeKB mig div MEM_KB))\<rparr>
         else if memorySizeKB mig < 0 then newMessage\<lparr>operation := SM_MEM_RELEASE,
           payload := MemPayload (nat (\<bar>memorySizeKB mig\<bar> div MEM_KB))\<rparr>
         else newMessage\<lparr>operation := SM_MEM_SEARCH\<rparr>)"

definition set_migration_size :: "int \<Rightarrow> message \<Rightarrow> message" where
  "set_migration_size kb m = (case payload m of
     NetPayload n \<Rightarrow> m\<lparr>payload := NetPayload (n\<lparr>migration_part :=
       map_option (\<lambda>g. g\<lparr>memorySizeKB := kb\<rparr>) (migration_part n)\<rparr>)\<rparr>
   | _ \<Rightarrow> m)"

text \<open>A message that has been sent is still written through its pointer.\<close>

fun write_sent :: "int \<Rightarrow> (message \<Rightarrow> message) \<Rightarrow> event \<Rightarrow> event" where
  "write_sent i f (Sent m d) = (if msg_id m = i then Sent (f m) d else Sent m d)"
| "write_sent i f (Deleted m) = Deleted m"

fun sent_id :: "int \<Rightarrow> event \<Rightarrow> bool" where
  "sent_id i (Sent m d) = (msg_id m = i)"
| "sent_id i (Deleted m) = False"

definition write_in_flight :: "int \<Rightarrow> (message \<Rightarrow> message) \<Rightarrow> 'a module_state_scheme \<Rightarrow> 'a module_state_scheme" where
  "write_in_flight i f s = s\<lparr>outbox := rev (update_first (sent_id i) (write_sent i f) (rev (outbox s)))\<rparr>"

definition change_memory_state ::
  "(message \<Rightarrow> int) \<Rightarrow> (message \<Rightarrow> int option) \<Rightarrow> mem_pump \<Rightarrow> message \<Rightarrow> mem_manager \<Rightarrow> mem_manager res" where
  "change_memory_state newId og pump msg s =
     bind_res (if changing_state msg \<noteq> ''off'' \<and> \<not> nodeOn s \<and> memory_overhead_MB s \<noteq> 0 then
         sendRequestMessage og pump ((new_mem_message (newId msg))\<lparr>operation := SM_MEM_ALLOCATE,
             uid := 0, pid := module_id s, payload := MemPayload (nat (to_unsigned (memory_overhead_MB s * 1024)))\<rparr>)
           toNodeMemoryI (s\<lparr>nodeOn := True\<rparr>)
       else Ok s) (sendRequestMessage og pump msg toNodeMemoryI)"

definition release_migrated ::
  "(message \<Rightarrow> int) \<Rightarrow> (message \<Rightarrow> int option) \<Rightarrow> mem_pump \<Rightarrow> migration_fields \<Rightarrow> message
     \<Rightarrow> mem_manager \<Rightarrow> (message \<times> mem_manager) res" where
  "release_migrated newId og pump mig msg s =
     (if memorySizeKB mig \<noteq> 0 then
        let sm_mem = (migrationToMemoryContents (newId msg) mig msg)\<lparr>operation := SM_MEM_RELEASE\<rparr>;
            memSize = (case cast_mem sm_mem of None \<Rightarrow> 0 | Some n \<Rightarrow> int n);
            msg = set_migration_size (memSize div MEM_KB) msg
        in bind_res (sendRequestMessage og pump sm_mem toNodeMemoryI s) (\<lambda>s. Ok (msg, s))
      else Ok (msg, s))"

definition answer_migrated :: "mem_pump \<Rightarrow> message \<Rightarrow> mem_manager \<Rightarrow> mem_manager res" where
  "answer_migrated pump msg s =
     bind_res (sendResponseMessage pump (msg\<lparr>result_code := RETURN_MESSAGE, isResponse := True\<rparr>) s) (\<lambda>s.
       Ok (write_in_flight (msg_id msg) (\<lambda>m. m\<lparr>result_code := MEMORY_DATA\<rparr>) s))"

definition get_migration_data ::
  "(message \<Rightarrow> int) \<Rightarrow> (message \<Rightarrow> int option) \<Rightarrow> mem_pump \<Rightarrow> message \<Rightarrow> mem_manager \<Rightarrow> mem_manager res" where
  "get_migration_data newId og pump msg s = (case cast_migration msg of
     None \<Rightarrow> Fail (Thrown ''check_and_cast'')
   | Some mig \<Rightarrow> bind_res (release_migrated newId og pump mig msg s) (\<lambda>(msg, s). answer_migrated pump msg s))"

definition mem_processRequestMessage ::
  "(message \<Rightarrow> int) \<Rightarrow> (message \<Rightarrow> int option) \<Rightarrow> mem_pump \<Rightarrow> message \<Rightarrow> mem_manager \<Rightarrow> mem_manager res" where
  "mem_processRequestMessage newId og pump msg s =
     (if operation msg = SM_CHANGE_DISK_STATE then
        bind_res (getGate (snd (arrival msg)) (toVMMemoryO s)) (\<lambda>g. sendRequestMessage og pump msg g s)
      else if operation msg = SM_CHANGE_MEMORY_STATE then change_memory_state newId og pump msg s
      else if operation msg = ALLOCATE_MIGRATION_DATA then
        (case cast_migration msg of
           None \<Rightarrow> Fail (Thrown ''check_and_cast'')
         | Some mig \<Rightarrow>
             let sm_mem = migrationToMemoryContents (newId msg) mig msg in
             bind_res (sendResponseMessage pump (msg\<lparr>isResponse := True\<rparr>) s)
               (schedulingMemory og pump sm_mem))
      else if operation msg = GET_MIGRATION_DATA \<or> operation msg = GET_MIGRATION_CONNECTIONS then
        get_migration_data newId og pump msg s
      else if operation msg \<in> set file_operations then
        (if remoteOperation msg then
           bind_res (getGate (mm_nodeGate s) (toVMMemoryI s)) (\<lambda>g. sendRequestMessage og pump msg g s)
         else bind_res (getGate (case getVMGateIdx (uid msg) (pid msg) s of
                  None \<Rightarrow> mm_nodeGate s | Some i \<Rightarrow> i) (toVMMemoryO s))
                (\<lambda>g. sendRequestMessage og pump msg g s))
      else schedulingMemory og pump msg s)"

definition mem_processResponseMessage :: "mem_pump \<Rightarrow> message \<Rightarrow> mem_manager \<Rightarrow> mem_manager res" where
  "mem_processResponseMessage pump msg s =
     (if result_code msg = MEMORY_DATA then Ok (emit (Deleted msg) s)
      else if uid msg = 0 \<and> module_id s = pid msg then Ok (emit (Deleted msg) s)
      else sendResponseMessage pump msg s)"

definition mem_handleMessage ::
  "(message \<Rightarrow> int) \<Rightarrow> (message \<Rightarrow> int option) \<Rightarrow> input \<Rightarrow> mem_manager \<Rightarrow> mem_manager res" where
  "mem_handleMessage newId og = handleMessage og mem_processSelfMessage
     (mem_processRequestMessage newId og) mem_processResponseMessage"

subsection \<open>Frames\<close>

lemma mem_more:
  assumes "module_state.more s' = module_state.more (s :: mem_manager)"
  shows "memoryCells s' = memoryCells s" "blockSize_KB s' = blockSize_KB s" "mem_vms s' = mem_vms s"
    "toVMMemoryI s' = toVMMemoryI s" "toVMMemoryO s' = toVMMemoryO s"
    "fromVMMemoryI s' = fromVMMemoryI s" "fromVMMemoryO s' = fromVMMemoryO s"
    "totalMemory_Blocks s' = totalMemory_Blocks s"
    "memoryAvailable_Blocks s' = memoryAvailable_Blocks s" "mm_nodeGate s' = mm_nodeGate s"
  using assms by (cases s; cases s'; simp)+

text \<open>
  What every handler leaves alone: the queue of the base class, and everything of the manager but
  the remaining blocks of the cells and the power state.
\<close>

definition mem_frame :: "mem_manager \<Rightarrow> mem_manager \<Rightarrow> bool" where
  "mem_frame s s' \<longleftrightarrow> queue s' = queue s \<and> latencyScheduled s' = latencyScheduled s \<and>
     blockSize_KB s' = blockSize_KB s \<and> mem_vms s' = mem_vms s \<and> mm_nodeGate s' = mm_nodeGate s \<and>
     toVMMemoryI s' = toVMMemoryI s \<and> toVMMemoryO s' = toVMMemoryO s \<and>
     fromVMMemoryI s' = fromVMMemoryI s \<and> fromVMMemoryO s' = fromVMMemoryO s \<and>
     totalMemory_Blocks s' = totalMemory_Blocks s \<and>
     memoryAvailable_Blocks s' = memoryAvailable_Blocks s"

lemma mem_frame_refl [simp]: "mem_frame s s"
  by (simp add: mem_frame_def)

lemma mem_frame_trans: "mem_frame s t \<Longrightarrow> mem_frame t u \<Longrightarrow> mem_frame s u"
  by (simp add: mem_frame_def)

lemma mem_frame_updates [simp]:
  "mem_frame (set_remaining i r s) s' = mem_frame s s'" "mem_frame s (set_remaining i r s') = mem_frame s s'"
  "mem_frame s (emit e s') = mem_frame s s'" "mem_frame s (write_in_flight k f s') = mem_frame s s'"
  "mem_frame (s\<lparr>nodeOn := b\<rparr>) s' = mem_frame s s'"
  by (simp_all add: mem_frame_def set_remaining_def emit_def write_in_flight_def)

lemma set_remaining_cells [simp]:
  "memoryCells (set_remaining i r s) = (memoryCells s)[i := (memoryCells s ! i)\<lparr>remainingBlocks_KB := r\<rparr>]"
  "queue (set_remaining i r s) = queue s" "outbox (set_remaining i r s) = outbox s"
  by (simp_all add: set_remaining_def)

lemma write_in_flight_cells [simp]:
  "memoryCells (write_in_flight i f s) = memoryCells s" "queue (write_in_flight i f s) = queue s"
  by (simp_all add: write_in_flight_def)

definition sent_one :: "message \<Rightarrow> mem_manager \<Rightarrow> mem_manager \<Rightarrow> bool" where
  "sent_one m s s' \<longleftrightarrow> mem_frame s s' \<and> memoryCells s' = memoryCells s \<and>
     (\<exists>t d. outbox s' = outbox s @ [Sent (m\<lparr>msg_trace := t\<rparr>) d])"

lemma sendRequest_one: "sendRequestMessage og Ok m g (s :: mem_manager) = Ok s' \<Longrightarrow> sent_one m s s'"
  using sendRequestMessage_frame[of og m g s s'] mem_more[of s' s] by (auto simp: sent_one_def mem_frame_def)

lemma sendResponse_one: "sendResponseMessage Ok m (s :: mem_manager) = Ok s' \<Longrightarrow> sent_one m s s'"
  using sendResponseMessage_frame[of m s s'] mem_more[of s' s] by (auto simp: sent_one_def mem_frame_def)

lemma sendMemory_frame:
  assumes "sendMemoryMessage og Ok m s = Ok s'"
  shows "mem_frame s s' \<and> memoryCells s' = memoryCells s \<and>
    (\<exists>t e. outbox s' = outbox s @ [e] \<and> (e = Deleted m \<or> (\<exists>d. e = Sent (m\<lparr>msg_trace := t\<rparr>) d)))"
proof -
  have one: "sendRequestMessage og Ok m g s = Ok s' \<Longrightarrow> ?thesis" for g
    using sendRequest_one[of og m g s s'] by (auto simp: sent_one_def)
  have del: "emit (Deleted m) s = s' \<Longrightarrow> ?thesis" by (auto simp: mem_frame_def emit_def)
  from assms show ?thesis
    unfolding sendMemoryMessage_def
    by (simp only: bind_res_Ok_iff res.inject res.distinct split: if_split_asm option.splits)
       (use one del in blast)+
qed

subsection \<open>Under the base class\<close>

lemma sendMemory_idle:
  fixes s :: mem_manager
  assumes "queue s = []" "\<And>t. queue t = [] \<Longrightarrow> p t = Ok t"
  shows "sendMemoryMessage og p m s = sendMemoryMessage og Ok m s"
  using sendRequestMessage_idle[OF assms]
  by (auto simp: sendMemoryMessage_def split: option.split intro!: bind_res_cong)

lemma scheduling_idle:
  assumes "queue s = []" "\<And>t. queue t = [] \<Longrightarrow> p t = Ok t"
  shows "schedulingMemory og p m s = schedulingMemory og Ok m s"
proof -
  have send: "sendMemoryMessage og p n t = sendMemoryMessage og Ok n t"
      "sendResponseMessage p n t = sendResponseMessage Ok n t"
    if "queue t = []" for n t
    using sendMemory_idle[OF that assms(2)] sendResponseMessage_idle[OF that assms(2)] by auto
  show ?thesis
    using assms(1) send sendRequestMessage_idle[OF assms]
    by (auto simp: schedulingMemory_def allocate_memory_def release_memory_def Let_def
        split: option.split intro!: bind_res_cong)
qed

definition refused :: "message \<Rightarrow> message" where
  "refused m = m\<lparr>result_code := SM_NOT_ENOUGH_MEMORY, isResponse := True\<rparr>"

definition non_negative :: "nat \<Rightarrow> mem_manager \<Rightarrow> mem_manager" where
  "non_negative i s = (if remainingBlocks_KB (memoryCells s ! i) < 0 then set_remaining i 0 s else s)"

lemma allocate_cases:
  assumes "allocate_memory og Ok m s = Ok s'"
  obtains n blocks i where "cast_mem m = Some n" "requestedSizeToBlocks (blockSize_KB s) (int n) = Ok blocks"
    "index_of (same_vm (uid m) (pid m)) (memoryCells s) = Some i"
    "remainingBlocks_KB (memoryCells s ! i) \<le> to_signed blocks"
    "sendResponseMessage Ok (refused m) (non_negative i s) = Ok s'"
  | n blocks i where "cast_mem m = Some n" "requestedSizeToBlocks (blockSize_KB s) (int n) = Ok blocks"
    "index_of (same_vm (uid m) (pid m)) (memoryCells s) = Some i"
    "to_signed blocks < remainingBlocks_KB (memoryCells s ! i)"
    "sendMemoryMessage og Ok m (set_remaining i (remainingBlocks_KB (memoryCells s ! i) - to_signed blocks)
       (non_negative i s)) = Ok s'"
proof -
  obtain n where n: "cast_mem m = Some n"
    using assms by (cases "cast_mem m") (auto simp: allocate_memory_def)
  obtain blocks where bl: "requestedSizeToBlocks (blockSize_KB s) (int n) = Ok blocks"
    using assms n by (auto simp: allocate_memory_def bind_res_Ok_iff)
  obtain i where i: "index_of (same_vm (uid m) (pid m)) (memoryCells s) = Some i"
    using assms n bl by (cases "index_of (same_vm (uid m) (pid m)) (memoryCells s)")
      (auto simp: allocate_memory_def)
  let ?t = "remainingBlocks_KB (memoryCells s ! i) - to_signed blocks"
  have r: "(if ?t \<le> 0 then sendResponseMessage Ok (refused m) (non_negative i s)
      else sendMemoryMessage og Ok m (set_remaining i ?t (non_negative i s))) = Ok s'"
    using assms
    by (simp add: allocate_memory_def n bl i bind_res_Ok_iff checked_int_Ok Let_def refused_def
        non_negative_def split: if_split_asm)
  show ?thesis
  proof (cases "?t \<le> 0")
    case True
    with r show ?thesis using that(1)[OF n bl i] by simp
  next
    case False
    with r show ?thesis using that(2)[OF n bl i] by simp
  qed
qed

lemma release_cases:
  assumes "release_memory og Ok m s = Ok s'"
  obtains n blocks i r where "cast_mem m = Some n" "requestedSizeToBlocks (blockSize_KB s) (int n) = Ok blocks"
    "index_of (\<lambda>c. c_uId c = uid m) (memoryCells s) = Some i"
    "r = min (vmTotalBlocks_KB (memoryCells s ! i)) (remainingBlocks_KB (memoryCells s ! i) + to_signed blocks)"
    "sendMemoryMessage og Ok m (set_remaining i r s) = Ok s'"
proof -
  obtain n where n: "cast_mem m = Some n"
    using assms by (cases "cast_mem m") (auto simp: release_memory_def)
  obtain blocks where bl: "requestedSizeToBlocks (blockSize_KB s) (int n) = Ok blocks"
    using assms n by (auto simp: release_memory_def bind_res_Ok_iff)
  obtain i where i: "index_of (\<lambda>c. c_uId c = uid m) (memoryCells s) = Some i"
    using assms n bl by (cases "index_of (\<lambda>c. c_uId c = uid m) (memoryCells s)")
      (auto simp: release_memory_def)
  show ?thesis
    by (rule that[OF n bl i refl])
      (use assms in \<open>simp add: release_memory_def n bl i bind_res_Ok_iff checked_int_Ok Let_def min_def
        split: if_split_asm\<close>)
qed

lemma non_negative_frame [simp]:
  "mem_frame (non_negative i s) s' = mem_frame s s'" "mem_frame s (non_negative i s') = mem_frame s s'"
  "queue (non_negative i s) = queue s" "outbox (non_negative i s) = outbox s"
  by (simp_all add: non_negative_def)

lemma alloc_frame: "allocate_memory og Ok m s = Ok s' \<Longrightarrow> mem_frame s s'"
  by (erule allocate_cases) (auto simp: sent_one_def dest!: sendMemory_frame sendResponse_one)

lemma release_frame: "release_memory og Ok m s = Ok s' \<Longrightarrow> mem_frame s s'"
  by (erule release_cases) (auto dest!: sendMemory_frame)

lemma scheduling_frame: "schedulingMemory og Ok m s = Ok s' \<Longrightarrow> mem_frame s s'"
  by (auto simp: schedulingMemory_def bind_res_Ok_iff sent_one_def
      dest: sendMemory_frame alloc_frame release_frame sendRequest_one split: if_split_asm)

lemma change_state_frame:
  "change_memory_state newId og Ok m s = Ok s' \<Longrightarrow> mem_frame s s' \<and> memoryCells s' = memoryCells s"
  by (auto simp: change_memory_state_def bind_res_Ok_iff sent_one_def
      dest!: sendRequest_one intro: mem_frame_trans split: if_split_asm)

lemma release_migrated_frame:
  "release_migrated newId og Ok mig m s = Ok (n, t) \<Longrightarrow> mem_frame s t \<and> memoryCells t = memoryCells s"
  by (auto simp: release_migrated_def Let_def bind_res_Ok_iff sent_one_def
      dest!: sendRequest_one split: if_split_asm)

lemma answer_migrated_frame:
  "answer_migrated Ok m s = Ok s' \<Longrightarrow> mem_frame s s' \<and> memoryCells s' = memoryCells s"
  by (auto simp: answer_migrated_def bind_res_Ok_iff sent_one_def dest!: sendResponse_one)

lemma get_migration_frame:
  "get_migration_data newId og Ok m s = Ok s' \<Longrightarrow> mem_frame s s' \<and> memoryCells s' = memoryCells s"
  by (auto simp: get_migration_data_def bind_res_Ok_iff dest!: release_migrated_frame answer_migrated_frame
      intro: mem_frame_trans split: option.splits)

lemma mem_frame_queue: "mem_frame s s' \<Longrightarrow> queue s = [] \<Longrightarrow> queue s' = []"
  by (simp add: mem_frame_def)

lemma request_frame:
  assumes "mem_processRequestMessage newId og Ok m s = Ok s'"
  shows "mem_frame s s'"
proof -
  have alloc: "mem_frame s s'" if "sendResponseMessage Ok n s = Ok t" "schedulingMemory og Ok k t = Ok s'" for n k t
    using sendResponse_one[OF that(1)] scheduling_frame[OF that(2)] mem_frame_trans by (auto simp: sent_one_def)
  show ?thesis using assms
    by (auto simp: mem_processRequestMessage_def Let_def bind_res_Ok_iff sent_one_def
        dest: scheduling_frame change_state_frame get_migration_frame sendRequest_one alloc
        split: if_split_asm option.splits)
qed

lemma mem_request_idle:
  assumes "queue s = []" "\<And>t. queue t = [] \<Longrightarrow> p t = Ok t"
  shows "mem_processRequestMessage newId og p m s = mem_processRequestMessage newId og Ok m s"
proof -
  note req = sendRequestMessage_idle[OF _ assms(2)] and resp = sendResponseMessage_idle[OF _ assms(2)]
  have q1: "sendResponseMessage Ok n s = Ok t \<Longrightarrow> queue t = []" for n t
    using sendResponse_one assms(1) by (auto simp: sent_one_def mem_frame_def)
  have q3: "sendRequestMessage og Ok n g (s\<lparr>nodeOn := True\<rparr>) = Ok t \<Longrightarrow> queue t = []" for n g t
    using sendRequest_one[of og n g "s\<lparr>nodeOn := True\<rparr>" t] assms(1) by (auto simp: sent_one_def mem_frame_def)
  have change: "change_memory_state newId og p m s = change_memory_state newId og Ok m s"
  proof (cases "changing_state m \<noteq> ''off'' \<and> \<not> nodeOn s \<and> memory_overhead_MB s \<noteq> 0")
    case True
    then show ?thesis
      unfolding change_memory_state_def if_P[OF True] using assms(1)
      by (intro bind_res_cong) (auto simp: req dest: q3)
  next
    case False
    then show ?thesis unfolding change_memory_state_def if_not_P[OF False] using assms(1) by (simp add: req)
  qed
  have rel: "release_migrated newId og p mig m s = release_migrated newId og Ok mig m s" for mig
    using assms(1) by (simp add: release_migrated_def Let_def req)
  have ans: "answer_migrated p n t = answer_migrated Ok n t" if "queue t = []" for n t
    using resp[OF that] by (simp add: answer_migrated_def)
  have get: "get_migration_data newId og p m s = get_migration_data newId og Ok m s"
    unfolding get_migration_data_def rel using assms(1)
    by (auto simp: ans mem_frame_def dest!: release_migrated_frame split: option.split intro!: bind_res_cong)
  show ?thesis
    unfolding mem_processRequestMessage_def Let_def
    using assms(1) scheduling_idle[OF _ assms(2)] q1
    by (auto simp: req resp change get split: option.split intro!: bind_res_cong)
qed

interpretation mem: message_module og mem_processSelfMessage "mem_processRequestMessage newId og"
    mem_processResponseMessage for og newId
proof (unfold_locales, goal_cases)
  case (1 s p m) then show ?case by (rule mem_request_idle)
next
  case (2 s p m)
  then show ?case using sendResponseMessage_idle[of s p] by (auto simp: mem_processResponseMessage_def)
next
  case (3 s m s') then show ?case using request_frame by (auto simp: mem_frame_def)
next
  case (4 s m s')
  then show ?case
    by (auto simp: mem_processResponseMessage_def sent_one_def mem_frame_def
        dest!: sendResponse_one split: if_split_asm)
next
  case (5 s n s') then show ?case by (simp add: mem_processSelfMessage_def)
qed

subsection \<open>Bounds of the cells\<close>

definition cells_ok :: "mem_manager \<Rightarrow> bool" where
  "cells_ok s \<longleftrightarrow> (\<forall>c\<in>set (memoryCells s). 0 \<le> remainingBlocks_KB c \<and> remainingBlocks_KB c \<le> vmTotalBlocks_KB c)"

definition cell_ids :: "mem_manager \<Rightarrow> (int \<times> int \<times> nat \<times> int) list" where
  "cell_ids s = map (\<lambda>c. (c_uId c, c_pId c, vmGate c, vmTotalBlocks_KB c)) (memoryCells s)"

definition size_fits :: "message \<Rightarrow> bool" where
  "size_fits m \<longleftrightarrow> (\<forall>n. cast_mem m = Some n \<longrightarrow> int n < 2 ^ 31) \<and>
     (\<forall>g. cast_migration m = Some g \<longrightarrow> \<bar>memorySizeKB g\<bar> \<le> 2 ^ 31)"

text \<open>A handler changes nothing of the cells but what remains in them, within the bounds.\<close>

definition cells_kept :: "mem_manager \<Rightarrow> mem_manager \<Rightarrow> bool" where
  "cells_kept s s' \<longleftrightarrow> mem_frame s s' \<and> cell_ids s' = cell_ids s \<and> (cells_ok s \<longrightarrow> cells_ok s')"

lemma cells_keptI: "mem_frame s s' \<Longrightarrow> memoryCells s' = memoryCells s \<Longrightarrow> cells_kept s s'"
  by (simp add: cells_kept_def cell_ids_def cells_ok_def)

lemma cells_kept_trans: "cells_kept s t \<Longrightarrow> cells_kept t u \<Longrightarrow> cells_kept s u"
  by (auto simp: cells_kept_def intro: mem_frame_trans)

lemma blocks_bound:
  assumes "requestedSizeToBlocks bs k = Ok b" "0 < bs" "0 \<le> k" "k < 2 ^ 31"
  shows "0 \<le> b" "b < 2 ^ 31" "to_signed b = b"
proof -
  have k: "to_unsigned k = k" using assms(3,4) by simp
  have "- k \<le> (- k) div bs"
  proof (cases "k = 0")
    case False
    then show ?thesis using assms(2,3) zdiv_mono2_neg[of "- k" 1 bs] by simp
  qed simp
  then have "0 \<le> b \<and> b \<le> k" using assms(1,2) k by (auto simp: requestedSizeToBlocks_def Let_def split: if_splits)
  then show "0 \<le> b" "b < 2 ^ 31" "to_signed b = b" using assms(4) by simp_all
qed

lemma set_remaining_kept:
  assumes "i < length (memoryCells s)"
    and "cells_ok s \<longrightarrow> 0 \<le> r \<and> r \<le> vmTotalBlocks_KB (memoryCells s ! i)"
  shows "cells_kept s (set_remaining i r s)"
proof -
  have "cell_ids (set_remaining i r s) = cell_ids s"
    using assms(1) by (simp add: cell_ids_def map_update list_update_same_conv)
  moreover have "cells_ok s \<Longrightarrow> cells_ok (set_remaining i r s)"
    using assms by (auto simp: cells_ok_def dest: in_set_update)
  ultimately show ?thesis by (simp add: cells_kept_def)
qed

lemma non_negative_ok:
  assumes "cells_ok s" "i < length (memoryCells s)"
  shows "non_negative i s = s"
proof -
  have "0 \<le> remainingBlocks_KB (memoryCells s ! i)"
    using assms(1) nth_mem[OF assms(2)] unfolding cells_ok_def by blast
  then show ?thesis by (simp add: non_negative_def)
qed

lemma size_fits_mem:
  assumes "size_fits m" "cast_mem m = Some n" "requestedSizeToBlocks (blockSize_KB s) (int n) = Ok b"
    "0 < blockSize_KB s"
  shows "0 \<le> b" "to_signed b = b"
  using blocks_bound[OF assms(3,4)] assms(1,2) by (simp_all add: size_fits_def)

lemma alloc_kept:
  assumes "allocate_memory og Ok m s = Ok s'" "0 < blockSize_KB s" "size_fits m" "cells_ok s"
  shows "cells_kept s s'"
  using assms(1)
proof (cases rule: allocate_cases)
  case (1 n b i)
  then have "non_negative i s = s" using non_negative_ok[OF assms(4)] index_of_bound by blast
  with sendResponse_one[OF 1(5)] show ?thesis by (auto simp: sent_one_def intro: cells_keptI)
next
  case (2 n b i)
  have i: "i < length (memoryCells s)" using index_of_bound[OF 2(3)] .
  note b = size_fits_mem[OF assms(3) 2(1,2) assms(2)]
  have c: "remainingBlocks_KB (memoryCells s ! i) \<le> vmTotalBlocks_KB (memoryCells s ! i)"
    using assms(4) i nth_mem[OF i] by (auto simp: cells_ok_def)
  let ?t = "set_remaining i (remainingBlocks_KB (memoryCells s ! i) - b) s"
  have "cells_kept s ?t" by (rule set_remaining_kept[OF i]) (use 2(4) b c in simp)
  moreover have "cells_kept ?t s'"
    using sendMemory_frame[OF 2(5)] non_negative_ok[OF assms(4) i] b by (auto intro: cells_keptI)
  ultimately show ?thesis by (rule cells_kept_trans)
qed

lemma release_kept:
  assumes "release_memory og Ok m s = Ok s'" "0 < blockSize_KB s" "size_fits m" "cells_ok s"
  shows "cells_kept s s'"
  using assms(1)
proof (cases rule: release_cases)
  case (1 n b i r)
  have i: "i < length (memoryCells s)" using index_of_bound[OF 1(3)] .
  note b = size_fits_mem[OF assms(3) 1(1,2) assms(2)]
  have c: "0 \<le> remainingBlocks_KB (memoryCells s ! i)" "remainingBlocks_KB (memoryCells s ! i) \<le> vmTotalBlocks_KB (memoryCells s ! i)"
    using assms(4) i nth_mem[OF i] by (auto simp: cells_ok_def)
  have "cells_kept s (set_remaining i r s)" by (rule set_remaining_kept[OF i]) (use 1(4) b c in simp)
  moreover have "cells_kept (set_remaining i r s) s'"
    using sendMemory_frame[OF 1(5)] by (auto intro: cells_keptI)
  ultimately show ?thesis by (rule cells_kept_trans)
qed

lemma scheduling_kept:
  assumes "schedulingMemory og Ok m s = Ok s'" "0 < blockSize_KB s" "size_fits m" "cells_ok s"
  shows "cells_kept s s'"
proof -
  have send: "sendMemoryMessage og Ok m s = Ok s' \<Longrightarrow> ?thesis"
    using sendMemory_frame by (auto intro: cells_keptI)
  have sent: "sendRequestMessage og Ok m g s = Ok s' \<Longrightarrow> ?thesis" for g
    using sendRequest_one by (auto simp: sent_one_def intro: cells_keptI)
  show ?thesis using assms(1) send sent alloc_kept[OF _ assms(2-4)] release_kept[OF _ assms(2-4)]
    by (auto simp: schedulingMemory_def bind_res_Ok_iff split: if_split_asm)
qed

lemma migrated_fits:
  assumes "size_fits m" "cast_migration m = Some g"
  shows "size_fits (migrationToMemoryContents i g m)"
proof -
  have "\<bar>memorySizeKB g\<bar> \<le> 2 ^ 31" using assms by (simp add: size_fits_def)
  then have "\<bar>memorySizeKB g\<bar> div 1024 < 2 ^ 31" by simp
  then show ?thesis
    by (auto simp: size_fits_def migrationToMemoryContents_def new_mem_message_def Let_def cast_mem_def
        cast_migration_def MEM_KB_def)
qed

lemma request_kept:
  assumes "mem_processRequestMessage newId og Ok m s = Ok s'" "0 < blockSize_KB s" "size_fits m" "cells_ok s"
  shows "cells_kept s s'"
proof -
  have sent: "sendRequestMessage og Ok m g s = Ok s' \<Longrightarrow> ?thesis" for g
    using sendRequest_one by (auto simp: sent_one_def intro: cells_keptI)
  have alloc: "?thesis" if g: "cast_migration m = Some g" and r: "sendResponseMessage Ok (m\<lparr>isResponse := True\<rparr>) s = Ok t"
    and a: "schedulingMemory og Ok (migrationToMemoryContents (newId m) g m) t = Ok s'" for g t
  proof -
    have t: "mem_frame s t" "memoryCells t = memoryCells s" using sendResponse_one[OF r] by (simp_all add: sent_one_def)
    have "cells_kept t s'"
      by (rule scheduling_kept[OF a _ migrated_fits[OF assms(3) g]])
        (use t assms(2,4) in \<open>simp_all add: mem_frame_def cells_ok_def\<close>)
    with cells_keptI[OF t] show ?thesis by (rule cells_kept_trans)
  qed
  show ?thesis
    using assms(1) sent alloc scheduling_kept[OF _ assms(2-4)] cells_keptI change_state_frame get_migration_frame
    by (auto simp: mem_processRequestMessage_def Let_def bind_res_Ok_iff split: if_split_asm option.splits)
qed

lemma cells_kept_start:
  assumes "cells_kept t s'" "mem_frame s t" "memoryCells t = memoryCells s"
  shows "cells_kept s s'"
  using cells_keptI[OF assms(2,3)] assms(1) by (rule cells_kept_trans)

lemma handle_kept:
  assumes "queue s = []" "\<not> latencyScheduled s" "0 < blockSize_KB s" "cells_ok s" "size_fits m"
    and "mem_handleMessage newId og (Incoming m) s = Ok s'"
  shows "cells_kept s s'"
proof (cases "isResponse m")
  case True
  have "mem_processResponseMessage Ok m s = Ok s'"
    using mem.handle_response[OF assms(1) True] assms(6) by (simp add: mem_handleMessage_def)
  then show ?thesis
    by (auto simp: mem_processResponseMessage_def sent_one_def intro!: cells_keptI
        dest!: sendResponse_one split: if_split_asm) (simp add: emit_def)+
next
  case False
  with assms(6) mem.handle_request[OF assms(1,2) False, of og] obtain m1 s1
    where u: "updateMessageTrace og m s = Ok (m1, s1)"
      and r: "mem_processRequestMessage newId og Ok m1 s1 = Ok s'"
    by (auto simp: mem_handleMessage_def bind_res_Ok_iff)
  note f = updateMessageTrace_frame[OF u]
  have "module_state.more s1 = module_state.more s" using f by blast
  note more = mem_more[OF this]
  from f obtain t where "m1 = m\<lparr>msg_trace := t\<rparr>" by blast
  then have "size_fits m1" using assms(5) by (simp add: size_fits_def cast_mem_def cast_migration_def)
  with more assms(3,4) have "cells_kept s1 s'"
    by (intro request_kept[OF r]) (simp_all add: cells_ok_def)
  then show ?thesis by (rule cells_kept_start) (use f more in \<open>simp_all add: mem_frame_def\<close>)
qed

subsection \<open>The machines of the manager\<close>

definition gates_locked :: "nat list \<times> bool list \<Rightarrow> mem_manager \<Rightarrow> bool" where
  "gates_locked sh s \<longleftrightarrow> in_step sh ''toVMMemoryI'' (toVMMemoryI s) \<and> in_step sh ''toVMMemoryO'' (toVMMemoryO s) \<and>
     in_step sh ''fromVMMemoryI'' (fromVMMemoryI s) \<and> in_step sh ''fromVMMemoryO'' (fromVMMemoryO s)"

text \<open>
  The gate numbers in use are 0, for the node, and the different numbers of the machines.
\<close>

definition links_ok :: "mem_manager \<Rightarrow> bool" where
  "links_ok s \<longleftrightarrow> (\<exists>sh. gates_locked sh s \<and> shape_live sh = insert 0 (mc_gate ` set (mem_vms s))) \<and>
     distinct (0 # map mc_gate (mem_vms s))"

text \<open>
  The cells are that of the node and one for each machine; with the totals \<open>ts\<close> of the machines
  the free blocks make up the memory of the node.
\<close>

definition cells_linked :: "int list \<Rightarrow> mem_manager \<Rightarrow> bool" where
  "cells_linked ts s \<longleftrightarrow> length ts = length (mem_vms s) \<and>
     (\<exists>T. cell_ids s = (0, 0, 0, T) # map (\<lambda>(v, t). (mc_uId v, mc_pId v, mc_gate v, t)) (zip (mem_vms s) ts)) \<and>
     memoryAvailable_Blocks s + sum_list ts = totalMemory_Blocks s \<and>
     (\<forall>v\<in>set (mem_vms s). mc_pId v \<noteq> 0)"

definition mem_inv :: "mem_manager \<Rightarrow> bool" where
  "mem_inv s \<longleftrightarrow> queue s = [] \<and> \<not> latencyScheduled s \<and> 0 < blockSize_KB s \<and> cells_ok s \<and> links_ok s \<and>
     (\<exists>ts. cells_linked ts s)"

lemma base_set_locked:
  assumes "gates_locked sh s"
  shows "\<exists>s'. base_setVM a b c d u p s = Ok (fst (shape_alloc sh), s') \<and> gates_locked (snd (shape_alloc sh)) s' \<and>
    mem_vms s' = mem_vms s @ [\<lparr>mc_gate = fst (shape_alloc sh), mc_uId = u, mc_pId = p\<rparr>] \<and>
    queue s' = queue s \<and> latencyScheduled s' = latencyScheduled s \<and> blockSize_KB s' = blockSize_KB s \<and>
    memoryCells s' = memoryCells s \<and> totalMemory_Blocks s' = totalMemory_Blocks s \<and>
    memoryAvailable_Blocks s' = memoryAvailable_Blocks s"
proof -
  let ?r = "shape_alloc sh"
  have st: "in_step sh ''toVMMemoryI'' (toVMMemoryI s)" "in_step sh ''toVMMemoryO'' (toVMMemoryO s)"
    "in_step sh ''fromVMMemoryO'' (fromVMMemoryO s)" "in_step sh ''fromVMMemoryI'' (fromVMMemoryI s)"
    using assms by (simp_all add: gates_locked_def)
  from in_step_out[OF st(1), of c] in_step_out[OF st(2), of d] in_step_in[OF st(3), of b] in_step_in[OF st(4), of a]
  obtain g1 g2 g3 g4 where
    "newGateOut ''toVMMemoryI'' c (toVMMemoryI s) = Ok (fst ?r, g1)" "in_step (snd ?r) ''toVMMemoryI'' g1"
    "newGateOut ''toVMMemoryO'' d (toVMMemoryO s) = Ok (fst ?r, g2)" "in_step (snd ?r) ''toVMMemoryO'' g2"
    "newGateIn ''fromVMMemoryO'' b (fromVMMemoryO s) = Ok (fst ?r, g3)" "in_step (snd ?r) ''fromVMMemoryO'' g3"
    "newGateIn ''fromVMMemoryI'' a (fromVMMemoryI s) = Ok (fst ?r, g4)" "in_step (snd ?r) ''fromVMMemoryI'' g4"
    by metis
  then show ?thesis by (simp add: base_setVM_def gates_locked_def)
qed

lemma base_free_locked:
  assumes "gates_locked sh s" "index_of (\<lambda>c. mc_uId c = u \<and> mc_pId c = p) (mem_vms s) = Some i"
    and "mc_gate (mem_vms s ! i) \<in> shape_live sh"
  shows "\<exists>s'. base_freeVM u p s = Ok s' \<and> gates_locked (shape_free (mc_gate (mem_vms s ! i)) sh) s' \<and>
    mem_vms s' = remove_at i (mem_vms s) \<and>
    queue s' = queue s \<and> latencyScheduled s' = latencyScheduled s \<and> blockSize_KB s' = blockSize_KB s \<and>
    memoryCells s' = memoryCells s \<and> totalMemory_Blocks s' = totalMemory_Blocks s \<and>
    memoryAvailable_Blocks s' = memoryAvailable_Blocks s"
proof -
  let ?g = "mc_gate (mem_vms s ! i)"
  have st: "in_step sh ''toVMMemoryI'' (toVMMemoryI s)" "in_step sh ''toVMMemoryO'' (toVMMemoryO s)"
    "in_step sh ''fromVMMemoryI'' (fromVMMemoryI s)" "in_step sh ''fromVMMemoryO'' (fromVMMemoryO s)"
    using assms(1) by (simp_all add: gates_locked_def)
  from in_step_free[OF st(1) assms(3)] in_step_free[OF st(2) assms(3)] in_step_free[OF st(3) assms(3)]
    in_step_free[OF st(4) assms(3)]
  obtain x1 x2 x3 x4 g1 g2 g3 g4 where
    "freeGate ?g (toVMMemoryI s) = Ok (x1, g1)" "in_step (shape_free ?g sh) ''toVMMemoryI'' g1"
    "freeGate ?g (toVMMemoryO s) = Ok (x2, g2)" "in_step (shape_free ?g sh) ''toVMMemoryO'' g2"
    "freeGate ?g (fromVMMemoryI s) = Ok (x3, g3)" "in_step (shape_free ?g sh) ''fromVMMemoryI'' g3"
    "freeGate ?g (fromVMMemoryO s) = Ok (x4, g4)" "in_step (shape_free ?g sh) ''fromVMMemoryO'' g4"
    by metis
  then show ?thesis by (simp add: base_freeVM_def assms(2) gates_locked_def Let_def)
qed

lemma cell_ids_frame: "memoryCells s' = memoryCells s \<Longrightarrow> cell_ids s' = cell_ids s"
  by (simp add: cell_ids_def)

lemma setVM_inv:
  assumes "mem_inv s" "0 \<le> kb" "kb < 2 ^ 31" "p \<noteq> 0" "mem_setVM a b c d u p kb s = Ok s'"
  shows "mem_inv s'"
proof -
  from assms(1) obtain sh ts where sh: "gates_locked sh s" "shape_live sh = insert 0 (mc_gate ` set (mem_vms s))"
    and di: "distinct (0 # map mc_gate (mem_vms s))" and ts: "cells_linked ts s"
    by (auto simp: mem_inv_def links_ok_def)
  let ?g = "fst (shape_alloc sh)"
  from base_set_locked[OF sh(1), of a b c d u p] obtain s1 where
    s1: "base_setVM a b c d u p s = Ok (?g, s1)" "gates_locked (snd (shape_alloc sh)) s1"
      "mem_vms s1 = mem_vms s @ [\<lparr>mc_gate = ?g, mc_uId = u, mc_pId = p\<rparr>]"
    and f: "queue s1 = queue s" "latencyScheduled s1 = latencyScheduled s" "blockSize_KB s1 = blockSize_KB s"
      "memoryCells s1 = memoryCells s" "totalMemory_Blocks s1 = totalMemory_Blocks s"
      "memoryAvailable_Blocks s1 = memoryAvailable_Blocks s" by blast
  from assms(5) s1(1) f(3) obtain bl where bl: "requestedSizeToBlocks (blockSize_KB s) kb = Ok bl"
    by (auto simp: mem_setVM_def bind_res_Ok_iff)
  have pos: "0 \<le> bl" "to_signed bl = bl" using blocks_bound[OF bl _ assms(2,3)] assms(1) by (simp_all add: mem_inv_def)
  have s': "s' = s1\<lparr>memoryCells := memoryCells s @ [\<lparr>c_uId = u, c_pId = p, vmGate = ?g, vmTotalBlocks_KB = bl,
      remainingBlocks_KB = bl\<rparr>], memoryAvailable_Blocks := memoryAvailable_Blocks s - bl\<rparr>"
    using assms(5) s1(1) f bl pos by (auto simp: mem_setVM_def bind_res_Ok_iff Let_def checked_int_Ok)
  have in1: "in_step sh ''toVMMemoryI'' (toVMMemoryI s)" using sh(1) by (simp add: gates_locked_def)
  note al = in_step_alloc_live[OF in1]
  have "links_ok s'"
    unfolding links_ok_def
  proof
    show "\<exists>sh. gates_locked sh s' \<and> shape_live sh = insert 0 (mc_gate ` set (mem_vms s'))"
      using s1(2,3) al(2) sh(2) s' by (intro exI[of _ "snd (shape_alloc sh)"]) (auto simp: gates_locked_def)
    show "distinct (0 # map mc_gate (mem_vms s'))" using di al(1) s1(3) s' sh(2) by auto
  qed
  moreover have "cells_linked (ts @ [bl]) s'"
    using ts s' s1(3) f assms(4) by (auto simp: cells_linked_def cell_ids_def)
  moreover have "cells_ok s'" using assms(1) pos s' by (auto simp: mem_inv_def cells_ok_def)
  ultimately show ?thesis using assms(1) s' f by (auto simp: mem_inv_def)
qed

lemma cells_position:
  assumes "cells_linked ts s"
  shows "index_of (\<lambda>c. c_uId c = u \<and> c_pId c = p) (memoryCells s) = (if u = 0 \<and> p = 0 then Some 0
    else map_option Suc (index_of (\<lambda>v. mc_uId v = u \<and> mc_pId v = p) (mem_vms s)))"
proof -
  have im: "index_of P (map f xs) = index_of (\<lambda>x. P (f x)) xs" for P and f :: "'x \<Rightarrow> 'y" and xs
    by (induction xs) auto
  have z: "length vs = length ts \<Longrightarrow> index_of (\<lambda>(v, t). P v) (zip vs ts) = index_of P vs" for P and vs :: "mem_control list" and ts :: "int list"
    by (induction vs ts rule: list_induct2) auto
  from assms obtain T where T: "length ts = length (mem_vms s)"
    "cell_ids s = (0, 0, 0, T) # map (\<lambda>(v, t). (mc_uId v, mc_pId v, mc_gate v, t)) (zip (mem_vms s) ts)"
    by (auto simp: cells_linked_def)
  have "index_of (\<lambda>c. c_uId c = u \<and> c_pId c = p) (memoryCells s) =
      index_of (\<lambda>(a, b, _). a = u \<and> b = p) (cell_ids s)" by (simp add: cell_ids_def im)
  also have "\<dots> = (if u = 0 \<and> p = 0 then Some 0 else map_option Suc
      (index_of (\<lambda>(v, t). mc_uId v = u \<and> mc_pId v = p) (zip (mem_vms s) ts)))"
    unfolding T(2) by (simp add: im case_prod_beta')
  finally show ?thesis using z[of "mem_vms s" ts "\<lambda>v. mc_uId v = u \<and> mc_pId v = p"] T(1) by simp
qed

lemma distinct_remove_at:
  "distinct (map f xs) \<Longrightarrow> i < length xs \<Longrightarrow>
   f ` set (remove_at i xs) = f ` set xs - {f (xs ! i)} \<and> distinct (map f (remove_at i xs))"
proof -
  assume d: "distinct (map f xs)" and i: "i < length xs"
  have "map f xs = take i (map f xs) @ f (xs ! i) # drop (Suc i) (map f xs)"
    using id_take_nth_drop[of i "map f xs"] i by simp
  with d have "distinct (take i (map f xs) @ f (xs ! i) # drop (Suc i) (map f xs))" by simp
  moreover have "f ` set xs = set (take i (map f xs) @ f (xs ! i) # drop (Suc i) (map f xs))"
    using id_take_nth_drop[of i "map f xs"] i by (metis length_map list.set_map nth_map)
  moreover have "f ` set (remove_at i xs) = set (take i (map f xs) @ drop (Suc i) (map f xs))"
    by (simp add: remove_at_def image_Un take_map drop_map)
  ultimately show ?thesis by (auto simp: remove_at_def take_map drop_map)
qed

lemma freeVM_inv:
  assumes "mem_inv s" "mem_freeVM u p s = Ok s'"
  shows "mem_inv s'"
proof -
  from assms(1) obtain sh ts where sh: "gates_locked sh s" "shape_live sh = insert 0 (mc_gate ` set (mem_vms s))"
    and di: "distinct (0 # map mc_gate (mem_vms s))" and ts: "cells_linked ts s"
    by (auto simp: mem_inv_def links_ok_def)
  have unk: "base_freeVM u p t = Fail (Thrown ''freeVM'')"
    if "index_of (\<lambda>v. mc_uId v = u \<and> mc_pId v = p) (mem_vms t) = None" for t
    by (simp add: base_freeVM_def that)
  obtain i where i: "index_of (\<lambda>v. mc_uId v = u \<and> mc_pId v = p) (mem_vms s) = Some i"
    using assms(2) unk by (cases "index_of (\<lambda>v. mc_uId v = u \<and> mc_pId v = p) (mem_vms s)")
      (auto simp: mem_freeVM_def bind_res_Ok_iff split: option.splits)
  note iv = i[THEN index_of_Some[THEN iffD1]]
  have vi: "mem_vms s ! i \<in> set (mem_vms s)" using iv by simp
  then have "mc_pId (mem_vms s ! i) \<noteq> 0" using ts unfolding cells_linked_def by blast
  then have "p \<noteq> 0" using iv by auto
  then have ci: "index_of (same_vm u p) (memoryCells s) = Some (Suc i)"
    using cells_position[OF ts, of u p] i by (simp add: same_vm_def[abs_def])
  define g where "g = mc_gate (mem_vms s ! i)"
  have tot: "vmTotalBlocks_KB (memoryCells s ! Suc i) = ts ! i"
  proof -
    have "Suc i < length (memoryCells s)" using index_of_bound[OF ci] .
    then have "cell_ids s ! Suc i = (\<lambda>c. (c_uId c, c_pId c, vmGate c, vmTotalBlocks_KB c)) (memoryCells s ! Suc i)"
      by (simp add: cell_ids_def)
    then show ?thesis using ts iv by (auto simp: cells_linked_def)
  qed
  define s1 where "s1 = s\<lparr>memoryAvailable_Blocks := memoryAvailable_Blocks s + ts ! i,
     memoryCells := remove_at (Suc i) (memoryCells s)\<rparr>"
  have b: "base_freeVM u p s1 = Ok s'"
    using assms(2) ci tot by (auto simp: mem_freeVM_def s1_def bind_res_Ok_iff checked_int_Ok)
  have "mc_gate (mem_vms s1 ! i) \<in> shape_live sh" using sh(2) vi by (simp add: s1_def)
  with base_free_locked[of sh s1 u p i] b i sh(1) have
    s': "gates_locked (shape_free g sh) s'" "mem_vms s' = remove_at i (mem_vms s)"
      "queue s' = queue s" "latencyScheduled s' = latencyScheduled s" "blockSize_KB s' = blockSize_KB s"
      "memoryCells s' = remove_at (Suc i) (memoryCells s)" "totalMemory_Blocks s' = totalMemory_Blocks s"
      "memoryAvailable_Blocks s' = memoryAvailable_Blocks s + ts ! i"
    by (auto simp: s1_def gates_locked_def g_def)
  have dg: "distinct (map mc_gate (mem_vms s))" "i < length (mem_vms s)" using di iv by auto
  note rm = distinct_remove_at[OF dg]
  have "g \<noteq> 0" using di vi by (force simp: g_def)
  then have live: "shape_live (shape_free g sh) = insert 0 (mc_gate ` set (mem_vms s'))"
    using s'(2) rm sh(2) by (auto simp: g_def shape_free_live)
  have "distinct (0 # map mc_gate (mem_vms s'))" using s'(2) rm di by auto
  with live s'(1) have "links_ok s'" unfolding links_ok_def by blast
  moreover have "cells_linked (remove_at i ts) s'"
  proof -
    from ts obtain T where T: "length ts = length (mem_vms s)"
      "cell_ids s = (0, 0, 0, T) # map (\<lambda>(v, t). (mc_uId v, mc_pId v, mc_gate v, t)) (zip (mem_vms s) ts)"
      "memoryAvailable_Blocks s + sum_list ts = totalMemory_Blocks s" "\<forall>v\<in>set (mem_vms s). mc_pId v \<noteq> 0"
      by (auto simp: cells_linked_def)
    have "cell_ids s' = remove_at (Suc i) (cell_ids s)" using s'(6) by (simp add: cell_ids_def remove_at_map)
    also have "\<dots> = (0, 0, 0, T) # map (\<lambda>(v, t). (mc_uId v, mc_pId v, mc_gate v, t))
        (zip (remove_at i (mem_vms s)) (remove_at i ts))"
      unfolding T(2) by (simp add: zip_remove_at T(1) remove_at_map)
    finally show ?thesis using T dg(2) s' set_remove_at[of i "mem_vms s"]
      by (auto simp: cells_linked_def length_remove_at sum_list_remove_at)
  qed
  moreover have "cells_ok s'"
    using assms(1) s'(6) set_remove_at[of "Suc i" "memoryCells s"] by (auto simp: mem_inv_def cells_ok_def)
  ultimately show ?thesis using assms(1) s'(3-5) unfolding mem_inv_def by auto
qed

lemma handle_inv:
  assumes "mem_inv s" "size_fits m" "mem_handleMessage newId og (Incoming m) s = Ok s'"
  shows "mem_inv s'"
proof -
  have k: "cells_kept s s'" using handle_kept[OF _ _ _ _ assms(2,3)] assms(1) by (simp add: mem_inv_def)
  then have "cells_ok s'" using assms(1) by (simp add: cells_kept_def mem_inv_def)
  moreover have "links_ok s' = links_ok s" "\<And>ts. cells_linked ts s' = cells_linked ts s"
    using k by (simp_all add: cells_kept_def mem_frame_def links_ok_def gates_locked_def cells_linked_def)
  ultimately show ?thesis using assms(1) k by (simp add: mem_inv_def cells_kept_def mem_frame_def)
qed

lemma initialize_inv:
  assumes "mem_initialize b bs mb ov = Ok s" "queue b = []" "\<not> latencyScheduled b" "0 < bs" "0 \<le> mb"
  shows "mem_inv s"
proof -
  have lk: "linkGate n 0 new_gate_manager = Ok \<lparr>holes = [], gates = [\<lparr>slot_gate = (n, 0), gateHit = True\<rparr>], commands = []\<rparr>"
    for n by (simp add: linkGate_def new_gate_manager_def)
  have st: "in_step ([], [True]) n \<lparr>holes = [], gates = [\<lparr>slot_gate = (n, 0), gateHit = True\<rparr>], commands = []\<rparr>" for n
    by (auto simp: in_step_def manager_ok_def gm_inv_def named_def gm_shape_def nth_Cons split: nat.split)
  from assms(1) obtain bl where kb: "mb * 1024 < 2 ^ 31" and bl: "requestedSizeToBlocks bs (mb * 1024) = Ok bl"
    and s: "s = \<lparr>queue = queue b, outbox = outbox b, currentRequest = currentRequest b,
      latencyScheduled = latencyScheduled b, module_id = module_id b, host_name = host_name b,
      mm_nodeGate = 0, blockSize_KB = bs, memorySize_MB = mb,
      fromVMMemoryI = \<lparr>holes = [], gates = [\<lparr>slot_gate = (''fromVMMemoryI'', 0), gateHit = True\<rparr>], commands = []\<rparr>,
      fromVMMemoryO = \<lparr>holes = [], gates = [\<lparr>slot_gate = (''fromVMMemoryO'', 0), gateHit = True\<rparr>], commands = []\<rparr>,
      toVMMemoryI = \<lparr>holes = [], gates = [\<lparr>slot_gate = (''toVMMemoryI'', 0), gateHit = True\<rparr>], commands = []\<rparr>,
      toVMMemoryO = \<lparr>holes = [], gates = [\<lparr>slot_gate = (''toVMMemoryO'', 0), gateHit = True\<rparr>], commands = []\<rparr>,
      mem_vms = [], memory_overhead_MB = ov, nodeOn = False,
      memoryCells = [\<lparr>c_uId = 0, c_pId = 0, vmGate = 0, vmTotalBlocks_KB = to_signed bl,
             remainingBlocks_KB = to_signed bl\<rparr>],
      totalMemory_Blocks = to_signed bl, memoryAvailable_Blocks = to_signed bl\<rparr>"
    by (auto simp: mem_initialize_def lk bind_res_Ok_iff checked_int_Ok Let_def)
  have "0 \<le> to_signed bl" using blocks_bound[OF bl assms(4) _ kb] assms(5) by simp
  moreover have "links_ok s"
    unfolding links_ok_def
    by (intro conjI exI[of _ "([], [True])"]) (auto simp: s gates_locked_def st shape_live_def)
  moreover have "cells_linked [] s" by (simp add: s cells_linked_def cell_ids_def)
  moreover have "queue s = []" "\<not> latencyScheduled s" "0 < blockSize_KB s" using assms(2-4) by (simp_all add: s)
  moreover have "cells_ok s \<longleftrightarrow> 0 \<le> to_signed bl" by (simp add: s cells_ok_def)
  ultimately show ?thesis unfolding mem_inv_def by blast
qed

subsection \<open>Reachable states\<close>

inductive mem_reachable :: "(message \<Rightarrow> int) \<Rightarrow> (message \<Rightarrow> int option) \<Rightarrow> mem_manager \<Rightarrow> bool"
  for newId og where
  start: "mem_initialize (base_initialize i host) bs mb ov = Ok s \<Longrightarrow> 0 < bs \<Longrightarrow> 0 \<le> mb \<Longrightarrow>
    mem_reachable newId og s"
| link: "mem_reachable newId og s \<Longrightarrow> 0 \<le> kb \<Longrightarrow> kb < 2 ^ 31 \<Longrightarrow> p \<noteq> 0 \<Longrightarrow>
    mem_setVM a b c d u p kb s = Ok s' \<Longrightarrow> mem_reachable newId og s'"
| unlink: "mem_reachable newId og s \<Longrightarrow> mem_freeVM u p s = Ok s' \<Longrightarrow> mem_reachable newId og s'"
| message: "mem_reachable newId og s \<Longrightarrow> size_fits m \<Longrightarrow>
    mem_handleMessage newId og (Incoming m) s = Ok s' \<Longrightarrow> mem_reachable newId og s'"

lemma mem_reachable_inv: "mem_reachable newId og s \<Longrightarrow> mem_inv s"
proof (induction rule: mem_reachable.induct)
  case (start i host bs mb ov s)
  then show ?case using initialize_inv by (auto simp: base_initialize_def)
qed (auto intro: setVM_inv freeVM_inv handle_inv)

lemma mem_inv_facts:
  assumes "mem_inv s"
  shows "memoryAvailable_Blocks s + sum_list (map vmTotalBlocks_KB (tl (memoryCells s))) = totalMemory_Blocks s"
    "distinct (map vmGate (memoryCells s))"
proof -
  from assms obtain ts T where T: "length ts = length (mem_vms s)"
    "cell_ids s = (0, 0, 0, T) # map (\<lambda>(v, t). (mc_uId v, mc_pId v, mc_gate v, t)) (zip (mem_vms s) ts)"
    "memoryAvailable_Blocks s + sum_list ts = totalMemory_Blocks s"
    and d: "distinct (0 # map mc_gate (mem_vms s))" by (auto simp: mem_inv_def cells_linked_def links_ok_def)
  have "map vmTotalBlocks_KB (tl (memoryCells s)) = map (\<lambda>(a, b, g, t). t) (tl (cell_ids s))"
    by (simp add: cell_ids_def map_tl comp_def)
  also have "\<dots> = ts" unfolding T(2) using T(1) by (simp add: case_prod_beta' comp_def map_snd_zip)
  finally show "memoryAvailable_Blocks s + sum_list (map vmTotalBlocks_KB (tl (memoryCells s))) = totalMemory_Blocks s"
    using T(3) by simp
  have "map vmGate (memoryCells s) = map (\<lambda>(a, b, g, t). g) (cell_ids s)" by (simp add: cell_ids_def)
  also have "\<dots> = 0 # map mc_gate (map fst (zip (mem_vms s) ts))"
    unfolding T(2) by (simp add: case_prod_beta' comp_def)
  finally show "distinct (map vmGate (memoryCells s))" using d T(1) by simp
qed

lemma handle_request_split:
  assumes "mem_inv s" "\<not> isResponse m" "mem_handleMessage newId og (Incoming m) s = Ok s'"
  obtains t s1 where "mem_processRequestMessage newId og Ok (m\<lparr>msg_trace := t\<rparr>) s1 = Ok s'"
    "memoryCells s1 = memoryCells s" "outbox s1 = outbox s" "blockSize_KB s1 = blockSize_KB s" "queue s1 = queue s"
proof -
  have q: "queue s = []" "\<not> latencyScheduled s" using assms(1) by (simp_all add: mem_inv_def)
  from assms(3) mem.handle_request[OF q assms(2), of og] obtain m1 s1
    where u: "updateMessageTrace og m s = Ok (m1, s1)"
      and r: "mem_processRequestMessage newId og Ok m1 s1 = Ok s'"
    by (auto simp: mem_handleMessage_def bind_res_Ok_iff)
  note f = updateMessageTrace_frame[OF u]
  have "module_state.more s1 = module_state.more s" using f by blast
  note more = mem_more[OF this]
  from f obtain t where "m1 = m\<lparr>msg_trace := t\<rparr>" by blast
  with r more f show ?thesis by (intro that[of t s1]) simp_all
qed

definition from_machine :: "message \<Rightarrow> bool" where
  "from_machine m \<longleftrightarrow> (arrivedOn m ''fromVMMemoryI'' \<or> arrivedOn m ''fromVMMemoryO'') \<and>
     \<not> isResponse m \<and> \<not> remoteOperation m"

lemma from_machine_request:
  assumes "from_machine m" "operation m = SM_MEM_ALLOCATE \<or> operation m = SM_MEM_RELEASE"
  shows "mem_processRequestMessage newId og Ok (m\<lparr>msg_trace := t\<rparr>) s =
    (if operation m = SM_MEM_ALLOCATE then allocate_memory og Ok (m\<lparr>msg_trace := t\<rparr>) s
     else release_memory og Ok (m\<lparr>msg_trace := t\<rparr>) s)"
  using assms
  by (auto simp: from_machine_def mem_processRequestMessage_def schedulingMemory_def arrivedOn_def
      SM_MEM_ALLOCATE_def SM_MEM_RELEASE_def SM_CHANGE_DISK_STATE_def SM_CHANGE_MEMORY_STATE_def
      ALLOCATE_MIGRATION_DATA_def GET_MIGRATION_DATA_def GET_MIGRATION_CONNECTIONS_def file_operations_def)

lemma from_machine_sent:
  "from_machine m \<Longrightarrow> sendMemoryMessage og Ok (m\<lparr>msg_trace := t\<rparr>) s = Ok s' \<Longrightarrow>
   sent_one (m\<lparr>msg_trace := t\<rparr>) s s'"
  by (auto simp: from_machine_def sendMemoryMessage_def arrivedOn_def dest: sendRequest_one split: if_split_asm)

lemma cast_trace [simp]:
  "cast_mem (m\<lparr>msg_trace := t\<rparr>) = cast_mem m" "cast_migration (m\<lparr>msg_trace := t\<rparr>) = cast_migration m"
  by (simp_all add: cast_mem_def cast_migration_def)

subsection \<open>Properties\<close>

definition sc_mem_og :: "message \<Rightarrow> int option" where "sc_mem_og m = Some 5"
definition sc_mem_id :: "message \<Rightarrow> int" where "sc_mem_id m = 1000"

definition sc_mem_start :: mem_manager where
  "sc_mem_start = (case mem_initialize (base_initialize 20 ''host'') 4 1 0 of Ok s \<Rightarrow> s)"

definition sc_mem_one :: mem_manager where
  "sc_mem_one = (case mem_setVM (''a'', 0) (''b'', 0) (''c'', 0) (''d'', 0) 3 7 40 sc_mem_start of Ok s \<Rightarrow> s)"

definition sc_mem_two :: mem_manager where
  "sc_mem_two = (case mem_setVM (''a'', 1) (''b'', 1) (''c'', 1) (''d'', 1) 3 8 40 sc_mem_one of Ok s \<Rightarrow> s)"

definition sc_mem_message :: "int \<Rightarrow> int \<Rightarrow> nat \<Rightarrow> message" where
  "sc_mem_message opr p kb = (new_mem_message 1)\<lparr>operation := opr, uid := 3, pid := p, payload := MemPayload kb,
     arrival := (''fromVMMemoryO'', 1), msg_trace := [(''node'', [\<lparr>moduleID = 1, gateID = 7, reqSequence = [0]\<rparr>])]\<rparr>"

lemma sc_mem_reachable:
  "mem_reachable newId og sc_mem_start" "mem_reachable newId og sc_mem_one" "mem_reachable newId og sc_mem_two"
proof -
  have "res_ok (mem_initialize (base_initialize 20 ''host'') 4 1 0)" by code_simp
  then have 0: "mem_initialize (base_initialize 20 ''host'') 4 1 0 = Ok sc_mem_start"
    by (auto simp: sc_mem_start_def elim: res_okE)
  from mem_reachable.start[OF 0] show s0: "mem_reachable newId og sc_mem_start" by simp
  have "res_ok (mem_setVM (''a'', 0) (''b'', 0) (''c'', 0) (''d'', 0) 3 7 40 sc_mem_start)" by code_simp
  then have 1: "mem_setVM (''a'', 0) (''b'', 0) (''c'', 0) (''d'', 0) 3 7 40 sc_mem_start = Ok sc_mem_one"
    by (auto simp: sc_mem_one_def elim: res_okE)
  from mem_reachable.link[OF s0 _ _ _ 1] show s1: "mem_reachable newId og sc_mem_one" by simp
  have "res_ok (mem_setVM (''a'', 1) (''b'', 1) (''c'', 1) (''d'', 1) 3 8 40 sc_mem_one)" by code_simp
  then have 2: "mem_setVM (''a'', 1) (''b'', 1) (''c'', 1) (''d'', 1) 3 8 40 sc_mem_one = Ok sc_mem_two"
    by (auto simp: sc_mem_two_def elim: res_okE)
  from mem_reachable.link[OF s1 _ _ _ 2] show "mem_reachable newId og sc_mem_two" by simp
qed

text \<open>
  C30: in every state the memory manager can reach, by linking and freeing machines and by handling
  messages of any kind whose sizes fit in an int, no cell has less than no or more than all of its
  blocks free, the free blocks and those of the machines add up to the memory of the node, and the
  gates of the cells are different.
\<close>

theorem memory_accounting:
  assumes "mem_reachable newId og s"
  shows "(\<forall>c\<in>set (memoryCells s). 0 \<le> remainingBlocks_KB c \<and> remainingBlocks_KB c \<le> vmTotalBlocks_KB c) \<and>
    memoryAvailable_Blocks s + sum_list (map vmTotalBlocks_KB (tl (memoryCells s))) = totalMemory_Blocks s \<and>
    distinct (map vmGate (memoryCells s))"
  using mem_reachable_inv[OF assms] mem_inv_facts[of s] by (simp add: mem_inv_def cells_ok_def)

theorem memory_accounting_witness:
  "memoryAvailable_Blocks sc_mem_two + sum_list (map vmTotalBlocks_KB (tl (memoryCells sc_mem_two))) =
     totalMemory_Blocks sc_mem_two \<and> length (memoryCells sc_mem_two) = 3"
proof -
  have "length (memoryCells sc_mem_two) = 3" by code_simp
  with memory_accounting[OF sc_mem_reachable(3)[of sc_mem_id sc_mem_og]] show ?thesis by simp
qed

text \<open>
  C31: a request for memory is granted exactly when the machine has more free blocks than it asks
  for: a request for all of its free blocks is refused.  A grant takes exactly these blocks from the
  cell and passes the message to the memory of the node; a refusal is answered at once and changes
  no cell.
\<close>

theorem memory_request_decided:
  assumes "mem_reachable newId og s" "from_machine m" "operation m = SM_MEM_ALLOCATE" "size_fits m"
    and "cast_mem m = Some n" "requestedSizeToBlocks (blockSize_KB s) (int n) = Ok b"
    and "index_of (same_vm (uid m) (pid m)) (memoryCells s) = Some i"
    and "mem_handleMessage newId og (Incoming m) s = Ok s'"
  shows "if b < remainingBlocks_KB (memoryCells s ! i)
    then memoryCells s' = (memoryCells s)[i := (memoryCells s ! i)
        \<lparr>remainingBlocks_KB := remainingBlocks_KB (memoryCells s ! i) - b\<rparr>] \<and>
      (\<exists>t d. outbox s' = outbox s @ [Sent (m\<lparr>msg_trace := t\<rparr>) d])
    else memoryCells s' = memoryCells s \<and>
      (\<exists>t d. outbox s' = outbox s @ [Sent (m\<lparr>result_code := SM_NOT_ENOUGH_MEMORY, isResponse := True, msg_trace := t\<rparr>) d])"
proof -
  have inv: "mem_inv s" using mem_reachable_inv[OF assms(1)] .
  have "\<not> isResponse m" using assms(2) by (simp add: from_machine_def)
  from handle_request_split[OF inv this assms(8)] obtain t s1 where
    r: "mem_processRequestMessage newId og Ok (m\<lparr>msg_trace := t\<rparr>) s1 = Ok s'"
    and s1: "memoryCells s1 = memoryCells s" "outbox s1 = outbox s" "blockSize_KB s1 = blockSize_KB s" by blast
  have b: "to_signed b = b" using size_fits_mem(2)[OF assms(4,5,6)] inv by (simp add: mem_inv_def)
  have "cells_ok s1" using inv s1(1) by (simp add: mem_inv_def cells_ok_def)
  then have nn: "non_negative i s1 = s1" using index_of_bound[OF assms(7)] s1(1) by (simp add: non_negative_ok)
  have "allocate_memory og Ok (m\<lparr>msg_trace := t\<rparr>) s1 = Ok s'"
    using r from_machine_request[OF assms(2)] assms(3) by simp
  then show ?thesis
  proof (cases rule: allocate_cases)
    case (1 n' b' i')
    then show ?thesis using assms(5-7) s1 b nn sendResponse_one[of "refused (m\<lparr>msg_trace := t\<rparr>)" s1 s']
      by (auto simp: sent_one_def refused_def)
  next
    case (2 n' b' i')
    have eq: "i' = i" "b' = b" using 2 assms(5-7) s1 by simp_all
    have "sent_one (m\<lparr>msg_trace := t\<rparr>) (set_remaining i (remainingBlocks_KB (memoryCells s ! i) - b) s1) s'"
      by (rule from_machine_sent[OF assms(2)]) (use 2(5) eq s1 b nn in simp)
    then show ?thesis using 2(4) eq s1 b by (auto simp: sent_one_def)
  qed
qed

theorem memory_request_decided_witness:
  "\<exists>s'. mem_handleMessage sc_mem_id sc_mem_og (Incoming (sc_mem_message SM_MEM_ALLOCATE 7 40)) sc_mem_one = Ok s' \<and>
     memoryCells s' = memoryCells sc_mem_one"
proof -
  let ?m = "sc_mem_message SM_MEM_ALLOCATE 7 40"
  have "res_ok (mem_handleMessage sc_mem_id sc_mem_og (Incoming ?m) sc_mem_one)" by code_simp
  then obtain s' where h: "mem_handleMessage sc_mem_id sc_mem_og (Incoming ?m) sc_mem_one = Ok s'" by (rule res_okE)
  have f: "from_machine ?m" "operation ?m = SM_MEM_ALLOCATE" "cast_mem ?m = Some 40"
    "requestedSizeToBlocks (blockSize_KB sc_mem_one) (int 40) = Ok 10"
    "index_of (same_vm (uid ?m) (pid ?m)) (memoryCells sc_mem_one) = Some 1"
    "remainingBlocks_KB (memoryCells sc_mem_one ! 1) = 10" by code_simp+
  have "size_fits ?m" by (simp add: size_fits_def sc_mem_message_def cast_mem_def cast_migration_def)
  from memory_request_decided[OF sc_mem_reachable(2) f(1,2) this f(3,4,5) h] f(6) h show ?thesis by auto
qed

text \<open>
  Memory that a machine releases is credited to the first machine of the same user.  When the
  machine is another one, its own cell keeps its free blocks.
\<close>

theorem release_credits_first_machine:
  assumes "mem_reachable newId og s" "from_machine m" "operation m = SM_MEM_RELEASE" "size_fits m"
    and "cast_mem m = Some n" "requestedSizeToBlocks (blockSize_KB s) (int n) = Ok b"
    and "index_of (\<lambda>c. c_uId c = uid m) (memoryCells s) = Some i"
    and "index_of (same_vm (uid m) (pid m)) (memoryCells s) = Some j"
    and "mem_handleMessage newId og (Incoming m) s = Ok s'"
  shows "remainingBlocks_KB (memoryCells s' ! i) =
      min (vmTotalBlocks_KB (memoryCells s ! i)) (remainingBlocks_KB (memoryCells s ! i) + b) \<and>
    (i \<noteq> j \<longrightarrow> memoryCells s' ! j = memoryCells s ! j)"
proof -
  have inv: "mem_inv s" using mem_reachable_inv[OF assms(1)] .
  have "\<not> isResponse m" using assms(2) by (simp add: from_machine_def)
  from handle_request_split[OF inv this assms(9)] obtain t s1 where
    r: "mem_processRequestMessage newId og Ok (m\<lparr>msg_trace := t\<rparr>) s1 = Ok s'"
    and s1: "memoryCells s1 = memoryCells s" "blockSize_KB s1 = blockSize_KB s" by blast
  have b: "to_signed b = b" using size_fits_mem(2)[OF assms(4,5,6)] inv by (simp add: mem_inv_def)
  have "operation m \<noteq> SM_MEM_ALLOCATE" using assms(3) by (simp add: SM_MEM_ALLOCATE_def SM_MEM_RELEASE_def)
  then have "release_memory og Ok (m\<lparr>msg_trace := t\<rparr>) s1 = Ok s'"
    using r from_machine_request[OF assms(2)] assms(3) by simp
  then show ?thesis
  proof (cases rule: release_cases)
    case (1 n' b' i' q)
    have eq: "i' = i" "b' = b" using 1 assms(5-7) s1 by simp_all
    have "sent_one (m\<lparr>msg_trace := t\<rparr>) (set_remaining i q s1) s'"
      by (rule from_machine_sent[OF assms(2)]) (use 1(5) eq in simp)
    then show ?thesis using 1(4) eq s1 b index_of_bound[OF assms(7)] by (auto simp: sent_one_def)
  qed
qed

definition sc_mem_used :: mem_manager where
  "sc_mem_used = (case mem_handleMessage sc_mem_id sc_mem_og (Incoming (sc_mem_message SM_MEM_ALLOCATE 8 20)) sc_mem_two of
     Ok s \<Rightarrow> s)"

lemma sc_mem_message_fits: "k < 2 ^ 31 \<Longrightarrow> size_fits (sc_mem_message opr p k)"
  by (simp add: size_fits_def sc_mem_message_def cast_mem_def cast_migration_def)

lemma sc_mem_used_reachable: "mem_reachable sc_mem_id sc_mem_og sc_mem_used"
proof -
  have "res_ok (mem_handleMessage sc_mem_id sc_mem_og (Incoming (sc_mem_message SM_MEM_ALLOCATE 8 20)) sc_mem_two)"
    by code_simp
  then have "mem_handleMessage sc_mem_id sc_mem_og (Incoming (sc_mem_message SM_MEM_ALLOCATE 8 20)) sc_mem_two = Ok sc_mem_used"
    by (auto simp: sc_mem_used_def elim: res_okE)
  from mem_reachable.message[OF sc_mem_reachable(3) _ this] show ?thesis by (simp add: sc_mem_message_fits)
qed

text \<open>Machine 8 has 5 of its 10 blocks in use and releases them; it does not get them back.\<close>


text \<open>
  the allocation of migrated memory fails whenever the machine has the memory: the message
  that is created for it has not arrived on any gate, and sending it on throws.
\<close>

theorem migration_allocation_throws:
  assumes "mem_reachable newId og s" "\<not> isResponse m" "\<not> remoteOperation m"
    and "operation m = ALLOCATE_MIGRATION_DATA" "size_fits m"
    and "cast_migration m = Some g" "0 < memorySizeKB g"
    and "requestedSizeToBlocks (blockSize_KB s) (memorySizeKB g div 1024) = Ok b"
    and "index_of (same_vm (uid m) (pid m)) (memoryCells s) = Some i"
    and "b < remainingBlocks_KB (memoryCells s ! i)"
  shows "\<exists>e. mem_handleMessage newId og (Incoming m) s = Fail e"
proof (rule ccontr)
  assume "\<nexists>e. mem_handleMessage newId og (Incoming m) s = Fail e"
  then obtain s' where h: "mem_handleMessage newId og (Incoming m) s = Ok s'"
    by (cases "mem_handleMessage newId og (Incoming m) s") auto
  have inv: "mem_inv s" using mem_reachable_inv[OF assms(1)] .
  from handle_request_split[OF inv assms(2) h] obtain t s1 where
    r: "mem_processRequestMessage newId og Ok (m\<lparr>msg_trace := t\<rparr>) s1 = Ok s'"
    and s1: "memoryCells s1 = memoryCells s" "blockSize_KB s1 = blockSize_KB s" by blast
  let ?m = "m\<lparr>msg_trace := t\<rparr>"
  let ?n = "migrationToMemoryContents (newId ?m) g ?m"
  from r assms(4,6) obtain s2 where a: "sendResponseMessage Ok (?m\<lparr>isResponse := True\<rparr>) s1 = Ok s2"
    "schedulingMemory og Ok ?n s2 = Ok s'"
    by (auto simp: mem_processRequestMessage_def ALLOCATE_MIGRATION_DATA_def SM_CHANGE_DISK_STATE_def
        SM_CHANGE_MEMORY_STATE_def Let_def bind_res_Ok_iff)
  have s2: "memoryCells s2 = memoryCells s" "blockSize_KB s2 = blockSize_KB s"
    using sendResponse_one[OF a(1)] s1 by (simp_all add: sent_one_def mem_frame_def)
  have n: "arrival ?n = ('''', 0)" "remoteOperation ?n = False" "operation ?n = SM_MEM_ALLOCATE"
    "cast_mem ?n = Some (nat (memorySizeKB g div 1024))" "uid ?n = uid m" "pid ?n = pid m"
    using assms(3,7) by (simp_all add: migrationToMemoryContents_def new_mem_message_def Let_def cast_mem_def MEM_KB_def)
  have "allocate_memory og Ok ?n s2 = Ok s'" using a(2) n by (simp add: schedulingMemory_def arrivedOn_def)
  then show False
  proof (cases rule: allocate_cases)
    case (1 k b' i')
    have "int k = memorySizeKB g div 1024" using 1(1) n(4) assms(7) by simp
    then have eq: "b' = b" "i' = i" using 1 n s2 assms(8,9) by simp_all
    have "to_signed b = b"
    proof (rule blocks_bound(3)[OF assms(8)])
      show "0 < blockSize_KB s" using inv by (simp add: mem_inv_def)
      show "0 \<le> memorySizeKB g div 1024" using assms(7) by simp
      have "memorySizeKB g \<le> 2 ^ 31" using assms(5,6,7) by (simp add: size_fits_def)
      from zdiv_mono1[OF this, of 1024] show "memorySizeKB g div 1024 < 2 ^ 31" by simp
    qed
    then show False using 1(4) eq s2 assms(10) by simp
  next
    case (2 k b' i')
    then show False using n(1) by (simp add: sendMemoryMessage_def arrivedOn_def)
  qed
qed

definition sc_migration :: message where
  "sc_migration = (sc_mem_message ALLOCATE_MIGRATION_DATA 7 0)\<lparr>payload := NetPayload \<lparr>destinationIP = [], localIP = [],
     destinationPort = 0, localPort = 0, virtual_destinationIP = [], virtual_localIP = [],
     virtual_user = -1, virtual_destinationPort = 0, virtual_localPort = 0,
     migration_part = Some \<lparr>memorySizeKB = 8192, diskSizeKB = 0\<rparr>\<rparr>\<rparr>"

text \<open>
  freeing a machine right after it was linked gives back its blocks and its gate number: cells,
  list of machines, free blocks and the gates in use are those from before.
\<close>

theorem link_unlink_roundtrip:
  assumes "mem_reachable newId og s" "p \<noteq> 0" "0 \<le> kb" "kb < 2 ^ 31"
    and "index_of (same_vm u p) (memoryCells s) = None" "\<bar>memoryAvailable_Blocks s\<bar> < 2 ^ 31"
    and "mem_setVM a b c d u p kb s = Ok s1"
  shows "\<exists>s2. mem_freeVM u p s1 = Ok s2 \<and> memoryCells s2 = memoryCells s \<and> mem_vms s2 = mem_vms s \<and>
    memoryAvailable_Blocks s2 = memoryAvailable_Blocks s \<and> live (toVMMemoryO s2) = live (toVMMemoryO s)"
proof -
  have inv: "mem_inv s" "mem_inv s1"
    using mem_reachable_inv[OF assms(1)] setVM_inv[OF _ assms(3,4,2,7)] by simp_all
  then obtain sh where sh: "gates_locked sh s" by (auto simp: mem_inv_def links_ok_def)
  obtain ts where ts: "cells_linked ts s" using inv(1) by (auto simp: mem_inv_def)
  let ?g = "fst (shape_alloc sh)" and ?sh = "snd (shape_alloc sh)"
  from base_set_locked[OF sh, of a b c d u p] obtain t where
    t: "base_setVM a b c d u p s = Ok (?g, t)" "gates_locked ?sh t"
      "mem_vms t = mem_vms s @ [\<lparr>mc_gate = ?g, mc_uId = u, mc_pId = p\<rparr>]"
      "blockSize_KB t = blockSize_KB s" "memoryCells t = memoryCells s"
      "memoryAvailable_Blocks t = memoryAvailable_Blocks s" by blast
  from assms(7) t obtain T where s1: "s1 = t\<lparr>memoryCells := memoryCells s @ [\<lparr>c_uId = u, c_pId = p, vmGate = ?g,
      vmTotalBlocks_KB = T, remainingBlocks_KB = T\<rparr>], memoryAvailable_Blocks := memoryAvailable_Blocks s - T\<rparr>"
    by (auto simp: mem_setVM_def bind_res_Ok_iff Let_def checked_int_Ok)
  have ic: "index_of (same_vm u p) (memoryCells s1) = Some (length (memoryCells s))"
    using assms(5) by (simp add: s1 index_of_append same_vm_def)
  have "index_of (\<lambda>v. mc_uId v = u \<and> mc_pId v = p) (mem_vms s) = None"
    using cells_position[OF ts, of u p] assms(2,5) by (simp add: same_vm_def[abs_def])
  then have iv: "index_of (\<lambda>v. mc_uId v = u \<and> mc_pId v = p) (mem_vms s1) = Some (length (mem_vms s))"
    by (simp add: s1 t(3) index_of_append)
  define s1' where "s1' = s1\<lparr>memoryAvailable_Blocks := memoryAvailable_Blocks s, memoryCells := memoryCells s\<rparr>"
  have fr: "mem_freeVM u p s1 = base_freeVM u p s1'"
    using ic assms(6) by (auto simp: mem_freeVM_def s1'_def s1 nth_append checked_int_def abs_less_iff)
  have g: "mc_gate (mem_vms s1' ! length (mem_vms s)) = ?g" by (simp add: s1'_def s1 t(3))
  have in1: "in_step sh ''toVMMemoryI'' (toVMMemoryI s)" "in_step sh ''toVMMemoryO'' (toVMMemoryO s)"
    using sh by (simp_all add: gates_locked_def)
  note al = in_step_alloc_live[OF in1(1)]
  have "gates_locked ?sh s1'" using t(2) by (simp add: gates_locked_def s1'_def s1)
  with base_free_locked[of ?sh s1' u p "length (mem_vms s)"] iv al(2) g obtain s2 where
    s2: "base_freeVM u p s1' = Ok s2" "gates_locked (shape_free ?g ?sh) s2"
      "mem_vms s2 = remove_at (length (mem_vms s)) (mem_vms s1')" "memoryCells s2 = memoryCells s1'"
      "memoryAvailable_Blocks s2 = memoryAvailable_Blocks s1'" by (auto simp: s1'_def)
  have "live (toVMMemoryO s2) = shape_live (shape_free ?g ?sh)"
    using s2(2) by (intro in_step_live[of _ "''toVMMemoryO''"]) (simp add: gates_locked_def)
  then have "live (toVMMemoryO s2) = live (toVMMemoryO s)"
    using al in_step_live[OF in1(2)] by (auto simp: shape_free_live)
  with fr s2 show ?thesis by (simp add: s1'_def s1 t(3))
qed

end
