(* ===== verification/HypervisorCpu.thy ===== *)
theory HypervisorCpu imports GateLinks CpuSchedulers begin

text \<open>
  The CPU manager of the hypervisor (\<^verbatim>\<open>H_CPUManager_Base\<close> and \<^verbatim>\<open>H_CPU_SCHED_FIFO\<close> below
  \<^verbatim>\<open>src/src/Virtualization/Hypervisor/HypervisorManagers/H_CPUManager\<close>).  The blocks of the virtual
  machines go to the first free core or wait in \<open>coreQueue\<close>.  With a virtualisation overhead a
  second message for the extra work is sent to the core after the first has come back, and the
  answer is held back in \<open>overheadStructure\<close> until the second has come back too.  Every virtual
  machine has one gate number for each of its cores.

  \<open>newId m k\<close> is the id of the \<open>k\<close>-th message that is created while \<open>m\<close> is handled, \<open>og\<close> the gate
  that leads back.  The \<^verbatim>\<open>double\<close> numbers of the overhead are rationals.
\<close>

definition VM_OVERHEAD :: int where "VM_OVERHEAD = 427"

record hc_control =
  hc_gates :: "nat list"
  hc_uId :: int
  hc_pId :: int

record hcpu = module_state +
  hc_numCPUs :: nat
  hc_nodeGate :: nat
  toVMCPU :: gate_manager
  fromVMCPU :: gate_manager
  hc_vms :: "hc_control list"
  computing_overhead :: rat
  overheadStructure :: "message option list"
  vmIDs :: "int list"
  coreQueue :: "message list"

type_synonym hc_pump = "hcpu \<Rightarrow> hcpu res"

subsection \<open>Initialisation, linking and freeing of machines\<close>

definition hc_initialize :: "module_state \<Rightarrow> nat \<Rightarrow> rat \<Rightarrow> hcpu res" where
  "hc_initialize b n overhead =
     bind_res (linkGate ''toVMCPU'' 0 new_gate_manager) (\<lambda>to.
     bind_res (linkGate ''fromVMCPU'' 0 new_gate_manager) (\<lambda>fr.
       Ok \<lparr>queue = queue b, outbox = outbox b, currentRequest = currentRequest b,
          latencyScheduled = latencyScheduled b, module_id = module_id b, host_name = host_name b,
          hc_numCPUs = n, hc_nodeGate = 0, toVMCPU = to, fromVMCPU = fr, hc_vms = [],
          computing_overhead = overhead, overheadStructure = replicate n None,
          vmIDs = replicate n (-1), coreQueue = []\<rparr>))"

text \<open>The two loops over the cores of a machine; an index past the array of gates is undefined.\<close>

definition connect_outs :: "gate list \<Rightarrow> nat \<Rightarrow> gate_manager \<Rightarrow> (nat list \<times> gate_manager) res" where
  "connect_outs iGates numCores gm =
     fold_res (\<lambda>i (gs, gm). if i < length iGates
       then bind_res (newGateOut ''toVMCPU'' (iGates ! i) gm) (\<lambda>(idxToVM, gm). Ok (gs @ [idxToVM], gm))
       else Fail Undefined) [0..<numCores] ([], gm)"

definition connect_ins :: "gate list \<Rightarrow> nat \<Rightarrow> gate_manager \<Rightarrow> gate_manager res" where
  "connect_ins oGates numCores gm =
     fold_res (\<lambda>i gm. if i < length oGates
       then bind_res (newGateIn ''fromVMCPU'' (oGates ! i) gm) (\<lambda>(idxFromVM, gm). Ok gm)
       else Fail Undefined) [0..<numCores] gm"

definition hc_setVM :: "gate list \<Rightarrow> gate list \<Rightarrow> nat \<Rightarrow> int \<Rightarrow> int \<Rightarrow> hcpu \<Rightarrow> hcpu res" where
  "hc_setVM oGates iGates numCores u p s =
     bind_res (connect_outs iGates numCores (toVMCPU s)) (\<lambda>(gs, to).
     bind_res (connect_ins oGates numCores (fromVMCPU s)) (\<lambda>fr.
       Ok (s\<lparr>toVMCPU := to, fromVMCPU := fr,
             hc_vms := hc_vms s @ [\<lparr>hc_gates = gs, hc_uId = u, hc_pId = p\<rparr>]\<rparr>)))"

definition free_cores :: "nat list \<Rightarrow> gate_manager \<times> gate_manager \<Rightarrow> (gate_manager \<times> gate_manager) res" where
  "free_cores = fold_res (\<lambda>gateIdx (to, fr).
     bind_res (freeGate gateIdx fr) (\<lambda>(_, fr).
     bind_res (freeGate gateIdx to) (\<lambda>(_, to). Ok (to, fr))))"

definition hc_freeVM :: "int \<Rightarrow> int \<Rightarrow> hcpu \<Rightarrow> hcpu res" where
  "hc_freeVM u p s = (case index_of (\<lambda>c. hc_pId c = p \<and> hc_uId c = u) (hc_vms s) of
     None \<Rightarrow> Fail (Thrown ''freeVM'')
   | Some i \<Rightarrow> bind_res (free_cores (hc_gates (hc_vms s ! i)) (toVMCPU s, fromVMCPU s)) (\<lambda>(to, fr).
       Ok (s\<lparr>toVMCPU := to, fromVMCPU := fr, hc_vms := remove_at i (hc_vms s)\<rparr>)))"

definition getNumberOfVMs :: "hcpu \<Rightarrow> nat" where
  "getNumberOfVMs s = length (hc_vms s)"

subsection \<open>Scheduling\<close>

definition toNodeCPU :: "int \<Rightarrow> hcpu \<Rightarrow> gate option res" where
  "toNodeCPU i s = (if 0 \<le> i \<and> i < int (hc_numCPUs s) then Ok (Some (''toNodeCPU'', nat i)) else Fail Undefined)"

text \<open>\<^verbatim>\<open>icancloud_App_CPU_Message::dup\<close>: all fields but the ones of OMNeT++ are copied.\<close>

definition dup_message :: "int \<Rightarrow> message \<Rightarrow> message" where
  "dup_message i m = m\<lparr>msg_id := i, arrival := ('''', 0)\<rparr>"

text \<open>The conversion of a \<^verbatim>\<open>double\<close> to \<^verbatim>\<open>unsigned long\<close> truncates and is undefined out of range.\<close>

definition rat_to_ulong :: "rat \<Rightarrow> nat res" where
  "rat_to_ulong x = (if x \<le> -1 \<or> 2 ^ 64 \<le> x then Fail Undefined else Ok (nat \<lfloor>x\<rfloor>))"

definition overhead_copy :: "rat \<Rightarrow> message \<Rightarrow> message res" where
  "overhead_copy ov m = (case cast_cpu m of
     None \<Rightarrow> Fail (Thrown ''check_and_cast'')
   | Some c \<Rightarrow> bind_res (rat_to_ulong (of_nat (totalMIs c) * ov / 100)) (\<lambda>overheadMIs.
       Ok (m\<lparr>operation := VM_OVERHEAD,
             payload := CpuPayload (c\<lparr>totalMIs := overheadMIs, cpuTime := cpuTime c * ov / 100\<rparr>)\<rparr>)))"

definition sendRequestToCore ::
  "(message \<Rightarrow> nat \<Rightarrow> int) \<Rightarrow> (message \<Rightarrow> int option) \<Rightarrow> hc_pump \<Rightarrow> message \<Rightarrow> gate option \<Rightarrow> nat
     \<Rightarrow> hcpu \<Rightarrow> hcpu res" where
  "sendRequestToCore newId og pump sm g gateIdx s =
     bind_res (if computing_overhead s \<noteq> 0 then
         bind_res (overhead_copy (computing_overhead s) (dup_message (newId sm 0) sm)) (\<lambda>sm_cpu.
           if gateIdx < length (overheadStructure s)
           then Ok (s\<lparr>overheadStructure := (overheadStructure s)[gateIdx := Some sm_cpu]\<rparr>)
           else Fail Undefined)
       else Ok s)
     (sendRequestMessage og pump sm g)"

definition schedulingCPU ::
  "(message \<Rightarrow> nat \<Rightarrow> int) \<Rightarrow> (message \<Rightarrow> int option) \<Rightarrow> hc_pump \<Rightarrow> message \<Rightarrow> hcpu \<Rightarrow> hcpu res" where
  "schedulingCPU newId og pump msg s = (case index_of (\<lambda>v. v = -1) (take (hc_numCPUs s) (vmIDs s)) of
     Some core \<Rightarrow> bind_res (toNodeCPU (int core) s) (\<lambda>g.
       sendRequestToCore newId og pump msg g core
         (s\<lparr>vmIDs := (vmIDs s)[core := int (snd (arrival msg))]\<rparr>))
   | None \<Rightarrow> Ok (s\<lparr>coreQueue := coreQueue s @ [msg]\<rparr>))"

definition processHardwareResponse ::
  "(message \<Rightarrow> nat \<Rightarrow> int) \<Rightarrow> (message \<Rightarrow> int option) \<Rightarrow> hc_pump \<Rightarrow> message \<Rightarrow> hcpu \<Rightarrow> hcpu res" where
  "processHardwareResponse newId og pump msg s = (let core = snd (arrival msg) in
     if length (vmIDs s) \<le> core then Fail Undefined
     else let s = s\<lparr>vmIDs := (vmIDs s)[core := -1]\<rparr> in
       case coreQueue s of
         [] \<Rightarrow> Ok s
       | enqueuedMsg # rest \<Rightarrow> schedulingCPU newId og pump enqueuedMsg (s\<lparr>coreQueue := rest\<rparr>))"

subsection \<open>The message handlers\<close>

definition hc_processSelfMessage :: "string \<Rightarrow> hcpu \<Rightarrow> hcpu res" where
  "hc_processSelfMessage name s = Ok s"

definition change_cpu_state ::
  "(message \<Rightarrow> nat \<Rightarrow> int) \<Rightarrow> (message \<Rightarrow> int option) \<Rightarrow> hc_pump \<Rightarrow> message \<Rightarrow> hcpu \<Rightarrow> hcpu res" where
  "change_cpu_state newId og pump sm_cpu s =
     bind_res (fold_res (\<lambda>i s.
         bind_res (get_component_to_change sm_cpu (int i)) (\<lambda>changeStateCpuIndex.
         bind_res (toNodeCPU changeStateCpuIndex s) (\<lambda>g.
           sendRequestMessage og pump ((new_cpu_message (newId sm_cpu i))\<lparr>changing_state := changing_state sm_cpu,
             operation := operation sm_cpu\<rparr>) g s))) [0..<length (change_states_index sm_cpu)] s)
       (\<lambda>s. Ok (emit (Deleted sm_cpu) s))"

definition hc_processRequestMessage ::
  "(message \<Rightarrow> nat \<Rightarrow> int) \<Rightarrow> (message \<Rightarrow> int option) \<Rightarrow> hc_pump \<Rightarrow> message \<Rightarrow> hcpu \<Rightarrow> hcpu res" where
  "hc_processRequestMessage newId og pump sm s =
     (if cast_cpu sm = None then Fail (Thrown ''check_and_cast'')
      else if arrivedOn sm ''fromVMCPU'' then
        (if operation sm = SM_CHANGE_CPU_STATE then change_cpu_state newId og pump sm s
         else schedulingCPU newId og pump sm s)
      else Fail (Thrown ''processRequestMessage''))"

text \<open>A message that is NULL is undefined where it is sent.\<close>

definition not_null :: "message option \<Rightarrow> message res" where
  "not_null x = (case x of None \<Rightarrow> Fail Undefined | Some m \<Rightarrow> Ok m)"

definition overhead_at :: "nat \<Rightarrow> hcpu \<Rightarrow> message option res" where
  "overhead_at i s = (if i < length (overheadStructure s) then Ok (overheadStructure s ! i) else Fail Undefined)"

definition hc_processResponseMessage ::
  "(message \<Rightarrow> nat \<Rightarrow> int) \<Rightarrow> (message \<Rightarrow> int option) \<Rightarrow> hc_pump \<Rightarrow> message \<Rightarrow> hcpu \<Rightarrow> hcpu res" where
  "hc_processResponseMessage newId og pump sm s = (let coreIdx = snd (arrival sm) in
     if operation sm \<noteq> VM_OVERHEAD \<and> computing_overhead s \<noteq> 0 then
       bind_res (overhead_at coreIdx s) (\<lambda>msg.
       let s = s\<lparr>overheadStructure := (overheadStructure s)[coreIdx := Some sm]\<rparr> in
       bind_res (toNodeCPU (int coreIdx) s) (\<lambda>g.
       bind_res (not_null msg) (\<lambda>m. sendRequestMessage og pump m g s)))
     else if operation sm = VM_OVERHEAD then
       bind_res (processHardwareResponse newId og pump sm s) (\<lambda>s.
       bind_res (overhead_at coreIdx s) (\<lambda>msg.
       let s = (emit (Deleted sm) s)\<lparr>overheadStructure := (overheadStructure s)[coreIdx := None]\<rparr> in
       bind_res (not_null msg) (\<lambda>m. sendResponseMessage pump m s)))
     else
       bind_res (processHardwareResponse newId og pump sm s) (\<lambda>s. sendResponseMessage pump sm s))"

definition hc_handleMessage ::
  "(message \<Rightarrow> nat \<Rightarrow> int) \<Rightarrow> (message \<Rightarrow> int option) \<Rightarrow> input \<Rightarrow> hcpu \<Rightarrow> hcpu res" where
  "hc_handleMessage newId og = handleMessage og hc_processSelfMessage
     (hc_processRequestMessage newId og) (hc_processResponseMessage newId og)"

text \<open>What happens to the manager: a message arrives, a machine is linked or freed.\<close>

datatype hc_op = Handle input | SetVM "gate list" "gate list" nat int int | FreeVM int int

fun hc_step :: "(message \<Rightarrow> nat \<Rightarrow> int) \<Rightarrow> (message \<Rightarrow> int option) \<Rightarrow> hc_op \<Rightarrow> hcpu \<Rightarrow> hcpu res" where
  "hc_step newId og (Handle i) s = hc_handleMessage newId og i s"
| "hc_step newId og (SetVM oGates iGates n u p) s = hc_setVM oGates iGates n u p s"
| "hc_step newId og (FreeVM u p) s = hc_freeVM u p s"

subsection \<open>Frames\<close>

lemma hc_more:
  assumes "module_state.more s' = module_state.more (s :: hcpu)"
  shows "hc_numCPUs s' = hc_numCPUs s" "hc_nodeGate s' = hc_nodeGate s" "toVMCPU s' = toVMCPU s"
    "fromVMCPU s' = fromVMCPU s" "hc_vms s' = hc_vms s" "computing_overhead s' = computing_overhead s"
    "overheadStructure s' = overheadStructure s" "vmIDs s' = vmIDs s" "coreQueue s' = coreQueue s"
  using assms by (cases s; cases s'; simp)+

text \<open>What no handler changes.\<close>

definition hc_frame :: "hcpu \<Rightarrow> hcpu \<Rightarrow> bool" where
  "hc_frame s s' \<longleftrightarrow> queue s' = queue s \<and> latencyScheduled s' = latencyScheduled s \<and>
     hc_numCPUs s' = hc_numCPUs s \<and> hc_nodeGate s' = hc_nodeGate s \<and> toVMCPU s' = toVMCPU s \<and>
     fromVMCPU s' = fromVMCPU s \<and> hc_vms s' = hc_vms s \<and> computing_overhead s' = computing_overhead s"

definition hc_sent :: "event list \<Rightarrow> hcpu \<Rightarrow> hcpu \<Rightarrow> bool" where
  "hc_sent es s s' \<longleftrightarrow> hc_frame s s' \<and> outbox s' = outbox s @ es \<and>
     overheadStructure s' = overheadStructure s \<and> vmIDs s' = vmIDs s \<and> coreQueue s' = coreQueue s"

lemma hc_frame_refl [simp]: "hc_frame s s"
  by (simp add: hc_frame_def)

lemma hc_frame_trans: "hc_frame s t \<Longrightarrow> hc_frame t u \<Longrightarrow> hc_frame s u"
  by (simp add: hc_frame_def)

lemma hc_frame_updates [simp]:
  "hc_frame (s\<lparr>vmIDs := a\<rparr>) s' = hc_frame s s'" "hc_frame s (s'\<lparr>vmIDs := a\<rparr>) = hc_frame s s'"
  "hc_frame (s\<lparr>coreQueue := c\<rparr>) s' = hc_frame s s'" "hc_frame s (s'\<lparr>coreQueue := c\<rparr>) = hc_frame s s'"
  "hc_frame (s\<lparr>overheadStructure := d\<rparr>) s' = hc_frame s s'"
  "hc_frame s (s'\<lparr>overheadStructure := d\<rparr>) = hc_frame s s'"
  "hc_frame (emit e s) s' = hc_frame s s'" "hc_frame s (emit e s') = hc_frame s s'"
  by (simp_all add: hc_frame_def emit_def)

lemma hc_emit [simp]:
  "overheadStructure (emit e s) = overheadStructure s" "vmIDs (emit e s) = vmIDs s"
  "coreQueue (emit e s) = coreQueue s" "hc_numCPUs (emit e s) = hc_numCPUs s"
  "computing_overhead (emit e s) = computing_overhead s"
  by (simp_all add: emit_def)

lemma hc_sent_sent: "sent_events es s s' \<Longrightarrow> hc_sent es s s'"
  using hc_more[of s' s] by (simp add: sent_events_def hc_sent_def hc_frame_def)

lemma hc_request:
  assumes "sendRequestMessage og Ok m g s = Ok s'"
  obtains t where "hc_sent [Sent (m\<lparr>msg_trace := t\<rparr>) (ViaGate g)] s s'"
  using sendRequestMessage_sent[OF assms] hc_sent_sent by metis

lemma hc_response:
  assumes "sendResponseMessage Ok m s = Ok s'"
  obtains t g where "hc_sent [Sent (m\<lparr>msg_trace := t\<rparr>) (ViaGateId g)] s s'"
  using sendResponseMessage_sent[OF assms] hc_sent_sent by metis

lemma overhead_copy_Ok:
  "overhead_copy ov m = Ok x \<Longrightarrow> operation x = VM_OVERHEAD \<and> msg_id x = msg_id m \<and> isResponse x = isResponse m"
  by (auto simp: overhead_copy_def bind_res_Ok_iff split: option.splits)

lemma toCore_effect:
  assumes "sendRequestToCore newId og Ok m g core s = Ok s'"
  obtains t x where "hc_sent [Sent (m\<lparr>msg_trace := t\<rparr>) (ViaGate g)]
      (if computing_overhead s = 0 then s else s\<lparr>overheadStructure := (overheadStructure s)[core := Some x]\<rparr>) s'"
    "operation x = VM_OVERHEAD" "computing_overhead s \<noteq> 0 \<Longrightarrow> msg_id x = newId m 0"
proof (cases "computing_overhead s = 0")
  case True
  with assms have "sendRequestMessage og Ok m g s = Ok s'" by (simp add: sendRequestToCore_def)
  then show ?thesis using that[of _ "m\<lparr>operation := VM_OVERHEAD\<rparr>"] True by (auto elim!: hc_request)
next
  case False
  with assms obtain x where x: "overhead_copy (computing_overhead s) (dup_message (newId m 0) m) = Ok x"
    and r: "sendRequestMessage og Ok m g (s\<lparr>overheadStructure := (overheadStructure s)[core := Some x]\<rparr>) = Ok s'"
    by (auto simp: sendRequestToCore_def bind_res_Ok_iff split: if_split_asm)
  from r show ?thesis using that[of _ x] False overhead_copy_Ok[OF x]
    by (auto simp: dup_message_def elim!: hc_request)
qed

text \<open>A block waits when no core is free, or is sent to the first free core.\<close>

lemma scheduling_cases:
  assumes "schedulingCPU newId og Ok m s = Ok s'"
  obtains (wait) "-1 \<notin> set (take (hc_numCPUs s) (vmIDs s))" "s' = s\<lparr>coreQueue := coreQueue s @ [m]\<rparr>"
  | (start) core t x where "core < hc_numCPUs s" "core < length (vmIDs s)" "vmIDs s ! core = -1"
      "\<forall>j<core. vmIDs s ! j \<noteq> -1" "hc_frame s s'"
      "outbox s' = outbox s @ [Sent (m\<lparr>msg_trace := t\<rparr>) (ViaGate (Some (''toNodeCPU'', core)))]"
      "vmIDs s' = (vmIDs s)[core := int (snd (arrival m))]" "coreQueue s' = coreQueue s"
      "overheadStructure s' = (if computing_overhead s = 0 then overheadStructure s
         else (overheadStructure s)[core := Some x])"
      "operation x = VM_OVERHEAD" "computing_overhead s \<noteq> 0 \<Longrightarrow> msg_id x = newId m 0"
proof (cases "index_of (\<lambda>v. v = -1) (take (hc_numCPUs s) (vmIDs s))")
  case None
  with assms have "s' = s\<lparr>coreQueue := coreQueue s @ [m]\<rparr>" by (simp add: schedulingCPU_def)
  with None[unfolded index_of_None] show ?thesis by (intro wait) auto
next
  case (Some core)
  note c = Some[unfolded index_of_Some]
  let ?s = "s\<lparr>vmIDs := (vmIDs s)[core := int (snd (arrival m))]\<rparr>"
  from assms Some c have "sendRequestToCore newId og Ok m (Some (''toNodeCPU'', core)) core ?s = Ok s'"
    by (simp add: schedulingCPU_def toNodeCPU_def)
  then show ?thesis
  proof (cases rule: toCore_effect)
    case (1 t x)
    then show ?thesis using c by (intro start[of core t x]) (auto simp: hc_sent_def split: if_split_asm)
  qed
qed

lemma hc_scheduling_frame: "schedulingCPU newId og Ok m s = Ok s' \<Longrightarrow> hc_frame s s'"
  by (erule scheduling_cases) simp_all

lemma hardware_frame: "processHardwareResponse newId og Ok m s = Ok s' \<Longrightarrow> hc_frame s s'"
  by (auto simp: processHardwareResponse_def Let_def dest: hc_scheduling_frame split: if_split_asm list.splits)

lemma change_cpu_frame:
  assumes "change_cpu_state newId og Ok m s = Ok s'"
  shows "hc_frame s s'"
proof -
  from assms obtain u where u: "s' = emit (Deleted m) u" and
    f: "fold_res (\<lambda>i s. bind_res (get_component_to_change m (int i)) (\<lambda>c. bind_res (toNodeCPU c s) (\<lambda>g.
        sendRequestMessage og Ok ((new_cpu_message (newId m i))\<lparr>changing_state := changing_state m,
          operation := operation m\<rparr>) g s))) [0..<length (change_states_index m)] s = Ok u"
    by (auto simp: change_cpu_state_def bind_res_Ok_iff)
  have "hc_frame s u"
    by (rule fold_res_invariant[OF _ hc_frame_refl f])
       (auto simp: bind_res_Ok_iff hc_sent_def elim!: hc_request intro: hc_frame_trans)
  then show ?thesis by (simp add: u)
qed

lemma hc_request_frame: "hc_processRequestMessage newId og Ok m s = Ok s' \<Longrightarrow> hc_frame s s'"
  by (auto simp: hc_processRequestMessage_def dest: hc_scheduling_frame change_cpu_frame split: if_split_asm)

lemma hc_response_cases:
  assumes "hc_processResponseMessage newId og Ok m s = Ok s'"
  obtains (held) x t where "operation m \<noteq> VM_OVERHEAD" "computing_overhead s \<noteq> 0"
      "snd (arrival m) < length (overheadStructure s)" "snd (arrival m) < hc_numCPUs s"
      "overheadStructure s ! snd (arrival m) = Some x"
      "hc_sent [Sent (x\<lparr>msg_trace := t\<rparr>) (ViaGate (Some (''toNodeCPU'', snd (arrival m))))]
         (s\<lparr>overheadStructure := (overheadStructure s)[snd (arrival m) := Some m]\<rparr>) s'"
  | (extra) u x t g where "operation m = VM_OVERHEAD" "processHardwareResponse newId og Ok m s = Ok u"
      "snd (arrival m) < length (overheadStructure u)" "overheadStructure u ! snd (arrival m) = Some x"
      "hc_sent [Sent (x\<lparr>msg_trace := t\<rparr>) (ViaGateId g)]
         ((emit (Deleted m) u)\<lparr>overheadStructure := (overheadStructure u)[snd (arrival m) := None]\<rparr>) s'"
  | (plain) u t g where "operation m \<noteq> VM_OVERHEAD" "computing_overhead s = 0"
      "processHardwareResponse newId og Ok m s = Ok u"
      "hc_sent [Sent (m\<lparr>msg_trace := t\<rparr>) (ViaGateId g)] u s'"
proof -
  define i where "i = snd (arrival m)"
  consider (a) "operation m \<noteq> VM_OVERHEAD" "computing_overhead s \<noteq> 0" | (b) "operation m = VM_OVERHEAD"
    | (c) "operation m \<noteq> VM_OVERHEAD" "computing_overhead s = 0" by blast
  then show ?thesis
  proof cases
    case a
    with assms obtain x where x: "i < length (overheadStructure s)" "i < hc_numCPUs s"
      "overheadStructure s ! i = Some x" "sendRequestMessage og Ok x (Some (''toNodeCPU'', i))
        (s\<lparr>overheadStructure := (overheadStructure s)[i := Some m]\<rparr>) = Ok s'"
      by (auto simp: hc_processResponseMessage_def i_def Let_def bind_res_Ok_iff overhead_at_def
          toNodeCPU_def not_null_def split: if_split_asm option.splits)
    from hc_request[OF x(4)] show ?thesis using held a x(1-3) unfolding i_def by metis
  next
    case b
    with assms obtain u x where x: "processHardwareResponse newId og Ok m s = Ok u"
      "i < length (overheadStructure u)" "overheadStructure u ! i = Some x"
      "sendResponseMessage Ok x ((emit (Deleted m) u)\<lparr>overheadStructure := (overheadStructure u)[i := None]\<rparr>) = Ok s'"
      by (auto simp: hc_processResponseMessage_def i_def Let_def bind_res_Ok_iff overhead_at_def
          not_null_def split: if_split_asm option.splits)
    from hc_response[OF x(4)] show ?thesis using extra b x(1-3) unfolding i_def by metis
  next
    case c
    with assms obtain u where x: "processHardwareResponse newId og Ok m s = Ok u"
      "sendResponseMessage Ok m u = Ok s'"
      by (auto simp: hc_processResponseMessage_def Let_def bind_res_Ok_iff)
    from hc_response[OF x(2)] show ?thesis using plain c x(1) by metis
  qed
qed

lemma hc_response_frame:
  assumes "hc_processResponseMessage newId og Ok m s = Ok s'"
  shows "hc_frame s s'"
  using assms
  by (cases rule: hc_response_cases) (auto simp: hc_sent_def dest!: hardware_frame intro: hc_frame_trans)

lemma hc_frame_queue: "hc_frame s s' \<Longrightarrow> queue s = [] \<Longrightarrow> queue s' = [] \<and> latencyScheduled s' = latencyScheduled s"
  by (simp add: hc_frame_def)

subsection \<open>Under the base class\<close>

lemma toCore_idle:
  fixes s :: hcpu
  assumes "queue s = []" "\<And>t. queue t = [] \<Longrightarrow> p t = Ok t"
  shows "sendRequestToCore newId og p m g c s = sendRequestToCore newId og Ok m g c s"
  unfolding sendRequestToCore_def
  by (rule bind_res_cong)
     (use assms in \<open>auto simp: bind_res_Ok_iff split: if_split_asm intro!: sendRequestMessage_idle\<close>)

lemma scheduling_cpu_idle:
  fixes s :: hcpu
  assumes "queue s = []" "\<And>t. queue t = [] \<Longrightarrow> p t = Ok t"
  shows "schedulingCPU newId og p m s = schedulingCPU newId og Ok m s"
  using toCore_idle[OF _ assms(2)] assms(1)
  by (auto simp: schedulingCPU_def split: option.split intro!: bind_res_cong)

lemma hardware_idle:
  fixes s :: hcpu
  assumes "queue s = []" "\<And>t. queue t = [] \<Longrightarrow> p t = Ok t"
  shows "processHardwareResponse newId og p m s = processHardwareResponse newId og Ok m s"
  using scheduling_cpu_idle[OF _ assms(2)] assms(1)
  by (auto simp: processHardwareResponse_def Let_def split: list.split)

lemma fold_res_idle:
  assumes "\<And>x t. queue t = [] \<Longrightarrow> f x t = g x t" "\<And>x t u. queue t = [] \<Longrightarrow> g x t = Ok u \<Longrightarrow> queue u = []"
    and "queue s = []"
  shows "fold_res f xs s = fold_res g xs s"
  using assms(3)
proof (induction xs arbitrary: s)
  case (Cons x xs)
  show ?case unfolding fold_res.simps
    by (rule bind_res_cong) (use Cons assms(1,2) in blast)+
qed simp

lemma change_state_idle:
  fixes s :: hcpu
  assumes "queue s = []" "\<And>t. queue t = [] \<Longrightarrow> p t = Ok t"
  shows "change_cpu_state newId og p m s = change_cpu_state newId og Ok m s"
  unfolding change_cpu_state_def
  by (rule bind_res_cong, rule fold_res_idle[OF _ _ assms(1)])
     (auto simp: bind_res_Ok_iff hc_sent_def hc_frame_def elim!: hc_request
       intro!: bind_res_cong sendRequestMessage_idle assms(2))

lemma hc_request_idle:
  fixes s :: hcpu
  assumes "queue s = []" "\<And>t. queue t = [] \<Longrightarrow> p t = Ok t"
  shows "hc_processRequestMessage newId og p m s = hc_processRequestMessage newId og Ok m s"
  using change_state_idle[OF assms] scheduling_cpu_idle[OF assms] by (simp add: hc_processRequestMessage_def)

lemma hc_response_idle:
  fixes s :: hcpu
  assumes "queue s = []" "\<And>t. queue t = [] \<Longrightarrow> p t = Ok t"
  shows "hc_processResponseMessage newId og p m s = hc_processResponseMessage newId og Ok m s"
proof -
  have q: "queue u = []" if "processHardwareResponse newId og Ok m s = Ok u" for u
    using hardware_frame[OF that] assms(1) by (simp add: hc_frame_def)
  note snd = sendRequestMessage_idle[OF _ assms(2)] sendResponseMessage_idle[OF _ assms(2)]
  show ?thesis
    using assms(1) hardware_idle[OF assms]
    by (auto simp: hc_processResponseMessage_def Let_def snd q intro!: bind_res_cong)
qed

interpretation hc: message_module og hc_processSelfMessage "hc_processRequestMessage newId og"
    "hc_processResponseMessage newId og" for og newId
proof (unfold_locales, goal_cases)
  case (1 s p m) then show ?case by (rule hc_request_idle)
next
  case (2 s p m) then show ?case by (rule hc_response_idle)
next
  case (3 s m s') then show ?case using hc_request_frame hc_frame_queue by blast
next
  case (4 s m s') then show ?case using hc_response_frame hc_frame_queue by blast
next
  case (5 s n s') then show ?case by (simp add: hc_processSelfMessage_def)
qed

subsection \<open>Order of the blocks\<close>

text \<open>
  A message counts as a block of a machine unless it changes a state, carries extra work or is an
  answer.  A block waits only while every core is busy.
\<close>

definition hc_block :: "message \<Rightarrow> bool" where
  "hc_block m \<longleftrightarrow> operation m \<noteq> SM_CHANGE_CPU_STATE \<and> operation m \<noteq> VM_OVERHEAD \<and> \<not> isResponse m"

definition hc_waiting :: "hcpu \<Rightarrow> int list" where
  "hc_waiting s = map msg_id (filter hc_block (coreQueue s))"

fun hc_started :: "event \<Rightarrow> int list" where
  "hc_started (Sent m (ViaGate g)) = (if hc_block m then [msg_id m] else [])"
| "hc_started e = []"

fun hc_accepted :: "hc_op \<Rightarrow> int list" where
  "hc_accepted (Handle (Incoming m)) = (if hc_block m then [msg_id m] else [])"
| "hc_accepted op = []"

definition hc_inv :: "hcpu \<Rightarrow> bool" where
  "hc_inv s \<longleftrightarrow> length (vmIDs s) = hc_numCPUs s \<and> length (overheadStructure s) = hc_numCPUs s
     \<and> (coreQueue s \<noteq> [] \<longrightarrow> -1 \<notin> set (vmIDs s))
     \<and> (\<forall>m\<in>set (coreQueue s). operation m \<noteq> SM_CHANGE_CPU_STATE \<and> \<not> isResponse m)
     \<and> (\<forall>m. Some m \<in> set (overheadStructure s) \<longrightarrow> \<not> hc_block m)"

definition hc_moves :: "int list \<Rightarrow> hcpu \<Rightarrow> hcpu \<Rightarrow> bool" where
  "hc_moves acc s s' \<longleftrightarrow> hc_frame s s' \<and> hc_inv s' \<and>
     (\<exists>es. outbox s' = outbox s @ es \<and> hc_waiting s @ acc = concat (map hc_started es) @ hc_waiting s')"

lemma hc_movesI:
  "hc_frame s s' \<Longrightarrow> hc_inv s' \<Longrightarrow> outbox s' = outbox s @ es \<Longrightarrow>
   hc_waiting s @ acc = concat (map hc_started es) @ hc_waiting s' \<Longrightarrow> hc_moves acc s s'"
  by (auto simp: hc_moves_def)

lemma hc_moves_trans:
  assumes "hc_moves a s t" "hc_moves b t u"
  shows "hc_moves (a @ b) s u"
proof -
  from assms obtain es fs where
    es: "outbox t = outbox s @ es" "hc_waiting s @ a = concat (map hc_started es) @ hc_waiting t" and
    fs: "outbox u = outbox t @ fs" "hc_waiting t @ b = concat (map hc_started fs) @ hc_waiting u"
    by (auto simp: hc_moves_def)
  have "hc_waiting s @ a @ b = (hc_waiting s @ a) @ b" by simp
  also have "\<dots> = concat (map hc_started es) @ concat (map hc_started fs) @ hc_waiting u"
    unfolding es(2) append_assoc fs(2) ..
  finally show ?thesis using assms es(1) fs(1)
    by (intro hc_movesI[of _ _ "es @ fs"]) (auto simp: hc_moves_def intro: hc_frame_trans)
qed

lemma hc_moves_refl: "hc_inv s \<Longrightarrow> hc_moves [] s s"
  by (rule hc_movesI[of _ _ "[]"]) simp_all

text \<open>Messages that are no blocks leave the account alone.\<close>

lemma hc_sent_moves:
  assumes "hc_inv s" "hc_sent es s s'" "concat (map hc_started es) = []"
  shows "hc_moves [] s s'"
  by (rule hc_movesI[of _ _ es]) (use assms in \<open>simp_all add: hc_sent_def hc_inv_def hc_frame_def hc_waiting_def\<close>)

lemma hc_inv_overhead:
  assumes "hc_inv s" "case x of None \<Rightarrow> True | Some m \<Rightarrow> \<not> hc_block m"
  shows "hc_inv (s\<lparr>overheadStructure := (overheadStructure s)[i := x]\<rparr>)"
  using assms by (auto simp: hc_inv_def dest: in_set_update)

lemma extra_no_block [simp]: "operation m = VM_OVERHEAD \<Longrightarrow> \<not> hc_block m" "isResponse m \<Longrightarrow> \<not> hc_block m"
  "operation m = SM_CHANGE_CPU_STATE \<Longrightarrow> \<not> hc_block m" "hc_block (m\<lparr>msg_trace := t\<rparr>) = hc_block m"
  by (simp_all add: hc_block_def)

lemma scheduling_moves:
  assumes "hc_inv s" "schedulingCPU newId og Ok m s = Ok s'" "operation m \<noteq> SM_CHANGE_CPU_STATE" "\<not> isResponse m"
  shows "hc_moves (if hc_block m then [msg_id m] else []) s s'"
  using assms(2)
proof (cases rule: scheduling_cases)
  case wait
  then show ?thesis using assms
    by (intro hc_movesI[of _ _ "[]"]) (auto simp: hc_inv_def hc_waiting_def)
next
  case (start core t x)
  have "-1 \<in> set (vmIDs s)" using start(2,3) nth_mem by metis
  then have e: "coreQueue s = []" using assms(1) by (auto simp: hc_inv_def)
  have "hc_inv s'" using assms(1) start e by (auto simp: hc_inv_def hc_frame_def dest: in_set_update)
  then show ?thesis using start e by (intro hc_movesI[OF start(5) _ start(6)]) (simp_all add: hc_waiting_def)
qed

lemma waiting_block_started:
  assumes "hc_inv s" "coreQueue s = e # rest" "processHardwareResponse newId og Ok m s = Ok u"
  shows "\<exists>t x. outbox u = outbox s @ [Sent (e\<lparr>msg_trace := t\<rparr>) (ViaGate (Some (''toNodeCPU'', snd (arrival m))))] \<and>
    coreQueue u = rest \<and> vmIDs u = (vmIDs s)[snd (arrival m) := int (snd (arrival e))] \<and>
    overheadStructure u = (if computing_overhead s = 0 then overheadStructure s
      else (overheadStructure s)[snd (arrival m) := Some x]) \<and>
    operation x = VM_OVERHEAD \<and> (computing_overhead s \<noteq> 0 \<longrightarrow> msg_id x = newId e 0)"
proof -
  define i where "i = snd (arrival m)"
  define t where "t = s\<lparr>vmIDs := (vmIDs s)[i := -1], coreQueue := rest\<rparr>"
  from assms(2,3) have i: "i < length (vmIDs s)" and sch: "schedulingCPU newId og Ok e t = Ok u"
    by (auto simp: processHardwareResponse_def i_def t_def Let_def split: if_split_asm)
  have busy: "-1 \<notin> set (vmIDs s)" and len: "length (vmIDs t) = hc_numCPUs t"
    using assms(1,2) by (simp_all add: hc_inv_def t_def)
  have free: "-1 \<in> set (vmIDs t)" using i by (simp add: t_def set_update_memI)
  show ?thesis using sch
  proof (cases rule: scheduling_cases)
    case wait
    then show ?thesis using free len by simp
  next
    case (start core tr x)
    have "core = i"
    proof (rule ccontr)
      assume "core \<noteq> i"
      then have "vmIDs s ! core = -1" "core < length (vmIDs s)" using start(2,3) by (simp_all add: t_def)
      then show False using busy nth_mem by metis
    qed
    then show ?thesis using start(6-11) unfolding i_def[symmetric]
      by (intro exI[of _ tr] exI[of _ x]) (simp add: t_def)
  qed
qed

lemma hardware_moves:
  assumes "hc_inv s" "processHardwareResponse newId og Ok m s = Ok s'"
  shows "hc_moves [] s s'"
proof (cases "coreQueue s")
  case Nil
  with assms(2) have "s' = s\<lparr>vmIDs := (vmIDs s)[snd (arrival m) := -1]\<rparr>"
    by (simp add: processHardwareResponse_def Let_def split: if_split_asm)
  then show ?thesis using assms(1) Nil
    by (intro hc_movesI[of _ _ "[]"]) (simp_all add: hc_inv_def hc_waiting_def)
next
  case (Cons e rest)
  from waiting_block_started[OF assms(1) Cons assms(2)] obtain t x where
    st: "outbox s' = outbox s @ [Sent (e\<lparr>msg_trace := t\<rparr>) (ViaGate (Some (''toNodeCPU'', snd (arrival m))))]"
      "coreQueue s' = rest" "vmIDs s' = (vmIDs s)[snd (arrival m) := int (snd (arrival e))]"
      "overheadStructure s' = (if computing_overhead s = 0 then overheadStructure s
         else (overheadStructure s)[snd (arrival m) := Some x])" "operation x = VM_OVERHEAD" by blast
  note f = hardware_frame[OF assms(2)]
  have "hc_inv s'" using assms(1) st Cons f by (auto simp: hc_inv_def hc_frame_def dest!: in_set_update)
  then show ?thesis using st(1,2) Cons by (intro hc_movesI[OF f _ st(1)]) (simp_all add: hc_waiting_def)
qed

lemma change_state_moves:
  assumes "hc_inv s" "change_cpu_state newId og Ok m s = Ok s'" "operation m = SM_CHANGE_CPU_STATE"
  shows "hc_moves [] s s'"
proof -
  from assms(2) obtain u where u: "s' = emit (Deleted m) u" and
    f: "fold_res (\<lambda>i s. bind_res (get_component_to_change m (int i)) (\<lambda>c. bind_res (toNodeCPU c s) (\<lambda>g.
        sendRequestMessage og Ok ((new_cpu_message (newId m i))\<lparr>changing_state := changing_state m,
          operation := operation m\<rparr>) g s))) [0..<length (change_states_index m)] s = Ok u"
    by (auto simp: change_cpu_state_def bind_res_Ok_iff)
  have step: "hc_moves [] s t'" if "hc_moves [] s t" "hc_sent [Sent n d] t t'" "operation n = SM_CHANGE_CPU_STATE"
    for t t' n d
    using hc_moves_trans[OF that(1) hc_sent_moves[of t _ t', OF _ that(2)]] that
    by (cases d) (auto simp: hc_moves_def)
  have "hc_moves [] s u"
    by (rule fold_res_invariant[where P = "hc_moves [] s", OF _ hc_moves_refl[OF assms(1)] f])
       (auto simp: bind_res_Ok_iff assms(3) elim!: hc_request intro: step)
  moreover have "hc_moves [] u s'" unfolding u using calculation
    by (intro hc_sent_moves[where es = "[Deleted m]"]) (auto simp: hc_moves_def hc_sent_def)
  ultimately show ?thesis using hc_moves_trans by fastforce
qed

lemma hc_request_moves:
  assumes "hc_inv s" "hc_processRequestMessage newId og Ok m s = Ok s'" "\<not> isResponse m"
  shows "hc_moves (if hc_block m then [msg_id m] else []) s s'"
proof (cases "operation m = SM_CHANGE_CPU_STATE")
  case True
  with assms change_state_moves[OF assms(1)] show ?thesis
    by (simp add: hc_processRequestMessage_def split: if_split_asm)
next
  case False
  with assms have "schedulingCPU newId og Ok m s = Ok s'"
    by (simp add: hc_processRequestMessage_def split: if_split_asm)
  from scheduling_moves[OF assms(1) this False assms(3)] show ?thesis .
qed

lemma hc_response_moves:
  assumes "hc_inv s" "hc_processResponseMessage newId og Ok m s = Ok s'" "isResponse m"
  shows "hc_moves [] s s'"
  using assms(2)
proof (cases rule: hc_response_cases)
  case (held x t)
  have "Some x \<in> set (overheadStructure s)" using held(3,5) nth_mem by metis
  then have "\<not> hc_block x" using assms(1) by (auto simp: hc_inv_def)
  moreover note hc_inv_overhead[OF assms(1), of "Some m"]
  ultimately have "hc_moves [] (s\<lparr>overheadStructure := (overheadStructure s)[snd (arrival m) := Some m]\<rparr>) s'"
    using assms(3) by (intro hc_sent_moves[OF _ held(6)]) simp_all
  then show ?thesis by (simp add: hc_moves_def hc_waiting_def)
next
  case (extra u x t g)
  note u = hardware_moves[OF assms(1) extra(2)]
  let ?u = "u\<lparr>overheadStructure := (overheadStructure u)[snd (arrival m) := None]\<rparr>"
  have "hc_inv ?u" using u by (intro hc_inv_overhead) (simp_all add: hc_moves_def)
  moreover have "hc_sent [Deleted m, Sent (x\<lparr>msg_trace := t\<rparr>) (ViaGateId g)] ?u s'"
    using extra(5) by (simp add: hc_sent_def)
  ultimately have "hc_moves [] ?u s'" by (rule hc_sent_moves) simp
  then have "hc_moves [] u s'" by (simp add: hc_moves_def hc_waiting_def)
  from hc_moves_trans[OF u this] show ?thesis by simp
next
  case (plain u t g)
  note u = hardware_moves[OF assms(1) plain(3)]
  from u have "hc_moves [] u s'" by (intro hc_sent_moves[OF _ plain(4)]) (simp_all add: hc_moves_def)
  from hc_moves_trans[OF u this] show ?thesis by simp
qed

lemma hc_handle_request_split:
  assumes "queue s = []" "\<not> latencyScheduled s" "\<not> isResponse m" "hc_handleMessage newId og (Incoming m) s = Ok s'"
  obtains t u where "hc_processRequestMessage newId og Ok (m\<lparr>msg_trace := t\<rparr>) u = Ok s'" "hc_sent [] s u"
proof -
  from assms hc.handle_request[OF assms(1-3), of og newId] obtain m1 u
    where u: "updateMessageTrace og m s = Ok (m1, u)" and r: "hc_processRequestMessage newId og Ok m1 u = Ok s'"
    by (auto simp: hc_handleMessage_def bind_res_Ok_iff)
  note f = updateMessageTrace_frame[OF u]
  then have "sent_events [] s u" by (simp add: sent_events_def)
  then have "hc_sent [] s u" by (rule hc_sent_sent)
  with f r show ?thesis using that by blast
qed

lemma hc_handle_moves:
  assumes "queue s = []" "\<not> latencyScheduled s" "hc_inv s" "hc_handleMessage newId og i s = Ok s'"
  shows "hc_moves (hc_accepted (Handle i)) s s'"
proof (cases i)
  case (SelfMsg n)
  then show ?thesis using assms(3,4) hc_moves_refl
    by (simp add: hc_handleMessage_def handleMessage_def hc_processSelfMessage_def)
next
  case (Incoming m)
  show ?thesis
  proof (cases "isResponse m")
    case True
    then have "hc_processResponseMessage newId og Ok m s = Ok s'"
      using hc.handle_response[OF assms(1) True] assms(4) Incoming by (simp add: hc_handleMessage_def)
    from hc_response_moves[OF assms(3) this True] show ?thesis using True Incoming by simp
  next
    case False
    from hc_handle_request_split[OF assms(1,2) False assms(4)[unfolded Incoming]] obtain t u where
      r: "hc_processRequestMessage newId og Ok (m\<lparr>msg_trace := t\<rparr>) u = Ok s'" and u: "hc_sent [] s u" .
    have su: "hc_moves [] s u" using hc_sent_moves[OF assms(3) u] by simp
    then have "hc_inv u" by (simp add: hc_moves_def)
    from hc_moves_trans[OF su hc_request_moves[OF this r]] False Incoming show ?thesis by (simp split: if_splits)
  qed
qed

subsection \<open>The gates of the machines\<close>

definition hc_locked :: "nat list \<times> bool list \<Rightarrow> hcpu \<Rightarrow> bool" where
  "hc_locked sh s \<longleftrightarrow> in_step sh ''toVMCPU'' (toVMCPU s) \<and> in_step sh ''fromVMCPU'' (fromVMCPU s)"

text \<open>
  The gate numbers in use are 0, for the node, and those of the cores of the machines, each used
  by one core of one machine.
\<close>

definition hc_linked :: "hcpu \<Rightarrow> bool" where
  "hc_linked s \<longleftrightarrow> (\<exists>sh. hc_locked sh s \<and> shape_live sh = set (0 # concat (map hc_gates (hc_vms s)))) \<and>
     distinct (0 # concat (map hc_gates (hc_vms s)))"

fun shape_allocs :: "nat \<Rightarrow> nat list \<times> bool list \<Rightarrow> nat list \<times> (nat list \<times> bool list)" where
  "shape_allocs 0 sh = ([], sh)"
| "shape_allocs (Suc n) sh = (fst (shape_allocs n sh) @ [fst (shape_alloc (snd (shape_allocs n sh)))],
     snd (shape_alloc (snd (shape_allocs n sh))))"

lemma shape_allocs_live:
  assumes "in_step sh n gm"
  shows "distinct (fst (shape_allocs k sh))" "set (fst (shape_allocs k sh)) \<inter> shape_live sh = {}"
    "shape_live (snd (shape_allocs k sh)) = set (fst (shape_allocs k sh)) \<union> shape_live sh"
    "\<exists>gm. in_step (snd (shape_allocs k sh)) n gm"
proof (induction k)
  case (Suc k)
  from Suc.IH(4) obtain gm' where i: "in_step (snd (shape_allocs k sh)) n gm'" by auto
  note al = in_step_alloc_live[OF i]
  from in_step_out[OF i, of undefined] have "\<exists>gm. in_step (snd (shape_alloc (snd (shape_allocs k sh)))) n gm" by auto
  with Suc.IH(1-3) al show "distinct (fst (shape_allocs (Suc k) sh))"
    "set (fst (shape_allocs (Suc k) sh)) \<inter> shape_live sh = {}"
    "shape_live (snd (shape_allocs (Suc k) sh)) = set (fst (shape_allocs (Suc k) sh)) \<union> shape_live sh"
    "\<exists>gm. in_step (snd (shape_allocs (Suc k) sh)) n gm" by auto
qed (use assms in auto)

lemma connect_outs_step:
  assumes "in_step sh ''toVMCPU'' gm" "n \<le> length iGates"
  shows "\<exists>gm'. connect_outs iGates n gm = Ok (fst (shape_allocs n sh), gm') \<and>
    in_step (snd (shape_allocs n sh)) ''toVMCPU'' gm'"
  using assms(2)
proof (induction n)
  case (Suc n)
  then obtain gm' where g: "connect_outs iGates n gm = Ok (fst (shape_allocs n sh), gm')"
    "in_step (snd (shape_allocs n sh)) ''toVMCPU'' gm'" by auto
  from in_step_out[OF g(2), of "iGates ! n"] g(1) Suc.prems show ?case
    by (auto simp: connect_outs_def fold_res_append case_prod_beta')
qed (use assms(1) in \<open>simp add: connect_outs_def\<close>)

lemma connect_ins_step:
  assumes "in_step sh ''fromVMCPU'' gm" "n \<le> length oGates"
  shows "\<exists>gm'. connect_ins oGates n gm = Ok gm' \<and> in_step (snd (shape_allocs n sh)) ''fromVMCPU'' gm'"
  using assms(2)
proof (induction n)
  case (Suc n)
  then obtain gm' where g: "connect_ins oGates n gm = Ok gm'"
    "in_step (snd (shape_allocs n sh)) ''fromVMCPU'' gm'" by auto
  from in_step_in[OF g(2), of "oGates ! n"] g(1) Suc.prems show ?case
    by (auto simp: connect_ins_def fold_res_append case_prod_beta')
qed (use assms(1) in \<open>simp add: connect_ins_def\<close>)

lemma setVM_linked:
  assumes "hc_linked s" "n \<le> length iGates" "n \<le> length oGates"
  shows "\<exists>s' gs. hc_setVM oGates iGates n u p s = Ok s' \<and> hc_linked s' \<and> length gs = n \<and>
    hc_vms s' = hc_vms s @ [\<lparr>hc_gates = gs, hc_uId = u, hc_pId = p\<rparr>]"
proof -
  from assms(1) obtain sh where sh: "in_step sh ''toVMCPU'' (toVMCPU s)" "in_step sh ''fromVMCPU'' (fromVMCPU s)"
    "shape_live sh = set (0 # concat (map hc_gates (hc_vms s)))" "distinct (0 # concat (map hc_gates (hc_vms s)))"
    by (auto simp: hc_linked_def hc_locked_def)
  let ?gs = "fst (shape_allocs n sh)" and ?sh = "snd (shape_allocs n sh)"
  from connect_outs_step[OF sh(1) assms(2)] connect_ins_step[OF sh(2) assms(3)] obtain to fr where
    l: "connect_outs iGates n (toVMCPU s) = Ok (?gs, to)" "connect_ins oGates n (fromVMCPU s) = Ok fr"
      "in_step ?sh ''toVMCPU'' to" "in_step ?sh ''fromVMCPU'' fr" by blast
  let ?s = "s\<lparr>toVMCPU := to, fromVMCPU := fr, hc_vms := hc_vms s @ [\<lparr>hc_gates = ?gs, hc_uId = u, hc_pId = p\<rparr>]\<rparr>"
  note al = shape_allocs_live[OF sh(1), where k = n]
  have d: "shape_live ?sh = set (0 # concat (map hc_gates (hc_vms ?s)))" using al(3) sh(3) by auto
  have e: "distinct (0 # concat (map hc_gates (hc_vms ?s)))" using al(1,2) sh(3,4) by auto
  have "hc_locked ?sh ?s" using l(3,4) by (simp add: hc_locked_def)
  with d e have "hc_linked ?s" by (simp only: hc_linked_def) blast
  moreover have "length ?gs = n" by (induction n) (auto simp: case_prod_beta' Let_def)
  moreover have "hc_setVM oGates iGates n u p s = Ok ?s" using l by (simp add: hc_setVM_def)
  ultimately show ?thesis by auto
qed

lemma free_cores_step:
  assumes "in_step sh ''toVMCPU'' to" "in_step sh ''fromVMCPU'' fr" "distinct gs" "set gs \<subseteq> shape_live sh"
  shows "\<exists>sh' to' fr'. free_cores gs (to, fr) = Ok (to', fr') \<and> in_step sh' ''toVMCPU'' to' \<and>
    in_step sh' ''fromVMCPU'' fr' \<and> shape_live sh' = shape_live sh - set gs"
  using assms
proof (induction gs arbitrary: sh to fr)
  case (Cons g gs)
  then have g: "g \<in> shape_live sh" by simp
  from in_step_free[OF Cons.prems(1) g] in_step_free[OF Cons.prems(2) g] obtain a to1 b fr1 where
    f: "freeGate g to = Ok (a, to1)" "in_step (shape_free g sh) ''toVMCPU'' to1"
      "freeGate g fr = Ok (b, fr1)" "in_step (shape_free g sh) ''fromVMCPU'' fr1" by blast
  have "set gs \<subseteq> shape_live (shape_free g sh)" using Cons.prems(3,4) by (auto simp: shape_free_live)
  with Cons.IH[OF f(2,4)] Cons.prems(3) obtain sh' to' fr' where
    "free_cores gs (to1, fr1) = Ok (to', fr')" "in_step sh' ''toVMCPU'' to'" "in_step sh' ''fromVMCPU'' fr'"
    "shape_live sh' = shape_live (shape_free g sh) - set gs" by auto
  moreover have "free_cores (g # gs) (to, fr) = free_cores gs (to1, fr1)" by (simp add: free_cores_def f(1,3))
  moreover have "shape_live (shape_free g sh) - set gs = shape_live sh - set (g # gs)"
    by (auto simp: shape_free_live)
  ultimately show ?case by metis
next
  case Nil
  then show ?case by (intro exI[of _ sh] exI[of _ to] exI[of _ fr]) (simp add: free_cores_def)
qed

lemma concat_remove_at:
  assumes "i < length xs"
  shows "mset (concat (map f xs)) = mset (f (xs ! i)) + mset (concat (map f (remove_at i xs)))"
proof -
  have "xs = take i xs @ xs ! i # drop (Suc i) xs" using assms by (rule id_take_nth_drop)
  then have "concat (map f xs) = concat (map f (take i xs)) @ f (xs ! i) @ concat (map f (drop (Suc i) xs))"
    by (metis concat.simps(2) concat_append list.simps(9) map_append)
  then show ?thesis by (simp add: remove_at_def)
qed

lemma freeVM_linked:
  assumes "hc_linked s" "index_of (\<lambda>c. hc_pId c = p \<and> hc_uId c = u) (hc_vms s) = Some i"
  shows "\<exists>s'. hc_freeVM u p s = Ok s' \<and> hc_linked s' \<and> hc_vms s' = remove_at i (hc_vms s) \<and>
    live (toVMCPU s') = live (toVMCPU s) - set (hc_gates (hc_vms s ! i)) \<and>
    live (fromVMCPU s') = live (fromVMCPU s) - set (hc_gates (hc_vms s ! i))"
proof -
  from assms(1) obtain sh where sh: "in_step sh ''toVMCPU'' (toVMCPU s)" "in_step sh ''fromVMCPU'' (fromVMCPU s)"
    "shape_live sh = set (0 # concat (map hc_gates (hc_vms s)))" "distinct (0 # concat (map hc_gates (hc_vms s)))"
    by (auto simp: hc_linked_def hc_locked_def)
  let ?gs = "hc_gates (hc_vms s ! i)" and ?rest = "concat (map hc_gates (remove_at i (hc_vms s)))"
  have m: "mset (concat (map hc_gates (hc_vms s))) = mset (?gs @ ?rest)"
    using concat_remove_at[OF index_of_bound[OF assms(2)], of hc_gates] by simp
  then have st: "set (concat (map hc_gates (hc_vms s))) = set ?gs \<union> set ?rest" by (metis mset_eq_setD set_append)
  have ds: "distinct (?gs @ ?rest)" using mset_eq_imp_distinct_iff[OF m] sh(4) by simp
  have "distinct ?gs" "set ?gs \<subseteq> shape_live sh" using ds sh(3) st by auto
  from free_cores_step[OF sh(1,2) this] obtain sh' to fr where
    f: "free_cores ?gs (toVMCPU s, fromVMCPU s) = Ok (to, fr)" "in_step sh' ''toVMCPU'' to"
      "in_step sh' ''fromVMCPU'' fr" "shape_live sh' = shape_live sh - set ?gs" by blast
  let ?s = "s\<lparr>toVMCPU := to, fromVMCPU := fr, hc_vms := remove_at i (hc_vms s)\<rparr>"
  have r: "hc_freeVM u p s = Ok ?s" using assms(2) f(1) by (simp add: hc_freeVM_def)
  have "shape_live sh' = set (0 # ?rest)" "distinct (0 # ?rest)" using f(4) sh(3,4) st ds by auto
  then have "hc_linked ?s" using f(2,3) unfolding hc_linked_def hc_locked_def
    by (intro conjI exI[of _ sh']) simp_all
  moreover have "live (toVMCPU ?s) = live (toVMCPU s) - set ?gs" "live (fromVMCPU ?s) = live (fromVMCPU s) - set ?gs"
    using in_step_live[OF sh(1)] in_step_live[OF sh(2)] in_step_live[OF f(2)] in_step_live[OF f(3)] f(4) by simp_all
  ultimately show ?thesis using r by (intro exI[of _ ?s]) simp
qed

lemma setVM_needs_gates:
  assumes "hc_linked s" "hc_setVM oGates iGates n u p s = Ok s'"
  shows "n \<le> length iGates \<and> n \<le> length oGates"
proof (cases n)
  case (Suc k)
  from assms(2) Suc obtain x y where "connect_outs iGates (Suc k) (toVMCPU s) = Ok x"
    "connect_ins oGates (Suc k) (fromVMCPU s) = Ok y" by (auto simp: hc_setVM_def bind_res_Ok_iff)
  then have "k < length iGates" "k < length oGates"
    unfolding connect_outs_def connect_ins_def
    by (auto simp: fold_res_append bind_res_Ok_iff split: if_split_asm)
  with Suc show ?thesis by simp
qed simp

subsection \<open>The manager is a dispatcher\<close>

definition hc_ok :: "hcpu \<Rightarrow> bool" where
  "hc_ok s \<longleftrightarrow> queue s = [] \<and> \<not> latencyScheduled s \<and> hc_inv s \<and> hc_linked s"

lemma hc_moves_ok:
  assumes "hc_ok s" "hc_moves acc s s'"
  shows "hc_ok s'"
  using assms by (simp add: hc_ok_def hc_moves_def hc_frame_def hc_linked_def hc_locked_def)

lemma hc_linking_ok:
  assumes "hc_ok s" "s' = s\<lparr>toVMCPU := a, fromVMCPU := b, hc_vms := c\<rparr>" "hc_linked s'"
  shows "hc_ok s' \<and> outbox s' = outbox s \<and> hc_waiting s' = hc_waiting s"
  using assms by (simp add: hc_ok_def hc_inv_def hc_waiting_def)

lemma hc_step_ok:
  assumes "hc_ok s" "hc_step newId og op s = Ok s'"
  shows "hc_ok s' \<and> (\<exists>es. outbox s' = outbox s @ es \<and>
    hc_waiting s @ hc_accepted op = concat (map hc_started es) @ hc_waiting s')"
proof (cases op)
  case (Handle i)
  have m: "hc_moves (hc_accepted op) s s'"
    using hc_handle_moves[of s newId og i s'] assms Handle by (simp add: hc_ok_def)
  from hc_moves_ok[OF assms(1) m] m show ?thesis by (simp add: hc_moves_def)
next
  case (SetVM oGates iGates n u p)
  with assms have r: "hc_setVM oGates iGates n u p s = Ok s'" by simp
  have l: "hc_linked s" using assms(1) by (simp add: hc_ok_def)
  from setVM_needs_gates[OF l r] setVM_linked[OF l, of n iGates oGates u p] r have l': "hc_linked s'" by auto
  from r obtain a b c where "s' = s\<lparr>toVMCPU := a, fromVMCPU := b, hc_vms := c\<rparr>"
    by (auto simp: hc_setVM_def bind_res_Ok_iff)
  from hc_linking_ok[OF assms(1) this l'] SetVM show ?thesis by (intro conjI exI[of _ "[]"]) simp_all
next
  case (FreeVM u p)
  with assms have r: "hc_freeVM u p s = Ok s'" by simp
  have l: "hc_linked s" using assms(1) by (simp add: hc_ok_def)
  from r obtain i where "index_of (\<lambda>c. hc_pId c = p \<and> hc_uId c = u) (hc_vms s) = Some i"
    by (auto simp: hc_freeVM_def split: option.splits)
  from freeVM_linked[OF l this] r have l': "hc_linked s'" by auto
  from r obtain a b c where "s' = s\<lparr>toVMCPU := a, fromVMCPU := b, hc_vms := c\<rparr>"
    by (auto simp: hc_freeVM_def bind_res_Ok_iff split: option.splits)
  from hc_linking_ok[OF assms(1) this l'] FreeVM show ?thesis by (intro conjI exI[of _ "[]"]) simp_all
qed

interpretation hc_d: dispatcher hc_ok "hc_step newId og" hc_waiting outbox hc_accepted hc_started for newId og
  by unfold_locales (rule hc_step_ok)

lemma hc_initialize_ok:
  assumes "hc_initialize (base_initialize i host) n ov = Ok s"
  shows "hc_ok s \<and> hc_waiting s = [] \<and> computing_overhead s = ov"
proof -
  let ?gm = "\<lambda>g. \<lparr>holes = [], gates = [\<lparr>slot_gate = (g, 0), gateHit = True\<rparr>], commands = []\<rparr>"
  have l: "linkGate g 0 new_gate_manager = Ok (?gm g)" for g by (simp add: linkGate_def new_gate_manager_def)
  have st: "in_step ([], [True]) g (?gm g)" for g
    by (auto simp: in_step_def manager_ok_def gm_inv_def named_def gm_shape_def nth_Cons')
  have "s = \<lparr>queue = [], outbox = [], currentRequest = 0, latencyScheduled = False, module_id = i,
      host_name = host, hc_numCPUs = n, hc_nodeGate = 0, toVMCPU = ?gm ''toVMCPU'',
      fromVMCPU = ?gm ''fromVMCPU'', hc_vms = [], computing_overhead = ov,
      overheadStructure = replicate n None, vmIDs = replicate n (-1), coreQueue = []\<rparr>"
    using assms by (simp add: hc_initialize_def l base_initialize_def)
  moreover from this have "hc_linked s"
    using st by (auto simp: hc_linked_def hc_locked_def shape_live_def intro!: exI[of _ "[]"] exI[of _ "[True]"])
  ultimately show ?thesis by (simp add: hc_ok_def hc_inv_def hc_waiting_def)
qed

subsection \<open>Properties\<close>

definition sc_hc_og :: "message \<Rightarrow> int option" where "sc_hc_og m = Some 5"
definition sc_hc_id :: "message \<Rightarrow> nat \<Rightarrow> int" where "sc_hc_id m k = 1000 + msg_id m"

definition sc_hc_message :: "int \<Rightarrow> int \<Rightarrow> bool \<Rightarrow> string \<times> nat \<Rightarrow> message" where
  "sc_hc_message i opr r g = (new_cpu_message i)\<lparr>operation := opr, isResponse := r, arrival := g,
     msg_trace := [(''node'', [\<lparr>moduleID = 1, gateID = 7, reqSequence = [0]\<rparr>])]\<rparr>"

text \<open>One core and one machine; two blocks; the first has come back from the core.\<close>

definition sc_hc_ops :: "hc_op list" where
  "sc_hc_ops = [SetVM [(''a'', 0)] [(''b'', 0)] 1 3 7,
     Handle (Incoming (sc_hc_message 1 0 False (''fromVMCPU'', 1))),
     Handle (Incoming (sc_hc_message 2 0 False (''fromVMCPU'', 1))),
     Handle (Incoming (sc_hc_message 1 0 True (''fromNodeCPU'', 0)))]"

definition sc_hc_start :: "rat \<Rightarrow> hcpu" where
  "sc_hc_start ov = (case hc_initialize (base_initialize 30 ''host'') 1 ov of Ok s \<Rightarrow> s)"

lemma sc_hc_start: "hc_initialize (base_initialize 30 ''host'') 1 ov = Ok (sc_hc_start ov)"
  by (simp add: sc_hc_start_def hc_initialize_def linkGate_def new_gate_manager_def)

definition sc_hc_used :: "rat \<Rightarrow> hcpu" where
  "sc_hc_used ov = (case fold_res (hc_step sc_hc_id sc_hc_og) sc_hc_ops (sc_hc_start ov) of Ok s \<Rightarrow> s)"

lemma sc_hc_used:
  "fold_res (hc_step sc_hc_id sc_hc_og) sc_hc_ops (sc_hc_start 10) = Ok (sc_hc_used 10)"
  "fold_res (hc_step sc_hc_id sc_hc_og) sc_hc_ops (sc_hc_start 0) = Ok (sc_hc_used 0)"
proof -
  have "res_ok (fold_res (hc_step sc_hc_id sc_hc_og) sc_hc_ops (sc_hc_start 10))"
    "res_ok (fold_res (hc_step sc_hc_id sc_hc_og) sc_hc_ops (sc_hc_start 0))" by code_simp+
  then show "fold_res (hc_step sc_hc_id sc_hc_og) sc_hc_ops (sc_hc_start 10) = Ok (sc_hc_used 10)"
    "fold_res (hc_step sc_hc_id sc_hc_og) sc_hc_ops (sc_hc_start 0) = Ok (sc_hc_used 0)"
    by (auto simp: sc_hc_used_def elim: res_okE)
qed

text \<open>
  C35: the hypervisor starts the computing blocks of the virtual machines in the order in which they
  arrive, with and without a virtualisation overhead and while machines are linked and freed: the
  blocks that were accepted are those that were started, in this order, and then those that wait.
  A block waits only while every core is busy.
\<close>

theorem hypervisor_cpu_order:
  assumes "hc_initialize (base_initialize i host) n ov = Ok s" "fold_res (hc_step newId og) ops s = Ok s'"
  shows "(\<exists>es. outbox s' = outbox s @ es \<and>
      concat (map hc_accepted ops) = concat (map hc_started es) @ hc_waiting s') \<and>
    (coreQueue s' \<noteq> [] \<longrightarrow> -1 \<notin> set (vmIDs s'))"
proof -
  note ok = hc_initialize_ok[OF assms(1)]
  then have "hc_ok s" by simp
  from hc_d.run_order[OF this assms(2)] hc_d.run_inv[OF this assms(2)] ok show ?thesis
    by (simp add: hc_ok_def hc_inv_def)
qed

theorem hypervisor_cpu_order_witness:
  "\<exists>es. outbox (sc_hc_used 0) = outbox (sc_hc_start 0) @ es \<and> [1, 2] = concat (map hc_started es) @ hc_waiting (sc_hc_used 0)"
proof -
  have "concat (map hc_accepted sc_hc_ops) = [1, 2]" by code_simp
  with hypervisor_cpu_order[OF sc_hc_start sc_hc_used(2)] show ?thesis by simp
qed

text \<open>
  With a virtualisation overhead a block that waits when the extra work of another has been done
  costs the other its answer.  The block is started on the core and its own message for the extra
  work overwrites the answer that was held back; that message is sent instead of the answer, and
  nothing is left for the core, so the next block that comes back from it is a NULL dereference.
\<close>

theorem overhead_answer_lost:
  assumes "hc_ok s" "computing_overhead s \<noteq> 0" "coreQueue s = e # rest" "isResponse m"
    and "operation m = VM_OVERHEAD" "hc_handleMessage newId og (Incoming m) s = Ok s'"
  shows "(\<exists>t x t' g. outbox s' = outbox s @ [Sent (e\<lparr>msg_trace := t\<rparr>) (ViaGate (Some (''toNodeCPU'', snd (arrival m)))),
        Deleted m, Sent (x\<lparr>msg_trace := t'\<rparr>) (ViaGateId g)] \<and> msg_id x = newId e 0 \<and> operation x = VM_OVERHEAD) \<and>
    (\<forall>m'. isResponse m' \<and> operation m' \<noteq> VM_OVERHEAD \<and> snd (arrival m') = snd (arrival m) \<longrightarrow>
      hc_handleMessage newId og (Incoming m') s' = Fail Undefined)"
proof -
  define i where "i = snd (arrival m)"
  have q: "queue s = []" "\<not> latencyScheduled s" "hc_inv s" using assms(1) by (simp_all add: hc_ok_def)
  have "hc_processResponseMessage newId og Ok m s = Ok s'"
    using hc.handle_response[OF q(1) assms(4)] assms(6) by (simp add: hc_handleMessage_def)
  then obtain u y t' g where u: "processHardwareResponse newId og Ok m s = Ok u" "i < length (overheadStructure u)"
    "overheadStructure u ! i = Some y" "hc_sent [Sent (y\<lparr>msg_trace := t'\<rparr>) (ViaGateId g)]
       ((emit (Deleted m) u)\<lparr>overheadStructure := (overheadStructure u)[i := None]\<rparr>) s'"
    using assms(2,5) unfolding i_def by (cases rule: hc_response_cases) auto
  obtain t x where st: "outbox u = outbox s @ [Sent (e\<lparr>msg_trace := t\<rparr>) (ViaGate (Some (''toNodeCPU'', i)))]"
    "overheadStructure u = (overheadStructure s)[i := Some x]" "operation x = VM_OVERHEAD" "msg_id x = newId e 0"
    using waiting_block_started[OF q(3) assms(3) u(1)] assms(2) unfolding i_def by auto
  have "y = x" using u(2,3) st(2) by simp
  moreover have "hc_handleMessage newId og (Incoming m') s' = Fail Undefined"
    if "isResponse m'" "operation m' \<noteq> VM_OVERHEAD" "snd (arrival m') = i" for m'
  proof -
    have f: "queue s' = []" "computing_overhead s' \<noteq> 0" "hc_numCPUs s' = hc_numCPUs s"
      "overheadStructure s' = (overheadStructure u)[i := None]"
      using u(4) hardware_frame[OF u(1)] q assms(2) by (simp_all add: hc_sent_def hc_frame_def)
    then show ?thesis using that u(2) hc.handle_response[OF f(1) that(1)]
      by (simp add: hc_handleMessage_def hc_processResponseMessage_def Let_def overhead_at_def not_null_def toNodeCPU_def)
  qed
  ultimately show ?thesis using u(4) st unfolding hc_sent_def i_def[symmetric] by auto
qed


text \<open>
  in every reachable state the gates of the two managers that are in use are that of the node
  and those of the cores of the machines, no two cores share one, and freeing a machine succeeds and
  frees exactly its gates.
\<close>

theorem core_gates_exclusive:
  assumes "hc_initialize (base_initialize i host) n ov = Ok s" "fold_res (hc_step newId og) ops s = Ok s'"
  shows "distinct (0 # concat (map hc_gates (hc_vms s'))) \<and>
    live (toVMCPU s') = set (0 # concat (map hc_gates (hc_vms s'))) \<and> live (fromVMCPU s') = live (toVMCPU s') \<and>
    (\<forall>u p k. index_of (\<lambda>c. hc_pId c = p \<and> hc_uId c = u) (hc_vms s') = Some k \<longrightarrow>
      (\<exists>s2. hc_freeVM u p s' = Ok s2 \<and> hc_vms s2 = remove_at k (hc_vms s') \<and>
        live (toVMCPU s2) = live (toVMCPU s') - set (hc_gates (hc_vms s' ! k)) \<and> live (fromVMCPU s2) = live (toVMCPU s2)))"
proof -
  have "hc_ok s" using hc_initialize_ok[OF assms(1)] by simp
  from hc_d.run_inv[OF this assms(2)] have l: "hc_linked s'" by (simp add: hc_ok_def)
  then obtain sh where "in_step sh ''toVMCPU'' (toVMCPU s')" "in_step sh ''fromVMCPU'' (fromVMCPU s')"
    "shape_live sh = set (0 # concat (map hc_gates (hc_vms s')))" "distinct (0 # concat (map hc_gates (hc_vms s')))"
    by (auto simp: hc_linked_def hc_locked_def)
  note f = this(3,4) in_step_live[OF this(1)] in_step_live[OF this(2)]
  have "\<exists>s2. hc_freeVM u p s' = Ok s2 \<and> hc_vms s2 = remove_at k (hc_vms s') \<and>
      live (toVMCPU s2) = live (toVMCPU s') - set (hc_gates (hc_vms s' ! k)) \<and> live (fromVMCPU s2) = live (toVMCPU s2)"
    if "index_of (\<lambda>c. hc_pId c = p \<and> hc_uId c = u) (hc_vms s') = Some k" for u p k
    using freeVM_linked[OF l that] f(3,4) by auto
  with f show ?thesis by (intro conjI) (simp_all only:, blast)
qed

end
