(* ===== verification/DataCenterApi.thy ===== *)
theory DataCenterApi imports MachinesMap begin

text \<open>
  \<^verbatim>\<open>DataCenterAPI\<close> (\<^verbatim>\<open>src/src/Management/DataCenterManagement/Base/DataCenterAPI.cc\<close>): the view of
  the managers and schedulers on the machines of a data centre.  It holds two maps, of compute and
  of storage nodes, and a flag of every operation selects the map.  A node is a machine of the map;
  the \<^verbatim>\<open>dynamic_cast\<close> to \<^verbatim>\<open>AbstractNode\<close> succeeds for all of them.  The number of processes that run
  on a machine, which the operating system of the node keeps, is the parameter \<open>running\<close>.
\<close>

record data_centre =
  nodesMap :: machine_map
  storage_nodesMap :: machine_map

definition chosen_map :: "bool \<Rightarrow> data_centre \<Rightarrow> machine_map" where
  "chosen_map storage dc = (if storage then storage_nodesMap dc else nodesMap dc)"

definition dc_getMapSize :: "data_centre \<Rightarrow> nat" where
  "dc_getMapSize dc = length (nodesMap dc)"

definition dc_getStorageMapSize :: "data_centre \<Rightarrow> nat" where
  "dc_getStorageMapSize dc = length (storage_nodesMap dc)"

definition dc_getDifferentTypesSize :: "bool \<Rightarrow> data_centre \<Rightarrow> nat" where
  "dc_getDifferentTypesSize storage dc = getMapQuantity (chosen_map storage dc)"

definition dc_getSetPosition :: "string \<Rightarrow> bool \<Rightarrow> data_centre \<Rightarrow> int res" where
  "dc_getSetPosition i storage dc = getSetIndex i (chosen_map storage dc)"

definition dc_getSetName :: "int \<Rightarrow> bool \<Rightarrow> data_centre \<Rightarrow> string res" where
  "dc_getSetName i storage dc = getSetIdentifier i (chosen_map storage dc)"

definition dc_getSetSize_named :: "string \<Rightarrow> bool \<Rightarrow> data_centre \<Rightarrow> nat res" where
  "dc_getSetSize_named i storage dc = getSetQuantity_named i (chosen_map storage dc)"

definition dc_getSetSize_at :: "int \<Rightarrow> bool \<Rightarrow> data_centre \<Rightarrow> nat res" where
  "dc_getSetSize_at i storage dc = getSetQuantity_at i (chosen_map storage dc)"

definition dc_getSetNumCores_named :: "string \<Rightarrow> bool \<Rightarrow> data_centre \<Rightarrow> int res" where
  "dc_getSetNumCores_named i storage dc = getSetNumberOfCPUs_named i (chosen_map storage dc)"

definition dc_getSetNumCores_at :: "int \<Rightarrow> bool \<Rightarrow> data_centre \<Rightarrow> int res" where
  "dc_getSetNumCores_at i storage dc = getSetNumberOfCPUs_at i (chosen_map storage dc)"

definition dc_getSetMemorySize_named :: "string \<Rightarrow> bool \<Rightarrow> data_centre \<Rightarrow> int res" where
  "dc_getSetMemorySize_named i storage dc = getSetTotalMemory_named i (chosen_map storage dc)"

definition dc_getSetMemorySize_at :: "int \<Rightarrow> bool \<Rightarrow> data_centre \<Rightarrow> int res" where
  "dc_getSetMemorySize_at i storage dc = getSetTotalMemory_at i (chosen_map storage dc)"

definition dc_getSetStorageSize_named :: "string \<Rightarrow> bool \<Rightarrow> data_centre \<Rightarrow> int res" where
  "dc_getSetStorageSize_named i storage dc = getSetTotalStorage i (chosen_map storage dc)"

definition dc_countONNodes_named :: "string \<Rightarrow> bool \<Rightarrow> data_centre \<Rightarrow> nat res" where
  "dc_countONNodes_named i storage dc = countONMachines_named i (chosen_map storage dc)"

definition dc_countONNodes_at :: "int \<Rightarrow> bool \<Rightarrow> data_centre \<Rightarrow> nat res" where
  "dc_countONNodes_at i storage dc = countONMachines_at i (chosen_map storage dc)"

definition dc_countOFFNodes_named :: "string \<Rightarrow> bool \<Rightarrow> data_centre \<Rightarrow> nat res" where
  "dc_countOFFNodes_named i storage dc = countOFFMachines_named i (chosen_map storage dc)"

definition dc_countOFFNodes_at :: "int \<Rightarrow> bool \<Rightarrow> data_centre \<Rightarrow> nat res" where
  "dc_countOFFNodes_at i storage dc = countOFFMachines_at i (chosen_map storage dc)"

definition dc_getONNodes_named :: "string \<Rightarrow> bool \<Rightarrow> data_centre \<Rightarrow> machine list res" where
  "dc_getONNodes_named i storage dc = getONMachines_named i (chosen_map storage dc)"

definition dc_getONNodes_at :: "int \<Rightarrow> bool \<Rightarrow> data_centre \<Rightarrow> machine list res" where
  "dc_getONNodes_at i storage dc = getONMachines_at i (chosen_map storage dc)"

definition dc_getOFFNodes_named :: "string \<Rightarrow> bool \<Rightarrow> data_centre \<Rightarrow> machine list res" where
  "dc_getOFFNodes_named i storage dc = getOFFMachines_named i (chosen_map storage dc)"

definition dc_getOFFNodes_at :: "int \<Rightarrow> bool \<Rightarrow> data_centre \<Rightarrow> machine list res" where
  "dc_getOFFNodes_at i storage dc = getOFFMachines_at i (chosen_map storage dc)"

definition dc_getNodeByIndex_named :: "string \<Rightarrow> int \<Rightarrow> bool \<Rightarrow> data_centre \<Rightarrow> machine res" where
  "dc_getNodeByIndex_named i k storage dc = getMachineByIndex_named i k (chosen_map storage dc)"

definition dc_getNodeByIndex_at :: "int \<Rightarrow> int \<Rightarrow> bool \<Rightarrow> data_centre \<Rightarrow> machine res" where
  "dc_getNodeByIndex_at i k storage dc = getMachineByIndex_at i k (chosen_map storage dc)"

text \<open>The storage size of a set that is given by its position is read from the memory of the set.\<close>

definition dc_getSetStorageSize_at :: "int \<Rightarrow> bool \<Rightarrow> data_centre \<Rightarrow> int res" where
  "dc_getSetStorageSize_at i storage dc = getSetTotalMemory_at i (chosen_map storage dc)"

text \<open>\<^verbatim>\<open>getNodeState\<close> assigns the truth value to a string: it becomes a character code.\<close>

definition state_string :: "bool \<Rightarrow> string" where
  "state_string b = [if b then CHR 0x01 else CHR 0x00]"

definition dc_getNodeState_named :: "string \<Rightarrow> int \<Rightarrow> bool \<Rightarrow> data_centre \<Rightarrow> string res" where
  "dc_getNodeState_named i k storage dc =
     bind_res (isMachineON_named i k (chosen_map storage dc)) (\<lambda>b. Ok (state_string b))"

definition dc_getNodeState_at :: "int \<Rightarrow> int \<Rightarrow> bool \<Rightarrow> data_centre \<Rightarrow> string res" where
  "dc_getNodeState_at i k storage dc =
     bind_res (isMachineON_at i k (chosen_map storage dc)) (\<lambda>b. Ok (state_string b))"

definition dc_getNodeIp :: "string \<Rightarrow> int \<Rightarrow> bool \<Rightarrow> data_centre \<Rightarrow> string res" where
  "dc_getNodeIp i k storage dc = bind_res (getMachineByIndex_named i k (chosen_map storage dc)) (\<lambda>m. Ok (m_ip m))"

definition dc_getNodeByIP :: "string \<Rightarrow> data_centre \<Rightarrow> machine option res" where
  "dc_getNodeByIP ip dc = bind_res (getMachineByIP ip (storage_nodesMap dc)) (\<lambda>result.
     if result = None then getMachineByIP ip (nodesMap dc) else Ok result)"

definition dc_getElementType :: "int \<Rightarrow> bool \<Rightarrow> data_centre \<Rightarrow> element_type option res" where
  "dc_getElementType i storage dc = (let ms = chosen_map storage dc in
     if 0 \<le> i \<and> i < int (length ms) then Ok (hs_type (ms ! nat i)) else Fail Undefined)"

definition dc_setElementType :: "element_type \<Rightarrow> nat \<Rightarrow> bool \<Rightarrow> data_centre \<Rightarrow> data_centre res" where
  "dc_setElementType el index storage dc =
     (if storage then bind_res (setElementType index el (storage_nodesMap dc)) (\<lambda>m. Ok (dc\<lparr>storage_nodesMap := m\<rparr>))
      else bind_res (setElementType index el (nodesMap dc)) (\<lambda>m. Ok (dc\<lparr>nodesMap := m\<rparr>)))"

definition dc_getNumberOfProcesses :: "(machine \<Rightarrow> int) \<Rightarrow> int \<Rightarrow> int \<Rightarrow> bool \<Rightarrow> data_centre \<Rightarrow> int res" where
  "dc_getNumberOfProcesses running nodeSet nodeID storage dc =
     bind_res (getMachineByIndex_at nodeSet nodeID (nodesMap dc)) (\<lambda>m. Ok (running m))"

end
