(* ===== verification/CloudRequests.thy ===== *)
theory CloudRequests imports DataCenterApi begin

text \<open>
  The requests of the users and the scheduling round of the cloud manager
  (\<^verbatim>\<open>RequestsManagement\<close> below \<^verbatim>\<open>src/src/Management/DataCenterManagement/Base\<close>, the request classes
  below \<^verbatim>\<open>src/src/Base/Request\<close>, and \<^verbatim>\<open>CloudSchedulerFCFS\<close> below
  \<^verbatim>\<open>src/src/Management/CloudManagement/ResourcesProvisioning\<close>).

  A request object is a record; \<open>rq_id\<close> is its pointer, and its class is \<open>rq_kind\<close>.  A pointer that is
  written while the request is in the queue is written there too (\<open>store_request\<close>).  During a round
  the queue is blocked and what arrives goes to a second queue.

  The virtual methods of the manager that a round calls are the fields of \<open>cloud_ops\<close>; they get the
  request and the rest of the system \<open>'s\<close>, and return the request as they leave it and the requests
  that arrive while they run.
\<close>

definition REQUEST_NOP :: int where "REQUEST_NOP = 0"
definition REQUEST_PENDING :: int where "REQUEST_PENDING = 1"
definition REQUEST_STORAGE :: int where "REQUEST_STORAGE = 2"
definition REQUEST_FREE_RESOURCES :: int where "REQUEST_FREE_RESOURCES = 5"
definition REQUEST_ABANDON_SYSTEM :: int where "REQUEST_ABANDON_SYSTEM = 6"
definition REQUEST_START_VM :: int where "REQUEST_START_VM = 7"

subsection \<open>Requests\<close>

text \<open>
  Of the files, paths and connections of a storage request only their numbers are read here.  A
  virtual machine is given by its module id; a selection is the name of a type and a quantity.
\<close>

datatype request_kind =
    BaseRequest
  | VmRequest (vmSet: "int list") (vm_connections: nat) (vmsToBeSelected: "(string \<times> int) list")
  | StorageRequest (st_connections: nat) (fsPaths: nat) (preloadFiles: nat) (st_nodeSetId: string) (st_nodeId: int)

record request =
  rq_id :: int
  rq_operation :: int
  timesEnqueue :: int
  rq_state :: int
  rq_uid :: int
  rq_pid :: int
  rq_spid :: int
  rq_ip :: string
  rq_kind :: request_kind

definition incrementTimesEnqueue :: "request \<Rightarrow> request" where
  "incrementTimesEnqueue r = r\<lparr>timesEnqueue := timesEnqueue r + 1\<rparr>"

text \<open>The part that the three methods \<^verbatim>\<open>compareReq\<close> have in common.\<close>

definition same_base :: "request \<Rightarrow> request \<Rightarrow> bool" where
  "same_base a b \<longleftrightarrow> rq_operation a = rq_operation b \<and> timesEnqueue a = timesEnqueue b \<and>
     rq_state a = rq_state b \<and> rq_uid a = rq_uid b \<and> rq_pid a = rq_pid b \<and> rq_spid a = rq_spid b \<and>
     rq_ip a = rq_ip b"

definition compareReq :: "request \<Rightarrow> request \<Rightarrow> bool" where
  "compareReq this req = (case rq_kind this of
     BaseRequest \<Rightarrow> same_base this req
   | VmRequest vms con sel \<Rightarrow> (case rq_kind req of
       VmRequest vms' con' sel' \<Rightarrow> same_base this req \<and> con' = con \<and> length vms = length vms' \<and>
         length sel = length sel'
     | _ \<Rightarrow> False)
   | StorageRequest con paths pre nset node \<Rightarrow> (case rq_kind req of
       StorageRequest con' paths' pre' nset' node' \<Rightarrow> same_base this req \<and> con' = con \<and> paths = paths' \<and>
         nset = nset' \<and> node = node' \<and> pre = pre'
     | _ \<Rightarrow> False))"

text \<open>\<^verbatim>\<open>getVM\<close> accepts the position one past the end, and dereferences it.\<close>

definition getVM :: "int \<Rightarrow> int list \<Rightarrow> int option res" where
  "getVM position vms =
     (if position \<le> int (length vms) \<and> - 1 < position
      then if position < int (length vms) then Ok (Some (vms ! nat position)) else Fail Undefined
      else Ok None)"

definition rv_eraseVM :: "int \<Rightarrow> int list \<Rightarrow> int list" where
  "rv_eraseVM position vms =
     (if position < int (length vms) \<and> - 1 < position then remove_at (nat position) vms else vms)"

subsection \<open>The queues of requests\<close>

record requests_mgr =
  schedulerQueueBlocked :: bool
  rm_queue :: "request list"
  temporalRequestsQueue :: "request list"
  executingRequests :: "request list"

definition rm_initialize :: requests_mgr where
  "rm_initialize = \<lparr>schedulerQueueBlocked = False, rm_queue = [], temporalRequestsQueue = [], executingRequests = []\<rparr>"

definition blockArrivalRequests :: "bool \<Rightarrow> requests_mgr \<Rightarrow> requests_mgr" where
  "blockArrivalRequests blocked rm =
     (let rm = (if \<not> blocked then rm\<lparr>rm_queue := rm_queue rm @ temporalRequestsQueue rm, temporalRequestsQueue := []\<rparr> else rm)
      in rm\<lparr>schedulerQueueBlocked := blocked\<rparr>)"

definition schedulerBlock :: "requests_mgr \<Rightarrow> bool \<times> requests_mgr" where
  "schedulerBlock rm = (if schedulerQueueBlocked rm then (False, rm)
     else (True, (blockArrivalRequests True rm)\<lparr>schedulerQueueBlocked := True\<rparr>))"

definition schedulerUnblock :: "requests_mgr \<Rightarrow> bool \<times> requests_mgr" where
  "schedulerUnblock rm =
     (let rm = (if schedulerQueueBlocked rm then rm\<lparr>schedulerQueueBlocked := False\<rparr> else rm)
      in (True, blockArrivalRequests False rm))"

definition userSendRequest :: "request \<Rightarrow> requests_mgr \<Rightarrow> requests_mgr" where
  "userSendRequest r rm = (if \<not> schedulerQueueBlocked rm then rm\<lparr>rm_queue := rm_queue rm @ [r]\<rparr>
     else rm\<lparr>temporalRequestsQueue := temporalRequestsQueue rm @ [r]\<rparr>)"

definition user_request :: "request \<Rightarrow> requests_mgr \<Rightarrow> requests_mgr" where
  "user_request r rm = (if \<not> schedulerQueueBlocked rm then rm\<lparr>rm_queue := rm_queue rm @ [r]\<rparr>
     else rm\<lparr>temporalRequestsQueue := temporalRequestsQueue rm @ [r]\<rparr>)"

definition reinsertRequest :: "request \<Rightarrow> nat \<Rightarrow> requests_mgr \<Rightarrow> requests_mgr" where
  "reinsertRequest req index rm =
     (if index < length (rm_queue rm) then rm\<lparr>rm_queue := insert_at index req (rm_queue rm)\<rparr>
      else rm\<lparr>rm_queue := rm_queue rm @ [incrementTimesEnqueue req]\<rparr>)"

text \<open>\<^verbatim>\<open>found\<close> is never set, so what was collected is thrown away.\<close>

definition getRequestByUserID :: "int \<Rightarrow> requests_mgr \<Rightarrow> request list" where
  "getRequestByUserID userModID rm =
     (let found = False; reqs = filter (\<lambda>r. rq_uid r = userModID) (rm_queue rm)
      in if \<not> found then [] else reqs)"

definition getRequestByIndex :: "nat \<Rightarrow> requests_mgr \<Rightarrow> request option" where
  "getRequestByIndex index rm = (if index < length (rm_queue rm) then Some (rm_queue rm ! index) else None)"

definition numPendingRequests :: "requests_mgr \<Rightarrow> nat" where
  "numPendingRequests rm = length (rm_queue rm)"

definition eraseRequest_at :: "nat \<Rightarrow> requests_mgr \<Rightarrow> requests_mgr res" where
  "eraseRequest_at index rm = (if index < length (rm_queue rm)
     then Ok (rm\<lparr>rm_queue := remove_at index (rm_queue rm)\<rparr>) else Fail (Thrown ''eraseRequest''))"

definition insertExecutingRequest :: "request \<Rightarrow> requests_mgr \<Rightarrow> requests_mgr" where
  "insertExecutingRequest r rm = rm\<lparr>executingRequests := executingRequests rm @ [r]\<rparr>"

definition eraseRequest :: "request \<Rightarrow> requests_mgr \<Rightarrow> requests_mgr" where
  "eraseRequest req rm = (case index_of (compareReq req) (rm_queue rm) of
     None \<Rightarrow> rm
   | Some index \<Rightarrow>
       let rm = (if rq_operation req = REQUEST_STORAGE then insertExecutingRequest req rm else rm)
       in rm\<lparr>rm_queue := remove_at index (rm_queue rm)\<rparr>)"

definition getExecutingRequestsSize :: "requests_mgr \<Rightarrow> nat" where
  "getExecutingRequestsSize rm = length (executingRequests rm)"

definition getExecutingRequest :: "nat \<Rightarrow> requests_mgr \<Rightarrow> request res" where
  "getExecutingRequest i rm =
     (if i < length (executingRequests rm) then Ok (executingRequests rm ! i) else Fail Undefined)"

definition eraseExecutingRequest :: "nat \<Rightarrow> requests_mgr \<Rightarrow> requests_mgr res" where
  "eraseExecutingRequest i rm = (if i < length (executingRequests rm)
     then Ok (rm\<lparr>executingRequests := remove_at i (executingRequests rm)\<rparr>) else Fail Undefined)"

definition store_request :: "request \<Rightarrow> requests_mgr \<Rightarrow> requests_mgr" where
  "store_request r rm = rm\<lparr>rm_queue := map (\<lambda>q. if rq_id q = rq_id r then r else q) (rm_queue rm)\<rparr>"

subsection \<open>A scheduling round\<close>

record 's cloud_ops =
  start_vm :: "request \<Rightarrow> 's \<Rightarrow> (bool \<times> request \<times> request list \<times> 's) res"
  shutdown_vm :: "request \<Rightarrow> 's \<Rightarrow> (request \<times> request list \<times> 's) res"
  storage_request :: "request \<Rightarrow> 's \<Rightarrow> (request \<times> request list \<times> 's) res"
  abandon_system :: "request \<Rightarrow> 's \<Rightarrow> (request list \<times> 's) res"

definition arrive :: "request list \<Rightarrow> requests_mgr \<Rightarrow> requests_mgr" where
  "arrive rs rm = fold userSendRequest rs rm"

text \<open>One turn of the loop; the flag is \<^verbatim>\<open>requestErased\<close>, which a storage request does not set.\<close>

definition attend :: "'s cloud_ops \<Rightarrow> request \<Rightarrow> requests_mgr \<Rightarrow> 's \<Rightarrow> (bool \<times> requests_mgr \<times> 's) res" where
  "attend ops req rm s = (case rq_kind req of
     StorageRequest _ _ _ _ _ \<Rightarrow>
       bind_res (storage_request ops req s) (\<lambda>(req, new, s).
         Ok (False, eraseRequest req (arrive new (store_request req rm)), s))
   | VmRequest _ _ _ \<Rightarrow>
       if rq_operation req = REQUEST_START_VM then
         bind_res (start_vm ops req s) (\<lambda>(notEnoughResources, req, new, s).
           let rm = arrive new (store_request req rm)
           in if \<not> notEnoughResources then Ok (True, eraseRequest req rm, s) else Ok (False, rm, s))
       else if rq_operation req = REQUEST_FREE_RESOURCES then
         bind_res (shutdown_vm ops req s) (\<lambda>(req, new, s).
           Ok (True, eraseRequest req (arrive new (store_request req rm)), s))
       else Ok (False, rm, s)
   | BaseRequest \<Rightarrow>
       if rq_operation req = REQUEST_ABANDON_SYSTEM then
         bind_res (abandon_system ops req s) (\<lambda>(new, s). Ok (True, eraseRequest req (arrive new rm), s))
       else Fail (Thrown ''schedule''))"

text \<open>
  Every turn erases a request or advances \<open>j\<close>, so the length of the queue bounds the number of turns.
\<close>

fun schedule_loop ::
  "'s cloud_ops \<Rightarrow> nat \<Rightarrow> nat \<Rightarrow> requests_mgr \<Rightarrow> 's \<Rightarrow> (requests_mgr \<times> 's) res" where
  "schedule_loop ops 0 j rm s = Ok (rm, s)"
| "schedule_loop ops (Suc n) j rm s =
     (if j < numPendingRequests rm then
        (case getRequestByIndex j rm of
           None \<Rightarrow> Ok (rm, s)
         | Some req \<Rightarrow> bind_res (attend ops req rm s) (\<lambda>(requestErased, rm, s).
             schedule_loop ops n (if requestErased then j else Suc j) rm s))
      else Ok (rm, s))"

definition schedule :: "'s cloud_ops \<Rightarrow> requests_mgr \<Rightarrow> 's \<Rightarrow> (requests_mgr \<times> 's) res" where
  "schedule ops rm s = (case schedulerBlock rm of
     (False, rm) \<Rightarrow> Ok (rm, s)
   | (True, rm) \<Rightarrow> bind_res (schedule_loop ops (numPendingRequests rm) 0 rm s) (\<lambda>(rm, s).
       Ok (snd (schedulerUnblock rm), s)))"

subsection \<open>Selecting a node\<close>

text \<open>
  \<open>selectNode\<close> of the FCFS scheduler: the first set whose machines are large enough is the only one
  that is searched, for a machine with less than the maximal number of virtual machines.  The number
  of virtual machines on a node is the argument \<open>linkedVMs\<close>.
\<close>

fun first_set :: "int \<Rightarrow> int \<Rightarrow> data_centre \<Rightarrow> nat \<Rightarrow> nat \<Rightarrow> nat option res" where
  "first_set vmMemory vmCPU dc 0 i = Ok None"
| "first_set vmMemory vmCPU dc (Suc n) i =
     bind_res (dc_getSetMemorySize_at (int i) False dc) (\<lambda>mem.
     bind_res (if vmMemory \<le> mem then bind_res (dc_getSetNumCores_at (int i) False dc) (\<lambda>cores. Ok (vmCPU \<le> cores))
               else Ok False) (\<lambda>fits.
       if fits then Ok (Some i) else first_set vmMemory vmCPU dc n (Suc i)))"

fun first_node :: "(machine \<Rightarrow> int) \<Rightarrow> int \<Rightarrow> nat \<Rightarrow> data_centre \<Rightarrow> nat \<Rightarrow> nat \<Rightarrow> machine option res" where
  "first_node linkedVMs maxVMs k dc 0 j = Ok None"
| "first_node linkedVMs maxVMs k dc (Suc n) j =
     bind_res (dc_getNodeByIndex_at (int k) (int j) False dc) (\<lambda>m.
       if linkedVMs m < maxVMs then Ok (Some m) else first_node linkedVMs maxVMs k dc n (Suc j))"

definition selectNode :: "(machine \<Rightarrow> int) \<Rightarrow> int \<Rightarrow> int \<Rightarrow> int \<Rightarrow> data_centre \<Rightarrow> machine option res" where
  "selectNode linkedVMs maxVMs vmMemory vmCPU dc =
     bind_res (first_set vmMemory vmCPU dc (dc_getMapSize dc) 0) (\<lambda>found. case found of
       None \<Rightarrow> Ok None
     | Some k \<Rightarrow> bind_res (dc_getSetSize_at (int k) False dc) (\<lambda>n. first_node linkedVMs maxVMs k dc n 0))"

subsection \<open>A round as a recursion over the queue\<close>

text \<open>
  The reference: the requests are attended one after the other.  A request stays in the queue, is
  done, or is done and the request behind it is passed over.  The result is what stays, what
  arrived and what is done.
\<close>

datatype outcome = Stays request | Done request | DonePassing request

definition serve_request :: "'s cloud_ops \<Rightarrow> request \<Rightarrow> 's \<Rightarrow> (outcome \<times> request list \<times> 's) res" where
  "serve_request ops r s = (case rq_kind r of
     StorageRequest _ _ _ _ _ \<Rightarrow> bind_res (storage_request ops r s) (\<lambda>(r, new, s). Ok (DonePassing r, new, s))
   | VmRequest _ _ _ \<Rightarrow>
       if rq_operation r = REQUEST_START_VM then
         bind_res (start_vm ops r s) (\<lambda>(wait, r, new, s). Ok (if wait then Stays r else Done r, new, s))
       else if rq_operation r = REQUEST_FREE_RESOURCES then
         bind_res (shutdown_vm ops r s) (\<lambda>(r, new, s). Ok (Done r, new, s))
       else Ok (Stays r, [], s)
   | BaseRequest \<Rightarrow>
       if rq_operation r = REQUEST_ABANDON_SYSTEM then
         bind_res (abandon_system ops r s) (\<lambda>(new, s). Ok (Done r, new, s))
       else Fail (Thrown ''schedule''))"

fun sweep ::
  "'s cloud_ops \<Rightarrow> request list \<Rightarrow> 's \<Rightarrow> (request list \<times> request list \<times> request list \<times> 's) res" where
  "sweep ops [] s = Ok ([], [], [], s)"
| "sweep ops (r # rs) s = bind_res (serve_request ops r s) (\<lambda>(out, new, s). case out of
       Stays r \<Rightarrow> bind_res (sweep ops rs s) (\<lambda>(kept, later, fin, s). Ok (r # kept, new @ later, fin, s))
     | Done r \<Rightarrow> bind_res (sweep ops rs s) (\<lambda>(kept, later, fin, s). Ok (kept, new @ later, r # fin, s))
     | DonePassing r \<Rightarrow> (case rs of
           [] \<Rightarrow> Ok ([], new, [r], s)
         | q # rs \<Rightarrow> bind_res (sweep ops rs s) (\<lambda>(kept, later, fin, s). Ok (q # kept, new @ later, r # fin, s))))"

text \<open>What the methods of the manager leave of a request.\<close>

definition rq_key :: "request \<Rightarrow> int \<times> int \<times> int \<times> int" where
  "rq_key r = (rq_operation r, rq_uid r, rq_pid r, rq_spid r)"

definition same_request :: "request \<Rightarrow> request \<Rightarrow> bool" where
  "same_request r r' \<longleftrightarrow> rq_id r' = rq_id r \<and> rq_key r' = rq_key r"

definition keeps_requests :: "'s cloud_ops \<Rightarrow> bool" where
  "keeps_requests ops \<longleftrightarrow>
     (\<forall>r s b r' new s'. start_vm ops r s = Ok (b, r', new, s') \<longrightarrow> same_request r r') \<and>
     (\<forall>r s r' new s'. shutdown_vm ops r s = Ok (r', new, s') \<longrightarrow> same_request r r') \<and>
     (\<forall>r s r' new s'. storage_request ops r s = Ok (r', new, s') \<longrightarrow> same_request r r')"

definition finish_requests :: "request list \<Rightarrow> requests_mgr \<Rightarrow> requests_mgr" where
  "finish_requests rs rm = rm\<lparr>executingRequests := executingRequests rm @
     filter (\<lambda>r. rq_operation r = REQUEST_STORAGE) rs\<rparr>"

lemma compareReq_key: "compareReq a b \<Longrightarrow> rq_key a = rq_key b"
  by (auto simp: compareReq_def same_base_def rq_key_def split: request_kind.splits)

lemma compareReq_refl [simp]: "compareReq r r"
  by (simp add: compareReq_def same_base_def split: request_kind.split)

lemma compareReq_key_index:
  assumes "rq_key r \<notin> rq_key ` set pre"
  shows "index_of (compareReq r) (pre @ r # rest) = Some (length pre)"
proof -
  have "index_of (compareReq r) pre = None" using assms compareReq_key by (force simp: index_of_None)
  then show ?thesis by (simp add: index_of_append)
qed

lemma erase_mid:
  assumes "rm_queue rm = pre @ r # rest" "rq_key r \<notin> rq_key ` set pre"
  shows "eraseRequest r rm = (finish_requests [r] rm)\<lparr>rm_queue := pre @ rest\<rparr>"
  using assms compareReq_key_index[OF assms(2)]
  by (simp add: eraseRequest_def insertExecutingRequest_def finish_requests_def remove_at_def)

lemma store_mid:
  assumes "rm_queue rm = pre @ r # rest" "rq_id r' = rq_id r" "distinct (map rq_id (pre @ r # rest))"
  shows "store_request r' rm = rm\<lparr>rm_queue := pre @ r' # rest\<rparr>"
proof -
  have "rq_id r \<notin> rq_id ` set pre" "rq_id r \<notin> rq_id ` set rest" using assms(3) by simp_all
  then have "\<forall>q\<in>set pre. rq_id q \<noteq> rq_id r" "\<forall>q\<in>set rest. rq_id q \<noteq> rq_id r" by (metis imageI)+
  then have "map (\<lambda>q. if rq_id q = rq_id r' then r' else q) (rm_queue rm) = pre @ r' # rest"
    using assms(1,2) by (auto intro!: map_idI)
  then show ?thesis by (simp add: store_request_def)
qed

lemma arrive_blocked:
  "schedulerQueueBlocked rm \<Longrightarrow> arrive new rm = rm\<lparr>temporalRequestsQueue := temporalRequestsQueue rm @ new\<rparr>"
  unfolding arrive_def by (induction new arbitrary: rm) (simp_all add: userSendRequest_def)

definition swept :: "request list \<Rightarrow> request list \<Rightarrow> request list \<Rightarrow> requests_mgr \<Rightarrow> requests_mgr" where
  "swept kept new finished rm = (finish_requests finished rm)\<lparr>rm_queue := kept,
     temporalRequestsQueue := temporalRequestsQueue rm @ new\<rparr>"

lemma swept_simps [simp]:
  "rm_queue (swept k a f rm) = k" "schedulerQueueBlocked (swept k a f rm) = schedulerQueueBlocked rm"
  "swept k a f (swept k' a' f' rm) = swept k (a' @ a) (f' @ f) rm"
  by (simp_all add: swept_def finish_requests_def)

text \<open>The request at \<open>j\<close> is replaced by what the manager left of it, and is erased where it is.\<close>

lemma turn_swept:
  assumes "schedulerQueueBlocked rm" "rm_queue rm = pre @ r # rest" "same_request r r'"
    and "distinct (map rq_id (pre @ r # rest))" "distinct (map rq_key (pre @ r # rest))"
  shows "arrive new (store_request r' rm) = swept (pre @ r' # rest) new [] rm"
    and "eraseRequest r' (arrive new (store_request r' rm)) = swept (pre @ rest) new [r'] rm"
proof -
  have i: "rq_id r' = rq_id r" "rq_key r' = rq_key r" using assms(3) by (simp_all add: same_request_def)
  note st = store_mid[OF assms(2) i(1) assms(4)]
  show a: "arrive new (store_request r' rm) = swept (pre @ r' # rest) new [] rm"
    using assms(1) by (simp add: st arrive_blocked swept_def finish_requests_def)
  have "rq_key r' \<notin> rq_key ` set pre" using assms(5) i(2) by simp
  from erase_mid[OF _ this, of "swept (pre @ r' # rest) new [] rm" rest]
  show "eraseRequest r' (arrive new (store_request r' rm)) = swept (pre @ rest) new [r'] rm"
    unfolding a by (simp add: swept_def finish_requests_def)
qed

lemma turn_base:
  assumes "schedulerQueueBlocked rm" "rm_queue rm = pre @ r # rest" "distinct (map rq_key (pre @ r # rest))"
  shows "eraseRequest r (arrive new rm) = swept (pre @ rest) new [r] rm"
proof -
  have "rq_key r \<notin> rq_key ` set pre" using assms(3) by simp
  from erase_mid[OF _ this, of "arrive new rm" rest] show ?thesis
    using assms(1,2) by (simp add: arrive_blocked swept_def finish_requests_def)
qed

lemma at_length [simp]: "rm_queue rm = pre @ r # rest \<Longrightarrow> getRequestByIndex (length pre) rm = Some r"
  "rm_queue rm = pre @ r # rest \<Longrightarrow> numPendingRequests rm = length pre + Suc (length rest)"
  by (simp_all add: getRequestByIndex_def numPendingRequests_def)

lemma schedule_loop_end: "numPendingRequests rm \<le> j \<Longrightarrow> schedule_loop ops n j rm s = Ok (rm, s)"
  by (cases n) simp_all

lemma schedule_loop_turn:
  assumes "rm_queue rm = pre @ r # rest"
  shows "schedule_loop ops (Suc n) (length pre) rm s = bind_res (attend ops r rm s)
    (\<lambda>(e, rm, s). schedule_loop ops n (if e then length pre else Suc (length pre)) rm s)"
  using assms by simp

lemma swept_nothing: "rm_queue rm = q \<Longrightarrow> swept q [] [] rm = rm"
  by (cases rm) (simp add: swept_def finish_requests_def)

fun turn_of :: "outcome \<Rightarrow> request list \<Rightarrow> request list \<Rightarrow> request list \<Rightarrow> requests_mgr \<Rightarrow> bool \<times> requests_mgr" where
  "turn_of (Stays r) pre rest new rm = (False, swept (pre @ r # rest) new [] rm)"
| "turn_of (Done r) pre rest new rm = (True, swept (pre @ rest) new [r] rm)"
| "turn_of (DonePassing r) pre rest new rm = (False, swept (pre @ rest) new [r] rm)"

lemma attend_serve:
  assumes "keeps_requests ops" "schedulerQueueBlocked rm" "rm_queue rm = pre @ r # rest"
    and "distinct (map rq_id (pre @ r # rest))" "distinct (map rq_key (pre @ r # rest))"
  shows "attend ops r rm s = bind_res (serve_request ops r s) (\<lambda>(out, new, s).
    let (e, rm) = turn_of out pre rest new rm in Ok (e, rm, s))"
proof -
  note ts = turn_swept[OF assms(2,3) _ assms(4,5)]
  have start: "same_request r r'" if "start_vm ops r s = Ok (b, r', new, t)" for b r' new t
    using assms(1) that unfolding keeps_requests_def by blast
  have down: "same_request r r'" if "shutdown_vm ops r s = Ok (r', new, t)" for r' new t
    using assms(1) that unfolding keeps_requests_def by blast
  have store: "same_request r r'" if "storage_request ops r s = Ok (r', new, t)" for r' new t
    using assms(1) that unfolding keeps_requests_def by blast
  show ?thesis
  proof (cases "rq_kind r")
    case BaseRequest
    then show ?thesis using turn_base[OF assms(2,3,5)]
      by (cases "abandon_system ops r s") (auto simp: attend_def serve_request_def)
  next
    case (VmRequest vms con sel)
    consider (a) "rq_operation r = REQUEST_START_VM"
      | (b) "rq_operation r \<noteq> REQUEST_START_VM" "rq_operation r = REQUEST_FREE_RESOURCES"
      | (c) "rq_operation r \<noteq> REQUEST_START_VM" "rq_operation r \<noteq> REQUEST_FREE_RESOURCES" by blast
    then show ?thesis
    proof cases
      case a
      have "start_vm ops r s = Ok (w, r', new, t) \<Longrightarrow> ?thesis" for w r' new t
        using ts[OF start, of w r' new t new] a VmRequest
        by (cases w) (simp_all add: attend_def serve_request_def)
      then show ?thesis using a VmRequest
        by (cases "start_vm ops r s") (auto simp: attend_def serve_request_def)
    next
      case b
      then show ?thesis using VmRequest ts(2)[OF down]
        by (cases "shutdown_vm ops r s") (auto simp: attend_def serve_request_def)
    next
      case c
      then show ?thesis using VmRequest swept_nothing[OF assms(3)] by (simp add: attend_def serve_request_def)
    qed
  next
    case (StorageRequest a b c d e)
    then show ?thesis using ts(2)[OF store]
      by (cases "storage_request ops r s") (auto simp: attend_def serve_request_def)
  qed
qed

lemma serve_request_same:
  assumes "keeps_requests ops" "serve_request ops r s = Ok (Stays r', new, t)"
  shows "same_request r r'"
proof -
  have start: "same_request r q" if "start_vm ops r s = Ok (b, q, x, u)" for b q x u
    using assms(1) that unfolding keeps_requests_def by blast
  consider (a) b x u where "start_vm ops r s = Ok (b, r', x, u)" | (b) "r' = r"
    using assms(2) by (auto simp: serve_request_def elim!: bind_res_OkE
      split: request_kind.split_asm if_split_asm)
  then show ?thesis
    by cases (blast dest: start, simp add: same_request_def)
qed

text \<open>The loop over positions is the recursion over the requests from the position on.\<close>

lemma schedule_loop_sweep:
  assumes "keeps_requests ops" "schedulerQueueBlocked rm" "rm_queue rm = pre @ todo" "length todo \<le> n"
    and "distinct (map rq_id (pre @ todo))" "distinct (map rq_key (pre @ todo))"
  shows "schedule_loop ops n (length pre) rm s = bind_res (sweep ops todo s)
    (\<lambda>(kept, new, fin, s). Ok (swept (pre @ kept) new fin rm, s))"
  using assms(2-)
proof (induction todo arbitrary: pre rm n s rule: length_induct)
  case (1 todo)
  note IH = 1(1)[rule_format] and blocked = 1(2) and q = 1(3) and n = 1(4) and d = 1(5,6)
  show ?case
  proof (cases todo)
    case Nil
    then show ?thesis using q by (simp add: schedule_loop_end numPendingRequests_def swept_nothing)
  next
    case (Cons r rest)
    obtain k where k: "n = Suc k" "length rest \<le> k" using n Cons by (cases n) auto
    note q' = q[unfolded Cons] and d' = d[unfolded Cons]
    have turn: "schedule_loop ops n (length pre) rm s = bind_res (serve_request ops r s) (\<lambda>(out, new, s).
        schedule_loop ops k (if fst (turn_of out pre rest new rm) then length pre else Suc (length pre))
          (snd (turn_of out pre rest new rm)) s)"
      unfolding k(1) schedule_loop_turn[OF q'] attend_serve[OF assms(1) blocked q' d']
      by (simp add: bind_res_assoc case_prod_beta' Let_def)
    show ?thesis
    proof (cases "serve_request ops r s")
      case (Ok x)
      obtain out new t where x: "x = (out, new, t)" by (cases x)
      show ?thesis
      proof (cases out)
        case (Stays r')
        from serve_request_same[OF assms(1), of r s r' new t] Ok x Stays have "same_request r r'" by simp
        then show ?thesis using turn Ok x Stays Cons k d' blocked
            IH[of rest "swept (pre @ r' # rest) new [] rm" "pre @ [r']" k t]
          by (simp add: same_request_def bind_res_assoc case_prod_beta')
      next
        case (Done f)
        then show ?thesis using turn Ok x Cons k d' blocked IH[of rest "swept (pre @ rest) new [f] rm" pre k t]
          by (simp add: bind_res_assoc case_prod_beta')
      next
        case (DonePassing f)
        show ?thesis
        proof (cases rest)
          case Nil
          then show ?thesis using turn Ok x Cons DonePassing by (simp add: schedule_loop_end numPendingRequests_def)
        next
          case (Cons p rest')
          then show ?thesis using turn Ok x \<open>todo = r # rest\<close> DonePassing k d' blocked
              IH[of rest' "swept (pre @ rest) new [f] rm" "pre @ [p]" k t]
            by (simp add: bind_res_assoc case_prod_beta')
        qed
      qed
    qed (simp add: turn Cons)
  qed
qed

lemma unblock_swept:
  "\<not> schedulerQueueBlocked rm \<Longrightarrow>
   snd (schedulerUnblock (swept kept new fin (snd (schedulerBlock rm)))) =
     \<lparr>schedulerQueueBlocked = False, rm_queue = kept @ temporalRequestsQueue rm @ new, temporalRequestsQueue = [],
      executingRequests = executingRequests rm @ filter (\<lambda>r. rq_operation r = REQUEST_STORAGE) fin\<rparr>"
  by (simp add: schedulerUnblock_def schedulerBlock_def blockArrivalRequests_def swept_def finish_requests_def
      Let_def)

definition queue_example :: requests_mgr where
  "queue_example = \<lparr>schedulerQueueBlocked = False,
     rm_queue =
       [\<lparr>rq_id = 1, rq_operation = REQUEST_STORAGE, timesEnqueue = 0, rq_state = 0, rq_uid = 5, rq_pid = 1, rq_spid = 0,
         rq_ip = '''', rq_kind = StorageRequest 1 0 0 ''n'' 0\<rparr>,
        \<lparr>rq_id = 2, rq_operation = REQUEST_START_VM, timesEnqueue = 0, rq_state = 0, rq_uid = 5, rq_pid = 2, rq_spid = 0,
         rq_ip = '''', rq_kind = VmRequest [] 0 [(''small'', 1)]\<rparr>,
        \<lparr>rq_id = 3, rq_operation = REQUEST_START_VM, timesEnqueue = 0, rq_state = 0, rq_uid = 6, rq_pid = 3, rq_spid = 0,
         rq_ip = '''', rq_kind = VmRequest [] 0 [(''large'', 4)]\<rparr>,
        \<lparr>rq_id = 4, rq_operation = REQUEST_FREE_RESOURCES, timesEnqueue = 0, rq_state = 0, rq_uid = 6, rq_pid = 4, rq_spid = 0,
         rq_ip = '''', rq_kind = VmRequest [7] 0 []\<rparr>],
     temporalRequestsQueue = [], executingRequests = []\<rparr>"

text \<open>
  An instance of the manager with a number of free slots, which a machine to start takes and one to
  free gives back.
\<close>

definition slots_ops :: "int cloud_ops" where
  "slots_ops = \<lparr>
     start_vm = (\<lambda>r s. case rq_kind r of VmRequest _ _ ((_, n) # _) \<Rightarrow>
         if n \<le> s then Ok (False, r, [], s - n) else Ok (True, incrementTimesEnqueue r, [], s)
       | _ \<Rightarrow> Fail Undefined),
     shutdown_vm = (\<lambda>r s. Ok (r, [], s + 1)),
     storage_request = (\<lambda>r s. Ok (r, [], s)),
     abandon_system = (\<lambda>r s. Ok ([], s))\<rparr>"

lemma slots_keep: "keeps_requests slots_ops"
  by (auto simp: keeps_requests_def slots_ops_def same_request_def rq_key_def incrementTimesEnqueue_def
      split: request_kind.split_asm list.split_asm if_split_asm)

text \<open>
  C38: A round of the FCFS scheduler is the one-pass recursion over the queue: with the queue free and its
  requests distinct, the requests are attended in order; a request that must wait stays where it was,
  a request that is done leaves the queue, the request behind a storage request is passed over in this
  round, what was put aside or arrives during the round is queued behind, in order, and exactly the done
  storage requests are executing afterwards.  The round fails exactly when the recursion does.
\<close>

lemma schedule_is_sweep:
  assumes "\<not> schedulerQueueBlocked rm" "keeps_requests ops"
    and "distinct (map rq_id (rm_queue rm))" "distinct (map rq_key (rm_queue rm))"
  shows "schedule ops rm s = bind_res (sweep ops (rm_queue rm) s) (\<lambda>(kept, new, fin, s). Ok
    (\<lparr>schedulerQueueBlocked = False, rm_queue = kept @ temporalRequestsQueue rm @ new,
      temporalRequestsQueue = [],
      executingRequests = executingRequests rm @ filter (\<lambda>r. rq_operation r = REQUEST_STORAGE) fin\<rparr>, s))"
proof -
  let ?rm = "snd (schedulerBlock rm)"
  have b: "schedulerBlock rm = (True, ?rm)" "schedulerQueueBlocked ?rm" "rm_queue ?rm = [] @ rm_queue rm"
    using assms(1) by (simp_all add: schedulerBlock_def blockArrivalRequests_def)
  have "schedule_loop ops (numPendingRequests ?rm) 0 ?rm s = bind_res (sweep ops (rm_queue rm) s)
      (\<lambda>(kept, new, fin, s). Ok (swept kept new fin ?rm, s))"
    using schedule_loop_sweep[OF assms(2) b(2,3), of "numPendingRequests ?rm" s] assms(3,4) b(3)
    by (simp add: numPendingRequests_def)
  then show ?thesis
    unfolding schedule_def
    by (subst b(1)) (simp add: bind_res_assoc case_prod_beta' unblock_swept[OF assms(1)])
qed

lemma schedule_is_sweep_witness:
  "(case schedule slots_ops queue_example 3 of Fail _ \<Rightarrow> False
    | Ok (rm, free) \<Rightarrow> map rq_id (rm_queue rm) = [2, 3] \<and> map timesEnqueue (rm_queue rm) = [0, 1] \<and>
        map rq_id (executingRequests rm) = [1] \<and> free = 4)"
proof -
  have a: "\<not> schedulerQueueBlocked queue_example" by code_simp
  have b: "distinct (map rq_id (rm_queue queue_example))" by code_simp
  have c: "distinct (map rq_key (rm_queue queue_example))" by code_simp
  show ?thesis unfolding schedule_is_sweep[OF a slots_keep b c] by code_simp
qed

end
