(* ===== verification/Tenants.thy ===== *)
theory Tenants imports CloudRequests begin

text \<open>
  The tenants of a data centre (\<^verbatim>\<open>UserManagement\<close> below
  \<^verbatim>\<open>src/src/Management/DataCenterManagement/Base\<close>) and what a cloud user keeps of its virtual machines
  (\<^verbatim>\<open>AbstractCloudUser\<close> below \<^verbatim>\<open>src/src/Users/Profiles/CloudUser\<close>).

  A tenant is the user object together with its entry in \<^verbatim>\<open>userList\<close>.  \<^verbatim>\<open>userBase::initialize\<close> sets
  \<^verbatim>\<open>userID\<close> to the module id, so \<open>tn_id\<close> stands for both.  A virtual machine is the machine of the map of
  its user; the rest of its attributes is in \<open>vm_info\<close>, found by its module id.  What the user calls is recorded
  in \<open>tn_calls\<close>: the machines, the manager, and the methods of its profile (\<^verbatim>\<open>requestAttended\<close>, \<^verbatim>\<open>schedule\<close>),
  which the subclasses define.
\<close>

record vm_info =
  v_uid :: int
  v_type :: string
  v_setName :: string
  v_nodeName :: int
  v_processes :: int
  v_machine :: machine

record compute_resources =
  cr_nodeSet :: string
  cr_node :: int
  cr_cores :: int
  cr_jobID :: int

datatype user_call =
    SetManager int
  | ChangeState int string
  | PendingOperation int int
  | CallFinish int
  | SendRequest request
  | RequestAttended int "int list"
  | ScheduleUser

record tenant =
  tn_id :: int
  tn_machines :: machine_map
  pending_shutdown_requests :: int
  wastedVMs :: "int list"
  jobResources :: "compute_resources list"
  pendingVmsAtStartup :: int
  vms_waiting_remote_st :: "int list"
  jobs_waiting :: bool
  user_finalizing :: bool
  tn_calls :: "user_call list"

record user_management =
  userList :: "tenant list"
  no_more_users :: bool
  simulationPerTime :: bool

subsection \<open>The list of tenants\<close>

definition um_initialize :: user_management where
  "um_initialize = \<lparr>userList = [], no_more_users = False, simulationPerTime = False\<rparr>"

definition getUserByModuleID :: "int \<Rightarrow> tenant list \<Rightarrow> tenant res" where
  "getUserByModuleID modID us = (case find_first (\<lambda>t. modID = tn_id t) us of
     None \<Rightarrow> Fail (Thrown ''getUserByModuleID'') | Some t \<Rightarrow> Ok t)"

definition getUserById :: "int \<Rightarrow> tenant list \<Rightarrow> tenant option" where
  "getUserById uid us = find_first (\<lambda>t. tn_id t = uid) us"

text \<open>\<^verbatim>\<open>getUserByID\<close> leaves the pointer it returns uninitialised when the user is missing.\<close>

definition getUserByID :: "int \<Rightarrow> tenant list \<Rightarrow> tenant res" where
  "getUserByID uid us = (case find_first (\<lambda>t. tn_id t = uid) us of None \<Rightarrow> Fail Undefined | Some t \<Rightarrow> Ok t)"

definition getUserByIndex :: "int \<Rightarrow> tenant list \<Rightarrow> tenant res" where
  "getUserByIndex i us = (if 0 \<le> i \<and> i < int (length us) then Ok (us ! nat i) else Fail Undefined)"

text \<open>\<^verbatim>\<open>getUserPositionByUserID\<close> counts the users in front, and returns a variable that stays -1.\<close>

definition getUserPositionByUserID :: "int \<Rightarrow> tenant list \<Rightarrow> int" where
  "getUserPositionByUserID uid us = - 1"

text \<open>\<^verbatim>\<open>newUser\<close>; the flag says if the user is admitted, and is then started.\<close>

definition newUser :: "tenant \<Rightarrow> user_management \<Rightarrow> bool \<times> user_management" where
  "newUser user um = (if \<not> no_more_users um
     then (True, um\<lparr>userList := userList um @ [user\<lparr>jobResources := []\<rparr>]\<rparr>) else (False, um))"

definition um_deleteUser :: "int \<Rightarrow> user_management \<Rightarrow> user_management" where
  "um_deleteUser uid um = um\<lparr>userList := remove_first (\<lambda>t. tn_id t = uid) (userList um)\<rparr>"

definition finalizeUserGenerator :: "bool \<Rightarrow> user_management \<Rightarrow> user_management" where
  "finalizeUserGenerator allowToExecute um = um\<lparr>no_more_users := True, simulationPerTime := allowToExecute\<rparr>"

definition checkFinalization :: "user_management \<Rightarrow> bool" where
  "checkFinalization um \<longleftrightarrow> no_more_users um \<and> length (userList um) = 0"

text \<open>
  \<^verbatim>\<open>freeUserComputeEntry\<close>: the resources that are given to \<^verbatim>\<open>freeComputeResources\<close> of the manager are
  the second result.
\<close>

definition freeUserComputeEntry ::
  "int \<Rightarrow> int \<Rightarrow> user_management \<Rightarrow> (user_management \<times> (string \<times> int \<times> int) option) res" where
  "freeUserComputeEntry uid jobID um = (case index_of (\<lambda>t. tn_id t = uid) (userList um) of
     None \<Rightarrow> Fail (Thrown ''freeUserComputeEntry'')
   | Some k \<Rightarrow> (let user = userList um ! k in
       case index_of (\<lambda>r. cr_jobID r = jobID) (jobResources user) of
         None \<Rightarrow> Ok (um, None)
       | Some i \<Rightarrow> (let r = jobResources user ! i in
           Ok (um\<lparr>userList := (userList um)[k := user\<lparr>jobResources := remove_at i (jobResources user)\<rparr>]\<rparr>,
             Some (cr_nodeSet r, cr_node r, cr_cores r)))))"

definition createUserComputeEntry ::
  "int \<Rightarrow> string \<Rightarrow> int \<Rightarrow> int \<Rightarrow> int \<Rightarrow> user_management \<Rightarrow> user_management res" where
  "createUserComputeEntry uid nodeSet node cores jobID um = (case index_of (\<lambda>t. tn_id t = uid) (userList um) of
     None \<Rightarrow> Fail (Thrown ''createUserComputeEntry'')
   | Some k \<Rightarrow> (let user = userList um ! k;
         resources = \<lparr>cr_nodeSet = nodeSet, cr_node = node, cr_cores = cores, cr_jobID = jobID\<rparr>
       in Ok (um\<lparr>userList := (userList um)[k := user\<lparr>jobResources := jobResources user @ [resources]\<rparr>]\<rparr>)))"

subsection \<open>The virtual machines of a user\<close>

fun pid_inner :: "int \<Rightarrow> machine_map \<Rightarrow> nat \<Rightarrow> nat \<Rightarrow> nat \<Rightarrow> machine option res" where
  "pid_inner pid ms i 0 j = Ok None"
| "pid_inner pid ms i (Suc n) j = bind_res (getMachineByIndex_at (int i) (int j) ms) (\<lambda>m.
     if m_id m = pid then Ok (Some m) else pid_inner pid ms i n (Suc j))"

fun pid_outer :: "int \<Rightarrow> machine_map \<Rightarrow> nat \<Rightarrow> nat \<Rightarrow> machine option res" where
  "pid_outer pid ms 0 i = Ok None"
| "pid_outer pid ms (Suc n) i = bind_res (getSetQuantity_at (int i) ms) (\<lambda>q.
     bind_res (pid_inner pid ms i q 0) (\<lambda>found. case found of
       Some m \<Rightarrow> Ok (Some m) | None \<Rightarrow> pid_outer pid ms n (Suc i)))"

definition searchVmByPid :: "int \<Rightarrow> machine_map \<Rightarrow> machine option res" where
  "searchVmByPid pid ms = pid_outer pid ms (getMapQuantity ms) 0"

definition call :: "user_call \<Rightarrow> tenant \<Rightarrow> tenant" where
  "call c t = t\<lparr>tn_calls := tn_calls t @ [c]\<rparr>"

definition REQUEST_LOCAL_STORAGE :: int where "REQUEST_LOCAL_STORAGE = 3"
definition REQUEST_REMOTE_STORAGE :: int where "REQUEST_REMOTE_STORAGE = 4"
definition NOT_PENDING_OPS :: int where "NOT_PENDING_OPS = 0"
definition PENDING_STORAGE :: int where "PENDING_STORAGE = 1"
definition PENDING_SHUTDOWN :: int where "PENDING_SHUTDOWN = 2"
definition MACHINE_STATE_IDLE :: string where "MACHINE_STATE_IDLE = ''idle''"

definition vm_idles :: "int \<Rightarrow> tenant \<Rightarrow> tenant" where
  "vm_idles vm t = call (PendingOperation vm NOT_PENDING_OPS) (call (ChangeState vm MACHINE_STATE_IDLE) t)"

text \<open>The control vectors.  A machine that is missing is reported with the flag.\<close>

definition eraseVMFromControlVector :: "int \<Rightarrow> int \<Rightarrow> tenant \<Rightarrow> (bool \<times> tenant) res" where
  "eraseVMFromControlVector vm op t =
     (if op = REQUEST_START_VM then
        (let n = pendingVmsAtStartup t - 1 in Ok (0 \<le> n, t\<lparr>pendingVmsAtStartup := n\<rparr>))
      else if op = REQUEST_REMOTE_STORAGE \<or> op = REQUEST_LOCAL_STORAGE then
        Ok (vm \<in> set (vms_waiting_remote_st t),
          t\<lparr>vms_waiting_remote_st := remove_first (\<lambda>v. v = vm) (vms_waiting_remote_st t)\<rparr>)
      else Fail (Thrown ''showErrorMessage''))"

definition erase_or_throw :: "string \<Rightarrow> int \<Rightarrow> int \<Rightarrow> tenant \<Rightarrow> tenant res" where
  "erase_or_throw f vm op t = bind_res (eraseVMFromControlVector vm op t) (\<lambda>(vm_erased, t).
     if vm_erased then Ok t else Fail (Thrown f))"

definition vmHasStorageRequests :: "int \<Rightarrow> tenant \<Rightarrow> bool" where
  "vmHasStorageRequests vm t \<longleftrightarrow> vm \<in> set (vms_waiting_remote_st t)"

definition hasPendingRequests :: "tenant \<Rightarrow> bool" where
  "hasPendingRequests t \<longleftrightarrow> \<not> (length (vms_waiting_remote_st t) = 0 \<and> pending_shutdown_requests t = 0)"

text \<open>
  \<^verbatim>\<open>notify_UserRequestAttendeed\<close>, by the operation of the request.  A request that starts machines puts them into
  the map; one that frees resources takes every machine of the request out of it, under the id of the request,
  and puts it to the wasted machines; the answer to a request for storage makes its machine idle.
\<close>

definition vms_started :: "(int \<Rightarrow> vm_info) \<Rightarrow> request \<Rightarrow> tenant \<Rightarrow> tenant res" where
  "vms_started vms req t = (case rq_kind req of
     VmRequest (v # vs) _ _ \<Rightarrow>
       let t = fold (\<lambda>vm. call (SetManager vm)) (v # vs) t
       in bind_res (increaseInstances (map (\<lambda>vm. v_machine (vms vm)) (v # vs)) (v_type (vms v)) (tn_machines t)) (\<lambda>ms.
            Ok (call (RequestAttended REQUEST_START_VM (v # vs)) (t\<lparr>tn_machines := ms\<rparr>)))
   | _ \<Rightarrow> Fail Undefined)"

definition waste_vm :: "(int \<Rightarrow> vm_info) \<Rightarrow> int \<Rightarrow> int \<Rightarrow> tenant \<Rightarrow> tenant res" where
  "waste_vm vms pid vm t = bind_res (destroyInstance (v_type (vms vm)) pid (tn_machines t)) (\<lambda>ms.
     Ok (call (CallFinish vm) (t\<lparr>tn_machines := ms, wastedVMs := wastedVMs t @ [vm]\<rparr>)))"

definition resources_freed :: "(int \<Rightarrow> vm_info) \<Rightarrow> request \<Rightarrow> tenant \<Rightarrow> tenant res" where
  "resources_freed vms req t = (case rq_kind req of
     VmRequest vs _ _ \<Rightarrow>
       bind_res (fold_res (waste_vm vms (rq_pid req)) vs (t\<lparr>pending_shutdown_requests := pending_shutdown_requests t - 1\<rparr>))
         (\<lambda>t. Ok (call (RequestAttended REQUEST_FREE_RESOURCES vs) t))
   | _ \<Rightarrow> Fail Undefined)"

definition remote_storage_ready :: "request \<Rightarrow> tenant \<Rightarrow> tenant res" where
  "remote_storage_ready req t = (case rq_kind req of
     StorageRequest _ _ _ _ _ \<Rightarrow> bind_res (getMachineById (rq_pid req) (tn_machines t)) (\<lambda>mac. let vm = m_id mac in
       bind_res (erase_or_throw ''showErrorMessage'' vm REQUEST_REMOTE_STORAGE t) (\<lambda>t.
         Ok (call (RequestAttended REQUEST_REMOTE_STORAGE [vm]) (vm_idles vm t))))
   | _ \<Rightarrow> Fail (Thrown ''notify_UserRequestAttendeed''))"

text \<open>The vector of machines to notify grows with every connection.\<close>

definition local_storage_turn :: "request \<Rightarrow> tenant \<times> int list \<Rightarrow> (tenant \<times> int list) res" where
  "local_storage_turn req = (\<lambda>(t, vmToNotify).
     bind_res (getMachineById (rq_pid req) (tn_machines t)) (\<lambda>mac. let vm = m_id mac; vmToNotify = vmToNotify @ [vm] in
     bind_res (erase_or_throw ''showErrorMessage'' vm REQUEST_LOCAL_STORAGE t) (\<lambda>t.
       Ok (call (RequestAttended REQUEST_REMOTE_STORAGE vmToNotify) (if vmHasStorageRequests vm t then t else vm_idles vm t),
         vmToNotify))))"

definition local_storage_ready :: "request \<Rightarrow> tenant \<Rightarrow> tenant res" where
  "local_storage_ready req t = (case rq_kind req of
     StorageRequest con _ _ _ _ \<Rightarrow>
       bind_res (fold_res (\<lambda>i. local_storage_turn req) [0..<con] (t, [])) (\<lambda>(t, notified). Ok t)
   | _ \<Rightarrow> Fail (Thrown ''notify_UserRequestAttendeed''))"

definition start_vm_turn :: "int \<Rightarrow> tenant \<Rightarrow> tenant res" where
  "start_vm_turn vm t = bind_res (erase_or_throw ''notify_UserRequestAttendeed'' vm REQUEST_START_VM t) (\<lambda>t. Ok (vm_idles vm t))"

text \<open>The second part, after the profile has been told: started machines become idle when jobs wait.\<close>

definition after_attended :: "request \<Rightarrow> tenant \<Rightarrow> tenant res" where
  "after_attended req t = (if rq_operation req = REQUEST_START_VM \<and> jobs_waiting t
     then (case rq_kind req of VmRequest vs _ _ \<Rightarrow> fold_res start_vm_turn vs t
           | _ \<Rightarrow> Fail (Thrown ''notify_UserRequestAttendeed''))
     else Ok t)"

definition notify_UserRequestAttendeed :: "(int \<Rightarrow> vm_info) \<Rightarrow> request \<Rightarrow> tenant \<Rightarrow> tenant res" where
  "notify_UserRequestAttendeed vms req t =
     bind_res (if rq_operation req = REQUEST_START_VM then vms_started vms req t
       else if rq_operation req = REQUEST_FREE_RESOURCES then resources_freed vms req t
       else if rq_operation req = REQUEST_REMOTE_STORAGE then remote_storage_ready req t
       else if rq_operation req = REQUEST_LOCAL_STORAGE then local_storage_ready req t
       else Ok t) (\<lambda>t.
     bind_res (after_attended req t) (\<lambda>t. Ok (if user_finalizing t then t else call ScheduleUser t)))"

text \<open>\<^verbatim>\<open>send_request_to_manager\<close>: what the user remembers of a request that it sends.\<close>

definition send_request_to_manager :: "request \<Rightarrow> tenant \<Rightarrow> tenant res" where
  "send_request_to_manager req t =
     bind_res (if rq_kind req = BaseRequest then Fail (Thrown ''send_request_to_manager'')
       else if rq_operation req = REQUEST_START_VM then
         (case rq_kind req of VmRequest _ _ sel \<Rightarrow>
            Ok (t\<lparr>pendingVmsAtStartup := fold (\<lambda>(name, quantity) n. n + quantity) sel (pendingVmsAtStartup t)\<rparr>)
          | _ \<Rightarrow> Fail Undefined)
       else if rq_operation req = REQUEST_REMOTE_STORAGE \<or> rq_operation req = REQUEST_LOCAL_STORAGE then
         bind_res (getMachineById (rq_pid req) (tn_machines t)) (\<lambda>mac. let t = call (PendingOperation (m_id mac) PENDING_STORAGE) t
           in Ok (t\<lparr>vms_waiting_remote_st := vms_waiting_remote_st t @ [m_id mac]\<rparr>))
       else if rq_operation req = REQUEST_FREE_RESOURCES then
         (case rq_kind req of VmRequest vs _ _ \<Rightarrow> Ok (fold (\<lambda>vm. call (PendingOperation vm PENDING_SHUTDOWN)) vs t)
          | _ \<Rightarrow> Fail Undefined)
       else Ok t) (\<lambda>t. Ok (call (SendRequest req) t))"

text \<open>\<^verbatim>\<open>AbstractCloudUser::shutdown_VM\<close>: the request it sends, with a fresh pointer.\<close>

definition shutdown_request :: "int \<Rightarrow> tenant \<Rightarrow> int \<Rightarrow> request" where
  "shutdown_request ptr t vm = \<lparr>rq_id = ptr, rq_operation = REQUEST_FREE_RESOURCES, timesEnqueue = 0,
     rq_state = 0, rq_uid = tn_id t, rq_pid = vm, rq_spid = - 1, rq_ip = [], rq_kind = VmRequest [vm] 0 []\<rparr>"

definition shutdown_VM :: "int \<Rightarrow> bool \<Rightarrow> int \<Rightarrow> tenant \<Rightarrow> tenant res" where
  "shutdown_VM ptr off vm t = (if off then Ok t
     else send_request_to_manager (shutdown_request ptr t vm)
       (call (PendingOperation vm PENDING_SHUTDOWN) (t\<lparr>pending_shutdown_requests := pending_shutdown_requests t + 1\<rparr>)))"

subsection \<open>Searching is a search in the concatenated sets\<close>

lemma machine_at: "getMachineByIndex_at (int i) (int j) ms =
  (if length ms \<le> i then Fail (Thrown ''getMachineByIndex'')
   else if j < length (machinesSet (ms ! i)) then Ok (machinesSet (ms ! i) ! j) else Fail Undefined)"
  by (simp add: getMachineByIndex_at_def set_at_def hs_getMachineByIndex_def)

lemma pid_inner_find:
  "i < length ms \<Longrightarrow> j + n = length (machinesSet (ms ! i)) \<Longrightarrow>
   pid_inner pid ms i n j = Ok (find_first (\<lambda>m. m_id m = pid) (drop j (machinesSet (ms ! i))))"
proof (induction n arbitrary: j)
  case (Suc n)
  then have "drop j (machinesSet (ms ! i)) = machinesSet (ms ! i) ! j # drop (Suc j) (machinesSet (ms ! i))"
    by (simp add: Cons_nth_drop_Suc)
  with Suc show ?case by (simp add: machine_at)
qed simp

lemma pid_outer_find:
  "i + n = length ms \<Longrightarrow>
   pid_outer pid ms n i = Ok (find_first (\<lambda>m. m_id m = pid) (concat (map machinesSet (drop i ms))))"
proof (induction n arbitrary: i)
  case (Suc n)
  then have "drop i ms = ms ! i # drop (Suc i) ms" by (simp add: Cons_nth_drop_Suc)
  with Suc show ?case
    by (simp add: quantity_at hs_size_def pid_inner_find find_first_append split: option.split)
qed simp

lemma searchVmByPid_find:
  "searchVmByPid pid ms = Ok (find_first (\<lambda>m. m_id m = pid) (concat (map machinesSet ms)))"
  by (simp add: searchVmByPid_def pid_outer_find getMapQuantity_def)

subsection \<open>Taking a machine out of the map\<close>

text \<open>
  Every set has a name, no two sets share one, every machine is in the set of its type, and no two
  machines share an id.
\<close>

definition all_machines :: "machine_map \<Rightarrow> machine list" where
  "all_machines ms = concat (map machinesSet ms)"

definition well_filed :: "(int \<Rightarrow> vm_info) \<Rightarrow> machine_map \<Rightarrow> bool" where
  "well_filed vms ms \<longleftrightarrow> typed ms \<and> distinct (map hs_name ms) \<and>
     (\<forall>h\<in>set ms. \<forall>m\<in>set (machinesSet h). v_type (vms (m_id m)) = hs_name h) \<and>
     distinct (map m_id (all_machines ms))"

lemma all_machines_simps [simp]:
  "all_machines [] = []" "all_machines (h # ms) = machinesSet h @ all_machines ms"
  by (simp_all add: all_machines_def)

lemma in_all_machines: "m \<in> set (all_machines ms) \<longleftrightarrow> (\<exists>h\<in>set ms. m \<in> set (machinesSet h))"
  by (simp add: all_machines_def)

lemma well_filed_Cons:
  "well_filed vms (h # ms) \<longleftrightarrow> hs_type h \<noteq> None \<and> hs_name h \<notin> set (map hs_name ms) \<and>
     (\<forall>m\<in>set (machinesSet h). v_type (vms (m_id m)) = hs_name h) \<and>
     distinct (map m_id (machinesSet h)) \<and> m_id ` set (machinesSet h) \<inter> m_id ` set (all_machines ms) = {} \<and>
     well_filed vms ms"
  by (auto simp: well_filed_def)

lemma filed_type: "well_filed vms ms \<Longrightarrow> m \<in> set (all_machines ms) \<Longrightarrow> v_type (vms (m_id m)) \<in> set (map hs_name ms)"
  by (auto simp: well_filed_def in_all_machines)

lemma deleteMachine_distinct:
  assumes "distinct (map m_id (machinesSet h))" "m \<in> set (machinesSet h)" "m_id m = pid"
  shows "deleteMachine pid h = Ok (h\<lparr>machinesSet := filter (\<lambda>x. m_id x \<noteq> pid) (machinesSet h)\<rparr>)"
proof -
  obtain i where i: "index_of (\<lambda>x. m_id x = pid) (machinesSet h) = Some i"
    using assms(2,3) by (cases "index_of (\<lambda>x. m_id x = pid) (machinesSet h)") (auto simp: index_of_None)
  then have "remove_at i (machinesSet h) = filter (\<lambda>x. m_id x \<noteq> pid) (machinesSet h)"
    using remove_first_index[of "\<lambda>x. m_id x = pid" "machinesSet h"] remove_first_distinct[OF assms(1)] by simp
  with i show ?thesis by (simp add: deleteMachine_def)
qed

lemma destroy_filed:
  assumes "well_filed vms ms" "m \<in> set (all_machines ms)" "m_id m = pid"
  shows "\<exists>ms'. destroyInstance (v_type (vms pid)) pid ms = Ok ms' \<and> map hs_name ms' = map hs_name ms \<and>
    well_filed vms ms' \<and> all_machines ms' = filter (\<lambda>x. m_id x \<noteq> pid) (all_machines ms)"
  using assms(1,2)
proof (induction ms)
  case (Cons h ms)
  note w = Cons.prems(1)[unfolded well_filed_Cons]
  have name: "hs_getSetIdentifier h = Ok (hs_name h)" using w by (simp add: identifier_typed)
  show ?case
  proof (cases "m \<in> set (machinesSet h)")
    case True
    let ?h = "h\<lparr>machinesSet := filter (\<lambda>x. m_id x \<noteq> pid) (machinesSet h)\<rparr>"
    have t: "v_type (vms pid) = hs_name h" using w True assms(3) by auto
    have n: "hs_name ?h = hs_name h" by (simp add: hs_name_def)
    have "pid \<notin> m_id ` set (all_machines ms)" using w True assms(3) by blast
    then have "filter (\<lambda>x. m_id x \<noteq> pid) (all_machines ms) = all_machines ms"
      by (intro filter_True) auto
    moreover have "well_filed vms (?h # ms)"
      unfolding well_filed_Cons n using w by (auto intro: distinct_map_filter)
    ultimately show ?thesis
      using t name n deleteMachine_distinct[OF _ True assms(3)] w by auto
  next
    case False
    then have m: "m \<in> set (all_machines ms)" using Cons.prems(2) by simp
    with Cons.IH w obtain ms' where ms': "destroyInstance (v_type (vms pid)) pid ms = Ok ms'"
      "map hs_name ms' = map hs_name ms" "well_filed vms ms'"
      "all_machines ms' = filter (\<lambda>x. m_id x \<noteq> pid) (all_machines ms)" by blast
    have t: "hs_name h \<noteq> v_type (vms pid)" using filed_type[of vms ms m] m w assms(3) by auto
    have "pid \<notin> m_id ` set (machinesSet h)" using w m assms(3) by blast
    then have "filter (\<lambda>x. m_id x \<noteq> pid) (machinesSet h) = machinesSet h" by (intro filter_True) auto
    moreover have "well_filed vms (h # ms')"
      unfolding well_filed_Cons using w ms' by auto
    ultimately show ?thesis using t name ms' by auto
  qed
qed simp

text \<open>What the search finds after another machine is gone.\<close>

lemma find_filter_other:
  "p \<noteq> q \<Longrightarrow> find_first (\<lambda>m. m_id m = p) (filter (\<lambda>m. m_id m \<noteq> q) xs) = find_first (\<lambda>m. m_id m = p) xs"
  by (induction xs) auto

end
