(* ===== verification/Allocation.thy ===== *)
theory Allocation imports Tenants begin

text \<open>
  \<^verbatim>\<open>AllocationManagement\<close> (\<^verbatim>\<open>src/src/Management/CloudManagement/Base/AllocationManagement.cc\<close>): on
  which storage nodes the virtual machines of the users have their remote storage, and the choice of
  nodes by the FCFS scheduler (\<^verbatim>\<open>selectStorageNodes\<close>, \<^verbatim>\<open>remoteShutdown\<close> and \<^verbatim>\<open>selectNodeSet\<close> of
  \<^verbatim>\<open>CloudSchedulerFCFS\<close>).  A \<^verbatim>\<open>VMID\<close> is the pair of user and machine id; its pointer to the machine
  stays NULL.  \<^verbatim>\<open>getVmAllocation\<close>, which dereferences that pointer, is never called and not modelled.
\<close>

record node_allocation =
  storageNode :: machine
  na_vms :: "(int \<times> int) list"

record vm_allocation =
  storageNodePosition :: "int list"
  va_vm :: "int \<times> int"

record user_allocation =
  ua_user :: int
  vmResourcesInfo :: "vm_allocation list"

record allocation =
  storageNodesOccupation :: "node_allocation list"
  userVmData :: "user_allocation list"

definition al_initialize :: allocation where
  "al_initialize = \<lparr>storageNodesOccupation = [], userVmData = []\<rparr>"

definition setStorageNode :: "machine \<Rightarrow> allocation \<Rightarrow> allocation" where
  "setStorageNode m al = al\<lparr>storageNodesOccupation := storageNodesOccupation al @ [\<lparr>storageNode = m, na_vms = []\<rparr>]\<rparr>"

definition setup_set :: "data_centre \<Rightarrow> nat \<Rightarrow> allocation \<Rightarrow> allocation res" where
  "setup_set dc i al = bind_res (dc_getSetSize_at (int i) True dc) (\<lambda>n.
     fold_res (\<lambda>j al. bind_res (dc_getNodeByIndex_at (int i) (int j) True dc) (\<lambda>m. Ok (setStorageNode m al))) [0..<n] al)"

definition setupStorageNodes :: "data_centre \<Rightarrow> allocation \<Rightarrow> allocation res" where
  "setupStorageNodes dc al = fold_res (setup_set dc) [0..<dc_getStorageMapSize dc] al"

definition getStorageNodesSize :: "allocation \<Rightarrow> nat" where
  "getStorageNodesSize al = length (storageNodesOccupation al)"

definition getStorageNode :: "int \<Rightarrow> allocation \<Rightarrow> machine res" where
  "getStorageNode idx al = (if 0 \<le> idx \<and> idx < int (length (storageNodesOccupation al))
     then Ok (storageNode (storageNodesOccupation al ! nat idx)) else Fail Undefined)"

definition searchUserVMAllocation :: "int \<Rightarrow> allocation \<Rightarrow> int" where
  "searchUserVMAllocation uid al =
     (case index_of (\<lambda>u. uid = ua_user u) (userVmData al) of None \<Rightarrow> - 1 | Some k \<Rightarrow> int k)"

text \<open>\<^verbatim>\<open>updateVmManagementStructures\<close>: the entry of the machine, then its mark on every node.\<close>

definition note_vm :: "int \<Rightarrow> vm_allocation \<Rightarrow> allocation \<Rightarrow> allocation" where
  "note_vm uid entry al = (let position = searchUserVMAllocation uid al in
     if position = - 1 then al\<lparr>userVmData := userVmData al @ [\<lparr>ua_user = uid, vmResourcesInfo = [entry]\<rparr>]\<rparr>
     else let u = userVmData al ! nat position in
       al\<lparr>userVmData := (userVmData al)[nat position := u\<lparr>vmResourcesInfo := vmResourcesInfo u @ [entry]\<rparr>]\<rparr>)"

definition mark_node :: "int \<times> int \<Rightarrow> int \<Rightarrow> allocation \<Rightarrow> allocation res" where
  "mark_node vm k al = (if 0 \<le> k \<and> k < int (length (storageNodesOccupation al))
     then let n = storageNodesOccupation al ! nat k in
       Ok (al\<lparr>storageNodesOccupation := (storageNodesOccupation al)[nat k := n\<lparr>na_vms := na_vms n @ [vm]\<rparr>]\<rparr>)
     else Fail Undefined)"

definition updateVmManagementStructures :: "int list \<Rightarrow> int \<Rightarrow> int \<Rightarrow> allocation \<Rightarrow> allocation res" where
  "updateVmManagementStructures selected vmPid userID al =
     (let al = (if length selected \<noteq> 0
        then note_vm userID \<lparr>storageNodePosition = selected, va_vm = (userID, vmPid)\<rparr> al else al)
      in fold_res (mark_node (userID, vmPid)) selected al)"

definition user_at :: "int \<Rightarrow> allocation \<Rightarrow> user_allocation res" where
  "user_at k al = (if 0 \<le> k \<and> k < int (length (userVmData al)) then Ok (userVmData al ! nat k) else Fail Undefined)"

text \<open>The storage nodes at some positions.\<close>

fun nodes_at :: "int list \<Rightarrow> allocation \<Rightarrow> machine list res" where
  "nodes_at [] al = Ok []"
| "nodes_at (k # ks) al = bind_res (getStorageNode k al) (\<lambda>m. bind_res (nodes_at ks al) (\<lambda>ms. Ok (m # ms)))"

text \<open>
  \<^verbatim>\<open>getStorageNodesOfVM\<close> looks at the first machine of the user only and does not advance: when that
  is another machine the loop does not end, which is the value \<open>None\<close>.
\<close>

partial_function (option) first_vm_loop :: "int \<Rightarrow> vm_allocation list \<Rightarrow> vm_allocation option option" where
  "first_vm_loop pId vs = (case vs of [] \<Rightarrow> Some None
     | v # _ \<Rightarrow> if snd (va_vm v) = pId then Some (Some v) else first_vm_loop pId vs)"

definition getStorageNodesOfVM :: "int \<Rightarrow> int \<Rightarrow> allocation \<Rightarrow> machine list res option" where
  "getStorageNodesOfVM userIdx pId al = (case user_at userIdx al of
     Fail e \<Rightarrow> Some (Fail e)
   | Ok u \<Rightarrow> (case first_vm_loop pId (vmResourcesInfo u) of
       None \<Rightarrow> None
     | Some None \<Rightarrow> Some (Ok [])
     | Some (Some v) \<Rightarrow> Some (nodes_at (storageNodePosition v) al)))"

text \<open>
  \<^verbatim>\<open>deleteVMfromStorageNodes\<close> has the same loop, which erases the first position of the first machine
  in every turn; erasing from an empty vector is undefined.  Then the entry of the user goes, with
  all machines of the user.
\<close>

fun delete_loop :: "int \<Rightarrow> int \<Rightarrow> int list \<Rightarrow> allocation \<Rightarrow> machine list res" where
  "delete_loop pId vm [] al = Fail Undefined"
| "delete_loop pId vm (k # ks) al = (if vm = pId then nodes_at (k # ks) al else delete_loop pId vm ks al)"

definition deleteVMfromStorageNodes :: "int \<Rightarrow> int \<Rightarrow> allocation \<Rightarrow> (machine list \<times> allocation) res" where
  "deleteVMfromStorageNodes userIdx pId al = bind_res (user_at userIdx al) (\<lambda>u.
     bind_res (case vmResourcesInfo u of
        [] \<Rightarrow> Ok []
      | v # _ \<Rightarrow> delete_loop pId (snd (va_vm v)) (storageNodePosition v) al) (\<lambda>nodes.
       Ok (nodes, al\<lparr>userVmData := remove_at (nat userIdx) (userVmData al)\<rparr>)))"

subsection \<open>The choices of the FCFS scheduler\<close>

text \<open>
  \<^verbatim>\<open>selectStorageNodes\<close>: \<open>wanted\<close> is \<^verbatim>\<open>numNodesFs\<close>; \<open>enough\<close> is the comparison of the free storage of
  a node, which its operating system keeps, with its capacity.
\<close>

fun pick_nodes :: "(machine \<Rightarrow> bool) \<Rightarrow> nat \<Rightarrow> nat \<Rightarrow> machine list \<Rightarrow> (int \<times> machine) list" where
  "pick_nodes enough i j [] = []"
| "pick_nodes enough i j (m # ms) = (if i = 0 then []
     else if enough m then (int j, m) # pick_nodes enough (i - 1) (Suc j) ms
     else pick_nodes enough i (Suc j) ms)"

definition fs_nodes :: "string \<Rightarrow> nat \<Rightarrow> nat res" where
  "fs_nodes fsType numberOfPFSRemoteServers = (if fsType = ''NFS'' then Ok 1
     else if fsType = ''PFS'' then Ok numberOfPFSRemoteServers else Fail Undefined)"

definition selectStorageNodes ::
  "(machine \<Rightarrow> bool) \<Rightarrow> nat \<Rightarrow> string \<Rightarrow> request \<Rightarrow> allocation \<Rightarrow> (machine list \<times> allocation) res" where
  "selectStorageNodes enough servers fsType req al = bind_res (fs_nodes fsType servers) (\<lambda>numNodesFs.
     if getStorageNodesSize al < numNodesFs then Fail (Thrown ''selectStorageNodes'')
     else let picked = pick_nodes enough numNodesFs 0 (map storageNode (storageNodesOccupation al));
              nodes = (if length picked \<noteq> numNodesFs then [] else map snd picked)
       in bind_res (if length picked \<noteq> 0
            then updateVmManagementStructures (map fst picked) (rq_pid req) (rq_uid req) al else Ok al)
          (\<lambda>al. Ok (nodes, al)))"

definition remoteShutdown :: "request \<Rightarrow> allocation \<Rightarrow> (machine list \<times> allocation) res" where
  "remoteShutdown req al = (let position = searchUserVMAllocation (rq_uid req) al in
     if position \<noteq> - 1 then deleteVMfromStorageNodes position (rq_pid req) al else Ok ([], al))"


text \<open>
  \<^verbatim>\<open>selectNodeSet\<close>: the last set whose number of cores, less those of the machine, is below the least
  so far; the name and the memory are not used.
\<close>

fun best_set :: "int \<Rightarrow> data_centre \<Rightarrow> nat \<Rightarrow> nat \<Rightarrow> int \<Rightarrow> int \<Rightarrow> int res" where
  "best_set vmcpu dc 0 i bestFit acumCPU = Ok bestFit"
| "best_set vmcpu dc (Suc n) i bestFit acumCPU =
     bind_res (dc_getSetNumCores_at (int i) False dc) (\<lambda>numCPUs.
       if numCPUs - vmcpu < acumCPU then best_set vmcpu dc n (Suc i) (int i) (numCPUs - vmcpu)
       else best_set vmcpu dc n (Suc i) bestFit acumCPU)"

definition selectNodeSet :: "string \<Rightarrow> int \<Rightarrow> int \<Rightarrow> data_centre \<Rightarrow> int res" where
  "selectNodeSet setName vmcpu vmmemory dc = best_set vmcpu dc (dc_getMapSize dc) 0 (- 1) 1024"


subsection \<open>The positions that are noted are those of the nodes\<close>

definition node_list :: "allocation \<Rightarrow> machine list" where
  "node_list al = map storageNode (storageNodesOccupation al)"

lemma getStorageNode_list: "getStorageNode k al =
  (if 0 \<le> k \<and> k < int (length (node_list al)) then Ok (node_list al ! nat k) else Fail Undefined)"
  by (auto simp: getStorageNode_def node_list_def nat_less_iff)

lemma pick_nodes_in: "(k, m) \<in> set (pick_nodes enough i j ms) \<Longrightarrow> \<exists>n<length ms. k = int (j + n) \<and> m = ms ! n"
proof (induction ms arbitrary: i j)
  case (Cons x ms)
  then consider "k = int j" "m = x" | i' where "(k, m) \<in> set (pick_nodes enough i' (Suc j) ms)"
    by (auto split: if_split_asm)
  then show ?case
  proof cases
    case (2 i')
    from Cons.IH[OF 2] show ?thesis by auto
  qed auto
qed simp

lemma nodes_at_picked:
  assumes "\<forall>(k, m)\<in>set ps. \<exists>n<length (node_list al). k = int n \<and> m = node_list al ! n"
  shows "nodes_at (map fst ps) al = Ok (map snd ps)"
  using assms by (induction ps) (auto simp: getStorageNode_list)

lemma mark_node_keeps:
  "mark_node vm k al = Ok al' \<Longrightarrow> node_list al' = node_list al \<and> userVmData al' = userVmData al"
  by (auto simp: mark_node_def node_list_def map_update list_update_same_conv Let_def split: if_split_asm)

lemma marks_keep:
  assumes "fold_res (mark_node vm) ks al = Ok al'"
  shows "node_list al' = node_list al \<and> userVmData al' = userVmData al"
  by (rule fold_res_invariant[where P = "\<lambda>x. node_list x = node_list al \<and> userVmData x = userVmData al"])
    (use assms mark_node_keeps in auto)

text \<open>What a successful choice of storage nodes notes.\<close>

lemma select_notes:
  assumes "selectStorageNodes enough servers fsType req al = Ok (nodes, al')" "nodes \<noteq> []"
  obtains ps where "nodes = map snd ps" "ps \<noteq> []"
    "\<forall>(k, m)\<in>set ps. \<exists>n<length (node_list al). k = int n \<and> m = node_list al ! n"
    "node_list al' = node_list al"
    "userVmData al' = userVmData (note_vm (rq_uid req)
       \<lparr>storageNodePosition = map fst ps, va_vm = (rq_uid req, rq_pid req)\<rparr> al)"
proof -
  obtain n where n: "fs_nodes fsType servers = Ok n" "\<not> getStorageNodesSize al < n"
    using assms(1) by (auto simp: selectStorageNodes_def elim!: bind_res_OkE split: if_split_asm)
  define ps where "ps = pick_nodes enough n 0 (node_list al)"
  have e: "nodes = map snd ps" "ps \<noteq> []" "updateVmManagementStructures (map fst ps) (rq_pid req) (rq_uid req) al = Ok al'"
    using assms n by (auto simp: selectStorageNodes_def ps_def node_list_def Let_def elim!: bind_res_OkE
        split: if_split_asm)
  have "node_list (note_vm u x al) = node_list al" for u x by (simp add: note_vm_def node_list_def Let_def)
  then have "node_list al' = node_list al" "userVmData al' = userVmData (note_vm (rq_uid req)
       \<lparr>storageNodePosition = map fst ps, va_vm = (rq_uid req, rq_pid req)\<rparr> al)"
    using e(2,3) by (auto simp: updateVmManagementStructures_def Let_def dest: marks_keep)
  moreover have "\<forall>(k, m)\<in>set ps. \<exists>n<length (node_list al). k = int n \<and> m = node_list al ! n"
    using pick_nodes_in unfolding ps_def by fastforce
  ultimately show thesis using that e(1,2) by blast
qed

lemma index_of_snoc: "index_of P xs = None \<Longrightarrow> P x \<Longrightarrow> index_of P (xs @ [x]) = Some (length xs)"
  by (simp add: index_of_append)

text \<open>The entry of a user whose first machine in it is known.\<close>

lemma shutdown_of_first:
  assumes "index_of (\<lambda>u. uid = ua_user u) (userVmData al) = Some k"
    and "vmResourcesInfo (userVmData al ! k) = v # vs" "storageNodePosition v = map fst ps" "ps \<noteq> []"
    and "\<forall>(k, m)\<in>set ps. \<exists>n<length (node_list al). k = int n \<and> m = node_list al ! n"
    and "rq_uid req = uid"
  shows "remoteShutdown req al = (if snd (va_vm v) = rq_pid req
    then Ok (map snd ps, al\<lparr>userVmData := remove_at k (userVmData al)\<rparr>) else Fail Undefined)"
proof -
  have k: "k < length (userVmData al)" using assms(1) by (simp add: index_of_Some)
  obtain p qs where ps: "map fst ps = p # qs" using assms(4) by (cases ps) auto
  have n: "nodes_at (p # qs) al = Ok (map snd ps)" using nodes_at_picked[OF assms(5)] ps by simp
  have "delete_loop pid vm xs al = Fail Undefined" if "vm \<noteq> pid" for pid vm xs
    using that by (induction xs) auto
  then show ?thesis
    using k assms(1,2,3,6) ps n
    by (simp add: remoteShutdown_def searchUserVMAllocation_def deleteVMfromStorageNodes_def user_at_def)
qed

definition two_nodes :: allocation where
  "two_nodes = (let et = \<lparr>et_name = ''storage'', memoryTotal = 1, storageTotal = 1,
       et_numCores = 1, numStorageDevices = 1, numNetIF = 1\<rparr>
     in setStorageNode \<lparr>m_id = 21, m_ip = ''10.0.0.21'', m_on = True, m_type = et\<rparr>
       (setStorageNode \<lparr>m_id = 20, m_ip = ''10.0.0.20'', m_on = True, m_type = et\<rparr> al_initialize))"

definition storage_req :: "int \<Rightarrow> request" where
  "storage_req pid = \<lparr>rq_id = pid, rq_operation = REQUEST_STORAGE, timesEnqueue = 0, rq_state = 0, rq_uid = 3,
     rq_pid = pid, rq_spid = 0, rq_ip = [], rq_kind = BaseRequest\<rparr>"

text \<open>
  Two machines of one user with remote storage: the storage of the first is found again when it is
  shut down, but the entry of the user goes with it, so that the shutdown of the second finds no remote
  storage to format; and when the second is shut down before the first, the loop that looks for it
  erases from an empty vector.
\<close>

lemma remote_storage_forgotten:
  assumes "searchUserVMAllocation (rq_uid req) al = - 1"
    and "selectStorageNodes enough servers fsType req al = Ok (nodes, al1)" "nodes \<noteq> []"
    and "selectStorageNodes enough servers' fsType' req' al1 = Ok (nodes', al2)" "nodes' \<noteq> []"
    and "rq_uid req' = rq_uid req" "rq_pid req' \<noteq> rq_pid req"
  shows "(\<exists>al3. remoteShutdown req al2 = Ok (nodes, al3) \<and> userVmData al3 = userVmData al \<and>
      remoteShutdown req' al3 = Ok ([], al3)) \<and> remoteShutdown req' al2 = Fail Undefined"
proof -
  let ?P = "\<lambda>u. rq_uid req = ua_user u"
  have new: "index_of ?P (userVmData al) = None"
    using assms(1) by (simp add: searchUserVMAllocation_def split: option.split_asm)
  from select_notes[OF assms(2,3)] obtain ps where ps: "nodes = map snd ps" "ps \<noteq> []"
    "\<forall>(k, m)\<in>set ps. \<exists>n<length (node_list al). k = int n \<and> m = node_list al ! n" "node_list al1 = node_list al"
    "userVmData al1 = userVmData (note_vm (rq_uid req)
      \<lparr>storageNodePosition = map fst ps, va_vm = (rq_uid req, rq_pid req)\<rparr> al)" .
  let ?v = "\<lparr>storageNodePosition = map fst ps, va_vm = (rq_uid req, rq_pid req)\<rparr>"
  have d1: "userVmData al1 = userVmData al @ [\<lparr>ua_user = rq_uid req, vmResourcesInfo = [?v]\<rparr>]"
    using ps(5) assms(1) by (simp add: note_vm_def)
  have i1: "index_of ?P (userVmData al1) = Some (length (userVmData al))"
    unfolding d1 by (rule index_of_snoc[OF new]) simp
  from select_notes[OF assms(4,5), unfolded assms(6)] obtain qs where qs: "nodes' = map snd qs" "qs \<noteq> []"
    "\<forall>(k, m)\<in>set qs. \<exists>n<length (node_list al1). k = int n \<and> m = node_list al1 ! n" "node_list al2 = node_list al1"
    "userVmData al2 = userVmData (note_vm (rq_uid req)
      \<lparr>storageNodePosition = map fst qs, va_vm = (rq_uid req, rq_pid req')\<rparr> al1)" .
  let ?w = "\<lparr>storageNodePosition = map fst qs, va_vm = (rq_uid req, rq_pid req')\<rparr>"
  have d2: "userVmData al2 = userVmData al @ [\<lparr>ua_user = rq_uid req, vmResourcesInfo = [?v, ?w]\<rparr>]"
    using qs(5) i1 d1 by (simp add: note_vm_def searchUserVMAllocation_def)
  have i2: "index_of ?P (userVmData al2) = Some (length (userVmData al))"
    unfolding d2 by (rule index_of_snoc[OF new]) simp
  have picked: "\<forall>(k, m)\<in>set ps. \<exists>n<length (node_list al2). k = int n \<and> m = node_list al2 ! n"
    using ps(3,4) qs(4) by simp
  have first: "remoteShutdown r al2 = (if rq_pid req = rq_pid r
      then Ok (nodes, al2\<lparr>userVmData := userVmData al\<rparr>) else Fail Undefined)" if "rq_uid r = rq_uid req" for r
    using shutdown_of_first[OF i2 _ _ ps(2) picked that, of ?v "[?w]"] d2 ps(1) by simp
  have "remoteShutdown req' al2 = Fail Undefined" using first[OF assms(6)] assms(7) by simp
  moreover have "remoteShutdown req' (al2\<lparr>userVmData := userVmData al\<rparr>) = Ok ([], al2\<lparr>userVmData := userVmData al\<rparr>)"
    using assms(6) new by (simp add: remoteShutdown_def searchUserVMAllocation_def)
  ultimately show ?thesis using first[of req] by simp
qed

end
