(* ===== verification/VmShutdown.thy ===== *)
theory VmShutdown imports Allocation begin

text \<open>
  The shutdown of a virtual machine by the cloud manager (\<^verbatim>\<open>formatFSFromNodes\<close> of \<^verbatim>\<open>StorageManagement\<close>;
  \<^verbatim>\<open>request_shutdown_vm\<close>, \<^verbatim>\<open>closeVMConnections\<close>, \<^verbatim>\<open>notifyManager\<close>, \<^verbatim>\<open>notifyFSFormatted\<close>,
  \<^verbatim>\<open>notifyVMConnectionsClosed\<close> and \<^verbatim>\<open>notify_shutdown_vm\<close> of \<^verbatim>\<open>AbstractCloudManager\<close>).

  Every node where the machine is or has storage is asked to delete its files and to close its
  connections.  The answers arrive one by one, as notifications, in any order and mixed with those of
  other machines; two vectors count the ones that are missing.  With the last one the machine is taken
  off its node and its user is told.

  The calls on nodes are the actions of the trace \<open>cl_actions\<close>.  The attributes of the virtual machines
  are the parameter \<open>vms\<close>; the number of processes of a machine may be another at every notification.  The configured decision to turn idle nodes off is \<open>turnOff\<close>.
\<close>

record pending =
  pd_uid :: int
  pd_pid :: int
  pd_quantity :: int

datatype cloud_action =
    DeleteUserFSFiles machine int int
  | CloseConnections machine int int
  | UnlinkVM machine int bool
  | FreeResources int int machine

record cloud =
  pendingRemoteStorageDeletion :: "pending list"
  connectionsDeletion :: "pending list"
  reqPendingToDelete :: "request list"
  cl_allocation :: allocation
  cl_users :: "tenant list"
  cl_actions :: "cloud_action list"

definition act :: "cloud_action \<Rightarrow> cloud \<Rightarrow> cloud" where
  "act a s = s\<lparr>cl_actions := cl_actions s @ [a]\<rparr>"

subsection \<open>The machine of a user\<close>

definition getVmFromUser :: "int \<Rightarrow> int \<Rightarrow> cloud \<Rightarrow> machine option res" where
  "getVmFromUser uId pId s = (case getUserById uId (cl_users s) of
     None \<Rightarrow> Fail (Thrown ''check_and_cast'')
   | Some t \<Rightarrow> searchVmByPid pId (tn_machines t))"

text \<open>The call of \<^verbatim>\<open>notify_UserRequestAttendeed\<close> on the user of a request.\<close>

definition attended_by_user :: "(int \<Rightarrow> vm_info) \<Rightarrow> request \<Rightarrow> cloud \<Rightarrow> cloud res" where
  "attended_by_user vms req s = (case index_of (\<lambda>t. rq_uid req = tn_id t) (cl_users s) of
     None \<Rightarrow> Fail (Thrown ''getUserByModuleID'')
   | Some k \<Rightarrow> bind_res (notify_UserRequestAttendeed vms req (cl_users s ! k)) (\<lambda>t. Ok (s\<lparr>cl_users := (cl_users s)[k := t]\<rparr>)))"

subsection \<open>Notifications\<close>

definition of_vm :: "int \<Rightarrow> int \<Rightarrow> pending \<Rightarrow> bool" where
  "of_vm uId pId p \<longleftrightarrow> pd_uid p = uId \<and> pd_pid p = pId"

definition notify_shutdown_vm :: "(int \<Rightarrow> vm_info) \<Rightarrow> int \<Rightarrow> int \<Rightarrow> machine \<Rightarrow> cloud \<Rightarrow> cloud res" where
  "notify_shutdown_vm vms uId pId node s =
     bind_res (case index_of (\<lambda>r. rq_uid r = uId \<and> rq_pid r = pId) (reqPendingToDelete s) of
         None \<Rightarrow> Ok s
       | Some i \<Rightarrow> bind_res (attended_by_user vms (reqPendingToDelete s ! i) s) (\<lambda>s.
           Ok (s\<lparr>reqPendingToDelete := remove_at i (reqPendingToDelete s)\<rparr>))) (\<lambda>s.
       Ok (act (FreeResources uId pId node) s))"

text \<open>The last step of both notifications; the node of the machine is looked up by its set and position.\<close>

definition shut_down ::
  "(int \<Rightarrow> vm_info) \<Rightarrow> data_centre \<Rightarrow> bool \<Rightarrow> int \<Rightarrow> int \<Rightarrow> machine \<Rightarrow> machine \<Rightarrow> cloud \<Rightarrow> cloud res" where
  "shut_down vms dc turnOff uId pId vm node s =
     notify_shutdown_vm vms uId pId node (act (UnlinkVM node (m_id vm) turnOff) s)"

definition node_of :: "(int \<Rightarrow> vm_info) \<Rightarrow> data_centre \<Rightarrow> machine \<Rightarrow> machine res" where
  "node_of vms dc vm = dc_getNodeByIndex_named (v_setName (vms (m_id vm))) (v_nodeName (vms (m_id vm))) False dc"

text \<open>
  When the last entry of the vector is erased, the loop of \<^verbatim>\<open>notifyFSFormatted\<close> still increments the iterator once
  before it looks at its flag and ends; the iterator is not read again.  A machine that runs processes keeps
  its node, and no entry is left from which a later notification would shut it down.
\<close>

definition notifyFSFormatted ::
  "(int \<Rightarrow> vm_info) \<Rightarrow> data_centre \<Rightarrow> bool \<Rightarrow> int \<Rightarrow> int \<Rightarrow> cloud \<Rightarrow> cloud res" where
  "notifyFSFormatted vms dc turnOff uId pId s =
     (case index_of (of_vm uId pId) (pendingRemoteStorageDeletion s) of
        None \<Rightarrow> Ok s
      | Some k \<Rightarrow>
        let unit = pendingRemoteStorageDeletion s ! k;
            pendingRSD = pd_quantity unit - 1;
            s = s\<lparr>pendingRemoteStorageDeletion := (pendingRemoteStorageDeletion s)[k := unit\<lparr>pd_quantity := pendingRSD\<rparr>]\<rparr>;
            pending_found = (if pendingRSD = 0 then index_of (of_vm uId pId) (connectionsDeletion s) else None);
            pendingConnections = (case pending_found of None \<Rightarrow> 0 | Some i \<Rightarrow> pd_quantity (connectionsDeletion s ! i))
        in if (pendingConnections = 0 \<or> pending_found = None) \<and> pendingRSD = 0 then
             let s = (case pending_found of None \<Rightarrow> s
                  | Some i \<Rightarrow> s\<lparr>connectionsDeletion := remove_at i (connectionsDeletion s)\<rparr>);
                 s = (if pendingConnections = 0
                  then s\<lparr>pendingRemoteStorageDeletion := remove_at k (pendingRemoteStorageDeletion s)\<rparr> else s)
             in bind_res (getVmFromUser uId pId s) (\<lambda>found. case found of
                  None \<Rightarrow> Fail Undefined
                | Some vm \<Rightarrow> if v_processes (vms (m_id vm)) = 0
                    then bind_res (node_of vms dc vm) (\<lambda>node. shut_down vms dc turnOff uId pId vm node s)
                    else Ok s)
           else Ok s)"

text \<open>
  \<^verbatim>\<open>notifyVMConnectionsClosed\<close> compares the machine ids only.  With the last connection of a machine
  that has no entry in the other vector it reads the uninitialised \<^verbatim>\<open>vm\<close>.
\<close>

definition notifyVMConnectionsClosed ::
  "(int \<Rightarrow> vm_info) \<Rightarrow> data_centre \<Rightarrow> bool \<Rightarrow> int \<Rightarrow> int \<Rightarrow> cloud \<Rightarrow> cloud res" where
  "notifyVMConnectionsClosed vms dc turnOff uId pId s =
     (case index_of (\<lambda>p. pd_pid p = pId) (connectionsDeletion s) of
        None \<Rightarrow> Ok s
      | Some k \<Rightarrow>
        let unit = connectionsDeletion s ! k; pendingConnections = pd_quantity unit - 1
        in if pendingConnections = 0 then
             let s = s\<lparr>connectionsDeletion := remove_at k (connectionsDeletion s)\<rparr>
             in (case index_of (of_vm uId pId) (pendingRemoteStorageDeletion s) of
                  None \<Rightarrow> Fail Undefined
                | Some i \<Rightarrow> bind_res (getVmFromUser uId pId s) (\<lambda>found.
                    if pd_quantity (pendingRemoteStorageDeletion s ! i) = 0 then
                      let s = s\<lparr>pendingRemoteStorageDeletion := remove_at i (pendingRemoteStorageDeletion s)\<rparr>
                      in (case found of None \<Rightarrow> Fail Undefined
                        | Some vm \<Rightarrow> bind_res (node_of vms dc vm) (\<lambda>node.
                            if v_processes (vms (m_id vm)) = 0 then shut_down vms dc turnOff uId pId vm node s
                            else Ok s))
                    else Ok s))
           else Ok (s\<lparr>connectionsDeletion := (connectionsDeletion s)[k := unit\<lparr>pd_quantity := pendingConnections\<rparr>]\<rparr>))"

definition SM_NOTIFY_USER_FS_DELETED :: int where "SM_NOTIFY_USER_FS_DELETED = 21"
definition SM_NOTIFY_USER_CONNECTIONS_CLOSED :: int where "SM_NOTIFY_USER_CONNECTIONS_CLOSED = 22"
definition SM_NOTIFY_PRELOAD_FINALIZATION :: int where "SM_NOTIFY_PRELOAD_FINALIZATION = 20"

text \<open>
  \<^verbatim>\<open>notifyManager\<close>; the handler of finished preloads (\<^verbatim>\<open>notifyStorageConnectionSuccesful\<close>), which is not
  part of a shutdown, is the parameter \<open>preloaded\<close>.
\<close>

definition notifyManager ::
  "(int \<Rightarrow> int \<Rightarrow> cloud \<Rightarrow> cloud res) \<Rightarrow> (int \<Rightarrow> vm_info) \<Rightarrow> data_centre \<Rightarrow> bool \<Rightarrow>
   int \<Rightarrow> int \<Rightarrow> int \<Rightarrow> cloud \<Rightarrow> cloud res" where
  "notifyManager preloaded vms dc turnOff op uid pid s =
     (if op = SM_NOTIFY_USER_FS_DELETED then notifyFSFormatted vms dc turnOff uid pid s
      else if op = SM_NOTIFY_PRELOAD_FINALIZATION then preloaded uid pid s
      else if op = SM_NOTIFY_USER_CONNECTIONS_CLOSED then notifyVMConnectionsClosed vms dc turnOff uid pid s
      else Fail (Thrown ''notifyManager''))"

subsection \<open>The request\<close>

definition formatFSFromNodes ::
  "(int \<Rightarrow> vm_info) \<Rightarrow> data_centre \<Rightarrow> bool \<Rightarrow> machine list \<Rightarrow> int \<Rightarrow> int \<Rightarrow> cloud \<Rightarrow> cloud res" where
  "formatFSFromNodes vms dc turnOff nodes uId pId s =
     (if length nodes \<noteq> 0 then
        let s = fold (\<lambda>n. act (DeleteUserFSFiles n uId pId)) nodes s
        in Ok (s\<lparr>pendingRemoteStorageDeletion := pendingRemoteStorageDeletion s @
              [\<lparr>pd_uid = uId, pd_pid = pId, pd_quantity = int (length nodes)\<rparr>]\<rparr>)
      else notifyFSFormatted vms dc turnOff uId pId
        (s\<lparr>pendingRemoteStorageDeletion := pendingRemoteStorageDeletion s @
            [\<lparr>pd_uid = uId, pd_pid = pId, pd_quantity = 1\<rparr>]\<rparr>))"

definition closeVMConnections :: "machine list \<Rightarrow> int \<Rightarrow> int \<Rightarrow> cloud \<Rightarrow> cloud" where
  "closeVMConnections nodes uId pId s =
     (let s = s\<lparr>connectionsDeletion := connectionsDeletion s @
            [\<lparr>pd_uid = uId, pd_pid = pId, pd_quantity = int (length nodes)\<rparr>]\<rparr>
      in fold (\<lambda>n. act (CloseConnections n uId pId)) nodes s)"

definition shutdown_one :: "(int \<Rightarrow> vm_info) \<Rightarrow> data_centre \<Rightarrow> bool \<Rightarrow> request \<Rightarrow> int \<Rightarrow> cloud \<Rightarrow> cloud res" where
  "shutdown_one vms dc turnOff req_copy vm s =
     (let s = s\<lparr>reqPendingToDelete := reqPendingToDelete s @ [req_copy]\<rparr>; info = vms vm in
      bind_res (remoteShutdown req_copy (cl_allocation s)) (\<lambda>(nodes, al).
      bind_res (dc_getNodeByIndex_named (v_setName info) (v_nodeName info) False dc) (\<lambda>node.
      bind_res (formatFSFromNodes vms dc turnOff (nodes @ [node]) (v_uid info) vm (s\<lparr>cl_allocation := al\<rparr>)) (\<lambda>s.
        Ok (closeVMConnections (nodes @ [node]) (v_uid info) vm s)))))"

text \<open>The copy of the request keeps the first machine; \<^verbatim>\<open>dup\<close> does not copy the connections.\<close>

fun shutdown_loop ::
  "(int \<Rightarrow> vm_info) \<Rightarrow> data_centre \<Rightarrow> bool \<Rightarrow> request \<Rightarrow> int list \<Rightarrow> (string \<times> int) list \<Rightarrow> cloud \<Rightarrow> cloud res" where
  "shutdown_loop vms dc turnOff req [] sel s = Ok s"
| "shutdown_loop vms dc turnOff req (vm # vs) sel s =
     bind_res (shutdown_one vms dc turnOff (req\<lparr>rq_kind := VmRequest [vm] 0 sel\<rparr>) vm s)
       (shutdown_loop vms dc turnOff req vs sel)"

definition request_shutdown_vm ::
  "(int \<Rightarrow> vm_info) \<Rightarrow> data_centre \<Rightarrow> bool \<Rightarrow> request \<Rightarrow> cloud \<Rightarrow> (request \<times> request list \<times> cloud) res" where
  "request_shutdown_vm vms dc turnOff req s = (case rq_kind req of
     VmRequest vs con sel \<Rightarrow> bind_res (shutdown_loop vms dc turnOff req vs sel s) (\<lambda>s.
       Ok (req\<lparr>rq_kind := VmRequest [] con sel\<rparr>, [], s))
   | _ \<Rightarrow> Fail Undefined)"

subsection \<open>The vectors of missing answers as maps\<close>

definition missing :: "pending list \<Rightarrow> int \<Rightarrow> (int \<times> int) option" where
  "missing xs = map_of (map (\<lambda>p. (pd_pid p, (pd_uid p, pd_quantity p))) xs)"

lemma missing_simps [simp]:
  "missing [] = Map.empty"
  "missing (x # xs) = (missing xs)(pd_pid x \<mapsto> (pd_uid x, pd_quantity x))"
  by (simp_all add: missing_def)

lemma missing_None: "missing xs p = None \<longleftrightarrow> p \<notin> set (map pd_pid xs)"
  by (induction xs) auto

lemma missing_append:
  "p \<notin> set (map pd_pid xs) \<Longrightarrow> missing (xs @ [x]) = (missing xs)(pd_pid x \<mapsto> (pd_uid x, pd_quantity x))"
  if "p = pd_pid x"
  using that by (induction xs) (auto simp: fun_upd_twist)

lemma missing_nth:
  "distinct (map pd_pid xs) \<Longrightarrow> k < length xs \<Longrightarrow> missing xs (pd_pid (xs ! k)) = Some (pd_uid (xs ! k), pd_quantity (xs ! k))"
  unfolding missing_def by (rule map_of_is_SomeI) (auto simp: comp_def)

lemma missing_index:
  assumes "distinct (map pd_pid xs)" "missing xs p = Some (u, q)"
  obtains k where "k < length xs" "pd_pid (xs ! k) = p" "pd_uid (xs ! k) = u" "pd_quantity (xs ! k) = q"
    "index_of (\<lambda>x. pd_pid x = p) xs = Some k" "index_of (of_vm u p) xs = Some k"
proof -
  have "p \<in> set (map pd_pid xs)" using assms(2) missing_None[of xs p] by auto
  then obtain k where k: "k < length xs" "pd_pid (xs ! k) = p" by (auto simp: in_set_conv_nth)
  with missing_nth[OF assms(1) k(1)] assms(2) have v: "pd_uid (xs ! k) = u" "pd_quantity (xs ! k) = q" by simp_all
  have other: "pd_pid (xs ! j) \<noteq> p" if "j < k" for j
    using assms(1) that k by (auto simp: distinct_conv_nth)
  then have "index_of (\<lambda>x. pd_pid x = p) xs = Some k" "index_of (of_vm u p) xs = Some k"
    using k v by (auto simp: index_of_Some of_vm_def)
  with that k v show thesis by blast
qed

lemma missing_set:
  assumes "distinct (map pd_pid xs)" "k < length xs"
  shows "missing (xs[k := (xs ! k)\<lparr>pd_quantity := n\<rparr>]) = (missing xs)(pd_pid (xs ! k) \<mapsto> (pd_uid (xs ! k), n))"
    and "map pd_pid (xs[k := (xs ! k)\<lparr>pd_quantity := n\<rparr>]) = map pd_pid xs"
proof -
  show "map pd_pid (xs[k := (xs ! k)\<lparr>pd_quantity := n\<rparr>]) = map pd_pid xs"
    using assms(2) by (simp add: map_update list_update_same_conv)
  show "missing (xs[k := (xs ! k)\<lparr>pd_quantity := n\<rparr>]) = (missing xs)(pd_pid (xs ! k) \<mapsto> (pd_uid (xs ! k), n))"
    using assms
  proof (induction xs arbitrary: k)
    case (Cons x xs)
    show ?case
    proof (cases k)
      case (Suc i)
      then have "xs ! i \<in> set xs" using Cons.prems(2) by simp
      then have "pd_pid (xs ! i) \<noteq> pd_pid x" using Cons.prems(1) by (metis distinct.simps(2) image_eqI list.simps(9) list.set_map)
      with Suc Cons show ?thesis by (auto simp: fun_upd_twist)
    qed (auto simp: fun_eq_iff)
  qed simp
qed

lemma missing_remove:
  assumes "distinct (map pd_pid xs)" "k < length xs"
  shows "missing (remove_at k xs) = (missing xs)(pd_pid (xs ! k) := None)"
    and "distinct (map pd_pid (remove_at k xs))"
proof -
  show "distinct (map pd_pid (remove_at k xs))"
    unfolding remove_at_map using remove_at_distinct[OF assms(1)] by simp
  show "missing (remove_at k xs) = (missing xs)(pd_pid (xs ! k) := None)"
    using assms
  proof (induction xs arbitrary: k)
    case (Cons x xs)
    show ?case
    proof (cases k)
      case 0
      have "missing xs (pd_pid x) = None" using Cons.prems by (simp add: missing_None)
      with 0 show ?thesis by (auto simp: fun_eq_iff)
    next
      case (Suc i)
      then have "xs ! i \<in> set xs" using Cons.prems(2) by simp
      then have "pd_pid (xs ! i) \<noteq> pd_pid x" using Cons.prems(1) by (metis distinct.simps(2) image_eqI list.simps(9) list.set_map)
      with Suc Cons show ?thesis by (auto simp: fun_upd_twist)
    qed
  qed simp
qed

subsection \<open>What a shutdown in progress keeps\<close>

text \<open>
  Every machine in shutdown has an entry for its files; it has one for its connections as long as
  connections are missing, under the same user.
\<close>

fun entry_ok :: "(int \<times> int) option \<Rightarrow> (int \<times> int) option \<Rightarrow> bool" where
  "entry_ok None y = (y = None)"
| "entry_ok (Some (u, f)) y = (case y of None \<Rightarrow> 0 < f | Some (u', c) \<Rightarrow> u' = u \<and> 0 < c \<and> 0 \<le> f)"

definition closing :: "cloud \<Rightarrow> bool" where
  "closing s \<longleftrightarrow> distinct (map pd_pid (pendingRemoteStorageDeletion s)) \<and> distinct (map pd_pid (connectionsDeletion s)) \<and>
     (\<forall>p. entry_ok (missing (pendingRemoteStorageDeletion s) p) (missing (connectionsDeletion s) p))"

definition users_ok :: "(int \<Rightarrow> vm_info) \<Rightarrow> tenant list \<Rightarrow> bool" where
  "users_ok vms us \<longleftrightarrow> distinct (map tn_id us) \<and> (\<forall>t\<in>set us. well_filed vms (tn_machines t))"

text \<open>
  The machine \<open>p\<close> is in the map of the user \<open>u\<close>; it can be shut down when its node is known.
\<close>

definition filed :: "int \<Rightarrow> int \<Rightarrow> tenant list \<Rightarrow> bool" where
  "filed u p us \<longleftrightarrow> (\<exists>t\<in>set us. tn_id t = u \<and> p \<in> m_id ` set (all_machines (tn_machines t)))"

definition vm_known :: "(int \<Rightarrow> vm_info) \<Rightarrow> data_centre \<Rightarrow> int \<Rightarrow> int \<Rightarrow> tenant list \<Rightarrow> bool" where
  "vm_known vms dc u p us \<longleftrightarrow>
     res_ok (dc_getNodeByIndex_named (v_setName (vms p)) (v_nodeName (vms p)) False dc) \<and>
     filed u p us"

text \<open>The attributes of the machines when \<open>p\<close> runs \<open>n\<close> processes.\<close>

definition loaded :: "(int \<Rightarrow> vm_info) \<Rightarrow> int \<Rightarrow> int \<Rightarrow> int \<Rightarrow> vm_info" where
  "loaded vms p n = vms(p := (vms p)\<lparr>v_processes := n\<rparr>)"

definition one_vm :: "request \<Rightarrow> bool" where
  "one_vm r \<longleftrightarrow> rq_operation r = REQUEST_FREE_RESOURCES \<and> (case rq_kind r of VmRequest vs _ _ \<Rightarrow> vs = [rq_pid r] | _ \<Rightarrow> False)"

definition ready :: "(int \<Rightarrow> vm_info) \<Rightarrow> data_centre \<Rightarrow> cloud \<Rightarrow> bool" where
  "ready vms dc s \<longleftrightarrow> users_ok vms (cl_users s) \<and> (\<forall>r\<in>set (reqPendingToDelete s). one_vm r) \<and>
     (\<forall>p u f. missing (pendingRemoteStorageDeletion s) p = Some (u, f) \<longrightarrow> vm_known vms dc u p (cl_users s) \<and>
        (\<exists>r\<in>set (reqPendingToDelete s). rq_uid r = u \<and> rq_pid r = p))"

text \<open>How often a machine has been taken off its node.\<close>

fun unlinks :: "int \<Rightarrow> cloud_action \<Rightarrow> bool" where
  "unlinks p (UnlinkVM n q b) = (q = p)"
| "unlinks p _ = False"

definition unlinked :: "int \<Rightarrow> cloud \<Rightarrow> nat" where
  "unlinked p s = length (filter (unlinks p) (cl_actions s))"

subsection \<open>Taking the machine off and telling the user\<close>

lemma user_index:
  assumes "distinct (map tn_id us)" "t \<in> set us"
  obtains k where "k < length us" "us ! k = t" "index_of (\<lambda>x. tn_id t = tn_id x) us = Some k"
    "find_first (\<lambda>x. tn_id x = tn_id t) us = Some t"
proof -
  obtain k where k: "k < length us" "us ! k = t" using assms(2) by (auto simp: in_set_conv_nth)
  have other: "tn_id (us ! j) \<noteq> tn_id t" if "j < k" for j
    using assms(1) that k by (auto simp: distinct_conv_nth)
  then have i: "index_of (\<lambda>x. tn_id x = tn_id t) us = Some k" using k by (auto simp: index_of_Some)
  have c: "(\<lambda>x. tn_id t = tn_id x) = (\<lambda>x. tn_id x = tn_id t)" by auto
  show thesis by (rule that[OF k]) (unfold c, simp_all add: i k find_first_index)
qed

lemma user_finds:
  assumes "users_ok vms us" "t \<in> set us" "p \<in> m_id ` set (all_machines (tn_machines t))"
  shows "\<exists>m. m_id m = p \<and> (\<forall>s. cl_users s = us \<longrightarrow> getVmFromUser (tn_id t) p s = Ok (Some m))"
proof -
  obtain m where m: "find_first (\<lambda>m. m_id m = p) (all_machines (tn_machines t)) = Some m"
    using assms(3) by (cases "find_first (\<lambda>m. m_id m = p) (all_machines (tn_machines t))")
      (auto simp: find_first_None)
  then have i: "m_id m = p" by (auto dest: find_first_Some)
  obtain k where f: "find_first (\<lambda>x. tn_id x = tn_id t) us = Some t"
    using user_index[OF _ assms(2)] assms(1) by (auto simp: users_ok_def)
  have "getVmFromUser (tn_id t) p s = Ok (Some m)" if "cl_users s = us" for s
    using f m that by (simp add: getVmFromUser_def getUserById_def searchVmByPid_find all_machines_def)
  with i show ?thesis by blast
qed

lemma call_simps [simp]:
  "tn_id (call c t) = tn_id t" "tn_machines (call c t) = tn_machines t"
  by (simp_all add: call_def)

lemma freed_by_user:
  assumes "well_filed vms (tn_machines t)" "p \<in> m_id ` set (all_machines (tn_machines t))"
    and "one_vm r" "rq_pid r = p"
  shows "\<exists>t'. notify_UserRequestAttendeed vms r t = Ok t' \<and> tn_id t' = tn_id t \<and> well_filed vms (tn_machines t') \<and>
    m_id ` set (all_machines (tn_machines t')) = m_id ` set (all_machines (tn_machines t)) - {p}"
proof -
  obtain m where m: "m \<in> set (all_machines (tn_machines t))" "m_id m = p" using assms(2) by blast
  from destroy_filed[OF assms(1) m] obtain ms' where
    "destroyInstance (v_type (vms p)) p (tn_machines t) = Ok ms'" "well_filed vms ms'"
    "all_machines ms' = filter (\<lambda>x. m_id x \<noteq> p) (all_machines (tn_machines t))" by blast
  moreover obtain con sel where "rq_kind r = VmRequest [p] con sel" "rq_operation r = REQUEST_FREE_RESOURCES"
    using assms(3,4) by (auto simp: one_vm_def split: request_kind.split_asm)
  ultimately show ?thesis using assms(4)
    by (auto simp: notify_UserRequestAttendeed_def after_attended_def resources_freed_def waste_vm_def
        REQUEST_FREE_RESOURCES_def REQUEST_START_VM_def)
qed

text \<open>The user of the machine forgets it; everything the other machines need stays.\<close>

lemma told_user:
  assumes u: "users_ok vms (cl_users s)" and v: "vm_known vms dc u p (cl_users s)"
    and r: "one_vm r" "rq_uid r = u" "rq_pid r = p"
  shows "\<exists>us. attended_by_user vms r s = Ok (s\<lparr>cl_users := us\<rparr>) \<and> users_ok vms us \<and>
    (\<forall>u' p'. p' \<noteq> p \<longrightarrow> filed u' p' (cl_users s) \<longrightarrow> filed u' p' us) \<and>
    \<not> filed u p us \<and> (\<forall>u' p'. filed u' p' us \<longrightarrow> filed u' p' (cl_users s))"
proof -
  let ?us = "cl_users s"
  obtain t where t: "t \<in> set ?us" "tn_id t = u" "p \<in> m_id ` set (all_machines (tn_machines t))"
    using v by (auto simp: vm_known_def filed_def)
  from user_index[OF _ t(1)] u obtain k where k: "k < length ?us" "?us ! k = t"
    "index_of (\<lambda>x. tn_id t = tn_id x) ?us = Some k" by (auto simp: users_ok_def)
  have "well_filed vms (tn_machines t)" using u t(1) by (simp add: users_ok_def)
  from freed_by_user[OF this t(3) r(1,3)] obtain t' where t': "notify_UserRequestAttendeed vms r t = Ok t'" "tn_id t' = tn_id t"
    "well_filed vms (tn_machines t')"
    "m_id ` set (all_machines (tn_machines t')) = m_id ` set (all_machines (tn_machines t)) - {p}" by blast
  let ?new = "?us[k := t']"
  have "attended_by_user vms r s = Ok (s\<lparr>cl_users := ?new\<rparr>)"
    using k t(2) t'(1) r(2) by (simp add: attended_by_user_def)
  moreover have "map tn_id ?new = map tn_id ?us" using k t'(2) by (simp add: map_update list_update_same_conv)
  then have "users_ok vms ?new" using u t'(3) unfolding users_ok_def by (auto dest: in_set_update)
  moreover have "filed u' p' ?new" if ne: "p' \<noteq> p" and idle: "filed u' p' ?us" for u' p'
  proof -
    obtain x where x: "x \<in> set ?us" "tn_id x = u'" "p' \<in> m_id ` set (all_machines (tn_machines x))"
      using idle by (auto simp: filed_def)
    have "\<exists>y\<in>set ?new. tn_id y = u' \<and> p' \<in> m_id ` set (all_machines (tn_machines y))"
    proof (cases "x = t")
      case True
      then show ?thesis using x t' ne k(1) by (intro bexI[of _ t']) (auto simp: set_update_memI)
    next
      case False
      obtain j where j: "j < length ?us" "?us ! j = x" using x(1) by (auto simp: in_set_conv_nth)
      with False k(2) have "j \<noteq> k" by auto
      with j have "?new ! j = x" "j < length ?new" by simp_all
      then show ?thesis using x by (metis nth_mem)
    qed
    then show ?thesis by (simp add: filed_def)
  qed
  moreover have "filed u' p' ?us \<and> (u' \<noteq> u \<or> p' \<noteq> p)" if f: "filed u' p' ?new" for u' p'
  proof -
    obtain x where x: "x \<in> set ?new" "tn_id x = u'" "p' \<in> m_id ` set (all_machines (tn_machines x))"
      using f by (auto simp: filed_def)
    then obtain j where "j < length ?us" "?new ! j = x" by (metis in_set_conv_nth length_list_update)
    with x have j: "j < length ?us" "tn_id (?new ! j) = u'"
      "p' \<in> m_id ` set (all_machines (tn_machines (?new ! j)))" by simp_all
    show ?thesis
    proof (cases "j = k")
      case True
      then show ?thesis using j k t t' by (auto simp: filed_def)
    next
      case False
      then have n: "?new ! j = ?us ! j" by simp
      have "tn_id (?us ! j) \<noteq> tn_id t"
        using False j(1) k u by (metis distinct_conv_nth length_map nth_map users_ok_def)
      then show ?thesis using j t(2) by (auto simp: n filed_def)
    qed
  qed
  ultimately show ?thesis by blast
qed

text \<open>
  The state \<open>s\<close> has already lost the entries of the machine.  After the last step the machine is taken
  off its node once more, no other machine is, and the others can still be shut down.
\<close>

definition others_ready :: "(int \<Rightarrow> vm_info) \<Rightarrow> data_centre \<Rightarrow> int \<Rightarrow> cloud \<Rightarrow> bool" where
  "others_ready vms dc p s \<longleftrightarrow> users_ok vms (cl_users s) \<and> (\<forall>r\<in>set (reqPendingToDelete s). one_vm r) \<and>
     (\<forall>p' u' f. p' \<noteq> p \<longrightarrow> missing (pendingRemoteStorageDeletion s) p' = Some (u', f) \<longrightarrow>
        vm_known vms dc u' p' (cl_users s) \<and> (\<exists>r\<in>set (reqPendingToDelete s). rq_uid r = u' \<and> rq_pid r = p'))"

lemma remove_at_keeps: "x \<in> set xs \<Longrightarrow> i < length xs \<Longrightarrow> x \<noteq> xs ! i \<Longrightarrow> x \<in> set (remove_at i xs)"
  by (metis insert_iff mset_remove_at set_mset_add_mset_insert set_mset_mset)

lemma shut_down_ok:
  assumes o: "others_ready vms dc p s" and v: "vm_known vms dc u p (cl_users s)"
    and r: "\<exists>r\<in>set (reqPendingToDelete s). rq_uid r = u \<and> rq_pid r = p"
    and m: "m_id m = p"
  shows "\<exists>s'. shut_down vms dc turnOff u p m node s = Ok s' \<and> others_ready vms dc p s' \<and>
    pendingRemoteStorageDeletion s' = pendingRemoteStorageDeletion s \<and>
    connectionsDeletion s' = connectionsDeletion s \<and>
    (\<forall>q. unlinked q s' = unlinked q s + (if q = p then 1 else 0)) \<and>
    \<not> filed u p (cl_users s') \<and> (\<forall>u' q. filed u' q (cl_users s') \<longrightarrow> filed u' q (cl_users s)) \<and>
    (\<forall>u' q. q \<noteq> p \<longrightarrow> filed u' q (cl_users s) \<longrightarrow> filed u' q (cl_users s'))"
proof -
  let ?s = "act (UnlinkVM node p turnOff) s" and ?P = "\<lambda>r. rq_uid r = u \<and> rq_pid r = p"
  let ?rs = "reqPendingToDelete s"
  obtain i where i: "index_of ?P ?rs = Some i"
    using r by (cases "index_of ?P ?rs") (auto simp: index_of_None)
  then have at: "i < length ?rs" "rq_uid (?rs ! i) = u" "rq_pid (?rs ! i) = p" by (simp_all add: index_of_Some)
  with o have one: "one_vm (?rs ! i)" by (simp add: others_ready_def)
  have ok: "users_ok vms (cl_users ?s)" and idle: "vm_known vms dc u p (cl_users ?s)"
    using o v by (simp_all add: others_ready_def act_def)
  from told_user[OF ok idle one at(2,3)] obtain us where us: "attended_by_user vms (?rs ! i) ?s = Ok (?s\<lparr>cl_users := us\<rparr>)"
    "users_ok vms us"
    "\<And>u' p'. p' \<noteq> p \<Longrightarrow> filed u' p' (cl_users s) \<Longrightarrow> filed u' p' us"
    "\<not> filed u p us" "\<And>u' p'. filed u' p' us \<Longrightarrow> filed u' p' (cl_users s)"
    by (auto simp: act_def)
  let ?s' = "act (FreeResources u p node) (?s\<lparr>cl_users := us, reqPendingToDelete := remove_at i ?rs\<rparr>)"
  have "shut_down vms dc turnOff u p m node s = Ok ?s'"
    using i us(1) m by (simp add: shut_down_def notify_shutdown_vm_def act_def)
  moreover have "others_ready vms dc p ?s'"
    unfolding others_ready_def
  proof (intro conjI allI impI)
    show "users_ok vms (cl_users ?s')" using us(2) by (simp add: act_def)
    show "\<forall>r\<in>set (reqPendingToDelete ?s'). one_vm r"
      using o set_remove_at[of i ?rs] by (auto simp: act_def others_ready_def)
    fix p' u' f
    assume p': "p' \<noteq> p" and "missing (pendingRemoteStorageDeletion ?s') p' = Some (u', f)"
    then have w: "vm_known vms dc u' p' (cl_users s)" "\<exists>r\<in>set ?rs. rq_uid r = u' \<and> rq_pid r = p'"
      using o by (simp_all add: others_ready_def act_def)
    show "vm_known vms dc u' p' (cl_users ?s')" using us(3)[OF p'] w(1) by (simp add: act_def vm_known_def)
    from w(2) obtain x where x: "x \<in> set ?rs" "rq_uid x = u'" "rq_pid x = p'" by blast
    with p' at have "x \<in> set (remove_at i ?rs)" by (intro remove_at_keeps) auto
    with x show "\<exists>r\<in>set (reqPendingToDelete ?s'). rq_uid r = u' \<and> rq_pid r = p'" by (auto simp: act_def)
  qed
  moreover have "unlinked q ?s' = unlinked q s + (if q = p then 1 else 0)" for q
    by (simp add: unlinked_def act_def)
  ultimately show ?thesis using us(3-5) by (auto simp: act_def)
qed

subsection \<open>One notification\<close>

text \<open>What a notification makes of the missing answers of its machine, and if it is the last one.\<close>

lemma ready_others: "ready vms dc s \<Longrightarrow> others_ready vms dc p s"
  unfolding ready_def others_ready_def by blast

lemma others_ready_gone:
  "others_ready vms dc p s \<Longrightarrow> missing (pendingRemoteStorageDeletion s) p = None \<Longrightarrow> ready vms dc s"
  unfolding ready_def others_ready_def by (metis option.distinct(1))

lemma readyD:
  assumes "ready vms dc s" "missing (pendingRemoteStorageDeletion s) p = Some (u, f)"
  shows "vm_known vms dc u p (cl_users s)" "\<exists>r\<in>set (reqPendingToDelete s). rq_uid r = u \<and> rq_pid r = p"
    "\<exists>m node. m_id m = p \<and> node_of vms dc m = Ok node \<and>
       (\<forall>s'. cl_users s' = cl_users s \<longrightarrow> getVmFromUser u p s' = Ok (Some m))"
proof -
  show v: "vm_known vms dc u p (cl_users s)" and "\<exists>r\<in>set (reqPendingToDelete s). rq_uid r = u \<and> rq_pid r = p"
    using assms unfolding ready_def by blast+
  obtain t where t: "t \<in> set (cl_users s)" "tn_id t = u" "p \<in> m_id ` set (all_machines (tn_machines t))"
    using v by (auto simp: vm_known_def filed_def)
  have "users_ok vms (cl_users s)" using assms(1) by (simp add: ready_def)
  from user_finds[OF this t(1,3)] t(2) obtain m where
    "m_id m = p" "\<forall>s'. cl_users s' = cl_users s \<longrightarrow> getVmFromUser u p s' = Ok (Some m)" by blast
  with v show "\<exists>m node. m_id m = p \<and> node_of vms dc m = Ok node \<and>
       (\<forall>s'. cl_users s' = cl_users s \<longrightarrow> getVmFromUser u p s' = Ok (Some m))"
    by (auto simp: vm_known_def node_of_def elim!: res_okE)
qed

lemma closing_upd:
  assumes "closing s" "distinct (map pd_pid (pendingRemoteStorageDeletion s'))"
    and "distinct (map pd_pid (connectionsDeletion s'))" "entry_ok x y"
    and "missing (pendingRemoteStorageDeletion s') = (missing (pendingRemoteStorageDeletion s))(p := x)"
    and "missing (connectionsDeletion s') = (missing (connectionsDeletion s))(p := y)"
  shows "closing s'"
  using assms by (simp add: closing_def)

definition owner :: "cloud \<Rightarrow> int \<Rightarrow> int" where
  "owner s p = (case missing (pendingRemoteStorageDeletion s) p of None \<Rightarrow> 0 | Some (u, f) \<Rightarrow> u)"

text \<open>
  The missing answers at \<open>p\<close> become \<open>x\<close> and \<open>y\<close>, and the machine is taken off when nothing is left and it runs no
  process.
\<close>

definition noted :: "(int \<Rightarrow> vm_info) \<Rightarrow> data_centre \<Rightarrow> int \<Rightarrow> int \<Rightarrow> (int \<times> int) option \<Rightarrow> (int \<times> int) option \<Rightarrow>
    cloud \<Rightarrow> cloud \<Rightarrow> bool" where
  "noted vms dc n p x y s s' \<longleftrightarrow> closing s' \<and> ready vms dc s' \<and>
     missing (pendingRemoteStorageDeletion s') = (missing (pendingRemoteStorageDeletion s))(p := x) \<and>
     missing (connectionsDeletion s') = (missing (connectionsDeletion s))(p := y) \<and>
     (\<forall>q. unlinked q s' = unlinked q s + (if q = p \<and> x = None \<and> n = 0 then 1 else 0)) \<and>
     (x = None \<and> n = 0 \<longrightarrow> \<not> filed (owner s p) p (cl_users s')) \<and>
     (\<forall>u q. filed u q (cl_users s') \<longrightarrow> filed u q (cl_users s)) \<and>
     (\<forall>u q. q \<noteq> p \<or> x \<noteq> None \<or> n \<noteq> 0 \<longrightarrow> filed u q (cl_users s) \<longrightarrow> filed u q (cl_users s'))"

lemma loaded_same:
  "v_type (loaded vms p n q) = v_type (vms q)" "v_setName (loaded vms p n q) = v_setName (vms q)"
  "v_nodeName (loaded vms p n q) = v_nodeName (vms q)" "v_processes (loaded vms p n p) = n"
  by (simp_all add: loaded_def)

lemma ready_loaded: "ready (loaded vms p n) dc s = ready vms dc s"
  by (simp add: ready_def users_ok_def well_filed_def vm_known_def loaded_same)

lemma noted_loaded: "noted (loaded vms p n) dc k q x y s s' = noted vms dc k q x y s s'"
  by (simp add: noted_def ready_loaded)

text \<open>The last notification: the entries of the machine are gone in \<open>s1\<close>.\<close>

lemma last_note:
  assumes "closing s" "ready vms dc s" "missing (pendingRemoteStorageDeletion s) p = Some (u, f)"
    and d: "distinct (map pd_pid (pendingRemoteStorageDeletion s1))" "distinct (map pd_pid (connectionsDeletion s1))"
    and F: "missing (pendingRemoteStorageDeletion s1) = (missing (pendingRemoteStorageDeletion s))(p := None)"
    and C: "missing (connectionsDeletion s1) = (missing (connectionsDeletion s))(p := None)"
    and same: "cl_users s1 = cl_users s" "reqPendingToDelete s1 = reqPendingToDelete s" "cl_actions s1 = cl_actions s"
    and m: "m_id m = p"
  shows "\<exists>s'. (if v_processes (vms p) = 0 then shut_down vms dc turnOff u p m node s1 else Ok s1) = Ok s' \<and>
    noted vms dc (v_processes (vms p)) p None None s s'"
proof (cases "v_processes (vms p) = 0")
  case False
  have "closing s1"
    by (rule closing_upd[OF assms(1), where x = None and y = None and p = p]) (simp_all add: d F C)
  moreover have "ready vms dc s1"
    using ready_others[OF assms(2), of p] F same by (intro others_ready_gone[where p = p]) (simp_all add: others_ready_def)
  moreover have "unlinked q s1 = unlinked q s" for q using same by (simp add: unlinked_def)
  ultimately show ?thesis using False F C same(1) by (auto simp: noted_def)
next
  case idle: True
  have "others_ready vms dc p s1"
    using ready_others[OF assms(2), of p] F same by (simp add: others_ready_def)
  moreover note readyD(1,2)[OF assms(2,3)]
  ultimately obtain s' where s': "shut_down vms dc turnOff u p m node s1 = Ok s'" "others_ready vms dc p s'"
    "pendingRemoteStorageDeletion s' = pendingRemoteStorageDeletion s1"
    "connectionsDeletion s' = connectionsDeletion s1"
    "\<forall>q. unlinked q s' = unlinked q s1 + (if q = p then 1 else 0)"
    "\<not> filed u p (cl_users s')" "\<forall>u' q. filed u' q (cl_users s') \<longrightarrow> filed u' q (cl_users s1)"
    "\<forall>u' q. q \<noteq> p \<longrightarrow> filed u' q (cl_users s1) \<longrightarrow> filed u' q (cl_users s')"
    using shut_down_ok[of vms dc p s1 u m turnOff node] m same by auto
  have "closing s'"
    by (rule closing_upd[OF assms(1), where x = None and y = None and p = p]) (simp_all add: d F C s'(3,4))
  moreover have "ready vms dc s'" by (rule others_ready_gone[OF s'(2)]) (simp add: s'(3) F)
  moreover have "unlinked q s1 = unlinked q s" for q using same by (simp add: unlinked_def)
  moreover have "owner s p = u" using assms(3) by (simp add: owner_def)
  ultimately show ?thesis using idle s' F C same(1) by (auto simp: noted_def)
qed

lemma files_noted:
  assumes "closing s" "ready vms dc s" "missing (pendingRemoteStorageDeletion s) p = Some (u, f)" "0 < f"
  shows "\<exists>s'. notifyFSFormatted vms dc turnOff u p s = Ok s' \<and> noted vms dc (v_processes (vms p)) p
    (if f = 1 \<and> missing (connectionsDeletion s) p = None then None else Some (u, f - 1))
    (missing (connectionsDeletion s) p) s s'"
proof -
  let ?F = "pendingRemoteStorageDeletion s" and ?C = "connectionsDeletion s"
  have d: "distinct (map pd_pid ?F)" "distinct (map pd_pid ?C)" using assms(1) by (simp_all add: closing_def)
  have entry: "entry_ok (Some (u, f)) (missing ?C p)" using assms(1,3) by (metis closing_def)
  from missing_index[OF d(1) assms(3)] obtain k where k: "k < length ?F" "pd_pid (?F ! k) = p" "pd_uid (?F ! k) = u"
    "pd_quantity (?F ! k) = f" "index_of (of_vm u p) ?F = Some k" by metis
  let ?G = "?F[k := (?F ! k)\<lparr>pd_quantity := f - 1\<rparr>]"
  note G = missing_set[OF d(1) k(1), of "f - 1", unfolded k(2,3)]
  show ?thesis
  proof (cases "missing ?C p")
    case None
    have none: "index_of (of_vm u p) ?C = None"
      using None by (auto simp: missing_None index_of_None of_vm_def)
    show ?thesis
    proof (cases "f = 1")
      case True
      let ?s1 = "s\<lparr>pendingRemoteStorageDeletion := remove_at k ?G\<rparr>"
      have dG: "distinct (map pd_pid ?G)" "k < length ?G" "pd_pid (?G ! k) = p" using G(2) d(1) k by simp_all
      note R = missing_remove[OF dG(1,2), unfolded dG(3) G(1)]
      from readyD(3)[OF assms(2,3)] obtain m node where m: "m_id m = p"
        "node_of vms dc m = Ok node" "getVmFromUser u p ?s1 = Ok (Some m)" by auto
      have "\<exists>s'. (if v_processes (vms p) = 0 then shut_down vms dc turnOff u p m node ?s1 else Ok ?s1) = Ok s' \<and>
          noted vms dc (v_processes (vms p)) p None None s s'"
        by (rule last_note[OF assms(1-3)]) (use R d m None in \<open>simp_all add: fun_upd_idem\<close>)
      then show ?thesis
        using k none True m None by (auto simp: notifyFSFormatted_def Let_def)
    next
      case False
      let ?s' = "s\<lparr>pendingRemoteStorageDeletion := ?G\<rparr>"
      have "closing ?s'"
        by (rule closing_upd[OF assms(1), where p = p and x = "Some (u, f - 1)" and y = None])
          (use G d None False assms(4) in \<open>simp_all add: fun_upd_idem\<close>)
      moreover have "ready vms dc ?s'" using assms(2,3) G(1) by (auto simp: ready_def)
      ultimately show ?thesis using k False None G(1)
        by (auto simp: notifyFSFormatted_def Let_def noted_def unlinked_def fun_upd_idem)
    qed
  next
    case (Some y)
    obtain c where y: "y = (u, c)" "0 < c" using entry Some by (cases y) auto
    from missing_index[OF d(2), of p u c] Some y obtain i where i: "i < length ?C" "pd_quantity (?C ! i) = c"
      "index_of (of_vm u p) ?C = Some i" by metis
    let ?s' = "s\<lparr>pendingRemoteStorageDeletion := ?G\<rparr>"
    have "closing ?s'"
      by (rule closing_upd[OF assms(1), where p = p and x = "Some (u, f - 1)" and y = "Some (u, c)"])
        (use G d Some y assms(4) in \<open>simp_all add: fun_upd_idem\<close>)
    moreover have "ready vms dc ?s'" using assms(2,3) G(1) by (auto simp: ready_def)
    ultimately show ?thesis using k i Some y G(1)
      by (auto simp: notifyFSFormatted_def Let_def noted_def unlinked_def fun_upd_idem)
  qed
qed

lemma connection_noted:
  assumes "closing s" "ready vms dc s" "missing (connectionsDeletion s) p = Some (u, c)"
  shows "\<exists>s' f. missing (pendingRemoteStorageDeletion s) p = Some (u, f) \<and>
    notifyVMConnectionsClosed vms dc turnOff u p s = Ok s' \<and> noted vms dc (v_processes (vms p)) p
    (if f = 0 \<and> c = 1 then None else Some (u, f)) (if c = 1 then None else Some (u, c - 1)) s s'"
proof -
  let ?F = "pendingRemoteStorageDeletion s" and ?C = "connectionsDeletion s"
  have d: "distinct (map pd_pid ?F)" "distinct (map pd_pid ?C)" using assms(1) by (simp_all add: closing_def)
  have "entry_ok (missing ?F p) (Some (u, c))" using assms(1,3) by (metis closing_def)
  then obtain f where f: "missing ?F p = Some (u, f)" "0 < c" "0 \<le> f" by (cases "missing ?F p") auto
  from missing_index[OF d(2) assms(3)] obtain k where k: "k < length ?C" "pd_pid (?C ! k) = p" "pd_uid (?C ! k) = u"
    "pd_quantity (?C ! k) = c" "index_of (\<lambda>x. pd_pid x = p) ?C = Some k" by metis
  from missing_index[OF d(1) f(1)] obtain i where i: "i < length ?F" "pd_pid (?F ! i) = p"
    "pd_quantity (?F ! i) = f" "index_of (of_vm u p) ?F = Some i" by metis
  note R = missing_remove[OF d(2) k(1), unfolded k(2)]
  show ?thesis
  proof (cases "c = 1")
    case False
    let ?s' = "s\<lparr>connectionsDeletion := ?C[k := (?C ! k)\<lparr>pd_quantity := c - 1\<rparr>]\<rparr>"
    note G = missing_set[OF d(2) k(1), of "c - 1", unfolded k(2,3)]
    have "closing ?s'"
      by (rule closing_upd[OF assms(1), where p = p and x = "Some (u, f)" and y = "Some (u, c - 1)"])
        (use G d False f in \<open>simp_all add: fun_upd_idem\<close>)
    moreover have "ready vms dc ?s'" using assms(2) by (auto simp: ready_def)
    ultimately show ?thesis using k False f G(1)
      by (auto simp: notifyVMConnectionsClosed_def Let_def noted_def unlinked_def fun_upd_idem)
  next
    case True
    let ?s1 = "s\<lparr>connectionsDeletion := remove_at k ?C\<rparr>"
    from readyD(3)[OF assms(2) f(1)] obtain m node where m: "m_id m = p"
      "node_of vms dc m = Ok node" "\<And>s'. cl_users s' = cl_users s \<Longrightarrow> getVmFromUser u p s' = Ok (Some m)" by blast
    show ?thesis
    proof (cases "f = 0")
      case False
      have "closing ?s1"
        by (rule closing_upd[OF assms(1), where p = p and x = "Some (u, f)" and y = None])
          (use R d False f in \<open>simp_all add: fun_upd_idem\<close>)
      moreover have "ready vms dc ?s1" using assms(2) by (auto simp: ready_def)
      ultimately show ?thesis using k i m True False f R(1)
        by (auto simp: notifyVMConnectionsClosed_def Let_def noted_def unlinked_def fun_upd_idem)
    next
      case zero: True
      let ?s2 = "?s1\<lparr>pendingRemoteStorageDeletion := remove_at i ?F\<rparr>"
      note S = missing_remove[OF d(1) i(1), unfolded i(2)]
      have "\<exists>s'. (if v_processes (vms p) = 0 then shut_down vms dc turnOff u p m node ?s2 else Ok ?s2) = Ok s' \<and>
          noted vms dc (v_processes (vms p)) p None None s s'"
        by (rule last_note[OF assms(1,2) f(1)]) (use R S m in simp_all)
      then show ?thesis using k i m True zero f
        by (auto simp: notifyVMConnectionsClosed_def Let_def)
    qed
  qed
qed

subsection \<open>All notifications\<close>

datatype notification = FilesDeleted int int | ConnectionsClosed int int

fun of_machine :: "int \<Rightarrow> notification \<Rightarrow> bool" where
  "of_machine p (FilesDeleted u q) = (q = p)"
| "of_machine p (ConnectionsClosed u q) = (q = p)"

text \<open>How a node delivers the answers to the manager.\<close>

fun deliver :: "(int \<Rightarrow> int \<Rightarrow> cloud \<Rightarrow> cloud res) \<Rightarrow> (int \<Rightarrow> vm_info) \<Rightarrow> data_centre \<Rightarrow> bool \<Rightarrow>
    notification \<Rightarrow> cloud \<Rightarrow> cloud res" where
  "deliver preloaded vms dc turnOff (FilesDeleted u p) s =
     notifyManager preloaded vms dc turnOff SM_NOTIFY_USER_FS_DELETED u p s"
| "deliver preloaded vms dc turnOff (ConnectionsClosed u p) s =
     notifyManager preloaded vms dc turnOff SM_NOTIFY_USER_CONNECTIONS_CLOSED u p s"

text \<open>An arrival: the number of processes that the machine runs then, and the notification.\<close>

fun machine_of :: "notification \<Rightarrow> int" where
  "machine_of (FilesDeleted u p) = p"
| "machine_of (ConnectionsClosed u p) = p"

definition arrive :: "(int \<Rightarrow> int \<Rightarrow> cloud \<Rightarrow> cloud res) \<Rightarrow> (int \<Rightarrow> vm_info) \<Rightarrow> data_centre \<Rightarrow> bool \<Rightarrow>
    int \<times> notification \<Rightarrow> cloud \<Rightarrow> cloud res" where
  "arrive preloaded vms dc turnOff = (\<lambda>(n, e). deliver preloaded (loaded vms (machine_of e) n) dc turnOff e)"

text \<open>The number of processes when the last notification for a machine arrives.\<close>

definition processes_at_last :: "int \<Rightarrow> (int \<times> notification) list \<Rightarrow> int" where
  "processes_at_last p es = fst (last (filter (\<lambda>(n, e). of_machine p e) es))"

lemma processes_at_last_simps:
  "\<not> of_machine p e \<Longrightarrow> processes_at_last p ((n, e) # es) = processes_at_last p es"
  "filter (of_machine p) (map snd es) \<noteq> [] \<Longrightarrow> processes_at_last p (x # es) = processes_at_last p es"
  "filter (of_machine p) (map snd es) = [] \<Longrightarrow> of_machine p e \<Longrightarrow> processes_at_last p ((n, e) # es) = n"
proof -
  have f: "filter (of_machine p) (map snd es) = [] \<longleftrightarrow> filter (\<lambda>(n, e). of_machine p e) es = []"
    by (simp add: filter_map comp_def case_prod_unfold)
  show "\<not> of_machine p e \<Longrightarrow> processes_at_last p ((n, e) # es) = processes_at_last p es" by (simp add: processes_at_last_def)
  show "filter (of_machine p) (map snd es) \<noteq> [] \<Longrightarrow> processes_at_last p (x # es) = processes_at_last p es"
    unfolding f by (simp add: processes_at_last_def split: prod.split)
  show "filter (of_machine p) (map snd es) = [] \<Longrightarrow> of_machine p e \<Longrightarrow> processes_at_last p ((n, e) # es) = n"
    unfolding f by (simp add: processes_at_last_def)
qed

definition files_left :: "cloud \<Rightarrow> int \<Rightarrow> int" where
  "files_left s p = (case missing (pendingRemoteStorageDeletion s) p of None \<Rightarrow> 0 | Some (u, f) \<Rightarrow> f)"

definition connections_left :: "cloud \<Rightarrow> int \<Rightarrow> int" where
  "connections_left s p = (case missing (connectionsDeletion s) p of None \<Rightarrow> 0 | Some (u, c) \<Rightarrow> c)"

text \<open>The nodes answer what they were asked, and no more.\<close>

definition awaited :: "cloud \<Rightarrow> notification list \<Rightarrow> bool" where
  "awaited s es \<longleftrightarrow> (\<forall>p. set (filter (of_machine p) es) \<subseteq> {FilesDeleted (owner s p) p, ConnectionsClosed (owner s p) p} \<and>
     int (count_list es (FilesDeleted (owner s p) p)) \<le> files_left s p \<and>
     int (count_list es (ConnectionsClosed (owner s p) p)) \<le> connections_left s p)"

definition all_answered :: "cloud \<Rightarrow> notification list \<Rightarrow> int \<Rightarrow> bool" where
  "all_answered s es p \<longleftrightarrow> 0 < files_left s p + connections_left s p \<and>
     int (count_list es (FilesDeleted (owner s p) p)) = files_left s p \<and>
     int (count_list es (ConnectionsClosed (owner s p) p)) = connections_left s p"

text \<open>The arrivals shut a machine down: all of its answers are among them, and it is idle at the last one.\<close>

definition shuts :: "cloud \<Rightarrow> (int \<times> notification) list \<Rightarrow> int \<Rightarrow> bool" where
  "shuts s es p \<longleftrightarrow> all_answered s (map snd es) p \<and> processes_at_last p es = 0"

lemma noted_left:
  assumes "noted vms dc n q x y s s'"
  shows "owner s' p = (if p = q then (case x of None \<Rightarrow> 0 | Some (u, f) \<Rightarrow> u) else owner s p)"
    and "files_left s' p = (if p = q then (case x of None \<Rightarrow> 0 | Some (u, f) \<Rightarrow> f) else files_left s p)"
    and "connections_left s' p = (if p = q then (case y of None \<Rightarrow> 0 | Some (u, c) \<Rightarrow> c) else connections_left s p)"
  using assms by (simp_all add: noted_def owner_def files_left_def connections_left_def)

text \<open>Nothing is left to answer for a machine without answers.\<close>

lemma no_answers:
  assumes "set (filter (of_machine p) es) \<subseteq> {FilesDeleted u p, ConnectionsClosed u p}"
    and "count_list es (FilesDeleted u p) = 0" "count_list es (ConnectionsClosed u p) = 0"
  shows "filter (of_machine p) es = []" "count_list es (FilesDeleted v p) = 0" "count_list es (ConnectionsClosed v p) = 0"
proof -
  have none: "FilesDeleted u p \<notin> set es" "ConnectionsClosed u p \<notin> set es"
    using assms(2,3) by (simp_all add: count_list_0_iff)
  then show e: "filter (of_machine p) es = []" using assms(1) by (force simp: filter_empty_conv)
  show "count_list es (FilesDeleted v p) = 0" "count_list es (ConnectionsClosed v p) = 0"
    using e by (force simp: count_list_0_iff filter_empty_conv)+
qed

lemma awaited_at:
  assumes "awaited s es"
  shows "set (filter (of_machine p) es) \<subseteq> {FilesDeleted (owner s p) p, ConnectionsClosed (owner s p) p}"
    "int (count_list es (FilesDeleted (owner s p) p)) \<le> files_left s p"
    "int (count_list es (ConnectionsClosed (owner s p) p)) \<le> connections_left s p"
  using assms by (simp_all add: awaited_def)

lemma deliver_noted:
  assumes "closing s" "ready vms dc s" "u = owner s q" "e = FilesDeleted u q \<or> e = ConnectionsClosed u q"
    and "df = (if e = FilesDeleted u q then 1 else 0)" "df \<le> files_left s q" "1 - df \<le> connections_left s q"
  shows "\<exists>s' x y. deliver preloaded vms dc turnOff e s = Ok s' \<and> noted vms dc (v_processes (vms q)) q x y s s' \<and>
    (x = None \<longrightarrow> y = None) \<and> (\<forall>w f. x = Some (w, f) \<longrightarrow> w = u) \<and>
    (x = None \<longleftrightarrow> files_left s q - df = 0 \<and> connections_left s q - (1 - df) = 0) \<and>
    (case x of None \<Rightarrow> 0 | Some (w, f) \<Rightarrow> f) = files_left s q - df \<and>
    (case y of None \<Rightarrow> 0 | Some (w, c) \<Rightarrow> c) = connections_left s q - (1 - df)"
proof (cases "e = FilesDeleted u q")
  case True
  then have "df = 1" "1 \<le> files_left s q" using assms(5,6) by simp_all
  then obtain f where f: "missing (pendingRemoteStorageDeletion s) q = Some (u, f)" "1 \<le> f" "files_left s q = f"
    by (auto simp: files_left_def owner_def assms(3) split: option.split_asm)
  have "entry_ok (Some (u, f)) (missing (connectionsDeletion s) q)" using assms(1) f(1) by (metis closing_def)
  then have "missing (connectionsDeletion s) q = None \<longleftrightarrow> connections_left s q = 0"
    by (auto simp: connections_left_def split: option.split_asm)
  moreover from files_noted[OF assms(1,2) f(1)] f(2) obtain s' where
    "notifyFSFormatted vms dc turnOff u q s = Ok s'" "noted vms dc (v_processes (vms q)) q
      (if f = 1 \<and> missing (connectionsDeletion s) q = None then None else Some (u, f - 1))
      (missing (connectionsDeletion s) q) s s'" by fastforce
  ultimately show ?thesis using True f \<open>df = 1\<close>
    by (intro exI[of _ s'] exI[of _ "if f = 1 \<and> missing (connectionsDeletion s) q = None then None else Some (u, f - 1)"]
        exI[of _ "missing (connectionsDeletion s) q"])
      (auto simp: notifyManager_def connections_left_def)
next
  case False
  then have "df = 0" "e = ConnectionsClosed u q" "1 \<le> connections_left s q" using assms(4,5,7) by simp_all
  then obtain v c where c: "missing (connectionsDeletion s) q = Some (v, c)" "1 \<le> c" "connections_left s q = c"
    by (auto simp: connections_left_def split: option.split_asm)
  from connection_noted[OF assms(1,2) c(1)] obtain s' f where s': "missing (pendingRemoteStorageDeletion s) q = Some (v, f)"
    "notifyVMConnectionsClosed vms dc turnOff v q s = Ok s'" "noted vms dc (v_processes (vms q)) q
      (if f = 0 \<and> c = 1 then None else Some (v, f)) (if c = 1 then None else Some (v, c - 1)) s s'" by blast
  moreover have "v = u" using s'(1) by (simp add: assms(3) owner_def)
  moreover have "files_left s q = f" using s'(1) by (simp add: files_left_def)
  ultimately show ?thesis using c \<open>df = 0\<close> \<open>e = ConnectionsClosed u q\<close>
    by (intro exI[of _ s'] exI[of _ "if f = 0 \<and> c = 1 then None else Some (u, f)"]
        exI[of _ "if c = 1 then None else Some (u, c - 1)"])
      (auto simp: notifyManager_def SM_NOTIFY_USER_FS_DELETED_def SM_NOTIFY_USER_CONNECTIONS_CLOSED_def
        SM_NOTIFY_PRELOAD_FINALIZATION_def)
qed

lemma deliver_next:
  assumes "closing s" "ready vms dc s" "awaited s (map snd ((n, e) # es))"
  shows "\<exists>s'. arrive preloaded vms dc turnOff (n, e) s = Ok s' \<and> closing s' \<and> ready vms dc s' \<and> awaited s' (map snd es) \<and>
    (\<forall>p. unlinked p s' + (if shuts s' es p then 1 else 0) = unlinked p s + (if shuts s ((n, e) # es) p then 1 else 0)) \<and>
    (\<forall>p. shuts s ((n, e) # es) p \<longrightarrow> \<not> filed (owner s p) p (cl_users s') \<or>
       shuts s' es p \<and> owner s' p = owner s p) \<and>
    (\<forall>p. shuts s' es p \<longrightarrow> shuts s ((n, e) # es) p) \<and>
    (\<forall>u p. filed u p (cl_users s') \<longrightarrow> filed u p (cl_users s)) \<and>
    (\<forall>u p. filed u p (cl_users s) \<longrightarrow> filed u p (cl_users s') \<or> shuts s ((n, e) # es) p)"
proof -
  define q where "q = machine_of e"
  let ?es = "map snd es"
  note a = awaited_at[OF assms(3), unfolded list.map snd_conv]
  have me: "of_machine q e" by (cases e) (simp_all add: q_def)
  with a(1)[of q] have e: "e = FilesDeleted (owner s q) q \<or> e = ConnectionsClosed (owner s q) q" by auto
  define u where "u = owner s q"
  define df where "df = (if e = FilesDeleted u q then 1 else 0 :: int)"
  have d01: "0 \<le> df" "df \<le> 1" by (simp_all add: df_def)
  have cnt: "int (count_list (e # ?es) (FilesDeleted u q)) = int (count_list ?es (FilesDeleted u q)) + df"
    "int (count_list (e # ?es) (ConnectionsClosed u q)) = int (count_list ?es (ConnectionsClosed u q)) + (1 - df)"
    using e by (auto simp: u_def df_def)
  have c: "int (count_list ?es (FilesDeleted u q)) + df \<le> files_left s q"
    "int (count_list ?es (ConnectionsClosed u q)) + (1 - df) \<le> connections_left s q"
    using a(2,3)[of q] cnt by (simp_all add: u_def)
  have other: "\<not> of_machine p e" if "p \<noteq> q" for p using that by (cases e) (simp_all add: q_def)
  then have same: "filter (of_machine p) (e # ?es) = filter (of_machine p) ?es"
    "count_list (e # ?es) (FilesDeleted v p) = count_list ?es (FilesDeleted v p)"
    "count_list (e # ?es) (ConnectionsClosed v p) = count_list ?es (ConnectionsClosed v p)" if "p \<noteq> q" for p v
    using e that by auto
  have "ready (loaded vms q n) dc s" using assms(2) by (simp add: ready_loaded)
  moreover have "df \<le> files_left s q" "1 - df \<le> connections_left s q" using c by simp_all
  moreover have arr: "arrive preloaded vms dc turnOff (n, e) s = deliver preloaded (loaded vms q n) dc turnOff e s"
    by (simp add: arrive_def q_def)
  ultimately
  obtain s' x y where s': "arrive preloaded vms dc turnOff (n, e) s = Ok s'" and n: "noted vms dc n q x y s s'"
    and xy: "x = None \<longrightarrow> y = None" "\<forall>w f. x = Some (w, f) \<longrightarrow> w = u"
      "x = None \<longleftrightarrow> files_left s q - df = 0 \<and> connections_left s q - (1 - df) = 0"
    and l: "(case x of None \<Rightarrow> 0 | Some (w, f) \<Rightarrow> f) = files_left s q - df"
      "(case y of None \<Rightarrow> 0 | Some (w, c) \<Rightarrow> c) = connections_left s q - (1 - df)"
    using deliver_noted[where preloaded = preloaded and turnOff = turnOff, OF assms(1) _ u_def e[folded u_def] df_def,
        of "loaded vms q n" dc] unfolding loaded_same noted_loaded arr by blast
  note nl = noted_left[OF n]
  have sub: "set (filter (of_machine q) ?es) \<subseteq> {FilesDeleted u q, ConnectionsClosed u q}"
    using a(1)[of q] by (simp add: u_def split: if_split_asm)
  have un: "unlinked p s' = unlinked p s + (if p = q \<and> x = None \<and> n = 0 then 1 else 0)" for p
    using n by (simp add: noted_def)
  have at_q: "set (filter (of_machine q) ?es) \<subseteq> {FilesDeleted (owner s' q) q, ConnectionsClosed (owner s' q) q} \<and>
     int (count_list ?es (FilesDeleted (owner s' q) q)) \<le> files_left s' q \<and>
     int (count_list ?es (ConnectionsClosed (owner s' q) q)) \<le> connections_left s' q \<and>
     (if x = None then (shuts s ((n, e) # es) q \<longleftrightarrow> n = 0) \<and> \<not> shuts s' es q
      else (shuts s ((n, e) # es) q \<longleftrightarrow> shuts s' es q) \<and> owner s' q = u)"
  proof (cases x)
    case None
    then have z: "count_list ?es (FilesDeleted u q) = 0" "count_list ?es (ConnectionsClosed u q) = 0"
      using c xy(3) by simp_all
    note no = no_answers[OF sub z]
    have "all_answered s (e # ?es) q" using None xy(3) cnt z d01 by (simp add: all_answered_def u_def)
    then have "shuts s ((n, e) # es) q \<longleftrightarrow> n = 0" using processes_at_last_simps(3)[OF no(1) me] by (simp add: shuts_def)
    moreover have "\<not> all_answered s' ?es q" using None xy(3) l nl by (simp add: all_answered_def)
    ultimately show ?thesis using None no l nl by (simp add: xy shuts_def)
  next
    case (Some wf)
    then have o: "owner s' q = u" using xy(2) nl(1)[of q] by (cases wf) simp
    have left: "0 < files_left s q - df + (connections_left s q - (1 - df))"
      using Some xy(3) c by auto
    then have all: "all_answered s' ?es q = all_answered s (e # ?es) q"
      using l nl(2,3)[of q] cnt d01 o by (auto simp: all_answered_def u_def)
    have "filter (of_machine q) ?es \<noteq> []" if "all_answered s' ?es q"
    proof
      assume "filter (of_machine q) ?es = []"
      then have "count_list ?es (FilesDeleted v q) = 0" "count_list ?es (ConnectionsClosed v q) = 0" for v
        by (force simp: count_list_0_iff filter_empty_conv)+
      then show False using that unfolding all_answered_def by auto
    qed
    then have "shuts s' es q = shuts s ((n, e) # es) q" using all processes_at_last_simps(2) by (auto simp: shuts_def)
    then show ?thesis using Some sub c l nl(2,3)[of q] o by (simp add: u_def)
  qed
  have at_p: "shuts s' es p = shuts s ((n, e) # es) p" if "p \<noteq> q" for p
    using nl[of p] that same processes_at_last_simps(1)[OF other] by (simp add: shuts_def all_answered_def)
  have "awaited s' ?es"
    unfolding awaited_def
  proof
    fix p
    show "set (filter (of_machine p) ?es) \<subseteq> {FilesDeleted (owner s' p) p, ConnectionsClosed (owner s' p) p} \<and>
     int (count_list ?es (FilesDeleted (owner s' p) p)) \<le> files_left s' p \<and>
     int (count_list ?es (ConnectionsClosed (owner s' p) p)) \<le> connections_left s' p"
      using at_q a[of p] nl[of p] same by (cases "p = q") simp_all
  qed
  moreover have "unlinked p s' + (if shuts s' es p then 1 else 0) =
      unlinked p s + (if shuts s ((n, e) # es) p then 1 else 0)" for p
    using at_q at_p[of p] un[of p] by (cases "p = q") (auto split: if_splits)
  moreover have "\<not> filed (owner s p) p (cl_users s') \<or> shuts s' es p \<and> owner s' p = owner s p"
    if "shuts s ((n, e) # es) p" for p
    using at_q at_p[of p] that nl(1)[of p] n by (cases "p = q") (auto simp: noted_def u_def split: if_splits)
  moreover have "shuts s' es p \<longrightarrow> shuts s ((n, e) # es) p" for p
    using at_q at_p[of p] by (cases "p = q") (auto split: if_splits)
  moreover have "filed w p (cl_users s) \<longrightarrow> filed w p (cl_users s') \<or> shuts s ((n, e) # es) p" for w p
    using at_q n by (cases "p = q") (auto simp: noted_def split: if_splits)
  ultimately show ?thesis using s' n by (auto simp: noted_def)
qed

text \<open>
  However the answers are ordered and mixed, a machine is taken off its node when its last one arrives and it runs
  no process then; no other machine is, and no other is forgotten by its user.
\<close>

lemma deliver_all:
  assumes "closing s" "ready vms dc s" "awaited s (map snd es)"
  shows "\<exists>s'. fold_res (arrive preloaded vms dc turnOff) es s = Ok s' \<and> closing s' \<and> ready vms dc s' \<and>
    (\<forall>p. unlinked p s' = unlinked p s + (if shuts s es p then 1 else 0)) \<and>
    (\<forall>p. shuts s es p \<longrightarrow> \<not> filed (owner s p) p (cl_users s')) \<and>
    (\<forall>u q. filed u q (cl_users s') \<longrightarrow> filed u q (cl_users s)) \<and>
    (\<forall>u q. filed u q (cl_users s) \<longrightarrow> filed u q (cl_users s') \<or> shuts s es q)"
  using assms
proof (induction es arbitrary: s)
  case Nil
  have "\<not> shuts s [] p" for p by (simp add: shuts_def all_answered_def)
  with Nil show ?case by simp
next
  case (Cons x es)
  obtain n e where x: "x = (n, e)" by (cases x)
  from deliver_next[OF Cons.prems(1,2) Cons.prems(3)[unfolded x]] obtain s1 where s1: "arrive preloaded vms dc turnOff x s = Ok s1"
    "closing s1" "ready vms dc s1" "awaited s1 (map snd es)"
    "\<And>p. unlinked p s1 + (if shuts s1 es p then 1 else 0) = unlinked p s + (if shuts s (x # es) p then 1 else 0)"
    "\<And>p. shuts s (x # es) p \<Longrightarrow> \<not> filed (owner s p) p (cl_users s1) \<or> shuts s1 es p \<and> owner s1 p = owner s p"
    "\<And>p. shuts s1 es p \<Longrightarrow> shuts s (x # es) p"
    "\<And>u q. filed u q (cl_users s1) \<Longrightarrow> filed u q (cl_users s)"
    "\<And>u q. filed u q (cl_users s) \<Longrightarrow> filed u q (cl_users s1) \<or> shuts s (x # es) q"
    unfolding x by blast
  from Cons.IH[OF s1(2-4)] obtain s' where "fold_res (arrive preloaded vms dc turnOff) es s1 = Ok s'"
    "closing s'" "ready vms dc s'" "\<And>p. unlinked p s' = unlinked p s1 + (if shuts s1 es p then 1 else 0)"
    "\<And>p. shuts s1 es p \<Longrightarrow> \<not> filed (owner s1 p) p (cl_users s')"
    "\<And>u q. filed u q (cl_users s') \<Longrightarrow> filed u q (cl_users s1)"
    "\<And>u q. filed u q (cl_users s1) \<Longrightarrow> filed u q (cl_users s') \<or> shuts s1 es q" by blast
  moreover have "\<not> filed (owner s p) p (cl_users s')" if "shuts s (x # es) p" for p
    using s1(6)[OF that] calculation(5)[of p] calculation(6)[of "owner s p" p] by auto
  moreover have "filed u q (cl_users s') \<or> shuts s (x # es) q" if "filed u q (cl_users s)" for u q
    using s1(7)[of q] s1(9)[OF that] calculation(7)[of u q] by blast
  ultimately show ?case using s1(1,5,8) by auto
qed

subsection \<open>The start of a shutdown\<close>

lemma acts [simp]:
  "fold (\<lambda>n. act (a n)) ns s = s\<lparr>cl_actions := cl_actions s @ map a ns\<rparr>"
  by (induction ns arbitrary: s) (simp_all add: act_def)

lemma missing_snoc:
  "missing xs (pd_pid x) = None \<Longrightarrow> missing (xs @ [x]) = (missing xs)(pd_pid x \<mapsto> (pd_uid x, pd_quantity x))"
  by (induction xs) (auto simp: fun_upd_twist split: if_split_asm)

lemma request_starts:
  assumes "closing s" "ready vms dc s" "missing (pendingRemoteStorageDeletion s) p = None"
    and "vm_known vms dc u p (cl_users s)" "v_uid (vms p) = u"
    and "rq_kind r = VmRequest [p] con sel" "rq_operation r = REQUEST_FREE_RESOURCES" "rq_uid r = u" "rq_pid r = p"
    and "remoteShutdown (r\<lparr>rq_kind := VmRequest [p] 0 sel\<rparr>) (cl_allocation s) = Ok (nodes, al)"
  shows "\<exists>s'. request_shutdown_vm vms dc turnOff r s = Ok (r\<lparr>rq_kind := VmRequest [] con sel\<rparr>, [], s') \<and>
    closing s' \<and> ready vms dc s' \<and> owner s' p = u \<and> files_left s' p = int (length nodes) + 1 \<and>
    connections_left s' p = int (length nodes) + 1 \<and> (\<forall>q. unlinked q s' = unlinked q s) \<and> cl_users s' = cl_users s"
proof -
  obtain node where node: "dc_getNodeByIndex_named (v_setName (vms p)) (v_nodeName (vms p)) False dc = Ok node"
    using assms(4) by (auto simp: vm_known_def elim: res_okE)
  let ?r = "r\<lparr>rq_kind := VmRequest [p] 0 sel\<rparr>" and ?ns = "nodes @ [node]"
  let ?x = "\<lparr>pd_uid = u, pd_pid = p, pd_quantity = int (length ?ns)\<rparr>"
  let ?F = "pendingRemoteStorageDeletion s" and ?C = "connectionsDeletion s"
  let ?s = "s\<lparr>pendingRemoteStorageDeletion := ?F @ [?x], connectionsDeletion := ?C @ [?x],
    reqPendingToDelete := reqPendingToDelete s @ [?r], cl_allocation := al,
    cl_actions := cl_actions s @ map (\<lambda>n. DeleteUserFSFiles n u p) ?ns @ map (\<lambda>n. CloseConnections n u p) ?ns\<rparr>"
  have run: "request_shutdown_vm vms dc turnOff r s = Ok (r\<lparr>rq_kind := VmRequest [] con sel\<rparr>, [], ?s)"
    using assms(5,6,10) node
    by (simp add: request_shutdown_vm_def shutdown_one_def formatFSFromNodes_def closeVMConnections_def act_def Let_def)
  have d: "distinct (map pd_pid ?F)" "distinct (map pd_pid ?C)" using assms(1) by (simp_all add: closing_def)
  have "entry_ok None (missing ?C p)" using assms(1,3) by (metis closing_def)
  then have C: "missing ?C p = None" by simp
  note M = missing_snoc[of ?F ?x] missing_snoc[of ?C ?x]
  have "closing ?s"
    by (rule closing_upd[OF assms(1), where p = p and x = "Some (u, int (length ?ns))" and y = "Some (u, int (length ?ns))"])
      (use M C assms(3) d in \<open>simp_all add: missing_None\<close>)
  moreover have "ready vms dc ?s"
    using assms(2,4,6-9) M(1) assms(3) by (auto simp: ready_def one_vm_def)
  moreover have "unlinked q ?s = unlinked q s" for q by (simp add: unlinked_def filter_map comp_def)
  ultimately show ?thesis
    using run M C assms(3) by (auto simp: owner_def files_left_def connections_left_def)
qed

definition vms_example :: "int \<Rightarrow> vm_info" where
  "vms_example p = \<lparr>v_uid = 3, v_type = ''small'', v_setName = ''compute'', v_nodeName = 0, v_processes = 0,
     v_machine = \<lparr>m_id = p, m_ip = [], m_on = True, m_type = \<lparr>et_name = ''small'', memoryTotal = 1, storageTotal = 1,
       et_numCores = 1, numStorageDevices = 1, numNetIF = 1\<rparr>\<rparr>\<rparr>"

definition machine_example :: "int \<Rightarrow> string \<Rightarrow> machine" where
  "machine_example k n = \<lparr>m_id = k, m_ip = [], m_on = True, m_type = \<lparr>et_name = n, memoryTotal = 1, storageTotal = 1,
     et_numCores = 1, numStorageDevices = 1, numNetIF = 1\<rparr>\<rparr>"

definition centre_example :: data_centre where
  "centre_example = \<lparr>nodesMap = [\<lparr>machinesSet = [machine_example 30 ''compute''],
     hs_type = Some (m_type (machine_example 30 ''compute''))\<rparr>], storage_nodesMap = []\<rparr>"

text \<open>A user with the machines 7 and 8, of which 7 has its remote storage on the node 20.\<close>

definition cloud_example :: cloud where
  "cloud_example = \<lparr>pendingRemoteStorageDeletion = [], connectionsDeletion = [], reqPendingToDelete = [],
     cl_allocation = (case selectStorageNodes (\<lambda>m. True) 1 ''NFS'' (storage_req 7) two_nodes of
       Ok (_, al) \<Rightarrow> al | Fail _ \<Rightarrow> two_nodes),
     cl_users = [\<lparr>tn_id = 3, tn_machines = [\<lparr>machinesSet = [machine_example 7 ''small'', machine_example 8 ''small''],
         hs_type = Some (m_type (machine_example 7 ''small''))\<rparr>],
       pending_shutdown_requests = 1, wastedVMs = [], jobResources = [], pendingVmsAtStartup = 0,
       vms_waiting_remote_st = [], jobs_waiting = False, user_finalizing = False, tn_calls = []\<rparr>],
     cl_actions = []\<rparr>"

definition free_req :: request where
  "free_req = \<lparr>rq_id = 1, rq_operation = REQUEST_FREE_RESOURCES, timesEnqueue = 0, rq_state = 0, rq_uid = 3,
     rq_pid = 7, rq_spid = - 1, rq_ip = [], rq_kind = VmRequest [7] 0 []\<rparr>"

text \<open>
  C39: The shutdown of a virtual machine: the request asks its storage nodes and its own node, and however their
  answers arrive, mixed with those for other machines, and whatever the machines run meanwhile, the manager handles
  all of them.  When every node has answered for the files and for the connections, the machine is taken off its
  node, once, and its user does not have it any more, if it runs no process at the last answer; if it does, it
  stays on its node and with its user for good.  Before the last answer it stays too.
\<close>

lemma vm_shutdown_once:
  assumes "closing s" "ready vms dc s" "missing (pendingRemoteStorageDeletion s) p = None"
    and "vm_known vms dc u p (cl_users s)" "v_uid (vms p) = u"
    and "rq_kind r = VmRequest [p] con sel" "rq_operation r = REQUEST_FREE_RESOURCES" "rq_uid r = u" "rq_pid r = p"
    and "remoteShutdown (r\<lparr>rq_kind := VmRequest [p] 0 sel\<rparr>) (cl_allocation s) = Ok (nodes, al)"
  shows "\<exists>s1. request_shutdown_vm vms dc turnOff r s = Ok (r\<lparr>rq_kind := VmRequest [] con sel\<rparr>, [], s1) \<and>
    (\<forall>es. awaited s1 (map snd es) \<longrightarrow> (\<exists>s2. fold_res (arrive preloaded vms dc turnOff) es s1 = Ok s2 \<and>
      (if count_list (map snd es) (FilesDeleted u p) = length nodes + 1 \<and>
          count_list (map snd es) (ConnectionsClosed u p) = length nodes + 1 \<and> processes_at_last p es = 0
       then unlinked p s2 = unlinked p s + 1 \<and> \<not> filed u p (cl_users s2)
       else unlinked p s2 = unlinked p s \<and> filed u p (cl_users s2))))"
proof -
  from request_starts[OF assms] obtain s1 where s1: "request_shutdown_vm vms dc turnOff r s =
      Ok (r\<lparr>rq_kind := VmRequest [] con sel\<rparr>, [], s1)" "closing s1" "ready vms dc s1" "owner s1 p = u"
    "files_left s1 p = int (length nodes) + 1" "connections_left s1 p = int (length nodes) + 1"
    "unlinked p s1 = unlinked p s" "cl_users s1 = cl_users s" by blast
  have all: "shuts s1 es p \<longleftrightarrow> count_list (map snd es) (FilesDeleted u p) = length nodes + 1 \<and>
      count_list (map snd es) (ConnectionsClosed u p) = length nodes + 1 \<and> processes_at_last p es = 0" for es
    by (auto simp: shuts_def all_answered_def s1(4-6))
  have filed: "filed u p (cl_users s1)" using assms(4) by (simp add: vm_known_def s1(8))
  have "\<exists>s2. fold_res (arrive preloaded vms dc turnOff) es s1 = Ok s2 \<and>
      (if shuts s1 es p then unlinked p s2 = unlinked p s + 1 \<and> \<not> filed u p (cl_users s2)
       else unlinked p s2 = unlinked p s \<and> filed u p (cl_users s2))" if "awaited s1 (map snd es)" for es
  proof -
    from deliver_all[OF s1(2,3) that] obtain s2 where "fold_res (arrive preloaded vms dc turnOff) es s1 = Ok s2"
      "unlinked p s2 = unlinked p s1 + (if shuts s1 es p then 1 else 0)"
      "shuts s1 es p \<longrightarrow> \<not> filed (owner s1 p) p (cl_users s2)"
      "filed u p (cl_users s1) \<longrightarrow> filed u p (cl_users s2) \<or> shuts s1 es p" by blast
    then show ?thesis using s1(4,7) filed by auto
  qed
  with s1(1) show ?thesis unfolding all by blast
qed

text \<open>The answers for one machine, when nothing else is missing.\<close>

lemma awaited_one:
  assumes "set es \<subseteq> {FilesDeleted (owner s p) p, ConnectionsClosed (owner s p) p}"
    and "int (count_list es (FilesDeleted (owner s p) p)) \<le> files_left s p"
    and "int (count_list es (ConnectionsClosed (owner s p) p)) \<le> connections_left s p"
    and "\<forall>q. q \<noteq> p \<longrightarrow> files_left s q = 0 \<and> connections_left s q = 0"
  shows "awaited s es"
  unfolding awaited_def
proof
  fix q
  show "set (filter (of_machine q) es) \<subseteq> {FilesDeleted (owner s q) q, ConnectionsClosed (owner s q) q} \<and>
     int (count_list es (FilesDeleted (owner s q) q)) \<le> files_left s q \<and>
     int (count_list es (ConnectionsClosed (owner s q) q)) \<le> connections_left s q"
  proof (cases "q = p")
    case True
    then show ?thesis using assms by auto
  next
    case False
    then have "filter (of_machine q) es = []" "count_list es (FilesDeleted v q) = 0"
      "count_list es (ConnectionsClosed v q) = 0" for v
      using assms(1) by (auto simp: filter_empty_conv count_list_0_iff)
    then show ?thesis using False assms(4) by simp
  qed
qed

lemma cloud_example_ready: "closing cloud_example" "ready vms_example centre_example cloud_example"
proof -
  have e: "pendingRemoteStorageDeletion cloud_example = []" "connectionsDeletion cloud_example = []"
    "reqPendingToDelete cloud_example = []" by (simp_all add: cloud_example_def)
  then show "closing cloud_example" by (simp add: closing_def)
  have "users_ok vms_example (cl_users cloud_example)" by code_simp
  with e show "ready vms_example centre_example cloud_example" by (simp add: ready_def)
qed

text \<open>The same answers for an idle machine and for one that runs a process when the last one arrives.\<close>

definition answers_example :: "int \<Rightarrow> (int \<times> notification) list" where
  "answers_example n = [(1, ConnectionsClosed 3 7), (1, FilesDeleted 3 7), (0, FilesDeleted 3 7), (n, ConnectionsClosed 3 7)]"

lemma vm_shutdown_once_witness:
  "\<exists>s1 s2 s3. request_shutdown_vm vms_example centre_example True free_req cloud_example =
       Ok (free_req\<lparr>rq_kind := VmRequest [] 0 []\<rparr>, [], s1) \<and>
     fold_res (arrive (\<lambda>u p. Ok) vms_example centre_example True) (answers_example 0) s1 = Ok s2 \<and>
     unlinked 7 s2 = 1 \<and> \<not> filed 3 7 (cl_users s2) \<and>
     fold_res (arrive (\<lambda>u p. Ok) vms_example centre_example True) (answers_example 2) s1 = Ok s3 \<and>
     unlinked 7 s3 = 0 \<and> filed 3 7 (cl_users s3)"
proof -
  let ?run = "request_shutdown_vm vms_example centre_example True free_req cloud_example"
  let ?arrive = "arrive (\<lambda>u p. Ok) vms_example centre_example True"
  have "bind_res (remoteShutdown (free_req\<lparr>rq_kind := VmRequest [7] 0 []\<rparr>) (cl_allocation cloud_example))
    (\<lambda>(nodes, al). Ok (length nodes)) = Ok 1" by code_simp
  then obtain nodes al where n: "remoteShutdown (free_req\<lparr>rq_kind := VmRequest [7] 0 []\<rparr>) (cl_allocation cloud_example) =
    Ok (nodes, al)" "length nodes = 1" by (auto elim!: bind_res_OkE)
  have pre: "missing (pendingRemoteStorageDeletion cloud_example) 7 = None" by (simp add: cloud_example_def)
  have known: "vm_known vms_example centre_example 3 7 (cl_users cloud_example)" by code_simp
  have "v_uid (vms_example 7) = 3" "rq_kind free_req = VmRequest [7] 0 []" "rq_operation free_req = REQUEST_FREE_RESOURCES"
    "rq_uid free_req = 3" "rq_pid free_req = 7" by (simp_all add: vms_example_def free_req_def)
  from vm_shutdown_once[OF cloud_example_ready pre known this n(1), of True "\<lambda>u p. Ok", unfolded n(2)]
  obtain s1 where s1: "?run = Ok (free_req\<lparr>rq_kind := VmRequest [] 0 []\<rparr>, [], s1)"
    "\<And>es. awaited s1 (map snd es) \<Longrightarrow> \<exists>s2. fold_res ?arrive es s1 = Ok s2 \<and>
      (if count_list (map snd es) (FilesDeleted 3 7) = 1 + 1 \<and> count_list (map snd es) (ConnectionsClosed 3 7) = 1 + 1 \<and>
          processes_at_last 7 es = 0
       then unlinked 7 s2 = unlinked 7 cloud_example + 1 \<and> \<not> filed 3 7 (cl_users s2)
       else unlinked 7 s2 = unlinked 7 cloud_example \<and> filed 3 7 (cl_users s2))"
    by blast
  have "bind_res ?run (\<lambda>(_, _, s). Ok (pendingRemoteStorageDeletion s, connectionsDeletion s)) =
    Ok ([\<lparr>pd_uid = 3, pd_pid = 7, pd_quantity = 2\<rparr>], [\<lparr>pd_uid = 3, pd_pid = 7, pd_quantity = 2\<rparr>])" by code_simp
  then have l: "pendingRemoteStorageDeletion s1 = [\<lparr>pd_uid = 3, pd_pid = 7, pd_quantity = 2\<rparr>]"
    "connectionsDeletion s1 = [\<lparr>pd_uid = 3, pd_pid = 7, pd_quantity = 2\<rparr>]" by (simp_all add: s1(1))
  have "awaited s1 (map snd (answers_example k))" for k
    by (rule awaited_one[where p = 7]) (simp_all add: answers_example_def owner_def files_left_def connections_left_def l)
  note run = s1(2)[OF this]
  have "processes_at_last 7 (answers_example k) = k" for k by (simp add: processes_at_last_def answers_example_def)
  moreover have "unlinked 7 cloud_example = 0" by (simp add: unlinked_def cloud_example_def)
  ultimately show ?thesis using s1(1) run[of 0] run[of 2] by (auto simp: answers_example_def)
qed

end
