(* ===== verification/RequestTables.thy ===== *)
theory RequestTables imports Messages begin

text \<open>
  The table of requests that are split into subrequests (\<^verbatim>\<open>icancloud_Request\<close> and
  \<^verbatim>\<open>SplittingMessageSystem\<close> in \<^verbatim>\<open>src/src/Base/Messages/SMS\<close>).  An entry has a slot for every
  subrequest and counts the arrived ones.

  A message is its pointer.  The messages that have been deleted are in \<open>deleted\<close>: deleting or reading
  one of them is undefined.
\<close>

record split_request =
  sr_parent :: "int option"
  sr_slots :: "int option list"
  sr_arrived :: nat

record splitter =
  requestVector :: "split_request list"
  deleted :: "int list"

definition delete_message :: "int \<Rightarrow> splitter \<Rightarrow> splitter res" where
  "delete_message p s = (if p \<in> set (deleted s) then Fail Undefined else Ok (s\<lparr>deleted := p # deleted s\<rparr>))"

subsection \<open>One request\<close>

definition new_request :: "int \<Rightarrow> nat \<Rightarrow> split_request" where
  "new_request parent numSubReq = \<lparr>sr_parent = Some parent, sr_slots = replicate numSubReq None, sr_arrived = 0\<rparr>"

definition req_setSubRequest :: "int option \<Rightarrow> nat \<Rightarrow> split_request \<Rightarrow> split_request res" where
  "req_setSubRequest sub index r = (if index < length (sr_slots r)
     then Ok (r\<lparr>sr_slots := (sr_slots r)[index := sub]\<rparr>) else Fail (Thrown ''setSubRequest''))"

definition req_addSubRequest :: "int option \<Rightarrow> split_request \<Rightarrow> split_request" where
  "req_addSubRequest sub r = r\<lparr>sr_slots := sr_slots r @ [sub]\<rparr>"

text \<open>The cast of a pointer reads the message.\<close>

definition cast_message :: "int list \<Rightarrow> int \<Rightarrow> int res" where
  "cast_message gone p = (if p \<in> set gone then Fail Undefined else Ok p)"

definition req_getSubRequest :: "int list \<Rightarrow> nat \<Rightarrow> split_request \<Rightarrow> int option res" where
  "req_getSubRequest gone index r = (if index < length (sr_slots r)
     then (case sr_slots r ! index of None \<Rightarrow> Ok None | Some p \<Rightarrow> bind_res (cast_message gone p) (\<lambda>p. Ok (Some p)))
     else Fail (Thrown ''getSubRequest''))"

definition req_popSubRequest :: "int list \<Rightarrow> nat \<Rightarrow> split_request \<Rightarrow> (int option \<times> split_request) res" where
  "req_popSubRequest gone index r = (if index < length (sr_slots r)
     then (case sr_slots r ! index of
         None \<Rightarrow> Ok (None, r)
       | Some p \<Rightarrow> bind_res (cast_message gone p) (\<lambda>p. Ok (Some p, r\<lparr>sr_slots := (sr_slots r)[index := None]\<rparr>)))
     else Fail (Thrown ''getSubRequest''))"

text \<open>
  \<^verbatim>\<open>popNextSubRequest\<close> takes nothing out: it returns the first subrequest that is not a response, and
  the last one it looked at when all are.
\<close>

fun next_loop :: "(int \<Rightarrow> bool) \<Rightarrow> int list \<Rightarrow> int option list \<Rightarrow> int option \<Rightarrow> int option res" where
  "next_loop responded gone [] subRequest = Ok subRequest"
| "next_loop responded gone (None # xs) subRequest = next_loop responded gone xs subRequest"
| "next_loop responded gone (Some p # xs) subRequest = bind_res (cast_message gone p) (\<lambda>p.
     if \<not> responded p then Ok (Some p) else next_loop responded gone xs (Some p))"

definition req_popNextSubRequest :: "(int \<Rightarrow> bool) \<Rightarrow> int list \<Rightarrow> split_request \<Rightarrow> int option res" where
  "req_popNextSubRequest responded gone r = next_loop responded gone (sr_slots r) None"

definition req_arrivesAll :: "split_request \<Rightarrow> bool" where
  "req_arrivesAll r \<longleftrightarrow> sr_arrived r = length (sr_slots r)"

definition req_arrives :: "int \<Rightarrow> nat \<Rightarrow> split_request \<Rightarrow> split_request res" where
  "req_arrives sub index r = (if index < length (sr_slots r)
     then (let r = (if sr_slots r ! index = None then r\<lparr>sr_slots := (sr_slots r)[index := Some sub]\<rparr>
                    else r\<lparr>sr_slots := (sr_slots r)[index := None]\<rparr>)
           in Ok (r\<lparr>sr_arrived := sr_arrived r + 1\<rparr>))
     else Fail (Thrown ''arrivesSubRequest''))"

text \<open>Deleting the subrequests in the slots; the slots are empty afterwards.\<close>

fun delete_slots :: "int option list \<Rightarrow> splitter \<Rightarrow> splitter res" where
  "delete_slots [] s = Ok s"
| "delete_slots (None # xs) s = delete_slots xs s"
| "delete_slots (Some p # xs) s = bind_res (delete_message p s) (delete_slots xs)"

subsection \<open>The table\<close>

definition searchRequest :: "int \<Rightarrow> splitter \<Rightarrow> nat option" where
  "searchRequest request s = index_of (\<lambda>r. sr_parent r = Some request) (requestVector s)"

definition with_request :: "string \<Rightarrow> int \<Rightarrow> (split_request \<Rightarrow> 'a res) \<Rightarrow> splitter \<Rightarrow> 'a res" where
  "with_request opname request f s = (case searchRequest request s of
     None \<Rightarrow> Fail (Thrown opname) | Some i \<Rightarrow> f (requestVector s ! i))"

definition getNumberOfSubRequest :: "int \<Rightarrow> splitter \<Rightarrow> nat res" where
  "getNumberOfSubRequest request s = with_request ''getNumberOfSubRequest'' request (\<lambda>r. Ok (length (sr_slots r))) s"

definition arrivesAllSubRequest :: "int \<Rightarrow> splitter \<Rightarrow> bool res" where
  "arrivesAllSubRequest request s = with_request ''arrivesAllSubRequest'' request (\<lambda>r. Ok (req_arrivesAll r)) s"

definition addRequest :: "int \<Rightarrow> nat \<Rightarrow> splitter \<Rightarrow> splitter" where
  "addRequest request numSubRequests s = s\<lparr>requestVector := requestVector s @ [new_request request numSubRequests]\<rparr>"

definition removeRequest :: "int \<Rightarrow> splitter \<Rightarrow> splitter res" where
  "removeRequest request s = (case searchRequest request s of
     None \<Rightarrow> Fail (Thrown ''removeRequest'')
   | Some i \<Rightarrow> bind_res (delete_slots (sr_slots (requestVector s ! i)) s) (\<lambda>s.
       Ok (s\<lparr>requestVector := remove_at i (requestVector s)\<rparr>)))"

definition setSubRequest :: "int \<Rightarrow> int option \<Rightarrow> nat \<Rightarrow> splitter \<Rightarrow> splitter res" where
  "setSubRequest request sub index s = (case searchRequest request s of
     None \<Rightarrow> Fail (Thrown ''setSubRequest'')
   | Some i \<Rightarrow> bind_res (req_setSubRequest sub index (requestVector s ! i)) (\<lambda>r.
       Ok (s\<lparr>requestVector := (requestVector s)[i := r]\<rparr>)))"

definition popSubRequest :: "int \<Rightarrow> nat \<Rightarrow> splitter \<Rightarrow> (int option \<times> splitter) res" where
  "popSubRequest request index s = (case searchRequest request s of
     None \<Rightarrow> Ok (None, s)
   | Some i \<Rightarrow> bind_res (req_popSubRequest (deleted s) index (requestVector s ! i)) (\<lambda>(p, r).
       Ok (p, s\<lparr>requestVector := (requestVector s)[i := r]\<rparr>)))"

definition popNextSubRequest :: "(int \<Rightarrow> bool) \<Rightarrow> int \<Rightarrow> splitter \<Rightarrow> int option res" where
  "popNextSubRequest responded request s = (case searchRequest request s of
     None \<Rightarrow> Ok None
   | Some i \<Rightarrow> req_popNextSubRequest responded (deleted s) (requestVector s ! i))"

text \<open>
  \<^verbatim>\<open>arrivesSubRequest\<close>: the index is the last request of the trace of the subrequest; the subrequest is
  deleted, also when the slot has just been set to it.
\<close>

definition arrivesSubRequest :: "int \<Rightarrow> trace \<Rightarrow> int \<Rightarrow> splitter \<Rightarrow> splitter res" where
  "arrivesSubRequest sub tr parent s = bind_res (cast_message (deleted s) sub) (\<lambda>sub.
     case searchRequest parent s of
       None \<Rightarrow> Fail (Thrown ''arrivesSubRequest'')
     | Some i \<Rightarrow> bind_res (getCurrentRequest tr) (\<lambda>index.
         bind_res (req_arrives sub index (requestVector s ! i)) (\<lambda>r.
           delete_message sub (s\<lparr>requestVector := (requestVector s)[i := r]\<rparr>))))"

definition getNumberOfRequests :: "splitter \<Rightarrow> nat" where
  "getNumberOfRequests s = length (requestVector s)"

text \<open>
  \<^verbatim>\<open>arrivesRequiredBlocks\<close> of \<^verbatim>\<open>SMS_MainMemory\<close>: the subrequests but the last \<open>extraBlocks\<close> are there.
\<close>

fun required_loop :: "int list \<Rightarrow> nat \<Rightarrow> nat \<Rightarrow> split_request \<Rightarrow> bool res" where
  "required_loop gone 0 k r = Ok True"
| "required_loop gone (Suc n) k r = bind_res (req_getSubRequest gone k r) (\<lambda>p.
     if p = None then Ok False else required_loop gone n (Suc k) r)"

definition arrivesRequiredBlocks :: "int \<Rightarrow> nat \<Rightarrow> splitter \<Rightarrow> bool res" where
  "arrivesRequiredBlocks request extraBlocks s = (case searchRequest request s of
     None \<Rightarrow> Ok False
   | Some i \<Rightarrow> let r = requestVector s ! i
       in required_loop (deleted s) (length (sr_slots r) - extraBlocks) 0 r)"

text \<open>\<^verbatim>\<open>clear\<close> of the NFS and main memory splitters deletes the parents too; that of the others does not.\<close>

definition clear_request :: "split_request \<Rightarrow> splitter \<Rightarrow> splitter res" where
  "clear_request r s = bind_res (case sr_parent r of None \<Rightarrow> Ok s | Some p \<Rightarrow> delete_message p s) (delete_slots (sr_slots r))"

definition clear_with_parents :: "splitter \<Rightarrow> splitter res" where
  "clear_with_parents s = bind_res (fold_res clear_request (requestVector s) s) (\<lambda>s. Ok (s\<lparr>requestVector := []\<rparr>))"

definition clear_subs :: "splitter \<Rightarrow> splitter res" where
  "clear_subs s = bind_res (fold_res (\<lambda>r. delete_slots (sr_slots r)) (requestVector s) s) (\<lambda>s. Ok (s\<lparr>requestVector := []\<rparr>))"

section \<open>Arrivals\<close>

text \<open>The subrequests \<open>ks\<close> of a request arrive, in this order.\<close>

definition arrivals :: "(nat \<Rightarrow> int) \<Rightarrow> (nat \<Rightarrow> trace) \<Rightarrow> int \<Rightarrow> nat list \<Rightarrow> splitter \<Rightarrow> splitter res" where
  "arrivals sub tr parent ks s = fold_res (\<lambda>k. arrivesSubRequest (sub k) (tr k) parent) ks s"

definition flip_slot :: "(nat \<Rightarrow> int) \<Rightarrow> nat \<Rightarrow> int option list \<Rightarrow> int option list" where
  "flip_slot sub k xs = xs[k := (if xs ! k = None then Some (sub k) else None)]"

definition entry :: "nat \<Rightarrow> split_request \<Rightarrow> splitter \<Rightarrow> bool" where
  "entry i r s \<longleftrightarrow> i < length (requestVector s) \<and> requestVector s ! i = r \<and> searchRequest (the (sr_parent r)) s = Some i
     \<and> sr_parent r \<noteq> None"

lemma entry_update:
  assumes "entry i r s" "sr_parent r' = sr_parent r"
  shows "entry i r' (s\<lparr>requestVector := (requestVector s)[i := r'], deleted := d\<rparr>)"
  using assms by (auto simp: entry_def searchRequest_def index_of_Some nth_list_update)

lemma arrives_step:
  assumes "entry i r s" "sr_parent r = Some p" "k < length (sr_slots r)"
    and "getCurrentRequest t = Ok k" "q \<notin> set (deleted s)"
  shows "arrivesSubRequest q t p s = Ok (s\<lparr>requestVector := (requestVector s)[i :=
     r\<lparr>sr_slots := flip_slot (\<lambda>_. q) k (sr_slots r), sr_arrived := sr_arrived r + 1\<rparr>], deleted := q # deleted s\<rparr>)"
  using assms
  by (auto simp: arrivesSubRequest_def cast_message_def entry_def req_arrives_def Let_def flip_slot_def delete_message_def)

lemma arrivals_entry:
  assumes "entry i r s" "sr_parent r = Some p" "set ks \<subseteq> {..<length (sr_slots r)}"
    and "\<forall>k. getCurrentRequest (tr k) = Ok k" "distinct (map sub ks)" "sub ` set ks \<inter> set (deleted s) = {}"
  shows "\<exists>t. arrivals sub tr p ks s = Ok t \<and> length (requestVector t) = length (requestVector s) \<and>
     (\<forall>j. j \<noteq> i \<longrightarrow> requestVector t ! j = requestVector s ! j) \<and> set (deleted t) = sub ` set ks \<union> set (deleted s) \<and>
     entry i (r\<lparr>sr_slots := fold (flip_slot sub) ks (sr_slots r), sr_arrived := sr_arrived r + length ks\<rparr>) t"
  using assms
proof (induction ks arbitrary: r s)
  case Nil
  then show ?case by (auto simp: arrivals_def)
next
  case (Cons k ks)
  let ?r = "r\<lparr>sr_slots := flip_slot sub k (sr_slots r), sr_arrived := sr_arrived r + 1\<rparr>"
  let ?s = "s\<lparr>requestVector := (requestVector s)[i := ?r], deleted := sub k # deleted s\<rparr>"
  have "arrivesSubRequest (sub k) (tr k) p s = Ok ?s"
    using arrives_step[OF Cons.prems(1,2), of k "tr k" "sub k"] Cons.prems by (simp add: flip_slot_def)
  then have run: "arrivals sub tr p (k # ks) s = arrivals sub tr p ks ?s" by (simp add: arrivals_def)
  have e: "entry i ?r ?s" using entry_update[OF Cons.prems(1), of ?r] by simp
  have p: "sr_parent ?r = Some p" and ks: "set ks \<subseteq> {..<length (sr_slots ?r)}" and d: "distinct (map sub ks)"
    and g: "sub ` set ks \<inter> set (deleted ?s) = {}"
    using Cons.prems by (auto simp: flip_slot_def)
  obtain t where "arrivals sub tr p ks ?s = Ok t" "length (requestVector t) = length (requestVector ?s)"
      "\<forall>j. j \<noteq> i \<longrightarrow> requestVector t ! j = requestVector ?s ! j" "set (deleted t) = sub ` set ks \<union> set (deleted ?s)"
      "entry i (?r\<lparr>sr_slots := fold (flip_slot sub) ks (sr_slots ?r), sr_arrived := sr_arrived ?r + length ks\<rparr>) t"
    using Cons.IH[OF e p ks Cons.prems(4) d g] by blast
  then show ?case unfolding run by auto
qed

text \<open>After every subrequest has arrived once, the slots that were set are empty and the empty ones are set.\<close>

lemma flip_slots_length [simp]: "length (fold (flip_slot sub) ks xs) = length xs"
  by (induction ks arbitrary: xs) (simp_all add: flip_slot_def)

lemma flip_slots_nth:
  "distinct ks \<Longrightarrow> j < length xs \<Longrightarrow> fold (flip_slot sub) ks xs ! j =
     (if j \<in> set ks then (if xs ! j = None then Some (sub j) else None) else xs ! j)"
proof (induction ks arbitrary: xs)
  case (Cons k ks)
  then show ?case by (cases "j = k") (auto simp: flip_slot_def)
qed simp

lemma delete_slots_none: "set xs \<subseteq> {None} \<Longrightarrow> delete_slots xs s = Ok s"
  by (induction xs) auto

lemma delete_slots_twice:
  "Some q \<in> set xs \<Longrightarrow> set xs \<subseteq> insert None (Some ` set (deleted s)) \<Longrightarrow> delete_slots xs s = Fail Undefined"
  by (induction xs s rule: delete_slots.induct) (auto simp: delete_message_def)

lemma remove_at_eq:
  assumes "length xs = length ys" "\<forall>j. j \<noteq> i \<longrightarrow> xs ! j = ys ! j"
  shows "remove_at i xs = remove_at i ys"
proof -
  have "take i xs = take i ys" using assms by (auto intro: nth_equalityI)
  moreover have "drop (Suc i) xs = drop (Suc i) ys" using assms by (auto intro: nth_equalityI)
  ultimately show ?thesis by (simp add: remove_at_def)
qed

lemma removeRequest_entry:
  assumes "entry i r s" "sr_parent r = Some p"
  shows "removeRequest p s = bind_res (delete_slots (sr_slots r) s) (\<lambda>s.
       Ok (s\<lparr>requestVector := remove_at i (requestVector s)\<rparr>))"
  using assms by (auto simp: removeRequest_def entry_def)

text \<open>
  the subrequests of a request arrive once each, in any order.  Then the request is complete.  If
  some slot was empty before, removing the request deletes a subrequest a second time; if every slot was
  set, the request is taken off the table.
\<close>

theorem arrivals_then_removal:
  assumes "searchRequest p s = Some i" "requestVector s ! i = r" "sr_arrived r = 0"
    and "set ks = {..<length (sr_slots r)}" "distinct ks" "\<forall>k. getCurrentRequest (tr k) = Ok k"
    and "inj sub" "range sub \<inter> set (deleted s) = {}"
  shows "\<exists>t. arrivals sub tr p ks s = Ok t \<and> arrivesAllSubRequest p t = Ok True \<and>
     removeRequest p t = (if None \<in> set (sr_slots r) then Fail Undefined
       else Ok (t\<lparr>requestVector := remove_at i (requestVector s)\<rparr>))"
proof -
  let ?xs = "fold (flip_slot sub) ks (sr_slots r)"
  have e: "entry i r s" and p: "sr_parent r = Some p"
    using assms(1,2) by (auto simp: entry_def searchRequest_def index_of_Some)
  have len: "length ks = length (sr_slots r)" using assms(4,5) distinct_card[of ks] by simp
  have d: "distinct (map sub ks)" using assms(5) inj_on_subset[OF assms(7) subset_UNIV] by (simp add: distinct_map)
  have g: "sub ` set ks \<inter> set (deleted s) = {}" using assms(8) by auto
  obtain t where t: "arrivals sub tr p ks s = Ok t" "length (requestVector t) = length (requestVector s)"
      "\<forall>j. j \<noteq> i \<longrightarrow> requestVector t ! j = requestVector s ! j" "set (deleted t) = sub ` set ks \<union> set (deleted s)"
      "entry i (r\<lparr>sr_slots := ?xs, sr_arrived := length ks\<rparr>) t"
    using arrivals_entry[OF e p _ assms(6) d g] assms(3,4) by auto
  have all: "arrivesAllSubRequest p t = Ok True"
    using t(5) p len by (auto simp: arrivesAllSubRequest_def with_request_def entry_def req_arrivesAll_def)
  have rem: "removeRequest p t = bind_res (delete_slots ?xs t) (\<lambda>s. Ok (s\<lparr>requestVector := remove_at i (requestVector s)\<rparr>))"
    using removeRequest_entry[OF t(5), of p] p by simp
  have slot: "?xs ! j = (if sr_slots r ! j = None then Some (sub j) else None)" if "j < length (sr_slots r)" for j
    using flip_slots_nth[OF assms(5) that] assms(4) that by auto
  have "removeRequest p t = (if None \<in> set (sr_slots r) then Fail Undefined
       else Ok (t\<lparr>requestVector := remove_at i (requestVector s)\<rparr>))"
  proof (cases "None \<in> set (sr_slots r)")
    case True
    then obtain j where j: "j < length (sr_slots r)" "sr_slots r ! j = None" by (auto simp: in_set_conv_nth)
    with slot[of j] have "Some (sub j) \<in> set ?xs" by (auto simp: in_set_conv_nth)
    moreover have "set ?xs \<subseteq> insert None (Some ` set (deleted t))"
      using slot assms(4) t(4) by (auto simp: in_set_conv_nth split: if_splits)
    ultimately show ?thesis using True rem delete_slots_twice by simp
  next
    case False
    then have "sr_slots r ! j \<noteq> None" if "j < length (sr_slots r)" for j
      using that nth_mem[OF that] by metis
    with slot have "set ?xs \<subseteq> {None}" by (auto simp: in_set_conv_nth)
    with False rem delete_slots_none remove_at_eq[OF t(2,3)] show ?thesis by simp
  qed
  with t(1) all show ?thesis by blast
qed

end
