(* ===== verification/IoMessages.thy ===== *)
theory IoMessages imports Messages "HOL-Library.Word" begin

text \<open>
  Messages of applications for files (\<^verbatim>\<open>icancloud_App_IO_Message\<close> in \<^verbatim>\<open>src/src/Base/Messages\<close>).
  Offsets and sizes are \<^verbatim>\<open>unsigned int\<close>, words of 32 bits.
\<close>

type_synonym u32 = "32 word"

definition SM_OPEN_FILE :: int where "SM_OPEN_FILE = 10"
definition SM_CLOSE_FILE :: int where "SM_CLOSE_FILE = 11"
definition SM_READ_FILE :: int where "SM_READ_FILE = 12"
definition SM_WRITE_FILE :: int where "SM_WRITE_FILE = 13"
definition SM_CREATE_FILE :: int where "SM_CREATE_FILE = 14"
definition SM_DELETE_FILE :: int where "SM_DELETE_FILE = 15"
definition SM_SET_IOR :: int where "SM_SET_IOR = 411"
definition MSG_INITIAL_LENGTH :: int where "MSG_INITIAL_LENGTH = 1"

record io_msg =
  im_id :: int
  im_operation :: int
  im_response :: bool
  im_file :: string
  im_offset :: u32
  im_size :: u32
  im_length :: int
  im_connection :: int
  im_comm :: int
  im_nfs :: int
  im_trace :: trace
  im_parent :: "int option"

subsection \<open>The message\<close>

definition dup_io :: "int \<Rightarrow> io_msg \<Rightarrow> io_msg" where
  "dup_io i m = m\<lparr>im_id := i\<rparr>"

definition updateLength :: "io_msg \<Rightarrow> io_msg res" where
  "updateLength m = (let op = im_operation m; plain = m\<lparr>im_length := MSG_INITIAL_LENGTH\<rparr>;
       full = m\<lparr>im_length := MSG_INITIAL_LENGTH + uint (im_size m)\<rparr>
     in if \<not> im_response m then
          (if op = SM_READ_FILE then Ok plain else if op = SM_WRITE_FILE then Ok full
           else if op \<in> {SM_OPEN_FILE, SM_CLOSE_FILE, SM_CREATE_FILE, SM_DELETE_FILE, SM_SET_IOR} then Ok plain
           else Fail (Thrown ''updateLength''))
        else
          (if op = SM_READ_FILE then Ok full else if op = SM_WRITE_FILE then Ok plain
           else if op \<in> {SM_OPEN_FILE, SM_CLOSE_FILE, SM_CREATE_FILE, SM_DELETE_FILE} then Ok plain
           else Fail (Thrown ''updateLength'')))"

end
