(* ===== verification/RequestSplitting.thy ===== *)
theory RequestSplitting imports RequestTables IoMessages "HOL-Library.Signed_Division" begin

text \<open>
  The splitting of I/O requests (\<^verbatim>\<open>SMS_MainMemory\<close>, \<^verbatim>\<open>SMS_PFS\<close> and \<^verbatim>\<open>SMS_NFS\<close> in
  \<^verbatim>\<open>src/src/Base/Messages/SMS\<close>): a request for a range of a file becomes subrequests for the blocks of
  the memory, the stripes on the servers of a parallel file system, or the transfers of NFS.

  Most of the computation mixes \<^verbatim>\<open>int\<close> with \<^verbatim>\<open>unsigned int\<close>, which makes it unsigned; a sum of two
  \<^verbatim>\<open>int\<close> that does not fit is undefined.  The id of the \<open>k\<close>-th copy of a message is \<open>newId k\<close>.
\<close>

definition trace_request :: "nat \<Rightarrow> io_msg \<Rightarrow> io_msg res" where
  "trace_request k m = bind_res (addRequestToTrace k (im_trace m)) (\<lambda>t. Ok (m\<lparr>im_trace := t\<rparr>))"

text \<open>A copy for a part of the file.\<close>

definition part_of :: "int \<Rightarrow> nat \<Rightarrow> u32 \<Rightarrow> u32 \<Rightarrow> io_msg \<Rightarrow> io_msg res" where
  "part_of i k off sz m = bind_res (trace_request k (dup_io i m)) (\<lambda>c.
     updateLength (c\<lparr>im_parent := Some (im_id m), im_offset := off, im_size := sz\<rparr>))"

subsection \<open>C arithmetic\<close>

definition add_int :: "u32 \<Rightarrow> u32 \<Rightarrow> u32 res" where
  "add_int a b = (if - (2 ^ 31) \<le> sint a + sint b \<and> sint a + sint b < 2 ^ 31 then Ok (a + b) else Fail Undefined)"

definition abs_int :: "u32 \<Rightarrow> u32" where
  "abs_int a = (if sint a < 0 then - a else a)"

text \<open>\<^verbatim>\<open>abs\<close> of the least \<^verbatim>\<open>int\<close> does not fit.\<close>

definition abs_fits :: "u32 \<Rightarrow> bool" where
  "abs_fits a \<longleftrightarrow> sint a \<noteq> - (2 ^ 31)"

subsection \<open>Blocks of the main memory\<close>

definition bytes_in_first :: "u32 \<Rightarrow> u32 \<Rightarrow> u32 \<Rightarrow> u32" where
  "bytes_in_first memoryBlockSize offset requestSize =
     (if requestSize < memoryBlockSize - offset mod memoryBlockSize then requestSize
      else memoryBlockSize - offset mod memoryBlockSize)"

definition requested_blocks :: "u32 \<Rightarrow> u32 \<Rightarrow> u32 \<Rightarrow> u32" where
  "requested_blocks memoryBlockSize offset requestSize =
     (let rest = abs_int (requestSize - bytes_in_first memoryBlockSize offset requestSize)
      in if rest mod memoryBlockSize = 0 then rest div memoryBlockSize + 1 else rest div memoryBlockSize + 2)"

text \<open>The number of turns of a loop from 0 below an \<^verbatim>\<open>int\<close>.\<close>

definition turns :: "u32 \<Rightarrow> nat" where
  "turns n = nat (sint n)"

fun read_parts :: "(nat \<Rightarrow> int) \<Rightarrow> u32 \<Rightarrow> io_msg \<Rightarrow> nat \<Rightarrow> nat \<Rightarrow> u32 \<Rightarrow> io_msg list res" where
  "read_parts newId bs m 0 k currentOffset = Ok []"
| "read_parts newId bs m (Suc n) k currentOffset = bind_res (part_of (newId k) k currentOffset bs m) (\<lambda>c.
     bind_res (read_parts newId bs m n (Suc k) (currentOffset + bs)) (\<lambda>cs. Ok (c # cs)))"

fun write_parts :: "(nat \<Rightarrow> int) \<Rightarrow> u32 \<Rightarrow> io_msg \<Rightarrow> nat \<Rightarrow> nat \<Rightarrow> u32 \<Rightarrow> io_msg list res" where
  "write_parts newId bs m 0 k currentOffset = Ok []"
| "write_parts newId bs m (Suc n) k currentOffset =
     (let left = im_offset m + im_size m - currentOffset; currentSize = (if bs \<le> left then bs else left)
      in bind_res (part_of (newId k) k currentOffset currentSize m) (\<lambda>c.
         bind_res (add_int currentOffset currentSize) (\<lambda>next.
         bind_res (write_parts newId bs m n (Suc k) next) (\<lambda>cs. Ok (c # cs)))))"

text \<open>
  The subrequests are in the list of the splitter, in order; the slots of the request stay empty.  A
  message for memory becomes one subrequest and is left out here.
\<close>

definition memory_split ::
  "(nat \<Rightarrow> int) \<Rightarrow> u32 \<Rightarrow> u32 \<Rightarrow> io_msg \<Rightarrow> splitter \<Rightarrow> (io_msg list \<times> splitter) res" where
  "memory_split newId readAheadBlocks memoryBlockSize m s =
     (if memoryBlockSize = 0 \<or> \<not> abs_fits (im_size m - bytes_in_first memoryBlockSize (im_offset m) (im_size m))
      then Fail Undefined else
      let offset = im_offset m; requestSize = im_size m;
          bytesInFirstBlock = bytes_in_first memoryBlockSize offset requestSize;
          numRequestedBlocks = requested_blocks memoryBlockSize offset requestSize;
          firstRequestBlock = offset div memoryBlockSize
      in if im_operation m = SM_READ_FILE then
           let num = numRequestedBlocks + readAheadBlocks
           in bind_res (read_parts newId memoryBlockSize m (turns num) 0 (firstRequestBlock * memoryBlockSize)) (\<lambda>cs.
                Ok (cs, addRequest (im_id m) (unat num) s))
         else
           bind_res (part_of (newId 0) 0 offset bytesInFirstBlock m) (\<lambda>c.
           bind_res (add_int offset bytesInFirstBlock) (\<lambda>currentOffset.
           bind_res (write_parts newId memoryBlockSize m (turns numRequestedBlocks - 1) 1 currentOffset) (\<lambda>cs.
             Ok (c # cs, addRequest (im_id m) (unat numRequestedBlocks) s)))))"

subsection \<open>Stripes of a parallel file system\<close>

definition copy_for :: "int \<Rightarrow> nat \<Rightarrow> (io_msg \<Rightarrow> io_msg) \<Rightarrow> io_msg \<Rightarrow> io_msg res" where
  "copy_for i k f m = bind_res (updateLength (f ((dup_io i m)\<lparr>im_parent := Some (im_id m)\<rparr>))) (trace_request k)"

text \<open>A copy that reads or writes the metadata on the server \<open>i\<close>, and a copy of the request for the server.\<close>

definition metadata_copy :: "int \<Rightarrow> int \<Rightarrow> nat \<Rightarrow> int \<Rightarrow> io_msg \<Rightarrow> io_msg" where
  "metadata_copy op i k comm c = c\<lparr>im_offset := 0, im_size := 1024, im_operation := op, im_connection := i, im_nfs := comm\<rparr>"

definition server_copy :: "int \<Rightarrow> int \<Rightarrow> io_msg \<Rightarrow> io_msg" where
  "server_copy i comm c = c\<lparr>im_connection := i, im_nfs := comm\<rparr>"

fun open_parts :: "(nat \<Rightarrow> int) \<Rightarrow> int \<Rightarrow> io_msg \<Rightarrow> nat \<Rightarrow> nat \<Rightarrow> io_msg list res" where
  "open_parts newId comm m 0 i = Ok []"
| "open_parts newId comm m (Suc n) i =
     bind_res (copy_for (newId i) i (metadata_copy SM_READ_FILE (int i) i comm) m) (\<lambda>c.
     bind_res (open_parts newId comm m n (Suc i)) (\<lambda>cs. Ok (c # cs)))"

fun create_parts :: "(nat \<Rightarrow> int) \<Rightarrow> int \<Rightarrow> nat \<Rightarrow> io_msg \<Rightarrow> nat \<Rightarrow> nat \<Rightarrow> io_msg list res" where
  "create_parts newId comm servers m 0 i = Ok []"
| "create_parts newId comm servers m (Suc n) i =
     bind_res (copy_for (newId (2 * i)) i (server_copy (int i) comm) m) (\<lambda>c.
     bind_res (copy_for (newId (2 * i + 1)) (i + servers) (metadata_copy SM_WRITE_FILE (int i) i comm) m) (\<lambda>d.
     bind_res (create_parts newId comm servers m n (Suc i)) (\<lambda>cs. Ok (c # d # cs))))"

fun delete_parts :: "(nat \<Rightarrow> int) \<Rightarrow> int \<Rightarrow> io_msg \<Rightarrow> nat \<Rightarrow> nat \<Rightarrow> io_msg list res" where
  "delete_parts newId comm m 0 i = Ok []"
| "delete_parts newId comm m (Suc n) i =
     bind_res (copy_for (newId i) i (server_copy (int i) comm) m) (\<lambda>c.
     bind_res (delete_parts newId comm m n (Suc i)) (\<lambda>cs. Ok (c # cs)))"

text \<open>
  \<^verbatim>\<open>requestSize\<close> is the length of the message, which for a read is \<^verbatim>\<open>MSG_INITIAL_LENGTH\<close> after
  \<^verbatim>\<open>updateLength\<close>; the number of stripes is set to 4.
\<close>

fun stripe_parts :: "(nat \<Rightarrow> int) \<Rightarrow> u32 \<Rightarrow> nat \<Rightarrow> io_msg \<Rightarrow> nat \<Rightarrow> nat \<Rightarrow> u32 \<Rightarrow> u32 \<Rightarrow> io_msg list res" where
  "stripe_parts newId strideSize servers m 0 i off left = Ok []"
| "stripe_parts newId strideSize servers m (Suc n) i off left =
     (let sz = (if strideSize \<le> left then strideSize else left); server = int (i mod servers)
      in bind_res (copy_for (newId i) i (\<lambda>c. c\<lparr>im_offset := off, im_size := sz, im_connection := server,
           im_comm := server, im_nfs := server\<rparr>) m) (\<lambda>c.
         bind_res (stripe_parts newId strideSize servers m n (Suc i) (off + sz) (left - sz)) (\<lambda>cs. Ok (c # cs))))"

text \<open>The copies are put into the slots of the request.\<close>

fun set_slots :: "int \<Rightarrow> nat \<Rightarrow> io_msg list \<Rightarrow> splitter \<Rightarrow> splitter res" where
  "set_slots request i [] s = Ok s"
| "set_slots request i (c # cs) s =
     bind_res (setSubRequest request (Some (im_id c)) i s) (set_slots request (Suc i) cs)"

definition pfs_split ::
  "(nat \<Rightarrow> int) \<Rightarrow> u32 \<Rightarrow> nat \<Rightarrow> int \<Rightarrow> io_msg \<Rightarrow> splitter \<Rightarrow> (io_msg list \<times> splitter) res" where
  "pfs_split newId strideSize numServers currentCommId m s =
     (let op = im_operation m in
      if op = SM_OPEN_FILE then
        bind_res (open_parts newId currentCommId m numServers 0) (\<lambda>cs. Ok (cs, addRequest (im_id m) numServers s))
      else if op = SM_CREATE_FILE then
        bind_res (create_parts newId currentCommId numServers m numServers 0) (\<lambda>cs.
          Ok (cs, addRequest (im_id m) (2 * numServers) s))
      else if op = SM_DELETE_FILE then
        bind_res (delete_parts newId currentCommId m numServers 0) (\<lambda>cs.
        bind_res (set_slots (im_id m) 0 cs (addRequest (im_id m) numServers s)) (\<lambda>s. Ok (cs, s)))
      else if op = SM_READ_FILE \<or> op = SM_WRITE_FILE then
        (if strideSize = 0 \<or> numServers = 0 then Fail Undefined else
         bind_res (stripe_parts newId strideSize numServers m 4 0 (im_offset m) (word_of_int (im_length m))) (\<lambda>cs.
         bind_res (set_slots (im_id m) 0 cs (addRequest (im_id m) 4 s)) (\<lambda>s. Ok (cs, s))))
      else Ok ([], s))"

subsection \<open>Transfers of NFS\<close>

definition SM_NFS2_OPEN_REQUEST :: int where "SM_NFS2_OPEN_REQUEST = 36"
definition SM_NFS2_CLOSE_REQUEST :: int where "SM_NFS2_CLOSE_REQUEST = 36"
definition SM_NFS2_READ_REQUEST :: int where "SM_NFS2_READ_REQUEST = 44"
definition SM_NFS2_WRITE_REQUEST :: int where "SM_NFS2_WRITE_REQUEST = 52"
definition SM_NFS2_CREATE_REQUEST :: int where "SM_NFS2_CREATE_REQUEST = 68"
definition SM_NFS2_DELETE_REQUEST :: int where "SM_NFS2_DELETE_REQUEST = 36"

definition nfs_transfer_size :: "int \<Rightarrow> int" where
  "nfs_transfer_size requestSize_KB = to_signed (to_unsigned (requestSize_KB * 1024))"

text \<open>Every part keeps the size of the whole request; only its offset and its length are its own.  The length
  of a packet must not be negative.\<close>

fun nfs_parts :: "(nat \<Rightarrow> int) \<Rightarrow> int \<Rightarrow> int \<Rightarrow> io_msg \<Rightarrow> nat \<Rightarrow> nat \<Rightarrow> int \<Rightarrow> int \<Rightarrow> io_msg list res" where
  "nfs_parts newId transfer requestSize m 0 k off done = Ok []"
| "nfs_parts newId transfer requestSize m (Suc n) k off done =
     (let sz = (if transfer \<le> requestSize - done then transfer else requestSize - done)
      in if sz < 0 then Fail (Thrown ''setByteLength'') else
         bind_res (checked_int (done + sz)) (\<lambda>done.
         bind_res (checked_int (off + sz)) (\<lambda>next.
         bind_res (trace_request k ((dup_io (newId k) m)\<lparr>im_parent := Some (im_id m), im_offset := word_of_int off,
             im_length := (if im_operation m = SM_READ_FILE then SM_NFS2_READ_REQUEST
               else SM_NFS2_WRITE_REQUEST + sz)\<rparr>)) (\<lambda>c.
         bind_res (nfs_parts newId transfer requestSize m n (Suc k) next done) (\<lambda>cs. Ok (c # cs))))))"

definition nfs_command_length :: "int \<Rightarrow> int" where
  "nfs_command_length op = (if op = SM_CREATE_FILE then SM_NFS2_CREATE_REQUEST
     else if op = SM_DELETE_FILE then SM_NFS2_DELETE_REQUEST
     else if op = SM_OPEN_FILE then SM_NFS2_OPEN_REQUEST else SM_NFS2_CLOSE_REQUEST)"

definition nfs_split ::
  "(nat \<Rightarrow> int) \<Rightarrow> int \<Rightarrow> io_msg \<Rightarrow> splitter \<Rightarrow> (io_msg list \<times> splitter) res" where
  "nfs_split newId requestSizeNFS m s =
     (let op = im_operation m; requestSize = to_signed (uint (im_size m)) in
      if op = SM_READ_FILE \<or> op = SM_WRITE_FILE then
        (if requestSizeNFS = 0 then Fail Undefined else
         let num = (if requestSize smod requestSizeNFS = 0 then requestSize sdiv requestSizeNFS
              else requestSize sdiv requestSizeNFS + 1)
         in bind_res (nfs_parts newId requestSizeNFS requestSize m (nat num) 0 (to_signed (uint (im_offset m))) 0) (\<lambda>cs.
            bind_res (set_slots (im_id m) 0 cs (addRequest (im_id m) (nat (to_unsigned num)) s)) (\<lambda>s. Ok (cs, s))))
      else if op \<in> {SM_CREATE_FILE, SM_DELETE_FILE, SM_OPEN_FILE, SM_CLOSE_FILE} then
        bind_res (trace_request 0 ((dup_io (newId 0) m)\<lparr>im_parent := Some (im_id m),
            im_length := nfs_command_length op\<rparr>)) (\<lambda>c.
        bind_res (set_slots (im_id m) 0 [c] (addRequest (im_id m) 1 s)) (\<lambda>s. Ok ([c], s)))
      else Ok ([], addRequest (im_id m) 1 s))"

section \<open>A write to memory is cut at the block boundaries\<close>

text \<open>The reference: the pieces of the range \<open>[o, o + n)\<close> between the multiples of \<open>b\<close>.\<close>

function pieces :: "nat \<Rightarrow> nat \<Rightarrow> nat \<Rightarrow> (nat \<times> nat) list" where
  "pieces b off n = (if n = 0 \<or> b = 0 then [] else
     let k = min n (b - off mod b) in (off, k) # pieces b (off + k) (n - k))"
  by pat_completeness auto
termination by (relation "measure (\<lambda>(b, off, n). n)") auto

declare pieces.simps [simp del]

lemma pieces_0 [simp]: "pieces b off 0 = []"
  by (simp add: pieces.simps)

lemma pieces_step:
  "0 < b \<Longrightarrow> 0 < n \<Longrightarrow> k = min n (b - off mod b) \<Longrightarrow> pieces b off n = (off, k) # pieces b (off + k) (n - k)"
  by (subst pieces.simps) (simp add: Let_def)

text \<open>The pieces are not empty, lie within a block, and are together the whole range.\<close>

lemma pieces_in_blocks:
  "0 < b \<Longrightarrow> (p, k) \<in> set (pieces b off n) \<Longrightarrow>
     0 < k \<and> off \<le> p \<and> p + k \<le> off + n \<and> p mod b + k \<le> b"
proof (induction b off n rule: pieces.induct)
  case (1 b off n)
  show ?case
  proof (cases "n = 0")
    case False
    let ?k = "min n (b - off mod b)"
    have k: "0 < ?k" "?k \<le> n" "off mod b + ?k \<le> b"
      using False 1(2) mod_less_divisor[OF 1(2), of off] by (auto simp: min_def)
    from pieces_step[OF 1(2), of n ?k off] False 1(3)
    consider "p = off" "k = ?k" | "(p, k) \<in> set (pieces b (off + ?k) (n - ?k))" by auto
    then show ?thesis
    proof cases
      case 2
      with 1(1)[of ?k] False 1(2) k show ?thesis by fastforce
    qed (use k in auto)
  qed (use 1(3) in simp)
qed

lemma pieces_sum: "0 < b \<Longrightarrow> sum_list (map snd (pieces b off n)) = n"
proof (induction b off n rule: pieces.induct)
  case (1 b off n)
  then show ?case
    by (cases "n = 0") (simp_all add: pieces_step[of b n "min n (b - off mod b)" off])
qed

definition range_of :: "io_msg \<Rightarrow> nat \<times> nat" where
  "range_of c = (unat (im_offset c), unat (im_size c))"

lemma trace_request_Ok:
  assumes "t \<noteq> []" "snd (last t) \<noteq> []" "im_trace m = t"
  shows "\<exists>t'. trace_request k m = Ok (m\<lparr>im_trace := t'\<rparr>) \<and> getCurrentRequest t' = Ok k"
proof -
  from assms obtain t' where t': "addRequestToTrace k t = Ok t'"
    by (auto simp: trace_defs)
  with assms(3) addRequest_current[OF t'] show ?thesis
    by (auto simp: trace_request_def)
qed

text \<open>What a part of a write is.\<close>

definition part_ok :: "(nat \<Rightarrow> int) \<Rightarrow> io_msg \<Rightarrow> nat \<Rightarrow> io_msg \<Rightarrow> bool" where
  "part_ok newId m k c \<longleftrightarrow> im_id c = newId k \<and> im_parent c = Some (im_id m) \<and> im_operation c = im_operation m \<and>
     getCurrentRequest (im_trace c) = Ok k"

lemma part_of_Ok:
  assumes "im_trace m \<noteq> []" "snd (last (im_trace m)) \<noteq> []" "im_operation m = SM_WRITE_FILE"
  shows "\<exists>c. part_of (newId k) k off sz m = Ok c \<and> part_ok newId m k c \<and> im_offset c = off \<and> im_size c = sz"
proof -
  from trace_request_Ok[OF assms(1,2), of "dup_io (newId k) m" k] obtain t'
    where "trace_request k (dup_io (newId k) m) = Ok ((dup_io (newId k) m)\<lparr>im_trace := t'\<rparr>)"
      and "getCurrentRequest t' = Ok k"
    by (auto simp: dup_io_def)
  with assms(3) show ?thesis
    by (auto simp: part_of_def part_ok_def updateLength_def Let_def dup_io_def SM_WRITE_FILE_def SM_READ_FILE_def)
qed

lemma sint_small: "n < 2 ^ 31 \<Longrightarrow> sint (word_of_nat n :: u32) = int n"
  by (simp add: signed_of_nat signed_take_bit_int_eq_self)

lemma unat_small: "n < 2 ^ 32 \<Longrightarrow> unat (word_of_nat n :: u32) = n"
  by (simp add: unat_of_nat)

lemma add_int_small: "a + b < 2 ^ 31 \<Longrightarrow> add_int (word_of_nat a) (word_of_nat b) = Ok (word_of_nat (a + b))"
  by (simp add: add_int_def sint_small)

text \<open>The number of blocks of \<open>n\<close> bytes.\<close>

definition ceil_div :: "nat \<Rightarrow> nat \<Rightarrow> nat" where
  "ceil_div n b = (if n mod b = 0 then n div b else n div b + 1)"

lemma ceil_div_0 [simp]: "ceil_div 0 b = 0"
  by (simp add: ceil_div_def)

lemma ceil_div_step: "0 < b \<Longrightarrow> b \<le> n \<Longrightarrow> ceil_div n b = Suc (ceil_div (n - b) b)"
  by (simp add: ceil_div_def le_div_geq le_mod_geq)

lemma ceil_div_last: "0 < n \<Longrightarrow> n < b \<Longrightarrow> ceil_div n b = 1"
  by (simp add: ceil_div_def)

lemma write_parts_pieces:
  assumes tr: "im_trace m \<noteq> []" "snd (last (im_trace m)) \<noteq> []" and op: "im_operation m = SM_WRITE_FILE"
    and b: "0 < b" "b < 2 ^ 32"
    and e: "im_offset m + im_size m = word_of_nat e" "e < 2 ^ 31"
    and on: "p + n = e" "n = 0 \<or> p mod b = 0"
  shows "\<exists>cs. write_parts newId (word_of_nat b) m (ceil_div n b) k (word_of_nat p) = Ok cs \<and>
     map range_of cs = pieces b p n \<and> (\<forall>j<length cs. part_ok newId m (k + j) (cs ! j))"
  using on
proof (induction n arbitrary: p k rule: less_induct)
  case (less n)
  show ?case
  proof (cases "n = 0")
    case True
    then show ?thesis by simp
  next
    case False
    define c where "c = min n b"
    have c: "0 < c" "c \<le> n" "p + c < 2 ^ 31" using False b less.prems e(2) by (auto simp: c_def)
    have left: "im_offset m + im_size m - word_of_nat p = (word_of_nat n :: u32)"
      unfolding e(1) less.prems(1)[symmetric] by simp
    have n32: "n < 2 ^ 32" using less.prems(1) e(2) by simp
    have sz: "(if (word_of_nat b :: u32) \<le> word_of_nat n then word_of_nat b else word_of_nat n) = (word_of_nat c :: u32)"
      using b n32 by (auto simp: c_def word_le_nat_alt unat_small)
    have turn: "ceil_div n b = Suc (ceil_div (n - c) b)"
      using False b ceil_div_step[of b n] ceil_div_last[of n b] by (cases "b \<le> n") (auto simp: c_def)
    have "n - c = 0 \<or> (p + c) mod b = 0" using False less.prems(2) by (auto simp: c_def min_def)
    then obtain cs where cs: "write_parts newId (word_of_nat b) m (ceil_div (n - c) b) (Suc k) (word_of_nat (p + c)) = Ok cs"
        "map range_of cs = pieces b (p + c) (n - c)" "\<forall>j<length cs. part_ok newId m (Suc k + j) (cs ! j)"
      using less.IH[of "n - c" "p + c" "Suc k"] c less.prems(1) by auto
    from part_of_Ok[OF tr op, of newId k "word_of_nat p" "word_of_nat c"] obtain h
      where h: "part_of (newId k) k (word_of_nat p) (word_of_nat c) m = Ok h" "part_ok newId m k h"
        "im_offset h = word_of_nat p" "im_size h = word_of_nat c" by auto
    have "c = min n (b - p mod b)" using False less.prems(2) by (simp add: c_def)
    then have "map range_of (h # cs) = pieces b p n"
      using pieces_step[of b n c p] False b(1) cs(2) h(3,4) c by (simp add: range_of_def unat_small)
    moreover have "write_parts newId (word_of_nat b) m (ceil_div n b) k (word_of_nat p) = Ok (h # cs)"
      using h(1) cs(1) add_int_small[OF c(3)] by (simp add: turn left sz Let_def)
    moreover have "\<forall>j<length (h # cs). part_ok newId m (k + j) ((h # cs) ! j)"
      using h(2) cs(3) by (simp add: All_less_Suc2)
    ultimately show ?thesis by blast
  qed
qed

lemma write_parts_length: "write_parts newId bs m t k p = Ok cs \<Longrightarrow> length cs = t"
  by (induction t arbitrary: k p cs) (auto simp: Let_def elim!: bind_res_OkE)

lemma ceil_div_le: "0 < b \<Longrightarrow> ceil_div n b \<le> n"
proof (cases "b = 1 \<or> n = 0")
  case False
  assume "0 < b"
  with False have "n div b < n" by simp
  then show ?thesis by (simp add: ceil_div_def)
qed (auto simp: ceil_div_def)

definition first_piece :: "nat \<Rightarrow> nat \<Rightarrow> nat \<Rightarrow> nat" where
  "first_piece b off n = min n (b - off mod b)"

lemma first_piece_boundary:
  assumes "0 < b"
  shows "n - first_piece b p n = 0 \<or> (p + first_piece b p n) mod b = 0"
proof (cases "n \<le> b - p mod b")
  case False
  have "p + (b - p mod b) = b * (p div b) + b"
    using mult_div_mod_eq[of b p] mod_less_divisor[OF assms, of p] by linarith
  then have "(p + (b - p mod b)) mod b = 0" by simp
  with False show ?thesis by (simp add: first_piece_def min_def)
qed (simp add: first_piece_def)

lemma bytes_in_first_unat:
  assumes "bs \<noteq> 0"
  shows "unat (bytes_in_first bs off sz) = first_piece (unat bs) (unat off) (unat sz)"
proof -
  have "0 < unat bs" using assms by (simp add: unat_gt_0)
  then have "unat (off mod bs) \<le> unat bs" by (simp add: unat_mod order.strict_implies_order)
  then have "unat (bs - off mod bs) = unat bs - unat off mod unat bs"
    by (simp add: unat_sub word_le_nat_alt unat_mod)
  then show ?thesis by (simp add: bytes_in_first_def first_piece_def word_less_nat_alt)
qed

lemma sint_of_unat: "unat (x :: u32) < 2 ^ 31 \<Longrightarrow> sint x = int (unat x)"
  using sint_small[of "unat x"] by simp

text \<open>The count of blocks, for requests below \<open>2 ^ 31\<close>.\<close>

lemma requested_blocks_unat:
  fixes bs off sz :: u32
  assumes bs: "bs \<noteq> 0" and sz: "unat sz < 2 ^ 31" "sz \<noteq> 0"
  defines "f \<equiv> first_piece (unat bs) (unat off) (unat sz)"
  shows "unat (requested_blocks bs off sz) = Suc (ceil_div (unat sz - f) (unat bs))" (is "?num = Suc ?c")
    and "turns (requested_blocks bs off sz) = Suc (ceil_div (unat sz - f) (unat bs))"
    and "abs_fits (sz - bytes_in_first bs off sz)"
proof -
  have b: "0 < unat bs" using bs by (simp add: unat_gt_0)
  have n: "0 < unat sz" using sz(2) by (simp add: unat_gt_0)
  have f: "f \<le> unat sz" "0 < f" using b n by (auto simp: f_def first_piece_def)
  let ?r = "sz - bytes_in_first bs off sz"
  have r: "unat ?r = unat sz - f"
    using f(1) by (simp add: unat_sub word_le_nat_alt bytes_in_first_unat[OF bs] f_def)
  have r31: "unat ?r < 2 ^ 31" using r sz(1) by simp
  then have abs: "abs_int ?r = ?r" by (simp add: abs_int_def sint_of_unat)
  have "0 \<le> sint ?r" unfolding sint_of_unat[OF r31] by (rule of_nat_0_le_iff)
  then show "abs_fits ?r" by (simp add: abs_fits_def)
  have c: "Suc ?c < 2 ^ 31" using ceil_div_le[OF b, of "unat sz - f"] f sz(1) by simp
  have z: "(?r mod bs = 0) = ((unat sz - f) mod unat bs = 0)"
    by (simp add: unat_eq_0[symmetric] unat_mod r)
  have d: "unat (?r div bs) = (unat sz - f) div unat bs" by (simp add: unat_div r)
  have "requested_blocks bs off sz = word_of_nat (Suc ?c)"
    using z d[symmetric] by (simp add: requested_blocks_def Let_def abs ceil_div_def)
  then show "?num = Suc ?c" "turns (requested_blocks bs off sz) = Suc ?c"
    using c unat_small[of "Suc ?c"] sint_small[of "Suc ?c"] by (simp_all add: turns_def del: of_nat_Suc)
qed

text \<open>
  C22: a write of the main memory is cut into exactly the pieces of its range between the block
  boundaries, in order; the request gets a slot for every piece, the pieces are numbered, and each
  knows its parent.
\<close>

theorem memory_write_split:
  assumes "im_operation m = SM_WRITE_FILE" "im_trace m \<noteq> []" "snd (last (im_trace m)) \<noteq> []"
    and "bs \<noteq> 0" "im_size m \<noteq> 0" "unat (im_offset m) + unat (im_size m) < 2 ^ 31"
  shows "\<exists>cs. memory_split newId ahead bs m s = Ok (cs, addRequest (im_id m) (length cs) s) \<and>
     map range_of cs = pieces (unat bs) (unat (im_offset m)) (unat (im_size m)) \<and>
     (\<forall>k<length cs. part_ok newId m k (cs ! k))"
proof -
  let ?o = "unat (im_offset m)" and ?n = "unat (im_size m)" and ?b = "unat bs"
  define f where "f = first_piece ?b ?o ?n"
  have b: "0 < ?b" "?b < 2 ^ 32" and n: "0 < ?n" "?n < 2 ^ 31"
    using assms(4-6) unsigned_less[of bs] by (auto simp: unat_gt_0)
  have f: "0 < f" "f \<le> ?n" "?o + f < 2 ^ 31" using b(1) n assms(6) by (auto simp: f_def first_piece_def)
  have u: "f = unat (bytes_in_first bs (im_offset m) (im_size m))"
    by (simp add: f_def bytes_in_first_unat[OF assms(4)])
  have F: "bytes_in_first bs (im_offset m) (im_size m) = word_of_nat f"
    unfolding u by simp
  note rb = requested_blocks_unat[OF assms(4) n(2) assms(5), of "im_offset m", folded f_def]
  have "?n - f = 0 \<or> (?o + f) mod ?b = 0"
    unfolding f_def by (rule first_piece_boundary[OF b(1)])
  moreover have "im_offset m + im_size m = (word_of_nat (?o + ?n) :: u32)" by simp
  ultimately obtain cs where cs:
      "write_parts newId bs m (ceil_div (?n - f) ?b) 1 (word_of_nat (?o + f)) = Ok cs"
      "map range_of cs = pieces ?b (?o + f) (?n - f)" "\<forall>j<length cs. part_ok newId m (1 + j) (cs ! j)"
    using write_parts_pieces[OF assms(2,3,1) b, of "?o + ?n" "?o + f" "?n - f" newId 1] f assms(6) by auto
  from part_of_Ok[OF assms(2,3,1), of newId 0 "im_offset m" "word_of_nat f"] obtain h
    where h: "part_of (newId 0) 0 (im_offset m) (word_of_nat f) m = Ok h" "part_ok newId m 0 h"
      "im_offset h = im_offset m" "im_size h = word_of_nat f" by auto
  have len: "length cs = ceil_div (?n - f) ?b" using write_parts_length[OF cs(1)] .
  have ad: "add_int (im_offset m) (word_of_nat f) = Ok (word_of_nat (?o + f))"
    using add_int_small[OF f(3)] by simp
  have "memory_split newId ahead bs m s = Ok (h # cs, addRequest (im_id m) (length (h # cs)) s)"
    using h(1) cs(1) assms(1,4) rb ad
    by (simp add: memory_split_def Let_def F len SM_WRITE_FILE_def SM_READ_FILE_def)
  moreover have "map range_of (h # cs) = pieces ?b ?o ?n"
    using pieces_step[OF b(1) n(1) f_def[unfolded first_piece_def]] cs(2) h(3,4) f n
    by (simp add: range_of_def unat_small)
  moreover have "\<forall>k<length (h # cs). part_ok newId m k ((h # cs) ! k)"
    using h(2) cs(3) by (simp add: All_less_Suc2)
  ultimately show ?thesis by blast
qed

text \<open>A write of 10 bytes from offset 3 on blocks of 4 bytes.\<close>

definition example_write :: io_msg where
  "example_write = \<lparr>im_id = 7, im_operation = SM_WRITE_FILE, im_response = False, im_file = ''f'', im_offset = 3, im_size = 10,
     im_length = 11, im_connection = 0, im_comm = 0, im_nfs = 0,
     im_trace = [(''n'', [\<lparr>moduleID = 1, gateID = 2, reqSequence = []\<rparr>])], im_parent = None\<rparr>"

lemma memory_write_split_witness:
  "\<exists>cs. memory_split int 0 4 example_write \<lparr>requestVector = [], deleted = []\<rparr> =
     Ok (cs, addRequest 7 4 \<lparr>requestVector = [], deleted = []\<rparr>) \<and>
     map range_of cs = [(3, 1), (4, 4), (8, 4), (12, 1)]"
proof -
  have p: "pieces 4 3 10 = [(3, 1), (4, 4), (8, 4), (12, 1)]" by code_simp
  have "\<exists>cs. memory_split int 0 4 example_write \<lparr>requestVector = [], deleted = []\<rparr> =
     Ok (cs, addRequest (im_id example_write) (length cs) \<lparr>requestVector = [], deleted = []\<rparr>) \<and>
     map range_of cs = pieces (unat (4 :: u32)) (unat (im_offset example_write)) (unat (im_size example_write)) \<and>
     (\<forall>k<length cs. part_ok int example_write k (cs ! k))"
    by (rule memory_write_split) (simp_all add: example_write_def)
  then obtain cs where "memory_split int 0 4 example_write \<lparr>requestVector = [], deleted = []\<rparr> =
     Ok (cs, addRequest 7 (length cs) \<lparr>requestVector = [], deleted = []\<rparr>)"
     and c: "map range_of cs = [(3, 1), (4, 4), (8, 4), (12, 1)]"
    by (auto simp: p example_write_def)
  moreover have "length cs = 4" using arg_cong[OF c, of length] by simp
  ultimately show ?thesis by auto
qed

end
