(* ===== verification/Scenarios.thy ===== *)
theory Scenarios imports AppLinks CpuSchedulers NetworkManager PortTranslation MachinesMap JobQueues HypervisorMemory HypervisorCpu VmShutdown RequestSplitting begin

text \<open>
  Concrete messages, module states and input sequences on which the hypotheses of the
  properties hold; they are evaluated in the kernel.
\<close>

definition sc_trace :: trace where
  "sc_trace = [(''node'', [\<lparr>moduleID = 1, gateID = 7, reqSequence = [0]\<rparr>])]"

definition sc_message :: "int \<Rightarrow> payload \<Rightarrow> int \<Rightarrow> bool \<Rightarrow> string \<times> nat \<Rightarrow> message" where
  "sc_message i p op r g = \<lparr>msg_id = i, payload = p, operation = op, isResponse = r,
     remoteOperation = False, connectionId = -1, commId = -1, nextModuleIndex = 0, result_code = 0,
     uid = -1, pid = -1, arrival = g, msg_trace = sc_trace,
     parentRequest = None, changing_state = '''', change_states_index = []\<rparr>"

definition sc_og :: "message \<Rightarrow> int option" where "sc_og m = None"

definition sc_gate_id :: "gate \<Rightarrow> int" where
  "sc_gate_id g = int (snd g)"

definition sc_cpu :: payload where
  "sc_cpu = CpuPayload \<lparr>cpuTime = 0, totalMIs = 0, remainingMIs = 0, quantum = 0\<rparr>"

definition sc_net :: payload where
  "sc_net = NetPayload \<lparr>destinationIP = ''10.0.0.1'', localIP = ''10.0.0.2'', destinationPort = 80,
     localPort = 81, virtual_destinationIP = '''', virtual_localIP = '''', virtual_user = -1,
     virtual_destinationPort = 0, virtual_localPort = 0, migration_part = None\<rparr>"

subsection \<open>A virtual machine with one application\<close>

definition sc_vm :: msg_controller where
  "sc_vm = (case link_managers (''fromOS'', 0) (''toOS'', 0) (''c'', 0) (''d'', 0)
                   (vm_initialize 5 ''host'') of
     Ok s \<Rightarrow> s | Fail e \<Rightarrow> vm_initialize 5 ''host'')"

definition sc_ask :: "int \<Rightarrow> input" where
  "sc_ask i = Incoming (sc_message i sc_cpu 1 False (''fromApps'', 0))"

definition sc_answer :: "int \<Rightarrow> input" where
  "sc_answer i = Incoming (sc_message i sc_cpu 1 True (''fromOSApps'', 0))"

definition sc_stop :: input where
  "sc_stop = Incoming (sc_message 100 sc_net SM_STOP_AND_DOWN_VM False (''fromOSApps'', 0))"

definition sc_activation :: message where
  "sc_activation = sc_message 101 sc_net SM_VM_ACTIVATION False (''fromOSApps'', 0)"

definition sc_blocked_vm :: msg_controller where
  "sc_blocked_vm = (case fold_res (vm_handleMessage sc_og) [sc_ask 1, sc_stop] sc_vm of
     Ok s \<Rightarrow> s | Fail e \<Rightarrow> sc_vm)"

subsection \<open>A blocked container daemon\<close>

definition sc_daemon :: docker_daemon where
  "sc_daemon = (case linkNewContainer (''fromOS'', 0) (''toOS'', 0) (''c'', 0) (''d'', 0)
                   (dd_initialize 6 ''host'') of
     Ok s \<Rightarrow> s | Fail e \<Rightarrow> dd_initialize 6 ''host'')"

definition sc_dd_stop :: input where
  "sc_dd_stop = Incoming (sc_message 100 sc_net SM_STOP_AND_DOWN_CONTAINER False (''fromOSApps'', 0))"

definition sc_blocked_daemon :: docker_daemon where
  "sc_blocked_daemon = (case fold_res (dd_handleMessage sc_og) [sc_ask 1, sc_dd_stop] sc_daemon of
     Ok s \<Rightarrow> s | Fail e \<Rightarrow> sc_daemon)"

subsection \<open>Schedulers\<close>

definition sc_sched :: cpu_scheduler where
  "sc_sched = sched_init (base_initialize 9 ''host'') 1 3"

definition sc_sched_inputs :: "input list" where
  "sc_sched_inputs = [sc_ask 1, sc_ask 2, sc_answer 1]"

subsection \<open>Virtual addresses and ports\<close>

definition sc_basis :: virtual_ip where
  "sc_basis = \<lparr>first = 10, second = 0, third = 0, fourth = 0\<rparr>"

definition sc_cloud :: network_manager where
  "sc_cloud = createNewUser 3 (setIPBasis ''10.0.0.0'' nm_initialize)"

definition sc_cloud_one :: network_manager where
  "sc_cloud_one = (case allocateVirtualIP ''192.168.0.1'' 3 7 sc_cloud of
     Ok (v, nm) \<Rightarrow> nm | Fail e \<Rightarrow> sc_cloud)"

definition sc_nodes :: network_manager where
  "sc_nodes = (case fold_res registerNode [''10.0.0.1'', ''10.0.0.2'', ''10.0.0.3''] nm_initialize of
     Ok nm \<Rightarrow> nm | Fail e \<Rightarrow> nm_initialize)"

definition sc_nodes_port :: network_manager where
  "sc_nodes_port = (case nm_registerPort 3 ''10.0.0.2'' 7 1024 80 0 sc_nodes of
     Ok nm \<Rightarrow> nm | Fail e \<Rightarrow> nm_initialize)"

subsection \<open>Port translation\<close>

definition sc_pat :: pat where
  "sc_pat = (case pat_createListen 3 7 80 pat_new of Ok (r, s) \<Rightarrow> s | Fail e \<Rightarrow> pat_new)"

definition sc_net_message :: "int \<Rightarrow> int \<Rightarrow> int \<Rightarrow> message" where
  "sc_net_message local dest conn = (sc_message 1 (NetPayload \<lparr>destinationIP = [], localIP = [],
     destinationPort = dest, localPort = local, virtual_destinationIP = [], virtual_localIP = [],
     virtual_user = -1, virtual_destinationPort = 0, virtual_localPort = 0, migration_part = None\<rparr>) 202 False (''fromApps'', 0))
     \<lparr>uid := 3, pid := 7, connectionId := conn\<rparr>"

definition sc_pat_connected :: pat where
  "sc_pat_connected = (case pat_connectionStablished (sc_net_message 2000 0 5) sc_pat of
     Ok (r, s) \<Rightarrow> s | Fail e \<Rightarrow> sc_pat)"

text \<open>Two connections of one machine through the same port.\<close>

definition sc_pat_twice :: pat where
  "sc_pat_twice = (case pat_connectionStablished (sc_net_message 2000 0 6) sc_pat_connected of
     Ok (r, s) \<Rightarrow> s | Fail e \<Rightarrow> sc_pat)"

end
