(* ===== verification/ApiOs.thy ===== *)
theory ApiOs imports IoMessages begin

text \<open>
  The calls of an application to its operating system (\<^verbatim>\<open>API_OS\<close> in
  \<^verbatim>\<open>src/src/Applications/Libraries_API/API_OS\<close>): every call makes a message and sends it through
  \<^verbatim>\<open>toOSGate\<close>.  The messages that have been sent are \<open>os_out\<close>, oldest first.

  The id of a listening connection is never set; it is the argument \<open>junk\<close>.
\<close>

definition SM_CPU_EXEC :: int where "SM_CPU_EXEC = 70"
definition SM_CREATE_CONNECTION :: int where "SM_CREATE_CONNECTION = 200"
definition SM_LISTEN_CONNECTION :: int where "SM_LISTEN_CONNECTION = 201"
definition SM_CHANGE_NET_STATE :: int where "SM_CHANGE_NET_STATE = 203"
definition EMPTY :: int where "EMPTY = -2"

record connection =
  cn_localAddress :: string
  cn_destAddress :: string
  cn_localPort :: int
  cn_destPort :: int
  cn_connectionType :: string
  cn_id :: int
  cn_connectionId :: int

text \<open>A message of MPI, with the fields that sending it over a connection sets.\<close>

record mpi_message =
  mm_operation :: nat
  mm_remote :: bool
  mm_length :: int
  mm_source :: nat
  mm_dest :: nat
  mm_size :: u32
  mm_file :: string
  mm_offset :: int
  mm_connection :: int
  mm_destIP :: string
  mm_destPort :: int
  mm_type :: string
  mm_localPort :: int
  mm_localIP :: string

text \<open>Messages to the operating system; the first field is the operation.\<close>

datatype os_msg =
    Io int string u32 u32 int
  | Cpu int u32 u32
  | CpuTime int rat
  | Mem int u32 u32
  | Change int string "int list"
  | Connect int string int string int int
  | Listen int int string "int option" int
  | Data mpi_message

record api_os =
  os_out :: "os_msg list"
  connections :: "connection list"

definition to_os :: "os_msg \<Rightarrow> 'a api_os_scheme \<Rightarrow> 'a api_os_scheme" where
  "to_os m s = s\<lparr>os_out := os_out s @ [m]\<rparr>"

subsection \<open>Files, CPU and memory\<close>

definition new_io :: "int \<Rightarrow> string \<Rightarrow> u32 \<Rightarrow> u32 \<Rightarrow> io_msg" where
  "new_io op file off sz = \<lparr>im_id = -1, im_operation = op, im_response = False, im_file = file, im_offset = off,
     im_size = sz, im_length = MSG_INITIAL_LENGTH, im_connection = -1, im_comm = -1, im_nfs = -1, im_trace = [],
     im_parent = None\<rparr>"

definition request_io :: "int \<Rightarrow> string \<Rightarrow> u32 \<Rightarrow> u32 \<Rightarrow> 'a api_os_scheme \<Rightarrow> 'a api_os_scheme res" where
  "request_io op file off sz s = bind_res (updateLength (new_io op file off sz)) (\<lambda>m.
     Ok (to_os (Io (im_operation m) (im_file m) (im_offset m) (im_size m) (im_length m)) s))"

definition request_open :: "string \<Rightarrow> 'a api_os_scheme \<Rightarrow> 'a api_os_scheme res" where
  "request_open file = request_io SM_OPEN_FILE file 0 0"

definition request_close :: "string \<Rightarrow> 'a api_os_scheme \<Rightarrow> 'a api_os_scheme res" where
  "request_close file = request_io SM_CLOSE_FILE file 0 0"

definition request_read :: "string \<Rightarrow> u32 \<Rightarrow> u32 \<Rightarrow> 'a api_os_scheme \<Rightarrow> 'a api_os_scheme res" where
  "request_read = request_io SM_READ_FILE"

definition request_write :: "string \<Rightarrow> u32 \<Rightarrow> u32 \<Rightarrow> 'a api_os_scheme \<Rightarrow> 'a api_os_scheme res" where
  "request_write = request_io SM_WRITE_FILE"

definition request_create :: "string \<Rightarrow> 'a api_os_scheme \<Rightarrow> 'a api_os_scheme res" where
  "request_create file = request_io SM_CREATE_FILE file 0 0"

definition request_delete :: "string \<Rightarrow> 'a api_os_scheme \<Rightarrow> 'a api_os_scheme res" where
  "request_delete file = request_io SM_DELETE_FILE file 0 0"

definition changeState_IO :: "string \<Rightarrow> int list \<Rightarrow> 'a api_os_scheme \<Rightarrow> 'a api_os_scheme" where
  "changeState_IO newState devices = to_os (Change SM_CHANGE_DISK_STATE newState devices)"

definition request_cpu :: "u32 \<Rightarrow> 'a api_os_scheme \<Rightarrow> 'a api_os_scheme" where
  "request_cpu MIs = to_os (Cpu SM_CPU_EXEC MIs MIs)"

text \<open>A request for a time of the simulation clock.\<close>

definition request_cpuTime :: "rat \<Rightarrow> 'a api_os_scheme \<Rightarrow> 'a api_os_scheme" where
  "request_cpuTime t = to_os (CpuTime SM_CPU_EXEC t)"

definition changeState_cpu :: "string \<Rightarrow> int list \<Rightarrow> 'a api_os_scheme \<Rightarrow> 'a api_os_scheme" where
  "changeState_cpu newState devices = to_os (Change SM_CHANGE_CPU_STATE newState devices)"

definition request_allocMemory :: "u32 \<Rightarrow> u32 \<Rightarrow> 'a api_os_scheme \<Rightarrow> 'a api_os_scheme" where
  "request_allocMemory memorySize region = to_os (Mem SM_MEM_ALLOCATE memorySize region)"

definition request_freeMemory :: "u32 \<Rightarrow> u32 \<Rightarrow> 'a api_os_scheme \<Rightarrow> 'a api_os_scheme" where
  "request_freeMemory memorySize region = to_os (Mem SM_MEM_RELEASE memorySize region)"

definition changeState_memory :: "string \<Rightarrow> 'a api_os_scheme \<Rightarrow> 'a api_os_scheme" where
  "changeState_memory newState = to_os (Change SM_CHANGE_MEMORY_STATE newState [])"

subsection \<open>Connections\<close>

definition createConnection_user :: "string \<Rightarrow> int \<Rightarrow> int \<Rightarrow> int \<Rightarrow> 'a api_os_scheme \<Rightarrow> 'a api_os_scheme" where
  "createConnection_user address port i destUserName s =
     to_os (Connect SM_CREATE_CONNECTION address port ''INET'' i destUserName)
       (s\<lparr>connections := connections s @ [\<lparr>cn_localAddress = ''Address not set yet!'', cn_destAddress = address, cn_localPort = 0,
            cn_destPort = port, cn_connectionType = ''INET'', cn_id = i, cn_connectionId = EMPTY\<rparr>]\<rparr>)"

definition createConnection :: "string \<Rightarrow> int \<Rightarrow> int \<Rightarrow> 'a api_os_scheme \<Rightarrow> 'a api_os_scheme" where
  "createConnection address port i = createConnection_user address port i (-1)"

definition listening :: "int \<Rightarrow> int \<Rightarrow> int \<Rightarrow> connection" where
  "listening junk lport i = \<lparr>cn_localAddress = ''Address not set yet!'', cn_destAddress = ''Address not set yet!'',
     cn_localPort = lport, cn_destPort = 0, cn_connectionType = ''INET'', cn_id = junk, cn_connectionId = i\<rparr>"

definition createListenConnection :: "int \<Rightarrow> int \<Rightarrow> int \<Rightarrow> 'a api_os_scheme \<Rightarrow> 'a api_os_scheme" where
  "createListenConnection junk parentIndex lport s =
     to_os (Listen SM_LISTEN_CONNECTION lport ''INET'' None parentIndex)
       (s\<lparr>connections := connections s @ [listening junk lport EMPTY]\<rparr>)"

definition closeConnection :: "int \<Rightarrow> int \<Rightarrow> int \<Rightarrow> int \<Rightarrow> 'a api_os_scheme \<Rightarrow> 'a api_os_scheme" where
  "closeConnection junk parentIndex lport i s =
     to_os (Listen SM_LISTEN_CONNECTION lport ''INET'' (Some i) parentIndex)
       (s\<lparr>connections := connections s @ [listening junk lport i]\<rparr>)"

definition searchConnectionById :: "int \<Rightarrow> 'a api_os_scheme \<Rightarrow> nat option" where
  "searchConnectionById i s = index_of (\<lambda>c. cn_id c = i) (connections s)"

definition over_connection :: "connection \<Rightarrow> mpi_message \<Rightarrow> mpi_message" where
  "over_connection c m = m\<lparr>mm_connection := cn_connectionId c, mm_destIP := cn_destAddress c, mm_destPort := cn_destPort c,
     mm_type := cn_connectionType c, mm_localPort := cn_localPort c, mm_localIP := cn_localAddress c\<rparr>"

definition sendDataToNetwork :: "mpi_message \<Rightarrow> int \<Rightarrow> 'a api_os_scheme \<Rightarrow> 'a api_os_scheme res" where
  "sendDataToNetwork m i s = (case searchConnectionById i s of
     None \<Rightarrow> Fail (Thrown ''showErrorMessage'')
   | Some index \<Rightarrow> Ok (to_os (Data (over_connection (connections s ! index) m)) s))"

text \<open>The answer to a connection request: the id of the connection, its local address and port.\<close>

definition setEstablishedConnection ::
  "int \<Rightarrow> int \<Rightarrow> string \<Rightarrow> int \<Rightarrow> 'a api_os_scheme \<Rightarrow> 'a api_os_scheme res" where
  "setEstablishedConnection comm connId ip port s = (case searchConnectionById comm s of
     None \<Rightarrow> Fail (Thrown ''showErrorMessage'')
   | Some index \<Rightarrow> Ok (s\<lparr>connections := (connections s)[index := (connections s ! index)
       \<lparr>cn_connectionId := connId, cn_localAddress := ip, cn_localPort := port\<rparr>]\<rparr>))"

definition changeState_network :: "string \<Rightarrow> int list \<Rightarrow> 'a api_os_scheme \<Rightarrow> 'a api_os_scheme" where
  "changeState_network newState devices = to_os (Change SM_CHANGE_NET_STATE newState devices)"

end
