(* ===== verification/MpiBase.thy ===== *)
theory MpiBase imports ApiOs begin

text \<open>
  The processes of an MPI application (\<^verbatim>\<open>MPI_Call\<close> and \<^verbatim>\<open>MPI_Base\<close> in
  \<^verbatim>\<open>src/src/Applications/Libraries_API/MPI_Base\<close>).  Ranks and numbers of processes are \<^verbatim>\<open>unsigned int\<close>
  far below their limit and are natural numbers here.

  \<^verbatim>\<open>continueExecution\<close> is a virtual function that every operation calls last, if it calls it at all.  An
  operation returns whether it does; the application goes on from there.  \<open>sameNode\<close> are the ranks that
  run on the node of the process, which the code finds among the submodules of its parent.
\<close>

definition MPI_ANY_SENDER :: nat where "MPI_ANY_SENDER = 4294967294"
definition MPI_NO_VALUE :: nat where "MPI_NO_VALUE = 999999999"
definition MPI_MASTER_RANK :: nat where "MPI_MASTER_RANK = 0"
definition MPI_SEND :: nat where "MPI_SEND = 100"
definition MPI_RECV :: nat where "MPI_RECV = 200"
definition MPI_BARRIER :: nat where "MPI_BARRIER = 300"
definition MPI_BARRIER_UP :: nat where "MPI_BARRIER_UP = 301"
definition MPI_BARRIER_DOWN :: nat where "MPI_BARRIER_DOWN = 302"
definition MPI_BCAST :: nat where "MPI_BCAST = 400"
definition MPI_SCATTER :: nat where "MPI_SCATTER = 500"
definition MPI_GATHER :: nat where "MPI_GATHER = 600"

lemmas mpi_codes = MPI_ANY_SENDER_def MPI_NO_VALUE_def MPI_MASTER_RANK_def MPI_SEND_def MPI_RECV_def MPI_BARRIER_def
  MPI_BARRIER_UP_def MPI_BARRIER_DOWN_def MPI_BCAST_def MPI_SCATTER_def MPI_GATHER_def

record mpi_call =
  mc_call :: nat
  mc_sender :: nat
  mc_receiver :: nat
  mc_root :: nat
  mc_file :: string
  mc_offset :: int
  mc_bufferSize :: int
  mc_pendingACKs :: int

definition clear_call :: mpi_call where
  "clear_call = \<lparr>mc_call = MPI_NO_VALUE, mc_sender = MPI_NO_VALUE, mc_receiver = MPI_NO_VALUE, mc_root = MPI_NO_VALUE,
     mc_file = '''', mc_offset = -1, mc_bufferSize = -1, mc_pendingACKs = -1\<rparr>"

record mpi = api_os +
  myRank :: nat
  numProcesses :: nat
  workersSet :: nat
  allToAllConnections :: bool
  currentMPICall :: mpi_call
  lastSynchroMPICall :: mpi_call
  barriers :: "nat list"
  mpiCallList :: "mpi_call list"
  mpiConnections :: "(string \<times> int \<times> nat) list"
  sameNode :: "nat list"

subsection \<open>Sets of workers\<close>

definition isMaster :: "nat \<Rightarrow> nat \<Rightarrow> bool" where
  "isMaster workers processRank \<longleftrightarrow> (if workers = 0 then processRank = MPI_MASTER_RANK else processRank mod workers = 0)"

definition getMyMaster :: "nat \<Rightarrow> nat \<Rightarrow> nat" where
  "getMyMaster workers processRank = (if workers = 0 then MPI_MASTER_RANK else (processRank div workers) * workers)"

definition isThisWorkerInMyRange :: "nat \<Rightarrow> nat \<Rightarrow> nat \<Rightarrow> bool" where
  "isThisWorkerInMyRange workers master processRank \<longleftrightarrow> (if workers = 0 then True
     else isMaster workers master \<and> master < processRank \<and> processRank < master + workers)"

subsection \<open>Connections\<close>

text \<open>The configuration of MPI (\<^verbatim>\<open>CfgMPI\<close>): host, port and rank of every process.\<close>

type_synonym mpi_config = "(string \<times> int \<times> nat) list"

definition addNewConnection :: "string \<Rightarrow> int \<Rightarrow> nat \<Rightarrow> 'a mpi_scheme \<Rightarrow> 'a mpi_scheme" where
  "addNewConnection host port rank s = s\<lparr>mpiConnections := mpiConnections s @ [(host, port, rank)]\<rparr>"

definition connect_to :: "int \<Rightarrow> int \<Rightarrow> nat \<Rightarrow> string \<times> int \<times> nat \<Rightarrow> 'a mpi_scheme \<Rightarrow> 'a mpi_scheme res" where
  "connect_to junk parentIndex n p s = (case p of (host, port, rank) \<Rightarrow>
     if myRank s = rank then Ok (createListenConnection junk parentIndex port s)
     else if workersSet s = 0 then Ok (if allToAllConnections s then addNewConnection host port rank s else s)
     else if n mod workersSet s \<noteq> 0 then Fail (Thrown ''showErrorMessage'')
     else Ok (if getMyMaster (workersSet s) (myRank s) = rank \<or> isThisWorkerInMyRange (workersSet s) (myRank s) rank
       then addNewConnection host port rank s else s))"

definition parseMachinesFile :: "int \<Rightarrow> int \<Rightarrow> mpi_config option \<Rightarrow> 'a mpi_scheme \<Rightarrow> 'a mpi_scheme res" where
  "parseMachinesFile junk parentIndex mpiCfg s = (case mpiCfg of
     None \<Rightarrow> Fail (Thrown ''showErrorMessage'')
   | Some cfg \<Rightarrow>
       if cfg = [] \<or> length cfg < workersSet s then Fail (Thrown ''showErrorMessage'')
       else fold_res (connect_to junk parentIndex (length cfg)) cfg (s\<lparr>numProcesses := length cfg\<rparr>))"

definition establishAllConnections :: "'a mpi_scheme \<Rightarrow> 'a mpi_scheme" where
  "establishAllConnections s = fold (\<lambda>(host, port, rank) s. createConnection host port (int rank) s) (mpiConnections s) s"

text \<open>The start of a process; the delays are in ticks of the simulation clock.\<close>

definition mpi_startExecution ::
  "bool \<Rightarrow> nat \<Rightarrow> nat \<Rightarrow> int \<Rightarrow> int \<Rightarrow> 'a mpi_scheme \<Rightarrow> 'a mpi_scheme res" where
  "mpi_startExecution allToAll rank workers connectionDelay startDelay s =
     (if connectionDelay < 0 \<or> startDelay < 0 \<or> startDelay \<le> connectionDelay then Fail (Thrown ''showErrorMessage'')
      else Ok (s\<lparr>myRank := rank, workersSet := workers, allToAllConnections := allToAll, currentMPICall := clear_call,
        lastSynchroMPICall := clear_call, barriers := replicate (numProcesses s) MPI_BARRIER_UP\<rparr>))"

subsection \<open>The list of incoming calls\<close>

definition insertMPICall :: "mpi_message \<Rightarrow> 'a mpi_scheme \<Rightarrow> 'a mpi_scheme" where
  "insertMPICall m s = s\<lparr>mpiCallList := mpiCallList s @ [clear_call\<lparr>mc_call := mm_operation m, mc_sender := mm_source m,
     mc_receiver := myRank s, mc_file := mm_file m, mc_offset := mm_offset m, mc_bufferSize := sint (mm_size m),
     mc_root := (if mm_operation m = MPI_SCATTER \<or> mm_operation m = MPI_BCAST then mm_source m
       else mc_root clear_call)\<rparr>]\<rparr>"

definition matches_call :: "nat \<Rightarrow> nat \<Rightarrow> int \<Rightarrow> mpi_call \<Rightarrow> bool" where
  "matches_call call sender sz c \<longleftrightarrow> mc_call c = call \<and> (sender = MPI_ANY_SENDER \<or> mc_sender c = sender) \<and>
     mc_bufferSize c = sz"

definition searchMPICall :: "nat \<Rightarrow> nat \<Rightarrow> int \<Rightarrow> 'a mpi_scheme \<Rightarrow> nat option" where
  "searchMPICall call sender sz s = index_of (matches_call call sender sz) (mpiCallList s)"

definition deleteMPICall :: "nat \<Rightarrow> 'a mpi_scheme \<Rightarrow> 'a mpi_scheme" where
  "deleteMPICall i s = s\<lparr>mpiCallList := remove_at i (mpiCallList s)\<rparr>"

text \<open>What the current call waits for.\<close>

definition wanted_call :: "mpi_call \<Rightarrow> nat \<times> nat \<times> int" where
  "wanted_call c = (if mc_call c = MPI_RECV then (MPI_SEND, mc_sender c, mc_bufferSize c)
     else if mc_call c = MPI_BCAST then (MPI_BCAST, mc_root c, mc_bufferSize c)
     else if mc_call c = MPI_SCATTER then (MPI_SCATTER, mc_sender c, mc_bufferSize c)
     else (MPI_NO_VALUE, MPI_NO_VALUE, 0))"

definition synchronize :: "bool \<Rightarrow> 'a mpi_scheme \<Rightarrow> 'a mpi_scheme \<times> bool" where
  "synchronize asyn s = (let c = currentMPICall s in
     if mc_call c = MPI_NO_VALUE then (s, False)
     else (case wanted_call c of (call, sender, sz) \<Rightarrow> case searchMPICall call sender sz s of
         None \<Rightarrow> (s, False)
       | Some i \<Rightarrow>
           (deleteMPICall i (s\<lparr>lastSynchroMPICall := (if mc_sender c = MPI_ANY_SENDER
                then c\<lparr>mc_sender := mc_sender (mpiCallList s ! i)\<rparr> else c), currentMPICall := clear_call\<rparr>), \<not> asyn)))"

subsection \<open>Sending and receiving\<close>

definition mpi_msg :: "nat \<Rightarrow> bool \<Rightarrow> int \<Rightarrow> nat \<Rightarrow> nat \<Rightarrow> int \<Rightarrow> mpi_message" where
  "mpi_msg op remote len src dst sz = \<lparr>mm_operation = op, mm_remote = remote, mm_length = len, mm_source = src,
     mm_dest = dst, mm_size = word_of_int sz, mm_file = '''', mm_offset = 0, mm_connection = -1, mm_destIP = '''',
     mm_destPort = 0, mm_type = '''', mm_localPort = 0, mm_localIP = ''''\<rparr>"

text \<open>The length of a packet must not be negative.\<close>

definition send_mpi :: "mpi_message \<Rightarrow> 'a mpi_scheme \<Rightarrow> 'a mpi_scheme res" where
  "send_mpi m s = (if mm_length m < 0 then Fail (Thrown ''setByteLength'') else sendDataToNetwork m (int (mm_dest m)) s)"

definition isProcessInThisNode :: "nat \<Rightarrow> 'a mpi_scheme \<Rightarrow> bool" where
  "isProcessInThisNode processID s \<longleftrightarrow> processID \<in> set (sameNode s)"

definition mpi_send :: "nat \<Rightarrow> int \<Rightarrow> 'a mpi_scheme \<Rightarrow> 'a mpi_scheme res" where
  "mpi_send rankReceiver bufferSize s = bind_res
     (send_mpi (mpi_msg MPI_SEND False
        (if isProcessInThisNode rankReceiver s then MSG_INITIAL_LENGTH else MSG_INITIAL_LENGTH + bufferSize)
        (myRank s) rankReceiver bufferSize) s)
     (\<lambda>s. Ok (s\<lparr>currentMPICall := clear_call\<rparr>))"

definition set_call :: "nat \<Rightarrow> nat \<Rightarrow> nat \<Rightarrow> int \<Rightarrow> 'a mpi_scheme \<Rightarrow> 'a mpi_scheme" where
  "set_call call sender receiver sz s = s\<lparr>currentMPICall := (currentMPICall s)\<lparr>mc_call := call, mc_sender := sender,
     mc_receiver := receiver, mc_bufferSize := sz\<rparr>\<rparr>"

definition mpi_recv :: "nat \<Rightarrow> int \<Rightarrow> 'a mpi_scheme \<Rightarrow> 'a mpi_scheme \<times> bool" where
  "mpi_recv rankSender bufferSize s = synchronize False (set_call MPI_RECV rankSender (myRank s) bufferSize s)"

definition mpi_irecv :: "nat \<Rightarrow> int \<Rightarrow> 'a mpi_scheme \<Rightarrow> 'a mpi_scheme \<times> bool" where
  "mpi_irecv rankSender bufferSize s = synchronize True (set_call MPI_RECV rankSender (myRank s) bufferSize s)"

definition next_call :: "'a mpi_scheme \<Rightarrow> 'a mpi_scheme" where
  "next_call s = s\<lparr>currentMPICall := clear_call\<rparr>"

subsection \<open>Barriers\<close>

text \<open>An access outside the array \<open>barriers\<close> is undefined.\<close>

definition initBarriers :: "'a mpi_scheme \<Rightarrow> 'a mpi_scheme res" where
  "initBarriers s = (if length (barriers s) < numProcesses s then Fail Undefined
     else Ok (s\<lparr>barriers := replicate (numProcesses s) MPI_BARRIER_UP @ drop (numProcesses s) (barriers s)\<rparr>))"

fun all_down :: "nat \<Rightarrow> nat list \<Rightarrow> bool res" where
  "all_down 0 bs = Ok True"
| "all_down (Suc n) [] = Fail Undefined"
| "all_down (Suc n) (b # bs) = (if b = MPI_BARRIER_UP then Ok False else all_down n bs)"

definition barrier_up_msg :: "nat \<Rightarrow> mpi_message" where
  "barrier_up_msg i = mpi_msg MPI_BARRIER_UP False MSG_INITIAL_LENGTH MPI_MASTER_RANK i 0"

definition checkBarriers :: "'a mpi_scheme \<Rightarrow> ('a mpi_scheme \<times> bool) res" where
  "checkBarriers s = bind_res (all_down (numProcesses s) (barriers s)) (\<lambda>allDown.
     if \<not> allDown then Ok (s, False)
     else bind_res (initBarriers s) (\<lambda>s.
          bind_res (fold_res (\<lambda>i. send_mpi (barrier_up_msg i)) [1..<numProcesses s] s) (\<lambda>s. Ok (next_call s, True))))"

definition mark_down :: "nat \<Rightarrow> 'a mpi_scheme \<Rightarrow> 'a mpi_scheme res" where
  "mark_down i s = (if i < length (barriers s) then Ok (s\<lparr>barriers := (barriers s)[i := MPI_BARRIER_DOWN]\<rparr>)
     else Fail Undefined)"

definition mpi_barrier :: "'a mpi_scheme \<Rightarrow> ('a mpi_scheme \<times> bool) res" where
  "mpi_barrier s = (let s = s\<lparr>currentMPICall := (currentMPICall s)\<lparr>mc_call := MPI_BARRIER, mc_sender := myRank s,
        mc_receiver := MPI_MASTER_RANK\<rparr>\<rparr>
     in if myRank s = MPI_MASTER_RANK then bind_res (mark_down MPI_MASTER_RANK s) checkBarriers
        else bind_res (send_mpi (mpi_msg MPI_BARRIER_DOWN True MSG_INITIAL_LENGTH (myRank s) MPI_MASTER_RANK 0) s)
          (\<lambda>s. Ok (s, False)))"

definition mpi_barrier_up :: "'a mpi_scheme \<Rightarrow> 'a mpi_scheme \<times> bool" where
  "mpi_barrier_up s = (next_call s, True)"

definition mpi_barrier_down :: "mpi_message \<Rightarrow> 'a mpi_scheme \<Rightarrow> ('a mpi_scheme \<times> bool) res" where
  "mpi_barrier_down m s = (if mm_source m \<ge> numProcesses s then Fail (Thrown ''showErrorMessage'')
     else bind_res (mark_down (mm_source m) s) checkBarriers)"

subsection \<open>Collective calls\<close>

text \<open>The exponent of the least power of two, from 2 on, that reaches the number of processes.\<close>

function bcast_loop :: "nat \<Rightarrow> nat \<Rightarrow> nat res" where
  "bcast_loop n i = (if i \<le> n then (if 2 ^ i \<ge> n then Ok i else bcast_loop n (Suc i))
     else Fail (Thrown ''showErrorMessage''))"
  by pat_completeness auto
termination by (relation "measure (\<lambda>(n, i). Suc n - i)") auto

declare bcast_loop.simps [simp del]

definition calculateBcastMax :: "'a mpi_scheme \<Rightarrow> nat res" where
  "calculateBcastMax s = bcast_loop (numProcesses s) 1"

definition others :: "'a mpi_scheme \<Rightarrow> nat list" where
  "others s = filter (\<lambda>i. i \<noteq> myRank s) [0..<numProcesses s]"

definition mpi_bcast :: "nat \<Rightarrow> int \<Rightarrow> 'a mpi_scheme \<Rightarrow> ('a mpi_scheme \<times> bool) res" where
  "mpi_bcast rt bufferSize s = (let s = set_call MPI_BCAST rt (myRank s) bufferSize s;
        s = s\<lparr>currentMPICall := (currentMPICall s)\<lparr>mc_root := rt\<rparr>\<rparr>
     in bind_res (calculateBcastMax s) (\<lambda>e.
        if rt = myRank s then
          bind_res (fold_res (\<lambda>i. send_mpi (mpi_msg MPI_BCAST False
              (if i < e * 2 - 1 then MSG_INITIAL_LENGTH + bufferSize else MSG_INITIAL_LENGTH) rt i bufferSize)) (others s) s)
            (\<lambda>s. Ok (next_call s, True))
        else Ok (synchronize False s)))"

definition mpi_scatter :: "nat \<Rightarrow> int \<Rightarrow> 'a mpi_scheme \<Rightarrow> ('a mpi_scheme \<times> bool) res" where
  "mpi_scatter rt bufferSize s = (let s = set_call MPI_SCATTER rt (myRank s) bufferSize s;
        s = s\<lparr>currentMPICall := (currentMPICall s)\<lparr>mc_root := rt\<rparr>\<rparr>
     in if rt = myRank s then
          bind_res (fold_res (\<lambda>i. send_mpi (mpi_msg MPI_SCATTER False (MSG_INITIAL_LENGTH + bufferSize) rt i bufferSize))
              (others s) s)
            (\<lambda>s. Ok (next_call s, True))
        else Ok (synchronize False s))"

definition mpi_gather :: "nat \<Rightarrow> int \<Rightarrow> 'a mpi_scheme \<Rightarrow> ('a mpi_scheme \<times> bool) res" where
  "mpi_gather rt bufferSize s = (let s = set_call MPI_GATHER (myRank s) rt bufferSize s;
        s = s\<lparr>currentMPICall := (currentMPICall s)\<lparr>mc_root := rt, mc_pendingACKs := int (numProcesses s) - 1\<rparr>\<rparr>
     in if rt \<noteq> myRank s then
          bind_res (send_mpi (mpi_msg MPI_GATHER False (MSG_INITIAL_LENGTH + bufferSize) (myRank s) rt bufferSize) s)
            (\<lambda>s. Ok (next_call s, True))
        else Ok (s, False))"

definition mpi_gather_arrives :: "'a mpi_scheme \<Rightarrow> ('a mpi_scheme \<times> bool) res" where
  "mpi_gather_arrives s = (if mc_call (currentMPICall s) \<noteq> MPI_GATHER then Fail (Thrown ''showErrorMessage'')
     else let acks = mc_pendingACKs (currentMPICall s) - 1 in
       if acks = 0 then Ok (next_call s, True)
       else Ok (s\<lparr>currentMPICall := (currentMPICall s)\<lparr>mc_pendingACKs := acks\<rparr>\<rparr>, False))"

subsection \<open>Messages of other processes\<close>

definition processMPICallRequest :: "mpi_message \<Rightarrow> 'a mpi_scheme \<Rightarrow> ('a mpi_scheme \<times> bool) res" where
  "processMPICallRequest m s = (let op = mm_operation m in
     if op = MPI_SEND \<or> op = MPI_SCATTER \<or> op = MPI_BCAST then Ok (synchronize False (insertMPICall m s))
     else if op = MPI_BARRIER_DOWN then mpi_barrier_down m s
     else if op = MPI_BARRIER_UP then Ok (mpi_barrier_up s)
     else if op = MPI_GATHER then mpi_gather_arrives s
     else Fail (Thrown ''showErrorMessage''))"

end
