(* ===== verification/HpcApp.thy ===== *)
theory HpcApp imports MpiBase begin

text \<open>
  A master/worker application (\<^verbatim>\<open>ApplicationHPC\<close> in \<^verbatim>\<open>src/src/Applications/Apps/ApplicationHPC\<close>).  The
  ranks are divided into sets of \<open>workersSet\<close>; the first of a set is its master.  In every iteration the
  master reads and delivers the data of its workers, waits for their results and writes them; the flags
  \<open>workersRead\<close> and \<open>workersWrite\<close> let the workers read and write themselves.

  \<^verbatim>\<open>calculateNextState\<close> calls itself through the operations it starts, always last: \<open>activation\<close> is one
  call of it and tells whether it is called again.  The times, the printing and the results of the job
  are left out; \<open>finishing\<close> says that the message that ends the job is scheduled.
\<close>

datatype hpc_state = HPCAPP_INIT | HPCAPP_MASTER_READING | HPCAPP_MASTER_DELIVERING | HPCAPP_MASTER_WAITING_RESULTS
  | HPCAPP_MASTER_WRITTING | HPCAPP_WORKER_RECEIVING | HPCAPP_WORKER_READING | HPCAPP_WORKER_ALLOCATING
  | HPCAPP_WORKER_PROCESSING | HPCAPP_WORKER_WRITTING | HPCAPP_WORKER_SENDING_BACK

definition KB :: u32 where "KB = 1024"
definition METADATA_MSG_SIZE :: int where "METADATA_MSG_SIZE = 64"
definition HPCAPP_MAX_SIZE_PER_INPUT_FILE :: u32 where "HPCAPP_MAX_SIZE_PER_INPUT_FILE = 2000000 * KB"

record hpc = mpi +
  currentState :: hpc_state
  numIterations :: u32
  sliceToWorkers_KB :: u32
  sliceToMaster_KB :: u32
  sliceCPU :: u32
  currentIteration :: u32
  createdResultsFile :: bool
  totalResponses :: u32
  workersRead :: bool
  workersWrite :: bool
  outFileName :: string
  inputFileName :: string
  offsetRead :: u32
  offsetWrite :: u32
  currentInputFile :: u32
  currentOutputFile :: u32
  finishing :: bool

subsection \<open>File names\<close>

fun decimal :: "nat \<Rightarrow> string" where
  "decimal n = (if n < 10 then [char_of (48 + n)] else decimal (n div 10) @ [char_of (48 + n mod 10)])"

declare decimal.simps [simp del]

text \<open>\<^verbatim>\<open>"%s_%d.dat"\<close>, with a number that is printed as an \<^verbatim>\<open>int\<close>.\<close>

definition file_name :: "string \<Rightarrow> u32 \<Rightarrow> string" where
  "file_name prefix n = prefix @ ''_'' @ (if sint n < 0 then ''-'' @ decimal (nat (- sint n)) else decimal (nat (sint n))) @ ''.dat''"

definition input_name :: "u32 \<Rightarrow> string" where "input_name = file_name ''/fileInput''"
definition results_name :: "u32 \<Rightarrow> string" where "results_name = file_name ''/fileResults''"

subsection \<open>Start\<close>

text \<open>The parameters of the module.\<close>

record hpc_par =
  par_allToAll :: bool
  par_rank :: nat
  par_workersSet :: nat
  par_connectionDelay :: int
  par_startDelay :: int
  par_numIterations :: u32
  par_sliceToWorkers :: u32
  par_sliceToMaster :: u32
  par_sliceCPU :: u32
  par_workersRead :: bool
  par_workersWrite :: bool

text \<open>
  The file and the offset at which the data that is counted in KB starts.  A worker that neither reads nor
  is a master gets no file numbers: it keeps what the memory of the module held.
\<close>

definition first_input :: "u32 \<Rightarrow> hpc \<Rightarrow> hpc" where
  "first_input previous s = s\<lparr>currentInputFile := previous div (HPCAPP_MAX_SIZE_PER_INPUT_FILE div KB),
     offsetRead := (previous mod (HPCAPP_MAX_SIZE_PER_INPUT_FILE div KB)) * KB\<rparr>"

definition first_output :: "u32 \<Rightarrow> hpc \<Rightarrow> hpc" where
  "first_output previous s = s\<lparr>currentOutputFile := previous div (HPCAPP_MAX_SIZE_PER_INPUT_FILE div KB),
     offsetWrite := (previous mod (HPCAPP_MAX_SIZE_PER_INPUT_FILE div KB)) * KB\<rparr>"

definition start_files :: "hpc \<Rightarrow> hpc" where
  "start_files s = (let r = word_of_nat (myRank s); w = word_of_nat (workersSet s); n = numIterations s;
       before = (\<lambda>slice. if workersRead s \<or> workersSet s = 0 then r * slice * n else (r div w) * slice * n * w)
     in if workersRead s \<or> isMaster (workersSet s) (myRank s)
        then first_output (before (sliceToMaster_KB s)) (first_input (before (sliceToWorkers_KB s)) s) else s)"

definition hpc_startExecution :: "hpc_par \<Rightarrow> mpi_config \<Rightarrow> hpc \<Rightarrow> hpc res" where
  "hpc_startExecution p cfg s = bind_res
     (mpi_startExecution (par_allToAll p) (par_rank p) (par_workersSet p) (par_connectionDelay p) (par_startDelay p)
        (s\<lparr>workersSet := par_workersSet p, numProcesses := length cfg\<rparr>))
     (\<lambda>s. let s = start_files (s\<lparr>numIterations := par_numIterations p, sliceToWorkers_KB := par_sliceToWorkers p,
             sliceToMaster_KB := par_sliceToMaster p, sliceCPU := par_sliceCPU p, workersRead := par_workersRead p,
             workersWrite := par_workersWrite p, currentIteration := 1, offsetRead := 0, offsetWrite := 0,
             createdResultsFile := False\<rparr>)
          in Ok (s\<lparr>inputFileName := input_name (currentInputFile s), outFileName := results_name (currentOutputFile s),
             currentState := HPCAPP_INIT, finishing := False\<rparr>))"

subsection \<open>Data and results\<close>

text \<open>Products of \<^verbatim>\<open>unsigned int\<close> that are passed as \<^verbatim>\<open>int\<close>.\<close>

definition data_size :: "hpc \<Rightarrow> int" where
  "data_size s = (if workersRead s then METADATA_MSG_SIZE else sint (sliceToWorkers_KB s * KB))"

definition result_size :: "hpc \<Rightarrow> int" where
  "result_size s = (if workersWrite s then METADATA_MSG_SIZE else sint (sliceToMaster_KB s * KB))"

definition advance_read :: "hpc \<Rightarrow> hpc" where
  "advance_read s = (if offsetRead s + sliceToWorkers_KB s * KB > HPCAPP_MAX_SIZE_PER_INPUT_FILE
     then s\<lparr>currentInputFile := currentInputFile s + 1, inputFileName := input_name (currentInputFile s + 1), offsetRead := 0\<rparr>
     else s\<lparr>offsetRead := offsetRead s + sliceToWorkers_KB s * KB\<rparr>)"

definition advance_write :: "hpc \<Rightarrow> hpc" where
  "advance_write s = (if offsetWrite s + sliceToMaster_KB s * KB > HPCAPP_MAX_SIZE_PER_INPUT_FILE
     then s\<lparr>currentOutputFile := currentOutputFile s + 1, outFileName := results_name (currentOutputFile s + 1), offsetWrite := 0\<rparr>
     else s\<lparr>offsetWrite := offsetWrite s + sliceToMaster_KB s * KB\<rparr>)"

definition issue_read :: "hpc \<Rightarrow> (hpc \<times> bool) res" where
  "issue_read s = bind_res (request_read (inputFileName s) (offsetRead s) (sliceToWorkers_KB s * KB) s)
     (\<lambda>s. Ok (advance_read s, False))"

definition issue_write :: "hpc \<Rightarrow> (hpc \<times> bool) res" where
  "issue_write s = bind_res (request_write (outFileName s) (offsetWrite s) (sliceToMaster_KB s * KB) s)
     (\<lambda>s. Ok (advance_write s, False))"

definition skip_io :: "hpc \<Rightarrow> (hpc \<times> bool) res" where
  "skip_io s = Ok (s\<lparr>totalResponses := 0\<rparr>, True)"

definition readInputData :: "hpc \<Rightarrow> (hpc \<times> bool) res" where
  "readInputData s = (if \<not> workersRead s then issue_read s else skip_io s)"

definition readInputDataWorkers :: "hpc \<Rightarrow> (hpc \<times> bool) res" where
  "readInputDataWorkers s = (if workersRead s then issue_read (s\<lparr>totalResponses := 1\<rparr>) else skip_io s)"

definition writtingData :: "hpc \<Rightarrow> (hpc \<times> bool) res" where
  "writtingData s = (if \<not> workersWrite s then issue_write s else skip_io s)"

definition writtingDataWorkers :: "hpc \<Rightarrow> (hpc \<times> bool) res" where
  "writtingDataWorkers s = (if workersWrite s then issue_write (s\<lparr>totalResponses := 1\<rparr>) else skip_io s)"

definition allocating :: "hpc \<Rightarrow> (hpc \<times> bool) res" where
  "allocating s = Ok (request_allocMemory 1 0 s, False)"

definition processingCPU :: "hpc \<Rightarrow> (hpc \<times> bool) res" where
  "processingCPU s = Ok (request_cpu (sliceCPU s) s, False)"

definition deliverData :: "hpc \<Rightarrow> (hpc \<times> bool) res" where
  "deliverData s = bind_res (fold_res (\<lambda>i s. mpi_send i (data_size s) s) [myRank s + 1..<myRank s + workersSet s] s)
     (\<lambda>s. Ok (s, True))"

definition receivingResults :: "hpc \<Rightarrow> (hpc \<times> bool) res" where
  "receivingResults s = Ok (mpi_recv MPI_ANY_SENDER (result_size s) s)"

definition receiveInputData :: "hpc \<Rightarrow> (hpc \<times> bool) res" where
  "receiveInputData s = Ok (mpi_recv (getMyMaster (workersSet s) (myRank s)) (data_size s) s)"

definition sendResults :: "hpc \<Rightarrow> (hpc \<times> bool) res" where
  "sendResults s = bind_res (mpi_send (getMyMaster (workersSet s) (myRank s)) (result_size s) s) (\<lambda>s. Ok (s, True))"

definition nextIteration :: "hpc \<Rightarrow> (hpc \<times> bool) res" where
  "nextIteration s = (let s = s\<lparr>currentIteration := currentIteration s + 1\<rparr>
     in if currentIteration s > numIterations s then Ok (s\<lparr>finishing := True\<rparr>, False) else Ok (s, True))"

definition create_results :: "hpc \<Rightarrow> (hpc \<times> bool) res" where
  "create_results s = bind_res (request_create (outFileName s) (s\<lparr>totalResponses := 1, createdResultsFile := True\<rparr>))
     (\<lambda>s. Ok (s, False))"

subsection \<open>The state machine\<close>

definition enter :: "hpc_state \<Rightarrow> hpc \<Rightarrow> hpc" where
  "enter q s = s\<lparr>currentState := q\<rparr>"

definition master_activation :: "hpc \<Rightarrow> (hpc \<times> bool) res" where
  "master_activation s = (case currentState s of
     HPCAPP_INIT \<Rightarrow>
       if \<not> createdResultsFile s \<and> \<not> workersWrite s then create_results s
       else readInputData (enter HPCAPP_MASTER_READING (s\<lparr>totalResponses := word_of_nat (workersSet s)\<rparr>))
   | HPCAPP_MASTER_READING \<Rightarrow>
       if totalResponses s > 0 then readInputData s else deliverData (enter HPCAPP_MASTER_DELIVERING s)
   | HPCAPP_MASTER_DELIVERING \<Rightarrow>
       receivingResults (enter HPCAPP_MASTER_WAITING_RESULTS (s\<lparr>totalResponses := word_of_nat (workersSet s) - 1\<rparr>))
   | HPCAPP_MASTER_WAITING_RESULTS \<Rightarrow>
       let s = s\<lparr>totalResponses := totalResponses s - 1\<rparr>
       in if totalResponses s = 0
          then writtingData (enter HPCAPP_MASTER_WRITTING (s\<lparr>totalResponses := word_of_nat (workersSet s)\<rparr>))
          else receivingResults s
   | HPCAPP_MASTER_WRITTING \<Rightarrow>
       if totalResponses s > 0 then writtingData s else nextIteration (enter HPCAPP_INIT s)
   | _ \<Rightarrow> Ok (s, False))"

definition worker_activation :: "hpc \<Rightarrow> (hpc \<times> bool) res" where
  "worker_activation s = (case currentState s of
     HPCAPP_INIT \<Rightarrow>
       if \<not> createdResultsFile s \<and> workersWrite s then create_results s
       else receiveInputData (enter HPCAPP_WORKER_RECEIVING s)
   | HPCAPP_WORKER_RECEIVING \<Rightarrow> readInputDataWorkers (enter HPCAPP_WORKER_READING s)
   | HPCAPP_WORKER_READING \<Rightarrow> allocating (enter HPCAPP_WORKER_ALLOCATING s)
   | HPCAPP_WORKER_ALLOCATING \<Rightarrow> processingCPU (enter HPCAPP_WORKER_PROCESSING s)
   | HPCAPP_WORKER_PROCESSING \<Rightarrow> writtingDataWorkers (enter HPCAPP_WORKER_WRITTING s)
   | HPCAPP_WORKER_WRITTING \<Rightarrow> sendResults (enter HPCAPP_WORKER_SENDING_BACK s)
   | HPCAPP_WORKER_SENDING_BACK \<Rightarrow> nextIteration (enter HPCAPP_INIT s)
   | _ \<Rightarrow> Ok (s, False))"

definition activation :: "hpc \<Rightarrow> (hpc \<times> bool) res" where
  "activation s = (if isMaster (workersSet s) (myRank s) then master_activation s else worker_activation s)"

subsection \<open>Every call ends\<close>

text \<open>
  A call that leads to another one takes a message off the list of incoming calls, or gets closer to the
  state in which the process waits for one.
\<close>

fun phase :: "hpc_state \<Rightarrow> bool \<Rightarrow> nat" where
  "phase HPCAPP_MASTER_WAITING_RESULTS left = 7"
| "phase HPCAPP_MASTER_WRITTING left = (if left then 6 else 5)"
| "phase HPCAPP_MASTER_READING left = (if left then 3 else 2)"
| "phase HPCAPP_MASTER_DELIVERING left = 1"
| "phase HPCAPP_WORKER_RECEIVING left = 6"
| "phase HPCAPP_WORKER_READING left = 5"
| "phase HPCAPP_WORKER_PROCESSING left = 5"
| "phase HPCAPP_WORKER_WRITTING left = 4"
| "phase HPCAPP_WORKER_SENDING_BACK left = 3"
| "phase HPCAPP_WORKER_ALLOCATING left = 0"
| "phase HPCAPP_INIT left = 4"

definition hpc_phase :: "hpc \<Rightarrow> nat" where
  "hpc_phase s = (if currentState s = HPCAPP_INIT \<and> \<not> isMaster (workersSet s) (myRank s) then 1
     else phase (currentState s) (totalResponses s > 0))"

lemma remove_at_shorter: "i < length xs \<Longrightarrow> length (remove_at i xs) < length xs"
  by (simp add: remove_at_def)

lemma synchronize_consumes:
  "synchronize asyn s = (s', True) \<Longrightarrow> length (mpiCallList s') < length (mpiCallList s)"
  by (auto simp: synchronize_def Let_def deleteMPICall_def searchMPICall_def split: if_splits option.splits prod.splits
      dest!: index_of_bound intro: remove_at_shorter)

lemma mpi_recv_consumes:
  "mpi_recv r n s = (s', True) \<Longrightarrow> length (mpiCallList s') < length (mpiCallList s)"
  by (auto simp: mpi_recv_def set_call_def dest: synchronize_consumes)

text \<open>What sending leaves alone.\<close>

lemma mpi_send_frame:
  assumes "mpi_send r n s = Ok s'"
  shows "\<exists>out. s' = s\<lparr>os_out := out, currentMPICall := clear_call\<rparr>"
  using assms by (auto simp: mpi_send_def send_mpi_def sendDataToNetwork_def to_os_def bind_res_Ok_iff
      split: if_splits option.splits)

lemma deliver_frame:
  "fold_res (\<lambda>i s. mpi_send i (d s) s) xs s = Ok s' \<Longrightarrow> \<exists>out c. s' = s\<lparr>os_out := out, currentMPICall := c\<rparr>"
proof (induction xs arbitrary: s)
  case Nil
  then have "s' = s\<lparr>os_out := os_out s, currentMPICall := currentMPICall s\<rparr>" by simp
  then show ?case by blast
next
  case (Cons x xs)
  then obtain t where t: "mpi_send x (d s) s = Ok t" "fold_res (\<lambda>i s. mpi_send i (d s) s) xs t = Ok s'"
    by (auto simp: bind_res_Ok_iff)
  from mpi_send_frame[OF t(1)] obtain out where "t = s\<lparr>os_out := out, currentMPICall := clear_call\<rparr>" by blast
  with Cons.IH[OF t(2)] show ?case by auto
qed


lemma activation_decreases:
  assumes "activation s = Ok (s', True)"
  shows "length (mpiCallList s') < length (mpiCallList s) \<or>
    length (mpiCallList s') = length (mpiCallList s) \<and> hpc_phase s' < hpc_phase s"
proof (cases "isMaster (workersSet s) (myRank s)")
  case True
  with assms have "master_activation s = Ok (s', True)" by (simp add: activation_def)
  with True show ?thesis
    by (auto simp: master_activation_def enter_def create_results_def readInputData_def writtingData_def issue_read_def
        issue_write_def skip_io_def deliverData_def receivingResults_def nextIteration_def bind_res_Ok_iff Let_def hpc_phase_def
        word_gt_0 split: hpc_state.splits if_splits dest!: mpi_recv_consumes deliver_frame)
next
  case False
  with assms have "worker_activation s = Ok (s', True)" by (simp add: activation_def)
  with False show ?thesis
    by (auto simp: worker_activation_def enter_def create_results_def readInputDataWorkers_def writtingDataWorkers_def
        issue_read_def issue_write_def skip_io_def allocating_def processingCPU_def sendResults_def receiveInputData_def
        nextIteration_def bind_res_Ok_iff Let_def hpc_phase_def
        split: hpc_state.splits if_splits dest!: mpi_recv_consumes mpi_send_frame)
qed

function calculateNextState :: "hpc \<Rightarrow> hpc res" where
  "calculateNextState s = bind_res (activation s) (\<lambda>(s', again). if again then calculateNextState s' else Ok s')"
  by pat_completeness auto
termination
proof (relation "measures [\<lambda>s. length (mpiCallList s), hpc_phase]")
  fix s x s' again
  assume "activation s = Ok x" "(s', again) = x" "again"
  then show "(s', s) \<in> measures [\<lambda>s. length (mpiCallList s), hpc_phase]"
    using activation_decreases[of s s'] by auto
qed simp

declare calculateNextState.simps [simp del]

subsection \<open>Answers and messages\<close>

text \<open>
  The answer to a file request; every result but \<^verbatim>\<open>icancloud_OK\<close> ends in an exception.  The counter is
  unsigned: that it becomes negative is never noticed.
\<close>

definition processIOCallResponse :: "int \<Rightarrow> int \<Rightarrow> hpc \<Rightarrow> hpc res" where
  "processIOCallResponse opn outcome s =
     (if opn = SM_READ_FILE \<and> currentState s \<notin> {HPCAPP_MASTER_READING, HPCAPP_WORKER_READING} then Fail (Thrown ''State error'')
      else if opn = SM_WRITE_FILE \<and> currentState s \<notin> {HPCAPP_MASTER_WRITTING, HPCAPP_WORKER_WRITTING}
        then Fail (Thrown ''State error'')
      else if opn \<notin> {SM_READ_FILE, SM_WRITE_FILE, SM_CREATE_FILE} \<or> outcome \<noteq> icancloud_OK
        then Fail (Thrown ''showErrorMessage'')
      else calculateNextState (s\<lparr>totalResponses := totalResponses s - 1\<rparr>))"

definition processCPUCallResponse :: "hpc \<Rightarrow> hpc res" where
  "processCPUCallResponse = calculateNextState"

definition processMEMCallResponse :: "hpc \<Rightarrow> hpc res" where
  "processMEMCallResponse = calculateNextState"

text \<open>
  The answers of the operating system: to a file request with its operation and result, to the requests for
  CPU and memory, and for a connection with the new socket.
\<close>

datatype os_answer = Io_done int int | Cpu_done | Mem_done | Net_done int int int string int | Unknown_answer

fun hpc_processResponseMessage :: "os_answer \<Rightarrow> hpc \<Rightarrow> hpc res" where
  "hpc_processResponseMessage (Io_done opn outcome) s = processIOCallResponse opn outcome s"
| "hpc_processResponseMessage Cpu_done s = processCPUCallResponse s"
| "hpc_processResponseMessage Mem_done s = processMEMCallResponse s"
| "hpc_processResponseMessage (Net_done opn comm connId ip port) s =
     (if opn = SM_CREATE_CONNECTION then setEstablishedConnection comm connId ip port s
      else Fail (Thrown ''showErrorMessage''))"
| "hpc_processResponseMessage Unknown_answer s = Fail (Thrown ''showErrorMessage'')"

definition hpc_processRequestMessage :: "mpi_message \<Rightarrow> hpc \<Rightarrow> hpc res" where
  "hpc_processRequestMessage m s = bind_res (processMPICallRequest m s) (\<lambda>(s, again).
     if again then calculateNextState s else Ok s)"

datatype hpc_timer = SM_SUPER | SM_WAIT_TO_CONNECT | SM_WAIT_TO_EXECUTE | SM_FINISH_JOB

text \<open>The timers; showing the results at the end is left out.\<close>

definition hpc_processSelfMessage :: "int \<Rightarrow> int \<Rightarrow> mpi_config option \<Rightarrow> hpc_timer \<Rightarrow> hpc \<Rightarrow> hpc res" where
  "hpc_processSelfMessage junk parentIndex cfg t s = (case t of
     SM_SUPER \<Rightarrow> parseMachinesFile junk parentIndex cfg s
   | SM_WAIT_TO_EXECUTE \<Rightarrow> calculateNextState s
   | SM_WAIT_TO_CONNECT \<Rightarrow> Ok (establishAllConnections s)
   | SM_FINISH_JOB \<Rightarrow> Ok s)"

section \<open>Single steps\<close>

lemma next_stop: "activation s = Ok (s', False) \<Longrightarrow> calculateNextState s = Ok s'"
  by (simp add: calculateNextState.simps)

lemma next_again: "activation s = Ok (s', True) \<Longrightarrow> calculateNextState s = calculateNextState s'"
  by (subst calculateNextState.simps) simp

end
