(* ===== verification/HpcSpec.thy ===== *)
theory HpcSpec imports Prelude "HOL-Library.Word" begin

text \<open>
  What a set of the master/worker application does, without its messages and records: a master and its
  workers go through rounds.  \<open>round_step\<close> is the step relation, \<open>round_inv\<close> its invariant; every run ends
  (\<open>round_cost\<close>) and none stops before all have finished.  The theory on the runs of the application shows
  that the code implements these steps.
\<close>

type_synonym round_no = "32 word"

record hpc_job =
  j_first :: nat
  j_size :: nat
  j_read :: bool
  j_write :: bool
  j_rounds :: round_no

definition workers :: "hpc_job \<Rightarrow> nat set" where
  "workers j = {j_first j<..<j_first j + j_size j}"

datatype wpos = Unstarted | Creating | Receiving | Reading | Allocating | Processing | Writing | Finished
datatype chan = Nothing | Data_sent | Data_queued | Result_sent
datatype mpos = MUnstarted | MCreating | MReading nat | MWaiting nat | MWriting nat | MFinished

record rounds =
  r_master :: mpos
  r_round :: round_no
  r_pos :: "nat \<Rightarrow> wpos"
  r_wround :: "nat \<Rightarrow> round_no"
  r_chan :: "nat \<Rightarrow> chan"

subsection \<open>Steps\<close>

text \<open>The master delivers the data, begins a round, ends a round, and has all results.\<close>

definition deliver_all :: "hpc_job \<Rightarrow> rounds \<Rightarrow> rounds" where
  "deliver_all j a = a\<lparr>r_master := MWaiting (j_size j - 1),
     r_chan := (\<lambda>i. if i \<in> workers j then Data_sent else r_chan a i)\<rparr>"

definition begin_round :: "hpc_job \<Rightarrow> rounds \<Rightarrow> rounds" where
  "begin_round j a = (if j_read j then deliver_all j a else a\<lparr>r_master := MReading (j_size j)\<rparr>)"

definition end_round :: "hpc_job \<Rightarrow> rounds \<Rightarrow> rounds" where
  "end_round j a = (let a = a\<lparr>r_round := r_round a + 1\<rparr>
     in if r_round a > j_rounds j then a\<lparr>r_master := MFinished\<rparr> else begin_round j a)"

definition write_round :: "hpc_job \<Rightarrow> rounds \<Rightarrow> rounds" where
  "write_round j a = (if j_write j then end_round j a else a\<lparr>r_master := MWriting (j_size j)\<rparr>)"

text \<open>A worker starts to work, looks for its data, and sends its result.\<close>

definition work :: "hpc_job \<Rightarrow> nat \<Rightarrow> rounds \<Rightarrow> rounds" where
  "work j i a = a\<lparr>r_pos := (r_pos a)(i := if j_read j then Reading else Allocating), r_chan := (r_chan a)(i := Nothing)\<rparr>"

definition look :: "hpc_job \<Rightarrow> nat \<Rightarrow> rounds \<Rightarrow> rounds" where
  "look j i a = (if r_chan a i = Data_queued then work j i a else a\<lparr>r_pos := (r_pos a)(i := Receiving)\<rparr>)"

definition sent_pos :: "hpc_job \<Rightarrow> round_no \<Rightarrow> wpos" where
  "sent_pos j k = (if k > j_rounds j then Finished else Receiving)"

definition send_result :: "hpc_job \<Rightarrow> nat \<Rightarrow> rounds \<Rightarrow> rounds" where
  "send_result j i a = a\<lparr>r_chan := (r_chan a)(i := Result_sent), r_wround := (r_wround a)(i := r_wround a i + 1),
     r_pos := (r_pos a)(i := sent_pos j (r_wround a i + 1))\<rparr>"

definition go_to :: "nat \<Rightarrow> wpos \<Rightarrow> rounds \<Rightarrow> rounds" where
  "go_to i p a = a\<lparr>r_pos := (r_pos a)(i := p)\<rparr>"

inductive round_step :: "hpc_job \<Rightarrow> rounds \<Rightarrow> rounds \<Rightarrow> bool" for j where
  m_start: "r_master a = MUnstarted \<Longrightarrow>
     round_step j a (if j_write j then begin_round j a else a\<lparr>r_master := MCreating\<rparr>)"
| m_created: "r_master a = MCreating \<Longrightarrow> round_step j a (begin_round j a)"
| m_read: "r_master a = MReading t \<Longrightarrow>
     round_step j a (if 1 < t then a\<lparr>r_master := MReading (t - 1)\<rparr> else deliver_all j a)"
| m_result: "r_master a = MWaiting t \<Longrightarrow> i \<in> workers j \<Longrightarrow> r_chan a i = Result_sent \<Longrightarrow>
     round_step j a (let b = a\<lparr>r_chan := (r_chan a)(i := Nothing)\<rparr>
       in if 1 < t then b\<lparr>r_master := MWaiting (t - 1)\<rparr> else write_round j b)"
| m_written: "r_master a = MWriting t \<Longrightarrow>
     round_step j a (if 1 < t then a\<lparr>r_master := MWriting (t - 1)\<rparr> else end_round j a)"
| w_start: "i \<in> workers j \<Longrightarrow> r_pos a i = Unstarted \<Longrightarrow>
     round_step j a (if j_write j then go_to i Creating a else look j i a)"
| w_created: "i \<in> workers j \<Longrightarrow> r_pos a i = Creating \<Longrightarrow> round_step j a (look j i a)"
| w_data: "i \<in> workers j \<Longrightarrow> r_chan a i = Data_sent \<Longrightarrow>
     round_step j a (if r_pos a i = Receiving then work j i a else a\<lparr>r_chan := (r_chan a)(i := Data_queued)\<rparr>)"
| w_read: "i \<in> workers j \<Longrightarrow> r_pos a i = Reading \<Longrightarrow> round_step j a (go_to i Allocating a)"
| w_alloc: "i \<in> workers j \<Longrightarrow> r_pos a i = Allocating \<Longrightarrow> round_step j a (go_to i Processing a)"
| w_cpu: "i \<in> workers j \<Longrightarrow> r_pos a i = Processing \<Longrightarrow>
     round_step j a (if j_write j then go_to i Writing a else send_result j i a)"
| w_written: "i \<in> workers j \<Longrightarrow> r_pos a i = Writing \<Longrightarrow> round_step j a (send_result j i a)"

inductive_cases round_stepE: "round_step j a b"

subsection \<open>Invariant\<close>

text \<open>A worker that waits for the data of round \<open>k\<close>, one that has sent the results of the round before \<open>k\<close>.\<close>

definition early :: "rounds \<Rightarrow> nat \<Rightarrow> bool" where
  "early a i \<longleftrightarrow> r_wround a i = 1 \<and> (r_pos a i = Unstarted \<or> r_pos a i = Creating)"

definition home :: "round_no \<Rightarrow> rounds \<Rightarrow> nat \<Rightarrow> bool" where
  "home k a i \<longleftrightarrow> r_wround a i = k \<and> (r_pos a i = Receiving \<or> early a i)"

definition has_sent :: "hpc_job \<Rightarrow> round_no \<Rightarrow> rounds \<Rightarrow> nat \<Rightarrow> bool" where
  "has_sent j k a i \<longleftrightarrow> r_wround a i = k \<and> r_pos a i = sent_pos j k"

definition active :: "hpc_job \<Rightarrow> round_no \<Rightarrow> rounds \<Rightarrow> nat \<Rightarrow> bool" where
  "active j k a i \<longleftrightarrow>
     (r_chan a i = Data_sent \<and> home k a i) \<or>
     (r_chan a i = Data_queued \<and> r_wround a i = k \<and> early a i) \<or>
     (r_chan a i = Nothing \<and> r_wround a i = k \<and> r_pos a i \<in> {Reading, Allocating, Processing, Writing}) \<or>
     (r_chan a i = Result_sent \<and> has_sent j (k + 1) a i)"

definition collecting :: "hpc_job \<Rightarrow> nat \<Rightarrow> rounds \<Rightarrow> bool" where
  "collecting j t a \<longleftrightarrow> (\<exists>P. P \<subseteq> workers j \<and> card P = t \<and> (\<forall>i\<in>P. active j (r_round a) a i) \<and>
     (\<forall>i\<in>workers j - P. r_chan a i = Nothing \<and> has_sent j (r_round a + 1) a i))"

definition quiet_at :: "hpc_job \<Rightarrow> (nat \<Rightarrow> bool) \<Rightarrow> rounds \<Rightarrow> bool" where
  "quiet_at j p a \<longleftrightarrow> (\<forall>i\<in>workers j. r_chan a i = Nothing \<and> p i)"

definition round_inv :: "hpc_job \<Rightarrow> rounds \<Rightarrow> bool" where
  "round_inv j a \<longleftrightarrow> (case r_master a of
     MUnstarted \<Rightarrow> r_round a = 1 \<and> quiet_at j (home 1 a) a
   | MCreating \<Rightarrow> r_round a = 1 \<and> quiet_at j (home 1 a) a
   | MReading t \<Rightarrow> 0 < t \<and> t \<le> j_size j \<and> quiet_at j (home (r_round a) a) a
   | MWaiting t \<Rightarrow> 0 < t \<and> t < j_size j \<and> collecting j t a
   | MWriting t \<Rightarrow> 0 < t \<and> t \<le> j_size j \<and> quiet_at j (has_sent j (r_round a + 1) a) a
   | MFinished \<Rightarrow> j_rounds j < r_round a \<and> quiet_at j (\<lambda>i. r_pos a i = Finished \<and> r_wround a i = r_round a) a)"

subsection \<open>The invariant is kept\<close>

definition same_but :: "nat \<Rightarrow> rounds \<Rightarrow> rounds \<Rightarrow> bool" where
  "same_but i a b \<longleftrightarrow> r_master b = r_master a \<and> r_round b = r_round a \<and>
     (\<forall>x. x \<noteq> i \<longrightarrow> r_pos b x = r_pos a x \<and> r_wround b x = r_wround a x \<and> r_chan b x = r_chan a x)"

lemma local_cong:
  assumes "r_pos b x = r_pos a x" "r_wround b x = r_wround a x"
  shows "home k b x = home k a x" "has_sent j k b x = has_sent j k a x"
    and "r_chan b x = r_chan a x \<Longrightarrow> active j k b x = active j k a x"
  using assms by (auto simp: home_def early_def has_sent_def active_def)

lemma quiet_update:
  assumes "quiet_at j p a" "i \<in> workers j" "r_chan b i = Nothing" "q i"
    and "\<And>x. x \<noteq> i \<Longrightarrow> r_chan b x = r_chan a x" "\<And>x. x \<noteq> i \<Longrightarrow> p x \<Longrightarrow> q x"
  shows "quiet_at j q b"
  using assms unfolding quiet_at_def by metis

lemma collecting_update:
  assumes "collecting j t a" "same_but i a b" "active j (r_round a) a i \<Longrightarrow> active j (r_round a) b i"
    and "\<not> (r_chan a i = Nothing \<and> has_sent j (r_round a + 1) a i)" "i \<in> workers j"
  shows "collecting j t b"
proof -
  from assms(1) obtain P where P: "P \<subseteq> workers j" "card P = t" "\<forall>x\<in>P. active j (r_round a) a x"
      "\<forall>x\<in>workers j - P. r_chan a x = Nothing \<and> has_sent j (r_round a + 1) a x"
    unfolding collecting_def by blast
  have same: "x \<noteq> i \<Longrightarrow> active j k b x = active j k a x" "x \<noteq> i \<Longrightarrow> has_sent j k b x = has_sent j k a x"
      "x \<noteq> i \<Longrightarrow> r_chan b x = r_chan a x" "r_round b = r_round a" for x k
    using assms(2) local_cong[of b x a] by (auto simp: same_but_def)
  have "i \<in> P" using P(4) assms(4,5) by blast
  then have "\<forall>x\<in>P. active j (r_round b) b x" using P(3) same assms(3) by metis
  moreover have "\<forall>x\<in>workers j - P. r_chan b x = Nothing \<and> has_sent j (r_round b + 1) b x"
    using P(4) same \<open>i \<in> P\<close> by (metis DiffD2)
  ultimately show ?thesis using P(1,2) unfolding collecting_def by blast
qed

text \<open>A step of one worker.\<close>

lemma worker_step_inv:
  assumes "round_inv j a" "same_but i a b" "i \<in> workers j"
    and "\<And>k. home k a i \<Longrightarrow> r_chan a i = Nothing \<Longrightarrow> home k b i \<and> r_chan b i = Nothing"
    and "\<And>k. active j k a i \<Longrightarrow> active j k b i"
    and "r_chan a i = Nothing \<Longrightarrow> r_pos a i \<notin> {Receiving, Finished}"
  shows "round_inv j b"
proof -
  have m: "r_master b = r_master a" "r_round b = r_round a" using assms(2) by (simp_all add: same_but_def)
  have other: "x \<noteq> i \<Longrightarrow> r_chan b x = r_chan a x" "x \<noteq> i \<Longrightarrow> home k a x \<Longrightarrow> home k b x" for x k
    using assms(2) local_cong[of b x a] by (auto simp: same_but_def)
  have home: "quiet_at j (home k b) b" if "quiet_at j (home k a) a" for k
  proof -
    have i: "home k a i" "r_chan a i = Nothing" using that assms(3) by (auto simp: quiet_at_def)
    show ?thesis
      unfolding quiet_at_def
    proof
      fix x
      assume "x \<in> workers j"
      with that assms(4)[OF i] other show "r_chan b x = Nothing \<and> home k b x"
        by (cases "x = i") (auto simp: quiet_at_def)
    qed
  qed
  have notsent: "\<not> (r_chan a i = Nothing \<and> has_sent j k a i)" for k
    using assms(6) by (auto simp: has_sent_def sent_pos_def)
  then have sent: "\<not> quiet_at j (has_sent j k a) a" for k using assms(3) by (auto simp: quiet_at_def)
  have fin: "\<not> quiet_at j (\<lambda>i. r_pos a i = Finished \<and> r_wround a i = r_round a) a" using assms(3,6) by (auto simp: quiet_at_def)
  note coll = collecting_update[OF _ assms(2,5) notsent assms(3)]
  show ?thesis
  proof (cases "r_master a")
    case (MWaiting t)
    with assms(1) coll show ?thesis by (simp add: round_inv_def m)
  next
    case (MWriting t)
    with assms(1) sent show ?thesis by (simp add: round_inv_def)
  qed (use assms(1) home fin in \<open>simp_all add: round_inv_def m\<close>)
qed

lemma card_workers: "card (workers j) = j_size j - 1"
  by (simp add: workers_def)

lemma finite_workers: "finite (workers j)"
  by (simp add: workers_def)

lemma deliver_inv:
  assumes "2 \<le> j_size j" "quiet_at j (home (r_round a) a) a"
  shows "round_inv j (deliver_all j a)"
proof -
  have "\<forall>i\<in>workers j. active j (r_round a) (deliver_all j a) i"
    using assms(2) by (auto simp: quiet_at_def active_def home_def early_def deliver_all_def)
  then have "collecting j (j_size j - 1) (deliver_all j a)"
    unfolding collecting_def by (intro exI[of _ "workers j"]) (auto simp: card_workers deliver_all_def)
  then show ?thesis using assms(1) by (auto simp: round_inv_def deliver_all_def)
qed

lemma begin_inv:
  assumes "2 \<le> j_size j" "quiet_at j (home (r_round a) a) a"
  shows "round_inv j (begin_round j a)"
  using deliver_inv[OF assms] assms
  by (auto simp: begin_round_def round_inv_def quiet_at_def home_def early_def)

lemma end_inv:
  assumes "2 \<le> j_size j" "quiet_at j (has_sent j (r_round a + 1) a) a"
  shows "round_inv j (end_round j a)"
proof (cases "r_round a + 1 > j_rounds j")
  case True
  with assms(2) show ?thesis
    by (auto simp: end_round_def Let_def round_inv_def quiet_at_def has_sent_def sent_pos_def)
next
  case False
  let ?b = "a\<lparr>r_round := r_round a + 1\<rparr>"
  have "quiet_at j (home (r_round ?b) ?b) ?b"
    using False assms(2) by (auto simp: quiet_at_def home_def has_sent_def sent_pos_def)
  from begin_inv[OF assms(1) this] False show ?thesis by (simp add: end_round_def Let_def)
qed

lemma write_inv:
  assumes "2 \<le> j_size j" "quiet_at j (has_sent j (r_round a + 1) a) a"
  shows "round_inv j (write_round j a)"
  using end_inv[OF assms] assms by (auto simp: write_round_def round_inv_def quiet_at_def has_sent_def)

lemma result_inv:
  assumes "2 \<le> j_size j" "round_inv j a" "r_master a = MWaiting t" "i \<in> workers j" "r_chan a i = Result_sent"
  shows "round_inv j (let b = a\<lparr>r_chan := (r_chan a)(i := Nothing)\<rparr>
       in if 1 < t then b\<lparr>r_master := MWaiting (t - 1)\<rparr> else write_round j b)"
proof -
  let ?b = "a\<lparr>r_chan := (r_chan a)(i := Nothing)\<rparr>" and ?k = "r_round a"
  from assms(2,3) obtain P where t: "0 < t" "t < j_size j" and P: "P \<subseteq> workers j" "card P = t" "\<forall>x\<in>P. active j ?k a x"
      "\<forall>x\<in>workers j - P. r_chan a x = Nothing \<and> has_sent j (?k + 1) a x"
    by (auto simp: round_inv_def collecting_def)
  have i: "i \<in> P" using P(4) assms(4,5) by force
  then have "has_sent j (?k + 1) a i" using P(3) assms(5) by (auto simp: active_def)
  then have rest: "\<forall>x\<in>workers j - (P - {i}). r_chan ?b x = Nothing \<and> has_sent j (?k + 1) ?b x"
    using P(4) by (auto simp: has_sent_def)
  have card: "card (P - {i}) = t - 1" using i P(2) finite_subset[OF P(1) finite_workers] by simp
  show ?thesis
  proof (cases "1 < t")
    case True
    have "\<forall>x\<in>P - {i}. active j ?k ?b x" using P(3) by (auto simp: active_def has_sent_def home_def early_def)
    then have "collecting j (t - 1) (?b\<lparr>r_master := MWaiting (t - 1)\<rparr>)"
      using rest P(1) card unfolding collecting_def
      by (intro exI[of _ "P - {i}"]) (auto simp: active_def has_sent_def home_def early_def)
    with True t show ?thesis by (simp add: round_inv_def Let_def)
  next
    case False
    then have e: "P - {i} = {}" using t(1) card finite_subset[OF P(1) finite_workers] by simp
    then have "quiet_at j (has_sent j (r_round ?b + 1) ?b) ?b" using rest unfolding e quiet_at_def by simp
    from write_inv[OF assms(1) this] False show ?thesis by (simp add: Let_def)
  qed
qed

theorem round_step_inv:
  assumes "2 \<le> j_size j" "round_inv j a" "round_step j a b"
  shows "round_inv j b"
  using assms(3)
proof (cases rule: round_step.cases)
  case m_start
  then show ?thesis using assms(1,2) begin_inv[of j a] by (auto simp: round_inv_def quiet_at_def home_def early_def)
next
  case m_created
  then show ?thesis using assms(1,2) begin_inv[of j a] by (auto simp: round_inv_def)
next
  case (m_read t)
  have q: "quiet_at j (home (r_round a) a) a" using assms(2) m_read(2) by (simp add: round_inv_def)
  show ?thesis
  proof (cases "1 < t")
    case True
    with m_read assms(2) q show ?thesis by (auto simp: round_inv_def quiet_at_def home_def early_def)
  qed (use m_read deliver_inv[OF assms(1) q] in simp)
next
  case (m_result t i)
  then show ?thesis using result_inv[OF assms(1,2)] by simp
next
  case (m_written t)
  have q: "quiet_at j (has_sent j (r_round a + 1) a) a" using assms(2) m_written(2) by (simp add: round_inv_def)
  show ?thesis
  proof (cases "1 < t")
    case True
    with m_written assms(2) q show ?thesis by (auto simp: round_inv_def quiet_at_def has_sent_def)
  qed (use m_written end_inv[OF assms(1) q] in simp)
next
  case (w_start i)
  show ?thesis
    by (rule worker_step_inv[OF assms(2), of i])
      (use w_start in \<open>auto simp: same_but_def go_to_def look_def work_def home_def early_def active_def has_sent_def sent_pos_def split: if_splits\<close>)
next
  case (w_created i)
  show ?thesis
    by (rule worker_step_inv[OF assms(2), of i])
      (use w_created in \<open>auto simp: same_but_def go_to_def look_def work_def home_def early_def active_def has_sent_def sent_pos_def split: if_splits\<close>)
next
  case (w_data i)
  show ?thesis
    by (rule worker_step_inv[OF assms(2), of i])
      (use w_data in \<open>auto simp: same_but_def work_def home_def early_def active_def has_sent_def sent_pos_def split: if_splits\<close>)
next
  case (w_read i)
  show ?thesis
    by (rule worker_step_inv[OF assms(2), of i])
      (use w_read in \<open>auto simp: same_but_def go_to_def home_def early_def active_def has_sent_def sent_pos_def split: if_splits\<close>)
next
  case (w_alloc i)
  show ?thesis
    by (rule worker_step_inv[OF assms(2), of i])
      (use w_alloc in \<open>auto simp: same_but_def go_to_def home_def early_def active_def has_sent_def sent_pos_def split: if_splits\<close>)
next
  case (w_cpu i)
  show ?thesis
    by (rule worker_step_inv[OF assms(2), of i])
      (use w_cpu in \<open>auto simp: same_but_def go_to_def send_result_def home_def early_def active_def has_sent_def sent_pos_def split: if_splits\<close>)
next
  case (w_written i)
  show ?thesis
    by (rule worker_step_inv[OF assms(2), of i])
      (use w_written in \<open>auto simp: same_but_def send_result_def home_def early_def active_def has_sent_def sent_pos_def split: if_splits\<close>)
qed

subsection \<open>No run stops early, every run ends\<close>

definition all_finished :: "hpc_job \<Rightarrow> rounds \<Rightarrow> bool" where
  "all_finished j a \<longleftrightarrow> r_master a = MFinished \<and> (\<forall>i\<in>workers j. r_pos a i = Finished)"

lemma active_step:
  assumes "active j k a i" "i \<in> workers j" "r_master a = MWaiting t"
  shows "\<exists>b. round_step j a b"
proof -
  from assms(1) consider "r_chan a i = Data_sent" | "r_pos a i = Unstarted" | "r_pos a i = Creating"
    | "r_pos a i = Reading" | "r_pos a i = Allocating" | "r_pos a i = Processing" | "r_pos a i = Writing"
    | "r_chan a i = Result_sent"
    by (auto simp: active_def early_def)
  then show ?thesis
    using assms(2,3) by cases (blast intro: round_step.intros)+
qed

theorem round_progress:
  assumes "round_inv j a" "\<not> all_finished j a"
  shows "\<exists>b. round_step j a b"
proof (cases "r_master a")
  case (MWaiting t)
  with assms(1) obtain P where "P \<subseteq> workers j" "card P = t" "0 < t" "\<forall>i\<in>P. active j (r_round a) a i"
    by (auto simp: round_inv_def collecting_def)
  then obtain i where "i \<in> workers j" "active j (r_round a) a i" by (cases "P = {}") auto
  then show ?thesis using active_step MWaiting by blast
next
  case MFinished
  with assms show ?thesis by (auto simp: round_inv_def quiet_at_def all_finished_def)
qed (use round_step.intros in blast)+

text \<open>The round of the master never wraps around.\<close>

definition round_bound :: "hpc_job \<Rightarrow> rounds \<Rightarrow> bool" where
  "round_bound j a \<longleftrightarrow> r_master a = MFinished \<or> r_round a = 1 \<or> r_round a \<le> j_rounds j"

lemma round_step_bound: "round_step j a b \<Longrightarrow> round_bound j a \<Longrightarrow> round_bound j b"
  by (cases rule: round_step.cases, assumption)
    (auto simp: round_bound_def begin_round_def deliver_all_def end_round_def write_round_def look_def work_def go_to_def
      send_result_def Let_def)

definition left_rounds :: "hpc_job \<Rightarrow> round_no \<Rightarrow> nat" where
  "left_rounds j k = Suc (unat (j_rounds j)) - unat k"

fun master_cost :: "hpc_job \<Rightarrow> round_no \<Rightarrow> mpos \<Rightarrow> nat" where
  "master_cost j k MUnstarted = 3 * j_size j + 2 + (3 * j_size j + 3) * left_rounds j k"
| "master_cost j k MCreating = 3 * j_size j + 1 + (3 * j_size j + 3) * left_rounds j k"
| "master_cost j k (MReading t) = 2 * j_size j + t + (3 * j_size j + 3) * left_rounds j k"
| "master_cost j k (MWaiting t) = j_size j + t + (3 * j_size j + 3) * left_rounds j k"
| "master_cost j k (MWriting t) = t + (3 * j_size j + 3) * left_rounds j k"
| "master_cost j k MFinished = 0"

fun pos_cost :: "wpos \<Rightarrow> nat" where
  "pos_cost Unstarted = 8" | "pos_cost Creating = 7" | "pos_cost Receiving = 6" | "pos_cost Reading = 4"
| "pos_cost Allocating = 3" | "pos_cost Processing = 2" | "pos_cost Writing = 1" | "pos_cost Finished = 0"

definition chan_cost :: "chan \<Rightarrow> nat" where
  "chan_cost c = (if c = Data_queued then 1 else 2)"

definition worker_cost :: "hpc_job \<Rightarrow> rounds \<Rightarrow> nat \<Rightarrow> nat" where
  "worker_cost j a i = 12 * left_rounds j (r_wround a i) + pos_cost (r_pos a i) + chan_cost (r_chan a i)"

definition round_cost :: "hpc_job \<Rightarrow> rounds \<Rightarrow> nat" where
  "round_cost j a = master_cost j (r_round a) (r_master a) + (\<Sum>i\<in>workers j. worker_cost j a i)"

lemma worker_cost_cong:
  "r_pos b x = r_pos a x \<Longrightarrow> r_wround b x = r_wround a x \<Longrightarrow> r_chan b x = r_chan a x \<Longrightarrow>
     worker_cost j b x = worker_cost j a x"
  by (simp add: worker_cost_def)

lemma worker_step_cost:
  assumes "same_but i a b" "i \<in> workers j" "worker_cost j b i < worker_cost j a i"
  shows "round_cost j b < round_cost j a"
proof -
  have "(\<Sum>x\<in>workers j. worker_cost j b x) < (\<Sum>x\<in>workers j. worker_cost j a x)"
  proof (rule sum_strict_mono_ex1[OF finite_workers])
    show "\<forall>x\<in>workers j. worker_cost j b x \<le> worker_cost j a x"
    proof
      fix x
      show "worker_cost j b x \<le> worker_cost j a x"
        using assms(1,3) worker_cost_cong[of b x a] by (cases "x = i") (auto simp: same_but_def)
    qed
    show "\<exists>x\<in>workers j. worker_cost j b x < worker_cost j a x" using assms(2,3) by blast
  qed
  then show ?thesis using assms(1) by (simp add: round_cost_def same_but_def)
qed

lemma left_rounds_next:
  assumes "unat (j_rounds j) + 1 < 2 ^ 32" "k = 1 \<or> k \<le> j_rounds j"
  shows "if k + 1 > j_rounds j then left_rounds j (k + 1) = 0 else left_rounds j k = Suc (left_rounds j (k + 1))"
proof -
  have k: "unat k + 1 < 2 ^ 32" using assms unat_mono[of "j_rounds j" k] by (auto simp: word_le_nat_alt)
  then have "unat (k + 1) = unat k + 1" by (simp add: unat_word_ariths)
  then show ?thesis by (auto simp: left_rounds_def word_less_nat_alt)
qed

text \<open>A master step leaves the costs of the workers as they are, or lowers them.\<close>

lemma master_step_cost:
  assumes "master_cost j (r_round b) (r_master b) < master_cost j (r_round a) (r_master a)"
    and "\<And>i. i \<in> workers j \<Longrightarrow> worker_cost j b i \<le> worker_cost j a i"
  shows "round_cost j b < round_cost j a"
  using assms(1) sum_mono[of "workers j" "worker_cost j b" "worker_cost j a"] assms(2)
  by (simp add: round_cost_def)

lemma begin_cost:
  "master_cost j (r_round (begin_round j a)) (r_master (begin_round j a)) \<le>
     3 * j_size j + (3 * j_size j + 3) * left_rounds j (r_round a)"
  "r_chan a i \<noteq> Data_queued \<Longrightarrow> worker_cost j (begin_round j a) i \<le> worker_cost j a i"
  by (auto simp: begin_round_def deliver_all_def worker_cost_def chan_cost_def)

lemma end_cost:
  assumes "unat (j_rounds j) + 1 < 2 ^ 32" "r_round a = 1 \<or> r_round a \<le> j_rounds j"
  shows "master_cost j (r_round (end_round j a)) (r_master (end_round j a)) \<le>
      (3 * j_size j + 3) * left_rounds j (r_round a)"
    and "r_chan a i \<noteq> Data_queued \<Longrightarrow> worker_cost j (end_round j a) i \<le> worker_cost j a i"
proof -
  let ?b = "a\<lparr>r_round := r_round a + 1\<rparr>"
  show "master_cost j (r_round (end_round j a)) (r_master (end_round j a)) \<le>
      (3 * j_size j + 3) * left_rounds j (r_round a)"
  proof (cases "r_round a + 1 > j_rounds j")
    case False
    with left_rounds_next[OF assms] begin_cost(1)[of j ?b] show ?thesis by (simp add: end_round_def Let_def)
  qed (simp add: end_round_def Let_def)
  show "worker_cost j (end_round j a) i \<le> worker_cost j a i" if "r_chan a i \<noteq> Data_queued"
    using that begin_cost(2)[of ?b i j] by (simp add: end_round_def Let_def worker_cost_def)
qed

lemma write_cost:
  assumes "unat (j_rounds j) + 1 < 2 ^ 32" "r_round a = 1 \<or> r_round a \<le> j_rounds j"
  shows "master_cost j (r_round (write_round j a)) (r_master (write_round j a)) \<le>
      j_size j + (3 * j_size j + 3) * left_rounds j (r_round a)"
    and "r_chan a i \<noteq> Data_queued \<Longrightarrow> worker_cost j (write_round j a) i \<le> worker_cost j a i"
  using end_cost(1)[OF assms] end_cost(2)[OF assms, of i] by (auto simp: write_round_def worker_cost_def)

lemma send_cost:
  assumes "unat (j_rounds j) + 1 < 2 ^ 32" "r_wround a i = 1 \<or> r_wround a i \<le> j_rounds j"
    and "r_pos a i = Processing \<or> r_pos a i = Writing" "r_chan a i = Nothing"
  shows "worker_cost j (send_result j i a) i < worker_cost j a i"
  using left_rounds_next[OF assms(1,2)] assms(3,4)
  by (auto simp: worker_cost_def send_result_def sent_pos_def chan_cost_def split: if_splits)

text \<open>A worker that works is in the round of the master.\<close>

lemma working_round:
  assumes "round_inv j a" "round_bound j a" "i \<in> workers j" "r_pos a i \<in> {Reading, Allocating, Processing, Writing}"
  shows "r_chan a i = Nothing \<and> (r_wround a i = 1 \<or> r_wround a i \<le> j_rounds j)"
proof (cases "r_master a")
  case (MWaiting t)
  with assms(1) obtain P where P: "\<forall>i\<in>P. active j (r_round a) a i" "\<forall>i\<in>workers j - P. has_sent j (r_round a + 1) a i"
    by (auto simp: round_inv_def collecting_def)
  have "\<not> has_sent j k a i" for k using assms(4) by (auto simp: has_sent_def sent_pos_def)
  with P assms(3) have "active j (r_round a) a i" by blast
  moreover have "\<not> home k a i" for k using assms(4) by (auto simp: home_def early_def)
  ultimately have "r_chan a i = Nothing" "r_wround a i = r_round a"
    using \<open>\<And>k. \<not> has_sent j k a i\<close> assms(4) by (auto simp: active_def early_def)
  then show ?thesis using assms(2) MWaiting by (auto simp: round_bound_def)
qed (use assms in \<open>auto simp: round_inv_def quiet_at_def home_def early_def has_sent_def sent_pos_def split: if_splits\<close>)

theorem round_step_cost:
  assumes small: "unat (j_rounds j) + 1 < 2 ^ 32" and inv: "round_inv j a" "round_bound j a" and "round_step j a b"
  shows "round_cost j b < round_cost j a"
  using assms(4)
proof (cases rule: round_step.cases)
  case m_start
  then have q: "i \<in> workers j \<Longrightarrow> r_chan a i = Nothing" for i using inv(1) by (auto simp: round_inv_def quiet_at_def)
  show ?thesis
  proof (rule master_step_cost)
    show "master_cost j (r_round b) (r_master b) < master_cost j (r_round a) (r_master a)"
      using m_start begin_cost(1)[of j a] by auto
    show "worker_cost j b i \<le> worker_cost j a i" if "i \<in> workers j" for i
      using m_start q[OF that] begin_cost(2)[of a i j] by (simp add: worker_cost_def)
  qed
next
  case m_created
  then have q: "i \<in> workers j \<Longrightarrow> r_chan a i = Nothing" for i using inv(1) by (auto simp: round_inv_def quiet_at_def)
  show ?thesis
  proof (rule master_step_cost)
    show "master_cost j (r_round b) (r_master b) < master_cost j (r_round a) (r_master a)"
      using m_created begin_cost(1)[of j a] by simp
    show "worker_cost j b i \<le> worker_cost j a i" if "i \<in> workers j" for i
      using m_created q[OF that] begin_cost(2)[of a i j] by simp
  qed
next
  case (m_read t)
  then have q: "i \<in> workers j \<Longrightarrow> r_chan a i = Nothing" "0 < t" for i
    using inv(1) by (auto simp: round_inv_def quiet_at_def)
  show ?thesis
    by (rule master_step_cost) (use m_read q in \<open>auto simp: deliver_all_def worker_cost_def chan_cost_def\<close>)
next
  case (m_result t i)
  let ?b = "a\<lparr>r_chan := (r_chan a)(i := Nothing)\<rparr>"
  have t: "0 < t" "r_round a = 1 \<or> r_round a \<le> j_rounds j"
    using m_result inv by (auto simp: round_inv_def round_bound_def)
  have q: "t = 1 \<Longrightarrow> x \<in> workers j \<Longrightarrow> r_chan ?b x \<noteq> Data_queued" for x
  proof -
    assume "t = 1" "x \<in> workers j"
    from m_result(2) inv(1) obtain P where P: "card P = t" "\<forall>x\<in>workers j - P. r_chan a x = Nothing"
      by (auto simp: round_inv_def collecting_def)
    have "i \<in> P" using P(2) m_result(3,4) by force
    with P(1) \<open>t = 1\<close> have "P = {i}" by (auto simp: card_1_singleton_iff)
    with P(2) \<open>x \<in> workers j\<close> show ?thesis by auto
  qed
  have wb: "worker_cost j ?b x \<le> worker_cost j a x" for x
    using m_result(4) by (auto simp: worker_cost_def chan_cost_def)
  show ?thesis
  proof (rule master_step_cost)
    show "master_cost j (r_round b) (r_master b) < master_cost j (r_round a) (r_master a)"
      using m_result(1,2) t write_cost(1)[OF small, of ?b] by (auto simp: Let_def)
    show "worker_cost j b x \<le> worker_cost j a x" if "x \<in> workers j" for x
      using m_result(1) t wb[of x] write_cost(2)[OF small, of ?b x] q[OF _ that]
      by (cases "1 < t") (auto simp: Let_def worker_cost_def)
  qed
next
  case (m_written t)
  have q: "0 < t" "r_round a = 1 \<or> r_round a \<le> j_rounds j" "i \<in> workers j \<Longrightarrow> r_chan a i = Nothing" for i
    using m_written inv by (auto simp: round_inv_def round_bound_def quiet_at_def)
  show ?thesis
  proof (rule master_step_cost)
    show "master_cost j (r_round b) (r_master b) < master_cost j (r_round a) (r_master a)"
      using m_written q(1) end_cost(1)[OF small q(2)] by auto
    show "worker_cost j b x \<le> worker_cost j a x" if "x \<in> workers j" for x
      using m_written q(3)[OF that] end_cost(2)[OF small q(2), of x] by (auto simp: worker_cost_def)
  qed
next
  case (w_start i)
  show ?thesis
    by (rule worker_step_cost[of i])
      (use w_start in \<open>auto simp: same_but_def go_to_def look_def work_def worker_cost_def chan_cost_def\<close>)
next
  case (w_created i)
  show ?thesis
    by (rule worker_step_cost[of i])
      (use w_created in \<open>auto simp: same_but_def go_to_def look_def work_def worker_cost_def chan_cost_def\<close>)
next
  case (w_data i)
  show ?thesis
    by (rule worker_step_cost[of i]) (use w_data in \<open>auto simp: same_but_def work_def worker_cost_def chan_cost_def\<close>)
next
  case (w_read i)
  show ?thesis by (rule worker_step_cost[of i]) (use w_read in \<open>auto simp: same_but_def go_to_def worker_cost_def\<close>)
next
  case (w_alloc i)
  show ?thesis by (rule worker_step_cost[of i]) (use w_alloc in \<open>auto simp: same_but_def go_to_def worker_cost_def\<close>)
next
  case (w_cpu i)
  from working_round[OF inv w_cpu(2)] w_cpu(3) have r: "r_chan a i = Nothing" "r_wround a i = 1 \<or> r_wround a i \<le> j_rounds j" by auto
  show ?thesis
    by (rule worker_step_cost[of i])
      (use w_cpu send_cost[OF small r(2) _ r(1)] in \<open>auto simp: same_but_def go_to_def send_result_def worker_cost_def\<close>)
next
  case (w_written i)
  from working_round[OF inv w_written(2)] w_written(3) have r: "r_chan a i = Nothing" "r_wround a i = 1 \<or> r_wround a i \<le> j_rounds j" by auto
  show ?thesis
    by (rule worker_step_cost[of i])
      (use w_written send_cost[OF small r(2) _ r(1)] in \<open>auto simp: same_but_def send_result_def\<close>)
qed

end
