(* ===== verification/MpiCalls.thy ===== *)
theory MpiCalls imports MpiBase begin

text \<open>
  Properties of the calls of MPI: what a receive takes, what keeps the state of a process well formed, and
  what a broadcast sends.
\<close>

subsection \<open>Receiving\<close>

text \<open>The entry of the list of calls that a message makes.\<close>

definition call_of :: "mpi_message \<Rightarrow> nat \<Rightarrow> mpi_call" where
  "call_of m r = clear_call\<lparr>mc_call := mm_operation m, mc_sender := mm_source m, mc_receiver := r, mc_file := mm_file m,
     mc_offset := mm_offset m, mc_bufferSize := sint (mm_size m),
     mc_root := (if mm_operation m = MPI_SCATTER \<or> mm_operation m = MPI_BCAST then mm_source m else mc_root clear_call)\<rparr>"

lemma insertMPICall_call: "insertMPICall m s = s\<lparr>mpiCallList := mpiCallList s @ [call_of m (myRank s)]\<rparr>"
  by (simp add: insertMPICall_def call_of_def)

text \<open>Messages arrive until one of them lets the application continue.\<close>

fun await :: "mpi_message list \<Rightarrow> 'a mpi_scheme \<Rightarrow> ('a mpi_scheme \<times> bool) res" where
  "await [] s = Ok (s, False)"
| "await (m # ms) s = bind_res (processMPICallRequest m s) (\<lambda>(s, go). if go then Ok (s, True) else await ms s)"

lemma send_arrives:
  "mm_operation m = MPI_SEND \<Longrightarrow> processMPICallRequest m s = Ok (synchronize False (insertMPICall m s))"
  by (simp add: processMPICallRequest_def Let_def)

lemma index_of_cong: "\<forall>x\<in>set xs. P x = Q x \<Longrightarrow> index_of P xs = index_of Q xs"
  by (induction xs) auto

lemma await_idle:
  assumes "mc_call (currentMPICall s) = MPI_NO_VALUE" "\<forall>m\<in>set ms. mm_operation m = MPI_SEND"
  shows "await ms s = Ok (s\<lparr>mpiCallList := mpiCallList s @ map (\<lambda>m. call_of m (myRank s)) ms\<rparr>, False)"
  using assms
proof (induction ms arbitrary: s)
  case (Cons m ms)
  then show ?case by (simp add: send_arrives synchronize_def Let_def insertMPICall_call)
qed simp

text \<open>A process that waits for a message of size \<open>n\<close> from \<open>r\<close>.\<close>

definition waiting :: "nat \<Rightarrow> int \<Rightarrow> 'a mpi_scheme \<Rightarrow> bool" where
  "waiting r n s \<longleftrightarrow> mc_call (currentMPICall s) = MPI_RECV \<and> mc_sender (currentMPICall s) = r \<and>
     mc_bufferSize (currentMPICall s) = n"

lemma synchronize_waiting:
  assumes "waiting r n s"
  shows "case index_of (matches_call MPI_SEND r n) (mpiCallList s) of
      None \<Rightarrow> synchronize False s = (s, False)
    | Some i \<Rightarrow> snd (synchronize False s) \<and> mpiCallList (fst (synchronize False s)) = remove_at i (mpiCallList s) \<and>
        mc_call (currentMPICall (fst (synchronize False s))) = MPI_NO_VALUE"
  using assms
  by (simp add: synchronize_def waiting_def wanted_call_def searchMPICall_def Let_def deleteMPICall_def clear_call_def mpi_codes
      split: option.splits)

lemma await_waiting:
  assumes "waiting r n s" "\<forall>c\<in>set (mpiCallList s). \<not> matches_call MPI_SEND r n c" "\<forall>m\<in>set ms. mm_operation m = MPI_SEND"
  shows "case index_of (\<lambda>m. matches_call MPI_SEND r n (call_of m (myRank s))) ms of
      None \<Rightarrow> \<exists>u. await ms s = Ok (u, False) \<and> mpiCallList u = mpiCallList s @ map (\<lambda>m. call_of m (myRank s)) ms
    | Some k \<Rightarrow> \<exists>u. await ms s = Ok (u, True) \<and>
        mpiCallList u = mpiCallList s @ map (\<lambda>m. call_of m (myRank s)) (take k ms)"
  using assms
proof (induction ms arbitrary: s)
  case Nil
  then show ?case by simp
next
  case (Cons m ms)
  let ?s = "insertMPICall m s" and ?P = "matches_call MPI_SEND r n"
  have none: "index_of ?P (mpiCallList s) = None" using Cons.prems(2) by (simp add: index_of_None)
  have w: "waiting r n ?s" using Cons.prems(1) by (simp add: waiting_def insertMPICall_call)
  have list: "mpiCallList ?s = mpiCallList s @ [call_of m (myRank s)]" "myRank ?s = myRank s"
    by (simp_all add: insertMPICall_call)
  have arr: "processMPICallRequest m s = Ok (synchronize False ?s)" using Cons.prems(3) by (intro send_arrives) simp
  show ?case
  proof (cases "?P (call_of m (myRank s))")
    case True
    then have "index_of ?P (mpiCallList ?s) = Some (length (mpiCallList s))" using none by (simp add: list index_of_append)
    with synchronize_waiting[OF w] have "snd (synchronize False ?s)" "mpiCallList (fst (synchronize False ?s)) = mpiCallList s"
      by (simp_all add: list remove_at_def)
    then show ?thesis using True arr by (cases "synchronize False ?s") simp
  next
    case False
    then have "index_of ?P (mpiCallList ?s) = None" using none by (simp add: list index_of_append)
    with synchronize_waiting[OF w] have "synchronize False ?s = (?s, False)" by simp
    moreover have "\<forall>c\<in>set (mpiCallList ?s). \<not> ?P c" using Cons.prems(2) False by (simp add: list)
    from Cons.IH[OF w this, unfolded list(2)] Cons.prems(3) have
      "case index_of (\<lambda>m. ?P (call_of m (myRank s))) ms of
        None \<Rightarrow> \<exists>u. await ms ?s = Ok (u, False) \<and> mpiCallList u = mpiCallList ?s @ map (\<lambda>m. call_of m (myRank s)) ms
      | Some k \<Rightarrow> \<exists>u. await ms ?s = Ok (u, True) \<and>
          mpiCallList u = mpiCallList ?s @ map (\<lambda>m. call_of m (myRank s)) (take k ms)" by simp
    ultimately show ?thesis using False arr by (auto simp: list(1) split: option.splits)
  qed
qed

text \<open>
  A receive takes the first message that matches, in the order of arrival: of the messages that have come
  before the call the first one, else the first that comes; all other messages stay, in order.
\<close>

theorem receive_takes_first:
  fixes s :: "'a mpi_scheme" and ms ms' :: "mpi_message list" and r :: nat and n :: int
  defines "calls \<equiv> mpiCallList s @ map (\<lambda>m. call_of m (myRank s)) ms"
    and "matching \<equiv> matches_call MPI_SEND r n"
  assumes "mc_call (currentMPICall s) = MPI_NO_VALUE" "\<forall>m\<in>set (ms @ ms'). mm_operation m = MPI_SEND"
  shows "\<exists>u t go. await ms s = Ok (u, False) \<and> mpi_recv r n u = (t, go) \<and>
     (case index_of matching calls of
        Some i \<Rightarrow> go \<and> mpiCallList t = remove_at i calls
      | None \<Rightarrow> \<not> go \<and> (case index_of (\<lambda>m. matching (call_of m (myRank s))) ms' of
          None \<Rightarrow> \<exists>v. await ms' t = Ok (v, False) \<and> mpiCallList v = calls @ map (\<lambda>m. call_of m (myRank s)) ms'
        | Some k \<Rightarrow> \<exists>v. await ms' t = Ok (v, True) \<and> mpiCallList v = calls @ map (\<lambda>m. call_of m (myRank s)) (take k ms')))"
proof -
  let ?u = "s\<lparr>mpiCallList := calls\<rparr>"
  let ?v = "set_call MPI_RECV r (myRank s) n ?u"
  have first: "await ms s = Ok (?u, False)" using await_idle[OF assms(3)] assms(4) by (simp add: calls_def)
  have v: "waiting r n ?v" "mpiCallList ?v = calls" "myRank ?v = myRank s" by (simp_all add: waiting_def set_call_def)
  have recv: "mpi_recv r n ?u = synchronize False ?v" by (simp add: mpi_recv_def)
  show ?thesis
  proof (cases "index_of matching calls")
    case (Some i)
    with synchronize_waiting[OF v(1)] first recv show ?thesis
      by (intro exI[of _ ?u] exI[of _ "fst (synchronize False ?v)"] exI[of _ True])
        (cases "synchronize False ?v", simp add: v(2) matching_def)
  next
    case None
    then have sync: "synchronize False ?v = (?v, False)" using synchronize_waiting[OF v(1)] by (simp add: v(2) matching_def)
    have "\<forall>c\<in>set calls. \<not> matching c" using None by (simp add: index_of_None)
    with await_waiting[OF v(1), of ms', unfolded v(2,3)] assms(4) have later: "case index_of (\<lambda>m. matching (call_of m (myRank s))) ms' of
        None \<Rightarrow> \<exists>x. await ms' ?v = Ok (x, False) \<and> mpiCallList x = calls @ map (\<lambda>m. call_of m (myRank s)) ms'
      | Some k \<Rightarrow> \<exists>x. await ms' ?v = Ok (x, True) \<and> mpiCallList x = calls @ map (\<lambda>m. call_of m (myRank s)) (take k ms')"
      by (simp add: matching_def)
    show ?thesis using first recv sync None later
      by (intro exI[of _ ?u] exI[of _ ?v] exI[of _ False]) simp
  qed
qed

subsection \<open>Broadcasts\<close>

lemma bcast_loop_least:
  assumes "i \<le> n"
  shows "\<exists>e. bcast_loop n i = Ok e \<and> i \<le> e \<and> n \<le> 2 ^ e \<and> (\<forall>k\<in>{i..<e}. 2 ^ k < n)"
  using assms
proof (induction n i rule: bcast_loop.induct)
  case (1 n i)
  show ?case
  proof (cases "n \<le> 2 ^ i")
    case True
    then show ?thesis using "1.prems" by (simp add: bcast_loop.simps)
  next
    case False
    have "i < n" using False "1.prems" less_exp[of n] by (cases "i = n") auto
    then have "Suc i \<le> n" by simp
    from "1.IH"[OF "1.prems" False this] obtain e where "bcast_loop n (Suc i) = Ok e" "Suc i \<le> e" "n \<le> 2 ^ e"
        "\<forall>k\<in>{Suc i..<e}. 2 ^ k < n" by blast
    moreover from this(4) False have "\<forall>k\<in>{i..<e}. 2 ^ k < n"
      by (metis atLeastLessThan_iff le_neq_implies_less not_le Suc_leI)
    ultimately show ?thesis using False "1.prems" by (auto simp: bcast_loop.simps[of n i])
  qed
qed

text \<open>The messages of a broadcast; those below the limit carry the data.\<close>

lemma broadcast_fold:
  fixes s :: "'a mpi_scheme"
  assumes "\<forall>i\<in>set is. searchConnectionById (int i) s \<noteq> None" "-1 \<le> n"
  shows "\<exists>xs. fold_res (\<lambda>i. send_mpi (mpi_msg op False (if i < m then MSG_INITIAL_LENGTH + n else MSG_INITIAL_LENGTH) rt i n)) is s =
      Ok (s\<lparr>os_out := os_out s @ map Data xs\<rparr>) \<and>
    map mm_dest xs = is \<and> map mm_length xs = map (\<lambda>i. if i < m then 1 + n else 1) is"
  using assms
proof (induction "is" arbitrary: s)
  case Nil
  then show ?case by simp
next
  case (Cons i "is")
  obtain k where k: "searchConnectionById (int i) s = Some k" using Cons.prems(1) by auto
  let ?m = "mpi_msg op False (if i < m then MSG_INITIAL_LENGTH + n else MSG_INITIAL_LENGTH) rt i n"
  let ?x = "over_connection (connections s ! k) ?m"
  let ?s = "s\<lparr>os_out := os_out s @ [Data ?x]\<rparr>"
  have one: "send_mpi ?m s = Ok ?s"
    using k Cons.prems(2) by (simp add: send_mpi_def sendDataToNetwork_def to_os_def mpi_msg_def MSG_INITIAL_LENGTH_def)
  have "\<forall>i\<in>set is. searchConnectionById (int i) ?s \<noteq> None" using Cons.prems(1) by (simp add: searchConnectionById_def)
  from Cons.IH[OF this Cons.prems(2)] obtain xs where xs:
    "fold_res (\<lambda>i. send_mpi (mpi_msg op False (if i < m then MSG_INITIAL_LENGTH + n else MSG_INITIAL_LENGTH) rt i n)) is ?s =
      Ok (?s\<lparr>os_out := os_out ?s @ map Data xs\<rparr>)"
    "map mm_dest xs = is" "map mm_length xs = map (\<lambda>i. if i < m then 1 + n else 1) is" by blast
  have "mm_dest ?x = i" "mm_length ?x = (if i < m then 1 + n else 1)"
    by (simp_all add: over_connection_def mpi_msg_def MSG_INITIAL_LENGTH_def)
  with one xs show ?case by (intro exI[of _ "?x # xs"]) simp
qed

text \<open>
  A broadcast costs a logarithmic number of full messages: every other process gets one message, and with \<open>e\<close>
  the least positive exponent for which \<open>2 ^ e\<close> reaches the number of processes only the ranks below \<open>2 * e - 1\<close> get
  one that is as long as the data.
\<close>

theorem broadcast_cost:
  assumes "0 < numProcesses s" "rt = myRank s" "-1 \<le> n" "\<forall>i\<in>set (others s). searchConnectionById (int i) s \<noteq> None"
  shows "\<exists>e t xs. 0 < e \<and> numProcesses s \<le> 2 ^ e \<and> (\<forall>k\<in>{1..<e}. 2 ^ k < numProcesses s) \<and> mpi_bcast rt n s = Ok (t, True) \<and>
     os_out t = os_out s @ map Data xs \<and> map mm_dest xs = others s \<and>
     map mm_length xs = map (\<lambda>i. if i < 2 * e - 1 then 1 + n else 1) (others s)"
proof -
  let ?s = "(set_call MPI_BCAST rt (myRank s) n s)\<lparr>currentMPICall :=
      (currentMPICall (set_call MPI_BCAST rt (myRank s) n s))\<lparr>mc_root := rt\<rparr>\<rparr>"
  have same: "myRank ?s = myRank s" "numProcesses ?s = numProcesses s" "others ?s = others s" "os_out ?s = os_out s"
    by (simp_all add: set_call_def others_def)
  have conn: "\<forall>i\<in>set (others s). searchConnectionById (int i) ?s \<noteq> None"
    using assms(4) by (simp add: set_call_def searchConnectionById_def)
  obtain e where e: "bcast_loop (numProcesses s) 1 = Ok e" "1 \<le> e" "numProcesses s \<le> 2 ^ e" "\<forall>k\<in>{1..<e}. 2 ^ k < numProcesses s"
    using bcast_loop_least[of 1 "numProcesses s"] assms(1) by auto
  obtain xs where xs: "fold_res (\<lambda>i. send_mpi (mpi_msg MPI_BCAST False (if i < e * 2 - 1 then MSG_INITIAL_LENGTH + n
        else MSG_INITIAL_LENGTH) rt i n)) (others s) ?s = Ok (?s\<lparr>os_out := os_out ?s @ map Data xs\<rparr>)"
      "map mm_dest xs = others s" "map mm_length xs = map (\<lambda>i. if i < e * 2 - 1 then 1 + n else 1) (others s)"
    using broadcast_fold[OF conn assms(3)] by blast
  have "calculateBcastMax ?s = Ok e" using e(1) same(2) by (simp add: calculateBcastMax_def)
  then have "mpi_bcast rt n s = Ok (next_call (?s\<lparr>os_out := os_out ?s @ map Data xs\<rparr>), True)"
    using xs(1) assms(2) same by (simp add: mpi_bcast_def Let_def)
  moreover have "os_out (next_call (?s\<lparr>os_out := os_out ?s @ map Data xs\<rparr>)) = os_out s @ map Data xs"
    by (simp add: next_call_def set_call_def)
  ultimately show ?thesis using e xs(2,3) by (intro exI[of _ e]) (auto simp: mult.commute[of e 2])
qed

lemma keeps_bcast_loop: "0 < n \<Longrightarrow> \<exists>e. bcast_loop n 1 = Ok e"
  using bcast_loop_least[of 1 n] by auto

subsection \<open>Well-formed states\<close>

datatype mpi_op = Op_send nat int | Op_recv nat int | Op_irecv nat int | Op_barrier | Op_bcast nat int
  | Op_scatter nat int | Op_gather nat int | Op_message mpi_message

fun mpi_do :: "mpi_op \<Rightarrow> 'a mpi_scheme \<Rightarrow> ('a mpi_scheme \<times> bool) res" where
  "mpi_do (Op_send r n) s = bind_res (mpi_send r n s) (\<lambda>s. Ok (s, True))"
| "mpi_do (Op_recv r n) s = Ok (mpi_recv r n s)"
| "mpi_do (Op_irecv r n) s = Ok (mpi_irecv r n s)"
| "mpi_do Op_barrier s = mpi_barrier s"
| "mpi_do (Op_bcast rt n) s = mpi_bcast rt n s"
| "mpi_do (Op_scatter rt n) s = mpi_scatter rt n s"
| "mpi_do (Op_gather rt n) s = mpi_gather rt n s"
| "mpi_do (Op_message m) s = processMPICallRequest m s"

text \<open>
  There is a barrier for every process, and it is up or down; the calls in the list are sends, scatters and
  broadcasts to this process; the process is in none of the calls or in one that can wait.
\<close>

definition mpi_typed :: "'a mpi_scheme \<Rightarrow> bool" where
  "mpi_typed s \<longleftrightarrow> 0 < numProcesses s \<and> numProcesses s \<le> length (barriers s) \<and>
     set (barriers s) \<subseteq> {MPI_BARRIER_UP, MPI_BARRIER_DOWN} \<and>
     (\<forall>c\<in>set (mpiCallList s). mc_call c \<in> {MPI_SEND, MPI_SCATTER, MPI_BCAST} \<and> mc_receiver c = myRank s) \<and>
     mc_call (currentMPICall s) \<in> {MPI_NO_VALUE, MPI_RECV, MPI_BARRIER, MPI_BCAST, MPI_SCATTER, MPI_GATHER}"

definition keeps :: "'a mpi_scheme \<Rightarrow> 'a mpi_scheme res \<Rightarrow> bool" where
  "keeps s r \<longleftrightarrow> (case r of Ok t \<Rightarrow> mpi_typed t \<and> myRank t = myRank s \<and> numProcesses t = numProcesses s
     | Fail f \<Rightarrow> f \<noteq> Undefined)"

definition state_of :: "('a mpi_scheme \<times> bool) res \<Rightarrow> 'a mpi_scheme res" where
  "state_of r = bind_res r (\<lambda>(t, go). Ok t)"

lemma state_of_simps [simp]:
  "state_of (Ok (t, go)) = Ok t" "state_of (Fail f) = Fail f" "state_of (Ok p) = Ok (fst p)"
  "state_of (bind_res r g) = bind_res r (\<lambda>x. state_of (g x))"
  by (simp_all add: state_of_def bind_res_assoc split_beta)

lemma keeps_Ok [simp]: "keeps s (Ok t) \<longleftrightarrow> mpi_typed t \<and> myRank t = myRank s \<and> numProcesses t = numProcesses s"
  by (simp add: keeps_def)

lemma keeps_Fail [simp]: "keeps s (Fail f) \<longleftrightarrow> f \<noteq> Undefined"
  by (simp add: keeps_def)

lemma keeps_bind:
  assumes "keeps s r" "\<And>t. keeps s (Ok t) \<Longrightarrow> keeps s (g t)"
  shows "keeps s (bind_res r g)"
  using assms by (cases r) auto

lemma keeps_fold:
  assumes "keeps s (Ok t)" "\<And>x u. keeps s (Ok u) \<Longrightarrow> keeps s (f x u)"
  shows "keeps s (fold_res f xs t)"
  using assms(1)
proof (induction xs arbitrary: t)
  case (Cons x xs)
  then show ?case using keeps_bind[OF assms(2)[OF Cons.prems]] by simp
qed simp

lemma keeps_update:
  assumes "keeps s (Ok t)"
  shows "keeps s (Ok (t\<lparr>os_out := out\<rparr>))" "keeps s (Ok (next_call t))" "keeps s (Ok (t\<lparr>currentMPICall := clear_call\<rparr>))"
    "mc_call c \<in> {MPI_NO_VALUE, MPI_RECV, MPI_BARRIER, MPI_BCAST, MPI_SCATTER, MPI_GATHER} \<Longrightarrow> keeps s (Ok (t\<lparr>currentMPICall := c\<rparr>))"
  using assms by (auto simp: mpi_typed_def next_call_def clear_call_def)

lemma keeps_send: "keeps s (Ok t) \<Longrightarrow> keeps s (send_mpi m t)"
  using keeps_update(1)[of s t]
  by (auto simp: send_mpi_def sendDataToNetwork_def to_os_def split: option.splits)

lemma keeps_synchronize:
  assumes "keeps s (Ok t)"
  shows "keeps s (Ok (fst (synchronize asyn t)))"
  using assms set_remove_at
  by (fastforce simp: synchronize_def Let_def deleteMPICall_def mpi_typed_def clear_call_def split: option.splits prod.splits)

lemma keeps_insert:
  assumes "keeps s (Ok t)" "mm_operation m \<in> {MPI_SEND, MPI_SCATTER, MPI_BCAST}"
  shows "keeps s (Ok (insertMPICall m t))"
  using assms by (auto simp: insertMPICall_def mpi_typed_def)

lemma keeps_mark: "keeps s (Ok t) \<Longrightarrow> i < numProcesses t \<Longrightarrow> keeps s (mark_down i t)"
  using set_update_subset_insert[of "barriers t" i MPI_BARRIER_DOWN] by (auto simp: mark_down_def mpi_typed_def)

lemma all_down_defined: "n \<le> length bs \<Longrightarrow> \<exists>b. all_down n bs = Ok b"
  by (induction n bs rule: all_down.induct) auto

lemma keeps_check:
  assumes t: "keeps s (Ok t)"
  shows "keeps s (state_of (checkBarriers t))"
proof -
  have "numProcesses t \<le> length (barriers t)" using t by (simp add: mpi_typed_def)
  then obtain b where b: "all_down (numProcesses t) (barriers t) = Ok b" using all_down_defined by blast
  have "keeps s (initBarriers t)" using t set_drop_subset[of "numProcesses t" "barriers t"]
    by (auto simp: initBarriers_def mpi_typed_def)
  then show ?thesis
    using t b by (auto simp: checkBarriers_def intro!: keeps_bind keeps_fold keeps_send keeps_update)
qed

lemma keeps_call:
  assumes "keeps s (Ok t)" "c \<in> {MPI_RECV, MPI_BCAST, MPI_SCATTER, MPI_GATHER}"
  shows "keeps s (Ok (set_call c x y n t))"
    "keeps s (Ok ((set_call c x y n t)\<lparr>currentMPICall := (currentMPICall (set_call c x y n t))\<lparr>mc_root := rt\<rparr>\<rparr>))"
    "keeps s (Ok ((set_call c x y n t)\<lparr>currentMPICall := (currentMPICall (set_call c x y n t))\<lparr>mc_root := rt, mc_pendingACKs := k\<rparr>\<rparr>))"
  using assms by (auto simp: mpi_typed_def set_call_def)

text \<open>
  C32: Every operation keeps the state of a process well formed and never goes outside of its arrays: from a
  well-formed state each call of MPI and each message, whatever its fields, ends in a well-formed state of the
  same process or in an exception.
\<close>

theorem mpi_operations_typed:
  assumes "mpi_typed s"
  shows "case mpi_do op s of
      Ok (t, go) \<Rightarrow> mpi_typed t \<and> myRank t = myRank s \<and> numProcesses t = numProcesses s
    | Fail f \<Rightarrow> f \<noteq> Undefined"
proof -
  have s: "keeps s (Ok s)" using assms by simp
  have "keeps s (state_of (mpi_do op s))"
  proof (cases op)
    case (Op_send r n)
    then show ?thesis using s by (auto simp: mpi_send_def intro!: keeps_bind keeps_send keeps_update)
  next
    case (Op_recv r n)
    then show ?thesis using keeps_synchronize[OF keeps_call(1)[OF s]] by (simp add: mpi_recv_def)
  next
    case (Op_irecv r n)
    then show ?thesis using keeps_synchronize[OF keeps_call(1)[OF s]] by (simp add: mpi_irecv_def)
  next
    case Op_barrier
    have "keeps s (Ok (s\<lparr>currentMPICall := (currentMPICall s)\<lparr>mc_call := MPI_BARRIER, mc_sender := myRank s, mc_receiver := MPI_MASTER_RANK\<rparr>\<rparr>))"
      using s by (intro keeps_update(4)) auto
    moreover have "MPI_MASTER_RANK < numProcesses s" using assms by (simp add: mpi_typed_def MPI_MASTER_RANK_def)
    ultimately show ?thesis using Op_barrier
      by (auto simp: mpi_barrier_def Let_def simp del: keeps_Ok intro!: keeps_bind keeps_send keeps_mark keeps_check)
  next
    case (Op_bcast rt n)
    define t where "t = (set_call MPI_BCAST rt (myRank s) n s)\<lparr>currentMPICall :=
        (currentMPICall (set_call MPI_BCAST rt (myRank s) n s))\<lparr>mc_root := rt\<rparr>\<rparr>"
    have t: "keeps s (Ok t)" unfolding t_def by (rule keeps_call(2)[OF s]) simp
    then have "0 < numProcesses t" by (simp add: mpi_typed_def)
    from keeps_bcast_loop[OF this] obtain e where e: "calculateBcastMax t = Ok e" by (auto simp: calculateBcastMax_def)
    have "mpi_bcast rt n s = bind_res (calculateBcastMax t) (\<lambda>e. if rt = myRank t then
        bind_res (fold_res (\<lambda>i. send_mpi (mpi_msg MPI_BCAST False
              (if i < e * 2 - 1 then MSG_INITIAL_LENGTH + n else MSG_INITIAL_LENGTH) rt i n)) (others t) t) (\<lambda>s. Ok (next_call s, True))
        else Ok (synchronize False t))"
      unfolding mpi_bcast_def Let_def t_def by (rule refl)
    then show ?thesis using Op_bcast t e keeps_synchronize[OF t]
      by (auto simp: simp del: keeps_Ok intro!: keeps_bind keeps_fold keeps_send keeps_update(2))
  next
  case (Op_scatter rt n)
    define t where "t = (set_call MPI_SCATTER rt (myRank s) n s)\<lparr>currentMPICall :=
        (currentMPICall (set_call MPI_SCATTER rt (myRank s) n s))\<lparr>mc_root := rt\<rparr>\<rparr>"
    have t: "keeps s (Ok t)" unfolding t_def by (rule keeps_call(2)[OF s]) simp
    have "mpi_scatter rt n s = (if rt = myRank t then
        bind_res (fold_res (\<lambda>i. send_mpi (mpi_msg MPI_SCATTER False (MSG_INITIAL_LENGTH + n) rt i n)) (others t) t)
          (\<lambda>s. Ok (next_call s, True))
        else Ok (synchronize False t))"
      unfolding mpi_scatter_def Let_def t_def by (rule refl)
    then show ?thesis using Op_scatter t keeps_synchronize[OF t]
      by (auto simp: simp del: keeps_Ok intro!: keeps_bind keeps_fold keeps_send keeps_update(2))
  next
    case (Op_gather rt n)
    define t where "t = (set_call MPI_GATHER (myRank s) rt n s)\<lparr>currentMPICall :=
        (currentMPICall (set_call MPI_GATHER (myRank s) rt n s))\<lparr>mc_root := rt,
          mc_pendingACKs := int (numProcesses (set_call MPI_GATHER (myRank s) rt n s)) - 1\<rparr>\<rparr>"
    have t: "keeps s (Ok t)" unfolding t_def by (rule keeps_call(3)[OF s]) simp
    have "mpi_gather rt n s = (if rt \<noteq> myRank t then
        bind_res (send_mpi (mpi_msg MPI_GATHER False (MSG_INITIAL_LENGTH + n) (myRank t) rt n) t) (\<lambda>s. Ok (next_call s, True))
        else Ok (t, False))"
      unfolding mpi_gather_def Let_def t_def by (rule refl)
    then show ?thesis using Op_gather t
      by (auto simp: simp del: keeps_Ok intro!: keeps_bind keeps_send keeps_update(2))
  next
  case (Op_message m)
    then show ?thesis using s keeps_synchronize[OF keeps_insert[OF s]]
      by (auto simp: processMPICallRequest_def Let_def mpi_barrier_down_def mpi_barrier_up_def mpi_gather_arrives_def simp del: keeps_Ok
          intro!: keeps_bind keeps_mark keeps_check keeps_update)
  qed
  then show ?thesis by (auto simp: keeps_def state_of_def split: res.splits)
qed

subsection \<open>The theorems, applied\<close>

definition link_up :: "int \<Rightarrow> connection" where
  "link_up i = \<lparr>cn_localAddress = '''', cn_destAddress = '''', cn_localPort = 0, cn_destPort = 0, cn_connectionType = '''',
     cn_id = i, cn_connectionId = 0\<rparr>"

definition sample_mpi :: mpi where
  "sample_mpi = \<lparr>os_out = [], connections = [link_up 1], myRank = 0, numProcesses = 2, workersSet = 0,
     allToAllConnections = False, currentMPICall = clear_call, lastSynchroMPICall = clear_call,
     barriers = [MPI_BARRIER_UP, MPI_BARRIER_UP], mpiCallList = [], mpiConnections = [], sameNode = []\<rparr>"

definition sample_send :: "nat \<Rightarrow> mpi_message" where
  "sample_send src = mpi_msg MPI_SEND False 9 src 0 8"

theorem mpi_operations_typed_witness:
  "case mpi_do (Op_message (mpi_msg MPI_BARRIER_DOWN True 1 1 0 0)) sample_mpi of
      Ok (t, go) \<Rightarrow> mpi_typed t \<and> myRank t = 0 \<and> numProcesses t = 2
    | Fail f \<Rightarrow> f \<noteq> Undefined"
proof -
  have "mpi_typed sample_mpi" by (simp add: mpi_typed_def sample_mpi_def clear_call_def)
  moreover have "myRank sample_mpi = 0" "numProcesses sample_mpi = 2" by (simp_all add: sample_mpi_def)
  ultimately show ?thesis
    using mpi_operations_typed[of sample_mpi "Op_message (mpi_msg MPI_BARRIER_DOWN True 1 1 0 0)"] by (simp only:)
qed

end
