(* ===== verification/HpcRun.thy ===== *)
theory HpcRun imports HpcApp HpcSpec MpiCalls begin

text \<open>
  A set of the master/worker application at work: the processes, the network and the operating system.
  An event is the start of a process, the answer to one of its requests or the arrival of a message; any
  order is possible, also among messages with the same sender and receiver.  The requests are answered
  with \<^verbatim>\<open>icancloud_OK\<close>.  The runs implement the rounds of \<open>HpcSpec\<close>.
\<close>

subsection \<open>Single operations\<close>

definition is_send :: "nat \<Rightarrow> nat \<Rightarrow> int \<Rightarrow> mpi_message \<Rightarrow> bool" where
  "is_send src dst sz m \<longleftrightarrow> mm_operation m = MPI_SEND \<and> mm_source m = src \<and> mm_dest m = dst \<and> mm_size m = word_of_int sz"

text \<open>What no operation of the application changes.\<close>

definition same_job :: "hpc \<Rightarrow> hpc \<Rightarrow> bool" where
  "same_job s t \<longleftrightarrow> myRank t = myRank s \<and> workersSet t = workersSet s \<and> numIterations t = numIterations s \<and>
     sliceToWorkers_KB t = sliceToWorkers_KB s \<and> sliceToMaster_KB t = sliceToMaster_KB s \<and>
     workersRead t = workersRead s \<and> workersWrite t = workersWrite s \<and> connections t = connections s"

lemma same_job_refl [simp]: "same_job s s"
  by (simp add: same_job_def)

lemma same_job_trans: "same_job s t \<Longrightarrow> same_job t u \<Longrightarrow> same_job s u"
  by (simp add: same_job_def)

lemma same_job_sizes: "same_job s t \<Longrightarrow> data_size t = data_size s" "same_job s t \<Longrightarrow> result_size t = result_size s"
  by (simp_all add: same_job_def data_size_def result_size_def)

lemma sizes_update [simp]:
  "data_size (s\<lparr>totalResponses := n\<rparr>) = data_size s" "result_size (s\<lparr>totalResponses := n\<rparr>) = result_size s"
  "data_size (s\<lparr>currentState := q\<rparr>) = data_size s" "result_size (s\<lparr>currentState := q\<rparr>) = result_size s"
  "data_size (s\<lparr>os_out := xs\<rparr>) = data_size s" "result_size (s\<lparr>os_out := xs\<rparr>) = result_size s"
  "data_size (s\<lparr>currentMPICall := c\<rparr>) = data_size s" "result_size (s\<lparr>currentMPICall := c\<rparr>) = result_size s"
  "data_size (s\<lparr>currentIteration := i\<rparr>) = data_size s" "result_size (s\<lparr>currentIteration := i\<rparr>) = result_size s"
  by (simp_all add: data_size_def result_size_def)

lemma sizes_are_int:
  "sint (word_of_int (data_size s) :: u32) = data_size s" "sint (word_of_int (result_size s) :: u32) = result_size s"
  by (simp_all add: data_size_def result_size_def METADATA_MSG_SIZE_def)

text \<open>\<open>moved s outs t\<close>: the process has gone from \<open>s\<close> to \<open>t\<close> and has sent \<open>outs\<close>.\<close>

definition moved :: "hpc \<Rightarrow> os_msg list \<Rightarrow> hpc \<Rightarrow> bool" where
  "moved s outs t \<longleftrightarrow> same_job s t \<and> os_out t = os_out s @ outs"

lemma moved_refl [simp]: "moved s [] s"
  by (simp add: moved_def)

lemma moved_trans: "moved s xs t \<Longrightarrow> moved t ys u \<Longrightarrow> moved s (xs @ ys) u"
  by (auto simp: moved_def intro: same_job_trans)

lemma mpi_send_works:
  assumes "searchConnectionById (int r) s \<noteq> None" "-1 \<le> n"
  shows "\<exists>x. mpi_send r n s = Ok (s\<lparr>os_out := os_out s @ [Data x], currentMPICall := clear_call\<rparr>) \<and>
     is_send (myRank s) r n x"
  using assms by (auto simp: mpi_send_def send_mpi_def mpi_msg_def sendDataToNetwork_def to_os_def is_send_def
      over_connection_def MSG_INITIAL_LENGTH_def)

definition waits_for :: "nat \<Rightarrow> int \<Rightarrow> mpi_call \<Rightarrow> bool" where
  "waits_for sender sz c \<longleftrightarrow> mc_call c = MPI_RECV \<and> mc_sender c = sender \<and> mc_bufferSize c = sz"

lemma synchronize_empty:
  "mpiCallList s = [] \<Longrightarrow> synchronize asyn s = (s, False)"
  by (auto simp: synchronize_def Let_def searchMPICall_def split: prod.splits)

lemma synchronize_first:
  assumes "waits_for sender sz (currentMPICall s)" "mpiCallList s = [c]" "matches_call MPI_SEND sender sz c"
  shows "\<exists>l. synchronize False s = (s\<lparr>lastSynchroMPICall := l, currentMPICall := clear_call, mpiCallList := []\<rparr>, True)"
  using assms by (auto simp: synchronize_def Let_def waits_for_def wanted_call_def searchMPICall_def deleteMPICall_def
      remove_at_def mpi_codes)

lemma call_of_matches:
  "is_send src dst sz m \<Longrightarrow> sint (word_of_int sz :: u32) = sz \<Longrightarrow> sender = src \<or> sender = MPI_ANY_SENDER \<Longrightarrow>
     matches_call MPI_SEND sender sz (call_of m r)"
  by (auto simp: matches_call_def is_send_def call_of_def)

lemma arrives_waiting:
  assumes "waits_for sender sz (currentMPICall s)" "mpiCallList s = []" "is_send src dst sz m"
    and "sint (word_of_int sz :: u32) = sz" "sender = src \<or> sender = MPI_ANY_SENDER"
  shows "\<exists>l. hpc_processRequestMessage m s =
     calculateNextState (s\<lparr>lastSynchroMPICall := l, currentMPICall := clear_call\<rparr>)"
proof -
  let ?s = "insertMPICall m s"
  have "waits_for sender sz (currentMPICall ?s)" "mpiCallList ?s = [call_of m (myRank s)]"
    using assms(1,2) by (simp_all add: insertMPICall_call)
  from synchronize_first[OF this call_of_matches[OF assms(3-5)]] obtain l where
    "synchronize False ?s = (?s\<lparr>lastSynchroMPICall := l, currentMPICall := clear_call, mpiCallList := []\<rparr>, True)" by blast
  moreover have "?s\<lparr>lastSynchroMPICall := l, currentMPICall := clear_call, mpiCallList := []\<rparr> =
      s\<lparr>lastSynchroMPICall := l, currentMPICall := clear_call\<rparr>"
    using assms(2) by (simp add: insertMPICall_call)
  ultimately show ?thesis
    using assms(3) by (auto simp: hpc_processRequestMessage_def processMPICallRequest_def Let_def is_send_def)
qed

lemma arrives_early:
  assumes "currentMPICall s = clear_call" "mpiCallList s = []" "is_send src dst sz m"
  shows "hpc_processRequestMessage m s = Ok (s\<lparr>mpiCallList := [call_of m (myRank s)]\<rparr>)"
  using assms by (auto simp: hpc_processRequestMessage_def processMPICallRequest_def Let_def is_send_def insertMPICall_call
      synchronize_def clear_call_def)

subsection \<open>Where a process stands\<close>

definition is_io :: "int \<Rightarrow> os_msg list \<Rightarrow> bool" where
  "is_io opn pd \<longleftrightarrow> (\<exists>file off sz len. pd = [Io opn file off sz len])"

lemma request_io_works:
  assumes "opn \<in> {SM_READ_FILE, SM_WRITE_FILE, SM_CREATE_FILE}"
  shows "\<exists>pd. is_io opn pd \<and> request_io opn f p z s = Ok (s\<lparr>os_out := os_out s @ pd\<rparr>)"
proof -
  obtain len where "request_io opn f p z s = Ok (s\<lparr>os_out := os_out s @ [Io opn f p z len]\<rparr>)"
    using assms by (auto simp: request_io_def updateLength_def new_io_def Let_def to_os_def SM_READ_FILE_def
        SM_WRITE_FILE_def SM_CREATE_FILE_def)
  then show ?thesis by (intro exI[of _ "[Io opn f p z len]"]) (simp add: is_io_def)
qed

lemma request_works:
  "\<exists>pd. is_io SM_READ_FILE pd \<and> request_read f p z s = Ok (s\<lparr>os_out := os_out s @ pd\<rparr>)"
  "\<exists>pd. is_io SM_WRITE_FILE pd \<and> request_write f p z s = Ok (s\<lparr>os_out := os_out s @ pd\<rparr>)"
  "\<exists>pd. is_io SM_CREATE_FILE pd \<and> request_create f s = Ok (s\<lparr>os_out := os_out s @ pd\<rparr>)"
  by (simp_all add: request_read_def request_write_def request_create_def request_io_works)

text \<open>The process is in state \<open>q\<close> of round \<open>k\<close> and makes no call of MPI.\<close>

definition idle :: "hpc_state \<Rightarrow> round_no \<Rightarrow> hpc \<Rightarrow> bool" where
  "idle q k s \<longleftrightarrow> currentState s = q \<and> currentIteration s = k \<and> currentMPICall s = clear_call"

text \<open>
  The position of a worker, with its timer \<open>tm\<close> and its open requests \<open>pd\<close>; \<open>m\<close> is its master.
\<close>

definition worker_at :: "nat \<Rightarrow> wpos \<Rightarrow> round_no \<Rightarrow> bool \<Rightarrow> os_msg list \<Rightarrow> hpc \<Rightarrow> bool" where
  "worker_at m p k tm pd s \<longleftrightarrow> (case p of
     Unstarted \<Rightarrow> tm \<and> pd = [] \<and> idle HPCAPP_INIT k s \<and> \<not> createdResultsFile s
   | Creating \<Rightarrow> \<not> tm \<and> is_io SM_CREATE_FILE pd \<and> idle HPCAPP_INIT k s \<and> createdResultsFile s
   | Finished \<Rightarrow> \<not> tm \<and> pd = [] \<and> idle HPCAPP_INIT k s \<and> finishing s
   | Receiving \<Rightarrow> \<not> tm \<and> pd = [] \<and> (createdResultsFile s \<or> \<not> workersWrite s) \<and> currentState s = HPCAPP_WORKER_RECEIVING \<and>
       currentIteration s = k \<and> waits_for m (data_size s) (currentMPICall s)
   | Reading \<Rightarrow> \<not> tm \<and> (createdResultsFile s \<or> \<not> workersWrite s) \<and> is_io SM_READ_FILE pd \<and> idle HPCAPP_WORKER_READING k s
   | Allocating \<Rightarrow> \<not> tm \<and> (createdResultsFile s \<or> \<not> workersWrite s) \<and> (\<exists>opn sz r. pd = [Mem opn sz r]) \<and>
       idle HPCAPP_WORKER_ALLOCATING k s
   | Processing \<Rightarrow> \<not> tm \<and> (createdResultsFile s \<or> \<not> workersWrite s) \<and> (\<exists>opn t r. pd = [Cpu opn t r]) \<and>
       idle HPCAPP_WORKER_PROCESSING k s
   | Writing \<Rightarrow> \<not> tm \<and> (createdResultsFile s \<or> \<not> workersWrite s) \<and> is_io SM_WRITE_FILE pd \<and> idle HPCAPP_WORKER_WRITTING k s)"

definition master_at :: "mpos \<Rightarrow> round_no \<Rightarrow> bool \<Rightarrow> os_msg list \<Rightarrow> hpc \<Rightarrow> bool" where
  "master_at p k tm pd s \<longleftrightarrow> mpiCallList s = [] \<and> (case p of
     MUnstarted \<Rightarrow> tm \<and> pd = [] \<and> idle HPCAPP_INIT k s \<and> \<not> createdResultsFile s
   | MCreating \<Rightarrow> \<not> tm \<and> is_io SM_CREATE_FILE pd \<and> idle HPCAPP_INIT k s \<and> createdResultsFile s
   | MReading t \<Rightarrow> \<not> tm \<and> (createdResultsFile s \<or> workersWrite s) \<and> is_io SM_READ_FILE pd \<and> \<not> workersRead s \<and>
       idle HPCAPP_MASTER_READING k s \<and> totalResponses s = word_of_nat t
   | MWaiting t \<Rightarrow> \<not> tm \<and> (createdResultsFile s \<or> workersWrite s) \<and> pd = [] \<and> currentIteration s = k \<and>
       currentState s = HPCAPP_MASTER_WAITING_RESULTS \<and> totalResponses s = word_of_nat t \<and>
       waits_for MPI_ANY_SENDER (result_size s) (currentMPICall s)
   | MWriting t \<Rightarrow> \<not> tm \<and> (createdResultsFile s \<or> workersWrite s) \<and> is_io SM_WRITE_FILE pd \<and> \<not> workersWrite s \<and>
       idle HPCAPP_MASTER_WRITTING k s \<and> totalResponses s = word_of_nat t
   | MFinished \<Rightarrow> \<not> tm \<and> pd = [] \<and> idle HPCAPP_INIT k s \<and> finishing s)"

subsection \<open>Steps of a worker\<close>

definition is_worker :: "hpc \<Rightarrow> bool" where
  "is_worker s \<longleftrightarrow> \<not> isMaster (workersSet s) (myRank s)"

lemma worker_activation: "is_worker s \<Longrightarrow> activation s = worker_activation s"
  by (simp add: is_worker_def activation_def)

lemma worker_same: "is_worker s \<Longrightarrow> same_job s t \<Longrightarrow> is_worker t"
  by (simp add: is_worker_def same_job_def)

lemma advance_same:
  "same_job s (advance_read s)" "os_out (advance_read s) = os_out s" "currentState (advance_read s) = currentState s"
  "currentIteration (advance_read s) = currentIteration s" "currentMPICall (advance_read s) = currentMPICall s"
  "mpiCallList (advance_read s) = mpiCallList s" "createdResultsFile (advance_read s) = createdResultsFile s"
  "totalResponses (advance_read s) = totalResponses s" "workersRead (advance_read s) = workersRead s"
  "same_job s (advance_write s)" "os_out (advance_write s) = os_out s" "currentState (advance_write s) = currentState s"
  "currentIteration (advance_write s) = currentIteration s" "currentMPICall (advance_write s) = currentMPICall s"
  "mpiCallList (advance_write s) = mpiCallList s" "createdResultsFile (advance_write s) = createdResultsFile s"
  "totalResponses (advance_write s) = totalResponses s" "workersWrite (advance_write s) = workersWrite s"
  by (simp_all add: advance_read_def advance_write_def same_job_def)

text \<open>Reading and writing.\<close>

lemma issue_read_works:
  "\<exists>t pd. issue_read s = Ok (t, False) \<and> moved s pd t \<and> is_io SM_READ_FILE pd \<and> mpiCallList t = mpiCallList s \<and>
     currentState t = currentState s \<and> currentIteration t = currentIteration s \<and> currentMPICall t = currentMPICall s \<and>
     createdResultsFile t = createdResultsFile s \<and> totalResponses t = totalResponses s"
proof -
  obtain pd where pd: "is_io SM_READ_FILE pd"
      "request_read (inputFileName s) (offsetRead s) (sliceToWorkers_KB s * KB) s = Ok (s\<lparr>os_out := os_out s @ pd\<rparr>)"
    using request_works(1) by blast
  let ?t = "advance_read (s\<lparr>os_out := os_out s @ pd\<rparr>)"
  have "issue_read s = Ok (?t, False)" using pd(2) by (simp add: issue_read_def)
  moreover have "same_job s ?t" using advance_same(1)[of "s\<lparr>os_out := os_out s @ pd\<rparr>"] by (simp add: same_job_def)
  ultimately show ?thesis using pd(1) by (auto simp: moved_def advance_same)
qed

lemma issue_write_works:
  "\<exists>t pd. issue_write s = Ok (t, False) \<and> moved s pd t \<and> is_io SM_WRITE_FILE pd \<and> mpiCallList t = mpiCallList s \<and>
     currentState t = currentState s \<and> currentIteration t = currentIteration s \<and> currentMPICall t = currentMPICall s \<and>
     createdResultsFile t = createdResultsFile s \<and> totalResponses t = totalResponses s"
proof -
  obtain pd where pd: "is_io SM_WRITE_FILE pd"
      "request_write (outFileName s) (offsetWrite s) (sliceToMaster_KB s * KB) s = Ok (s\<lparr>os_out := os_out s @ pd\<rparr>)"
    using request_works(2) by blast
  let ?t = "advance_write (s\<lparr>os_out := os_out s @ pd\<rparr>)"
  have "issue_write s = Ok (?t, False)" using pd(2) by (simp add: issue_write_def)
  moreover have "same_job s ?t" using advance_same(10)[of "s\<lparr>os_out := os_out s @ pd\<rparr>"] by (simp add: same_job_def)
  ultimately show ?thesis using pd(1) by (auto simp: moved_def advance_same)
qed

lemma create_works:
  "\<exists>t pd. create_results s = Ok (t, False) \<and> moved s pd t \<and> is_io SM_CREATE_FILE pd \<and> mpiCallList t = mpiCallList s \<and>
     currentState t = currentState s \<and> currentIteration t = currentIteration s \<and> currentMPICall t = currentMPICall s \<and>
     createdResultsFile t"
proof -
  let ?s = "s\<lparr>totalResponses := 1, createdResultsFile := True\<rparr>"
  obtain pd where pd: "is_io SM_CREATE_FILE pd"
      "request_create (outFileName s) ?s = Ok (?s\<lparr>os_out := os_out ?s @ pd\<rparr>)"
    using request_works(3) by blast
  have "create_results s = Ok (?s\<lparr>os_out := os_out ?s @ pd\<rparr>, False)" using pd(2) by (simp add: create_results_def)
  then show ?thesis using pd(1) by (auto simp: moved_def same_job_def)
qed

lemma worker_works:
  assumes "is_worker s" "currentState s = HPCAPP_WORKER_RECEIVING" "currentMPICall s = clear_call" "mpiCallList s = []"
    and "createdResultsFile s \<or> \<not> workersWrite s"
  shows "\<exists>t pd. calculateNextState s = Ok t \<and> moved s pd t \<and> mpiCallList t = [] \<and>
     worker_at m (if workersRead s then Reading else Allocating) (currentIteration s) False pd t"
proof (cases "workersRead s")
  case True
  let ?s = "enter HPCAPP_WORKER_READING s\<lparr>totalResponses := 1\<rparr>"
  obtain t pd where t: "issue_read ?s = Ok (t, False)" "moved ?s pd t" "is_io SM_READ_FILE pd" "mpiCallList t = mpiCallList ?s"
      "currentState t = currentState ?s" "currentIteration t = currentIteration ?s" "currentMPICall t = currentMPICall ?s"
      "createdResultsFile t = createdResultsFile ?s"
    using issue_read_works[of ?s] by blast
  have "activation s = Ok (t, False)"
    using assms(1,2) True t(1) by (simp add: worker_activation worker_activation_def readInputDataWorkers_def enter_def)
  moreover have "moved s pd t" using t(2) by (simp add: moved_def same_job_def enter_def)
  moreover have "worker_at m Reading (currentIteration s) False pd t"
    using t assms(3,5) by (auto simp: worker_at_def idle_def enter_def moved_def same_job_def)
  ultimately show ?thesis using True t(4) assms(4) next_stop by (auto simp: enter_def)
next
  case False
  let ?s = "enter HPCAPP_WORKER_READING s\<lparr>totalResponses := 0\<rparr>"
  let ?t = "request_allocMemory 1 0 (enter HPCAPP_WORKER_ALLOCATING ?s)"
  have "activation s = Ok (?s, True)"
    using assms(1,2) False by (simp add: worker_activation worker_activation_def readInputDataWorkers_def skip_io_def enter_def)
  moreover have "is_worker ?s" using assms(1) by (simp add: is_worker_def enter_def)
  then have "activation ?s = Ok (?t, False)"
    by (simp add: worker_activation worker_activation_def allocating_def enter_def)
  ultimately have "calculateNextState s = Ok ?t" using next_again next_stop by simp
  moreover have "moved s [Mem SM_MEM_ALLOCATE 1 0] ?t"
    by (simp add: moved_def same_job_def enter_def request_allocMemory_def to_os_def)
  moreover have "worker_at m Allocating (currentIteration s) False [Mem SM_MEM_ALLOCATE 1 0] ?t"
    using assms(3,5) by (auto simp: worker_at_def idle_def enter_def request_allocMemory_def to_os_def)
  ultimately show ?thesis using False assms(4) by (auto simp: enter_def request_allocMemory_def to_os_def)
qed

text \<open>A worker looks for its data: there is none, or it has come already.\<close>

lemma worker_looks:
  assumes w: "is_worker s" "currentState s = HPCAPP_INIT" "currentMPICall s = clear_call"
    and c: "createdResultsFile s \<or> \<not> workersWrite s" and m: "getMyMaster (workersSet s) (myRank s) = m"
    and l: "mpiCallList s = (if got then [c] else [])" "got \<Longrightarrow> matches_call MPI_SEND m (data_size s) c"
  shows "\<exists>t pd. calculateNextState s = Ok t \<and> moved s pd t \<and> mpiCallList t = [] \<and>
     worker_at m (if got then if workersRead s then Reading else Allocating else Receiving) (currentIteration s) False pd t"
proof -
  let ?s = "set_call MPI_RECV m (myRank s) (data_size s) (enter HPCAPP_WORKER_RECEIVING s)"
  have wait: "waits_for m (data_size s) (currentMPICall ?s)" by (simp add: waits_for_def set_call_def)
  have act: "activation s = Ok (synchronize False ?s)"
    using w c m by (auto simp: worker_activation worker_activation_def receiveInputData_def mpi_recv_def enter_def data_size_def)
  have same: "moved s [] ?s" "mpiCallList ?s = mpiCallList s" by (simp_all add: moved_def same_job_def set_call_def enter_def)
  show ?thesis
  proof (cases got)
    case False
    then have "synchronize False ?s = (?s, False)" using l(1) same(2) by (intro synchronize_empty) simp
    then have "calculateNextState s = Ok ?s" using act next_stop by simp
    moreover have "worker_at m Receiving (currentIteration s) False [] ?s"
      using c wait same_job_sizes(1)[of s ?s] same(1) by (auto simp: worker_at_def moved_def set_call_def enter_def)
    ultimately show ?thesis using False same l(1) by auto
  next
    case True
    then obtain x where x: "synchronize False ?s =
        (?s\<lparr>lastSynchroMPICall := x, currentMPICall := clear_call, mpiCallList := []\<rparr>, True)" (is "_ = (?t, True)")
      using synchronize_first[OF wait _ l(2)] l(1) same(2) by auto
    have "is_worker ?t" "currentState ?t = HPCAPP_WORKER_RECEIVING" "currentMPICall ?t = clear_call" "mpiCallList ?t = []"
        "createdResultsFile ?t \<or> \<not> workersWrite ?t" "workersRead ?t = workersRead s" "currentIteration ?t = currentIteration s"
      using w(1) c by (simp_all add: is_worker_def set_call_def enter_def)
    then obtain t pd where t: "calculateNextState ?t = Ok t" "moved ?t pd t" "mpiCallList t = []"
        "worker_at m (if workersRead s then Reading else Allocating) (currentIteration s) False pd t"
      using worker_works[of ?t m] by auto
    have "calculateNextState s = Ok t" using act x t(1) next_again by simp
    moreover have "moved s pd t" using t(2) by (simp add: moved_def same_job_def set_call_def enter_def)
    ultimately show ?thesis using True t(3,4) by auto
  qed
qed

lemma worker_starts:
  assumes w: "is_worker s" "worker_at m Unstarted k True [] s" and m: "getMyMaster (workersSet s) (myRank s) = m"
    and l: "mpiCallList s = (if got then [c] else [])" "got \<Longrightarrow> matches_call MPI_SEND m (data_size s) c"
  shows "\<exists>t pd. calculateNextState s = Ok t \<and> moved s pd t \<and>
     (if workersWrite s then worker_at m Creating k False pd t \<and> mpiCallList t = mpiCallList s
      else mpiCallList t = [] \<and>
        worker_at m (if got then if workersRead s then Reading else Allocating else Receiving) k False pd t)"
proof (cases "workersWrite s")
  case True
  obtain t pd where t: "create_results s = Ok (t, False)" "moved s pd t" "is_io SM_CREATE_FILE pd"
      "mpiCallList t = mpiCallList s" "currentState t = currentState s" "currentIteration t = currentIteration s"
      "currentMPICall t = currentMPICall s" "createdResultsFile t"
    using create_works[of s] by blast
  have "activation s = Ok (t, False)"
    using w True t(1) by (simp add: worker_activation worker_activation_def worker_at_def idle_def)
  with w(2) t True show ?thesis using next_stop by (auto simp: worker_at_def idle_def)
next
  case False
  with w(2) worker_looks[OF w(1) _ _ _ m l] show ?thesis by (auto simp: worker_at_def idle_def)
qed

lemma worker_allocates:
  assumes "is_worker s" "worker_at m Reading k False pd s" "mpiCallList s = []"
  shows "\<exists>t pd'. processIOCallResponse SM_READ_FILE icancloud_OK s = Ok t \<and> moved s pd' t \<and>
     worker_at m Allocating k False pd' t \<and> mpiCallList t = []"
proof -
  let ?s = "s\<lparr>totalResponses := totalResponses s - 1\<rparr>"
  let ?t = "request_allocMemory 1 0 (enter HPCAPP_WORKER_ALLOCATING ?s)"
  have "activation ?s = Ok (?t, False)"
    using assms by (simp add: worker_activation is_worker_def activation_def worker_activation_def worker_at_def idle_def
        allocating_def enter_def)
  then have "processIOCallResponse SM_READ_FILE icancloud_OK s = Ok ?t"
    using assms(2) next_stop by (simp add: processIOCallResponse_def worker_at_def idle_def SM_READ_FILE_def SM_WRITE_FILE_def)
  moreover have "moved s [Mem SM_MEM_ALLOCATE 1 0] ?t"
    by (simp add: moved_def same_job_def enter_def request_allocMemory_def to_os_def)
  moreover have "worker_at m Allocating k False [Mem SM_MEM_ALLOCATE 1 0] ?t" "mpiCallList ?t = []"
    using assms(2,3) by (auto simp: worker_at_def idle_def enter_def request_allocMemory_def to_os_def)
  ultimately show ?thesis by blast
qed

lemma worker_computes:
  assumes "is_worker s" "worker_at m Allocating k False pd s" "mpiCallList s = []"
  shows "\<exists>t pd'. processMEMCallResponse s = Ok t \<and> moved s pd' t \<and> worker_at m Processing k False pd' t \<and> mpiCallList t = []"
proof -
  let ?t = "request_cpu (sliceCPU s) (enter HPCAPP_WORKER_PROCESSING s)"
  have "activation s = Ok (?t, False)"
    using assms by (simp add: worker_activation worker_activation_def worker_at_def idle_def processingCPU_def enter_def)
  then have "processMEMCallResponse s = Ok ?t" using next_stop by (simp add: processMEMCallResponse_def)
  moreover have "moved s [Cpu SM_CPU_EXEC (sliceCPU s) (sliceCPU s)] ?t"
    by (simp add: moved_def same_job_def enter_def request_cpu_def to_os_def)
  moreover have "worker_at m Processing k False [Cpu SM_CPU_EXEC (sliceCPU s) (sliceCPU s)] ?t" "mpiCallList ?t = []"
    using assms(2,3) by (auto simp: worker_at_def idle_def enter_def request_cpu_def to_os_def)
  ultimately show ?thesis by blast
qed

text \<open>The result is sent, the next round begins or the worker has finished.\<close>

definition after_round :: "hpc \<Rightarrow> wpos" where
  "after_round s = (if currentIteration s + 1 > numIterations s then Finished else Receiving)"

lemma worker_sends:
  assumes w: "is_worker s" "currentState s = HPCAPP_WORKER_WRITTING" "currentMPICall s = clear_call" "mpiCallList s = []"
    and c: "createdResultsFile s \<or> \<not> workersWrite s" and m: "getMyMaster (workersSet s) (myRank s) = m"
    and n: "searchConnectionById (int m) s \<noteq> None" "-1 \<le> result_size s"
  shows "\<exists>t x. calculateNextState s = Ok t \<and> moved s [Data x] t \<and> is_send (myRank s) m (result_size s) x \<and>
     mpiCallList t = [] \<and> worker_at m (after_round s) (currentIteration s + 1) False [] t"
proof -
  let ?s = "enter HPCAPP_WORKER_SENDING_BACK s"
  have "searchConnectionById (int m) ?s \<noteq> None" using n(1) by (simp add: searchConnectionById_def enter_def)
  then obtain x where x: "mpi_send m (result_size s) ?s = Ok (?s\<lparr>os_out := os_out ?s @ [Data x], currentMPICall := clear_call\<rparr>)"
      (is "_ = Ok ?u") "is_send (myRank ?s) m (result_size s) x"
    using mpi_send_works[OF _ n(2)] by blast
  have r: "result_size ?s = result_size s" by (simp add: enter_def)
  have "activation s = Ok (?u, True)"
    using w(1,2) m x(1) r by (simp add: worker_activation worker_activation_def sendResults_def enter_def)
  then have go: "calculateNextState s = calculateNextState ?u" by (rule next_again)
  let ?v = "enter HPCAPP_INIT ?u\<lparr>currentIteration := currentIteration s + 1\<rparr>"
  have act: "activation ?u = (if currentIteration s + 1 > numIterations s then Ok (?v\<lparr>finishing := True\<rparr>, False) else Ok (?v, True))"
    using w(1) by (simp add: worker_activation worker_activation_def is_worker_def nextIteration_def enter_def activation_def)
  have mv: "moved s [Data x] ?v" by (simp add: moved_def same_job_def enter_def)
  have sx: "is_send (myRank s) m (result_size s) x" using x(2) by (simp add: enter_def)
  show ?thesis
  proof (cases "currentIteration s + 1 > numIterations s")
    case True
    then have "calculateNextState s = Ok (?v\<lparr>finishing := True\<rparr>)" using go act next_stop by simp
    moreover have "moved s [Data x] (?v\<lparr>finishing := True\<rparr>)" using mv by (simp add: moved_def same_job_def)
    moreover have "worker_at m Finished (currentIteration s + 1) False [] (?v\<lparr>finishing := True\<rparr>)"
      by (simp add: worker_at_def idle_def enter_def)
    ultimately show ?thesis using True sx w(4) by (auto simp: after_round_def enter_def)
  next
    case False
    then have "calculateNextState s = calculateNextState ?v" using go act next_again by simp
    moreover have "is_worker ?v" "currentState ?v = HPCAPP_INIT" "currentMPICall ?v = clear_call"
        "createdResultsFile ?v \<or> \<not> workersWrite ?v" "getMyMaster (workersSet ?v) (myRank ?v) = m"
        "mpiCallList ?v = (if False then [undefined] else [])"
      using w c m by (simp_all add: is_worker_def enter_def)
    then obtain t pd where t: "calculateNextState ?v = Ok t" "moved ?v pd t" "mpiCallList t = []"
        "worker_at m Receiving (currentIteration s + 1) False pd t"
      using worker_looks[of ?v m False undefined] by (auto simp: enter_def)
    have "pd = []" using t(4) by (simp add: worker_at_def)
    with mv t(2) have "moved s [Data x] t" using moved_trans by fastforce
    ultimately show ?thesis using False sx t \<open>pd = []\<close> by (auto simp: after_round_def)
  qed
qed

lemma worker_cpu_done:
  assumes w: "is_worker s" "worker_at m Processing k False pd s" "mpiCallList s = []"
    and m: "getMyMaster (workersSet s) (myRank s) = m"
    and n: "searchConnectionById (int m) s \<noteq> None" "-1 \<le> result_size s"
  shows "\<exists>t outs. processCPUCallResponse s = Ok t \<and> moved s outs t \<and> mpiCallList t = [] \<and>
     (if workersWrite s then worker_at m Writing k False outs t
      else \<exists>x. outs = [Data x] \<and> is_send (myRank s) m (result_size s) x \<and> worker_at m (after_round s) (k + 1) False [] t)"
proof (cases "workersWrite s")
  case True
  let ?s = "enter HPCAPP_WORKER_WRITTING s\<lparr>totalResponses := 1\<rparr>"
  obtain t pd' where t: "issue_write ?s = Ok (t, False)" "moved ?s pd' t" "is_io SM_WRITE_FILE pd'"
      "mpiCallList t = mpiCallList ?s" "currentState t = currentState ?s" "currentIteration t = currentIteration ?s"
      "currentMPICall t = currentMPICall ?s" "createdResultsFile t = createdResultsFile ?s"
    using issue_write_works[of ?s] by blast
  have "activation s = Ok (t, False)"
    using w True t(1) by (simp add: worker_activation worker_activation_def writtingDataWorkers_def worker_at_def idle_def enter_def)
  then have "processCPUCallResponse s = Ok t" using next_stop by (simp add: processCPUCallResponse_def)
  moreover have "moved s pd' t" using t(2) by (simp add: moved_def same_job_def enter_def)
  moreover have "worker_at m Writing k False pd' t" using t w(2) by (auto simp: worker_at_def idle_def enter_def moved_def same_job_def)
  ultimately show ?thesis using True t(4) w(3) by (auto simp: enter_def)
next
  case False
  let ?s = "enter HPCAPP_WORKER_WRITTING s\<lparr>totalResponses := 0\<rparr>"
  have "activation s = Ok (?s, True)"
    using w False by (simp add: worker_activation worker_activation_def writtingDataWorkers_def skip_io_def worker_at_def idle_def enter_def)
  then have go: "processCPUCallResponse s = calculateNextState ?s" using next_again by (simp add: processCPUCallResponse_def)
  have k: "currentIteration s = k" "currentMPICall s = clear_call" using w(2) by (simp_all add: worker_at_def idle_def)
  have "is_worker ?s" "currentState ?s = HPCAPP_WORKER_WRITTING" "currentMPICall ?s = clear_call" "mpiCallList ?s = []"
      "createdResultsFile ?s \<or> \<not> workersWrite ?s" "getMyMaster (workersSet ?s) (myRank ?s) = m"
      "searchConnectionById (int m) ?s \<noteq> None" "-1 \<le> result_size ?s"
    using w False m n k by (simp_all add: is_worker_def enter_def searchConnectionById_def)
  from worker_sends[OF this] obtain t x where t: "calculateNextState ?s = Ok t" "moved ?s [Data x] t"
      "is_send (myRank ?s) m (result_size ?s) x" "mpiCallList t = []"
      "worker_at m (after_round ?s) (currentIteration ?s + 1) False [] t" by blast
  have "moved s [Data x] t" using t(2) by (simp add: moved_def same_job_def enter_def)
  moreover have "is_send (myRank s) m (result_size s) x" using t(3) by (simp add: enter_def)
  moreover have "worker_at m (after_round s) (k + 1) False [] t" using t(5) k by (simp add: after_round_def enter_def)
  ultimately show ?thesis using False go t(1,4) by auto
qed

lemma worker_write_done:
  assumes w: "is_worker s" "worker_at m Writing k False pd s" "mpiCallList s = []"
    and m: "getMyMaster (workersSet s) (myRank s) = m"
    and n: "searchConnectionById (int m) s \<noteq> None" "-1 \<le> result_size s"
  shows "\<exists>t x. processIOCallResponse SM_WRITE_FILE icancloud_OK s = Ok t \<and> moved s [Data x] t \<and> mpiCallList t = [] \<and>
     is_send (myRank s) m (result_size s) x \<and> worker_at m (after_round s) (k + 1) False [] t"
proof -
  let ?s = "s\<lparr>totalResponses := totalResponses s - 1\<rparr>"
  have k: "currentIteration s = k" "currentMPICall s = clear_call" "currentState s = HPCAPP_WORKER_WRITTING"
      "createdResultsFile s \<or> \<not> workersWrite s"
    using w(2) by (simp_all add: worker_at_def idle_def)
  have go: "processIOCallResponse SM_WRITE_FILE icancloud_OK s = calculateNextState ?s"
    using k by (simp add: processIOCallResponse_def SM_READ_FILE_def SM_WRITE_FILE_def)
  have "is_worker ?s" "currentState ?s = HPCAPP_WORKER_WRITTING" "currentMPICall ?s = clear_call" "mpiCallList ?s = []"
      "createdResultsFile ?s \<or> \<not> workersWrite ?s" "getMyMaster (workersSet ?s) (myRank ?s) = m"
      "searchConnectionById (int m) ?s \<noteq> None" "-1 \<le> result_size ?s"
    using w m n k by (simp_all add: is_worker_def searchConnectionById_def)
  from worker_sends[OF this] obtain t x where t: "calculateNextState ?s = Ok t" "moved ?s [Data x] t"
      "is_send (myRank ?s) m (result_size ?s) x" "mpiCallList t = []"
      "worker_at m (after_round ?s) (currentIteration ?s + 1) False [] t" by blast
  have "moved s [Data x] t" using t(2) by (simp add: moved_def same_job_def)
  moreover have "worker_at m (after_round s) (k + 1) False [] t" using t(5) k by (simp add: after_round_def)
  ultimately show ?thesis using go t by auto
qed

lemma worker_created:
  assumes w: "is_worker s" "worker_at m Creating k False pd s" and m: "getMyMaster (workersSet s) (myRank s) = m"
    and l: "mpiCallList s = (if got then [c] else [])" "got \<Longrightarrow> matches_call MPI_SEND m (data_size s) c"
  shows "\<exists>t pd'. processIOCallResponse SM_CREATE_FILE icancloud_OK s = Ok t \<and> moved s pd' t \<and> mpiCallList t = [] \<and>
     worker_at m (if got then if workersRead s then Reading else Allocating else Receiving) k False pd' t"
proof -
  let ?s = "s\<lparr>totalResponses := totalResponses s - 1\<rparr>"
  have go: "processIOCallResponse SM_CREATE_FILE icancloud_OK s = calculateNextState ?s"
    by (simp add: processIOCallResponse_def SM_READ_FILE_def SM_WRITE_FILE_def SM_CREATE_FILE_def)
  have "is_worker ?s" "currentState ?s = HPCAPP_INIT" "currentMPICall ?s = clear_call"
      "createdResultsFile ?s \<or> \<not> workersWrite ?s" "getMyMaster (workersSet ?s) (myRank ?s) = m"
      "mpiCallList ?s = (if got then [c] else [])" "got \<Longrightarrow> matches_call MPI_SEND m (data_size ?s) c"
    using w m l by (simp_all add: is_worker_def worker_at_def idle_def)
  from worker_looks[OF this] obtain t pd' where t: "calculateNextState ?s = Ok t" "moved ?s pd' t" "mpiCallList t = []"
      "worker_at m (if got then if workersRead ?s then Reading else Allocating else Receiving) (currentIteration ?s) False pd' t"
    by blast
  moreover have "currentIteration ?s = k" using w(2) by (simp add: worker_at_def idle_def)
  moreover have "moved s pd' t" using t(2) by (simp add: moved_def same_job_def)
  ultimately show ?thesis using go by auto
qed

subsection \<open>Steps of the master\<close>

definition is_master :: "hpc \<Rightarrow> bool" where
  "is_master s \<longleftrightarrow> isMaster (workersSet s) (myRank s)"

lemma master_act: "is_master s \<Longrightarrow> activation s = master_activation s"
  by (simp add: is_master_def activation_def)

text \<open>The ranks of the workers, in the order in which they get their data.\<close>

definition worker_ranks :: "hpc \<Rightarrow> nat list" where
  "worker_ranks s = [myRank s + 1..<myRank s + workersSet s]"

lemma deliver_works:
  assumes "\<forall>i\<in>set is. searchConnectionById (int i) s \<noteq> None" "-1 \<le> data_size s" "currentMPICall s = clear_call"
  shows "\<exists>xs. fold_res (\<lambda>i s. mpi_send i (data_size s) s) is s = Ok (s\<lparr>os_out := os_out s @ map Data xs\<rparr>) \<and>
     list_all2 (\<lambda>i x. is_send (myRank s) i (data_size s) x) is xs"
  using assms
proof (induction "is" arbitrary: s)
  case Nil
  then show ?case by (intro exI[of _ "[]"]) simp
next
  case (Cons i "is")
  obtain x where x: "mpi_send i (data_size s) s = Ok (s\<lparr>os_out := os_out s @ [Data x], currentMPICall := clear_call\<rparr>)"
      (is "_ = Ok ?s") "is_send (myRank s) i (data_size s) x"
    using mpi_send_works[of i s "data_size s"] Cons.prems by auto
  have s: "?s = s\<lparr>os_out := os_out s @ [Data x]\<rparr>" using Cons.prems(3) by simp
  have "\<forall>i\<in>set is. searchConnectionById (int i) ?s \<noteq> None" "-1 \<le> data_size ?s" "currentMPICall ?s = clear_call"
    using Cons.prems by (simp_all add: searchConnectionById_def)
  from Cons.IH[OF this] obtain xs where "fold_res (\<lambda>i s. mpi_send i (data_size s) s) is ?s = Ok (?s\<lparr>os_out := os_out ?s @ map Data xs\<rparr>)"
      "list_all2 (\<lambda>i x. is_send (myRank s) i (data_size s) x) is xs" by auto
  then show ?case using x s by (intro exI[of _ "x # xs"]) simp
qed

text \<open>What the master needs to go on.\<close>

definition master_ok :: "hpc \<Rightarrow> bool" where
  "master_ok s \<longleftrightarrow> is_master s \<and> 2 \<le> workersSet s \<and> workersSet s < 2 ^ 32 \<and> -1 \<le> data_size s \<and>
     (\<forall>i\<in>set (worker_ranks s). searchConnectionById (int i) s \<noteq> None)"

lemma master_ok_same: "master_ok s \<Longrightarrow> same_job s t \<Longrightarrow> master_ok t"
  using same_job_sizes(1)[of s t]
  by (auto simp: master_ok_def is_master_def worker_ranks_def same_job_def searchConnectionById_def)

lemma small_word: "n < 2 ^ 32 \<Longrightarrow> (word_of_nat n :: u32) = 0 \<longleftrightarrow> n = 0"
  by (simp add: word_of_nat_eq_0_iff nat_dvd_not_less) (metis gr0I nat_dvd_not_less dvd_0_right)

lemma word_pred: "0 < n \<Longrightarrow> (word_of_nat n :: u32) - 1 = word_of_nat (n - 1)"
  by (simp add: of_nat_diff)

definition delivered :: "hpc \<Rightarrow> mpi_message list \<Rightarrow> bool" where
  "delivered s xs \<longleftrightarrow> list_all2 (\<lambda>i x. is_send (myRank s) i (data_size s) x) (worker_ranks s) xs"

lemma master_delivers:
  assumes ok: "master_ok s" and s: "currentState s = HPCAPP_MASTER_READING" "totalResponses s = 0" "currentMPICall s = clear_call"
      "mpiCallList s = []" and c: "createdResultsFile s \<or> workersWrite s"
  shows "\<exists>t xs. calculateNextState s = Ok t \<and> moved s (map Data xs) t \<and> delivered s xs \<and>
     master_at (MWaiting (workersSet s - 1)) (currentIteration s) False [] t"
proof -
  let ?s = "enter HPCAPP_MASTER_DELIVERING s"
  have "\<forall>i\<in>set (worker_ranks s). searchConnectionById (int i) ?s \<noteq> None" "-1 \<le> data_size ?s" "currentMPICall ?s = clear_call"
    using ok s(3) by (simp_all add: master_ok_def enter_def searchConnectionById_def)
  then obtain xs where xs: "fold_res (\<lambda>i s. mpi_send i (data_size s) s) (worker_ranks s) ?s = Ok (?s\<lparr>os_out := os_out ?s @ map Data xs\<rparr>)"
      (is "_ = Ok ?u") "list_all2 (\<lambda>i x. is_send (myRank ?s) i (data_size ?s) x) (worker_ranks s) xs"
    using deliver_works[of "worker_ranks s" ?s] by blast
  have "activation s = Ok (?u, True)"
    using ok s(1,2) xs(1) by (simp add: master_ok_def master_act master_activation_def deliverData_def worker_ranks_def enter_def)
  then have go: "calculateNextState s = calculateNextState ?u" by (rule next_again)
  let ?v = "set_call MPI_RECV MPI_ANY_SENDER (myRank s) (result_size s)
     (enter HPCAPP_MASTER_WAITING_RESULTS (?u\<lparr>totalResponses := word_of_nat (workersSet s) - 1\<rparr>))"
  have r: "result_size (enter HPCAPP_MASTER_WAITING_RESULTS (?u\<lparr>totalResponses := word_of_nat (workersSet s) - 1\<rparr>)) = result_size s"
    by (simp add: enter_def)
  have "activation ?u = Ok (synchronize False ?v)"
    using ok r by (simp add: master_ok_def master_act is_master_def activation_def master_activation_def receivingResults_def
        mpi_recv_def enter_def)
  also have "synchronize False ?v = (?v, False)" using s(4) by (intro synchronize_empty) (simp add: set_call_def enter_def)
  finally have "calculateNextState s = Ok ?v" using go next_stop by simp
  moreover have "moved s (map Data xs) ?v" by (simp add: moved_def same_job_def set_call_def enter_def)
  moreover have "delivered s xs" using xs(2) by (simp add: delivered_def enter_def)
  moreover have "result_size ?v = result_size s" by (simp add: set_call_def enter_def)
  then have "master_at (MWaiting (workersSet s - 1)) (currentIteration s) False [] ?v"
    using ok s(4) c word_pred[of "workersSet s"]
    by (simp add: master_at_def waits_for_def set_call_def enter_def master_ok_def)
  ultimately show ?thesis by blast
qed

definition begun :: "hpc \<Rightarrow> round_no \<Rightarrow> os_msg list \<Rightarrow> hpc \<Rightarrow> bool" where
  "begun s k outs t \<longleftrightarrow> moved s outs t \<and> (if workersRead s
     then \<exists>xs. outs = map Data xs \<and> delivered s xs \<and> master_at (MWaiting (workersSet s - 1)) k False [] t
     else master_at (MReading (workersSet s)) k False outs t)"

definition ended :: "hpc \<Rightarrow> round_no \<Rightarrow> os_msg list \<Rightarrow> hpc \<Rightarrow> bool" where
  "ended s k outs t \<longleftrightarrow> (if k > numIterations s then moved s outs t \<and> outs = [] \<and> master_at MFinished k False [] t
     else begun s k outs t)"

definition written :: "hpc \<Rightarrow> round_no \<Rightarrow> os_msg list \<Rightarrow> hpc \<Rightarrow> bool" where
  "written s k outs t \<longleftrightarrow> (if workersWrite s then ended s (k + 1) outs t
     else moved s outs t \<and> master_at (MWriting (workersSet s)) k False outs t)"

lemma begun_from: "same_job s u \<Longrightarrow> os_out u = os_out s \<Longrightarrow> begun u k outs t \<Longrightarrow> begun s k outs t"
  using same_job_sizes(1)[of s u] same_job_trans[of s u t]
  by (auto simp: begun_def delivered_def worker_ranks_def moved_def same_job_def)

lemma ended_from: "same_job s u \<Longrightarrow> os_out u = os_out s \<Longrightarrow> ended u k outs t \<Longrightarrow> ended s k outs t"
  using begun_from[of s u] by (auto simp: ended_def moved_def same_job_def)

lemma written_from: "same_job s u \<Longrightarrow> os_out u = os_out s \<Longrightarrow> written u k outs t \<Longrightarrow> written s k outs t"
  using ended_from[of s u] by (auto simp: written_def moved_def same_job_def)

lemma enter_same: "same_job s (enter q s)" "same_job s (s\<lparr>totalResponses := n\<rparr>)" "same_job s (s\<lparr>currentIteration := i\<rparr>)"
  by (simp_all add: same_job_def enter_def)

lemma master_begins:
  assumes ok: "master_ok s" and s: "currentState s = HPCAPP_INIT" "currentMPICall s = clear_call" "mpiCallList s = []"
      and c: "createdResultsFile s \<or> workersWrite s"
  shows "\<exists>t outs. calculateNextState s = Ok t \<and> begun s (currentIteration s) outs t"
proof (cases "workersRead s")
  case False
  let ?s = "enter HPCAPP_MASTER_READING (s\<lparr>totalResponses := word_of_nat (workersSet s)\<rparr>)"
  obtain t pd where t: "issue_read ?s = Ok (t, False)" "moved ?s pd t" "is_io SM_READ_FILE pd" "mpiCallList t = mpiCallList ?s"
      "currentState t = currentState ?s" "currentIteration t = currentIteration ?s" "currentMPICall t = currentMPICall ?s"
      "createdResultsFile t = createdResultsFile ?s" "totalResponses t = totalResponses ?s"
    using issue_read_works[of ?s] by blast
  have "activation s = Ok (t, False)"
    using ok s c False t(1) by (auto simp: master_ok_def master_act master_activation_def readInputData_def enter_def)
  moreover have "moved s pd t" using t(2) by (simp add: moved_def same_job_def enter_def)
  moreover have "master_at (MReading (workersSet s)) (currentIteration s) False pd t"
    using t s c False by (auto simp: master_at_def idle_def enter_def moved_def same_job_def)
  ultimately show ?thesis using False next_stop by (auto simp: begun_def)
next
  case True
  let ?s = "enter HPCAPP_MASTER_READING (s\<lparr>totalResponses := 0\<rparr>)"
  have "activation s = Ok (?s, True)"
    using ok s c True by (auto simp: master_ok_def master_act master_activation_def readInputData_def skip_io_def enter_def)
  then have go: "calculateNextState s = calculateNextState ?s" by (rule next_again)
  have same: "same_job s ?s" "os_out ?s = os_out s" by (simp_all add: same_job_def enter_def)
  have "createdResultsFile ?s \<or> workersWrite ?s" using c by (simp add: enter_def)
  then obtain t xs where "calculateNextState ?s = Ok t" "moved ?s (map Data xs) t" "delivered ?s xs"
      "master_at (MWaiting (workersSet ?s - 1)) (currentIteration ?s) False [] t"
    using master_delivers[OF master_ok_same[OF ok same(1)]] s by (auto simp: enter_def)
  then have "begun ?s (currentIteration s) (map Data xs) t" "calculateNextState s = Ok t"
    using True go by (auto simp: begun_def enter_def)
  then show ?thesis using begun_from[OF same] by blast
qed

lemma master_ends:
  assumes ok: "master_ok s" and s: "currentState s = HPCAPP_MASTER_WRITTING" "totalResponses s = 0" "currentMPICall s = clear_call"
      "mpiCallList s = []" and c: "createdResultsFile s \<or> workersWrite s"
  shows "\<exists>t outs. calculateNextState s = Ok t \<and> ended s (currentIteration s + 1) outs t"
proof -
  let ?s = "enter HPCAPP_INIT s\<lparr>currentIteration := currentIteration s + 1\<rparr>"
  have act: "activation s = (if currentIteration s + 1 > numIterations s then Ok (?s\<lparr>finishing := True\<rparr>, False) else Ok (?s, True))"
    using ok s(1,2) by (simp add: master_ok_def master_act master_activation_def nextIteration_def enter_def)
  have same: "same_job s ?s" "os_out ?s = os_out s" by (simp_all add: same_job_def enter_def)
  show ?thesis
  proof (cases "currentIteration s + 1 > numIterations s")
    case True
    then have "calculateNextState s = Ok (?s\<lparr>finishing := True\<rparr>)" using act next_stop by simp
    moreover have "moved s [] (?s\<lparr>finishing := True\<rparr>)" by (simp add: moved_def same_job_def enter_def)
    ultimately show ?thesis using True s by (auto simp: ended_def master_at_def idle_def enter_def)
  next
    case False
    then have go: "calculateNextState s = calculateNextState ?s" using act next_again by simp
    have "createdResultsFile ?s \<or> workersWrite ?s" using c by (simp add: enter_def)
    then obtain t outs where "calculateNextState ?s = Ok t" "begun ?s (currentIteration s + 1) outs t"
      using master_begins[OF master_ok_same[OF ok same(1)]] s by (auto simp: enter_def)
    then show ?thesis using begun_from[OF same] False go by (auto simp: ended_def)
  qed
qed

lemma master_has_all:
  assumes ok: "master_ok s" and s: "currentState s = HPCAPP_MASTER_WAITING_RESULTS" "totalResponses s = 1" "currentMPICall s = clear_call"
      "mpiCallList s = []" and c: "createdResultsFile s \<or> workersWrite s"
  shows "\<exists>t outs. calculateNextState s = Ok t \<and> written s (currentIteration s) outs t"
proof (cases "workersWrite s")
  case False
  let ?s = "enter HPCAPP_MASTER_WRITTING (s\<lparr>totalResponses := word_of_nat (workersSet s)\<rparr>)"
  obtain t pd where t: "issue_write ?s = Ok (t, False)" "moved ?s pd t" "is_io SM_WRITE_FILE pd" "mpiCallList t = mpiCallList ?s"
      "currentState t = currentState ?s" "currentIteration t = currentIteration ?s" "currentMPICall t = currentMPICall ?s"
      "createdResultsFile t = createdResultsFile ?s" "totalResponses t = totalResponses ?s"
    using issue_write_works[of ?s] by blast
  have "activation s = Ok (t, False)"
    using ok s False t(1) by (simp add: master_ok_def master_act master_activation_def writtingData_def enter_def)
  moreover have "moved s pd t" using t(2) by (simp add: moved_def same_job_def enter_def)
  moreover have "master_at (MWriting (workersSet s)) (currentIteration s) False pd t"
    using t s c False by (auto simp: master_at_def idle_def enter_def moved_def same_job_def)
  ultimately show ?thesis using False next_stop by (auto simp: written_def)
next
  case True
  let ?s = "enter HPCAPP_MASTER_WRITTING (s\<lparr>totalResponses := 0\<rparr>)"
  have "activation s = Ok (?s, True)"
    using ok s True by (simp add: master_ok_def master_act master_activation_def writtingData_def skip_io_def enter_def)
  then have go: "calculateNextState s = calculateNextState ?s" by (rule next_again)
  have same: "same_job s ?s" "os_out ?s = os_out s" by (simp_all add: same_job_def enter_def)
  have "createdResultsFile ?s \<or> workersWrite ?s" using c by (simp add: enter_def)
  then obtain t outs where "calculateNextState ?s = Ok t" "ended ?s (currentIteration s + 1) outs t"
    using master_ends[OF master_ok_same[OF ok same(1)]] s by (auto simp: enter_def)
  then show ?thesis using ended_from[OF same] True go by (auto simp: written_def)
qed

text \<open>The events of the master.\<close>

lemma master_starts:
  assumes ok: "master_ok s" and a: "master_at MUnstarted k True [] s"
  shows "\<exists>t outs. calculateNextState s = Ok t \<and>
     (if workersWrite s then begun s k outs t else moved s outs t \<and> master_at MCreating k False outs t)"
proof (cases "workersWrite s")
  case True
  with a master_begins[OF ok] show ?thesis by (auto simp: master_at_def idle_def)
next
  case False
  obtain t pd where t: "create_results s = Ok (t, False)" "moved s pd t" "is_io SM_CREATE_FILE pd"
      "mpiCallList t = mpiCallList s" "currentState t = currentState s" "currentIteration t = currentIteration s"
      "currentMPICall t = currentMPICall s" "createdResultsFile t"
    using create_works[of s] by blast
  have "activation s = Ok (t, False)"
    using ok a False t(1) by (simp add: master_ok_def master_act master_activation_def master_at_def idle_def)
  with a t False show ?thesis using next_stop by (auto simp: master_at_def idle_def)
qed

lemma master_created:
  assumes ok: "master_ok s" and a: "master_at MCreating k False pd s"
  shows "\<exists>t outs. processIOCallResponse SM_CREATE_FILE icancloud_OK s = Ok t \<and> begun s k outs t"
proof -
  let ?s = "s\<lparr>totalResponses := totalResponses s - 1\<rparr>"
  have go: "processIOCallResponse SM_CREATE_FILE icancloud_OK s = calculateNextState ?s"
    by (simp add: processIOCallResponse_def SM_READ_FILE_def SM_WRITE_FILE_def SM_CREATE_FILE_def)
  have "master_ok ?s" using master_ok_same[OF ok enter_same(2)] .
  moreover have "currentState ?s = HPCAPP_INIT" "currentMPICall ?s = clear_call" "mpiCallList ?s = []"
      "createdResultsFile ?s \<or> workersWrite ?s" "currentIteration ?s = k"
    using a by (simp_all add: master_at_def idle_def)
  ultimately obtain t outs where "calculateNextState ?s = Ok t" "begun ?s k outs t"
    using master_begins[of ?s] by auto
  moreover from this(2) have "begun s k outs t" using begun_from[OF enter_same(2)] by simp
  ultimately show ?thesis using go by auto
qed

lemma master_read_done:
  assumes ok: "master_ok s" and a: "master_at (MReading n) k False pd s" and n: "0 < n" "n \<le> workersSet s"
  shows "\<exists>t outs. processIOCallResponse SM_READ_FILE icancloud_OK s = Ok t \<and> moved s outs t \<and>
     (if 1 < n then master_at (MReading (n - 1)) k False outs t
      else \<exists>xs. outs = map Data xs \<and> delivered s xs \<and> master_at (MWaiting (workersSet s - 1)) k False [] t)"
proof -
  let ?s = "s\<lparr>totalResponses := word_of_nat (n - 1)\<rparr>"
  have go: "processIOCallResponse SM_READ_FILE icancloud_OK s = calculateNextState ?s"
    using a n(1) word_pred[of n]
    by (simp add: processIOCallResponse_def SM_READ_FILE_def SM_WRITE_FILE_def master_at_def idle_def)
  have "workersSet s < 2 ^ 32" using ok by (simp add: master_ok_def)
  then have small: "n - 1 < 2 ^ 32" using n(2) by linarith
  show ?thesis
  proof (cases "1 < n")
    case True
    then have pos: "totalResponses ?s > 0" using small_word[OF small] by (simp add: word_gt_0)
    obtain t outs where t: "issue_read ?s = Ok (t, False)" "moved ?s outs t" "is_io SM_READ_FILE outs" "mpiCallList t = mpiCallList ?s"
      "currentState t = currentState ?s" "currentIteration t = currentIteration ?s" "currentMPICall t = currentMPICall ?s"
      "createdResultsFile t = createdResultsFile ?s" "totalResponses t = totalResponses ?s"
      using issue_read_works[of ?s] by blast
    have "is_master ?s" using ok by (simp add: master_ok_def is_master_def)
    then have "activation ?s = Ok (t, False)"
      using a t(1) pos by (simp add: master_act master_activation_def readInputData_def master_at_def idle_def)
    then have "processIOCallResponse SM_READ_FILE icancloud_OK s = Ok t" using go next_stop by simp
    moreover have "moved s outs t" using t(2) by (simp add: moved_def same_job_def)
    moreover have "master_at (MReading (n - 1)) k False outs t"
      using t a by (auto simp: master_at_def idle_def moved_def same_job_def)
    ultimately show ?thesis using True by auto
  next
    case False
    have same: "same_job s ?s" "os_out ?s = os_out s" by (simp_all add: same_job_def)
    have "totalResponses ?s = 0" using False n(1) by simp
    then obtain t xs where t: "calculateNextState ?s = Ok t" "moved ?s (map Data xs) t" "delivered ?s xs"
        "master_at (MWaiting (workersSet ?s - 1)) (currentIteration ?s) False [] t"
      using master_delivers[OF master_ok_same[OF ok same(1)]] a by (auto simp: master_at_def idle_def)
    have "moved s (map Data xs) t" "delivered s xs" "currentIteration s = k"
      using t(2,3) a by (simp_all add: moved_def same_job_def delivered_def worker_ranks_def master_at_def idle_def)
    then show ?thesis using go t False by auto
  qed
qed

lemma master_write_done:
  assumes ok: "master_ok s" and a: "master_at (MWriting n) k False pd s" and n: "0 < n" "n \<le> workersSet s"
  shows "\<exists>t outs. processIOCallResponse SM_WRITE_FILE icancloud_OK s = Ok t \<and>
     (if 1 < n then moved s outs t \<and> master_at (MWriting (n - 1)) k False outs t else ended s (k + 1) outs t)"
proof -
  let ?s = "s\<lparr>totalResponses := word_of_nat (n - 1)\<rparr>"
  have go: "processIOCallResponse SM_WRITE_FILE icancloud_OK s = calculateNextState ?s"
    using a n(1) word_pred[of n]
    by (simp add: processIOCallResponse_def SM_READ_FILE_def SM_WRITE_FILE_def master_at_def idle_def)
  have "workersSet s < 2 ^ 32" using ok by (simp add: master_ok_def)
  then have small: "n - 1 < 2 ^ 32" using n(2) by linarith
  show ?thesis
  proof (cases "1 < n")
    case True
    then have pos: "totalResponses ?s > 0" using small_word[OF small] by (simp add: word_gt_0)
    obtain t outs where t: "issue_write ?s = Ok (t, False)" "moved ?s outs t" "is_io SM_WRITE_FILE outs" "mpiCallList t = mpiCallList ?s"
      "currentState t = currentState ?s" "currentIteration t = currentIteration ?s" "currentMPICall t = currentMPICall ?s"
      "createdResultsFile t = createdResultsFile ?s" "totalResponses t = totalResponses ?s"
      using issue_write_works[of ?s] by blast
    have "is_master ?s" using ok by (simp add: master_ok_def is_master_def)
    then have "activation ?s = Ok (t, False)"
      using a t(1) pos by (simp add: master_act master_activation_def writtingData_def master_at_def idle_def)
    then have "processIOCallResponse SM_WRITE_FILE icancloud_OK s = Ok t" using go next_stop by simp
    moreover have "moved s outs t" using t(2) by (simp add: moved_def same_job_def)
    moreover have "master_at (MWriting (n - 1)) k False outs t"
      using t a by (auto simp: master_at_def idle_def moved_def same_job_def)
    ultimately show ?thesis using True by auto
  next
    case False
    have "totalResponses ?s = 0" using False n(1) by simp
    moreover have "createdResultsFile ?s \<or> workersWrite ?s" using a by (auto simp: master_at_def)
    ultimately obtain t outs where t: "calculateNextState ?s = Ok t" "ended ?s (currentIteration ?s + 1) outs t"
      using master_ends[OF master_ok_same[OF ok enter_same(2)]] a by (auto simp: master_at_def idle_def)
    have "currentIteration ?s = k" using a by (simp add: master_at_def idle_def)
    with t(2) have "ended s (k + 1) outs t" using ended_from[OF enter_same(2)] by simp
    then show ?thesis using go t(1) False by auto
  qed
qed

lemma master_result:
  assumes ok: "master_ok s" and a: "master_at (MWaiting n) k False [] s" and n: "0 < n" "n < workersSet s"
    and x: "is_send r (myRank s) (result_size s) x"
  shows "\<exists>t outs. hpc_processRequestMessage x s = Ok t \<and>
     (if 1 < n then moved s outs t \<and> outs = [] \<and> master_at (MWaiting (n - 1)) k False [] t else written s k outs t)"
proof -
  have w: "waits_for MPI_ANY_SENDER (result_size s) (currentMPICall s)" "mpiCallList s = []"
    using a by (simp_all add: master_at_def)
  from arrives_waiting[OF w x sizes_are_int(2)] obtain l where
    go: "hpc_processRequestMessage x s = calculateNextState (s\<lparr>lastSynchroMPICall := l, currentMPICall := clear_call\<rparr>)"
    (is "_ = calculateNextState ?s") by auto
  have same: "same_job s ?s" "os_out ?s = os_out s" by (simp_all add: same_job_def)
  note ok' = master_ok_same[OF ok same(1)]
  have "workersSet s < 2 ^ 32" using ok by (simp add: master_ok_def)
  then have small: "n - 1 < 2 ^ 32" using n(2) by linarith
  have st: "currentState ?s = HPCAPP_MASTER_WAITING_RESULTS" "totalResponses ?s = word_of_nat n" "currentMPICall ?s = clear_call"
      "mpiCallList ?s = []" "createdResultsFile ?s \<or> workersWrite ?s" "currentIteration ?s = k"
    using a by (simp_all add: master_at_def)
  show ?thesis
  proof (cases "1 < n")
    case True
    let ?v = "set_call MPI_RECV MPI_ANY_SENDER (myRank s) (result_size s) (?s\<lparr>totalResponses := word_of_nat (n - 1)\<rparr>)"
    have "word_of_nat (n - 1) \<noteq> (0 :: u32)" using small_word[OF small] True by simp
    moreover have "result_size (?s\<lparr>totalResponses := word_of_nat (n - 1)\<rparr>) = result_size s" by (simp add: result_size_def)
    ultimately have "activation ?s = Ok (synchronize False ?v)"
      using ok' st(1,2) word_pred[OF n(1)]
      by (simp add: master_ok_def master_act master_activation_def receivingResults_def mpi_recv_def Let_def)
    also have "synchronize False ?v = (?v, False)" using st(4) by (intro synchronize_empty) (simp add: set_call_def)
    finally have "hpc_processRequestMessage x s = Ok ?v" using go next_stop by simp
    moreover have "moved s [] ?v" by (simp add: moved_def same_job_def set_call_def)
    moreover have "result_size ?v = result_size s" using same_job_sizes(2)[of s ?v] \<open>moved s [] ?v\<close> by (simp add: moved_def)
    then have "master_at (MWaiting (n - 1)) k False [] ?v"
      using st by (simp add: master_at_def waits_for_def set_call_def)
    ultimately show ?thesis using True by auto
  next
    case False
    then have "n = 1" using n(1) by simp
    then have "totalResponses ?s = 1" using st(2) by simp
    from master_has_all[OF ok' st(1) this st(3-5)] obtain t outs
      where "calculateNextState ?s = Ok t" "written ?s k outs t" using st(6) by auto
    then show ?thesis using go False written_from[OF same] by auto
  qed
qed

end
