(* ===== verification/HpcWorld.thy ===== *)
theory HpcWorld imports HpcRun begin

text \<open>
  The set of processes with the network and the operating system, and the proof that its events implement
  the steps of the rounds.
\<close>

record hpc_world =
  hw_proc :: "nat \<Rightarrow> hpc"
  hw_net :: "mpi_message list"
  hw_pend :: "nat \<Rightarrow> os_msg list"
  hw_timer :: "nat \<Rightarrow> bool"

datatype hpc_event = Execute nat | Answer nat nat | Deliver nat

subsection \<open>Events\<close>

fun data_of :: "os_msg list \<Rightarrow> mpi_message list" where
  "data_of [] = []"
| "data_of (Data x # ms) = x # data_of ms"
| "data_of (m # ms) = data_of ms"

fun requests_of :: "os_msg list \<Rightarrow> os_msg list" where
  "requests_of [] = []"
| "requests_of (Data x # ms) = requests_of ms"
| "requests_of (m # ms) = m # requests_of ms"

text \<open>The messages that process \<open>r\<close> has sent go to the network, its requests to the operating system.\<close>

definition collect :: "nat \<Rightarrow> hpc \<Rightarrow> hpc_world \<Rightarrow> hpc_world" where
  "collect r s w = w\<lparr>hw_proc := (hw_proc w)(r := s\<lparr>os_out := []\<rparr>), hw_net := hw_net w @ data_of (os_out s),
     hw_pend := (hw_pend w)(r := hw_pend w r @ requests_of (os_out s))\<rparr>"

fun answer_to :: "os_msg \<Rightarrow> os_answer" where
  "answer_to (Io opn file off sz len) = Io_done opn icancloud_OK"
| "answer_to (Cpu opn t r) = Cpu_done"
| "answer_to (CpuTime opn t) = Cpu_done"
| "answer_to (Mem opn sz r) = Mem_done"
| "answer_to _ = Unknown_answer"

fun react :: "hpc_event \<Rightarrow> hpc_world \<Rightarrow> hpc_world res" where
  "react (Execute r) w = bind_res (hpc_processSelfMessage 0 0 None SM_WAIT_TO_EXECUTE (hw_proc w r))
     (\<lambda>s. Ok (collect r s (w\<lparr>hw_timer := (hw_timer w)(r := False)\<rparr>)))"
| "react (Answer r i) w = bind_res (hpc_processResponseMessage (answer_to (hw_pend w r ! i)) (hw_proc w r))
     (\<lambda>s. Ok (collect r s (w\<lparr>hw_pend := (hw_pend w)(r := remove_at i (hw_pend w r))\<rparr>)))"
| "react (Deliver i) w = (let x = hw_net w ! i; r = mm_dest x in bind_res (hpc_processRequestMessage x (hw_proc w r))
     (\<lambda>s. Ok (collect r s (w\<lparr>hw_net := remove_at i (hw_net w)\<rparr>))))"

definition members :: "hpc_job \<Rightarrow> nat set" where
  "members j = {j_first j..<j_first j + j_size j}"

fun enabled :: "hpc_job \<Rightarrow> hpc_event \<Rightarrow> hpc_world \<Rightarrow> bool" where
  "enabled j (Execute r) w \<longleftrightarrow> r \<in> members j \<and> hw_timer w r"
| "enabled j (Answer r i) w \<longleftrightarrow> r \<in> members j \<and> i < length (hw_pend w r)"
| "enabled j (Deliver i) w \<longleftrightarrow> i < length (hw_net w) \<and> mm_dest (hw_net w ! i) \<in> members j"

text \<open>A run, with the events that have happened.\<close>

inductive hpc_run :: "hpc_job \<Rightarrow> hpc_world \<Rightarrow> hpc_event list \<Rightarrow> hpc_world \<Rightarrow> bool" for j where
  run_stop: "hpc_run j w [] w"
| run_event: "enabled j e w \<Longrightarrow> react e w = Ok u \<Longrightarrow> hpc_run j u es v \<Longrightarrow> hpc_run j w (e # es) v"

inductive_simps hpc_run_simps: "hpc_run j w [] v" "hpc_run j w (e # es) v"

subsection \<open>What a world means\<close>

definition linked :: "hpc_job \<Rightarrow> int \<Rightarrow> int \<Rightarrow> nat \<Rightarrow> hpc \<Rightarrow> bool" where
  "linked j D R r s \<longleftrightarrow> myRank s = r \<and> workersSet s = j_size j \<and> numIterations s = j_rounds j \<and>
     workersRead s = j_read j \<and> workersWrite s = j_write j \<and> data_size s = D \<and> result_size s = R \<and> os_out s = [] \<and>
     (if r = j_first j then \<forall>i\<in>workers j. searchConnectionById (int i) s \<noteq> None
      else searchConnectionById (int (j_first j)) s \<noteq> None)"

definition about :: "nat \<Rightarrow> mpi_message \<Rightarrow> bool" where
  "about r x \<longleftrightarrow> mm_source x = r \<or> mm_dest x = r"

definition traffic :: "nat \<Rightarrow> hpc_world \<Rightarrow> mpi_message list" where
  "traffic r w = filter (about r) (hw_net w)"

text \<open>What is on the way between the worker \<open>i\<close> and its master, and what the worker has not asked for yet.\<close>

definition chan_rel :: "hpc_job \<Rightarrow> int \<Rightarrow> int \<Rightarrow> nat \<Rightarrow> chan \<Rightarrow> mpi_call list \<Rightarrow> mpi_message list \<Rightarrow> bool" where
  "chan_rel j D R i ch calls ms \<longleftrightarrow> (case ch of
     Nothing \<Rightarrow> calls = [] \<and> ms = []
   | Data_sent \<Rightarrow> calls = [] \<and> (\<exists>x. ms = [x] \<and> is_send (j_first j) i D x)
   | Data_queued \<Rightarrow> ms = [] \<and> (\<exists>c. calls = [c] \<and> matches_call MPI_SEND (j_first j) D c)
   | Result_sent \<Rightarrow> calls = [] \<and> (\<exists>x. ms = [x] \<and> is_send i (j_first j) R x))"

definition net_ok :: "hpc_job \<Rightarrow> int \<Rightarrow> int \<Rightarrow> mpi_message list \<Rightarrow> bool" where
  "net_ok j D R xs \<longleftrightarrow> (\<forall>x\<in>set xs. \<exists>i\<in>workers j. is_send (j_first j) i D x \<or> is_send i (j_first j) R x)"

definition worker_rel :: "hpc_job \<Rightarrow> int \<Rightarrow> int \<Rightarrow> rounds \<Rightarrow> hpc_world \<Rightarrow> nat \<Rightarrow> bool" where
  "worker_rel j D R a w i \<longleftrightarrow> linked j D R i (hw_proc w i) \<and>
     worker_at (j_first j) (r_pos a i) (r_wround a i) (hw_timer w i) (hw_pend w i) (hw_proc w i) \<and>
     chan_rel j D R i (r_chan a i) (mpiCallList (hw_proc w i)) (traffic i w)"

definition workers_rel :: "hpc_job \<Rightarrow> int \<Rightarrow> int \<Rightarrow> rounds \<Rightarrow> hpc_world \<Rightarrow> bool" where
  "workers_rel j D R a w \<longleftrightarrow> (\<forall>i\<in>workers j. worker_rel j D R a w i) \<and> net_ok j D R (hw_net w)"

definition master_rel :: "hpc_job \<Rightarrow> int \<Rightarrow> int \<Rightarrow> rounds \<Rightarrow> hpc_world \<Rightarrow> bool" where
  "master_rel j D R a w \<longleftrightarrow> linked j D R (j_first j) (hw_proc w (j_first j)) \<and>
     master_at (r_master a) (r_round a) (hw_timer w (j_first j)) (hw_pend w (j_first j)) (hw_proc w (j_first j))"

definition hpc_rel :: "hpc_job \<Rightarrow> int \<Rightarrow> int \<Rightarrow> hpc_world \<Rightarrow> rounds \<Rightarrow> bool" where
  "hpc_rel j D R w a \<longleftrightarrow> master_rel j D R a w \<and> workers_rel j D R a w"

text \<open>A set has at least one worker, its first rank is a multiple of its size, the sizes can be sent.\<close>

definition job_ok :: "hpc_job \<Rightarrow> int \<Rightarrow> int \<Rightarrow> bool" where
  "job_ok j D R \<longleftrightarrow> 2 \<le> j_size j \<and> j_size j < 2 ^ 32 \<and> j_first j mod j_size j = 0 \<and> -1 \<le> D \<and> -1 \<le> R \<and>
     unat (j_rounds j) + 1 < 2 ^ 32"

lemma members_cases: "job_ok j D R \<Longrightarrow> r \<in> members j \<longleftrightarrow> r = j_first j \<or> r \<in> workers j"
  by (auto simp: members_def workers_def job_ok_def)

lemma first_no_worker: "j_first j \<notin> workers j"
  by (simp add: workers_def)

lemma rank_roles:
  assumes "job_ok j D R"
  shows "isMaster (j_size j) (j_first j)"
    and "i \<in> workers j \<Longrightarrow> \<not> isMaster (j_size j) i" and "i \<in> workers j \<Longrightarrow> getMyMaster (j_size j) i = j_first j"
proof -
  from assms have "j_size j dvd j_first j" "2 \<le> j_size j" by (simp_all add: job_ok_def mod_eq_0_iff_dvd)
  then obtain q where q: "j_first j = q * j_size j" "2 \<le> j_size j" by (metis dvd_def mult.commute)
  show "isMaster (j_size j) (j_first j)" using q by (simp add: isMaster_def)
  assume "i \<in> workers j"
  then obtain d where d: "i = q * j_size j + d" "0 < d" "d < j_size j"
    unfolding workers_def q(1) by (auto intro!: that[of "i - q * j_size j"])
  then have "i mod j_size j = d" "i div j_size j = q" using q(2) by simp_all
  then show "\<not> isMaster (j_size j) i" "getMyMaster (j_size j) i = j_first j"
    using d q by (simp_all add: isMaster_def getMyMaster_def)
qed

lemma linked_worker:
  assumes "job_ok j D R" "linked j D R i s" "i \<in> workers j"
  shows "is_worker s" "getMyMaster (workersSet s) (myRank s) = j_first j" "searchConnectionById (int (j_first j)) s \<noteq> None"
    "-1 \<le> result_size s" "data_size s = D" "result_size s = R" "myRank s = i" "workersRead s = j_read j" "workersWrite s = j_write j"
    "os_out s = []" "numIterations s = j_rounds j"
  using assms rank_roles[OF assms(1)] first_no_worker[of j]
  by (auto simp: linked_def is_worker_def job_ok_def split: if_splits)

lemma linked_master:
  assumes "job_ok j D R" "linked j D R (j_first j) s"
  shows "master_ok s"
proof -
  have "set (worker_ranks s) = workers j" using assms(2) by (auto simp: worker_ranks_def linked_def workers_def)
  then show ?thesis using assms rank_roles(1)[OF assms(1)]
    by (auto simp: master_ok_def is_master_def linked_def job_ok_def)
qed

lemma linked_moved:
  assumes "linked j D R r s" "moved s outs t"
  shows "linked j D R r (t\<lparr>os_out := []\<rparr>)"
  using assms same_job_sizes[of s t]
  by (auto simp: linked_def moved_def same_job_def searchConnectionById_def split: if_splits)

lemma at_os_out [simp]:
  "worker_at m p k tm pd (t\<lparr>os_out := xs\<rparr>) = worker_at m p k tm pd t"
  "master_at q k tm pd (t\<lparr>os_out := xs\<rparr>) = master_at q k tm pd t"
  by (auto simp: worker_at_def master_at_def idle_def split: wpos.splits mpos.splits)

subsection \<open>The network\<close>

lemma data_of_map [simp]: "data_of (map Data xs) = xs" "requests_of (map Data xs) = []"
  by (induction xs) simp_all

lemma is_send_about:
  "is_send src dst sz x \<Longrightarrow> about r x \<longleftrightarrow> r = src \<or> r = dst"
  by (auto simp: about_def is_send_def)

text \<open>Requests: what a process waits for is not sent to the network.\<close>

lemma worker_pend:
  "worker_at m p k tm pd s \<Longrightarrow> data_of pd = [] \<and> requests_of pd = pd"
  by (auto simp: worker_at_def is_io_def split: wpos.splits)

lemma master_pend:
  "master_at q k tm pd s \<Longrightarrow> data_of pd = [] \<and> requests_of pd = pd"
  by (auto simp: master_at_def is_io_def split: mpos.splits)

text \<open>The deliveries of the master: one message for every worker.\<close>

lemma delivery_traffic:
  assumes "list_all2 (\<lambda>i x. is_send m i D x) is xs" "distinct is" "m \<notin> set is"
  shows "i \<in> set is \<Longrightarrow> \<exists>x. filter (about i) xs = [x] \<and> is_send m i D x"
    and "i \<noteq> m \<Longrightarrow> i \<notin> set is \<Longrightarrow> filter (about i) xs = []"
proof -
  have none: "i \<noteq> m \<Longrightarrow> i \<notin> set is \<Longrightarrow> filter (about i) xs = []" if "list_all2 (\<lambda>i x. is_send m i D x) is xs" for "is" xs i
    using that by (induction rule: list_all2_induct) (auto simp: is_send_about)
  show "i \<noteq> m \<Longrightarrow> i \<notin> set is \<Longrightarrow> filter (about i) xs = []" by (rule none[OF assms(1)])
  show "i \<in> set is \<Longrightarrow> \<exists>x. filter (about i) xs = [x] \<and> is_send m i D x"
    using assms
  proof (induction "is" arbitrary: xs)
    case (Cons k ks)
    then obtain y ys where y: "xs = y # ys" "is_send m k D y" "list_all2 (\<lambda>i x. is_send m i D x) ks ys"
      by (auto simp: list_all2_Cons1)
    have m: "m \<noteq> i" "about i y \<longleftrightarrow> i = k" using Cons.prems is_send_about[OF y(2), of i] by auto
    show ?case
    proof (cases "i = k")
      case True
      then have "filter (about i) ys = []" using none[OF y(3)] Cons.prems m(1) by auto
      with True y m(2) show ?thesis by simp
    next
      case False
      with Cons.IH[OF _ y(3)] Cons.prems m y(1) show ?thesis by simp
    qed
  qed simp
qed

subsection \<open>Changes of a world\<close>

lemma worker_rel_cong:
  assumes "hw_proc w' i = hw_proc w i" "hw_pend w' i = hw_pend w i" "hw_timer w' i = hw_timer w i" "traffic i w' = traffic i w"
    and "r_pos b i = r_pos a i" "r_wround b i = r_wround a i" "r_chan b i = r_chan a i"
  shows "worker_rel j D R b w' i = worker_rel j D R a w i"
  unfolding worker_rel_def assms by (rule refl)

text \<open>An event of the worker \<open>i\<close>.\<close>

lemma worker_event_rel:
  assumes rel: "hpc_rel j D R w a" and i: "i \<in> workers j" and same: "same_but i a b"
    and w: "hw_proc w' = (hw_proc w)(i := s)" "\<And>r. r \<noteq> i \<Longrightarrow> hw_pend w' r = hw_pend w r"
      "\<And>r. r \<noteq> i \<Longrightarrow> hw_timer w' r = hw_timer w r"
    and net: "\<And>k. k \<in> workers j \<Longrightarrow> k \<noteq> i \<Longrightarrow> traffic k w' = traffic k w"
      "net_ok j D R (hw_net w')"
    and new: "worker_rel j D R b w' i"
  shows "hpc_rel j D R w' b"
proof -
  have m: "j_first j \<noteq> i" using i first_no_worker by auto
  have "master_rel j D R b w'"
    using rel same m w by (simp add: hpc_rel_def master_rel_def same_but_def)
  moreover have "worker_rel j D R b w' k" if "k \<in> workers j" for k
  proof (cases "k = i")
    case False
    with rel that have "worker_rel j D R a w k" by (simp add: hpc_rel_def workers_rel_def)
    with False same w net(1)[OF that False] show ?thesis
      using worker_rel_cong[of w' k w b a j D R] by (simp add: same_but_def)
  qed (use new in simp)
  ultimately show ?thesis using net(2) by (simp add: hpc_rel_def workers_rel_def)
qed

text \<open>An event of the master that leaves the workers alone, and one that delivers.\<close>

lemma workers_rel_keep:
  assumes "workers_rel j D R a w" "\<And>r. r \<noteq> j_first j \<Longrightarrow> hw_proc w' r = hw_proc w r"
    and "\<And>r. r \<noteq> j_first j \<Longrightarrow> hw_pend w' r = hw_pend w r" "\<And>r. r \<noteq> j_first j \<Longrightarrow> hw_timer w' r = hw_timer w r"
    and "hw_net w' = hw_net w" "r_pos b = r_pos a" "r_wround b = r_wround a" "r_chan b = r_chan a"
  shows "workers_rel j D R b w'"
proof -
  have "worker_rel j D R b w' i = worker_rel j D R a w i" if "i \<in> workers j" for i
  proof (rule worker_rel_cong)
    have "i \<noteq> j_first j" using that first_no_worker by auto
    then show "hw_proc w' i = hw_proc w i" "hw_pend w' i = hw_pend w i" "hw_timer w' i = hw_timer w i" by (rule assms)+
    show "traffic i w' = traffic i w" by (simp add: traffic_def assms(5))
  qed (simp_all add: assms)
  then show ?thesis using assms(1,5) by (simp add: workers_rel_def)
qed

lemma workers_rel_deliver:
  assumes "workers_rel j D R a w" "\<And>r. r \<noteq> j_first j \<Longrightarrow> hw_proc w' r = hw_proc w r"
    and "\<And>r. r \<noteq> j_first j \<Longrightarrow> hw_pend w' r = hw_pend w r" "\<And>r. r \<noteq> j_first j \<Longrightarrow> hw_timer w' r = hw_timer w r"
    and "hw_net w' = hw_net w @ xs" "list_all2 (\<lambda>i x. is_send (j_first j) i D x) is xs" "distinct is" "set is = workers j"
    and "\<forall>i\<in>workers j. r_chan a i = Nothing"
    and b: "r_pos b = r_pos a" "r_wround b = r_wround a" "\<And>i. i \<in> workers j \<Longrightarrow> r_chan b i = Data_sent"
  shows "workers_rel j D R b w'"
proof -
  have "worker_rel j D R b w' i" if i: "i \<in> workers j" for i
  proof -
    have "j_first j \<notin> set is" using assms(8) first_no_worker by simp
    from delivery_traffic(1)[OF assms(6,7) this] i assms(8) obtain x where x: "filter (about i) xs = [x]" "is_send (j_first j) i D x"
      by auto
    have ne: "i \<noteq> j_first j" using i first_no_worker by auto
    have old: "worker_rel j D R a w i" "r_chan a i = Nothing" using assms(1,9) i by (simp_all add: workers_rel_def)
    then have "traffic i w = []" by (simp add: worker_rel_def chan_rel_def)
    then have "traffic i w' = [x]" using assms(5) x(1) by (simp add: traffic_def)
    then show ?thesis using old ne assms(2-4) b i x(2) by (simp add: worker_rel_def chan_rel_def)
  qed
  moreover have "\<exists>i\<in>workers j. is_send (j_first j) i D x" if "x \<in> set xs" for x
    using that assms(6,8) by (metis in_set_conv_nth list_all2_conv_all_nth)
  moreover have "\<exists>i\<in>workers j. is_send (j_first j) i D x \<or> is_send i (j_first j) R x" if "x \<in> set (hw_net w)" for x
    using that assms(1) by (simp add: workers_rel_def net_ok_def)
  ultimately show ?thesis unfolding workers_rel_def net_ok_def assms(5) set_append by blast
qed

end
