(* ===== verification/HpcSim.thy ===== *)
theory HpcSim imports HpcWorld begin

text \<open>
  The runs of the master/worker application implement the rounds: every event that can happen succeeds and
  is a step of the rounds.
\<close>

subsection \<open>Events of a worker\<close>

lemma collect_worker:
  assumes rel: "hpc_rel j D R w a" and i: "i \<in> workers j" and same: "same_but i a b"
    and u: "hw_proc u = hw_proc w" "\<And>r. r \<noteq> i \<Longrightarrow> hw_pend u r = hw_pend w r" "\<And>r. r \<noteq> i \<Longrightarrow> hw_timer u r = hw_timer w r"
    and mv: "moved (hw_proc w i) outs t"
    and at: "worker_at (j_first j) (r_pos b i) (r_wround b i) (hw_timer u i) (hw_pend u i @ requests_of outs) t"
    and net: "\<And>k. k \<in> workers j \<Longrightarrow> k \<noteq> i \<Longrightarrow> filter (about k) (hw_net u @ data_of outs) = traffic k w"
      "net_ok j D R (hw_net u @ data_of outs)"
    and chan: "chan_rel j D R i (r_chan b i) (mpiCallList t) (filter (about i) (hw_net u @ data_of outs))"
  shows "hpc_rel j D R (collect i t u) b"
proof (rule worker_event_rel[OF rel i same])
  have lk: "linked j D R i (hw_proc w i)" using rel i by (simp add: hpc_rel_def workers_rel_def worker_rel_def)
  then have out: "os_out t = outs" using mv by (simp add: linked_def moved_def)
  show "hw_proc (collect i t u) = (hw_proc w)(i := t\<lparr>os_out := []\<rparr>)" by (simp add: collect_def u(1))
  show "hw_pend (collect i t u) r = hw_pend w r" "hw_timer (collect i t u) r = hw_timer w r" if "r \<noteq> i" for r
    using that u by (simp_all add: collect_def)
  have n: "hw_net (collect i t u) = hw_net u @ data_of outs" by (simp add: collect_def out)
  show "traffic k (collect i t u) = traffic k w" if "k \<in> workers j" "k \<noteq> i" for k
    using net(1)[OF that] by (simp add: traffic_def n)
  show "net_ok j D R (hw_net (collect i t u))" using net(2) by (simp add: n)
  show "worker_rel j D R b (collect i t u) i"
    using linked_moved[OF lk mv] at chan unfolding worker_rel_def traffic_def n
    by (simp add: collect_def out)
qed

text \<open>An event that sends nothing, one that sends the result, the arrival of the data.\<close>

lemma collect_quiet:
  assumes rel: "hpc_rel j D R w a" and i: "i \<in> workers j" and same: "same_but i a b"
    and u: "hw_proc u = hw_proc w" "\<And>r. r \<noteq> i \<Longrightarrow> hw_pend u r = hw_pend w r" "\<And>r. r \<noteq> i \<Longrightarrow> hw_timer u r = hw_timer w r"
    and n: "hw_net u = hw_net w" "hw_pend u i = []"
    and mv: "moved (hw_proc w i) outs t"
    and at: "worker_at (j_first j) (r_pos b i) (r_wround b i) (hw_timer u i) outs t"
    and chan: "chan_rel j D R i (r_chan b i) (mpiCallList t) (traffic i w)"
  shows "hpc_rel j D R (collect i t u) b"
proof -
  have p: "data_of outs = []" "requests_of outs = outs" using worker_pend[OF at] by simp_all
  have "net_ok j D R (hw_net w)" using rel by (simp add: hpc_rel_def workers_rel_def)
  with collect_worker[OF rel i same u mv] show ?thesis using at chan by (simp add: n p traffic_def)
qed

lemma collect_send:
  assumes rel: "hpc_rel j D R w a" and i: "i \<in> workers j" and same: "same_but i a b"
    and u: "hw_proc u = hw_proc w" "\<And>r. r \<noteq> i \<Longrightarrow> hw_pend u r = hw_pend w r" "\<And>r. r \<noteq> i \<Longrightarrow> hw_timer u r = hw_timer w r"
    and n: "hw_net u = hw_net w" "hw_pend u i = []"
    and mv: "moved (hw_proc w i) [Data x] t" "is_send i (j_first j) R x"
    and at: "worker_at (j_first j) (r_pos b i) (r_wround b i) (hw_timer u i) [] t"
    and chan: "r_chan a i = Nothing" "r_chan b i = Result_sent" "mpiCallList t = []"
  shows "hpc_rel j D R (collect i t u) b"
proof -
  have m: "j_first j \<noteq> i" using i first_no_worker by auto
  have ab: "about k x \<longleftrightarrow> k = i \<or> k = j_first j" for k using is_send_about[OF mv(2)] by simp
  have "worker_rel j D R a w i" using rel i by (simp add: hpc_rel_def workers_rel_def)
  then have t: "traffic i w = []" using chan(1) by (simp add: worker_rel_def chan_rel_def)
  have "net_ok j D R (hw_net w @ [x])" using rel i mv(2) by (auto simp: hpc_rel_def workers_rel_def net_ok_def)
  moreover have "filter (about k) (hw_net w @ [x]) = traffic k w" if "k \<in> workers j" "k \<noteq> i" for k
    using that ab[of k] first_no_worker[of j] by (auto simp: traffic_def)
  moreover have "filter (about i) (hw_net w @ [x]) = [x]" using t ab[of i] by (simp add: traffic_def)
  ultimately show ?thesis
    using collect_worker[OF rel i same u mv(1)] at chan mv(2) by (simp add: n chan_rel_def)
qed

text \<open>A message on the way is the only one between its worker and the master.\<close>

lemma arriving:
  assumes rel: "workers_rel j D R a w" and n: "n < length (hw_net w)"
  shows "\<exists>i\<in>workers j. \<exists>x. hw_net w ! n = x \<and> filter (about i) (remove_at n (hw_net w)) = [] \<and> traffic i w = [x] \<and>
     (\<forall>k\<in>workers j. k \<noteq> i \<longrightarrow> filter (about k) (remove_at n (hw_net w)) = traffic k w) \<and>
     (r_chan a i = Data_sent \<and> is_send (j_first j) i D x \<or> r_chan a i = Result_sent \<and> is_send i (j_first j) R x)"
proof -
  let ?x = "hw_net w ! n"
  obtain i where i: "i \<in> workers j" "is_send (j_first j) i D ?x \<or> is_send i (j_first j) R ?x"
    using rel nth_mem[OF n] unfolding workers_rel_def net_ok_def by blast
  then have ab: "about k ?x \<longleftrightarrow> k = i \<or> k = j_first j" for k by (auto simp: is_send_about)
  have cr: "chan_rel j D R i (r_chan a i) (mpiCallList (hw_proc w i)) (traffic i w)"
    using rel i(1) by (simp add: workers_rel_def worker_rel_def)
  have "?x \<in> set (traffic i w)" using n ab[of i] by (simp add: traffic_def)
  with cr obtain y where y: "traffic i w = [y]"
      "r_chan a i = Data_sent \<and> is_send (j_first j) i D y \<or> r_chan a i = Result_sent \<and> is_send i (j_first j) R y"
    by (auto simp: chan_rel_def split: chan.splits)
  have "y = ?x" "filter (about i) (remove_at n (hw_net w)) = []"
    using filter_remove_at(2)[OF n, of "about i" y] ab[of i] y(1) by (simp_all add: traffic_def)
  moreover have "filter (about k) (remove_at n (hw_net w)) = traffic k w" if "k \<in> workers j" "k \<noteq> i" for k
  proof -
    have "\<not> about k ?x" using ab[of k] that first_no_worker[of j] by auto
    then show ?thesis using filter_remove_at(1)[OF n] by (simp add: traffic_def)
  qed
  ultimately show ?thesis using i(1) y by blast
qed

lemma collect_arrival:
  assumes rel: "hpc_rel j D R w a" and i: "i \<in> workers j" and same: "same_but i a b"
    and u: "hw_proc u = hw_proc w" "hw_pend u = hw_pend w" "hw_timer u = hw_timer w"
    and n: "hw_net u = remove_at n (hw_net w)" "filter (about i) (remove_at n (hw_net w)) = []"
      "\<forall>k\<in>workers j. k \<noteq> i \<longrightarrow> filter (about k) (remove_at n (hw_net w)) = traffic k w"
    and mv: "moved (hw_proc w i) outs t" "data_of outs = []" "requests_of outs = outs"
    and at: "worker_at (j_first j) (r_pos b i) (r_wround b i) (hw_timer w i) (hw_pend w i @ outs) t"
    and chan: "chan_rel j D R i (r_chan b i) (mpiCallList t) []"
  shows "hpc_rel j D R (collect i t u) b"
proof -
  have "net_ok j D R (remove_at n (hw_net w))"
    using rel set_remove_at[of n "hw_net w"] by (auto simp: hpc_rel_def workers_rel_def net_ok_def)
  then show ?thesis
    using collect_worker[OF rel i same u(1) _ _ mv(1)] n mv(2,3) at chan by (simp add: u)
qed

subsection \<open>The events of the workers are steps\<close>

definition matched :: "hpc_job \<Rightarrow> int \<Rightarrow> int \<Rightarrow> hpc_event \<Rightarrow> hpc_world \<Rightarrow> rounds \<Rightarrow> bool" where
  "matched j D R e w a \<longleftrightarrow> (\<exists>w' b. react e w = Ok w' \<and> round_step j a b \<and> hpc_rel j D R w' b)"

lemma matchedI: "react e w = Ok w' \<Longrightarrow> round_step j a b \<Longrightarrow> hpc_rel j D R w' b \<Longrightarrow> matched j D R e w a"
  by (auto simp: matched_def)

lemma same_but_steps [simp]:
  "same_but i a (go_to i p a)" "same_but i a (work j i a)" "same_but i a (look j i a)" "same_but i a (send_result j i a)"
  by (simp_all add: same_but_def go_to_def work_def look_def send_result_def)

lemma worker_steps [simp]:
  "r_pos (go_to i p a) i = p" "r_wround (go_to i p a) = r_wround a" "r_chan (go_to i p a) = r_chan a"
  "r_pos (work j i a) i = (if j_read j then Reading else Allocating)" "r_wround (work j i a) = r_wround a"
  "r_chan (work j i a) i = Nothing" "r_wround (look j i a) = r_wround a"
  "r_pos (look j i a) i = (if r_chan a i = Data_queued then if j_read j then Reading else Allocating else Receiving)"
  "r_chan (send_result j i a) i = Result_sent" "r_wround (send_result j i a) i = r_wround a i + 1"
  "r_pos (send_result j i a) i = sent_pos j (r_wround a i + 1)"
  by (simp_all add: go_to_def work_def look_def send_result_def)

lemma chan_look: "chan_rel j D R i (r_chan a i) calls ms \<Longrightarrow> chan_rel j D R i (r_chan (look j i a) i) [] ms"
  by (auto simp: chan_rel_def look_def work_def split: chan.splits)

lemma chan_calls:
  "chan_rel j D R i ch calls ms \<Longrightarrow> \<exists>c. calls = (if ch = Data_queued then [c] else []) \<and>
     (ch = Data_queued \<longrightarrow> matches_call MPI_SEND (j_first j) D c)"
  by (auto simp: chan_rel_def split: chan.splits)

lemma worker_facts:
  assumes "job_ok j D R" "hpc_rel j D R w a" "i \<in> workers j"
  shows "linked j D R i (hw_proc w i)"
    and "worker_at (j_first j) (r_pos a i) (r_wround a i) (hw_timer w i) (hw_pend w i) (hw_proc w i)"
    and "chan_rel j D R i (r_chan a i) (mpiCallList (hw_proc w i)) (traffic i w)"
  using assms by (simp_all add: hpc_rel_def workers_rel_def worker_rel_def)

lemma sim_worker_start:
  assumes ok: "job_ok j D R" and rel: "hpc_rel j D R w a" and i: "i \<in> workers j" and e: "hw_timer w i"
  shows "matched j D R (Execute i) w a"
proof -
  let ?s = "hw_proc w i" and ?u = "w\<lparr>hw_timer := (hw_timer w)(i := False)\<rparr>"
  let ?b = "if j_write j then go_to i Creating a else look j i a"
  note f = worker_facts[OF ok rel i] and lw = linked_worker[OF ok worker_facts(1)[OF ok rel i] i]
  have p: "r_pos a i = Unstarted" "hw_pend w i = []" using f(2) e by (auto simp: worker_at_def split: wpos.splits)
  obtain c where c: "mpiCallList ?s = (if r_chan a i = Data_queued then [c] else [])"
      "r_chan a i = Data_queued \<Longrightarrow> matches_call MPI_SEND (j_first j) (data_size ?s) c"
    using chan_calls[OF f(3)] lw(5) by auto
  from f(2) e p have "worker_at (j_first j) Unstarted (r_wround a i) True [] ?s" by simp
  from worker_starts[OF lw(1) this lw(2) c, unfolded lw(8,9)] obtain t outs where t: "calculateNextState ?s = Ok t" "moved ?s outs t"
      "if j_write j then worker_at (j_first j) Creating (r_wround a i) False outs t \<and> mpiCallList t = mpiCallList ?s
       else mpiCallList t = [] \<and> worker_at (j_first j) (r_pos (look j i a) i) (r_wround a i) False outs t"
    by auto
  have "react (Execute i) w = Ok (collect i t ?u)" using t(1) by (simp add: hpc_processSelfMessage_def)
  moreover have "round_step j a ?b" using w_start i p(1) by blast
  moreover have "hpc_rel j D R (collect i t ?u) ?b"
  proof (rule collect_quiet[OF rel i])
    show "worker_at (j_first j) (r_pos ?b i) (r_wround ?b i) (hw_timer ?u i) outs t" using t(3) by (simp split: if_splits)
    show "chan_rel j D R i (r_chan ?b i) (mpiCallList t) (traffic i w)"
      using t(3) f(3) chan_look[OF f(3)] by (simp split: if_splits)
  qed (use t(2) p in auto)
  ultimately show ?thesis by (rule matchedI)
qed

text \<open>The answer to the only request of a worker.\<close>

definition without_request :: "nat \<Rightarrow> hpc_world \<Rightarrow> hpc_world" where
  "without_request i w = w\<lparr>hw_pend := (hw_pend w)(i := [])\<rparr>"

lemma react_answer:
  assumes "hw_pend w i = [y]" "n < length (hw_pend w i)" "hpc_processResponseMessage (answer_to y) (hw_proc w i) = Ok t"
  shows "react (Answer i n) w = Ok (collect i t (without_request i w))"
  using assms by (simp add: without_request_def remove_at_def)

lemma answer_quiet:
  assumes rel: "hpc_rel j D R w a" and i: "i \<in> workers j" and y: "hw_pend w i = [y]" "n < length (hw_pend w i)" "\<not> hw_timer w i"
    and t: "hpc_processResponseMessage (answer_to y) (hw_proc w i) = Ok t" "moved (hw_proc w i) outs t"
    and b: "round_step j a b" "same_but i a b" "worker_at (j_first j) (r_pos b i) (r_wround b i) False outs t"
      "mpiCallList t = []" "chan_rel j D R i (r_chan b i) [] (traffic i w)"
  shows "matched j D R (Answer i n) w a"
proof (rule matchedI[OF react_answer[OF y(1,2) t(1)] b(1)])
  show "hpc_rel j D R (collect i t (without_request i w)) b"
    by (rule collect_quiet[OF rel i b(2)]) (use t(2) b(3) b(5)[folded b(4)] y(3) in \<open>auto simp: without_request_def\<close>)
qed

lemma answer_send:
  assumes rel: "hpc_rel j D R w a" and i: "i \<in> workers j" and y: "hw_pend w i = [y]" "n < length (hw_pend w i)" "\<not> hw_timer w i"
    and t: "hpc_processResponseMessage (answer_to y) (hw_proc w i) = Ok t" "moved (hw_proc w i) [Data x] t"
      "is_send i (j_first j) R x" "mpiCallList t = []"
    and b: "round_step j a (send_result j i a)" "r_chan a i = Nothing"
      "worker_at (j_first j) (sent_pos j (r_wround a i + 1)) (r_wround a i + 1) False [] t"
  shows "matched j D R (Answer i n) w a"
proof (rule matchedI[OF react_answer[OF y(1,2) t(1)] b(1)])
  show "hpc_rel j D R (collect i t (without_request i w)) (send_result j i a)"
    by (rule collect_send[OF rel i]) (use t b y(3) in \<open>auto simp: without_request_def\<close>)
qed

lemma after_sent: "numIterations s = j_rounds j \<Longrightarrow> currentIteration s = k \<Longrightarrow> after_round s = sent_pos j (k + 1)"
  by (simp add: after_round_def sent_pos_def)

lemma worker_round_at: "worker_at m p k tm pd s \<Longrightarrow> currentIteration s = k"
  by (auto simp: worker_at_def idle_def split: wpos.splits)

lemma worker_request:
  assumes "worker_at m p k tm pd s" "pd \<noteq> []"
  shows "\<not> tm \<and> (\<exists>y. pd = [y] \<and> (case p of
     Creating \<Rightarrow> answer_to y = Io_done SM_CREATE_FILE icancloud_OK
   | Reading \<Rightarrow> answer_to y = Io_done SM_READ_FILE icancloud_OK
   | Allocating \<Rightarrow> answer_to y = Mem_done
   | Processing \<Rightarrow> answer_to y = Cpu_done
   | Writing \<Rightarrow> answer_to y = Io_done SM_WRITE_FILE icancloud_OK
   | _ \<Rightarrow> False))"
  using assms by (auto simp: worker_at_def is_io_def split: wpos.splits)

lemma sim_worker_answer:
  assumes ok: "job_ok j D R" and rel: "hpc_rel j D R w a" and inv: "round_inv j a" "round_bound j a"
    and i: "i \<in> workers j" and n: "n < length (hw_pend w i)"
  shows "matched j D R (Answer i n) w a"
proof -
  let ?s = "hw_proc w i" and ?k = "r_wround a i"
  note f = worker_facts[OF ok rel i] and lw = linked_worker[OF ok worker_facts(1)[OF ok rel i] i]
  have "hw_pend w i \<noteq> []" using n by auto
  from worker_request[OF f(2) this] obtain y where y: "hw_pend w i = [y]" "\<not> hw_timer w i"
      "case r_pos a i of Creating \<Rightarrow> answer_to y = Io_done SM_CREATE_FILE icancloud_OK
        | Reading \<Rightarrow> answer_to y = Io_done SM_READ_FILE icancloud_OK | Allocating \<Rightarrow> answer_to y = Mem_done
        | Processing \<Rightarrow> answer_to y = Cpu_done | Writing \<Rightarrow> answer_to y = Io_done SM_WRITE_FILE icancloud_OK | _ \<Rightarrow> False"
    by blast
  note quiet = answer_quiet[OF rel i y(1) n y(2)] and send = answer_send[OF rel i y(1) n y(2)]
  have at: "worker_at (j_first j) (r_pos a i) ?k False (hw_pend w i) ?s" using f(2) y(2) by simp
  have working: "r_chan a i = Nothing \<and> mpiCallList ?s = []" if "r_pos a i \<in> {Reading, Allocating, Processing, Writing}"
    using working_round[OF inv i that] f(3) by (auto simp: chan_rel_def)
  have after: "after_round ?s = sent_pos j (?k + 1)" using after_sent[OF lw(11)] worker_round_at[OF at] by simp
  show ?thesis
  proof (cases "r_pos a i")
    case Creating
    obtain c where c: "mpiCallList ?s = (if r_chan a i = Data_queued then [c] else [])"
        "r_chan a i = Data_queued \<Longrightarrow> matches_call MPI_SEND (j_first j) (data_size ?s) c"
      using chan_calls[OF f(3)] lw(5) by auto
    from worker_created[OF lw(1) at[unfolded Creating] lw(2) c, unfolded lw(8)] obtain t outs where
      t: "processIOCallResponse SM_CREATE_FILE icancloud_OK ?s = Ok t" "moved ?s outs t" "mpiCallList t = []"
        "worker_at (j_first j) (r_pos (look j i a) i) ?k False outs t" by auto
    show ?thesis
      by (rule quiet[where b = "look j i a"]) (use t y(3) Creating w_created[OF i Creating] chan_look[OF f(3)] in simp_all)
  next
    case Reading
    from worker_allocates[OF lw(1) at[unfolded Reading]] working Reading obtain t outs where
      t: "processIOCallResponse SM_READ_FILE icancloud_OK ?s = Ok t" "moved ?s outs t"
        "worker_at (j_first j) Allocating ?k False outs t" "mpiCallList t = []" by auto
    show ?thesis
      by (rule quiet[where b = "go_to i Allocating a"]) (use t y(3) Reading w_read[OF i Reading] f(3) working in simp_all)
  next
    case Allocating
    from worker_computes[OF lw(1) at[unfolded Allocating]] working Allocating obtain t outs where
      t: "processMEMCallResponse ?s = Ok t" "moved ?s outs t" "worker_at (j_first j) Processing ?k False outs t" "mpiCallList t = []"
      by auto
    show ?thesis
      by (rule quiet[where b = "go_to i Processing a"]) (use t y(3) Allocating w_alloc[OF i Allocating] f(3) working in simp_all)
  next
    case Processing
    with working have w: "r_chan a i = Nothing" "mpiCallList ?s = []" by simp_all
    from worker_cpu_done[OF lw(1) at[unfolded Processing] w(2) lw(2,3,4)] obtain t outs where
      t: "processCPUCallResponse ?s = Ok t" "moved ?s outs t" "mpiCallList t = []"
        "if j_write j then worker_at (j_first j) Writing ?k False outs t
         else \<exists>x. outs = [Data x] \<and> is_send i (j_first j) R x \<and> worker_at (j_first j) (sent_pos j (?k + 1)) (?k + 1) False [] t"
      using lw(6,7,9) after by auto
    show ?thesis
    proof (cases "j_write j")
      case True
      show ?thesis
        by (rule quiet[where b = "go_to i Writing a"])
          (use t y(3) Processing w_cpu[OF i Processing] f(3) w True in simp_all)
    next
      case False
      with t(4) obtain x where x: "outs = [Data x]" "is_send i (j_first j) R x"
        "worker_at (j_first j) (sent_pos j (?k + 1)) (?k + 1) False [] t" by auto
      show ?thesis
        by (rule send) (use t x y(3) Processing w_cpu[OF i Processing] w False in simp_all)
    qed
  next
    case Writing
    with working have w: "r_chan a i = Nothing" "mpiCallList ?s = []" by simp_all
    from worker_write_done[OF lw(1) at[unfolded Writing] w(2) lw(2,3,4)] obtain t x where
      t: "processIOCallResponse SM_WRITE_FILE icancloud_OK ?s = Ok t" "moved ?s [Data x] t" "mpiCallList t = []"
        "is_send i (j_first j) R x" "worker_at (j_first j) (sent_pos j (?k + 1)) (?k + 1) False [] t"
      using lw(6,7) after by auto
    show ?thesis
      by (rule send) (use t y(3) Writing w_written[OF i Writing] w in simp_all)
  qed (use y(3) in simp_all)
qed

text \<open>The data arrives: the worker waits for it, or has not come so far yet.\<close>

lemma data_sent_pos:
  "round_inv j a \<Longrightarrow> i \<in> workers j \<Longrightarrow> r_chan a i = Data_sent \<Longrightarrow> r_pos a i \<in> {Receiving, Unstarted, Creating}"
  by (auto simp: round_inv_def quiet_at_def collecting_def active_def home_def early_def split: mpos.splits)

lemma react_deliver:
  assumes "hw_net w ! n = x" "mm_dest x = r" "hpc_processRequestMessage x (hw_proc w r) = Ok t"
  shows "react (Deliver n) w = Ok (collect r t (w\<lparr>hw_net := remove_at n (hw_net w)\<rparr>))"
  using assms by (simp add: Let_def)

lemma sim_worker_data:
  assumes ok: "job_ok j D R" and rel: "hpc_rel j D R w a" and inv: "round_inv j a" and i: "i \<in> workers j"
    and x: "hw_net w ! n = x" "is_send (j_first j) i D x" "r_chan a i = Data_sent"
    and net: "filter (about i) (remove_at n (hw_net w)) = []"
      "\<forall>k\<in>workers j. k \<noteq> i \<longrightarrow> filter (about k) (remove_at n (hw_net w)) = traffic k w"
  shows "matched j D R (Deliver n) w a"
proof -
  let ?s = "hw_proc w i" and ?u = "w\<lparr>hw_net := remove_at n (hw_net w)\<rparr>"
  note f = worker_facts[OF ok rel i] and lw = linked_worker[OF ok worker_facts(1)[OF ok rel i] i]
  have calls: "mpiCallList ?s = []" using f(3) x(3) by (simp add: chan_rel_def)
  have dest: "mm_dest x = i" using x(2) by (simp add: is_send_def)
  note collect = collect_arrival[OF rel i, where u = ?u and n = n]
  show ?thesis
  proof (cases "r_pos a i = Receiving")
    case True
    then have r: "waits_for (j_first j) (data_size ?s) (currentMPICall ?s)" "currentState ?s = HPCAPP_WORKER_RECEIVING"
        "createdResultsFile ?s \<or> \<not> workersWrite ?s" "currentIteration ?s = r_wround a i" "hw_pend w i = []" "\<not> hw_timer w i"
      using f(2) by (simp_all add: worker_at_def)
    have "is_send (j_first j) i (data_size ?s) x" using x(2) lw(5) by simp
    from arrives_waiting[OF r(1) calls this sizes_are_int(1)] obtain l where
      go: "hpc_processRequestMessage x ?s = calculateNextState (?s\<lparr>lastSynchroMPICall := l, currentMPICall := clear_call\<rparr>)"
      (is "_ = calculateNextState ?v") by auto
    have "is_worker ?v" "currentState ?v = HPCAPP_WORKER_RECEIVING" "currentMPICall ?v = clear_call" "mpiCallList ?v = []"
        "createdResultsFile ?v \<or> \<not> workersWrite ?v"
      using lw(1) r calls by (simp_all add: is_worker_def)
    from worker_works[OF this, of "j_first j"] obtain t outs where t: "calculateNextState ?v = Ok t" "moved ?v outs t" "mpiCallList t = []"
        "worker_at (j_first j) (r_pos (work j i a) i) (r_wround a i) False outs t"
      using lw(8) r(4) by auto
    have mv: "moved ?s outs t" using t(2) by (simp add: moved_def same_job_def)
    have "hpc_rel j D R (collect i t ?u) (work j i a)"
      by (rule collect[OF _ _ _ _ _ net mv]) (use worker_pend[OF t(4)] t(3,4) r(5,6) in \<open>simp_all add: chan_rel_def\<close>)
    moreover have "round_step j a (work j i a)" using w_data[OF i x(3)] True by simp
    moreover have "react (Deliver n) w = Ok (collect i t ?u)" using x(1) dest go t(1) by (intro react_deliver) simp_all
    ultimately show ?thesis by (intro matchedI)
  next
    case False
    with data_sent_pos[OF inv i x(3)] have p: "r_pos a i = Unstarted \<or> r_pos a i = Creating" by simp
    then have clear: "currentMPICall ?s = clear_call" using f(2) by (auto simp: worker_at_def idle_def)
    let ?t = "?s\<lparr>mpiCallList := [call_of x (myRank ?s)]\<rparr>" and ?b = "a\<lparr>r_chan := (r_chan a)(i := Data_queued)\<rparr>"
    have "sint (word_of_int D :: u32) = D" using sizes_are_int(1)[of ?s] lw(5) by simp
    then have m: "matches_call MPI_SEND (j_first j) D (call_of x (myRank ?s))"
      using call_of_matches[OF x(2)] by simp
    have mv: "moved ?s [] ?t" by (simp add: moved_def same_job_def)
    have "hpc_rel j D R (collect i ?t ?u) ?b"
      by (rule collect[OF _ _ _ _ _ net mv])
        (use m f(2) p in \<open>auto simp: chan_rel_def same_but_def worker_at_def idle_def\<close>)
    moreover have "round_step j a ?b" using w_data[OF i x(3)] False by simp
    moreover have "react (Deliver n) w = Ok (collect i ?t ?u)"
      using x(1) dest arrives_early[OF clear calls x(2)] by (intro react_deliver) simp_all
    ultimately show ?thesis by (intro matchedI)
  qed
qed

subsection \<open>Events of the master\<close>

lemma collect_master:
  assumes lk: "linked j D R (j_first j) (hw_proc u (j_first j))" and mv: "moved (hw_proc u (j_first j)) outs t"
    and at: "master_at (r_master b) (r_round b) (hw_timer u (j_first j)) (hw_pend u (j_first j) @ requests_of outs) t"
    and wr: "\<And>v. (\<And>r. r \<noteq> j_first j \<Longrightarrow> hw_proc v r = hw_proc u r \<and> hw_pend v r = hw_pend u r \<and> hw_timer v r = hw_timer u r) \<Longrightarrow>
      hw_net v = hw_net u @ data_of outs \<Longrightarrow> workers_rel j D R b v"
  shows "hpc_rel j D R (collect (j_first j) t u) b"
proof -
  have out: "os_out t = outs" using lk mv by (simp add: linked_def moved_def)
  have "workers_rel j D R b (collect (j_first j) t u)" by (rule wr) (simp_all add: collect_def out)
  then show ?thesis using linked_moved[OF lk mv] at by (simp add: hpc_rel_def master_rel_def collect_def out)
qed

lemma collect_begun:
  assumes ok: "job_ok j D R" and lk: "linked j D R (j_first j) (hw_proc u (j_first j))"
    and bg: "begun (hw_proc u (j_first j)) (r_round b) outs t" and wr: "workers_rel j D R b u"
    and u: "\<not> hw_timer u (j_first j)" "hw_pend u (j_first j) = []" and quiet: "\<forall>i\<in>workers j. r_chan b i = Nothing"
  shows "hpc_rel j D R (collect (j_first j) t u) (begin_round j b)"
proof -
  let ?s = "hw_proc u (j_first j)"
  have mv: "moved ?s outs t" and l: "workersRead ?s = j_read j" "workersSet ?s = j_size j" "myRank ?s = j_first j" "data_size ?s = D"
    using bg lk by (simp_all add: begun_def linked_def)
  show ?thesis
  proof (cases "j_read j")
    case True
    then obtain xs where xs: "outs = map Data xs" "delivered ?s xs" "master_at (MWaiting (j_size j - 1)) (r_round b) False [] t"
      using bg l by (auto simp: begun_def)
    have set: "set (worker_ranks ?s) = workers j" "distinct (worker_ranks ?s)" using l by (auto simp: worker_ranks_def workers_def)
    have "hpc_rel j D R (collect (j_first j) t u) (deliver_all j b)"
    proof (rule collect_master[OF lk mv])
      show "workers_rel j D R (deliver_all j b) v"
        if "\<And>r. r \<noteq> j_first j \<Longrightarrow> hw_proc v r = hw_proc u r \<and> hw_pend v r = hw_pend u r \<and> hw_timer v r = hw_timer u r"
          "hw_net v = hw_net u @ data_of outs" for v
        by (rule workers_rel_deliver[OF wr _ _ _ _ _ set(2,1) quiet, where xs = xs])
          (use that xs(1,2) l in \<open>auto simp: delivered_def deliver_all_def\<close>)
    qed (use xs u in \<open>simp_all add: deliver_all_def\<close>)
    then show ?thesis using True by (simp add: begin_round_def)
  next
    case False
    then have at: "master_at (MReading (j_size j)) (r_round b) False outs t" using bg l by (simp add: begun_def)
    have "hpc_rel j D R (collect (j_first j) t u) (b\<lparr>r_master := MReading (j_size j)\<rparr>)"
    proof (rule collect_master[OF lk mv])
      show "workers_rel j D R (b\<lparr>r_master := MReading (j_size j)\<rparr>) v"
        if "\<And>r. r \<noteq> j_first j \<Longrightarrow> hw_proc v r = hw_proc u r \<and> hw_pend v r = hw_pend u r \<and> hw_timer v r = hw_timer u r"
          "hw_net v = hw_net u @ data_of outs" for v
        by (rule workers_rel_keep[OF wr]) (use that master_pend[OF at] in auto)
    qed (use at master_pend[OF at] u in simp_all)
    then show ?thesis using False by (simp add: begin_round_def)
  qed
qed

lemma workers_rel_same:
  "workers_rel j D R a w \<Longrightarrow> r_pos b = r_pos a \<Longrightarrow> r_wround b = r_wround a \<Longrightarrow> r_chan b = r_chan a \<Longrightarrow> workers_rel j D R b w"
  by (rule workers_rel_keep) simp_all

lemma collect_ended:
  assumes ok: "job_ok j D R" and lk: "linked j D R (j_first j) (hw_proc u (j_first j))"
    and en: "ended (hw_proc u (j_first j)) (r_round b + 1) outs t" and wr: "workers_rel j D R b u"
    and u: "\<not> hw_timer u (j_first j)" "hw_pend u (j_first j) = []" and quiet: "\<forall>i\<in>workers j. r_chan b i = Nothing"
  shows "hpc_rel j D R (collect (j_first j) t u) (end_round j b)"
proof -
  let ?b = "b\<lparr>r_round := r_round b + 1\<rparr>"
  have n: "numIterations (hw_proc u (j_first j)) = j_rounds j" using lk by (simp add: linked_def)
  have wr': "workers_rel j D R ?b u" by (rule workers_rel_same[OF wr]) simp_all
  show ?thesis
  proof (cases "r_round b + 1 > j_rounds j")
    case True
    then have e: "moved (hw_proc u (j_first j)) [] t" "master_at MFinished (r_round b + 1) False [] t" "outs = []"
      using en n by (auto simp: ended_def)
    have "hpc_rel j D R (collect (j_first j) t u) (?b\<lparr>r_master := MFinished\<rparr>)"
    proof (rule collect_master[OF lk e(1)])
      show "workers_rel j D R (?b\<lparr>r_master := MFinished\<rparr>) v"
        if "\<And>r. r \<noteq> j_first j \<Longrightarrow> hw_proc v r = hw_proc u r \<and> hw_pend v r = hw_pend u r \<and> hw_timer v r = hw_timer u r"
          "hw_net v = hw_net u @ data_of []" for v
        by (rule workers_rel_keep[OF wr]) (use that in auto)
    qed (use e u in simp_all)
    then show ?thesis using True by (simp add: end_round_def Let_def)
  next
    case False
    then have "begun (hw_proc u (j_first j)) (r_round ?b) outs t" using en n by (simp add: ended_def)
    from collect_begun[OF ok lk this wr' u] quiet False show ?thesis by (simp add: end_round_def Let_def)
  qed
qed

lemma collect_written:
  assumes ok: "job_ok j D R" and lk: "linked j D R (j_first j) (hw_proc u (j_first j))"
    and wn: "written (hw_proc u (j_first j)) (r_round b) outs t" and wr: "workers_rel j D R b u"
    and u: "\<not> hw_timer u (j_first j)" "hw_pend u (j_first j) = []" and quiet: "\<forall>i\<in>workers j. r_chan b i = Nothing"
  shows "hpc_rel j D R (collect (j_first j) t u) (write_round j b)"
proof (cases "j_write j")
  case True
  then have "ended (hw_proc u (j_first j)) (r_round b + 1) outs t" using wn lk by (simp add: written_def linked_def)
  from collect_ended[OF ok lk this wr u quiet] True show ?thesis by (simp add: write_round_def)
next
  case False
  then have at: "moved (hw_proc u (j_first j)) outs t" "master_at (MWriting (j_size j)) (r_round b) False outs t"
    using wn lk by (simp_all add: written_def linked_def)
  have "hpc_rel j D R (collect (j_first j) t u) (b\<lparr>r_master := MWriting (j_size j)\<rparr>)"
  proof (rule collect_master[OF lk at(1)])
    show "workers_rel j D R (b\<lparr>r_master := MWriting (j_size j)\<rparr>) v"
      if "\<And>r. r \<noteq> j_first j \<Longrightarrow> hw_proc v r = hw_proc u r \<and> hw_pend v r = hw_pend u r \<and> hw_timer v r = hw_timer u r"
        "hw_net v = hw_net u @ data_of outs" for v
      by (rule workers_rel_keep[OF wr]) (use that master_pend[OF at(2)] in auto)
  qed (use at(2) master_pend[OF at(2)] u in simp_all)
  then show ?thesis using False by (simp add: write_round_def)
qed

subsection \<open>The events of the master are steps\<close>

lemma master_facts:
  assumes "job_ok j D R" "hpc_rel j D R w a"
  shows "linked j D R (j_first j) (hw_proc w (j_first j))" "master_ok (hw_proc w (j_first j))"
    and "master_at (r_master a) (r_round a) (hw_timer w (j_first j)) (hw_pend w (j_first j)) (hw_proc w (j_first j))"
    and "workers_rel j D R a w"
  using assms linked_master by (auto simp: hpc_rel_def master_rel_def)

lemma sim_master_start:
  assumes ok: "job_ok j D R" and rel: "hpc_rel j D R w a" and inv: "round_inv j a" and e: "hw_timer w (j_first j)"
  shows "matched j D R (Execute (j_first j)) w a"
proof -
  let ?m = "j_first j" and ?b = "if j_write j then begin_round j a else a\<lparr>r_master := MCreating\<rparr>"
  let ?s = "hw_proc w ?m" and ?u = "w\<lparr>hw_timer := (hw_timer w)(?m := False)\<rparr>"
  note f = master_facts[OF ok rel]
  have p: "r_master a = MUnstarted" "hw_pend w ?m = []" using f(3) e by (auto simp: master_at_def split: mpos.splits)
  have quiet: "\<forall>i\<in>workers j. r_chan a i = Nothing" using inv p(1) by (simp add: round_inv_def quiet_at_def)
  have lk: "linked j D R ?m (hw_proc ?u ?m)" using f(1) by simp
  from f(3) e p have "master_at MUnstarted (r_round a) True [] ?s" by simp
  from master_starts[OF f(2) this] obtain t outs where t: "calculateNextState ?s = Ok t"
      "if j_write j then begun ?s (r_round a) outs t else moved ?s outs t \<and> master_at MCreating (r_round a) False outs t"
    using f(1) by (auto simp: linked_def)
  have wr: "workers_rel j D R a ?u" by (rule workers_rel_keep[OF f(4)]) simp_all
  have "react (Execute ?m) w = Ok (collect ?m t ?u)" using t(1) by (simp add: hpc_processSelfMessage_def)
  moreover have "round_step j a ?b" using m_start p(1) by blast
  moreover have "hpc_rel j D R (collect ?m t ?u) ?b"
  proof (cases "j_write j")
    case True
    then have "begun (hw_proc ?u ?m) (r_round a) outs t" using t(2) by simp
    from collect_begun[OF ok lk this wr _ _ quiet] p True show ?thesis by simp
  next
    case False
    then have at: "moved (hw_proc ?u ?m) outs t" "master_at MCreating (r_round a) False outs t" using t(2) by simp_all
    have "hpc_rel j D R (collect ?m t ?u) (a\<lparr>r_master := MCreating\<rparr>)"
    proof (rule collect_master[OF lk at(1)])
      show "workers_rel j D R (a\<lparr>r_master := MCreating\<rparr>) v"
        if "\<And>r. r \<noteq> ?m \<Longrightarrow> hw_proc v r = hw_proc ?u r \<and> hw_pend v r = hw_pend ?u r \<and> hw_timer v r = hw_timer ?u r"
          "hw_net v = hw_net ?u @ data_of outs" for v
        by (rule workers_rel_keep[OF f(4)]) (use that master_pend[OF at(2)] in auto)
    qed (use at(2) master_pend[OF at(2)] p in simp_all)
    then show ?thesis using False by simp
  qed
  ultimately show ?thesis by (rule matchedI)
qed

lemma master_request:
  assumes "master_at q k tm pd s" "pd \<noteq> []"
  shows "\<not> tm \<and> (\<exists>y. pd = [y] \<and> (case q of
     MCreating \<Rightarrow> answer_to y = Io_done SM_CREATE_FILE icancloud_OK
   | MReading t \<Rightarrow> answer_to y = Io_done SM_READ_FILE icancloud_OK
   | MWriting t \<Rightarrow> answer_to y = Io_done SM_WRITE_FILE icancloud_OK
   | _ \<Rightarrow> False))"
  using assms by (auto simp: master_at_def is_io_def split: mpos.splits)

text \<open>A step of the master that leaves the workers and the network alone.\<close>

lemma collect_quiet_master:
  assumes rel: "workers_rel j D R a u" and lk: "linked j D R (j_first j) (hw_proc u (j_first j))"
    and mv: "moved (hw_proc u (j_first j)) outs t" and at: "master_at (r_master b) (r_round b) False outs t"
    and u: "\<not> hw_timer u (j_first j)" "hw_pend u (j_first j) = []"
    and same: "r_pos b = r_pos a" "r_wround b = r_wround a" "r_chan b = r_chan a"
  shows "hpc_rel j D R (collect (j_first j) t u) b"
proof (rule collect_master[OF lk mv])
  show "workers_rel j D R b v"
    if "\<And>r. r \<noteq> j_first j \<Longrightarrow> hw_proc v r = hw_proc u r \<and> hw_pend v r = hw_pend u r \<and> hw_timer v r = hw_timer u r"
      "hw_net v = hw_net u @ data_of outs" for v
    by (rule workers_rel_keep[OF rel]) (use that master_pend[OF at] same in auto)
qed (use at master_pend[OF at] u in simp_all)

lemma sim_master_answer:
  assumes ok: "job_ok j D R" and rel: "hpc_rel j D R w a" and inv: "round_inv j a" and n: "n < length (hw_pend w (j_first j))"
  shows "matched j D R (Answer (j_first j) n) w a"
proof -
  let ?m = "j_first j" and ?u = "without_request (j_first j) w"
  let ?s = "hw_proc w ?m"
  note f = master_facts[OF ok rel]
  have size: "workersSet ?s = j_size j" using f(1) by (simp add: linked_def)
  have "hw_pend w ?m \<noteq> []" using n by auto
  from master_request[OF f(3) this] obtain y where y: "hw_pend w ?m = [y]" "\<not> hw_timer w ?m"
      "case r_master a of MCreating \<Rightarrow> answer_to y = Io_done SM_CREATE_FILE icancloud_OK
        | MReading t \<Rightarrow> answer_to y = Io_done SM_READ_FILE icancloud_OK
        | MWriting t \<Rightarrow> answer_to y = Io_done SM_WRITE_FILE icancloud_OK | _ \<Rightarrow> False" by blast
  have at: "master_at (r_master a) (r_round a) False (hw_pend w ?m) ?s" using f(3) y(2) by simp
  have lk: "linked j D R ?m (hw_proc ?u ?m)" and u: "\<not> hw_timer ?u ?m" "hw_pend ?u ?m = []" "hw_proc ?u = hw_proc w"
    using f(1) y(2) by (simp_all add: without_request_def)
  have wr: "workers_rel j D R a ?u" by (rule workers_rel_keep[OF f(4)]) (simp_all add: without_request_def)
  show ?thesis
  proof (cases "r_master a")
    case MCreating
    then have quiet: "\<forall>i\<in>workers j. r_chan a i = Nothing" using inv by (simp add: round_inv_def quiet_at_def)
    from master_created[OF f(2) at[unfolded MCreating]] obtain t outs where
      t: "processIOCallResponse SM_CREATE_FILE icancloud_OK ?s = Ok t" "begun ?s (r_round a) outs t" by blast
    have "begun (hw_proc ?u ?m) (r_round a) outs t" using t(2) u(3) by simp
    from collect_begun[OF ok lk this wr u(1,2) quiet]
    show ?thesis using m_created[OF MCreating] react_answer[OF y(1) n, of t] t(1) y(3) MCreating by (intro matchedI) auto
  next
    case (MReading k)
    then have quiet: "\<forall>i\<in>workers j. r_chan a i = Nothing" and k: "0 < k" "k \<le> workersSet ?s"
      using inv size by (simp_all add: round_inv_def quiet_at_def)
    from master_read_done[OF f(2) at[unfolded MReading] k] obtain t outs where
      t: "processIOCallResponse SM_READ_FILE icancloud_OK ?s = Ok t" "moved ?s outs t"
        "if 1 < k then master_at (MReading (k - 1)) (r_round a) False outs t
         else \<exists>xs. outs = map Data xs \<and> delivered ?s xs \<and> master_at (MWaiting (workersSet ?s - 1)) (r_round a) False [] t" by blast
    have mv: "moved (hw_proc ?u ?m) outs t" using t(2) u(3) by simp
    have "hpc_rel j D R (collect ?m t ?u) (if 1 < k then a\<lparr>r_master := MReading (k - 1)\<rparr> else deliver_all j a)"
    proof (cases "1 < k")
      case True
      with t(3) have "master_at (MReading (k - 1)) (r_round a) False outs t" by simp
      with collect_quiet_master[OF wr lk mv _ u(1,2), of "a\<lparr>r_master := MReading (k - 1)\<rparr>"] True show ?thesis by simp
    next
      case False
      with t(3) obtain xs where xs: "outs = map Data xs" "delivered ?s xs"
        "master_at (MWaiting (workersSet ?s - 1)) (r_round a) False [] t" by auto
      have set: "set (worker_ranks ?s) = workers j" "distinct (worker_ranks ?s)"
        using f(1) by (auto simp: worker_ranks_def workers_def linked_def)
      have "hpc_rel j D R (collect ?m t ?u) (deliver_all j a)"
      proof (rule collect_master[OF lk mv])
        show "workers_rel j D R (deliver_all j a) v"
          if "\<And>r. r \<noteq> ?m \<Longrightarrow> hw_proc v r = hw_proc ?u r \<and> hw_pend v r = hw_pend ?u r \<and> hw_timer v r = hw_timer ?u r"
            "hw_net v = hw_net ?u @ data_of outs" for v
          by (rule workers_rel_deliver[OF wr _ _ _ _ _ set(2,1) quiet, where xs = xs])
            (use that xs(1,2) f(1) in \<open>auto simp: delivered_def deliver_all_def linked_def\<close>)
      qed (use xs u size in \<open>simp_all add: deliver_all_def\<close>)
      then show ?thesis using False by simp
    qed
    then show ?thesis using m_read[OF MReading] react_answer[OF y(1) n, of t] t(1) y(3) MReading by (intro matchedI) auto
  next
    case (MWriting k)
    then have quiet: "\<forall>i\<in>workers j. r_chan a i = Nothing" and k: "0 < k" "k \<le> workersSet ?s"
      using inv size by (simp_all add: round_inv_def quiet_at_def)
    from master_write_done[OF f(2) at[unfolded MWriting] k] obtain t outs where
      t: "processIOCallResponse SM_WRITE_FILE icancloud_OK ?s = Ok t"
        "if 1 < k then moved ?s outs t \<and> master_at (MWriting (k - 1)) (r_round a) False outs t else ended ?s (r_round a + 1) outs t"
      by blast
    have "hpc_rel j D R (collect ?m t ?u) (if 1 < k then a\<lparr>r_master := MWriting (k - 1)\<rparr> else end_round j a)"
    proof (cases "1 < k")
      case True
      with t(2) u(3) have "moved (hw_proc ?u ?m) outs t" "master_at (MWriting (k - 1)) (r_round a) False outs t" by simp_all
      with collect_quiet_master[OF wr lk _ _ u(1,2), of outs t "a\<lparr>r_master := MWriting (k - 1)\<rparr>"] True show ?thesis by simp
    next
      case False
      with t(2) u(3) have "ended (hw_proc ?u ?m) (r_round a + 1) outs t" by simp
      from collect_ended[OF ok lk this wr u(1,2) quiet] False show ?thesis by simp
    qed
    then show ?thesis using m_written[OF MWriting] react_answer[OF y(1) n, of t] t(1) y(3) MWriting by (intro matchedI) auto
  qed (use y(3) in simp_all)
qed

text \<open>A result arrives: it is taken off the network, and the master waits for it.\<close>

lemma result_sent_waiting:
  "round_inv j a \<Longrightarrow> i \<in> workers j \<Longrightarrow> r_chan a i = Result_sent \<Longrightarrow> \<exists>t. r_master a = MWaiting t \<and> 0 < t \<and> t < j_size j"
  by (auto simp: round_inv_def quiet_at_def split: mpos.splits)

lemma collecting_last:
  assumes "round_inv j a" "r_master a = MWaiting 1" "i \<in> workers j" "r_chan a i = Result_sent" "k \<in> workers j" "k \<noteq> i"
  shows "r_chan a k = Nothing"
proof -
  from assms(1,2) obtain P where P: "card P = 1" "\<forall>x\<in>workers j - P. r_chan a x = Nothing"
    by (auto simp: round_inv_def collecting_def)
  have "i \<in> P" using P(2) assms(3,4) by force
  with P(1) have "P = {i}" by (auto simp: card_1_singleton_iff)
  with P(2) assms(5,6) show ?thesis by auto
qed

lemma result_taken:
  assumes rel: "workers_rel j D R a w" and i: "i \<in> workers j" "r_chan a i = Result_sent"
    and net: "filter (about i) (remove_at n (hw_net w)) = []"
      "\<forall>k\<in>workers j. k \<noteq> i \<longrightarrow> filter (about k) (remove_at n (hw_net w)) = traffic k w"
  shows "workers_rel j D R (a\<lparr>r_chan := (r_chan a)(i := Nothing)\<rparr>) (w\<lparr>hw_net := remove_at n (hw_net w)\<rparr>)"
    (is "workers_rel j D R ?b ?u")
proof -
  have "worker_rel j D R ?b ?u k" if k: "k \<in> workers j" for k
  proof -
    have old: "worker_rel j D R a w k" using rel k by (simp add: workers_rel_def)
    show ?thesis
    proof (cases "k = i")
      case True
      with old i(2) net(1) show ?thesis by (simp add: worker_rel_def chan_rel_def traffic_def)
    next
      case False
      then have "traffic k ?u = traffic k w" using net(2) k by (simp add: traffic_def)
      then have "worker_rel j D R ?b ?u k = worker_rel j D R a w k" using False by (intro worker_rel_cong) simp_all
      with old show ?thesis by simp
    qed
  qed
  moreover have "net_ok j D R (remove_at n (hw_net w))"
    using rel set_remove_at[of n "hw_net w"] by (auto simp: workers_rel_def net_ok_def)
  ultimately show ?thesis by (simp add: workers_rel_def)
qed

lemma sim_master_result:
  assumes ok: "job_ok j D R" and rel: "hpc_rel j D R w a" and inv: "round_inv j a" and i: "i \<in> workers j"
    and x: "hw_net w ! n = x" "is_send i (j_first j) R x" "r_chan a i = Result_sent"
    and net: "filter (about i) (remove_at n (hw_net w)) = []"
      "\<forall>k\<in>workers j. k \<noteq> i \<longrightarrow> filter (about k) (remove_at n (hw_net w)) = traffic k w"
  shows "matched j D R (Deliver n) w a"
proof -
  let ?m = "j_first j" and ?u = "w\<lparr>hw_net := remove_at n (hw_net w)\<rparr>" and ?b = "a\<lparr>r_chan := (r_chan a)(i := Nothing)\<rparr>"
  let ?s = "hw_proc w ?m"
  note f = master_facts[OF ok rel]
  obtain k where k: "r_master a = MWaiting k" "0 < k" "k < workersSet ?s"
    using result_sent_waiting[OF inv i x(3)] f(1) by (auto simp: linked_def)
  have at: "master_at (MWaiting k) (r_round a) False [] ?s" and u: "\<not> hw_timer ?u ?m" "hw_pend ?u ?m = []"
    using f(3) k(1) by (simp_all add: master_at_def)
  have sent: "is_send i (myRank ?s) (result_size ?s) x" using x(2) f(1) by (simp add: linked_def)
  have lk: "linked j D R ?m (hw_proc ?u ?m)" using f(1) by simp
  from master_result[OF f(2) at k(2,3) sent] obtain t outs where t: "hpc_processRequestMessage x ?s = Ok t"
      "if 1 < k then moved ?s outs t \<and> outs = [] \<and> master_at (MWaiting (k - 1)) (r_round a) False [] t
       else written ?s (r_round a) outs t" by blast
  have wr: "workers_rel j D R ?b ?u" by (rule result_taken[OF f(4) i x(3) net])
  have "hpc_rel j D R (collect ?m t ?u) (if 1 < k then ?b\<lparr>r_master := MWaiting (k - 1)\<rparr> else write_round j ?b)"
  proof (cases "1 < k")
    case True
    with t(2) have "moved (hw_proc ?u ?m) [] t" "master_at (MWaiting (k - 1)) (r_round a) False [] t" by auto
    with collect_quiet_master[OF wr lk _ _ u, of "[]" t "?b\<lparr>r_master := MWaiting (k - 1)\<rparr>"] True show ?thesis by simp
  next
    case False
    then have "k = 1" using k(2) by simp
    then have quiet: "\<forall>z\<in>workers j. r_chan ?b z = Nothing"
      using collecting_last[OF inv _ i x(3)] k(1) by auto
    from t(2) False have "written (hw_proc ?u ?m) (r_round ?b) outs t" by simp
    from collect_written[OF ok lk this wr u quiet] False show ?thesis by simp
  qed
  moreover have "round_step j a (if 1 < k then ?b\<lparr>r_master := MWaiting (k - 1)\<rparr> else write_round j ?b)"
    using m_result[OF k(1) i x(3)] by (simp add: Let_def)
  moreover have "react (Deliver n) w = Ok (collect ?m t ?u)"
    using x(1,2) t(1) by (intro react_deliver) (simp_all add: is_send_def)
  ultimately show ?thesis by (intro matchedI)
qed

subsection \<open>The simulation\<close>

theorem event_is_step:
  assumes ok: "job_ok j D R" and rel: "hpc_rel j D R w a" and inv: "round_inv j a" "round_bound j a" and en: "enabled j e w"
  shows "matched j D R e w a"
proof (cases e)
  case (Execute r)
  with en members_cases[OF ok, of r] show ?thesis
    using sim_master_start[OF ok rel inv(1)] sim_worker_start[OF ok rel] by auto
next
  case (Answer r n)
  with en members_cases[OF ok, of r] show ?thesis
    using sim_master_answer[OF ok rel inv(1)] sim_worker_answer[OF ok rel inv] by auto
next
  case (Deliver n)
  have "workers_rel j D R a w" "n < length (hw_net w)" using rel en Deliver by (simp_all add: hpc_rel_def)
  from arriving[OF this] obtain i x where "i \<in> workers j" "hw_net w ! n = x" "filter (about i) (remove_at n (hw_net w)) = []"
      "\<forall>k\<in>workers j. k \<noteq> i \<longrightarrow> filter (about k) (remove_at n (hw_net w)) = traffic k w"
      "r_chan a i = Data_sent \<and> is_send (j_first j) i D x \<or> r_chan a i = Result_sent \<and> is_send i (j_first j) R x"
    by blast
  then show ?thesis
    using Deliver sim_worker_data[OF ok rel inv(1)] sim_master_result[OF ok rel inv(1)] by auto
qed

end
