(* ===== verification/HpcRuns.thy ===== *)
theory HpcRuns imports HpcSim begin

text \<open>
  All runs of a set of processes that have been started: no event fails, no run stops before all processes
  have finished, every run ends, and the workers keep in step with their master.
\<close>

subsection \<open>The start\<close>

text \<open>A process that has been started and connected and waits for its timer.\<close>

definition hpc_ready :: "hpc_job \<Rightarrow> int \<Rightarrow> int \<Rightarrow> nat \<Rightarrow> hpc \<Rightarrow> bool" where
  "hpc_ready j D R r s \<longleftrightarrow> linked j D R r s \<and> idle HPCAPP_INIT 1 s \<and> \<not> createdResultsFile s \<and> mpiCallList s = []"

definition hpc_start :: "hpc_job \<Rightarrow> int \<Rightarrow> int \<Rightarrow> hpc_world \<Rightarrow> bool" where
  "hpc_start j D R w \<longleftrightarrow> job_ok j D R \<and> hw_net w = [] \<and>
     (\<forall>r\<in>members j. hpc_ready j D R r (hw_proc w r) \<and> hw_timer w r \<and> hw_pend w r = [])"

definition round_start :: rounds where
  "round_start = \<lparr>r_master = MUnstarted, r_round = 1, r_pos = (\<lambda>i. Unstarted), r_wround = (\<lambda>i. 1), r_chan = (\<lambda>i. Nothing)\<rparr>"

lemma start_rel: "hpc_start j D R w \<Longrightarrow> hpc_rel j D R w round_start"
  using members_cases[of j D R]
  by (auto simp: hpc_start_def hpc_rel_def master_rel_def workers_rel_def worker_rel_def hpc_ready_def round_start_def
      master_at_def worker_at_def chan_rel_def traffic_def net_ok_def)

lemma start_inv: "round_inv j round_start" "round_bound j round_start"
  by (auto simp: round_start_def round_inv_def quiet_at_def home_def early_def round_bound_def)

subsection \<open>Runs\<close>

lemma run_abstract:
  assumes "hpc_run j w es v" "job_ok j D R" "hpc_rel j D R w a" "round_inv j a" "round_bound j a"
  shows "\<exists>b. (round_step j)\<^sup>*\<^sup>* a b \<and> hpc_rel j D R v b \<and> round_inv j b \<and> round_bound j b \<and>
     length es + round_cost j b \<le> round_cost j a"
  using assms
proof (induction arbitrary: a rule: hpc_run.induct)
  case (run_stop w)
  then show ?case by auto
next
  case (run_event e w u es v)
  have ok: "2 \<le> j_size j" "unat (j_rounds j) + 1 < 2 ^ 32" using run_event.prems(1) by (simp_all add: job_ok_def)
  obtain b where b: "round_step j a b" "hpc_rel j D R u b"
    using event_is_step[OF run_event.prems run_event.hyps(1)] run_event.hyps(2) by (auto simp: matched_def)
  have inv: "round_inv j b" "round_bound j b" "round_cost j b < round_cost j a"
    using round_step_inv[OF ok(1) _ b(1)] round_step_bound[OF b(1)] round_step_cost[OF ok(2) _ _ b(1)] run_event.prems by auto
  from run_event.IH[OF run_event.prems(1) b(2) inv(1,2)] obtain c where "(round_step j)\<^sup>*\<^sup>* b c" "hpc_rel j D R v c"
      "round_inv j c" "round_bound j c" "length es + round_cost j c \<le> round_cost j b" by blast
  then show ?case using b(1) inv(3) by (intro exI[of _ c]) (auto intro: converse_rtranclp_into_rtranclp)
qed

lemma run_state:
  assumes "hpc_start j D R w" "hpc_run j w es v"
  shows "\<exists>a. hpc_rel j D R v a \<and> round_inv j a \<and> round_bound j a \<and> (round_step j)\<^sup>*\<^sup>* round_start a \<and>
     length es + round_cost j a \<le> round_cost j round_start"
  using run_abstract[OF assms(2) _ start_rel[OF assms(1)] start_inv] assms(1) by (auto simp: hpc_start_def)

text \<open>Where the master is, and what the workers do then.\<close>

lemma master_position:
  assumes "master_at q k tm pd s"
  shows "currentIteration s = k" "currentState s = HPCAPP_MASTER_WRITTING \<longleftrightarrow> (\<exists>t. q = MWriting t)"
    "currentState s = HPCAPP_MASTER_WAITING_RESULTS \<longleftrightarrow> (\<exists>t. q = MWaiting t)"
  using assms by (auto simp: master_at_def idle_def split: mpos.splits)

lemma step_rounds:
  assumes "round_inv j a" "i \<in> workers j"
  shows "r_wround a i = r_round a \<or> r_wround a i = r_round a + 1"
proof (cases "r_master a")
  case (MWaiting t)
  with assms obtain P where "i \<in> P \<longrightarrow> active j (r_round a) a i" "i \<notin> P \<longrightarrow> has_sent j (r_round a + 1) a i"
    by (auto simp: round_inv_def collecting_def)
  then show ?thesis by (auto simp: active_def has_sent_def home_def)
qed (use assms in \<open>auto simp: round_inv_def quiet_at_def home_def has_sent_def\<close>)

text \<open>A step of the rounds is an event that can happen.\<close>

lemma worker_waits:
  assumes "worker_at m p k tm pd s" "p \<notin> {Receiving, Finished}"
  shows "tm \<or> pd \<noteq> []"
  using assms by (auto simp: worker_at_def is_io_def split: wpos.splits)

lemma master_waits:
  assumes "master_at q k tm pd s" "q \<noteq> MFinished" "\<forall>t. q \<noteq> MWaiting t"
  shows "tm \<or> pd \<noteq> []"
  using assms by (auto simp: master_at_def is_io_def split: mpos.splits)

lemma waits_enabled:
  assumes "r \<in> members j" "hw_timer w r \<or> hw_pend w r \<noteq> []"
  shows "\<exists>e. enabled j e w"
proof (cases "hw_timer w r")
  case True
  with assms(1) have "enabled j (Execute r) w" by simp
  then show ?thesis by blast
next
  case False
  with assms have "enabled j (Answer r 0) w" by simp
  then show ?thesis by blast
qed

lemma traffic_enabled:
  assumes ok: "job_ok j D R" and rel: "workers_rel j D R a w" and ne: "hw_net w \<noteq> []"
  shows "\<exists>e. enabled j e w"
proof -
  have "hw_net w ! 0 \<in> set (hw_net w)" using ne by simp
  with rel obtain i where "i \<in> workers j" "is_send (j_first j) i D (hw_net w ! 0) \<or> is_send i (j_first j) R (hw_net w ! 0)"
    unfolding workers_rel_def net_ok_def by blast
  then have "mm_dest (hw_net w ! 0) \<in> members j" using members_cases[OF ok] by (auto simp: is_send_def)
  then have "enabled j (Deliver 0) w" using ne by simp
  then show ?thesis by blast
qed

lemma step_enabled:
  assumes ok: "job_ok j D R" and rel: "hpc_rel j D R w a" and st: "round_step j a b"
  shows "\<exists>e. enabled j e w"
proof -
  note f = master_facts[OF ok rel]
  have m: "j_first j \<in> members j" using members_cases[OF ok] by simp
  have master: ?thesis if "r_master a \<noteq> MFinished" "\<forall>t. r_master a \<noteq> MWaiting t"
    using waits_enabled[OF m] master_waits[OF f(3) that] by blast
  have worker: ?thesis if "i \<in> workers j" "r_pos a i \<notin> {Receiving, Finished}" for i
    using waits_enabled members_cases[OF ok] worker_waits[OF worker_facts(2)[OF ok rel that(1)] that(2)] that(1) by blast
  have channel: ?thesis if "i \<in> workers j" "r_chan a i = Data_sent \<or> r_chan a i = Result_sent" for i
  proof -
    have "traffic i w \<noteq> []" using worker_facts(3)[OF ok rel that(1)] that(2) by (auto simp: chan_rel_def)
    then have "hw_net w \<noteq> []" by (auto simp: traffic_def)
    then show ?thesis using traffic_enabled[OF ok f(4)] by blast
  qed
  from st show ?thesis
  proof (cases rule: round_step.cases)
    case (m_result t i)
    then show ?thesis using channel by blast
  next
    case (w_data i)
    then show ?thesis using channel by blast
  qed (use master worker in simp_all)
qed

text \<open>A run can be continued until no event is possible any more.\<close>

lemma run_to_end:
  assumes "job_ok j D R" "hpc_rel j D R w a" "round_inv j a" "round_bound j a"
  shows "\<exists>es v. hpc_run j w es v \<and> (\<forall>e. \<not> enabled j e v)"
  using assms
proof (induction "round_cost j a" arbitrary: w a rule: less_induct)
  case less
  show ?case
  proof (cases "\<exists>e. enabled j e w")
    case False
    then show ?thesis using run_stop by blast
  next
    case True
    then obtain e u b where e: "enabled j e w" "react e w = Ok u" "round_step j a b" "hpc_rel j D R u b"
      using event_is_step[OF less.prems] unfolding matched_def by blast
    have "2 \<le> j_size j" "unat (j_rounds j) + 1 < 2 ^ 32" using less.prems(1) by (simp_all add: job_ok_def)
    then have "round_cost j b < round_cost j a" "round_inv j b" "round_bound j b"
      using round_step_inv[OF _ _ e(3)] round_step_bound[OF e(3)] round_step_cost[OF _ _ _ e(3)] less.prems by auto
    from less.hyps[OF this(1) less.prems(1) e(4) this(2,3)] run_event[OF e(1,2)] show ?thesis by blast
  qed
qed

lemma complete_run: "hpc_start j D R w \<Longrightarrow> \<exists>es v. hpc_run j w es v \<and> (\<forall>e. \<not> enabled j e v)"
  using run_to_end[OF _ start_rel start_inv] by (auto simp: hpc_start_def)

subsection \<open>All runs\<close>

text \<open>
  C8: The application implements the rounds: the world that any run reaches stands for a state of the rounds that
  is reached too, and every event that can happen there succeeds and is a step of the rounds.
\<close>

theorem hpc_implements_rounds:
  assumes "hpc_start j D R w" "hpc_run j w es v"
  shows "\<exists>a. (round_step j)\<^sup>*\<^sup>* round_start a \<and> hpc_rel j D R v a \<and>
     (\<forall>e. enabled j e v \<longrightarrow> (\<exists>u b. react e v = Ok u \<and> round_step j a b \<and> hpc_rel j D R u b))"
proof -
  obtain a where a: "hpc_rel j D R v a" "round_inv j a" "round_bound j a" "(round_step j)\<^sup>*\<^sup>* round_start a"
    using run_state[OF assms] by blast
  have "job_ok j D R" using assms(1) by (simp add: hpc_start_def)
  from event_is_step[OF this a(1-3)] a show ?thesis by (intro exI[of _ a]) (simp add: matched_def)
qed

text \<open>
  C13: No run stops early: if no event is possible any more, all messages have arrived, and every process has
  finished all its iterations and has scheduled the end of the job.
\<close>

theorem hpc_completes:
  assumes "hpc_start j D R w" "hpc_run j w es v" "\<forall>e. \<not> enabled j e v"
  shows "hw_net v = [] \<and> (\<forall>r\<in>members j. finishing (hw_proc v r) \<and> hw_pend v r = [] \<and>
     j_rounds j < currentIteration (hw_proc v r))"
proof -
  have ok: "job_ok j D R" using assms(1) by (simp add: hpc_start_def)
  obtain a where a: "hpc_rel j D R v a" "round_inv j a" using run_state[OF assms(1,2)] by blast
  have "all_finished j a" using round_progress[OF a(2)] step_enabled[OF ok a(1)] assms(3) by blast
  then have fin: "r_master a = MFinished" "\<forall>i\<in>workers j. r_pos a i = Finished" by (simp_all add: all_finished_def)
  then have late: "j_rounds j < r_round a" "\<forall>i\<in>workers j. r_wround a i = r_round a \<and> r_chan a i = Nothing"
    using a(2) by (simp_all add: round_inv_def quiet_at_def)
  have "finishing (hw_proc v r) \<and> hw_pend v r = [] \<and> j_rounds j < currentIteration (hw_proc v r)" if "r \<in> members j" for r
  proof (cases "r = j_first j")
    case True
    with master_facts(3)[OF ok a(1)] fin(1) late(1) show ?thesis by (simp add: master_at_def idle_def)
  next
    case False
    with that members_cases[OF ok] have i: "r \<in> workers j" by simp
    with worker_facts(2)[OF ok a(1) i] fin(2) late show ?thesis by (simp add: worker_at_def idle_def)
  qed
  moreover have "hw_net v = []"
    using traffic_enabled[OF ok master_facts(4)[OF ok a(1)]] assms(3) by blast
  ultimately show ?thesis by blast
qed

text \<open>
  C12: Every run ends: the number of events is bounded by the number of processes and of iterations.
\<close>

theorem hpc_runs_end:
  assumes "hpc_start j D R w" "hpc_run j w es v"
  shows "length es \<le> 3 * j_size j + 2 + (3 * j_size j + 3) * unat (j_rounds j) + (j_size j - 1) * (12 * unat (j_rounds j) + 10)"
proof -
  have "length es \<le> round_cost j round_start" using run_state[OF assms] by fastforce
  also have "\<dots> = 3 * j_size j + 2 + (3 * j_size j + 3) * unat (j_rounds j) + (j_size j - 1) * (12 * unat (j_rounds j) + 10)"
    by (simp add: round_cost_def round_start_def worker_cost_def chan_cost_def left_rounds_def card_workers)
  finally show ?thesis .
qed

text \<open>
  C14: The workers keep in step with their master: a worker is in the iteration of the master or in the next one, and
  while the master writes the results nothing is on the way and all workers have gone on to the next one.
\<close>

theorem hpc_lockstep:
  assumes "hpc_start j D R w" "hpc_run j w es v" "i \<in> workers j"
  shows "currentIteration (hw_proc v i) - currentIteration (hw_proc v (j_first j)) \<in> {0, 1} \<and>
     (currentState (hw_proc v (j_first j)) = HPCAPP_MASTER_WRITTING \<longrightarrow> hw_net v = [] \<and>
       currentIteration (hw_proc v i) = currentIteration (hw_proc v (j_first j)) + 1)"
proof -
  have ok: "job_ok j D R" using assms(1) by (simp add: hpc_start_def)
  obtain a where a: "hpc_rel j D R v a" "round_inv j a" using run_state[OF assms(1,2)] by blast
  note m = master_position[OF master_facts(3)[OF ok a(1)]]
  have k: "currentIteration (hw_proc v i) = r_wround a i" using worker_round_at[OF worker_facts(2)[OF ok a(1) assms(3)]] .
  have "hw_net v = [] \<and> r_wround a i = r_round a + 1" if "r_master a = MWriting t" for t
  proof -
    have q: "\<forall>i\<in>workers j. r_chan a i = Nothing \<and> r_wround a i = r_round a + 1"
      using a(2) that by (simp add: round_inv_def quiet_at_def has_sent_def)
    have "hw_net v = []"
    proof (rule ccontr)
      assume "hw_net v \<noteq> []"
      then have "0 < length (hw_net v)" by simp
      from arriving[OF master_facts(4)[OF ok a(1)] this] q show False by auto
    qed
    with q assms(3) show ?thesis by simp
  qed
  then show ?thesis using step_rounds[OF a(2) assms(3)] k m(1,2) by auto
qed

end
