(* ===== verification/HpcBoot.thy ===== *)
theory HpcBoot imports HpcRuns begin

text \<open>
  The start of the processes: parameters, configuration of MPI, connections.  A set that has been started by
  the code is one of those that the theorems on runs speak about.
\<close>

text \<open>The two timers before the one that starts the work.\<close>

definition boot :: "int \<Rightarrow> int \<Rightarrow> hpc_par \<Rightarrow> mpi_config \<Rightarrow> hpc \<Rightarrow> hpc res" where
  "boot junk parentIndex p cfg s = bind_res (hpc_startExecution p cfg s) (\<lambda>s.
     bind_res (hpc_processSelfMessage junk parentIndex (Some cfg) SM_SUPER s)
       (hpc_processSelfMessage junk parentIndex (Some cfg) SM_WAIT_TO_CONNECT))"

definition fresh :: "hpc \<Rightarrow> bool" where
  "fresh s \<longleftrightarrow> connections s = [] \<and> mpiConnections s = [] \<and> mpiCallList s = []"

definition job_of :: "nat \<Rightarrow> hpc_par \<Rightarrow> hpc_job" where
  "job_of first p = \<lparr>j_first = first, j_size = par_workersSet p, j_read = par_workersRead p, j_write = par_workersWrite p,
     j_rounds = par_numIterations p\<rparr>"

definition data_bytes :: "hpc_par \<Rightarrow> int" where
  "data_bytes p = (if par_workersRead p then METADATA_MSG_SIZE else sint (par_sliceToWorkers p * KB))"

definition result_bytes :: "hpc_par \<Rightarrow> int" where
  "result_bytes p = (if par_workersWrite p then METADATA_MSG_SIZE else sint (par_sliceToMaster p * KB))"

text \<open>A configuration for whole sets, in which every rank has one host and port.\<close>

definition config_ok :: "hpc_par \<Rightarrow> mpi_config \<Rightarrow> bool" where
  "config_ok p cfg \<longleftrightarrow> 0 \<le> par_connectionDelay p \<and> par_connectionDelay p < par_startDelay p \<and> cfg \<noteq> [] \<and>
     0 < par_workersSet p \<and> length cfg mod par_workersSet p = 0 \<and> distinct (map (\<lambda>(host, port, rank). rank) cfg)"

subsection \<open>Connections\<close>

definition wanted :: "nat \<Rightarrow> nat \<Rightarrow> string \<times> int \<times> nat \<Rightarrow> bool" where
  "wanted n r e \<longleftrightarrow> (case e of (host, port, rank) \<Rightarrow>
     rank \<noteq> r \<and> (getMyMaster n r = rank \<or> isThisWorkerInMyRange n r rank))"

text \<open>What a process listens to: its own port.\<close>

definition listen_own :: "int \<Rightarrow> mpi_config \<Rightarrow> nat \<Rightarrow> connection list" where
  "listen_own junk cfg r = map (\<lambda>(host, port, rank). listening junk port EMPTY) (filter (\<lambda>(host, port, rank). rank = r) cfg)"

text \<open>Only the connections and the messages for the operating system change.\<close>

definition only_links :: "hpc \<Rightarrow> hpc \<Rightarrow> bool" where
  "only_links s t \<longleftrightarrow> (\<exists>out cs ms. t = s\<lparr>os_out := out, connections := cs, mpiConnections := ms\<rparr>)"

lemma only_links_refl [simp]: "only_links s s"
  unfolding only_links_def by (intro exI[of _ "os_out s"] exI[of _ "connections s"] exI[of _ "mpiConnections s"]) simp

lemma only_links_trans: "only_links s t \<Longrightarrow> only_links t u \<Longrightarrow> only_links s u"
  unfolding only_links_def by force

lemma only_links_frame:
  "only_links s t \<Longrightarrow> myRank t = myRank s \<and> workersSet t = workersSet s"
  by (auto simp: only_links_def)

lemma connect_works:
  assumes "0 < workersSet s" "N mod workersSet s = 0"
  shows "\<exists>t. connect_to junk pidx N (host, port, rank) s = Ok t \<and> only_links s t \<and>
     mpiConnections t = mpiConnections s @ filter (wanted (workersSet s) (myRank s)) [(host, port, rank)] \<and>
     connections t = connections s @ (if rank = myRank s then [listening junk port EMPTY] else [])"
proof (cases "rank = myRank s")
  case True
  have "only_links s (createListenConnection junk pidx port s)"
    unfolding only_links_def createListenConnection_def to_os_def
    by (intro exI[of _ "os_out s @ [Listen SM_LISTEN_CONNECTION port ''INET'' None pidx]"]
        exI[of _ "connections s @ [listening junk port EMPTY]"] exI[of _ "mpiConnections s"]) simp
  with True show ?thesis
    by (simp add: connect_to_def wanted_def createListenConnection_def to_os_def listening_def)
next
  case False
  have "only_links s (addNewConnection host port rank s)"
    unfolding only_links_def addNewConnection_def
    by (intro exI[of _ "os_out s"] exI[of _ "connections s"] exI[of _ "mpiConnections s @ [(host, port, rank)]"]) simp
  with False assms show ?thesis
    by (auto simp: connect_to_def wanted_def addNewConnection_def)
qed

lemma connect_all_works:
  assumes "0 < workersSet s" "N mod workersSet s = 0"
  shows "\<exists>t. fold_res (connect_to junk pidx N) cfg s = Ok t \<and> only_links s t \<and>
     mpiConnections t = mpiConnections s @ filter (wanted (workersSet s) (myRank s)) cfg \<and>
     connections t = connections s @ listen_own junk cfg (myRank s)"
  using assms
proof (induction cfg arbitrary: s)
  case Nil
  then show ?case by (simp add: listen_own_def)
next
  case (Cons e cfg)
  obtain host port rank where e: "e = (host, port, rank)" by (cases e)
  obtain u where u: "connect_to junk pidx N e s = Ok u" "only_links s u"
      "mpiConnections u = mpiConnections s @ filter (wanted (workersSet s) (myRank s)) [e]"
      "connections u = connections s @ (if rank = myRank s then [listening junk port EMPTY] else [])"
    using connect_works[OF Cons.prems] e by blast
  have same: "workersSet u = workersSet s" "myRank u = myRank s" using only_links_frame[OF u(2)] by simp_all
  obtain t where t: "fold_res (connect_to junk pidx N) cfg u = Ok t" "only_links u t"
      "mpiConnections t = mpiConnections u @ filter (wanted (workersSet s) (myRank s)) cfg"
      "connections t = connections u @ listen_own junk cfg (myRank s)"
    using Cons.IH[of u] Cons.prems same by auto
  then show ?case using u(1,3,4) e only_links_trans[OF u(2) t(2)] by (simp add: listen_own_def)
qed

definition link_to :: "string \<times> int \<times> nat \<Rightarrow> connection" where
  "link_to e = (case e of (host, port, rank) \<Rightarrow> \<lparr>cn_localAddress = ''Address not set yet!'', cn_destAddress = host,
     cn_localPort = 0, cn_destPort = port, cn_connectionType = ''INET'', cn_id = int rank, cn_connectionId = EMPTY\<rparr>)"

lemma establish_fold:
  fixes s :: hpc
  shows "\<exists>out. fold (\<lambda>(host, port, rank) s. createConnection host port (int rank) s) xs s =
     s\<lparr>os_out := out, connections := connections s @ map link_to xs\<rparr>"
proof (induction xs arbitrary: s)
  case Nil
  show ?case by (intro exI[of _ "os_out s"]) simp
next
  case (Cons e xs)
  obtain host port rank where e: "e = (host, port, rank)" by (cases e)
  have one: "createConnection host port (int rank) s = s\<lparr>os_out := os_out s @
      [Connect SM_CREATE_CONNECTION host port ''INET'' (int rank) (-1)], connections := connections s @ [link_to e]\<rparr>"
    by (simp add: createConnection_def createConnection_user_def to_os_def link_to_def e)
  from Cons.IH[of "createConnection host port (int rank) s"] show ?case by (auto simp: e one)
qed

lemma establish_works:
  fixes s :: hpc
  shows "only_links s (establishAllConnections s)"
    and "connections (establishAllConnections s) = connections s @ map link_to (mpiConnections s)"
proof -
  obtain out where e: "establishAllConnections s =
      s\<lparr>os_out := out, connections := connections s @ map link_to (mpiConnections s)\<rparr>"
    using establish_fold[of "mpiConnections s" s] by (auto simp: establishAllConnections_def)
  show "only_links s (establishAllConnections s)"
    unfolding only_links_def e
    by (intro exI[of _ out] exI[of _ "connections s @ map link_to (mpiConnections s)"] exI[of _ "mpiConnections s"]) simp
  show "connections (establishAllConnections s) = connections s @ map link_to (mpiConnections s)" by (simp add: e)
qed

text \<open>The connection to a rank is found, and leads to the host and port of that rank.\<close>

lemma link_found:
  assumes "(host, port, k) \<in> set xs" "distinct (map (\<lambda>(host, port, rank). rank) xs)" "\<forall>c\<in>set cs. cn_id c \<noteq> int k"
  shows "\<exists>n. index_of (\<lambda>c. cn_id c = int k) (cs @ map link_to xs) = Some n \<and> (cs @ map link_to xs) ! n = link_to (host, port, k)"
proof -
  have none: "index_of (\<lambda>c. cn_id c = int k) cs = None" using assms(3) by (simp add: index_of_None)
  have "link_to (host, port, k) \<in> set (map link_to xs)" "cn_id (link_to (host, port, k)) = int k"
    using imageI[OF assms(1), of link_to] by (simp_all add: link_to_def)
  then have "index_of (\<lambda>c. cn_id c = int k) (map link_to xs) \<noteq> None" unfolding index_of_None by blast
  then obtain n where n: "index_of (\<lambda>c. cn_id c = int k) (map link_to xs) = Some n" by blast
  then have nth: "n < length xs" "cn_id (link_to (xs ! n)) = int k" by (auto simp: index_of_Some)
  have rank: "(\<lambda>(host, port, rank). rank) (xs ! n) = (\<lambda>(host, port, rank). rank) (host, port, k)"
    using nth(2) by (simp add: link_to_def split: prod.splits)
  have "inj_on (\<lambda>(host, port, rank). rank) (set xs)" using assms(2) by (simp add: distinct_map)
  from inj_onD[OF this rank nth_mem[OF nth(1)] assms(1)] have "xs ! n = (host, port, k)" .
  with none n nth(1) show ?thesis by (simp add: index_of_append nth_append)
qed


subsection \<open>A started process\<close>

lemma start_works:
  assumes "config_ok p cfg"
  shows "\<exists>t. hpc_startExecution p cfg s = Ok t \<and> os_out t = os_out s \<and> connections t = connections s \<and>
     mpiConnections t = mpiConnections s \<and> mpiCallList t = mpiCallList s \<and> myRank t = par_rank p \<and>
     workersSet t = par_workersSet p \<and> numIterations t = par_numIterations p \<and> workersRead t = par_workersRead p \<and>
     workersWrite t = par_workersWrite p \<and> data_size t = data_bytes p \<and> result_size t = result_bytes p \<and>
     idle HPCAPP_INIT 1 t \<and> \<not> createdResultsFile t"
  using assms
  by (simp add: hpc_startExecution_def mpi_startExecution_def config_ok_def Let_def start_files_def first_input_def
      first_output_def data_size_def result_size_def data_bytes_def result_bytes_def idle_def)

lemma boot_works:
  assumes "config_ok p cfg" "fresh s"
  shows "\<exists>t. boot junk pidx p cfg s = Ok t \<and>
     connections t = listen_own junk cfg (par_rank p) @ map link_to (filter (wanted (par_workersSet p) (par_rank p)) cfg) \<and>
     myRank t = par_rank p \<and> workersSet t = par_workersSet p \<and> numIterations t = par_numIterations p \<and>
     workersRead t = par_workersRead p \<and> workersWrite t = par_workersWrite p \<and> data_size t = data_bytes p \<and>
     result_size t = result_bytes p \<and> idle HPCAPP_INIT 1 t \<and> \<not> createdResultsFile t \<and> mpiCallList t = []"
proof -
  have p: "0 < par_workersSet p" "length cfg mod par_workersSet p = 0" "cfg \<noteq> []" using assms(1) by (simp_all add: config_ok_def)
  then have long: "par_workersSet p \<le> length cfg" by (metis length_0_conv mod_less not_le)
  obtain u where u: "hpc_startExecution p cfg s = Ok u" "connections u = []" "mpiConnections u = []" "mpiCallList u = []"
      "myRank u = par_rank p" "workersSet u = par_workersSet p" "numIterations u = par_numIterations p"
      "workersRead u = par_workersRead p" "workersWrite u = par_workersWrite p" "data_size u = data_bytes p"
      "result_size u = result_bytes p" "idle HPCAPP_INIT 1 u" "\<not> createdResultsFile u"
    using start_works[OF assms(1), of s] assms(2) by (auto simp: fresh_def)
  let ?u = "u\<lparr>numProcesses := length cfg\<rparr>"
  obtain v where v: "fold_res (connect_to junk pidx (length cfg)) cfg ?u = Ok v" "only_links ?u v"
      "mpiConnections v = filter (wanted (par_workersSet p) (par_rank p)) cfg"
      "connections v = listen_own junk cfg (par_rank p)"
    using connect_all_works[of ?u "length cfg" junk pidx cfg] u p by auto
  have parse: "parseMachinesFile junk pidx (Some cfg) u = Ok v" using v(1) p(3) long u(6) by (simp add: parseMachinesFile_def)
  let ?t = "establishAllConnections v"
  have "boot junk pidx p cfg s = Ok ?t" using u(1) parse by (simp add: boot_def hpc_processSelfMessage_def)
  moreover have "connections ?t = connections v @ map link_to (filter (wanted (par_workersSet p) (par_rank p)) cfg)"
    using establish_works(2)[of v] v(3) by simp
  moreover have "only_links ?u ?t" using only_links_trans[OF v(2) establish_works(1)] .
  then obtain out cs ms where t: "?t = ?u\<lparr>os_out := out, connections := cs, mpiConnections := ms\<rparr>" by (auto simp: only_links_def)
  moreover have "data_size ?t = data_size u" "result_size ?t = result_size u" "idle HPCAPP_INIT 1 ?t"
    using u(12) by (simp_all add: t data_size_def result_size_def idle_def)
  ultimately show ?thesis
    using u v(4) by (intro exI[of _ ?t]) (simp add: t)
qed

subsection \<open>A started set\<close>

definition connected :: "mpi_config \<Rightarrow> hpc \<Rightarrow> nat \<Rightarrow> bool" where
  "connected cfg s k \<longleftrightarrow> (\<exists>host port n. (host, port, k) \<in> set cfg \<and> searchConnectionById (int k) s = Some n \<and>
     cn_destAddress (connections s ! n) = host \<and> cn_destPort (connections s ! n) = port)"

text \<open>Whom a process talks to.\<close>

definition peers :: "hpc_job \<Rightarrow> nat \<Rightarrow> nat set" where
  "peers j r = (if r = j_first j then workers j else {j_first j})"

lemma wanted_peer:
  assumes ok: "job_ok j D R" and r: "r \<in> members j"
  shows "wanted (j_size j) r (host, port, k) \<longleftrightarrow> k \<in> peers j r"
proof (cases "r = j_first j")
  case True
  have "getMyMaster (j_size j) (j_first j) = j_first j" using ok by (auto simp: getMyMaster_def job_ok_def)
  then show ?thesis
    using True rank_roles(1)[OF ok] ok by (auto simp: peers_def wanted_def isThisWorkerInMyRange_def workers_def job_ok_def)
next
  case False
  with r members_cases[OF ok] have w: "r \<in> workers j" by simp
  with False rank_roles(2,3)[OF ok w] ok show ?thesis
    by (auto simp: peers_def wanted_def isThisWorkerInMyRange_def job_ok_def)
qed

lemma connected_boot:
  assumes "connections t = cs @ map link_to (filter P cfg)" "\<forall>c\<in>set cs. cn_id c \<noteq> int k"
    and "distinct (map (\<lambda>(host, port, rank). rank) cfg)" "(host, port, k) \<in> set cfg" "P (host, port, k)"
  shows "connected cfg t k"
proof -
  have "(host, port, k) \<in> set (filter P cfg)" "distinct (map (\<lambda>(host, port, rank). rank) (filter P cfg))"
    using assms(3-5) by (simp_all add: distinct_map_filter)
  from link_found[OF this assms(2)] obtain n where "searchConnectionById (int k) t = Some n"
      "connections t ! n = link_to (host, port, k)"
    by (auto simp: searchConnectionById_def assms(1))
  with assms(4) show ?thesis by (auto simp: connected_def link_to_def)
qed

lemma boot_ready:
  assumes ok: "job_ok (job_of m p) (data_bytes p) (result_bytes p)" and cfg: "config_ok p cfg" and s: "fresh s"
    and ranks: "\<forall>k\<in>members (job_of m p). \<exists>host port. (host, port, k) \<in> set cfg" and r: "par_rank p \<in> members (job_of m p)"
    and junk: "\<forall>k\<in>members (job_of m p). junk \<noteq> int k"
  shows "\<exists>t. boot junk pidx p cfg s = Ok t \<and> (\<forall>k\<in>peers (job_of m p) (par_rank p). connected cfg t k) \<and>
     connections t = listen_own junk cfg (par_rank p) @
       map link_to (filter (\<lambda>(host, port, k). k \<in> peers (job_of m p) (par_rank p)) cfg) \<and>
     hpc_ready (job_of m p) (data_bytes p) (result_bytes p) (par_rank p) (t\<lparr>os_out := []\<rparr>)"
proof -
  let ?j = "job_of m p"
  let ?cs = "listen_own junk cfg (par_rank p)"
  obtain t where t: "boot junk pidx p cfg s = Ok t"
      "connections t = ?cs @ map link_to (filter (wanted (par_workersSet p) (par_rank p)) cfg)"
      "myRank t = par_rank p" "workersSet t = par_workersSet p" "numIterations t = par_numIterations p"
      "workersRead t = par_workersRead p" "workersWrite t = par_workersWrite p" "data_size t = data_bytes p"
      "result_size t = result_bytes p" "idle HPCAPP_INIT 1 t" "\<not> createdResultsFile t" "mpiCallList t = []"
    using boot_works[OF cfg s, of junk pidx] by blast
  have size: "j_size ?j = par_workersSet p" by (simp add: job_of_def)
  have "wanted (par_workersSet p) (par_rank p) = (\<lambda>(host, port, k). k \<in> peers ?j (par_rank p))"
    using wanted_peer[OF ok r] size by (auto simp: fun_eq_iff)
  note exact = t(2)[unfolded this]
  have peer: "connected cfg t k" if k: "k \<in> peers ?j (par_rank p)" for k
  proof -
    have km: "k \<in> members ?j" using k members_cases[OF ok] by (auto simp: peers_def split: if_splits)
    then obtain host port where e: "(host, port, k) \<in> set cfg" using ranks by blast
    have "\<forall>c\<in>set ?cs. cn_id c \<noteq> int k" using junk km by (auto simp: listen_own_def listening_def)
    then show ?thesis using connected_boot[OF exact] cfg e k by (simp add: config_ok_def)
  qed
  have "searchConnectionById (int k) (t\<lparr>os_out := []\<rparr>) \<noteq> None" if "k \<in> peers ?j (par_rank p)" for k
    using peer[OF that] by (auto simp: connected_def searchConnectionById_def)
  then have "linked ?j (data_bytes p) (result_bytes p) (par_rank p) (t\<lparr>os_out := []\<rparr>)"
    using t(3-9) by (auto simp: linked_def peers_def job_of_def split: if_splits)
  then have "hpc_ready ?j (data_bytes p) (result_bytes p) (par_rank p) (t\<lparr>os_out := []\<rparr>)"
    using t(10-12) by (simp add: hpc_ready_def idle_def)
  with t(1) exact peer show ?thesis by blast
qed

text \<open>The processes after the start, before the first of them begins to work.\<close>

definition start_world :: "(nat \<Rightarrow> hpc) \<Rightarrow> hpc_world" where
  "start_world t = \<lparr>hw_proc = (\<lambda>r. (t r)\<lparr>os_out := []\<rparr>), hw_net = [], hw_pend = (\<lambda>r. []), hw_timer = (\<lambda>r. True)\<rparr>"

lemma par_rank_update:
  "job_of m (p\<lparr>par_rank := r\<rparr>) = job_of m p" "data_bytes (p\<lparr>par_rank := r\<rparr>) = data_bytes p"
  "result_bytes (p\<lparr>par_rank := r\<rparr>) = result_bytes p" "config_ok (p\<lparr>par_rank := r\<rparr>) cfg = config_ok p cfg"
  by (simp_all add: job_of_def data_bytes_def result_bytes_def config_ok_def)

text \<open>
  C23: The start connects the processes: every process of a set listens at its own port and has a connection to
  each process it talks to, at the host and port of the configuration, in the order of the configuration, and to
  no other; it waits to execute with the parameters of the set, so the theorems on all runs apply.
\<close>

theorem booted_set_starts:
  assumes "job_ok (job_of m p) (data_bytes p) (result_bytes p)" "config_ok p cfg" "\<forall>r. fresh (s r)"
    and "\<forall>k\<in>members (job_of m p). \<exists>host port. (host, port, k) \<in> set cfg" "\<forall>k\<in>members (job_of m p). junk \<noteq> int k"
  shows "\<exists>t. (\<forall>r\<in>members (job_of m p). boot junk pidx (p\<lparr>par_rank := r\<rparr>) cfg (s r) = Ok (t r) \<and>
       (\<forall>k\<in>peers (job_of m p) r. connected cfg (t r) k) \<and>
       connections (t r) = listen_own junk cfg r @ map link_to (filter (\<lambda>(host, port, k). k \<in> peers (job_of m p) r) cfg)) \<and>
     hpc_start (job_of m p) (data_bytes p) (result_bytes p) (start_world t)"
proof -
  let ?c = "\<lambda>r t. (\<forall>k\<in>peers (job_of m p) r. connected cfg t k) \<and>
    connections t = listen_own junk cfg r @ map link_to (filter (\<lambda>(host, port, k). k \<in> peers (job_of m p) r) cfg)"
  have "\<exists>t. boot junk pidx (p\<lparr>par_rank := r\<rparr>) cfg (s r) = Ok t \<and> ?c r t \<and>
      hpc_ready (job_of m p) (data_bytes p) (result_bytes p) r (t\<lparr>os_out := []\<rparr>)" if "r \<in> members (job_of m p)" for r
    using boot_ready[of m "p\<lparr>par_rank := r\<rparr>" cfg "s r" junk pidx] assms that by (simp add: par_rank_update)
  then obtain t where t: "\<forall>r\<in>members (job_of m p). boot junk pidx (p\<lparr>par_rank := r\<rparr>) cfg (s r) = Ok (t r) \<and> ?c r (t r) \<and>
      hpc_ready (job_of m p) (data_bytes p) (result_bytes p) r ((t r)\<lparr>os_out := []\<rparr>)" by metis
  then have "hpc_start (job_of m p) (data_bytes p) (result_bytes p) (start_world t)"
    using assms(1) by (simp add: hpc_start_def start_world_def)
  with t show ?thesis by blast
qed

end
