(* ===== verification/HpcSample.thy ===== *)
theory HpcSample imports HpcBoot begin

text \<open>
  A set of one master and one worker that read and write themselves, with one iteration: from its start to its
  end.  The theorems on all runs are applied to it.
\<close>

definition sample_par :: hpc_par where
  "sample_par = \<lparr>par_allToAll = False, par_rank = 0, par_workersSet = 2, par_connectionDelay = 1, par_startDelay = 2,
     par_numIterations = 1, par_sliceToWorkers = 1, par_sliceToMaster = 1, par_sliceCPU = 1, par_workersRead = True,
     par_workersWrite = True\<rparr>"

definition sample_cfg :: mpi_config where
  "sample_cfg = [(''h'', 1000, 0), (''h'', 1001, 1)]"

definition sample_new :: hpc where
  "sample_new = \<lparr>os_out = [], connections = [], myRank = 0, numProcesses = 0, workersSet = 0, allToAllConnections = False,
     currentMPICall = clear_call, lastSynchroMPICall = clear_call, barriers = [], mpiCallList = [], mpiConnections = [],
     sameNode = [], currentState = HPCAPP_INIT, numIterations = 0, sliceToWorkers_KB = 0, sliceToMaster_KB = 0, sliceCPU = 0,
     currentIteration = 0, createdResultsFile = False, totalResponses = 0, workersRead = False, workersWrite = False,
     outFileName = '''', inputFileName = '''', offsetRead = 0, offsetWrite = 0, currentInputFile = 0, currentOutputFile = 0,
     finishing = False\<rparr>"

definition sample_job :: hpc_job where "sample_job = job_of 0 sample_par"

definition sample_proc :: "nat \<Rightarrow> hpc" where
  "sample_proc r = (case boot (-1) 0 (sample_par\<lparr>par_rank := r\<rparr>) sample_cfg sample_new of Ok s \<Rightarrow> s | Fail f \<Rightarrow> sample_new)"

definition sample_world :: hpc_world where "sample_world = start_world sample_proc"

lemmas sample_defs = sample_job_def sample_par_def sample_cfg_def job_of_def data_bytes_def result_bytes_def METADATA_MSG_SIZE_def

lemma sample_ok:
  "job_ok (job_of 0 sample_par) (data_bytes sample_par) (result_bytes sample_par)" "config_ok sample_par sample_cfg"
  "fresh sample_new" "\<forall>k\<in>members (job_of 0 sample_par). \<exists>host port. (host, port, k) \<in> set sample_cfg"
proof -
  have "members (job_of 0 sample_par) = {0, 1}" by (auto simp: members_def sample_defs)
  then show "\<forall>k\<in>members (job_of 0 sample_par). \<exists>host port. (host, port, k) \<in> set sample_cfg"
    by (simp add: sample_cfg_def)
qed (simp_all add: job_ok_def config_ok_def fresh_def sample_new_def sample_defs)

lemma sample_start: "hpc_start sample_job 64 64 sample_world"
proof -
  have bytes: "data_bytes sample_par = 64" "result_bytes sample_par = 64" by (simp_all add: sample_defs)
  have "hpc_ready sample_job 64 64 r ((sample_proc r)\<lparr>os_out := []\<rparr>)" if "r \<in> members sample_job" for r
  proof -
    from boot_ready[of 0 "sample_par\<lparr>par_rank := r\<rparr>" sample_cfg sample_new "-1" 0] sample_ok that
    obtain t where "boot (-1) 0 (sample_par\<lparr>par_rank := r\<rparr>) sample_cfg sample_new = Ok t"
        "hpc_ready sample_job 64 64 r (t\<lparr>os_out := []\<rparr>)"
      by (auto simp: par_rank_update bytes sample_job_def)
    then show ?thesis by (simp add: sample_proc_def)
  qed
  then show ?thesis using sample_ok(1) bytes by (simp add: hpc_start_def sample_world_def start_world_def sample_job_def)
qed

subsection \<open>The theorems on runs, applied\<close>

theorem booted_set_starts_witness:
  "\<exists>t. (\<forall>r\<in>members (job_of 0 sample_par). boot (-1) 0 (sample_par\<lparr>par_rank := r\<rparr>) sample_cfg sample_new = Ok (t r) \<and>
       (\<forall>k\<in>peers (job_of 0 sample_par) r. connected sample_cfg (t r) k) \<and>
       connections (t r) = listen_own (-1) sample_cfg r @
         map link_to (filter (\<lambda>(host, port, k). k \<in> peers (job_of 0 sample_par) r) sample_cfg)) \<and>
     hpc_start (job_of 0 sample_par) (data_bytes sample_par) (result_bytes sample_par) (start_world t)"
  by (rule booted_set_starts) (use sample_ok in auto)

theorem hpc_implements_rounds_witness:
  "\<exists>v a. hpc_run sample_job sample_world [Execute 0] v \<and> (round_step sample_job)\<^sup>*\<^sup>* round_start a \<and> hpc_rel sample_job 64 64 v a"
proof -
  have "enabled sample_job (Execute 0) sample_world"
    by (simp add: sample_world_def start_world_def members_def sample_defs)
  moreover obtain v where v: "react (Execute 0) sample_world = Ok v"
    using hpc_implements_rounds[OF sample_start run_stop] calculation by blast
  ultimately have run: "hpc_run sample_job sample_world [Execute 0] v" by (auto simp: hpc_run_simps)
  from hpc_implements_rounds[OF sample_start this] show ?thesis using run by blast
qed

theorem hpc_completes_witness:
  "\<exists>es v. hpc_run sample_job sample_world es v \<and> (\<forall>e. \<not> enabled sample_job e v) \<and> hw_net v = [] \<and> finishing (hw_proc v 0) \<and>
     finishing (hw_proc v 1)"
proof -
  obtain es v where run: "hpc_run sample_job sample_world es v" "\<forall>e. \<not> enabled sample_job e v"
    using complete_run[OF sample_start] by blast
  have "0 \<in> members sample_job" "1 \<in> members sample_job" by (simp_all add: members_def sample_defs)
  with hpc_completes[OF sample_start run] run show ?thesis by blast
qed

theorem hpc_runs_end_witness:
  "\<exists>es v. hpc_run sample_job sample_world es v \<and> (\<forall>e. \<not> enabled sample_job e v) \<and> length es \<le> 39"
proof -
  obtain es v where run: "hpc_run sample_job sample_world es v" "\<forall>e. \<not> enabled sample_job e v"
    using complete_run[OF sample_start] by blast
  have "length es \<le> 39" using hpc_runs_end[OF sample_start run(1)] by (simp add: sample_defs)
  with run show ?thesis by blast
qed

theorem hpc_lockstep_witness:
  "\<exists>es v. hpc_run sample_job sample_world es v \<and> (\<forall>e. \<not> enabled sample_job e v) \<and>
     currentIteration (hw_proc v 1) - currentIteration (hw_proc v 0) \<in> {0, 1}"
proof -
  obtain es v where run: "hpc_run sample_job sample_world es v" "\<forall>e. \<not> enabled sample_job e v"
    using complete_run[OF sample_start] by blast
  have "1 \<in> workers sample_job" "j_first sample_job = 0" by (simp_all add: workers_def sample_defs)
  with hpc_lockstep[OF sample_start run(1)] run show ?thesis by metis
qed

end
