(* ===== verification/MpiBarrier.thy ===== *)
theory MpiBarrier imports MpiCalls begin

text \<open>
  The barrier among \<open>n\<close> processes, used any number of times.  An event is that a process enters the barrier or
  that a message of the network arrives, in any order.  \<open>bw_cnt\<close> and \<open>bw_left\<close> count how often a process has
  entered and left.
\<close>

record bar_world =
  bw_proc :: "nat \<Rightarrow> mpi"
  bw_net :: "mpi_message list"
  bw_cnt :: "nat \<Rightarrow> nat"
  bw_left :: "nat \<Rightarrow> nat"

fun messages_of :: "os_msg list \<Rightarrow> mpi_message list" where
  "messages_of [] = []"
| "messages_of (Data x # ms) = x # messages_of ms"
| "messages_of (m # ms) = messages_of ms"

lemma messages_of_map [simp]: "messages_of (map Data xs) = xs"
  by (induction xs) simp_all

definition bar_result :: "nat \<Rightarrow> mpi \<times> bool \<Rightarrow> bar_world \<Rightarrow> bar_world" where
  "bar_result r x w = w\<lparr>bw_proc := (bw_proc w)(r := (fst x)\<lparr>os_out := []\<rparr>), bw_net := bw_net w @ messages_of (os_out (fst x)),
     bw_left := (bw_left w)(r := bw_left w r + (if snd x then 1 else 0))\<rparr>"

datatype bar_event = Enter nat | Arrive nat

fun bar_enabled :: "nat \<Rightarrow> bar_event \<Rightarrow> bar_world \<Rightarrow> bool" where
  "bar_enabled n (Enter r) w \<longleftrightarrow> r < n \<and> bw_left w r = bw_cnt w r"
| "bar_enabled n (Arrive i) w \<longleftrightarrow> i < length (bw_net w)"

fun bar_react :: "bar_event \<Rightarrow> bar_world \<Rightarrow> bar_world res" where
  "bar_react (Enter r) w = bind_res (mpi_barrier (bw_proc w r)) (\<lambda>x. Ok (bar_result r x (w\<lparr>bw_cnt := (bw_cnt w)(r := bw_cnt w r + 1)\<rparr>)))"
| "bar_react (Arrive i) w = (let m = bw_net w ! i in bind_res (processMPICallRequest m (bw_proc w (mm_dest m)))
     (\<lambda>x. Ok (bar_result (mm_dest m) x (w\<lparr>bw_net := remove_at i (bw_net w)\<rparr>))))"

inductive bar_run :: "nat \<Rightarrow> bar_world \<Rightarrow> bar_world \<Rightarrow> bool" for n w where
  bar_stop: "bar_run n w w"
| bar_step: "bar_run n w u \<Longrightarrow> bar_enabled n e u \<Longrightarrow> bar_react e u = Ok v \<Longrightarrow> bar_run n w v"

text \<open>A process of the set: connected to the processes it sends to, its barriers are its own array.\<close>

definition bar_proc :: "nat \<Rightarrow> nat \<Rightarrow> mpi \<Rightarrow> bool" where
  "bar_proc n r s \<longleftrightarrow> myRank s = r \<and> numProcesses s = n \<and> length (barriers s) = n \<and> os_out s = [] \<and>
     (\<forall>i\<in>(if r = 0 then {1..<n} else {0}). \<exists>c\<in>set (connections s). cn_id c = int i)"

lemma bar_proc_cong:
  assumes "bar_proc n r s" "myRank t = myRank s" "numProcesses t = numProcesses s" "barriers t = barriers s"
    "connections t = connections s" "os_out t = []"
  shows "bar_proc n r t"
  using assms by (simp add: bar_proc_def)

lemma has_connection: "\<exists>c\<in>set (connections s). cn_id c = i \<Longrightarrow> searchConnectionById i s \<noteq> None"
  by (auto simp: searchConnectionById_def index_of_None)

definition bar_start :: "nat \<Rightarrow> bar_world \<Rightarrow> bool" where
  "bar_start n w \<longleftrightarrow> 0 < n \<and> bw_net w = [] \<and> (\<forall>r<n. bar_proc n r (bw_proc w r) \<and> bw_cnt w r = 0 \<and> bw_left w r = 0) \<and>
     set (barriers (bw_proc w 0)) \<subseteq> {MPI_BARRIER_UP}"

subsection \<open>Invariant\<close>

definition down_msg :: "nat \<Rightarrow> mpi_message \<Rightarrow> bool" where
  "down_msg r m \<longleftrightarrow> mm_operation m = MPI_BARRIER_DOWN \<and> mm_source m = r \<and> mm_dest m = 0"

definition up_msg :: "nat \<Rightarrow> mpi_message \<Rightarrow> bool" where
  "up_msg r m \<longleftrightarrow> mm_operation m = MPI_BARRIER_UP \<and> mm_dest m = r"

text \<open>How many messages satisfy a predicate.\<close>

definition many :: "('a \<Rightarrow> bool) \<Rightarrow> 'a list \<Rightarrow> nat" where
  "many P xs = length (filter P xs)"

lemma many_simps [simp]: "many P [] = 0" "many P (x # xs) = (if P x then 1 else 0) + many P xs" "many P (xs @ ys) = many P xs + many P ys"
  by (simp_all add: many_def)

lemma many_remove: "i < length xs \<Longrightarrow> many P xs = many P (remove_at i xs) + (if P (xs ! i) then 1 else 0)"
  using arg_cong[OF id_take_nth_drop, of i xs "many P"] by (simp add: remove_at_def)

definition marked :: "bar_world \<Rightarrow> nat \<Rightarrow> nat" where
  "marked w r = (if barriers (bw_proc w 0) ! r = MPI_BARRIER_UP then 0 else 1)"

text \<open>
  \<open>k\<close> is the number of times the barrier has opened: who has entered once more has a message on the way or is
  marked, and who has left once less has a message on the way.
\<close>

definition bar_inv :: "nat \<Rightarrow> bar_world \<Rightarrow> nat \<Rightarrow> bool" where
  "bar_inv n w k \<longleftrightarrow> 0 < n \<and> (\<forall>r<n. bar_proc n r (bw_proc w r)) \<and>
     (\<forall>m\<in>set (bw_net w). \<exists>r\<in>{1..<n}. down_msg r m \<or> up_msg r m) \<and>
     (\<forall>r<n. bw_cnt w r = k + many (down_msg r) (bw_net w) + marked w r \<and> bw_cnt w r \<le> Suc k \<and>
        k = bw_left w r + many (up_msg r) (bw_net w)) \<and>
     (\<exists>r<n. marked w r = 0)"

lemma all_down_iff:
  "n \<le> length bs \<Longrightarrow> all_down n bs = Ok (\<forall>r<n. bs ! r \<noteq> MPI_BARRIER_UP)"
proof (induction n bs rule: all_down.induct)
  case (3 n b bs)
  then show ?case by (auto simp: less_Suc_eq_0_disj)
qed simp_all

lemma up_messages:
  fixes s :: mpi
  assumes "\<forall>i\<in>set is. searchConnectionById (int i) s \<noteq> None"
  shows "\<exists>xs. fold_res (\<lambda>i. send_mpi (barrier_up_msg i)) is s = Ok (s\<lparr>os_out := os_out s @ map Data xs\<rparr>) \<and>
     list_all2 up_msg is xs"
  using assms
proof (induction "is" arbitrary: s)
  case Nil
  show ?case by simp
next
  case (Cons i "is")
  obtain k where k: "searchConnectionById (int i) s = Some k" using Cons.prems by auto
  let ?x = "over_connection (connections s ! k) (barrier_up_msg i)"
  let ?s = "s\<lparr>os_out := os_out s @ [Data ?x]\<rparr>"
  have one: "send_mpi (barrier_up_msg i) s = Ok ?s"
    using k by (simp add: send_mpi_def sendDataToNetwork_def to_os_def barrier_up_msg_def mpi_msg_def MSG_INITIAL_LENGTH_def)
  have "\<forall>i\<in>set is. searchConnectionById (int i) ?s \<noteq> None" using Cons.prems by (simp add: searchConnectionById_def)
  from Cons.IH[OF this] obtain xs where
    "fold_res (\<lambda>i. send_mpi (barrier_up_msg i)) is ?s = Ok (?s\<lparr>os_out := os_out ?s @ map Data xs\<rparr>)" "list_all2 up_msg is xs" by blast
  moreover have "up_msg i ?x" by (simp add: up_msg_def over_connection_def barrier_up_msg_def mpi_msg_def)
  ultimately show ?case using one by (intro exI[of _ "?x # xs"]) simp
qed

lemma up_many:
  assumes "list_all2 up_msg is xs" "distinct is"
  shows "many (up_msg r) xs = (if r \<in> set is then 1 else 0)" "many (down_msg r) xs = 0" "\<forall>m\<in>set xs. \<exists>r\<in>set is. up_msg r m"
  using assms by (induction rule: list_all2_induct) (auto simp: up_msg_def down_msg_def mpi_codes)

text \<open>The master marks a process: the barrier stays closed, or opens for all.\<close>

lemma mark_and_check:
  fixes s :: mpi
  assumes s: "bar_proc n 0 s" and r: "r < n"
  shows "\<exists>t go xs. bind_res (mark_down r s) checkBarriers = Ok (t, go) \<and> bar_proc n 0 (t\<lparr>os_out := []\<rparr>) \<and> os_out t = map Data xs \<and>
     go = (\<forall>i<n. i = r \<or> barriers s ! i \<noteq> MPI_BARRIER_UP) \<and>
     (if go then (\<forall>i<n. barriers t ! i = MPI_BARRIER_UP) \<and> list_all2 up_msg [1..<n] xs
      else barriers t = (barriers s)[r := MPI_BARRIER_DOWN] \<and> xs = [])"
proof -
  let ?s = "s\<lparr>barriers := (barriers s)[r := MPI_BARRIER_DOWN]\<rparr>"
  let ?go = "\<forall>i<n. i = r \<or> barriers s ! i \<noteq> MPI_BARRIER_UP"
  have len: "length (barriers s) = n" "numProcesses s = n" using s by (simp_all add: bar_proc_def)
  have mark: "mark_down r s = Ok ?s" using r len by (simp add: mark_down_def)
  have all: "all_down n (barriers ?s) = Ok ?go"
    using all_down_iff[of n "barriers ?s"] len r by (auto simp: nth_list_update mpi_codes)
  show ?thesis
  proof (cases ?go)
    case False
    then have "checkBarriers ?s = Ok (?s, False)" using all len by (simp add: checkBarriers_def)
    then show ?thesis using mark False s
      by (intro exI[of _ ?s] exI[of _ False] exI[of _ "[]"]) (auto simp: bar_proc_def)
  next
    case True
    let ?t = "?s\<lparr>barriers := replicate n MPI_BARRIER_UP\<rparr>"
    have init: "initBarriers ?s = Ok ?t" using len by (simp add: initBarriers_def)
    have "\<forall>i\<in>set [1..<n]. searchConnectionById (int i) ?t \<noteq> None"
    proof
      fix i assume "i \<in> set [1..<n]"
      with s show "searchConnectionById (int i) ?t \<noteq> None" by (intro has_connection) (simp add: bar_proc_def)
    qed
    from up_messages[OF this] obtain xs where xs: "fold_res (\<lambda>i. send_mpi (barrier_up_msg i)) [1..<n] ?t =
        Ok (?t\<lparr>os_out := os_out ?t @ map Data xs\<rparr>)" "list_all2 up_msg [1..<n] xs" by blast
    then have "checkBarriers ?s = Ok (next_call (?t\<lparr>os_out := os_out ?t @ map Data xs\<rparr>), True)"
      using all True init len by (simp add: checkBarriers_def)
    then show ?thesis using mark True s xs(2)
      by (intro exI[of _ "next_call (?t\<lparr>os_out := os_out ?t @ map Data xs\<rparr>)"] exI[of _ True] exI[of _ xs])
        (auto simp: next_call_def bar_proc_def)
  qed
qed

subsection \<open>Every event keeps the invariant\<close>

text \<open>The master is about to mark \<open>r\<close>, which has entered.\<close>

definition bar_marking :: "nat \<Rightarrow> bar_world \<Rightarrow> nat \<Rightarrow> nat \<Rightarrow> bool" where
  "bar_marking n u k r \<longleftrightarrow> r < n \<and> (\<forall>i<n. bar_proc n i (bw_proc u i)) \<and>
     (\<forall>m\<in>set (bw_net u). \<exists>i\<in>{1..<n}. down_msg i m \<or> up_msg i m) \<and>
     (\<forall>i<n. bw_cnt u i = k + many (down_msg i) (bw_net u) + marked u i + (if i = r then 1 else 0) \<and> bw_cnt u i \<le> Suc k \<and>
        k = bw_left u i + many (up_msg i) (bw_net u))"

lemma marking_inv:
  assumes u: "bar_marking n u k r" and s: "bar_proc n 0 s" "barriers s = barriers (bw_proc u 0)"
  shows "\<exists>x k'. bind_res (mark_down r s) checkBarriers = Ok x \<and> bar_inv n (bar_result 0 x u) k'"
proof -
  have r: "r < n" and n: "0 < n" using u by (auto simp: bar_marking_def)
  obtain t go xs where t: "bind_res (mark_down r s) checkBarriers = Ok (t, go)" "bar_proc n 0 (t\<lparr>os_out := []\<rparr>)" "os_out t = map Data xs"
      "go = (\<forall>i<n. i = r \<or> barriers s ! i \<noteq> MPI_BARRIER_UP)"
      "if go then (\<forall>i<n. barriers t ! i = MPI_BARRIER_UP) \<and> list_all2 up_msg [1..<n] xs
       else barriers t = (barriers s)[r := MPI_BARRIER_DOWN] \<and> xs = []"
    using mark_and_check[OF s(1) r] by blast
  let ?v = "bar_result 0 (t, go) u"
  have net: "bw_net ?v = bw_net u @ xs" by (simp add: bar_result_def t(3))
  have frame: "bw_cnt ?v = bw_cnt u" "bw_left ?v i = bw_left u i + (if i = 0 \<and> go then 1 else 0)" for i
    by (simp_all add: bar_result_def)
  have cnt: "bw_cnt u i = k + many (down_msg i) (bw_net u) + marked u i + (if i = r then 1 else 0)" "bw_cnt u i \<le> Suc k"
      "k = bw_left u i + many (up_msg i) (bw_net u)" if "i < n" for i
    using u that unfolding bar_marking_def by blast+
  have proc: "\<forall>i<n. bar_proc n i (bw_proc ?v i)" using u t(2) by (simp add: bar_marking_def bar_result_def)
  have old: "\<forall>m\<in>set (bw_net u). \<exists>i\<in>{1..<n}. down_msg i m \<or> up_msg i m" using u by (simp add: bar_marking_def)
  have mark: "marked ?v i = (if barriers t ! i = MPI_BARRIER_UP then 0 else 1)" for i by (simp add: marked_def bar_result_def)
  have "\<exists>k'. bar_inv n ?v k'"
  proof (cases go)
    case False
    then have xs: "xs = []" "barriers t = (barriers s)[r := MPI_BARRIER_DOWN]" using t(5) by simp_all
    have "length (barriers s) = n" using s(1) by (simp add: bar_proc_def)
    then have m: "marked ?v i = (if i = r then 1 else marked u i)" if "i < n" for i
      using that xs(2) s(2) unfolding mark marked_def[of u] by (simp add: nth_list_update mpi_codes)
    obtain z where "z < n" "z \<noteq> r" "barriers (bw_proc u 0) ! z = MPI_BARRIER_UP" using False t(4) s(2) by auto
    then have "\<exists>i<n. marked ?v i = 0" using m[of z] by (intro exI[of _ z]) (simp add: marked_def[of u])
    moreover from cnt(1,2)[OF r] have "marked u r = 0" by simp
    then have "bw_cnt ?v i = k + many (down_msg i) (bw_net ?v) + marked ?v i" if "i < n" for i
      using cnt(1)[OF that] unfolding frame net m[OF that] xs(1) by (cases "i = r") simp_all
    moreover have "bw_cnt ?v i \<le> Suc k" "k = bw_left ?v i + many (up_msg i) (bw_net ?v)" if "i < n" for i
      using cnt(2,3)[OF that] False unfolding frame net xs(1) by simp_all
    ultimately have "bar_inv n ?v k" using n proc old xs(1) unfolding bar_inv_def net by simp
    then show ?thesis by blast
  next
    case True
    then have xs: "\<forall>i<n. barriers t ! i = MPI_BARRIER_UP" "list_all2 up_msg [1..<n] xs" using t(5) by simp_all
    note up = up_many[OF xs(2) distinct_upt]
    have m: "marked ?v i = 0" if "i < n" for i using that xs(1) by (simp add: mark)
    have full: "bw_cnt u i = Suc k \<and> many (down_msg i) (bw_net u) = 0" if "i < n" for i
      using cnt(1,2)[OF that] that True t(4) s(2) by (auto simp: marked_def split: if_splits)
    have "bw_cnt ?v i = Suc k + many (down_msg i) (bw_net ?v) + marked ?v i" "bw_cnt ?v i \<le> Suc (Suc k)" if "i < n" for i
      using full[OF that] up(2) unfolding frame net m[OF that] by simp_all
    moreover have "Suc k = bw_left ?v i + many (up_msg i) (bw_net ?v)" if "i < n" for i
      using cnt(3)[OF that] up(1)[of i] that True unfolding frame net by (cases "i = 0") simp_all
    moreover have "\<forall>m\<in>set (bw_net ?v). \<exists>i\<in>{1..<n}. down_msg i m \<or> up_msg i m"
      using old up(3) unfolding net set_append set_upt by blast
    ultimately have "bar_inv n ?v (Suc k)" using n proc m unfolding bar_inv_def by blast
    then show ?thesis by blast
  qed
  with t(1) show ?thesis by blast
qed

lemma bar_inv_at:
  assumes "bar_inv n w k" "i < n"
  shows "bar_proc n i (bw_proc w i)" "bw_cnt w i = k + many (down_msg i) (bw_net w) + marked w i" "bw_cnt w i \<le> Suc k"
    "k = bw_left w i + many (up_msg i) (bw_net w)"
  using assms unfolding bar_inv_def by blast+

lemma bar_invI:
  assumes "0 < n" "\<And>r. r < n \<Longrightarrow> bar_proc n r (bw_proc w r)" "\<forall>m\<in>set (bw_net w). \<exists>r\<in>{1..<n}. down_msg r m \<or> up_msg r m"
    and "\<And>r. r < n \<Longrightarrow> bw_cnt w r = k + many (down_msg r) (bw_net w) + marked w r \<and> bw_cnt w r \<le> Suc k \<and>
        k = bw_left w r + many (up_msg r) (bw_net w)"
    and "\<exists>r<n. marked w r = 0"
  shows "bar_inv n w k"
  using assms unfolding bar_inv_def by blast

text \<open>An event of the worker \<open>r\<close>: it enters, or it leaves.\<close>

lemma worker_moves:
  assumes w: "bar_inv n w k" and r: "0 < r"
    and v: "bw_proc v = (bw_proc w)(r := t)" "bar_proc n r t"
      "\<forall>m\<in>set (bw_net v). \<exists>r\<in>{1..<n}. down_msg r m \<or> up_msg r m"
    and enters: "\<And>j. bw_cnt v j = bw_cnt w j + a j" "\<And>j. many (down_msg j) (bw_net v) = many (down_msg j) (bw_net w) + a j"
      "\<And>j. j < n \<Longrightarrow> bw_cnt v j \<le> Suc k"
    and leaves: "\<And>j. bw_left v j = bw_left w j + b j" "\<And>j. many (up_msg j) (bw_net w) = many (up_msg j) (bw_net v) + b j"
  shows "bar_inv n v k"
proof (rule bar_invI)
  have mk: "marked v j = marked w j" for j using r by (simp add: marked_def v(1))
  show "0 < n" using w unfolding bar_inv_def by blast
  show "bar_proc n j (bw_proc v j)" if "j < n" for j using bar_inv_at(1)[OF w that] v(1,2) by simp
  show "\<forall>m\<in>set (bw_net v). \<exists>r\<in>{1..<n}. down_msg r m \<or> up_msg r m" by (rule v(3))
  show "bw_cnt v j = k + many (down_msg j) (bw_net v) + marked v j \<and> bw_cnt v j \<le> Suc k \<and>
      k = bw_left v j + many (up_msg j) (bw_net v)" if "j < n" for j
    using bar_inv_at(2,4)[OF w that] enters(1,2)[of j] enters(3)[OF that] leaves[of j] mk[of j] by linarith
  show "\<exists>j<n. marked v j = 0" using w unfolding mk bar_inv_def by blast
qed

text \<open>Who may enter has left as often as the barrier has opened, and is not marked.\<close>

lemma outside:
  assumes "bar_inv n w k" "r < n" "bw_left w r = bw_cnt w r"
  shows "bw_cnt w r = k" "marked w r = 0" "many (down_msg r) (bw_net w) = 0" "many (up_msg r) (bw_net w) = 0"
proof -
  have "bw_cnt w r = k + many (down_msg r) (bw_net w) + marked w r" "k = bw_left w r + many (up_msg r) (bw_net w)"
    using assms(1,2) by (simp_all add: bar_inv_def)
  with assms(3) show "bw_cnt w r = k" "marked w r = 0" "many (down_msg r) (bw_net w) = 0" "many (up_msg r) (bw_net w) = 0"
    by linarith+
qed

lemma enter_inv:
  assumes w: "bar_inv n w k" and r: "r < n" "bw_left w r = bw_cnt w r"
  shows "\<exists>v k'. bar_react (Enter r) w = Ok v \<and> bar_inv n v k'"
proof -
  let ?u = "w\<lparr>bw_cnt := (bw_cnt w)(r := bw_cnt w r + 1)\<rparr>"
  let ?s = "(bw_proc w r)\<lparr>currentMPICall := (currentMPICall (bw_proc w r))\<lparr>mc_call := MPI_BARRIER, mc_sender := myRank (bw_proc w r),
        mc_receiver := MPI_MASTER_RANK\<rparr>\<rparr>"
  note o = outside[OF w r]
  have proc: "bar_proc n r (bw_proc w r)" using w r(1) by (simp add: bar_inv_def)
  have s: "bar_proc n r ?s" "barriers ?s = barriers (bw_proc w r)" using proc by (simp_all add: bar_proc_def)
  show ?thesis
  proof (cases "r = 0")
    case True
    have "bw_cnt ?u i = k + many (down_msg i) (bw_net ?u) + marked ?u i + (if i = 0 then 1 else 0) \<and> bw_cnt ?u i \<le> Suc k \<and>
        k = bw_left ?u i + many (up_msg i) (bw_net ?u)" if "i < n" for i
      using bar_inv_at(2-4)[OF w that] o True by (simp add: marked_def)
    moreover have "\<forall>i<n. bar_proc n i (bw_proc ?u i)" "\<forall>m\<in>set (bw_net ?u). \<exists>i\<in>{1..<n}. down_msg i m \<or> up_msg i m"
      using w by (simp_all add: bar_inv_def)
    ultimately have "bar_marking n ?u k 0" using r(1) True unfolding bar_marking_def by blast
    from marking_inv[OF this s(1)[unfolded True]] s(2) True
    obtain x k' where x: "bind_res (mark_down 0 ?s) checkBarriers = Ok x" "bar_inv n (bar_result 0 x ?u) k'" by auto
    have "mpi_barrier (bw_proc w r) = Ok x"
      using x(1) proc True by (simp add: mpi_barrier_def Let_def bar_proc_def MPI_MASTER_RANK_def)
    with x(2) True show ?thesis by auto
  next
    case False
    let ?m = "mpi_msg MPI_BARRIER_DOWN True MSG_INITIAL_LENGTH (myRank ?s) MPI_MASTER_RANK 0"
    have "searchConnectionById 0 ?s \<noteq> None" using s(1) False by (intro has_connection) (simp add: bar_proc_def)
    then obtain i where i: "searchConnectionById 0 ?s = Some i" by blast
    let ?x = "over_connection (connections ?s ! i) ?m"
    let ?t = "?s\<lparr>os_out := os_out ?s @ [Data ?x]\<rparr>"
    have "send_mpi ?m ?s = Ok ?t"
      using i by (simp add: send_mpi_def sendDataToNetwork_def to_os_def mpi_msg_def MSG_INITIAL_LENGTH_def MPI_MASTER_RANK_def)
    then have "mpi_barrier (bw_proc w r) = Ok (?t, False)"
      using proc False by (simp add: mpi_barrier_def Let_def bar_proc_def MPI_MASTER_RANK_def)
    then have "bar_react (Enter r) w = Ok (bar_result r (?t, False) ?u)" (is "_ = Ok ?v") by simp
    moreover have x: "down_msg j ?x \<longleftrightarrow> j = r" "\<not> up_msg j ?x" for j
      using proc by (auto simp: down_msg_def up_msg_def over_connection_def mpi_msg_def bar_proc_def mpi_codes)
    moreover have "bar_inv n ?v k"
    proof (rule worker_moves[OF w, where a = "\<lambda>j. if j = r then 1 else 0" and b = "\<lambda>j. 0"])
      have net: "bw_net ?v = bw_net w @ [?x]" using proc by (simp add: bar_result_def bar_proc_def)
      show "bw_proc ?v = (bw_proc w)(r := ?t\<lparr>os_out := []\<rparr>)" by (simp add: bar_result_def)
      show "bar_proc n r (?t\<lparr>os_out := []\<rparr>)" by (rule bar_proc_cong[OF s(1)]) simp_all
      show "\<forall>m\<in>set (bw_net ?v). \<exists>r\<in>{1..<n}. down_msg r m \<or> up_msg r m"
      proof
        fix m assume "m \<in> set (bw_net ?v)"
        then consider "m \<in> set (bw_net w)" | "m = ?x" unfolding net by auto
        then show "\<exists>r\<in>{1..<n}. down_msg r m \<or> up_msg r m"
        proof cases
          case 1
          with w show ?thesis unfolding bar_inv_def by blast
        next
          case 2
          then have "down_msg r m" using x(1)[of r] by simp
          moreover have "r \<in> {1..<n}" using r(1) False by simp
          ultimately show ?thesis by blast
        qed
      qed
      show "many (down_msg j) (bw_net ?v) = many (down_msg j) (bw_net w) + (if j = r then 1 else 0)"
        "many (up_msg j) (bw_net w) = many (up_msg j) (bw_net ?v) + 0" for j
        unfolding net using x[of j] by simp_all
      show cnt: "bw_cnt ?v j = bw_cnt w j + (if j = r then 1 else 0)" for j by (simp add: bar_result_def)
      show "bw_cnt ?v j \<le> Suc k" if "j < n" for j
        unfolding cnt using bar_inv_at(3)[OF w that] o(1) by (cases "j = r") simp_all
    qed (use False in \<open>simp_all add: bar_result_def\<close>)
    ultimately show ?thesis by blast
  qed
qed

lemma arrive_inv:
  assumes w: "bar_inv n w k" and i: "i < length (bw_net w)"
  shows "\<exists>v k'. bar_react (Arrive i) w = Ok v \<and> bar_inv n v k'"
proof -
  let ?m = "bw_net w ! i" and ?u = "w\<lparr>bw_net := remove_at i (bw_net w)\<rparr>"
  obtain r where r: "r \<in> {1..<n}" "down_msg r ?m \<or> up_msg r ?m" using w nth_mem[OF i] unfolding bar_inv_def by blast
  have rest: "\<forall>m\<in>set (remove_at i (bw_net w)). \<exists>r\<in>{1..<n}. down_msg r m \<or> up_msg r m"
    using w set_remove_at[of i "bw_net w"] unfolding bar_inv_def by blast
  note cut = many_remove[OF i]
  show ?thesis
  proof (cases "down_msg r ?m")
    case True
    then have only: "down_msg j ?m \<longleftrightarrow> j = r" "\<not> up_msg j ?m" for j by (auto simp: down_msg_def up_msg_def mpi_codes)
    have "bw_cnt ?u j = k + many (down_msg j) (bw_net ?u) + marked ?u j + (if j = r then 1 else 0) \<and> bw_cnt ?u j \<le> Suc k \<and>
        k = bw_left ?u j + many (up_msg j) (bw_net ?u)" if "j < n" for j
      using bar_inv_at(2-4)[OF w that] cut[of "down_msg j"] cut[of "up_msg j"] only[of j] by (simp add: marked_def)
    moreover have "\<forall>i<n. bar_proc n i (bw_proc ?u i)" "\<forall>m\<in>set (bw_net ?u). \<exists>i\<in>{1..<n}. down_msg i m \<or> up_msg i m" "r < n"
      using w rest r(1) by (simp_all add: bar_inv_def)
    ultimately have "bar_marking n ?u k r" unfolding bar_marking_def by blast
    from marking_inv[OF this, of "bw_proc w 0"] w r(1) obtain x k' where x: "bind_res (mark_down r (bw_proc w 0)) checkBarriers = Ok x"
        "bar_inv n (bar_result 0 x ?u) k'" by (auto simp: bar_inv_def)
    have "processMPICallRequest ?m (bw_proc w (mm_dest ?m)) = Ok x" "mm_dest ?m = 0"
      using x(1) True r(1) w by (simp_all add: processMPICallRequest_def Let_def down_msg_def mpi_codes mpi_barrier_down_def bar_inv_def bar_proc_def)
    with x(2) show ?thesis by (auto simp: Let_def)
  next
    case False
    then have m: "up_msg r ?m" using r(2) by simp
    then have only: "up_msg j ?m \<longleftrightarrow> j = r" "\<not> down_msg j ?m" for j by (auto simp: down_msg_def up_msg_def mpi_codes)
    let ?x = "(next_call (bw_proc w r), True)"
    have "processMPICallRequest ?m (bw_proc w (mm_dest ?m)) = Ok ?x" "mm_dest ?m = r"
      using m by (simp_all add: processMPICallRequest_def Let_def up_msg_def mpi_codes mpi_barrier_up_def)
    then have "bar_react (Arrive i) w = Ok (bar_result r ?x ?u)" (is "_ = Ok ?v") by (simp add: Let_def)
    moreover have "os_out (bw_proc w r) = []" using w r(1) by (simp add: bar_inv_def bar_proc_def)
    then have net: "bw_net ?v = remove_at i (bw_net w)" by (simp add: bar_result_def next_call_def)
    have "bar_inv n ?v k"
    proof (rule worker_moves[OF w, where a = "\<lambda>j. 0" and b = "\<lambda>j. if j = r then 1 else 0"])
      show "bw_proc ?v = (bw_proc w)(r := (next_call (bw_proc w r))\<lparr>os_out := []\<rparr>)" by (simp add: bar_result_def)
      show "bar_proc n r ((next_call (bw_proc w r))\<lparr>os_out := []\<rparr>)"
        by (rule bar_proc_cong[OF bar_inv_at(1)[OF w]]) (use r(1) in \<open>simp_all add: next_call_def\<close>)
      show "\<forall>m\<in>set (bw_net ?v). \<exists>r\<in>{1..<n}. down_msg r m \<or> up_msg r m" unfolding net by (rule rest)
      show "many (down_msg j) (bw_net ?v) = many (down_msg j) (bw_net w) + 0"
        "many (up_msg j) (bw_net w) = many (up_msg j) (bw_net ?v) + (if j = r then 1 else 0)" for j
        unfolding net using cut[of "down_msg j"] cut[of "up_msg j"] only[of j] by simp_all
      show cnt: "bw_cnt ?v j = bw_cnt w j + 0" for j by (simp add: bar_result_def)
      show "bw_cnt ?v j \<le> Suc k" if "j < n" for j unfolding cnt using bar_inv_at(3)[OF w that] by simp
    qed (use r(1) in \<open>simp_all add: bar_result_def\<close>)
    ultimately show ?thesis by blast
  qed
qed

lemma bar_event_inv:
  assumes "bar_inv n w k" "bar_enabled n e w"
  shows "\<exists>v k'. bar_react e w = Ok v \<and> bar_inv n v k'"
  using assms enter_inv arrive_inv by (cases e) auto

lemma bar_start_inv:
  assumes "bar_start n w"
  shows "bar_inv n w 0"
proof -
  have up: "marked w r = 0" if "r < n" for r
  proof -
    have "barriers (bw_proc w 0) ! r \<in> set (barriers (bw_proc w 0))"
      using assms that by (intro nth_mem) (simp add: bar_start_def bar_proc_def)
    then show ?thesis using assms by (auto simp: bar_start_def marked_def)
  qed
  with assms show ?thesis by (auto simp: bar_inv_def bar_start_def)
qed

lemma bar_run_inv:
  assumes "bar_run n w v" "bar_start n w"
  shows "\<exists>k. bar_inv n v k"
  using assms(1)
proof (induction rule: bar_run.induct)
  case bar_stop
  show ?case using bar_start_inv[OF assms(2)] by blast
next
  case (bar_step u e v)
  then show ?case using bar_event_inv by fastforce
qed

text \<open>
  C36: The barrier holds: no process leaves it for the \<open>k\<close>-th time before every process has entered it \<open>k\<close> times, however
  the messages overtake each other; every event succeeds; and if no message is on the way, some process is outside of
  the barrier, so that the processes never wait for each other.
\<close>

theorem barrier_holds:
  assumes "bar_start n w" "bar_run n w v"
  shows "(\<forall>r<n. \<forall>i<n. bw_left v r \<le> bw_cnt v i) \<and> (\<forall>e. bar_enabled n e v \<longrightarrow> (\<exists>u. bar_react e v = Ok u)) \<and>
     (bw_net v = [] \<longrightarrow> (\<exists>r<n. bar_enabled n (Enter r) v))"
proof -
  obtain k where k: "bar_inv n v k" using bar_run_inv[OF assms(2,1)] by blast
  then have c: "bw_cnt v r = k + many (down_msg r) (bw_net v) + marked v r" "k = bw_left v r + many (up_msg r) (bw_net v)" if "r < n" for r
    using that by (simp_all add: bar_inv_def)
  have "bw_left v r \<le> bw_cnt v i" if "r < n" "i < n" for r i using c(1)[OF that(2)] c(2)[OF that(1)] by linarith
  moreover have "\<exists>r<n. bar_enabled n (Enter r) v" if "bw_net v = []"
  proof -
    obtain r where r: "r < n" "marked v r = 0" using k by (auto simp: bar_inv_def)
    with c[OF r(1)] that have "bar_enabled n (Enter r) v" by simp
    with r(1) show ?thesis by blast
  qed
  ultimately show ?thesis using bar_event_inv[OF k] by blast
qed

text \<open>Two processes.\<close>

definition sample_bar :: bar_world where
  "sample_bar = \<lparr>bw_proc = (\<lambda>r. if r = 0 then sample_mpi else sample_mpi\<lparr>myRank := r, connections := [link_up 0]\<rparr>), bw_net = [],
     bw_cnt = (\<lambda>r. 0), bw_left = (\<lambda>r. 0)\<rparr>"

theorem barrier_holds_witness:
  "\<exists>v. bar_react (Enter 1) sample_bar = Ok v \<and> bar_run 2 sample_bar v \<and> (\<forall>r<2. \<forall>i<2. bw_left v r \<le> bw_cnt v i)"
proof -
  have start: "bar_start 2 sample_bar"
    by (auto simp: bar_start_def sample_bar_def bar_proc_def sample_mpi_def link_up_def less_2_cases_iff)
  have on: "bar_enabled 2 (Enter 1) sample_bar" by (simp add: sample_bar_def)
  with barrier_holds[OF start bar_stop] obtain v where v: "bar_react (Enter 1) sample_bar = Ok v" by blast
  have run: "bar_run 2 sample_bar v" by (rule bar_step[OF bar_stop on v])
  from barrier_holds[OF start run] v run show ?thesis by blast
qed

end
