(* ===== verification/EnergyStates.thy ===== *)
theory EnergyStates imports Prelude Complex_Main begin

text \<open>
  The energy states of one component (\<^verbatim>\<open>EnergyState\<close> and \<^verbatim>\<open>EnergyMeterStates\<close> in
  \<^verbatim>\<open>src/src/EnergySystem/EnergyMeter/EnergyMeterUnit/States\<close>): a component has a list of states with a
  power each, is in one of them, and adds up the time of its states.

  \<^verbatim>\<open>simtime_t\<close>, \<^verbatim>\<open>double\<close> and \<^verbatim>\<open>float\<close> are rational numbers: rounding is not modelled.  The array
  \<^verbatim>\<open>nonAccumulatedTimeStates\<close> is \<open>ms_vector\<close>: empty for NULL, and \<open>None\<close> for an element that was never
  written.
\<close>

record energy_state =
  es_state :: string
  es_time :: rat
  es_value :: rat

record meter_states =
  ms_states :: "energy_state list"
  ms_lastEvent :: rat
  ms_actual :: string
  ms_pos :: nat
  ms_base :: rat
  ms_memo :: bool
  ms_vector :: "rat option list"
  ms_accum :: rat

definition new_meter_states :: meter_states where
  "new_meter_states = \<lparr>ms_states = [], ms_lastEvent = 0, ms_actual = [], ms_pos = 0, ms_base = 0, ms_memo = False,
     ms_vector = [], ms_accum = 0\<rparr>"

definition new_state :: "string \<Rightarrow> rat \<Rightarrow> energy_state" where
  "new_state name consumption = \<lparr>es_state = name, es_time = 0, es_value = consumption\<rparr>"

definition setStateTime :: "rat \<Rightarrow> energy_state \<Rightarrow> energy_state" where
  "setStateTime t s = s\<lparr>es_time := es_time s + t\<rparr>"

definition state_index :: "string \<Rightarrow> meter_states \<Rightarrow> nat option" where
  "state_index name m = index_of (\<lambda>s. es_state s = name) (ms_states m)"

text \<open>The time with \<open>k\<close> decimal digits (\<^verbatim>\<open>simtime_t::trunc\<close>); times are not negative.\<close>

definition trunc_digits :: "nat \<Rightarrow> rat \<Rightarrow> rat" where
  "trunc_digits k t = of_int \<lfloor>t * 10 ^ k\<rfloor> / 10 ^ k"

subsection \<open>The array of times\<close>

definition read_vector :: "nat \<Rightarrow> meter_states \<Rightarrow> rat res" where
  "read_vector i m = (if i < length (ms_vector m) then (case ms_vector m ! i of None \<Rightarrow> Fail Undefined | Some x \<Rightarrow> Ok x)
     else Fail Undefined)"

definition write_vector :: "nat \<Rightarrow> rat \<Rightarrow> meter_states \<Rightarrow> meter_states res" where
  "write_vector i x m = (if i < length (ms_vector m) then Ok (m\<lparr>ms_vector := (ms_vector m)[i := Some x]\<rparr>) else Fail Undefined)"

definition add_to_vector :: "nat \<Rightarrow> rat \<Rightarrow> meter_states \<Rightarrow> meter_states res" where
  "add_to_vector i x m = bind_res (read_vector i m) (\<lambda>y. write_vector i (y + x) m)"

text \<open>The array is made with as many elements as the states have bytes; only the first are cleared.\<close>

definition activateMemorization :: "meter_states \<Rightarrow> meter_states" where
  "activateMemorization m = (let n = length (ms_states m)
     in m\<lparr>ms_memo := True, ms_vector := replicate n (Some 0) @ replicate (3 * n) None\<rparr>)"

definition resetMemorizationVector :: "meter_states \<Rightarrow> meter_states res" where
  "resetMemorizationVector m = (let n = length (ms_states m)
     in if n \<le> length (ms_vector m) then Ok (m\<lparr>ms_vector := replicate n (Some 0) @ drop n (ms_vector m)\<rparr>) else Fail Undefined)"

definition activateMemoVector :: "rat \<Rightarrow> meter_states \<Rightarrow> meter_states res" where
  "activateMemoVector now m = (if now = ms_lastEvent m then Ok m
     else let t = trunc_digits 3 now
          in bind_res (write_vector (ms_pos m) (t - trunc_digits 3 (ms_lastEvent m)) m) (\<lambda>m. Ok (m\<lparr>ms_lastEvent := t\<rparr>)))"

subsection \<open>Operations\<close>

definition setNewState :: "string \<Rightarrow> rat \<Rightarrow> meter_states \<Rightarrow> meter_states res" where
  "setNewState name consumption m = (if state_index name m = None
     then Ok (m\<lparr>ms_states := ms_states m @ [new_state name consumption]\<rparr>) else Fail (Thrown ''setNewState''))"

text \<open>The loop counts once more after it has found the state.\<close>

definition initActualState :: "rat \<Rightarrow> string \<Rightarrow> meter_states \<Rightarrow> meter_states" where
  "initActualState now name m = m\<lparr>ms_actual := name,
     ms_pos := (case state_index name m of None \<Rightarrow> length (ms_states m) | Some i \<Rightarrow> Suc i), ms_lastEvent := now\<rparr>"

definition if_memo :: "(meter_states \<Rightarrow> meter_states res) \<Rightarrow> meter_states \<Rightarrow> meter_states res" where
  "if_memo f m = (if ms_memo m then f m else Ok m)"

definition ms_changeState :: "string \<Rightarrow> rat \<Rightarrow> meter_states \<Rightarrow> meter_states res" where
  "ms_changeState state now m =
     (let aux = (if ms_memo m then trunc_digits 1 now else now); elapsed = aux - ms_lastEvent m
      in if ms_actual m = [] then Ok ((initActualState now state m)\<lparr>ms_lastEvent := aux\<rparr>)
         else if ms_actual m = state then Ok m
         else case state_index state m of
             None \<Rightarrow> Fail (Thrown ''changeState'')
           | Some counter \<Rightarrow>
               bind_res (if_memo (add_to_vector (ms_pos m) elapsed) m) (\<lambda>m.
                 if_memo (add_to_vector counter elapsed)
                   (m\<lparr>ms_states := (ms_states m)[counter := setStateTime elapsed (ms_states m ! counter)],
                      ms_actual := state, ms_pos := counter, ms_lastEvent := aux\<rparr>)))"

text \<open>The two ways to ask for the time of a state choose the opposite sources.\<close>

definition getStateTime_named :: "string \<Rightarrow> meter_states \<Rightarrow> rat res" where
  "getStateTime_named state m = (case state_index state m of
     None \<Rightarrow> Ok 0 | Some i \<Rightarrow> if ms_memo m then Ok (es_time (ms_states m ! i)) else read_vector i m)"

definition getActualStateTime :: "rat \<Rightarrow> string \<Rightarrow> meter_states \<Rightarrow> rat res" where
  "getActualStateTime now state m = (if ms_actual m = state then Ok (now - ms_lastEvent m)
     else Fail (Thrown ''getActualStateTime''))"

definition state_at :: "int \<Rightarrow> meter_states \<Rightarrow> energy_state res" where
  "state_at p m = (if 0 \<le> p \<and> p < int (length (ms_states m)) then Ok (ms_states m ! nat p) else Fail Undefined)"

definition getStateTime_at :: "rat \<Rightarrow> int \<Rightarrow> meter_states \<Rightarrow> rat res" where
  "getStateTime_at now p m =
     (if \<not> ms_memo m then
        bind_res (state_at p m) (\<lambda>s.
          if ms_actual m = es_state s then
            bind_res (getActualStateTime now (ms_actual m) m) (\<lambda>t. Ok (es_time s + t))
          else Ok (es_time s))
      else if p < 0 then Fail Undefined else read_vector (nat p) m)"

definition getStateName :: "int \<Rightarrow> meter_states \<Rightarrow> string res" where
  "getStateName p m = bind_res (state_at p m) (\<lambda>s. Ok (es_state s))"

definition getConsumptionValue_named :: "string \<Rightarrow> meter_states \<Rightarrow> rat res" where
  "getConsumptionValue_named state m = (case state_index state m of
     None \<Rightarrow> Fail (Thrown ''getConsumptionValue'') | Some i \<Rightarrow> Ok (es_value (ms_states m ! i)))"

definition getConsumptionValue_at :: "int \<Rightarrow> meter_states \<Rightarrow> rat res" where
  "getConsumptionValue_at p m = bind_res (state_at p m) (\<lambda>s. Ok (es_value s))"

definition getStatesSize :: "meter_states \<Rightarrow> nat" where
  "getStatesSize m = length (ms_states m)"

definition ms_loadComponent :: "energy_state \<Rightarrow> meter_states \<Rightarrow> meter_states" where
  "ms_loadComponent s m = (let m = m\<lparr>ms_states := ms_states m @ [new_state (es_state s) (es_value s)]\<rparr>
     in if ms_actual m = [] then m\<lparr>ms_actual := es_state (hd (ms_states m))\<rparr> else m)"

definition resetMeterStatesVector :: "rat \<Rightarrow> meter_states \<Rightarrow> meter_states" where
  "resetMeterStatesVector now m = (let m = (if ms_actual m \<noteq> [] then m\<lparr>ms_lastEvent := now\<rparr> else m)
     in m\<lparr>ms_states := map (\<lambda>s. s\<lparr>es_time := 0\<rparr>) (ms_states m)\<rparr>)"

definition setConsumptionBase :: "rat \<Rightarrow> meter_states \<Rightarrow> meter_states" where
  "setConsumptionBase v m = m\<lparr>ms_base := v\<rparr>"

definition accumulateEnergyConsumed :: "rat \<Rightarrow> meter_states \<Rightarrow> meter_states" where
  "accumulateEnergyConsumed v m = m\<lparr>ms_accum := ms_accum m + v\<rparr>"

section \<open>What is recorded\<close>

text \<open>
  The changes of state that have an effect, each with the state before, the state after and the time
  spent in the state before.
\<close>

fun intervals :: "string \<Rightarrow> rat \<Rightarrow> (string \<times> rat) list \<Rightarrow> (string \<times> string \<times> rat) list" where
  "intervals a t0 [] = []"
| "intervals a t0 ((s, t) # hist) = (if s = a then intervals a t0 hist else (a, s, t - t0) # intervals s t hist)"

definition time_in :: "string \<Rightarrow> (string \<times> string \<times> rat) list \<Rightarrow> rat" where
  "time_in s is = sum_list (map (\<lambda>(a, b, d). if a = s then d else 0) is)"

definition time_before :: "string \<Rightarrow> (string \<times> string \<times> rat) list \<Rightarrow> rat" where
  "time_before s is = sum_list (map (\<lambda>(a, b, d). if b = s then d else 0) is)"

definition ms_run :: "(string \<times> rat) list \<Rightarrow> meter_states \<Rightarrow> meter_states res" where
  "ms_run hist m = fold_res (\<lambda>(s, t). ms_changeState s t) hist m"

definition started :: "meter_states \<Rightarrow> bool" where
  "started m \<longleftrightarrow> distinct (map es_state (ms_states m)) \<and> ms_actual m \<in> set (map es_state (ms_states m)) \<and>
     [] \<notin> set (map es_state (ms_states m)) \<and> \<not> ms_memo m"

lemma names_kept: "i < length xs \<Longrightarrow> map es_state (xs[i := setStateTime d (xs ! i)]) = map es_state xs"
  by (simp add: map_update setStateTime_def list_update_same_conv)

lemma sum_times_set: "i < length xs \<Longrightarrow>
  sum_list (map es_time (xs[i := setStateTime d (xs ! i)])) = sum_list (map es_time xs) + d"
proof (induction xs arbitrary: i)
  case (Cons x xs)
  then show ?case by (cases i) (simp_all add: setStateTime_def)
qed simp

text \<open>One change that has an effect.\<close>

lemma change_effect:
  assumes "started m" "s \<noteq> ms_actual m" "ms_changeState s t m = Ok m'"
  obtains i where "state_index s m = Some i" "i < length (ms_states m)" "es_state (ms_states m ! i) = s"
    and "m' = m\<lparr>ms_states := (ms_states m)[i := setStateTime (t - ms_lastEvent m) (ms_states m ! i)],
           ms_actual := s, ms_pos := i, ms_lastEvent := t\<rparr>" "started m'"
proof -
  have m: "\<not> ms_memo m" "ms_actual m \<noteq> []" using assms(1) by (auto simp: started_def)
  from assms(2,3) m obtain i where i: "state_index s m = Some i"
     and m': "m' = m\<lparr>ms_states := (ms_states m)[i := setStateTime (t - ms_lastEvent m) (ms_states m ! i)],
           ms_actual := s, ms_pos := i, ms_lastEvent := t\<rparr>"
    by (cases "state_index s m") (auto simp: ms_changeState_def Let_def if_memo_def)
  from i have n: "i < length (ms_states m)" "es_state (ms_states m ! i) = s"
    by (simp_all add: state_index_def index_of_Some)
  from n have "s \<in> set (map es_state (ms_states m))" by (metis length_map nth_map nth_mem)
  then have "started m'" using assms(1) n(1) m by (simp add: started_def m' names_kept del: set_map)
  with i n m' show ?thesis using that by blast
qed

lemma change_none:
  "started m \<Longrightarrow> ms_changeState (ms_actual m) t m = Ok m"
  by (auto simp: ms_changeState_def Let_def started_def)

lemma run_recorded:
  assumes "started m" "ms_run hist m = Ok m'"
  shows "map es_state (ms_states m') = map es_state (ms_states m) \<and>
     (\<forall>i<length (ms_states m). es_time (ms_states m' ! i) =
        es_time (ms_states m ! i) + time_before (es_state (ms_states m ! i)) (intervals (ms_actual m) (ms_lastEvent m) hist))"
  using assms
proof (induction hist arbitrary: m)
  case Nil
  then show ?case by (simp add: ms_run_def time_before_def)
next
  case (Cons c hist)
  obtain s t where c: "c = (s, t)" by (cases c)
  from Cons.prems(2) obtain n where n: "ms_changeState s t m = Ok n" "ms_run hist n = Ok m'"
    by (auto simp: ms_run_def c elim: bind_res_OkE)
  show ?case
  proof (cases "s = ms_actual m")
    case True
    with n change_none[OF Cons.prems(1)] have "n = m" by simp
    with Cons.IH[OF Cons.prems(1)] n(2) True show ?thesis by (simp add: c)
  next
    case False
    from change_effect[OF Cons.prems(1) False n(1)] obtain i where i: "i < length (ms_states m)" "es_state (ms_states m ! i) = s"
      and m1: "n = m\<lparr>ms_states := (ms_states m)[i := setStateTime (t - ms_lastEvent m) (ms_states m ! i)],
           ms_actual := s, ms_pos := i, ms_lastEvent := t\<rparr>" "started n" by metis
    from Cons.IH[OF m1(2) n(2)] have ih: "map es_state (ms_states m') = map es_state (ms_states n)"
      "j < length (ms_states n) \<Longrightarrow> es_time (ms_states m' ! j) = es_time (ms_states n ! j) +
         time_before (es_state (ms_states n ! j)) (intervals s t hist)" for j
      by (auto simp: m1(1))
    have nm: "map es_state (ms_states n) = map es_state (ms_states m)" using i(1) by (simp add: m1(1) names_kept)
    have dist: "j < length (ms_states m) \<Longrightarrow> (es_state (ms_states m ! j) = s) = (j = i)" for j
      using Cons.prems(1) i nth_eq_iff_index_eq[of "map es_state (ms_states m)" j i] by (auto simp: started_def)
    have "es_time (ms_states m' ! j) = es_time (ms_states m ! j) + time_before (es_state (ms_states m ! j))
        (intervals (ms_actual m) (ms_lastEvent m) (c # hist))" if j: "j < length (ms_states m)" for j
    proof -
      have e: "es_state (ms_states n ! j) = es_state (ms_states m ! j)"
        using nm j by (metis length_map nth_map)
      show ?thesis using ih(2)[of j] j dist[OF j] False i
        by (auto simp: e c time_before_def m1(1) setStateTime_def nth_list_update)
    qed
    then show ?thesis using ih(1) nm by simp
  qed
qed

lemma run_started:
  assumes "started m" "ms_run hist m = Ok m'"
  shows "started m' \<and> sum_list (map es_time (ms_states m')) - ms_lastEvent m' = sum_list (map es_time (ms_states m)) - ms_lastEvent m"
proof (rule fold_res_invariant[where P = "\<lambda>n. started n \<and>
    sum_list (map es_time (ms_states n)) - ms_lastEvent n = sum_list (map es_time (ms_states m)) - ms_lastEvent m"])
  show "fold_res (\<lambda>(s, t). ms_changeState s t) hist m = Ok m'" using assms(2) by (simp add: ms_run_def)
  show "started m \<and> sum_list (map es_time (ms_states m)) - ms_lastEvent m = sum_list (map es_time (ms_states m)) - ms_lastEvent m"
    using assms(1) by simp
next
  fix c n n'
  assume n: "started n \<and> sum_list (map es_time (ms_states n)) - ms_lastEvent n = sum_list (map es_time (ms_states m)) - ms_lastEvent m"
    and step: "(case c of (s, t) \<Rightarrow> ms_changeState s t) n = Ok n'"
  obtain s t where c: "c = (s, t)" by (cases c)
  show "started n' \<and> sum_list (map es_time (ms_states n')) - ms_lastEvent n' = sum_list (map es_time (ms_states m)) - ms_lastEvent m"
  proof (cases "s = ms_actual n")
    case True
    then show ?thesis using n step change_none[of n t] by (simp add: c)
  next
    case False
    from n step obtain i where i: "i < length (ms_states n)"
      and n': "n' = n\<lparr>ms_states := (ms_states n)[i := setStateTime (t - ms_lastEvent n) (ms_states n ! i)],
           ms_actual := s, ms_pos := i, ms_lastEvent := t\<rparr>" "started n'"
      using change_effect[of n s t n'] False by (auto simp: c)
    have "sum_list (map es_time (ms_states n')) = sum_list (map es_time (ms_states n)) + (t - ms_lastEvent n)"
      using i by (simp add: n'(1) sum_times_set)
    then show ?thesis using n n'(2) by (simp add: n'(1))
  qed
qed

lemma getStateTime_at_started:
  assumes "started m" "i < length (ms_states m)"
  shows "getStateTime_at now (int i) m = Ok (es_time (ms_states m ! i) +
     (if es_state (ms_states m ! i) = ms_actual m then now - ms_lastEvent m else 0))"
  using assms by (auto simp: getStateTime_at_def state_at_def getActualStateTime_def started_def)

theorem time_charged_to_next_state:
  assumes "started m" "ms_run hist m = Ok m'" "i < length (ms_states m)"
  shows "getStateTime_at now (int i) m' = Ok (es_time (ms_states m ! i)
     + time_before (es_state (ms_states m ! i)) (intervals (ms_actual m) (ms_lastEvent m) hist)
     + (if es_state (ms_states m ! i) = ms_actual m' then now - ms_lastEvent m' else 0))"
proof -
  from run_recorded[OF assms(1,2)] have n: "map es_state (ms_states m') = map es_state (ms_states m)"
     and t: "es_time (ms_states m' ! i) = es_time (ms_states m ! i) +
        time_before (es_state (ms_states m ! i)) (intervals (ms_actual m) (ms_lastEvent m) hist)"
    using assms(3) by blast+
  from n have l: "length (ms_states m') = length (ms_states m)" using map_eq_imp_length_eq by blast
  with n assms(3) have e: "es_state (ms_states m' ! i) = es_state (ms_states m ! i)" by (metis nth_map)
  from getStateTime_at_started[of m' i now] run_started[OF assms(1,2)] assms(3) show ?thesis
    by (simp add: l t e)
qed

lemma sum_single: "distinct (map es_state xs) \<Longrightarrow> a \<in> set (map es_state xs) \<Longrightarrow>
  sum_list (map (\<lambda>s. if es_state s = a then d else 0) xs) = (d :: rat)"
proof (induction xs)
  case (Cons x xs)
  have "sum_list (map (\<lambda>s. if es_state s = a then d else 0) xs) = 0" if "es_state x = a"
  proof -
    have "sum_list (map (\<lambda>s. if es_state s = a then d else 0) xs) = sum_list (map (\<lambda>s. 0) xs)"
      using Cons.prems(1) that by (intro arg_cong[where f = sum_list]) (auto simp: image_iff)
    then show ?thesis by simp
  qed
  then show ?case using Cons by auto
qed simp

text \<open>C17: The times recorded for the states of a component add up to the time since the start.\<close>

theorem recorded_time_is_elapsed:
  assumes "started m" "ms_run hist m = Ok m'"
  shows "\<exists>ts. map (\<lambda>i. getStateTime_at now (int i) m') [0..<length (ms_states m')] = map Ok ts \<and>
     sum_list ts = sum_list (map es_time (ms_states m)) + (now - ms_lastEvent m)"
proof -
  let ?t = "\<lambda>s. es_time s + (if es_state s = ms_actual m' then now - ms_lastEvent m' else 0)"
  from run_started[OF assms] have st: "started m'"
    and sum: "sum_list (map es_time (ms_states m')) - ms_lastEvent m' = sum_list (map es_time (ms_states m)) - ms_lastEvent m"
    by auto
  have "map (\<lambda>i. getStateTime_at now (int i) m') [0..<length (ms_states m')] = map Ok (map ?t (ms_states m'))"
    by (rule nth_equalityI) (simp_all add: getStateTime_at_started[OF st])
  moreover have "sum_list (map ?t (ms_states m')) = sum_list (map es_time (ms_states m')) + (now - ms_lastEvent m')"
    using st sum_single[of "ms_states m'" "ms_actual m'" "now - ms_lastEvent m'"]
    by (simp add: sum_list_addf started_def)
  ultimately show ?thesis using sum by (intro exI[of _ "map ?t (ms_states m')"]) simp
qed

text \<open>A disk that is off for 10 seconds, idle for 5, active for 25 and idle again for 2.\<close>

definition sample_disk :: meter_states where
  "sample_disk = fold ms_loadComponent [new_state ''off'' 1, new_state ''idle'' 5, new_state ''active'' 10] new_meter_states"

definition sample_changes :: "(string \<times> rat) list" where
  "sample_changes = [(''idle'', 10), (''active'', 15), (''idle'', 40)]"

lemma sample_started: "started sample_disk" by code_simp

definition sample_disk_later :: meter_states where
  "sample_disk_later = (case ms_run sample_changes sample_disk of Ok m \<Rightarrow> m | Fail _ \<Rightarrow> sample_disk)"

lemma sample_run: "ms_run sample_changes sample_disk = Ok sample_disk_later" by code_simp

text \<open>The active state is charged with the 5 idle seconds instead of its 25 seconds.\<close>

lemma recorded_time_is_elapsed_witness:
  "\<exists>ts. map (\<lambda>i. getStateTime_at 42 (int i) sample_disk_later) [0..<length (ms_states sample_disk_later)] = map Ok ts \<and>
     sum_list ts = 42"
proof -
  have e: "sum_list (map es_time (ms_states sample_disk)) + (42 - ms_lastEvent sample_disk) = 42" by code_simp
  show ?thesis using recorded_time_is_elapsed[OF sample_started sample_run, of 42] by (simp add: e)
qed

end
