(* ===== verification/HwEnergy.thy ===== *)
theory HwEnergy imports EnergyStates begin

text \<open>
  The energy interface of the hardware (\<^verbatim>\<open>HWEnergyInterface\<close> in
  \<^verbatim>\<open>src/src/Architecture/NodeComponents/Hardware\<close>) with one meter for every component of a device, and
  the controllers of the cores and of the disks that keep the meters of several modules.

  An index past the end of the vector of meters is undefined.
\<close>

record hw_energy =
  hw_meters :: "meter_states list"
  hw_components :: int
  hw_memo :: bool

definition hw_initialize :: hw_energy where
  "hw_initialize = \<lparr>hw_meters = [new_meter_states], hw_components = 1, hw_memo = False\<rparr>"

definition setNumberOfComponents :: "int \<Rightarrow> hw_energy \<Rightarrow> hw_energy" where
  "setNumberOfComponents num h = h\<lparr>hw_components := num,
     hw_meters := hw_meters h @ replicate (nat (num - 1)) new_meter_states\<rparr>"

definition read_meter :: "nat \<Rightarrow> (meter_states \<Rightarrow> 'a res) \<Rightarrow> hw_energy \<Rightarrow> 'a res" where
  "read_meter i f h = (if i < length (hw_meters h) then f (hw_meters h ! i) else Fail Undefined)"

definition change_meter :: "nat \<Rightarrow> (meter_states \<Rightarrow> meter_states res) \<Rightarrow> hw_energy \<Rightarrow> hw_energy res" where
  "change_meter i f h = bind_res (read_meter i f h) (\<lambda>m. Ok (h\<lparr>hw_meters := (hw_meters h)[i := m]\<rparr>))"

text \<open>A loop over the components.\<close>

definition all_components :: "(nat \<Rightarrow> hw_energy \<Rightarrow> hw_energy res) \<Rightarrow> hw_energy \<Rightarrow> hw_energy res" where
  "all_components f h = fold_res f [0..<nat (hw_components h)] h"

subsection \<open>States and powers\<close>

definition e_changeState :: "string \<Rightarrow> rat \<Rightarrow> nat \<Rightarrow> hw_energy \<Rightarrow> hw_energy res" where
  "e_changeState state now i h = change_meter i (ms_changeState state now) h"

definition e_getActualState :: "nat \<Rightarrow> hw_energy \<Rightarrow> string res" where
  "e_getActualState i h = read_meter i (\<lambda>m. Ok (ms_actual m)) h"

definition e_getStatesSize :: "nat \<Rightarrow> hw_energy \<Rightarrow> nat res" where
  "e_getStatesSize i h = read_meter i (\<lambda>m. Ok (getStatesSize m)) h"

definition e_getStateTime_named :: "string \<Rightarrow> nat \<Rightarrow> hw_energy \<Rightarrow> rat res" where
  "e_getStateTime_named state i h = read_meter i (getStateTime_named state) h"

definition e_getStateTime_at :: "rat \<Rightarrow> int \<Rightarrow> nat \<Rightarrow> hw_energy \<Rightarrow> rat res" where
  "e_getStateTime_at now p i h = read_meter i (getStateTime_at now p) h"

definition e_getActualStateTime :: "rat \<Rightarrow> string \<Rightarrow> nat \<Rightarrow> hw_energy \<Rightarrow> rat res" where
  "e_getActualStateTime now state i h = read_meter i (getActualStateTime now state) h"

definition e_getStateName :: "int \<Rightarrow> nat \<Rightarrow> hw_energy \<Rightarrow> string res" where
  "e_getStateName p i h = read_meter i (getStateName p) h"

definition e_getConsumptionValue_named :: "string \<Rightarrow> nat \<Rightarrow> hw_energy \<Rightarrow> rat res" where
  "e_getConsumptionValue_named state i h = read_meter i (getConsumptionValue_named state) h"

definition e_getConsumptionValue_at :: "int \<Rightarrow> nat \<Rightarrow> hw_energy \<Rightarrow> rat res" where
  "e_getConsumptionValue_at p i h = read_meter i (getConsumptionValue_at p) h"

definition hw_consumptionBase :: "nat \<Rightarrow> hw_energy \<Rightarrow> rat res" where
  "hw_consumptionBase i h = read_meter i (\<lambda>m. Ok (ms_base m)) h"

definition load_meter :: "energy_state list \<Rightarrow> rat \<Rightarrow> meter_states \<Rightarrow> meter_states" where
  "load_meter states base m = fold ms_loadComponent states (setConsumptionBase base m)"

definition hw_loadComponent ::
  "energy_state list \<Rightarrow> rat \<Rightarrow> bool \<Rightarrow> nat \<Rightarrow> bool \<Rightarrow> hw_energy \<Rightarrow> hw_energy res" where
  "hw_loadComponent states base activate componentIndex heterogeneous h =
     (let load = (\<lambda>i. change_meter i (\<lambda>m. Ok (load_meter states base m)));
          memo = (\<lambda>i. change_meter i (\<lambda>m. Ok (activateMemorization m)))
      in bind_res (if heterogeneous then all_components load h else load componentIndex h) (\<lambda>h.
           let h = h\<lparr>hw_memo := activate\<rparr>
           in if \<not> activate then Ok h
              else if componentIndex = 0 then all_components memo h
              else memo componentIndex h))"

subsection \<open>History and accumulated energy\<close>

definition resetComponentHistory :: "rat \<Rightarrow> nat \<Rightarrow> hw_energy \<Rightarrow> hw_energy res" where
  "resetComponentHistory now i h = change_meter i (\<lambda>m. Ok (resetMeterStatesVector now m)) h"

definition resetAllHistory :: "rat \<Rightarrow> hw_energy \<Rightarrow> hw_energy res" where
  "resetAllHistory now h = all_components (resetComponentHistory now) h"

text \<open>Calls that do nothing for an index that is not there.\<close>

definition if_meter :: "nat \<Rightarrow> (hw_energy \<Rightarrow> hw_energy res) \<Rightarrow> hw_energy \<Rightarrow> hw_energy res" where
  "if_meter i f h = (if i < length (hw_meters h) then f h else Ok h)"

definition resetStatesVector :: "nat \<Rightarrow> hw_energy \<Rightarrow> hw_energy res" where
  "resetStatesVector i h = if_meter i (change_meter i resetMemorizationVector) h"

definition hw_activateMemoVector :: "rat \<Rightarrow> nat \<Rightarrow> hw_energy \<Rightarrow> hw_energy res" where
  "hw_activateMemoVector now i h = if_meter i (change_meter i (activateMemoVector now)) h"

definition resetTotalVector :: "hw_energy \<Rightarrow> hw_energy res" where
  "resetTotalVector h = all_components (\<lambda>i. change_meter i resetMemorizationVector) h"

definition getStatesVector :: "nat \<Rightarrow> hw_energy \<Rightarrow> rat option list option" where
  "getStatesVector i h = (if i < length (hw_meters h) then Some (ms_vector (hw_meters h ! i)) else None)"

text \<open>The vectors of all components, one after another; all have the length of the first.\<close>

definition getTotalVector :: "rat \<Rightarrow> hw_energy \<Rightarrow> (rat option list \<times> hw_energy) res" where
  "getTotalVector now h = bind_res (e_getStatesSize 0 h) (\<lambda>statesSize.
     fold_res (\<lambda>i (v, h). bind_res (hw_activateMemoVector now i h) (\<lambda>h.
         bind_res (read_meter i (\<lambda>m. if statesSize \<le> length (ms_vector m) then Ok (take statesSize (ms_vector m)) else Fail Undefined) h)
           (\<lambda>w. Ok (v @ w, h))))
       [0..<nat (hw_components h)] ([], h))"

text \<open>Adds energy to one component and returns its sum; for the index -1 to all components.\<close>

definition accumulate_at :: "rat \<Rightarrow> nat \<Rightarrow> hw_energy \<Rightarrow> (rat \<times> hw_energy) res" where
  "accumulate_at e i h = bind_res (change_meter i (\<lambda>m. Ok (accumulateEnergyConsumed e m)) h) (\<lambda>h.
     bind_res (resetStatesVector i h) (\<lambda>h'. Ok (ms_accum (hw_meters h ! i), h')))"

definition accumulateConsumption :: "rat \<Rightarrow> int \<Rightarrow> hw_energy \<Rightarrow> (rat \<times> hw_energy) res" where
  "accumulateConsumption energyConsumed i h =
     (if 0 \<le> i \<and> i < int (length (hw_meters h)) then accumulate_at energyConsumed (nat i) h
      else if i = -1 then
        fold_res (\<lambda>j (c, h). bind_res (accumulate_at (energyConsumed / of_int (hw_components h)) j h) (\<lambda>(d, h). Ok (c + d, h)))
          [0..<nat (hw_components h)] (0, h)
      else Ok (0, h))"

section \<open>The controller of the cores\<close>

text \<open>\<open>cc_cores\<close> has the registered cores, \<open>None\<close> for NULL.\<close>

record cpu_controller =
  cc_hw :: hw_energy
  cc_independent :: bool
  cc_numCPUs :: int
  cc_cores :: "nat option list"

definition cc_initialize :: "bool \<Rightarrow> int \<Rightarrow> cpu_controller" where
  "cc_initialize indep n = \<lparr>cc_hw = setNumberOfComponents n hw_initialize, cc_independent = indep,
     cc_numCPUs = n, cc_cores = replicate (nat n) None\<rparr>"

definition registerCore :: "nat \<Rightarrow> nat \<Rightarrow> cpu_controller \<Rightarrow> cpu_controller res" where
  "registerCore core i c = (if i < length (cc_cores c) then Ok (c\<lparr>cc_cores := (cc_cores c)[i := Some core]\<rparr>) else Fail Undefined)"

text \<open>The loop over the cores changes the same component each time.\<close>

definition cc_changeState :: "string \<Rightarrow> rat \<Rightarrow> nat \<Rightarrow> cpu_controller \<Rightarrow> cpu_controller res" where
  "cc_changeState state now i c =
     bind_res (if cc_independent c
       then bind_res (e_getActualState i (cc_hw c)) (\<lambda>_. e_changeState state now i (cc_hw c))
       else fold_res (\<lambda>_. e_changeState state now i) [0..<nat (to_unsigned (cc_numCPUs c))] (cc_hw c))
     (\<lambda>h. Ok (c\<lparr>cc_hw := h\<rparr>))"

section \<open>The controller of the disks\<close>

record storage_controller =
  sg_hw :: hw_energy
  sg_devices :: "string option list"

definition sg_initialize :: "int \<Rightarrow> storage_controller" where
  "sg_initialize n = \<lparr>sg_hw = setNumberOfComponents n hw_initialize, sg_devices = replicate (nat n) None\<rparr>"

text \<open>A registered device is its own current state, which is read before the change.\<close>

definition registerDevice :: "string \<Rightarrow> nat \<Rightarrow> storage_controller \<Rightarrow> storage_controller res" where
  "registerDevice device i c = (if i < length (sg_devices c)
     then Ok (c\<lparr>sg_devices := (sg_devices c)[i := Some device]\<rparr>) else Fail Undefined)"

definition sg_changeState :: "string \<Rightarrow> rat \<Rightarrow> nat \<Rightarrow> storage_controller \<Rightarrow> storage_controller res" where
  "sg_changeState state now i c =
     (if i < length (sg_devices c) \<and> sg_devices c ! i \<noteq> None
      then bind_res (e_changeState state now i (sg_hw c)) (\<lambda>h. Ok (c\<lparr>sg_hw := h\<rparr>)) else Fail Undefined)"

subsection \<open>Changing a state again, and the other cores\<close>

lemma change_again:
  assumes "ms_changeState s t m = Ok n" "s \<noteq> []"
  shows "ms_changeState s t n = Ok n"
proof -
  have "ms_actual n = s"
    using assms by (auto simp: ms_changeState_def initActualState_def if_memo_def add_to_vector_def write_vector_def Let_def
        bind_res_Ok_iff split: if_splits option.splits)
  then show ?thesis using assms(2) by (simp add: ms_changeState_def Let_def)
qed

lemma change_meter_Ok: "change_meter i f h = Ok k \<longleftrightarrow>
  (\<exists>m. i < length (hw_meters h) \<and> f (hw_meters h ! i) = Ok m \<and> k = h\<lparr>hw_meters := (hw_meters h)[i := m]\<rparr>)"
  by (auto simp: change_meter_def read_meter_def bind_res_Ok_iff)

lemma e_change_other: "e_changeState s t i h = Ok k \<Longrightarrow> j \<noteq> i \<Longrightarrow> e_getActualState j k = e_getActualState j h"
  by (auto simp: e_changeState_def change_meter_Ok e_getActualState_def read_meter_def)

lemma e_change_again:
  assumes "e_changeState s t i h = Ok k" "s \<noteq> []"
  shows "e_changeState s t i k = Ok k"
proof -
  from assms(1) obtain m where m: "i < length (hw_meters h)" "ms_changeState s t (hw_meters h ! i) = Ok m"
    and k: "k = h\<lparr>hw_meters := (hw_meters h)[i := m]\<rparr>"
    by (auto simp: e_changeState_def change_meter_Ok)
  show ?thesis using change_again[OF m(2) assms(2)] m(1)
    by (simp add: e_changeState_def change_meter_Ok k)
qed

lemma repeated_change:
  "e_changeState s t i h = Ok h \<Longrightarrow> fold_res (\<lambda>_. e_changeState s t i) xs h = Ok h"
  by (induction xs) simp_all

text \<open>Cores that share their energy: the change of one core leaves the others in their states.\<close>

theorem shared_cores_not_changed:
  assumes "cc_changeState s now i c = Ok c'" "s \<noteq> []" "0 < cc_numCPUs c" "cc_numCPUs c < 2 ^ 31"
  shows "e_changeState s now i (cc_hw c) = Ok (cc_hw c') \<and>
     (\<forall>j. j \<noteq> i \<longrightarrow> e_getActualState j (cc_hw c') = e_getActualState j (cc_hw c))"
proof -
  obtain n where n: "[0..<nat (to_unsigned (cc_numCPUs c))] = 0 # n"
    using assms(3,4) upt_conv_Cons[of 0 "nat (to_unsigned (cc_numCPUs c))"] by auto
  have one: "e_changeState s now i (cc_hw c) = Ok (cc_hw c')"
  proof (cases "cc_independent c")
    case True
    then show ?thesis using assms(1) by (auto simp: cc_changeState_def bind_res_Ok_iff)
  next
    case False
    with assms(1) obtain h where h: "e_changeState s now i (cc_hw c) = Ok h"
      "fold_res (\<lambda>_. e_changeState s now i) n h = Ok (cc_hw c')"
      by (auto simp: cc_changeState_def n bind_res_Ok_iff)
    have "fold_res (\<lambda>_. e_changeState s now i) n h = Ok h" by (rule repeated_change[OF e_change_again[OF h(1) assms(2)]])
    with h(2) have "h = cc_hw c'" by simp
    with h(1) show ?thesis by simp
  qed
  moreover have "\<forall>j. j \<noteq> i \<longrightarrow> e_getActualState j (cc_hw c') = e_getActualState j (cc_hw c)"
    using e_change_other[OF one] by blast
  ultimately show ?thesis by blast
qed

text \<open>Two cores that share their energy; the first goes to its slowest state.\<close>

definition sample_cores :: cpu_controller where
  "sample_cores = (case hw_loadComponent [new_state ''off'' 1, new_state ''c0_p11'' 8] 20 False 0 True (cc_hw (cc_initialize False 2)) of
     Ok h \<Rightarrow> (cc_initialize False 2)\<lparr>cc_hw := h\<rparr> | Fail _ \<Rightarrow> cc_initialize False 2)"

definition sample_cores_later :: cpu_controller where
  "sample_cores_later = (case cc_changeState ''c0_p11'' 5 0 sample_cores of Ok c \<Rightarrow> c | Fail _ \<Rightarrow> sample_cores)"

lemma sample_cores_change: "cc_changeState ''c0_p11'' 5 0 sample_cores = Ok sample_cores_later"
  by code_simp

subsection \<open>Changes that cannot fail\<close>

text \<open>The meter \<open>i\<close> runs without memorization and knows the states \<open>N\<close>.\<close>

definition meter_ready :: "nat \<Rightarrow> string set \<Rightarrow> hw_energy \<Rightarrow> bool" where
  "meter_ready i N h \<longleftrightarrow> i < length (hw_meters h) \<and> started (hw_meters h ! i) \<and>
     N \<subseteq> set (map es_state (ms_states (hw_meters h ! i)))"

lemma e_change_ready:
  assumes "meter_ready i N h" "s \<in> N"
  shows "\<exists>h'. e_changeState s t i h = Ok h' \<and> meter_ready i N h'"
proof -
  let ?m = "hw_meters h ! i"
  have i: "i < length (hw_meters h)" and st: "started ?m" and n: "N \<subseteq> set (map es_state (ms_states ?m))"
    using assms(1) by (simp_all add: meter_ready_def del: set_map)
  from n assms(2) have "state_index s ?m \<noteq> None" by (auto simp: state_index_def index_of_None)
  moreover have "\<not> ms_memo ?m" using st by (simp add: started_def)
  ultimately have "\<exists>m'. ms_changeState s t ?m = Ok m'" by (auto simp: ms_changeState_def Let_def if_memo_def)
  then obtain m' where m': "ms_changeState s t ?m = Ok m'" by blast
  have run: "ms_run [(s, t)] ?m = Ok m'" by (simp add: ms_run_def m')
  have "started m'" "map es_state (ms_states m') = map es_state (ms_states ?m)"
    using run_started[OF st run] run_recorded[OF st run] by blast+
  then have "meter_ready i N (h\<lparr>hw_meters := (hw_meters h)[i := m']\<rparr>)"
    using i n by (simp add: meter_ready_def del: set_map)
  then show ?thesis using i m' by (auto simp: e_changeState_def change_meter_Ok)
qed

lemma repeated_change_ready:
  "meter_ready i N h \<Longrightarrow> s \<in> N \<Longrightarrow> \<exists>h'. fold_res (\<lambda>_. e_changeState s t i) xs h = Ok h' \<and> meter_ready i N h'"
proof (induction xs arbitrary: h)
  case (Cons x xs)
  from e_change_ready[OF Cons.prems, of t] obtain k where "e_changeState s t i h = Ok k" "meter_ready i N k" by blast
  with Cons.IH[of k] Cons.prems(2) show ?case by simp
qed simp

lemma cc_change_ready:
  assumes "meter_ready i N (cc_hw c)" "s \<in> N"
  shows "\<exists>h. cc_changeState s t i c = Ok (c\<lparr>cc_hw := h\<rparr>) \<and> meter_ready i N h"
proof (cases "cc_independent c")
  case True
  have "e_getActualState i (cc_hw c) = Ok (ms_actual (hw_meters (cc_hw c) ! i))"
    using assms(1) by (simp add: e_getActualState_def read_meter_def meter_ready_def)
  then show ?thesis using e_change_ready[OF assms, of t] True by (auto simp: cc_changeState_def)
next
  case False
  from repeated_change_ready[OF assms, of t "[0..<nat (to_unsigned (cc_numCPUs c))]"] obtain h
    where "fold_res (\<lambda>_. e_changeState s t i) [0..<nat (to_unsigned (cc_numCPUs c))] (cc_hw c) = Ok h" "meter_ready i N h" by blast
  then show ?thesis using False by (intro exI[of _ h]) (simp add: cc_changeState_def)
qed

end
