(* ===== verification/EnergyMeters.thy ===== *)
theory EnergyMeters imports HwEnergy begin

text \<open>
  The energy meters of a node (\<^verbatim>\<open>AbstractMeterUnit\<close> and the meters of the processors, the memory, the
  network and the disks in \<^verbatim>\<open>src/src/EnergySystem/EnergyMeter/EnergyMeterUnit\<close>).

  The energy interface that a meter reads, \<^verbatim>\<open>e_internal\<close>, is the argument \<open>h\<close>.  The memorization of
  energies in a hash table, which the configuration must leave off, is not modelled.  \<open>loaded\<close> is the
  part of the memory that is in use, in percent, which the meter of the memory asks the memory for.
\<close>

datatype meter_kind = CpuMeter | MemoryMeter | NetworkMeter | StorageMeter

record meter_unit =
  mu_kind :: meter_kind
  mu_type :: string
  mu_name :: string
  mu_base :: rat
  mu_states :: "energy_state list"
  mu_lastRead :: rat
  mu_chips :: int
  mu_modules :: int

definition NULL_STATE :: string where "NULL_STATE = ''null_state''"

definition mu_initialize ::
  "meter_kind \<Rightarrow> string \<Rightarrow> string \<Rightarrow> rat \<Rightarrow> (string \<times> rat) list \<Rightarrow> int \<Rightarrow> int \<Rightarrow> meter_unit" where
  "mu_initialize k type name base states chips modules = \<lparr>mu_kind = k, mu_type = type, mu_name = name, mu_base = base,
     mu_states = map (\<lambda>(n, v). new_state n v) states, mu_lastRead = 0, mu_chips = chips, mu_modules = modules\<rparr>"

definition activateMeter :: "nat \<Rightarrow> bool \<Rightarrow> meter_unit \<Rightarrow> hw_energy \<Rightarrow> hw_energy res" where
  "activateMeter componentIndex heterogeneous mu h =
     (if mu_type mu \<in> {''cpu'', ''memory'', ''storage'', ''network''}
      then hw_loadComponent (mu_states mu) (mu_base mu) False componentIndex heterogeneous h
      else Fail (Thrown ''activateMeter''))"

definition resetAccumulatedEnergy :: "rat \<Rightarrow> int \<Rightarrow> hw_energy \<Rightarrow> hw_energy res" where
  "resetAccumulatedEnergy now part h = (if part \<noteq> -1 then resetComponentHistory now (nat (to_unsigned part)) h
     else resetAllHistory now h)"

definition mu_getActualState :: "int \<Rightarrow> hw_energy \<Rightarrow> string res" where
  "mu_getActualState part h = e_getActualState (if part \<noteq> -1 then nat (to_unsigned part) else 0) h"

subsection \<open>Sums over components and states\<close>

definition sum_res :: "('a \<Rightarrow> rat res) \<Rightarrow> 'a list \<Rightarrow> rat res" where
  "sum_res f xs = fold_res (\<lambda>x acc. bind_res (f x) (\<lambda>v. Ok (acc + v))) xs 0"

definition map_res :: "('a \<Rightarrow> rat res) \<Rightarrow> 'a list \<Rightarrow> rat list res" where
  "map_res f xs = fold_res (\<lambda>x acc. bind_res (f x) (\<lambda>v. Ok (acc @ [v]))) xs []"

definition component_list :: "hw_energy \<Rightarrow> nat list" where
  "component_list h = [0..<nat (hw_components h)]"

text \<open>The base is added to a consumption that is not zero.\<close>

definition with_base :: "nat \<Rightarrow> hw_energy \<Rightarrow> rat \<Rightarrow> rat res" where
  "with_base i h c = (if c \<noteq> 0 then bind_res (hw_consumptionBase i h) (\<lambda>b. Ok (c + b)) else Ok c)"

definition chosen_state :: "string \<Rightarrow> nat \<Rightarrow> hw_energy \<Rightarrow> string res" where
  "chosen_state state i h = (if state = NULL_STATE then e_getActualState i h else Ok state)"

subsection \<open>Power\<close>

definition cpu_power :: "string \<Rightarrow> int \<Rightarrow> hw_energy \<Rightarrow> rat res" where
  "cpu_power state part h =
     (if part = -1 then
        bind_res (sum_res (\<lambda>i. bind_res (e_getActualState i h) (\<lambda>s. e_getConsumptionValue_named s 0 h)) (component_list h))
          (with_base 0 h)
      else let i = nat (to_unsigned part)
           in bind_res (chosen_state state i h) (\<lambda>s. e_getConsumptionValue_named s i h))"

definition network_power :: "string \<Rightarrow> int \<Rightarrow> hw_energy \<Rightarrow> rat res" where
  "network_power state part h =
     bind_res (if part = -1 then
        sum_res (\<lambda>i. bind_res (e_getActualState 0 h) (\<lambda>s. e_getConsumptionValue_named s 0 h)) (component_list h)
      else let i = nat (to_unsigned part)
           in bind_res (chosen_state state i h) (\<lambda>s. e_getConsumptionValue_named s i h))
     (with_base 0 h)"

definition storage_power :: "string \<Rightarrow> int \<Rightarrow> hw_energy \<Rightarrow> rat res" where
  "storage_power state part h =
     (if part = -1 then
        sum_res (\<lambda>i. bind_res (chosen_state state i h) (\<lambda>s. e_getConsumptionValue_named s 0 h)) (component_list h)
      else let i = nat (to_unsigned part)
           in bind_res (bind_res (chosen_state state i h) (\<lambda>s. e_getConsumptionValue_named s i h)) (with_base 0 h))"

definition active_chips :: "meter_unit \<Rightarrow> rat \<Rightarrow> int" where
  "active_chips mu loaded = (if loaded = 0 then 1 else \<lceil>of_int (mu_chips mu) * loaded / 100\<rceil>)"

text \<open>The chips that are not active use the base power when the active ones use some.\<close>

definition dimm :: "meter_unit \<Rightarrow> rat \<Rightarrow> rat \<Rightarrow> rat \<Rightarrow> rat" where
  "dimm mu loaded active base = (let p = active * of_int (active_chips mu loaded)
     in if p \<noteq> 0 then p + base * of_int (mu_chips mu - active_chips mu loaded) else p)"

definition memory_power :: "rat \<Rightarrow> string \<Rightarrow> int \<Rightarrow> meter_unit \<Rightarrow> hw_energy \<Rightarrow> (rat \<times> meter_unit) res" where
  "memory_power loaded state part mu h =
     bind_res (hw_consumptionBase 0 h) (\<lambda>base.
     bind_res (if part = -1 then
        sum_res (\<lambda>i. bind_res (e_getActualState 0 h) (\<lambda>s. bind_res (e_getConsumptionValue_named s 0 h) (\<lambda>v.
            Ok (dimm mu loaded v base * of_int (mu_modules mu))))) (component_list h)
      else let i = nat (to_unsigned part)
           in bind_res (chosen_state state i h) (\<lambda>s. bind_res (e_getConsumptionValue_named s i h) (\<lambda>v.
                Ok (dimm mu loaded v base * of_int (mu_modules mu)))))
     (\<lambda>p. bind_res (with_base 0 h p) (\<lambda>p. Ok (p, mu\<lparr>mu_base := base\<rparr>))))"

definition getInstantConsumption :: "rat \<Rightarrow> string \<Rightarrow> int \<Rightarrow> meter_unit \<Rightarrow> hw_energy \<Rightarrow> (rat \<times> meter_unit) res" where
  "getInstantConsumption loaded state part mu h = (case mu_kind mu of
     CpuMeter \<Rightarrow> bind_res (cpu_power state part h) (\<lambda>p. Ok (p, mu))
   | MemoryMeter \<Rightarrow> memory_power loaded state part mu h
   | NetworkMeter \<Rightarrow> bind_res (network_power state part h) (\<lambda>p. Ok (p, mu))
   | StorageMeter \<Rightarrow> bind_res (storage_power state part h) (\<lambda>p. Ok (p, mu)))"

subsection \<open>Energy\<close>

text \<open>
  The end of a calculation: the base of all components is multiplied with the time since the last
  reading twice; the energy of one component is looked up at its index and accumulated.
\<close>

definition postEnergyConsumedCalculus ::
  "rat \<Rightarrow> int \<Rightarrow> rat list \<Rightarrow> meter_unit \<Rightarrow> hw_energy \<Rightarrow> (rat \<times> meter_unit \<times> hw_energy) res" where
  "postEnergyConsumedCalculus now part consumption mu h =
     (if part = -1 then
        bind_res (hw_consumptionBase 0 h) (\<lambda>base.
          let elapsed = now - mu_lastRead mu; consum = base * elapsed; total = sum_list consumption
          in Ok (if total \<noteq> 0 then total + consum * elapsed else total, mu\<lparr>mu_lastRead := now\<rparr>, h))
      else if 0 \<le> part \<and> part < int (length consumption) then
        (let total = consumption ! nat part
         in bind_res (accumulateConsumption total part h) (\<lambda>(_, h). Ok (total, mu, h)))
      else Fail Undefined)"

definition state_energy :: "rat \<Rightarrow> nat \<Rightarrow> hw_energy \<Rightarrow> nat \<Rightarrow> rat res" where
  "state_energy now i h j = bind_res (e_getStateTime_at now (int j) i h) (\<lambda>t.
     bind_res (e_getConsumptionValue_at (int j) i h) (\<lambda>v. Ok (v * t)))"

definition component_energy :: "rat \<Rightarrow> nat \<Rightarrow> nat \<Rightarrow> hw_energy \<Rightarrow> rat res" where
  "component_energy now i statesSize h = sum_res (state_energy now i h) [0..<statesSize]"

definition part_energy :: "rat \<Rightarrow> int \<Rightarrow> hw_energy \<Rightarrow> rat res" where
  "part_energy now part h = (let i = nat (to_unsigned part)
     in bind_res (e_getStatesSize i h) (\<lambda>n. component_energy now i n h))"

definition cpu_energy :: "rat \<Rightarrow> int \<Rightarrow> meter_unit \<Rightarrow> hw_energy \<Rightarrow> (rat \<times> meter_unit \<times> hw_energy) res" where
  "cpu_energy now part mu h =
     (if part = -1 then
        bind_res (map_res (\<lambda>i. bind_res (e_getStatesSize i h) (\<lambda>n. component_energy now 0 n h)) (component_list h))
          (\<lambda>cs. postEnergyConsumedCalculus now part cs mu h)
      else bind_res (part_energy now part h) (\<lambda>e. Ok (e, mu, h)))"

text \<open>The network and the disks are read in the same way.\<close>

definition device_energy :: "rat \<Rightarrow> int \<Rightarrow> meter_unit \<Rightarrow> hw_energy \<Rightarrow> (rat \<times> meter_unit \<times> hw_energy) res" where
  "device_energy now part mu h =
     (if part = -1 then
        bind_res (map_res (\<lambda>i. bind_res (e_getStatesSize 0 h) (\<lambda>n. component_energy now 0 n h)) (component_list h))
          (\<lambda>cs. postEnergyConsumedCalculus now part cs mu h)
      else bind_res (part_energy now part h) (\<lambda>e. postEnergyConsumedCalculus now part [e] mu h))"

definition memory_state_energy :: "rat \<Rightarrow> rat \<Rightarrow> meter_unit \<Rightarrow> nat \<Rightarrow> hw_energy \<Rightarrow> nat \<Rightarrow> rat res" where
  "memory_state_energy now loaded mu i h j = bind_res (e_getStateTime_at now (int j) i h) (\<lambda>t.
     bind_res (e_getConsumptionValue_at (int j) i h) (\<lambda>v.
     bind_res (hw_consumptionBase 0 h) (\<lambda>base. Ok (dimm mu loaded (v * t) (base * t) * of_int (mu_modules mu)))))"

text \<open>For one component the energy of each state replaces that of the state before.\<close>

definition memory_energy ::
  "rat \<Rightarrow> rat \<Rightarrow> int \<Rightarrow> meter_unit \<Rightarrow> hw_energy \<Rightarrow> (rat \<times> meter_unit \<times> hw_energy) res" where
  "memory_energy now loaded part mu h =
     (if part = -1 then
        bind_res (map_res (\<lambda>i. bind_res (e_getStatesSize 0 h) (\<lambda>n.
            bind_res (sum_res (memory_state_energy now loaded mu 0 h) [0..<n]) (with_base 0 h))) (component_list h))
          (\<lambda>cs. postEnergyConsumedCalculus now part cs mu h)
      else let i = nat (to_unsigned part)
           in bind_res (e_getStatesSize i h) (\<lambda>n.
              bind_res (fold_res (\<lambda>j _. memory_state_energy now loaded mu i h j) [0..<n] 0) (\<lambda>e.
                postEnergyConsumedCalculus now part [e] mu h)))"

definition getEnergyConsumed ::
  "rat \<Rightarrow> rat \<Rightarrow> int \<Rightarrow> meter_unit \<Rightarrow> hw_energy \<Rightarrow> (rat \<times> meter_unit \<times> hw_energy) res" where
  "getEnergyConsumed now loaded part mu h = (case mu_kind mu of
     CpuMeter \<Rightarrow> cpu_energy now part mu h
   | MemoryMeter \<Rightarrow> memory_energy now loaded part mu h
   | NetworkMeter \<Rightarrow> device_energy now part mu h
   | StorageMeter \<Rightarrow> device_energy now part mu h)"

definition getEnergyAccumulated_and_reset ::
  "rat \<Rightarrow> rat \<Rightarrow> int \<Rightarrow> meter_unit \<Rightarrow> hw_energy \<Rightarrow> (rat \<times> meter_unit \<times> hw_energy) res" where
  "getEnergyAccumulated_and_reset now loaded part mu h = bind_res (getEnergyConsumed now loaded part mu h) (\<lambda>(e, mu, h).
     bind_res (resetAccumulatedEnergy now part h) (\<lambda>h. Ok (e, mu, h)))"

section \<open>Energy of all components\<close>

lemma map_res_const:
  assumes "\<And>x. x \<in> set xs \<Longrightarrow> f x = Ok v"
  shows "map_res f xs = Ok (replicate (length xs) v)"
proof -
  have "fold_res (\<lambda>x acc. bind_res (f x) (\<lambda>v. Ok (acc @ [v]))) xs a = Ok (a @ replicate (length xs) v)" for a
    using assms by (induction xs arbitrary: a) (auto simp: replicate_append_same)
  then show ?thesis by (simp add: map_res_def)
qed

text \<open>
  The energy of all cores is that of the first, once for every core, whatever the others have done, and
  the base power for the square of the time since the last reading.
\<close>

theorem cpu_energy_of_first_core:
  assumes "mu_kind mu = CpuMeter"
    and "\<And>i. i < nat (hw_components h) \<Longrightarrow> e_getStatesSize i h = Ok n"
    and "component_energy now 0 n h = Ok e" "hw_consumptionBase 0 h = Ok base"
  shows "getEnergyConsumed now loaded (- 1) mu h = Ok
    (let total = of_nat (nat (hw_components h)) * e
     in if total \<noteq> 0 then total + base * (now - mu_lastRead mu) ^ 2 else total, mu\<lparr>mu_lastRead := now\<rparr>, h)"
proof -
  have "map_res (\<lambda>i. bind_res (e_getStatesSize i h) (\<lambda>n. component_energy now 0 n h)) (component_list h)
     = Ok (replicate (nat (hw_components h)) e)"
    using map_res_const[of "component_list h" "\<lambda>i. bind_res (e_getStatesSize i h) (\<lambda>n. component_energy now 0 n h)" e] assms(2,3)
    by (simp add: component_list_def)
  then show ?thesis using assms(1,4)
    by (simp add: getEnergyConsumed_def cpu_energy_def postEnergyConsumedCalculus_def Let_def sum_list_replicate
        power2_eq_square)
qed

text \<open>Reading one component of the memory, the network or a disk writes through a NULL pointer.\<close>

theorem part_energy_fails:
  assumes "mu_kind mu \<noteq> CpuMeter" "0 \<le> part" "part < int (length (hw_meters h))"
    and "ms_vector (hw_meters h ! nat part) = []" "ms_states (hw_meters h ! nat part) \<noteq> []"
  shows "\<not> res_ok (getEnergyConsumed now loaded part mu h)"
proof -
  have "accumulate_at e (nat part) h = Fail Undefined" for e
    using assms(2-5)
    by (simp add: accumulate_at_def change_meter_def read_meter_def resetStatesVector_def if_meter_def
        resetMemorizationVector_def accumulateEnergyConsumed_def Let_def)
  then have acc: "accumulateConsumption e part h = Fail Undefined" for e
    using assms(2,3) by (simp add: accumulateConsumption_def)
  then have "\<not> res_ok (postEnergyConsumedCalculus now part [e] mu h)" for e
    using assms(2) by (simp add: postEnergyConsumedCalculus_def Let_def)
  moreover have "(\<And>x. \<not> res_ok (f x)) \<Longrightarrow> \<not> res_ok (bind_res m f)" for m :: "rat res" and f :: "rat \<Rightarrow> (rat \<times> meter_unit \<times> hw_energy) res"
    by (cases m) auto
  moreover have "(\<And>x. \<not> res_ok (f x)) \<Longrightarrow> \<not> res_ok (bind_res m f)" for m :: "nat res" and f :: "nat \<Rightarrow> (rat \<times> meter_unit \<times> hw_energy) res"
    by (cases m) auto
  ultimately show ?thesis using assms(1,2)
    by (cases "mu_kind mu") (simp_all add: getEnergyConsumed_def memory_energy_def device_energy_def Let_def)
qed

text \<open>
  Three cores: the first has been off for 10 seconds, the second has run at the full speed all the time.
\<close>

definition sample_hw :: hw_energy where
  "sample_hw = (case bind_res (hw_loadComponent [new_state ''off'' 1, new_state ''c0_p0'' 30] 20 False 0 True
       (setNumberOfComponents 3 hw_initialize)) (e_changeState ''c0_p0'' 0 1) of Ok h \<Rightarrow> h | Fail _ \<Rightarrow> hw_initialize)"

definition sample_meter :: "meter_kind \<Rightarrow> meter_unit" where
  "sample_meter k = mu_initialize k ''cpu'' ''model'' 20 [(''off'', 1), (''c0_p0'', 30)] 4 1"

end
