(* ===== verification/PowerSupply.thy ===== *)
theory PowerSupply imports EnergyMeters begin

text \<open>
  The power supply of a node (\<^verbatim>\<open>AbstractPSU\<close> and \<^verbatim>\<open>MainPSU\<close> in \<^verbatim>\<open>src/src/EnergySystem/PSU\<close>), which
  reads the meters of the node at every tick of its alarm and adds up the power it loses itself.

  \<open>node_hw\<close> has the energy interfaces that the meters read and the part of the memory in use.
\<close>

definition PSU_OFF :: string where "PSU_OFF = ''0''"
definition PSU_ON :: string where "PSU_ON = ''1''"

record node_hw =
  nh_memory :: hw_energy
  nh_cpu :: hw_energy
  nh_network :: hw_energy
  nh_storage :: hw_energy
  nh_loaded :: rat

record power_supply =
  ps_state :: string
  ps_wattage :: rat
  ps_scale :: rat
  ps_loss :: rat
  ps_alarm :: "rat option"
  ps_memory :: "meter_unit option"
  ps_cpu :: "meter_unit option"
  ps_network :: "meter_unit option"
  ps_storage :: "meter_unit option"
  ps_20 :: rat
  ps_50 :: rat
  ps_100 :: rat

definition ps_initialize :: "rat \<Rightarrow> rat \<Rightarrow> rat \<Rightarrow> rat \<Rightarrow> rat \<Rightarrow> rat \<Rightarrow> power_supply" where
  "ps_initialize now wattage scale e20 e50 e100 = \<lparr>ps_state = PSU_OFF, ps_wattage = wattage, ps_scale = scale,
     ps_loss = 0, ps_alarm = Some (now + scale), ps_memory = None, ps_cpu = None, ps_network = None, ps_storage = None,
     ps_20 = e20, ps_50 = e50, ps_100 = e100\<rparr>"

definition registerComponent :: "meter_unit \<Rightarrow> power_supply \<Rightarrow> power_supply res" where
  "registerComponent mu p =
     (if mu_type mu = ''cpu'' then Ok (p\<lparr>ps_cpu := Some mu\<rparr>)
      else if mu_type mu = ''memory'' then Ok (p\<lparr>ps_memory := Some mu\<rparr>)
      else if mu_type mu = ''storage'' then Ok (p\<lparr>ps_storage := Some mu\<rparr>)
      else if mu_type mu = ''network'' then Ok (p\<lparr>ps_network := Some mu\<rparr>)
      else Fail (Thrown ''registerComponent''))"

definition switchOn :: "power_supply \<Rightarrow> power_supply" where
  "switchOn p = (if 0 < ps_scale p \<and> ps_state p \<noteq> PSU_ON then p\<lparr>ps_state := PSU_ON\<rparr> else p)"

definition switchOff :: "power_supply \<Rightarrow> power_supply" where
  "switchOff p = p\<lparr>ps_state := PSU_OFF\<rparr>"

subsection \<open>The power of the node\<close>

definition component_states :: "hw_energy \<Rightarrow> string list res" where
  "component_states h = fold_res (\<lambda>i acc. bind_res (mu_getActualState (int i) h) (\<lambda>s. Ok (acc @ [s]))) (component_list h) []"

text \<open>The states of the components are read before anything else.\<close>

definition read_states :: "node_hw \<Rightarrow> power_supply \<Rightarrow> unit res" where
  "read_states nh p =
     bind_res (if ps_storage p = None then Ok [] else component_states (nh_storage nh)) (\<lambda>_.
     bind_res (if ps_cpu p = None then Ok [] else component_states (nh_cpu nh)) (\<lambda>_.
     bind_res (if ps_memory p = None then Ok [] else mu_getActualState (- 1) (nh_memory nh)) (\<lambda>_.
     bind_res (if ps_network p = None then Ok [] else mu_getActualState (- 1) (nh_network nh)) (\<lambda>_. Ok ()))))"

text \<open>The power of the components in the given states, one after another.\<close>

definition states_power :: "rat \<Rightarrow> string list \<Rightarrow> meter_unit \<Rightarrow> hw_energy \<Rightarrow> rat \<Rightarrow> (rat \<times> meter_unit) res" where
  "states_power loaded states mu h acc =
     fold_res (\<lambda>(i, s) (acc, mu). bind_res (getInstantConsumption loaded s (int i) mu h) (\<lambda>(c, mu). Ok (acc + c, mu)))
       (zip [0..<length states] states) (acc, mu)"

definition memory_instant :: "node_hw \<Rightarrow> rat \<Rightarrow> power_supply \<Rightarrow> (rat \<times> power_supply) res" where
  "memory_instant nh acc p = (case ps_memory p of None \<Rightarrow> Ok (acc, p) | Some mu \<Rightarrow>
     bind_res (mu_getActualState (- 1) (nh_memory nh)) (\<lambda>s.
     bind_res (getInstantConsumption (nh_loaded nh) s (- 1) mu (nh_memory nh)) (\<lambda>(c, mu).
       Ok (acc + c, p\<lparr>ps_memory := Some mu\<rparr>))))"

definition cpu_instant :: "node_hw \<Rightarrow> rat \<Rightarrow> power_supply \<Rightarrow> (rat \<times> power_supply) res" where
  "cpu_instant nh acc p = (case ps_cpu p of None \<Rightarrow> Ok (acc, p) | Some mu \<Rightarrow>
     bind_res (component_states (nh_cpu nh)) (\<lambda>states.
     bind_res (states_power (nh_loaded nh) states mu (nh_cpu nh) acc) (\<lambda>(acc, mu).
     bind_res (with_base 0 (nh_cpu nh) acc) (\<lambda>acc. Ok (acc, p\<lparr>ps_cpu := Some mu\<rparr>)))))"

definition network_instant :: "node_hw \<Rightarrow> rat \<Rightarrow> power_supply \<Rightarrow> (rat \<times> power_supply) res" where
  "network_instant nh acc p = (case ps_network p of None \<Rightarrow> Ok (acc, p) | Some mu \<Rightarrow>
     bind_res (mu_getActualState (- 1) (nh_network nh)) (\<lambda>s.
     bind_res (getInstantConsumption (nh_loaded nh) s (- 1) mu (nh_network nh)) (\<lambda>(c, mu).
       Ok (acc + c, p\<lparr>ps_network := Some mu\<rparr>))))"

definition storage_instant :: "node_hw \<Rightarrow> rat \<Rightarrow> power_supply \<Rightarrow> (rat \<times> power_supply) res" where
  "storage_instant nh acc p = (case ps_storage p of None \<Rightarrow> Ok (acc, p) | Some mu \<Rightarrow>
     bind_res (component_states (nh_storage nh)) (\<lambda>states.
     bind_res (states_power (nh_loaded nh) states mu (nh_storage nh) acc) (\<lambda>(acc, mu).
       Ok (acc, p\<lparr>ps_storage := Some mu\<rparr>))))"

definition getNodeSubsystemsConsumption :: "node_hw \<Rightarrow> power_supply \<Rightarrow> (rat \<times> power_supply) res" where
  "getNodeSubsystemsConsumption nh p =
     bind_res (read_states nh p) (\<lambda>_.
     bind_res (memory_instant nh 0 p) (\<lambda>(acc, p).
     bind_res (cpu_instant nh acc p) (\<lambda>(acc, p).
     bind_res (network_instant nh acc p) (\<lambda>(acc, p). storage_instant nh acc p))))"

subsection \<open>The power lost by the supply\<close>

text \<open>
  The load in percent is compared with the efficiencies themselves.  A load of more than the power of
  the supply gives -1.  A supply without power has an infinite load or one that is not a number; an
  efficiency of 0 is left undefined.
\<close>

definition lost :: "rat \<Rightarrow> rat \<Rightarrow> rat \<Rightarrow> rat res" where
  "lost wattage efficiency load = (if efficiency = 0 then Fail Undefined
     else let l = load * 100 / efficiency - load in Ok (if l + load > wattage then -1 else l))"

definition calculateConsumptionLoss :: "rat \<Rightarrow> power_supply \<Rightarrow> rat res" where
  "calculateConsumptionLoss load p =
     (if ps_wattage p = 0 then (if load > 0 then Ok (-1) else Fail (Thrown ''calculateConsumptionLoss''))
      else let percent = load * 100 / ps_wattage p
           in if percent > 100 then Ok (-1)
              else if 0 \<le> percent \<and> percent < ps_20 p then lost (ps_wattage p) (ps_20 p) load
              else if ps_20 p \<le> percent \<and> percent < ps_50 p then lost (ps_wattage p) (ps_50 p) load
              else if ps_50 p \<le> percent \<and> percent \<le> ps_100 p then lost (ps_wattage p) (ps_100 p) load
              else Fail (Thrown ''calculateConsumptionLoss''))"

definition getConsumptionLoss :: "node_hw \<Rightarrow> power_supply \<Rightarrow> (rat \<times> power_supply) res" where
  "getConsumptionLoss nh p = bind_res (getNodeSubsystemsConsumption nh p) (\<lambda>(load, p).
     bind_res (calculateConsumptionLoss load p) (\<lambda>l. Ok (l, p)))"

definition getNodeConsumption :: "node_hw \<Rightarrow> power_supply \<Rightarrow> (rat \<times> power_supply) res" where
  "getNodeConsumption nh p = bind_res (getNodeSubsystemsConsumption nh p) (\<lambda>(load, p).
     bind_res (calculateConsumptionLoss load p) (\<lambda>l. Ok (load + l, p)))"

text \<open>The alarm; the state of the supply is not asked.\<close>

definition ps_handleAlarm :: "rat \<Rightarrow> node_hw \<Rightarrow> power_supply \<Rightarrow> power_supply res" where
  "ps_handleAlarm now nh p = (if ps_wattage p = 0 then Ok (p\<lparr>ps_alarm := None\<rparr>)
     else bind_res (getNodeSubsystemsConsumption nh p) (\<lambda>(load, p).
          bind_res (calculateConsumptionLoss load p) (\<lambda>l.
            Ok (p\<lparr>ps_loss := ps_loss p + l * ps_scale p, ps_alarm := Some (now + ps_scale p)\<rparr>))))"

subsection \<open>The energy of the node\<close>

definition memory_interval :: "rat \<Rightarrow> rat \<times> node_hw \<times> power_supply \<Rightarrow> (rat \<times> node_hw \<times> power_supply) res" where
  "memory_interval now = (\<lambda>(acc, nh, p). case ps_memory p of None \<Rightarrow> Ok (acc, nh, p) | Some mu \<Rightarrow>
     bind_res (getEnergyConsumed now (nh_loaded nh) (- 1) mu (nh_memory nh)) (\<lambda>(e, mu, h).
       Ok (acc + e, nh\<lparr>nh_memory := h\<rparr>, p\<lparr>ps_memory := Some mu\<rparr>)))"

definition cpu_interval :: "rat \<Rightarrow> rat \<times> node_hw \<times> power_supply \<Rightarrow> (rat \<times> node_hw \<times> power_supply) res" where
  "cpu_interval now = (\<lambda>(acc, nh, p). case ps_cpu p of None \<Rightarrow> Ok (acc, nh, p) | Some mu \<Rightarrow>
     bind_res (getEnergyConsumed now (nh_loaded nh) (- 1) mu (nh_cpu nh)) (\<lambda>(e, mu, h).
       Ok (acc + e, nh\<lparr>nh_cpu := h\<rparr>, p\<lparr>ps_cpu := Some mu\<rparr>)))"

definition network_interval :: "rat \<Rightarrow> rat \<times> node_hw \<times> power_supply \<Rightarrow> (rat \<times> node_hw \<times> power_supply) res" where
  "network_interval now = (\<lambda>(acc, nh, p). case ps_network p of None \<Rightarrow> Ok (acc, nh, p) | Some mu \<Rightarrow>
     bind_res (getEnergyConsumed now (nh_loaded nh) (- 1) mu (nh_network nh)) (\<lambda>(e, mu, h).
       Ok (acc + e, nh\<lparr>nh_network := h\<rparr>, p\<lparr>ps_network := Some mu\<rparr>)))"

definition storage_interval :: "rat \<Rightarrow> rat \<times> node_hw \<times> power_supply \<Rightarrow> (rat \<times> node_hw \<times> power_supply) res" where
  "storage_interval now = (\<lambda>(acc, nh, p). case ps_storage p of None \<Rightarrow> Ok (acc, nh, p) | Some mu \<Rightarrow>
     bind_res (getEnergyConsumed now (nh_loaded nh) (- 1) mu (nh_storage nh)) (\<lambda>(e, mu, h).
       Ok (acc + e, nh\<lparr>nh_storage := h\<rparr>, p\<lparr>ps_storage := Some mu\<rparr>)))"

definition getIntervalEnergyConsumed :: "rat \<Rightarrow> node_hw \<Rightarrow> power_supply \<Rightarrow> (rat \<times> node_hw \<times> power_supply) res" where
  "getIntervalEnergyConsumed now nh p = bind_res (read_states nh p) (\<lambda>_.
     bind_res (memory_interval now (0, nh, p)) (\<lambda>x.
     bind_res (cpu_interval now x) (\<lambda>x. bind_res (network_interval now x) (storage_interval now))))"

definition getNodeEnergyConsumed :: "rat \<Rightarrow> node_hw \<Rightarrow> power_supply \<Rightarrow> (rat \<times> node_hw \<times> power_supply) res" where
  "getNodeEnergyConsumed now nh p = bind_res (getIntervalEnergyConsumed now nh p) (\<lambda>(e, nh, p).
     Ok (e + ps_loss p * ps_scale p, nh, p))"

text \<open>The loss is kept.\<close>

definition resetNodeEnergyConsumed :: "rat \<Rightarrow> power_supply \<Rightarrow> node_hw \<Rightarrow> node_hw res" where
  "resetNodeEnergyConsumed now p nh =
     (let reset = (\<lambda>mu h. if mu = None then Ok h else resetAllHistory now h)
      in bind_res (reset (ps_memory p) (nh_memory nh)) (\<lambda>m.
         bind_res (reset (ps_cpu p) (nh_cpu nh)) (\<lambda>c.
         bind_res (reset (ps_network p) (nh_network nh)) (\<lambda>n.
         bind_res (reset (ps_storage p) (nh_storage nh)) (\<lambda>s.
           Ok (nh\<lparr>nh_memory := m, nh_cpu := c, nh_network := n, nh_storage := s\<rparr>))))))"

section \<open>The loss of the supply\<close>

text \<open>
  The efficiency that is taken for a load in percent of the power of the supply.  The limits of the three ranges
  are the efficiencies themselves, where the names say 20, 50 and 100 percent.
\<close>

definition efficiency_at :: "power_supply \<Rightarrow> rat \<Rightarrow> rat option" where
  "efficiency_at p percent = (if percent < ps_20 p then Some (ps_20 p) else if percent < ps_50 p then Some (ps_50 p)
     else if percent \<le> ps_100 p then Some (ps_100 p) else None)"

text \<open>A load of at most \<open>e\<close> percent draws at most the power of the supply at the efficiency \<open>e\<close>.\<close>

lemma lost_in_range:
  assumes "0 < w" "0 \<le> load" "0 < e" "e \<le> 100" "load * 100 / w \<le> e"
  shows "\<exists>l. lost w e load = Ok l \<and> 0 \<le> l \<and> load + l \<le> w \<and> 100 * load = e * (load + l)"
proof -
  have "load * 100 \<le> e * w" using assms(1,5) by (simp add: pos_divide_le_eq)
  then have drawn: "load * 100 / e \<le> w" using assms(3) by (simp add: pos_divide_le_eq mult.commute)
  have "load * e \<le> load * 100" using assms(2,4) by (intro mult_left_mono) auto
  then have "load \<le> load * 100 / e" using assms(3) by (simp add: pos_le_divide_eq)
  then show ?thesis using assms(3) drawn by (intro exI[of _ "load * 100 / e - load"]) (simp add: lost_def)
qed

lemma efficiency_range:
  "efficiency_at p x = Some e \<Longrightarrow> x \<le> e \<and> e \<in> {ps_20 p, ps_50 p, ps_100 p}"
  by (auto simp: efficiency_at_def split: if_splits)

lemma loss_of_efficiency:
  assumes "0 < ps_wattage p" "0 < ps_20 p" "0 < ps_50 p"
  shows "calculateConsumptionLoss load p = (if ps_wattage p < load then Ok (-1)
    else if load < 0 then Fail (Thrown ''calculateConsumptionLoss'')
    else case efficiency_at p (load * 100 / ps_wattage p) of None \<Rightarrow> Fail (Thrown ''calculateConsumptionLoss'')
      | Some e \<Rightarrow> lost (ps_wattage p) e load)"
proof -
  let ?x = "load * 100 / ps_wattage p"
  have "ps_wattage p < load \<longleftrightarrow> 100 < ?x" "load < 0 \<longleftrightarrow> ?x < 0"
    using assms(1) by (auto simp: pos_less_divide_eq divide_less_0_iff)
  then show ?thesis
    using assms by (simp add: calculateConsumptionLoss_def efficiency_at_def Let_def)
qed

text \<open>
  C3: The loss of a power supply is -1 for a load above its power, and for no other.  A load within its power is
  the fraction of the drawn power (load and loss) that the efficiency for the load says, and neither is the loss
  negative nor the drawn power above that of the supply.  The code throws exactly for a negative load and for one
  between the highest range and the power of the supply.
\<close>

lemma loss_bounded:
  assumes "0 < ps_wattage p" "0 < ps_20 p" "ps_20 p \<le> 100" "0 < ps_50 p" "ps_50 p \<le> 100" "0 < ps_100 p" "ps_100 p \<le> 100"
  shows "(calculateConsumptionLoss load p = Ok (-1) \<longleftrightarrow> ps_wattage p < load) \<and>
    (calculateConsumptionLoss load p = Fail (Thrown ''calculateConsumptionLoss'') \<longleftrightarrow>
       load < 0 \<or> load \<le> ps_wattage p \<and> efficiency_at p (load * 100 / ps_wattage p) = None) \<and>
    (\<forall>e. 0 \<le> load \<and> load \<le> ps_wattage p \<and> efficiency_at p (load * 100 / ps_wattage p) = Some e \<longrightarrow>
       (\<exists>l. calculateConsumptionLoss load p = Ok l \<and> 0 \<le> l \<and> load + l \<le> ps_wattage p \<and> 100 * load = e * (load + l)))"
proof -
  let ?x = "load * 100 / ps_wattage p"
  have "\<exists>l. calculateConsumptionLoss load p = Ok l \<and> 0 \<le> l \<and> load + l \<le> ps_wattage p \<and> 100 * load = e * (load + l)"
    if "0 \<le> load" "load \<le> ps_wattage p" "efficiency_at p ?x = Some e" for e
    using lost_in_range[of "ps_wattage p" load e] efficiency_range[OF that(3)] that assms
    by (auto simp: loss_of_efficiency)
  moreover have "calculateConsumptionLoss load p = Fail (Thrown ''calculateConsumptionLoss'')"
    if "load < 0 \<or> load \<le> ps_wattage p \<and> efficiency_at p ?x = None"
    using that assms by (auto simp: loss_of_efficiency)
  moreover have "calculateConsumptionLoss load p = Ok (-1)" if "ps_wattage p < load"
    using that assms by (simp add: loss_of_efficiency)
  ultimately show ?thesis using assms(1) by (cases "efficiency_at p ?x") force+
qed

text \<open>The ticks of the alarm, with the hardware at each, and the losses the supply has at them.\<close>

definition ps_run :: "(rat \<times> node_hw) list \<Rightarrow> power_supply \<Rightarrow> power_supply res" where
  "ps_run ticks p = fold_res (\<lambda>(now, nh). ps_handleAlarm now nh) ticks p"

fun losses :: "(rat \<times> node_hw) list \<Rightarrow> power_supply \<Rightarrow> rat list" where
  "losses [] p = []"
| "losses ((now, nh) # ticks) p = (case (getConsumptionLoss nh p, ps_handleAlarm now nh p) of
     (Ok (l, _), Ok q) \<Rightarrow> l # losses ticks q | _ \<Rightarrow> [])"

text \<open>What reading the meters leaves as it is.\<close>

definition supply_frame :: "power_supply \<Rightarrow> power_supply \<Rightarrow> bool" where
  "supply_frame p q \<longleftrightarrow> ps_loss q = ps_loss p \<and> ps_scale q = ps_scale p \<and> ps_wattage q = ps_wattage p \<and>
     ps_20 q = ps_20 p \<and> ps_50 q = ps_50 p \<and> ps_100 q = ps_100 p"

lemma frame_trans: "supply_frame p q \<Longrightarrow> supply_frame q r \<Longrightarrow> supply_frame p r"
  by (simp add: supply_frame_def)

lemma frame_meters [simp]:
  "supply_frame p p" "supply_frame p (p\<lparr>ps_memory := x\<rparr>)" "supply_frame p (p\<lparr>ps_cpu := x\<rparr>)"
  "supply_frame p (p\<lparr>ps_network := x\<rparr>)" "supply_frame p (p\<lparr>ps_storage := x\<rparr>)"
  by (simp_all add: supply_frame_def)

lemma instant_frames:
  "memory_instant nh acc p = Ok (c, q) \<Longrightarrow> supply_frame p q"
  "cpu_instant nh acc p = Ok (c, q) \<Longrightarrow> supply_frame p q"
  "network_instant nh acc p = Ok (c, q) \<Longrightarrow> supply_frame p q"
  "storage_instant nh acc p = Ok (c, q) \<Longrightarrow> supply_frame p q"
  by (auto simp: memory_instant_def cpu_instant_def network_instant_def storage_instant_def
      elim!: bind_res_OkE split: option.splits)

lemma subsystems_frame: "getNodeSubsystemsConsumption nh p = Ok (load, q) \<Longrightarrow> supply_frame p q"
  unfolding getNodeSubsystemsConsumption_def
  by (elim bind_res_OkE) (auto elim!: bind_res_OkE dest!: instant_frames intro: frame_trans)

lemma interval_frames:
  "memory_interval now (acc, nh, p) = Ok (c, nh', q) \<Longrightarrow> supply_frame p q"
  "cpu_interval now (acc, nh, p) = Ok (c, nh', q) \<Longrightarrow> supply_frame p q"
  "network_interval now (acc, nh, p) = Ok (c, nh', q) \<Longrightarrow> supply_frame p q"
  "storage_interval now (acc, nh, p) = Ok (c, nh', q) \<Longrightarrow> supply_frame p q"
  by (auto simp: memory_interval_def cpu_interval_def network_interval_def storage_interval_def
      elim!: bind_res_OkE split: option.splits)

lemma interval_frame: "getIntervalEnergyConsumed now nh p = Ok (e, nh', q) \<Longrightarrow> supply_frame p q"
  unfolding getIntervalEnergyConsumed_def
  by (elim bind_res_OkE) (auto dest!: interval_frames intro: frame_trans)

lemma alarm_loss:
  assumes "ps_handleAlarm now nh p = Ok q" "ps_wattage p \<noteq> 0"
  obtains l p1 where "getConsumptionLoss nh p = Ok (l, p1)" "ps_loss q = ps_loss p + l * ps_scale p"
    "ps_scale q = ps_scale p" "ps_wattage q = ps_wattage p"
proof -
  from assms obtain load p1 l where n: "getNodeSubsystemsConsumption nh p = Ok (load, p1)"
      "calculateConsumptionLoss load p1 = Ok l"
    and q: "q = p1\<lparr>ps_loss := ps_loss p1 + l * ps_scale p1, ps_alarm := Some (now + ps_scale p1)\<rparr>"
    by (auto simp: ps_handleAlarm_def bind_res_Ok_iff)
  from subsystems_frame[OF n(1)] have "supply_frame p p1" .
  then show ?thesis using that[of l p1] n by (simp add: getConsumptionLoss_def q supply_frame_def)
qed

lemma run_losses:
  assumes "ps_run ticks p = Ok q" "ps_wattage p \<noteq> 0"
  shows "length (losses ticks p) = length ticks \<and> ps_loss q = ps_loss p + sum_list (losses ticks p) * ps_scale p \<and>
     ps_scale q = ps_scale p"
  using assms
proof (induction ticks arbitrary: p)
  case Nil
  then show ?case by (simp add: ps_run_def)
next
  case (Cons t ticks)
  obtain now nh where t: "t = (now, nh)" by (cases t)
  from Cons.prems(1) obtain r where r: "ps_handleAlarm now nh p = Ok r" "ps_run ticks r = Ok q"
    by (auto simp: ps_run_def t elim: bind_res_OkE)
  from alarm_loss[OF r(1) Cons.prems(2)] obtain l p1 where l: "getConsumptionLoss nh p = Ok (l, p1)"
    "ps_loss r = ps_loss p + l * ps_scale p" "ps_scale r = ps_scale p" "ps_wattage r = ps_wattage p" by blast
  with Cons.IH[OF r(2)] Cons.prems(2) show ?case by (simp add: t r(1) algebra_simps)
qed

text \<open>C24: The energy of the node counts the losses with the square of the interval between the ticks.\<close>

theorem node_energy_of_losses:
  assumes "ps_run ticks p = Ok q" "ps_wattage p \<noteq> 0"
    and "getIntervalEnergyConsumed now nh q = Ok (e, nh', q')"
  shows "length (losses ticks p) = length ticks \<and> getNodeEnergyConsumed now nh q =
     Ok (e + ps_loss p * ps_scale p + sum_list (losses ticks p) * ps_scale p ^ 2, nh', q')"
  using run_losses[OF assms(1,2)] interval_frame[OF assms(3)] assms(3)
  by (simp add: getNodeEnergyConsumed_def supply_frame_def power2_eq_square algebra_simps)

text \<open>A load between the efficiency for the full load and the full load stops the simulation.\<close>

lemma load_above_efficiency_throws:
  assumes "0 < ps_wattage p" "ps_20 p \<le> percent" "ps_50 p \<le> percent" "ps_100 p < percent" "percent \<le> 100"
    "percent = load * 100 / ps_wattage p"
  shows "calculateConsumptionLoss load p = Fail (Thrown ''calculateConsumptionLoss'')"
  using assms by (simp add: calculateConsumptionLoss_def Let_def)

subsection \<open>A node with three cores\<close>

text \<open>A supply of 100 W that reads every 10 seconds; the cores use 52 W and the supply loses 13 W.\<close>

definition sample_supply :: power_supply where
  "sample_supply = (case registerComponent (sample_meter CpuMeter) (ps_initialize 0 100 10 80 85 82) of
     Ok p \<Rightarrow> p | Fail _ \<Rightarrow> ps_initialize 0 100 10 80 85 82)"

definition sample_node :: node_hw where
  "sample_node = \<lparr>nh_memory = hw_initialize, nh_cpu = sample_hw, nh_network = hw_initialize, nh_storage = hw_initialize,
     nh_loaded = 0\<rparr>"

definition sample_ticks :: "(rat \<times> node_hw) list" where
  "sample_ticks = [(10, sample_node), (20, sample_node)]"

definition sample_supply_later :: power_supply where
  "sample_supply_later = (case ps_run sample_ticks sample_supply of Ok p \<Rightarrow> p | Fail _ \<Rightarrow> sample_supply)"

lemma loss_bounded_witness:
  "calculateConsumptionLoss 52 sample_supply = Ok 13 \<and> calculateConsumptionLoss 101 sample_supply = Ok (-1) \<and>
   calculateConsumptionLoss 90 sample_supply = Fail (Thrown ''calculateConsumptionLoss'')"
proof -
  have w: "ps_wattage sample_supply = 100" "ps_20 sample_supply = 80" "ps_50 sample_supply = 85" "ps_100 sample_supply = 82"
    by code_simp+
  note loss = loss_bounded[of sample_supply, unfolded w efficiency_at_def]
  obtain l where "calculateConsumptionLoss 52 sample_supply = Ok l" "100 * 52 = 80 * (52 + l)"
    using loss[of 52] by auto
  then show ?thesis using loss[of 101] loss[of 90] by simp
qed

text \<open>After 20 seconds 260 J are lost, but 2600 J are reported on top of the energy of the cores.\<close>

lemma node_energy_of_losses_witness:
  "losses sample_ticks sample_supply = [13, 13] \<and>
   (\<exists>e nh q. getIntervalEnergyConsumed 20 sample_node sample_supply_later = Ok (e, nh, q) \<and>
      getNodeEnergyConsumed 20 sample_node sample_supply_later = Ok (e + 2600, nh, q))"
proof -
  have r: "ps_run sample_ticks sample_supply = Ok sample_supply_later" by code_simp
  have w: "ps_wattage sample_supply \<noteq> 0" by code_simp
  have "res_ok (getIntervalEnergyConsumed 20 sample_node sample_supply_later)" by code_simp
  then obtain e nh q where i: "getIntervalEnergyConsumed 20 sample_node sample_supply_later = Ok (e, nh, q)"
    by (metis res_okE prod_cases3)
  have l: "losses sample_ticks sample_supply = [13, 13]" by code_simp
  have s: "ps_loss sample_supply = 0" "ps_scale sample_supply = 10" by code_simp+
  from node_energy_of_losses[OF r w i] have "getNodeEnergyConsumed 20 sample_node sample_supply_later = Ok (e + 2600, nh, q)"
    by (simp add: l s)
  with i l show ?thesis by blast
qed

end
