(* ===== verification/NodeMemory.thy ===== *)
theory NodeMemory imports HypervisorMemory CpuSchedulers IoMessages HwEnergy begin

text \<open>
  The main memory of a node (\<^verbatim>\<open>RAMmemory\<close> in
  \<^verbatim>\<open>src/src/Architecture/NodeComponents/Hardware/Memories/MainMemories\<close>): it grants blocks to the
  applications, delays every request by its latencies, passes file operations on and keeps the energy
  states of the memory.

  The messages that are scheduled for later are in \<open>nm_agenda\<close>, each with its time.  The message
  \<^verbatim>\<open>latencyMessage\<close> of the base class is never made, so the queue is always served.
\<close>

definition MEMORY_STATE_IDLE :: string where "MEMORY_STATE_IDLE = ''memory_idle''"
definition MEMORY_STATE_WRITE :: string where "MEMORY_STATE_WRITE = ''memory_write''"
definition MEMORY_STATE_OFF :: string where "MEMORY_STATE_OFF = ''memory_off''"
definition MEMORY_STATE_SEARCHING :: string where "MEMORY_STATE_SEARCHING = ''memory_search''"

datatype memory_timer = LatencyTimer | StateTimer | MessageTimer message

record node_memory = module_state +
  nm_blockSize_KB :: u32
  nm_size_MB :: u32
  nm_totalBlocks :: u32
  nm_freeAppBlocks :: u32
  nm_totalAppBlocks :: u32
  nm_searchLatency :: rat
  nm_writeLatency :: rat
  nm_pending :: "message option"
  nm_nodeState :: string
  nm_hw :: hw_energy
  nm_agenda :: "(rat \<times> memory_timer) list"

type_synonym memory_pump = "node_memory \<Rightarrow> node_memory res"

definition nm_toInput :: "gate option" where "nm_toInput = Some (''toInput'', 0)"
definition nm_toOutput :: "gate option" where "nm_toOutput = Some (''toOutput'', 0)"

definition mem_controller_initialize :: "module_state \<Rightarrow> u32 \<Rightarrow> u32 \<Rightarrow> rat \<Rightarrow> rat \<Rightarrow> node_memory res" where
  "mem_controller_initialize b size_MB block_KB search write =
     (if block_KB = 0 \<or> size_MB = 0 then Fail (Thrown ''initialize'')
      else let total = size_MB * 1000 div block_KB
           in Ok \<lparr>queue = queue b, outbox = outbox b, currentRequest = currentRequest b,
                latencyScheduled = latencyScheduled b, module_id = module_id b, host_name = host_name b,
                nm_blockSize_KB = block_KB, nm_size_MB = size_MB, nm_totalBlocks = total, nm_freeAppBlocks = total,
                nm_totalAppBlocks = 0, nm_searchLatency = search, nm_writeLatency = write, nm_pending = None,
                nm_nodeState = MACHINE_STATE_OFF, nm_hw = hw_initialize, nm_agenda = []\<rparr>)"

definition nm_changeState :: "string \<Rightarrow> rat \<Rightarrow> node_memory \<Rightarrow> node_memory res" where
  "nm_changeState state now s = bind_res (e_changeState state now 0 (nm_hw s)) (\<lambda>h. Ok (s\<lparr>nm_hw := h\<rparr>))"

definition nm_changeDeviceState :: "string \<Rightarrow> rat \<Rightarrow> node_memory \<Rightarrow> node_memory res" where
  "nm_changeDeviceState state now s =
     (if state = MACHINE_STATE_IDLE then nm_changeState MEMORY_STATE_IDLE now (s\<lparr>nm_nodeState := MACHINE_STATE_IDLE\<rparr>)
      else if state = MACHINE_STATE_RUNNING then nm_changeState MEMORY_STATE_IDLE now (s\<lparr>nm_nodeState := MACHINE_STATE_RUNNING\<rparr>)
      else if state = MACHINE_STATE_OFF then
        nm_changeState MEMORY_STATE_OFF now (s\<lparr>nm_nodeState := MACHINE_STATE_OFF, nm_totalAppBlocks := 0,
          nm_freeAppBlocks := nm_totalBlocks s\<rparr>)
      else Ok s)"

definition nm_sendRequest :: "(message \<Rightarrow> int option) \<Rightarrow> memory_pump \<Rightarrow> message \<Rightarrow> memory_pump" where
  "nm_sendRequest og pump sm s = (if \<not> remoteOperation sm then sendRequestMessage og pump sm nm_toOutput s
     else Ok (emit (Sent sm (ViaGate nm_toInput)) s))"

definition nm_schedule :: "rat \<Rightarrow> message \<Rightarrow> node_memory \<Rightarrow> node_memory" where
  "nm_schedule t sm s = s\<lparr>nm_agenda := nm_agenda s @ [(t, MessageTimer sm)]\<rparr>"

text \<open>The size is divided by the size of a block before it is rounded up.\<close>

definition nm_requiredBlocks :: "nat \<Rightarrow> node_memory \<Rightarrow> u32" where
  "nm_requiredBlocks memSize s = word_of_nat memSize div nm_blockSize_KB s"

definition nm_allocate :: "rat \<Rightarrow> message \<Rightarrow> memory_pump" where
  "nm_allocate now sm s = bind_res (nm_changeState MEMORY_STATE_WRITE now s) (\<lambda>s. case cast_mem sm of
     None \<Rightarrow> Fail (Thrown ''check_and_cast'')
   | Some memSize \<Rightarrow>
       let requiredBlocks = nm_requiredBlocks memSize s;
           (sm, s) = (if requiredBlocks \<le> nm_freeAppBlocks s
              then (sm, s\<lparr>nm_freeAppBlocks := nm_freeAppBlocks s - requiredBlocks\<rparr>)
              else (sm\<lparr>result_code := SM_NOT_ENOUGH_MEMORY\<rparr>, s))
       in Ok (nm_schedule (nm_writeLatency s + now) (sm\<lparr>isResponse := True\<rparr>) s))"

definition nm_release :: "rat \<Rightarrow> message \<Rightarrow> memory_pump" where
  "nm_release now sm s = bind_res (nm_changeState MEMORY_STATE_WRITE now s) (\<lambda>s. case cast_mem sm of
     None \<Rightarrow> Fail (Thrown ''check_and_cast'')
   | Some memSize \<Rightarrow>
       let requiredBlocks = nm_requiredBlocks memSize s;
           free = nm_freeAppBlocks s + requiredBlocks;
           s = s\<lparr>nm_freeAppBlocks := (if free > nm_totalBlocks s then nm_totalBlocks s else free)\<rparr>
       in Ok (nm_schedule (nm_writeLatency s + now) (sm\<lparr>isResponse := True\<rparr>) s))"

definition nm_processRequestMessage ::
  "rat \<Rightarrow> (message \<Rightarrow> int option) \<Rightarrow> memory_pump \<Rightarrow> message \<Rightarrow> memory_pump" where
  "nm_processRequestMessage now og pump sm s =
     (if operation sm = SM_CHANGE_MEMORY_STATE then
        bind_res (nm_changeDeviceState (changing_state sm) now s) (\<lambda>s.
        bind_res (pump s) (\<lambda>s. Ok (emit (Deleted sm) s)))
      else if operation sm = SM_CHANGE_DISK_STATE then
        (if cast_io sm = None then Fail (Thrown ''check_and_cast'') else nm_sendRequest og pump sm s)
      else if operation sm = SM_MEM_ALLOCATE then nm_allocate now sm s
      else if operation sm = SM_MEM_RELEASE then nm_release now sm s
      else if cast_io sm = None then Fail (Thrown ''check_and_cast'')
      else if operation sm \<in> {SM_READ_FILE, SM_WRITE_FILE} \<and> \<not> remoteOperation sm then
        bind_res (nm_changeState MEMORY_STATE_SEARCHING now s) (\<lambda>s. Ok (nm_schedule (nm_searchLatency s + now) sm s))
      else nm_sendRequest og pump sm s)"

text \<open>Serving the queue; every call takes one message.\<close>

fun nm_serve :: "nat \<Rightarrow> (memory_pump \<Rightarrow> message \<Rightarrow> memory_pump) \<Rightarrow> memory_pump" where
  "nm_serve 0 f s = Ok s"
| "nm_serve (Suc n) f s = (case queue s of [] \<Rightarrow> Ok s | sm # rest \<Rightarrow> f (nm_serve n f) sm (s\<lparr>queue := rest\<rparr>))"

definition nm_processCurrentRequestMessage :: "rat \<Rightarrow> (message \<Rightarrow> int option) \<Rightarrow> memory_pump" where
  "nm_processCurrentRequestMessage now og s = nm_serve (length (queue s)) (nm_processRequestMessage now og) s"

definition nm_processResponseMessage :: "rat \<Rightarrow> memory_pump \<Rightarrow> message \<Rightarrow> memory_pump" where
  "nm_processResponseMessage now pump sm s =
     bind_res (nm_changeState MEMORY_STATE_IDLE now s) (sendResponseMessage pump sm)"

definition nm_processSelfMessage :: "rat \<Rightarrow> (message \<Rightarrow> int option) \<Rightarrow> memory_timer \<Rightarrow> memory_pump" where
  "nm_processSelfMessage now og msg s = (let pump = nm_processCurrentRequestMessage now og in case msg of
     LatencyTimer \<Rightarrow> (case nm_pending s of Some m \<Rightarrow> nm_sendRequest og pump m s | None \<Rightarrow> pump s)
   | StateTimer \<Rightarrow> nm_changeState MEMORY_STATE_IDLE now s
   | MessageTimer m \<Rightarrow>
       if cast_io m \<noteq> None then bind_res (nm_changeState MEMORY_STATE_IDLE now s) (nm_sendRequest og pump m)
       else if cast_mem m \<noteq> None then bind_res (nm_changeState MEMORY_STATE_IDLE now s) (sendResponseMessage pump m)
       else Fail (Thrown ''showErrorMessage''))"

text \<open>The events of the module: a message arrives, or the \<open>k\<close>-th scheduled message is due.\<close>

datatype memory_event = Arrives rat message | Due nat

definition nm_event :: "(message \<Rightarrow> int option) \<Rightarrow> memory_event \<Rightarrow> memory_pump" where
  "nm_event og ev s = (case ev of
     Arrives now sm \<Rightarrow>
       if \<not> isResponse sm then bind_res (updateMessageTrace og sm s) (\<lambda>(sm, s).
         nm_processCurrentRequestMessage now og (s\<lparr>queue := queue s @ [sm]\<rparr>))
       else nm_processResponseMessage now (nm_processCurrentRequestMessage now og) sm s
   | Due k \<Rightarrow>
       if k < length (nm_agenda s)
       then (case nm_agenda s ! k of (now, m) \<Rightarrow> nm_processSelfMessage now og m (s\<lparr>nm_agenda := remove_at k (nm_agenda s)\<rparr>))
       else Ok s)"

definition nm_run :: "(message \<Rightarrow> int option) \<Rightarrow> memory_event list \<Rightarrow> memory_pump" where
  "nm_run og evs s = fold_res (nm_event og) evs s"

definition getMemoryOccupation :: "node_memory \<Rightarrow> rat res" where
  "getMemoryOccupation s = (if nm_totalBlocks s = 0 then Fail Undefined
     else Ok (rat_of_nat (unat ((nm_totalBlocks s - nm_freeAppBlocks s) * 100 div nm_totalBlocks s))))"

section \<open>The free blocks\<close>

lemma nm_same_more:
  "module_state.more s = module_state.more t \<Longrightarrow>
   nm_totalBlocks s = nm_totalBlocks t \<and> nm_freeAppBlocks s = nm_freeAppBlocks t \<and> nm_blockSize_KB s = nm_blockSize_KB t \<and>
   nm_hw s = nm_hw t \<and> nm_agenda s = nm_agenda t \<and> nm_writeLatency s = nm_writeLatency t"
  by (cases s; cases t) simp

lemma nm_changeState_frame:
  "nm_changeState st now s = Ok s' \<Longrightarrow> \<exists>h. s' = s\<lparr>nm_hw := h\<rparr>"
  by (auto simp: nm_changeState_def elim: bind_res_OkE)

lemma requiredBlocks_hw [simp]: "nm_requiredBlocks n (s\<lparr>nm_hw := h\<rparr>) = nm_requiredBlocks n s"
  by (simp add: nm_requiredBlocks_def)

text \<open>What an event does to the free blocks, on natural numbers.\<close>

datatype memory_op = Take nat | Give nat | SwitchOff | Other

fun ledger :: "nat \<Rightarrow> nat \<Rightarrow> memory_op \<Rightarrow> nat \<Rightarrow> nat" where
  "ledger blocks block (Take n) free = (if n div block \<le> free then free - n div block else free)"
| "ledger blocks block (Give n) free = min blocks (free + n div block)"
| "ledger blocks block SwitchOff free = blocks"
| "ledger blocks block Other free = free"

fun memory_op_of :: "memory_event \<Rightarrow> memory_op" where
  "memory_op_of (Due k) = Other"
| "memory_op_of (Arrives now sm) =
     (if isResponse sm then Other
      else if operation sm = SM_CHANGE_MEMORY_STATE then (if changing_state sm = MACHINE_STATE_OFF then SwitchOff else Other)
      else if operation sm = SM_MEM_ALLOCATE then Take (case cast_mem sm of None \<Rightarrow> 0 | Some n \<Rightarrow> n)
      else if operation sm = SM_MEM_RELEASE then Give (case cast_mem sm of None \<Rightarrow> 0 | Some n \<Rightarrow> n)
      else Other)"

definition nm_follows :: "memory_op \<Rightarrow> node_memory \<Rightarrow> node_memory \<Rightarrow> bool" where
  "nm_follows a s s' \<longleftrightarrow> queue s' = [] \<and> nm_totalBlocks s' = nm_totalBlocks s \<and> nm_blockSize_KB s' = nm_blockSize_KB s \<and>
     unat (nm_freeAppBlocks s') = ledger (unat (nm_totalBlocks s)) (unat (nm_blockSize_KB s)) a (unat (nm_freeAppBlocks s))"

text \<open>Blocks of at least 2 KB and fewer than \<open>2 ^ 31\<close> of them, so that no sum wraps.\<close>

definition nm_sizes :: "node_memory \<Rightarrow> bool" where
  "nm_sizes s \<longleftrightarrow> 2 \<le> unat (nm_blockSize_KB s) \<and> unat (nm_totalBlocks s) < 2 ^ 31 \<and>
     unat (nm_freeAppBlocks s) \<le> unat (nm_totalBlocks s)"

lemma requiredBlocks_unat:
  assumes "n < 2 ^ 32"
  shows "unat (nm_requiredBlocks n s) = n div unat (nm_blockSize_KB s)"
  using assms by (simp add: nm_requiredBlocks_def unat_div unat_of_nat take_bit_nat_eq_self)

lemma allocate_follows:
  assumes "nm_allocate now sm s = Ok s'" "queue s = []" "cast_mem sm = Some n" "n < 2 ^ 32"
  shows "nm_follows (Take n) s s'"
proof -
  from assms(1) obtain t where t: "nm_changeState MEMORY_STATE_WRITE now s = Ok t" by (auto simp: nm_allocate_def elim: bind_res_OkE)
  from nm_changeState_frame[OF t] obtain h where h: "t = s\<lparr>nm_hw := h\<rparr>" by blast
  have le: "(nm_requiredBlocks n s \<le> nm_freeAppBlocks s) = (n div unat (nm_blockSize_KB s) \<le> unat (nm_freeAppBlocks s))"
    by (simp add: word_le_nat_alt requiredBlocks_unat[OF assms(4)])
  show ?thesis using assms(1-3) t le
    by (auto simp: nm_allocate_def Let_def nm_follows_def h nm_schedule_def unat_sub requiredBlocks_unat[OF assms(4)]
        split: if_splits)
qed

lemma release_follows:
  assumes "nm_release now sm s = Ok s'" "queue s = []" "cast_mem sm = Some n" "n < 2 ^ 32" "nm_sizes s"
  shows "nm_follows (Give n) s s'"
proof -
  from assms(1) obtain t where t: "nm_changeState MEMORY_STATE_WRITE now s = Ok t" by (auto simp: nm_release_def elim: bind_res_OkE)
  from nm_changeState_frame[OF t] obtain h where h: "t = s\<lparr>nm_hw := h\<rparr>" by blast
  have "n div unat (nm_blockSize_KB s) \<le> n div 2" using assms(5) by (intro div_le_mono2) (auto simp: nm_sizes_def)
  then have "n div unat (nm_blockSize_KB s) < 2 ^ 31" using assms(4) by simp
  then have sum: "unat (nm_freeAppBlocks s + nm_requiredBlocks n s) = unat (nm_freeAppBlocks s) + n div unat (nm_blockSize_KB s)"
    using assms(5) by (subst unat_add_lem[THEN iffD1]) (auto simp: nm_sizes_def requiredBlocks_unat[OF assms(4)])
  show ?thesis using assms(1-3) t sum
    by (auto simp: nm_release_def Let_def nm_follows_def h nm_schedule_def word_less_nat_alt split: if_splits)
qed

definition memory_event_ok :: "memory_event \<Rightarrow> bool" where
  "memory_event_ok ev \<longleftrightarrow> (case ev of Due k \<Rightarrow> True
     | Arrives now sm \<Rightarrow> (case cast_mem sm of None \<Rightarrow> True | Some n \<Rightarrow> n < 2 ^ 32))"

lemma follows_other:
  "queue s' = [] \<Longrightarrow> nm_totalBlocks s' = nm_totalBlocks s \<Longrightarrow> nm_blockSize_KB s' = nm_blockSize_KB s \<Longrightarrow>
   nm_freeAppBlocks s' = nm_freeAppBlocks s \<Longrightarrow> nm_follows Other s s'"
  by (simp add: nm_follows_def)

lemma nm_serve_0 [simp]: "nm_serve 0 f = Ok"
  by (rule ext) simp

lemma nm_pump_idle: "queue t = [] \<Longrightarrow> nm_processCurrentRequestMessage now og t = Ok t"
  by (simp add: nm_processCurrentRequestMessage_def)

lemma event_arrives:
  assumes "queue s = []" "\<not> isResponse sm" "updateMessageTrace og sm s = Ok (m, u)"
  shows "nm_event og (Arrives now sm) s = nm_processRequestMessage now og Ok m u"
proof -
  have q: "queue u = []" using updateMessageTrace_frame[OF assms(3)] assms(1) by simp
  have same: "u\<lparr>queue := []\<rparr> = u" using q by (cases u) simp
  show ?thesis using assms(2,3) q by (simp add: nm_event_def nm_processCurrentRequestMessage_def same)
qed

lemma sendRequest_other:
  assumes "nm_sendRequest og p m s = Ok s'" "queue s = []" "\<And>t. queue t = [] \<Longrightarrow> p t = Ok t"
  shows "nm_follows Other s s' \<and> nm_agenda s' = nm_agenda s"
proof (cases "remoteOperation m")
  case True
  with assms(1) have "s' = emit (Sent m (ViaGate nm_toInput)) s" by (simp add: nm_sendRequest_def)
  with assms(2) show ?thesis by (simp add: nm_follows_def emit_def)
next
  case False
  with assms have "sendRequestMessage og Ok m nm_toOutput s = Ok s'"
    using sendRequestMessage_idle[of s p og m nm_toOutput] by (simp add: nm_sendRequest_def)
  from sendRequestMessage_frame[OF this] nm_same_more[of s' s] assms(2) show ?thesis
    by (simp add: nm_follows_def)
qed

lemma sendResponse_other:
  assumes "sendResponseMessage p m s = Ok s'" "queue s = []" "\<And>t. queue t = [] \<Longrightarrow> p t = Ok t"
  shows "nm_follows Other s s' \<and> nm_agenda s' = nm_agenda s"
proof -
  from assms have "sendResponseMessage Ok m s = Ok s'" using sendResponseMessage_idle[of s p m] by simp
  from sendResponseMessage_frame[OF this] nm_same_more[of s' s] assms(2) show ?thesis by (simp add: nm_follows_def)
qed

lemma changeState_other:
  assumes "nm_changeState st now s = Ok s'" "queue s = []"
  shows "nm_follows Other s s' \<and> nm_agenda s' = nm_agenda s \<and> queue s' = []"
  using nm_changeState_frame[OF assms(1)] assms(2) by (auto simp: nm_follows_def)

lemma follows_then: "nm_follows a s t \<Longrightarrow> nm_follows Other t u \<Longrightarrow> nm_follows a s u"
  by (simp add: nm_follows_def)

lemma follows_after: "nm_follows Other s t \<Longrightarrow> nm_follows a t u \<Longrightarrow> nm_follows a s u"
  by (simp add: nm_follows_def)

lemma changeDevice_follows:
  assumes "nm_changeDeviceState st now s = Ok s'" "queue s = []"
  shows "nm_follows (if st = MACHINE_STATE_OFF then SwitchOff else Other) s s'"
proof -
  have ne: "MACHINE_STATE_OFF \<noteq> MACHINE_STATE_IDLE" "MACHINE_STATE_OFF \<noteq> MACHINE_STATE_RUNNING"
    by (simp_all add: MACHINE_STATE_OFF_def MACHINE_STATE_IDLE_def MACHINE_STATE_RUNNING_def)
  show ?thesis using assms ne
    by (auto simp: nm_changeDeviceState_def nm_follows_def dest!: nm_changeState_frame split: if_splits)
qed

lemma request_follows:
  assumes "nm_processRequestMessage now og Ok sm s = Ok s'" "queue s = []" "nm_sizes s"
    and "memory_event_ok (Arrives now sm)" "\<not> isResponse sm"
  shows "nm_follows (memory_op_of (Arrives now sm)) s s'"
proof -
  have ops: "SM_CHANGE_DISK_STATE \<noteq> SM_CHANGE_MEMORY_STATE" "SM_MEM_ALLOCATE \<noteq> SM_CHANGE_MEMORY_STATE"
    "SM_MEM_RELEASE \<noteq> SM_CHANGE_MEMORY_STATE" "SM_MEM_ALLOCATE \<noteq> SM_CHANGE_DISK_STATE" "SM_MEM_RELEASE \<noteq> SM_CHANGE_DISK_STATE"
    "SM_MEM_RELEASE \<noteq> SM_MEM_ALLOCATE"
    by (simp_all add: SM_CHANGE_DISK_STATE_def SM_CHANGE_MEMORY_STATE_def SM_MEM_ALLOCATE_def SM_MEM_RELEASE_def)
  have size: "cast_mem sm = Some n \<Longrightarrow> n < 2 ^ 32" for n using assms(4) by (simp add: memory_event_ok_def)
  consider "operation sm = SM_CHANGE_MEMORY_STATE" | "operation sm = SM_MEM_ALLOCATE" | "operation sm = SM_MEM_RELEASE"
    | "operation sm \<notin> {SM_CHANGE_MEMORY_STATE, SM_MEM_ALLOCATE, SM_MEM_RELEASE}" by blast
  then show ?thesis
  proof cases
    case 1
    with assms(1) obtain t where t: "nm_changeDeviceState (changing_state sm) now s = Ok t" "s' = emit (Deleted sm) t"
      by (auto simp: nm_processRequestMessage_def elim!: bind_res_OkE)
    have "nm_follows Other t s'" using changeDevice_follows[OF t(1) assms(2)] by (simp add: nm_follows_def t(2) emit_def)
    then show ?thesis using follows_then[OF changeDevice_follows[OF t(1) assms(2)]] 1 assms(5) by simp
  next
    case 2
    with assms(1) ops have a: "nm_allocate now sm s = Ok s'" by (simp add: nm_processRequestMessage_def)
    then obtain n where n: "cast_mem sm = Some n" by (auto simp: nm_allocate_def elim!: bind_res_OkE split: option.splits)
    from allocate_follows[OF a assms(2) n size[OF n]] 2 n ops assms(5) show ?thesis by simp
  next
    case 3
    with assms(1) ops have a: "nm_release now sm s = Ok s'" by (simp add: nm_processRequestMessage_def)
    then obtain n where n: "cast_mem sm = Some n" by (auto simp: nm_release_def elim!: bind_res_OkE split: option.splits)
    from release_follows[OF a assms(2) n size[OF n] assms(3)] 3 n ops assms(5) show ?thesis by simp
  next
    case 4
    have "nm_sendRequest og Ok sm s = Ok s' \<or>
        (\<exists>t. nm_changeState MEMORY_STATE_SEARCHING now s = Ok t \<and> s' = nm_schedule (nm_searchLatency t + now) sm t)"
      using assms(1) 4 by (auto simp: nm_processRequestMessage_def elim!: bind_res_OkE split: if_splits)
    then have "nm_follows Other s s'"
    proof
      assume "nm_sendRequest og Ok sm s = Ok s'"
      then show ?thesis using sendRequest_other assms(2) by blast
    next
      assume "\<exists>t. nm_changeState MEMORY_STATE_SEARCHING now s = Ok t \<and> s' = nm_schedule (nm_searchLatency t + now) sm t"
      then show ?thesis using changeState_other assms(2) by (fastforce simp: nm_schedule_def nm_follows_def)
    qed
    then show ?thesis using 4 assms(5) by simp
  qed
qed

lemma self_follows:
  assumes "nm_processSelfMessage now og msg s = Ok s'" "queue s = []"
  shows "nm_follows Other s s'"
proof (cases msg)
  case LatencyTimer
  then show ?thesis using assms sendRequest_other[of og "nm_processCurrentRequestMessage now og" _ s s'] nm_pump_idle
    by (cases "nm_pending s") (auto simp: nm_processSelfMessage_def nm_follows_def)
next
  case StateTimer
  then show ?thesis using assms changeState_other by (simp add: nm_processSelfMessage_def)
next
  case (MessageTimer m)
  then obtain t where t: "nm_changeState MEMORY_STATE_IDLE now s = Ok t"
    and r: "nm_sendRequest og (nm_processCurrentRequestMessage now og) m t = Ok s' \<or>
      sendResponseMessage (nm_processCurrentRequestMessage now og) m t = Ok s'"
    using assms(1) by (auto simp: nm_processSelfMessage_def Let_def elim!: bind_res_OkE split: if_splits)
  have q: "queue t = []" "nm_follows Other s t" using changeState_other[OF t assms(2)] by auto
  have "nm_follows Other t s'"
    using r sendRequest_other[OF _ q(1)] sendResponse_other[OF _ q(1)] nm_pump_idle by blast
  then show ?thesis using follows_then q(2) by blast
qed

lemma event_follows:
  assumes "nm_event og ev s = Ok s'" "queue s = []" "nm_sizes s" "memory_event_ok ev"
  shows "nm_follows (memory_op_of ev) s s'"
proof (cases ev)
  case (Due k)
  show ?thesis
  proof (cases "k < length (nm_agenda s)")
    case True
    obtain now m where m: "nm_agenda s ! k = (now, m)" by (cases "nm_agenda s ! k")
    let ?t = "s\<lparr>nm_agenda := remove_at k (nm_agenda s)\<rparr>"
    have "nm_processSelfMessage now og m ?t = Ok s'" using assms(1) Due True m by (simp add: nm_event_def)
    from self_follows[OF this] assms(2) have "nm_follows Other ?t s'" by simp
    then show ?thesis by (simp add: Due nm_follows_def)
  next
    case False
    then show ?thesis using assms(1,2) Due by (simp add: nm_event_def nm_follows_def)
  qed
next
  case (Arrives now sm)
  show ?thesis
  proof (cases "isResponse sm")
    case True
    then obtain t where t: "nm_changeState MEMORY_STATE_IDLE now s = Ok t"
      "sendResponseMessage (nm_processCurrentRequestMessage now og) sm t = Ok s'"
      using assms(1) Arrives by (auto simp: nm_event_def nm_processResponseMessage_def elim!: bind_res_OkE)
    have q: "queue t = []" "nm_follows Other s t" using changeState_other[OF t(1) assms(2)] by auto
    from sendResponse_other[OF t(2) q(1)] nm_pump_idle have "nm_follows Other t s'" by blast
    then show ?thesis using follows_then[OF q(2)] by (simp add: Arrives True)
  next
    case False
    then obtain m u where u: "updateMessageTrace og sm s = Ok (m, u)"
      using assms(1) Arrives by (auto simp: nm_event_def elim!: bind_res_OkE)
    from updateMessageTrace_frame[OF u] assms(2) obtain t where q: "queue u = []" and more: "module_state.more u = module_state.more s"
      and m: "m = sm\<lparr>msg_trace := t\<rparr>" by auto
    have r: "nm_processRequestMessage now og Ok m u = Ok s'"
      using assms(1) event_arrives[OF assms(2) False u] by (simp add: Arrives)
    have "nm_sizes u" using assms(3) nm_same_more[OF more] by (simp add: nm_sizes_def)
    moreover have "memory_event_ok (Arrives now m)" "\<not> isResponse m" "memory_op_of (Arrives now m) = memory_op_of ev"
      using assms(4) False by (simp_all add: Arrives m memory_event_ok_def cast_mem_def)
    ultimately have "nm_follows (memory_op_of ev) u s'" using request_follows[OF r q] by simp
    then show ?thesis using nm_same_more[OF more] by (simp add: nm_follows_def)
  qed
qed

text \<open>C33: Over any run the free blocks of the memory of a node follow the abstract ledger of the allocations and releases and never exceed the total.\<close>

theorem memory_ledger:
  assumes "nm_run og evs s = Ok s'" "queue s = []" "nm_sizes s" "list_all memory_event_ok evs"
  shows "unat (nm_freeAppBlocks s') =
      fold (ledger (unat (nm_totalBlocks s)) (unat (nm_blockSize_KB s))) (map memory_op_of evs) (unat (nm_freeAppBlocks s)) \<and>
    nm_freeAppBlocks s' \<le> nm_totalBlocks s' \<and> nm_totalBlocks s' = nm_totalBlocks s"
  using assms
proof (induction evs arbitrary: s)
  case Nil
  then show ?case by (simp add: nm_run_def nm_sizes_def word_le_nat_alt)
next
  case (Cons ev evs)
  from Cons.prems(1) obtain t where t: "nm_event og ev s = Ok t" "nm_run og evs t = Ok s'"
    by (auto simp: nm_run_def elim: bind_res_OkE)
  have f: "nm_follows (memory_op_of ev) s t" using event_follows[OF t(1)] Cons.prems(2-4) by simp
  have b: "ledger x b a y \<le> x" if "y \<le> x" for x b a y using that by (cases a) auto
  have "nm_sizes t" using f Cons.prems(3) b by (auto simp: nm_sizes_def nm_follows_def)
  with Cons.IH[OF t(2)] Cons.prems(4) f show ?case by (auto simp: nm_follows_def)
qed

section \<open>Every allocation is answered\<close>

lemma nm_changeState_ready:
  assumes "meter_ready 0 N (nm_hw s)" "st \<in> N"
  shows "\<exists>h. nm_changeState st now s = Ok (s\<lparr>nm_hw := h\<rparr>) \<and> meter_ready 0 N h"
  using e_change_ready[OF assms, of now] by (auto simp: nm_changeState_def)

text \<open>C15: The answer leaves by the gate of the request after the latency, with the trace the request came with.\<close>

theorem memory_allocation_answered:
  assumes "queue s = []" "meter_ready 0 {MEMORY_STATE_IDLE, MEMORY_STATE_WRITE} (nm_hw s)"
    and "operation sm = SM_MEM_ALLOCATE" "cast_mem sm = Some n" "\<not> isResponse sm" "msg_trace sm \<noteq> []"
  shows "\<exists>s1 m s2. nm_event og (Arrives now sm) s = Ok s1 \<and> outbox s1 = outbox s \<and>
     nm_agenda s1 = nm_agenda s @ [(nm_writeLatency s + now, MessageTimer m)] \<and>
     nm_event og (Due (length (nm_agenda s))) s1 = Ok s2 \<and> nm_agenda s2 = nm_agenda s \<and>
     outbox s2 = outbox s @ [Sent (sm\<lparr>isResponse := True,
        result_code := (if nm_requiredBlocks n s \<le> nm_freeAppBlocks s then result_code sm else SM_NOT_ENOUGH_MEMORY)\<rparr>)
        (ViaGateId (case og sm of None \<Rightarrow> NO_GATE_ID | Some g \<Rightarrow> g))]"
proof -
  let ?N = "{MEMORY_STATE_IDLE, MEMORY_STATE_WRITE}" and ?g = "case og sm of None \<Rightarrow> NO_GATE_ID | Some g \<Rightarrow> g"
  let ?code = "if nm_requiredBlocks n s \<le> nm_freeAppBlocks s then result_code sm else SM_NOT_ENOUGH_MEMORY"
  have ops: "SM_MEM_ALLOCATE \<noteq> SM_CHANGE_MEMORY_STATE" "SM_MEM_ALLOCATE \<noteq> SM_CHANGE_DISK_STATE"
    by (simp_all add: SM_CHANGE_DISK_STATE_def SM_CHANGE_MEMORY_STATE_def SM_MEM_ALLOCATE_def)
  from assms(6) obtain t where t: "addModuleToTrace (module_id s) ?g (currentRequest s) (msg_trace sm) = Ok t"
    by (auto simp: addModuleToTrace_def)
  let ?m = "sm\<lparr>msg_trace := t\<rparr>" and ?u = "s\<lparr>currentRequest := Suc (currentRequest s)\<rparr>"
  let ?a = "sm\<lparr>msg_trace := t, result_code := ?code, isResponse := True\<rparr>"
  have u: "updateMessageTrace og sm s = Ok (?m, ?u)" by (simp add: updateMessageTrace_def t)
  obtain h where h: "nm_changeState MEMORY_STATE_WRITE now ?u = Ok (?u\<lparr>nm_hw := h\<rparr>)" "meter_ready 0 ?N h"
    using nm_changeState_ready[of ?N ?u MEMORY_STATE_WRITE now] assms(2) by auto
  have free: "nm_requiredBlocks n ?u = nm_requiredBlocks n s" by (simp add: nm_requiredBlocks_def)
  let ?fits = "nm_requiredBlocks n s \<le> nm_freeAppBlocks s"
  let ?s1 = "nm_schedule (nm_writeLatency s + now) ?a (if ?fits
    then ?u\<lparr>nm_hw := h, nm_freeAppBlocks := nm_freeAppBlocks s - nm_requiredBlocks n s\<rparr> else ?u\<lparr>nm_hw := h\<rparr>)"
  have "nm_allocate now ?m ?u = Ok ?s1"
  proof (cases ?fits)
    case True
    moreover have "?m\<lparr>isResponse := True\<rparr> = ?a" using True by (cases sm) simp
    ultimately show ?thesis using assms(4) h(1) by (simp add: nm_allocate_def cast_mem_def free Let_def nm_schedule_def)
  next
    case False
    then show ?thesis using assms(4) h(1) by (simp add: nm_allocate_def cast_mem_def free Let_def nm_schedule_def)
  qed
  then obtain s1 where s1: "nm_allocate now ?m ?u = Ok s1" "queue s1 = []" "outbox s1 = outbox s" "nm_hw s1 = h"
    "nm_agenda s1 = nm_agenda s @ [(nm_writeLatency s + now, MessageTimer ?a)]"
    using assms(1) by (simp add: nm_schedule_def)
  have arrives: "nm_event og (Arrives now sm) s = Ok s1"
    using event_arrives[OF assms(1,5) u] assms(3) ops s1(1) by (simp add: nm_processRequestMessage_def)
  let ?v = "s1\<lparr>nm_agenda := nm_agenda s\<rparr>"
  obtain k where k: "nm_changeState MEMORY_STATE_IDLE (nm_writeLatency s + now) ?v = Ok (?v\<lparr>nm_hw := k\<rparr>)"
    using nm_changeState_ready[of ?N ?v MEMORY_STATE_IDLE "nm_writeLatency s + now"] h(2) s1(4) by auto
  have cast: "cast_io ?a = None" "cast_mem ?a \<noteq> None" using assms(4) by (auto simp: cast_mem_def cast_io_def split: payload.splits)
  have resp: "sendResponseMessage (nm_processCurrentRequestMessage (nm_writeLatency s + now) og) ?a (?v\<lparr>nm_hw := k\<rparr>) =
     Ok (emit (Sent (?a\<lparr>msg_trace := msg_trace sm\<rparr>) (ViaGateId ?g)) (?v\<lparr>nm_hw := k\<rparr>))"
    using addModule_lastGate[OF t] addModule_removeModule[OF t] s1(2)
    by (simp add: sendResponseMessage_def nm_pump_idle)
  have due: "nm_event og (Due (length (nm_agenda s))) s1 =
     Ok (emit (Sent (?a\<lparr>msg_trace := msg_trace sm\<rparr>) (ViaGateId ?g)) (?v\<lparr>nm_hw := k\<rparr>))"
    by (simp add: nm_event_def s1(5) nth_append nm_processSelfMessage_def Let_def cast k resp)
  have "?a\<lparr>msg_trace := msg_trace sm\<rparr> = sm\<lparr>isResponse := True, result_code := ?code\<rparr>" by (cases sm) simp
  then show ?thesis using arrives due s1(3,5) by (intro exI[of _ s1] exI[of _ ?a] exI) (auto simp: emit_def)
qed

subsection \<open>A memory of 100 MB with blocks of 64 KB\<close>

definition sample_memory :: node_memory where
  "sample_memory = (case bind_res (mem_controller_initialize (base_initialize 5 ''n0'') 100 64 0 (1 / 100)) (\<lambda>s.
     bind_res (hw_loadComponent [new_state MEMORY_STATE_OFF 0, new_state MEMORY_STATE_IDLE 1, new_state MEMORY_STATE_WRITE 4,
       new_state MEMORY_STATE_SEARCHING 2] 1 False 0 True (nm_hw s)) (\<lambda>h. Ok (s\<lparr>nm_hw := h\<rparr>))) of
     Ok s \<Rightarrow> s
   | Fail _ \<Rightarrow> \<lparr>queue = [], outbox = [], currentRequest = 0, latencyScheduled = False, module_id = 0, host_name = [],
       nm_blockSize_KB = 1, nm_size_MB = 0, nm_totalBlocks = 0, nm_freeAppBlocks = 0, nm_totalAppBlocks = 0,
       nm_searchLatency = 0, nm_writeLatency = 0, nm_pending = None, nm_nodeState = [], nm_hw = hw_initialize, nm_agenda = []\<rparr>)"

definition sample_mem_message :: "int \<Rightarrow> nat \<Rightarrow> message" where
  "sample_mem_message op n = (new_cpu_message 1)\<lparr>operation := op, payload := MemPayload n, msg_trace := [(''n0'', [])]\<rparr>"

text \<open>1000 KB, 70 KB and 63 KB are asked for: 15 blocks, one block and none.\<close>

definition sample_memory_events :: "memory_event list" where
  "sample_memory_events = [Arrives 1 (sample_mem_message SM_MEM_ALLOCATE 1000), Due 0,
     Arrives 2 (sample_mem_message SM_MEM_ALLOCATE 70), Arrives 3 (sample_mem_message SM_MEM_ALLOCATE 63)]"

definition sample_memory_later :: node_memory where
  "sample_memory_later = (case nm_run (\<lambda>_. Some 9) sample_memory_events sample_memory of Ok s \<Rightarrow> s | Fail _ \<Rightarrow> sample_memory)"

lemma sample_memory_sizes:
  "nm_blockSize_KB sample_memory = 64" "nm_totalBlocks sample_memory = 1562" "nm_freeAppBlocks sample_memory = 1562"
  "queue sample_memory = []" "outbox sample_memory = []" "nm_agenda sample_memory = []" "nm_writeLatency sample_memory = 1 / 100"
  by code_simp+

lemma memory_ledger_witness:
  "unat (nm_freeAppBlocks sample_memory_later) = 1546 \<and> nm_freeAppBlocks sample_memory_later \<le> 1562"
proof -
  have r: "nm_run (\<lambda>_. Some 9) sample_memory_events sample_memory = Ok sample_memory_later" by code_simp
  have e: "list_all memory_event_ok sample_memory_events"
    by (simp add: sample_memory_events_def memory_event_ok_def sample_mem_message_def cast_mem_def)
  have s: "nm_sizes sample_memory" by (simp add: nm_sizes_def sample_memory_sizes)
  have f: "fold (ledger 1562 64) (map memory_op_of sample_memory_events) 1562 = 1546"
    by (simp add: sample_memory_events_def sample_mem_message_def new_cpu_message_def cast_mem_def SM_MEM_ALLOCATE_def
        SM_CHANGE_MEMORY_STATE_def)
  from memory_ledger[OF r sample_memory_sizes(4) s e]
  have "unat (nm_freeAppBlocks sample_memory_later) = 1546" "nm_freeAppBlocks sample_memory_later \<le> nm_totalBlocks sample_memory_later"
    "nm_totalBlocks sample_memory_later = 1562" by (auto simp: sample_memory_sizes f)
  then show ?thesis by metis
qed

lemma memory_allocation_answered_witness:
  "\<exists>s1 s2. nm_event (\<lambda>_. Some 9) (Arrives 1 (sample_mem_message SM_MEM_ALLOCATE 1000)) sample_memory = Ok s1 \<and>
     nm_event (\<lambda>_. Some 9) (Due 0) s1 = Ok s2 \<and>
     outbox s2 = [Sent ((sample_mem_message SM_MEM_ALLOCATE 1000)\<lparr>isResponse := True\<rparr>) (ViaGateId 9)]"
proof -
  let ?m = "sample_mem_message SM_MEM_ALLOCATE 1000"
  have m: "operation ?m = SM_MEM_ALLOCATE" "cast_mem ?m = Some 1000" "\<not> isResponse ?m" "msg_trace ?m \<noteq> []" by code_simp+
  have r: "meter_ready 0 {MEMORY_STATE_IDLE, MEMORY_STATE_WRITE} (nm_hw sample_memory)" by code_simp
  have fits: "nm_requiredBlocks 1000 sample_memory \<le> 1562" by (simp add: nm_requiredBlocks_def sample_memory_sizes)
  have same: "?m\<lparr>isResponse := True, result_code := result_code ?m\<rparr> = ?m\<lparr>isResponse := True\<rparr>" by (cases ?m) simp
  from memory_allocation_answered[OF sample_memory_sizes(4) r m, of "\<lambda>_. Some 9" 1]
  show ?thesis by (auto simp: sample_memory_sizes fits same simp del: message.update_convs)
qed

end
