(* ===== verification/CpuCore.thy ===== *)
theory CpuCore imports CpuSchedulers HwEnergy begin

text \<open>
  A core of a processor (\<^verbatim>\<open>CPUcore\<close> in \<^verbatim>\<open>src/src/Architecture/NodeComponents/Hardware/CPUs/CPUcores\<close>):
  it computes one block at a time, for a time that comes from its speed, and changes its performance
  state.  The energy is kept by the controller of the cores, \<open>co_ctl\<close>.

  Numbers of the types \<^verbatim>\<open>double\<close> and \<^verbatim>\<open>simtime_t\<close> are rational.  The timers of the core are in
  \<open>co_agenda\<close> with their times.
\<close>

definition OFF_STATE :: string where "OFF_STATE = ''off''"
definition C0_P11 :: string where "C0_P11 = ''c0_p11''"
definition C0_P10 :: string where "C0_P10 = ''c0_p10''"

text \<open>The states from the slowest; the position in the list is the number of the state in the core.\<close>

definition PStates :: "string list" where
  "PStates = [''off'', ''c0_p11'', ''c0_p10'', ''c0_p9'', ''c0_p8'', ''c0_p7'', ''c0_p6'', ''c0_p5'', ''c0_p4'', ''c0_p3'',
     ''c0_p2'', ''c0_p1'', ''c0_p0'']"

datatype core_timer = BlockFinished | ContinueExecuting

record cpu_core = module_state +
  co_index :: nat
  co_speed :: nat
  co_tick :: rat
  co_current_speed :: rat
  co_currentTime :: rat
  co_executing :: bool
  co_ipt :: int
  co_pstate :: nat
  co_nodeState :: string
  co_pending :: "message option"
  co_ctl :: cpu_controller
  co_agenda :: "(rat \<times> core_timer) list"

type_synonym core_pump = "cpu_core \<Rightarrow> cpu_core res"

text \<open>The conversion of a \<^verbatim>\<open>double\<close> to an integer.\<close>

definition trunc_int :: "rat \<Rightarrow> int" where
  "trunc_int x = (if 0 \<le> x then \<lfloor>x\<rfloor> else \<lceil>x\<rceil>)"

definition calculateIPT :: "rat \<Rightarrow> cpu_core \<Rightarrow> cpu_core" where
  "calculateIPT current_speed s = s\<lparr>co_ipt := trunc_int (current_speed * co_tick s)\<rparr>"

definition co_initialize :: "module_state \<Rightarrow> nat \<Rightarrow> nat \<Rightarrow> rat \<Rightarrow> cpu_controller \<Rightarrow> cpu_core res" where
  "co_initialize b index speed tick ctl = bind_res (registerCore (nat (module_id b)) index ctl) (\<lambda>ctl.
     Ok (calculateIPT (of_nat speed) \<lparr>queue = queue b, outbox = outbox b, currentRequest = currentRequest b,
       latencyScheduled = latencyScheduled b, module_id = module_id b, host_name = host_name b,
       co_index = index, co_speed = speed, co_tick = tick, co_current_speed = 0, co_currentTime = 0, co_executing = False,
       co_ipt = 0, co_pstate = 0, co_nodeState = MACHINE_STATE_OFF, co_pending = None, co_ctl = ctl, co_agenda = []\<rparr>))"

subsection \<open>Performance states\<close>

text \<open>
  The step between two speeds is an integer division of unsigned numbers by the number of energy states
  less one; without states the divisor wraps to the greatest number and the quotient is 0.
\<close>

definition relation_speed :: "nat \<Rightarrow> nat \<Rightarrow> nat res" where
  "relation_speed speed states = (let min_speed = nat (trunc_int (of_nat speed - of_nat speed * (6 / 10)))
     in if states = 0 then Ok 0 else if states = 1 then Fail Undefined
        else Ok ((speed - min_speed) div (states - 1)))"

text \<open>A state that is not in the list leaves the speed as it is.\<close>

definition co_changeState :: "string \<Rightarrow> rat \<Rightarrow> cpu_core \<Rightarrow> cpu_core res" where
  "co_changeState energyState now s =
     bind_res (e_getStatesSize (co_index s) (cc_hw (co_ctl s))) (\<lambda>states.
     bind_res (relation_speed (co_speed s) states) (\<lambda>relation.
       let s = (case index_of (\<lambda>n. n = energyState) PStates of
             None \<Rightarrow> s
           | Some k \<Rightarrow> s\<lparr>co_current_speed := (if k = 0 then 0 else of_nat (co_speed s) - of_nat relation * of_nat (12 - k)),
               co_pstate := k\<rparr>);
           s = calculateIPT (co_current_speed s) s
       in bind_res (cc_changeState energyState now (co_index s) (co_ctl s)) (\<lambda>c. Ok (s\<lparr>co_ctl := c\<rparr>))))"

definition co_changeDeviceState :: "string \<Rightarrow> rat \<Rightarrow> cpu_core \<Rightarrow> cpu_core res" where
  "co_changeDeviceState state now s =
     (if state = MACHINE_STATE_IDLE then co_changeState C0_P11 now (s\<lparr>co_nodeState := MACHINE_STATE_IDLE\<rparr>)
      else if state = MACHINE_STATE_RUNNING then co_changeState C0_P10 now (s\<lparr>co_nodeState := MACHINE_STATE_RUNNING\<rparr>)
      else if state = MACHINE_STATE_OFF then co_changeState OFF_STATE now (s\<lparr>co_nodeState := MACHINE_STATE_OFF\<rparr>)
      else if state = INCREMENT_SPEED then
        (let s = s\<lparr>co_nodeState := MACHINE_STATE_RUNNING\<rparr>
         in if co_pstate s < 12 then co_changeState (PStates ! (co_pstate s + 1)) now s else Ok s)
      else if state = DECREMENT_SPEED then
        (let s = s\<lparr>co_nodeState := MACHINE_STATE_RUNNING\<rparr>
         in if co_pstate s > 1 then co_changeState (PStates ! (co_pstate s - 1)) now s else Ok s)
      else co_changeState OFF_STATE now (s\<lparr>co_nodeState := MACHINE_STATE_OFF\<rparr>))"

subsection \<open>The work of a block\<close>

text \<open>The difference of two unsigned numbers is read as a signed one.\<close>

definition executeMIs :: "int \<Rightarrow> cpu_fields \<Rightarrow> cpu_fields" where
  "executeMIs numberMIs c = (let test = to_signed (to_unsigned (int (remainingMIs c) - to_unsigned numberMIs))
     in if test > 0 then c\<lparr>remainingMIs := nat test\<rparr> else c\<lparr>remainingMIs := 0\<rparr>)"

definition executeTime :: "rat \<Rightarrow> cpu_fields \<Rightarrow> cpu_fields" where
  "executeTime executedTime c = (if cpuTime c - executedTime > 0 then c\<lparr>cpuTime := cpuTime c - executedTime\<rparr>
     else c\<lparr>cpuTime := 0\<rparr>)"

text \<open>Without instructions per tick the time is infinite, which is an error, or not a number.\<close>

definition getTimeToExecuteCompletely :: "nat \<Rightarrow> cpu_core \<Rightarrow> rat res" where
  "getTimeToExecuteCompletely remaining s =
     (if co_ipt s = 0 then (if co_tick s \<noteq> 0 \<and> remaining > 0 then Fail (Thrown ''simtime'') else Fail Undefined)
      else if co_tick s = 0 then Ok 0
      else Ok (of_nat remaining / ((1 / co_tick s) * of_int (co_ipt s))))"

definition getMaximumTimeToExecute :: "rat \<Rightarrow> cpu_core \<Rightarrow> rat res" where
  "getMaximumTimeToExecute remainingTime s = (if co_tick s = 0 then Fail Undefined
     else bind_res (checked_int \<lceil>remainingTime / co_tick s\<rceil>) (\<lambda>ticks. Ok (of_int ticks * co_tick s)))"

text \<open>The state for a block that is given by its time; more than a second leaves the state.\<close>

definition state_for_time :: "rat \<Rightarrow> string option" where
  "state_for_time t =
     (if t \<le> 1 / 10 then Some ''c0_p11'' else if t \<le> 2 / 10 then Some ''c0_p10'' else if t \<le> 3 / 10 then Some ''c0_p9''
      else if t \<le> 4 / 10 then Some ''c0_p7'' else if t \<le> 5 / 10 then Some ''c0_p6'' else if t \<le> 6 / 10 then Some ''c0_p5''
      else if t \<le> 7 / 10 then Some ''c0_p4'' else if t \<le> 8 / 10 then Some ''c0_p2'' else if t \<le> 9 / 10 then Some ''c0_p1''
      else if t \<le> 1 then Some ''c0_p0'' else None)"

definition cpu_block :: "cpu_fields \<Rightarrow> message \<Rightarrow> message" where
  "cpu_block c sm = sm\<lparr>payload := CpuPayload c\<rparr>"

definition co_schedule :: "rat \<Rightarrow> core_timer \<Rightarrow> message \<Rightarrow> cpu_core \<Rightarrow> cpu_core" where
  "co_schedule t timer sm s = s\<lparr>co_pending := Some sm, co_agenda := co_agenda s @ [(t, timer)]\<rparr>"

text \<open>A block given by its time: all of it, which leaves the time in the block, or a slice.\<close>

definition time_block :: "rat \<Rightarrow> cpu_fields \<Rightarrow> message \<Rightarrow> core_pump" where
  "time_block now c sm s =
     bind_res (case state_for_time (cpuTime c) of None \<Rightarrow> Ok s | Some st \<Rightarrow> co_changeState st now s) (\<lambda>s.
       if quantum c = INFINITE_QUANTUM \<or> of_int (quantum c) * co_tick s > cpuTime c then
         bind_res (getMaximumTimeToExecute (cpuTime c) s) (\<lambda>t. Ok (co_schedule (now + t) BlockFinished (cpu_block c sm) s))
       else let t = co_tick s * of_int (quantum c)
            in Ok (co_schedule (now + t) BlockFinished (cpu_block (executeTime t c) sm) s))"

text \<open>
  A block given by its instructions.  A time of more than a second is cut by one second, and the core
  goes on with the block after the rest.
\<close>

definition run_block :: "rat \<Rightarrow> cpu_fields \<Rightarrow> message \<Rightarrow> core_pump" where
  "run_block now c sm s =
     (if co_currentTime s \<le> 1 then Ok (co_schedule (now + co_currentTime s) BlockFinished (cpu_block c sm) s)
      else bind_res (co_changeDeviceState INCREMENT_SPEED now s) (\<lambda>s.
             let s = s\<lparr>co_currentTime := co_currentTime s - 1\<rparr>
             in Ok (co_schedule (now + co_currentTime s) ContinueExecuting (cpu_block c sm) s)))"

definition long_block :: "rat \<Rightarrow> cpu_fields \<Rightarrow> message \<Rightarrow> core_pump" where
  "long_block now c sm s = (if co_executing s then run_block now c sm s
     else bind_res (getTimeToExecuteCompletely (remainingMIs c) s) (\<lambda>t.
            run_block now (executeMIs (int (remainingMIs c)) c) sm (s\<lparr>co_currentTime := t\<rparr>)))"

definition instruction_block :: "rat \<Rightarrow> cpu_fields \<Rightarrow> message \<Rightarrow> core_pump" where
  "instruction_block now c sm s =
     (if quantum c = INFINITE_QUANTUM then long_block now c sm s
      else if co_ipt s = 0 then Fail Undefined
      else if quantum c \<ge> int (remainingMIs c) div co_ipt s then long_block now c sm s
      else Ok (co_schedule (now + co_tick s * of_int (quantum c)) BlockFinished
             (cpu_block (executeMIs (co_ipt s * quantum c) c) sm) s))"

definition co_processRequestMessage :: "rat \<Rightarrow> message \<Rightarrow> core_pump" where
  "co_processRequestMessage now sm s = (case cast_cpu sm of
     None \<Rightarrow> Fail (Thrown ''check_and_cast'')
   | Some c \<Rightarrow>
       if operation sm \<noteq> SM_CHANGE_CPU_STATE then
         (if co_pstate s = 0 then Fail (Thrown ''processRequestMessage'')
          else if co_pending s \<noteq> None then Fail (Thrown ''showErrorMessage'')
          else if cpuTime c > 0 then time_block now c sm s
          else instruction_block now c sm s)
       else bind_res (co_changeDeviceState (changing_state sm) now s) (\<lambda>s. Ok (emit (Deleted sm) s)))"

definition co_processResponseMessage :: "message \<Rightarrow> core_pump" where
  "co_processResponseMessage sm s = Fail (Thrown ''showErrorMessage'')"

definition co_processSelfMessage :: "rat \<Rightarrow> core_pump \<Rightarrow> core_timer \<Rightarrow> core_pump" where
  "co_processSelfMessage now pump timer s = (case co_pending s of
     None \<Rightarrow> Fail (Thrown ''check_and_cast'')
   | Some sm \<Rightarrow> (case timer of
       BlockFinished \<Rightarrow>
         if cast_cpu sm = None then Fail (Thrown ''check_and_cast'')
         else bind_res (sendResponseMessage pump (sm\<lparr>isResponse := True\<rparr>) (s\<lparr>co_pending := None\<rparr>)) (\<lambda>s.
                Ok (s\<lparr>co_currentTime := 0, co_executing := False\<rparr>))
     | ContinueExecuting \<Rightarrow> co_processRequestMessage now sm (s\<lparr>co_pending := None, co_executing := True\<rparr>)))"

datatype core_event = CoreArrives rat message | CoreDue nat

definition core_pump_at :: "rat \<Rightarrow> core_pump" where
  "core_pump_at now = processCurrentRequestMessage (\<lambda>_. co_processRequestMessage now)"

definition co_event :: "(message \<Rightarrow> int option) \<Rightarrow> core_event \<Rightarrow> core_pump" where
  "co_event og ev s = (case ev of
     CoreArrives now sm \<Rightarrow>
       if \<not> isResponse sm then bind_res (updateMessageTrace og sm s) (\<lambda>(sm, s).
         core_pump_at now (s\<lparr>queue := queue s @ [sm]\<rparr>))
       else co_processResponseMessage sm s
   | CoreDue k \<Rightarrow>
       if k < length (co_agenda s)
       then (case co_agenda s ! k of (now, timer) \<Rightarrow>
              co_processSelfMessage now (core_pump_at now) timer (s\<lparr>co_agenda := remove_at k (co_agenda s)\<rparr>))
       else Ok s)"

section \<open>The time of a block\<close>

definition core_ready :: "cpu_core \<Rightarrow> bool" where
  "core_ready s \<longleftrightarrow> queue s = [] \<and> \<not> latencyScheduled s \<and> 1 \<le> co_pstate s \<and> co_pstate s \<le> 12 \<and>
     meter_ready (co_index s) (set PStates) (cc_hw (co_ctl s))"

lemma PStates_index: "k < 13 \<Longrightarrow> index_of (\<lambda>n. n = PStates ! k) PStates = Some k"
proof -
  assume k: "k < 13"
  have d: "distinct PStates" and l: "length PStates = 13" by (simp_all add: PStates_def)
  show ?thesis using k nth_eq_iff_index_eq[OF d] by (auto simp: index_of_Some l)
qed

lemma ready_states:
  assumes "meter_ready i (set PStates) h"
  shows "\<exists>n. e_getStatesSize i h = Ok n \<and> 2 \<le> n"
proof -
  let ?names = "map es_state (ms_states (hw_meters h ! i))"
  have "set PStates \<subseteq> set ?names" and i: "i < length (hw_meters h)" using assms by (auto simp: meter_ready_def)
  then have "card (set PStates) \<le> card (set ?names)" by (intro card_mono) auto
  also have "\<dots> \<le> length ?names" by (rule card_length)
  finally have "card (set PStates) \<le> length ?names" .
  moreover have "card (set PStates) = 13" by (simp add: PStates_def)
  ultimately show ?thesis using i by (simp add: e_getStatesSize_def read_meter_def getStatesSize_def)
qed

text \<open>An increase of the speed.\<close>

lemma increment_ready:
  assumes "core_ready s"
  shows "\<exists>cs ipt c. co_changeDeviceState INCREMENT_SPEED now s = Ok (s\<lparr>co_nodeState := MACHINE_STATE_RUNNING,
      co_current_speed := cs, co_pstate := min 12 (co_pstate s + 1), co_ipt := ipt, co_ctl := c\<rparr>) \<and>
      meter_ready (co_index s) (set PStates) (cc_hw c)"
proof -
  have names: "INCREMENT_SPEED \<noteq> MACHINE_STATE_IDLE" "INCREMENT_SPEED \<noteq> MACHINE_STATE_RUNNING" "INCREMENT_SPEED \<noteq> MACHINE_STATE_OFF"
    by (simp_all add: INCREMENT_SPEED_def MACHINE_STATE_IDLE_def MACHINE_STATE_RUNNING_def MACHINE_STATE_OFF_def)
  have m: "meter_ready (co_index s) (set PStates) (cc_hw (co_ctl s))" using assms by (simp add: core_ready_def)
  show ?thesis
  proof (cases "co_pstate s < 12")
    case False
    then have "co_pstate s = 12" using assms by (simp add: core_ready_def)
    then show ?thesis using m names
      by (intro exI[of _ "co_current_speed s"] exI[of _ "co_ipt s"] exI[of _ "co_ctl s"]) (cases s; simp add: co_changeDeviceState_def)
  next
    case True
    let ?k = "co_pstate s + 1"
    have k: "?k < 13" using True by simp
    moreover have "length PStates = 13" by (simp add: PStates_def)
    ultimately have in_states: "PStates ! ?k \<in> set PStates" by (intro nth_mem) simp
    from ready_states[OF m] obtain n where n: "e_getStatesSize (co_index s) (cc_hw (co_ctl s)) = Ok n" "2 \<le> n" by blast
    from n(2) obtain r where r: "relation_speed (co_speed s) n = Ok r" by (auto simp: relation_speed_def Let_def)
    from cc_change_ready[OF m in_states, of now] obtain h
      where h: "cc_changeState (PStates ! ?k) now (co_index s) (co_ctl s) = Ok ((co_ctl s)\<lparr>cc_hw := h\<rparr>)"
        "meter_ready (co_index s) (set PStates) h" by blast
    let ?cs = "of_nat (co_speed s) - of_nat r * of_nat (12 - ?k) :: rat"
    have mn: "min 12 ?k = ?k" using True by simp
    show ?thesis unfolding mn using True names n(1) r h PStates_index[OF k]
      by (intro exI[of _ ?cs] exI[of _ "trunc_int (?cs * co_tick s)"] exI[of _ "(co_ctl s)\<lparr>cc_hw := h\<rparr>"])
        (simp add: co_changeDeviceState_def co_changeState_def Let_def calculateIPT_def)
  qed
qed

definition block_message :: "message \<Rightarrow> cpu_fields \<Rightarrow> bool" where
  "block_message m f \<longleftrightarrow> payload m = CpuPayload f \<and> operation m \<noteq> SM_CHANGE_CPU_STATE \<and> cpuTime f \<le> 0 \<and>
     quantum f = INFINITE_QUANTUM"

text \<open>The core goes on with the block \<open>m\<close> at the time \<open>t\<close> when \<open>c\<close> seconds are left.\<close>

definition continues :: "message \<Rightarrow> rat \<Rightarrow> rat \<Rightarrow> cpu_core \<Rightarrow> bool" where
  "continues m c t s \<longleftrightarrow> core_ready s \<and> co_agenda s = [(t, ContinueExecuting)] \<and> co_pending s = Some m \<and> co_currentTime s = c"

definition finishes :: "message \<Rightarrow> rat \<Rightarrow> cpu_core \<Rightarrow> bool" where
  "finishes m t s \<longleftrightarrow> core_ready s \<and> co_agenda s = [(t, BlockFinished)] \<and> co_pending s = Some m"

lemma cpu_block_same: "payload m = CpuPayload f \<Longrightarrow> cpu_block f m = m"
  by (cases m) (simp add: cpu_block_def)

lemma run_block_ready:
  assumes "core_ready s" "co_agenda s = []"
  shows "\<exists>s'. run_block now f m s = Ok s' \<and> outbox s' = outbox s \<and>
    (if co_currentTime s \<le> 1 then finishes (cpu_block f m) (now + co_currentTime s) s' \<and> co_pstate s' = co_pstate s
     else continues (cpu_block f m) (co_currentTime s - 1) (now + (co_currentTime s - 1)) s' \<and>
       co_pstate s' = min 12 (co_pstate s + 1))"
proof (cases "co_currentTime s \<le> 1")
  case True
  then show ?thesis using assms by (auto simp: run_block_def co_schedule_def finishes_def core_ready_def)
next
  case False
  from increment_ready[OF assms(1), of now] obtain cs ipt c where
    i: "co_changeDeviceState INCREMENT_SPEED now s = Ok (s\<lparr>co_nodeState := MACHINE_STATE_RUNNING,
      co_current_speed := cs, co_pstate := min 12 (co_pstate s + 1), co_ipt := ipt, co_ctl := c\<rparr>)"
      "meter_ready (co_index s) (set PStates) (cc_hw c)" by blast
  show ?thesis using assms False i
    by (auto simp: run_block_def co_schedule_def continues_def core_ready_def Let_def)
qed

lemma continue_step:
  assumes "block_message m f" "continues m c t s"
  shows "\<exists>s'. co_event og (CoreDue 0) s = Ok s' \<and> outbox s' = outbox s \<and>
    (if c \<le> 1 then finishes m (t + c) s' \<and> co_pstate s' = co_pstate s
     else continues m (c - 1) (t + (c - 1)) s' \<and> co_pstate s' = min 12 (co_pstate s + 1))"
proof -
  let ?u = "s\<lparr>co_agenda := [], co_pending := None, co_executing := True\<rparr>"
  have u: "core_ready ?u" "co_pstate s \<noteq> 0" using assms(2) by (simp_all add: continues_def core_ready_def)
  have "co_event og (CoreDue 0) s = run_block t f m ?u"
    using assms u(2) by (simp add: co_event_def continues_def co_processSelfMessage_def co_processRequestMessage_def
        block_message_def cast_cpu_def instruction_block_def long_block_def)
  moreover have "co_agenda ?u = []" "co_currentTime ?u = c" "outbox ?u = outbox s" "co_pstate ?u = co_pstate s"
    using assms(2) by (simp_all add: continues_def)
  moreover have "cpu_block f m = m" using assms(1) by (simp add: cpu_block_same block_message_def)
  ultimately show ?thesis using run_block_ready[OF u(1), of t f m] by metis
qed

lemma finish_step:
  assumes "block_message m f" "finishes m t s"
    and "getLastGateId (msg_trace m) = Ok g" "removeLastModuleFromTrace (msg_trace m) = Ok tr"
  shows "\<exists>s'. co_event og (CoreDue 0) s = Ok s' \<and> co_agenda s' = [] \<and> co_pending s' = None \<and> co_pstate s' = co_pstate s \<and>
     outbox s' = outbox s @ [Sent (m\<lparr>isResponse := True, msg_trace := tr\<rparr>) (ViaGateId g)]"
  using assms by (simp add: co_event_def finishes_def core_ready_def co_processSelfMessage_def cast_cpu_def block_message_def
      sendResponseMessage_def core_pump_at_def emit_def)

text \<open>The next \<open>n\<close> timers of a core, and the time of the last one.\<close>

fun next_timers :: "(message \<Rightarrow> int option) \<Rightarrow> nat \<Rightarrow> rat \<Rightarrow> cpu_core \<Rightarrow> (rat \<times> cpu_core) res" where
  "next_timers og 0 t s = Ok (t, s)"
| "next_timers og (Suc n) t s = (case co_agenda s of [] \<Rightarrow> Fail Undefined
     | (now, _) # _ \<Rightarrow> bind_res (co_event og (CoreDue 0) s) (next_timers og n now))"

lemma continued_block:
  assumes "block_message m f" "getLastGateId (msg_trace m) = Ok g" "removeLastModuleFromTrace (msg_trace m) = Ok tr"
    and "0 < r" "r \<le> 1"
  shows "continues m (r + of_nat k) t s \<Longrightarrow> \<exists>s'. next_timers og (k + 2) t0 s =
     Ok (t + of_nat (k + 1) * r + of_nat k * (of_nat k - 1) / 2, s') \<and> co_agenda s' = [] \<and> co_pending s' = None \<and>
     co_pstate s' = min 12 (co_pstate s + k) \<and>
     outbox s' = outbox s @ [Sent (m\<lparr>isResponse := True, msg_trace := tr\<rparr>) (ViaGateId g)]"
proof (induction k arbitrary: t t0 s)
  case 0
  with continue_step[OF assms(1), of r t s og] assms(5) obtain u where u: "co_event og (CoreDue 0) s = Ok u"
    "outbox u = outbox s" "finishes m (t + r) u" "co_pstate u = co_pstate s" by auto
  from finish_step[OF assms(1) u(3) assms(2,3), of og] obtain s' where "co_event og (CoreDue 0) u = Ok s'" "co_agenda s' = []"
    "co_pending s' = None" "co_pstate s' = co_pstate u"
    "outbox s' = outbox u @ [Sent (m\<lparr>isResponse := True, msg_trace := tr\<rparr>) (ViaGateId g)]" by blast
  with u 0 show ?case by (simp add: continues_def finishes_def numeral_2_eq_2 core_ready_def)
next
  case (Suc k)
  have "\<not> r + of_nat (Suc k) \<le> 1" using assms(4) by simp
  with continue_step[OF assms(1) Suc.prems, of og] obtain u where u: "co_event og (CoreDue 0) s = Ok u" "outbox u = outbox s"
    "continues m (r + of_nat k) (t + (r + of_nat k)) u" "co_pstate u = min 12 (co_pstate s + 1)" by (auto simp: algebra_simps)
  from Suc.IH[OF u(3), of t] obtain s' where s': "next_timers og (k + 2) t u =
     Ok (t + (r + of_nat k) + of_nat (k + 1) * r + of_nat k * (of_nat k - 1) / 2, s')" "co_agenda s' = []" "co_pending s' = None"
     "co_pstate s' = min 12 (co_pstate u + k)"
     "outbox s' = outbox u @ [Sent (m\<lparr>isResponse := True, msg_trace := tr\<rparr>) (ViaGateId g)]" by blast
  have "rat_of_nat (Suc k) = rat_of_nat k + 1" "rat_of_nat (k + 1) = rat_of_nat k + 1" "rat_of_nat (Suc k + 1) = rat_of_nat k + 2"
    by simp_all
  then have time: "t + (r + of_nat k) + of_nat (k + 1) * r + of_nat k * (of_nat k - 1) / 2 =
    t + of_nat (Suc k + 1) * r + of_nat (Suc k) * (of_nat (Suc k) - 1) / 2" by (simp only:) (simp add: field_simps)
  have "next_timers og (Suc k + 2) t0 s = next_timers og (k + 2) t u"
    using Suc.prems u(1) by (simp add: continues_def)
  with s'(1) have "next_timers og (Suc k + 2) t0 s =
     Ok (t + of_nat (Suc k + 1) * r + of_nat (Suc k) * (of_nat (Suc k) - 1) / 2, s')" by (simp only: time)
  moreover have "co_pstate s' = min 12 (co_pstate s + Suc k)" using s'(4) u(4) by linarith
  moreover have "outbox s' = outbox s @ [Sent (m\<lparr>isResponse := True, msg_trace := tr\<rparr>) (ViaGateId g)]" using s'(5) u(2) by simp
  ultimately show ?case using s'(2,3) by blast
qed

lemma core_arrives:
  assumes "queue s = []" "\<not> latencyScheduled s" "\<not> isResponse sm" "updateMessageTrace og sm s = Ok (m, u)"
  shows "co_event og (CoreArrives now sm) s = co_processRequestMessage now m u"
proof -
  have q: "queue u = []" "\<not> latencyScheduled u" using updateMessageTrace_frame[OF assms(4)] assms(1,2) by simp_all
  have same: "u\<lparr>queue := []\<rparr> = u" using q(1) by (cases u) simp
  show ?thesis using assms(3,4) q
    by (simp add: co_event_def core_pump_at_def processCurrentRequestMessage_def isPendingRequest_def same)
qed

lemma executeMIs_all: "executeMIs (int (remainingMIs f)) f = f\<lparr>remainingMIs := 0\<rparr>"
proof -
  have "to_unsigned (int n - to_unsigned (int n)) = 0" for n by (simp add: to_unsigned_def)
  then show ?thesis by (simp add: executeMIs_def Let_def to_signed_def)
qed

text \<open>
  C6: A block of \<open>r + n\<close> seconds, \<open>n\<close> whole seconds and a rest of at most one, is answered after
  \<open>(n + 1) * r + n * (n - 1) / 2\<close> seconds.
\<close>

theorem core_block_time:
  assumes "core_ready s" "co_agenda s = []" "co_pending s = None" "\<not> co_executing s"
    and "payload sm = CpuPayload f" "operation sm \<noteq> SM_CHANGE_CPU_STATE" "\<not> isResponse sm" "msg_trace sm \<noteq> []"
    and "cpuTime f \<le> 0" "quantum f = INFINITE_QUANTUM"
    and "getTimeToExecuteCompletely (remainingMIs f) s = Ok (r + of_nat n)" "0 < r" "r \<le> 1"
  shows "\<exists>s1 s2. co_event og (CoreArrives now sm) s = Ok s1 \<and>
    next_timers og (n + 1) now s1 = Ok (now + of_nat (n + 1) * r + of_nat n * (of_nat n - 1) / 2, s2) \<and>
    co_agenda s2 = [] \<and> co_pending s2 = None \<and> co_pstate s2 = min 12 (co_pstate s + n) \<and>
    outbox s2 = outbox s @ [Sent (sm\<lparr>isResponse := True, payload := CpuPayload (f\<lparr>remainingMIs := 0\<rparr>)\<rparr>)
      (ViaGateId (case og sm of None \<Rightarrow> NO_GATE_ID | Some g \<Rightarrow> g))]"
proof -
  let ?g = "case og sm of None \<Rightarrow> NO_GATE_ID | Some g \<Rightarrow> g" and ?f = "f\<lparr>remainingMIs := 0\<rparr>"
  from assms(8) obtain t where t: "addModuleToTrace (module_id s) ?g (currentRequest s) (msg_trace sm) = Ok t"
    by (auto simp: addModuleToTrace_def)
  let ?m = "sm\<lparr>msg_trace := t\<rparr>" and ?u = "s\<lparr>currentRequest := Suc (currentRequest s)\<rparr>"
  let ?b = "cpu_block ?f ?m" and ?v = "s\<lparr>currentRequest := Suc (currentRequest s), co_currentTime := r + of_nat n\<rparr>"
  let ?sent = "[Sent (?b\<lparr>isResponse := True, msg_trace := msg_trace sm\<rparr>) (ViaGateId ?g)]"
  have up: "updateMessageTrace og sm s = Ok (?m, ?u)" by (simp add: updateMessageTrace_def t)
  have q: "queue s = []" "\<not> latencyScheduled s" "co_pstate s \<noteq> 0" using assms(1) by (simp_all add: core_ready_def)
  have "getTimeToExecuteCompletely (remainingMIs f) ?u = getTimeToExecuteCompletely (remainingMIs f) s"
    by (simp add: getTimeToExecuteCompletely_def)
  with assms(11) have time: "getTimeToExecuteCompletely (remainingMIs f) ?u = Ok (r + of_nat n)" by simp
  have v: "core_ready ?v" "co_agenda ?v = []" using assms(1,2) by (simp_all add: core_ready_def)
  have vf: "co_currentTime ?v = r + of_nat n" "outbox ?v = outbox s" "co_pstate ?v = co_pstate s" by simp_all
  have arrives: "co_event og (CoreArrives now sm) s = run_block now ?f ?m ?v"
    using assms(3-6,9,10) q time core_arrives[OF q(1,2) assms(7) up]
    by (simp add: co_processRequestMessage_def cast_cpu_def instruction_block_def long_block_def executeMIs_all)
  have block: "block_message ?b ?f" using assms(6,9,10) by (simp add: block_message_def cpu_block_def)
  have tr: "getLastGateId (msg_trace ?b) = Ok ?g" "removeLastModuleFromTrace (msg_trace ?b) = Ok (msg_trace sm)"
    using addModule_lastGate[OF t] addModule_removeModule[OF t] by (simp_all add: cpu_block_def)
  have "?b\<lparr>isResponse := True, msg_trace := msg_trace sm\<rparr> = sm\<lparr>isResponse := True, payload := CpuPayload ?f\<rparr>"
    by (cases sm) (simp add: cpu_block_def)
  then have out: "?sent = [Sent (sm\<lparr>isResponse := True, payload := CpuPayload ?f\<rparr>) (ViaGateId ?g)]" by simp
  obtain s1 where s1: "run_block now ?f ?m ?v = Ok s1" "outbox s1 = outbox s"
    "if r + of_nat n \<le> 1 then finishes ?b (now + (r + of_nat n)) s1 \<and> co_pstate s1 = co_pstate s
     else continues ?b (r + of_nat n - 1) (now + (r + of_nat n - 1)) s1 \<and> co_pstate s1 = min 12 (co_pstate s + 1)"
    using run_block_ready[OF v, of now ?f ?m] unfolding vf by blast
  show ?thesis
  proof (cases n)
    case 0
    with s1(3) assms(13) have fin: "finishes ?b (now + r) s1" "co_pstate s1 = co_pstate s" by auto
    from finish_step[OF block fin(1) tr, of og] obtain s2 where s2: "co_event og (CoreDue 0) s1 = Ok s2" "co_agenda s2 = []"
      "co_pending s2 = None" "co_pstate s2 = co_pstate s1" "outbox s2 = outbox s1 @ ?sent" by blast
    have "next_timers og (n + 1) now s1 = Ok (now + r, s2)" using s2(1) fin(1) by (simp add: 0 finishes_def)
    moreover have "co_pstate s2 = min 12 (co_pstate s + n)" using s2(4) fin(2) assms(1) by (simp add: 0 core_ready_def)
    ultimately show ?thesis unfolding arrives s1(1) out[symmetric] using s2(2,3,5) s1(2) by (simp add: 0)
  next
    case (Suc k)
    have "\<not> r + of_nat n \<le> 1" using assms(12) by (simp add: Suc)
    with s1(3) have c: "continues ?b (r + of_nat k) (now + (r + of_nat k)) s1" "co_pstate s1 = min 12 (co_pstate s + 1)"
      by (simp_all add: Suc)
    from continued_block[OF block tr assms(12,13) c(1), of og now] obtain s2 where
      s2: "next_timers og (k + 2) now s1 = Ok (now + (r + of_nat k) + of_nat (k + 1) * r + of_nat k * (of_nat k - 1) / 2, s2)"
        "co_agenda s2 = []" "co_pending s2 = None" "co_pstate s2 = min 12 (co_pstate s1 + k)" "outbox s2 = outbox s1 @ ?sent" by blast
    have "rat_of_nat (Suc k) = rat_of_nat k + 1" "rat_of_nat (k + 1) = rat_of_nat k + 1" "rat_of_nat (Suc k + 1) = rat_of_nat k + 2"
      by simp_all
    then have "now + (r + of_nat k) + of_nat (k + 1) * r + of_nat k * (of_nat k - 1) / 2 =
      now + of_nat (n + 1) * r + of_nat n * (of_nat n - 1) / 2" unfolding Suc by (simp only:) (simp add: field_simps)
    moreover have "k + 2 = n + 1" by (simp add: Suc)
    ultimately have "next_timers og (n + 1) now s1 = Ok (now + of_nat (n + 1) * r + of_nat n * (of_nat n - 1) / 2, s2)"
      using s2(1) by (simp only:)
    moreover have "co_pstate s2 = min 12 (co_pstate s + n)" using s2(4) c(2) Suc by linarith
    moreover have "outbox s2 = outbox s @ ?sent" using s2(5) s1(2) by simp
    ultimately show ?thesis unfolding arrives s1(1) out[symmetric] using s2(2,3) by blast
  qed
qed

subsection \<open>A core of 1000 MIPS in its second state\<close>

definition sample_core :: cpu_core where
  "sample_core = \<lparr>queue = [], outbox = [], currentRequest = 0, latencyScheduled = False, module_id = 7, host_name = ''n0'',
     co_index = 0, co_speed = 1000, co_tick = 1 / 10, co_current_speed = 500, co_currentTime = 0, co_executing = False,
     co_ipt = 50, co_pstate = 2, co_nodeState = MACHINE_STATE_RUNNING, co_pending = None,
     co_ctl = \<lparr>cc_hw = \<lparr>hw_meters = [new_meter_states\<lparr>ms_states := map (\<lambda>n. new_state n 1) PStates, ms_actual := ''c0_p10'',
         ms_pos := 2\<rparr>], hw_components = 1, hw_memo = False\<rparr>, cc_independent = True, cc_numCPUs = 1, cc_cores = [Some 7]\<rparr>,
     co_agenda = []\<rparr>"

definition sample_fields :: cpu_fields where
  "sample_fields = \<lparr>cpuTime = 0, totalMIs = 5000, remainingMIs = 5000, quantum = INFINITE_QUANTUM\<rparr>"

definition sample_block :: message where
  "sample_block = (new_cpu_message 1)\<lparr>operation := 3, payload := CpuPayload sample_fields, msg_trace := [(''n0'', [])]\<rparr>"

lemma sample_core_ready: "core_ready sample_core"
  by (simp add: core_ready_def sample_core_def meter_ready_def started_def new_meter_states_def new_state_def PStates_def)

lemma sample_core_fields: "co_agenda sample_core = []" "co_pending sample_core = None" "co_executing sample_core = False"
  "co_ipt sample_core = 50" "co_tick sample_core = 1 / 10" "co_pstate sample_core = 2" "outbox sample_core = []"
  by (simp_all add: sample_core_def)

text \<open>5000 million instructions at 500 per second are 10 seconds of work; the answer comes after 46.\<close>

lemma core_block_time_witness:
  "\<exists>s1 s2. co_event (\<lambda>_. Some 9) (CoreArrives 0 sample_block) sample_core = Ok s1 \<and>
     next_timers (\<lambda>_. Some 9) 10 0 s1 = Ok (46, s2) \<and> co_pending s2 = None \<and> co_pstate s2 = 11 \<and> length (outbox s2) = 1"
proof -
  have m: "payload sample_block = CpuPayload sample_fields" "operation sample_block \<noteq> SM_CHANGE_CPU_STATE"
    "\<not> isResponse sample_block" "msg_trace sample_block \<noteq> []"
    by (simp_all add: sample_block_def new_cpu_message_def SM_CHANGE_CPU_STATE_def)
  have f: "cpuTime sample_fields \<le> 0" "quantum sample_fields = INFINITE_QUANTUM" "remainingMIs sample_fields = 5000"
    by (simp_all add: sample_fields_def)
  have t: "getTimeToExecuteCompletely (remainingMIs sample_fields) sample_core = Ok (1 + of_nat 9)"
    by (simp add: getTimeToExecuteCompletely_def sample_core_fields f)
  from core_block_time[OF sample_core_ready sample_core_fields(1,2) _ m f(1,2) t, of "\<lambda>_. Some 9" 0]
  show ?thesis by (auto simp: sample_core_fields simp del: next_timers.simps)
qed

end
