(* ===== verification/BlockLists.thy ===== *)
theory BlockLists imports IoMessages ModuleBase begin

text \<open>
  Files as lists of branches, and the block list messages that ask for them (\<^verbatim>\<open>icancloud_File\<close> and
  \<^verbatim>\<open>icancloud_BlockList_Message\<close> in \<^verbatim>\<open>src/src/Base/Messages\<close>).

  Offsets and sizes of branches are \<^verbatim>\<open>unsigned long long\<close>, the size of a file is \<^verbatim>\<open>unsigned int\<close>.
\<close>

type_synonym u64 = "64 word"

definition BYTES_PER_SECTOR :: nat where "BYTES_PER_SECTOR = 512"

subsection \<open>Files\<close>

text \<open>The size of a file that is new is not set; it is 0 here.\<close>

definition new_file :: icancloud_file where "new_file = \<lparr>fi_name = [], fi_size = 0, fi_branches = []\<rparr>"

definition getNumberOfBranches :: "icancloud_file \<Rightarrow> nat" where
  "getNumberOfBranches f = length (fi_branches f)"

definition getBranchSize :: "nat \<Rightarrow> icancloud_file \<Rightarrow> u64 res" where
  "getBranchSize n f = (if n < getNumberOfBranches f then Ok (br_numBlocks (fi_branches f ! n)) else Fail (Thrown ''getBranchSize''))"

definition getBranchOffset :: "nat \<Rightarrow> icancloud_file \<Rightarrow> u64 res" where
  "getBranchOffset n f = (if n < getNumberOfBranches f then Ok (br_offset (fi_branches f ! n)) else Fail (Thrown ''getBranchOffset''))"

definition getTotalSectors :: "icancloud_file \<Rightarrow> u64" where
  "getTotalSectors f = fold (\<lambda>b n. n + br_numBlocks b) (fi_branches f) 0"

definition updateFileSize :: "icancloud_file \<Rightarrow> icancloud_file" where
  "updateFileSize f = f\<lparr>fi_size := ucast (getTotalSectors f * 512)\<rparr>"

definition addBranch :: "u64 \<Rightarrow> u64 \<Rightarrow> icancloud_file \<Rightarrow> icancloud_file" where
  "addBranch off n f = updateFileSize (f\<lparr>fi_branches := fi_branches f @ [\<lparr>br_offset = off, br_numBlocks = n\<rparr>]\<rparr>)"

definition addBlock :: "u64 \<Rightarrow> u32 \<Rightarrow> icancloud_file \<Rightarrow> icancloud_file res" where
  "addBlock sector blockSize f = (let sectorsPerBlock = ucast (blockSize div 512) :: u64
     in if sectorsPerBlock = 0 then Fail Undefined
        else Ok (updateFileSize (addBranch (sector div sectorsPerBlock * sectorsPerBlock) sectorsPerBlock f)))"

definition containThisSector :: "u64 \<Rightarrow> icancloud_file \<Rightarrow> bool" where
  "containThisSector sector f \<longleftrightarrow>
     index_of (\<lambda>b. br_offset b \<le> sector \<and> sector < br_offset b + br_numBlocks b) (fi_branches f) \<noteq> None"

definition clearBranchList :: "icancloud_file \<Rightarrow> icancloud_file" where
  "clearBranchList f = updateFileSize (f\<lparr>fi_branches := []\<rparr>)"

subsection \<open>Block list messages\<close>

definition cast_blocks :: "message \<Rightarrow> icancloud_file option" where
  "cast_blocks m = (case cast_io m of None \<Rightarrow> None | Some i \<Rightarrow> io_blocks i)"

definition no_nfs :: nfs_fields where
  "no_nfs = \<lparr>nfs_destAddress = [], nfs_destPort = -1, nfs_type = [], nfs_requestSize_KB = -1, nfs_connectionID = -1\<rparr>"

definition new_io_fields :: io_fields where
  "new_io_fields = \<lparr>io_fileName = [], io_offset = 0, io_size = 0, io_nfs = no_nfs, io_nfs_id = -1, io_blocks = None\<rparr>"

definition set_io :: "io_fields \<Rightarrow> message \<Rightarrow> message" where
  "set_io i m = m\<lparr>payload := IoPayload i\<rparr>"

definition set_blocks :: "icancloud_file \<Rightarrow> message \<Rightarrow> message" where
  "set_blocks f m = (case cast_io m of None \<Rightarrow> m | Some i \<Rightarrow> set_io (i\<lparr>io_blocks := Some f\<rparr>) m)"

text \<open>\<^verbatim>\<open>new icancloud_BlockList_Message ()\<close>.\<close>

definition empty_blocklist :: "int \<Rightarrow> message" where
  "empty_blocklist i = \<lparr>msg_id = i, payload = IoPayload (new_io_fields\<lparr>io_blocks := Some new_file\<rparr>), operation = 2 ^ 32 - 1,
     isResponse = False, remoteOperation = False, connectionId = -1, commId = -1,
     nextModuleIndex = 2 ^ 32 - 1, result_code = 0, uid = -1, pid = -1, arrival = ('''', 0),
     msg_trace = [], parentRequest = None, changing_state = '''', change_states_index = []\<rparr>"

text \<open>A block list message made from a request; its changing state and its NFS id are not taken over.\<close>

definition new_blocklist :: "int \<Rightarrow> io_fields \<Rightarrow> message \<Rightarrow> message" where
  "new_blocklist i io sm = sm\<lparr>msg_id := i, arrival := ('''', 0), changing_state := '''', change_states_index := [],
     payload := IoPayload (new_io_fields\<lparr>io_fileName := io_fileName io, io_offset := io_offset io, io_size := io_size io,
       io_nfs := io_nfs io, io_blocks := Some (new_file\<lparr>fi_name := io_fileName io\<rparr>)\<rparr>)\<rparr>"

text \<open>A copy of a block list message has no branches.\<close>

definition dup_blocklist :: "int \<Rightarrow> io_fields \<Rightarrow> message \<Rightarrow> message" where
  "dup_blocklist i io m = m\<lparr>msg_id := i, arrival := ('''', 0),
     payload := IoPayload (new_io_fields\<lparr>io_fileName := io_fileName io, io_offset := io_offset io, io_size := io_size io,
       io_nfs := io_nfs io, io_blocks := Some new_file\<rparr>)\<rparr>"

definition transformToApp_IO_Message :: "int \<Rightarrow> io_fields \<Rightarrow> message \<Rightarrow> message" where
  "transformToApp_IO_Message i io m = m\<lparr>msg_id := i, arrival := ('''', 0), changing_state := '''', change_states_index := [],
     payload := IoPayload (new_io_fields\<lparr>io_fileName := io_fileName io, io_offset := io_offset io, io_size := io_size io,
       io_nfs := io_nfs io\<rparr>)\<rparr>"

text \<open>
  The length after \<^verbatim>\<open>updateLength\<close>.  A remote message that is a response is long for a write and one
  that is not is long for a read.
\<close>

definition blocks_updateLength :: "message \<Rightarrow> nat res" where
  "blocks_updateLength m = (case cast_io m of None \<Rightarrow> Fail Undefined | Some i \<Rightarrow>
     (let short = nat MSG_INITIAL_LENGTH; op = operation m; writes = op \<in> {SM_WRITE_FILE, SM_CREATE_FILE, SM_DELETE_FILE};
          blocks = short + unat (fi_size (case io_blocks i of None \<Rightarrow> new_file | Some f \<Rightarrow> f))
      in if \<not> remoteOperation m then
           (if op = SM_READ_FILE then Ok (if isResponse m then blocks else short)
            else if writes then Ok (if isResponse m then short else blocks)
            else Fail (Thrown ''updateLength''))
         else if isResponse m then
           (if op = SM_READ_FILE then Ok short else if writes then Ok (short + io_size i) else Fail (Thrown ''updateLength''))
         else
           (if op = SM_READ_FILE then Ok (short + io_size i) else if op = SM_WRITE_FILE then Ok short
            else Fail (Thrown ''updateLength''))))"

subsection \<open>Sectors\<close>

text \<open>The sectors of a list of branches, in order.\<close>

definition branch_sectors :: "file_branch \<Rightarrow> nat list" where
  "branch_sectors b = [unat (br_offset b)..<unat (br_offset b) + unat (br_numBlocks b)]"

definition sectors :: "file_branch list \<Rightarrow> nat list" where
  "sectors bs = concat (map branch_sectors bs)"

lemma sectors_simps [simp]:
  "sectors [] = []" "sectors (b # bs) = branch_sectors b @ sectors bs" "sectors (as @ bs) = sectors as @ sectors bs"
  by (simp_all add: sectors_def)

lemma length_branch_sectors [simp]: "length (branch_sectors b) = unat (br_numBlocks b)"
  by (simp add: branch_sectors_def)

lemma length_sectors: "length (sectors bs) = sum_list (map (unat \<circ> br_numBlocks) bs)"
  by (induction bs) simp_all

lemma total_sectors_from:
  assumes "unat n + sum_list (map (unat \<circ> br_numBlocks) bs) < 2 ^ 64"
  shows "unat (fold (\<lambda>b n. n + br_numBlocks b) bs n) = unat n + sum_list (map (unat \<circ> br_numBlocks) bs)"
  using assms
proof (induction bs arbitrary: n)
  case (Cons b bs)
  have "unat (n + br_numBlocks b) = unat n + unat (br_numBlocks b)"
    using Cons.prems by (subst unat_add_lem[THEN iffD1]) auto
  with Cons show ?case by simp
qed simp

lemma getTotalSectors_length:
  "length (sectors (fi_branches f)) < 2 ^ 64 \<Longrightarrow> unat (getTotalSectors f) = length (sectors (fi_branches f))"
  by (simp add: getTotalSectors_def total_sectors_from length_sectors)

end
