(* ===== verification/FileSystems.thy ===== *)
theory FileSystems imports BlockLists begin

text \<open>
  The file systems of a node (\<^verbatim>\<open>Basic_FileSystem\<close> and \<^verbatim>\<open>Node_FileSystem\<close> in
  \<^verbatim>\<open>src/src/Architecture/NodeComponents/OperatingSystems/Storage/FileSystems\<close>): they keep the files, of
  all or of each user, answer the operations on them after a time, and turn reads and writes into block
  list messages for the disks.

  \<open>newId sm k\<close> is the id of the \<open>k\<close>-th message that is created while \<open>sm\<close> is handled.  The member
  \<^verbatim>\<open>latencyMessage\<close> of \<^verbatim>\<open>Node_FileSystem\<close> hides that of the base class, so the queue is always served.
\<close>

definition SM_DELETE_USER_FS :: int where "SM_DELETE_USER_FS = 9"
definition icancloud_ERROR :: int where "icancloud_ERROR = -1"
definition OPEN_TIME :: rat where "OPEN_TIME = 11 / 100000"
definition CLOSE_TIME :: rat where "CLOSE_TIME = 13 / 1000000"
definition CREATE_TIME :: rat where "CREATE_TIME = 16 / 1000000"

definition toVMGate :: "gate option" where "toVMGate = Some (''toVM'', 0)"

subsection \<open>Lists of files\<close>

definition searchFile :: "string \<Rightarrow> icancloud_file list \<Rightarrow> nat option" where
  "searchFile name files = index_of (\<lambda>f. fi_name f = name) files"

definition insertNewFile :: "u32 \<Rightarrow> string \<Rightarrow> icancloud_file list \<Rightarrow> icancloud_file list" where
  "insertNewFile fileSize name files = files @ [new_file\<lparr>fi_name := name, fi_size := fileSize\<rparr>]"

definition deleteFile :: "string \<Rightarrow> icancloud_file list \<Rightarrow> icancloud_file list" where
  "deleteFile name files = (case searchFile name files of None \<Rightarrow> files | Some i \<Rightarrow> remove_at i files)"

text \<open>The number of sectors is rounded down: the division is one of integers.\<close>

definition translateIORequests :: "io_fields \<Rightarrow> message \<Rightarrow> icancloud_file list \<Rightarrow> message res" where
  "translateIORequests io bl files = (case searchFile (io_fileName io) files of
     None \<Rightarrow> Fail (Thrown ''translateIORequests'')
   | Some _ \<Rightarrow> (case cast_blocks bl of None \<Rightarrow> Fail Undefined | Some f \<Rightarrow>
       let numSectors = word_of_nat (io_size io div BYTES_PER_SECTOR); f = addBranch 0 numSectors f
       in Ok (set_blocks (f\<lparr>fi_size := ucast (getTotalSectors f * 512)\<rparr>) bl)))"

text \<open>The message that changes the state of the disks.\<close>

definition state_blocks :: "int \<Rightarrow> io_fields \<Rightarrow> message \<Rightarrow> message" where
  "state_blocks i io sm = (new_blocklist i io sm)\<lparr>operation := SM_CHANGE_DISK_STATE, changing_state := changing_state sm,
     change_states_index := map (\<lambda>k. hd (change_states_index sm) + int k) [0..<length (change_states_index sm)]\<rparr>"

subsection \<open>The file system without users\<close>

record basic_fs = module_state +
  bf_files :: "icancloud_file list"
  bf_agenda :: "(rat \<times> message) list"

type_synonym basic_pump = "basic_fs \<Rightarrow> basic_fs res"

definition bf_initialize :: "module_state \<Rightarrow> basic_fs" where
  "bf_initialize b = \<lparr>queue = queue b, outbox = outbox b, currentRequest = currentRequest b,
     latencyScheduled = latencyScheduled b, module_id = module_id b, host_name = host_name b, bf_files = [], bf_agenda = []\<rparr>"

definition bf_later :: "rat \<Rightarrow> int \<Rightarrow> message \<Rightarrow> basic_fs \<Rightarrow> basic_fs" where
  "bf_later t code sm s = s\<lparr>bf_agenda := bf_agenda s @ [(t, sm\<lparr>isResponse := True, result_code := code\<rparr>)]\<rparr>"

definition bf_create :: "io_fields \<Rightarrow> icancloud_file list \<Rightarrow> icancloud_file list" where
  "bf_create io files = (let n = io_fileName io; files = (if searchFile n files \<noteq> None then deleteFile n files else files)
     in insertNewFile (word_of_nat (io_size io) * 1024) n files)"

text \<open>A read or a write; the error of a translation would be sent back.\<close>

definition bf_transfer ::
  "(message \<Rightarrow> nat \<Rightarrow> int) \<Rightarrow> (message \<Rightarrow> int option) \<Rightarrow> basic_pump \<Rightarrow> io_fields \<Rightarrow> message \<Rightarrow> basic_pump" where
  "bf_transfer newId og pump io sm s = (if io_size io = 0 then Fail (Thrown ''processIORequest'')
     else bind_res (translateIORequests io (new_blocklist (newId sm 0) io sm) (bf_files s)) (\<lambda>bl.
       if isResponse bl
       then sendResponseMessage pump (sm\<lparr>isResponse := True, result_code := result_code bl\<rparr>) (emit (Deleted bl) s)
       else sendRequestMessage og pump bl toVMGate (emit (Deleted sm) s)))"

definition bf_processIORequest ::
  "rat \<Rightarrow> (message \<Rightarrow> nat \<Rightarrow> int) \<Rightarrow> (message \<Rightarrow> int option) \<Rightarrow> basic_pump \<Rightarrow> message \<Rightarrow> basic_pump" where
  "bf_processIORequest now newId og pump sm s = (case cast_io sm of
     None \<Rightarrow> Fail (Thrown ''check_and_cast'')
   | Some io \<Rightarrow> let op = operation sm; n = io_fileName io in
       if op = SM_CHANGE_DISK_STATE then sendRequestMessage og pump (state_blocks (newId sm 0) io sm) toVMGate (emit (Deleted sm) s)
       else if op = SM_OPEN_FILE then
         (if searchFile n (bf_files s) = None then Fail (Thrown ''processIORequest'')
          else Ok (bf_later (OPEN_TIME + now) icancloud_OK sm s))
       else if op = SM_CLOSE_FILE then Ok (bf_later (CLOSE_TIME + now) icancloud_OK sm s)
       else if op = SM_CREATE_FILE then
         Ok (bf_later (CREATE_TIME + now) icancloud_OK sm (s\<lparr>bf_files := bf_create io (bf_files s)\<rparr>))
       else if op = SM_DELETE_FILE then
         Ok (bf_later (CLOSE_TIME + now) icancloud_OK sm (s\<lparr>bf_files := deleteFile n (bf_files s)\<rparr>))
       else if op \<in> {SM_READ_FILE, SM_WRITE_FILE} then bf_transfer newId og pump io sm s
       else Fail (Thrown ''showErrorMessage''))"

text \<open>A response becomes an I/O message again.\<close>

definition bf_processResponseMessage :: "(message \<Rightarrow> nat \<Rightarrow> int) \<Rightarrow> basic_pump \<Rightarrow> message \<Rightarrow> basic_pump" where
  "bf_processResponseMessage newId pump sm s = (case cast_io sm of
     None \<Rightarrow> Fail (Thrown ''check_and_cast'')
   | Some io \<Rightarrow> if io_blocks io = None then Fail (Thrown ''check_and_cast'')
       else sendResponseMessage pump (transformToApp_IO_Message (newId sm 0) io sm) (emit (Deleted sm) s))"

datatype fs_event = FsArrives rat message | FsDue nat

definition bf_pump :: "rat \<Rightarrow> (message \<Rightarrow> nat \<Rightarrow> int) \<Rightarrow> (message \<Rightarrow> int option) \<Rightarrow> basic_pump" where
  "bf_pump now newId og = processCurrentRequestMessage (bf_processIORequest now newId og)"

definition bf_event ::
  "(message \<Rightarrow> nat \<Rightarrow> int) \<Rightarrow> (message \<Rightarrow> int option) \<Rightarrow> fs_event \<Rightarrow> basic_pump" where
  "bf_event newId og ev s = (case ev of
     FsArrives now sm \<Rightarrow>
       if \<not> isResponse sm then bind_res (updateMessageTrace og sm s) (\<lambda>(sm, s). bf_pump now newId og (s\<lparr>queue := queue s @ [sm]\<rparr>))
       else bf_processResponseMessage newId (bf_pump now newId og) sm s
   | FsDue k \<Rightarrow>
       if k < length (bf_agenda s)
       then (case bf_agenda s ! k of (now, sm) \<Rightarrow>
              sendResponseMessage (bf_pump now newId og) sm (s\<lparr>bf_agenda := remove_at k (bf_agenda s)\<rparr>))
       else Ok s)"

subsection \<open>The file system of each user\<close>

record node_fs = module_state +
  nf_users :: "(int \<times> icancloud_file list) list"
  nf_pending :: "(message \<times> int) list"
  nf_agenda :: "(rat \<times> int) list"
  nf_deletions :: "int list"

type_synonym node_pump = "node_fs \<Rightarrow> node_fs res"

definition nf_initialize :: "module_state \<Rightarrow> node_fs" where
  "nf_initialize b = \<lparr>queue = queue b, outbox = outbox b, currentRequest = currentRequest b,
     latencyScheduled = latencyScheduled b, module_id = module_id b, host_name = host_name b,
     nf_users = [], nf_pending = [], nf_agenda = [], nf_deletions = []\<rparr>"

definition user_index :: "int \<Rightarrow> node_fs \<Rightarrow> nat option" where
  "user_index u s = index_of (\<lambda>x. fst x = u) (nf_users s)"

definition searchUser :: "int \<Rightarrow> node_fs \<Rightarrow> bool" where
  "searchUser u s \<longleftrightarrow> user_index u s \<noteq> None"

text \<open>The user of a request; a new one gets an empty list.\<close>

definition user_of_request :: "int \<Rightarrow> node_fs \<Rightarrow> nat \<times> node_fs" where
  "user_of_request u s = (case user_index u s of Some i \<Rightarrow> (i, s)
     | None \<Rightarrow> (length (nf_users s), s\<lparr>nf_users := nf_users s @ [(u, [])]\<rparr>))"

definition user_files :: "nat \<Rightarrow> node_fs \<Rightarrow> icancloud_file list" where
  "user_files i s = snd (nf_users s ! i)"

definition set_files :: "nat \<Rightarrow> icancloud_file list \<Rightarrow> node_fs \<Rightarrow> node_fs" where
  "set_files i files s = s\<lparr>nf_users := (nf_users s)[i := (fst (nf_users s ! i), files)]\<rparr>"

definition pushPendingMessage :: "message \<Rightarrow> int \<Rightarrow> node_fs \<Rightarrow> node_fs" where
  "pushPendingMessage sm latency s = s\<lparr>nf_pending := nf_pending s @ [(sm, latency)]\<rparr>"

text \<open>All entries of the timer are taken out; the last one is returned.\<close>

definition extractPendingMessage :: "int \<Rightarrow> node_fs \<Rightarrow> (message \<times> node_fs) res" where
  "extractPendingMessage latency s = (case filter (\<lambda>p. snd p = latency) (nf_pending s) of
     [] \<Rightarrow> Fail (Thrown ''showErrorMessage'')
   | p # ps \<Rightarrow> Ok (fst (last (p # ps)), s\<lparr>nf_pending := filter (\<lambda>p. snd p \<noteq> latency) (nf_pending s)\<rparr>))"

definition nf_later :: "rat \<Rightarrow> int \<Rightarrow> message \<Rightarrow> node_fs \<Rightarrow> node_fs" where
  "nf_later t latency sm s = pushPendingMessage (sm\<lparr>isResponse := True, result_code := icancloud_OK\<rparr>) latency
     (s\<lparr>nf_agenda := nf_agenda s @ [(t, latency)]\<rparr>)"

text \<open>
  Creating a file.  The block list message that would change the capacity of the disk is only deleted,
  and only for a request with an NFS connection.
\<close>

definition capacity_change :: "u32 option \<Rightarrow> u32 \<Rightarrow> message \<Rightarrow> (message \<times> bool) res" where
  "capacity_change old newSize bl = (case old of
     None \<Rightarrow> Ok (bl, True)
   | Some old \<Rightarrow>
       if sint newSize < sint old then bind_res (checked_int (sint old - sint newSize)) (\<lambda>d. case cast_io bl of
         None \<Rightarrow> Fail Undefined
       | Some io \<Rightarrow> Ok (set_io (io\<lparr>io_size := nat d\<rparr>) (bl\<lparr>operation := SM_DELETE_FILE\<rparr>), True))
       else Ok (bl, False))"

definition nf_create :: "rat \<Rightarrow> (message \<Rightarrow> nat \<Rightarrow> int) \<Rightarrow> nat \<Rightarrow> io_fields \<Rightarrow> message \<Rightarrow> node_pump" where
  "nf_create now newId i io sm s =
     (let n = io_fileName io; files = user_files i s; newSize = word_of_nat (io_size io);
          old = map_option (\<lambda>k. fi_size (files ! k)) (searchFile n files)
      in bind_res (capacity_change old newSize (new_blocklist (newId sm 0) io sm)) (\<lambda>(bl, modifyStorage).
         let s = set_files i (insertNewFile newSize n (if old \<noteq> None then deleteFile n files else files)) s;
             s = (if nfs_connectionID (io_nfs io) \<noteq> -1 \<and> modifyStorage then emit (Deleted bl) s else s)
         in Ok (nf_later (CREATE_TIME + now) (newId sm 1) sm s)))"

definition nf_delete ::
  "rat \<Rightarrow> (message \<Rightarrow> nat \<Rightarrow> int) \<Rightarrow> (message \<Rightarrow> int option) \<Rightarrow> node_pump \<Rightarrow> nat \<Rightarrow> io_fields \<Rightarrow> message \<Rightarrow> node_pump" where
  "nf_delete now newId og pump i io sm s =
     (let s = set_files i (deleteFile (io_fileName io) (user_files i s)) s
      in bind_res (if nfs_connectionID (io_nfs io) \<noteq> -1
           then sendRequestMessage og pump (new_blocklist (newId sm 0) io sm) toVMGate s else Ok s) (\<lambda>s.
         Ok (nf_later (CLOSE_TIME + now) (newId sm 1) sm s)))"

text \<open>
  Deleting a user asks the disk to delete each of the files and remembers the ids of these messages.
  Nothing is queued while a request is handled, so no file is added in between.
\<close>

definition file_deletion :: "int \<Rightarrow> io_fields \<Rightarrow> u32 \<Rightarrow> message \<Rightarrow> message" where
  "file_deletion i io sz sm = set_io (io\<lparr>io_size := unat sz, io_nfs_id := 1, io_blocks := Some (new_file\<lparr>fi_name := io_fileName io\<rparr>)\<rparr>)
     ((new_blocklist i io sm)\<lparr>operation := SM_DELETE_FILE\<rparr>)"

fun delete_all ::
  "(message \<Rightarrow> nat \<Rightarrow> int) \<Rightarrow> (message \<Rightarrow> int option) \<Rightarrow> node_pump \<Rightarrow> io_fields \<Rightarrow> message \<Rightarrow> nat
     \<Rightarrow> icancloud_file list \<Rightarrow> node_pump" where
  "delete_all newId og pump io sm k [] s = Ok s"
| "delete_all newId og pump io sm k (f # fs) s =
     bind_res (sendRequestMessage og pump (file_deletion (newId sm k) io (fi_size f) sm) toVMGate
         (s\<lparr>nf_deletions := nf_deletions s @ [newId sm k]\<rparr>))
       (delete_all newId og pump io sm (Suc k) fs)"

definition nf_deleteUser ::
  "(message \<Rightarrow> nat \<Rightarrow> int) \<Rightarrow> (message \<Rightarrow> int option) \<Rightarrow> node_pump \<Rightarrow> io_fields \<Rightarrow> message \<Rightarrow> node_pump" where
  "nf_deleteUser newId og pump io sm s = (case user_index (uid sm) s of
     None \<Rightarrow> Ok s
   | Some i \<Rightarrow> bind_res (delete_all newId og pump io sm 0 (user_files i s) s) (\<lambda>s.
       Ok (s\<lparr>nf_users := remove_at i (nf_users s)\<rparr>)))"

definition nf_transfer ::
  "(message \<Rightarrow> nat \<Rightarrow> int) \<Rightarrow> (message \<Rightarrow> int option) \<Rightarrow> node_pump \<Rightarrow> nat \<Rightarrow> io_fields \<Rightarrow> message \<Rightarrow> node_pump" where
  "nf_transfer newId og pump i io sm s = (if io_size io = 0 then Fail (Thrown ''processIORequest'')
     else bind_res (translateIORequests io (new_blocklist (newId sm 0) io sm) (user_files i s)) (\<lambda>bl.
       if isResponse bl
       then sendResponseMessage pump (sm\<lparr>isResponse := True, result_code := result_code bl\<rparr>) (emit (Deleted bl) s)
       else sendRequestMessage og pump bl toVMGate (emit (Deleted sm) s)))"

definition nf_processIORequest ::
  "rat \<Rightarrow> (message \<Rightarrow> nat \<Rightarrow> int) \<Rightarrow> (message \<Rightarrow> int option) \<Rightarrow> node_pump \<Rightarrow> message \<Rightarrow> node_pump" where
  "nf_processIORequest now newId og pump sm s = (case cast_io sm of
     None \<Rightarrow> Fail (Thrown ''check_and_cast'')
   | Some io \<Rightarrow>
       if operation sm = SM_CHANGE_DISK_STATE
       then sendRequestMessage og pump (state_blocks (newId sm 0) io sm) toVMGate (emit (Deleted sm) s)
       else (case user_of_request (uid sm) s of (i, s) \<Rightarrow> let op = operation sm in
         if op = SM_OPEN_FILE then
           (if searchFile (io_fileName io) (user_files i s) = None then Fail (Thrown ''processIORequest'')
            else Ok (nf_later (OPEN_TIME + now) (newId sm 0) sm s))
         else if op = SM_CLOSE_FILE then Ok (nf_later (CLOSE_TIME + now) (newId sm 0) sm s)
         else if op = SM_CREATE_FILE then nf_create now newId i io sm s
         else if op = SM_DELETE_FILE then nf_delete now newId og pump i io sm s
         else if op = SM_DELETE_USER_FS then
           bind_res (nf_deleteUser newId og pump io sm s)
             (sendResponseMessage pump (sm\<lparr>result_code := icancloud_OK, isResponse := True\<rparr>))
         else if op \<in> {SM_READ_FILE, SM_WRITE_FILE} then nf_transfer newId og pump i io sm s
         else Fail (Thrown ''showErrorMessage'')))"

definition checkResponseMsg :: "int \<Rightarrow> node_fs \<Rightarrow> bool \<times> node_fs" where
  "checkResponseMsg i s = (i \<in> set (nf_deletions s), s\<lparr>nf_deletions := remove_first (\<lambda>j. j = i) (nf_deletions s)\<rparr>)"

definition nf_processResponseMessage :: "(message \<Rightarrow> nat \<Rightarrow> int) \<Rightarrow> node_pump \<Rightarrow> message \<Rightarrow> node_pump" where
  "nf_processResponseMessage newId pump sm s = (case cast_io sm of
     None \<Rightarrow> Fail (Thrown ''check_and_cast'')
   | Some io \<Rightarrow> if io_blocks io = None then Fail (Thrown ''check_and_cast'') else
       (case checkResponseMsg (msg_id sm) s of (known, s) \<Rightarrow>
         bind_res (if \<not> known then sendResponseMessage pump (transformToApp_IO_Message (newId sm 0) io sm) s else Ok s) (\<lambda>s.
           Ok (emit (Deleted sm) s))))"

definition nf_processSelfMessage :: "node_pump \<Rightarrow> int \<Rightarrow> node_pump" where
  "nf_processSelfMessage pump latency s =
     bind_res (extractPendingMessage latency s) (\<lambda>(sm, s). sendResponseMessage pump sm s)"

definition nf_pump :: "rat \<Rightarrow> (message \<Rightarrow> nat \<Rightarrow> int) \<Rightarrow> (message \<Rightarrow> int option) \<Rightarrow> node_pump" where
  "nf_pump now newId og = processCurrentRequestMessage (nf_processIORequest now newId og)"

definition nf_event ::
  "(message \<Rightarrow> nat \<Rightarrow> int) \<Rightarrow> (message \<Rightarrow> int option) \<Rightarrow> fs_event \<Rightarrow> node_pump" where
  "nf_event newId og ev s = (case ev of
     FsArrives now sm \<Rightarrow>
       if \<not> isResponse sm then bind_res (updateMessageTrace og sm s) (\<lambda>(sm, s). nf_pump now newId og (s\<lparr>queue := queue s @ [sm]\<rparr>))
       else nf_processResponseMessage newId (nf_pump now newId og) sm s
   | FsDue k \<Rightarrow>
       if k < length (nf_agenda s)
       then (case nf_agenda s ! k of (now, latency) \<Rightarrow>
              nf_processSelfMessage (nf_pump now newId og) latency (s\<lparr>nf_agenda := remove_at k (nf_agenda s)\<rparr>))
       else Ok s)"

definition nf_run ::
  "(message \<Rightarrow> nat \<Rightarrow> int) \<Rightarrow> (message \<Rightarrow> int option) \<Rightarrow> fs_event list \<Rightarrow> node_pump" where
  "nf_run newId og evs s = fold_res (nf_event newId og) evs s"

text \<open>
  The files loaded in advance: \<^verbatim>\<open>(!userID == -1)\<close> negates the user and is never true.  The parsed file
  is \<open>preload\<close>; a known user would leave the pointer of the list unset.
\<close>

definition load_UserPreloadFiles ::
  "string \<Rightarrow> (string \<times> u32) list \<Rightarrow> int \<Rightarrow> node_fs \<Rightarrow> (int \<times> icancloud_file list) res" where
  "load_UserPreloadFiles preload_data preload userID s =
     (if preload_data \<noteq> [] \<and> (if userID = 0 then 1 else 0) = (-1 :: int) then
        (if searchUser userID s then Fail Undefined
         else if preload = [] then Ok (icancloud_ERROR, [])
         else Ok (icancloud_OK, fold (\<lambda>(n, kb). insertNewFile (kb * 1024) n) preload []))
      else Ok (icancloud_ERROR, []))"

section \<open>The file system as a map\<close>

definition file_map :: "icancloud_file list \<Rightarrow> string \<rightharpoonup> u32" where
  "file_map fs = map_of (map (\<lambda>f. (fi_name f, fi_size f)) fs)"

definition names_distinct :: "icancloud_file list \<Rightarrow> bool" where
  "names_distinct fs \<longleftrightarrow> distinct (map fi_name fs)"

text \<open>What the file systems need of a list of files, and what creating a file is under it.\<close>

locale file_table =
  fixes files_of :: "'t \<Rightarrow> string \<Rightarrow> u32 option" and valid :: "'t \<Rightarrow> bool"
    and put :: "u32 \<Rightarrow> string \<Rightarrow> 't \<Rightarrow> 't" and drop_file :: "string \<Rightarrow> 't \<Rightarrow> 't"
  assumes put_valid: "valid t \<Longrightarrow> files_of t n = None \<Longrightarrow> valid (put sz n t)"
    and put_files: "files_of t n = None \<Longrightarrow> files_of (put sz n t) = (files_of t)(n \<mapsto> sz)"
    and drop_valid: "valid t \<Longrightarrow> valid (drop_file n t)"
    and drop_files: "valid t \<Longrightarrow> files_of (drop_file n t) = (files_of t)(n := None)"
begin

lemma create_valid: "valid t \<Longrightarrow> valid (put sz n (drop_file n t))"
  by (simp add: put_valid drop_valid drop_files)

lemma create_files: "valid t \<Longrightarrow> files_of (put sz n (drop_file n t)) = (files_of t)(n \<mapsto> sz)"
  by (simp add: put_files drop_files)

end

lemma deleteFile_filter: "names_distinct fs \<Longrightarrow> deleteFile n fs = filter (\<lambda>f. fi_name f \<noteq> n) fs"
  using remove_first_distinct[of fi_name fs n]
  by (simp add: deleteFile_def searchFile_def names_distinct_def remove_first_index)

lemma file_map_filter: "file_map (filter (\<lambda>f. fi_name f \<noteq> n) fs) = (file_map fs)(n := None)"
  by (rule ext) (induction fs; auto simp: file_map_def)

lemma file_map_None: "file_map fs n = None \<longleftrightarrow> n \<notin> fi_name ` set fs"
  by (simp add: file_map_def map_of_eq_None_iff image_image)

interpretation file_list: file_table file_map names_distinct insertNewFile deleteFile
proof
  fix t :: "icancloud_file list" and n :: string and sz :: u32
  show "names_distinct (insertNewFile sz n t)" if "names_distinct t" "file_map t n = None"
    using that by (simp add: names_distinct_def insertNewFile_def file_map_None)
  show "file_map (insertNewFile sz n t) = (file_map t)(n \<mapsto> sz)" if "file_map t n = None"
    using that by (intro ext) (auto simp: file_map_def insertNewFile_def map_add_def split: option.splits)
  show "names_distinct (deleteFile n t)" if "names_distinct t"
    using that by (simp add: deleteFile_filter) (simp add: names_distinct_def distinct_map_filter)
  show "file_map (deleteFile n t) = (file_map t)(n := None)" if "names_distinct t"
    using that by (simp add: deleteFile_filter file_map_filter)
qed

lemma created_files:
  "(if searchFile n fs \<noteq> None then deleteFile n fs else fs) = deleteFile n fs"
  by (simp add: deleteFile_def)

text \<open>All users with their files.\<close>

definition fs_map :: "(int \<times> icancloud_file list) list \<Rightarrow> int \<Rightarrow> string \<rightharpoonup> u32" where
  "fs_map us u = (case map_of us u of None \<Rightarrow> Map.empty | Some fs \<Rightarrow> file_map fs)"

definition users_wf :: "(int \<times> icancloud_file list) list \<Rightarrow> bool" where
  "users_wf us \<longleftrightarrow> distinct (map fst us) \<and> (\<forall>x\<in>set us. names_distinct (snd x))"

lemma map_of_list_update:
  "distinct (map fst us) \<Longrightarrow> i < length us \<Longrightarrow> map_of (us[i := (fst (us ! i), f)]) = (map_of us)(fst (us ! i) \<mapsto> f)"
proof (induction us arbitrary: i)
  case (Cons x us)
  then show ?case by (cases i; cases x) (auto intro!: ext dest: nth_mem)
qed simp

lemma map_of_remove_at:
  "distinct (map fst us) \<Longrightarrow> i < length us \<Longrightarrow> map_of (remove_at i us) = (map_of us)(fst (us ! i) := None)"
proof (induction us arbitrary: i)
  case (Cons x us)
  then show ?case by (cases i; cases x) (auto simp: fun_upd_twist map_of_eq_None_iff image_iff intro!: ext)
qed simp

lemma fs_map_update:
  "users_wf us \<Longrightarrow> i < length us \<Longrightarrow>
   fs_map (us[i := (fst (us ! i), fs)]) = (fs_map us)(fst (us ! i) := file_map fs)"
  by (rule ext) (simp add: fs_map_def users_wf_def map_of_list_update)

lemma fs_map_remove:
  "users_wf us \<Longrightarrow> i < length us \<Longrightarrow> fs_map (remove_at i us) = (fs_map us)(fst (us ! i) := Map.empty)"
  by (rule ext) (simp add: fs_map_def users_wf_def map_of_remove_at)

lemma users_wf_update:
  assumes "users_wf us" "i < length us" "names_distinct fs"
  shows "users_wf (us[i := (fst (us ! i), fs)])"
proof -
  have "map fst (us[i := (fst (us ! i), fs)]) = map fst us" using assms(2) by (simp add: map_update list_update_same_conv)
  then show ?thesis using assms set_update_subset_insert[of us i "(fst (us ! i), fs)"] by (auto simp: users_wf_def)
qed

lemma users_wf_remove: "users_wf us \<Longrightarrow> users_wf (remove_at i us)"
  using set_remove_at[of i us] by (auto simp: users_wf_def remove_at_map remove_at_distinct)

lemma fs_map_at: "users_wf us \<Longrightarrow> i < length us \<Longrightarrow> fs_map us (fst (us ! i)) = file_map (snd (us ! i))"
  by (simp add: fs_map_def users_wf_def map_of_eq_Some_iff[THEN iffD2, of us "fst (us ! i)" "snd (us ! i)"])

text \<open>The user of a request is there afterwards, and the files are the same.\<close>

lemma user_of_request_wf:
  assumes "user_of_request u s = (i, t)" "users_wf (nf_users s)"
  shows "users_wf (nf_users t) \<and> fs_map (nf_users t) = fs_map (nf_users s) \<and> i < length (nf_users t) \<and>
    fst (nf_users t ! i) = u \<and> queue t = queue s \<and> latencyScheduled t = latencyScheduled s \<and> user_index u t = Some i"
proof (cases "user_index u s")
  case None
  then have new: "\<forall>x\<in>set (nf_users s). fst x \<noteq> u" by (simp add: user_index_def index_of_None)
  have t: "i = length (nf_users s)" "t = s\<lparr>nf_users := nf_users s @ [(u, [])]\<rparr>" using assms(1) None by (simp_all add: user_of_request_def)
  have "fs_map (nf_users t) = fs_map (nf_users s)"
    by (rule ext) (auto simp: fs_map_def t map_add_def file_map_def split: option.splits)
  moreover have "users_wf (nf_users t)" using assms(2) new by (auto simp: users_wf_def t names_distinct_def)
  moreover have "user_index u t = Some i" using None by (simp add: user_index_def t index_of_append)
  ultimately show ?thesis by (simp add: t)
next
  case (Some k)
  then have "i = k" "t = s" using assms(1) by (simp_all add: user_of_request_def)
  moreover have "k < length (nf_users s)" "fst (nf_users s ! k) = u" using Some by (simp_all add: user_index_def index_of_Some)
  ultimately show ?thesis using assms(2) Some by simp
qed

subsection \<open>Every request as an operation on the map\<close>

fun fs_spec :: "fs_event \<Rightarrow> (int \<Rightarrow> string \<rightharpoonup> u32) \<Rightarrow> int \<Rightarrow> string \<rightharpoonup> u32" where
  "fs_spec (FsDue k) m = m"
| "fs_spec (FsArrives now sm) m = (case cast_io sm of None \<Rightarrow> m | Some io \<Rightarrow>
     let u = uid sm; n = io_fileName io
     in if isResponse sm then m
        else if operation sm = SM_CREATE_FILE then m(u := (m u)(n \<mapsto> word_of_nat (io_size io)))
        else if operation sm = SM_DELETE_FILE then m(u := (m u)(n := None))
        else if operation sm = SM_DELETE_USER_FS then m(u := Map.empty)
        else m)"

lemma fs_spec_trace: "fs_spec (FsArrives now (sm\<lparr>msg_trace := t\<rparr>)) = fs_spec (FsArrives now sm)"
proof
  fix m
  have "cast_io (sm\<lparr>msg_trace := t\<rparr>) = cast_io sm" by (simp add: cast_io_def)
  then show "fs_spec (FsArrives now (sm\<lparr>msg_trace := t\<rparr>)) m = fs_spec (FsArrives now sm) m" by (cases "cast_io sm") (simp_all add: Let_def)
qed

definition nf_same :: "node_fs \<Rightarrow> node_fs \<Rightarrow> bool" where
  "nf_same s t \<longleftrightarrow> queue t = queue s \<and> latencyScheduled t = latencyScheduled s \<and> nf_users t = nf_users s"

lemma nf_same_more:
  "queue t = queue s \<Longrightarrow> latencyScheduled t = latencyScheduled s \<Longrightarrow> module_state.more t = module_state.more s \<Longrightarrow> nf_same s t"
  by (cases s; cases t) (simp add: nf_same_def)

lemma nf_send_same:
  assumes "sendRequestMessage og p m g s = Ok t" "queue s = []" "\<And>t. queue t = [] \<Longrightarrow> p t = Ok t"
  shows "nf_same s t"
  using assms sendRequestMessage_idle[of s p og m g] sendRequestMessage_frame[of og m g s t] by (auto intro: nf_same_more)

lemma nf_respond_same:
  assumes "sendResponseMessage p m s = Ok t" "queue s = []" "\<And>t. queue t = [] \<Longrightarrow> p t = Ok t"
  shows "nf_same s t"
  using assms sendResponseMessage_idle[of s p m] sendResponseMessage_frame[of m s t] by (auto intro: nf_same_more)

lemma delete_all_same:
  assumes "delete_all newId og p io sm k fs s = Ok t" "queue s = []" "\<And>t. queue t = [] \<Longrightarrow> p t = Ok t"
  shows "nf_same s t"
  using assms(1,2)
proof (induction fs arbitrary: k s)
  case (Cons f fs)
  let ?s = "s\<lparr>nf_deletions := nf_deletions s @ [newId sm k]\<rparr>"
  from Cons.prems(1) obtain v where v: "sendRequestMessage og p (file_deletion (newId sm k) io (fi_size f) sm) toVMGate ?s = Ok v"
    "delete_all newId og p io sm (Suc k) fs v = Ok t" by (auto elim: bind_res_OkE)
  have "nf_same ?s v" using nf_send_same[OF v(1) _ assms(3)] Cons.prems(2) by simp
  then have "nf_same s v" by (simp add: nf_same_def)
  with Cons.IH[OF v(2)] Cons.prems(2) show ?case by (simp add: nf_same_def)
qed (simp add: nf_same_def)

definition nf_follows :: "((int \<Rightarrow> string \<rightharpoonup> u32) \<Rightarrow> int \<Rightarrow> string \<rightharpoonup> u32) \<Rightarrow> node_fs \<Rightarrow> node_fs \<Rightarrow> bool" where
  "nf_follows f s t \<longleftrightarrow> queue t = [] \<and> latencyScheduled t = latencyScheduled s \<and> users_wf (nf_users t) \<and> fs_map (nf_users t) = f (fs_map (nf_users s))"

lemma same_follows: "nf_same s t \<Longrightarrow> queue s = [] \<Longrightarrow> users_wf (nf_users s) \<Longrightarrow> nf_follows (\<lambda>m. m) s t"
  by (simp add: nf_same_def nf_follows_def)

lemma later_same: "nf_same s (nf_later t i m s)"
  by (simp add: nf_same_def nf_later_def pushPendingMessage_def)

lemma emit_same: "nf_same s (emit e s)"
  by (simp add: nf_same_more emit_def)

lemma same_trans: "nf_same s t \<Longrightarrow> nf_same t u \<Longrightarrow> nf_same s u"
  by (simp add: nf_same_def)

lemma emit_later_same: "nf_same s (nf_later t i m (emit e s))"
  by (rule same_trans[OF emit_same later_same])

lemma follows_same: "nf_follows f s t \<Longrightarrow> nf_same t u \<Longrightarrow> nf_follows f s u"
  by (simp add: nf_same_def nf_follows_def)

lemma set_files_follows:
  assumes "users_wf (nf_users s)" "i < length (nf_users s)" "fst (nf_users s ! i) = u" "queue s = []" "names_distinct fs"
    and "file_map fs = g (file_map (user_files i s))"
  shows "nf_follows (\<lambda>m. m(u := g (m u))) s (set_files i fs s)"
  using assms fs_map_update[OF assms(1,2), of fs] fs_map_at[OF assms(1,2)] users_wf_update[OF assms(1,2,5)]
  by (simp add: nf_follows_def set_files_def user_files_def)

lemma create_follows:
  assumes "nf_create now newId i io sm s = Ok t" "users_wf (nf_users s)" "i < length (nf_users s)" "fst (nf_users s ! i) = u" "queue s = []"
  shows "nf_follows (\<lambda>m. m(u := (m u)(io_fileName io \<mapsto> word_of_nat (io_size io)))) s t"
proof -
  let ?fs = "user_files i s" and ?n = "io_fileName io" and ?sz = "word_of_nat (io_size io) :: u32"
  let ?w = "set_files i (insertNewFile ?sz ?n (deleteFile ?n ?fs)) s"
  have fs: "names_distinct ?fs" using assms(2,3) by (auto simp: users_wf_def user_files_def)
  have t: "nf_same ?w t" using assms(1) created_files[of ?n ?fs] emit_later_same later_same
    by (auto simp: nf_create_def Let_def bind_res_Ok_iff split: if_splits)
  show ?thesis
    by (rule follows_same[OF set_files_follows[OF assms(2-5) file_list.create_valid[OF fs]] t])
      (rule file_list.create_files[OF fs])
qed

lemma delete_follows:
  assumes "nf_delete now newId og p i io sm s = Ok t" "users_wf (nf_users s)" "i < length (nf_users s)" "fst (nf_users s ! i) = u"
    and "queue s = []" "\<And>t. queue t = [] \<Longrightarrow> p t = Ok t"
  shows "nf_follows (\<lambda>m. m(u := (m u)(io_fileName io := None))) s t"
proof -
  let ?fs = "user_files i s" and ?n = "io_fileName io"
  let ?w = "set_files i (deleteFile ?n ?fs) s"
  have fs: "names_distinct ?fs" using assms(2,3) by (auto simp: users_wf_def user_files_def)
  have q: "queue ?w = []" using assms(5) by (simp add: set_files_def)
  have t: "nf_same ?w t"
    using assms(1) nf_send_same[OF _ q assms(6)] later_same by (auto simp: nf_delete_def Let_def bind_res_Ok_iff nf_same_def split: if_splits)
  show ?thesis
    by (rule follows_same[OF set_files_follows[OF assms(2-5) file_list.drop_valid[OF fs]] t])
      (rule file_list.drop_files[OF fs])
qed

lemma delete_user_follows:
  assumes "nf_deleteUser newId og p io sm s = Ok t" "users_wf (nf_users s)" "user_index (uid sm) s = Some i"
    and "queue s = []" "\<And>t. queue t = [] \<Longrightarrow> p t = Ok t"
  shows "nf_follows (\<lambda>m. m(uid sm := Map.empty)) s t"
proof -
  have i: "i < length (nf_users s)" "fst (nf_users s ! i) = uid sm" using assms(3) by (simp_all add: user_index_def index_of_Some)
  from assms(1,3) obtain v where v: "delete_all newId og p io sm 0 (user_files i s) s = Ok v" "t = v\<lparr>nf_users := remove_at i (nf_users v)\<rparr>"
    by (auto simp: nf_deleteUser_def elim: bind_res_OkE)
  have "nf_same s v" by (rule delete_all_same[OF v(1) assms(4,5)])
  then show ?thesis using v(2) assms(2,4) fs_map_remove[OF assms(2) i(1)] users_wf_remove[OF assms(2)] i(2)
    by (simp add: nf_follows_def nf_same_def)
qed

lemma transfer_same:
  assumes "nf_transfer newId og p i io sm s = Ok t" "queue s = []" "\<And>t. queue t = [] \<Longrightarrow> p t = Ok t"
  shows "nf_same s t"
proof -
  have q: "queue (emit e s) = []" for e using assms(2) by simp
  show ?thesis
    using assms(1) same_trans[OF emit_same nf_send_same[OF _ q assms(3)]] same_trans[OF emit_same nf_respond_same[OF _ q assms(3)]]
    by (auto simp: nf_transfer_def bind_res_Ok_iff split: if_splits)
qed

lemma nf_request_follows:
  assumes "nf_processIORequest now newId og p sm s = Ok t" "users_wf (nf_users s)" "queue s = []"
    and "\<And>t. queue t = [] \<Longrightarrow> p t = Ok t" "\<not> isResponse sm"
  shows "nf_follows (fs_spec (FsArrives now sm)) s t"
proof -
  have ops: "SM_CHANGE_DISK_STATE \<notin> {SM_CREATE_FILE, SM_DELETE_FILE, SM_DELETE_USER_FS}"
    "SM_OPEN_FILE \<notin> {SM_CREATE_FILE, SM_DELETE_FILE, SM_DELETE_USER_FS}" "SM_CLOSE_FILE \<notin> {SM_CREATE_FILE, SM_DELETE_FILE, SM_DELETE_USER_FS}"
    "SM_CREATE_FILE \<notin> {SM_OPEN_FILE, SM_CLOSE_FILE, SM_DELETE_FILE, SM_DELETE_USER_FS}"
    "SM_DELETE_FILE \<notin> {SM_OPEN_FILE, SM_CLOSE_FILE, SM_DELETE_USER_FS}"
    "SM_DELETE_USER_FS \<notin> {SM_OPEN_FILE, SM_CLOSE_FILE, SM_CREATE_FILE, SM_DELETE_FILE, SM_CHANGE_DISK_STATE}"
    by (simp_all add: SM_CHANGE_DISK_STATE_def SM_OPEN_FILE_def SM_CLOSE_FILE_def SM_CREATE_FILE_def SM_DELETE_FILE_def SM_DELETE_USER_FS_def)
  from assms(1) obtain io where io: "cast_io sm = Some io" by (auto simp: nf_processIORequest_def split: option.splits)
  show ?thesis
  proof (cases "operation sm = SM_CHANGE_DISK_STATE")
    case True
    have q: "queue (emit (Deleted sm) s) = []" using assms(3) by simp
    have "sendRequestMessage og p (state_blocks (newId sm 0) io sm) toVMGate (emit (Deleted sm) s) = Ok t"
      using assms(1) io True by (simp add: nf_processIORequest_def)
    from same_trans[OF emit_same nf_send_same[OF this q assms(4)]] have "nf_follows (\<lambda>m. m) s t"
      by (rule same_follows[OF _ assms(3,2)])
    then show ?thesis using ops(1) True io by (simp add: nf_follows_def Let_def)
  next
    case False
    obtain i u where u: "user_of_request (uid sm) s = (i, u)" by force
    note w = user_of_request_wf[OF u assms(2)]
    have q: "queue u = []" using w assms(3) by simp
    have from_user: "nf_follows f u t \<Longrightarrow> nf_follows f s t" for f using w by (simp add: nf_follows_def)
    consider "operation sm = SM_CREATE_FILE" | "operation sm = SM_DELETE_FILE" | "operation sm = SM_DELETE_USER_FS"
      | "operation sm \<notin> {SM_CREATE_FILE, SM_DELETE_FILE, SM_DELETE_USER_FS}" by blast
    then show ?thesis
    proof cases
      case 1
      then have "nf_create now newId i io sm u = Ok t" using assms(1) io False u ops(4) by (simp add: nf_processIORequest_def Let_def)
      from from_user[OF create_follows[OF this]] w q 1 io assms(5) show ?thesis by (simp add: nf_follows_def Let_def)
    next
      case 2
      then have "nf_delete now newId og p i io sm u = Ok t" using assms(1) io False u ops(4,5) by (simp add: nf_processIORequest_def Let_def)
      from from_user[OF delete_follows[OF this _ _ _ q assms(4)]] w 2 io assms(5) ops(4) show ?thesis by (simp add: nf_follows_def Let_def)
    next
      case 3
      then obtain v where v: "nf_deleteUser newId og p io sm u = Ok v"
        "sendResponseMessage p (sm\<lparr>result_code := icancloud_OK, isResponse := True\<rparr>) v = Ok t"
        using assms(1) io False u ops(4-6) by (auto simp: nf_processIORequest_def Let_def bind_res_Ok_iff)
      have f: "nf_follows (\<lambda>m. m(uid sm := Map.empty)) u v" using delete_user_follows[OF v(1) _ _ q assms(4)] w by blast
      then have "queue v = []" by (simp add: nf_follows_def)
      from from_user[OF follows_same[OF f nf_respond_same[OF v(2) this assms(4)]]] 3 io assms(5) show ?thesis
        by (simp add: nf_follows_def Let_def SM_CREATE_FILE_def SM_DELETE_FILE_def SM_DELETE_USER_FS_def)
    next
      case 4
      have "nf_same u t"
        using assms(1) 4 io False u later_same transfer_same[of newId og p i io sm u t, OF _ q assms(4)]
        by (auto simp: nf_processIORequest_def Let_def split: if_splits)
      from from_user[OF same_follows[OF this q]] w 4 io show ?thesis by (simp add: nf_follows_def Let_def)
    qed
  qed
qed

lemma serve_0_Ok [simp]: "serve 0 h = Ok"
  by (rule ext) simp

lemma nf_arrives:
  assumes "queue s = []" "\<not> latencyScheduled s" "\<not> isResponse sm" "updateMessageTrace og sm s = Ok (m, u)"
  shows "nf_event newId og (FsArrives now sm) s = nf_processIORequest now newId og Ok m u"
proof -
  have q: "queue u = []" "\<not> latencyScheduled u" using updateMessageTrace_frame[OF assms(4)] assms(1,2) by simp_all
  have same: "u\<lparr>queue := []\<rparr> = u" using q(1) by (cases u) simp
  show ?thesis using assms(3,4) q
    by (simp add: nf_event_def nf_pump_def processCurrentRequestMessage_def isPendingRequest_def same)
qed

lemma nf_event_follows:
  assumes "nf_event newId og ev s = Ok t" "users_wf (nf_users s)" "queue s = []" "\<not> latencyScheduled s"
  shows "nf_follows (fs_spec ev) s t"
proof (cases ev)
  case (FsDue k)
  show ?thesis
  proof (cases "k < length (nf_agenda s)")
    case True
    obtain now i where k: "nf_agenda s ! k = (now, i)" by force
    let ?v = "s\<lparr>nf_agenda := remove_at k (nf_agenda s)\<rparr>"
    from assms(1) True k obtain sm w where w: "extractPendingMessage i ?v = Ok (sm, w)"
      "sendResponseMessage (nf_pump now newId og) sm w = Ok t"
      by (auto simp: nf_event_def FsDue nf_processSelfMessage_def bind_res_Ok_iff)
    have same: "nf_same s w" using w(1) by (auto simp: extractPendingMessage_def nf_same_def split: list.splits)
    then have q: "queue w = []" using assms(3) by (simp add: nf_same_def)
    have "nf_same w t" by (rule nf_respond_same[OF w(2) q]) (simp add: nf_pump_def)
    from same_follows[OF same_trans[OF same this] assms(3,2)] show ?thesis by (simp add: FsDue nf_follows_def)
  next
    case False
    then show ?thesis using assms by (simp add: nf_event_def FsDue nf_follows_def)
  qed
next
  case (FsArrives now sm)
  show ?thesis
  proof (cases "isResponse sm")
    case True
    let ?v = "s\<lparr>nf_deletions := remove_first (\<lambda>j. j = msg_id sm) (nf_deletions s)\<rparr>"
    have v: "nf_same s ?v" "queue ?v = []" using assms(3) by (simp_all add: nf_same_def)
    have p: "\<And>t. queue t = [] \<Longrightarrow> nf_pump now newId og t = Ok t" by (simp add: nf_pump_def)
    from assms(1) True obtain w where w: "t = emit (Deleted sm) w" "w = ?v \<or> (\<exists>m. sendResponseMessage (nf_pump now newId og) m ?v = Ok w)"
      by (auto simp: nf_event_def FsArrives nf_processResponseMessage_def checkResponseMsg_def bind_res_Ok_iff
          split: option.splits if_splits)
    then have "nf_same ?v w" using nf_respond_same[OF _ v(2) p] by (auto simp: nf_same_def)
    then have "nf_same s t" using same_trans[OF v(1) same_trans[OF _ emit_same]] w(1) by simp
    from same_follows[OF this assms(3,2)] True show ?thesis by (auto simp: FsArrives nf_follows_def split: option.splits)
  next
    case False
    from assms(1) False obtain m u where u: "updateMessageTrace og sm s = Ok (m, u)"
      by (auto simp: nf_event_def FsArrives elim: bind_res_OkE)
    from updateMessageTrace_frame[OF u] have f: "queue u = []" "latencyScheduled u = latencyScheduled s"
      "module_state.more u = module_state.more s" and m: "\<exists>t. m = sm\<lparr>msg_trace := t\<rparr>" using assms(3) by auto
    have same: "nf_same s u" using f assms(3) by (intro nf_same_more) auto
    have r: "nf_processIORequest now newId og Ok m u = Ok t"
      using assms(1) nf_arrives[OF assms(3,4) False u] by (simp add: FsArrives)
    have "nf_follows (fs_spec (FsArrives now m)) u t"
      using same assms(2) f(1) False m by (intro nf_request_follows[OF r]) (auto simp: nf_same_def)
    moreover have "fs_spec (FsArrives now m) = fs_spec ev" using m by (auto simp: FsArrives fs_spec_trace)
    ultimately show ?thesis using same f(2) by (simp add: nf_same_def nf_follows_def)
  qed
qed

text \<open>
  C20: Over any run the files of the users are those that the requests, taken as operations on a map from
  users and names to sizes, leave.
\<close>

theorem file_system_is_map:
  assumes "nf_run newId og evs s = Ok t" "users_wf (nf_users s)" "queue s = []" "\<not> latencyScheduled s"
  shows "fs_map (nf_users t) = fold fs_spec evs (fs_map (nf_users s)) \<and> users_wf (nf_users t)"
  using assms
proof (induction evs arbitrary: s)
  case Nil
  then show ?case by (simp add: nf_run_def)
next
  case (Cons ev evs)
  from Cons.prems(1) obtain u where u: "nf_event newId og ev s = Ok u" "nf_run newId og evs u = Ok t"
    by (auto simp: nf_run_def elim: bind_res_OkE)
  from nf_event_follows[OF u(1) Cons.prems(2-4)] have "nf_follows (fs_spec ev) s u" .
  with Cons.IH[OF u(2)] Cons.prems(4) show ?case by (simp add: nf_follows_def)
qed

section \<open>Answers\<close>

definition fs_time :: "int \<Rightarrow> rat" where
  "fs_time op = (if op = SM_OPEN_FILE then OPEN_TIME else if op = SM_CREATE_FILE then CREATE_TIME else CLOSE_TIME)"

text \<open>The requests that the file system answers by itself; a deletion over NFS goes to the disk too.\<close>

definition own_answer :: "node_fs \<Rightarrow> io_fields \<Rightarrow> message \<Rightarrow> bool" where
  "own_answer s io sm \<longleftrightarrow>
     operation sm = SM_OPEN_FILE \<and> fs_map (nf_users s) (uid sm) (io_fileName io) \<noteq> None \<or> operation sm = SM_CLOSE_FILE \<or>
     operation sm = SM_CREATE_FILE \<and> fs_map (nf_users s) (uid sm) (io_fileName io) = None \<or>
     operation sm = SM_DELETE_FILE \<and> nfs_connectionID (io_nfs io) = -1"

definition nf_frame :: "node_fs \<Rightarrow> node_fs \<Rightarrow> bool" where
  "nf_frame s t \<longleftrightarrow> queue t = queue s \<and> latencyScheduled t = latencyScheduled s \<and> nf_pending t = nf_pending s \<and> nf_agenda t = nf_agenda s \<and>
     nf_deletions t = nf_deletions s"

lemma user_of_request_frame: "user_of_request u s = (i, t) \<Longrightarrow> nf_frame s t"
  by (auto simp: user_of_request_def nf_frame_def split: option.splits)

lemma searchFile_map: "searchFile n fs = None \<longleftrightarrow> file_map fs n = None"
  by (auto simp: searchFile_def index_of_None file_map_None)

lemma own_answer_scheduled:
  assumes "cast_io m = Some io" "own_answer s io m" "users_wf (nf_users s)" "queue s = []" "msg_trace m \<noteq> []"
  shows "\<exists>k t. nf_processIORequest now newId og Ok m s = Ok (nf_later (fs_time (operation m) + now) (newId m k) m t) \<and> nf_frame s t \<and>
    (\<exists>ds. outbox t = outbox s @ map Deleted ds)"
proof -
  obtain i u where u: "user_of_request (uid m) s = (i, u)" by force
  note w = user_of_request_wf[OF u assms(3)]
  have f: "nf_frame s u" by (rule user_of_request_frame[OF u])
  have out: "outbox u = outbox s @ map Deleted []" using u by (auto simp: user_of_request_def split: option.splits)
  have found: "searchFile n (user_files i u) = None \<longleftrightarrow> fs_map (nf_users s) (uid m) n = None" for n
    using fs_map_at[of "nf_users u" i] w by (simp add: searchFile_map user_files_def)
  have ops: "SM_OPEN_FILE \<noteq> SM_CHANGE_DISK_STATE" "SM_CLOSE_FILE \<noteq> SM_CHANGE_DISK_STATE" "SM_CREATE_FILE \<noteq> SM_CHANGE_DISK_STATE"
    "SM_DELETE_FILE \<noteq> SM_CHANGE_DISK_STATE" "SM_CLOSE_FILE \<noteq> SM_OPEN_FILE" "SM_CREATE_FILE \<noteq> SM_OPEN_FILE"
    "SM_DELETE_FILE \<noteq> SM_OPEN_FILE" "SM_CREATE_FILE \<noteq> SM_CLOSE_FILE" "SM_DELETE_FILE \<noteq> SM_CLOSE_FILE" "SM_DELETE_FILE \<noteq> SM_CREATE_FILE"
    "SM_CLOSE_FILE \<noteq> SM_CREATE_FILE"
    by (simp_all add: SM_CHANGE_DISK_STATE_def SM_OPEN_FILE_def SM_CLOSE_FILE_def SM_CREATE_FILE_def SM_DELETE_FILE_def)
  have frame: "nf_frame s (emit e (set_files i fs u))" "nf_frame s (set_files i fs u)" for e fs
    using f by (simp_all add: nf_frame_def set_files_def emit_def)
  consider "operation m = SM_OPEN_FILE" | "operation m = SM_CLOSE_FILE" | "operation m = SM_CREATE_FILE" | "operation m = SM_DELETE_FILE"
    using assms(2) by (auto simp: own_answer_def)
  then show ?thesis
  proof cases
    case 1
    then have "fs_map (nf_users s) (uid m) (io_fileName io) \<noteq> None" using assms(2) ops(5,6,7) by (simp add: own_answer_def)
    then have "nf_processIORequest now newId og Ok m s = Ok (nf_later (fs_time (operation m) + now) (newId m 0) m u)"
      using 1 assms(1) u ops found by (simp add: nf_processIORequest_def fs_time_def)
    with f out show ?thesis by blast
  next
    case 2
    then have "nf_processIORequest now newId og Ok m s = Ok (nf_later (fs_time (operation m) + now) (newId m 0) m u)"
      using assms(1) u ops by (simp add: nf_processIORequest_def fs_time_def)
    with f out show ?thesis by blast
  next
    case 3
    then have "fs_map (nf_users s) (uid m) (io_fileName io) = None" using assms(2) ops by (simp add: own_answer_def)
    then have none: "searchFile (io_fileName io) (user_files i u) = None" using found by simp
    let ?v = "set_files i (insertNewFile (word_of_nat (io_size io)) (io_fileName io) (user_files i u)) u"
    let ?bl = "new_blocklist (newId m 0) io m"
    have "nf_processIORequest now newId og Ok m s = Ok (nf_later (fs_time (operation m) + now) (newId m 1) m
        (if nfs_connectionID (io_nfs io) \<noteq> -1 then emit (Deleted ?bl) ?v else ?v))"
      using 3 assms(1) u ops none by (simp add: nf_processIORequest_def nf_create_def capacity_change_def fs_time_def Let_def)
    moreover have "nf_frame s (if nfs_connectionID (io_nfs io) \<noteq> -1 then emit (Deleted ?bl) ?v else ?v)" using frame by simp
    moreover have "outbox ?v = outbox s @ map Deleted []" "outbox (emit (Deleted ?bl) ?v) = outbox s @ map Deleted [?bl]"
      using out by (simp_all add: set_files_def)
    then have "\<exists>ds. outbox (if nfs_connectionID (io_nfs io) \<noteq> -1 then emit (Deleted ?bl) ?v else ?v) = outbox s @ map Deleted ds"
      by (intro exI[of _ "if nfs_connectionID (io_nfs io) \<noteq> -1 then [?bl] else []"]) simp
    ultimately show ?thesis by blast
  next
    case 4
    let ?v = "set_files i (deleteFile (io_fileName io) (user_files i u)) u"
    have "nfs_connectionID (io_nfs io) = -1" using 4 assms(2) ops by (simp add: own_answer_def)
    then have "nf_processIORequest now newId og Ok m s = Ok (nf_later (fs_time (operation m) + now) (newId m 1) m ?v)"
      using 4 assms(1) u ops by (simp add: nf_processIORequest_def nf_delete_def fs_time_def Let_def)
    moreover have "outbox ?v = outbox s @ map Deleted []" using out by (simp add: set_files_def)
    moreover have "nf_frame s ?v" by (rule frame(2))
    ultimately show ?thesis by blast
  qed
qed

lemma extract_pushed:
  assumes "i \<notin> snd ` set (nf_pending s)"
  shows "extractPendingMessage i (pushPendingMessage m i s) = Ok (m, s)"
proof -
  have a: "filter (\<lambda>p. snd p = i) (nf_pending s) = []" "filter (\<lambda>p. snd p \<noteq> i) (nf_pending s) = nf_pending s"
    using assms by (auto simp: filter_empty_conv filter_id_conv)
  then have "filter (\<lambda>p. snd p = i) (nf_pending s @ [(m, i)]) = [(m, i)]" "filter (\<lambda>p. snd p \<noteq> i) (nf_pending s @ [(m, i)]) = nf_pending s"
    by simp_all
  then show ?thesis by (simp add: extractPendingMessage_def pushPendingMessage_def)
qed

text \<open>When its timer is due, a request is answered, and nothing of it is left.\<close>

lemma answered_when_due:
  assumes "i \<notin> snd ` set (nf_pending t)" "queue t = []" "nf_agenda t = as"
    and "getLastGateId (msg_trace m) = Ok g" "removeLastModuleFromTrace (msg_trace m) = Ok tr"
  shows "\<exists>s2. nf_event newId og (FsDue (length as)) (nf_later (x + now) i m t) = Ok s2 \<and> nf_agenda s2 = as \<and>
    nf_pending s2 = nf_pending t \<and> queue s2 = [] \<and> latencyScheduled s2 = latencyScheduled t \<and> nf_deletions s2 = nf_deletions t \<and>
    outbox s2 = outbox t @ [Sent (m\<lparr>isResponse := True, result_code := icancloud_OK, msg_trace := tr\<rparr>) (ViaGateId g)]"
proof -
  let ?m = "m\<lparr>isResponse := True, result_code := icancloud_OK\<rparr>"
  define w where "w = nf_later (x + now) i m t"
  have w: "nf_agenda w = as @ [(x + now, i)]" "w\<lparr>nf_agenda := as\<rparr> = pushPendingMessage ?m i t"
    using assms(3) by (cases t; simp add: w_def nf_later_def pushPendingMessage_def)+
  have "nf_event newId og (FsDue (length as)) w = nf_processSelfMessage (nf_pump (x + now) newId og) i (w\<lparr>nf_agenda := as\<rparr>)"
    by (simp add: nf_event_def w(1))
  also have "\<dots> = sendResponseMessage (nf_pump (x + now) newId og) ?m t"
    by (simp add: nf_processSelfMessage_def w(2) extract_pushed[OF assms(1)])
  also have "\<dots> = Ok (emit (Sent (?m\<lparr>msg_trace := tr\<rparr>) (ViaGateId g)) t)"
    using assms(2,4,5) by (simp add: sendResponseMessage_def nf_pump_def)
  finally show ?thesis using assms(2,3) by (simp add: emit_def w_def)
qed

lemma trace_frame: "updateMessageTrace og sm s = Ok (m, u) \<Longrightarrow> nf_frame s u \<and> nf_users u = nf_users s \<and> outbox u = outbox s"
  using nf_same_more[of u s] by (cases s; cases u) (auto simp: nf_frame_def dest!: updateMessageTrace_frame)

subsection \<open>What a run does to one request\<close>

fun sends_id :: "int \<Rightarrow> event \<Rightarrow> bool" where
  "sends_id i (Sent m d) \<longleftrightarrow> msg_id m = i"
| "sends_id i (Deleted m) \<longleftrightarrow> False"

text \<open>What the file system has sent under the id of a request.\<close>

definition answers :: "int \<Rightarrow> node_fs \<Rightarrow> event list" where
  "answers i s = filter (sends_id i) (outbox s)"

text \<open>From \<open>s\<close> to \<open>t\<close> nothing happens to the request \<open>i\<close> and its timer \<open>l\<close>.\<close>

definition apart :: "int \<Rightarrow> int \<Rightarrow> node_fs \<Rightarrow> node_fs \<Rightarrow> bool" where
  "apart i l s t \<longleftrightarrow> queue t = queue s \<and> latencyScheduled t = latencyScheduled s \<and> answers i t = answers i s \<and>
     filter (\<lambda>p. snd p = l \<or> msg_id (fst p) = i) (nf_pending t) = filter (\<lambda>p. snd p = l \<or> msg_id (fst p) = i) (nf_pending s) \<and>
     filter (\<lambda>a. snd a = l) (nf_agenda t) = filter (\<lambda>a. snd a = l) (nf_agenda s)"

lemma apart_refl: "apart i l s s"
  by (simp add: apart_def)

lemma apart_trans: "apart i l s t \<Longrightarrow> apart i l t u \<Longrightarrow> apart i l s u"
  by (simp add: apart_def)

lemma apart_frame: "nf_frame s t \<Longrightarrow> answers i t = answers i s \<Longrightarrow> apart i l s t"
  by (simp add: apart_def nf_frame_def)

lemma apart_later: "k \<noteq> l \<Longrightarrow> msg_id m \<noteq> i \<Longrightarrow> apart i l s (nf_later x k m s)"
  by (simp add: apart_def nf_later_def pushPendingMessage_def answers_def)

lemma apart_updates:
  "apart i l s (set_files k fs s)" "apart i l s (s\<lparr>nf_users := us\<rparr>)" "apart i l s (s\<lparr>nf_deletions := ds\<rparr>)"
  "user_of_request u s = (k, t) \<Longrightarrow> apart i l s t"
  by (auto simp: apart_def answers_def set_files_def user_of_request_def split: option.splits)

lemma apart_more:
  assumes "queue t = queue s" "latencyScheduled t = latencyScheduled s" "module_state.more t = module_state.more s"
    and "outbox t = outbox s @ es" "\<forall>e\<in>set es. \<not> sends_id i e"
  shows "apart i l s t"
proof -
  have "filter (sends_id i) es = []" using assms(5) by (simp add: filter_empty_conv)
  with assms(1-4) show ?thesis by (cases s; cases t) (simp add: apart_def answers_def)
qed

lemma apart_emit: "\<not> sends_id i e \<Longrightarrow> apart i l s (emit e s)"
  by (rule apart_more[where es = "[e]"]) simp_all

lemma apart_send:
  assumes "sendRequestMessage og p m g s = Ok t" "msg_id m \<noteq> i" "queue s = []" "\<And>t. queue t = [] \<Longrightarrow> p t = Ok t"
  shows "apart i l s t"
  using sendRequestMessage_frame[of og m g s t] sendRequestMessage_idle[of s p og m g] assms
  by (auto intro!: apart_more)

lemma apart_respond:
  assumes "sendResponseMessage p m s = Ok t" "msg_id m \<noteq> i" "queue s = []" "\<And>t. queue t = [] \<Longrightarrow> p t = Ok t"
  shows "apart i l s t"
  using sendResponseMessage_frame[of m s t] sendResponseMessage_idle[of s p m] assms
  by (auto intro!: apart_more)

lemma apart_queue: "apart i l s t \<Longrightarrow> queue s = [] \<Longrightarrow> queue t = []"
  by (simp add: apart_def)

lemma apart_delete_all:
  assumes "delete_all newId og Ok io sm k fs s = Ok t" "queue s = []" "\<And>j. newId sm j \<noteq> i"
  shows "apart i l s t"
  using assms(1,2)
proof (induction fs arbitrary: k s)
  case (Cons f fs)
  let ?s = "s\<lparr>nf_deletions := nf_deletions s @ [newId sm k]\<rparr>"
  from Cons.prems(1) obtain v where v: "sendRequestMessage og Ok (file_deletion (newId sm k) io (fi_size f) sm) toVMGate ?s = Ok v"
    "delete_all newId og Ok io sm (Suc k) fs v = Ok t" by (auto elim: bind_res_OkE)
  have "msg_id (file_deletion (newId sm k) io (fi_size f) sm) \<noteq> i"
    using assms(3) by (simp add: file_deletion_def set_io_def new_blocklist_def)
  from apart_trans[OF apart_updates(3) apart_send[OF v(1) this]] Cons.prems(2) have "apart i l s v" by simp
  with Cons.IH[OF v(2)] apart_queue[OF _ Cons.prems(2)] apart_trans show ?case by blast
qed (simp add: apart_refl)

text \<open>Handling another request.\<close>

lemma new_ids_simps:
  "msg_id (new_blocklist k io m) = k" "msg_id (state_blocks k io m) = k" "msg_id (transformToApp_IO_Message k io m) = k"
  by (simp_all add: new_blocklist_def state_blocks_def transformToApp_IO_Message_def)

lemma translated_id: "translateIORequests io b fs = Ok bl \<Longrightarrow> msg_id bl = msg_id b"
  by (auto simp: translateIORequests_def set_blocks_def set_io_def Let_def split: option.splits)

lemma apart_transfer:
  assumes "nf_transfer newId og Ok k io m s = Ok t" "queue s = []" "msg_id m \<noteq> i" "\<And>j. newId m j \<noteq> i"
  shows "apart i l s t"
proof -
  from assms(1) obtain bl where bl: "translateIORequests io (new_blocklist (newId m 0) io m) (user_files k s) = Ok bl"
    "(if isResponse bl then sendResponseMessage Ok (m\<lparr>isResponse := True, result_code := result_code bl\<rparr>) (emit (Deleted bl) s)
      else sendRequestMessage og Ok bl toVMGate (emit (Deleted m) s)) = Ok t"
    by (auto simp: nf_transfer_def bind_res_Ok_iff split: if_splits)
  have "msg_id bl \<noteq> i" using translated_id[OF bl(1)] assms(4) by (simp add: new_ids_simps)
  show ?thesis
  proof (cases "isResponse bl")
    case True
    then have "sendResponseMessage Ok (m\<lparr>isResponse := True, result_code := result_code bl\<rparr>) (emit (Deleted bl) s) = Ok t"
      using bl(2) by simp
    from apart_respond[where i = i, OF this] assms(2,3) have "apart i l (emit (Deleted bl) s) t" by simp
    then show ?thesis by (rule apart_trans[OF apart_emit, rotated]) simp
  next
    case False
    then have "sendRequestMessage og Ok bl toVMGate (emit (Deleted m) s) = Ok t" using bl(2) by simp
    from apart_send[OF this \<open>msg_id bl \<noteq> i\<close>] assms(2) have "apart i l (emit (Deleted m) s) t" by simp
    then show ?thesis by (rule apart_trans[OF apart_emit, rotated]) simp
  qed
qed

lemma apart_create:
  assumes "nf_create now newId k io m s = Ok t" "msg_id m \<noteq> i" "\<And>j. newId m j \<noteq> l"
  shows "apart i l s t"
proof -
  let ?w = "\<lambda>fs. set_files k fs s"
  obtain fs d where "t = nf_later (CREATE_TIME + now) (newId m 1) m (?w fs) \<or>
      t = nf_later (CREATE_TIME + now) (newId m 1) m (emit (Deleted d) (?w fs))"
    using assms(1) by (auto simp: nf_create_def bind_res_Ok_iff Let_def split: if_splits)
  then show ?thesis
    using apart_trans[OF apart_updates(1) apart_later[OF assms(3,2)]]
      apart_trans[OF apart_trans[OF apart_updates(1) apart_emit] apart_later[OF assms(3,2)]] by auto
qed

lemma apart_delete:
  assumes "nf_delete now newId og Ok k io m s = Ok t" "queue s = []" "msg_id m \<noteq> i" "\<And>j. newId m j \<noteq> i" "\<And>j. newId m j \<noteq> l"
  shows "apart i l s t"
proof -
  let ?w = "set_files k (deleteFile (io_fileName io) (user_files k s)) s"
  obtain v where v: "t = nf_later (CLOSE_TIME + now) (newId m 1) m v"
    "v = ?w \<or> sendRequestMessage og Ok (new_blocklist (newId m 0) io m) toVMGate ?w = Ok v"
    using assms(1) by (auto simp: nf_delete_def bind_res_Ok_iff Let_def split: if_splits)
  have "queue ?w = []" using assms(2) by (simp add: set_files_def)
  then have "apart i l ?w v" using v(2) apart_send[of og Ok _ toVMGate ?w v i l] assms(4) by (auto simp: new_ids_simps apart_refl)
  then show ?thesis using v(1) apart_trans[OF apart_updates(1) apart_trans[OF _ apart_later[OF assms(5,3)]]] by simp
qed

lemma apart_request:
  assumes "nf_processIORequest now newId og Ok m s = Ok t" "queue s = []" "msg_id m \<noteq> i"
    and n: "\<And>j. newId m j \<noteq> i" "\<And>j. newId m j \<noteq> l"
  shows "apart i l s t"
proof -
  from assms(1) obtain io where io: "cast_io m = Some io" by (auto simp: nf_processIORequest_def split: option.splits)
  obtain k u where u: "user_of_request (uid m) s = (k, u)" by force
  note su = apart_updates(4)[OF u, of i l]
  have q: "queue u = []" using apart_queue[OF su assms(2)] .
  have later: "apart i l s (nf_later x (newId m j) m u)" for x j by (rule apart_trans[OF su apart_later[OF n(2) assms(3)]])
  show ?thesis
  proof (cases "operation m = SM_CHANGE_DISK_STATE")
    case True
    then have "sendRequestMessage og Ok (state_blocks (newId m 0) io m) toVMGate (emit (Deleted m) s) = Ok t"
      using assms(1) io by (simp add: nf_processIORequest_def)
    from apart_send[OF this] have "apart i l (emit (Deleted m) s) t" using assms(2) n(1) by (simp add: new_ids_simps)
    from apart_trans[OF apart_emit this] show ?thesis by simp
  next
    case False
    have "(\<exists>x j. t = nf_later x (newId m j) m u) \<or> nf_create now newId k io m u = Ok t \<or> nf_delete now newId og Ok k io m u = Ok t \<or>
        bind_res (nf_deleteUser newId og Ok io m u) (sendResponseMessage Ok (m\<lparr>result_code := icancloud_OK, isResponse := True\<rparr>)) = Ok t \<or>
        nf_transfer newId og Ok k io m u = Ok t"
      using assms(1) False io u by (auto simp: nf_processIORequest_def Let_def split: if_splits)
    moreover have "apart i l u t"
      if "bind_res (nf_deleteUser newId og Ok io m u) (sendResponseMessage Ok (m\<lparr>result_code := icancloud_OK, isResponse := True\<rparr>)) = Ok t"
    proof -
      from that obtain v where v: "nf_deleteUser newId og Ok io m u = Ok v"
        "sendResponseMessage Ok (m\<lparr>result_code := icancloud_OK, isResponse := True\<rparr>) v = Ok t" by (auto elim: bind_res_OkE)
      have "apart i l u v"
      proof (cases "user_index (uid m) u")
        case None
        then show ?thesis using v(1) by (simp add: nf_deleteUser_def apart_refl)
      next
        case (Some j)
        then obtain w where w: "delete_all newId og Ok io m 0 (user_files j u) u = Ok w" "v = w\<lparr>nf_users := remove_at j (nf_users w)\<rparr>"
          using v(1) by (auto simp: nf_deleteUser_def elim: bind_res_OkE)
        from apart_trans[OF apart_delete_all[where i = i, OF w(1) q n(1)] apart_updates(2)] show ?thesis by (simp add: w(2))
      qed
      moreover have "apart i l v t" using apart_respond[OF v(2)] assms(3) apart_queue[OF \<open>apart i l u v\<close> q] by simp
      ultimately show ?thesis by (rule apart_trans)
    qed
    ultimately show ?thesis
      using later apart_trans[OF su] apart_create[where newId = newId and m = m, OF _ assms(3) n(2)]
        apart_delete[where newId = newId and m = m, OF _ q assms(3) n] apart_transfer[where newId = newId and m = m, OF _ q assms(3) n(1)]
      by blast
  qed
qed

text \<open>The request waits for its timer, or it has been answered once and nothing of it is left.\<close>

definition once :: "event list \<Rightarrow> message \<Rightarrow> event \<Rightarrow> int \<Rightarrow> node_fs \<Rightarrow> bool" where
  "once sent r a l s \<longleftrightarrow> queue s = [] \<and> \<not> latencyScheduled s \<and>
     (let P = filter (\<lambda>p. snd p = l \<or> msg_id (fst p) = msg_id r) (nf_pending s); A = filter (\<lambda>a. snd a = l) (nf_agenda s)
      in P = [(r, l)] \<and> (\<exists>x. A = [(x, l)]) \<and> answers (msg_id r) s = sent \<or>
         P = [] \<and> A = [] \<and> answers (msg_id r) s = sent @ [a])"

lemma once_apart: "apart (msg_id r) l s t \<Longrightarrow> once sent r a l s \<Longrightarrow> once sent r a l t"
  by (simp add: once_def apart_def)

lemma extracted:
  assumes "extractPendingMessage k s = Ok (m, t)"
  shows "t = s\<lparr>nf_pending := filter (\<lambda>p. snd p \<noteq> k) (nf_pending s)\<rparr>" "(m, k) \<in> set (nf_pending s)"
proof -
  from assms obtain p ps where p: "filter (\<lambda>p. snd p = k) (nf_pending s) = p # ps" "m = fst (last (p # ps))"
    "t = s\<lparr>nf_pending := filter (\<lambda>p. snd p \<noteq> k) (nf_pending s)\<rparr>" by (auto simp: extractPendingMessage_def split: list.splits)
  show "t = s\<lparr>nf_pending := filter (\<lambda>p. snd p \<noteq> k) (nf_pending s)\<rparr>" by fact
  have "last (p # ps) \<in> set (filter (\<lambda>p. snd p = k) (nf_pending s))" unfolding p(1) by (rule last_in_set) simp
  then have "last (p # ps) \<in> set (nf_pending s)" "snd (last (p # ps)) = k" by (simp_all del: last.simps)
  then show "(m, k) \<in> set (nf_pending s)" using p(2) by (metis prod.collapse)
qed

text \<open>The timer of the request is due.\<close>

lemma once_due:
  assumes "once sent r (Sent (r\<lparr>msg_trace := tr\<rparr>) (ViaGateId g)) l s" "k < length (nf_agenda s)" "snd (nf_agenda s ! k) = l"
    and "getLastGateId (msg_trace r) = Ok g" "removeLastModuleFromTrace (msg_trace r) = Ok tr"
  shows "\<exists>t. nf_event newId og (FsDue k) s = Ok t \<and> once sent r (Sent (r\<lparr>msg_trace := tr\<rparr>) (ViaGateId g)) l t"
proof -
  let ?a = "Sent (r\<lparr>msg_trace := tr\<rparr>) (ViaGateId g)" and ?P = "\<lambda>p. snd p = l \<or> msg_id (fst p) = msg_id r"
  obtain now where k: "nf_agenda s ! k = (now, l)" using assms(3) by (cases "nf_agenda s ! k") simp
  have "nf_agenda s ! k \<in> set (filter (\<lambda>a. snd a = l) (nf_agenda s))" using assms(2,3) by simp
  then have "filter (\<lambda>a. snd a = l) (nf_agenda s) \<noteq> []" by force
  then obtain x where w: "queue s = []" "\<not> latencyScheduled s" "filter ?P (nf_pending s) = [(r, l)]"
    "filter (\<lambda>a. snd a = l) (nf_agenda s) = [(x, l)]" "answers (msg_id r) s = sent"
    using assms(1) by (auto simp: once_def Let_def)
  let ?v = "s\<lparr>nf_agenda := remove_at k (nf_agenda s)\<rparr>" and ?rest = "filter (\<lambda>p. snd p \<noteq> l) (nf_pending s)"
  have "filter (\<lambda>p. snd p = l) (nf_pending s) = filter (\<lambda>p. snd p = l) (filter ?P (nf_pending s))" by (simp add: conj_commute conj_disj_distribL cong: conj_cong)
  then have "filter (\<lambda>p. snd p = l) (nf_pending s) = [(r, l)]" by (simp add: w(3))
  then have e: "extractPendingMessage l ?v = Ok (r, ?v\<lparr>nf_pending := ?rest\<rparr>)" by (simp add: extractPendingMessage_def)
  have "filter ?P ?rest = filter (\<lambda>p. snd p \<noteq> l) (filter ?P (nf_pending s))" by (simp add: conj_commute)
  then have rest: "filter ?P ?rest = []" by (simp add: w(3))
  have agenda: "filter (\<lambda>a. snd a = l) (remove_at k (nf_agenda s)) = []"
    using filter_remove_at(2)[OF assms(2), of "\<lambda>a. snd a = l"] assms(3) w(4) by blast
  have "nf_event newId og (FsDue k) s = Ok (emit ?a (?v\<lparr>nf_pending := ?rest\<rparr>))"
    using assms(2,4,5) k w(1) by (simp add: nf_event_def nf_processSelfMessage_def e sendResponseMessage_def nf_pump_def)
  moreover have "once sent r ?a l (emit ?a (?v\<lparr>nf_pending := ?rest\<rparr>))"
    using w(1,2,5) rest agenda by (simp add: once_def Let_def emit_def answers_def)
  ultimately show ?thesis by blast
qed

lemma once_event:
  assumes o: "once sent r (Sent (r\<lparr>msg_trace := tr\<rparr>) (ViaGateId g)) l s" and ev: "nf_event newId og ev s = Ok t"
    and g: "getLastGateId (msg_trace r) = Ok g" "removeLastModuleFromTrace (msg_trace r) = Ok tr"
    and other: "\<And>now m. ev = FsArrives now m \<Longrightarrow> msg_id m \<noteq> msg_id r"
    and new: "\<And>m j. newId m j \<noteq> msg_id r" "\<And>m j. msg_id m \<noteq> msg_id r \<Longrightarrow> newId m j \<noteq> l"
  shows "once sent r (Sent (r\<lparr>msg_trace := tr\<rparr>) (ViaGateId g)) l t"
proof -
  have q: "queue s = []" "\<not> latencyScheduled s" using o by (simp_all add: once_def)
  have idle: "\<And>now u. queue u = [] \<Longrightarrow> nf_pump now newId og u = Ok u" by (simp add: nf_pump_def)
  show ?thesis
  proof (cases ev)
    case (FsDue k)
    show ?thesis
    proof (cases "k < length (nf_agenda s) \<and> snd (nf_agenda s ! k) \<noteq> l")
      case False
      show ?thesis
      proof (cases "k < length (nf_agenda s)")
        case True
        then have "\<exists>t. nf_event newId og (FsDue k) s = Ok t \<and> once sent r (Sent (r\<lparr>msg_trace := tr\<rparr>) (ViaGateId g)) l t"
          using once_due[OF o _ _ g] False by blast
        then show ?thesis using ev FsDue by auto
      next
        case False
        then show ?thesis using o ev FsDue by (simp add: nf_event_def)
      qed
    next
      case True
      obtain now j where k: "nf_agenda s ! k = (now, j)" by force
      then have j: "j \<noteq> l" using True by simp
      let ?v = "s\<lparr>nf_agenda := remove_at k (nf_agenda s)\<rparr>"
      have v: "apart (msg_id r) l s ?v" using filter_remove_at(1)[of k "nf_agenda s"] True by (simp add: apart_def answers_def)
      from ev True k obtain m w where w: "extractPendingMessage j ?v = Ok (m, w)"
        "sendResponseMessage (nf_pump now newId og) m w = Ok t"
        by (auto simp: nf_event_def FsDue nf_processSelfMessage_def bind_res_Ok_iff)
      note ex = extracted[OF w(1)]
      have "set (filter (\<lambda>p. snd p = l \<or> msg_id (fst p) = msg_id r) (nf_pending s)) \<subseteq> {(r, l)}"
        using o by (auto simp: once_def Let_def simp del: set_filter)
      then have here: "\<forall>p\<in>set (nf_pending s). msg_id (fst p) = msg_id r \<longrightarrow> snd p = l" by auto
      then have m: "msg_id m \<noteq> msg_id r" using ex(2) j by auto
      have "filter (\<lambda>p. snd p = l \<or> msg_id (fst p) = msg_id r) (filter (\<lambda>p. snd p \<noteq> j) (nf_pending s)) =
          filter (\<lambda>p. snd p = l \<or> msg_id (fst p) = msg_id r) (nf_pending s)"
        unfolding filter_filter by (rule filter_cong) (use here j in auto)
      then have vw: "apart (msg_id r) l ?v w" by (simp add: ex(1) apart_def answers_def)
      have "apart (msg_id r) l w t"
        by (rule apart_respond[OF w(2) m apart_queue[OF vw] idle]) (simp_all add: q)
      from once_apart[OF apart_trans[OF v apart_trans[OF vw this]] o] show ?thesis .
    qed
  next
    case (FsArrives now m)
    note m = other[OF FsArrives]
    have "apart (msg_id r) l s t"
    proof (cases "isResponse m")
      case True
      let ?v = "s\<lparr>nf_deletions := remove_first (\<lambda>j. j = msg_id m) (nf_deletions s)\<rparr>"
      from ev True obtain w io where w: "t = emit (Deleted m) w"
        "w = ?v \<or> sendResponseMessage (nf_pump now newId og) (transformToApp_IO_Message (newId m 0) io m) ?v = Ok w"
        by (auto simp: nf_event_def FsArrives nf_processResponseMessage_def checkResponseMsg_def bind_res_Ok_iff
            split: option.splits if_splits)
      have "apart (msg_id r) l ?v w"
        using w(2) apart_respond[OF _ _ _ idle, where i = "msg_id r"] new(1) q(1) by (auto simp: new_ids_simps apart_refl)
      then show ?thesis using w(1) apart_trans[OF apart_updates(3) apart_trans[OF _ apart_emit]] by simp
    next
      case False
      from ev False obtain m' u where u: "updateMessageTrace og m s = Ok (m', u)"
        by (auto simp: nf_event_def FsArrives elim: bind_res_OkE)
      have r: "nf_processIORequest now newId og Ok m' u = Ok t" using ev nf_arrives[OF q False u] by (simp add: FsArrives)
      have m': "msg_id m' \<noteq> msg_id r" using updateMessageTrace_frame[OF u] m by auto
      have su: "apart (msg_id r) l s u" using trace_frame[OF u] by (auto simp: answers_def intro!: apart_frame)
      from apart_request[OF r apart_queue[OF su q(1)] m' new(1) new(2)[OF m']] show ?thesis by (rule apart_trans[OF su])
    qed
    from once_apart[OF this o] show ?thesis .
  qed
qed

lemma once_run:
  assumes "once sent r (Sent (r\<lparr>msg_trace := tr\<rparr>) (ViaGateId g)) l s" "nf_run newId og evs s = Ok t"
    and g: "getLastGateId (msg_trace r) = Ok g" "removeLastModuleFromTrace (msg_trace r) = Ok tr"
    and "\<forall>now m. FsArrives now m \<in> set evs \<longrightarrow> msg_id m \<noteq> msg_id r"
    and new: "\<And>m j. newId m j \<noteq> msg_id r" "\<And>m j. msg_id m \<noteq> msg_id r \<Longrightarrow> newId m j \<noteq> l"
  shows "once sent r (Sent (r\<lparr>msg_trace := tr\<rparr>) (ViaGateId g)) l t"
  using assms(1,2,5)
proof (induction evs arbitrary: s)
  case Nil
  then show ?case by (simp add: nf_run_def)
next
  case (Cons ev evs)
  from Cons.prems(2) obtain u where u: "nf_event newId og ev s = Ok u" "nf_run newId og evs u = Ok t"
    by (auto simp: nf_run_def elim: bind_res_OkE)
  from once_event[OF Cons.prems(1) u(1) g _ new] Cons.prems(3) have "once sent r (Sent (r\<lparr>msg_trace := tr\<rparr>) (ViaGateId g)) l u" by auto
  from Cons.IH[OF this u(2)] Cons.prems(3) show ?case by auto
qed

text \<open>
  The ids of new messages are new: none is the id of the request \<open>i\<close>, and those that are made for \<open>i\<close> differ from
  those that are made for others.
\<close>

definition new_ids :: "(message \<Rightarrow> nat \<Rightarrow> int) \<Rightarrow> int \<Rightarrow> bool" where
  "new_ids newId i \<longleftrightarrow> (\<forall>m k. newId m k \<noteq> i) \<and> (\<forall>m n j k. msg_id m = i \<and> msg_id n \<noteq> i \<longrightarrow> newId m j \<noteq> newId n k)"

text \<open>The arrival of such a request.\<close>

lemma own_answer_accepted:
  assumes "users_wf (nf_users s)" "queue s = []" "\<not> latencyScheduled s" "cast_io sm = Some io" "\<not> isResponse sm"
    and "msg_trace sm \<noteq> []" "own_answer s io sm" "\<forall>p\<in>set (nf_pending s). msg_id (fst p) \<noteq> msg_id sm"
    and "\<forall>m k. msg_id m = msg_id sm \<longrightarrow> newId m k \<notin> snd ` set (nf_pending s) \<and> newId m k \<notin> snd ` set (nf_agenda s)"
    and g: "g = (case og sm of None \<Rightarrow> NO_GATE_ID | Some g \<Rightarrow> g)"
  obtains t k ds s1 where "nf_event newId og (FsArrives now sm) s = Ok s1" "outbox s1 = outbox s @ map Deleted ds"
    "nf_agenda s1 = nf_agenda s @ [(fs_time (operation sm) + now, newId (sm\<lparr>msg_trace := t\<rparr>) k)]"
    "getLastGateId t = Ok g" "removeLastModuleFromTrace t = Ok (msg_trace sm)"
    "once (answers (msg_id sm) s) (sm\<lparr>msg_trace := t, isResponse := True, result_code := icancloud_OK\<rparr>)
       (Sent (sm\<lparr>isResponse := True, result_code := icancloud_OK, msg_trace := msg_trace sm\<rparr>) (ViaGateId g))
       (newId (sm\<lparr>msg_trace := t\<rparr>) k) s1"
proof -
  from assms(6) obtain t where t: "addModuleToTrace (module_id s) g (currentRequest s) (msg_trace sm) = Ok t"
    by (auto simp: addModuleToTrace_def)
  let ?m = "sm\<lparr>msg_trace := t\<rparr>" and ?u = "s\<lparr>currentRequest := Suc (currentRequest s)\<rparr>" and ?i = "msg_id sm"
  have up: "updateMessageTrace og sm s = Ok (?m, ?u)" by (simp add: updateMessageTrace_def t flip: g)
  have m: "cast_io ?m = Some io" "own_answer ?u io ?m" "users_wf (nf_users ?u)" "queue ?u = []" "msg_trace ?m \<noteq> []"
    using assms(1,2,4,7) addModule_lastGate[OF t] by (auto simp: cast_io_def own_answer_def getLastGateId_def lastModule_def)
  from own_answer_scheduled[OF m, of now newId og] obtain k v ds where
    v: "nf_processIORequest now newId og Ok ?m ?u = Ok (nf_later (fs_time (operation sm) + now) (newId ?m k) ?m v)" "nf_frame ?u v"
      "outbox v = outbox s @ map Deleted ds" by auto
  let ?l = "newId ?m k"
  let ?s1 = "nf_later (fs_time (operation sm) + now) ?l ?m v"
  have f: "nf_pending v = nf_pending s" "nf_agenda v = nf_agenda s" "queue v = []" "\<not> latencyScheduled v"
    using v(2) assms(2,3) by (simp_all add: nf_frame_def)
  have s1: "outbox ?s1 = outbox s @ map Deleted ds" "nf_agenda ?s1 = nf_agenda s @ [(fs_time (operation sm) + now, ?l)]"
    using v(3) f by (simp_all add: nf_later_def pushPendingMessage_def)
  have "?l \<notin> snd ` set (nf_pending s)" "?l \<notin> snd ` set (nf_agenda s)" using assms(9) by simp_all
  then have "filter (\<lambda>p. snd p = ?l \<or> msg_id (fst p) = ?i) (nf_pending s) = []" "filter (\<lambda>a. snd a = ?l) (nf_agenda s) = []"
    using assms(8) by (force simp: filter_empty_conv)+
  moreover have "answers ?i ?s1 = answers ?i s" by (auto simp: answers_def s1(1) filter_empty_conv)
  ultimately have once: "once (answers ?i s) (?m\<lparr>isResponse := True, result_code := icancloud_OK\<rparr>) e ?l ?s1" for e
    using f by (simp add: once_def nf_later_def pushPendingMessage_def)
  have "nf_event newId og (FsArrives now sm) s = Ok ?s1" using nf_arrives[OF assms(2,3,5) up] v(1) by simp
  then show thesis by (rule that[OF _ s1 addModule_lastGate[OF t] addModule_removeModule[OF t] once])
qed

text \<open>
  C28: The file system answers an operation on files of its own (to open a file that is there, to create one that
  is not, to close, to delete without NFS) exactly once.  The arrival sends nothing and sets a timer at the time of
  the operation; in any run that follows, with any other messages in between, nothing goes out under the id of the
  request while the timer is set, the timer can always fire, and once it has fired one answer is sent, with the result
  OK, where the request came from.
\<close>

theorem file_operation_answered:
  assumes "users_wf (nf_users s)" "queue s = []" "\<not> latencyScheduled s" "cast_io sm = Some io" "\<not> isResponse sm"
    and "msg_trace sm \<noteq> []" "own_answer s io sm" "new_ids newId (msg_id sm)"
    and "\<forall>p\<in>set (nf_pending s). msg_id (fst p) \<noteq> msg_id sm"
    and "\<forall>m k. msg_id m = msg_id sm \<longrightarrow> newId m k \<notin> snd ` set (nf_pending s) \<and> newId m k \<notin> snd ` set (nf_agenda s)"
  shows "\<exists>s1 l ds. nf_event newId og (FsArrives now sm) s = Ok s1 \<and> outbox s1 = outbox s @ map Deleted ds \<and>
    nf_agenda s1 = nf_agenda s @ [(fs_time (operation sm) + now, l)] \<and>
    (\<forall>evs s2. (\<forall>now m. FsArrives now m \<in> set evs \<longrightarrow> msg_id m \<noteq> msg_id sm) \<and> nf_run newId og evs s1 = Ok s2 \<longrightarrow>
      (if l \<in> snd ` set (nf_agenda s2)
       then answers (msg_id sm) s2 = answers (msg_id sm) s \<and>
         (\<forall>k<length (nf_agenda s2). snd (nf_agenda s2 ! k) = l \<longrightarrow> res_ok (nf_event newId og (FsDue k) s2))
       else answers (msg_id sm) s2 = answers (msg_id sm) s @
         [Sent (sm\<lparr>isResponse := True, result_code := icancloud_OK\<rparr>)
           (ViaGateId (case og sm of None \<Rightarrow> NO_GATE_ID | Some g \<Rightarrow> g))]))"
proof -
  let ?g = "case og sm of None \<Rightarrow> NO_GATE_ID | Some g \<Rightarrow> g" and ?i = "msg_id sm"
  obtain t k ds s1 where
    s1: "nf_event newId og (FsArrives now sm) s = Ok s1" "outbox s1 = outbox s @ map Deleted ds"
      "nf_agenda s1 = nf_agenda s @ [(fs_time (operation sm) + now, newId (sm\<lparr>msg_trace := t\<rparr>) k)]"
    and t: "getLastGateId t = Ok ?g" "removeLastModuleFromTrace t = Ok (msg_trace sm)"
    and start: "once (answers ?i s) (sm\<lparr>msg_trace := t, isResponse := True, result_code := icancloud_OK\<rparr>)
       (Sent (sm\<lparr>isResponse := True, result_code := icancloud_OK, msg_trace := msg_trace sm\<rparr>) (ViaGateId ?g))
       (newId (sm\<lparr>msg_trace := t\<rparr>) k) s1"
    by (rule own_answer_accepted[where now = now, OF assms(1-7,9,10) refl])
  let ?l = "newId (sm\<lparr>msg_trace := t\<rparr>) k" and ?r = "sm\<lparr>msg_trace := t, isResponse := True, result_code := icancloud_OK\<rparr>"
  let ?a = "Sent (?r\<lparr>msg_trace := msg_trace sm\<rparr>) (ViaGateId ?g)"
  have a: "?r\<lparr>msg_trace := msg_trace sm\<rparr> = sm\<lparr>isResponse := True, result_code := icancloud_OK\<rparr>" by (cases sm) simp
  have g: "getLastGateId (msg_trace ?r) = Ok ?g" "removeLastModuleFromTrace (msg_trace ?r) = Ok (msg_trace sm)" using t by simp_all
  have "newId m j \<noteq> ?l" if "msg_id m \<noteq> ?i" for m j
    using assms(8)[unfolded new_ids_def, THEN conjunct2, rule_format, of "sm\<lparr>msg_trace := t\<rparr>" m k j] that by auto
  then have new: "\<And>m j. newId m j \<noteq> msg_id ?r" "\<And>m j. msg_id m \<noteq> msg_id ?r \<Longrightarrow> newId m j \<noteq> ?l"
    using assms(8) by (simp_all add: new_ids_def)
  have run: "if ?l \<in> snd ` set (nf_agenda s2)
      then answers ?i s2 = answers ?i s \<and>
        (\<forall>k<length (nf_agenda s2). snd (nf_agenda s2 ! k) = ?l \<longrightarrow> res_ok (nf_event newId og (FsDue k) s2))
      else answers ?i s2 = answers ?i s @ [?a]"
    if "\<forall>now m. FsArrives now m \<in> set evs \<longrightarrow> msg_id m \<noteq> ?i" "nf_run newId og evs s1 = Ok s2" for evs s2
  proof -
    have o: "once (answers ?i s) ?r ?a ?l s2" using once_run[OF _ that(2) g _ new] start that(1) by simp
    have "?l \<in> snd ` set (nf_agenda s2) \<longleftrightarrow> filter (\<lambda>a. snd a = ?l) (nf_agenda s2) \<noteq> []" by (force simp: filter_empty_conv)
    then have "answers ?i s2 = (if ?l \<in> snd ` set (nf_agenda s2) then answers ?i s else answers ?i s @ [?a])"
      using o by (auto simp: once_def Let_def)
    moreover have "res_ok (nf_event newId og (FsDue k) s2)" if "k < length (nf_agenda s2)" "snd (nf_agenda s2 ! k) = ?l" for k
      using once_due[OF o that g, of newId og] by auto
    ultimately show ?thesis by simp
  qed
  show ?thesis
    by (intro exI[of _ s1] exI[of _ ?l] exI[of _ ds] conjI s1 allI impI run[unfolded a]) blast+
qed

text \<open>
  C19: The deletion of a file with an NFS connection is sent to the disk too, and the answer of the disk is
  passed on: the request is answered twice.
\<close>

theorem remote_delete_answered_twice:
  assumes "users_wf (nf_users s)" "queue s = []" "\<not> latencyScheduled s" "cast_io sm = Some io" "\<not> isResponse sm"
    and "msg_trace sm \<noteq> []" "operation sm = SM_DELETE_FILE" "nfs_connectionID (io_nfs io) \<noteq> -1"
    and "\<And>m k. newId m k \<notin> snd ` set (nf_pending s)" "\<And>m k. newId m k \<notin> set (nf_deletions s)"
    and g: "g = (case og sm of None \<Rightarrow> NO_GATE_ID | Some g \<Rightarrow> g)"
  shows "\<exists>bl s1 s2 s3 a. nf_event newId og (FsArrives now sm) s = Ok s1 \<and> outbox s1 = outbox s @ [Sent bl (ViaGate toVMGate)] \<and>
    nf_event newId og (FsDue (length (nf_agenda s))) s1 = Ok s2 \<and>
    nf_event newId og (FsArrives later (bl\<lparr>isResponse := True\<rparr>)) s2 = Ok s3 \<and>
    outbox s3 = outbox s1 @ [Sent (sm\<lparr>isResponse := True, result_code := icancloud_OK\<rparr>) (ViaGateId g),
      Sent a (ViaGateId g), Deleted (bl\<lparr>isResponse := True\<rparr>)] \<and>
    isResponse a \<and> operation a = SM_DELETE_FILE \<and> msg_trace a = msg_trace sm"
proof -
  from assms(6) obtain t where t: "addModuleToTrace (module_id s) g (currentRequest s) (msg_trace sm) = Ok t"
    by (auto simp: addModuleToTrace_def)
  let ?m = "sm\<lparr>msg_trace := t\<rparr>" and ?u = "s\<lparr>currentRequest := Suc (currentRequest s)\<rparr>"
  let ?bl = "new_blocklist (newId ?m 0) io ?m"
  let ?r = "?bl\<lparr>isResponse := True\<rparr>" and ?bio = "the (cast_io (new_blocklist (newId ?m 0) io ?m))"
  have up: "updateMessageTrace og sm s = Ok (?m, ?u)" by (simp add: updateMessageTrace_def t flip: g)
  obtain i w where w: "user_of_request (uid sm) ?u = (i, w)" by force
  let ?v = "set_files i (deleteFile (io_fileName io) (user_files i w)) w"
  let ?e = "emit (Sent ?bl (ViaGate toVMGate)) ?v"
  have trace: "t \<noteq> []" "getLastGateId t = Ok g" "removeLastModuleFromTrace t = Ok (msg_trace sm)"
    using addModule_lastGate[OF t] addModule_removeModule[OF t] by (auto simp: getLastGateId_def lastModule_def)
  have f: "nf_frame s ?v" "outbox ?v = outbox s"
    using user_of_request_frame[OF w] trace_frame[OF up] w by (auto simp: nf_frame_def set_files_def user_of_request_def split: option.splits)
  have q: "queue ?e = []" "nf_agenda ?e = nf_agenda s" "nf_pending ?e = nf_pending s" "nf_deletions ?e = nf_deletions s"
    "latencyScheduled ?e = latencyScheduled s" "outbox ?e = outbox s @ [Sent ?bl (ViaGate toVMGate)]"
    using f assms(2) by (simp_all add: nf_frame_def emit_def)
  have "sendRequestMessage og Ok ?bl toVMGate ?v = Ok ?e"
    using trace(1) by (simp add: sendRequestMessage_def isTraceEmpty_def new_blocklist_def)
  then have "nf_processIORequest now newId og Ok ?m ?u = Ok (nf_later (CLOSE_TIME + now) (newId ?m 1) ?m ?e)"
    using assms(4,7,8) w by (simp add: nf_processIORequest_def nf_delete_def cast_io_def Let_def SM_DELETE_FILE_def SM_OPEN_FILE_def
        SM_CLOSE_FILE_def SM_CREATE_FILE_def SM_CHANGE_DISK_STATE_def)
  then have arrives: "nf_event newId og (FsArrives now sm) s = Ok (nf_later (CLOSE_TIME + now) (newId ?m 1) ?m ?e)"
    using nf_arrives[OF assms(2,3,5) up] by simp
  have ops: "?m\<lparr>isResponse := True, result_code := icancloud_OK, msg_trace := msg_trace sm\<rparr> =
    sm\<lparr>isResponse := True, result_code := icancloud_OK\<rparr>" by (cases sm) simp
  have gates: "getLastGateId (msg_trace ?m) = Ok g" "removeLastModuleFromTrace (msg_trace ?m) = Ok (msg_trace sm)" using trace by simp_all
  have "newId ?m 1 \<notin> snd ` set (nf_pending ?e)" using assms(9) by (simp add: q(3))
  from answered_when_due[OF this q(1,2) gates, of newId og CLOSE_TIME now] obtain s2 where
    s2: "nf_event newId og (FsDue (length (nf_agenda s))) (nf_later (CLOSE_TIME + now) (newId ?m 1) ?m ?e) = Ok s2" "queue s2 = []"
      "latencyScheduled s2 = latencyScheduled s" "nf_deletions s2 = nf_deletions s"
      "outbox s2 = outbox ?e @ [Sent (sm\<lparr>isResponse := True, result_code := icancloud_OK\<rparr>) (ViaGateId g)]"
    unfolding ops q(4,5) by blast
  let ?a = "transformToApp_IO_Message (newId ?r 0) ?bio ?r"
  let ?b = "?a\<lparr>msg_trace := msg_trace sm\<rparr>"
  have a: "msg_trace ?a = t" by (simp add: transformToApp_IO_Message_def new_blocklist_def)
  have known: "newId ?m 0 \<notin> set (nf_deletions s2)" using assms(10) s2(4) by simp
  have id: "remove_first (\<lambda>j. j = newId ?m 0) (nf_deletions s2) = nf_deletions s2" using known by (intro remove_first_id) auto
  have same: "s2\<lparr>nf_deletions := nf_deletions s2\<rparr> = s2" by (cases s2) simp
  have c: "cast_io ?r = Some ?bio" "io_blocks ?bio \<noteq> None" "msg_id ?r = newId ?m 0" "isResponse ?r"
    by (simp_all add: new_blocklist_def cast_io_def)
  have "sendResponseMessage (nf_pump later newId og) ?a s2 = Ok (emit (Sent ?b (ViaGateId g)) s2)"
    using trace s2(2) by (simp add: sendResponseMessage_def a nf_pump_def)
  then have "nf_event newId og (FsArrives later ?r) s2 = Ok (emit (Deleted ?r) (emit (Sent ?b (ViaGateId g)) s2))"
    using c known by (simp add: nf_event_def nf_processResponseMessage_def checkResponseMsg_def id same)
  moreover have "isResponse ?b" "operation ?b = SM_DELETE_FILE" "msg_trace ?b = msg_trace sm"
    using assms(7) by (simp_all add: transformToApp_IO_Message_def new_blocklist_def)
  moreover have "outbox (nf_later (CLOSE_TIME + now) (newId ?m 1) ?m ?e) = outbox s @ [Sent ?bl (ViaGate toVMGate)]"
    using q(6) by (simp add: nf_later_def pushPendingMessage_def)
  ultimately show ?thesis using arrives s2(1,5) q(6) by (intro exI conjI) (assumption | simp)+
qed

section \<open>A sample file system\<close>

definition sample_fs :: node_fs where "sample_fs = nf_initialize (base_initialize 5 ''n0'')"

definition sample_fs_id :: "message \<Rightarrow> nat \<Rightarrow> int" where "sample_fs_id m k = 100 * msg_id m + int k"

definition sample_fs_message :: "int \<Rightarrow> int \<Rightarrow> string \<Rightarrow> nat \<Rightarrow> message" where
  "sample_fs_message i op n sz = (empty_blocklist i)\<lparr>operation := op, uid := 4, msg_trace := [(''n0'', [])],
     payload := IoPayload (new_io_fields\<lparr>io_fileName := n, io_size := sz\<rparr>)\<rparr>"

definition sample_fs_events :: "fs_event list" where
  "sample_fs_events = [FsArrives 1 (sample_fs_message 1 SM_CREATE_FILE ''a'' 7), FsArrives 1 (sample_fs_message 2 SM_CREATE_FILE ''b'' 9),
     FsArrives 2 (sample_fs_message 3 SM_DELETE_FILE ''a'' 0), FsDue 1, FsDue 0]"

definition sample_fs_later :: node_fs where
  "sample_fs_later = (case nf_run sample_fs_id (\<lambda>_. Some 9) sample_fs_events sample_fs of Ok t \<Rightarrow> t)"

lemma sample_fs_ok: "users_wf (nf_users sample_fs)" "queue sample_fs = []" "\<not> latencyScheduled sample_fs"
  "nf_pending sample_fs = []" "nf_agenda sample_fs = []" "nf_deletions sample_fs = []" "outbox sample_fs = []"
  "nf_users sample_fs = []"
  by (simp_all add: sample_fs_def nf_initialize_def base_initialize_def users_wf_def)

lemma sample_fs_message_simps:
  "cast_io (sample_fs_message i op n sz) = Some (new_io_fields\<lparr>io_fileName := n, io_size := sz\<rparr>)"
  "\<not> isResponse (sample_fs_message i op n sz)" "operation (sample_fs_message i op n sz) = op"
  "uid (sample_fs_message i op n sz) = 4" "msg_trace (sample_fs_message i op n sz) = [(''n0'', [])]"
  by (simp_all add: sample_fs_message_def cast_io_def empty_blocklist_def)

lemma file_system_is_map_witness:
  "fs_map (nf_users sample_fs_later) 4 ''a'' = None \<and> fs_map (nf_users sample_fs_later) 4 ''b'' = Some 9"
proof -
  have "res_ok (nf_run sample_fs_id (\<lambda>_. Some 9) sample_fs_events sample_fs)" by code_simp
  then have r: "nf_run sample_fs_id (\<lambda>_. Some 9) sample_fs_events sample_fs = Ok sample_fs_later"
    by (cases "nf_run sample_fs_id (\<lambda>_. Some 9) sample_fs_events sample_fs") (simp_all add: sample_fs_later_def)
  from file_system_is_map[OF r sample_fs_ok(1-3)] have
    "fs_map (nf_users sample_fs_later) = fold fs_spec sample_fs_events (\<lambda>_. Map.empty)"
    by (simp add: sample_fs_ok fs_map_def[abs_def])
  then show ?thesis
    by (simp add: sample_fs_events_def sample_fs_message_simps new_io_fields_def SM_CREATE_FILE_def SM_DELETE_FILE_def SM_DELETE_USER_FS_def)
qed

definition paired_id :: "message \<Rightarrow> nat \<Rightarrow> int" where
  "paired_id m k = (if msg_id m = 1 then - 1 - int k else 2 + int k)"

lemma paired_new_ids: "new_ids paired_id 1"
  by (auto simp: new_ids_def paired_id_def)

text \<open>Two requests; the timer of the second one fires first.\<close>

lemma file_operation_answered_witness:
  "\<exists>s1 s2. nf_event paired_id (\<lambda>_. Some 9) (FsArrives 1 (sample_fs_message 1 SM_CREATE_FILE ''a'' 7)) sample_fs = Ok s1 \<and>
     nf_run paired_id (\<lambda>_. Some 9) [FsArrives 1 (sample_fs_message 2 SM_CLOSE_FILE ''b'' 9), FsDue 1, FsDue 0] s1 = Ok s2 \<and>
     length (answers 1 s2) = 1"
proof -
  let ?m = "sample_fs_message 1 SM_CREATE_FILE ''a'' 7"
  let ?evs = "[FsArrives 1 (sample_fs_message 2 SM_CLOSE_FILE ''b'' 9), FsDue 1, FsDue 0]"
  let ?run = "bind_res (nf_event paired_id (\<lambda>_. Some 9) (FsArrives 1 ?m) sample_fs) (nf_run paired_id (\<lambda>_. Some 9) ?evs)"
  have own: "own_answer sample_fs (new_io_fields\<lparr>io_fileName := ''a'', io_size := 7\<rparr>) ?m"
    by (simp add: own_answer_def sample_fs_message_simps sample_fs_ok fs_map_def)
  have id: "msg_id (sample_fs_message i op n sz) = i" for i op n sz by (simp add: sample_fs_message_def empty_blocklist_def)
  have new: "new_ids paired_id (msg_id ?m)" unfolding id by (rule paired_new_ids)
  have "res_ok ?run" by code_simp
  then obtain s2 where r: "?run = Ok s2" by (rule res_okE)
  have "bind_res ?run (\<lambda>s. Ok (nf_agenda s)) = Ok []" by code_simp
  then have agenda: "nf_agenda s2 = []" unfolding r by simp
  from r obtain s1 where e: "nf_event paired_id (\<lambda>_. Some 9) (FsArrives 1 ?m) sample_fs = Ok s1"
    "nf_run paired_id (\<lambda>_. Some 9) ?evs s1 = Ok s2" by (rule bind_res_OkE)
  have "msg_trace ?m \<noteq> []" by (simp add: sample_fs_message_simps)
  note answered = file_operation_answered[where og = "\<lambda>_. Some 9" and now = 1,
      OF sample_fs_ok(1-3) sample_fs_message_simps(1,2) this own new, unfolded id option.case]
  have "\<forall>p\<in>set (nf_pending sample_fs). msg_id (fst p) \<noteq> 1"
    "\<forall>m k. msg_id m = 1 \<longrightarrow> paired_id m k \<notin> snd ` set (nf_pending sample_fs) \<and> paired_id m k \<notin> snd ` set (nf_agenda sample_fs)"
    by (simp_all add: sample_fs_ok)
  from answered[OF this] e(1)
  obtain l where "\<forall>evs s2. (\<forall>now m. FsArrives now m \<in> set evs \<longrightarrow> msg_id m \<noteq> 1) \<and> nf_run paired_id (\<lambda>_. Some 9) evs s1 = Ok s2 \<longrightarrow>
      (if l \<in> snd ` set (nf_agenda s2) then answers 1 s2 = answers 1 sample_fs \<and>
         (\<forall>k<length (nf_agenda s2). snd (nf_agenda s2 ! k) = l \<longrightarrow> res_ok (nf_event paired_id (\<lambda>_. Some 9) (FsDue k) s2))
       else answers 1 s2 = answers 1 sample_fs @ [Sent (?m\<lparr>isResponse := True, result_code := icancloud_OK\<rparr>) (ViaGateId 9)])"
    unfolding e(1) res.inject by blast
  from this[rule_format, of ?evs s2] have "length (answers 1 s2) = length (answers 1 sample_fs) + 1" using e(2) agenda by (simp add: id)
  then show ?thesis using e by (auto simp: answers_def sample_fs_ok)
qed

lemma remote_delete_answered_twice_witness:
  "\<exists>bl s1 s2 s3. nf_event sample_fs_id (\<lambda>_. Some 9) (FsArrives 1 (set_io (new_io_fields\<lparr>io_nfs := no_nfs\<lparr>nfs_connectionID := 3\<rparr>\<rparr>)
         (sample_fs_message 1 SM_DELETE_FILE ''a'' 0))) sample_fs = Ok s1 \<and>
     nf_event sample_fs_id (\<lambda>_. Some 9) (FsDue 0) s1 = Ok s2 \<and>
     nf_event sample_fs_id (\<lambda>_. Some 9) (FsArrives 2 (bl\<lparr>isResponse := True\<rparr>)) s2 = Ok s3 \<and> length (outbox s3) = 4"
proof -
  let ?io = "new_io_fields\<lparr>io_nfs := no_nfs\<lparr>nfs_connectionID := 3\<rparr>\<rparr>"
  let ?m = "set_io ?io (sample_fs_message 1 SM_DELETE_FILE ''a'' 0)"
  have m: "cast_io ?m = Some ?io" "\<not> isResponse ?m" "msg_trace ?m \<noteq> []" "operation ?m = SM_DELETE_FILE"
    "nfs_connectionID (io_nfs ?io) \<noteq> -1"
    by (simp_all add: set_io_def cast_io_def sample_fs_message_simps)
  have n: "\<And>m k. sample_fs_id m k \<notin> snd ` set (nf_pending sample_fs)" "\<And>m k. sample_fs_id m k \<notin> set (nf_deletions sample_fs)"
    by (simp_all add: sample_fs_ok)
  from remote_delete_answered_twice[where newId = sample_fs_id and og = "\<lambda>_. Some 9" and now = 1 and later = 2,
      OF sample_fs_ok(1-3) m n refl]
  obtain bl s1 s2 s3 a where
    e: "nf_event sample_fs_id (\<lambda>_. Some 9) (FsArrives 1 ?m) sample_fs = Ok s1"
      "nf_event sample_fs_id (\<lambda>_. Some 9) (FsDue (length (nf_agenda sample_fs))) s1 = Ok s2"
      "nf_event sample_fs_id (\<lambda>_. Some 9) (FsArrives 2 (bl\<lparr>isResponse := True\<rparr>)) s2 = Ok s3"
    and o: "outbox s1 = outbox sample_fs @ [Sent bl (ViaGate toVMGate)]"
      "outbox s3 = outbox s1 @ [Sent (?m\<lparr>isResponse := True, result_code := icancloud_OK\<rparr>) (ViaGateId 9),
        Sent a (ViaGateId 9), Deleted (bl\<lparr>isResponse := True\<rparr>)]"
    by (auto simp del: message.update_convs)
  have "length (outbox s3) = 4" unfolding o(2) o(1) by (simp add: sample_fs_ok(7))
  with e show ?thesis unfolding sample_fs_ok(5) list.size by blast
qed

end
