(* ===== verification/RaidSplitting.thy ===== *)
theory RaidSplitting imports BlockLists RequestTables begin

text \<open>
  The splitting of block list requests: over the disks of a RAID 0 (\<^verbatim>\<open>SMS_RAID_0\<close>) and by branches
  (\<^verbatim>\<open>SMS_Branch\<close>), both in \<^verbatim>\<open>src/src/Base/Messages/SMS\<close>.

  Offsets, sizes and the stride are words of 64 bits in the computation.  The inner loop does not end
  when sectors remain and no branch is left; it adds branches until no memory is left, and is \<open>None\<close>
  here.
\<close>

subsection \<open>RAID 0\<close>

definition blocks_per_request :: "u32 \<Rightarrow> u64" where
  "blocks_per_request strideSize = ucast (strideSize div 512)"

text \<open>
  The place that the splitting has come to: the rest of the current branch, the sectors that remain to
  be assigned, and the branches after the current one.
\<close>

record raid_place =
  rd_offset :: u64
  rd_size :: u64
  rd_rest :: u64
  rd_next :: "file_branch list"

definition next_branch :: "raid_place \<Rightarrow> raid_place" where
  "next_branch p = (if rd_size p = 0 \<and> 0 < rd_rest p
     then (case rd_next p of [] \<Rightarrow> p | b # bs \<Rightarrow> p\<lparr>rd_offset := br_offset b, rd_size := br_numBlocks b, rd_next := bs\<rparr>)
     else p)"

definition take_sectors :: "u64 \<Rightarrow> raid_place \<Rightarrow> raid_place" where
  "take_sectors n p = next_branch (p\<lparr>rd_offset := rd_offset p + n, rd_size := rd_size p - n, rd_rest := rd_rest p - n\<rparr>)"

text \<open>One subrequest: its file, the size of its last branch and the place after it.\<close>

partial_function (option) raid_pieces ::
  "u64 \<Rightarrow> icancloud_file \<Rightarrow> u64 \<Rightarrow> raid_place \<Rightarrow> (icancloud_file \<times> u64 \<times> raid_place) option" where
  "raid_pieces subReqRemaining f current p =
     (if 0 < subReqRemaining \<and> 0 < rd_rest p
      then (let current = (if subReqRemaining \<le> rd_size p then subReqRemaining else rd_size p)
            in raid_pieces (subReqRemaining - current) (addBranch (rd_offset p) current f) current (take_sectors current p))
      else Some (f, current, p))"

definition raid_copy :: "int \<Rightarrow> io_fields \<Rightarrow> u64 \<Rightarrow> icancloud_file \<Rightarrow> u64 \<Rightarrow> message \<Rightarrow> message" where
  "raid_copy i io disk f current m =
     set_blocks (f\<lparr>fi_size := ucast (current * 512)\<rparr>) ((dup_blocklist i io m)\<lparr>parentRequest := Some (msg_id m), nextModuleIndex := uint disk\<rparr>)"

partial_function (option) raid_loop ::
  "(nat \<Rightarrow> int) \<Rightarrow> io_fields \<Rightarrow> message \<Rightarrow> u64 \<Rightarrow> u64 \<Rightarrow> nat \<Rightarrow> raid_place \<Rightarrow> message list res option" where
  "raid_loop newId io m bpr numDisks k p =
     (if rd_rest p = 0 then Some (Ok [])
      else if bpr = 0 \<or> numDisks = 0 then Some (Fail Undefined)
      else Option.bind (raid_pieces bpr new_file 0 p) (\<lambda>(f, current, q).
        let c = raid_copy (newId k) io (rd_offset p div bpr mod numDisks) f current m
        in case blocks_updateLength c of
             Fail e \<Rightarrow> Some (Fail e)
           | Ok _ \<Rightarrow> Option.bind (raid_loop newId io m bpr numDisks (Suc k) q) (\<lambda>r. Some (bind_res r (\<lambda>cs. Ok (c # cs))))))"

declare raid_pieces.simps [code] raid_loop.simps [code]

fun link_subs :: "int \<Rightarrow> nat \<Rightarrow> message list \<Rightarrow> splitter \<Rightarrow> (message list \<times> splitter) res" where
  "link_subs parent k [] t = Ok ([], t)"
| "link_subs parent k (c # cs) t = bind_res (addRequestToTrace k (msg_trace c)) (\<lambda>tr.
     bind_res (setSubRequest parent (Some (msg_id c)) k t) (\<lambda>t.
     bind_res (link_subs parent (Suc k) cs t) (\<lambda>(cs, t). Ok (c\<lparr>msg_trace := tr\<rparr> # cs, t))))"

definition raid_split ::
  "(nat \<Rightarrow> int) \<Rightarrow> u32 \<Rightarrow> u32 \<Rightarrow> message \<Rightarrow> splitter \<Rightarrow> (message list \<times> splitter) res option" where
  "raid_split newId strideSize numDisks m t = (case cast_io m of
     None \<Rightarrow> Some (Fail (Thrown ''check_and_cast''))
   | Some io \<Rightarrow> case io_blocks io of
       None \<Rightarrow> Some (Fail (Thrown ''check_and_cast''))
     | Some f \<Rightarrow> case fi_branches f of
         [] \<Rightarrow> Some (Fail (Thrown ''getBranchOffset''))
       | b # bs \<Rightarrow> Option.bind (raid_loop newId io m (blocks_per_request strideSize) (ucast numDisks) 0
             \<lparr>rd_offset = br_offset b, rd_size = br_numBlocks b, rd_rest = getTotalSectors f, rd_next = bs\<rparr>)
           (\<lambda>r. Some (bind_res r (\<lambda>cs. link_subs (msg_id m) 0 cs (addRequest (msg_id m) (length cs) t)))))"

subsection \<open>By branches\<close>

text \<open>
  The subrequests are in the list of the splitter; the slots of the request stay empty.  The size of the
  file of a subrequest is a number of sectors.
\<close>

definition branch_copy :: "int \<Rightarrow> io_fields \<Rightarrow> file_branch \<Rightarrow> message \<Rightarrow> message" where
  "branch_copy i io b m = set_blocks ((addBranch (br_offset b) (br_numBlocks b) new_file)\<lparr>fi_name :=
     (case io_blocks io of None \<Rightarrow> [] | Some f \<Rightarrow> fi_name f), fi_size := ucast (br_numBlocks b)\<rparr>)
     ((dup_blocklist i io m)\<lparr>parentRequest := Some (msg_id m)\<rparr>)"

fun branch_copies :: "(nat \<Rightarrow> int) \<Rightarrow> io_fields \<Rightarrow> message \<Rightarrow> nat \<Rightarrow> file_branch list \<Rightarrow> message list res" where
  "branch_copies newId io m k [] = Ok []"
| "branch_copies newId io m k (b # bs) = (let c = branch_copy (newId k) io b m
     in bind_res (blocks_updateLength c) (\<lambda>_. bind_res (branch_copies newId io m (Suc k) bs) (\<lambda>cs. Ok (c # cs))))"

definition branch_split :: "(nat \<Rightarrow> int) \<Rightarrow> message \<Rightarrow> splitter \<Rightarrow> (message list \<times> splitter) res" where
  "branch_split newId m t = (case cast_io m of
     None \<Rightarrow> Fail (Thrown ''check_and_cast'')
   | Some io \<Rightarrow> case io_blocks io of
       None \<Rightarrow> Fail (Thrown ''check_and_cast'')
     | Some f \<Rightarrow> bind_res (branch_copies newId io m 0 (fi_branches f)) (\<lambda>cs.
         Ok (cs, addRequest (msg_id m) (getNumberOfBranches f) t)))"

section \<open>The sectors of the subrequests\<close>

definition branch_ok :: "file_branch \<Rightarrow> bool" where
  "branch_ok b \<longleftrightarrow> unat (br_offset b) + unat (br_numBlocks b) < 2 ^ 64"

definition place_sectors :: "raid_place \<Rightarrow> nat list" where
  "place_sectors p = [unat (rd_offset p)..<unat (rd_offset p) + unat (rd_size p)] @ sectors (rd_next p)"

text \<open>The remaining sectors are those that are counted.\<close>

definition place_ok :: "raid_place \<Rightarrow> bool" where
  "place_ok p \<longleftrightarrow> length (place_sectors p) = unat (rd_rest p) \<and> unat (rd_offset p) + unat (rd_size p) < 2 ^ 64 \<and>
     list_all branch_ok (rd_next p)"

lemma next_branch_same: "place_sectors (next_branch p) = place_sectors p \<and> (place_ok p \<longrightarrow> place_ok (next_branch p))"
  by (cases p; cases "rd_next p") (auto simp: next_branch_def place_sectors_def place_ok_def branch_sectors_def branch_ok_def)

lemma take_sectors_at:
  assumes "place_ok p" "n \<le> rd_size p"
  shows "place_ok (take_sectors n p)"
    "[unat (rd_offset p)..<unat (rd_offset p) + unat n] @ place_sectors (take_sectors n p) = place_sectors p"
    "unat (rd_rest (take_sectors n p)) = unat (rd_rest p) - unat n"
proof -
  let ?q = "p\<lparr>rd_offset := rd_offset p + n, rd_size := rd_size p - n, rd_rest := rd_rest p - n\<rparr>"
  have le: "unat n \<le> unat (rd_size p)" using assms(2) by (simp add: word_le_nat_alt)
  have "unat (rd_size p) \<le> unat (rd_rest p)" using assms(1) by (simp add: place_ok_def place_sectors_def)
  then have rest: "n \<le> rd_rest p" using le by (simp add: word_le_nat_alt)
  have o: "unat (rd_offset p + n) = unat (rd_offset p) + unat n"
    using assms(1) le by (subst unat_add_lem[THEN iffD1]) (auto simp: place_ok_def)
  have s: "unat (rd_size p - n) = unat (rd_size p) - unat n" "unat (rd_rest p - n) = unat (rd_rest p) - unat n"
    using assms(2) rest by (simp_all add: unat_sub)
  have split: "[unat (rd_offset p)..<unat (rd_offset p) + unat n] @ place_sectors ?q = place_sectors p"
    using le upt_add_eq_append[of "unat (rd_offset p)" "unat (rd_offset p) + unat n" "unat (rd_size p) - unat n"]
    by (simp add: place_sectors_def o s)
  moreover have "length ([unat (rd_offset p)..<unat (rd_offset p) + unat n] @ place_sectors ?q) = unat (rd_rest p)"
    using assms(1) unfolding split by (simp add: place_ok_def)
  then have "place_ok ?q" using assms(1) le by (simp add: place_ok_def o s)
  ultimately show "place_ok (take_sectors n p)"
    "[unat (rd_offset p)..<unat (rd_offset p) + unat n] @ place_sectors (take_sectors n p) = place_sectors p"
    using next_branch_same[of ?q] by (simp_all add: take_sectors_def)
  have "rd_rest (next_branch ?q) = rd_rest ?q" by (simp add: next_branch_def split: list.splits)
  then show "unat (rd_rest (take_sectors n p)) = unat (rd_rest p) - unat n" by (simp add: take_sectors_def s)
qed

lemma addBranch_branches: "fi_branches (addBranch off n f) = fi_branches f @ [\<lparr>br_offset = off, br_numBlocks = n\<rparr>]"
  by (simp add: addBranch_def updateFileSize_def)

text \<open>A subrequest takes the next sectors, as many as the stride has or remain.\<close>

lemma next_branch_next:
  "length (rd_next (next_branch p)) = length (rd_next p) - (if rd_size p = 0 \<and> 0 < rd_rest p then 1 else 0)"
  by (auto simp: next_branch_def split: list.splits)

lemma raid_pieces_sectors:
  assumes "place_ok p"
  shows "\<exists>bs c l q. raid_pieces n f current p = Some (f\<lparr>fi_branches := fi_branches f @ bs, fi_size := c\<rparr>, l, q) \<and> place_ok q \<and> (rd_next p = [] \<longrightarrow> rd_next q = []) \<and>
     sectors bs @ place_sectors q = place_sectors p \<and> length (sectors bs) = min (unat n) (unat (rd_rest p))"
  using assms
proof (induction "unat (rd_rest p) + length (rd_next p)" arbitrary: n f current p rule: less_induct)
  case less
  show ?case
  proof (cases "0 < n \<and> 0 < rd_rest p")
    case False
    then have "raid_pieces n f current p = Some (f, current, p)" by (subst raid_pieces.simps) (simp only: if_False)
    moreover have "f = f\<lparr>fi_branches := fi_branches f @ [], fi_size := fi_size f\<rparr>" by simp
    moreover have "n = 0 \<or> rd_rest p = 0" using False by (auto simp: word_neq_0_conv[symmetric] simp del: word_neq_0_conv)
    then have "length (sectors []) = min (unat n) (unat (rd_rest p))" by auto
    ultimately show ?thesis using less.prems by (intro exI[of _ "[]"] exI[of _ "fi_size f"]) simp
  next
    case True
    define x where "x = (if n \<le> rd_size p then n else rd_size p)"
    define q where "q = take_sectors x p"
    have step: "raid_pieces n f current p = raid_pieces (n - x) (addBranch (rd_offset p) x f) x q"
      using True by (subst raid_pieces.simps) (simp add: x_def q_def Let_def)
    have le: "x \<le> rd_size p" "x \<le> n" by (auto simp: x_def)
    note t = take_sectors_at[OF less.prems le(1), folded q_def]
    have m: "unat (rd_rest q) + length (rd_next q) < unat (rd_rest p) + length (rd_next p)"
    proof (cases "x = 0")
      case x0: True
      then have s0: "rd_size p = 0" using True by (auto simp: x_def split: if_splits)
      have "q = next_branch p" by (cases p) (simp add: q_def take_sectors_def x0)
      moreover have "rd_next p \<noteq> []" using less.prems True s0 by (auto simp: place_ok_def place_sectors_def word_less_nat_alt)
      ultimately show ?thesis using next_branch_next[of p] s0 True t(3) x0 by (simp add: x0)
    next
      case False
      have "length (rd_next q) \<le> length (rd_next p)" by (simp add: q_def take_sectors_def next_branch_next)
      moreover have "0 < unat x" "unat x \<le> unat (rd_rest p)"
        using False le(1) less.prems by (auto simp: unat_gt_0 word_le_nat_alt place_ok_def place_sectors_def)
      ultimately show ?thesis using t(3) by simp
    qed
    let ?f = "addBranch (rd_offset p) x f"
    from less.hyps[OF m t(1), of "n - x" ?f x] obtain bs c l r where
      ih: "raid_pieces (n - x) ?f x q = Some (?f\<lparr>fi_branches := fi_branches ?f @ bs, fi_size := c\<rparr>, l, r)" "place_ok r"
        "rd_next q = [] \<longrightarrow> rd_next r = []"
        "sectors bs @ place_sectors r = place_sectors q" "length (sectors bs) = min (unat (n - x)) (unat (rd_rest q))"
      by blast
    have f: "?f\<lparr>fi_branches := fi_branches ?f @ bs, fi_size := c\<rparr> =
        f\<lparr>fi_branches := fi_branches f @ \<lparr>br_offset = rd_offset p, br_numBlocks = x\<rparr> # bs, fi_size := c\<rparr>"
      by (simp add: addBranch_def updateFileSize_def)
    have "unat x \<le> unat (rd_rest p)" using le(1) less.prems by (auto simp: word_le_nat_alt place_ok_def place_sectors_def)
    moreover have "unat x \<le> unat n" "unat (n - x) = unat n - unat x" using le(2) by (auto simp: word_le_nat_alt unat_sub)
    ultimately have "length (sectors (\<lparr>br_offset = rd_offset p, br_numBlocks = x\<rparr> # bs)) = min (unat n) (unat (rd_rest p))"
      using ih(5) t(3) by simp
    moreover have "sectors (\<lparr>br_offset = rd_offset p, br_numBlocks = x\<rparr> # bs) @ place_sectors r = place_sectors p"
      using ih(4) t(2) by (simp add: branch_sectors_def)
    moreover have "rd_next p = [] \<longrightarrow> rd_next q = []" by (simp add: q_def take_sectors_def next_branch_def)
    ultimately show ?thesis using ih(1,2,3) unfolding step f by blast
  qed
qed

subsection \<open>The stripes\<close>

fun stripes :: "nat \<Rightarrow> 'a list \<Rightarrow> 'a list list" where
  "stripes n xs = (if n = 0 \<or> xs = [] then [] else take n xs # stripes n (drop n xs))"

declare stripes.simps [simp del]

lemma stripes_Nil [simp]: "stripes n [] = []"
  by (subst stripes.simps) simp

lemma stripes_take: "0 < n \<Longrightarrow> xs \<noteq> [] \<Longrightarrow> stripes n xs = take n xs # stripes n (drop n xs)"
  by (subst stripes.simps) simp

lemma concat_stripes: "0 < n \<Longrightarrow> concat (stripes n xs) = xs"
proof (induction n xs rule: stripes.induct)
  case (1 n xs)
  then show ?case by (cases "xs = []") (simp_all add: stripes_take)
qed

text \<open>Consecutive numbers from a multiple of the width: every stripe is in one block.\<close>

lemma stripes_of_numbers:
  assumes "0 < n" "n dvd a"
  shows "list_all (\<lambda>xs. \<forall>x\<in>set xs. x div n = hd xs div n) (stripes n [a..<b])"
  using assms(2)
proof (induction "b - a" arbitrary: a rule: less_induct)
  case less
  show ?case
  proof (cases "a < b")
    case True
    have t: "take n [a..<b] = [a..<min (a + n) b]" "drop n [a..<b] = [a + n..<b]" by (auto simp: take_upt min_def)
    have block: "x div n = a div n" if "a \<le> x" "x < a + n" for x
    proof -
      from less.prems obtain c where "a = n * c" by auto
      then have "n * c \<le> x" "x < n * Suc c" using that by simp_all
      then have "x div n = c" by (intro div_nat_eqI)
      then show ?thesis using \<open>a = n * c\<close> assms(1) by simp
    qed
    have "list_all (\<lambda>xs. \<forall>x\<in>set xs. x div n = hd xs div n) (stripes n [a + n..<b])"
      using less.hyps[of "a + n"] less.prems True assms(1) by simp
    moreover have "hd [a..<min (a + n) b] = a" using True assms(1) by (simp add: hd_upt)
    then have "\<forall>x\<in>set [a..<min (a + n) b]. x div n = hd [a..<min (a + n) b] div n" by (simp only:) (auto intro: block)
    moreover have "stripes n [a..<b] = [a..<min (a + n) b] # stripes n [a + n..<b]"
      using stripes_take[OF assms(1), of "[a..<b]"] True by (simp only: t upt_eq_Nil_conv) simp
    ultimately show ?thesis by (simp only: list.pred_inject)
  qed simp
qed

text \<open>The sectors of a subrequest.\<close>

definition sub_sectors :: "message \<Rightarrow> nat list" where
  "sub_sectors c = (case cast_blocks c of None \<Rightarrow> [] | Some f \<Rightarrow> sectors (fi_branches f))"

lemma sub_sectors_trace [simp]: "sub_sectors (c\<lparr>msg_trace := t\<rparr>) = sub_sectors c"
  by (simp add: sub_sectors_def cast_blocks_def cast_io_def)

lemma updateLength_like:
  assumes "cast_io m = Some i" "cast_io c = Some j" "operation c = operation m" "isResponse c = isResponse m"
    "remoteOperation c = remoteOperation m"
  shows "res_ok (blocks_updateLength c) = res_ok (blocks_updateLength m)"
  using assms by (simp add: blocks_updateLength_def Let_def)

lemma raid_copy_simps:
  "operation (raid_copy i io d f n m) = operation m" "isResponse (raid_copy i io d f n m) = isResponse m"
  "remoteOperation (raid_copy i io d f n m) = remoteOperation m" "msg_trace (raid_copy i io d f n m) = msg_trace m"
  "nextModuleIndex (raid_copy i io d f n m) = uint d" "sub_sectors (raid_copy i io d f n m) = sectors (fi_branches f)"
  "cast_io (raid_copy i io d f n m) \<noteq> None" "msg_id (raid_copy i io d f n m) = i"
  by (simp_all add: raid_copy_def set_blocks_def cast_io_def dup_blocklist_def set_io_def sub_sectors_def cast_blocks_def)

text \<open>What a subrequest has from the request.\<close>

definition like_request :: "message \<Rightarrow> io_fields \<Rightarrow> message \<Rightarrow> bool" where
  "like_request m io c \<longleftrightarrow> operation c = operation m \<and> isResponse c = isResponse m \<and> remoteOperation c = remoteOperation m \<and>
     (case cast_io c of None \<Rightarrow> False | Some j \<Rightarrow> io_size j = io_size io \<and> io_blocks j \<noteq> None)"

lemma raid_copy_like: "like_request m io (raid_copy i io d f n m)"
  by (simp add: like_request_def raid_copy_def set_blocks_def cast_io_def dup_blocklist_def set_io_def)

lemma like_request_trace: "like_request m io (c\<lparr>msg_trace := t\<rparr>) = like_request m io c"
proof -
  have "cast_io (c\<lparr>msg_trace := t\<rparr>) = cast_io c" by (simp add: cast_io_def)
  then show ?thesis by (cases "cast_io c") (simp_all add: like_request_def)
qed

text \<open>The subrequests are the stripes; for one branch the first sector of a stripe decides the disk.\<close>

lemma raid_loop_stripes:
  assumes "place_ok p" "bpr \<noteq> 0" "numDisks \<noteq> 0" "cast_io m = Some io" "res_ok (blocks_updateLength m)"
  shows "\<exists>cs. raid_loop newId io m bpr numDisks k p = Some (Ok cs) \<and> map sub_sectors cs = stripes (unat bpr) (place_sectors p) \<and>
     (\<forall>c\<in>set cs. msg_trace c = msg_trace m \<and> like_request m io c) \<and>
     (rd_next p = [] \<longrightarrow> (\<forall>c\<in>set cs. nextModuleIndex c = int (hd (sub_sectors c) div unat bpr mod unat numDisks)))"
  using assms(1)
proof (induction "unat (rd_rest p)" arbitrary: p k rule: less_induct)
  case less
  show ?case
  proof (cases "rd_rest p = 0")
    case True
    then have "place_sectors p = []" using less.prems by (simp add: place_ok_def)
    then show ?thesis using True by (subst raid_loop.simps) simp
  next
    case False
    obtain bs c l q where pc: "raid_pieces bpr new_file 0 p = Some (new_file\<lparr>fi_branches := fi_branches new_file @ bs, fi_size := c\<rparr>, l, q)"
      "place_ok q" "rd_next p = [] \<longrightarrow> rd_next q = []" "sectors bs @ place_sectors q = place_sectors p"
      "length (sectors bs) = min (unat bpr) (unat (rd_rest p))"
      using raid_pieces_sectors[OF less.prems, of bpr new_file 0] by blast
    let ?c = "raid_copy (newId k) io (rd_offset p div bpr mod numDisks)
      (new_file\<lparr>fi_branches := fi_branches new_file @ bs, fi_size := c\<rparr>) l m"
    have ok: "res_ok (blocks_updateLength ?c)"
    proof -
      obtain j where "cast_io ?c = Some j" using raid_copy_simps(7) by blast
      then show ?thesis using updateLength_like[OF assms(4)] assms(5) by (simp add: raid_copy_simps)
    qed
    then obtain n where n: "blocks_updateLength ?c = Ok n" by (rule res_okE)
    have pos: "0 < unat bpr" "0 < unat (rd_rest p)" using assms(2) False by (simp_all add: unat_gt_0)
    have len: "length (place_sectors p) = unat (rd_rest p)" "length (place_sectors q) = unat (rd_rest q)"
      using less.prems pc(2) by (simp_all add: place_ok_def)
    then have rest: "unat (rd_rest q) = unat (rd_rest p) - unat bpr"
      using pc(5) arg_cong[OF pc(4), of length] by simp
    then have "unat (rd_rest q) < unat (rd_rest p)" using pos by simp
    from less.hyps[OF this pc(2), of "Suc k"] obtain cs where
      ih: "raid_loop newId io m bpr numDisks (Suc k) q = Some (Ok cs)" "map sub_sectors cs = stripes (unat bpr) (place_sectors q)"
        "\<forall>c\<in>set cs. msg_trace c = msg_trace m \<and> like_request m io c"
        "rd_next q = [] \<longrightarrow> (\<forall>c\<in>set cs. nextModuleIndex c = int (hd (sub_sectors c) div unat bpr mod unat numDisks))" by blast
    have run: "raid_loop newId io m bpr numDisks k p = Some (Ok (?c # cs))"
      using False assms(2,3) by (subst raid_loop.simps) (simp add: pc(1) n ih(1) Let_def)
    have split: "take (unat bpr) (place_sectors p) = sectors bs" "drop (unat bpr) (place_sectors p) = place_sectors q"
      using pc(5) len rest by (simp_all add: pc(4)[symmetric] min_def split: if_splits)
    have ne: "place_sectors p \<noteq> []" using len(1) pos(2) by auto
    have st: "stripes (unat bpr) (place_sectors p) = sectors bs # stripes (unat bpr) (place_sectors q)"
      using stripes_take[OF pos(1) ne] by (simp only: split)
    have sub: "sub_sectors ?c = sectors bs" by (simp add: raid_copy_simps new_file_def)
    have first: "hd (sectors bs) = unat (rd_offset p)" if "rd_next p = []"
    proof -
      have "hd (place_sectors p) = unat (rd_offset p)" using ne that by (auto simp: place_sectors_def hd_upt)
      moreover have "sectors bs \<noteq> []" using pc(5) pos by auto
      ultimately show ?thesis using pc(4) hd_append2 by metis
    qed
    have disk: "nextModuleIndex ?c = int (unat (rd_offset p) div unat bpr mod unat numDisks)"
      by (simp add: raid_copy_simps uint_nat unat_div unat_mod)
    show ?thesis
      using run ih(2,3,4) st sub first disk pc(3) by (intro exI[of _ "?c # cs"]) (simp add: raid_copy_simps(4) raid_copy_like)
  qed
qed

subsection \<open>Requests\<close>

text \<open>The subrequests get their numbers and are put into the slots of the request.\<close>

lemma setSubRequest_entry:
  assumes "searchRequest p t = Some i" "k < length (sr_slots (requestVector t ! i))"
  shows "\<exists>u. setSubRequest p (Some q) k t = Ok u \<and> searchRequest p u = Some i \<and>
    length (sr_slots (requestVector u ! i)) = length (sr_slots (requestVector t ! i)) \<and>
    sr_slots (requestVector u ! i) = (sr_slots (requestVector t ! i))[k := Some q]"
proof -
  let ?r = "(requestVector t ! i)\<lparr>sr_slots := (sr_slots (requestVector t ! i))[k := Some q]\<rparr>"
  have i: "i < length (requestVector t)" using assms(1) by (simp add: searchRequest_def index_of_Some)
  have "searchRequest p (t\<lparr>requestVector := (requestVector t)[i := ?r]\<rparr>) = Some i"
    using assms(1) by (auto simp: searchRequest_def index_of_Some nth_list_update)
  then show ?thesis using assms i by (simp add: setSubRequest_def req_setSubRequest_def)
qed

lemma link_subs_ok:
  assumes "searchRequest p t = Some i" "k + length cs \<le> length (sr_slots (requestVector t ! i))"
    and "\<forall>c\<in>set cs. msg_trace c = tr" "lastModule ''addRequestToTrace'' tr = Ok x"
  shows "\<exists>ds u. link_subs p k cs t = Ok (ds, u) \<and> map sub_sectors ds = map sub_sectors cs \<and>
    map nextModuleIndex ds = map nextModuleIndex cs \<and> map (like_request m io) ds = map (like_request m io) cs"
  using assms(1-3)
proof (induction cs arbitrary: k t)
  case (Cons c cs)
  then have k: "k < length (sr_slots (requestVector t ! i))" by simp
  from setSubRequest_entry[OF Cons.prems(1) k, of "msg_id c"] obtain u where u: "setSubRequest p (Some (msg_id c)) k t = Ok u"
    "searchRequest p u = Some i" "length (sr_slots (requestVector u ! i)) = length (sr_slots (requestVector t ! i))" by blast
  from Cons.IH[OF u(2), of "Suc k"] u(3) Cons.prems(2,3) obtain ds v where
    v: "link_subs p (Suc k) cs u = Ok (ds, v)" "map sub_sectors ds = map sub_sectors cs" "map nextModuleIndex ds = map nextModuleIndex cs"
    "map (like_request m io) ds = map (like_request m io) cs"
    by auto
  obtain tr' where "addRequestToTrace k (msg_trace c) = Ok tr'" using Cons.prems(3) assms(4) by (simp add: addRequestToTrace_def)
  then show ?case using u(1) v by (simp add: like_request_trace)
qed simp

definition branches_ok :: "icancloud_file \<Rightarrow> bool" where
  "branches_ok f \<longleftrightarrow> fi_branches f \<noteq> [] \<and> list_all branch_ok (fi_branches f) \<and> length (sectors (fi_branches f)) < 2 ^ 64"

lemma blocks_per_request_unat: "unat (blocks_per_request s) = unat s div 512"
proof -
  have "unat (s div 512) < 2 ^ 32" using unsigned_less[of "s div 512", where 'a = nat] by simp
  then show ?thesis by (simp add: blocks_per_request_def unsigned_ucast_eq unat_div take_bit_nat_eq_self)
qed

lemma raid_split_stripes:
  assumes "cast_blocks m = Some f" "branches_ok f" "512 \<le> strideSize" "numDisks \<noteq> 0" "res_ok (blocks_updateLength m)"
    and "lastModule ''addRequestToTrace'' (msg_trace m) = Ok x" "searchRequest (msg_id m) t = None"
  shows "\<exists>cs u. raid_split newId strideSize numDisks m t = Some (Ok (cs, u)) \<and>
    map sub_sectors cs = stripes (unat strideSize div 512) (sectors (fi_branches f)) \<and>
    (\<forall>io. cast_io m = Some io \<longrightarrow> (\<forall>c\<in>set cs. like_request m io c)) \<and>
    (\<forall>b. fi_branches f = [b] \<longrightarrow>
       (\<forall>c\<in>set cs. nextModuleIndex c = int (hd (sub_sectors c) div (unat strideSize div 512) mod unat numDisks)))"
proof -
  obtain io where io: "cast_io m = Some io" "io_blocks io = Some f" using assms(1) by (auto simp: cast_blocks_def split: option.splits)
  obtain b bs where b: "fi_branches f = b # bs" using assms(2) by (cases "fi_branches f") (auto simp: branches_ok_def)
  let ?p = "\<lparr>rd_offset = br_offset b, rd_size = br_numBlocks b, rd_rest = getTotalSectors f, rd_next = bs\<rparr>"
  let ?n = "blocks_per_request strideSize" and ?d = "ucast numDisks :: u64"
  have secs: "place_sectors ?p = sectors (fi_branches f)" by (simp add: place_sectors_def b branch_sectors_def)
  have p: "place_ok ?p"
    using assms(2) getTotalSectors_length[of f] by (simp add: place_ok_def secs branches_ok_def b branch_ok_def)
  have "unat strideSize div 512 \<noteq> 0" using assms(3) by (simp add: word_le_nat_alt div_eq_0_iff)
  then have n: "?n \<noteq> 0" using blocks_per_request_unat[of strideSize] by auto
  have du: "unat ?d = unat numDisks" using unsigned_less[of numDisks, where 'a = nat] by (simp add: unsigned_ucast_eq take_bit_nat_eq_self)
  then have d: "?d \<noteq> 0" using assms(4) by (metis unat_eq_zero)
  from raid_loop_stripes[OF p n d io(1) assms(5), of newId 0] obtain cs where
    cs: "raid_loop newId io m ?n ?d 0 ?p = Some (Ok cs)" "map sub_sectors cs = stripes (unat ?n) (sectors (fi_branches f))"
      "\<forall>c\<in>set cs. msg_trace c = msg_trace m" "\<forall>c\<in>set cs. like_request m io c"
      "bs = [] \<longrightarrow> (\<forall>c\<in>set cs. nextModuleIndex c = int (hd (sub_sectors c) div unat ?n mod unat ?d))"
    unfolding secs by auto
  let ?t = "addRequest (msg_id m) (length cs) t"
  have s: "searchRequest (msg_id m) ?t = Some (length (requestVector t))"
    using assms(7) by (simp add: searchRequest_def addRequest_def index_of_append new_request_def)
  have slots: "0 + length cs \<le> length (sr_slots (requestVector ?t ! length (requestVector t)))"
    by (simp add: addRequest_def new_request_def)
  from link_subs_ok[OF s slots cs(3) assms(6), of m io] obtain ds u where
    ds: "link_subs (msg_id m) 0 cs ?t = Ok (ds, u)" "map sub_sectors ds = map sub_sectors cs" "map nextModuleIndex ds = map nextModuleIndex cs"
      "map (like_request m io) ds = map (like_request m io) cs" by blast
  have "list_all (\<lambda>b. b) (map (like_request m io) ds)" using cs(4) by (simp add: ds(4) list_all_iff)
  then have like: "\<forall>c\<in>set ds. like_request m io c" by (simp add: list_all_iff)
  have run: "raid_split newId strideSize numDisks m t = Some (Ok (ds, u))"
    using io b cs(1) ds(1) by (simp add: raid_split_def)
  have "nextModuleIndex c = int (hd (sub_sectors c) div unat ?n mod unat ?d)" if "bs = []" "c \<in> set ds" for c
  proof -
    have len: "length ds = length cs" using ds(2) map_eq_imp_length_eq by blast
    from \<open>c \<in> set ds\<close> obtain k where k: "k < length ds" "c = ds ! k" by (auto simp: in_set_conv_nth)
    have "nextModuleIndex c = nextModuleIndex (cs ! k)" "sub_sectors c = sub_sectors (cs ! k)"
      using k len arg_cong[OF ds(3), of "\<lambda>l. l ! k"] arg_cong[OF ds(2), of "\<lambda>l. l ! k"] by simp_all
    then show ?thesis using cs(5) that(1) k(1) len by simp
  qed
  then show ?thesis using run cs(2) ds(2) b like io(1) by (simp add: blocks_per_request_unat du)
qed

text \<open>
  C29: The subrequests of a request that is split over the disks are the stripes of its sectors, in order:
  every sector is in exactly one of them.
\<close>

theorem raid_partition:
  assumes "cast_blocks m = Some f" "branches_ok f" "512 \<le> strideSize" "numDisks \<noteq> 0" "res_ok (blocks_updateLength m)"
    and "lastModule ''addRequestToTrace'' (msg_trace m) = Ok x" "searchRequest (msg_id m) t = None"
  shows "\<exists>cs u. raid_split newId strideSize numDisks m t = Some (Ok (cs, u)) \<and>
    map sub_sectors cs = stripes (unat strideSize div 512) (sectors (fi_branches f)) \<and>
    concat (map sub_sectors cs) = sectors (fi_branches f)"
proof -
  have "0 < unat strideSize div 512" using assms(3) by (simp add: word_le_nat_alt div_greater_zero_iff)
  with raid_split_stripes[OF assms, of newId] concat_stripes show ?thesis by metis
qed

text \<open>
  C27: Every sector of a request for one branch that begins with a stripe goes to the disk that RAID 0 gives
  to its stripe.
\<close>

theorem raid_placement:
  assumes "cast_blocks m = Some f" "branches_ok f" "512 \<le> strideSize" "numDisks \<noteq> 0" "res_ok (blocks_updateLength m)"
    and "lastModule ''addRequestToTrace'' (msg_trace m) = Ok x" "searchRequest (msg_id m) t = None"
    and "fi_branches f = [b]" "unat strideSize div 512 dvd unat (br_offset b)"
  shows "\<exists>cs u. raid_split newId strideSize numDisks m t = Some (Ok (cs, u)) \<and>
    (\<forall>c\<in>set cs. \<forall>s\<in>set (sub_sectors c). nextModuleIndex c = int (s div (unat strideSize div 512) mod unat numDisks))"
proof -
  let ?n = "unat strideSize div 512"
  have n: "0 < ?n" using assms(3) by (simp add: word_le_nat_alt div_greater_zero_iff)
  from raid_split_stripes[OF assms(1-7), of newId] obtain cs u where cs: "raid_split newId strideSize numDisks m t = Some (Ok (cs, u))"
    "map sub_sectors cs = stripes ?n (sectors (fi_branches f))"
    "\<forall>c\<in>set cs. nextModuleIndex c = int (hd (sub_sectors c) div ?n mod unat numDisks)" using assms(8) by blast
  have "list_all (\<lambda>xs. \<forall>x\<in>set xs. x div ?n = hd xs div ?n) (map sub_sectors cs)"
    using stripes_of_numbers[OF n assms(9)] by (simp only: cs(2) assms(8)) (simp add: branch_sectors_def)
  then have "s div ?n = hd (sub_sectors c) div ?n" if "c \<in> set cs" "s \<in> set (sub_sectors c)" for c s
    using that by (auto simp: list_all_iff)
  then show ?thesis using cs(1,3) by (intro exI conjI ballI) (assumption | simp)+
qed

section \<open>A sample request\<close>

definition sample_blocks :: "int \<Rightarrow> int \<Rightarrow> u64 \<Rightarrow> message" where
  "sample_blocks i op n = set_blocks (addBranch 0 n new_file) ((empty_blocklist i)\<lparr>operation := op,
     msg_trace := [(''n0'', [\<lparr>moduleID = 1, gateID = 2, reqSequence = [0]\<rparr>])]\<rparr>)"

lemma sample_blocks_simps:
  "cast_blocks (sample_blocks i op n) = Some (addBranch 0 n new_file)" "msg_id (sample_blocks i op n) = i"
  "msg_trace (sample_blocks i op n) = [(''n0'', [\<lparr>moduleID = 1, gateID = 2, reqSequence = [0]\<rparr>])]"
  "isResponse (sample_blocks i op n) = False" "remoteOperation (sample_blocks i op n) = False" "operation (sample_blocks i op n) = op"
  by (simp_all add: sample_blocks_def set_blocks_def cast_blocks_def cast_io_def set_io_def empty_blocklist_def)

lemma sample_branches: "fi_branches (addBranch 0 n new_file) = [\<lparr>br_offset = 0, br_numBlocks = n\<rparr>]"
  by (simp add: addBranch_branches new_file_def)

lemma sample_blocks_ok:
  "branches_ok (addBranch 0 10 new_file)" "res_ok (blocks_updateLength (sample_blocks 1 SM_READ_FILE n))"
  "\<exists>x. lastModule ''addRequestToTrace'' (msg_trace (sample_blocks 1 SM_READ_FILE n)) = Ok x"
proof -
  show "branches_ok (addBranch 0 10 new_file)" by (simp add: branches_ok_def sample_branches branch_ok_def branch_sectors_def)
  show "res_ok (blocks_updateLength (sample_blocks 1 SM_READ_FILE n))"
    using sample_blocks_simps(1)[of 1 SM_READ_FILE n]
    by (auto simp: blocks_updateLength_def sample_blocks_simps cast_blocks_def Let_def split: option.splits)
  show "\<exists>x. lastModule ''addRequestToTrace'' (msg_trace (sample_blocks 1 SM_READ_FILE n)) = Ok x"
    by (simp add: sample_blocks_simps lastModule_def vec_back_def)
qed

lemma no_requests: "searchRequest p \<lparr>requestVector = [], deleted = []\<rparr> = None"
  by (simp add: searchRequest_def)

lemma raid_partition_witness:
  "\<exists>cs u. raid_split int 2048 3 (sample_blocks 1 SM_READ_FILE 10) \<lparr>requestVector = [], deleted = []\<rparr> = Some (Ok (cs, u)) \<and>
     map sub_sectors cs = [[0, 1, 2, 3], [4, 5, 6, 7], [8, 9]]"
proof -
  obtain x where x: "lastModule ''addRequestToTrace'' (msg_trace (sample_blocks 1 SM_READ_FILE 10)) = Ok x"
    using sample_blocks_ok(3) by blast
  have "stripes 4 (sectors (fi_branches (addBranch 0 10 new_file))) = [[0, 1, 2, 3], [4, 5, 6, 7], [8, 9]]"
    by (simp add: sample_branches branch_sectors_def upt_rec stripes.simps[of 4 "_ # _"])
  moreover from raid_partition[OF sample_blocks_simps(1) sample_blocks_ok(1) _ _ sample_blocks_ok(2) x no_requests, of 2048 3 int]
  obtain cs u where "raid_split int 2048 3 (sample_blocks 1 SM_READ_FILE 10) \<lparr>requestVector = [], deleted = []\<rparr> = Some (Ok (cs, u))"
    "map sub_sectors cs = stripes 4 (sectors (fi_branches (addBranch 0 10 new_file)))" by auto
  ultimately show ?thesis by (intro exI conjI) (assumption | simp only:)+
qed

lemma raid_placement_witness:
  "\<exists>cs u. raid_split int 2048 3 (sample_blocks 1 SM_READ_FILE 10) \<lparr>requestVector = [], deleted = []\<rparr> = Some (Ok (cs, u)) \<and>
     (\<forall>c\<in>set cs. \<forall>s\<in>set (sub_sectors c). nextModuleIndex c = int (s div 4 mod 3))"
proof -
  obtain x where x: "lastModule ''addRequestToTrace'' (msg_trace (sample_blocks 1 SM_READ_FILE 10)) = Ok x"
    using sample_blocks_ok(3) by blast
  from raid_placement[OF sample_blocks_simps(1) sample_blocks_ok(1) _ _ sample_blocks_ok(2) x no_requests sample_branches, of 2048 3 int]
  show ?thesis by simp
qed

end
