(* ===== verification/StorageManagers.thy ===== *)
theory StorageManagers imports RaidSplitting begin

text \<open>
  The volume managers and storage schedulers (\<^verbatim>\<open>StorageManager\<close>, \<^verbatim>\<open>NullStorageManager\<close>,
  \<^verbatim>\<open>BranchScheduler\<close> and \<^verbatim>\<open>NullStorageScheduler\<close> in
  \<^verbatim>\<open>src/src/Architecture/NodeComponents/OperatingSystems/Storage/VolumeManagers\<close>): a request is split
  into subrequests, which wait in the queue of their disk; a disk gets the next one when it answers.

  The table of the splitter holds pointers, so the manager keeps the requests that have been split.
\<close>

definition volume_DISK_OFF :: string where "volume_DISK_OFF = ''disk_off''"

record storage_manager = module_state +
  vo_numStorageSystems :: nat
  vo_strideSize :: u32
  vo_idle :: "bool list"
  vo_queues :: "message list list"
  vo_table :: splitter
  vo_parents :: "message list"

type_synonym volume_pump = "storage_manager \<Rightarrow> storage_manager res"

definition vo_initialize :: "module_state \<Rightarrow> nat \<Rightarrow> u32 \<Rightarrow> storage_manager res" where
  "vo_initialize b n stride = (if stride < 512 \<or> stride mod 512 \<noteq> 0 then Fail (Thrown ''showErrorMessage'')
     else Ok \<lparr>queue = queue b, outbox = outbox b, currentRequest = currentRequest b, latencyScheduled = latencyScheduled b,
       module_id = module_id b, host_name = host_name b, vo_numStorageSystems = n, vo_strideSize = stride,
       vo_idle = replicate n False, vo_queues = replicate n [], vo_table = \<lparr>requestVector = [], deleted = []\<rparr>, vo_parents = []\<rparr>)"

definition toStorageSystem :: "nat \<Rightarrow> gate option" where
  "toStorageSystem i = Some (''toStorageSystem'', i)"

text \<open>The next subrequest of a disk, if there is one.\<close>

definition vo_sendNext :: "(message \<Rightarrow> int option) \<Rightarrow> volume_pump \<Rightarrow> nat \<Rightarrow> volume_pump" where
  "vo_sendNext og pump i s = (case vo_queues s ! i of
     [] \<Rightarrow> Ok s
   | c # q \<Rightarrow> sendRequestMessage og pump c (toStorageSystem i)
       (s\<lparr>vo_queues := (vo_queues s)[i := q], vo_idle := (vo_idle s)[i := False]\<rparr>))"

definition checkBuses :: "(message \<Rightarrow> int option) \<Rightarrow> volume_pump \<Rightarrow> volume_pump" where
  "checkBuses og pump s = fold_res (\<lambda>i s. if vo_idle s ! i then vo_sendNext og pump i s else Ok s) [0..<vo_numStorageSystems s] s"

text \<open>Switching disks: the message for the \<open>k\<close>-th of them; its number must be one of the gates.\<close>

definition disk_state_message :: "int \<Rightarrow> nat \<Rightarrow> message \<Rightarrow> message" where
  "disk_state_message i d sm = (empty_blocklist i)\<lparr>operation := SM_CHANGE_DISK_STATE, changing_state := changing_state sm,
     change_states_index := [int d]\<rparr>"

definition vo_changeState ::
  "(message \<Rightarrow> nat \<Rightarrow> int) \<Rightarrow> (message \<Rightarrow> int option) \<Rightarrow> volume_pump \<Rightarrow> message \<Rightarrow> nat \<Rightarrow> volume_pump" where
  "vo_changeState newId og pump sm k s = bind_res (get_component_to_change sm (int k)) (\<lambda>d.
     if d < 0 \<or> int (vo_numStorageSystems s) \<le> d then Fail Undefined
     else bind_res (sendRequestMessage og pump (disk_state_message (newId sm k) (nat d) sm) (toStorageSystem (nat d)) s) (\<lambda>s.
       Ok (s\<lparr>vo_idle := (vo_idle s)[nat d := (changing_state sm \<noteq> volume_DISK_OFF)]\<rparr>)))"

text \<open>Every subrequest of the request is taken out of its slot and queued.\<close>

fun vo_enqueue :: "int \<Rightarrow> message list \<Rightarrow> nat \<Rightarrow> nat \<Rightarrow> volume_pump" where
  "vo_enqueue parent cs 0 k s = Ok s"
| "vo_enqueue parent cs (Suc n) k s = bind_res (popSubRequest parent k (vo_table s)) (\<lambda>(p, t).
     case find_first (\<lambda>c. Some (msg_id c) = p) cs of
       None \<Rightarrow> Fail (Thrown ''check_and_cast'')
     | Some c \<Rightarrow> let d = nextModuleIndex c in
         if d < 0 \<or> int (vo_numStorageSystems s) \<le> d then Fail (Thrown ''showErrorMessage'')
         else vo_enqueue parent cs n (Suc k) (s\<lparr>vo_table := t, vo_queues := (vo_queues s)[nat d := vo_queues s ! nat d @ [c]]\<rparr>))"

text \<open>A split that does not end uses up the memory.\<close>

definition vo_split :: "(message \<Rightarrow> nat \<Rightarrow> int) \<Rightarrow> message \<Rightarrow> volume_pump" where
  "vo_split newId sm s = (case raid_split (newId sm) (vo_strideSize s) (word_of_nat (vo_numStorageSystems s)) sm (vo_table s) of
     None \<Rightarrow> Fail (Thrown ''bad_alloc'')
   | Some r \<Rightarrow> bind_res r (\<lambda>(cs, t). bind_res (getNumberOfSubRequest (msg_id sm) t) (\<lambda>n.
       vo_enqueue (msg_id sm) cs n 0 (s\<lparr>vo_table := t, vo_parents := vo_parents s @ [sm]\<rparr>))))"

definition vo_processRequestMessage ::
  "(message \<Rightarrow> nat \<Rightarrow> int) \<Rightarrow> (message \<Rightarrow> int option) \<Rightarrow> volume_pump \<Rightarrow> message \<Rightarrow> volume_pump" where
  "vo_processRequestMessage newId og pump sm s = (if cast_blocks sm = None then Fail (Thrown ''check_and_cast'')
     else if operation sm = SM_CHANGE_DISK_STATE
     then bind_res (fold_res (vo_changeState newId og pump sm) [0..<length (change_states_index sm)] s) (\<lambda>s. Ok (emit (Deleted sm) s))
     else bind_res (vo_split newId sm s) (checkBuses og pump))"

text \<open>When the last subrequest is there, the request is removed from the table and answered.\<close>

definition vo_complete :: "volume_pump \<Rightarrow> message \<Rightarrow> volume_pump" where
  "vo_complete pump m s = bind_res (removeRequest (msg_id m) (vo_table s)) (\<lambda>t.
     let m = m\<lparr>isResponse := True\<rparr> in bind_res (blocks_updateLength m) (\<lambda>_.
       sendResponseMessage pump m (s\<lparr>vo_table := t, vo_parents := remove_first (\<lambda>q. msg_id q = msg_id m) (vo_parents s)\<rparr>)))"

definition vo_processResponseMessage :: "(message \<Rightarrow> int option) \<Rightarrow> volume_pump \<Rightarrow> message \<Rightarrow> volume_pump" where
  "vo_processResponseMessage og pump sm s = (let d = nextModuleIndex sm in
     if d < 0 \<or> int (vo_numStorageSystems s) \<le> d then Fail (Thrown ''showErrorMessage'')
     else (case parentRequest sm of
         None \<Rightarrow> Fail (Thrown ''arrivesSubRequest'')
       | Some p \<Rightarrow> bind_res (arrivesSubRequest (msg_id sm) (msg_trace sm) p (vo_table s)) (\<lambda>t.
           case find_first (\<lambda>m. msg_id m = p) (vo_parents s) of
             None \<Rightarrow> Fail Undefined
           | Some m \<Rightarrow> let s = s\<lparr>vo_table := t, vo_idle := (vo_idle s)[nat d := True]\<rparr> in
               bind_res (arrivesAllSubRequest p t) (\<lambda>all.
               bind_res (if all then vo_complete pump m s else Ok s) (vo_sendNext og pump (nat d))))))"

definition no_self_message :: "string \<Rightarrow> 'a module_state_scheme \<Rightarrow> 'a module_state_scheme res" where
  "no_self_message name s = Fail (Thrown ''showErrorMessage'')"

definition vo_event ::
  "(message \<Rightarrow> nat \<Rightarrow> int) \<Rightarrow> (message \<Rightarrow> int option) \<Rightarrow> input \<Rightarrow> volume_pump" where
  "vo_event newId og = handleMessage og no_self_message (vo_processRequestMessage newId og) (vo_processResponseMessage og)"

subsection \<open>The manager of a single disk and the plain scheduler\<close>

text \<open>Without a disk the array of gates is empty.\<close>

definition nv_initialize :: "module_state \<Rightarrow> nat \<Rightarrow> module_state res" where
  "nv_initialize b n = (if 1 < n then Fail (Thrown ''showErrorMessage'') else Ok b)"

definition nv_processRequestMessage ::
  "nat \<Rightarrow> (message \<Rightarrow> int option) \<Rightarrow> (module_state \<Rightarrow> module_state res) \<Rightarrow> message \<Rightarrow> module_state \<Rightarrow> module_state res" where
  "nv_processRequestMessage n og pump sm s =
     (if n = 0 then Fail Undefined else sendRequestMessage og pump sm (toStorageSystem 0) s)"

definition nv_processResponseMessage :: "(module_state \<Rightarrow> module_state res) \<Rightarrow> message \<Rightarrow> module_state \<Rightarrow> module_state res" where
  "nv_processResponseMessage pump sm s = sendResponseMessage pump sm s"

definition ns_processRequestMessage ::
  "(message \<Rightarrow> int option) \<Rightarrow> (module_state \<Rightarrow> module_state res) \<Rightarrow> message \<Rightarrow> module_state \<Rightarrow> module_state res" where
  "ns_processRequestMessage og pump sm s = sendRequestMessage og pump sm (Some (''toOutput'', 0)) s"

definition ns_processResponseMessage :: "(module_state \<Rightarrow> module_state res) \<Rightarrow> message \<Rightarrow> module_state \<Rightarrow> module_state res" where
  "ns_processResponseMessage pump sm s = sendResponseMessage pump sm s"

subsection \<open>The scheduler that splits by branches\<close>

record branch_scheduler = module_state +
  bs_subRequests :: "message list"
  bs_table :: splitter

type_synonym branch_pump = "branch_scheduler \<Rightarrow> branch_scheduler res"

definition bs_initialize :: "module_state \<Rightarrow> branch_scheduler" where
  "bs_initialize b = \<lparr>queue = queue b, outbox = outbox b, currentRequest = currentRequest b, latencyScheduled = latencyScheduled b,
     module_id = module_id b, host_name = host_name b, bs_subRequests = [], bs_table = \<lparr>requestVector = [], deleted = []\<rparr>\<rparr>"

text \<open>Its own \<^verbatim>\<open>sendRequestMessage\<close> does not serve the queue.\<close>

definition bs_sendRequestMessage :: "(message \<Rightarrow> int option) \<Rightarrow> message \<Rightarrow> gate option \<Rightarrow> branch_pump" where
  "bs_sendRequestMessage og sm g s = bind_res (if isTraceEmpty (msg_trace sm)
       then updateMessageTrace og (sm\<lparr>msg_trace := addNodeToTrace (host_name s) (msg_trace sm)\<rparr>) s else Ok (sm, s))
     (\<lambda>(sm, s). Ok (emit (Sent sm (ViaGate g)) s))"

definition bs_popSubRequest :: "branch_scheduler \<Rightarrow> message option \<times> branch_scheduler" where
  "bs_popSubRequest s = (case bs_subRequests s of [] \<Rightarrow> (None, s) | c # cs \<Rightarrow> (Some c, s\<lparr>bs_subRequests := cs\<rparr>))"

lemma bs_send_subs: "bs_sendRequestMessage og c g s = Ok t \<Longrightarrow> bs_subRequests t = bs_subRequests s"
  by (auto simp: bs_sendRequestMessage_def updateMessageTrace_def emit_def elim!: bind_res_OkE split: if_splits)

function processBranches :: "(message \<Rightarrow> int option) \<Rightarrow> branch_pump" where
  "processBranches og s = (case bs_popSubRequest s of
     (None, s) \<Rightarrow> Ok s
   | (Some c, t) \<Rightarrow> bind_res (bs_sendRequestMessage og c (Some (''toOutput'', 0)) t) (processBranches og))"
  by pat_completeness auto

termination
  by (relation "measure (\<lambda>(og, s). length (bs_subRequests s))")
    (auto simp: bs_popSubRequest_def bs_send_subs split: list.splits)

declare processBranches.simps [simp del]

definition bs_processRequestMessage ::
  "(message \<Rightarrow> nat \<Rightarrow> int) \<Rightarrow> (message \<Rightarrow> int option) \<Rightarrow> branch_pump \<Rightarrow> message \<Rightarrow> branch_pump" where
  "bs_processRequestMessage newId og pump sm s = bind_res (branch_split (newId sm) sm (bs_table s)) (\<lambda>(cs, t).
     processBranches og (s\<lparr>bs_subRequests := bs_subRequests s @ cs, bs_table := t\<rparr>))"

definition bs_processResponseMessage :: "branch_pump \<Rightarrow> message \<Rightarrow> branch_pump" where
  "bs_processResponseMessage pump sm s = sendResponseMessage pump sm s"

definition bs_event ::
  "(message \<Rightarrow> nat \<Rightarrow> int) \<Rightarrow> (message \<Rightarrow> int option) \<Rightarrow> input \<Rightarrow> branch_pump" where
  "bs_event newId og = handleMessage og no_self_message (bs_processRequestMessage newId og) bs_processResponseMessage"

section \<open>Every event is served completely\<close>

text \<open>A pump that has nothing to do, in a loop of steps that only send.\<close>

definition still :: "'a module_state_scheme \<Rightarrow> 'a module_state_scheme \<Rightarrow> bool" where
  "still s t \<longleftrightarrow> (queue s = [] \<longrightarrow> queue t = []) \<and> latencyScheduled t = latencyScheduled s"

lemma still_refl [simp]: "still s s"
  by (simp add: still_def)

lemma still_trans: "still s t \<Longrightarrow> still t u \<Longrightarrow> still s u"
  by (simp add: still_def)

lemma still_request: "sendRequestMessage og Ok m g s = Ok t \<Longrightarrow> still s t"
  by (auto simp: still_def dest: sendRequestMessage_frame)

lemma still_response: "sendResponseMessage Ok m s = Ok t \<Longrightarrow> still s t"
  by (auto simp: still_def dest: sendResponseMessage_frame)

lemma fold_res_still:
  assumes "\<And>x s t. f x s = Ok t \<Longrightarrow> still s t" "fold_res f xs s = Ok t"
  shows "still s t"
  using assms(2) by (induction xs arbitrary: s) (auto elim!: bind_res_OkE dest!: assms(1) intro: still_trans)

lemma vo_loop_idle:
  assumes "\<And>x s. queue s = [] \<Longrightarrow> f x s = g x s" "\<And>x s t. g x s = Ok t \<Longrightarrow> still s t" "queue s = []"
  shows "fold_res f xs s = fold_res g xs s"
  using assms(3)
proof (induction xs arbitrary: s)
  case (Cons x xs)
  show ?case
    using Cons.prems assms(1)[of s x] by (auto intro!: bind_res_cong Cons.IH dest!: assms(2) simp: still_def)
qed simp

lemma sendNext_still: "vo_sendNext og Ok i s = Ok t \<Longrightarrow> still s t"
  by (auto simp: vo_sendNext_def still_def dest!: sendRequestMessage_frame split: list.splits)

lemma sendNext_idle:
  "queue s = [] \<Longrightarrow> (\<And>t. queue t = [] \<Longrightarrow> p t = Ok t) \<Longrightarrow> vo_sendNext og p i s = vo_sendNext og Ok i s"
  by (auto simp: vo_sendNext_def intro!: sendRequestMessage_idle split: list.splits)

lemma checkBuses_still: "checkBuses og Ok s = Ok t \<Longrightarrow> still s t"
  unfolding checkBuses_def by (rule fold_res_still[rotated]) (auto dest: sendNext_still split: if_splits)

lemma checkBuses_idle:
  assumes "queue s = []" "\<And>t. queue t = [] \<Longrightarrow> p t = Ok t"
  shows "checkBuses og p s = checkBuses og Ok s"
proof -
  have e: "(if vo_idle u ! i then vo_sendNext og p i u else Ok u) = (if vo_idle u ! i then vo_sendNext og Ok i u else Ok u)"
    if "queue u = []" for i u
    using sendNext_idle[OF that assms(2), of og i] by (rule if_cong[OF refl _ refl])
  show ?thesis unfolding checkBuses_def
    by (rule vo_loop_idle) (erule e, auto dest: sendNext_still split: if_splits simp: assms(1))
qed

lemma changeState_still:
  assumes "vo_changeState newId og Ok m k s = Ok t"
  shows "still s t"
proof -
  from assms obtain d u n where "sendRequestMessage og Ok (disk_state_message n d m) (toStorageSystem d) s = Ok u"
    "t = u\<lparr>vo_idle := (vo_idle u)[d := (changing_state m \<noteq> volume_DISK_OFF)]\<rparr>"
    unfolding vo_changeState_def by (elim bind_res_OkE) (auto elim!: bind_res_OkE split: if_splits)
  then show ?thesis using still_request[of og "disk_state_message n d m"] by (simp add: still_def)
qed

lemma vo_changeState_idle:
  assumes "queue s = []" "\<And>t. queue t = [] \<Longrightarrow> p t = Ok t"
  shows "vo_changeState newId og p m k s = vo_changeState newId og Ok m k s"
proof -
  have "sendRequestMessage og p n g s = sendRequestMessage og Ok n g s" for n g
    using assms(1) by (rule sendRequestMessage_idle) (rule assms(2))
  then show ?thesis by (simp only: vo_changeState_def)
qed

lemma enqueue_still: "vo_enqueue p cs n k s = Ok t \<Longrightarrow> still s t"
proof (induction n arbitrary: k s)
  case (Suc n)
  then obtain q u c where u: "popSubRequest p k (vo_table s) = Ok (q, u)" "find_first (\<lambda>c. Some (msg_id c) = q) cs = Some c"
    "vo_enqueue p cs n (Suc k) (s\<lparr>vo_table := u, vo_queues := (vo_queues s)[nat (nextModuleIndex c) := vo_queues s ! nat (nextModuleIndex c) @ [c]]\<rparr>) = Ok t"
    by (auto elim!: bind_res_OkE split: option.splits if_splits prod.splits simp: Let_def)
  from Suc.IH[OF u(3)] show ?case by (simp add: still_def)
qed simp

lemma split_still: "vo_split newId m s = Ok t \<Longrightarrow> still s t"
  by (auto simp: vo_split_def still_def elim!: bind_res_OkE dest!: enqueue_still split: option.splits)

lemma complete_still: "vo_complete Ok m s = Ok t \<Longrightarrow> still s t"
  by (auto simp: vo_complete_def still_def Let_def elim!: bind_res_OkE dest!: sendResponseMessage_frame)

lemma complete_idle:
  assumes "queue s = []" "\<And>t. queue t = [] \<Longrightarrow> p t = Ok t"
  shows "vo_complete p m s = vo_complete Ok m s"
proof -
  have "sendResponseMessage p n (s\<lparr>vo_table := u, vo_parents := ps\<rparr>) = sendResponseMessage Ok n (s\<lparr>vo_table := u, vo_parents := ps\<rparr>)" for n u ps
    by (rule sendResponseMessage_idle[OF _ assms(2)]) (simp_all add: assms(1))
  then show ?thesis by (simp only: vo_complete_def)
qed

lemma request_still:
  assumes "vo_processRequestMessage newId og Ok m s = Ok t"
  shows "still s t"
proof (cases "operation m = SM_CHANGE_DISK_STATE")
  case True
  with assms obtain u where u: "fold_res (vo_changeState newId og Ok m) [0..<length (change_states_index m)] s = Ok u" "t = emit (Deleted m) u"
    by (auto simp: vo_processRequestMessage_def elim!: bind_res_OkE split: if_splits)
  have "still s u" by (rule fold_res_still[OF _ u(1)]) (rule changeState_still)
  then show ?thesis by (simp add: still_def u(2))
next
  case False
  with assms obtain u where "vo_split newId m s = Ok u" "checkBuses og Ok u = Ok t"
    by (auto simp: vo_processRequestMessage_def elim!: bind_res_OkE split: if_splits)
  then show ?thesis by (blast intro: still_trans split_still checkBuses_still)
qed

lemma vo_request_idle:
  assumes "queue s = []" "\<And>t. queue t = [] \<Longrightarrow> p t = Ok t"
  shows "vo_processRequestMessage newId og p m s = vo_processRequestMessage newId og Ok m s"
proof -
  have a: "fold_res (vo_changeState newId og p m) xs s = fold_res (vo_changeState newId og Ok m) xs s" for xs
    using assms(1) by (rule vo_loop_idle[rotated 2]) (auto intro: vo_changeState_idle[OF _ assms(2)] changeState_still)
  have b: "bind_res (vo_split newId m s) (checkBuses og p) = bind_res (vo_split newId m s) (checkBuses og Ok)"
    using assms(1) by (intro bind_res_cong refl checkBuses_idle[OF _ assms(2)]) (auto simp: still_def dest: split_still)
  show ?thesis unfolding vo_processRequestMessage_def a b by (rule refl)
qed

lemma response_still:
  assumes "vo_processResponseMessage og Ok m s = Ok t"
  shows "still s t"
proof -
  let ?s = "\<lambda>u is. s\<lparr>vo_table := u, vo_idle := is\<rparr>"
  consider (all) u "is" q v i where "vo_complete Ok q (?s u is) = Ok v" "vo_sendNext og Ok i v = Ok t"
    | (more) u "is" i where "vo_sendNext og Ok i (?s u is) = Ok t"
    using assms unfolding vo_processResponseMessage_def Let_def
    by (auto elim!: bind_res_OkE split: if_splits option.splits)
  then show ?thesis
  proof cases
    case all
    then show ?thesis using still_trans[OF complete_still sendNext_still] by (fastforce simp: still_def)
  next
    case more
    then show ?thesis by (auto dest: sendNext_still simp: still_def)
  qed
qed

lemma vo_response_idle:
  assumes "queue s = []" "\<And>t. queue t = [] \<Longrightarrow> p t = Ok t"
  shows "vo_processResponseMessage og p m s = vo_processResponseMessage og Ok m s"
proof -
  have c: "bind_res (if all then vo_complete p q u else Ok u) (vo_sendNext og p i) =
      bind_res (if all then vo_complete Ok q u else Ok u) (vo_sendNext og Ok i)" if "queue u = []" for all q u i
    using that complete_idle[OF that assms(2)]
    by (auto intro!: bind_res_cong sendNext_idle[OF _ assms(2)] dest!: complete_still simp: still_def)
  have "queue (s\<lparr>vo_table := t, vo_idle := is\<rparr>) = []" for t "is" using assms(1) by simp
  note d = c[OF this]
  show ?thesis unfolding vo_processResponseMessage_def Let_def d by (rule refl)
qed

interpretation volume: message_module og no_self_message "vo_processRequestMessage newId og" "vo_processResponseMessage og"
  for og :: "message \<Rightarrow> int option" and newId
proof
  fix s t :: storage_manager and m n p
  show "vo_processRequestMessage newId og p m s = vo_processRequestMessage newId og Ok m s"
    if "queue s = []" "\<And>t. queue t = [] \<Longrightarrow> p t = Ok t" using that by (rule vo_request_idle)
  show "vo_processResponseMessage og p m s = vo_processResponseMessage og Ok m s"
    if "queue s = []" "\<And>t. queue t = [] \<Longrightarrow> p t = Ok t" using that by (rule vo_response_idle)
  show "queue t = [] \<and> latencyScheduled t = latencyScheduled s" if "queue s = []" "vo_processRequestMessage newId og Ok m s = Ok t"
    using request_still[OF that(2)] that(1) by (simp add: still_def)
  show "queue t = [] \<and> latencyScheduled t = latencyScheduled s" if "queue s = []" "vo_processResponseMessage og Ok m s = Ok t"
    using response_still[OF that(2)] that(1) by (simp add: still_def)
  show "queue t = [] \<and> latencyScheduled t = latencyScheduled s" if "queue s = []" "no_self_message n s = Ok t"
    using that by (simp add: no_self_message_def)
qed

lemma trace_still: "updateMessageTrace og m s = Ok (n, t) \<Longrightarrow> still s t"
  using updateMessageTrace_frame[of og m s n t] by (simp add: still_def)

lemma bs_send_still:
  assumes "bs_sendRequestMessage og c g s = Ok t"
  shows "still s t"
proof -
  from assms obtain n u where u: "t = emit (Sent n (ViaGate g)) u" "u = s \<or> (\<exists>m. updateMessageTrace og m s = Ok (n, u))"
    unfolding bs_sendRequestMessage_def by (elim bind_res_OkE) (auto split: if_splits)
  from u(2) have "still s u" by (auto dest: trace_still)
  then show ?thesis by (simp add: still_def u(1))
qed

lemma processBranches_still: "processBranches og s = Ok t \<Longrightarrow> still s t"
proof (induction "bs_subRequests s" arbitrary: s)
  case Nil
  then show ?case by (simp add: processBranches.simps[of og s] bs_popSubRequest_def flip: Nil(1))
next
  case (Cons c cs)
  let ?s = "s\<lparr>bs_subRequests := cs\<rparr>"
  from Cons.prems obtain u where u: "bs_sendRequestMessage og c (Some (''toOutput'', 0)) ?s = Ok u" "processBranches og u = Ok t"
    by (auto simp: processBranches.simps[of og s] bs_popSubRequest_def Cons(2)[symmetric] elim: bind_res_OkE)
  have "still ?s u" by (rule bs_send_still[OF u(1)])
  moreover have "still u t" using Cons.hyps(1)[OF _ u(2)] bs_send_subs[OF u(1)] by simp
  ultimately show ?case by (simp add: still_def)
qed

interpretation branches: message_module og no_self_message "bs_processRequestMessage newId og" bs_processResponseMessage
  for og :: "message \<Rightarrow> int option" and newId
proof
  fix s t :: branch_scheduler and m n p
  show "bs_processRequestMessage newId og p m s = bs_processRequestMessage newId og Ok m s" by (simp add: bs_processRequestMessage_def)
  show "bs_processResponseMessage p m s = bs_processResponseMessage Ok m s"
    if "queue s = []" "\<And>t. queue t = [] \<Longrightarrow> p t = Ok t"
    using sendResponseMessage_idle[OF that] by (simp only: bs_processResponseMessage_def)
  show "queue t = [] \<and> latencyScheduled t = latencyScheduled s" if "queue s = []" "bs_processRequestMessage newId og Ok m s = Ok t"
    using that by (auto simp: bs_processRequestMessage_def still_def elim!: bind_res_OkE dest!: processBranches_still)
  show "queue t = [] \<and> latencyScheduled t = latencyScheduled s" if "queue s = []" "bs_processResponseMessage Ok m s = Ok t"
    using that by (auto simp: bs_processResponseMessage_def dest!: sendResponseMessage_frame)
  show "queue t = [] \<and> latencyScheduled t = latencyScheduled s" if "queue s = []" "no_self_message n s = Ok t"
    using that by (simp add: no_self_message_def)
qed

section \<open>Requests for the disks\<close>

text \<open>No disk is idle.\<close>

definition all_busy :: "storage_manager \<Rightarrow> bool" where
  "all_busy s \<longleftrightarrow> vo_idle s = replicate (vo_numStorageSystems s) False"

lemma checkBuses_busy: "all_busy s \<Longrightarrow> checkBuses og p s = Ok s"
proof -
  assume busy: "all_busy s"
  have "fold_res (\<lambda>i s. if vo_idle s ! i then vo_sendNext og p i s else Ok s) is s = Ok s"
    if "\<forall>i\<in>set is. i < vo_numStorageSystems s" for "is"
    using that busy by (induction "is") (simp_all add: all_busy_def)
  then show ?thesis by (simp add: checkBuses_def)
qed

lemma enqueue_busy:
  "vo_enqueue p cs n k s = Ok t \<Longrightarrow> outbox t = outbox s \<and> (all_busy s \<longrightarrow> all_busy t)"
proof (induction n arbitrary: k s)
  case (Suc n)
  then obtain q u c where u: "popSubRequest p k (vo_table s) = Ok (q, u)" "find_first (\<lambda>c. Some (msg_id c) = q) cs = Some c"
    "vo_enqueue p cs n (Suc k) (s\<lparr>vo_table := u, vo_queues := (vo_queues s)[nat (nextModuleIndex c) := vo_queues s ! nat (nextModuleIndex c) @ [c]]\<rparr>) = Ok t"
    by (auto elim!: bind_res_OkE split: option.splits if_splits prod.splits simp: Let_def)
  from Suc.IH[OF u(3)] show ?case by (simp add: all_busy_def)
qed simp

lemma split_busy: "vo_split newId m s = Ok t \<Longrightarrow> all_busy s \<Longrightarrow> outbox t = outbox s \<and> all_busy t"
  by (auto simp: vo_split_def all_busy_def elim!: bind_res_OkE dest!: enqueue_busy split: option.splits)

definition file_request :: "input \<Rightarrow> bool" where
  "file_request inp \<longleftrightarrow> (case inp of SelfMsg n \<Rightarrow> False | Incoming m \<Rightarrow> \<not> isResponse m \<and> operation m \<noteq> SM_CHANGE_DISK_STATE)"

lemma busy_event:
  assumes "vo_event newId og inp s = Ok t" "file_request inp" "all_busy s" "queue s = []" "\<not> latencyScheduled s"
  shows "outbox t = outbox s \<and> all_busy t \<and> queue t = [] \<and> \<not> latencyScheduled t"
proof -
  from assms(2) obtain m where m: "inp = Incoming m" "\<not> isResponse m" "operation m \<noteq> SM_CHANGE_DISK_STATE"
    by (auto simp: file_request_def split: input.splits)
  have "queue t = [] \<and> \<not> latencyScheduled t"
    using volume.handle_quiescent[OF assms(4,5)] assms(1) by (simp add: vo_event_def)
  moreover from assms(1) obtain n u where u: "updateMessageTrace og m s = Ok (n, u)" "vo_processRequestMessage (newId :: message \<Rightarrow> nat \<Rightarrow> int) og Ok n u = Ok t"
    unfolding vo_event_def m(1) volume.handle_request[OF assms(4,5) m(2)] by (auto elim: bind_res_OkE)
  from updateMessageTrace_frame[OF u(1)] obtain tr where f: "n = m\<lparr>msg_trace := tr\<rparr>" "outbox u = outbox s" "module_state.more u = module_state.more s"
    by auto
  then have b: "all_busy u" "operation n \<noteq> SM_CHANGE_DISK_STATE"
    using assms(3) m(3) by (cases s; cases u; simp add: all_busy_def)+
  from u(2) b(2) obtain v where v: "vo_split newId n u = Ok v" "checkBuses og Ok v = Ok t"
    by (auto simp: vo_processRequestMessage_def elim!: bind_res_OkE split: if_splits)
  from split_busy[OF v(1) b(1)] v(2) have "outbox t = outbox u \<and> all_busy t" by (simp add: checkBuses_busy)
  ultimately show ?thesis using f(2) by simp
qed

text \<open>
  The disks start as busy although they have nothing to do: until a message switches a disk on, every
  request waits and nothing is sent.
\<close>

theorem volume_starts_busy:
  assumes "vo_initialize (base_initialize i h) n stride = Ok s" "fold_res (vo_event newId og) inps s = Ok t"
    and "list_all file_request inps"
  shows "outbox t = []"
proof -
  have "all_busy s \<and> queue s = [] \<and> \<not> latencyScheduled s" "outbox s = []"
    using assms(1) by (auto simp: vo_initialize_def all_busy_def base_initialize_def split: if_splits)
  moreover have "outbox t = outbox s" if "all_busy s \<and> queue s = [] \<and> \<not> latencyScheduled s" "fold_res (vo_event newId og) inps s = Ok t" for s
    using that assms(3)
  proof (induction inps arbitrary: s)
    case (Cons x xs)
    from Cons.prems(2) obtain u where u: "vo_event newId og x s = Ok u" "fold_res (vo_event newId og) xs u = Ok t" by (auto elim: bind_res_OkE)
    have b: "outbox u = outbox s \<and> all_busy u \<and> queue u = [] \<and> \<not> latencyScheduled u"
      using busy_event[OF u(1)] Cons.prems by simp
    with Cons.IH[OF _ u(2)] Cons.prems(3) show ?case by simp
  qed simp
  ultimately show ?thesis using assms(2) by auto
qed

lemma delete_slots_deleted: "Some p \<in> set xs \<Longrightarrow> p \<in> set (deleted s) \<Longrightarrow> delete_slots xs s = Fail Undefined"
proof (induction xs arbitrary: s)
  case (Cons x xs)
  show ?case
  proof (cases x)
    case None
    then show ?thesis using Cons by simp
  next
    case (Some q)
    show ?thesis
    proof (cases "q \<in> set (deleted s)")
      case True
      then show ?thesis by (simp add: Some delete_message_def)
    next
      case False
      then have "Some p \<in> set xs" using Cons.prems by (auto simp: Some)
      then show ?thesis using Cons.IH[of "s\<lparr>deleted := q # deleted s\<rparr>"] Cons.prems(2) False by (simp add: Some delete_message_def)
    qed
  qed
qed simp

text \<open>
  C16: The answer of the last subrequest is deleted when it is entered into its slot and once more when the
  request is removed: no request of the storage manager is ever completed.
\<close>

theorem volume_completion_undefined:
  assumes "queue s = []" "isResponse sm" "0 \<le> nextModuleIndex sm" "nextModuleIndex sm < int (vo_numStorageSystems s)"
    and "parentRequest sm = Some p" "find_first (\<lambda>m. msg_id m = p) (vo_parents s) = Some m"
    and "entry i r (vo_table s)" "sr_parent r = Some p" "getCurrentRequest (msg_trace sm) = Ok k"
    and "k < length (sr_slots r)" "sr_slots r ! k = None" "sr_arrived r + 1 = length (sr_slots r)" "msg_id sm \<notin> set (deleted (vo_table s))"
  shows "vo_event newId og (Incoming sm) s = Fail Undefined"
proof -
  let ?r = "r\<lparr>sr_slots := flip_slot (\<lambda>_. msg_id sm) k (sr_slots r), sr_arrived := sr_arrived r + 1\<rparr>"
  let ?t = "(vo_table s)\<lparr>requestVector := (requestVector (vo_table s))[i := ?r], deleted := msg_id sm # deleted (vo_table s)\<rparr>"
  have a: "arrivesSubRequest (msg_id sm) (msg_trace sm) p (vo_table s) = Ok ?t"
    by (rule arrives_step[OF assms(7,8,10,9,13)])
  have e: "entry i ?r ?t" by (rule entry_update[OF assms(7)]) simp
  then have s: "searchRequest p ?t = Some i" "requestVector ?t ! i = ?r" using assms(8) by (simp_all add: entry_def)
  have all: "arrivesAllSubRequest p ?t = Ok True"
    using assms(12) s by (simp add: arrivesAllSubRequest_def with_request_def req_arrivesAll_def flip_slot_def)
  have "Some (msg_id sm) \<in> set (sr_slots ?r)" using assms(10,11) by (auto simp: flip_slot_def intro!: set_update_memI)
  then have "removeRequest p ?t = Fail Undefined" using s by (simp add: removeRequest_def delete_slots_deleted)
  moreover have "msg_id m = p" using find_first_Some[OF assms(6)] by simp
  ultimately have "vo_complete Ok m (s\<lparr>vo_table := ?t, vo_idle := x\<rparr>) = Fail Undefined" for x by (simp add: vo_complete_def)
  then have "vo_processResponseMessage og Ok sm s = Fail Undefined"
    using assms(3-6) a all by (simp add: vo_processResponseMessage_def Let_def)
  then show ?thesis unfolding vo_event_def volume.handle_response[OF assms(1,2)] .
qed

section \<open>The branches of a request\<close>

lemma processBranches_sends:
  assumes "\<forall>c\<in>set (bs_subRequests s). msg_trace c \<noteq> []"
  shows "\<exists>t. processBranches og s = Ok t \<and> bs_subRequests t = [] \<and>
    outbox t = outbox s @ map (\<lambda>c. Sent c (ViaGate (Some (''toOutput'', 0)))) (bs_subRequests s)"
  using assms
proof (induction "bs_subRequests s" arbitrary: s)
  case Nil
  then show ?case by (simp add: processBranches.simps[of og s] bs_popSubRequest_def flip: Nil(1))
next
  case (Cons c cs)
  let ?u = "emit (Sent c (ViaGate (Some (''toOutput'', 0)))) (s\<lparr>bs_subRequests := cs\<rparr>)"
  have u: "bs_subRequests ?u = cs" by (simp add: emit_def)
  have "msg_trace c \<noteq> []" "\<forall>c\<in>set cs. msg_trace c \<noteq> []" using Cons.prems by (simp_all flip: Cons.hyps(2))
  then have "processBranches og s = processBranches og ?u"
    by (simp add: processBranches.simps[of og s] bs_popSubRequest_def bs_sendRequestMessage_def isTraceEmpty_def flip: Cons.hyps(2))
  moreover from Cons.hyps(1)[OF u[symmetric]] \<open>\<forall>c\<in>set cs. msg_trace c \<noteq> []\<close> obtain t where
    "processBranches og ?u = Ok t" "bs_subRequests t = []" "outbox t = outbox ?u @ map (\<lambda>c. Sent c (ViaGate (Some (''toOutput'', 0)))) cs"
    by (auto simp: u)
  ultimately show ?case by (auto simp flip: Cons.hyps(2))
qed

lemma branch_copy_simps:
  "operation (branch_copy i io b m) = operation m" "isResponse (branch_copy i io b m) = isResponse m"
  "remoteOperation (branch_copy i io b m) = remoteOperation m" "msg_trace (branch_copy i io b m) = msg_trace m"
  "sub_sectors (branch_copy i io b m) = branch_sectors b" "cast_io (branch_copy i io b m) \<noteq> None"
  by (simp_all add: branch_copy_def set_blocks_def cast_io_def dup_blocklist_def set_io_def sub_sectors_def cast_blocks_def
      addBranch_branches new_file_def branch_sectors_def)

lemma branch_copies_ok:
  assumes "cast_io m = Some io" "res_ok (blocks_updateLength m)"
  shows "\<exists>cs. branch_copies newId io m k bs = Ok cs \<and> map sub_sectors cs = map branch_sectors bs \<and> (\<forall>c\<in>set cs. msg_trace c = msg_trace m)"
proof (induction bs arbitrary: k)
  case (Cons b bs)
  let ?c = "branch_copy (newId k) io b m"
  obtain j where "cast_io ?c = Some j" using branch_copy_simps(6) by blast
  then have "res_ok (blocks_updateLength ?c)" using updateLength_like[OF assms(1)] assms(2) by (simp add: branch_copy_simps)
  then obtain n where "blocks_updateLength ?c = Ok n" by (rule res_okE)
  moreover obtain cs where "branch_copies newId io m (Suc k) bs = Ok cs" "map sub_sectors cs = map branch_sectors bs"
    "\<forall>c\<in>set cs. msg_trace c = msg_trace m" using Cons.IH by blast
  ultimately show ?case by (simp add: Let_def branch_copy_simps)
qed simp

lemma updateLength_trace: "blocks_updateLength (m\<lparr>msg_trace := t\<rparr>) = blocks_updateLength m"
proof -
  have "cast_io (m\<lparr>msg_trace := t\<rparr>) = cast_io m" by (simp add: cast_io_def)
  then show ?thesis by (cases "cast_io m") (simp_all add: blocks_updateLength_def Let_def)
qed

text \<open>
  A request leaves the branch scheduler as one subrequest for every branch, in order.  A request
  without branches, such as one that switches disks, is not passed on.
\<close>

theorem branch_scheduler_sends:
  assumes "queue s = []" "\<not> latencyScheduled s" "bs_subRequests s = []" "\<not> isResponse m" "msg_trace m \<noteq> []"
    and "cast_blocks m = Some f" "res_ok (blocks_updateLength m)"
  shows "\<exists>t cs. bs_event newId og (Incoming m) s = Ok t \<and> map sub_sectors cs = map branch_sectors (fi_branches f) \<and>
    outbox t = outbox s @ map (\<lambda>c. Sent c (ViaGate (Some (''toOutput'', 0)))) cs \<and> bs_subRequests t = []"
proof -
  obtain tr where tr: "addModuleToTrace (module_id s) (case og m of None \<Rightarrow> NO_GATE_ID | Some g \<Rightarrow> g) (currentRequest s) (msg_trace m) = Ok tr"
    using assms(5) by (auto simp: addModuleToTrace_def)
  let ?m = "m\<lparr>msg_trace := tr\<rparr>" and ?s = "s\<lparr>currentRequest := Suc (currentRequest s)\<rparr>"
  obtain io where io: "cast_io ?m = Some io" "io_blocks io = Some f"
    using assms(6) by (auto simp: cast_blocks_def cast_io_def split: option.splits)
  from branch_copies_ok[OF io(1), of "newId ?m" 0 "fi_branches f"] assms(7) obtain cs where
    cs: "branch_copies (newId ?m) io ?m 0 (fi_branches f) = Ok cs" "map sub_sectors cs = map branch_sectors (fi_branches f)"
      "\<forall>c\<in>set cs. msg_trace c = tr" by (auto simp: updateLength_trace)
  have "tr \<noteq> []" using addModule_lastGate[OF tr] by (auto simp: getLastGateId_def lastModule_def)
  let ?u = "?s\<lparr>bs_subRequests := cs, bs_table := addRequest (msg_id m) (getNumberOfBranches f) (bs_table s)\<rparr>"
  from processBranches_sends[of ?u og] cs(3) \<open>tr \<noteq> []\<close> obtain t where
    t: "processBranches og ?u = Ok t" "bs_subRequests t = []" "outbox t = outbox s @ map (\<lambda>c. Sent c (ViaGate (Some (''toOutput'', 0)))) cs"
    by auto
  have "bs_processRequestMessage newId og Ok ?m ?s = Ok t"
    using io cs(1) t(1) assms(3) by (simp add: bs_processRequestMessage_def branch_split_def)
  then have "bs_event newId og (Incoming m) s = Ok t"
    unfolding bs_event_def branches.handle_request[OF assms(1,2,4)] by (simp add: updateMessageTrace_def tr)
  with t(2,3) cs(2) show ?thesis by blast
qed

section \<open>A sample volume\<close>

definition sample_volume :: storage_manager where
  "sample_volume = (case vo_initialize (base_initialize 5 ''n0'') 3 2048 of Ok s \<Rightarrow> s)"

definition sample_volume_id :: "message \<Rightarrow> nat \<Rightarrow> int" where
  "sample_volume_id m k = 100 * msg_id m + int k"

definition sample_inputs :: "input list" where
  "sample_inputs = [Incoming (sample_blocks 1 SM_READ_FILE 10), Incoming (sample_blocks 2 SM_READ_FILE 3)]"

definition sample_volume_later :: storage_manager where
  "sample_volume_later = (case fold_res (vo_event sample_volume_id (\<lambda>_. Some 9)) sample_inputs sample_volume of Ok s \<Rightarrow> s)"

definition sample_split :: storage_manager where
  "sample_split = sample_volume\<lparr>vo_table := \<lparr>requestVector = [\<lparr>sr_parent = Some 2, sr_slots = [None], sr_arrived = 0\<rparr>], deleted = []\<rparr>,
     vo_parents := [sample_blocks 2 SM_READ_FILE 3]\<rparr>"

definition sample_answer :: message where
  "sample_answer = (sample_blocks 200 SM_READ_FILE 3)\<lparr>isResponse := True, nextModuleIndex := 0, parentRequest := Some 2\<rparr>"

lemma volume_completion_undefined_witness: "vo_event sample_volume_id (\<lambda>_. Some 9) (Incoming sample_answer) sample_split = Fail Undefined"
proof -
  have a: "isResponse sample_answer" "nextModuleIndex sample_answer = 0" "parentRequest sample_answer = Some 2"
    "getCurrentRequest (msg_trace sample_answer) = Ok 0" "msg_id sample_answer = 200"
    by (simp_all add: sample_answer_def sample_blocks_simps getCurrentRequest_def lastModule_def vec_back_def)
  have v: "queue sample_split = []" "vo_numStorageSystems sample_split = 3"
    "find_first (\<lambda>m. msg_id m = 2) (vo_parents sample_split) = Some (sample_blocks 2 SM_READ_FILE 3)"
    "entry 0 \<lparr>sr_parent = Some 2, sr_slots = [None], sr_arrived = 0\<rparr> (vo_table sample_split)" "deleted (vo_table sample_split) = []"
    by (simp_all add: sample_split_def sample_volume_def vo_initialize_def base_initialize_def sample_blocks_simps entry_def searchRequest_def)
  show ?thesis
    by (rule volume_completion_undefined[OF v(1) a(1) _ _ a(3) v(3,4) _ a(4)]) (simp_all add: a v)
qed

definition sample_branch_scheduler :: branch_scheduler where
  "sample_branch_scheduler = bs_initialize (base_initialize 5 ''n0'')"

end
