(* ===== verification/Disks.thy ===== *)
theory Disks imports StorageManagers HwEnergy CpuSchedulers begin

text \<open>
  The disks (\<^verbatim>\<open>SimpleDisk\<close> and \<^verbatim>\<open>Disk_LI\<close> in
  \<^verbatim>\<open>src/src/Architecture/NodeComponents/Hardware/Storage/Devices/Disks\<close>): one request at a time is
  served, for a time that comes from a bandwidth, or from tables of measured times by linear
  interpolation.  The energy states are kept by the controller of the disks, \<open>dk_energy\<close>.

  Numbers of the types \<^verbatim>\<open>double\<close> and \<^verbatim>\<open>simtime_t\<close> are rational; a division by 0 gives a number
  that \<^verbatim>\<open>simtime_t\<close> refuses.  The timer is the message \<^verbatim>\<open>latencyMessage\<close> of the base class, so the
  queue is not served while a request is.
\<close>

definition DISK_OFF :: string where "DISK_OFF = ''disk_off''"
definition DISK_ACTIVE :: string where "DISK_ACTIVE = ''disk_active''"
definition DISK_IDLE :: string where "DISK_IDLE = ''disk_idle''"

record disk = module_state +
  dk_readBandwidth :: u32
  dk_writeBandwidth :: u32
  dk_requestTime :: rat
  dk_pending :: "message option"
  dk_nodeState :: string
  dk_energy :: storage_controller
  dk_index :: nat
  dk_timer :: "rat option"

text \<open>The stages of the initialisation: the device is registered, then the disk is set up.\<close>

definition sd_initialize :: "module_state \<Rightarrow> nat \<Rightarrow> u32 \<Rightarrow> u32 \<Rightarrow> storage_controller \<Rightarrow> disk res" where
  "sd_initialize b i rb wb c = bind_res (registerDevice [] i c) (\<lambda>c. Ok \<lparr>queue = queue b, outbox = outbox b,
     currentRequest = currentRequest b, latencyScheduled = latencyScheduled b, module_id = module_id b, host_name = host_name b,
     dk_readBandwidth = rb, dk_writeBandwidth = wb, dk_requestTime = 0, dk_pending = None, dk_nodeState = MACHINE_STATE_OFF,
     dk_energy = c, dk_index = i, dk_timer = None\<rparr>)"

definition dk_e_changeState :: "string \<Rightarrow> rat \<Rightarrow> 'a disk_scheme \<Rightarrow> 'a disk_scheme res" where
  "dk_e_changeState state now s =
     bind_res (sg_changeState state now (dk_index s) (dk_energy s)) (\<lambda>c. Ok (s\<lparr>dk_energy := c\<rparr>))"

text \<open>
  What a kind of disk is: the change of its energy state, and the service of a request, which gives the
  time and the answer.
\<close>

type_synonym 'a state_change = "string \<Rightarrow> rat \<Rightarrow> 'a disk_scheme \<Rightarrow> 'a disk_scheme res"
type_synonym 'a disk_service = "message \<Rightarrow> 'a disk_scheme \<Rightarrow> (rat \<times> message \<times> 'a disk_scheme) res"

definition dk_changeDeviceState :: "'a state_change \<Rightarrow> 'a state_change" where
  "dk_changeDeviceState change state now s =
     (if state = MACHINE_STATE_IDLE then change DISK_IDLE now (s\<lparr>dk_nodeState := MACHINE_STATE_IDLE\<rparr>)
      else if state = MACHINE_STATE_RUNNING then change DISK_IDLE now (s\<lparr>dk_nodeState := MACHINE_STATE_RUNNING\<rparr>)
      else if state = MACHINE_STATE_OFF then change DISK_OFF now (s\<lparr>dk_nodeState := MACHINE_STATE_OFF\<rparr>)
      else Ok s)"

text \<open>A timer that is scheduled already cannot be scheduled again.\<close>

definition dk_schedule :: "rat \<Rightarrow> 'a disk_scheme \<Rightarrow> 'a disk_scheme res" where
  "dk_schedule t s = (if latencyScheduled s then Fail (Thrown ''scheduleAt'')
     else Ok (s\<lparr>latencyScheduled := True, dk_timer := Some t\<rparr>))"

definition dk_processRequestMessage ::
  "'a state_change \<Rightarrow> 'a disk_service \<Rightarrow> rat \<Rightarrow> message \<Rightarrow> 'a disk_scheme \<Rightarrow> 'a disk_scheme res" where
  "dk_processRequestMessage change service now sm s =
     (if operation sm = SM_CHANGE_DISK_STATE
      then bind_res (dk_changeDeviceState change (changing_state sm) now s) (\<lambda>s. Ok (emit (Deleted sm) s))
      else bind_res (service sm s) (\<lambda>(t, m, s).
        bind_res (change DISK_ACTIVE now (s\<lparr>dk_pending := Some m, dk_requestTime := t\<rparr>)) (dk_schedule (now + t))))"

definition dk_processSelfMessage ::
  "'a state_change \<Rightarrow> ('a disk_scheme \<Rightarrow> 'a disk_scheme res) \<Rightarrow> rat \<Rightarrow> 'a disk_scheme \<Rightarrow> 'a disk_scheme res" where
  "dk_processSelfMessage change pump now s = (case dk_pending s of
     None \<Rightarrow> Fail (Thrown ''check_and_cast'')
   | Some m \<Rightarrow> if cast_blocks m = None then Fail (Thrown ''check_and_cast'')
       else bind_res (change DISK_IDLE now (s\<lparr>dk_pending := None\<rparr>)) (sendResponseMessage pump m))"

definition dk_processResponseMessage :: "message \<Rightarrow> 'a disk_scheme \<Rightarrow> 'a disk_scheme res" where
  "dk_processResponseMessage sm s = Fail (Thrown ''showErrorMessage'')"

datatype disk_event = DiskArrives rat message | DiskDue

definition dk_pump :: "'a state_change \<Rightarrow> 'a disk_service \<Rightarrow> rat \<Rightarrow> 'a disk_scheme \<Rightarrow> 'a disk_scheme res" where
  "dk_pump change service now = processCurrentRequestMessage (\<lambda>_. dk_processRequestMessage change service now)"

definition dk_event ::
  "'a state_change \<Rightarrow> 'a disk_service \<Rightarrow> (message \<Rightarrow> int option) \<Rightarrow> disk_event \<Rightarrow> 'a disk_scheme \<Rightarrow> 'a disk_scheme res" where
  "dk_event change service og ev s = (case ev of
     DiskArrives now sm \<Rightarrow>
       if \<not> isResponse sm then bind_res (updateMessageTrace og sm s) (\<lambda>(sm, s). dk_pump change service now (s\<lparr>queue := queue s @ [sm]\<rparr>))
       else dk_processResponseMessage sm s
   | DiskDue \<Rightarrow> (case dk_timer s of None \<Rightarrow> Ok s
       | Some now \<Rightarrow> dk_processSelfMessage change (dk_pump change service now) now (s\<lparr>latencyScheduled := False, dk_timer := None\<rparr>)))"

subsection \<open>The simple disk\<close>

definition transfer_time :: "nat \<Rightarrow> u32 \<Rightarrow> rat res" where
  "transfer_time bytes bandwidth = (let d = bandwidth * 1048576
     in if d = 0 then Fail (Thrown ''SimTime'') else Ok (of_nat bytes / of_nat (unat d)))"

text \<open>The operation is compared with the character \<^verbatim>\<open>'r'\<close>, 114, which is no operation.\<close>

definition sd_service :: "'a disk_service" where
  "sd_service sm s = (case cast_io sm of
     None \<Rightarrow> Fail (Thrown ''service'')
   | Some io \<Rightarrow> if io_blocks io = None then Fail (Thrown ''service'') else
       bind_res (transfer_time (io_size io) (if operation sm = 114 then dk_readBandwidth s else dk_writeBandwidth s)) (\<lambda>t.
       bind_res (blocks_updateLength sm) (\<lambda>_. Ok (t, sm\<lparr>isResponse := True\<rparr>, s))))"

text \<open>Not used by \<^verbatim>\<open>service\<close>.\<close>

definition sd_storageDeviceTime :: "u64 \<Rightarrow> char \<Rightarrow> 'a disk_scheme \<Rightarrow> rat res" where
  "sd_storageDeviceTime numBlocks op s =
     transfer_time (unat (numBlocks * 512)) (if op = CHR ''r'' then dk_readBandwidth s else dk_writeBandwidth s)"

definition sd_event :: "(message \<Rightarrow> int option) \<Rightarrow> disk_event \<Rightarrow> disk \<Rightarrow> disk res" where
  "sd_event = dk_event dk_e_changeState sd_service"

subsection \<open>The disk with linear interpolation\<close>

definition blockSizes :: "int list" where
  "blockSizes = [512, 1024, 2048, 4096, 8192, 16384, 32768, 65536, 131072, 262144, 524288, 1048576, 2097152, 4194304, 8388608,
     16777216, 33554432, 67108864, 134217728]"

definition jumpsSizes :: "int list" where
  "jumpsSizes = [0, 512, 1024, 4096, 32768, 131072, 1048576, 10485760, 104857600]"

text \<open>The tables, in units of \<open>10 ^ -8\<close> seconds.\<close>

definition seconds :: "int list list \<Rightarrow> rat list list" where
  "seconds = map (map (\<lambda>n. of_int n / 100000000))"

definition readTimes :: "rat list list" where
  "readTimes = seconds
    [[62, 63, 63, 63, 63, 63, 63, 63, 63],
     [75, 75, 75, 78, 73, 75, 74, 75, 78],
     [134, 149, 140, 134, 144, 134, 142, 134, 138],
     [189, 170, 189, 177, 182, 184, 189, 201, 180],
     [210, 222, 249, 222, 220, 231, 203, 210, 240],
     [406, 410, 411, 408, 409, 412, 414, 413, 409],
     [735, 739, 741, 742, 735, 737, 739, 742, 740],
     [1335, 1338, 1340, 1341, 1342, 1343, 1342, 1342, 1339],
     [2750, 2751, 2753, 2757, 2754, 2764, 2769, 2698, 2780],
     [54000, 54130, 54230, 54140, 54160, 54360, 54360, 54850, 54740],
     [112130, 112650, 112560, 112860, 113010, 113050, 113150, 113250, 113360],
     [214450, 214510, 214520, 214490, 214560, 215010, 215200, 215450, 218760],
     [403450, 403640, 403750, 403780, 403790, 403960, 403850, 403550, 403990],
     [760350, 760850, 762650, 763000, 761350, 762350, 765640, 766470, 767640],
     [1423430, 1412430, 1501230, 1487530, 1455630, 1566640, 1444450, 1439930, 1433350],
     [2909830, 2883340, 2909980, 2909440, 2955530, 2955430, 3099230, 3044530, 2933340],
     [6187340, 6145570, 6444560, 6144570, 6122460, 6199640, 6144680, 6342570, 6355680],
     [12467850, 12546730, 13554680, 13767430, 14773760, 13455780, 13566470, 12656560, 14536760],
     [25664670, 25784430, 26557880, 28635760, 27636570, 28776470, 25678750, 27535760, 29764680]]"

definition writeTimes :: "rat list list" where
  "writeTimes = seconds
    [[710, 730, 770, 710, 740, 690, 800, 780, 750],
     [780, 780, 770, 780, 780, 730, 760, 820, 750],
     [820, 830, 840, 840, 800, 820, 810, 860, 850],
     [710, 720, 790, 920, 850, 1100, 950, 760, 1030],
     [1150, 1100, 1150, 1120, 1160, 1190, 1110, 1190, 1130],
     [2130, 2190, 2100, 2180, 2210, 2220, 2200, 2190, 2150],
     [3510, 3620, 3550, 3490, 3600, 3680, 3550, 3590, 3530],
     [6280, 6320, 6370, 6300, 6300, 6250, 6340, 6310, 6340],
     [85200, 85890, 84990, 85260, 86230, 87230, 86010, 85790, 85430],
     [172440, 173420, 174420, 173430, 174410, 180030, 181010, 179830, 173540],
     [358410, 358540, 358980, 358320, 359010, 359510, 359220, 358550, 358400],
     [646730, 647010, 646540, 646000, 650730, 646040, 643540, 643010, 642540],
     [1243460, 1243230, 1246060, 1249890, 1239980, 1240010, 1247670, 1245420, 1245330],
     [2316920, 2316740, 2316990, 2317030, 2317760, 2317980, 2318040, 2317450, 2315450],
     [4177280, 4023340, 4239860, 4465490, 4334130, 3875460, 4177280, 4177280, 4177280],
     [7925440, 7876370, 7765670, 7952390, 8123870, 8409730, 7925640, 8121350, 8081320],
     [15842950, 15012430, 16012320, 15219540, 15437850, 15432780, 15234320, 15987040, 16065810],
     [30323470, 31978640, 35467430, 31238770, 32238790, 30943560, 31375780, 33466460, 32354670],
     [61768400, 63435760, 65467450, 63457750, 63456560, 60976540, 63456710, 63468470, 63335670]]"

text \<open>The bandwidth of a table: the time of 1 MB after a jump of 32 KB.\<close>

definition table_bandwidth :: "rat list list \<Rightarrow> u32" where
  "table_bandwidth table = word_of_int \<lfloor>1 / table ! 11 ! 4\<rfloor>"

record disk_li = disk +
  dk_lastBlock :: u64

definition li_initialize :: "module_state \<Rightarrow> nat \<Rightarrow> storage_controller \<Rightarrow> disk_li res" where
  "li_initialize b i c = bind_res (registerDevice [] i c) (\<lambda>c. Ok \<lparr>queue = queue b, outbox = outbox b,
     currentRequest = currentRequest b, latencyScheduled = latencyScheduled b, module_id = module_id b, host_name = host_name b,
     dk_readBandwidth = table_bandwidth readTimes, dk_writeBandwidth = table_bandwidth writeTimes, dk_requestTime = 0,
     dk_pending = None, dk_nodeState = MACHINE_STATE_OFF, dk_energy = c, dk_index = i, dk_timer = None, dk_lastBlock = 0\<rparr>)"

definition li_changeState :: "string \<Rightarrow> rat \<Rightarrow> 'a disk_scheme \<Rightarrow> 'a disk_scheme res" where
  "li_changeState state now s = dk_e_changeState (if dk_nodeState s = MACHINE_STATE_OFF then DISK_OFF else state) now s"

definition linealInterpolation :: "int \<Rightarrow> int \<Rightarrow> int \<Rightarrow> rat \<Rightarrow> rat \<Rightarrow> rat" where
  "linealInterpolation x x0 x1 y0 y1 = y0 + (y1 - y0) / of_int (x1 - x0) * of_int (x - x0)"

text \<open>The rows of the sizes and the columns of the jumps between which the times are; the numbers may be out of the table.\<close>

definition calculateIndex :: "int \<Rightarrow> int \<Rightarrow> (int \<times> int) \<times> int \<times> int" where
  "calculateIndex jump numBytes =
     ((case index_of (\<lambda>n. n > numBytes) blockSizes of None \<Rightarrow> (-1, -1) | Some k \<Rightarrow> if k = 0 then (0, 1) else (int k - 1, int k)),
      (case index_of (\<lambda>n. n > jump) jumpsSizes of None \<Rightarrow> (8, 9) | Some k \<Rightarrow> (int k - 1, int k)))"

definition column_time :: "int \<Rightarrow> int \<Rightarrow> int \<Rightarrow> int \<Rightarrow> rat" where
  "column_time jump row c1 c2 = \<bar>linealInterpolation jump (jumpsSizes ! nat c1) (jumpsSizes ! nat c2)
     (readTimes ! nat row ! nat c1) (readTimes ! nat row ! nat c2)\<bar>"

definition table_time :: "int \<Rightarrow> int \<Rightarrow> int \<times> int \<Rightarrow> int \<times> int \<Rightarrow> rat" where
  "table_time jump bytes b c = \<bar>linealInterpolation bytes (blockSizes ! nat (fst b)) (blockSizes ! nat (snd b))
     (column_time jump (fst b) (fst c) (snd c)) (column_time jump (snd b) (fst c) (snd c))\<bar>"

text \<open>The times of the table are those of reads, also for a write.\<close>

definition in_table :: "(int \<times> int) \<times> int \<times> int \<Rightarrow> bool" where
  "in_table ix = (case ix of ((b1, b2), c1, c2) \<Rightarrow>
     \<not> (b1 < 0 \<or> b2 < 0 \<or> c1 < 0 \<or> c2 < 0 \<or> 19 \<le> b1 \<or> 19 \<le> b2 \<or> 9 \<le> c1 \<or> 9 \<le> c2))"

definition li_storageDeviceTime :: "u64 \<Rightarrow> u64 \<Rightarrow> bool \<Rightarrow> disk_li \<Rightarrow> (rat \<times> disk_li) res" where
  "li_storageDeviceTime offsetBlock branchSize reads s =
     (let jump = \<bar>sint (dk_lastBlock s - offsetBlock)\<bar> * 512; bytes = sint (branchSize * 512); ix = calculateIndex jump bytes;
          t = s\<lparr>dk_lastBlock := offsetBlock + branchSize\<rparr>
      in if 2 ^ 63 \<le> jump then Fail Undefined
         else if in_table ix then Ok (table_time jump bytes (fst ix) (snd ix), t)
         else let d = (if reads then dk_readBandwidth s else dk_writeBandwidth s) * 1048576
              in if d = 0 then Fail (Thrown ''SimTime'') else Ok (of_int bytes / of_nat (unat d), t))"

fun branches_time :: "bool \<Rightarrow> file_branch list \<Rightarrow> rat \<Rightarrow> disk_li \<Rightarrow> (rat \<times> disk_li) res" where
  "branches_time reads [] delay s = Ok (delay, s)"
| "branches_time reads (b # bs) delay s =
     bind_res (li_storageDeviceTime (br_offset b) (br_numBlocks b) reads s) (\<lambda>(t, s). branches_time reads bs (delay + t) s)"

definition li_service :: "message \<Rightarrow> disk_li \<Rightarrow> (rat \<times> message \<times> disk_li) res" where
  "li_service sm s = (case cast_blocks sm of
     None \<Rightarrow> Fail Undefined
   | Some f \<Rightarrow> bind_res (blocks_updateLength sm) (\<lambda>_.
       bind_res (branches_time (operation sm = SM_READ_FILE) (fi_branches f) 0 s) (\<lambda>(t, s). Ok (t, sm\<lparr>isResponse := True\<rparr>, s))))"

definition li_event :: "(message \<Rightarrow> int option) \<Rightarrow> disk_event \<Rightarrow> disk_li \<Rightarrow> disk_li res" where
  "li_event = dk_event li_changeState li_service"

section \<open>Serving a request\<close>

text \<open>The energy states of a disk can be set.\<close>

definition energy_ready :: "'a disk_scheme \<Rightarrow> bool" where
  "energy_ready s \<longleftrightarrow> dk_index s < length (sg_devices (dk_energy s)) \<and> sg_devices (dk_energy s) ! dk_index s \<noteq> None \<and>
     meter_ready (dk_index s) {DISK_OFF, DISK_ACTIVE, DISK_IDLE} (sg_hw (dk_energy s))"

definition disk_ready :: "'a disk_scheme \<Rightarrow> bool" where
  "disk_ready s \<longleftrightarrow> queue s = [] \<and> \<not> latencyScheduled s \<and> dk_timer s = None \<and> energy_ready s"

lemma change_energy_ready:
  assumes "energy_ready s" "st \<in> {DISK_OFF, DISK_ACTIVE, DISK_IDLE}"
  shows "\<exists>c. dk_e_changeState st now s = Ok (s\<lparr>dk_energy := c\<rparr>) \<and> energy_ready (s\<lparr>dk_energy := c\<rparr>)"
proof -
  from assms have r: "meter_ready (dk_index s) {DISK_OFF, DISK_ACTIVE, DISK_IDLE} (sg_hw (dk_energy s))"
    "dk_index s < length (sg_devices (dk_energy s))" "sg_devices (dk_energy s) ! dk_index s \<noteq> None" by (simp_all add: energy_ready_def)
  from e_change_ready[OF r(1) assms(2), of now] obtain h where "e_changeState st now (dk_index s) (sg_hw (dk_energy s)) = Ok h"
    "meter_ready (dk_index s) {DISK_OFF, DISK_ACTIVE, DISK_IDLE} h" by blast
  then have "dk_e_changeState st now s = Ok (s\<lparr>dk_energy := (dk_energy s)\<lparr>sg_hw := h\<rparr>\<rparr>) \<and>
      energy_ready (s\<lparr>dk_energy := (dk_energy s)\<lparr>sg_hw := h\<rparr>\<rparr>)"
    using r(2,3) by (simp add: dk_e_changeState_def sg_changeState_def energy_ready_def)
  then show ?thesis by blast
qed

text \<open>What a kind of disk guarantees, and the life of a request under it.\<close>

locale disk_kind =
  fixes change :: "'a state_change" and service :: "'a disk_service"
  assumes change_ok: "energy_ready s \<Longrightarrow> st \<in> {DISK_OFF, DISK_ACTIVE, DISK_IDLE} \<Longrightarrow>
      \<exists>c. change st now s = Ok (s\<lparr>dk_energy := c\<rparr>) \<and> energy_ready (s\<lparr>dk_energy := c\<rparr>)"
    and service_state: "service m s = Ok (t, r, u) \<Longrightarrow>
      queue u = queue s \<and> outbox u = outbox s \<and> latencyScheduled u = latencyScheduled s \<and> energy_ready u = energy_ready s"
    and service_answer: "service m s = Ok (t, r, u) \<Longrightarrow> r = m\<lparr>isResponse := True\<rparr> \<and> cast_blocks m \<noteq> None"
begin

lemma pump_empty: "queue s = [] \<Longrightarrow> dk_pump change service now s = Ok s"
  by (simp add: dk_pump_def)

lemma arrives:
  assumes "disk_ready s" "\<not> isResponse m" "updateMessageTrace og m s = Ok (n, v)"
  shows "dk_event change service og (DiskArrives now m) s = dk_processRequestMessage change service now n v"
proof -
  from updateMessageTrace_frame[OF assms(3)] assms(1) have v: "queue v = []" "\<not> latencyScheduled v" by (simp_all add: disk_ready_def)
  then have same: "v\<lparr>queue := []\<rparr> = v" by (cases v) simp
  show ?thesis
    using assms(2,3) v by (simp add: dk_event_def dk_pump_def processCurrentRequestMessage_def isPendingRequest_def same)
qed

lemma started:
  assumes "disk_ready s" "service m s = Ok (t, r, u)" "operation m \<noteq> SM_CHANGE_DISK_STATE"
  shows "\<exists>w. dk_processRequestMessage change service now m s = Ok w \<and> dk_timer w = Some (now + t) \<and> dk_pending w = Some r \<and>
    latencyScheduled w \<and> queue w = [] \<and> outbox w = outbox s \<and> energy_ready w"
proof -
  note u = service_state[OF assms(2)]
  have "energy_ready (u\<lparr>dk_pending := Some r, dk_requestTime := t\<rparr>)" using u assms(1) by (simp add: disk_ready_def energy_ready_def)
  from change_ok[OF this, of DISK_ACTIVE now] obtain c where
    c: "change DISK_ACTIVE now (u\<lparr>dk_pending := Some r, dk_requestTime := t\<rparr>) = Ok (u\<lparr>dk_pending := Some r, dk_requestTime := t, dk_energy := c\<rparr>)"
      "energy_ready (u\<lparr>dk_pending := Some r, dk_requestTime := t, dk_energy := c\<rparr>)" by auto
  then show ?thesis
    using assms u by (simp add: dk_processRequestMessage_def dk_schedule_def disk_ready_def energy_ready_def)
qed

lemma finished:
  assumes "dk_timer w = Some now" "dk_pending w = Some r" "queue w = []" "energy_ready w" "cast_blocks r \<noteq> None"
    and "getLastGateId (msg_trace r) = Ok g" "removeLastModuleFromTrace (msg_trace r) = Ok tr"
  shows "\<exists>z. dk_event change service og DiskDue w = Ok z \<and> disk_ready z \<and> outbox z = outbox w @ [Sent (r\<lparr>msg_trace := tr\<rparr>) (ViaGateId g)]"
proof -
  let ?w = "w\<lparr>latencyScheduled := False, dk_timer := None, dk_pending := None\<rparr>"
  have "energy_ready ?w" using assms(4) by (simp add: energy_ready_def)
  from change_ok[OF this, of DISK_IDLE now] obtain c where c: "change DISK_IDLE now ?w = Ok (?w\<lparr>dk_energy := c\<rparr>)" "energy_ready (?w\<lparr>dk_energy := c\<rparr>)"
    by auto
  let ?z = "emit (Sent (r\<lparr>msg_trace := tr\<rparr>) (ViaGateId g)) (?w\<lparr>dk_energy := c\<rparr>)"
  have "dk_event change service og DiskDue w = Ok ?z"
    using assms c(1) by (simp add: dk_event_def dk_processSelfMessage_def sendResponseMessage_def pump_empty)
  moreover have "disk_ready ?z" using c(2) assms(3) by (simp add: disk_ready_def energy_ready_def emit_def)
  ultimately show ?thesis by simp
qed

text \<open>An idle disk answers a request when the time of the service is over, and is idle again.\<close>

lemma answered:
  assumes "disk_ready s" "\<not> isResponse m" "updateMessageTrace og m s = Ok (n, v)" "service n v = Ok (t, r, u)"
    and "operation m \<noteq> SM_CHANGE_DISK_STATE"
  shows "\<exists>w z. dk_event change service og (DiskArrives now m) s = Ok w \<and> dk_timer w = Some (now + t) \<and> outbox w = outbox s \<and>
    dk_event change service og DiskDue w = Ok z \<and> disk_ready z \<and>
    outbox z = outbox s @ [Sent (m\<lparr>isResponse := True\<rparr>) (ViaGateId (case og m of None \<Rightarrow> NO_GATE_ID | Some g \<Rightarrow> g))]"
proof -
  let ?g = "case og m of None \<Rightarrow> NO_GATE_ID | Some g \<Rightarrow> g"
  from assms(3) obtain tr where tr: "addModuleToTrace (module_id s) ?g (currentRequest s) (msg_trace m) = Ok tr"
    "n = m\<lparr>msg_trace := tr\<rparr>" "v = s\<lparr>currentRequest := Suc (currentRequest s)\<rparr>"
    by (auto simp: updateMessageTrace_def elim!: bind_res_OkE)
  have v: "disk_ready v" "outbox v = outbox s" using assms(1) by (simp_all add: tr(3) disk_ready_def energy_ready_def)
  have "operation n \<noteq> SM_CHANGE_DISK_STATE" using assms(5) by (simp add: tr(2))
  from started[OF v(1) assms(4) this, of now] obtain w where w: "dk_processRequestMessage change service now n v = Ok w"
    "dk_timer w = Some (now + t)" "dk_pending w = Some r" "queue w = []" "outbox w = outbox s" "energy_ready w" by (auto simp: v(2))
  note r = service_answer[OF assms(4)]
  have blocks: "cast_blocks r \<noteq> None" using r by (auto simp: cast_blocks_def cast_io_def)
  have trace: "getLastGateId (msg_trace r) = Ok ?g" "removeLastModuleFromTrace (msg_trace r) = Ok (msg_trace m)"
    using addModule_lastGate[OF tr(1)] addModule_removeModule[OF tr(1)] r by (simp_all add: tr(2))
  from finished[OF w(2,3,4,6) blocks trace, of og] obtain z where z: "dk_event change service og DiskDue w = Ok z" "disk_ready z"
    "outbox z = outbox w @ [Sent (r\<lparr>msg_trace := msg_trace m\<rparr>) (ViaGateId ?g)]" by blast
  have same: "r\<lparr>msg_trace := msg_trace m\<rparr> = m\<lparr>isResponse := True\<rparr>" using r by (cases m) (simp add: tr(2))
  show ?thesis using arrives[OF assms(1-3)] w(1,2,5) z unfolding same by auto
qed

text \<open>A state change that waited for the end of a request is not followed by the next request.\<close>

lemma change_stops_queue:
  assumes "dk_timer s = Some now" "dk_pending s = Some r" "cast_blocks r \<noteq> None" "energy_ready s" "queue s = c # q"
    and "operation c = SM_CHANGE_DISK_STATE" "dk_event change service og DiskDue s = Ok t"
  shows "queue t = q \<and> dk_timer t = None \<and> \<not> latencyScheduled t"
proof -
  let ?s = "s\<lparr>latencyScheduled := False, dk_timer := None, dk_pending := None\<rparr>"
  have "energy_ready ?s" using assms(4) by (simp add: energy_ready_def)
  from change_ok[OF this, of DISK_IDLE now] obtain e where e: "change DISK_IDLE now ?s = Ok (?s\<lparr>dk_energy := e\<rparr>)"
    "energy_ready (?s\<lparr>dk_energy := e\<rparr>)" by auto
  let ?u = "?s\<lparr>dk_energy := e\<rparr>"
  from assms(1-3,7) e(1) obtain ev where "dk_pump change service now (emit ev ?u) = Ok t"
    by (auto simp: dk_event_def dk_processSelfMessage_def sendResponseMessage_def elim!: bind_res_OkE)
  then have "dk_processRequestMessage change service now c ((emit ev ?u)\<lparr>queue := q\<rparr>) = Ok t"
    using assms(5) by (simp add: dk_pump_def processCurrentRequestMessage_def isPendingRequest_def emit_def)
  then obtain w where w: "dk_changeDeviceState change (changing_state c) now ((emit ev ?u)\<lparr>queue := q\<rparr>) = Ok w" "t = emit (Deleted c) w"
    using assms(6) by (auto simp: dk_processRequestMessage_def elim!: bind_res_OkE)
  let ?v = "(emit ev ?u)\<lparr>queue := q\<rparr>"
  have ready: "energy_ready (?v\<lparr>dk_nodeState := nd\<rparr>)" for nd using e(2) by (simp add: energy_ready_def emit_def)
  have "queue w = q \<and> dk_timer w = None \<and> \<not> latencyScheduled w"
    using w(1) change_ok[OF ready[of MACHINE_STATE_IDLE], of DISK_IDLE now] change_ok[OF ready[of MACHINE_STATE_RUNNING], of DISK_IDLE now]
      change_ok[OF ready[of MACHINE_STATE_OFF], of DISK_OFF now]
    by (auto simp: dk_changeDeviceState_def emit_def split: if_splits)
  then show ?thesis by (simp add: w(2) emit_def)
qed

end

lemma transfer_time_Ok: "transfer_time n b = Ok t \<Longrightarrow> t = of_nat n / of_nat (unat (b * 1048576))"
  by (auto simp: transfer_time_def Let_def split: if_splits)

interpretation simple_disk: disk_kind dk_e_changeState sd_service
proof
  show "\<exists>c. dk_e_changeState st now s = Ok (s\<lparr>dk_energy := c\<rparr>) \<and> energy_ready (s\<lparr>dk_energy := c\<rparr>)"
    if "energy_ready s" "st \<in> {DISK_OFF, DISK_ACTIVE, DISK_IDLE}" for s :: "'a disk_scheme" and st now
    using that by (rule change_energy_ready)
  show "queue u = queue s \<and> outbox u = outbox s \<and> latencyScheduled u = latencyScheduled s \<and> energy_ready u = energy_ready s"
    and "r = m\<lparr>isResponse := True\<rparr> \<and> cast_blocks m \<noteq> None"
    if "sd_service m s = Ok (t, r, u)" for s u :: "'a disk_scheme" and m r t
    using that by (auto simp: sd_service_def cast_blocks_def elim!: bind_res_OkE split: option.splits if_splits)
qed

lemma branches_time_frame:
  "branches_time reads bs d s = Ok (t, u) \<Longrightarrow> \<exists>l. u = s\<lparr>dk_lastBlock := l\<rparr>"
proof (induction bs arbitrary: d s)
  case Nil
  then show ?case by (auto intro: exI[of _ "dk_lastBlock s"])
next
  case (Cons b bs)
  then obtain x v where v: "li_storageDeviceTime (br_offset b) (br_numBlocks b) reads s = Ok (x, v)" "branches_time reads bs (d + x) v = Ok (t, u)"
    by (auto elim!: bind_res_OkE)
  then have "v = s\<lparr>dk_lastBlock := br_offset b + br_numBlocks b\<rparr>" by (auto simp: li_storageDeviceTime_def Let_def split: if_splits)
  with Cons.IH[OF v(2)] show ?case by auto
qed

interpretation interpolating_disk: disk_kind li_changeState li_service
proof
  show "\<exists>c. li_changeState st now s = Ok (s\<lparr>dk_energy := c\<rparr>) \<and> energy_ready (s\<lparr>dk_energy := c\<rparr>)"
    if "energy_ready s" "st \<in> {DISK_OFF, DISK_ACTIVE, DISK_IDLE}" for s :: disk_li and st now
    using that change_energy_ready[OF that(1)] by (simp add: li_changeState_def)
  show "queue u = queue s \<and> outbox u = outbox s \<and> latencyScheduled u = latencyScheduled s \<and> energy_ready u = energy_ready s"
    and "r = m\<lparr>isResponse := True\<rparr> \<and> cast_blocks m \<noteq> None"
    if "li_service m s = Ok (t, r, u)" for s u :: disk_li and m r t
    using that by (auto simp: li_service_def energy_ready_def elim!: bind_res_OkE dest!: branches_time_frame split: option.splits)
qed

section \<open>The simple disk\<close>

definition sd_seconds :: "message \<Rightarrow> 'a disk_scheme \<Rightarrow> rat" where
  "sd_seconds m s = of_nat (case cast_io m of None \<Rightarrow> 0 | Some io \<Rightarrow> io_size io) / of_nat (unat (dk_writeBandwidth s * 1048576))"

lemma sd_service_time:
  assumes "cast_blocks m \<noteq> None" "res_ok (blocks_updateLength m)" "dk_writeBandwidth s * 1048576 \<noteq> 0" "operation m \<noteq> 114"
  shows "sd_service m s = Ok (sd_seconds m s, m\<lparr>isResponse := True\<rparr>, s)"
proof -
  obtain n where "blocks_updateLength m = Ok n" using assms(2) by (rule res_okE)
  with assms show ?thesis
    by (auto simp: sd_service_def sd_seconds_def cast_blocks_def transfer_time_def Let_def split: option.splits)
qed

text \<open>
  C40: An idle disk answers a transfer when the time for its bytes at the write bandwidth is over, whether it
  reads or writes, and is ready for the next request.
\<close>

theorem disk_request_answered:
  assumes "disk_ready s" "\<not> isResponse m" "msg_trace m \<noteq> []" "cast_blocks m \<noteq> None" "res_ok (blocks_updateLength m)"
    and "operation m \<in> {SM_READ_FILE, SM_WRITE_FILE}" "dk_writeBandwidth s * 1048576 \<noteq> 0"
  shows "\<exists>w z. sd_event og (DiskArrives now m) s = Ok w \<and> dk_timer w = Some (now + sd_seconds m s) \<and> outbox w = outbox s \<and>
    sd_event og DiskDue w = Ok z \<and> disk_ready z \<and>
    outbox z = outbox s @ [Sent (m\<lparr>isResponse := True\<rparr>) (ViaGateId (case og m of None \<Rightarrow> NO_GATE_ID | Some g \<Rightarrow> g))]"
proof -
  obtain tr where "addModuleToTrace (module_id s) (case og m of None \<Rightarrow> NO_GATE_ID | Some g \<Rightarrow> g) (currentRequest s) (msg_trace m) = Ok tr"
    using assms(3) by (auto simp: addModuleToTrace_def)
  then have up: "updateMessageTrace og m s = Ok (m\<lparr>msg_trace := tr\<rparr>, s\<lparr>currentRequest := Suc (currentRequest s)\<rparr>)"
    by (simp add: updateMessageTrace_def)
  let ?m = "m\<lparr>msg_trace := tr\<rparr>" and ?s = "s\<lparr>currentRequest := Suc (currentRequest s)\<rparr>"
  have op: "operation m \<noteq> SM_CHANGE_DISK_STATE" "operation ?m \<noteq> 114"
    using assms(6) by (auto simp: SM_READ_FILE_def SM_WRITE_FILE_def SM_CHANGE_DISK_STATE_def)
  have "cast_blocks ?m \<noteq> None" using assms(4) by (simp add: cast_blocks_def cast_io_def)
  then have "sd_service ?m ?s = Ok (sd_seconds m s, ?m\<lparr>isResponse := True\<rparr>, ?s)"
    using sd_service_time[of ?m ?s] assms(5,7) op(2) by (simp add: updateLength_trace sd_seconds_def cast_io_def)
  from simple_disk.answered[OF assms(1,2) up this op(1), of now] show ?thesis by (simp add: sd_event_def)
qed

text \<open>
  C11: The subrequests that a request is split into over the disks of a RAID 0 keep the size of the request:
  each disk takes as long as one disk would take for all of it.
\<close>

theorem raid_disk_time:
  assumes "cast_blocks m = Some f" "branches_ok f" "512 \<le> strideSize" "numDisks \<noteq> 0" "res_ok (blocks_updateLength m)"
    and "lastModule ''addRequestToTrace'' (msg_trace m) = Ok x" "searchRequest (msg_id m) t = None"
    and "dk_writeBandwidth s * 1048576 \<noteq> 0" "operation m \<in> {SM_READ_FILE, SM_WRITE_FILE}"
  shows "\<exists>cs u. raid_split newId strideSize numDisks m t = Some (Ok (cs, u)) \<and>
    length cs = length (stripes (unat strideSize div 512) (sectors (fi_branches f))) \<and>
    (\<forall>c\<in>set cs. sd_service c s = Ok (sd_seconds m s, c\<lparr>isResponse := True\<rparr>, s))"
proof -
  from raid_split_stripes[OF assms(1-7), of newId] obtain cs u where
    cs: "raid_split newId strideSize numDisks m t = Some (Ok (cs, u))" "map sub_sectors cs = stripes (unat strideSize div 512) (sectors (fi_branches f))"
    "\<forall>io. cast_io m = Some io \<longrightarrow> (\<forall>c\<in>set cs. like_request m io c)" by blast
  obtain io where io: "cast_io m = Some io" using assms(1) by (auto simp: cast_blocks_def split: option.splits)
  have "sd_service c s = Ok (sd_seconds m s, c\<lparr>isResponse := True\<rparr>, s)" if "c \<in> set cs" for c
  proof -
    have like: "like_request m io c" using cs(3) io that by blast
    then obtain j where j: "cast_io c = Some j" "io_size j = io_size io" "io_blocks j \<noteq> None"
      by (auto simp: like_request_def split: option.splits)
    have "cast_blocks c \<noteq> None" "operation c \<noteq> 114"
      using like j assms(9) by (auto simp: like_request_def cast_blocks_def SM_READ_FILE_def SM_WRITE_FILE_def)
    moreover have "res_ok (blocks_updateLength c)" using updateLength_like[OF io j(1)] like assms(5) by (simp add: like_request_def)
    moreover have "sd_seconds c s = sd_seconds m s" using j io by (simp add: sd_seconds_def)
    ultimately show ?thesis using sd_service_time[of c s] assms(8) by simp
  qed
  then show ?thesis using cs(1) arg_cong[OF cs(2), of length] by auto
qed

text \<open>
  A message that switches the disk and waited behind a transfer stops the queue: the requests behind it
  are not served although the disk is idle and no timer is set.
\<close>

theorem disk_queue_stops:
  assumes "dk_timer s = Some now" "dk_pending s = Some r" "cast_blocks r \<noteq> None" "energy_ready s" "queue s = c # q"
    and "operation c = SM_CHANGE_DISK_STATE" "sd_event og DiskDue s = Ok t"
  shows "queue t = q \<and> dk_timer t = None \<and> \<not> latencyScheduled t"
  using simple_disk.change_stops_queue[OF assms(1-6)] assms(7) by (simp add: sd_event_def)

section \<open>The times of the table\<close>

lemma interpolation_between:
  assumes "x0 \<le> x" "x \<le> x1" "x0 < x1" "lo \<le> y0" "y0 \<le> hi" "lo \<le> y1" "y1 \<le> hi"
  shows "lo \<le> linealInterpolation x x0 x1 y0 y1 \<and> linealInterpolation x x0 x1 y0 y1 \<le> hi"
proof -
  define w :: rat where "w = of_int (x - x0) / of_int (x1 - x0)"
  have w: "0 \<le> w" "w \<le> 1" using assms(1-3) by (simp_all add: w_def)
  have "linealInterpolation x x0 x1 y0 y1 = y0 + (y1 - y0) * w" by (simp add: linealInterpolation_def w_def)
  then have e: "linealInterpolation x x0 x1 y0 y1 = (1 - w) * y0 + w * y1" by (simp add: algebra_simps)
  have "(1 - w) * lo + w * lo \<le> (1 - w) * y0 + w * y1" using w assms(4,6) by (intro add_mono mult_left_mono) simp_all
  moreover have "(1 - w) * y0 + w * y1 \<le> (1 - w) * hi + w * hi" using w assms(5,7) by (intro add_mono mult_left_mono) simp_all
  ultimately show ?thesis by (simp add: e algebra_simps)
qed

text \<open>The bracket of a number in an ordered list.\<close>

lemma bracket:
  fixes x :: int
  assumes "index_of (\<lambda>n. n > x) xs = Some k" "0 < k"
  shows "xs ! (k - 1) \<le> x \<and> x < xs ! k \<and> k < length xs"
proof -
  from assms(1) have k: "k < length xs" "x < xs ! k" "\<forall>j<k. \<not> x < xs ! j" by (simp_all add: index_of_Some)
  have "k - 1 < k" using assms(2) by simp
  with k(3) have "\<not> x < xs ! (k - 1)" by blast
  with k(1,2) show ?thesis by simp
qed

lemma bracket_exists: "y \<in> set xs \<Longrightarrow> (x :: int) < y \<Longrightarrow> \<exists>k. index_of (\<lambda>n. n > x) xs = Some k"
  by (cases "index_of (\<lambda>n. n > x) xs") (auto simp: index_of_None)

lemma readTimes_positive: "list_all (\<lambda>row. length row = 9 \<and> list_all (\<lambda>t. 0 \<le> t) row) readTimes \<and> length readTimes = 19"
  by (simp add: readTimes_def seconds_def)

definition corner_times :: "int \<times> int \<Rightarrow> int \<times> int \<Rightarrow> rat list" where
  "corner_times b c = [readTimes ! nat (fst b) ! nat (fst c), readTimes ! nat (fst b) ! nat (snd c),
     readTimes ! nat (snd b) ! nat (fst c), readTimes ! nat (snd b) ! nat (snd c)]"

lemma table_time_between:
  assumes "blockSizes ! nat b1 \<le> bytes" "bytes < blockSizes ! nat b2" "jumpsSizes ! nat c1 \<le> jump" "jump < jumpsSizes ! nat c2"
    and "list_all (\<lambda>t. lo \<le> t \<and> t \<le> hi) (corner_times (b1, b2) (c1, c2))" "0 \<le> lo"
  shows "lo \<le> table_time jump bytes (b1, b2) (c1, c2) \<and> table_time jump bytes (b1, b2) (c1, c2) \<le> hi"
proof -
  have col: "lo \<le> column_time jump r c1 c2 \<and> column_time jump r c1 c2 \<le> hi" if "r \<in> {b1, b2}" for r
    using interpolation_between[of "jumpsSizes ! nat c1" jump "jumpsSizes ! nat c2" lo "readTimes ! nat r ! nat c1" hi "readTimes ! nat r ! nat c2"]
      assms(3-6) that by (auto simp: column_time_def corner_times_def)
  have "b1 \<in> {b1, b2}" "b2 \<in> {b1, b2}" by simp_all
  from col[OF this(1)] col[OF this(2)]
    interpolation_between[of "blockSizes ! nat b1" bytes "blockSizes ! nat b2" lo "column_time jump b1 c1 c2" hi "column_time jump b2 c1 c2"]
  show ?thesis using assms(1,2,6) by (auto simp: table_time_def)
qed

text \<open>
  C25: A transfer of at least one sector and less than 128 MB after a jump of less than 100 MB takes a time
  between the least and the greatest of the four times of the table around it.
\<close>

theorem interpolated_time_bounded:
  assumes "jump = \<bar>sint (dk_lastBlock s - off)\<bar> * 512" "bytes = sint (n * 512)" "512 \<le> bytes" "bytes < 134217728" "jump < 104857600"
    and "li_storageDeviceTime off n reads s = Ok (t, u)" "(b, c) = calculateIndex jump bytes"
  shows "in_table (b, c) \<and> Min (set (corner_times b c)) \<le> t \<and> t \<le> Max (set (corner_times b c))"
proof -
  have j0: "0 \<le> jump" using assms(1) by simp
  have top: "134217728 \<in> set blockSizes" "104857600 \<in> set jumpsSizes" "blockSizes ! 0 = 512" "jumpsSizes ! 0 = 0"
    by (simp_all add: blockSizes_def jumpsSizes_def)
  obtain kb kc where kb: "index_of (\<lambda>n. n > bytes) blockSizes = Some kb" and kc: "index_of (\<lambda>n. n > jump) jumpsSizes = Some kc"
    using bracket_exists[OF top(1) assms(4)] bracket_exists[OF top(2) assms(5)] by blast
  have "bytes < blockSizes ! kb" "jump < jumpsSizes ! kc" using kb kc by (simp_all add: index_of_Some)
  then have pos: "0 < kb" "0 < kc" using top(3,4) assms(3) j0 by (auto intro!: Nat.gr0I)
  note bb = bracket[OF kb pos(1)] and bc = bracket[OF kc pos(2)]
  have lens: "kb < 19" "kc < 9" using bb bc by (simp_all add: blockSizes_def jumpsSizes_def)
  have ix: "b = (int kb - 1, int kb)" "c = (int kc - 1, int kc)" using assms(7) kb kc pos by (simp_all add: calculateIndex_def)
  have nats: "nat (int kb - 1) = kb - 1" "nat (int kc - 1) = kc - 1" using pos by auto
  have tab: "in_table (b, c)" using lens pos by (simp add: in_table_def ix)
  have t: "t = table_time jump bytes b c"
    using assms(6) tab by (auto simp: li_storageDeviceTime_def Let_def assms(7)[symmetric] simp flip: assms(1,2) split: if_splits)
  let ?ts = "set (corner_times b c)"
  have "readTimes ! i ! k \<ge> 0" if "i < 19" "k < 9" for i k
    using readTimes_positive that by (auto simp: list_all_length)
  then have nn: "0 \<le> Min ?ts" using lens pos by (auto simp: corner_times_def ix nats)
  have "list_all (\<lambda>t. Min ?ts \<le> t \<and> t \<le> Max ?ts) (corner_times b c)" by (simp add: list_all_iff)
  with table_time_between[of "int kb - 1" bytes "int kb" "int kc - 1" jump "int kc" "Min ?ts" "Max ?ts"] bb bc nn
  show ?thesis using tab by (simp add: t ix nats)
qed

section \<open>A sample disk\<close>

definition sample_disk_energy :: storage_controller where
  "sample_disk_energy = (case hw_loadComponent [new_state DISK_OFF 0, new_state DISK_ACTIVE 9, new_state DISK_IDLE 4] 1 False 0 True
       (sg_hw (sg_initialize 1)) of
     Ok h \<Rightarrow> (sg_initialize 1)\<lparr>sg_hw := h\<rparr> | Fail _ \<Rightarrow> sg_initialize 1)"

definition sample_simple_disk :: disk where
  "sample_simple_disk = (case sd_initialize (base_initialize 5 ''n0'') 0 100 50 sample_disk_energy of Ok s \<Rightarrow> s)"

lemma sample_disk_ok:
  "sd_initialize (base_initialize 5 ''n0'') 0 100 50 sample_disk_energy = Ok sample_simple_disk"
  "disk_ready sample_simple_disk" "dk_writeBandwidth sample_simple_disk = 50" "outbox sample_simple_disk = []"
proof -
  have "res_ok (sd_initialize (base_initialize 5 ''n0'') 0 100 50 sample_disk_energy)" by code_simp
  then show i: "sd_initialize (base_initialize 5 ''n0'') 0 100 50 sample_disk_energy = Ok sample_simple_disk"
    by (auto simp: sample_simple_disk_def elim: res_okE)
  show "disk_ready sample_simple_disk" "dk_writeBandwidth sample_simple_disk = 50" "outbox sample_simple_disk = []" by code_simp+
qed

lemma disk_request_answered_witness:
  "\<exists>w z. sd_event (\<lambda>_. Some 9) (DiskArrives 1 (sample_blocks 1 SM_READ_FILE 10)) sample_simple_disk = Ok w \<and>
     sd_event (\<lambda>_. Some 9) DiskDue w = Ok z \<and>
     outbox z = [Sent ((sample_blocks 1 SM_READ_FILE 10)\<lparr>isResponse := True\<rparr>) (ViaGateId 9)]"
proof -
  let ?m = "sample_blocks 1 SM_READ_FILE 10"
  have m: "\<not> isResponse ?m" "msg_trace ?m \<noteq> []" "cast_blocks ?m \<noteq> None" "operation ?m \<in> {SM_READ_FILE, SM_WRITE_FILE}"
    by (simp_all add: sample_blocks_simps)
  have bw: "dk_writeBandwidth sample_simple_disk * 1048576 \<noteq> 0" by (simp add: sample_disk_ok)
  from disk_request_answered[OF sample_disk_ok(2) m(1-3) sample_blocks_ok(2) m(4) bw, of "\<lambda>_. Some 9" 1]
  show ?thesis by (auto simp: sample_disk_ok(4) simp del: message.update_convs)
qed

lemma raid_disk_time_witness:
  "\<exists>cs u. raid_split int 2048 3 (sample_blocks 1 SM_READ_FILE 10) \<lparr>requestVector = [], deleted = []\<rparr> = Some (Ok (cs, u)) \<and> length cs = 3 \<and>
     (\<forall>c\<in>set cs. sd_service c sample_simple_disk = Ok (sd_seconds (sample_blocks 1 SM_READ_FILE 10) sample_simple_disk, c\<lparr>isResponse := True\<rparr>, sample_simple_disk))"
proof -
  let ?m = "sample_blocks 1 SM_READ_FILE 10"
  obtain x where x: "lastModule ''addRequestToTrace'' (msg_trace ?m) = Ok x" using sample_blocks_ok(3) by blast
  have bw: "dk_writeBandwidth sample_simple_disk * 1048576 \<noteq> 0" and op: "operation ?m \<in> {SM_READ_FILE, SM_WRITE_FILE}"
    by (simp_all add: sample_disk_ok sample_blocks_simps)
  have n: "length (stripes (unat (2048 :: u32) div 512) (sectors (fi_branches (addBranch 0 10 new_file)))) = 3"
    by (simp add: sample_branches branch_sectors_def upt_rec stripes.simps[of 4 "_ # _"])
  have c: "(512 :: u32) \<le> 2048" "(3 :: u32) \<noteq> 0" by simp_all
  from raid_disk_time[OF sample_blocks_simps(1) sample_blocks_ok(1) c sample_blocks_ok(2) x no_requests bw op, of int]
  show ?thesis unfolding n .
qed

text \<open>A disk that reads while a state change and a write wait.\<close>

definition sample_busy_disk :: disk where
  "sample_busy_disk = sample_simple_disk\<lparr>latencyScheduled := True, dk_timer := Some 1, dk_pending := Some (sample_blocks 1 SM_READ_FILE 10),
     queue := [(sample_blocks 2 SM_CHANGE_DISK_STATE 1)\<lparr>changing_state := MACHINE_STATE_IDLE\<rparr>, sample_blocks 3 SM_WRITE_FILE 10]\<rparr>"

definition sample_disk_li :: disk_li where
  "sample_disk_li = (case li_initialize (base_initialize 5 ''n0'') 0 sample_disk_energy of Ok s \<Rightarrow> s)"

lemma interpolated_time_bounded_witness:
  "\<exists>t u. li_storageDeviceTime 3 5 True sample_disk_li = Ok (t, u) \<and> 133 / 100000000 < t \<and> t < 202 / 100000000"
proof -
  have r: "res_ok (li_storageDeviceTime 3 5 True sample_disk_li)" "dk_lastBlock sample_disk_li = 0" by code_simp+
  obtain t u where t: "li_storageDeviceTime 3 5 True sample_disk_li = Ok (t, u)" using r(1) by (auto elim: res_okE)
  have ix: "((2, 3), (2, 3)) = calculateIndex 1536 2560"
    by (simp add: calculateIndex_def blockSizes_def jumpsSizes_def)
  have j: "1536 = \<bar>sint (dk_lastBlock sample_disk_li - 3)\<bar> * 512" "2560 = sint (5 * 512 :: u64)" by (simp_all add: r(2))
  have c: "corner_times (2, 3) (2, 3) = [140 / 100000000, 134 / 100000000, 189 / 100000000, 177 / 100000000]"
    by (simp add: corner_times_def readTimes_def seconds_def)
  from interpolated_time_bounded[OF j _ _ _ t ix] have "134 / 100000000 \<le> t" "t \<le> 189 / 100000000" unfolding c by simp_all
  with t show ?thesis by (intro exI conjI) (assumption | simp)+
qed

end
