(* ===== verification/CloudSchedulers.thy ===== *)
theory CloudSchedulers imports Allocation Complex_Main begin

text \<open>
  The other schedulers of the cloud manager (\<^verbatim>\<open>CloudSchedulerRR\<close>, \<^verbatim>\<open>CloudSchedulerRandom\<close> and
  \<^verbatim>\<open>CloudSchedulerFCFS_gnup\<close> below \<^verbatim>\<open>src/src/Management/CloudManagement/ResourcesProvisioning\<close>), which
  differ from the FCFS scheduler in the choice of a node, and the energy records that all four write.

  The free memory of a node, which its operating system keeps, is the argument \<open>freeMemory\<close>.  The
  \<open>k\<close>-th random number below \<open>n\<close> is \<open>rnd k n\<close>.  The methods of a node that read its meters are the fields of
  \<open>node_meters\<close>; they may change the system \<open>'s\<close>.  Numbers of the type \<^verbatim>\<open>double\<close> are rational.
\<close>

subsection \<open>Round robin\<close>

record rr_scheduler =
  currentNodeIndex :: nat
  currentNodeType :: nat

definition rr_initialize :: rr_scheduler where
  "rr_initialize = \<lparr>currentNodeIndex = 0, currentNodeType = 0\<rparr>"

lemma set_size_at: "dc_getSetSize_at (int k) False dc = Ok n \<Longrightarrow> k < length (nodesMap dc) \<and> n = hs_size (nodesMap dc ! k)"
  by (auto simp: dc_getSetSize_at_def chosen_map_def quantity_at split: if_splits)

text \<open>
  The loop looks at the same position \<open>p\<close> in every turn; only the set changes.  A node with enough memory
  and cores is taken, whether it has the maximal number of virtual machines or not.  Every node of the map is taken
  to be a \<^verbatim>\<open>NodeVL\<close>, as the cast of the code demands.
\<close>

function rr_loop ::
  "(machine \<Rightarrow> bool) \<Rightarrow> data_centre \<Rightarrow> nat \<Rightarrow> nat \<Rightarrow> nat \<Rightarrow> nat \<Rightarrow> (machine option \<times> rr_scheduler) res" where
  "rr_loop fits dc p k i t = bind_res (dc_getNodeByIndex_at (int k) (int p) False dc) (\<lambda>node.
     bind_res (dc_getSetSize_at (int k) False dc) (\<lambda>n.
       let wrap = n < Suc i; k' = (if wrap then Suc k else k);
           t' = (if wrap then (if k' < dc_getMapSize dc then k' else 0) else t); i' = (if wrap then 0 else Suc i);
           s = \<lparr>currentNodeIndex = i', currentNodeType = t'\<rparr>
       in if p = i' \<and> t' = k' then Ok (None, s)
          else if fits node then Ok (Some node, s) else rr_loop fits dc p k' i' t'))"
  by pat_completeness auto

termination
  by (relation "measures [\<lambda>(f, dc, p, k, i, t). length (nodesMap dc) - k, \<lambda>(f, dc, p, k, i, t). Suc (hs_size (nodesMap dc ! k)) - i]")
    (auto dest!: set_size_at split: if_splits)

declare rr_loop.simps [simp del]

definition has_room :: "(machine \<Rightarrow> rat) \<Rightarrow> int \<Rightarrow> int \<Rightarrow> machine \<Rightarrow> bool" where
  "has_room freeMemory vmMemory vmCPU m \<longleftrightarrow> of_int vmMemory \<le> freeMemory m \<and> vmCPU \<le> et_numCores (m_type m)"

definition rr_selectNode ::
  "(machine \<Rightarrow> rat) \<Rightarrow> int \<Rightarrow> int \<Rightarrow> data_centre \<Rightarrow> rr_scheduler \<Rightarrow> (machine option \<times> rr_scheduler) res" where
  "rr_selectNode freeMemory vmMemory vmCPU dc s = rr_loop (has_room freeMemory vmMemory vmCPU) dc
     (currentNodeIndex s) (currentNodeType s) (currentNodeIndex s) (currentNodeType s)"

subsection \<open>Random choice\<close>

text \<open>The tries among the nodes of a set; the argument counts those that are left.\<close>

fun random_tries ::
  "(nat \<Rightarrow> nat \<Rightarrow> int) \<Rightarrow> (machine \<Rightarrow> bool) \<Rightarrow> data_centre \<Rightarrow> int \<Rightarrow> nat \<Rightarrow> nat \<Rightarrow> nat \<Rightarrow> machine
     \<Rightarrow> (machine option \<times> nat) res" where
  "random_tries rnd fits dc t numNodes 0 k node = Ok (None, k)"
| "random_tries rnd fits dc t numNodes (Suc n) k node = (if fits node then Ok (Some node, k)
     else bind_res (dc_getNodeByIndex_at t (rnd k numNodes) False dc) (\<lambda>node.
       random_tries rnd fits dc t numNodes n (Suc k) node))"

text \<open>
  When the first type that is drawn is too small, the comparison at the end of the turn reads the number
  of tries \<^verbatim>\<open>maxTimes\<close>, which nothing has set.  The outer loop has no second turn otherwise.
\<close>

definition random_selectNode ::
  "(nat \<Rightarrow> nat \<Rightarrow> int) \<Rightarrow> (machine \<Rightarrow> rat) \<Rightarrow> int \<Rightarrow> int \<Rightarrow> data_centre \<Rightarrow> nat \<Rightarrow> (machine option \<times> nat) res" where
  "random_selectNode rnd freeMemory vmMemory vmCPU dc k =
     (let t = rnd k (dc_getMapSize dc) in
      bind_res (dc_getSetMemorySize_at t False dc) (\<lambda>mem.
      bind_res (if vmMemory \<le> mem then bind_res (dc_getSetNumCores_at t False dc) (\<lambda>cores. Ok (vmCPU \<le> cores))
                else Ok False) (\<lambda>fits.
        if \<not> fits then Fail Undefined
        else bind_res (dc_getSetSize_at t False dc) (\<lambda>numNodes.
          bind_res (dc_getNodeByIndex_at t (rnd (Suc k) numNodes) False dc) (\<lambda>node.
          bind_res (checked_int (int numNodes * 100)) (\<lambda>maxTimes.
            random_tries rnd (has_room freeMemory vmMemory vmCPU) dc t numNodes (Suc (nat maxTimes)) (k + 2) node))))))"

subsection \<open>What is the same in all schedulers\<close>

definition rr_schedule :: "'s cloud_ops \<Rightarrow> requests_mgr \<Rightarrow> 's \<Rightarrow> (requests_mgr \<times> 's) res" where
  "rr_schedule = schedule"

definition random_schedule :: "'s cloud_ops \<Rightarrow> requests_mgr \<Rightarrow> 's \<Rightarrow> (requests_mgr \<times> 's) res" where
  "random_schedule = schedule"

definition gnup_schedule :: "'s cloud_ops \<Rightarrow> requests_mgr \<Rightarrow> 's \<Rightarrow> (requests_mgr \<times> 's) res" where
  "gnup_schedule = schedule"

definition gnup_selectNode :: "(machine \<Rightarrow> int) \<Rightarrow> int \<Rightarrow> int \<Rightarrow> int \<Rightarrow> data_centre \<Rightarrow> machine option res" where
  "gnup_selectNode = selectNode"

definition rr_selectStorageNodes ::
  "(machine \<Rightarrow> bool) \<Rightarrow> nat \<Rightarrow> string \<Rightarrow> request \<Rightarrow> allocation \<Rightarrow> (machine list \<times> allocation) res" where
  "rr_selectStorageNodes = selectStorageNodes"

definition random_selectStorageNodes ::
  "(machine \<Rightarrow> bool) \<Rightarrow> nat \<Rightarrow> string \<Rightarrow> request \<Rightarrow> allocation \<Rightarrow> (machine list \<times> allocation) res" where
  "random_selectStorageNodes = selectStorageNodes"

definition gnup_selectStorageNodes ::
  "(machine \<Rightarrow> bool) \<Rightarrow> nat \<Rightarrow> string \<Rightarrow> request \<Rightarrow> allocation \<Rightarrow> (machine list \<times> allocation) res" where
  "gnup_selectStorageNodes = selectStorageNodes"

definition rr_remoteShutdown :: "request \<Rightarrow> allocation \<Rightarrow> (machine list \<times> allocation) res" where
  "rr_remoteShutdown = remoteShutdown"

definition random_remoteShutdown :: "request \<Rightarrow> allocation \<Rightarrow> (machine list \<times> allocation) res" where
  "random_remoteShutdown = remoteShutdown"

definition gnup_remoteShutdown :: "request \<Rightarrow> allocation \<Rightarrow> (machine list \<times> allocation) res" where
  "gnup_remoteShutdown = remoteShutdown"

definition rr_selectNodeSet :: "string \<Rightarrow> int \<Rightarrow> int \<Rightarrow> data_centre \<Rightarrow> int res" where
  "rr_selectNodeSet = selectNodeSet"

definition random_selectNodeSet :: "string \<Rightarrow> int \<Rightarrow> int \<Rightarrow> data_centre \<Rightarrow> int res" where
  "random_selectNodeSet = selectNodeSet"

definition gnup_selectNodeSet :: "string \<Rightarrow> int \<Rightarrow> int \<Rightarrow> data_centre \<Rightarrow> int res" where
  "gnup_selectNodeSet = selectNodeSet"

subsection \<open>The energy records\<close>

text \<open>
  The flags of the configuration that choose what is recorded, the values of the parts of a node, and
  the local variables of the method, which keep their values from node to node.  \<open>el_dc_energy\<close> is the
  field \<^verbatim>\<open>dc_EnergyConsumed\<close>.  What is printed is a list of cells.
\<close>

record energy_flags =
  ef_nodePower :: bool
  ef_nodeEnergy :: bool
  ef_componentsPower :: bool
  ef_componentsEnergy :: bool
  ef_dcPower :: bool
  ef_dcEnergy :: bool
  ef_trace :: bool
  ef_toFile :: bool

record components =
  cm_cpu :: rat
  cm_memory :: rat
  cm_storage :: rat
  cm_nic :: rat
  cm_psu :: rat

definition no_components :: components where
  "no_components = \<lparr>cm_cpu = 0, cm_memory = 0, cm_storage = 0, cm_nic = 0, cm_psu = 0\<rparr>"

definition components_sum :: "components \<Rightarrow> rat" where
  "components_sum c = cm_cpu c + cm_memory c + cm_storage c + cm_nic c + cm_psu c"

datatype cell = TimeCell rat | NodeCell int string | NameCell int | NodePowerCell rat | NodeEnergyCell rat
  | PowerCell components | EnergyCell components | TotalPowerCell rat | TotalEnergyCell rat | CountCell nat | HashCell

type_synonym 's meter = "machine \<Rightarrow> 's \<Rightarrow> (rat \<times> 's) res"

record 's node_meters =
  nr_state :: "machine \<Rightarrow> string"
  nr_power :: "'s meter"
  nr_energy :: "'s meter"
  nr_cpuPower :: "'s meter"
  nr_memoryPower :: "'s meter"
  nr_storagePower :: "'s meter"
  nr_nicPower :: "'s meter"
  nr_psuPower :: "'s meter"
  nr_cpuEnergy :: "'s meter"
  nr_memoryEnergy :: "'s meter"
  nr_storageEnergy :: "'s meter"
  nr_nicEnergy :: "'s meter"
  nr_psuEnergy :: "'s meter"

record energy_locals =
  el_power :: components
  el_energy :: components
  el_nodePower :: rat
  el_nodeEnergy :: rat
  el_dcPower :: rat
  el_dcEnergy :: rat
  el_nodes :: nat
  el_data :: "cell list"
  el_files :: "(string \<times> cell list) list"

definition el_start :: "rat \<Rightarrow> cell list \<Rightarrow> energy_locals" where
  "el_start e cells = \<lparr>el_power = no_components, el_energy = no_components, el_nodePower = 0, el_nodeEnergy = 0,
     el_dcPower = 0, el_dcEnergy = e, el_nodes = 0, el_data = cells, el_files = []\<rparr>"

definition read_components ::
  "'s meter \<Rightarrow> 's meter \<Rightarrow> 's meter \<Rightarrow> 's meter \<Rightarrow> 's meter \<Rightarrow> machine \<Rightarrow> 's \<Rightarrow> (components \<times> 's) res" where
  "read_components cpu memory storage nic psu m s =
     bind_res (cpu m s) (\<lambda>(a, s). bind_res (memory m s) (\<lambda>(b, s). bind_res (storage m s) (\<lambda>(c, s).
     bind_res (nic m s) (\<lambda>(d, s). bind_res (psu m s) (\<lambda>(e, s).
       Ok (\<lparr>cm_cpu = a, cm_memory = b, cm_storage = c, cm_nic = d, cm_psu = e\<rparr>, s))))))"

text \<open>
  The power is read from the parts of the node when they are recorded; \<open>psu\<close> is the method that is
  asked for the energy of the power supply: \<^verbatim>\<open>getPSUEnergyLoss\<close> in the FCFS scheduler, and the
  momentary loss \<^verbatim>\<open>getPSUConsumptionLoss\<close> in the others.
\<close>

definition read_parts_power ::
  "energy_flags \<Rightarrow> 's node_meters \<Rightarrow> machine \<Rightarrow> energy_locals \<times> 's \<Rightarrow> (energy_locals \<times> 's) res" where
  "read_parts_power fl nr m = (\<lambda>(l, s). if ef_componentsPower fl
     then bind_res (read_components (nr_cpuPower nr) (nr_memoryPower nr) (nr_storagePower nr) (nr_nicPower nr) (nr_psuPower nr) m s)
            (\<lambda>(c, s). Ok (l\<lparr>el_power := c\<rparr>, s))
     else Ok (l, s))"

definition read_parts_energy ::
  "'s meter \<Rightarrow> energy_flags \<Rightarrow> 's node_meters \<Rightarrow> machine \<Rightarrow> energy_locals \<times> 's \<Rightarrow> (energy_locals \<times> 's) res" where
  "read_parts_energy psu fl nr m = (\<lambda>(l, s). if ef_componentsEnergy fl
     then bind_res (read_components (nr_cpuEnergy nr) (nr_memoryEnergy nr) (nr_storageEnergy nr) (nr_nicEnergy nr) psu m s)
            (\<lambda>(c, s). Ok (l\<lparr>el_energy := c\<rparr>, s))
     else Ok (l, s))"

definition power_of_node ::
  "energy_flags \<Rightarrow> 's node_meters \<Rightarrow> machine \<Rightarrow> energy_locals \<Rightarrow> 's \<Rightarrow> (rat \<times> 's) res" where
  "power_of_node fl nr m l s = (if \<not> ef_componentsPower fl then nr_power nr m s else Ok (components_sum (el_power l), s))"

definition energy_of_node ::
  "energy_flags \<Rightarrow> 's node_meters \<Rightarrow> machine \<Rightarrow> energy_locals \<Rightarrow> 's \<Rightarrow> (rat \<times> 's) res" where
  "energy_of_node fl nr m l s = (if \<not> ef_componentsEnergy fl then nr_energy nr m s else Ok (components_sum (el_energy l), s))"

definition read_node ::
  "energy_flags \<Rightarrow> 's node_meters \<Rightarrow> machine \<Rightarrow> energy_locals \<times> 's \<Rightarrow> (energy_locals \<times> 's) res" where
  "read_node fl nr m = (\<lambda>(l, s).
     bind_res (if ef_nodePower fl then bind_res (power_of_node fl nr m l s) (\<lambda>(x, s). Ok (l\<lparr>el_nodePower := x\<rparr>, s)) else Ok (l, s)) (\<lambda>(l, s).
     if ef_nodeEnergy fl then bind_res (energy_of_node fl nr m l s) (\<lambda>(x, s). Ok (l\<lparr>el_nodeEnergy := x\<rparr>, s)) else Ok (l, s)))"

definition add_to_centre ::
  "energy_flags \<Rightarrow> 's node_meters \<Rightarrow> machine \<Rightarrow> energy_locals \<times> 's \<Rightarrow> (energy_locals \<times> 's) res" where
  "add_to_centre fl nr m = (\<lambda>(l, s).
     bind_res (if ef_dcPower fl then bind_res (if ef_nodePower fl then Ok (el_nodePower l, s) else power_of_node fl nr m l s)
         (\<lambda>(x, s). Ok (l\<lparr>el_dcPower := el_dcPower l + x\<rparr>, s)) else Ok (l, s)) (\<lambda>(l, s).
     if ef_dcEnergy fl then bind_res (if ef_nodeEnergy fl then Ok (el_nodeEnergy l, s) else energy_of_node fl nr m l s)
         (\<lambda>(x, s). Ok (l\<lparr>el_dcEnergy := el_dcEnergy l + x\<rparr>, s)) else Ok (l, s)))"

text \<open>The cells of a node; the energies of the parts are printed when their powers are.\<close>

definition trace_node :: "energy_flags \<Rightarrow> 's node_meters \<Rightarrow> machine \<Rightarrow> energy_locals \<Rightarrow> energy_locals" where
  "trace_node fl nr m l = (if ef_trace fl then l\<lparr>el_data := el_data l
       @ (if ef_nodePower fl \<or> ef_nodeEnergy fl \<or> ef_componentsPower fl then [NodeCell (m_id m) (nr_state nr m)] else [])
       @ (if ef_nodePower fl then [NodePowerCell (el_nodePower l)] else [])
       @ (if ef_nodeEnergy fl then [NodeEnergyCell (el_nodeEnergy l)] else [])
       @ (if ef_componentsPower fl then [PowerCell (el_power l), EnergyCell (el_energy l)] else [])\<rparr>
     else l)"

definition node_turn ::
  "'s meter \<Rightarrow> energy_flags \<Rightarrow> 's node_meters \<Rightarrow> machine \<Rightarrow> energy_locals \<times> 's \<Rightarrow> (energy_locals \<times> 's) res" where
  "node_turn psu fl nr m x = bind_res (read_parts_power fl nr m x) (\<lambda>x. bind_res (read_parts_energy psu fl nr m x) (\<lambda>x.
     bind_res (read_node fl nr m x) (\<lambda>x. bind_res (add_to_centre fl nr m x) (\<lambda>(l, s). Ok (trace_node fl nr m l, s)))))"

text \<open>A loop over the nodes of a map, set by set.\<close>

definition each_node :: "bool \<Rightarrow> nat \<Rightarrow> (machine \<Rightarrow> 'a \<Rightarrow> 'a res) \<Rightarrow> data_centre \<Rightarrow> 'a \<Rightarrow> 'a res" where
  "each_node storage mapSize f dc = fold_res (\<lambda>i x. bind_res (dc_getSetSize_at (int i) storage dc) (\<lambda>n.
     fold_res (\<lambda>j x. bind_res (dc_getNodeByIndex_at (int i) (int j) storage dc) (\<lambda>m. f m x)) [0..<n] x)) [0..<mapSize]"

definition any_flag :: "energy_flags \<Rightarrow> bool" where
  "any_flag fl \<longleftrightarrow> ef_nodePower fl \<or> ef_nodeEnergy fl \<or> ef_componentsEnergy fl \<or> ef_componentsPower fl \<or> ef_dcPower fl \<or> ef_dcEnergy fl"

definition total_cells :: "energy_flags \<Rightarrow> energy_locals \<Rightarrow> cell list" where
  "total_cells fl l = (if ef_dcPower fl \<or> ef_dcEnergy fl then HashCell # (if ef_dcPower fl then [TotalPowerCell (el_dcPower l)] else [])
     @ (if ef_dcEnergy fl then [TotalEnergyCell (el_dcEnergy l)] else []) else [])"

text \<open>The result is what is appended to the file, and the new \<^verbatim>\<open>dc_EnergyConsumed\<close>.\<close>

definition print_values ::
  "'s meter \<Rightarrow> rat \<Rightarrow> energy_flags \<Rightarrow> 's node_meters \<Rightarrow> data_centre \<Rightarrow> rat \<Rightarrow> 's \<Rightarrow> (cell list \<times> rat \<times> 's) res" where
  "print_values psu now fl nr dc e s =
     bind_res (each_node False (dc_getMapSize dc) (node_turn psu fl nr) dc (el_start e (if any_flag fl then [TimeCell now] else []), s)) (\<lambda>x.
     bind_res (each_node True (dc_getStorageMapSize dc) (node_turn psu fl nr) dc x) (\<lambda>(l, s).
       Ok (el_data l @ total_cells fl l, el_dcEnergy l, s)))"

definition printEnergyValues ::
  "rat \<Rightarrow> energy_flags \<Rightarrow> 's node_meters \<Rightarrow> data_centre \<Rightarrow> rat \<Rightarrow> 's \<Rightarrow> (cell list \<times> rat \<times> 's) res" where
  "printEnergyValues now fl nr = print_values (nr_psuEnergy nr) now fl nr"

definition rr_printEnergyValues ::
  "rat \<Rightarrow> energy_flags \<Rightarrow> 's node_meters \<Rightarrow> data_centre \<Rightarrow> rat \<Rightarrow> 's \<Rightarrow> (cell list \<times> rat \<times> 's) res" where
  "rr_printEnergyValues now fl nr = print_values (nr_psuPower nr) now fl nr"

definition random_printEnergyValues ::
  "rat \<Rightarrow> energy_flags \<Rightarrow> 's node_meters \<Rightarrow> data_centre \<Rightarrow> rat \<Rightarrow> 's \<Rightarrow> (cell list \<times> rat \<times> 's) res" where
  "random_printEnergyValues now fl nr = print_values (nr_psuPower nr) now fl nr"

text \<open>
  The records for gnuplot: a line with the power and one with the energy for every node, in two files, and
  a line with the totals in a third.  The condition before the loop over the compute nodes, whose own
  statement is commented out, guards that loop.
\<close>

definition gnup_trace_node :: "rat \<Rightarrow> energy_flags \<Rightarrow> 's node_meters \<Rightarrow> machine \<Rightarrow> energy_locals \<Rightarrow> energy_locals" where
  "gnup_trace_node now fl nr m l = (if ef_trace fl then l\<lparr>el_nodes := Suc (el_nodes l), el_files := el_files l
       @ [(''cont3D'', [TimeCell now, CountCell (el_nodes l), NodePowerCell (el_nodePower l), NameCell (m_id m)]),
          (''cont3DAggregated'', [TimeCell now, CountCell (el_nodes l), NodeEnergyCell (el_nodeEnergy l), NameCell (m_id m)])]\<rparr>
     else l)"

definition gnup_turn ::
  "rat \<Rightarrow> energy_flags \<Rightarrow> 's node_meters \<Rightarrow> machine \<Rightarrow> energy_locals \<times> 's \<Rightarrow> (energy_locals \<times> 's) res" where
  "gnup_turn now fl nr m x = bind_res (read_parts_power fl nr m x) (\<lambda>x. bind_res (read_parts_energy (nr_psuPower nr) fl nr m x) (\<lambda>x.
     bind_res (read_node fl nr m x) (\<lambda>x. bind_res (add_to_centre fl nr m x) (\<lambda>(l, s). Ok (gnup_trace_node now fl nr m l, s)))))"

definition gnup_printEnergyValues ::
  "rat \<Rightarrow> energy_flags \<Rightarrow> 's node_meters \<Rightarrow> data_centre \<Rightarrow> rat \<Rightarrow> 's \<Rightarrow> ((string \<times> cell list) list \<times> rat \<times> 's) res" where
  "gnup_printEnergyValues now fl nr dc e s =
     bind_res (if any_flag fl then each_node False (dc_getMapSize dc) (gnup_turn now fl nr) dc (el_start e [], s)
               else Ok (el_start e [], s)) (\<lambda>x.
     bind_res (each_node True (dc_getStorageMapSize dc) (gnup_turn now fl nr) dc x) (\<lambda>(l, s).
       Ok (el_files l @ [(''cont'', [TimeCell now, TotalPowerCell (el_dcPower l), TotalEnergyCell (el_dcEnergy l)])], el_dcEnergy l, s)))"

subsection \<open>The totals at the end\<close>

text \<open>
  The rows \<open>(node, energy)\<close> and their sum.  The power that the supply loses at the moment is added to
  the energies.
\<close>

definition total_turn ::
  "'s node_meters \<Rightarrow> machine \<Rightarrow> ((int \<times> rat) list \<times> rat) \<times> 's \<Rightarrow> (((int \<times> rat) list \<times> rat) \<times> 's) res" where
  "total_turn nr m = (\<lambda>((rows, total), s).
     bind_res (read_components (nr_cpuEnergy nr) (nr_memoryEnergy nr) (nr_storageEnergy nr) (nr_nicEnergy nr) (nr_psuPower nr) m s)
       (\<lambda>(c, s). Ok ((rows @ [(m_id m, components_sum c)], total + components_sum c), s)))"

definition count_nodes :: "bool \<Rightarrow> nat \<Rightarrow> data_centre \<Rightarrow> nat res" where
  "count_nodes storage mapSize dc = fold_res (\<lambda>i n. bind_res (dc_getSetSize_at (int i) storage dc) (\<lambda>k. Ok (n + k))) [0..<mapSize] 0"

definition all_totals ::
  "'s node_meters \<Rightarrow> data_centre \<Rightarrow> 's \<Rightarrow> (nat \<times> (int \<times> rat) list \<times> rat \<times> 's) res" where
  "all_totals nr dc s = bind_res (count_nodes False (dc_getMapSize dc) dc) (\<lambda>a.
     bind_res (count_nodes True (dc_getStorageMapSize dc) dc) (\<lambda>b.
     bind_res (each_node False (dc_getMapSize dc) (total_turn nr) dc (([], 0), s)) (\<lambda>x.
     bind_res (each_node True (dc_getStorageMapSize dc) (total_turn nr) dc x) (\<lambda>((rows, total), s).
       Ok (a + b, rows, total, s)))))"

text \<open>Only the header is written to the file; the rows and the total are not.\<close>

definition finalizeScheduler ::
  "rat \<Rightarrow> energy_flags \<Rightarrow> 's node_meters \<Rightarrow> data_centre \<Rightarrow> 's \<Rightarrow> (cell list \<times> 's) res" where
  "finalizeScheduler now fl nr dc s = (if ef_toFile fl \<and> \<not> ef_trace fl
     then bind_res (all_totals nr dc s) (\<lambda>(n, rows, total, s). Ok ([CountCell n, TimeCell now], s))
     else Ok ([], s))"

definition rr_finalizeScheduler ::
  "rat \<Rightarrow> energy_flags \<Rightarrow> 's node_meters \<Rightarrow> data_centre \<Rightarrow> 's \<Rightarrow> (cell list \<times> 's) res" where
  "rr_finalizeScheduler = finalizeScheduler"

definition random_finalizeScheduler ::
  "rat \<Rightarrow> energy_flags \<Rightarrow> 's node_meters \<Rightarrow> data_centre \<Rightarrow> 's \<Rightarrow> (cell list \<times> 's) res" where
  "random_finalizeScheduler = finalizeScheduler"

text \<open>Every row of the gnuplot scheduler has the total of all nodes.\<close>

definition gnup_finalizeScheduler ::
  "energy_flags \<Rightarrow> 's node_meters \<Rightarrow> data_centre \<Rightarrow> 's \<Rightarrow> ((int \<times> rat \<times> rat) list \<times> 's) res" where
  "gnup_finalizeScheduler fl nr dc s = (if ef_toFile fl \<and> ef_trace fl
     then bind_res (all_totals nr dc s) (\<lambda>(n, rows, total, s). Ok (map (\<lambda>(i, e). (i, e, total)) rows, s))
     else Ok ([], s))"

section \<open>Round robin reads past the end of a set\<close>

fun rr_select_all ::
  "(machine \<Rightarrow> rat) \<Rightarrow> (int \<times> int) list \<Rightarrow> data_centre \<Rightarrow> rr_scheduler \<Rightarrow> (machine option list \<times> rr_scheduler) res" where
  "rr_select_all free [] dc s = Ok ([], s)"
| "rr_select_all free ((mem, cpu) # rs) dc s = bind_res (rr_selectNode free mem cpu dc s) (\<lambda>(m, s).
     bind_res (rr_select_all free rs dc s) (\<lambda>(ms, s). Ok (m # ms, s)))"

lemma node_at_position:
  "k < length (nodesMap dc) \<Longrightarrow> dc_getNodeByIndex_at (int k) (int i) False dc =
     (if i < hs_size (nodesMap dc ! k) then Ok (machinesSet (nodesMap dc ! k) ! i) else Fail Undefined)"
  by (simp add: dc_getNodeByIndex_at_def getMachineByIndex_at_def set_at_def hs_getMachineByIndex_def chosen_map_def hs_size_def)

lemma set_size_of: "k < length (nodesMap dc) \<Longrightarrow> dc_getSetSize_at (int k) False dc = Ok (hs_size (nodesMap dc ! k))"
  by (simp add: dc_getSetSize_at_def quantity_at chosen_map_def)

lemma rr_next:
  assumes "k < length (nodesMap dc)" "i < hs_size (nodesMap dc ! k)"
    and "has_room free mem cpu (machinesSet (nodesMap dc ! k) ! i)"
  shows "rr_selectNode free mem cpu dc \<lparr>currentNodeIndex = i, currentNodeType = k\<rparr> =
     Ok (Some (machinesSet (nodesMap dc ! k) ! i), \<lparr>currentNodeIndex = Suc i, currentNodeType = k\<rparr>)"
  using assms by (simp add: rr_selectNode_def rr_loop.simps[of _ dc i k i k] node_at_position set_size_of Let_def)

lemma rr_past_end:
  assumes "k < length (nodesMap dc)"
  shows "rr_selectNode free mem cpu dc \<lparr>currentNodeIndex = hs_size (nodesMap dc ! k), currentNodeType = k\<rparr> = Fail Undefined"
  using assms by (simp add: rr_selectNode_def rr_loop.simps[of _ dc "hs_size (nodesMap dc ! k)" k] node_at_position)

lemma rr_all:
  assumes "k < length (nodesMap dc)" "i + length rs = hs_size (nodesMap dc ! k)"
    and "\<forall>m\<in>set (machinesSet (nodesMap dc ! k)). \<forall>(mem, cpu)\<in>set rs. has_room free mem cpu m"
  shows "rr_select_all free rs dc \<lparr>currentNodeIndex = i, currentNodeType = k\<rparr> =
     Ok (map Some (drop i (machinesSet (nodesMap dc ! k))), \<lparr>currentNodeIndex = hs_size (nodesMap dc ! k), currentNodeType = k\<rparr>)"
  using assms(2,3)
proof (induction rs arbitrary: i)
  case Nil
  then show ?case by (simp add: hs_size_def)
next
  case (Cons r rs)
  obtain mem cpu where r: "r = (mem, cpu)" by (cases r)
  let ?ms = "machinesSet (nodesMap dc ! k)"
  have i: "i < hs_size (nodesMap dc ! k)" using Cons.prems(1) by simp
  then have "?ms ! i \<in> set ?ms" by (simp add: hs_size_def)
  then have room: "has_room free mem cpu (?ms ! i)" using Cons.prems(2) r by auto
  have d: "drop i ?ms = ?ms ! i # drop (Suc i) ?ms" using i by (simp add: hs_size_def Cons_nth_drop_Suc)
  show ?case using Cons.IH[of "Suc i"] Cons.prems by (simp add: r rr_next[OF assms(1) i room] d)
qed

section \<open>The energy of the data centre\<close>

text \<open>Meters that read given values and change nothing.\<close>

record node_values =
  nv_power :: rat
  nv_energy :: rat
  nv_parts_power :: components
  nv_parts_energy :: components

definition fixed_meters :: "(machine \<Rightarrow> node_values) \<Rightarrow> 's node_meters" where
  "fixed_meters v = (let fixed = (\<lambda>f m s. Ok (f (v m), s)) in
     \<lparr>nr_state = (\<lambda>_. []), nr_power = fixed nv_power, nr_energy = fixed nv_energy,
      nr_cpuPower = fixed (\<lambda>n. cm_cpu (nv_parts_power n)), nr_memoryPower = fixed (\<lambda>n. cm_memory (nv_parts_power n)),
      nr_storagePower = fixed (\<lambda>n. cm_storage (nv_parts_power n)), nr_nicPower = fixed (\<lambda>n. cm_nic (nv_parts_power n)),
      nr_psuPower = fixed (\<lambda>n. cm_psu (nv_parts_power n)),
      nr_cpuEnergy = fixed (\<lambda>n. cm_cpu (nv_parts_energy n)), nr_memoryEnergy = fixed (\<lambda>n. cm_memory (nv_parts_energy n)),
      nr_storageEnergy = fixed (\<lambda>n. cm_storage (nv_parts_energy n)), nr_nicEnergy = fixed (\<lambda>n. cm_nic (nv_parts_energy n)),
      nr_psuEnergy = fixed (\<lambda>n. cm_psu (nv_parts_energy n))\<rparr>)"

definition all_nodes :: "data_centre \<Rightarrow> machine list" where
  "all_nodes dc = concat (map machinesSet (nodesMap dc)) @ concat (map machinesSet (storage_nodesMap dc))"

text \<open>What a node adds to the energy of the data centre; \<open>p\<close> is the value read for its power supply.\<close>

definition node_share :: "energy_flags \<Rightarrow> rat \<Rightarrow> node_values \<Rightarrow> rat" where
  "node_share fl p n = (if \<not> ef_dcEnergy fl then 0 else if ef_componentsEnergy fl
     then components_sum ((nv_parts_energy n)\<lparr>cm_psu := p\<rparr>) else nv_energy n)"

lemma fold_res_cong: "(\<And>x s. x \<in> set xs \<Longrightarrow> f x s = g x s) \<Longrightarrow> fold_res f xs s = fold_res g xs s"
  by (induction xs arbitrary: s) (auto intro: bind_res_cong)

lemma fold_res_map: "fold_res f (map h xs) s = fold_res (\<lambda>x. f (h x)) xs s"
  by (induction xs arbitrary: s) (auto intro: bind_res_cong)

lemma fold_res_nth: "fold_res (\<lambda>i. f (xs ! i)) [0..<length xs] s = fold_res f xs s"
  using fold_res_map[of f "\<lambda>i. xs ! i" "[0..<length xs]" s] by (simp add: map_nth)

lemma fold_res_concat: "fold_res (\<lambda>x. fold_res f (h x)) xs s = fold_res f (concat (map h xs)) s"
  by (induction xs arbitrary: s) (auto simp: fold_res_append intro: bind_res_cong)

lemma each_node_fold:
  assumes "mapSize = length (chosen_map storage dc)"
  shows "each_node storage mapSize f dc x = fold_res f (concat (map machinesSet (chosen_map storage dc))) x"
proof -
  let ?ch = "chosen_map storage dc"
  have inner: "bind_res (dc_getSetSize_at (int i) storage dc) (\<lambda>n.
      fold_res (\<lambda>j x. bind_res (dc_getNodeByIndex_at (int i) (int j) storage dc) (\<lambda>m. f m x)) [0..<n] x) =
      fold_res f (machinesSet (?ch ! i)) x" if "i < length ?ch" for i x
  proof -
    have "fold_res (\<lambda>j x. bind_res (dc_getNodeByIndex_at (int i) (int j) storage dc) (\<lambda>m. f m x)) [0..<hs_size (?ch ! i)] x =
        fold_res (\<lambda>j. f (machinesSet (?ch ! i) ! j)) [0..<length (machinesSet (?ch ! i))] x"
      using that unfolding hs_size_def
      by (intro fold_res_cong) (simp add: dc_getNodeByIndex_at_def getMachineByIndex_at_def set_at_def hs_getMachineByIndex_def)
    then show ?thesis using that by (simp add: dc_getSetSize_at_def quantity_at fold_res_nth)
  qed
  have "each_node storage mapSize f dc x = fold_res (\<lambda>i. fold_res f (machinesSet (?ch ! i))) [0..<length ?ch] x"
    unfolding each_node_def assms using inner by (intro fold_res_cong) simp
  also have "\<dots> = fold_res f (concat (map machinesSet ?ch)) x"
    using fold_res_nth[of "\<lambda>h. fold_res f (machinesSet h)" ?ch x] by (simp add: fold_res_concat)
  finally show ?thesis .
qed

lemma node_turn_share:
  "\<exists>l'. node_turn (\<lambda>m s. Ok (p m, s)) fl (fixed_meters v) m (l, s) = Ok (l', s) \<and>
     el_dcEnergy l' = el_dcEnergy l + node_share fl (p m) (v m)"
  by (cases "ef_componentsPower fl"; cases "ef_componentsEnergy fl"; cases "ef_nodePower fl"; cases "ef_nodeEnergy fl";
      cases "ef_dcPower fl"; cases "ef_dcEnergy fl")
    (simp_all add: node_turn_def read_parts_power_def read_parts_energy_def read_components_def read_node_def add_to_centre_def
      power_of_node_def energy_of_node_def fixed_meters_def Let_def trace_node_def node_share_def components_sum_def)

lemma node_turns_share:
  "\<exists>l'. fold_res (node_turn (\<lambda>m s. Ok (p m, s)) fl (fixed_meters v)) ms (l, s) = Ok (l', s) \<and>
     el_dcEnergy l' = el_dcEnergy l + (\<Sum>m\<leftarrow>ms. node_share fl (p m) (v m))"
proof (induction ms arbitrary: l)
  case (Cons m ms)
  obtain l1 where l1: "node_turn (\<lambda>m s. Ok (p m, s)) fl (fixed_meters v) m (l, s) = Ok (l1, s)"
    "el_dcEnergy l1 = el_dcEnergy l + node_share fl (p m) (v m)"
    using node_turn_share[of p fl v m l s] by blast
  then show ?case using Cons.IH[of l1] by auto
qed simp

lemma print_values_energy:
  "\<exists>cells. print_values (\<lambda>m s. Ok (p m, s)) now fl (fixed_meters v) dc e s =
     Ok (cells, e + (\<Sum>m\<leftarrow>all_nodes dc. node_share fl (p m) (v m)), s)"
proof -
  let ?f = "node_turn (\<lambda>m s. Ok (p m, s)) fl (fixed_meters v)" and ?l = "el_start e (if any_flag fl then [TimeCell now] else [])"
  have sizes: "dc_getMapSize dc = length (chosen_map False dc)" "dc_getStorageMapSize dc = length (chosen_map True dc)"
    by (simp_all add: dc_getMapSize_def dc_getStorageMapSize_def chosen_map_def)
  obtain l where l: "fold_res ?f (all_nodes dc) (?l, s) = Ok (l, s)"
    "el_dcEnergy l = e + (\<Sum>m\<leftarrow>all_nodes dc. node_share fl (p m) (v m))"
    using node_turns_share[of p fl v "all_nodes dc" ?l s] by (auto simp: el_start_def)
  then have "bind_res (each_node False (dc_getMapSize dc) ?f dc (?l, s)) (each_node True (dc_getStorageMapSize dc) ?f dc) = Ok (l, s)"
    unfolding each_node_fold[OF sizes(1)] each_node_fold[OF sizes(2)]
    by (simp add: all_nodes_def fold_res_append chosen_map_def)
  then have "print_values (\<lambda>m s. Ok (p m, s)) now fl (fixed_meters v) dc e s = Ok (el_data l @ total_cells fl l, el_dcEnergy l, s)"
    unfolding print_values_def by (auto elim!: bind_res_OkE)
  then show ?thesis using l(2) by auto
qed

text \<open>
  C37: round robin gives the nodes of the current set out in order and then reads past the end of it: when
  every node of a set has room for every request, the requests get the nodes from the first to the last,
  each once, and the next request, which should begin again, accesses the vector outside of its bounds.
\<close>

lemma round_robin_past_the_end:
  assumes "k < length (nodesMap dc)" "length rs = hs_size (nodesMap dc ! k)"
    and "\<forall>m\<in>set (machinesSet (nodesMap dc ! k)). \<forall>(mem, cpu)\<in>set rs. has_room free mem cpu m"
  shows "\<exists>s. rr_select_all free rs dc \<lparr>currentNodeIndex = 0, currentNodeType = k\<rparr> =
       Ok (map Some (machinesSet (nodesMap dc ! k)), s) \<and>
     rr_selectNode free mem cpu dc s = Fail Undefined"
  using rr_all[OF assms(1), of 0 rs free] assms(2,3) rr_past_end[OF assms(1)] by simp

text \<open>
  C34: the energy of the data centre that the FCFS scheduler records grows by the energies of all compute and
  storage nodes; the other schedulers add the power that the supply of a node loses at the moment in the
  place of the energy it has lost, so their total is wrong by the sum of the differences whenever the parts of the
  nodes are recorded.
\<close>

lemma round_robin_adds_power_to_energy:
  "\<exists>c c' e1 e2. printEnergyValues now fl (fixed_meters v) dc e s = Ok (c, e1, s) \<and>
     rr_printEnergyValues now fl (fixed_meters v) dc e s = Ok (c', e2, s) \<and>
     e1 = e + (\<Sum>m\<leftarrow>all_nodes dc. node_share fl (cm_psu (nv_parts_energy (v m))) (v m)) \<and>
     e2 - e1 = (if ef_dcEnergy fl \<and> ef_componentsEnergy fl
       then (\<Sum>m\<leftarrow>all_nodes dc. cm_psu (nv_parts_power (v m)) - cm_psu (nv_parts_energy (v m))) else 0)"
proof -
  let ?e = "\<lambda>m. cm_psu (nv_parts_energy (v m))" and ?p = "\<lambda>m. cm_psu (nv_parts_power (v m))"
  have nr: "nr_psuEnergy (fixed_meters v) = (\<lambda>m s. Ok (?e m, s))" "nr_psuPower (fixed_meters v) = (\<lambda>m s. Ok (?p m, s))"
    by (simp_all add: fixed_meters_def)
  have share: "node_share fl (?p m) (v m) = node_share fl (?e m) (v m) +
      (if ef_dcEnergy fl \<and> ef_componentsEnergy fl then ?p m - ?e m else 0)" for m
    by (simp add: node_share_def components_sum_def)
  have "(\<Sum>m\<leftarrow>ms. node_share fl (?p m) (v m)) - (\<Sum>m\<leftarrow>ms. node_share fl (?e m) (v m)) =
      (if ef_dcEnergy fl \<and> ef_componentsEnergy fl then (\<Sum>m\<leftarrow>ms. ?p m - ?e m) else 0)" for ms
    by (induction ms) (simp_all add: share)
  from this[of "all_nodes dc"]
  show ?thesis
    using print_values_energy[of ?e now fl v dc e s] print_values_energy[of ?p now fl v dc e s]
    unfolding printEnergyValues_def rr_printEnergyValues_def nr by auto
qed

text \<open>Two nodes with 4 cores.\<close>

definition small_type :: element_type where
  "small_type = \<lparr>et_name = ''small'', memoryTotal = 4096, storageTotal = 1048576, et_numCores = 4, numStorageDevices = 1, numNetIF = 1\<rparr>"

definition small_centre :: data_centre where
  "small_centre = \<lparr>nodesMap = [\<lparr>machinesSet = [\<lparr>m_id = 1, m_ip = ''1'', m_on = True, m_type = small_type\<rparr>,
       \<lparr>m_id = 2, m_ip = ''2'', m_on = True, m_type = small_type\<rparr>], hs_type = Some small_type\<rparr>], storage_nodesMap = []\<rparr>"

lemma round_robin_past_the_end_witness:
  "\<exists>s. rr_select_all (\<lambda>_. 4096) [(1024, 1), (2048, 4)] small_centre \<lparr>currentNodeIndex = 0, currentNodeType = 0\<rparr> =
       Ok (map Some (machinesSet (nodesMap small_centre ! 0)), s) \<and>
     rr_selectNode (\<lambda>_. 4096) 1024 1 small_centre s = Fail Undefined"
  by (rule round_robin_past_the_end) (simp_all add: small_centre_def small_type_def hs_size_def has_room_def)

end
