(* ===== verification/Spec2Isabelle.thy ===== *)
theory Spec2Isabelle imports Scenarios HpcSample MpiBarrier PowerSupply NodeMemory CpuCore FileSystems Disks CloudSchedulers begin

text \<open>
  A model of the core of DockerSimDev, a discrete-event simulator of clouds with virtual machines and
  containers (C++ on OMNeT++), and the properties that make its parts correct or show where they are
  not.  All paths are below \<^verbatim>\<open>src/src\<close>.

  \<^bold>\<open>The system.\<close>  A simulation is a tree of modules that exchange messages through gates.  Users send
  requests for machines to the cloud manager, which chooses nodes, links virtual machines to them and
  shuts them down again; a virtual machine has an operating system, whose requests for CPU, memory,
  network and storage pass a message controller and the managers of the hypervisor to the devices of the
  node; the applications of a machine, or its containers below a container daemon, produce these
  requests.  A migration or a stop of a machine is a protocol between the controllers.  An MPI application is
  a set of processes, which send each other messages over connections of their operating systems.

  \<^bold>\<open>Conventions.\<close>  An object is a record, a vector a list, a pointer to a message, machine, job or request is
  its id.  What throws or is undefined is a value of \<open>'a res\<close>: \<open>Fail (Thrown f)\<close> for an exception of \<open>f\<close>,
  \<open>Fail Undefined\<close> for undefined behaviour (an access outside of a vector, a NULL or uninitialised
  pointer, an integer that does not fit).  Calls into OMNeT++ and into parts that are not modelled are
  recorded in order (\<open>outbox\<close> of a module, \<open>commands\<close> of a gate manager, \<open>cl_actions\<close> of the cloud
  manager).  Identifiers and counters are integers; where the code depends on the width of a number the
  range is written out (\<open>checked_int\<close>, \<open>to_unsigned\<close>).  Output to the console and deletion of objects
  that nothing reads again are left out.

  \<^bold>\<open>Theories.\<close>
  \<^item> \<^verbatim>\<open>Prelude\<close>: results, loops over vectors, list lemmas.  \<^verbatim>\<open>Pools\<close>: the contract of an allocator of
    positions (locales \<open>pool\<close>, \<open>slot_pool\<close>).  \<^verbatim>\<open>Registries\<close>: the contract of a vector of elements with
    distinct keys (locale \<open>registry\<close>).
  \<^item> \<^verbatim>\<open>Messages\<close> (\<^verbatim>\<open>Base/Messages\<close>): messages and their traces.  \<^verbatim>\<open>ModuleBase\<close>
    (\<^verbatim>\<open>Base/icancloud_Base.cc\<close>): the queue of a module, the dispatch of a message to the handlers of the
    subclass, and sending; the handlers are the arguments of \<open>handleMessage\<close>, and the locale
    \<open>message_module\<close> states what a run of a module does when its handlers satisfy a contract.
  \<^item> \<^verbatim>\<open>GateManager\<close> (\<^verbatim>\<open>Base/cGateManager.cc\<close>) and \<^verbatim>\<open>GateLinks\<close>: gate vectors whose freed positions
    are reused; several managers of one shape give the same number.
  \<^item> \<^verbatim>\<open>VmMsgController\<close>, \<^verbatim>\<open>VmMigration\<close> (\<^verbatim>\<open>Virtualization/VirtualMachines/VMManagement\<close>),
    \<^verbatim>\<open>DockerDaemon\<close> (\<^verbatim>\<open>Virtualization/DockerEngine/DockerDaemon.cc\<close>) and \<^verbatim>\<open>AppLinks\<close>: the controllers of
    virtual machines and containers, the protocol that stops and activates them, and the gates of the
    applications.
  \<^item> \<^verbatim>\<open>CpuSchedulers\<close> (\<^verbatim>\<open>Architecture/NodeComponents/OperatingSystems/CPU_Schedulers\<close>): the FIFO and the
    round robin scheduler; the locale \<open>dispatcher\<close> has what they share.
  \<^item> \<^verbatim>\<open>HypervisorCpu\<close> and \<^verbatim>\<open>HypervisorMemory\<close> (\<^verbatim>\<open>Virtualization/Hypervisor/HypervisorManagers\<close>): the blocks
    of the machines on the cores of the node, and the memory of the node divided among the machines.
  \<^item> \<^verbatim>\<open>VirtualIP\<close>, \<^verbatim>\<open>PortTables\<close>, \<^verbatim>\<open>NetworkManager\<close> (\<^verbatim>\<open>Management/NetworkManager\<close>) and \<^verbatim>\<open>PortTranslation\<close>
    (\<^verbatim>\<open>.../H_NetworkManager/LocalNetManager/PAT\<close>): the addresses and ports of the virtual machines.
  \<^item> \<^verbatim>\<open>MachinesMap\<close> (\<^verbatim>\<open>Management/MachinesStructure\<close>), \<^verbatim>\<open>DataCenterApi\<close>
    (\<^verbatim>\<open>Management/DataCenterManagement/Base/DataCenterAPI.cc\<close>) and \<^verbatim>\<open>JobQueues\<close>
    (\<^verbatim>\<open>Applications/Base/Management/JobQueue.cc\<close>, \<^verbatim>\<open>Users/Base/queuesManager.cc\<close>): the machines of a data
    centre or of a user, and the jobs of a user.
  \<^item> \<^verbatim>\<open>CloudRequests\<close> (\<^verbatim>\<open>.../Base/RequestsManagement.cc\<close>, \<^verbatim>\<open>Base/Request\<close>, \<^verbatim>\<open>CloudSchedulerFCFS.cc\<close>), \<^verbatim>\<open>Tenants\<close>
    (\<^verbatim>\<open>.../Base/UserManagement.cc\<close>, \<^verbatim>\<open>Users/Profiles/CloudUser/AbstractCloudUser.cc\<close>), \<^verbatim>\<open>Allocation\<close>
    (\<^verbatim>\<open>.../Base/AllocationManagement.cc\<close>) and \<^verbatim>\<open>VmShutdown\<close> (\<^verbatim>\<open>StorageManagement.cc\<close>,
    \<^verbatim>\<open>AbstractCloudManager.cc\<close>): the cloud manager, from the queue of requests and a scheduling round to
    the shutdown of a machine on all its nodes.  \<^verbatim>\<open>CloudSchedulers\<close>
    (\<^verbatim>\<open>Management/CloudManagement/ResourcesProvisioning\<close>): the round robin, the random and the gnuplot
    scheduler, and the power and energy that the schedulers record.
  \<^item> \<^verbatim>\<open>IoMessages\<close>, \<^verbatim>\<open>RequestTables\<close> and \<^verbatim>\<open>RequestSplitting\<close> (\<^verbatim>\<open>Base/Messages/SMS\<close>): requests that are split
    into subrequests, the table that collects their answers, and the splitters of the main memory, of
    parallel file systems and of NFS.
  \<^item> \<^verbatim>\<open>EnergyStates\<close>, \<^verbatim>\<open>HwEnergy\<close> (\<^verbatim>\<open>Architecture/NodeComponents/Hardware/HWEnergyInterface.cc\<close> and the
    controllers of cores and disks), \<^verbatim>\<open>EnergyMeters\<close> (\<^verbatim>\<open>EnergySystem/EnergyMeter\<close>) and \<^verbatim>\<open>PowerSupply\<close>
    (\<^verbatim>\<open>EnergySystem/PSU\<close>): the time a component spends in its energy states, what it consumes in them, and
    the power supply, which adds up the components of a node and its own losses.
  \<^item> \<^verbatim>\<open>NodeMemory\<close> (\<^verbatim>\<open>.../Hardware/Memories/MainMemories\<close>) and \<^verbatim>\<open>CpuCore\<close>
    (\<^verbatim>\<open>.../Hardware/CPUs/CPUcores\<close>): the memory and the cores of a node, their times and energy states.
  \<^item> \<^verbatim>\<open>BlockLists\<close> (\<^verbatim>\<open>Base/Messages\<close>), \<^verbatim>\<open>FileSystems\<close> (\<^verbatim>\<open>.../OperatingSystems/Storage/FileSystems\<close>),
    \<^verbatim>\<open>RaidSplitting\<close> (\<^verbatim>\<open>Base/Messages/SMS\<close>), \<^verbatim>\<open>StorageManagers\<close> (\<^verbatim>\<open>.../Storage/VolumeManagers\<close>) and
    \<^verbatim>\<open>Disks\<close> (\<^verbatim>\<open>.../Hardware/Storage/Devices/Disks\<close>): a request for a file on its way to the branches of the
    file, over the disks of a volume, and through a disk; the locale \<open>disk_kind\<close> has what the two disks share.
  \<^item> \<^verbatim>\<open>ApiOs\<close> (\<^verbatim>\<open>Applications/Libraries_API/API_OS\<close>): what an application asks of its operating system, and its
    connections.  \<^verbatim>\<open>MpiBase\<close> (\<^verbatim>\<open>.../MPI_Base\<close>): the calls of MPI, with \<^verbatim>\<open>MpiCalls\<close> and \<^verbatim>\<open>MpiBarrier\<close> on their
    properties.  \<^verbatim>\<open>HpcApp\<close> (\<^verbatim>\<open>Applications/Apps/ApplicationHPC\<close>): the master/worker application.
  \<^item> \<^verbatim>\<open>HpcSpec\<close>: the rounds of a master and its workers, without messages.  \<^verbatim>\<open>HpcRun\<close>: what one process does
    between two events.  \<^verbatim>\<open>HpcWorld\<close>: all processes with the network and the operating system, and the
    relation to the rounds.  \<^verbatim>\<open>HpcSim\<close>: every event is a step of the rounds.  \<^verbatim>\<open>HpcRuns\<close>: all runs.
    \<^verbatim>\<open>HpcBoot\<close>: the start of the processes.  \<^verbatim>\<open>HpcSample\<close>: a set of two.
  \<^item> \<^verbatim>\<open>Scenarios\<close>: concrete modules and messages.  This theory: the properties of the controllers, the
    schedulers and the network; those of the other components are at the end of their theories.

  \<^bold>\<open>What is shown.\<close>
  \<^item> Controllers: the counters of pending messages are exact (C1); a blocked machine holds messages back
    in order and releases them oldest first (C2); the container daemon, whose response handler is cut short,
    never answers a stop (C4); one number addresses an application in all gate vectors (C5).
  \<^item> Schedulers: arrival order of FIFO and round robin (C7, C9), and of the hypervisor, which refines a FIFO
    queue (C35).
  \<^item> Network: addresses round-trip (C10); port translation is undone for the answer (C18).
  \<^item> Machines and jobs: the sets of machines refine maps (C21); a job is in one queue (C26).
  \<^item> Memory of the hypervisor: blocks are accounted for in every reachable state (C30), requests are decided
    by the free blocks (C31).  Memory of a node: a ledger (C33), and an answer to every allocation (C15).
  \<^item> Energy: recorded times add up to the time since the start (C17); the loss of a power supply at every
    load, and when it is that of an overload (C3); the energy of a node (C24); the time of a block on a core (C6).
  \<^item> Requests: the pieces of a split write are the range of the request, cut at the block boundaries (C22).
  \<^item> Storage: the files refine a map (C20), operations are answered exactly once in every run
    (C28), a deletion over NFS twice (C19); the subrequests
    of a RAID are the stripes of the request, on the right disks (C29, C27), and take its time (C11); the
    volume manager cannot complete a request (C16); the disks answer (C40), in times within their tables (C25).
  \<^item> MPI: no call and no message leaves the well-formed states (C32); no process leaves a barrier before all
    have entered it, over any number of barriers and any order of the messages (C36).
  \<^item> Master/worker application: the processes implement the rounds of \<open>HpcSpec\<close> (C8), so every run ends (C12),
    with all processes finished (C13), and no worker gets more than one iteration ahead of its master (C14);
    the start of the code leads to such processes, connected to those they talk to and no other (C23).  The answers of the operating system are taken to be
    \<^verbatim>\<open>icancloud_OK\<close>, and the network to deliver every message to the rank it is for, in any order.
  \<^item> Cloud manager: a scheduling round equals a recursion over the queue (C38); the shutdown of a machine
    happens once, with the last answer, in any interleaving, if the machine is idle then, and never if not (C39); the round robin scheduler reads behind the
    end of the nodes (C37), and what it records as energy contains a power (C34).

  \<^bold>\<open>Interfaces.\<close>  \<open>message_module\<close> is interpreted for the handlers of the controllers, the
  schedulers, the managers of the hypervisor, the volume manager and the branch scheduler, \<open>slot_pool\<close> for \<open>cGateManager\<close>, \<open>pool\<close> for the ports of the translation,
  \<open>dispatcher\<close> for the two schedulers and the CPU manager of the hypervisor, \<open>registry\<close> for the sets of
  machines and the waiting queue, and \<open>disk_kind\<close> for both disks.

  \<^bold>\<open>Bounds.\<close>  The loops that serve a queue have a counter: \<open>serve\<close> the length of the queue of the module,
  \<open>flush_loop\<close> the number of pending messages, \<open>node_loop\<close> the number of nodes, \<open>schedule_loop\<close> the number
  of requests; each turn removes or passes one element, so the bound is never the reason to stop.
  \<open>calculateNextState\<close> ends: a call that leads to another takes a message off the list of calls or gets closer to
  the state in which the process waits.  The number of iterations of the application is below \<open>2 ^ 32 - 1\<close>.  The
  other loops are recursions over the vector they pass.  Loops of the code
  that may not end (freeing a port, starting a job, \<open>first_vm_loop\<close>) are partial functions, whose
  value is \<open>None\<close> when the code does not return.

  \<^bold>\<open>Parameters.\<close>  \<open>og\<close>: the gate \<^verbatim>\<open>getOutGate\<close> finds for a message; \<open>newId\<close>, \<open>gate_id\<close>: ids that OMNeT++
  gives out; \<open>running\<close>, \<open>linkedVMs\<close>, \<open>enough\<close>: the load of a machine, which its operating system
  keeps; \<open>junk\<close>: the id of a listening connection, which the code does not set; \<open>cloud_ops\<close>: the methods a scheduling round calls; \<open>vms\<close>: attributes of a virtual machine
  (its number of processes is given with every notification); \<open>rnd\<close>, \<open>free\<close>: random numbers and the free memory of
  a node; \<open>node_meters\<close>: the meters of a node, read with the state they keep;
  \<open>preloaded\<close>: the handler of finished preloads.

  \<^bold>\<open>Not modelled.\<close>  The creation of modules at run time and the configuration parsers; the managers of
  the hypervisor for network and storage, which rest on INET; the virtual file systems, which only route;
  the system call manager and its applications; the other workload applications; the profiles of users and the
  generators, which draw random numbers (the calls of a profile are recorded in \<open>tn_calls\<close>); the data centre manager; the start of virtual machines and
  the entries of pending storage requests, which are shared by pointer; the requests for containers and
  for HPC nodes; the controller of the energy meters and the memorization of their values; generated classes.
\<close>

section \<open>Migration of a virtual machine\<close>

text \<open>
  C1: over any fault-free sequence of events, each pending counter of the message controller of a
  virtual machine (CPU, I/O, memory, network) is its old value plus the requests of that class
  that left for the operating system minus the responses of that class that came back.
\<close>

theorem vm_pending_accounting:
  assumes "queue s = []" "\<not> latencyScheduled s" "fold_res (vm_handleMessage og) inps s = Ok s'"
  shows "\<exists>es. outbox s' = outbox s @ es \<and>
    (\<forall>k. pending_of k s' = pending_of k s + forwarded k es - answered k inps)"
  using run_accounts[OF assms] by (simp add: accounts_def)

theorem vm_pending_accounting_witness:
  "\<exists>s' es. fold_res (vm_handleMessage sc_og) [sc_ask 1, sc_ask 2, sc_answer 1] sc_vm = Ok s' \<and>
     pending_of CpuClass s' = pending_of CpuClass sc_vm + forwarded CpuClass es
       - answered CpuClass [sc_ask 1, sc_ask 2, sc_answer 1]"
proof -
  have q: "queue sc_vm = []" "\<not> latencyScheduled sc_vm" by code_simp+
  have "res_ok (fold_res (vm_handleMessage sc_og) [sc_ask 1, sc_ask 2, sc_answer 1] sc_vm)"
    by code_simp
  then obtain s' where s': "fold_res (vm_handleMessage sc_og) [sc_ask 1, sc_ask 2, sc_answer 1] sc_vm = Ok s'"
    by (rule res_okE)
  from vm_pending_accounting[OF q s'] s' show ?thesis by blast
qed

text \<open>
  C2: while a virtual machine is blocked for a migration every message that reaches the controller
  is held back, in order, and all it sends are copies of the stop notice; the activation command
  then releases exactly the held messages, oldest first, and ends the blocked state.
\<close>

theorem vm_migration_holds_and_releases:
  assumes "queue s = []" "\<not> latencyScheduled s" "migrateActive s" "\<forall>i\<in>set inps. \<not> is_command i"
    and "fold_res (vm_handleMessage og) inps s = Ok s1"
    and "\<not> isResponse m" "operation m = SM_VM_ACTIVATION"
    and "\<forall>x\<in>set (pendingMessages s1). routable x"
    and "vm_handleMessage og (Incoming m) s1 = Ok s2"
  shows "\<not> migrateActive s2 \<and> pendingMessages s2 = [] \<and>
    (\<exists>ns es t. outbox s2 = outbox s @ ns @ es @ [Deleted (m\<lparr>msg_trace := t\<rparr>)] \<and>
       notices (migration_msg s) ns \<and>
       map (msg_id \<circ> event_msg) es = map msg_id (pendingMessages s) @ map input_id inps)"
proof -
  from held_run[OF assms(1-5)] obtain ns where h: "outbox s1 = outbox s @ ns" "notices (migration_msg s) ns"
    "map msg_id (pendingMessages s1) = map msg_id (pendingMessages s) @ map input_id inps"
    by (auto simp: held_def)
  have q: "queue s1 = []" "\<not> latencyScheduled s1"
    using vm.run_quiescent[OF assms(1,2)] assms(5) by (auto simp: vm_handleMessage_def)
  from activation_releases[OF q assms(6,7,9,8)] h show ?thesis by fastforce
qed

theorem vm_migration_holds_and_releases_witness:
  "\<exists>s1 s2. fold_res (vm_handleMessage sc_og) [sc_ask 2, sc_answer 1] sc_blocked_vm = Ok s1 \<and>
     vm_handleMessage sc_og (Incoming sc_activation) s1 = Ok s2 \<and> \<not> migrateActive s2 \<and>
     pendingMessages s2 = []"
proof -
  let ?run = "fold_res (vm_handleMessage sc_og) [sc_ask 2, sc_answer 1] sc_blocked_vm"
  have q: "queue sc_blocked_vm = []" "\<not> latencyScheduled sc_blocked_vm" "migrateActive sc_blocked_vm"
    by code_simp+
  have c: "\<forall>i\<in>set [sc_ask 2, sc_answer 1]. \<not> is_command i" by code_simp
  have "case ?run of Ok s1 \<Rightarrow> res_ok (vm_handleMessage sc_og (Incoming sc_activation) s1) \<and>
      list_all routable (pendingMessages s1) | Fail e \<Rightarrow> False" by code_simp
  then obtain s1 where s1: "?run = Ok s1" "list_all routable (pendingMessages s1)"
    and ok: "res_ok (vm_handleMessage sc_og (Incoming sc_activation) s1)"
    by (auto split: res.splits)
  from ok obtain s2 where s2: "vm_handleMessage sc_og (Incoming sc_activation) s1 = Ok s2"
    by (rule res_okE)
  have m: "\<not> isResponse sc_activation" "operation sc_activation = SM_VM_ACTIVATION" by code_simp+
  from vm_migration_holds_and_releases[OF q c s1(1) m _ s2] s1 s2 show ?thesis
    by (auto simp: list_all_iff)
qed

text \<open>
  a virtual machine that is blocked after an event sends something during that event only if
  no request of it is out any more: the stop notice never leaves early.
\<close>

theorem vm_notice_only_when_prepared:
  assumes "queue s = []" "\<not> latencyScheduled s" "vm_handleMessage og i s = Ok s'"
    and "migrateActive s'" "outbox s' = outbox s @ es" "Sent x d \<in> set es"
  shows "\<forall>k. pending_of k s' = 0"
  using assms by (rule speaks_only_prepared)

section \<open>The container daemon\<close>

text \<open>
  C4: the daemon of the containers, once blocked, never answers the stop command later: until an
  activation arrives, everything it hands on is one of the messages that just came in, whatever
  the counters are.
\<close>

theorem daemon_never_answers_stop:
  assumes "queue s = []" "\<not> latencyScheduled s" "migrateActive s"
    and "\<forall>i\<in>set inps. \<not> dd_is_activation i"
    and "fold_res (dd_handleMessage og) inps s = Ok s'"
  shows "migrateActive s' \<and> (\<exists>es. outbox s' = outbox s @ es \<and>
    (\<forall>e\<in>set es. \<exists>m. Incoming m \<in> set inps \<and> msg_id (event_msg e) = msg_id m))"
  using dd_blocked_run[OF assms] by (simp add: only_echo_def)

theorem daemon_never_answers_stop_witness:
  "\<exists>s'. fold_res (dd_handleMessage sc_og) [sc_answer 1] sc_blocked_daemon = Ok s' \<and>
     migrateActive s' \<and> pending_of CpuClass s' = 0 \<and>
     (\<exists>es. outbox s' = outbox sc_blocked_daemon @ es \<and> (\<forall>e\<in>set es. msg_id (event_msg e) \<noteq> 100))"
proof -
  let ?run = "fold_res (dd_handleMessage sc_og) [sc_answer 1] sc_blocked_daemon"
  have q: "queue sc_blocked_daemon = []" "\<not> latencyScheduled sc_blocked_daemon"
    "migrateActive sc_blocked_daemon" by code_simp+
  have c: "\<forall>i\<in>set [sc_answer 1]. \<not> dd_is_activation i" by code_simp
  have "case ?run of Ok s \<Rightarrow> pending_of CpuClass s = 0 | Fail e \<Rightarrow> False" by code_simp
  then obtain s' where s': "?run = Ok s'" "pending_of CpuClass s' = 0" by (auto split: res.splits)
  have "msg_id m = 1" if "Incoming m \<in> set [sc_answer 1]" for m
    using that by (simp add: sc_answer_def sc_message_def)
  with daemon_never_answers_stop[OF q c s'(1)] s' show ?thesis by fastforce
qed

section \<open>Linking applications\<close>

text \<open>
  C5: linking an application never fails and keeps the four gate managers of a controller in
  lockstep: all four give it the same number, one that no linked application has.
\<close>

theorem link_keeps_lockstep:
  assumes "lockstep s"
  shows "\<exists>s'. link_managers a b c d s = Ok s' \<and> lockstep s' \<and>
    (\<exists>i. i \<notin> live (toApps s) \<and> live (toApps s') = insert i (live (toApps s)))"
  using assms by (rule lockstep_link)

theorem link_keeps_lockstep_witness:
  "\<exists>s'. link_managers (''a'', 0) (''b'', 0) (''c'', 0) (''d'', 0) (vm_initialize 5 ''host'') = Ok s' \<and>
     lockstep s'"
proof -
  have "lockstep (vm_initialize 5 ''host'')"
    by (simp add: lockstep_def vm_initialize_def msg_controller.defs module_state.defs manager_ok_def
        gm_inv_new named_def new_gate_manager_def gm_inv_def)
  from link_keeps_lockstep[OF this, of "(''a'', 0)" "(''b'', 0)" "(''c'', 0)" "(''d'', 0)"]
  show ?thesis by blast
qed

text \<open>
  unlinking a container finds the number it was linked under, frees that position in all four
  gate managers and nothing else, and keeps them in lockstep.
\<close>

theorem unlink_frees_position:
  assumes "lockstep d" "inj (\<lambda>j. gate_id (''toApps'', j))" "i \<in> live (toApps d)"
  shows "\<exists>d'. unlinkContainer gate_id (gate_id (''toApps'', i)) a b d = Ok (i, d') \<and> lockstep d' \<and>
    live (toApps d') = live (toApps d) - {i}"
  using assms by (rule unlink_position)

section \<open>CPU scheduling\<close>

text \<open>
  C7: the FIFO scheduler starts computing blocks on the CPUs in the order in which they arrived:
  the ids already waiting, followed by the ids accepted during a run, are the ids started in that
  run, in order, followed by the ids still waiting.
\<close>

theorem fifo_scheduler_order:
  assumes "quiet s" "fifo_inv s" "fold_res (fifo_handleMessage newId og) inps s = Ok s'"
  shows "\<exists>es. outbox s' = outbox s @ es \<and>
    wait_ids s @ concat (map fifo_accepted inps) = concat (map fifo_started es) @ wait_ids s'"
  using fifo_d.run_order[OF _ assms(3)] assms(1,2) by blast

theorem fifo_scheduler_order_witness:
  "\<exists>s' es. fold_res (fifo_handleMessage (\<lambda>m. 50) sc_og) sc_sched_inputs sc_sched = Ok s' \<and>
     [1, 2] = concat (map fifo_started es) @ wait_ids s'"
proof -
  have i: "quiet sc_sched" by code_simp
  have j: "fifo_inv sc_sched" by (simp only: sc_sched_def fifo_inv_init)
  have "res_ok (fold_res (fifo_handleMessage (\<lambda>m. 50) sc_og) sc_sched_inputs sc_sched)" by code_simp
  then obtain s' where s': "fold_res (fifo_handleMessage (\<lambda>m. 50) sc_og) sc_sched_inputs sc_sched = Ok s'"
    by (rule res_okE)
  have "wait_ids sc_sched @ concat (map fifo_accepted sc_sched_inputs) = [1, 2]" by code_simp
  with fifo_scheduler_order[OF i j s'] s' show ?thesis by auto
qed

text \<open>
  The FIFO scheduler never lets a block wait while a CPU is idle, at any point of any
  fault-free run from its initial state, and its counter of waiting blocks is the length of the
  queue (modulo the width of the counter), so it never asks for a lower speed.
\<close>

theorem fifo_scheduler_work_conserving:
  assumes "fold_res (fifo_handleMessage newId og) inps (sched_init (base_initialize i h) n q) = Ok s'"
    and "requestsQueue s' \<noteq> []"
  shows "True \<notin> set (isCPU_Idle s') \<and> searchIdleCPU s' = NOT_FOUND \<and>
    queueSize s' = of_nat (length (requestsQueue s'))"
proof -
  have "quiet (sched_init (base_initialize i h) n q)"
    by (simp add: quiet_def sched_init_def base_initialize_def)
  with fifo_d.run_inv[OF _ assms(1)] fifo_inv_init have "fifo_inv s'" by blast
  then have "True \<notin> set (isCPU_Idle s')" "queueSize s' = of_nat (length (requestsQueue s'))"
    "length (isCPU_Idle s') = numCPUs s'" using assms(2) by (simp_all add: fifo_inv_def sched_inv_def)
  moreover from this have "index_of (\<lambda>b. b) (isCPU_Idle s') = None" by (auto simp: index_of_None)
  ultimately show ?thesis by (simp add: searchIdleCPU_def)
qed


text \<open>
  C9: the round-robin scheduler serves new blocks and blocks whose quantum has ended in one
  common order of arrival, and never lets one wait while a CPU is idle.
\<close>

theorem rr_scheduler_order:
  assumes "quiet s" "sched_inv s" "fold_res (rr_handleMessage og) inps s = Ok s'"
  shows "(\<exists>es. outbox s' = outbox s @ es \<and>
      wait_ids s @ concat (map rr_accepted inps) = concat (map rr_started es) @ wait_ids s') \<and>
    (requestsQueue s' \<noteq> [] \<longrightarrow> True \<notin> set (isCPU_Idle s'))"
  using rr_d.run_order[OF _ assms(3)] rr_d.run_inv[OF _ assms(3)] assms(1,2)
  unfolding sched_inv_def by blast

theorem rr_scheduler_order_witness:
  "\<exists>s' es. fold_res (rr_handleMessage sc_og) sc_sched_inputs sc_sched = Ok s' \<and>
     [1, 2] = concat (map rr_started es) @ wait_ids s'"
proof -
  have i: "quiet sc_sched" by code_simp
  have j: "sched_inv sc_sched" by (simp only: sc_sched_def sched_inv_init)
  have "res_ok (fold_res (rr_handleMessage sc_og) sc_sched_inputs sc_sched)" by code_simp
  then obtain s' where s': "fold_res (rr_handleMessage sc_og) sc_sched_inputs sc_sched = Ok s'"
    by (rule res_okE)
  have "wait_ids sc_sched @ concat (map rr_accepted sc_sched_inputs) = [1, 2]" by code_simp
  with rr_scheduler_order[OF i j s'] s' show ?thesis by auto
qed

section \<open>Virtual addresses\<close>

text \<open>
  C10: a virtual address that is printed and read back is the same address, for all addresses the
  counter can reach.
\<close>

theorem virtual_ip_roundtrip:
  assumes "vip_ok v"
  shows "setVirtualIP (getVirtualIP v) w =
    Ok (w\<lparr>first := first v, second := second v, third := third v, fourth := fourth v\<rparr>)"
  using assms by (rule set_get_roundtrip)

theorem virtual_ip_roundtrip_witness:
  "setVirtualIP (getVirtualIP sc_basis) new_virtual_ip = Ok (new_virtual_ip
     \<lparr>first := 10, second := 0, third := 0, fourth := 0\<rparr>)"
proof -
  have "vip_ok sc_basis" by code_simp
  from virtual_ip_roundtrip[OF this, of new_virtual_ip] show ?thesis by (simp add: sc_basis_def)
qed

text \<open>
  the addresses a user gets, with no machine deleted in between, are the successors of his last
  address in order, and no two of them are equal, until the last address of the counter is reached.
\<close>

theorem vip_allocations_distinct:
  assumes "find_first (\<lambda>x. userID x = u) (ipsCloud nm) = Some x"
    "holesIP x = []" "lastIP x = getVirtualIP v" "vip_ok v"
    and "\<forall>w\<in>set (butlast (v # count_up (length rs) v)). \<not> vip_last w"
  shows "\<exists>ips nm'. allocate_all u rs nm = Ok (ips, nm') \<and> ips = map getVirtualIP (count_up (length rs) v) \<and>
    distinct ips"
  using allocate_all_counts[OF assms] count_up_values[OF assms(4,5)] by auto

text \<open>
  The address handed out after a machine was deleted is not the freed address but its
  difference to the basis of the addresses: the hole is stored as a difference and never added up
  again.
\<close>

theorem freed_address_is_difference:
  assumes "ipsCloud nm = x # us" "userID x = u" "vipCells x = c # cs" "cell_vmID c = vm"
    "holesIP x = []" "stringTovirtualIP (ipBasis nm) = Ok (Octets a b d e)" "vip_ok w" "cell_vip c = w"
    "vip_octet (first w - a)" "vip_octet (second w - b)" "vip_octet (third w - d)" "vip_octet (fourth w - e)"
  shows "\<exists>nm1 nm2. deleteVirtualIP_by_VMID vm u nm = Ok nm1 \<and>
    allocateVirtualIP node u vm' nm1 =
      Ok (virtualIPToString (first w - a) (second w - b) (third w - d) (fourth w - e), nm2)"
  using assms by (rule hole_is_difference)


text \<open>Deleting a virtual address by its value never changes anything.\<close>

theorem delete_by_vip_no_effect: "deleteVirtualIP_by_VIP ip u nm = Ok nm"
  by (rule delete_by_vip_nothing)

section \<open>Nodes and ports\<close>

text \<open>
  With two or more nodes (or none), the table of a node is found exactly when the node is
  registered, in whatever order the nodes were registered; otherwise an error is raised.
\<close>

theorem node_table_found:
  assumes "length (ports_per_node nm) \<noteq> 1" "scannable nodeIP"
    "\<forall>t\<in>set (ports_per_node nm). scannable (ipNode t)"
  shows "(nodeIP \<in> ipNode ` set (ports_per_node nm) \<longrightarrow>
      (\<exists>i. getNodeFromPortsTable nodeIP nm = Ok i \<and> i < length (ports_per_node nm)
         \<and> ipNode (ports_per_node nm ! i) = nodeIP))
    \<and> (nodeIP \<notin> ipNode ` set (ports_per_node nm) \<longrightarrow>
      getNodeFromPortsTable nodeIP nm = Fail (Thrown ''getNodeFromPortsTable''))"
  using assms by (rule getNode_found)


text \<open>
  a port that is registered for a machine of a user on a node is the one that is looked up
  there, unless an earlier registration for the same virtual port, machine and user exists, which
  stays; every other lookup on that node is unchanged.
\<close>

theorem port_registration_lookup:
  assumes "ports_ok nm" "nm_registerPort u node vm r v op nm = Ok nm'"
    "registered node v' u' vm' nm = Ok old"
  shows "nm_getRealPort node v' u' vm' nm' = Ok (case old of Some p \<Rightarrow> p
    | None \<Rightarrow> if v' = v \<and> vm' = vm \<and> u' = u then r else PORT_NOT_FOUND)"
  using register_registered[OF assms] by (auto simp: nm_getRealPort_registered split: option.split)

text \<open>
  freeing one port of a machine does not return when any machine of the node has that virtual
  port; when it returns, nothing was freed.
\<close>

theorem free_port_never_frees:
  assumes "getNodeFromPortsTable node nm = Ok i"
  shows "freePortOfVM node vm u v nm =
    (if v \<in> set (vports (ports_per_node nm ! i)) then None else Some (Ok nm))"
  using assms by (rule free_one_result)

section \<open>Port translation\<close>

text \<open>
  the real ports given to listening machines are pairwise different and were not in use, over
  any sequence of listen requests of any users and machines.
\<close>

theorem listen_ports_distinct:
  assumes "pat_ok s" "listen_many rs s = Ok (qs, s')"
  shows "distinct qs \<and> set qs \<inter> pat_used s = {} \<and> pat_used s' = pat_used s \<union> set qs \<and> pat_ok s'"
  using listen_many_ok[OF assms] by simp

text \<open>
  C18: the translation of a message that is sent is undone when the answer arrives: the answer to
  the real port of a registered virtual port is delivered to that virtual port.
\<close>

theorem port_translation_roundtrip:
  assumes "pat_ok s" "message_vm sm s = Ok vm" "net_of sm = Ok n"
    "find_first (\<lambda>p. ps_vPort p = localPort n) (ports vm) \<noteq> None"
    "pat_sendMessage sm s = Ok sent" "net_of sent = Ok n1"
    "uid ans = uid sm" "pid ans = pid sm" "net_of ans = Ok n2" "destinationPort n2 = localPort n1"
  shows "\<exists>n3. pat_receiveMessage ans s = Ok (set_net n3 ans) \<and> destinationPort n3 = localPort n"
proof -
  have "distinct (map ps_rPort (ports vm))"
    using distinct_vm_ports[of s "uid sm" "pid sm" vm] assms(1,2) by (simp add: message_vm_find pat_ok_def)
  from translate_back[OF this assms(4)] have t: "vm_getVirtualPort (vm_getRealPort (localPort n) vm) vm = localPort n" .
  have "localPort n1 = vm_getRealPort (localPort n) vm"
    using assms(2,3,5,6) by (auto simp: pat_sendMessage_def Let_def net_of_def set_net_def cast_net_def)
  moreover have "message_vm ans s = Ok vm" using assms(2,7,8) by (simp add: message_vm_find)
  ultimately show ?thesis using assms(9,10) t
    by (intro exI[of _ "n2\<lparr>destinationPort := localPort n, virtual_destinationPort := localPort n1\<rparr>"])
       (simp add: pat_receiveMessage_def Let_def)
qed

theorem port_translation_roundtrip_witness:
  "\<exists>n3. pat_receiveMessage (sc_net_message 0 1024 0) sc_pat = Ok (set_net n3 (sc_net_message 0 1024 0)) \<and>
     destinationPort n3 = 80"
proof -
  have new: "pat_ok pat_new" using pat_inv_new by (simp add: pat_ok_def all_rports_def pat_new_def)
  have "res_ok (pat_createListen 3 7 80 pat_new)" by code_simp
  then obtain r where "pat_createListen 3 7 80 pat_new = Ok r" by (rule res_okE)
  then have ok: "pat_ok sc_pat" using listen_ok[OF new, of 3 7 80] by (cases r) (simp add: sc_pat_def)
  define m where "m = sc_net_message 80 0 0"
  define a where "a = sc_net_message 0 1024 0"
  have "case message_vm m sc_pat of Ok vm \<Rightarrow> map (\<lambda>p. (ps_vPort p, ps_rPort p)) (ports vm) = [(80, 1024)]
      | Fail e \<Rightarrow> False" unfolding m_def by code_simp
  then obtain vm where vm: "message_vm m sc_pat = Ok vm" "map (\<lambda>p. (ps_vPort p, ps_rPort p)) (ports vm) = [(80, 1024)]"
    by (auto split: res.splits)
  obtain n where n: "net_of m = Ok n" "localPort n = 80"
    by (simp add: m_def sc_net_message_def sc_message_def net_of_def cast_net_def)
  obtain n2 where n2: "net_of a = Ok n2" "destinationPort n2 = 1024"
    by (simp add: a_def sc_net_message_def sc_message_def net_of_def cast_net_def)
  obtain p where p: "ports vm = [p]" "ps_vPort p = 80" "ps_rPort p = 1024" using vm(2) by auto
  have f: "find_first (\<lambda>p. ps_vPort p = localPort n) (ports vm) \<noteq> None" using p n by simp
  define n1 where "n1 = n\<lparr>localPort := 1024, virtual_localPort := 80\<rparr>"
  have sent: "pat_sendMessage m sc_pat = Ok (set_net n1 m)" "net_of (set_net n1 m) = Ok n1"
    using vm(1) n p by (simp_all add: pat_sendMessage_def Let_def vm_getRealPort_def n1_def net_of_def
        set_net_def cast_net_def)
  have ids: "uid a = uid m" "pid a = pid m" by (simp_all add: a_def m_def sc_net_message_def)
  have d: "destinationPort n2 = localPort n1" using n2 by (simp add: n1_def)
  from port_translation_roundtrip[OF ok vm(1) n(1) f sent ids n2(1) d] n(2) show ?thesis
    by (auto simp: a_def)
qed

text \<open>
  closing the only connection of a virtual port reads the real port after its entry has been
  deleted, gets -1, and writes outside of the array of ports.
\<close>

theorem close_connection_out_of_bounds:
  assumes "net_of sm = Ok n" "message_vm sm s = Ok vm"
    "find_first (\<lambda>p. ps_vPort p = localPort n) (ports vm) = Some p" "connectionID p = connectionId sm"
    "\<forall>q\<in>set (remove_first (\<lambda>p. connectionID p = connectionId sm) (ports vm)). ps_vPort q \<noteq> localPort n"
  shows "pat_closeConnection sm s = Fail Undefined"
  using assms by (rule close_undefined)

text \<open>
  when closing a connection does succeed, the port goes twice into the list of free ports, and
  the next two requests for a port both get it.
\<close>

theorem closed_port_given_twice:
  assumes "pat_closeConnection sm s = Ok (r, sm', s')" "portHoles s = []"
  shows "\<exists>s1 s2. getNewPort s' = Ok (r, s1) \<and> getNewPort s1 = Ok (r, s2)"
  using assms by (rule close_then_same_port)

end
